(* ===== verification/Kcv_Prelude.thy ===== *)
theory Kcv_Prelude
  imports Main "HOL-Library.Word"
begin

text \<open>
  Shared vocabulary of the development: the fixed-width integer types of the library, the
  range of \<^verbatim>\<open>size_t\<close>, the collections of rewrite rules the component theories
  extend, and the interface \<open>indexed_store\<close> of everything the code writes by index.
\<close>

section \<open>Machine types\<close>

type_synonym u8 = "8 word"
type_synonym u16 = "16 word"
type_synonym u32 = "32 word"
type_synonym u64 = "64 word"

text \<open>
  \<^verbatim>\<open>size_t\<close> values are natural numbers; wherever an operation of the code could leave the
  64-bit range the model either writes the wrap-around out or checks against \<open>size_max\<close>
  exactly where the code does.
\<close>

definition size_max :: nat where
  "size_max = 2 ^ 64 - 1"

definition size_wrap :: "int \<Rightarrow> nat" where
  "size_wrap z = nat (z mod 2 ^ 64)"

lemma size_max_pos [simp]: "0 < size_max"
  by (simp add: size_max_def)

lemma size_wrap_id: "n \<le> size_max \<Longrightarrow> size_wrap (int n) = n"
  by (simp add: size_wrap_def size_max_def)

lemma size_wrap_bound: "size_wrap z \<le> size_max"
proof -
  have "z mod 2 ^ 64 < 2 ^ 64" by simp
  then have "nat (z mod 2 ^ 64) < nat (2 ^ 64)" by (subst nat_mono_iff) simp_all
  then show ?thesis unfolding size_wrap_def size_max_def by simp
qed

named_theorems kcv_defs "definitions that are unfolded to evaluate a model function"
named_theorems loop_simps "closed forms of the loops of the code"

lemma unat_plus_one_u32:
  fixes w :: u32
  assumes "unat w + 1 < 2 ^ 32"
  shows "unat (w + 1) = unat w + 1"
proof -
  have "unat (w + 1) = (unat w + unat (1 :: u32)) mod 2 ^ 32"
    using unat_word_ariths(1) [of w 1] by simp
  with assms show ?thesis by simp
qed

section \<open>Stores written by index\<close>

text \<open>
  What the code relies on when it fills a table with \<^verbatim>\<open>for (i...) a[i] = f(i)\<close>: a
  write is seen by a later read of the same index, other indices and the size are untouched.
\<close>

locale indexed_store =
  fixes inv :: "'s \<Rightarrow> bool"
    and size_of :: "'s \<Rightarrow> nat"
    and get :: "'s \<Rightarrow> nat \<Rightarrow> 'v option"
    and put :: "'s \<Rightarrow> nat \<Rightarrow> 'v \<Rightarrow> 's"
  assumes get_defined: "inv s \<Longrightarrow> (get s i \<noteq> None) = (i < size_of s)"
    and put_inv: "inv s \<Longrightarrow> inv (put s i v)"
    and put_size: "inv s \<Longrightarrow> size_of (put s i v) = size_of s"
    and get_put: "inv s \<Longrightarrow> i < size_of s \<Longrightarrow>
      get (put s i v) j = (if j = i then Some v else get s j)"
begin

lemma fill_inv: "inv s \<Longrightarrow> inv (fold (\<lambda>i s. put s (g i) (f i)) is s)"
  by (induction "is" arbitrary: s) (auto intro: put_inv)

lemma fill_size:
  "inv s \<Longrightarrow> size_of (fold (\<lambda>i s. put s (g i) (f i)) is s) = size_of s"
  by (induction "is" arbitrary: s) (auto simp: put_size put_inv)

lemma fill_get_other:
  assumes "inv s" and "\<forall>i \<in> set is. g i < size_of s" and "j \<notin> g ` set is"
  shows "get (fold (\<lambda>i s. put s (g i) (f i)) is s) j = get s j"
  using assms by (induction "is" arbitrary: s) (auto simp: put_size put_inv get_put)

lemma fill_get:
  assumes "inv s" and "\<forall>i \<in> set is. g i < size_of s" and "inj_on g (set is)"
    and "distinct is" and "i \<in> set is"
  shows "get (fold (\<lambda>i s. put s (g i) (f i)) is s) (g i) = Some (f i)"
  using assms
proof (induction "is" arbitrary: s)
  case Nil
  then show ?case by simp
next
  case (Cons a as)
  have inv': "inv (put s (g a) (f a))"
    and sz: "\<forall>k \<in> set as. g k < size_of (put s (g a) (f a))"
    using Cons.prems by (auto simp: put_inv put_size)
  show ?case
  proof (cases "i = a")
    case True
    have "g a \<notin> g ` set as"
      using Cons.prems by (auto simp: inj_on_def)
    with True inv' sz Cons.prems show ?thesis
      by (simp add: fill_get_other get_put)
  next
    case False
    with Cons.prems have "inj_on g (set as)" "distinct as" "i \<in> set as"
      by (auto simp: inj_on_def)
    with Cons.IH [OF inv' sz] show ?thesis by simp
  qed
qed

end

text \<open>A plain array (a list written with \<open>xs[i := v]\<close>) is such a store.\<close>

definition arr_get :: "'v list \<Rightarrow> nat \<Rightarrow> 'v option" where
  "arr_get xs i = (if i < length xs then Some (xs ! i) else None)"

interpretation arr: indexed_store "\<lambda>_. True" length arr_get list_update
  by unfold_locales (auto simp: arr_get_def)

lemma arr_get_eq: "length xs = n \<Longrightarrow> i < n \<Longrightarrow> (arr_get xs i = Some v) = (xs ! i = v)"
  by (simp add: arr_get_def)

text \<open>The loop \<^verbatim>\<open>for (i = 0; i < n; ++i) a[i] = f(i)\<close> over the whole array.\<close>

lemma fill_whole_array [loop_simps]:
  assumes "length xs = n"
  shows "fold (\<lambda>i xs. xs[i := f i]) [0..<n] xs = map f [0..<n]"
proof (rule nth_equalityI)
  show len: "length (fold (\<lambda>i xs. xs[i := f i]) [0..<n] xs) = length (map f [0..<n])"
    using arr.fill_size [of "\<lambda>i. i" f "[0..<n]" xs] assms by simp
  fix i
  assume "i < length (fold (\<lambda>i xs. xs[i := f i]) [0..<n] xs)"
  with len have "i < n" by simp
  with arr.fill_get [of "[0..<n]" "\<lambda>i. i" xs i f] assms len
  show "fold (\<lambda>i xs. xs[i := f i]) [0..<n] xs ! i = map f [0..<n] ! i"
    by (simp add: arr_get_def split: if_splits)
qed

lemma fill_constant_array [loop_simps]:
  "length xs = n \<Longrightarrow> fold (\<lambda>i xs. xs[i := v]) [0..<n] xs = replicate n v"
  by (simp only: fill_whole_array map_replicate_const) simp

lemma map_nth_upt_take: "n \<le> length xs \<Longrightarrow> map ((!) xs) [0..<n] = take n xs"
  by (rule nth_equalityI) auto

section \<open>Searching a range of indices\<close>

lemma find_upt_Some:
  "find P [a..<b] = Some i \<longleftrightarrow> a \<le> i \<and> i < b \<and> P i \<and> (\<forall>j. a \<le> j \<and> j < i \<longrightarrow> \<not> P j)"
proof
  assume "find P [a..<b] = Some i"
  then obtain k where k: "k < length [a..<b]" "P ([a..<b] ! k)" "i = [a..<b] ! k"
    "\<forall>j<k. \<not> P ([a..<b] ! j)"
    by (auto simp: find_Some_iff)
  have "\<not> P j" if "a \<le> j" "j < i" for j
    using k that by (auto dest: spec [of _ "j - a"])
  with k show "a \<le> i \<and> i < b \<and> P i \<and> (\<forall>j. a \<le> j \<and> j < i \<longrightarrow> \<not> P j)" by auto
next
  assume "a \<le> i \<and> i < b \<and> P i \<and> (\<forall>j. a \<le> j \<and> j < i \<longrightarrow> \<not> P j)"
  then show "find P [a..<b] = Some i"
    by (auto simp: find_Some_iff intro!: exI [of _ "i - a"])
qed

lemma find_upt_None: "find P [a..<b] = None \<longleftrightarrow> (\<forall>i. a \<le> i \<and> i < b \<longrightarrow> \<not> P i)"
  by (auto simp: find_None_iff)

end
