(* ===== verification/Heap_Array.thy ===== *)
theory Heap_Array
  imports Kcv_Prelude
begin

text \<open>
  The owning array of the threaded API, \<^verbatim>\<open>kleidicv_thread/src/heap_array.h\<close>: its two
  fields, allocation with the overflow check, filling, reset and the move operations.
  \<^verbatim>\<open>malloc\<close> is a parameter: a predicate telling for which byte counts the allocator
  returns memory. \<open>sizeof_T\<close> and \<open>zero\<close> are \<^verbatim>\<open>sizeof(T)\<close> and \<^verbatim>\<open>T{}\<close>.
\<close>

record 'a heap_array =
  ha_data :: "'a list option"
  ha_size :: nat

definition ha_empty :: "'a heap_array" where
  "ha_empty = \<lparr>ha_data = None, ha_size = 0\<rparr>"

definition ha_inv :: "'a heap_array \<Rightarrow> bool" where
  "ha_inv a = (case ha_data a of None \<Rightarrow> ha_size a = 0
    | Some xs \<Rightarrow> length xs = ha_size a \<and> 0 < ha_size a)"

definition ha_allocate ::
    "(nat \<Rightarrow> bool) \<Rightarrow> nat \<Rightarrow> 'a \<Rightarrow> nat \<Rightarrow> 'a heap_array \<Rightarrow> bool \<times> 'a heap_array" where
  "ha_allocate malloc sizeof_T zero count a =
     (if count = 0 then (True, a)
      else if ha_data a \<noteq> None \<or> count > size_max div sizeof_T then (False, a)
      else if \<not> malloc (count * sizeof_T) then (False, a)
      else (True, \<lparr>ha_data = Some (replicate count zero), ha_size = count\<rparr>))"

text \<open>\<^verbatim>\<open>operator[]\<close>; \<open>None\<close> is an access outside the array, which C++ leaves undefined.\<close>

definition ha_get :: "'a heap_array \<Rightarrow> nat \<Rightarrow> 'a option" where
  "ha_get a i = (case ha_data a of None \<Rightarrow> None | Some xs \<Rightarrow> arr_get xs i)"

definition ha_put :: "'a heap_array \<Rightarrow> nat \<Rightarrow> 'a \<Rightarrow> 'a heap_array" where
  "ha_put a i v = a\<lparr>ha_data := map_option (\<lambda>xs. xs[i := v]) (ha_data a)\<rparr>"

definition ha_allocate_and_fill ::
    "(nat \<Rightarrow> bool) \<Rightarrow> nat \<Rightarrow> 'a \<Rightarrow> nat \<Rightarrow> 'a \<Rightarrow> 'a heap_array \<Rightarrow> bool \<times> 'a heap_array" where
  "ha_allocate_and_fill malloc sizeof_T zero count initial_value a =
     (case ha_allocate malloc sizeof_T zero count a of
        (False, a') \<Rightarrow> (False, a')
      | (True, a') \<Rightarrow> (True, fold (\<lambda>i a. ha_put a i initial_value) [0..<ha_size a'] a'))"

definition ha_reset :: "'a heap_array \<Rightarrow> 'a heap_array" where
  "ha_reset a = \<lparr>ha_data = None, ha_size = 0\<rparr>"

text \<open>The move constructor: the new object and what is left of the source.\<close>

definition ha_move :: "'a heap_array \<Rightarrow> 'a heap_array \<times> 'a heap_array" where
  "ha_move other = (\<lparr>ha_data = ha_data other, ha_size = ha_size other\<rparr>,
                    \<lparr>ha_data = None, ha_size = 0\<rparr>)"

text \<open>Move assignment; \<open>same\<close> is the test \<^verbatim>\<open>this == &other\<close>.\<close>

definition ha_move_assign ::
    "bool \<Rightarrow> 'a heap_array \<Rightarrow> 'a heap_array \<Rightarrow> 'a heap_array \<times> 'a heap_array" where
  "ha_move_assign same this_arr other =
     (if \<not> same
      then let this_arr = ha_reset this_arr in
        (this_arr\<lparr>ha_data := ha_data other, ha_size := ha_size other\<rparr>,
         other\<lparr>ha_data := None, ha_size := 0\<rparr>)
      else (this_arr, other))"

definition ha_elems :: "'a heap_array \<Rightarrow> 'a list" where
  "ha_elems a = (case ha_data a of None \<Rightarrow> [] | Some xs \<Rightarrow> xs)"

lemmas ha_defs [kcv_defs] = ha_empty_def ha_allocate_def ha_get_def ha_put_def
  ha_allocate_and_fill_def ha_reset_def ha_move_def ha_move_assign_def ha_elems_def

section \<open>The array is an indexed store\<close>

interpretation ha: indexed_store ha_inv ha_size ha_get ha_put
  by unfold_locales
    (auto simp: ha_inv_def ha_get_def ha_put_def arr_get_def split: option.splits)

lemma ha_inv_empty [simp, intro]: "ha_inv ha_empty"
  by (simp add: ha_inv_def ha_empty_def)

lemma ha_length_elems: "ha_inv a \<Longrightarrow> length (ha_elems a) = ha_size a"
  by (auto simp: ha_inv_def ha_elems_def split: option.splits)

lemma ha_get_elems: "ha_inv a \<Longrightarrow> ha_get a i = arr_get (ha_elems a) i"
  by (auto simp: ha_inv_def ha_elems_def ha_get_def arr_get_def split: option.splits)

lemma ha_fill_eq:
  "fold (\<lambda>i a. ha_put a i v) is a =
     a\<lparr>ha_data := map_option (fold (\<lambda>i xs. xs[i := v]) is) (ha_data a)\<rparr>"
  by (induction "is" arbitrary: a)
    (auto simp: ha_put_def option.map_comp comp_def option.map_id0 [unfolded id_def]
      option.map_ident id_def)

lemma ha_allocate_fresh:
  "ha_allocate malloc sz z n ha_empty = (ok, a) \<Longrightarrow> ok \<Longrightarrow>
     ha_inv a \<and> ha_elems a = replicate n z \<and> ha_size a = n"
  by (auto simp: ha_allocate_def ha_inv_def ha_elems_def ha_empty_def split: if_splits)

lemma ha_allocate_ok:
  assumes "0 < n" and "0 < sz" and "sz * n \<le> size_max" and "malloc (sz * n)"
  shows "ha_allocate malloc sz z n ha_empty
    = (True, \<lparr>ha_data = Some (replicate n z), ha_size = n\<rparr>)"
proof -
  have "n \<le> size_max div sz"
    using assms(2,3) by (simp add: less_eq_div_iff_mult_less_eq mult.commute)
  with assms show ?thesis by (simp add: ha_allocate_def ha_empty_def mult.commute)
qed

lemma ha_allocate_and_fill_fresh:
  assumes "ha_allocate_and_fill malloc sz z n v ha_empty = (ok, a)" and "ok"
  shows "ha_inv a \<and> ha_elems a = replicate n v \<and> ha_size a = n"
proof -
  from assms obtain a' where alloc: "ha_allocate malloc sz z n ha_empty = (True, a')"
    and a: "a = fold (\<lambda>i a. ha_put a i v) [0..<ha_size a'] a'"
    by (auto simp: ha_allocate_and_fill_def split: prod.splits bool.splits)
  from ha_allocate_fresh [OF alloc]
  have a': "ha_inv a'" "ha_elems a' = replicate n z" "ha_size a' = n" by auto
  then show ?thesis
    unfolding a using ha.fill_inv [OF a'(1), of "\<lambda>i. i" "\<lambda>_. v"]
    by (auto simp: ha_fill_eq ha_elems_def fill_constant_array split: option.splits)
qed

end
