(* ===== verification/Cpu_List.thy ===== *)
theory Cpu_List
  imports Heap_Array
begin

text \<open>
  Reading of the kernel's text files in \<^verbatim>\<open>kleidicv_thread/src/sme_thread_limiter.cpp\<close>:
  the CPU list format (\<^verbatim>\<open>0-3,8\<close>), hexadecimal register files and the register path.
  The system calls are events: \<^verbatim>\<open>open\<close> succeeds or not, each \<^verbatim>\<open>read\<close>
  delivers bytes, end of file, an interruption or an error. The standard conversions
  \<^verbatim>\<open>std::from_chars\<close> and \<^verbatim>\<open>std::to_chars\<close> are modelled for
  unsigned 64-bit values.
\<close>

section \<open>std::from_chars and std::to_chars\<close>

definition char_digit :: "nat \<Rightarrow> char \<Rightarrow> nat option" where
  "char_digit base c =
     (let n = of_char c :: nat;
          d = (if 48 \<le> n \<and> n \<le> 57 then Some (n - 48)
               else if 97 \<le> n \<and> n \<le> 122 then Some (n - 87)
               else if 65 \<le> n \<and> n \<le> 90 then Some (n - 55) else None)
      in case d of None \<Rightarrow> None | Some v \<Rightarrow> if v < base then Some v else None)"

fun digit_prefix :: "nat \<Rightarrow> char list \<Rightarrow> nat list \<times> char list" where
  "digit_prefix base [] = ([], [])"
| "digit_prefix base (c # cs) =
     (case char_digit base c of
        None \<Rightarrow> ([], c # cs)
      | Some d \<Rightarrow> (case digit_prefix base cs of (ds, rest) \<Rightarrow> (d # ds, rest)))"

text \<open>
  The value and the unread rest (\<^verbatim>\<open>ptr\<close>); \<open>None\<close> stands for both error codes,
  no digits and value out of range.
\<close>

definition from_chars :: "nat \<Rightarrow> char list \<Rightarrow> (nat \<times> char list) option" where
  "from_chars base cs =
     (case digit_prefix base cs of
        ([], rest) \<Rightarrow> None
      | (ds, rest) \<Rightarrow> (let v = foldl (\<lambda>a d. a * base + d) 0 ds in
           if v \<le> size_max then Some (v, rest) else None))"

fun to_chars :: "nat \<Rightarrow> char list" where
  "to_chars n = (if n < 10 then [char_of (48 + n)]
     else to_chars (n div 10) @ [char_of (48 + n mod 10)])"

declare to_chars.simps [simp del]

section \<open>Reading a whole file\<close>

datatype read_event = Bytes "char list" | Eof | Interrupted | Read_Error

text \<open>\<open>Pending\<close>: the events so far leave the loop waiting for the next \<^verbatim>\<open>read\<close>.\<close>

datatype raw_read = Contents "char list" | Failed | Pending

text \<open>
  The loop of \<^verbatim>\<open>read_raw_file\<close>; \<open>buf\<close> holds the bytes read so far. A
  \<^verbatim>\<open>read\<close> returns at most the \<^verbatim>\<open>capacity - length\<close> bytes asked for,
  and \<open>Bytes []\<close> is the return value 0.
\<close>

fun raw_read_loop :: "nat \<Rightarrow> char list \<Rightarrow> read_event list \<Rightarrow> raw_read" where
  "raw_read_loop capacity buf events =
     (if length buf < capacity then
        (case events of
           [] \<Rightarrow> Pending
         | Bytes bs # es \<Rightarrow>
             (if bs = [] then Contents buf
              else raw_read_loop capacity (buf @ take (capacity - length buf) bs) es)
         | Interrupted # es \<Rightarrow> raw_read_loop capacity buf es
         | Eof # es \<Rightarrow> Contents buf
         | Read_Error # es \<Rightarrow> Failed)
      else Failed)"

declare raw_read_loop.simps [simp del]

definition read_raw_file :: "bool \<Rightarrow> nat \<Rightarrow> read_event list \<Rightarrow> raw_read" where
  "read_raw_file open_ok capacity events =
     (if capacity = 0 then Failed
      else if \<not> open_ok then Failed
      else raw_read_loop capacity [] events)"

definition kCpuListCapacity :: nat where "kCpuListCapacity = 512"
definition kRegisterPathCapacity :: nat where "kRegisterPathCapacity = 128"

section \<open>The CPU list\<close>

definition find_next_comma :: "char list \<Rightarrow> nat \<Rightarrow> nat \<Rightarrow> nat option" where
  "find_next_comma contents len start =
     (if start > len then None
      else find (\<lambda>index. contents ! index = CHR '','') [start..<len])"

record CpuIdRange =
  first_id :: nat
  cpu_count :: nat

definition read_cpu_range :: "char list \<Rightarrow> nat \<Rightarrow> nat \<Rightarrow> CpuIdRange option" where
  "read_cpu_range contents begin stop =
     (if begin \<ge> stop then None
      else case from_chars 10 (take (stop - begin) (drop begin contents)) of
        None \<Rightarrow> None
      | Some (first, rest) \<Rightarrow>
          (case rest of
             [] \<Rightarrow> Some \<lparr>first_id = first, cpu_count = 1\<rparr>
           | c # rest' \<Rightarrow>
               (if c \<noteq> CHR ''-'' then None
                else case from_chars 10 rest' of
                  None \<Rightarrow> None
                | Some (second, rest'') \<Rightarrow>
                    (if rest'' \<noteq> [] \<or> second \<le> first then None
                     else let range_span = second - first in
                       if range_span = size_max then None
                       else Some \<lparr>first_id = first, cpu_count = range_span + 1\<rparr>))))"

text \<open>The end of the entry that starts at \<open>begin\<close>, and the start of the next one.\<close>

definition entry_end :: "char list \<Rightarrow> nat \<Rightarrow> nat \<Rightarrow> nat" where
  "entry_end contents len begin =
     (case find_next_comma contents len begin of Some c \<Rightarrow> c | None \<Rightarrow> len)"

definition next_begin :: "char list \<Rightarrow> nat \<Rightarrow> nat \<Rightarrow> nat" where
  "next_begin contents len begin =
     (case find_next_comma contents len begin of Some c \<Rightarrow> c + 1 | None \<Rightarrow> len)"

lemma next_begin_greater: "begin < n \<Longrightarrow> begin < next_begin cs n begin"
  by (auto simp: next_begin_def find_next_comma_def find_upt_Some split: option.splits)

text \<open>The first pass counts the CPUs and validates every entry.\<close>

function count_pass :: "char list \<Rightarrow> nat \<Rightarrow> nat \<Rightarrow> nat \<Rightarrow> nat option" where
  "count_pass contents len begin count =
     (if begin < len then
        (case read_cpu_range contents begin (entry_end contents len begin) of
           None \<Rightarrow> None
         | Some rng \<Rightarrow>
             (if count > size_max - cpu_count rng then None
              else count_pass contents len (next_begin contents len begin)
                     (count + cpu_count rng)))
      else Some count)"
  by pat_completeness auto
termination
  by (relation "measure (\<lambda>(cs, n, b, c). n - b)") (auto intro: diff_less_mono2 next_begin_greater)

declare count_pass.simps [simp del]

text \<open>The second pass writes the ids; \<open>i\<close> is the index of the next free slot.\<close>

definition write_range :: "CpuIdRange \<Rightarrow> nat \<times> nat list \<Rightarrow> nat \<times> nat list" where
  "write_range rng st =
     fold (\<lambda>j (i, result). (i + 1, result[i := first_id rng + j])) [0..<cpu_count rng] st"

function fill_pass ::
    "char list \<Rightarrow> nat \<Rightarrow> nat \<Rightarrow> nat \<times> nat list \<Rightarrow> (nat \<times> nat list) option" where
  "fill_pass contents len begin st =
     (if begin < len then
        (case read_cpu_range contents begin (entry_end contents len begin) of
           None \<Rightarrow> None
         | Some rng \<Rightarrow>
             fill_pass contents len (next_begin contents len begin)
               (write_range rng st))
      else Some st)"
  by pat_completeness auto
termination
  by (relation "measure (\<lambda>(cs, n, b, c). n - b)") (auto intro: diff_less_mono2 next_begin_greater)

declare fill_pass.simps [simp del]

text \<open>
  \<^verbatim>\<open>read_online_cpu_ids\<close> on a file given by its events, read into a buffer of
  \<open>kCpuListCapacity\<close> bytes on the stack; \<open>malloc\<close> decides the allocation of the result.
\<close>

definition read_online_cpu_ids :: "(nat \<Rightarrow> bool) \<Rightarrow> bool \<Rightarrow> read_event list \<Rightarrow> nat heap_array option" where
  "read_online_cpu_ids malloc open_ok events =
     (case read_raw_file open_ok kCpuListCapacity events of
        Contents buffer \<Rightarrow>
          (if buffer = [] then None
           else
             let len = length buffer;
                 len = (if buffer ! (len - 1) = CHR 0x0A then len - 1 else len)
             in if len = 0 \<or> buffer ! (len - 1) = CHR '','' then None
             else case count_pass buffer len 0 0 of
               None \<Rightarrow> None
             | Some count \<Rightarrow>
                 (case ha_allocate malloc 8 0 count ha_empty of
                    (False, _) \<Rightarrow> None
                  | (True, result) \<Rightarrow>
                      (case fill_pass buffer len 0 (0, ha_elems result) of
                         None \<Rightarrow> None
                       | Some (i, ids) \<Rightarrow> Some (result\<lparr>ha_data := map_option (\<lambda>_. ids) (ha_data result)\<rparr>))))
      | _ \<Rightarrow> None)"

section \<open>Hexadecimal register files\<close>

text \<open>
  \<^verbatim>\<open>read_hex_file\<close>: one \<^verbatim>\<open>read\<close> of at most 32 bytes, an optional
  \<^verbatim>\<open>0x\<close>, the digits up to a line end.
\<close>

definition is_line_end :: "char \<Rightarrow> bool" where
  "is_line_end c \<longleftrightarrow> c = CHR 0x0A \<or> c = CHR 0x0D"

definition read_hex_file :: "bool \<Rightarrow> read_event \<Rightarrow> nat option" where
  "read_hex_file open_ok event =
     (if \<not> open_ok then None
      else case event of
        Bytes bs \<Rightarrow>
          (let buffer = take 32 bs; len = length buffer in
           if len = 0 then None
           else
             let index = (if len \<ge> 2 \<and> buffer ! 0 = CHR ''0''
                            \<and> (buffer ! 1 = CHR ''x'' \<or> buffer ! 1 = CHR ''X'') then 2 else 0);
                 digits = takeWhile (\<lambda>c. \<not> is_line_end c) (drop index buffer)
             in case from_chars 16 digits of
                  None \<Rightarrow> None
                | Some (value, rest) \<Rightarrow> if rest \<noteq> [] then None else Some value)
      | _ \<Rightarrow> None)"

section \<open>Register paths\<close>

text \<open>The path up to its terminating NUL; the array behind it is zero-filled.\<close>

definition make_register_path :: "nat \<Rightarrow> char list \<Rightarrow> char list" where
  "make_register_path cpu register_name =
     ''/sys/devices/system/cpu/cpu'' @ to_chars cpu @ ''/regs/identification/'' @ register_name"

lemmas cpu_list_defs [kcv_defs] = find_next_comma_def entry_end_def next_begin_def
  read_cpu_range_def write_range_def read_online_cpu_ids_def is_line_end_def read_hex_file_def
  from_chars_def char_digit_def make_register_path_def read_raw_file_def

section \<open>Decimal digits and the conversions\<close>

lemma char_digit_digit [simp]: "d < 10 \<Longrightarrow> char_digit 10 (char_of (48 + d)) = Some d"
  by (simp add: char_digit_def Let_def)

definition is_digit :: "char \<Rightarrow> bool" where
  "is_digit c \<longleftrightarrow> char_digit 10 c \<noteq> None"

lemma is_digit_not_sep: "\<not> is_digit (CHR '','')" "\<not> is_digit (CHR ''-'')" "\<not> is_digit (CHR 0x0A)"
  by (simp_all add: is_digit_def char_digit_def)

lemma to_chars_digits: "c \<in> set (to_chars n) \<Longrightarrow> is_digit c"
proof (induction n rule: to_chars.induct)
  case (1 n)
  then show ?case
    by (cases "n < 10") (auto simp: to_chars.simps [of n] is_digit_def)
qed

lemma to_chars_nonempty [simp]: "to_chars n \<noteq> []"
  by (simp add: to_chars.simps [of n])

lemma digit_prefix_append:
  assumes "\<forall>c \<in> set cs. is_digit c" and "rest = [] \<or> \<not> is_digit (hd rest)"
  shows "digit_prefix 10 (cs @ rest) = (map (\<lambda>c. the (char_digit 10 c)) cs, rest)"
  using assms(1)
proof (induction cs)
  case Nil
  then show ?case using assms(2) by (cases rest) (auto simp: is_digit_def)
next
  case (Cons c cs)
  then show ?case by (auto simp: is_digit_def)
qed

lemma to_chars_value:
  "foldl (\<lambda>a d. a * 10 + d) 0 (map (\<lambda>c. the (char_digit 10 c)) (to_chars n)) = n"
proof (induction n rule: to_chars.induct)
  case (1 n)
  show ?case
  proof (cases "n < 10")
    case True
    then show ?thesis by (simp add: to_chars.simps [of n])
  next
    case False
    with 1 show ?thesis by (simp add: to_chars.simps [of n])
  qed
qed

lemma from_chars_to_chars:
  assumes "n \<le> size_max" and "rest = [] \<or> \<not> is_digit (hd rest)"
  shows "from_chars 10 (to_chars n @ rest) = Some (n, rest)"
proof -
  have "digit_prefix 10 (to_chars n @ rest)
      = (map (\<lambda>c. the (char_digit 10 c)) (to_chars n), rest)"
    using to_chars_digits assms(2) by (intro digit_prefix_append) auto
  moreover obtain d ds where "map (\<lambda>c. the (char_digit 10 c)) (to_chars n) = d # ds"
    by (cases "to_chars n") auto
  moreover have "foldl (\<lambda>a d. a * 10 + d) 0 (d # ds) = n"
    using calculation(2) to_chars_value [of n] by simp
  ultimately show ?thesis
    using assms(1) by (simp add: from_chars_def Let_def)
qed

lemma to_chars_inj: "to_chars m = to_chars n \<Longrightarrow> m = n"
  by (metis to_chars_value)

lemma make_register_path_inj:
  assumes "make_register_path a r = make_register_path b s"
  shows "a = b \<and> r = s"
proof -
  have eq: "to_chars a @ ''/regs/identification/'' @ r = to_chars b @ ''/regs/identification/'' @ s"
    using assms by (simp add: make_register_path_def)
  have stop: "\<not> is_digit (hd (''/regs/identification/'' @ t))" for t
    by (simp add: is_digit_def char_digit_def)
  have "digit_prefix 10 (to_chars n @ ''/regs/identification/'' @ t)
      = (map (\<lambda>c. the (char_digit 10 c)) (to_chars n), ''/regs/identification/'' @ t)" for n t
    using to_chars_digits stop [of t] by (intro digit_prefix_append) auto
  from this [of a r] this [of b s] eq
  have "map (\<lambda>c. the (char_digit 10 c)) (to_chars a) = map (\<lambda>c. the (char_digit 10 c)) (to_chars b)"
    and "''/regs/identification/'' @ r = ''/regs/identification/'' @ s" by simp_all
  then show ?thesis by (metis to_chars_value append_same_eq same_append_eq)
qed

section \<open>Reading a file does not depend on how it is delivered\<close>

fun delivers :: "read_event list \<Rightarrow> char list \<Rightarrow> bool" where
  "delivers [] cs = False"
| "delivers (Bytes bs # es) cs = (bs \<noteq> [] \<and> take (length bs) cs = bs \<and> delivers es (drop (length bs) cs))"
| "delivers (Interrupted # es) cs = delivers es cs"
| "delivers (Eof # es) cs = (cs = [])"
| "delivers (Read_Error # es) cs = False"

lemma raw_read_loop_delivers:
  assumes "delivers events cs" and "length buf + length cs < capacity"
  shows "raw_read_loop capacity buf events = Contents (buf @ cs)"
  using assms
proof (induction events cs arbitrary: buf rule: delivers.induct)
  case (2 bs es cs)
  have le: "length bs \<le> length cs"
    using 2 by (metis delivers.simps(2) length_take min.cobounded1)
  have "take (capacity - length buf) bs = bs"
    using 2 le by simp
  with 2 le show ?case
    by (simp add: raw_read_loop.simps [of capacity buf]) (metis append_take_drop_id)
qed (simp_all add: raw_read_loop.simps)

lemma raw_read_loop_too_long:
  assumes "delivers events cs" and "length buf \<le> capacity" and "capacity \<le> length buf + length cs"
  shows "raw_read_loop capacity buf events = Failed"
  using assms
proof (induction events cs arbitrary: buf rule: delivers.induct)
  case (2 bs es cs)
  have le: "length bs \<le> length cs"
    using 2 by (metis delivers.simps(2) length_take min.cobounded1)
  show ?case
  proof (cases "length buf + length bs \<le> capacity")
    case True
    with 2 le show ?thesis by (simp add: raw_read_loop.simps [of capacity buf])
  next
    case False
    then show ?thesis using 2
      by (simp add: raw_read_loop.simps [of capacity buf] raw_read_loop.simps [of capacity "_ @ _"])
  qed
next
  case (3 es cs)
  then show ?case by (simp add: raw_read_loop.simps [of capacity buf "Interrupted # es"])
next
  case (4 es cs)
  then show ?case by (simp add: raw_read_loop.simps)
qed simp_all

section \<open>The two passes over the list\<close>

text \<open>The ids of an entry, of a list of entries, and their text.\<close>

definition range_ids :: "CpuIdRange \<Rightarrow> nat list" where
  "range_ids r = map (\<lambda>j. first_id r + j) [0..<cpu_count r]"

definition range_valid :: "CpuIdRange \<Rightarrow> bool" where
  "range_valid r \<longleftrightarrow> 1 \<le> cpu_count r \<and> cpu_count r \<le> size_max
     \<and> first_id r + cpu_count r \<le> size_max + 1"

definition render_range :: "CpuIdRange \<Rightarrow> char list" where
  "render_range r = (if cpu_count r = 1 then to_chars (first_id r)
     else to_chars (first_id r) @ CHR ''-'' # to_chars (first_id r + cpu_count r - 1))"

fun render_list :: "CpuIdRange list \<Rightarrow> char list" where
  "render_list [] = []"
| "render_list [r] = render_range r"
| "render_list (r # rs) = render_range r @ CHR '','' # render_list rs"

lemma write_range_eq:
  assumes "i + cpu_count r \<le> length res"
  shows "write_range r (i, res)
    = (i + cpu_count r, take i res @ range_ids r @ drop (i + cpu_count r) res)"
proof -
  have "fold (\<lambda>j (i, res). (i + 1, res[i := first_id r + j])) [0..<n] (i, res)
      = (i + n, take i res @ map (\<lambda>j. first_id r + j) [0..<n] @ drop (i + n) res)"
    if "i + n \<le> length res" for n
    using that
  proof (induction n)
    case (Suc n)
    then have "i + n < length res" by simp
    then have "drop (i + n) res = res ! (i + n) # drop (Suc (i + n)) res"
      by (simp add: Cons_nth_drop_Suc)
    with Suc show ?case by (simp add: list_update_append)
  qed simp
  from this [of "cpu_count r"] assms show ?thesis
    by (simp add: write_range_def range_ids_def)
qed

text \<open>
  Whatever the text, the second pass succeeds where the first did, writes exactly as many
  slots as the first counted, and never past the end of the array allocated for them.
\<close>

lemma passes_agree:
  assumes "count_pass cs n b c = Some c'" and "i + (c' - c) \<le> length res"
  shows "c \<le> c' \<and> (\<exists>ids. length ids = c' - c \<and>
    fill_pass cs n b (i, res) = Some (i + (c' - c), take i res @ ids @ drop (i + (c' - c)) res))"
  using assms
proof (induction cs n b c arbitrary: i res rule: count_pass.induct)
  case (1 cs n b c)
  show ?case
  proof (cases "b < n")
    case False
    with 1 show ?thesis by (simp add: count_pass.simps [of cs n b] fill_pass.simps [of cs n b])
  next
    case True
    with "1.prems"(1) obtain r where r: "read_cpu_range cs b (entry_end cs n b) = Some r"
      and "\<not> c > size_max - cpu_count r"
      and rec: "count_pass cs n (next_begin cs n b) (c + cpu_count r) = Some c'"
      by (auto simp: count_pass.simps [of cs n b] split: option.splits if_splits)
    note IH = "1.IH" [OF True r \<open>\<not> c > size_max - cpu_count r\<close> rec]
    define i' res' where "i' = i + cpu_count r"
      and "res' = take i res @ range_ids r @ drop (i + cpu_count r) res"
    have ids: "length (range_ids r) = cpu_count r" by (simp add: range_ids_def)
    have le: "c + cpu_count r \<le> c'"
      using IH [of 0 "replicate c' 0"] by simp
    with "1.prems"(2) have room: "i + cpu_count r \<le> length res"
      and room': "i' + (c' - (c + cpu_count r)) \<le> length res'"
      by (auto simp: i'_def res'_def ids)
    from IH [OF room'] obtain ids' where ids': "length ids' = c' - (c + cpu_count r)"
      and fill: "fill_pass cs n (next_begin cs n b) (i', res')
        = Some (i' + (c' - (c + cpu_count r)),
            take i' res' @ ids' @ drop (i' + (c' - (c + cpu_count r))) res')" by auto
    have "fill_pass cs n b (i, res) = fill_pass cs n (next_begin cs n b) (i', res')"
      using True r room by (simp add: fill_pass.simps [of cs n b] write_range_eq i'_def res'_def)
    moreover have "take i' res' = take i res @ range_ids r"
      using room by (simp add: i'_def res'_def ids min_def)
    moreover have "drop (i' + (c' - (c + cpu_count r))) res' = drop (i + (c' - c)) res"
      using room le by (simp add: i'_def res'_def ids min_def add.commute [of i c'])
    ultimately have "fill_pass cs n b (i, res)
        = Some (i + (c' - c), take i res @ (range_ids r @ ids') @ drop (i + (c' - c)) res)"
      using fill le by (simp add: i'_def)
    then show ?thesis using ids ids' le by (intro conjI exI [of _ "range_ids r @ ids'"]) auto
  qed
qed

section \<open>Parsing what was rendered\<close>

lemma read_cpu_range_slice:
  "read_cpu_range (pre @ e @ post) (length pre) (length pre + length e)
     = (if e = [] then None else read_cpu_range e 0 (length e))"
  by (simp add: read_cpu_range_def)

lemma read_cpu_range_render:
  assumes "range_valid r"
  shows "read_cpu_range (render_range r) 0 (length (render_range r)) = Some r"
proof -
  obtain a n where r: "r = \<lparr>first_id = a, cpu_count = n\<rparr>" by (cases r) auto
  have a: "a \<le> size_max" using assms by (simp add: range_valid_def r)
  show ?thesis
  proof (cases "n = 1")
    case True
    with a from_chars_to_chars [of a "[]"] show ?thesis
      by (simp add: r render_range_def read_cpu_range_def)
  next
    case False
    let ?last = "to_chars (a + n - 1)"
    have "from_chars 10 (to_chars a @ CHR ''-'' # ?last) = Some (a, CHR ''-'' # ?last)"
      using a by (intro from_chars_to_chars) (auto simp: is_digit_not_sep)
    moreover have "a + n - 1 \<le> size_max"
      using assms unfolding range_valid_def r by simp linarith
    then have "from_chars 10 ?last = Some (a + n - 1, [])"
      using from_chars_to_chars [of "a + n - 1" "[]"] by simp
    ultimately show ?thesis
      using assms False
      by (simp add: r render_range_def read_cpu_range_def range_valid_def Let_def) arith
  qed
qed

lemma render_range_no_comma: "CHR '','' \<notin> set (render_range r)"
  using to_chars_digits is_digit_not_sep(1) by (auto simp: render_range_def)

lemma render_range_nonempty [simp]: "render_range r \<noteq> []"
  by (simp add: render_range_def)

lemma render_list_nonempty: "rs \<noteq> [] \<Longrightarrow> render_list rs \<noteq> []"
  by (induction rs rule: render_list.induct) auto

lemma find_comma_last:
  assumes "CHR '','' \<notin> set e"
  shows "find_next_comma (pre @ e @ post) (length pre + length e) (length pre) = None"
  using assms by (auto simp: find_next_comma_def find_upt_None nth_append dest!: nth_mem)

lemma find_comma_mid:
  assumes "CHR '','' \<notin> set e" and "length pre + length e < n"
  shows "find_next_comma (pre @ e @ CHR '','' # post) n (length pre) = Some (length pre + length e)"
  using assms by (auto simp: find_next_comma_def find_upt_Some nth_append dest!: nth_mem)

lemma count_pass_render:
  assumes "rs \<noteq> []" and "list_all range_valid rs" and "c + sum_list (map cpu_count rs) \<le> size_max"
  shows "count_pass (pre @ render_list rs @ post) (length pre + length (render_list rs)) (length pre) c
    = Some (c + sum_list (map cpu_count rs))"
  using assms
proof (induction rs arbitrary: pre c rule: render_list.induct)
  case (2 r)
  note comma = find_comma_last [OF render_range_no_comma [of r], of pre post]
  from 2 show ?case
    by (simp add: count_pass.simps [of _ _ "length pre"] comma entry_end_def next_begin_def
        read_cpu_range_slice read_cpu_range_render count_pass.simps [of _ _ "length pre + _"])
next
  case (3 r r2 rs)
  let ?rest = "render_list (r2 # rs)"
  have comma: "find_next_comma (pre @ render_range r @ CHR '','' # ?rest @ post)
      (Suc (length pre + (length (render_range r) + length ?rest))) (length pre)
      = Some (length pre + length (render_range r))"
    by (rule find_comma_mid [OF render_range_no_comma]) simp
  have "count_pass ((pre @ render_range r @ [CHR '','']) @ ?rest @ post)
      (length (pre @ render_range r @ [CHR '','']) + length ?rest)
      (length (pre @ render_range r @ [CHR '',''])) (c + cpu_count r)
      = Some (c + cpu_count r + sum_list (map cpu_count (r2 # rs)))"
    using 3 by (intro "3.IH") (auto simp: ac_simps)
  with 3 show ?case
    by (simp add: count_pass.simps [of _ _ "length pre"] comma entry_end_def next_begin_def
        read_cpu_range_slice read_cpu_range_render ac_simps)
qed simp

lemma fill_pass_render:
  assumes "rs \<noteq> []" and "list_all range_valid rs"
  shows "fill_pass (pre @ render_list rs @ post) (length pre + length (render_list rs)) (length pre) st
    = Some (fold write_range rs st)"
  using assms
proof (induction rs arbitrary: pre st rule: render_list.induct)
  case (2 r)
  note comma = find_comma_last [OF render_range_no_comma [of r], of pre post]
  from 2 show ?case
    by (simp add: fill_pass.simps [of _ _ "length pre"] comma entry_end_def next_begin_def
        read_cpu_range_slice read_cpu_range_render fill_pass.simps [of _ _ "length pre + _"])
next
  case (3 r r2 rs)
  let ?rest = "render_list (r2 # rs)"
  have comma: "find_next_comma (pre @ render_range r @ CHR '','' # ?rest @ post)
      (Suc (length pre + (length (render_range r) + length ?rest))) (length pre)
      = Some (length pre + length (render_range r))"
    by (rule find_comma_mid [OF render_range_no_comma]) simp
  have "fill_pass ((pre @ render_range r @ [CHR '','']) @ ?rest @ post)
      (length (pre @ render_range r @ [CHR '','']) + length ?rest)
      (length (pre @ render_range r @ [CHR '',''])) (write_range r st)
      = Some (fold write_range (r2 # rs) (write_range r st))"
    using 3 by (intro "3.IH") auto
  with 3 show ?case
    by (simp add: fill_pass.simps [of _ _ "length pre"] comma entry_end_def next_begin_def
        read_cpu_range_slice read_cpu_range_render ac_simps)
qed simp

lemma fold_write_range:
  assumes "i + sum_list (map cpu_count rs) \<le> length res"
  shows "fold write_range rs (i, res) = (i + sum_list (map cpu_count rs),
    take i res @ concat (map range_ids rs) @ drop (i + sum_list (map cpu_count rs)) res)"
  using assms
proof (induction rs arbitrary: i res)
  case (Cons r rs)
  have len: "length (range_ids r) = cpu_count r" by (simp add: range_ids_def)
  have i: "min (length res) i = i" using Cons.prems by simp
  let ?n = "sum_list (map cpu_count rs)" and ?res = "take i res @ range_ids r @ drop (i + cpu_count r) res"
  have "fold write_range rs (i + cpu_count r, ?res) = (i + cpu_count r + ?n,
      take (i + cpu_count r) ?res @ concat (map range_ids rs) @ drop (i + cpu_count r + ?n) ?res)"
    using Cons.prems by (intro Cons.IH) (simp add: len i)
  moreover have "take (i + cpu_count r) ?res = take i res @ range_ids r"
    using Cons.prems by (simp add: len i)
  moreover have "drop (i + cpu_count r + ?n) ?res = drop (i + (cpu_count r + ?n)) res"
    using Cons.prems by (simp add: len i ac_simps)
  ultimately show ?case using Cons.prems by (simp add: write_range_eq ac_simps)
qed simp

text \<open>The buffer of the reader holds fewer bytes than its capacity, or the file is refused.\<close>

lemma read_raw_file_delivers:
  assumes "delivers events cs" and "0 < capacity"
  shows "read_raw_file True capacity events = (if length cs < capacity then Contents cs else Failed)"
  using raw_read_loop_delivers [OF assms(1), of "[]" capacity] raw_read_loop_too_long [OF assms(1), of "[]" capacity]
    assms(2)
  by (simp add: read_raw_file_def)

text \<open>
  C34. A file with a list of CPU ranges in the kernel's format, with or without the final newline,
  delivered by \<^verbatim>\<open>read\<close> in pieces of any size with any interruptions in between: if it
  is shorter than the buffer of 512 bytes, \<^verbatim>\<open>read_online_cpu_ids\<close> gives exactly the ids
  of the ranges, in order; from 512 bytes on the file is refused, however well-formed it is.
\<close>

theorem read_online_cpu_ids_render:
  assumes "rs \<noteq> []" and "list_all range_valid rs"
    and "8 * sum_list (map cpu_count rs) \<le> size_max"
    and "malloc (8 * sum_list (map cpu_count rs))"
    and "nl = [] \<or> nl = [CHR 0x0A]"
    and "delivers events (render_list rs @ nl)"
  shows "if length (render_list rs @ nl) < 512
    then \<exists>a. read_online_cpu_ids malloc True events = Some a
      \<and> ha_inv a \<and> ha_elems a = concat (map range_ids rs)
    else read_online_cpu_ids malloc True events = None"
proof (cases "length (render_list rs @ nl) < 512")
  case False
  then show ?thesis
    using read_raw_file_delivers [OF assms(6), of kCpuListCapacity]
    by (simp add: read_online_cpu_ids_def kCpuListCapacity_def)
next
  case True
  let ?n = "sum_list (map cpu_count rs)" and ?t = "render_list rs" and ?b = "render_list rs @ nl"
  have last: "last ?t \<noteq> CHR '','' \<and> last ?t \<noteq> CHR 0x0A"
    using assms(1)
  proof (induction rs rule: render_list.induct)
    case (2 r)
    have "is_digit (last (render_range r))"
      using to_chars_digits [OF last_in_set [OF to_chars_nonempty]] by (simp add: render_range_def)
    then show ?case using is_digit_not_sep by auto
  qed (auto simp: render_list_nonempty)
  have t: "?t \<noteq> []" by (rule render_list_nonempty [OF assms(1)])
  obtain r rs' where "rs = r # rs'" using assms(1) by (cases rs) auto
  with assms(2) have n: "0 < ?n" by (auto simp: range_valid_def)
  have alloc: "ha_allocate malloc 8 0 ?n ha_empty
      = (True, \<lparr>ha_data = Some (replicate ?n 0), ha_size = ?n\<rparr>)"
    using assms(3,4) n by (intro ha_allocate_ok) simp_all
  have count: "count_pass ?b (length ?t) 0 0 = Some ?n"
    using count_pass_render [of rs 0 "[]" nl] assms(1-3) by simp
  have fill: "fill_pass ?b (length ?t) 0 (0, replicate ?n 0) = Some (?n, concat (map range_ids rs))"
    using fill_pass_render [of rs "[]" nl] fold_write_range [of 0 rs "replicate ?n 0"] assms(1,2)
    by simp
  have at: "?b ! (length ?t - 1) = last ?t" using t by (simp add: nth_append last_conv_nth)
  have len: "(if ?b ! (length ?b - 1) = CHR 0x0A then length ?b - 1 else length ?b) = length ?t"
    using assms(5) last at by auto
  have ids: "length (concat (map range_ids rs)) = ?n"
    by (simp add: length_concat range_ids_def comp_def)
  have "read_raw_file True kCpuListCapacity events = Contents ?b"
    using read_raw_file_delivers [OF assms(6), of kCpuListCapacity] True by (simp add: kCpuListCapacity_def)
  then have "read_online_cpu_ids malloc True events
      = Some \<lparr>ha_data = Some (concat (map range_ids rs)), ha_size = ?n\<rparr>"
    unfolding read_online_cpu_ids_def Let_def
    by (simp only: raw_read.case len at) (use t last in \<open>simp add: count alloc fill ha_elems_def\<close>)
  then show ?thesis
    using n ids True by (simp add: ha_inv_def ha_elems_def)
qed

theorem read_online_cpu_ids_render_witness:
  "\<exists>a. read_online_cpu_ids (\<lambda>_. True) True
      [Bytes ''0-'', Interrupted, Bytes ''3,8'', Bytes [CHR 0x0A], Eof] = Some a
    \<and> ha_inv a \<and> ha_elems a = [0, 1, 2, 3, 8]"
proof -
  let ?rs = "[\<lparr>first_id = 0, cpu_count = 4\<rparr>, \<lparr>first_id = 8, cpu_count = 1\<rparr>]"
  have ids: "concat (map range_ids ?rs) = [0, 1, 2, 3, 8]" by code_simp
  have contents: "render_list ?rs @ [CHR 0x0A] = ''0-3,8'' @ [CHR 0x0A]" by code_simp
  have ok: "list_all range_valid ?rs" "8 * sum_list (map cpu_count ?rs) \<le> size_max"
    by (simp_all add: range_valid_def size_max_def)
  have "delivers [Bytes ''0-'', Interrupted, Bytes ''3,8'', Bytes [CHR 0x0A], Eof]
      (render_list ?rs @ [CHR 0x0A])" unfolding contents by simp
  from read_online_cpu_ids_render [of ?rs "\<lambda>_. True" "[CHR 0x0A]", OF _ ok _ _ this]
  show ?thesis unfolding ids contents by simp
qed

end
