(* ===== verification/Sme_Registers.thy ===== *)
theory Sme_Registers
  imports Kcv_Prelude
begin

text \<open>
  Decoding of the identification registers in
  \<^verbatim>\<open>kleidicv_thread/src/sme_thread_limiter.cpp\<close>: MIDR gives the implementer and the
  part number of a core, SMIDR the streaming-mode unit (SMCU) it uses: its affinity, whether it
  is shared, and how many units the sharing domain has. Registers are 64-bit words.
\<close>

unbundle bit_operations_syntax

definition kArmImplementer :: u64 where "kArmImplementer = 0x41"
definition kC1NanoPart :: u64 where "kC1NanoPart = 0xD8A"
definition kC1ProPart :: u64 where "kC1ProPart = 0xD8B"
definition kC1UltraPart :: u64 where "kC1UltraPart = 0xD8C"
definition kC1PremiumPart :: u64 where "kC1PremiumPart = 0xD90"

lemmas part_defs [kcv_defs] = kArmImplementer_def kC1NanoPart_def kC1ProPart_def
  kC1UltraPart_def kC1PremiumPart_def

definition midr_implementer :: "u64 \<Rightarrow> u64" where
  "midr_implementer midr = (drop_bit 24 midr) AND 0xFF"

definition midr_part :: "u64 \<Rightarrow> u64" where
  "midr_part midr = (drop_bit 4 midr) AND 0xFFF"

definition smidr_affinity :: "u64 \<Rightarrow> u64" where
  "smidr_affinity smidr =
     (let affinity = smidr AND 0xFFF;
          affinity2 = (drop_bit 32 smidr) AND 0xFFFFF
      in (push_bit 12 affinity2) OR affinity)"

datatype SmcuSharing = kUnshared | kShared | kReserved

definition smidr_sharing :: "u64 \<Rightarrow> SmcuSharing" where
  "smidr_sharing smidr =
     (let sharing = (drop_bit 13 smidr) AND 0x3 in
      if sharing = 0x3 then kShared
      else if sharing = 0x2 then kUnshared
      else if sharing = 0x0 then
        (if smidr AND 0xFFF = 0 then kUnshared else kShared)
      else kReserved)"

definition smidr_smcu_count :: "u64 \<Rightarrow> nat option" where
  "smidr_smcu_count smidr =
     (let encoded_count = unat ((drop_bit 56 smidr) AND 0xF) in
      if encoded_count = 0xF then None else Some (encoded_count + 1))"

lemmas register_defs [kcv_defs] = midr_implementer_def midr_part_def smidr_affinity_def
  smidr_sharing_def smidr_smcu_count_def

section \<open>The affinity keeps both fields\<close>

lemma mask_field: "(w :: u64) AND 0xFFF = take_bit 12 w" "(w :: u64) AND 0xFFFFF = take_bit 20 w"
  by (simp_all add: take_bit_eq_mask mask_eq_exp_minus_1)

lemma smidr_affinity_bit:
  "bit (smidr_affinity w) n \<longleftrightarrow>
     (if n < 12 then bit w n else n < 32 \<and> bit w (n + 20))"
  unfolding smidr_affinity_def Let_def mask_field
  by (auto simp: bit_simps not_less nat_le_iff_add ac_simps dest: bit_imp_le_length)

lemma smidr_affinity_eq_iff:
  "smidr_affinity a = smidr_affinity b \<longleftrightarrow>
     a AND 0xFFF = b AND 0xFFF \<and> drop_bit 32 a AND 0xFFFFF = drop_bit 32 b AND 0xFFFFF"
proof
  assume eq: "smidr_affinity a = smidr_affinity b"
  have low: "bit a n = bit b n" if "n < 12" for n
    using smidr_affinity_bit [of a n] smidr_affinity_bit [of b n] eq that by simp
  have high: "bit a (32 + n) = bit b (32 + n)" if "n < 20" for n
    using smidr_affinity_bit [of a "n + 12"] smidr_affinity_bit [of b "n + 12"] eq that
    by (simp add: ac_simps)
  show "a AND 0xFFF = b AND 0xFFF \<and> drop_bit 32 a AND 0xFFFFF = drop_bit 32 b AND 0xFFFFF"
    unfolding mask_field by (auto intro!: bit_eqI simp: bit_simps low high)
qed (simp add: smidr_affinity_def)

lemma smidr_smcu_count_range: "smidr_smcu_count w = Some n \<Longrightarrow> 1 \<le> n \<and> n \<le> 15"
proof -
  assume some: "smidr_smcu_count w = Some n"
  let ?e = "unat (drop_bit 56 w AND 0xF)"
  have "drop_bit 56 w AND (0xF :: u64) = take_bit 4 (drop_bit 56 w)"
    by (simp add: take_bit_eq_mask mask_eq_exp_minus_1)
  then have "?e < 2 ^ 4"
    using take_bit_nat_less_exp [of 4 "unat (drop_bit 56 w)"]
    by (simp only: unsigned_take_bit_eq)
  with some show ?thesis
    by (auto simp: smidr_smcu_count_def Let_def split: if_splits)
qed

end
