(* ===== verification/Sme_Topology.thy ===== *)
theory Sme_Topology
  imports Sme_Registers Cpu_List
begin

text \<open>
  \<^verbatim>\<open>SmcuTopology::from_registers\<close> and its helpers
  (\<^verbatim>\<open>kleidicv_thread/src/sme_thread_limiter.cpp\<close>): the registers of the online
  CPUs are turned into sharing domains, a map from CPU to domain and the CPUs on which the
  streaming units may be used. Tables are lists indexed by CPU or domain number; an allocation
  that fails is an error branch, decided by the \<open>malloc\<close> parameter of each call site.
\<close>

record CpuInfo =
  info_id :: nat
  midr :: u64
  smidr :: u64

record SmcuDomainInfo =
  affinity :: u64
  slot_count :: nat
  shared :: bool

record SmcuTopology =
  cpu_to_domain :: "nat list"
  cpu_allowed :: "bool list"
  domains :: "SmcuDomainInfo list"

definition kNoSmcuDomain :: nat where "kNoSmcuDomain = size_max"

definition find_shared_domain :: "SmcuDomainInfo list \<Rightarrow> nat \<Rightarrow> u64 \<Rightarrow> nat option" where
  "find_shared_domain doms domain_count aff =
     find (\<lambda>i. shared (doms ! i) \<and> affinity (doms ! i) = aff) [0..<domain_count]"

definition is_there_shared_domain_with_nonzero_affinity :: "SmcuDomainInfo list \<Rightarrow> bool" where
  "is_there_shared_domain_with_nonzero_affinity doms =
     list_ex (\<lambda>d. shared d \<and> affinity d \<noteq> 0) doms"

fun apply_cpu_policy_for_arm_cores :: "CpuInfo list \<Rightarrow> bool list \<Rightarrow> bool list" where
  "apply_cpu_policy_for_arm_cores [] allowed = allowed"
| "apply_cpu_policy_for_arm_cores (info # infos) allowed =
     apply_cpu_policy_for_arm_cores infos
       (let part = midr_part (midr info) in
        if part = kC1NanoPart \<or> part = kC1ProPart \<or> part = kC1PremiumPart
        then allowed[info_id info := True]
        else allowed[info_id info := False])"

definition enable_cores_for_shared_zero_affinity_domain ::
    "SmcuDomainInfo list \<Rightarrow> nat \<Rightarrow> nat list \<Rightarrow> nat \<Rightarrow> bool list \<Rightarrow> bool list" where
  "enable_cores_for_shared_zero_affinity_domain doms domain_count c2d topology_cpu_count allowed =
     (case find (\<lambda>i. shared (doms ! i) \<and> affinity (doms ! i) = 0) [0..<domain_count] of
        None \<Rightarrow> allowed
      | Some domain \<Rightarrow>
          fold (\<lambda>i allowed. if c2d ! i = domain then allowed[i := True] else allowed)
            [0..<topology_cpu_count] allowed)"

text \<open>
  One turn of the loop of \<^verbatim>\<open>populate_domains\<close>: the state is the domain array, the
  number of its entries in use and the CPU map.
\<close>

type_synonym populate_state = "SmcuDomainInfo list \<times> nat \<times> nat list"

definition populate_step :: "CpuInfo \<Rightarrow> populate_state \<Rightarrow> populate_state option" where
  "populate_step info st =
     (case st of (doms, domain_count, c2d) \<Rightarrow>
        (let sharing = smidr_sharing (smidr info) in
         if sharing = kReserved then None
         else
           let aff = smidr_affinity (smidr info); is_shared = (sharing = kShared) in
           case smidr_smcu_count (smidr info) of
             None \<Rightarrow> None
           | Some smcu_count \<Rightarrow>
               (let slots = (if is_shared then smcu_count else 1) in
                case (if is_shared then find_shared_domain doms domain_count aff else None) of
                  None \<Rightarrow>
                    (if domain_count \<ge> length doms then None
                     else Some
                       (doms[domain_count := \<lparr>affinity = aff, slot_count = slots, shared = is_shared\<rparr>],
                        domain_count + 1, c2d[info_id info := domain_count]))
                | Some domain_idx \<Rightarrow>
                    (if slot_count (doms ! domain_idx) \<noteq> slots then None
                     else Some (doms, domain_count, c2d[info_id info := domain_idx])))))"

fun populate_loop :: "CpuInfo list \<Rightarrow> populate_state \<Rightarrow> populate_state option" where
  "populate_loop [] st = Some st"
| "populate_loop (info # infos) st =
     (case populate_step info st of None \<Rightarrow> None | Some st' \<Rightarrow> populate_loop infos st')"

definition domain_zero :: SmcuDomainInfo where
  "domain_zero = \<lparr>affinity = 0, slot_count = 0, shared = False\<rparr>"

text \<open>
  \<open>malloc\<close> takes the number of the allocation request first: 0 and 1 are the two CPU
  tables of \<open>from_registers\<close>, 2 and 3 the domain arrays here.
  \<^verbatim>\<open>sizeof(SmcuDomainInfo)\<close> is 16.
\<close>

definition populate_domains ::
    "(nat \<Rightarrow> nat \<Rightarrow> bool) \<Rightarrow> CpuInfo list \<Rightarrow> nat list \<Rightarrow> (SmcuDomainInfo list \<times> nat list) option" where
  "populate_domains malloc infos c2d =
     (case ha_allocate (malloc 2) 16 domain_zero (length infos) ha_empty of
        (False, _) \<Rightarrow> None
      | (True, doms0) \<Rightarrow>
          (case populate_loop infos (ha_elems doms0, 0, c2d) of
             None \<Rightarrow> None
           | Some (doms, domain_count, c2d') \<Rightarrow>
               (if domain_count = length doms then Some (doms, c2d')
                else case ha_allocate (malloc 3) 16 domain_zero domain_count ha_empty of
                  (False, _) \<Rightarrow> None
                | (True, compact) \<Rightarrow>
                    Some (fold (\<lambda>i c. c[i := doms ! i]) [0..<domain_count] (ha_elems compact), c2d'))))"

definition from_registers :: "(nat \<Rightarrow> nat \<Rightarrow> bool) \<Rightarrow> CpuInfo list \<Rightarrow> SmcuTopology option" where
  "from_registers malloc infos =
     (if infos = [] then None
      else
        let largest_cpu_id = fold (\<lambda>info m. max m (info_id info)) infos 0 in
        if largest_cpu_id = size_max then None
        else
          let topology_cpu_count = largest_cpu_id + 1;
              implementer = midr_implementer (midr (infos ! 0)) in
          if list_ex (\<lambda>info. midr_implementer (midr info) \<noteq> implementer) infos then None
          else case ha_allocate_and_fill (malloc 0) 8 0 topology_cpu_count kNoSmcuDomain ha_empty of
            (False, _) \<Rightarrow> None
          | (True, c2d) \<Rightarrow>
              (case ha_allocate_and_fill (malloc 1) 1 False topology_cpu_count False ha_empty of
                 (False, _) \<Rightarrow> None
               | (True, allowed) \<Rightarrow>
                   (case populate_domains malloc infos (ha_elems c2d) of
                      None \<Rightarrow> None
                    | Some (doms, c2d') \<Rightarrow>
                        Some \<lparr>cpu_to_domain = c2d',
                          cpu_allowed =
                            (if implementer = kArmImplementer
                             then apply_cpu_policy_for_arm_cores infos (ha_elems allowed)
                             else if is_there_shared_domain_with_nonzero_affinity doms
                             then enable_cores_for_shared_zero_affinity_domain doms (length doms)
                                    c2d' topology_cpu_count (ha_elems allowed)
                             else ha_elems allowed),
                          domains = doms\<rparr>)))"

section \<open>Queries\<close>

definition domain_for_cpu :: "SmcuTopology \<Rightarrow> nat \<Rightarrow> nat" where
  "domain_for_cpu t cpu =
     (if cpu \<ge> length (cpu_to_domain t) then kNoSmcuDomain else cpu_to_domain t ! cpu)"

definition is_cpu_allowed :: "SmcuTopology \<Rightarrow> nat \<Rightarrow> bool" where
  "is_cpu_allowed t cpu = (cpu < length (cpu_allowed t) \<and> cpu_allowed t ! cpu)"

definition has_allowed_cpu :: "SmcuTopology \<Rightarrow> bool" where
  "has_allowed_cpu t = list_ex (\<lambda>a. a) (cpu_allowed t)"

definition domain_count :: "SmcuTopology \<Rightarrow> nat" where
  "domain_count t = length (domains t)"

definition topo_slot_count :: "SmcuTopology \<Rightarrow> nat \<Rightarrow> nat" where
  "topo_slot_count t d = (if d < length (domains t) then slot_count (domains t ! d) else 0)"

text \<open>
  \<^verbatim>\<open>SmcuTopology::detect\<close>: the ids from the CPU list, two register files per CPU.
\<close>

fun read_registers :: "(char list \<Rightarrow> nat option) \<Rightarrow> nat list \<Rightarrow> CpuInfo list option" where
  "read_registers read_hex [] = Some []"
| "read_registers read_hex (cpu_id # ids) =
     (case (read_hex (make_register_path cpu_id ''midr_el1''),
            read_hex (make_register_path cpu_id ''smidr_el1'')) of
        (Some m, Some s) \<Rightarrow>
          (case read_registers read_hex ids of
             None \<Rightarrow> None
           | Some infos \<Rightarrow> Some (\<lparr>info_id = cpu_id, midr = of_nat m, smidr = of_nat s\<rparr> # infos))
      | _ \<Rightarrow> None)"

definition detect ::
    "(nat \<Rightarrow> nat \<Rightarrow> bool) \<Rightarrow> nat heap_array option \<Rightarrow> (char list \<Rightarrow> nat option) \<Rightarrow> SmcuTopology option" where
  "detect malloc cpu_ids read_hex =
     (case cpu_ids of
        None \<Rightarrow> None
      | Some ids \<Rightarrow>
          (case ha_allocate (malloc 4) 24 \<lparr>info_id = 0, midr = 0, smidr = 0\<rparr> (ha_size ids) ha_empty of
             (False, _) \<Rightarrow> None
           | (True, _) \<Rightarrow>
               (case read_registers read_hex (ha_elems ids) of
                  None \<Rightarrow> None
                | Some infos \<Rightarrow> from_registers malloc infos)))"

lemmas topology_defs [kcv_defs] = kNoSmcuDomain_def find_shared_domain_def
  is_there_shared_domain_with_nonzero_affinity_def
  enable_cores_for_shared_zero_affinity_domain_def populate_step_def populate_domains_def
  from_registers_def domain_for_cpu_def is_cpu_allowed_def has_allowed_cpu_def domain_count_def
  topo_slot_count_def detect_def

section \<open>What the loop establishes\<close>

definition uses_shared :: "CpuInfo \<Rightarrow> bool" where
  "uses_shared i \<longleftrightarrow> smidr_sharing (smidr i) = kShared"

definition domain_of :: "CpuInfo \<Rightarrow> SmcuDomainInfo" where
  "domain_of i = \<lparr>affinity = smidr_affinity (smidr i),
     slot_count = (if uses_shared i then the (smidr_smcu_count (smidr i)) else 1),
     shared = uses_shared i\<rparr>"

text \<open>Two CPUs use the same units: the same CPU, or both shared with the same affinity.\<close>

definition same_unit :: "CpuInfo \<Rightarrow> CpuInfo \<Rightarrow> bool" where
  "same_unit i j \<longleftrightarrow> i = j \<or> (uses_shared i \<and> uses_shared j
     \<and> smidr_affinity (smidr i) = smidr_affinity (smidr j))"

definition decodable :: "CpuInfo \<Rightarrow> bool" where
  "decodable i \<longleftrightarrow> smidr_sharing (smidr i) \<noteq> kReserved \<and> smidr_smcu_count (smidr i) \<noteq> None"

definition pop_inv :: "CpuInfo list \<Rightarrow> populate_state \<Rightarrow> bool" where
  "pop_inv P st \<longleftrightarrow> (case st of (doms, n, c2d) \<Rightarrow>
     n \<le> length doms \<and>
     (\<forall>i \<in> set P. decodable i \<and> info_id i < length c2d \<and> c2d ! info_id i < n
        \<and> doms ! (c2d ! info_id i) = domain_of i) \<and>
     (\<forall>i \<in> set P. \<forall>j \<in> set P. (c2d ! info_id i = c2d ! info_id j) = same_unit i j) \<and>
     (\<forall>d < n. \<exists>i \<in> set P. c2d ! info_id i = d))"

lemma same_unit_sym: "same_unit i j = same_unit j i"
  by (auto simp: same_unit_def)

lemma populate_step_cases:
  assumes "populate_step i (doms, n, c2d) = Some st"
  obtains (new) "decodable i" "n < length doms"
      "uses_shared i \<Longrightarrow> find_shared_domain doms n (smidr_affinity (smidr i)) = None"
      "st = (doms[n := domain_of i], n + 1, c2d[info_id i := n])"
    | (old) d where "decodable i" "uses_shared i"
      "find_shared_domain doms n (smidr_affinity (smidr i)) = Some d"
      "slot_count (doms ! d) = slot_count (domain_of i)"
      "st = (doms, n, c2d[info_id i := d])"
  using assms
  by (auto simp: populate_step_def Let_def decodable_def uses_shared_def domain_of_def
      split: if_splits option.splits)

lemma find_shared_domainD:
  "find_shared_domain doms n aff = Some d \<Longrightarrow> d < n \<and> shared (doms ! d) \<and> affinity (doms ! d) = aff"
  by (simp add: find_shared_domain_def find_upt_Some)

lemma pop_inv_extend:
  assumes inv: "pop_inv P (doms, n, c2d)"
    and fresh: "info_id i \<notin> info_id ` set P" and bound: "info_id i < length c2d"
    and dec: "decodable i" and n': "n \<le> n'" "n' \<le> length doms'"
    and d: "d < n'" "doms' ! d = domain_of i" and old: "\<And>e. e < n \<Longrightarrow> doms' ! e = doms ! e"
    and eq: "\<And>j. j \<in> set P \<Longrightarrow> (c2d ! info_id j = d) = same_unit j i"
    and cover: "\<And>e. e < n' \<Longrightarrow> e < n \<or> e = d"
  shows "pop_inv (P @ [i]) (doms', n', c2d[info_id i := d])"
proof -
  let ?c = "c2d[info_id i := d]"
  have keep: "?c ! info_id j = c2d ! info_id j" if "j \<in> set P" for j
    using fresh that by (metis image_eqI nth_list_update_neq)
  have self: "?c ! info_id i = d" using bound by simp
  have P1: "decodable j \<and> info_id j < length c2d \<and> c2d ! info_id j < n
      \<and> doms ! (c2d ! info_id j) = domain_of j" if "j \<in> set P" for j
    using inv that by (simp add: pop_inv_def)
  have P2: "(c2d ! info_id j = c2d ! info_id l) = same_unit j l" if "j \<in> set P" "l \<in> set P" for j l
    using inv that by (simp add: pop_inv_def)
  have P3: "\<exists>j \<in> set P. c2d ! info_id j = e" if "e < n" for e
    using inv that by (simp add: pop_inv_def)
  have "decodable j \<and> info_id j < length ?c \<and> ?c ! info_id j < n' \<and> doms' ! (?c ! info_id j) = domain_of j"
    if "j \<in> set (P @ [i])" for j
  proof (cases "j \<in> set P")
    case True
    with P1 [OF True] keep [OF True] old n'(1) show ?thesis by simp
  next
    case False
    with that self bound dec d show ?thesis by simp
  qed
  moreover have "(?c ! info_id j = ?c ! info_id l) = same_unit j l"
    if "j \<in> set (P @ [i])" "l \<in> set (P @ [i])" for j l
  proof -
    note jl = that
    have refl: "same_unit i i" by (simp add: same_unit_def)
    consider "j \<in> set P" "l \<in> set P" | "j \<in> set P" "l = i" | "j = i" "l \<in> set P" | "j = i" "l = i"
      using jl by auto
    then show ?thesis
      using P2 eq keep self refl same_unit_sym [of i l] by cases (simp_all, metis)
  qed
  moreover have "\<exists>j \<in> set (P @ [i]). ?c ! info_id j = e" if "e < n'" for e
  proof (cases "e = d")
    case True
    with self show ?thesis by auto
  next
    case False
    with cover [OF that] P3 obtain j where "j \<in> set P" "c2d ! info_id j = e" by blast
    with keep [of j] show ?thesis by auto
  qed
  ultimately show ?thesis using n' by (simp only: pop_inv_def case_prod_conv) blast
qed

lemma populate_step_inv:
  assumes step: "populate_step i (doms, n, c2d) = Some st"
    and inv: "pop_inv P (doms, n, c2d)"
    and fresh: "info_id i \<notin> info_id ` set P" and bound: "info_id i < length c2d"
  shows "pop_inv (P @ [i]) st"
  using step
proof (cases rule: populate_step_cases)
  case new
  have diff: "(c2d ! info_id j = n) = same_unit j i" if j: "j \<in> set P" for j
  proof -
    have "\<not> same_unit j i"
    proof
      assume "same_unit j i"
      with fresh j have sh: "uses_shared j" "uses_shared i"
        "smidr_affinity (smidr j) = smidr_affinity (smidr i)" by (auto simp: same_unit_def)
      with inv j have "c2d ! info_id j < n" "doms ! (c2d ! info_id j) = domain_of j"
        by (auto simp: pop_inv_def)
      with new(3) sh show False
        by (auto simp: find_shared_domain_def find_upt_None domain_of_def)
    qed
    moreover have "c2d ! info_id j \<noteq> n" using inv j by (auto simp: pop_inv_def)
    ultimately show ?thesis by simp
  qed
  show ?thesis unfolding new(4)
    using new(2) by (intro pop_inv_extend [OF inv fresh bound new(1)] diff) auto
next
  case (old d)
  have d: "d < n" "shared (doms ! d)" "affinity (doms ! d) = smidr_affinity (smidr i)"
    using find_shared_domainD [OF old(3)] by auto
  obtain k where k: "k \<in> set P" "c2d ! info_id k = d"
    using inv d(1) by (simp add: pop_inv_def) blast
  have dom_k: "doms ! d = domain_of k" and dom_i: "doms ! d = domain_of i"
    using inv k d old(2,4) by (auto simp: pop_inv_def domain_of_def)
  have eq: "(c2d ! info_id j = d) = same_unit j i" if "j \<in> set P" for j
  proof -
    have "same_unit k j = same_unit j i"
      using that fresh k dom_k dom_i old(2) by (auto simp: same_unit_def domain_of_def)
    moreover have "(c2d ! info_id k = c2d ! info_id j) = same_unit k j"
      using inv k(1) that by (auto simp: pop_inv_def)
    ultimately show ?thesis using k(2) by auto
  qed
  have "n \<le> length doms" using inv by (simp add: pop_inv_def)
  then show ?thesis unfolding old(5)
    using d dom_i by (intro pop_inv_extend [OF inv fresh bound old(1)] eq) auto
qed

lemma populate_step_shape:
  assumes "populate_step i (doms, n, c2d) = Some (doms', n', c2d')"
  shows "length doms' = length doms \<and> length c2d' = length c2d"
  using assms by (cases rule: populate_step_cases) auto

lemma populate_loop_inv:
  assumes "populate_loop infos (doms, n, c2d) = Some (doms', n', c2d')"
    and "pop_inv P (doms, n, c2d)" and "distinct (map info_id (P @ infos))"
    and "\<forall>i \<in> set infos. info_id i < length c2d"
  shows "pop_inv (P @ infos) (doms', n', c2d') \<and> length doms' = length doms \<and> length c2d' = length c2d"
  using assms
proof (induction infos arbitrary: P doms n c2d)
  case (Cons i infos)
  then obtain doms1 n1 c2d1 where step: "populate_step i (doms, n, c2d) = Some (doms1, n1, c2d1)"
    and rest: "populate_loop infos (doms1, n1, c2d1) = Some (doms', n', c2d')"
    by (auto split: option.splits)
  have "pop_inv (P @ [i]) (doms1, n1, c2d1)"
    using populate_step_inv [OF step] Cons.prems by auto
  with Cons.IH [OF rest, of "P @ [i]"] Cons.prems populate_step_shape [OF step]
  show ?case by auto
qed auto

lemma populate_step_frame:
  assumes "populate_step i (doms, n, c2d) = Some (doms', n', c2d')"
  shows "n \<le> n' \<and> n' \<le> Suc n \<and> (c \<noteq> info_id i \<longrightarrow> c2d' ! c = c2d ! c)"
  using assms by (cases rule: populate_step_cases) auto

lemma populate_loop_frame:
  assumes "populate_loop infos (doms, n, c2d) = Some (doms', n', c2d')"
  shows "n' \<le> n + length infos \<and> (c \<notin> info_id ` set infos \<longrightarrow> c2d' ! c = c2d ! c)"
  using assms
proof (induction infos arbitrary: doms n c2d)
  case (Cons i infos)
  then obtain doms1 n1 c2d1 where step: "populate_step i (doms, n, c2d) = Some (doms1, n1, c2d1)"
    and "populate_loop infos (doms1, n1, c2d1) = Some (doms', n', c2d')"
    by (auto split: option.splits)
  with Cons.IH [of doms1 n1 c2d1] populate_step_frame [OF step, of c] show ?case by auto
qed simp

lemma pop_inv_empty [simp]: "pop_inv [] (doms, 0, c2d)"
  by (simp add: pop_inv_def)

lemma fold_max_ge:
  "(\<forall>i \<in> set infos. info_id i \<le> fold (\<lambda>info m. max m (info_id info)) infos m0)
     \<and> m0 \<le> fold (\<lambda>info m. max m (info_id info)) infos m0"
proof (induction infos arbitrary: m0)
  case (Cons a infos)
  from Cons [of "max m0 (info_id a)"] show ?case by auto
qed simp

definition cpu_table_size :: "CpuInfo list \<Rightarrow> nat" where
  "cpu_table_size infos = fold (\<lambda>info m. max m (info_id info)) infos 0 + 1"

lemma info_id_bound: "i \<in> set infos \<Longrightarrow> info_id i < cpu_table_size infos"
  using fold_max_ge [of infos 0] by (auto simp: cpu_table_size_def less_Suc_eq_le)

text \<open>Everything a successful construction went through.\<close>

lemma from_registersE:
  assumes "from_registers malloc infos = Some t"
  obtains doms n where "infos \<noteq> []" "16 * length infos \<le> size_max"
    and "\<forall>i \<in> set infos. midr_implementer (midr i) = midr_implementer (midr (infos ! 0))"
    and "populate_loop infos (replicate (length infos) domain_zero, 0,
        replicate (cpu_table_size infos) kNoSmcuDomain) = Some (doms, n, cpu_to_domain t)"
    and "n \<le> length doms" and "domains t = take n doms"
    and "cpu_allowed t =
      (let allowed = replicate (cpu_table_size infos) False in
       if midr_implementer (midr (infos ! 0)) = kArmImplementer
       then apply_cpu_policy_for_arm_cores infos allowed
       else if is_there_shared_domain_with_nonzero_affinity (domains t)
       then enable_cores_for_shared_zero_affinity_domain (domains t) (length (domains t))
              (cpu_to_domain t) (cpu_table_size infos) allowed
       else allowed)"
proof -
  let ?m = "fold (\<lambda>info m. max m (info_id info)) infos 0" and ?n = "cpu_table_size infos"
  obtain a0 a1 doms c2d' where ne: "infos \<noteq> []"
    and impl: "\<not> list_ex (\<lambda>info. midr_implementer (midr info) \<noteq> midr_implementer (midr (infos ! 0))) infos"
    and a0: "ha_allocate_and_fill (malloc 0) 8 0 ?n kNoSmcuDomain ha_empty = (True, a0)"
    and a1: "ha_allocate_and_fill (malloc 1) 1 False ?n False ha_empty = (True, a1)"
    and pd: "populate_domains malloc infos (ha_elems a0) = Some (doms, c2d')"
    and t: "t = \<lparr>cpu_to_domain = c2d', cpu_allowed =
       (if midr_implementer (midr (infos ! 0)) = kArmImplementer
        then apply_cpu_policy_for_arm_cores infos (ha_elems a1)
        else if is_there_shared_domain_with_nonzero_affinity doms
        then enable_cores_for_shared_zero_affinity_domain doms (length doms) c2d' ?n (ha_elems a1)
        else ha_elems a1), domains = doms\<rparr>"
    using assms unfolding from_registers_def Let_def cpu_table_size_def
    by (auto split: if_splits prod.splits bool.splits option.splits)
  have e0: "ha_elems a0 = replicate ?n kNoSmcuDomain" and e1: "ha_elems a1 = replicate ?n False"
    using ha_allocate_and_fill_fresh [OF a0] ha_allocate_and_fill_fresh [OF a1] by auto
  obtain d0 doms1 n where d0: "ha_allocate (malloc 2) 16 domain_zero (length infos) ha_empty = (True, d0)"
    and loop: "populate_loop infos (ha_elems d0, 0, replicate ?n kNoSmcuDomain) = Some (doms1, n, c2d')"
    and cmp: "doms = doms1 \<and> n = length doms1 \<or> (\<exists>cp. n \<noteq> length doms1 \<and>
        ha_allocate (malloc 3) 16 domain_zero n ha_empty = (True, cp) \<and>
        doms = fold (\<lambda>i c. c[i := doms1 ! i]) [0..<n] (ha_elems cp))"
    using pd unfolding populate_domains_def e0
    by (auto split: if_splits prod.splits bool.splits option.splits)
  have ed: "ha_elems d0 = replicate (length infos) domain_zero" and "16 * length infos \<le> size_max"
    using ha_allocate_fresh [OF d0] d0 ne
    by (auto simp: ha_allocate_def less_eq_div_iff_mult_less_eq not_less mult.commute split: if_splits)
  have "length doms1 = length infos"
    using loop ed
  proof -
    have "length doms' = length ds" if "populate_loop is (ds, k, c) = Some (doms', k', c')" for "is" ds k c doms' k' c'
      using that
    proof (induction "is" arbitrary: ds k c)
      case (Cons i "is")
      then obtain ds1 k1 c1 where "populate_step i (ds, k, c) = Some (ds1, k1, c1)"
        and "populate_loop is (ds1, k1, c1) = Some (doms', k', c')"
        by (auto split: option.splits)
      with Cons.IH populate_step_shape show ?case by fastforce
    qed simp
    from this [OF loop] ed show ?thesis by simp
  qed
  with populate_loop_frame [OF loop] have n: "n \<le> length doms1" by simp
  have "doms = take n doms1"
    using cmp
  proof
    assume "\<exists>cp. n \<noteq> length doms1 \<and> ha_allocate (malloc 3) 16 domain_zero n ha_empty = (True, cp) \<and>
        doms = fold (\<lambda>i c. c[i := doms1 ! i]) [0..<n] (ha_elems cp)"
    then obtain cp where cp: "ha_allocate (malloc 3) 16 domain_zero n ha_empty = (True, cp)"
      and d: "doms = fold (\<lambda>i c. c[i := doms1 ! i]) [0..<n] (ha_elems cp)" by auto
    have "doms = map (\<lambda>i. doms1 ! i) [0..<n]"
      unfolding d using ha_allocate_fresh [OF cp] by (intro fill_whole_array) simp
    with n show ?thesis by (simp add: map_nth_upt_take)
  qed simp
  with that [OF ne \<open>16 * length infos \<le> size_max\<close> _ _ n] impl loop t e1 ed show thesis
    by (auto simp: list_ex_iff Let_def)
qed

lemma from_registers_inv:
  assumes t: "from_registers malloc infos = Some t" and dist: "distinct (map info_id infos)"
  obtains doms n where "pop_inv infos (doms, n, cpu_to_domain t)" "domains t = take n doms"
    "n \<le> length doms" "length (cpu_to_domain t) = cpu_table_size infos" "n < size_max"
    "\<forall>c < cpu_table_size infos. c \<notin> info_id ` set infos \<longrightarrow> cpu_to_domain t ! c = kNoSmcuDomain"
proof -
  from t obtain doms n where ne: "infos \<noteq> []" and small: "16 * length infos \<le> size_max"
    and loop: "populate_loop infos (replicate (length infos) domain_zero, 0,
        replicate (cpu_table_size infos) kNoSmcuDomain) = Some (doms, n, cpu_to_domain t)"
    and n: "n \<le> length doms" "domains t = take n doms"
    by (rule from_registersE)
  have inv: "pop_inv ([] @ infos) (doms, n, cpu_to_domain t) \<and> length doms = length infos
      \<and> length (cpu_to_domain t) = cpu_table_size infos"
    using populate_loop_inv [OF loop pop_inv_empty] dist by (simp add: info_id_bound)
  have "n \<le> length infos" using inv n by simp
  with small ne have "n < size_max" by (cases infos) auto
  with that [of doms n] inv n populate_loop_frame [OF loop] show thesis by auto
qed

text \<open>
  C28. In a topology built from the registers of distinct CPUs, every CPU gets a domain whose
  number of slots is the number of units its own SMIDR announces (one when it is not shared),
  and two CPUs get the same domain exactly when they share units: both shared, with the same
  full affinity.
\<close>

theorem from_registers_domains:
  assumes "from_registers malloc infos = Some t" and "distinct (map info_id infos)"
    and "i \<in> set infos" and "j \<in> set infos"
  shows "domain_for_cpu t (info_id i) < domain_count t
    \<and> topo_slot_count t (domain_for_cpu t (info_id i))
        = (if uses_shared i then the (smidr_smcu_count (smidr i)) else 1)
    \<and> (domain_for_cpu t (info_id i) = domain_for_cpu t (info_id j)) = same_unit i j"
proof -
  from assms(1,2) obtain doms n where inv: "pop_inv infos (doms, n, cpu_to_domain t)"
    and doms: "domains t = take n doms" "n \<le> length doms"
    and len: "length (cpu_to_domain t) = cpu_table_size infos" by (rule from_registers_inv)
  have dom: "domain_for_cpu t (info_id k) = cpu_to_domain t ! info_id k" if "k \<in> set infos" for k
    using info_id_bound [OF that] len by (simp add: domain_for_cpu_def)
  have at: "cpu_to_domain t ! info_id i < n" "doms ! (cpu_to_domain t ! info_id i) = domain_of i"
    using inv assms(3) by (auto simp: pop_inv_def)
  have "(cpu_to_domain t ! info_id i = cpu_to_domain t ! info_id j) = same_unit i j"
    using inv assms(3,4) by (simp add: pop_inv_def)
  with at doms dom assms(3,4) show ?thesis
    by (simp add: domain_count_def topo_slot_count_def domain_of_def)
qed

text \<open>A concrete machine: two C1-Premium cores sharing two units.\<close>

definition example_cpus :: "CpuInfo list" where
  "example_cpus =
     [\<lparr>info_id = 0, midr = 0x410FD900, smidr = 0x0100000000006001\<rparr>,
      \<lparr>info_id = 2, midr = 0x410FD900, smidr = 0x0100000000006001\<rparr>]"

lemma example_topology: "\<exists>t. from_registers (\<lambda>_ _. True) example_cpus = Some t"
  by (simp add: kcv_defs example_cpus_def size_max_def domain_zero_def)

theorem from_registers_domains_witness:
  "\<exists>t. from_registers (\<lambda>_ _. True) example_cpus = Some t
    \<and> domain_for_cpu t 0 = domain_for_cpu t 2 \<and> topo_slot_count t (domain_for_cpu t 0) = 2"
proof -
  obtain t where t: "from_registers (\<lambda>_ _. True) example_cpus = Some t"
    using example_topology by auto
  let ?a = "example_cpus ! 0" and ?b = "example_cpus ! 1"
  have s: "same_unit ?a ?b" "uses_shared ?a" "smidr_smcu_count (smidr ?a) = Some 2"
    "info_id ?a = 0" "info_id ?b = 2"
    by (simp_all add: example_cpus_def same_unit_def uses_shared_def smidr_sharing_def smidr_smcu_count_def)
  have "distinct (map info_id example_cpus)" "?a \<in> set example_cpus" "?b \<in> set example_cpus"
    by (simp_all add: example_cpus_def)
  from from_registers_domains [OF t this] s t show ?thesis by auto
qed

definition arm_part_allowed :: "CpuInfo \<Rightarrow> bool" where
  "arm_part_allowed i \<longleftrightarrow> midr_part (midr i) \<in> {kC1NanoPart, kC1ProPart, kC1PremiumPart}"

lemma arm_policy_Cons:
  "apply_cpu_policy_for_arm_cores (info # infos) allowed
     = apply_cpu_policy_for_arm_cores infos (allowed[info_id info := arm_part_allowed info])"
  by (simp add: Let_def arm_part_allowed_def)

lemma arm_policy_length [simp]:
  "length (apply_cpu_policy_for_arm_cores infos allowed) = length allowed"
  by (induction infos arbitrary: allowed) (simp_all add: arm_policy_Cons del: apply_cpu_policy_for_arm_cores.simps(2))

lemma arm_policy_nth:
  assumes "distinct (map info_id infos)" and "c < length allowed"
  shows "apply_cpu_policy_for_arm_cores infos allowed ! c =
    (if c \<in> info_id ` set infos then \<exists>i \<in> set infos. info_id i = c \<and> arm_part_allowed i
     else allowed ! c)"
  using assms
proof (induction infos arbitrary: allowed)
  case (Cons info infos)
  then have "info_id info \<notin> info_id ` set infos" by simp
  with Cons show ?case
    by (auto simp: arm_policy_Cons nth_list_update image_iff
        simp del: apply_cpu_policy_for_arm_cores.simps(2))
qed simp

lemma enable_fold_nth:
  "length (fold (\<lambda>i allowed. if c2d ! i = d then allowed[i := True] else allowed) is allowed) = length allowed
   \<and> (c < length allowed \<longrightarrow>
     fold (\<lambda>i allowed. if c2d ! i = d then allowed[i := True] else allowed) is allowed ! c
       = (allowed ! c \<or> (c \<in> set is \<and> c2d ! c = d)))"
proof (induction "is" arbitrary: allowed)
  case (Cons a "is")
  show ?case
    using Cons [of "if c2d ! a = d then allowed[a := True] else allowed"]
    by (cases "c = a") (auto simp: nth_list_update_neq)
qed simp

text \<open>The specification of the policy: which of the listed CPUs may use the streaming units.\<close>

definition policy_allows :: "CpuInfo list \<Rightarrow> CpuInfo \<Rightarrow> bool" where
  "policy_allows infos i =
     (if midr_implementer (midr (infos ! 0)) = kArmImplementer
      then arm_part_allowed i
      else uses_shared i \<and> smidr_affinity (smidr i) = 0
        \<and> (\<exists>j \<in> set infos. uses_shared j \<and> smidr_affinity (smidr j) \<noteq> 0))"

text \<open>
  A CPU is allowed exactly when it is one of the listed CPUs and the policy allows it: on
  Arm cores by part number, elsewhere only the CPUs of the shared domain with zero affinity, and
  only when another shared domain exists. No unlisted CPU is ever allowed, and an allowed CPU
  always has a domain with at least one slot.
\<close>

theorem from_registers_allowed:
  assumes t: "from_registers malloc infos = Some t" and dist: "distinct (map info_id infos)"
  shows "is_cpu_allowed t c \<longleftrightarrow> (\<exists>i \<in> set infos. info_id i = c \<and> policy_allows infos i)"
proof -
  let ?N = "cpu_table_size infos"
  from t dist obtain doms n where inv: "pop_inv infos (doms, n, cpu_to_domain t)"
    and doms: "domains t = take n doms" "n \<le> length doms"
    and len: "length (cpu_to_domain t) = ?N" and small: "n < size_max"
    and out: "\<forall>c < ?N. c \<notin> info_id ` set infos \<longrightarrow> cpu_to_domain t ! c = kNoSmcuDomain"
    by (rule from_registers_inv)
  define allowed where al: "allowed = cpu_allowed t"
  have al_def: "allowed =
      (if midr_implementer (midr (infos ! 0)) = kArmImplementer
       then apply_cpu_policy_for_arm_cores infos (replicate ?N False)
       else if is_there_shared_domain_with_nonzero_affinity (domains t)
       then enable_cores_for_shared_zero_affinity_domain (domains t) (length (domains t))
              (cpu_to_domain t) ?N (replicate ?N False)
       else replicate ?N False)"
    unfolding al by (rule from_registersE [OF t], unfold Let_def)
  have at: "cpu_to_domain t ! info_id i < n" "doms ! (cpu_to_domain t ! info_id i) = domain_of i"
    if "i \<in> set infos" for i using inv that by (auto simp: pop_inv_def)
  have onto: "\<exists>i \<in> set infos. cpu_to_domain t ! info_id i = d" if "d < n" for d
    using inv that by (simp add: pop_inv_def)
  have inj: "i = j" if "i \<in> set infos" "j \<in> set infos" "info_id i = info_id j" for i j
    using dist that by (auto simp: distinct_map inj_on_def)
  have bound: "info_id i < ?N" if "i \<in> set infos" for i using info_id_bound [OF that] .
  show ?thesis
  proof (cases "midr_implementer (midr (infos ! 0)) = kArmImplementer")
    case True
    with al_def have "allowed = apply_cpu_policy_for_arm_cores infos (replicate ?N False)" by simp
    with True bound show ?thesis
      by (auto simp: is_cpu_allowed_def al [symmetric] policy_allows_def arm_policy_nth [OF dist]
          split: if_splits)
  next
    case other: False
    have dom_at: "domains t ! (cpu_to_domain t ! info_id i) = domain_of i"
      and dom_len: "cpu_to_domain t ! info_id i < length (domains t)" if "i \<in> set infos" for i
      using at [OF that] doms by simp_all
    have nonzero: "is_there_shared_domain_with_nonzero_affinity (domains t)
        = (\<exists>j \<in> set infos. uses_shared j \<and> smidr_affinity (smidr j) \<noteq> 0)" (is "?l = ?r")
    proof
      assume ?l
      then obtain d where d: "d < length (domains t)" "shared (domains t ! d)" "affinity (domains t ! d) \<noteq> 0"
        by (auto simp: is_there_shared_domain_with_nonzero_affinity_def list_ex_iff in_set_conv_nth)
      with onto doms obtain j where "j \<in> set infos" "cpu_to_domain t ! info_id j = d" by auto
      with d dom_at show ?r by (auto simp: domain_of_def)
    next
      assume ?r
      then obtain j where j: "j \<in> set infos" "uses_shared j" "smidr_affinity (smidr j) \<noteq> 0" by auto
      with dom_at [OF j(1)] have "shared (domain_of j) \<and> affinity (domain_of j) \<noteq> 0"
        by (simp add: domain_of_def)
      with dom_at [OF j(1)] nth_mem [OF dom_len [OF j(1)]] show ?l
        unfolding is_there_shared_domain_with_nonzero_affinity_def list_ex_iff by metis
    qed
    show ?thesis
    proof (cases "is_there_shared_domain_with_nonzero_affinity (domains t)")
      case False
      with other al_def have "allowed = replicate ?N False" by simp
      with nonzero False other show ?thesis by (auto simp: is_cpu_allowed_def al [symmetric] policy_allows_def)
    next
      case True
      have pol: "policy_allows infos i = (uses_shared i \<and> smidr_affinity (smidr i) = 0)" for i
        using True other nonzero by (auto simp: policy_allows_def)
      let ?zero = "\<lambda>d. shared (domains t ! d) \<and> affinity (domains t ! d) = 0"
      have cpu: "is_cpu_allowed t c = (c < ?N \<and> find ?zero [0..<length (domains t)] = Some (cpu_to_domain t ! c))"
        using True other al_def
        by (auto simp: is_cpu_allowed_def al [symmetric] enable_cores_for_shared_zero_affinity_domain_def
            enable_fold_nth split: option.splits)
      have uniq: "find ?zero [0..<length (domains t)] = Some (cpu_to_domain t ! info_id i)
          \<longleftrightarrow> uses_shared i \<and> smidr_affinity (smidr i) = 0" if i: "i \<in> set infos" for i
      proof
        assume "find ?zero [0..<length (domains t)] = Some (cpu_to_domain t ! info_id i)"
        with dom_at [OF i] show "uses_shared i \<and> smidr_affinity (smidr i) = 0"
          by (auto simp: find_upt_Some domain_of_def)
      next
        assume u: "uses_shared i \<and> smidr_affinity (smidr i) = 0"
        with dom_at [OF i] dom_len [OF i] obtain d where
          d: "find ?zero [0..<length (domains t)] = Some d"
          by (cases "find ?zero [0..<length (domains t)]") (auto simp: find_upt_None domain_of_def)
        then have dl: "d < length (domains t)" "shared (domains t ! d)" "affinity (domains t ! d) = 0"
          by (auto simp: find_upt_Some)
        with onto doms obtain k where k: "k \<in> set infos" "cpu_to_domain t ! info_id k = d" by auto
        with dl dom_at u have "same_unit k i" by (auto simp: same_unit_def domain_of_def)
        with inv k i have "cpu_to_domain t ! info_id i = d"
          by (auto simp: pop_inv_def same_unit_sym [of i])
        with d show "find ?zero [0..<length (domains t)] = Some (cpu_to_domain t ! info_id i)" by simp
      qed
      have "c \<in> info_id ` set infos"
        if "c < ?N" "find ?zero [0..<length (domains t)] = Some (cpu_to_domain t ! c)"
      proof (rule ccontr)
        assume "c \<notin> info_id ` set infos"
        with out that have "cpu_to_domain t ! c = size_max" by (simp add: kNoSmcuDomain_def)
        with that small doms show False by (auto simp: find_upt_Some)
      qed
      with cpu uniq bound pol show ?thesis by auto
    qed
  qed
qed

theorem from_registers_allowed_witness:
  "\<exists>t. from_registers (\<lambda>_ _. True) example_cpus = Some t
    \<and> is_cpu_allowed t 2 \<and> \<not> is_cpu_allowed t 1"
proof -
  obtain t where t: "from_registers (\<lambda>_ _. True) example_cpus = Some t"
    using example_topology by auto
  have "distinct (map info_id example_cpus)" by (simp add: example_cpus_def)
  from from_registers_allowed [OF t this, of 2] from_registers_allowed [OF t this, of 1]
  have "is_cpu_allowed t 2" "\<not> is_cpu_allowed t 1"
    by (simp_all add: example_cpus_def policy_allows_def arm_part_allowed_def midr_implementer_def
        midr_part_def part_defs)
  with t show ?thesis by auto
qed

text \<open>
  Every malformed report is rejected: a CPU whose SMIDR has the reserved sharing encoding or
  the reserved unit count, cores of different implementers, and CPUs that share units but
  disagree on how many there are all make \<^verbatim>\<open>from_registers\<close> return nothing.
\<close>

theorem from_registers_rejects:
  assumes "distinct (map info_id infos)"
    and "(\<exists>i \<in> set infos. \<not> decodable i)
      \<or> (\<exists>i \<in> set infos. \<exists>j \<in> set infos. midr_implementer (midr i) \<noteq> midr_implementer (midr j))
      \<or> (\<exists>i \<in> set infos. \<exists>j \<in> set infos. same_unit i j
            \<and> smidr_smcu_count (smidr i) \<noteq> smidr_smcu_count (smidr j))"
  shows "from_registers malloc infos = None"
proof (rule ccontr)
  assume "from_registers malloc infos \<noteq> None"
  then obtain t where t: "from_registers malloc infos = Some t" by auto
  from t assms(1) obtain doms n where inv: "pop_inv infos (doms, n, cpu_to_domain t)"
    by (rule from_registers_inv)
  from t have impl: "\<forall>i \<in> set infos. midr_implementer (midr i) = midr_implementer (midr (infos ! 0))"
    by (rule from_registersE)
  have dec: "decodable i" "doms ! (cpu_to_domain t ! info_id i) = domain_of i" if "i \<in> set infos" for i
    using inv that by (auto simp: pop_inv_def)
  have count: "smidr_smcu_count (smidr i) = smidr_smcu_count (smidr j)"
    if ij: "i \<in> set infos" "j \<in> set infos" "same_unit i j" for i j
  proof (cases "i = j")
    case False
    have "cpu_to_domain t ! info_id i = cpu_to_domain t ! info_id j"
      using inv ij by (auto simp: pop_inv_def)
    then have "domain_of i = domain_of j" using dec(2) [OF ij(1)] dec(2) [OF ij(2)] by simp
    with False ij dec(1) [OF ij(1)] dec(1) [OF ij(2)] show ?thesis
      by (auto simp: same_unit_def domain_of_def decodable_def)
  qed simp
  show False using assms(2)
  proof (elim disjE bexE)
    fix i j assume ij: "i \<in> set infos" "j \<in> set infos"
    assume "midr_implementer (midr i) \<noteq> midr_implementer (midr j)"
    with impl ij show False by metis
  qed (use dec(1) count in auto)
qed

theorem from_registers_rejects_witness:
  "from_registers (\<lambda>_ _. True) [\<lparr>info_id = 0, midr = 0x410FD900, smidr = 0x2000\<rparr>] = None"
proof -
  have "\<not> decodable \<lparr>info_id = 0, midr = 0x410FD900, smidr = 0x2000\<rparr>"
    by (simp add: decodable_def smidr_sharing_def)
  then show ?thesis by (intro from_registers_rejects) auto
qed

end
