(* ===== verification/Kcv_Types.thy ===== *)
theory Kcv_Types
  imports Kcv_Prelude
begin

text \<open>
  The C types of the public interface, \<^verbatim>\<open>kleidicv/include/kleidicv/ctypes.h\<close>:
  error codes, points and rectangles, border, interpolation and flip modes.
\<close>

datatype kleidicv_error_t =
    KLEIDICV_OK
  | KLEIDICV_ERROR_NOT_IMPLEMENTED
  | KLEIDICV_ERROR_NULL_POINTER
  | KLEIDICV_ERROR_RANGE
  | KLEIDICV_ERROR_ALLOCATION
  | KLEIDICV_ERROR_ALIGNMENT
  | KLEIDICV_ERROR_CONTEXT_MISMATCH

text \<open>\<^verbatim>\<open>kleidicv_error_t{}\<close>, the value-initialised error, is the first constant.\<close>

definition error_zero :: kleidicv_error_t where "error_zero = KLEIDICV_OK"

record kleidicv_point_t =
  pt_x :: nat
  pt_y :: nat

record kleidicv_rectangle_t =
  rect_width :: nat
  rect_height :: nat

datatype kleidicv_border_type_t =
    KLEIDICV_BORDER_TYPE_CONSTANT
  | KLEIDICV_BORDER_TYPE_REPLICATE
  | KLEIDICV_BORDER_TYPE_REFLECT
  | KLEIDICV_BORDER_TYPE_WRAP
  | KLEIDICV_BORDER_TYPE_REVERSE
  | KLEIDICV_BORDER_TYPE_TRANSPARENT
  | KLEIDICV_BORDER_TYPE_NONE

datatype kleidicv_interpolation_type_t =
    KLEIDICV_INTERPOLATION_NEAREST
  | KLEIDICV_INTERPOLATION_LINEAR

datatype kleidicv_flip_mode_t =
    KLEIDICV_FLIP_HORIZONTAL
  | KLEIDICV_FLIP_VERTICAL
  | KLEIDICV_FLIP_BOTH

text \<open>
  Limits of \<^verbatim>\<open>kleidicv.h\<close>: the largest image, the largest element and the largest
  channel count.
\<close>

definition KLEIDICV_MAX_IMAGE_PIXELS :: nat where
  "KLEIDICV_MAX_IMAGE_PIXELS = 2 ^ 48 - 1"

definition KLEIDICV_MAXIMUM_TYPE_SIZE :: nat where
  "KLEIDICV_MAXIMUM_TYPE_SIZE = 8"

definition KLEIDICV_MAXIMUM_CHANNEL_COUNT :: nat where
  "KLEIDICV_MAXIMUM_CHANNEL_COUNT = 4"

text \<open>
  The base formats and flags of \<^verbatim>\<open>kleidicv_color_conversion_t\<close>; a conversion code is
  a base format with flags ORed in.
\<close>

definition KLEIDICV_COLOR_CONVERSION_FMT_YUV444 :: u32 where
  "KLEIDICV_COLOR_CONVERSION_FMT_YUV444 = 0x01"
definition KLEIDICV_COLOR_CONVERSION_FMT_YUV420SP :: u32 where
  "KLEIDICV_COLOR_CONVERSION_FMT_YUV420SP = 0x02"
definition KLEIDICV_COLOR_CONVERSION_FMT_YUV420P :: u32 where
  "KLEIDICV_COLOR_CONVERSION_FMT_YUV420P = 0x03"
definition KLEIDICV_COLOR_CONVERSION_FMT_YUV422 :: u32 where
  "KLEIDICV_COLOR_CONVERSION_FMT_YUV422 = 0x04"
definition KLEIDICV_COLOR_CONVERSION_YUV_FMT_MASK :: u32 where
  "KLEIDICV_COLOR_CONVERSION_YUV_FMT_MASK = 0x0F"
definition KLEIDICV_COLOR_CONVERSION_FLAG_VU :: u32 where
  "KLEIDICV_COLOR_CONVERSION_FLAG_VU = 0x10"
definition KLEIDICV_COLOR_CONVERSION_FLAG_BGR :: u32 where
  "KLEIDICV_COLOR_CONVERSION_FLAG_BGR = 0x20"
definition KLEIDICV_COLOR_CONVERSION_FLAG_ALPHA :: u32 where
  "KLEIDICV_COLOR_CONVERSION_FLAG_ALPHA = 0x40"
definition KLEIDICV_COLOR_CONVERSION_FLAG_CHROMA_FIRST :: u32 where
  "KLEIDICV_COLOR_CONVERSION_FLAG_CHROMA_FIRST = 0x80"

lemmas color_defs [kcv_defs] = KLEIDICV_COLOR_CONVERSION_FMT_YUV444_def
  KLEIDICV_COLOR_CONVERSION_FMT_YUV420SP_def KLEIDICV_COLOR_CONVERSION_FMT_YUV420P_def
  KLEIDICV_COLOR_CONVERSION_FMT_YUV422_def KLEIDICV_COLOR_CONVERSION_YUV_FMT_MASK_def
  KLEIDICV_COLOR_CONVERSION_FLAG_VU_def KLEIDICV_COLOR_CONVERSION_FLAG_BGR_def
  KLEIDICV_COLOR_CONVERSION_FLAG_ALPHA_def KLEIDICV_COLOR_CONVERSION_FLAG_CHROMA_FIRST_def

lemmas limit_defs [kcv_defs] = KLEIDICV_MAX_IMAGE_PIXELS_def KLEIDICV_MAXIMUM_TYPE_SIZE_def
  KLEIDICV_MAXIMUM_CHANNEL_COUNT_def

end
