(* ===== verification/Sme_Limiter.thy ===== *)
theory Sme_Limiter
  imports Sme_Topology Kcv_Types
begin

text \<open>
  \<^verbatim>\<open>SmeThreadLimiter\<close>
  (\<^verbatim>\<open>kleidicv_thread/src/sme_thread_limiter.h\<close> and
  \<^verbatim>\<open>.cpp\<close>): a counting semaphore per sharing domain, taken by a compare-exchange loop
  and given back by the guard's destructor. First the sequential operations, then the concurrent
  machine: any number of threads, each between the steps of \<^verbatim>\<open>try_acquire\<close>.
\<close>

record AttemptResult =
  accepted :: bool
  error :: kleidicv_error_t

definition rejected :: AttemptResult where
  "rejected = \<lparr>accepted = False, error = error_zero\<rparr>"

text \<open>The constructor: one atomic counter per domain, none when the allocation fails.\<close>

definition init_slots :: "(nat \<Rightarrow> bool) \<Rightarrow> SmcuTopology \<Rightarrow> u32 list" where
  "init_slots malloc topo =
     (case ha_allocate malloc 4 0 (domain_count topo) ha_empty of
        (False, _) \<Rightarrow> []
      | (True, a) \<Rightarrow> fold (\<lambda>domain slots. slots[domain := of_nat (topo_slot_count topo domain)])
                      [0..<domain_count topo] (ha_elems a))"

text \<open>\<^verbatim>\<open>try_acquire\<close> when no other thread touches the counter.\<close>

definition try_acquire :: "u32 list \<Rightarrow> nat \<Rightarrow> bool \<times> u32 list" where
  "try_acquire slots domain =
     (if domain \<ge> length slots then (False, slots)
      else if slots ! domain > 0 then (True, slots[domain := slots ! domain - 1])
      else (False, slots))"

definition try_to_run_on_cpu ::
    "SmcuTopology \<Rightarrow> nat \<Rightarrow> ('s \<Rightarrow> kleidicv_error_t \<times> 's) \<Rightarrow> u32 list \<times> 's
      \<Rightarrow> AttemptResult \<times> u32 list \<times> 's" where
  "try_to_run_on_cpu topo cpu callback st =
     (case st of (slots, s) \<Rightarrow>
        (if \<not> is_cpu_allowed topo cpu then (rejected, slots, s)
         else
           let domain = domain_for_cpu topo cpu in
           case try_acquire slots domain of
             (False, slots') \<Rightarrow> (rejected, slots', s)
           | (True, slots') \<Rightarrow>
               (case callback s of
                  (err, s') \<Rightarrow>
                    (\<lparr>accepted = True, error = err\<rparr>,
                     slots'[domain := slots' ! domain + 1], s'))))"

text \<open>\<open>cpu\<close> is the result of \<^verbatim>\<open>sched_getcpu\<close>, negative on failure.\<close>

definition try_to_run ::
    "SmcuTopology \<Rightarrow> int \<Rightarrow> ('s \<Rightarrow> kleidicv_error_t \<times> 's) \<Rightarrow> u32 list \<times> 's
      \<Rightarrow> AttemptResult \<times> u32 list \<times> 's" where
  "try_to_run topo cpu callback st =
     (if cpu < 0 then (rejected, st) else try_to_run_on_cpu topo (nat cpu) callback st)"

lemmas limiter_defs [kcv_defs] = rejected_def error_zero_def init_slots_def try_acquire_def
  try_to_run_on_cpu_def try_to_run_def

section \<open>The concurrent machine\<close>

text \<open>
  A thread is idle, in the loop of \<^verbatim>\<open>try_acquire\<close> with the value it last read from
  the counter of a domain, or running its callback under the guard.
\<close>

datatype thread_state = Idle | Trying nat u32 | Running nat

text \<open>
  The shared counters and, per counter, every value it has had (its modification order). All
  accesses are relaxed: a plain load, and the load of a failed compare-exchange, may return any
  value of that order; the atomic read-modify-writes act on the current value.
\<close>

record limiter_sys =
  slots :: "u32 list"
  history :: "nat \<Rightarrow> u32 list"
  thread :: "nat \<Rightarrow> thread_state"

definition init_sys :: "u32 list \<Rightarrow> limiter_sys" where
  "init_sys sl = \<lparr>slots = sl, history = (\<lambda>d. if d < length sl then [sl ! d] else []),
     thread = (\<lambda>_. Idle)\<rparr>"

definition write_slot :: "nat \<Rightarrow> u32 \<Rightarrow> limiter_sys \<Rightarrow> limiter_sys" where
  "write_slot d v s = s\<lparr>slots := (slots s)[d := v], history := (history s)(d := history s d @ [v])\<rparr>"

definition set_thread :: "nat \<Rightarrow> thread_state \<Rightarrow> limiter_sys \<Rightarrow> limiter_sys" where
  "set_thread t pc s = s\<lparr>thread := (thread s)(t := pc)\<rparr>"

inductive limiter_step :: "SmcuTopology \<Rightarrow> limiter_sys \<Rightarrow> limiter_sys \<Rightarrow> bool"
  for topo :: SmcuTopology where
  load: "thread s t = Idle \<Longrightarrow> is_cpu_allowed topo cpu \<Longrightarrow> d = domain_for_cpu topo cpu \<Longrightarrow>
    d < length (slots s) \<Longrightarrow> v \<in> set (history s d) \<Longrightarrow>
    limiter_step topo s (set_thread t (Trying d v) s)"
| cas_success: "thread s t = Trying d v \<Longrightarrow> v > 0 \<Longrightarrow> slots s ! d = v \<Longrightarrow>
    limiter_step topo s (set_thread t (Running d) (write_slot d (v - 1) s))"
| cas_failure: "thread s t = Trying d v \<Longrightarrow> v > 0 \<Longrightarrow> v' \<in> set (history s d) \<Longrightarrow>
    limiter_step topo s (set_thread t (Trying d v') s)"
| give_up: "thread s t = Trying d 0 \<Longrightarrow> limiter_step topo s (set_thread t Idle s)"
| release: "thread s t = Running d \<Longrightarrow>
    limiter_step topo s (set_thread t Idle (write_slot d (slots s ! d + 1) s))"

inductive reaches :: "SmcuTopology \<Rightarrow> limiter_sys \<Rightarrow> limiter_sys \<Rightarrow> bool"
  for topo :: SmcuTopology where
  start: "reaches topo s s"
| extend: "reaches topo s u \<Longrightarrow> limiter_step topo u v \<Longrightarrow> reaches topo s v"

inductive_cases limiter_stepE: "limiter_step topo s s'"

lemmas sys_simps = init_sys_def write_slot_def set_thread_def

lemma reaches_trans: "reaches topo u v \<Longrightarrow> reaches topo s u \<Longrightarrow> reaches topo s v"
  by (induction rule: reaches.induct) (auto intro: reaches.extend)

section \<open>The counter and its holders\<close>

definition running :: "limiter_sys \<Rightarrow> nat \<Rightarrow> nat set" where
  "running s d = {t. thread s t = Running d}"

definition limiter_inv :: "SmcuTopology \<Rightarrow> limiter_sys \<Rightarrow> bool" where
  "limiter_inv topo s \<longleftrightarrow>
     finite {t. thread s t \<noteq> Idle}
     \<and> (\<forall>d < length (slots s). unat (slots s ! d) + card (running s d) = topo_slot_count topo d
          \<and> topo_slot_count topo d < 2 ^ 32)
     \<and> (\<forall>t d v. thread s t = Trying d v \<longrightarrow> d < length (slots s))
     \<and> (\<forall>t d. thread s t = Running d \<longrightarrow> d < length (slots s))"

lemma finite_running: "limiter_inv topo s \<Longrightarrow> finite (running s d)"
  unfolding limiter_inv_def running_def by (erule conjE, erule finite_subset [rotated]) auto

lemma sys_access [simp]:
  "slots (set_thread t pc s) = slots s" "thread (set_thread t pc s) = (thread s)(t := pc)"
  "history (set_thread t pc s) = history s" "slots (write_slot d v s) = (slots s)[d := v]"
  "thread (write_slot d v s) = thread s"
  "history (write_slot d v s) = (history s)(d := history s d @ [v])"
  by (simp_all add: set_thread_def write_slot_def)

lemma limiter_inv_count:
  "limiter_inv topo s \<Longrightarrow> d < length (slots s) \<Longrightarrow>
     unat (slots s ! d) + card (running s d) = topo_slot_count topo d
     \<and> topo_slot_count topo d < 2 ^ 32"
  by (simp add: limiter_inv_def)

lemma limiter_invI:
  assumes "finite {t. thread s t \<noteq> Idle}"
    and "\<And>d. d < length (slots s) \<Longrightarrow> unat (slots s ! d) + card (running s d) = topo_slot_count topo d
          \<and> topo_slot_count topo d < 2 ^ 32"
    and "\<And>t d v. thread s t = Trying d v \<or> thread s t = Running d \<Longrightarrow> d < length (slots s)"
  shows "limiter_inv topo s"
  using assms unfolding limiter_inv_def by blast

lemma limiter_inv_domain:
  "limiter_inv topo s \<Longrightarrow> thread s t = Trying d v \<or> thread s t = Running d \<Longrightarrow> d < length (slots s)"
  by (auto simp: limiter_inv_def)

lemma running_set_thread:
  "running (set_thread t pc s) d =
     (if pc = Running d then insert t (running s d) else running s d - {t})"
  by (auto simp: running_def)

lemma running_write_slot [simp]: "running (write_slot d v s) e = running s e"
  by (simp add: running_def write_slot_def)

lemma active_set_thread:
  "finite {t. thread s t \<noteq> Idle} \<Longrightarrow> finite {u. thread (set_thread t pc s) u \<noteq> Idle}"
  by (rule finite_subset [of _ "insert t {t. thread s t \<noteq> Idle}"]) auto

lemma running_other: "thread s t \<noteq> Running d \<Longrightarrow> running s d - {t} = running s d"
  by (auto simp: running_def)

lemma limiter_inv_move:
  assumes inv: "limiter_inv topo s" and d: "d < length (slots s)"
    and pc: "pc = Idle \<or> pc = Running d"
    and count: "unat v + card (running (set_thread t pc s) d) = topo_slot_count topo d"
    and other: "\<And>e. e \<noteq> d \<Longrightarrow> running (set_thread t pc s) e = running s e"
  shows "limiter_inv topo (set_thread t pc (write_slot d v s))"
proof -
  let ?s = "set_thread t pc (write_slot d v s)"
  have run: "running ?s e = running (set_thread t pc s) e" for e
    by (simp add: running_set_thread)
  have "unat (slots ?s ! e) + card (running ?s e) = topo_slot_count topo e
      \<and> topo_slot_count topo e < 2 ^ 32" if "e < length (slots s)" for e
    using limiter_inv_count [OF inv that] count other d unfolding run by (cases "e = d") auto
  moreover have "finite {u. thread ?s u \<noteq> Idle}"
    using inv by (intro active_set_thread) (simp add: limiter_inv_def)
  moreover have "e < length (slots s)" if "thread ?s u = Trying e w \<or> thread ?s u = Running e" for u e w
    using that limiter_inv_domain [OF inv, of u e w] pc d by (cases "u = t") auto
  ultimately show ?thesis by (intro limiter_invI) simp_all
qed

lemma limiter_inv_take:
  assumes inv: "limiter_inv topo s" and t: "thread s t = Trying d v" and v: "v > 0" "slots s ! d = v"
  shows "limiter_inv topo (set_thread t (Running d) (write_slot d (v - 1) s))"
proof (rule limiter_inv_move [OF inv])
  show d: "d < length (slots s)" using limiter_inv_domain [OF inv] t by blast
  have "t \<notin> running s d" using t by (simp add: running_def)
  with finite_running [OF inv]
  have "card (running (set_thread t (Running d) s) d) = Suc (card (running s d))"
    by (simp add: running_set_thread)
  moreover have "unat (v - 1) = unat v - 1" "0 < unat v"
    using v(1) by (simp_all add: unat_minus_one unat_gt_0 word_neq_0_conv)
  ultimately show "unat (v - 1) + card (running (set_thread t (Running d) s) d) = topo_slot_count topo d"
    using limiter_inv_count [OF inv d] v(2) by simp
qed (use t in \<open>auto simp: running_set_thread running_other\<close>)

lemma limiter_inv_give:
  assumes inv: "limiter_inv topo s" and t: "thread s t = Running d"
  shows "limiter_inv topo (set_thread t Idle (write_slot d (slots s ! d + 1) s))"
proof (rule limiter_inv_move [OF inv])
  show d: "d < length (slots s)" using limiter_inv_domain [OF inv] t by blast
  have "t \<in> running s d" using t by (simp add: running_def)
  then have card: "card (running s d) = Suc (card (running (set_thread t Idle s) d))"
    using card.remove [OF finite_running [OF inv]]
    by (simp only: running_set_thread thread_state.simps if_False)
  with limiter_inv_count [OF inv d] have "unat (slots s ! d) + 1 < 2 ^ 32" by linarith
  then have "unat (slots s ! d + 1) = unat (slots s ! d) + 1"
    by (rule unat_plus_one_u32)
  with card limiter_inv_count [OF inv d]
  show "unat (slots s ! d + 1) + card (running (set_thread t Idle s) d) = topo_slot_count topo d"
    by simp
qed (use t in \<open>auto simp: running_set_thread running_other\<close>)

lemma limiter_inv_local:
  assumes inv: "limiter_inv topo s" and t: "\<forall>d. thread s t \<noteq> Running d"
    and pc: "pc = Idle \<or> (\<exists>d v. pc = Trying d v \<and> d < length (slots s))"
  shows "limiter_inv topo (set_thread t pc s)"
proof -
  have "running (set_thread t pc s) d = running s d" for d
    using t pc by (auto simp: running_set_thread running_other)
  moreover have "finite {u. thread (set_thread t pc s) u \<noteq> Idle}"
    using inv by (intro active_set_thread) (simp add: limiter_inv_def)
  moreover have "e < length (slots s)"
    if "thread (set_thread t pc s) u = Trying e w \<or> thread (set_thread t pc s) u = Running e" for u e w
    using that limiter_inv_domain [OF inv, of u e w] pc by (cases "u = t") auto
  ultimately show ?thesis using limiter_inv_count [OF inv] by (intro limiter_invI) simp_all
qed

lemma limiter_step_inv: "limiter_step topo s s' \<Longrightarrow> limiter_inv topo s \<Longrightarrow> limiter_inv topo s'"
proof (induction rule: limiter_step.induct)
  case (load s t cpu d v)
  then show ?case by (intro limiter_inv_local) auto
next
  case (cas_success s t d v)
  then show ?case by (intro limiter_inv_take) auto
next
  case (cas_failure s t d v v')
  then show ?case by (intro limiter_inv_local) (auto simp: limiter_inv_def)
next
  case (give_up s t d)
  then show ?case by (intro limiter_inv_local) auto
next
  case (release s t d)
  then show ?case by (intro limiter_inv_give)
qed

lemma reaches_inv: "reaches topo s s' \<Longrightarrow> limiter_inv topo s \<Longrightarrow> limiter_inv topo s'"
  by (induction rule: reaches.induct) (auto intro: limiter_step_inv)

lemma limiter_step_length: "limiter_step topo s s' \<Longrightarrow> length (slots s') = length (slots s)"
  by (induction rule: limiter_step.induct) (auto simp: sys_simps)

section \<open>The initial state\<close>

definition topo_ok :: "SmcuTopology \<Rightarrow> bool" where
  "topo_ok topo \<longleftrightarrow> (\<forall>d < domain_count topo. 1 \<le> topo_slot_count topo d \<and> topo_slot_count topo d \<le> 15)"

lemma from_registers_topo_ok:
  assumes t: "from_registers malloc infos = Some t" and dist: "distinct (map info_id infos)"
  shows "topo_ok t"
proof -
  from t dist obtain doms n where inv: "pop_inv infos (doms, n, cpu_to_domain t)"
    and doms: "domains t = take n doms" "n \<le> length doms" by (rule from_registers_inv)
  have "1 \<le> topo_slot_count t d \<and> topo_slot_count t d \<le> 15" if "d < n" for d
  proof -
    from inv that obtain i where i: "i \<in> set infos" "cpu_to_domain t ! info_id i = d"
      by (simp add: pop_inv_def) blast
    with inv have "doms ! d = domain_of i" "decodable i" by (auto simp: pop_inv_def)
    then show ?thesis
      using that doms smidr_smcu_count_range [of "smidr i"]
      by (auto simp: topo_slot_count_def domain_of_def decodable_def)
  qed
  with doms show ?thesis by (simp add: topo_ok_def domain_count_def)
qed

lemma init_slots_eq:
  "init_slots malloc topo = [] \<or> init_slots malloc topo
     = map (\<lambda>d. of_nat (topo_slot_count topo d)) [0..<domain_count topo]"
proof (cases "ha_allocate malloc 4 (0 :: u32) (domain_count topo) ha_empty")
  case (Pair ok a)
  show ?thesis
  proof (cases ok)
    case True
    with Pair have alloc: "ha_allocate malloc 4 (0 :: u32) (domain_count topo) ha_empty = (True, a)" by simp
    have "length (ha_elems a) = domain_count topo"
      using ha_allocate_fresh [OF alloc] by simp
    then show ?thesis by (simp add: init_slots_def alloc fill_whole_array)
  next
    case False
    with Pair show ?thesis by (simp add: init_slots_def)
  qed
qed

lemma init_sys_inv: "topo_ok topo \<Longrightarrow> limiter_inv topo (init_sys (init_slots malloc topo))"
  using init_slots_eq [of malloc topo]
  by (auto simp: limiter_inv_def init_sys_def running_def topo_ok_def unat_of_nat
      intro!: mod_less intro: order.strict_trans1)

section \<open>The modification order\<close>

definition history_inv :: "limiter_sys \<Rightarrow> bool" where
  "history_inv s \<longleftrightarrow> (\<forall>d < length (slots s). slots s ! d \<in> set (history s d))"

lemma history_inv_init: "history_inv (init_sys sl)"
  by (simp add: history_inv_def init_sys_def)

lemma limiter_step_history: "limiter_step topo s s' \<Longrightarrow> history_inv s \<Longrightarrow> history_inv s'"
  by (induction rule: limiter_step.induct) (auto simp: history_inv_def nth_list_update)

lemma reaches_history: "reaches topo s s' \<Longrightarrow> history_inv s \<Longrightarrow> history_inv s'"
  by (induction rule: reaches.induct) (auto intro: limiter_step_history)

text \<open>Every value a thread can read from a counter was its value in some earlier state.\<close>

definition past_value :: "SmcuTopology \<Rightarrow> limiter_sys \<Rightarrow> limiter_sys \<Rightarrow> nat \<Rightarrow> u32 \<Rightarrow> bool" where
  "past_value topo i s d v \<longleftrightarrow>
     (\<exists>u. reaches topo i u \<and> reaches topo u s \<and> d < length (slots u) \<and> slots u ! d = v)"

lemma past_value_step:
  "past_value topo i s d v \<Longrightarrow> limiter_step topo s s' \<Longrightarrow> past_value topo i s' d v"
  unfolding past_value_def by (blast intro: reaches.extend)

definition reads_past :: "SmcuTopology \<Rightarrow> limiter_sys \<Rightarrow> limiter_sys \<Rightarrow> bool" where
  "reads_past topo i s \<longleftrightarrow>
     (\<forall>d v. v \<in> set (history s d) \<longrightarrow> d < length (slots s) \<longrightarrow> past_value topo i s d v)
     \<and> (\<forall>t d v. thread s t = Trying d v \<longrightarrow> past_value topo i s d v)
     \<and> (\<forall>t d v. thread s t = Trying d v \<or> thread s t = Running d \<longrightarrow> d < length (slots s))"

lemma reads_past_step:
  assumes step: "limiter_step topo s s'" and reach: "reaches topo i s" and past: "reads_past topo i s"
  shows "reads_past topo i s'"
proof -
  have now: "past_value topo i s' d (slots s' ! d)" if "d < length (slots s')" for d
    unfolding past_value_def using reach step that by (blast intro: reaches.intros)
  have keep: "past_value topo i s' d v" if "past_value topo i s d v" for d v
    using past_value_step [OF that step] .
  have dom: "thread s t = Trying d v \<Longrightarrow> d < length (slots s)"
      "thread s t = Running d \<Longrightarrow> d < length (slots s)" for t d v
    using past unfolding reads_past_def by blast+
  have hist: "v \<in> set (history s d) \<or> d < length (slots s) \<and> v = slots s' ! d"
    if "v \<in> set (history s' d)" for d v
    using step that by (cases rule: limiter_step.cases) (auto dest: dom split: if_splits)
  have tr: "d < length (slots s) \<and> (v \<in> set (history s d) \<or> thread s t = Trying d v)"
    if "thread s' t = Trying d v" for t d v
    using step that by (cases rule: limiter_step.cases) (auto dest: dom split: if_splits)
  have run: "d < length (slots s)" if "thread s' t = Running d" for t d
    using step that by (cases rule: limiter_step.cases) (auto dest: dom split: if_splits)
  note len = limiter_step_length [OF step]
  show ?thesis
    unfolding reads_past_def len
  proof (intro conjI allI impI)
    fix d v assume "v \<in> set (history s' d)" "d < length (slots s)"
    with hist [of v d] past keep now len show "past_value topo i s' d v"
      by (auto simp: reads_past_def)
  next
    fix t d v assume "thread s' t = Trying d v"
    with tr past keep show "past_value topo i s' d v" by (fastforce simp: reads_past_def)
  next
    fix t d v assume "thread s' t = Trying d v \<or> thread s' t = Running d"
    with tr run show "d < length (slots s)" by blast
  qed
qed

lemma reaches_reads_past: "reaches topo (init_sys sl) s \<Longrightarrow> reads_past topo (init_sys sl) s"
proof (induction "init_sys sl" s rule: reaches.induct)
  case start
  have "past_value topo (init_sys sl) (init_sys sl) d (sl ! d)" if "d < length sl" for d
    unfolding past_value_def using that
    by (intro exI [of _ "init_sys sl"]) (auto simp: init_sys_def intro: reaches.start)
  then show ?case by (auto simp: reads_past_def init_sys_def)
next
  case (extend u v)
  then show ?case by (blast intro: reads_past_step)
qed

section \<open>Properties of the limiter\<close>

text \<open>
  C3. Whatever the interleaving, the number of threads running on the streaming units of a
  domain never exceeds the number of units the domain has, and the counter is exactly the number
  of units left.
\<close>

theorem limiter_never_oversubscribed:
  assumes "from_registers malloc infos = Some topo" and "distinct (map info_id infos)"
    and "reaches topo (init_sys (init_slots malloc' topo)) s"
  shows "card (running s d) \<le> topo_slot_count topo d
    \<and> (d < length (slots s) \<longrightarrow> unat (slots s ! d) = topo_slot_count topo d - card (running s d))"
proof -
  have inv: "limiter_inv topo s"
    using reaches_inv [OF assms(3)] init_sys_inv [OF from_registers_topo_ok [OF assms(1,2)]] by blast
  show ?thesis
  proof (cases "d < length (slots s)")
    case True
    with limiter_inv_count [OF inv] show ?thesis by fastforce
  next
    case False
    with limiter_inv_domain [OF inv] have "running s d = {}" by (auto simp: running_def)
    with False show ?thesis by simp
  qed
qed

theorem limiter_never_oversubscribed_witness:
  "\<exists>topo. from_registers (\<lambda>_ _. True) example_cpus = Some topo \<and>
     card (running (init_sys (init_slots (\<lambda>_. True) topo)) 0) \<le> topo_slot_count topo 0"
proof -
  obtain t where t: "from_registers (\<lambda>_ _. True) example_cpus = Some t"
    using example_topology by auto
  moreover have "distinct (map info_id example_cpus)" by (simp add: example_cpus_def)
  ultimately show ?thesis
    using limiter_never_oversubscribed [OF t _ reaches.start] by blast
qed

text \<open>
  C35. No unit is ever lost: once every thread is idle again, all counters have their initial
  values.
\<close>

theorem limiter_returns_all_slots:
  assumes "from_registers malloc infos = Some topo" and "distinct (map info_id infos)"
    and reach: "reaches topo (init_sys (init_slots malloc' topo)) s"
    and idle: "\<forall>t d. thread s t \<noteq> Running d"
  shows "slots s = init_slots malloc' topo"
proof -
  let ?i = "init_sys (init_slots malloc' topo)"
  have ok: "limiter_inv topo ?i" by (rule init_sys_inv [OF from_registers_topo_ok [OF assms(1,2)]])
  have inv: "limiter_inv topo s" by (rule reaches_inv [OF reach ok])
  have len: "length (slots s) = length (slots ?i)"
    using reach by (induction rule: reaches.induct) (auto dest: limiter_step_length)
  have "running s d = {}" for d using idle by (auto simp: running_def)
  moreover have "running ?i d = {}" for d by (simp add: running_def init_sys_def)
  ultimately have "unat (slots s ! d) = unat (slots ?i ! d)" if "d < length (slots s)" for d
    using limiter_inv_count [OF inv that] limiter_inv_count [OF ok, of d] that len by simp
  then have "slots s = slots ?i"
    using len by (intro nth_equalityI) (auto simp: word_unat_eq_iff)
  then show ?thesis by (simp add: init_sys_def)
qed

text \<open>
  A thread gives up only for a reason: when it is about to return false, then at some
  earlier moment every unit of the domain was in use.
\<close>

theorem limiter_gives_up_only_when_full:
  assumes "from_registers malloc infos = Some topo" and "distinct (map info_id infos)"
    and reach: "reaches topo (init_sys (init_slots malloc' topo)) s"
    and zero: "thread s t = Trying d 0"
  shows "\<exists>u. reaches topo (init_sys (init_slots malloc' topo)) u \<and> reaches topo u s
    \<and> card (running u d) = topo_slot_count topo d"
proof -
  have ok: "limiter_inv topo (init_sys (init_slots malloc' topo))"
    by (rule init_sys_inv [OF from_registers_topo_ok [OF assms(1,2)]])
  have "past_value topo (init_sys (init_slots malloc' topo)) s d 0"
    using reaches_reads_past [OF reach] zero unfolding reads_past_def by blast
  then obtain u where u:
    "reaches topo (init_sys (init_slots malloc' topo)) u" "reaches topo u s"
    "d < length (slots u)" "slots u ! d = 0"
    unfolding past_value_def by blast
  with limiter_inv_count [OF reaches_inv [OF u(1) ok] u(3)] show ?thesis by auto
qed

text \<open>
  C36. Progress: in every reachable state with a free unit, an idle thread on an allowed CPU of
  that domain can get the unit, without any other thread moving.
\<close>

theorem limiter_progress:
  assumes "from_registers malloc infos = Some topo" and "distinct (map info_id infos)"
    and reach: "reaches topo (init_sys (init_slots malloc' topo)) s"
    and free: "card (running s d) < topo_slot_count topo d"
    and alloc: "length (slots s) = domain_count topo"
    and idle: "thread s t = Idle"
    and cpu: "is_cpu_allowed topo cpu" "domain_for_cpu topo cpu = d"
  shows "\<exists>s'. reaches topo s s' \<and> thread s' t = Running d \<and> (\<forall>u. u \<noteq> t \<longrightarrow> thread s' u = thread s u)"
proof -
  have ok: "limiter_inv topo (init_sys (init_slots malloc' topo))"
    by (rule init_sys_inv [OF from_registers_topo_ok [OF assms(1,2)]])
  have d: "d < length (slots s)"
    using free alloc by (auto simp: topo_slot_count_def domain_count_def split: if_splits)
  have "unat (slots s ! d) \<noteq> 0"
    using limiter_inv_count [OF reaches_inv [OF reach ok] d] free by linarith
  then have pos: "slots s ! d > 0" by (simp add: word_neq_0_conv [symmetric] unat_eq_zero)
  have "slots s ! d \<in> set (history s d)"
    using reaches_history [OF reach history_inv_init] d by (simp add: history_inv_def)
  then have one: "limiter_step topo s (set_thread t (Trying d (slots s ! d)) s)" (is "limiter_step _ _ ?s1")
    using idle cpu d by (intro limiter_step.load) auto
  have two: "limiter_step topo ?s1 (set_thread t (Running d) (write_slot d (slots s ! d - 1) ?s1))"
    using pos by (intro limiter_step.cas_success) auto
  have "reaches topo s (set_thread t (Running d) (write_slot d (slots s ! d - 1) ?s1))"
    by (rule reaches.extend [OF reaches.extend [OF reaches.start one] two])
  then show ?thesis by (intro exI conjI) auto
qed

section \<open>A run on a concrete machine\<close>

text \<open>One C1-Premium core with a unit of its own; thread 0 takes it, thread 1 finds it taken.\<close>

definition solo_cpus :: "CpuInfo list" where
  "solo_cpus = [\<lparr>info_id = 0, midr = 0x410FD900, smidr = 0\<rparr>]"

definition solo_topo :: SmcuTopology where
  "solo_topo = \<lparr>cpu_to_domain = [0], cpu_allowed = [True],
     domains = [\<lparr>affinity = 0, slot_count = 1, shared = False\<rparr>]\<rparr>"

lemma solo_topology: "from_registers (\<lambda>_ _. True) solo_cpus = Some solo_topo"
  by (simp add: kcv_defs solo_cpus_def solo_topo_def size_max_def domain_zero_def)

lemma solo_distinct: "distinct (map info_id solo_cpus)"
  by (simp add: solo_cpus_def)

lemma solo_slots: "init_slots (\<lambda>_. True) solo_topo = [1]"
  by (simp add: init_slots_def solo_topo_def domain_count_def topo_slot_count_def ha_defs size_max_def)

lemma solo_cpu: "is_cpu_allowed solo_topo 0" "domain_for_cpu solo_topo 0 = 0"
  by (simp_all add: solo_topo_def is_cpu_allowed_def domain_for_cpu_def)

definition solo_busy :: limiter_sys where
  "solo_busy = set_thread 0 (Running 0) (write_slot 0 (1 - 1) (set_thread 0 (Trying 0 1) (init_sys [1])))"

definition solo_full :: limiter_sys where
  "solo_full = set_thread 1 (Trying 0 0) solo_busy"

lemma solo_busy_reached: "reaches solo_topo (init_sys [1]) solo_busy"
  unfolding solo_busy_def
proof (rule reaches.extend [OF reaches.extend [OF reaches.start]])
  show "limiter_step solo_topo (init_sys [1]) (set_thread 0 (Trying 0 1) (init_sys [1]))"
    using solo_cpu by (intro limiter_step.load) (auto simp: init_sys_def)
  show "limiter_step solo_topo (set_thread 0 (Trying 0 1) (init_sys [1]))
      (set_thread 0 (Running 0) (write_slot 0 (1 - 1) (set_thread 0 (Trying 0 1) (init_sys [1]))))"
    by (intro limiter_step.cas_success) (auto simp: init_sys_def)
qed

lemma solo_full_reached: "reaches solo_topo (init_sys [1]) solo_full"
proof (rule reaches.extend [OF solo_busy_reached])
  show "limiter_step solo_topo solo_busy solo_full"
    unfolding solo_full_def using solo_cpu
    by (intro limiter_step.load) (auto simp: solo_busy_def init_sys_def)
qed

theorem limiter_returns_all_slots_witness:
  "slots (init_sys (init_slots (\<lambda>_. True) solo_topo)) = [1]"
  using limiter_returns_all_slots [OF solo_topology solo_distinct reaches.start, of "\<lambda>_. True"]
  by (simp add: init_sys_def solo_slots)

theorem limiter_gives_up_only_when_full_witness:
  "\<exists>u. reaches solo_topo (init_sys [1]) u \<and> reaches solo_topo u solo_full \<and> card (running u 0) = 1"
  using limiter_gives_up_only_when_full
    [OF solo_topology solo_distinct, of "\<lambda>_. True" solo_full 1 0, unfolded solo_slots]
    solo_full_reached
  by (simp add: solo_full_def topo_slot_count_def solo_topo_def)

theorem limiter_progress_witness:
  "\<exists>s'. reaches solo_topo (init_sys [1]) s' \<and> thread s' 5 = Running 0"
  using limiter_progress
    [OF solo_topology solo_distinct, of "\<lambda>_. True" "init_sys [1]" 0 5 0, unfolded solo_slots]
    solo_cpu
  by (auto simp: init_sys_def running_def topo_slot_count_def domain_count_def solo_topo_def
      intro: reaches.start)

section \<open>The sequential operation\<close>

lemma plus_minus_slot: "d < length (sl :: u32 list) \<Longrightarrow>
    sl[d := sl ! d - 1, d := sl[d := sl ! d - 1] ! d + 1] = sl"
  by simp

lemma try_to_run_eq:
  "try_to_run topo cpu callback (sl, s) =
     (if 0 \<le> cpu \<and> is_cpu_allowed topo (nat cpu) \<and> domain_for_cpu topo (nat cpu) < length sl
        \<and> sl ! domain_for_cpu topo (nat cpu) > 0
      then (\<lparr>accepted = True, error = fst (callback s)\<rparr>, sl, snd (callback s))
      else (\<lparr>accepted = False, error = KLEIDICV_OK\<rparr>, sl, s))"
  by (auto simp: limiter_defs Let_def plus_minus_slot not_le split: prod.split)

text \<open>
  \<^verbatim>\<open>try_to_run\<close>: the callback is accepted exactly when the CPU is known and
  allowed and its domain has a free unit; its error is then passed on, a rejection carries the
  zero error, and the counters are the same afterwards on every branch.
\<close>

theorem try_to_run_spec:
  "try_to_run topo cpu callback (sl, s) =
     (if 0 \<le> cpu \<and> is_cpu_allowed topo (nat cpu) \<and> domain_for_cpu topo (nat cpu) < length sl
        \<and> sl ! domain_for_cpu topo (nat cpu) > 0
      then (\<lparr>accepted = True, error = fst (callback s)\<rparr>, sl, snd (callback s))
      else (\<lparr>accepted = False, error = KLEIDICV_OK\<rparr>, sl, s))"
  by (rule try_to_run_eq)

end
