(* ===== verification/Row_Operations.thy ===== *)
theory Row_Operations
  imports Kcv_Prelude "HOL-Library.Multiset"
begin

text \<open>
  The contract that lets the library cut an image operation into pieces: the operation is a
  sequence of row (or element) steps that do not interfere. Threads rely on it when they take rows
  in any order, the vector loops when they process the last elements twice.
\<close>

text \<open>
  What makes an operation safe to distribute: it works row by row and the rows do not interfere.
\<close>

locale row_operation =
  fixes row :: "nat \<Rightarrow> 's \<Rightarrow> 's" and rows :: nat
  assumes rows_commute: "i < rows \<Longrightarrow> j < rows \<Longrightarrow> i \<noteq> j \<Longrightarrow> row i (row j s) = row j (row i s)"
begin

lemma fold_rows_perm:
  assumes "mset xs = mset ys" and "set xs \<subseteq> {..<rows}"
  shows "fold row xs s = fold row ys s"
proof -
  have "row x \<circ> row y = row y \<circ> row x" if "x \<in> set xs" "y \<in> set xs" for x y
    using that assms(2) rows_commute [of x y] by (cases "x = y") (auto simp: fun_eq_iff subset_eq)
  with assms(1) have "fold row xs = fold row ys" by (intro fold_multiset_equiv) auto
  then show ?thesis by simp
qed

end

text \<open>Steps that may also be repeated.\<close>

locale element_operation = row_operation row rows for row :: "nat \<Rightarrow> 's \<Rightarrow> 's" and rows +
  assumes row_idem: "i < rows \<Longrightarrow> row i (row i s) = row i s"
begin

lemma fold_rows_set:
  assumes "set xs = set ys" and "set xs \<subseteq> {..<rows}"
  shows "fold row xs s = fold row ys s"
proof -
  have idem: "comp_fun_idem_on {..<rows} row"
  proof
    fix x y
    assume "x \<in> {..<rows}" "y \<in> {..<rows}"
    then show "row y \<circ> row x = row x \<circ> row y"
      by (cases "x = y") (auto simp: fun_eq_iff rows_commute [of x y])
  next
    fix x
    assume "x \<in> {..<rows}"
    then show "row x \<circ> row x = row x" by (simp add: fun_eq_iff row_idem)
  qed
  show ?thesis
    using assms comp_fun_idem_on.fold_set_fold [OF idem, of xs s]
      comp_fun_idem_on.fold_set_fold [OF idem, of ys s] by simp
qed

end

end
