(* ===== verification/Loop_Unroll.thy ===== *)
theory Loop_Unroll
  imports Row_Operations
begin

text \<open>
  The loop helpers of \<^verbatim>\<open>kleidicv/include/kleidicv/utils.h\<close>. \<open>LoopUnroll\<close>
  hands its callbacks a number of elements to process at the caller's cursor, \<open>LoopUnroll2\<close>
  hands them an index. A callback is an action on the caller's state \<open>'s\<close>. The results
  compare them with the loop over single elements.
\<close>

section \<open>LoopUnroll\<close>

record loop_unroll =
  lu_length :: nat
  lu_step :: nat
  lu_index :: nat
  can_avoid_tail :: bool

definition LoopUnroll :: "nat \<Rightarrow> nat \<Rightarrow> loop_unroll" where
  "LoopUnroll len step =
     \<lparr>lu_length = len, lu_step = step, lu_index = 0, can_avoid_tail = (len \<ge> step)\<rparr>"

definition unroll_n_times ::
    "nat \<Rightarrow> (nat \<Rightarrow> 's \<Rightarrow> 's) \<Rightarrow> loop_unroll \<times> 's \<Rightarrow> loop_unroll \<times> 's" where
  "unroll_n_times factor callback st =
     (case st of (lp, s) \<Rightarrow>
        let step = factor * lu_step lp; max_index = lu_length lp div step in
        (lp\<lparr>lu_length := lu_length lp - step * max_index, lu_index := max_index\<rparr>,
         fold (\<lambda>_. callback step) [0..<max_index] s))"

definition unroll_four_times where "unroll_four_times = unroll_n_times 4"
definition unroll_twice where "unroll_twice = unroll_n_times 2"
definition unroll_once where "unroll_once = unroll_n_times 1"

definition unroll_twice_if where
  "unroll_twice_if enable callback st = (if enable then unroll_twice callback st else st)"

definition unroll_once_if where
  "unroll_once_if enable callback st = (if enable then unroll_once callback st else st)"

definition tail :: "(nat \<Rightarrow> 's \<Rightarrow> 's) \<Rightarrow> loop_unroll \<times> 's \<Rightarrow> loop_unroll \<times> 's" where
  "tail callback st =
     (case st of (lp, s) \<Rightarrow>
        (lp\<lparr>lu_length := 0, lu_index := lu_length lp\<rparr>, fold callback [0..<lu_length lp] s))"

definition remaining :: "(nat \<Rightarrow> nat \<Rightarrow> 's \<Rightarrow> 's) \<Rightarrow> loop_unroll \<times> 's \<Rightarrow> loop_unroll \<times> 's" where
  "remaining callback st =
     (case st of (lp, s) \<Rightarrow>
        (if lu_length lp \<noteq> 0
         then (lp\<lparr>lu_length := 0\<rparr>, callback (lu_length lp) (lu_step lp) s)
         else st))"

definition lu_empty :: "loop_unroll \<Rightarrow> bool" where
  "lu_empty lp = (lu_length lp = 0)"

definition avoid_tail :: "loop_unroll \<Rightarrow> loop_unroll" where
  "avoid_tail lp = lp\<lparr>lu_length := lu_step lp\<rparr>"

definition try_avoid_tail_loop ::
    "(nat \<Rightarrow> 's \<Rightarrow> 's) \<Rightarrow> loop_unroll \<times> 's \<Rightarrow> bool \<times> loop_unroll \<times> 's" where
  "try_avoid_tail_loop callback st =
     (case st of (lp, s) \<Rightarrow>
        (if \<not> can_avoid_tail lp then (False, st)
         else if lu_length lp = 0 then (False, st)
         else (True, avoid_tail lp, callback (lu_step lp - lu_length lp) s)))"

lemmas loop_unroll_defs [kcv_defs] = LoopUnroll_def unroll_n_times_def unroll_four_times_def
  unroll_twice_def unroll_once_def unroll_twice_if_def unroll_once_if_def tail_def remaining_def
  lu_empty_def avoid_tail_def try_avoid_tail_loop_def

text \<open>
  The usual client: a cursor into the data, moved forward by each vector step; \<open>elem i\<close> is the
  work on element \<open>i\<close>.
\<close>

definition moves_cursor :: "(nat \<Rightarrow> 's \<Rightarrow> 's) \<Rightarrow> (nat \<Rightarrow> nat \<times> 's \<Rightarrow> nat \<times> 's) \<Rightarrow> bool" where
  "moves_cursor elem callback \<longleftrightarrow>
     (\<forall>n p s. callback n (p, s) = (p + n, fold elem [p..<p + n] s))"

definition at_cursor :: "(nat \<Rightarrow> 's \<Rightarrow> 's) \<Rightarrow> nat \<Rightarrow> nat \<times> 's \<Rightarrow> nat \<times> 's" where
  "at_cursor elem i st = (case st of (p, s) \<Rightarrow> (p, elem (p + i) s))"

lemma fold_upt_append: "a \<le> b \<Longrightarrow> b \<le> c \<Longrightarrow> fold f [b..<c] (fold f [a..<b] s) = fold f [a..<c] s"
  by (metis comp_apply fold_append le_add_diff_inverse upt_add_eq_append)

lemma fold_blocks:
  assumes "moves_cursor elem callback"
  shows "fold (\<lambda>_. callback n) [0..<m] (p, s) = (p + n * m, fold elem [p..<p + n * m] s)"
proof (induction m)
  case 0
  then show ?case by simp
next
  case (Suc m)
  have "fold (\<lambda>_. callback n) [0..<Suc m] (p, s) = callback n (p + n * m, fold elem [p..<p + n * m] s)"
    using Suc by simp
  also have "\<dots> = (p + n * m + n, fold elem [p + n * m..<p + n * m + n] (fold elem [p..<p + n * m] s))"
    using assms by (simp add: moves_cursor_def)
  finally show ?case by (simp add: fold_upt_append add.assoc add.commute [of n])
qed

lemma unroll_n_times_cursor:
  assumes "moves_cursor elem callback"
  shows "unroll_n_times k callback (lp, p, s) =
    (let done = k * lu_step lp * (lu_length lp div (k * lu_step lp)) in
     (lp\<lparr>lu_length := lu_length lp - done, lu_index := lu_length lp div (k * lu_step lp)\<rparr>,
      p + done, fold elem [p..<p + done] s))"
  by (simp add: unroll_n_times_def Let_def fold_blocks [OF assms])

lemma fold_at_cursor: "fold (at_cursor elem) is (p, s) = (p, fold (\<lambda>i. elem (p + i)) is s)"
  by (induction "is" arbitrary: s) (auto simp: at_cursor_def)

lemma fold_shift: "fold (\<lambda>i. f (p + i)) [0..<n] s = fold f [p..<p + n] s"
  by (induction n) auto

lemma tail_cursor:
  "tail (at_cursor elem) (lp, p, s) =
    (lp\<lparr>lu_length := 0, lu_index := lu_length lp\<rparr>, p, fold elem [p..<p + lu_length lp] s)"
  by (simp add: tail_def fold_at_cursor fold_shift)

text \<open>What is left after an unrolled part, and how much has been done, always add up.\<close>

definition cursor_at :: "(nat \<Rightarrow> 's \<Rightarrow> 's) \<Rightarrow> nat \<Rightarrow> 's \<Rightarrow> loop_unroll \<times> nat \<times> 's \<Rightarrow> bool" where
  "cursor_at elem len s0 st \<longleftrightarrow>
     (case st of (lp, p, s) \<Rightarrow> p + lu_length lp = len \<and> s = fold elem [0..<p] s0)"

lemma cursor_at_start: "cursor_at elem len s (LoopUnroll len step, 0, s)"
  by (simp add: cursor_at_def LoopUnroll_def)

lemma cursor_at_unroll:
  assumes "cursor_at elem len s0 st" and "moves_cursor elem callback"
  shows "cursor_at elem len s0 (unroll_n_times k callback st)"
proof -
  obtain lp p s where st: "st = (lp, p, s)" by (cases st)
  let ?d = "k * lu_step lp * (lu_length lp div (k * lu_step lp))"
  have "?d \<le> lu_length lp" by simp
  with assms show ?thesis
    by (simp add: cursor_at_def st unroll_n_times_cursor [OF assms(2)] Let_def fold_upt_append)
qed

lemma cursor_at_tail:
  assumes "cursor_at elem len s0 st"
  shows "snd (snd (tail (at_cursor elem) st)) = fold elem [0..<len] s0"
proof -
  obtain lp p s where st: "st = (lp, p, s)" by (cases st)
  with assms show ?thesis by (simp add: cursor_at_def tail_cursor fold_upt_append)
qed

section \<open>LoopUnroll2\<close>

record loop_unroll2 =
  l2_length :: nat
  l2_step :: nat
  l2_index :: nat

definition LoopUnroll2 :: "nat \<Rightarrow> nat \<Rightarrow> nat \<Rightarrow> loop_unroll2" where
  "LoopUnroll2 start_index len step =
     \<lparr>l2_length = len, l2_step = step, l2_index = min start_index len\<rparr>"

definition remaining_length2 :: "loop_unroll2 \<Rightarrow> nat" where
  "remaining_length2 lp = l2_length lp - l2_index lp"

text \<open>
  The inner loop of the vector path, and the double loop of
  \<^verbatim>\<open>TryToAvoidTailLoop\<close>. A step of 0 is a division by zero in the code before the
  loop starts; here it ends the loop.
\<close>

function vector_loop :: "nat \<Rightarrow> nat \<Rightarrow> (nat \<Rightarrow> 's \<Rightarrow> 's) \<Rightarrow> nat \<Rightarrow> 's \<Rightarrow> nat \<times> 's" where
  "vector_loop n_step max_index callback index s =
     (if index < max_index \<and> 0 < n_step
      then vector_loop n_step max_index callback (index + n_step) (callback index s)
      else (index, s))"
  by pat_completeness auto
termination by (relation "measure (\<lambda>(n, m, cb, i, s). m - i)") auto

declare vector_loop.simps [simp del]

lemma vector_loop_exit: "0 < n \<Longrightarrow> m \<le> fst (vector_loop n m cb i s)"
proof (induction n m cb i s rule: vector_loop.induct)
  case (1 n m cb i s)
  then show ?case by (subst vector_loop.simps) auto
qed

function rewind_loop ::
    "nat \<Rightarrow> nat \<Rightarrow> (nat \<Rightarrow> 's \<Rightarrow> 's) \<Rightarrow> nat \<Rightarrow> nat \<Rightarrow> 's \<Rightarrow> nat \<times> 's" where
  "rewind_loop n_step len callback max_index index s =
     (if index < len \<and> 0 < n_step then
        (let r = vector_loop n_step max_index callback index s in
         if len - fst r \<noteq> 0
         then rewind_loop n_step len callback len (len - n_step) (snd r)
         else rewind_loop n_step len callback max_index (fst r) (snd r))
      else (index, s))"
  by pat_completeness auto
termination
proof (relation "measures [\<lambda>(n, len, cb, m, i, s). if i < len then 1 else 0,
    \<lambda>(n, len, cb, m, i, s). if len \<le> fst (vector_loop n m cb i s) then 0 else 1]")
  fix n len :: nat and cb :: "nat \<Rightarrow> 's \<Rightarrow> 's" and m i :: nat and s :: 's and r
  assume a: "i < len \<and> 0 < n" "r = vector_loop n m cb i s"
  show "((n, len, cb, len, len - n, snd r), n, len, cb, m, i, s)
    \<in> measures [\<lambda>(n, len, cb, m, i, s). if i < len then 1 else 0,
      \<lambda>(n, len, cb, m, i, s). if len \<le> fst (vector_loop n m cb i s) then 0 else 1]"
    if "len - fst r \<noteq> 0"
    using a that vector_loop_exit [of n len cb "len - n" "snd r"] by auto
  show "((n, len, cb, m, fst r, snd r), n, len, cb, m, i, s)
    \<in> measures [\<lambda>(n, len, cb, m, i, s). if i < len then 1 else 0,
      \<lambda>(n, len, cb, m, i, s). if len \<le> fst (vector_loop n m cb i s) then 0 else 1]"
    if "\<not> len - fst r \<noteq> 0"
    using a that by (auto simp: case_prod_beta)
qed simp

declare rewind_loop.simps [simp del]

definition unroll_n_times2 ::
    "bool \<Rightarrow> nat \<Rightarrow> (nat \<Rightarrow> 's \<Rightarrow> 's) \<Rightarrow> loop_unroll2 \<times> 's \<Rightarrow> loop_unroll2 \<times> 's" where
  "unroll_n_times2 try_to_avoid_tail factor callback st =
     (case st of (lp, s) \<Rightarrow>
        let n_step = factor * l2_step lp;
            max_index = l2_index lp + (remaining_length2 lp div n_step) * n_step
        in if try_to_avoid_tail \<and> factor = 1 then
             (if l2_length lp \<ge> n_step then
                (case rewind_loop n_step (l2_length lp) callback max_index (l2_index lp) s of
                   (index, s') \<Rightarrow> (lp\<lparr>l2_index := index\<rparr>, s'))
              else st)
           else
             (case vector_loop n_step max_index callback (l2_index lp) s of
                (index, s') \<Rightarrow> (lp\<lparr>l2_index := index\<rparr>, s')))"

definition unroll_four_times2 where "unroll_four_times2 avoid = unroll_n_times2 avoid 4"
definition unroll_twice2 where "unroll_twice2 avoid = unroll_n_times2 avoid 2"
definition unroll_once2 where "unroll_once2 avoid = unroll_n_times2 avoid 1"

definition unroll_twice_if2 where
  "unroll_twice_if2 enable avoid callback st = (if enable then unroll_twice2 avoid callback st else st)"

definition unroll_once_if2 where
  "unroll_once_if2 enable avoid callback st = (if enable then unroll_once2 avoid callback st else st)"

definition tail2 :: "(nat \<Rightarrow> 's \<Rightarrow> 's) \<Rightarrow> loop_unroll2 \<times> 's \<Rightarrow> loop_unroll2 \<times> 's" where
  "tail2 callback st =
     (case st of (lp, s) \<Rightarrow>
        (lp\<lparr>l2_index := max (l2_index lp) (l2_length lp)\<rparr>,
         fold callback [l2_index lp..<l2_length lp] s))"

definition remaining2 ::
    "(nat \<Rightarrow> nat \<Rightarrow> 's \<Rightarrow> 's) \<Rightarrow> loop_unroll2 \<times> 's \<Rightarrow> loop_unroll2 \<times> 's" where
  "remaining2 callback st =
     (case st of (lp, s) \<Rightarrow>
        (if remaining_length2 lp \<noteq> 0
         then (lp\<lparr>l2_index := l2_length lp\<rparr>, callback (l2_index lp) (l2_length lp) s)
         else st))"

definition empty2 :: "loop_unroll2 \<Rightarrow> bool" where
  "empty2 lp = (l2_length lp = l2_index lp)"

lemmas loop_unroll2_defs [kcv_defs] = LoopUnroll2_def remaining_length2_def unroll_n_times2_def
  unroll_four_times2_def unroll_twice2_def unroll_once2_def unroll_twice_if2_def
  unroll_once_if2_def tail2_def remaining2_def empty2_def

section \<open>What the index loops compute\<close>

text \<open>
  A block callback does the work of the \<open>n\<close> elements from its index on; it is only
  constrained where the whole block lies inside the data.
\<close>

definition block_callback :: "(nat \<Rightarrow> 's \<Rightarrow> 's) \<Rightarrow> nat \<Rightarrow> nat \<Rightarrow> (nat \<Rightarrow> 's \<Rightarrow> 's) \<Rightarrow> bool" where
  "block_callback elem len n callback \<longleftrightarrow>
     (\<forall>i s. i + n \<le> len \<longrightarrow> callback i s = fold elem [i..<i + n] s)"

text \<open>The same where only the positions that the vector loop visits from \<open>start\<close> on matter.\<close>

definition grid_callback ::
    "(nat \<Rightarrow> 's \<Rightarrow> 's) \<Rightarrow> nat \<Rightarrow> nat \<Rightarrow> nat \<Rightarrow> (nat \<Rightarrow> 's \<Rightarrow> 's) \<Rightarrow> bool" where
  "grid_callback elem start len n callback \<longleftrightarrow>
     (\<forall>q s. start + q * n + n \<le> len \<longrightarrow>
        callback (start + q * n) s = fold elem [start + q * n..<start + q * n + n] s)"

lemma block_grid_callback: "block_callback elem len n callback \<Longrightarrow> grid_callback elem start len n callback"
  by (simp add: block_callback_def grid_callback_def)

lemma grid_callback_next:
  assumes "grid_callback elem start len n callback"
  shows "grid_callback elem (start + n) len n callback"
  unfolding grid_callback_def
proof (intro allI impI)
  fix q s
  assume "start + n + q * n + n \<le> len"
  then have "start + Suc q * n + n \<le> len" by simp
  with assms have "callback (start + Suc q * n) s = fold elem [start + Suc q * n..<start + Suc q * n + n] s"
    unfolding grid_callback_def by blast
  then show "callback (start + n + q * n) s = fold elem [start + n + q * n..<start + n + q * n + n] s"
    by (simp add: add.assoc)
qed

lemma vector_loop_grid:
  assumes "grid_callback elem index len n callback" and "0 < n" and "index + q * n \<le> len"
  shows "vector_loop n (index + q * n) callback index s
    = (index + q * n, fold elem [index..<index + q * n] s)"
  using assms(1,3)
proof (induction q arbitrary: index s)
  case 0
  then show ?case by (simp add: vector_loop.simps)
next
  case (Suc q)
  have "vector_loop n (index + Suc q * n) callback index s
      = vector_loop n (index + n + q * n) callback (index + n) (callback index s)"
    using assms(2) by (subst vector_loop.simps) (simp add: add.assoc)
  also have "\<dots> = (index + n + q * n, fold elem [index + n..<index + n + q * n] (callback index s))"
    by (rule Suc.IH [OF grid_callback_next [OF Suc.prems(1)]]) (use Suc.prems in simp)
  also have "callback index s = fold elem [index..<index + n] s"
    using Suc.prems(1) [unfolded grid_callback_def, rule_format, of 0 s] Suc.prems(2) by simp
  finally show ?case by (simp add: fold_upt_append add.assoc)
qed

lemma vector_loop_blocks:
  assumes "block_callback elem len n callback" and "0 < n" and "index + q * n \<le> len"
  shows "vector_loop n (index + q * n) callback index s
    = (index + q * n, fold elem [index..<index + q * n] s)"
  by (rule vector_loop_grid [OF block_grid_callback [OF assms(1)] assms(2,3)])

lemma vector_loop_stops: "m \<le> i \<Longrightarrow> vector_loop n m cb i s = (i, s)"
  by (simp add: vector_loop.simps)

lemma vector_loop_one: "0 < n \<Longrightarrow> n \<le> len \<Longrightarrow> vector_loop n len cb (len - n) s = (len, cb (len - n) s)"
  by (subst vector_loop.simps) (simp add: vector_loop_stops)

text \<open>
  The double loop: the whole blocks from \<open>index\<close> on, then, unless they end exactly at the end,
  the last block of the data once more from its own start.
\<close>

lemma rewind_loop_blocks:
  assumes blk: "block_callback elem len n callback" and n: "0 < n" "n \<le> len"
    and q: "q = (len - index) div n" and le: "index \<le> len"
  shows "rewind_loop n len callback (index + q * n) index s =
    (len, fold elem (if n dvd len - index then [index..<len]
                     else [index..<index + q * n] @ [len - n..<len]) s)"
proof -
  have bound: "index + q * n \<le> len"
    using le div_times_less_eq_dividend [of "len - index" n] unfolding q by linarith
  note loop = vector_loop_blocks [OF blk n(1) bound]
  show ?thesis
  proof (cases "n dvd len - index")
    case True
    then have eq: "index + q * n = len" using q le by simp
    show ?thesis
    proof (cases "index < len")
      case less: True
      with loop eq n(1) True show ?thesis
        by (subst rewind_loop.simps) (simp add: rewind_loop.simps [of _ _ _ _ len])
    next
      case False
      with le True show ?thesis by (simp add: rewind_loop.simps)
    qed
  next
    case False
    then have "index + q * n \<noteq> len"
      using q by (metis diff_add_inverse dvd_triv_right)
    with bound have lt: "index + q * n < len" by simp
    then have "rewind_loop n len callback (index + q * n) index s
        = rewind_loop n len callback len (len - n) (fold elem [index..<index + q * n] s)"
      using n(1) loop by (subst rewind_loop.simps) simp
    also have "\<dots> = (len, callback (len - n) (fold elem [index..<index + q * n] s))"
      using n
      by (subst rewind_loop.simps)
        (simp add: vector_loop_one [OF n] Let_def rewind_loop.simps [of _ _ _ _ len])
    also have "callback (len - n) s' = fold elem [len - n..<len] s'" for s'
      using blk n(2) by (simp add: block_callback_def)
    finally show ?thesis using False by simp
  qed
qed

text \<open>A doubled vector loop over aligned data, then whatever remains in one call.\<close>

lemma unroll_twice_remaining:
  assumes "grid_callback elem 0 len (2 * step) twice" and "0 < step"
  shows "snd (remaining2 rest (unroll_twice2 False twice (LoopUnroll2 0 len step, s))) =
    (let stop = len div (2 * step) * (2 * step); s' = fold elem [0..<stop] s
     in if stop = len then s' else rest stop len s')"
proof -
  define stop where "stop = len div (2 * step) * (2 * step)"
  have le: "stop \<le> len" by (simp add: stop_def)
  have loop: "vector_loop (2 * step) stop twice 0 s = (stop, fold elem [0..<stop] s)"
    unfolding stop_def using vector_loop_grid [OF assms(1) _ , of "len div (2 * step)" s] assms(2) by simp
  have "unroll_twice2 False twice (LoopUnroll2 0 len step, s) =
      (\<lparr>l2_length = len, l2_step = step, l2_index = stop\<rparr>, fold elem [0..<stop] s)"
    by (simp add: unroll_twice2_def unroll_n_times2_def LoopUnroll2_def remaining_length2_def
        flip: stop_def) (simp add: loop)
  with le show ?thesis
    by (cases "stop = len")
      (simp_all add: remaining_length2_def remaining2_def Let_def flip: stop_def)
qed

text \<open>How far the work has got, as for \<open>LoopUnroll\<close>.\<close>

definition index_at :: "(nat \<Rightarrow> 's \<Rightarrow> 's) \<Rightarrow> nat \<Rightarrow> nat \<Rightarrow> 's \<Rightarrow> loop_unroll2 \<times> 's \<Rightarrow> bool" where
  "index_at elem start len s0 st \<longleftrightarrow>
     (case st of (lp, s) \<Rightarrow>
        l2_length lp = len \<and> start \<le> l2_index lp \<and> l2_index lp \<le> len
        \<and> s = fold elem [start..<l2_index lp] s0)"

lemma index_at_start: "index_at elem (min start len) len s (LoopUnroll2 start len step, s)"
  by (simp add: index_at_def LoopUnroll2_def)

lemma unroll_n_times2_index:
  assumes "block_callback elem (l2_length lp) (k * l2_step lp) callback" and "0 < k * l2_step lp"
    and "l2_index lp \<le> l2_length lp" and "\<not> (avoid \<and> k = 1)"
  shows "unroll_n_times2 avoid k callback (lp, s) =
    (let stop = l2_index lp + (l2_length lp - l2_index lp) div (k * l2_step lp) * (k * l2_step lp)
     in (lp\<lparr>l2_index := stop\<rparr>, fold elem [l2_index lp..<stop] s))"
proof -
  have "l2_index lp + (l2_length lp - l2_index lp) div (k * l2_step lp) * (k * l2_step lp) \<le> l2_length lp"
    using assms(3) div_times_less_eq_dividend [of "l2_length lp - l2_index lp" "k * l2_step lp"]
    by linarith
  from vector_loop_blocks [OF assms(1,2) this] show ?thesis
    using assms(4) by (auto simp: unroll_n_times2_def remaining_length2_def Let_def)
qed

lemma index_at_unroll:
  assumes at: "index_at elem start len s0 (lp, s)"
    and "block_callback elem len (k * l2_step lp) callback" and "0 < k * l2_step lp"
    and "\<not> (avoid \<and> k = 1)"
  shows "index_at elem start len s0 (unroll_n_times2 avoid k callback (lp, s))"
    and "l2_step (fst (unroll_n_times2 avoid k callback (lp, s))) = l2_step lp"
proof -
  let ?stop = "l2_index lp + (len - l2_index lp) div (k * l2_step lp) * (k * l2_step lp)"
  have lp: "l2_length lp = len" "start \<le> l2_index lp" "l2_index lp \<le> len"
    "s = fold elem [start..<l2_index lp] s0"
    using at by (simp_all add: index_at_def)
  have eq: "unroll_n_times2 avoid k callback (lp, s) =
      (lp\<lparr>l2_index := ?stop\<rparr>, fold elem [l2_index lp..<?stop] s)"
    using unroll_n_times2_index [of elem lp k callback avoid s] assms lp by (simp add: Let_def)
  have "?stop \<le> len"
    using lp(3) div_times_less_eq_dividend [of "len - l2_index lp" "k * l2_step lp"] by linarith
  moreover have "fold elem [l2_index lp..<?stop] s = fold elem [start..<?stop] s0"
    unfolding lp(4) by (rule fold_upt_append) (use lp in auto)
  ultimately show "index_at elem start len s0 (unroll_n_times2 avoid k callback (lp, s))"
    unfolding eq index_at_def using lp(1,2) by simp
  show "l2_step (fst (unroll_n_times2 avoid k callback (lp, s))) = l2_step lp"
    by (simp add: eq)
qed

lemma index_at_tail:
  assumes "index_at elem start len s0 st"
  shows "snd (tail2 elem st) = fold elem [start..<len] s0"
  using assms by (cases st) (simp add: index_at_def tail2_def fold_upt_append)

lemma index_at_remaining:
  assumes "index_at elem start len s0 st"
    and "\<And>a b s. a < b \<Longrightarrow> b \<le> len \<Longrightarrow> callback a b s = fold elem [a..<b] s"
  shows "snd (remaining2 callback st) = fold elem [start..<len] s0"
proof -
  obtain lp s where st: "st = (lp, s)" by (cases st)
  with assms(1) have "l2_length lp = len" "start \<le> l2_index lp" "l2_index lp \<le> len"
    "s = fold elem [start..<l2_index lp] s0" by (simp_all add: index_at_def)
  then show ?thesis
    by (cases "l2_index lp = len")
      (simp_all add: st remaining2_def remaining_length2_def assms(2) fold_upt_append)
qed

section \<open>Properties\<close>

text \<open>
  \<open>LoopUnroll\<close>: however the length and the step relate, the chain of a four-fold, a
  two-fold and a single unrolled loop and the tail does the work of every element exactly once, in
  order.
\<close>

theorem loop_unroll_every_element:
  assumes "moves_cursor elem callback"
  shows "snd (snd (tail (at_cursor elem) (unroll_once callback (unroll_twice callback
      (unroll_four_times callback (LoopUnroll len step, 0, s)))))) = fold elem [0..<len] s"
  unfolding unroll_once_def unroll_twice_def unroll_four_times_def
  by (intro cursor_at_tail cursor_at_unroll cursor_at_start assms)

definition double_byte :: "nat \<Rightarrow> nat list \<Rightarrow> nat list" where
  "double_byte i xs = xs[i := 2 * xs ! i]"

theorem loop_unroll_every_element_witness:
  "snd (snd (tail (at_cursor double_byte)
     (unroll_once (\<lambda>n (p, s). (p + n, fold double_byte [p..<p + n] s))
       (unroll_twice (\<lambda>n (p, s). (p + n, fold double_byte [p..<p + n] s))
         (unroll_four_times (\<lambda>n (p, s). (p + n, fold double_byte [p..<p + n] s))
           (LoopUnroll 5 2, 0, [1, 2, 3, 4, 5]))))))
   = [2, 4, 6, 8, 10]"
  using loop_unroll_every_element [of double_byte "\<lambda>n (p, s). (p + n, fold double_byte [p..<p + n] s)"
      5 2 "[1, 2, 3, 4, 5]"]
  by (simp add: moves_cursor_def double_byte_def upt_rec)

text \<open>
  \<open>LoopUnroll2\<close> with a tail path: a doubled and a single vector loop and the tail do
  the work of the elements from the start index on exactly once, in order, and no vector callback
  reaches beyond the end.
\<close>

theorem loop_unroll2_tail_path:
  assumes "block_callback elem len (2 * step) twice" and "block_callback elem len step once"
    and "0 < step"
  shows "snd (tail2 elem (unroll_once2 False once (unroll_twice2 False twice
      (LoopUnroll2 start len step, s)))) = fold elem [min start len..<len] s"
proof -
  obtain lp s' where st: "unroll_twice2 False twice (LoopUnroll2 start len step, s) = (lp, s')"
    by (metis surj_pair)
  have start: "index_at elem (min start len) len s (LoopUnroll2 start len step, s)"
    by (rule index_at_start)
  have "index_at elem (min start len) len s (lp, s')" "l2_step lp = step"
    using index_at_unroll [OF start, of 2 twice False] assms
    by (simp_all add: st [symmetric] unroll_twice2_def LoopUnroll2_def)
       (metis (no_types, lifting) fst_conv loop_unroll2.select_convs(2) st unroll_twice2_def LoopUnroll2_def)
  then have "index_at elem (min start len) len s (unroll_once2 False once (lp, s'))"
    using index_at_unroll(1) [of elem "min start len" len s lp s' 1 once False] assms
    by (simp add: unroll_once2_def)
  then show ?thesis by (simp add: st index_at_tail)
qed

theorem loop_unroll2_tail_path_witness:
  "snd (tail2 double_byte (unroll_once2 False (\<lambda>i s. fold double_byte [i..<i + 2] s)
     (unroll_twice2 False (\<lambda>i s. fold double_byte [i..<i + 4] s)
       (LoopUnroll2 1 8 2, [1, 2, 3, 4, 5, 6, 7, 8]))))
   = [1, 4, 6, 8, 10, 12, 14, 16]"
  using loop_unroll2_tail_path [of double_byte 8 2 "\<lambda>i s. fold double_byte [i..<i + 4] s"
      "\<lambda>i s. fold double_byte [i..<i + 2] s" 1 "[1, 2, 3, 4, 5, 6, 7, 8]"]
  by (simp add: block_callback_def double_byte_def upt_rec)

text \<open>
  C29. \<open>LoopUnroll2\<close> with \<open>TryToAvoidTailLoop\<close>: when the data holds one vector, the
  single vector loop alone does all the work. The last vector overlaps the one before it, so the
  result is that of the plain loop when the element steps do not interfere and may be repeated;
  when the data is shorter than one vector, nothing is done and everything is left for the tail.
\<close>

theorem loop_unroll2_avoids_tail:
  assumes "element_operation elem len" and "block_callback elem len step once" and "0 < step"
  shows "unroll_once2 True once (LoopUnroll2 0 len step, s) =
    (if step \<le> len then (\<lparr>l2_length = len, l2_step = step, l2_index = len\<rparr>, fold elem [0..<len] s)
     else (LoopUnroll2 0 len step, s))"
proof (cases "step \<le> len")
  case False
  then show ?thesis by (simp add: unroll_once2_def unroll_n_times2_def LoopUnroll2_def Let_def)
next
  case True
  have "set (if step dvd len then [0..<len] else [0..<len div step * step] @ [len - step..<len])
      = set [0..<len]"
  proof -
    have "len < len div step * step + step"
      using assms(3) by (metis add.commute dividend_less_div_times mult.commute)
    then show ?thesis by (auto intro: less_le_trans [OF _ div_times_less_eq_dividend])
  qed
  then have "fold elem (if step dvd len then [0..<len]
      else [0..<len div step * step] @ [len - step..<len]) s = fold elem [0..<len] s"
    by (rule element_operation.fold_rows_set [OF assms(1)])
      (auto intro: less_le_trans [OF _ div_times_less_eq_dividend])
  then have "rewind_loop step len once (len div step * step) 0 s = (len, fold elem [0..<len] s)"
    using rewind_loop_blocks [OF assms(2,3) True refl, of 0 s] by (simp only: diff_zero add_0)
  with True show ?thesis
    by (simp add: unroll_once2_def unroll_n_times2_def LoopUnroll2_def remaining_length2_def Let_def)
qed

definition set_byte :: "nat \<Rightarrow> nat list \<Rightarrow> nat list" where
  "set_byte i xs = xs[i := i]"

lemma set_byte_element_operation: "element_operation set_byte n"
  by unfold_locales (auto simp: set_byte_def list_update_swap)

theorem loop_unroll2_avoids_tail_witness:
  "snd (unroll_once2 True (\<lambda>i s. fold set_byte [i..<i + 4] s)
     (LoopUnroll2 0 6 4, [9, 9, 9, 9, 9, 9])) = [0, 1, 2, 3, 4, 5]"
  using loop_unroll2_avoids_tail [OF set_byte_element_operation, of 6 4
      "\<lambda>i s. fold set_byte [i..<i + 4] s" "[9, 9, 9, 9, 9, 9]"]
  by (simp add: block_callback_def set_byte_def upt_rec)

end
