(* ===== verification/Kcv_Memory.thy ===== *)
theory Kcv_Memory
  imports Row_Operations
begin

text \<open>
  The byte memory of the image operations: addresses are natural numbers, \<open>memcpy\<close> and
  \<open>memset\<close> as in the C library, and the footprint of a memory action, from which two actions
  are seen to commute and an action to be repeatable.
\<close>

type_synonym mem = "nat \<Rightarrow> u8"

definition memcpy :: "nat \<Rightarrow> nat \<Rightarrow> nat \<Rightarrow> mem \<Rightarrow> mem" where
  "memcpy dst src n m = (\<lambda>a. if dst \<le> a \<and> a < dst + n then m (src + (a - dst)) else m a)"

definition memset :: "nat \<Rightarrow> u8 \<Rightarrow> nat \<Rightarrow> mem \<Rightarrow> mem" where
  "memset dst v n m = (\<lambda>a. if dst \<le> a \<and> a < dst + n then v else m a)"

text \<open>
  \<open>footprint W R f\<close>: \<open>f\<close> changes memory only in \<open>W\<close>, and what it writes there
  depends only on \<open>R\<close>.
\<close>

definition footprint :: "nat set \<Rightarrow> nat set \<Rightarrow> ((nat \<Rightarrow> 'b) \<Rightarrow> nat \<Rightarrow> 'b) \<Rightarrow> bool" where
  "footprint W R f \<longleftrightarrow>
     (\<forall>m a. a \<notin> W \<longrightarrow> f m a = m a)
     \<and> (\<forall>m m' a. (\<forall>b \<in> R. m b = m' b) \<longrightarrow> a \<in> W \<longrightarrow> f m a = f m' a)"

lemma footprint_outside: "footprint W R f \<Longrightarrow> a \<notin> W \<Longrightarrow> f m a = m a"
  by (simp add: footprint_def)

lemma footprint_cong:
  "footprint W R f \<Longrightarrow> (\<And>b. b \<in> R \<Longrightarrow> m b = m' b) \<Longrightarrow> a \<in> W \<Longrightarrow> f m a = f m' a"
  unfolding footprint_def by blast

lemma footprint_mono: "footprint W R f \<Longrightarrow> R \<subseteq> R' \<Longrightarrow> footprint W R' f"
  unfolding footprint_def by blast

lemma footprint_id [simp]: "footprint {} {} (\<lambda>m. m)"
  by (simp add: footprint_def)

lemma footprint_memcpy: "footprint {dst..<dst + n} {src..<src + n} (memcpy dst src n)"
proof -
  have "src + (a - dst) \<in> {src..<src + n}" if "dst \<le> a" "a < dst + n" for a
    using that by auto
  then show ?thesis by (auto simp: footprint_def memcpy_def simp del: add_diff_assoc)
qed

lemma footprint_memset: "footprint {dst..<dst + n} {} (memset dst v n)"
  by (auto simp: footprint_def memset_def)

lemma footprint_update:
  assumes "\<And>m m'. \<forall>b \<in> R. m b = m' b \<Longrightarrow> g m = g m'"
  shows "footprint {a} R (\<lambda>m. m(a := g m))"
  unfolding footprint_def using assms by (metis fun_upd_apply singletonD singletonI)

text \<open>Sequential composition, when the second action does not read what the first one writes.\<close>

lemma footprint_comp:
  assumes f: "footprint W R f" and g: "footprint W' R' g" and "W \<inter> R' = {}"
  shows "footprint (W \<union> W') (R \<union> R') (\<lambda>m. g (f m))"
  unfolding footprint_def
proof (intro conjI allI impI)
  fix m :: "nat \<Rightarrow> 'a" and a
  assume "a \<notin> W \<union> W'"
  then show "g (f m) a = m a" using footprint_outside [OF f] footprint_outside [OF g] by simp
next
  fix m m' :: "nat \<Rightarrow> 'a" and a
  assume eq: "\<forall>b \<in> R \<union> R'. m b = m' b" and a: "a \<in> W \<union> W'"
  show "g (f m) a = g (f m') a"
  proof (cases "a \<in> W'")
    case True
    have "f m b = f m' b" if "b \<in> R'" for b
    proof -
      have "b \<notin> W" using that assms(3) by blast
      then have "f x b = x b" for x by (rule footprint_outside [OF f])
      then show ?thesis using that eq by simp
    qed
    then show ?thesis by (rule footprint_cong [OF g _ True])
  next
    case False
    then have "g (f x) a = f x a" for x by (rule footprint_outside [OF g])
    moreover have "f m a = f m' a"
      using False a eq by (intro footprint_cong [OF f]) auto
    ultimately show ?thesis by simp
  qed
qed

lemma footprint_commute:
  assumes f: "footprint W R f" and g: "footprint W' R' g"
    and "W \<inter> W' = {}" and "W \<inter> R' = {}" and "W' \<inter> R = {}"
  shows "f (g m) = g (f m)"
proof
  fix a
  consider "a \<in> W" | "a \<in> W'" | "a \<notin> W" "a \<notin> W'" by blast
  then show "f (g m) a = g (f m) a"
  proof cases
    case 1
    have "f (g m) a = f m a"
      using assms(5) footprint_outside [OF g] by (intro footprint_cong [OF f _ 1]) auto
    also have "a \<notin> W'" using 1 assms(3) by blast
    then have "f m a = g (f m) a" by (rule footprint_outside [OF g, symmetric])
    finally show ?thesis .
  next
    case 2
    have "g (f m) a = g m a"
      using assms(4) footprint_outside [OF f] by (intro footprint_cong [OF g _ 2]) auto
    also have "a \<notin> W" using 2 assms(3) by blast
    then have "g m a = f (g m) a" by (rule footprint_outside [OF f, symmetric])
    finally show ?thesis by simp
  next
    case 3
    then show ?thesis using footprint_outside [OF f] footprint_outside [OF g] by simp
  qed
qed

lemma footprint_idem:
  assumes f: "footprint W R f" and "W \<inter> R = {}"
  shows "f (f m) = f m"
proof
  fix a
  show "f (f m) a = f m a"
  proof (cases "a \<in> W")
    case True
    show ?thesis
      using assms(2) footprint_outside [OF f] by (intro footprint_cong [OF f _ True]) auto
  next
    case False
    then show ?thesis by (rule footprint_outside [OF f])
  qed
qed

text \<open>Rows with disjoint footprints form a row operation.\<close>

lemma footprint_rows:
  assumes "\<And>i. i < n \<Longrightarrow> footprint (W i) (R i) (row i)"
    and "\<And>i j. i < n \<Longrightarrow> j < n \<Longrightarrow> i \<noteq> j \<Longrightarrow> W i \<inter> W j = {}"
    and "\<And>i j. i < n \<Longrightarrow> j < n \<Longrightarrow> i \<noteq> j \<Longrightarrow> W i \<inter> R j = {}"
  shows "row_operation row n"
proof
  fix i j m
  assume "i < n" "j < n" "i \<noteq> j"
  with assms(2) [of i j] assms(3) [of i j] assms(3) [of j i] show "row i (row j m) = row j (row i m)"
    by (intro footprint_commute [OF assms(1) assms(1)]) auto
qed

lemma footprint_elements:
  assumes "\<And>i. i < n \<Longrightarrow> footprint (W i) (R i) (row i)"
    and "\<And>i j. i < n \<Longrightarrow> j < n \<Longrightarrow> i \<noteq> j \<Longrightarrow> W i \<inter> W j = {}"
    and "\<And>i j. i < n \<Longrightarrow> j < n \<Longrightarrow> W i \<inter> R j = {}"
  shows "element_operation row n"
proof -
  have "row_operation row n" by (rule footprint_rows [OF assms(1,2)]) (use assms(3) in blast)+
  then show ?thesis
    using footprint_idem [OF assms(1) assms(3)]
    by (simp add: element_operation_def element_operation_axioms_def)
qed

text \<open>Rows of an image with a stride at least as long as the row do not overlap.\<close>

lemma rows_disjoint:
  fixes i j :: nat
  assumes "w \<le> stride" and "i \<noteq> j"
  shows "{base + i * stride..<base + i * stride + w} \<inter> {base + j * stride..<base + j * stride + w} = {}"
proof -
  have lt: "a * stride + w \<le> b * stride" if "a < b" for a b :: nat
  proof -
    have "a * stride + stride \<le> b * stride"
      using that mult_le_mono1 [of "Suc a" b stride] by simp
    with assms(1) show ?thesis by linarith
  qed
  from assms(2) consider "i < j" | "j < i" by linarith
  then show ?thesis using lt by cases force+
qed

lemma row_in_image:
  fixes i :: nat
  shows "i < h \<Longrightarrow> w \<le> stride \<Longrightarrow> base + i * stride + w \<le> base + h * stride"
proof -
  assume "i < h" "w \<le> stride"
  then have "i * stride + stride \<le> h * stride" using mult_le_mono1 [of "Suc i" h stride] by simp
  with \<open>w \<le> stride\<close> show ?thesis by linarith
qed

end
