(* ===== verification/Padding_Kernels.thy ===== *)
theory Padding_Kernels
  imports Loop_Unroll Kcv_Memory
begin

text \<open>
  The byte kernels of \<^verbatim>\<open>add_padding_by_copy_neon.cpp\<close>: writing one pixel over and
  over, and copying pixels in reverse order, each with a vector path for the common pixel layouts
  and a byte path for the rest. Every kernel is shown to be one \<open>gather\<close>: byte \<open>k\<close> of the
  destination is the source byte at an address computed from \<open>k\<close>.
\<close>

section \<open>Gathering bytes\<close>

definition gather :: "nat \<Rightarrow> nat \<Rightarrow> (nat \<Rightarrow> nat) \<Rightarrow> mem \<Rightarrow> mem" where
  "gather dst n f m = (\<lambda>a. if dst \<le> a \<and> a < dst + n then m (f (a - dst)) else m a)"

definition store_bytes :: "nat \<Rightarrow> u8 list \<Rightarrow> mem \<Rightarrow> mem" where
  "store_bytes dst bs m = (\<lambda>a. if dst \<le> a \<and> a < dst + length bs then bs ! (a - dst) else m a)"

lemma gather_in [simp]: "k < n \<Longrightarrow> gather dst n f m (dst + k) = m (f k)"
  by (simp add: gather_def)

lemma gather_out: "a < dst \<or> dst + n \<le> a \<Longrightarrow> gather dst n f m a = m a"
  by (auto simp: gather_def)

text \<open>Two memories that agree inside a block and outside it are equal.\<close>

lemma mem_block_eq:
  fixes m m' :: "nat \<Rightarrow> 'b" and dst n :: nat
  assumes "\<And>k. k < n \<Longrightarrow> m (dst + k) = m' (dst + k)"
    and "\<And>a. a < dst \<or> dst + n \<le> a \<Longrightarrow> m a = m' a"
  shows "m = m'"
proof
  fix a
  show "m a = m' a"
  proof (cases "dst \<le> a \<and> a < dst + n")
    case True
    with assms(1) [of "a - dst"] show ?thesis by (simp add: less_diff_conv2)
  next
    case False
    then show ?thesis using assms(2) by auto
  qed
qed

lemma memcpy_gather: "memcpy dst src n = gather dst n (\<lambda>k. src + k)"
  by (rule ext) (simp only: memcpy_def gather_def)

lemma gather_0 [simp]: "gather dst 0 f m = m"
  by (rule ext, rule gather_out) linarith

lemma gather_same: "(\<And>k. k < n \<Longrightarrow> m (f k) = m (g k)) \<Longrightarrow> gather dst n f m = gather dst n g m"
  by (rule mem_block_eq [of n _ dst]) (simp_all add: gather_out)

lemma gather_cong: "(\<And>k. k < n \<Longrightarrow> f k = g k) \<Longrightarrow> gather dst n f = gather dst n g"
  by (rule ext, rule gather_same) simp

lemma footprint_gather: "footprint {dst..<dst + n} (f ` {..<n}) (gather dst n f)"
proof -
  have "gather dst n f m a = gather dst n f m' a"
    if "\<forall>b \<in> f ` {..<n}. m b = m' b" "a \<in> {dst..<dst + n}" for m m' a
  proof -
    from that(2) have "a = dst + (a - dst)" "a - dst < n" by auto
    with that(1) gather_in show ?thesis by (metis imageI lessThan_iff)
  qed
  then show ?thesis by (auto simp: footprint_def gather_out)
qed

text \<open>\<open>outside\<close>: the gathered bytes are not among those written.\<close>

definition outside :: "nat \<Rightarrow> nat \<Rightarrow> (nat \<Rightarrow> nat) \<Rightarrow> nat \<Rightarrow> bool" where
  "outside dst n f k \<longleftrightarrow> f k < dst \<or> dst + n \<le> f k"

lemma gather_split:
  assumes "\<And>k. k < n + n' \<Longrightarrow> outside dst (n + n') f k"
  shows "gather (dst + n) n' (\<lambda>k. f (n + k)) (gather dst n f m) = gather dst (n + n') f m"
proof
  fix a
  show "gather (dst + n) n' (\<lambda>k. f (n + k)) (gather dst n f m) a = gather dst (n + n') f m a"
  proof (cases "dst + n \<le> a \<and> a < dst + n + n'")
    case True
    then have eq: "n + (a - (dst + n)) = a - dst" and lt: "a - dst < n + n'" by auto
    from lt assms have "f (a - dst) < dst \<or> dst + n \<le> f (a - dst)"
      by (force simp: outside_def)
    then show ?thesis using True lt by (auto simp: gather_def eq)
  next
    case False
    then show ?thesis by (auto simp: gather_def)
  qed
qed

text \<open>The same bytes copied one at a time.\<close>

definition copy_byte :: "nat \<Rightarrow> (nat \<Rightarrow> nat) \<Rightarrow> nat \<Rightarrow> mem \<Rightarrow> mem" where
  "copy_byte dst f k m = m(dst + k := m (f k))"

lemma copy_byte_gather: "copy_byte dst f k = gather (dst + k) 1 (\<lambda>_. f k)"
  by (rule ext)+ (auto simp: copy_byte_def gather_def)

lemma fold_copy_byte:
  assumes "\<And>k. k < i + n \<Longrightarrow> outside dst (i + n) f k"
  shows "fold (copy_byte dst f) [i..<i + n] m = gather (dst + i) n (\<lambda>k. f (i + k)) m"
  using assms
proof (induction n)
  case 0
  then show ?case by simp
next
  case (Suc n)
  have "outside dst (i + n) f k" if "k < i + n" for k
    using Suc.prems [of k] that by (auto simp: outside_def)
  moreover have out: "outside (dst + i) (n + 1) (\<lambda>k. f (i + k)) k" if "k < n + 1" for k
    using Suc.prems [of "i + k"] that by (auto simp: outside_def)
  ultimately have "fold (copy_byte dst f) [i..<i + Suc n] m
      = gather (dst + i + n) 1 (\<lambda>_. f (i + n)) (gather (dst + i) n (\<lambda>k. f (i + k)) m)"
    using Suc.IH copy_byte_gather [of dst f "i + n"] by (simp add: add.assoc)
  also have "gather (dst + i + n) 1 (\<lambda>_. f (i + n)) = gather (dst + i + n) 1 (\<lambda>k. f (i + (n + k)))"
    by (rule gather_cong) simp
  also have "gather (dst + i + n) 1 (\<lambda>k. f (i + (n + k))) (gather (dst + i) n (\<lambda>k. f (i + k)) m)
      = gather (dst + i) (n + 1) (\<lambda>k. f (i + k)) m"
    by (rule gather_split [OF out])
  finally show ?case by simp
qed

lemma fold_copy_bytes:
  assumes "\<And>k. k < n \<Longrightarrow> outside dst n f k"
  shows "fold (copy_byte dst f) [0..<n] m = gather dst n f m"
  using fold_copy_byte [of 0 n dst f m] assms by simp

section \<open>Vectors\<close>

text \<open>
  A vector is the list of its lanes, a lane the list of its bytes; \<open>es\<close> is the size of a lane.
  The 16 bytes of a vector lie in memory lane by lane.
\<close>

definition kVectorLength :: nat where "kVectorLength = 16"

type_synonym lane = "u8 list"

definition load_lane :: "nat \<Rightarrow> nat \<Rightarrow> mem \<Rightarrow> lane" where
  "load_lane es a m = map (\<lambda>k. m (a + k)) [0..<es]"

definition num_lanes :: "nat \<Rightarrow> nat" where
  "num_lanes es = kVectorLength div es"

definition vld1q_dup :: "nat \<Rightarrow> nat \<Rightarrow> mem \<Rightarrow> lane list" where
  "vld1q_dup es a m = replicate (num_lanes es) (load_lane es a m)"

definition vld1q :: "nat \<Rightarrow> nat \<Rightarrow> mem \<Rightarrow> lane list" where
  "vld1q es a m = map (\<lambda>i. load_lane es (a + i * es) m) [0..<num_lanes es]"

text \<open>\<^verbatim>\<open>VecTraits::load\<close> and \<^verbatim>\<open>store\<close> of two consecutive vectors.\<close>

definition load2 :: "nat \<Rightarrow> nat \<Rightarrow> mem \<Rightarrow> lane list \<times> lane list" where
  "load2 es a m = (vld1q es a m, vld1q es (a + num_lanes es * es) m)"

definition store2 :: "nat \<Rightarrow> lane list \<times> lane list \<Rightarrow> nat \<Rightarrow> mem \<Rightarrow> mem" where
  "store2 es V a m =
     store_bytes (a + num_lanes es * es) (concat (snd V)) (store_bytes a (concat (fst V)) m)"

text \<open>Three vectors, the lanes of which alternate in memory.\<close>

definition vld3q :: "nat \<Rightarrow> nat \<Rightarrow> mem \<Rightarrow> lane list \<times> lane list \<times> lane list" where
  "vld3q es a m =
     (let val = \<lambda>c. map (\<lambda>i. load_lane es (a + (3 * i + c) * es) m) [0..<num_lanes es]
      in (val 0, val 1, val 2))"

definition vst3q :: "nat \<Rightarrow> nat \<Rightarrow> lane list \<times> lane list \<times> lane list \<Rightarrow> mem \<Rightarrow> mem" where
  "vst3q es a V m =
     (case V of (v0, v1, v2) \<Rightarrow>
        store_bytes a (concat (map (\<lambda>i. v0 ! i @ v1 ! i @ v2 ! i) [0..<num_lanes es])) m)"

text \<open>Reversing the lanes within each half, and putting the halves in the other order.\<close>

definition vrev64q :: "lane list \<Rightarrow> lane list" where
  "vrev64q v = (let h = length v div 2 in rev (take h v) @ rev (drop h v))"

definition vget_low :: "lane list \<Rightarrow> lane list" where
  "vget_low v = take (length v div 2) v"

definition vget_high :: "lane list \<Rightarrow> lane list" where
  "vget_high v = drop (length v div 2) v"

definition vcombine :: "lane list \<Rightarrow> lane list \<Rightarrow> lane list" where
  "vcombine low high = low @ high"

section \<open>Repeated pixels\<close>

text \<open>
  \<^verbatim>\<open>for (offset = 0; offset < row_size; offset += pixel_size)\<close> is \<open>vector_loop\<close>
  with the pixel as the step.
\<close>

definition fill_repeated_by_bytes :: "nat \<Rightarrow> nat \<Rightarrow> nat \<Rightarrow> nat \<Rightarrow> mem \<Rightarrow> mem" where
  "fill_repeated_by_bytes pixel_size pixel dst row_size m =
     snd (vector_loop pixel_size row_size (\<lambda>offset. memcpy (dst + offset) pixel pixel_size) 0 m)"

definition fill_single_channel :: "nat \<Rightarrow> nat \<Rightarrow> nat \<Rightarrow> nat \<Rightarrow> mem \<Rightarrow> mem" where
  "fill_single_channel es pixel dst row_size m =
     (let repeated_value = vld1q_dup es pixel m;
          store_repeated_pair = (\<lambda>index. store2 es (repeated_value, repeated_value) (dst + index))
      in snd (remaining2
           (\<lambda>index len. fill_repeated_by_bytes es pixel (dst + index) (len - index))
           (unroll_twice2 False store_repeated_pair (LoopUnroll2 0 row_size kVectorLength, m))))"

definition fill_interleaved_3 :: "nat \<Rightarrow> nat \<Rightarrow> nat \<Rightarrow> nat \<Rightarrow> mem \<Rightarrow> mem" where
  "fill_interleaved_3 es pixel dst row_size m =
     (let vector_value = (vld1q_dup es pixel m, vld1q_dup es (pixel + es) m,
            vld1q_dup es (pixel + 2 * es) m);
          kVectorStoreSize = 3 * kVectorLength;
          store = (\<lambda>index. vst3q es (dst + index) vector_value);
          store_twice = (\<lambda>index m. store (index + kVectorStoreSize) (store index m))
      in snd (remaining2
           (\<lambda>index len. fill_repeated_by_bytes (3 * es) pixel (dst + index) (len - index))
           (unroll_twice2 False store_twice (LoopUnroll2 0 row_size kVectorStoreSize, m))))"

text \<open>\<open>PixelSize\<close> is the template argument, \<open>pixel_size\<close> the run-time one.\<close>

definition fill_repeated_pixel :: "nat \<Rightarrow> nat \<Rightarrow> nat \<Rightarrow> nat \<Rightarrow> nat \<Rightarrow> mem \<Rightarrow> mem" where
  "fill_repeated_pixel PixelSize pixel_size pixel dst row_size =
     (if PixelSize = 1 then fill_single_channel 1 pixel dst row_size
      else if PixelSize = 2 then fill_single_channel 2 pixel dst row_size
      else if PixelSize = 4 then fill_single_channel 4 pixel dst row_size
      else if PixelSize = 8 then fill_single_channel 8 pixel dst row_size
      else if PixelSize = 3 * 1 then fill_interleaved_3 1 pixel dst row_size
      else if PixelSize = 3 * 2 then fill_interleaved_3 2 pixel dst row_size
      else if PixelSize = 3 * 4 then fill_interleaved_3 4 pixel dst row_size
      else fill_repeated_by_bytes pixel_size pixel dst row_size)"

section \<open>Reversed pixels\<close>

definition reverse_packed_vector_lanes :: "lane list \<Rightarrow> lane list" where
  "reverse_packed_vector_lanes v =
     (let reversed_vector_64 = vrev64q v
      in vcombine (vget_high reversed_vector_64) (vget_low reversed_vector_64))"

definition reverse_packed_vector2_order_and_lanes ::
    "lane list \<times> lane list \<Rightarrow> lane list \<times> lane list" where
  "reverse_packed_vector2_order_and_lanes V =
     (reverse_packed_vector_lanes (snd V), reverse_packed_vector_lanes (fst V))"

definition reverse_interleaved_3_vector_lanes ::
    "lane list \<times> lane list \<times> lane list \<Rightarrow> lane list \<times> lane list \<times> lane list" where
  "reverse_interleaved_3_vector_lanes V =
     (case V of (v0, v1, v2) \<Rightarrow>
        (reverse_packed_vector_lanes v0, reverse_packed_vector_lanes v1,
         reverse_packed_vector_lanes v2))"

definition copy_reversed_by_bytes :: "nat \<Rightarrow> nat \<Rightarrow> nat \<Rightarrow> nat \<Rightarrow> mem \<Rightarrow> mem" where
  "copy_reversed_by_bytes pixel_size src_last dst row_size m =
     snd (vector_loop pixel_size row_size
       (\<lambda>offset. memcpy (dst + offset) (src_last - offset) pixel_size) 0 m)"

definition copy_reversed_packed :: "nat \<Rightarrow> nat \<Rightarrow> nat \<Rightarrow> nat \<Rightarrow> mem \<Rightarrow> mem" where
  "copy_reversed_packed es src_last dst row_size m =
     (let copy_block_pair = (\<lambda>index m.
            store2 es (reverse_packed_vector2_order_and_lanes
              (load2 es (src_last + es - index - 2 * kVectorLength) m)) (dst + index) m)
      in snd (remaining2
           (\<lambda>index len. copy_reversed_by_bytes es (src_last - index) (dst + index) (len - index))
           (unroll_twice2 False copy_block_pair (LoopUnroll2 0 row_size kVectorLength, m))))"

definition copy_reversed_interleaved_3 :: "nat \<Rightarrow> nat \<Rightarrow> nat \<Rightarrow> nat \<Rightarrow> mem \<Rightarrow> mem" where
  "copy_reversed_interleaved_3 es src_last dst row_size m =
     (let kPixelSize = 3 * es; kVectorStoreSize = 3 * kVectorLength;
          copy_block = (\<lambda>index m.
            vst3q es (dst + index) (reverse_interleaved_3_vector_lanes
              (vld3q es (src_last + kPixelSize - index - kVectorStoreSize) m)) m);
          copy_block_twice = (\<lambda>index m. copy_block (index + kVectorStoreSize) (copy_block index m))
      in snd (remaining2
           (\<lambda>index len. copy_reversed_by_bytes kPixelSize (src_last - index) (dst + index) (len - index))
           (unroll_twice2 False copy_block_twice (LoopUnroll2 0 row_size kVectorStoreSize, m))))"

definition copy_reversed_pixels :: "nat \<Rightarrow> nat \<Rightarrow> nat \<Rightarrow> nat \<Rightarrow> nat \<Rightarrow> mem \<Rightarrow> mem" where
  "copy_reversed_pixels PixelSize pixel_size src_last dst row_size =
     (if PixelSize = 1 then copy_reversed_packed 1 src_last dst row_size
      else if PixelSize = 2 then copy_reversed_packed 2 src_last dst row_size
      else if PixelSize = 4 then copy_reversed_packed 4 src_last dst row_size
      else if PixelSize = 8 then copy_reversed_packed 8 src_last dst row_size
      else if PixelSize = 3 * 1 then copy_reversed_interleaved_3 1 src_last dst row_size
      else if PixelSize = 3 * 2 then copy_reversed_interleaved_3 2 src_last dst row_size
      else if PixelSize = 3 * 4 then copy_reversed_interleaved_3 4 src_last dst row_size
      else copy_reversed_by_bytes pixel_size src_last dst row_size)"

section \<open>The kernels as gathers\<close>

lemma concat_lanes_length:
  "(\<And>i. i < n \<Longrightarrow> length (v i) = es) \<Longrightarrow> length (concat (map v [0..<n])) = n * es"
  by (induction n) auto

lemma concat_lanes_nth:
  assumes "\<And>i. i < n \<Longrightarrow> length (v i) = es" and "k < n * es"
  shows "concat (map v [0..<n]) ! k = v (k div es) ! (k mod es)"
  using assms
proof (induction n)
  case 0
  then show ?case by simp
next
  case (Suc n)
  have len: "length (concat (map v [0..<n])) = n * es"
    using Suc.prems(1) by (intro concat_lanes_length) simp
  show ?case
  proof (cases "k < n * es")
    case True
    with Suc len show ?thesis by (simp add: nth_append)
  next
    case False
    then obtain j where j: "k = n * es + j" by (metis le_add_diff_inverse not_less)
    with Suc.prems(2) have "j < es" by simp
    with False len show ?thesis by (simp add: nth_append j)
  qed
qed

lemma load_lane_length [simp]: "length (load_lane es a m) = es"
  by (simp add: load_lane_def)

lemma load_lane_nth [simp]: "j < es \<Longrightarrow> load_lane es a m ! j = m (a + j)"
  by (simp add: load_lane_def)

lemma load_lane_append: "load_lane p a m @ load_lane q (a + p) m = load_lane (p + q) a m"
  by (rule nth_equalityI) (auto simp: nth_append)

lemma reverse_packed_vector_lanes_rev:
  assumes "even (length v)"
  shows "reverse_packed_vector_lanes v = rev v"
proof -
  let ?h = "length v div 2"
  have h: "length (drop ?h v) = ?h" "length (take ?h v) = ?h" using assms by auto
  have "rev v = rev (drop ?h v) @ rev (take ?h v)" by (metis append_take_drop_id rev_append)
  with h show ?thesis
    by (simp add: reverse_packed_vector_lanes_def vrev64q_def vget_high_def vget_low_def
        vcombine_def Let_def)
qed

lemma rev_map_upt: "rev (map f [0..<n]) = map (\<lambda>i. f (n - 1 - i)) [0..<n]"
  by (rule nth_equalityI) (auto simp: rev_nth)

subsection \<open>Repeated pixels\<close>

text \<open>A block of given bytes, however it is cut into pieces.\<close>

definition put_block :: "nat \<Rightarrow> nat \<Rightarrow> (nat \<Rightarrow> u8) \<Rightarrow> mem \<Rightarrow> mem" where
  "put_block dst n g m = (\<lambda>a. if dst \<le> a \<and> a < dst + n then g (a - dst) else m a)"

lemma put_block_in [simp]: "k < n \<Longrightarrow> put_block dst n g m (dst + k) = g k"
  by (simp add: put_block_def)

lemma put_block_out: "a < dst \<or> dst + n \<le> a \<Longrightarrow> put_block dst n g m a = m a"
  by (auto simp: put_block_def)

lemma put_block_cong: "(\<And>k. k < n \<Longrightarrow> g k = h k) \<Longrightarrow> put_block dst n g m = put_block dst n h m"
  by (rule mem_block_eq [of n _ dst]) (simp_all add: put_block_out)

lemma gather_put_block: "gather dst n f m = put_block dst n (\<lambda>k. m (f k)) m"
  by (simp add: gather_def put_block_def)

lemma store_bytes_put_block: "store_bytes dst bs = put_block dst (length bs) ((!) bs)"
  by (rule ext)+ (simp add: store_bytes_def put_block_def)

lemma put_block_0 [simp]: "put_block dst 0 g m = m"
  by (rule ext, rule put_block_out) linarith

lemma put_block_append:
  "put_block (dst + n) n' (\<lambda>k. g (n + k)) (put_block dst n g m) = put_block dst (n + n') g m"
proof (rule mem_block_eq [of "n + n'" _ dst])
  fix k
  assume k: "k < n + n'"
  show "put_block (dst + n) n' (\<lambda>k. g (n + k)) (put_block dst n g m) (dst + k)
      = put_block dst (n + n') g m (dst + k)"
  proof (cases "k < n")
    case True
    then show ?thesis using k by (simp add: put_block_out [of "dst + k" "dst + n"])
  next
    case False
    then obtain j where "k = n + j" by (metis le_add_diff_inverse not_less)
    then show ?thesis using k put_block_in [of j n' "dst + n"] by (simp add: add.assoc)
  qed
qed (auto simp: put_block_out)

definition put_byte :: "nat \<Rightarrow> (nat \<Rightarrow> u8) \<Rightarrow> nat \<Rightarrow> mem \<Rightarrow> mem" where
  "put_byte dst g k m = m(dst + k := g k)"

lemma put_byte_block: "put_byte dst g k = put_block (dst + k) 1 (\<lambda>_. g k)"
  by (rule ext)+ (auto simp: put_byte_def put_block_def)

lemma fold_put_byte:
  "fold (put_byte dst g) [i..<i + n] m = put_block (dst + i) n (\<lambda>k. g (i + k)) m"
proof (induction n)
  case 0
  then show ?case by simp
next
  case (Suc n)
  then have "fold (put_byte dst g) [i..<i + Suc n] m
      = put_block (dst + i + n) 1 (\<lambda>_. g (i + n)) (put_block (dst + i) n (\<lambda>k. g (i + k)) m)"
    using put_byte_block [of dst g "i + n"] by (simp add: add.assoc)
  also have "put_block (dst + i + n) 1 (\<lambda>_. g (i + n)) m' =
      put_block (dst + i + n) 1 (\<lambda>k. g (i + (n + k))) m'" for m'
    by (rule put_block_cong) simp
  finally show ?case using put_block_append [of "dst + i" n 1 "\<lambda>k. g (i + k)" m] by simp
qed

text \<open>The byte loop.\<close>

lemma pixel_loop_gather:
  assumes "0 < p" and "p dvd n" and "\<And>k. k < n \<Longrightarrow> outside dst n f k"
    and "\<And>q s. q * p + p \<le> n \<Longrightarrow> callback (q * p) s = gather (dst + q * p) p (\<lambda>k. f (q * p + k)) s"
  shows "snd (vector_loop p n callback 0 m) = gather dst n f m"
proof -
  from assms(2) obtain r where r: "n = r * p" by (metis dvd_def mult.commute)
  have "grid_callback (copy_byte dst f) 0 n p callback"
    unfolding grid_callback_def
  proof (intro allI impI)
    fix q s
    assume le: "0 + q * p + p \<le> n"
    have "outside dst (q * p + p) f k" if "k < q * p + p" for k
      using assms(3) [of k] that le by (auto simp: outside_def)
    then show "callback (0 + q * p) s = fold (copy_byte dst f) [0 + q * p..<0 + q * p + p] s"
      using assms(4) [of q s] le fold_copy_byte [of "q * p" p dst f s] by simp
  qed
  from vector_loop_grid [OF this assms(1), of r m] show ?thesis
    using fold_copy_bytes [OF assms(3), of m] by (simp add: r)
qed

text \<open>\<open>repeated pixel P\<close>: byte \<open>k\<close> of a run of pixels is byte \<open>k mod P\<close> of the pixel.\<close>

definition repeated :: "nat \<Rightarrow> nat \<Rightarrow> nat \<Rightarrow> nat" where
  "repeated pixel P k = pixel + k mod P"

lemma repeated_shift [simp]: "P dvd i \<Longrightarrow> repeated pixel P (i + k) = repeated pixel P k"
  by (auto simp: repeated_def elim!: dvdE)

lemma repeated_small: "k < P \<Longrightarrow> repeated pixel P k = pixel + k"
  by (simp add: repeated_def)

lemma fill_repeated_by_bytes_gather:
  assumes "0 < p" and "p dvd n" and "\<And>k. k < n \<Longrightarrow> outside dst n (repeated pixel p) k"
  shows "fill_repeated_by_bytes p pixel dst n m = gather dst n (repeated pixel p) m"
  unfolding fill_repeated_by_bytes_def
proof (rule pixel_loop_gather [OF assms(1,2,3)])
  fix q s
  show "memcpy (dst + q * p) pixel p s = gather (dst + q * p) p (\<lambda>k. repeated pixel p (q * p + k)) s"
    unfolding memcpy_gather by (rule gather_same) (simp add: repeated_small)
qed

text \<open>The vector loops over aligned blocks with the byte loop behind them.\<close>

lemma unroll_put_block:
  assumes "0 < step"
    and "\<And>q s. q * (2 * step) + 2 * step \<le> n \<Longrightarrow>
      twice (q * (2 * step)) s
        = put_block (dst + q * (2 * step)) (2 * step) (\<lambda>k. g (q * (2 * step) + k)) s"
    and "\<And>stop s. 2 * step dvd stop \<Longrightarrow> stop < n \<Longrightarrow> s = put_block dst stop g m \<Longrightarrow>
      rest stop n s = put_block (dst + stop) (n - stop) (\<lambda>k. g (stop + k)) s"
  shows "snd (remaining2 rest (unroll_twice2 False twice (LoopUnroll2 0 n step, m))) = put_block dst n g m"
proof -
  define stop where "stop = n div (2 * step) * (2 * step)"
  have le: "stop \<le> n" and dvd: "2 * step dvd stop" by (simp_all add: stop_def)
  have "grid_callback (put_byte dst g) 0 n (2 * step) twice"
    unfolding grid_callback_def using assms(2) by (simp only: add_0 fold_put_byte) simp
  note loop = unroll_twice_remaining [OF this assms(1), of rest m]
  have f0: "fold (put_byte dst g) [0..<stop] m = put_block dst stop g m"
    using fold_put_byte [of dst g 0 stop m] by simp
  have "snd (remaining2 rest (unroll_twice2 False twice (LoopUnroll2 0 n step, m))) =
      (if stop = n then put_block dst stop g m else rest stop n (put_block dst stop g m))"
    using loop by (simp only: Let_def f0 flip: stop_def)
  also have "\<dots> = put_block dst n g m"
  proof (cases "stop = n")
    case False
    with le have "rest stop n (put_block dst stop g m) =
        put_block (dst + stop) (n - stop) (\<lambda>k. g (stop + k)) (put_block dst stop g m)"
      by (intro assms(3) dvd refl) simp
    with False le show ?thesis by (simp add: put_block_append)
  qed simp
  finally show ?thesis .
qed

lemma fill_rest:
  assumes "0 < p" and "p dvd n" and "p dvd stop" and "stop < n"
    and out: "\<And>k. k < n \<Longrightarrow> outside dst n (repeated pixel p) k"
    and s: "s = put_block dst stop g m" and g: "\<And>k. g k = m (repeated pixel p k)"
  shows "fill_repeated_by_bytes p pixel (dst + stop) (n - stop) s
    = put_block (dst + stop) (n - stop) (\<lambda>k. g (stop + k)) s"
proof -
  have out': "outside (dst + stop) (n - stop) (repeated pixel p) k" if "k < n - stop" for k
  proof -
    have "stop + k < n" using that by simp
    from out [OF this] assms(3) have "outside dst n (repeated pixel p) k" by (simp add: outside_def)
    then show ?thesis using assms(4) by (auto simp: outside_def)
  qed
  have "fill_repeated_by_bytes p pixel (dst + stop) (n - stop) s
      = gather (dst + stop) (n - stop) (repeated pixel p) s"
    using assms(2,3) by (intro fill_repeated_by_bytes_gather assms(1) out' dvd_diff_nat)
  also have "\<dots> = put_block (dst + stop) (n - stop) (\<lambda>k. s (repeated pixel p k)) s"
    by (rule gather_put_block)
  also have "\<dots> = put_block (dst + stop) (n - stop) (\<lambda>k. g (stop + k)) s"
  proof (rule put_block_cong)
    fix k
    assume "k < n - stop"
    then have "outside dst n (repeated pixel p) k" by (intro out) simp
    then have "s (repeated pixel p k) = m (repeated pixel p k)"
      unfolding s using assms(4) by (intro put_block_out) (auto simp: outside_def)
    then show "s (repeated pixel p k) = g (stop + k)" using assms(3) by (simp add: g)
  qed
  finally show ?thesis .
qed

lemma store_lanes_put:
  assumes len: "\<And>i. i < n \<Longrightarrow> length (v i) = es"
    and nth: "\<And>i j. i < n \<Longrightarrow> j < es \<Longrightarrow> v i ! j = g (i * es + j)"
  shows "store_bytes dst (concat (map v [0..<n])) s = put_block dst (n * es) g s"
proof -
  have "store_bytes dst (concat (map v [0..<n])) s
      = put_block dst (n * es) ((!) (concat (map v [0..<n]))) s"
    using concat_lanes_length [of n v es, OF len] by (simp add: store_bytes_put_block)
  also have "\<dots> = put_block dst (n * es) g s"
  proof (rule put_block_cong)
    fix k
    assume k: "k < n * es"
    then have "0 < es" by (cases es) auto
    moreover have "k div es < n" using k by (simp add: less_mult_imp_div_less)
    ultimately show "concat (map v [0..<n]) ! k = g k"
      using concat_lanes_nth [of n v es k, OF len k] nth [of "k div es" "k mod es"] by simp
  qed
  finally show ?thesis .
qed

lemma store_lanes_put_block:
  assumes "\<And>i. i < n \<Longrightarrow> v i = load_lane es pixel m"
  shows "store_bytes dst (concat (map v [0..<n])) s
    = put_block dst (n * es) (\<lambda>k. m (repeated pixel es k)) s"
  by (rule store_lanes_put) (simp_all add: assms repeated_def)

text \<open>The lane sizes of the code.\<close>

definition lane_size :: "nat \<Rightarrow> bool" where
  "lane_size es \<longleftrightarrow> es \<in> {1, 2, 4, 8}"

lemma lane_size_facts:
  assumes "lane_size es"
  shows "0 < es" and "num_lanes es * es = 16" and "es dvd 16" and "es dvd 32" and "even (num_lanes es)"
    and "num_lanes es * (3 * es) = 48"
  using assms by (auto simp: lane_size_def num_lanes_def kVectorLength_def)

lemma fill_single_channel_gather:
  assumes es: "lane_size es" and "es dvd n"
    and out: "\<And>k. k < n \<Longrightarrow> outside dst n (repeated pixel es) k"
  shows "fill_single_channel es pixel dst n m = gather dst n (repeated pixel es) m"
proof -
  note es' = lane_size_facts [OF es]
  let ?g = "\<lambda>k. m (repeated pixel es k)"
  have store: "store_bytes a (concat (vld1q_dup es pixel m)) s = put_block a 16 ?g s" for a s
    using store_lanes_put_block [of "num_lanes es" "\<lambda>_. load_lane es pixel m" es pixel m a s]
    by (simp add: vld1q_dup_def es' map_replicate_const)
  have shift: "?g (16 + k) = ?g k" for k using es' by simp
  have "store2 es (vld1q_dup es pixel m, vld1q_dup es pixel m) a s = put_block a 32 ?g s" for a s
    using put_block_append [of a 16 16 ?g s] by (simp add: store2_def store es' shift)
  then have "snd (remaining2 (\<lambda>index len. fill_repeated_by_bytes es pixel (dst + index) (len - index))
      (unroll_twice2 False (\<lambda>index. store2 es (vld1q_dup es pixel m, vld1q_dup es pixel m) (dst + index))
        (LoopUnroll2 0 n kVectorLength, m))) = put_block dst n ?g m"
    by (intro unroll_put_block fill_rest [OF es'(1) assms(2) _ _ out])
      (auto simp: kVectorLength_def es' intro: dvd_trans [of es 32])
  then show ?thesis by (simp add: fill_single_channel_def gather_put_block)
qed

lemma fill_interleaved_3_gather:
  assumes es: "lane_size es" and "3 * es dvd n"
    and out: "\<And>k. k < n \<Longrightarrow> outside dst n (repeated pixel (3 * es)) k"
  shows "fill_interleaved_3 es pixel dst n m = gather dst n (repeated pixel (3 * es)) m"
proof -
  note es' = lane_size_facts [OF es]
  let ?g = "\<lambda>k. m (repeated pixel (3 * es) k)"
  let ?V = "(vld1q_dup es pixel m, vld1q_dup es (pixel + es) m, vld1q_dup es (pixel + 2 * es) m)"
  have lanes: "load_lane es pixel m @ load_lane es (pixel + es) m @ load_lane es (pixel + 2 * es) m
      = load_lane (3 * es) pixel m"
    using load_lane_append [of es pixel m "es + es"] load_lane_append [of es "pixel + es" m es]
    by (simp add: add.assoc mult_2 numeral_3_eq_3)
  have store: "vst3q es a ?V s = put_block a 48 ?g s" for a s
    unfolding vst3q_def prod.case
    by (subst store_lanes_put_block [of _ _ "3 * es" pixel m]) (simp_all add: vld1q_dup_def lanes es')
  have "3 * es dvd 48" "3 * es dvd 96" using es by (auto simp: lane_size_def)
  then have shift: "?g (48 + k) = ?g k" for k by simp
  have "vst3q es (a + (i + 48)) ?V (vst3q es (a + i) ?V s) = put_block (a + i) 96 ?g s" for a i s
    using put_block_append [of "a + i" 48 48 ?g s] by (simp add: store shift add.assoc)
  then have "snd (remaining2 (\<lambda>index len. fill_repeated_by_bytes (3 * es) pixel (dst + index) (len - index))
      (unroll_twice2 False (\<lambda>index m. vst3q es (dst + (index + 48)) ?V (vst3q es (dst + index) ?V m))
        (LoopUnroll2 0 n 48, m))) = put_block dst n ?g m"
    using es'(1) \<open>3 * es dvd 96\<close>
    by (intro unroll_put_block fill_rest [OF _ assms(2) _ _ out])
      (auto intro: dvd_trans [of "3 * es" 96])
  then show ?thesis
    by (simp add: fill_interleaved_3_def gather_put_block kVectorLength_def)
qed

text \<open>The template instances that exist, and the general one.\<close>

definition template_pixel_size :: "nat \<Rightarrow> nat" where
  "template_pixel_size pixel_size = (if pixel_size \<in> set [1, 2, 4, 8, 3, 6, 12] then pixel_size else 0)"

lemma fill_repeated_pixel_gather:
  assumes "0 < p" and "p dvd n" and "\<And>k. k < n \<Longrightarrow> outside dst n (repeated pixel p) k"
  shows "fill_repeated_pixel (template_pixel_size p) p pixel dst n m = gather dst n (repeated pixel p) m"
proof -
  consider (packed) "p \<in> {1, 2, 4, 8}" | (three) "p \<in> {3, 6, 12}" | (bytes) "template_pixel_size p = 0"
    by (cases "p \<in> {1, 2, 4, 8, 3, 6, 12}") (auto simp: template_pixel_size_def)
  then show ?thesis
  proof cases
    case packed
    then have "fill_repeated_pixel (template_pixel_size p) p pixel dst n m = fill_single_channel p pixel dst n m"
      by (auto simp: fill_repeated_pixel_def template_pixel_size_def)
    also have "\<dots> = gather dst n (repeated pixel p) m"
      by (rule fill_single_channel_gather) (use packed assms in \<open>auto simp: lane_size_def\<close>)
    finally show ?thesis .
  next
    case three
    then obtain es where es: "p = 3 * es" "lane_size es"
      by (auto simp: lane_size_def intro: that [of 1] that [of 2] that [of 4])
    with three have "fill_repeated_pixel (template_pixel_size p) p pixel dst n m = fill_interleaved_3 es pixel dst n m"
      by (auto simp: fill_repeated_pixel_def template_pixel_size_def lane_size_def)
    also have "\<dots> = gather dst n (repeated pixel p) m"
      unfolding es(1) by (rule fill_interleaved_3_gather) (use es assms in auto)
    finally show ?thesis .
  next
    case bytes
    then show ?thesis
      using fill_repeated_by_bytes_gather [OF assms] by (simp add: fill_repeated_pixel_def)
  qed
qed

subsection \<open>Reversed pixels\<close>

definition reversed :: "nat \<Rightarrow> nat \<Rightarrow> nat \<Rightarrow> nat" where
  "reversed src_last P k = src_last - k div P * P + k mod P"

lemma reversed_shift: "P dvd i \<Longrightarrow> reversed src_last P (i + k) = reversed (src_last - i) P k"
  by (cases "P = 0") (auto simp: reversed_def add_mult_distrib mult.commute [of P] elim!: dvdE)

lemma reversed_small: "k < P \<Longrightarrow> reversed src_last P k = src_last + k"
  by (simp add: reversed_def)

lemma reversed_lane: "j < P \<Longrightarrow> reversed src_last P (i * P + j) = src_last - i * P + j"
  by (simp add: reversed_def)

lemma unroll_gather:
  assumes "0 < step" and out: "\<And>k. k < n \<Longrightarrow> outside dst n f k"
    and twice: "\<And>q s. q * (2 * step) + 2 * step \<le> n \<Longrightarrow>
      twice (q * (2 * step)) s
        = gather (dst + q * (2 * step)) (2 * step) (\<lambda>k. f (q * (2 * step) + k)) s"
    and rest: "\<And>stop s. 2 * step dvd stop \<Longrightarrow> stop < n \<Longrightarrow>
      rest stop n s = gather (dst + stop) (n - stop) (\<lambda>k. f (stop + k)) s"
  shows "snd (remaining2 rest (unroll_twice2 False twice (LoopUnroll2 0 n step, m))) = gather dst n f m"
proof -
  define stop where "stop = n div (2 * step) * (2 * step)"
  have le: "stop \<le> n" and dvd: "2 * step dvd stop" by (simp_all add: stop_def)
  have out': "outside dst i f k" if "k < i" "i \<le> n" for i k
    using out [of k] that by (auto simp: outside_def)
  have "grid_callback (copy_byte dst f) 0 n (2 * step) twice"
    unfolding grid_callback_def
  proof (intro allI impI)
    fix q s
    assume "0 + q * (2 * step) + 2 * step \<le> n"
    then show "twice (0 + q * (2 * step)) s = fold (copy_byte dst f)
        [0 + q * (2 * step)..<0 + q * (2 * step) + 2 * step] s"
      using fold_copy_byte [OF out', of "q * (2 * step)" "2 * step" s] twice [of q s] by simp
  qed
  note loop = unroll_twice_remaining [OF this assms(1), of rest m]
  have f0: "fold (copy_byte dst f) [0..<stop] m = gather dst stop f m"
    by (rule fold_copy_bytes) (rule out' [OF _ le])
  have "snd (remaining2 rest (unroll_twice2 False twice (LoopUnroll2 0 n step, m))) =
      (if stop = n then gather dst stop f m else rest stop n (gather dst stop f m))"
    using loop by (simp only: Let_def f0 flip: stop_def)
  also have "\<dots> = gather dst n f m"
  proof (cases "stop = n")
    case False
    with le have "rest stop n (gather dst stop f m) =
        gather (dst + stop) (n - stop) (\<lambda>k. f (stop + k)) (gather dst stop f m)"
      by (intro rest dvd) simp
    with le out show ?thesis by (simp add: gather_split False)
  qed simp
  finally show ?thesis .
qed

lemma copy_reversed_by_bytes_gather:
  assumes "0 < p" and "p dvd n" and "\<And>k. k < n \<Longrightarrow> outside dst n (reversed src_last p) k"
  shows "copy_reversed_by_bytes p src_last dst n m = gather dst n (reversed src_last p) m"
  unfolding copy_reversed_by_bytes_def
proof (rule pixel_loop_gather [OF assms])
  fix q s
  show "memcpy (dst + q * p) (src_last - q * p) p s
      = gather (dst + q * p) p (\<lambda>k. reversed src_last p (q * p + k)) s"
    unfolding memcpy_gather by (rule gather_same) (simp add: reversed_lane)
qed

lemma reversed_rest:
  assumes "0 < p" and "p dvd n" and "p dvd stop" and "stop < n"
    and out: "\<And>k. k < n \<Longrightarrow> outside dst n (reversed src_last p) k"
  shows "copy_reversed_by_bytes p (src_last - stop) (dst + stop) (n - stop) s
    = gather (dst + stop) (n - stop) (\<lambda>k. reversed src_last p (stop + k)) s"
proof -
  have "outside (dst + stop) (n - stop) (reversed (src_last - stop) p) k" if "k < n - stop" for k
  proof -
    have "stop + k < n" using that by simp
    from out [OF this] assms(3) have "outside dst n (reversed (src_last - stop) p) k"
      by (simp add: outside_def reversed_shift)
    then show ?thesis using assms(4) by (auto simp: outside_def)
  qed
  with assms(2,3) show ?thesis
    by (simp add: copy_reversed_by_bytes_gather [OF assms(1)] reversed_shift dvd_diff_nat)
qed

lemma reverse_vld:
  assumes "even (num_lanes es)"
  shows "reverse_packed_vector_lanes (map v [0..<num_lanes es])
    = map (\<lambda>i. v (num_lanes es - 1 - i)) [0..<num_lanes es]"
  using assms by (simp add: reverse_packed_vector_lanes_rev rev_map_upt)

text \<open>Lane \<open>i\<close> counted from the end of a block is found by counting down.\<close>

lemma lane_from_end:
  fixes n p i L :: nat
  assumes "i < n" and "n * p \<le> L"
  shows "L - n * p + (n - 1 - i) * p = L - (i + 1) * p"
proof -
  have "n - 1 - i + (i + 1) = n" using assms(1) by simp
  then have "n * p = (n - 1 - i) * p + (i + 1) * p" by (metis add_mult_distrib)
  with assms(2) show ?thesis by linarith
qed

lemma copy_reversed_packed_gather:
  assumes es: "lane_size es" and "es dvd n" and "n \<le> src_last + es"
    and out: "\<And>k. k < n \<Longrightarrow> outside dst n (reversed src_last es) k"
  shows "copy_reversed_packed es src_last dst n m = gather dst n (reversed src_last es) m"
proof -
  note es' = lane_size_facts [OF es]
  have half: "store_bytes a (concat (reverse_packed_vector_lanes (vld1q es (L + es - 16) m'))) s
      = put_block a 16 (\<lambda>k. m' (reversed L es k)) s" if "16 \<le> L + es" for a L m' s
  proof -
    have eq: "L + es - 16 + (num_lanes es - 1 - i) * es = L - i * es" if "i < num_lanes es" for i
      using lane_from_end [OF that, of es "L + es"] es'(2) \<open>16 \<le> L + es\<close> by simp
    have "load_lane es (L + es - 16 + (num_lanes es - 1 - i) * es) m' ! j = m' (reversed L es (i * es + j))"
      if "i < num_lanes es" "j < es" for i j
      unfolding eq [OF that(1)] using that by (simp add: reversed_lane)
    with store_lanes_put [of "num_lanes es" "\<lambda>i. load_lane es (L + es - 16 + (num_lanes es - 1 - i) * es) m'"
        es "\<lambda>k. m' (reversed L es k)" a s]
    show ?thesis
      unfolding vld1q_def reverse_vld [OF es'(5)] es'(2) by simp
  qed
  have pair: "store2 es (reverse_packed_vector2_order_and_lanes (load2 es (L + es - 32) s)) a s
      = gather a 32 (reversed L es) s" if "32 \<le> L + es" for L a s
  proof -
    have ge: "16 \<le> L + es" "16 \<le> L - 16 + es"
      and eq: "L + es - 32 + 16 = L + es - 16" "L + es - 32 = L - 16 + es - 16"
      using that es by (auto simp: lane_size_def)
    have "store2 es (reverse_packed_vector2_order_and_lanes (load2 es (L + es - 32) s)) a s
        = put_block (a + 16) 16 (\<lambda>k. s (reversed (L - 16) es k)) (put_block a 16 (\<lambda>k. s (reversed L es k)) s)"
      unfolding store2_def reverse_packed_vector2_order_and_lanes_def load2_def fst_conv snd_conv
        es'(2) eq(1) half [OF ge(1)]
      unfolding eq(2) half [OF ge(2)] by (rule refl)
    also have "\<dots> = put_block a 32 (\<lambda>k. s (reversed L es k)) s"
      using put_block_append [of a 16 16 "\<lambda>k. s (reversed L es k)" s] es' by (simp add: reversed_shift)
    finally show ?thesis by (simp add: gather_put_block)
  qed
  show ?thesis
    unfolding copy_reversed_packed_def Let_def
  proof (rule unroll_gather [OF _ out])
    fix q s
    assume "q * (2 * kVectorLength) + 2 * kVectorLength \<le> n"
    with assms(3) es have "32 \<le> src_last - q * 32 + es"
      "src_last + es - q * 32 - 32 = src_last - q * 32 + es - 32"
      by (auto simp: kVectorLength_def lane_size_def)
    then show "store2 es (reverse_packed_vector2_order_and_lanes
          (load2 es (src_last + es - q * (2 * kVectorLength) - 2 * kVectorLength) s))
          (dst + q * (2 * kVectorLength)) s
      = gather (dst + q * (2 * kVectorLength)) (2 * kVectorLength)
          (\<lambda>k. reversed src_last es (q * (2 * kVectorLength) + k)) s"
      using pair es' by (simp add: kVectorLength_def reversed_shift)
  next
    fix stop s
    assume "2 * kVectorLength dvd stop" "stop < n"
    with es' show "copy_reversed_by_bytes es (src_last - stop) (dst + stop) (n - stop) s
        = gather (dst + stop) (n - stop) (\<lambda>k. reversed src_last es (stop + k)) s"
      by (intro reversed_rest assms(2) out) (auto simp: kVectorLength_def intro: dvd_trans [of es 32])
  qed (simp_all add: kVectorLength_def)
qed

lemma join_lanes:
  "map (\<lambda>i. map f [0..<n] ! i @ map g [0..<n] ! i @ map h [0..<n] ! i) [0..<n]
    = map (\<lambda>i. f i @ g i @ h i) [0..<n]"
  by simp

lemma reversed_block_3:
  assumes es: "lane_size es" and L: "48 \<le> L + 3 * es"
  shows "vst3q es a (reverse_interleaved_3_vector_lanes (vld3q es (L + 3 * es - 48) s)) s
    = gather a 48 (reversed L (3 * es)) s"
proof -
  note es' = lane_size_facts [OF es]
  let ?b = "L + 3 * es - 48" and ?n = "num_lanes es"
  let ?v = "\<lambda>i. load_lane (3 * es) (?b + (?n - 1 - i) * (3 * es)) s"
  have pixel: "load_lane es (?b + (3 * k + 0) * es) s @ load_lane es (?b + (3 * k + 1) * es) s
      @ load_lane es (?b + (3 * k + 2) * es) s = load_lane (3 * es) (?b + k * (3 * es)) s" for k
  proof -
    define c where "c = ?b + k * (3 * es)"
    have "?b + (3 * k + 0) * es = c" "?b + (3 * k + 1) * es = c + es" "?b + (3 * k + 2) * es = c + es + es"
      by (simp_all add: c_def add_mult_distrib)
    moreover have "load_lane es c s @ load_lane es (c + es) s @ load_lane es (c + es + es) s
        = load_lane (3 * es) c s"
      by (simp only: load_lane_append) (simp add: numeral_3_eq_3)
    ultimately show ?thesis by (simp only: flip: c_def)
  qed
  have "vst3q es a (reverse_interleaved_3_vector_lanes (vld3q es ?b s)) s
      = store_bytes a (concat (map ?v [0..<?n])) s"
    unfolding vst3q_def reverse_interleaved_3_vector_lanes_def vld3q_def Let_def prod.case
      reverse_vld [OF es'(5)] join_lanes pixel by (rule refl)
  also have "\<dots> = put_block a (?n * (3 * es)) (\<lambda>k. s (reversed L (3 * es) k)) s"
  proof (rule store_lanes_put)
    fix i j
    assume i: "i < ?n" and j: "j < 3 * es"
    have "?b + (?n - 1 - i) * (3 * es) = L - i * (3 * es)"
      using lane_from_end [OF i, of "3 * es" "L + 3 * es"] es'(6) L by simp
    then show "?v i ! j = s (reversed L (3 * es) (i * (3 * es) + j))"
      using j by (simp add: reversed_lane)
  qed simp
  finally show ?thesis by (simp add: es' gather_put_block)
qed

lemma copy_reversed_interleaved_3_gather:
  assumes es: "lane_size es" and n: "3 * es dvd n" "n \<le> src_last + 3 * es"
    and out: "\<And>k. k < n \<Longrightarrow> outside dst n (reversed src_last (3 * es)) k"
  shows "copy_reversed_interleaved_3 es src_last dst n m = gather dst n (reversed src_last (3 * es)) m"
proof -
  have dvd: "3 * es dvd 48" "3 * es dvd 96" and pos: "0 < 3 * es" using es by (auto simp: lane_size_def)
  let ?block = "\<lambda>index m. vst3q es (dst + index) (reverse_interleaved_3_vector_lanes
    (vld3q es (src_last + 3 * es - index - 48) m)) m"
  have block: "?block index s = gather (dst + index) 48 (\<lambda>k. reversed src_last (3 * es) (index + k)) s"
    if "3 * es dvd index" "index + 48 \<le> n" for index s
  proof -
    from that(2) n(2) es have "48 \<le> src_last - index + 3 * es"
      and "src_last + 3 * es - index - 48 = src_last - index + 3 * es - 48"
      by (auto simp: lane_size_def)
    then show ?thesis
      using reversed_block_3 [OF es, of "src_last - index" "dst + index" s] that(1)
      by (simp add: reversed_shift)
  qed
  have "snd (remaining2 (\<lambda>index len. copy_reversed_by_bytes (3 * es) (src_last - index) (dst + index) (len - index))
      (unroll_twice2 False (\<lambda>index m. ?block (index + 48) (?block index m)) (LoopUnroll2 0 n 48, m)))
    = gather dst n (reversed src_last (3 * es)) m"
  proof (rule unroll_gather [OF _ out])
    fix q s
    assume le: "q * (2 * 48) + 2 * 48 \<le> n"
    let ?i = "q * (2 * 48)"
    have d: "3 * es dvd ?i" "3 * es dvd ?i + 48" using dvd by (simp_all add: dvd_add)
    have out': "outside (dst + ?i) (48 + 48) (\<lambda>k. reversed src_last (3 * es) (?i + k)) k"
      if "k < 48 + 48" for k
      using out [of "?i + k"] that le by (auto simp: outside_def)
    show "?block (?i + 48) (?block ?i s)
        = gather (dst + ?i) (2 * 48) (\<lambda>k. reversed src_last (3 * es) (?i + k)) s"
      using block [OF d(1), of s] block [OF d(2), of "?block ?i s"] le gather_split [OF out', of s]
      by (simp add: add.assoc)
  next
    fix stop s
    assume "2 * 48 dvd stop" "stop < n"
    with dvd show "copy_reversed_by_bytes (3 * es) (src_last - stop) (dst + stop) (n - stop) s
        = gather (dst + stop) (n - stop) (\<lambda>k. reversed src_last (3 * es) (stop + k)) s"
      by (intro reversed_rest pos n(1) out) (auto intro: dvd_trans [of "3 * es" 96])
  qed simp_all
  then show ?thesis
    by (simp add: copy_reversed_interleaved_3_def kVectorLength_def)
qed

text \<open>The reverse counterpart.\<close>

lemma copy_reversed_pixels_gather:
  assumes "0 < p" and "p dvd n" and "n \<le> src_last + p"
    and "\<And>k. k < n \<Longrightarrow> outside dst n (reversed src_last p) k"
  shows "copy_reversed_pixels (template_pixel_size p) p src_last dst n m
    = gather dst n (reversed src_last p) m"
proof -
  consider (packed) "p \<in> {1, 2, 4, 8}" | (three) "p \<in> {3, 6, 12}" | (bytes) "template_pixel_size p = 0"
    by (cases "p \<in> {1, 2, 4, 8, 3, 6, 12}") (auto simp: template_pixel_size_def)
  then show ?thesis
  proof cases
    case packed
    then have "copy_reversed_pixels (template_pixel_size p) p src_last dst n m = copy_reversed_packed p src_last dst n m"
      by (auto simp: copy_reversed_pixels_def template_pixel_size_def)
    also have "\<dots> = gather dst n (reversed src_last p) m"
      by (rule copy_reversed_packed_gather) (use packed assms in \<open>auto simp: lane_size_def\<close>)
    finally show ?thesis .
  next
    case three
    then obtain es where es: "p = 3 * es" "lane_size es"
      by (auto simp: lane_size_def intro: that [of 1] that [of 2] that [of 4])
    with three have "copy_reversed_pixels (template_pixel_size p) p src_last dst n m
        = copy_reversed_interleaved_3 es src_last dst n m"
      by (auto simp: copy_reversed_pixels_def template_pixel_size_def lane_size_def)
    also have "\<dots> = gather dst n (reversed src_last p) m"
      unfolding es(1) by (rule copy_reversed_interleaved_3_gather) (use es assms in auto)
    finally show ?thesis .
  next
    case bytes
    then show ?thesis
      using copy_reversed_by_bytes_gather [OF assms(1,2,4)] by (simp add: copy_reversed_pixels_def)
  qed
qed

section \<open>Properties\<close>

text \<open>
  The vector paths that fill a run of pixels (doubled 16-byte stores, interleaved stores of
  three-channel pixels) write what the byte loop writes, for every pixel size and run length, as
  long as the pixel is not part of the run.
\<close>

theorem fill_vector_paths:
  assumes "0 < p" and "p dvd n" and "\<And>k. k < n \<Longrightarrow> outside dst n (repeated pixel p) k"
  shows "fill_repeated_pixel (template_pixel_size p) p pixel dst n m
    = fill_repeated_by_bytes p pixel dst n m"
  using fill_repeated_pixel_gather [OF assms, of m] fill_repeated_by_bytes_gather [OF assms, of m] by simp

theorem fill_vector_paths_witness:
  "fill_repeated_pixel (template_pixel_size 6) 6 200 0 102 (\<lambda>a. word_of_nat a)
    = fill_repeated_by_bytes 6 200 0 102 (\<lambda>a. word_of_nat a)"
  by (rule fill_vector_paths) (simp_all add: outside_def repeated_def)

text \<open>
  C26. The vector paths that copy pixels in reverse order (lanes reversed within halves, halves and
  vectors swapped, channels kept apart by interleaved loads) write what the byte loop writes, for
  every pixel size and run length, when source and destination do not overlap.
\<close>

theorem reverse_vector_paths:
  assumes "0 < p" and "p dvd n" and "n \<le> src_last + p"
    and "\<And>k. k < n \<Longrightarrow> outside dst n (reversed src_last p) k"
  shows "copy_reversed_pixels (template_pixel_size p) p src_last dst n m
    = copy_reversed_by_bytes p src_last dst n m"
  using copy_reversed_pixels_gather [OF assms, of m] copy_reversed_by_bytes_gather [OF assms(1,2,4), of m]
  by simp

theorem reverse_vector_paths_witness:
  "copy_reversed_pixels (template_pixel_size 3) 3 197 200 102 (\<lambda>a. word_of_nat a)
    = copy_reversed_by_bytes 3 197 200 102 (\<lambda>a. word_of_nat a)"
  by (rule reverse_vector_paths) (auto simp: outside_def reversed_def)

end
