(* ===== verification/Thread_Batches.thy ===== *)
theory Thread_Batches
  imports Sme_Limiter Row_Operations
begin

text \<open>
  The distribution of rows over worker threads
  (\<^verbatim>\<open>kleidicv_thread/src/kleidicv_thread.cpp\<close>, top): \<open>parallel_batches\<close>
  cuts the rows of an image into tasks and hands them to the caller's scheduler. The scheduler
  itself is not part of the library: it is the parameter of the locale \<open>scheduler\<close>, whose
  assumption is its documented contract (\<^verbatim>\<open>kleidicv_thread.h\<close>).
\<close>

type_synonym 's action = "'s \<Rightarrow> kleidicv_error_t \<times> 's"
type_synonym 's range_callback = "nat \<Rightarrow> nat \<Rightarrow> 's action"

text \<open>\<^verbatim>\<open>mt.parallel\<close> with its callback data and \<^verbatim>\<open>mt.parallel_data\<close> closed over.\<close>

type_synonym 's parallel_fn = "'s range_callback \<Rightarrow> nat \<Rightarrow> 's action"

record 's BatchContext =
  callback :: "'s range_callback"
  row_count :: nat
  min_batch_size :: nat
  task_count :: nat

definition kleidicv_thread_batch_callback :: "'s BatchContext \<Rightarrow> 's range_callback" where
  "kleidicv_thread_batch_callback context task_begin task_end =
     (let begin = task_begin * min_batch_size context;
          stop = task_end * min_batch_size context;
          stop = (if task_end = task_count context then row_count context else stop)
      in callback context begin stop)"

definition parallel_batches ::
    "'s range_callback \<Rightarrow> 's parallel_fn \<Rightarrow> nat \<Rightarrow> nat \<Rightarrow> 's action" where
  "parallel_batches cb parallel n min_batch =
     (let tasks = max 1 (n div min_batch);
          context = \<lparr>callback = cb, row_count = n, min_batch_size = min_batch, task_count = tasks\<rparr>
      in parallel (kleidicv_thread_batch_callback context) tasks)"

section \<open>The scheduler\<close>

text \<open>
  The callback invocations of one run in the order in which they take effect, with their error
  values.
\<close>

fun run_ranges :: "'s range_callback \<Rightarrow> (nat \<times> nat) list \<Rightarrow> 's \<Rightarrow> kleidicv_error_t list \<times> 's" where
  "run_ranges cb [] s = ([], s)"
| "run_ranges cb ((b, e) # rs) s =
     (case cb b e s of (err, s') \<Rightarrow>
        (case run_ranges cb rs s' of (errs, s'') \<Rightarrow> (err # errs, s'')))"

definition range_tasks :: "nat \<times> nat \<Rightarrow> nat list" where
  "range_tasks r = [fst r..<snd r]"

text \<open>
  Every task index is covered exactly once. \<open>schedule\<close> also asks for non-empty ranges; see
  \<open>empty_range_runs_backwards\<close> below for what an empty range at the end does.
\<close>

definition covers_once :: "(nat \<times> nat) list \<Rightarrow> nat \<Rightarrow> bool" where
  "covers_once rs n \<longleftrightarrow>
     (\<forall>(b, e) \<in> set rs. b \<le> e \<and> e \<le> n)
     \<and> mset (concat (map range_tasks rs)) = mset [0..<n]"

definition schedule :: "(nat \<times> nat) list \<Rightarrow> nat \<Rightarrow> bool" where
  "schedule rs n \<longleftrightarrow> covers_once rs n \<and> (\<forall>(b, e) \<in> set rs. b < e)"

locale scheduler =
  fixes parallel :: "'s parallel_fn"
    and max_tasks :: nat
  assumes runs_schedule: "0 < n \<Longrightarrow> n \<le> max_tasks \<Longrightarrow>
    \<exists>rs. schedule rs n
      \<and> snd (parallel cb n s) = snd (run_ranges cb rs s)
      \<and> (fst (parallel cb n s) = KLEIDICV_OK
           \<longleftrightarrow> (\<forall>err \<in> set (fst (run_ranges cb rs s)). err = KLEIDICV_OK))"

subsection \<open>Ranges of tasks and ranges of rows\<close>

text \<open>The rows that the batch callback hands out for a range of tasks.\<close>

definition batch_rows :: "nat \<Rightarrow> nat \<Rightarrow> nat \<times> nat \<Rightarrow> nat \<times> nat" where
  "batch_rows n min_batch r =
     (fst r * min_batch,
      if snd r = max 1 (n div min_batch) then n else snd r * min_batch)"

lemma run_ranges_batch_callback:
  "run_ranges (kleidicv_thread_batch_callback
       \<lparr>callback = cb, row_count = n, min_batch_size = k, task_count = max 1 (n div k)\<rparr>) rs s
   = run_ranges cb (map (batch_rows n k) rs) s"
proof (induction rs arbitrary: s)
  case Nil
  then show ?case by simp
next
  case (Cons r rs)
  obtain b e where r: "r = (b, e)" by (cases r)
  obtain b' e' where br: "batch_rows n k (b, e) = (b', e')" by (cases "batch_rows n k (b, e)")
  then have "kleidicv_thread_batch_callback
      \<lparr>callback = cb, row_count = n, min_batch_size = k, task_count = max 1 (n div k)\<rparr> b e
    = cb b' e'"
    by (intro ext) (auto simp: kleidicv_thread_batch_callback_def batch_rows_def Let_def)
  then show ?case by (simp add: r br Cons.IH [simplified])
qed

text \<open>Where task \<open>t\<close> begins, and the rows of a single task.\<close>

definition task_start :: "nat \<Rightarrow> nat \<Rightarrow> nat \<Rightarrow> nat" where
  "task_start n k t = (if t = max 1 (n div k) then n else t * k)"

lemma task_start_mono:
  assumes "0 < k" and "a \<le> b" and "b \<le> max 1 (n div k)" and "k \<le> n \<or> a < b"
  shows "a * k \<le> task_start n k b"
proof (cases "b = max 1 (n div k)")
  case False
  with assms show ?thesis by (simp add: task_start_def)
next
  case True
  have "a * k \<le> n"
  proof (cases "k \<le> n")
    case le: True
    with assms have "1 \<le> n div k" by (metis One_nat_def Suc_le_eq div_greater_zero_iff)
    with assms True have "a \<le> n div k" by simp
    then have "a * k \<le> n div k * k" by simp
    also have "\<dots> \<le> n" by simp
    finally show ?thesis .
  next
    case False
    with assms True have "a = 0" by simp
    then show ?thesis by simp
  qed
  with True show ?thesis by (simp add: task_start_def)
qed

lemma concat_task_rows:
  assumes "0 < k" and "a \<le> b" and "b \<le> max 1 (n div k)" and "a < b"
  shows "concat (map (\<lambda>t. [t * k..<task_start n k (t + 1)]) [a..<b]) = [a * k..<task_start n k b]"
  using assms
proof (induction b)
  case 0
  then show ?case by simp
next
  case (Suc b)
  show ?case
  proof (cases "a = b")
    case True
    then show ?thesis by simp
  next
    case False
    with Suc.prems have ab: "a < b" by simp
    with Suc have IH: "concat (map (\<lambda>t. [t * k..<task_start n k (t + 1)]) [a..<b])
        = [a * k..<task_start n k b]" by simp
    have mid: "task_start n k b = b * k" using Suc.prems by (simp add: task_start_def)
    have "b * k \<le> task_start n k (Suc b)"
      using task_start_mono [of k b "Suc b" n] Suc.prems by simp
    then have "[a * k..<b * k] @ [b * k..<task_start n k (Suc b)] = [a * k..<task_start n k (Suc b)]"
      using ab by (metis le_Suc_ex less_imp_le mult_le_mono1 upt_add_eq_append)
    with IH mid ab show ?thesis by simp
  qed
qed

lemma batch_rows_concat:
  assumes "0 < k" and "b < e" and "e \<le> max 1 (n div k)"
  shows "range_tasks (batch_rows n k (b, e))
    = concat (map (\<lambda>t. [t * k..<task_start n k (t + 1)]) (range_tasks (b, e)))"
  using concat_task_rows [of k b e n] assms
  by (simp add: range_tasks_def batch_rows_def task_start_def)

lemma mset_concat_map_mset:
  "mset (map f xs) = mset (map f ys) \<Longrightarrow> mset (concat (map f xs)) = mset (concat (map f ys))"
  by (metis mset_concat mset_map sum_mset_sum_list)

lemma schedule_rows:
  assumes "schedule rs (max 1 (n div k))" and "0 < k"
  shows "mset (concat (map (\<lambda>r. range_tasks (batch_rows n k r)) rs)) = mset [0..<n]"
proof -
  let ?m = "max 1 (n div k)"
  let ?g = "\<lambda>t. [t * k..<task_start n k (t + 1)]"
  have each: "range_tasks (batch_rows n k r) = concat (map ?g (range_tasks r))" if "r \<in> set rs" for r
    using assms that batch_rows_concat [of k "fst r" "snd r" n]
    by (cases r) (auto simp: schedule_def covers_once_def)
  have "concat (map (\<lambda>r. range_tasks (batch_rows n k r)) rs)
      = concat (map (\<lambda>r. concat (map ?g (range_tasks r))) rs)"
    using each by (metis (mono_tags, lifting) map_eq_conv)
  also have "\<dots> = concat (map ?g (concat (map range_tasks rs)))"
    by (induction rs) simp_all
  finally have *: "concat (map (\<lambda>r. range_tasks (batch_rows n k r)) rs)
      = concat (map ?g (concat (map range_tasks rs)))" .
  have "mset (concat (map range_tasks rs)) = mset [0..<?m]"
    using assms by (simp add: schedule_def covers_once_def)
  then have "mset (map ?g (concat (map range_tasks rs))) = mset (map ?g [0..<?m])"
    by (metis mset_map)
  then have "mset (concat (map ?g (concat (map range_tasks rs)))) = mset (concat (map ?g [0..<?m]))"
    by (rule mset_concat_map_mset)
  also have "concat (map ?g [0..<?m]) = [0 * k..<task_start n k ?m]"
    by (rule concat_task_rows) (use assms in auto)
  finally show ?thesis by (simp add: * task_start_def)
qed

lemma batch_rows_bounds:
  assumes "schedule rs (max 1 (n div k))" and "0 < k" and "r \<in> set rs"
  shows "fst (batch_rows n k r) \<le> snd (batch_rows n k r)" "snd (batch_rows n k r) \<le> n"
    "min k n \<le> snd (batch_rows n k r) - fst (batch_rows n k r)"
    "k dvd fst (batch_rows n k r)"
    "snd (batch_rows n k r) = n \<or> k dvd snd (batch_rows n k r)"
proof -
  obtain b e where r: "r = (b, e)" by (cases r)
  with assms have be: "b < e" "e \<le> max 1 (n div k)" by (auto simp: schedule_def covers_once_def)
  show "fst (batch_rows n k r) \<le> snd (batch_rows n k r)"
    using task_start_mono [of k b e n] be assms(2)
    by (auto simp: r batch_rows_def task_start_def split: if_splits)
  show "snd (batch_rows n k r) \<le> n"
  proof (cases "e = max 1 (n div k)")
    case False
    with be have "e \<le> n div k" by linarith
    then have "e * k \<le> n div k * k" by simp
    also have "\<dots> \<le> n" by simp
    finally show ?thesis using False by (simp add: r batch_rows_def)
  qed (simp add: r batch_rows_def)
  show "k dvd fst (batch_rows n k r)" by (simp add: r batch_rows_def)
  show "snd (batch_rows n k r) = n \<or> k dvd snd (batch_rows n k r)" by (simp add: r batch_rows_def)
  show "min k n \<le> snd (batch_rows n k r) - fst (batch_rows n k r)"
  proof (cases "e = max 1 (n div k)")
    case True
    show ?thesis
    proof (cases "k \<le> n")
      case le: True
      with assms(2) have "1 \<le> n div k" by (metis One_nat_def Suc_le_eq div_greater_zero_iff)
      with True be have "Suc b \<le> n div k" by linarith
      then have "Suc b * k \<le> n div k * k" by (rule mult_le_mono1)
      also have "\<dots> \<le> n" by simp
      finally show ?thesis using True by (simp add: r batch_rows_def)
    next
      case False
      with True be have "b = 0" by simp
      with True show ?thesis by (simp add: r batch_rows_def)
    qed
  next
    case False
    have "Suc b * k \<le> e * k" using be by (intro mult_le_mono1) simp
    then have "k \<le> e * k - b * k" by simp
    with False show ?thesis by (simp add: r batch_rows_def)
  qed
qed

text \<open>Every run of \<open>parallel_batches\<close> is a run of its row ranges.\<close>

context scheduler
begin

lemma parallel_batches_runs:
  assumes "0 < k" and "max 1 (n div k) \<le> max_tasks"
  shows "\<exists>rs. schedule rs (max 1 (n div k))
    \<and> snd (parallel_batches cb parallel n k s) = snd (run_ranges cb (map (batch_rows n k) rs) s)
    \<and> (fst (parallel_batches cb parallel n k s) = KLEIDICV_OK
        \<longleftrightarrow> (\<forall>err \<in> set (fst (run_ranges cb (map (batch_rows n k) rs) s)). err = KLEIDICV_OK))"
  using runs_schedule [of "max 1 (n div k)", OF _ assms(2)]
  by (simp add: parallel_batches_def Let_def run_ranges_batch_callback [symmetric])

end

section \<open>Row operations\<close>

definition row_stripes :: "(nat \<Rightarrow> 's \<Rightarrow> 's) \<Rightarrow> nat \<Rightarrow> 's range_callback \<Rightarrow> bool" where
  "row_stripes row n cb \<longleftrightarrow>
     (\<forall>b e s. b \<le> e \<longrightarrow> e \<le> n \<longrightarrow> cb b e s = (KLEIDICV_OK, fold row [b..<e] s))"

lemma run_ranges_stripes:
  assumes "row_stripes row n cb" and "\<forall>r \<in> set rs. fst r \<le> snd r \<and> snd r \<le> n"
  shows "run_ranges cb rs s =
    (replicate (length rs) KLEIDICV_OK, fold row (concat (map range_tasks rs)) s)"
  using assms(2)
proof (induction rs arbitrary: s)
  case Nil
  then show ?case by simp
next
  case (Cons r rs)
  obtain b e where "r = (b, e)" by (cases r)
  with Cons assms(1) show ?case by (simp add: row_stripes_def range_tasks_def)
qed

lemma rows_subset: "mset xs = mset [0..<n] \<Longrightarrow> set xs \<subseteq> {..<n}"
  by (metis atLeast0LessThan order_refl set_mset_mset set_upt)

lemma parallel_rows:
  assumes "scheduler parallel max_tasks" and "row_operation row n" and "row_stripes row n cb"
    and k: "0 < k" and "max 1 (n div k) \<le> max_tasks"
  shows "parallel_batches cb parallel n k s = (KLEIDICV_OK, fold row [0..<n] s)"
proof -
  obtain rs where rs: "schedule rs (max 1 (n div k))"
    "snd (parallel_batches cb parallel n k s) = snd (run_ranges cb (map (batch_rows n k) rs) s)"
    "fst (parallel_batches cb parallel n k s) = KLEIDICV_OK
        \<longleftrightarrow> (\<forall>err \<in> set (fst (run_ranges cb (map (batch_rows n k) rs) s)). err = KLEIDICV_OK)"
    using scheduler.parallel_batches_runs [OF assms(1) k assms(5), of cb s] by blast
  have run: "run_ranges cb (map (batch_rows n k) rs) s =
    (replicate (length (map (batch_rows n k) rs)) KLEIDICV_OK,
     fold row (concat (map range_tasks (map (batch_rows n k) rs))) s)"
    using batch_rows_bounds [OF rs(1) k] by (intro run_ranges_stripes [OF assms(3)]) auto
  have m: "mset (concat (map range_tasks (map (batch_rows n k) rs))) = mset [0..<n]"
    using schedule_rows [OF rs(1) k] by (simp add: o_def)
  note perm = row_operation.fold_rows_perm [OF assms(2) m rows_subset [OF m], of s]
  show ?thesis using rs run perm by (simp add: prod_eq_iff)
qed

section \<open>Interleaved workers\<close>

text \<open>
  Workers run at the same time: each performs the rows of its batch in order, and the steps of
  different workers interleave arbitrarily.
\<close>

inductive interleaves :: "'a list list \<Rightarrow> 'a list \<Rightarrow> bool" where
  finished: "\<forall>xs \<in> set xss. xs = [] \<Longrightarrow> interleaves xss []"
| advance: "i < length xss \<Longrightarrow> xss ! i = x # xs \<Longrightarrow> interleaves (xss[i := xs]) ys \<Longrightarrow>
    interleaves xss (x # ys)"

lemma interleaves_mset: "interleaves xss ys \<Longrightarrow> mset ys = mset (concat xss)"
proof (induction rule: interleaves.induct)
  case (finished xss)
  then show ?case by (induction xss) auto
next
  case (advance i xss x xs ys)
  have split: "xss = take i xss @ (x # xs) # drop (Suc i) xss"
    using advance by (metis id_take_nth_drop)
  have "xss[i := xs] = take i xss @ xs # drop (Suc i) xss"
    using advance by (simp add: upd_conv_take_nth_drop)
  with advance.IH have "mset ys = mset (concat (take i xss)) + mset xs + mset (concat (drop (Suc i) xss))"
    by simp
  moreover have "mset (concat xss) =
      mset (concat (take i xss)) + (add_mset x (mset xs)) + mset (concat (drop (Suc i) xss))"
    by (subst split) simp
  ultimately show ?case by simp
qed

section \<open>The scheduler of the threading example\<close>

text \<open>
  \<^verbatim>\<open>parallel\<close> of \<^verbatim>\<open>examples/threading/main.cpp\<close>: the tasks split
  evenly over \<^verbatim>\<open>std::thread\<close> workers, the first error returned after the join. The
  workers are listed in the order in which their callbacks take effect (here by index).
\<close>

definition example_range :: "nat \<Rightarrow> nat \<Rightarrow> nat \<Rightarrow> nat \<times> nat" where
  "example_range n workers index =
     (size_wrap (int index * int n) div workers,
      if index + 1 = workers then n
      else size_wrap ((int index + 1) * int n) div workers)"

definition first_error :: "kleidicv_error_t list \<Rightarrow> kleidicv_error_t" where
  "first_error results =
     (case find (\<lambda>r. r \<noteq> KLEIDICV_OK) results of Some r \<Rightarrow> r | None \<Rightarrow> KLEIDICV_OK)"

definition example_parallel :: "nat \<Rightarrow> 's parallel_fn" where
  "example_parallel thread_count cb n s =
     (if thread_count = 0 then (KLEIDICV_ERROR_NULL_POINTER, s)
      else
        let workers = min thread_count n in
        case run_ranges cb (map (example_range n workers) [0..<workers]) s of
          (results, s') \<Rightarrow> (first_error results, s'))"

lemma first_error_OK: "first_error rs = KLEIDICV_OK \<longleftrightarrow> (\<forall>r \<in> set rs. r = KLEIDICV_OK)"
  by (induction rs) (auto simp: first_error_def)

lemma size_wrap_mult_le:
  assumes "a \<le> size_max div T" and "n \<le> T" and "T > 0"
  shows "size_wrap (int n * int a) = n * a"
proof -
  have "n * a \<le> T * (size_max div T)" using assms by (simp add: mult_le_mono)
  also have "\<dots> \<le> size_max" by simp
  finally show ?thesis using size_wrap_id [of "n * a"] by simp
qed

lemma example_range_eq:
  assumes "workers \<le> T" and "T > 0" and "n \<le> size_max div T" and "i < workers"
  shows "example_range n workers i = (i * n div workers, (i + 1) * n div workers)"
proof -
  have a: "size_wrap (int i * int n) = i * n"
    by (rule size_wrap_mult_le [OF assms(3)]) (use assms in auto)
  have "size_wrap (int (i + 1) * int n) = (i + 1) * n"
    by (rule size_wrap_mult_le [OF assms(3)]) (use assms in auto)
  moreover have "(n + i * n) div Suc i = n"
    using nonzero_mult_div_cancel_left [of "Suc i" n] by simp
  ultimately show ?thesis using a by (auto simp: example_range_def add.commute)
qed

lemma split_strict:
  assumes "0 < w" and "w \<le> n"
  shows "(i :: nat) * n div w < (i + 1) * n div w"
proof -
  have "i * n div w + 1 = (i * n + w) div w" using div_add_self2 [of w "i * n"] assms by simp
  also have "\<dots> \<le> (i * n + n) div w" using assms by (intro div_le_mono) simp
  finally show ?thesis by (simp add: add.commute)
qed

lemma upt_append: "a \<le> b \<Longrightarrow> b \<le> c \<Longrightarrow> [a..<b] @ [b..<c] = [a..<c]"
  using upt_add_eq_append [of a b "c - b"] by simp

lemma concat_split:
  assumes "0 < w" and "w \<le> n" and "m \<le> w"
  shows "concat (map (\<lambda>i. [i * n div w..<(i + 1) * n div w]) [0..<m]) = [0..<m * n div w]"
  using assms(3)
proof (induction m)
  case 0
  then show ?case by simp
next
  case (Suc m)
  have "m * n div w \<le> (m + 1) * n div w" using split_strict [OF assms(1,2)] by (simp add: less_imp_le)
  with Suc show ?case by (simp add: upt_append)
qed

lemma example_schedule:
  assumes "thread_count > 0" and "0 < n" and "n \<le> size_max div thread_count"
  shows "schedule (map (example_range n (min thread_count n)) [0..<min thread_count n]) n"
proof -
  let ?w = "min thread_count n"
  let ?f = "\<lambda>i. (i * n div ?w, (i + 1) * n div ?w)"
  have w: "0 < ?w" "?w \<le> n" using assms by auto
  have eq: "map (example_range n ?w) [0..<?w] = map ?f [0..<?w]"
    using example_range_eq [of ?w thread_count n] assms by (intro map_cong) auto
  have "(i + 1) * n div ?w \<le> n" if "i < ?w" for i
  proof -
    have "(i + 1) * n div ?w \<le> ?w * n div ?w" using that by (intro div_le_mono mult_le_mono1) simp
    then show ?thesis using w by simp
  qed
  moreover have "i * n div ?w < (i + 1) * n div ?w" for i by (rule split_strict [OF w])
  moreover have "concat (map range_tasks (map ?f [0..<?w])) = [0..<n]"
    using concat_split [OF w order_refl] w by (simp add: range_tasks_def o_def)
  ultimately show ?thesis
    unfolding eq by (auto simp: schedule_def covers_once_def less_imp_le simp del: map_map)
qed

interpretation example_sched: scheduler "example_parallel (Suc t)" "size_max div Suc t"
proof
  fix n :: nat and cb :: "'a range_callback" and s :: 'a
  assume "0 < n" "n \<le> size_max div Suc t"
  then have "schedule (map (example_range n (min (Suc t) n)) [0..<min (Suc t) n]) n"
    by (intro example_schedule) auto
  moreover have "snd (example_parallel (Suc t) cb n s)
      = snd (run_ranges cb (map (example_range n (min (Suc t) n)) [0..<min (Suc t) n]) s)"
    by (simp add: example_parallel_def Let_def split: prod.split)
  moreover have "fst (example_parallel (Suc t) cb n s) = KLEIDICV_OK \<longleftrightarrow>
      (\<forall>err \<in> set (fst (run_ranges cb (map (example_range n (min (Suc t) n)) [0..<min (Suc t) n]) s)).
        err = KLEIDICV_OK)"
    by (simp add: example_parallel_def Let_def first_error_OK split: prod.split)
  ultimately show "\<exists>rs. schedule rs n
      \<and> snd (example_parallel (Suc t) cb n s) = snd (run_ranges cb rs s)
      \<and> (fst (example_parallel (Suc t) cb n s) = KLEIDICV_OK
           \<longleftrightarrow> (\<forall>err \<in> set (fst (run_ranges cb rs s)). err = KLEIDICV_OK))"
    by blast
qed

lemma example_scheduler: "0 < t \<Longrightarrow> scheduler (example_parallel t) (size_max div t)"
  using example_sched.scheduler_axioms [of "t - 1"] by simp

lemma two_workers: "scheduler (example_parallel 2) (2 ^ 32)"
proof
  fix n :: nat and cb :: "'a range_callback" and s :: 'a
  assume "0 < n" "n \<le> 2 ^ 32"
  moreover have "(2 :: nat) ^ 32 \<le> size_max div 2" by (simp add: size_max_def)
  ultimately have "n \<le> size_max div 2" by linarith
  with \<open>0 < n\<close> show "\<exists>rs. schedule rs n
      \<and> snd (example_parallel 2 cb n s) = snd (run_ranges cb rs s)
      \<and> (fst (example_parallel 2 cb n s) = KLEIDICV_OK
           \<longleftrightarrow> (\<forall>err \<in> set (fst (run_ranges cb rs s)). err = KLEIDICV_OK))"
    using scheduler.runs_schedule [OF example_scheduler [of 2]] by simp
qed

section \<open>SME dispatch\<close>

text \<open>
  The process-wide limiter: the topology and its atomic counters. \<open>None\<close> is the null
  instance (no topology, no allowed CPU, or the allocation failed).
\<close>

definition create_sme_thread_limiter ::
    "bool \<Rightarrow> (nat \<Rightarrow> bool) \<Rightarrow> SmcuTopology option \<Rightarrow> (SmcuTopology \<times> u32 list) option" where
  "create_sme_thread_limiter malloc_ok malloc detected =
     (case detected of
        None \<Rightarrow> None
      | Some topo \<Rightarrow>
          (if \<not> has_allowed_cpu topo then None
           else if \<not> malloc_ok then None
           else Some (topo, init_slots malloc topo)))"

text \<open>
  The erased callbacks are actions on the image state; the limiter's counters are carried along.
  \<open>cpu_of b e\<close> is what \<^verbatim>\<open>sched_getcpu\<close> returns in the worker that runs rows
  \<open>b\<close> to \<open>e\<close>.
\<close>

definition parallel_batches_cpu_only ::
    "'s range_callback \<Rightarrow> 's range_callback \<Rightarrow> (u32 list \<times> 's) parallel_fn \<Rightarrow> nat \<Rightarrow> nat
      \<Rightarrow> (u32 list \<times> 's) action" where
  "parallel_batches_cpu_only cpu_callback sme_callback parallel n min_batch =
     parallel_batches
       (\<lambda>b e (sl, s). case cpu_callback b e s of (err, s') \<Rightarrow> (err, sl, s'))
       parallel n min_batch"

definition hybrid_callback ::
    "SmcuTopology \<Rightarrow> (nat \<Rightarrow> nat \<Rightarrow> int) \<Rightarrow> 's range_callback \<Rightarrow> 's range_callback
      \<Rightarrow> (u32 list \<times> 's) range_callback" where
  "hybrid_callback topo cpu_of cpu_callback sme_callback b e st =
     (case try_to_run topo (cpu_of b e) (sme_callback b e) st of
        (result, sl, s) \<Rightarrow>
          (if accepted result then (error result, sl, s)
           else case cpu_callback b e s of (err, s') \<Rightarrow> (err, sl, s')))"

definition parallel_batches_hybrid ::
    "SmcuTopology \<Rightarrow> (nat \<Rightarrow> nat \<Rightarrow> int) \<Rightarrow> 's range_callback \<Rightarrow> 's range_callback
      \<Rightarrow> (u32 list \<times> 's) parallel_fn \<Rightarrow> nat \<Rightarrow> nat \<Rightarrow> (u32 list \<times> 's) action" where
  "parallel_batches_hybrid topo cpu_of cpu_callback sme_callback parallel n min_batch =
     parallel_batches (hybrid_callback topo cpu_of cpu_callback sme_callback) parallel n min_batch"

definition parallel_batches_with_sme ::
    "bool \<Rightarrow> (SmcuTopology \<times> u32 list) option \<Rightarrow> (nat \<Rightarrow> nat \<Rightarrow> int)
      \<Rightarrow> 's range_callback \<Rightarrow> 's range_callback \<Rightarrow> (u32 list \<times> 's) parallel_fn \<Rightarrow> nat \<Rightarrow> nat
      \<Rightarrow> (u32 list \<times> 's) action" where
  "parallel_batches_with_sme is_sme_supported limiter cpu_of cpu_callback sme_callback =
     (case (is_sme_supported, limiter) of
        (True, Some (topo, _)) \<Rightarrow> parallel_batches_hybrid topo cpu_of cpu_callback sme_callback
      | _ \<Rightarrow> parallel_batches_cpu_only cpu_callback sme_callback)"

lemma hybrid_callback_eq:
  "hybrid_callback topo cpu_of cpu_callback sme_callback b e (sl, s) =
     (let cpu = cpu_of b e; d = domain_for_cpu topo (nat cpu);
          chosen = (if 0 \<le> cpu \<and> is_cpu_allowed topo (nat cpu) \<and> d < length sl \<and> sl ! d > 0
                    then sme_callback else cpu_callback)
      in (fst (chosen b e s), sl, snd (chosen b e s)))"
  by (simp add: hybrid_callback_def try_to_run_eq Let_def split: prod.split)

lemma row_operation_lift:
  assumes "row_operation row n"
  shows "row_operation (\<lambda>i (sl :: u32 list, s). (sl, row i s)) n"
  by (unfold_locales) (auto simp: row_operation.rows_commute [OF assms])

lemma fold_lift: "fold (\<lambda>i (sl, s). (sl, row i s)) xs (sl, s) = (sl, fold row xs s)"
  by (induction xs arbitrary: s) simp_all

lemma hybrid_stripes:
  assumes "row_stripes row n cpu_callback" and "row_stripes row n sme_callback"
  shows "row_stripes (\<lambda>i (sl, s). (sl, row i s)) n
    (hybrid_callback topo cpu_of cpu_callback sme_callback)"
  using assms by (auto simp: row_stripes_def hybrid_callback_eq Let_def fold_lift)

lemma cpu_only_stripes:
  assumes "row_stripes row n cpu_callback"
  shows "row_stripes (\<lambda>i (sl, s). (sl, row i s)) n
    (\<lambda>b e (sl, s). case cpu_callback b e s of (err, s') \<Rightarrow> (err, sl, s'))"
  using assms by (auto simp: row_stripes_def fold_lift)

lemma parallel_rows_with_sme:
  assumes "scheduler parallel max_tasks" and "row_operation row n"
    and "row_stripes row n cpu_callback" and "row_stripes row n sme_callback"
    and "0 < k" and "max 1 (n div k) \<le> max_tasks"
  shows "parallel_batches_with_sme sme limiter cpu_of cpu_callback sme_callback parallel n k (sl, s)
    = (KLEIDICV_OK, sl, fold row [0..<n] s)"
proof (cases "sme \<and> limiter \<noteq> None")
  case True
  then obtain topo sl0 where "limiter = Some (topo, sl0)" by auto
  with True have "parallel_batches_with_sme sme limiter cpu_of cpu_callback sme_callback parallel n k (sl, s)
      = parallel_batches (hybrid_callback topo cpu_of cpu_callback sme_callback) parallel n k (sl, s)"
    by (simp add: parallel_batches_with_sme_def parallel_batches_hybrid_def)
  then show ?thesis
    using parallel_rows [OF assms(1) row_operation_lift [OF assms(2)]
        hybrid_stripes [OF assms(3,4)] assms(5,6)]
    by (simp add: fold_lift)
next
  case False
  then have "parallel_batches_with_sme sme limiter cpu_of cpu_callback sme_callback parallel n k (sl, s)
      = parallel_batches (\<lambda>b e (sl, s). case cpu_callback b e s of (err, s') \<Rightarrow> (err, sl, s'))
          parallel n k (sl, s)"
    by (cases limiter; cases sme)
      (simp_all add: parallel_batches_with_sme_def parallel_batches_cpu_only_def)
  then show ?thesis
    using parallel_rows [OF assms(1) row_operation_lift [OF assms(2)]
        cpu_only_stripes [OF assms(3)] assms(5,6)]
    by (simp add: fold_lift)
qed

section \<open>Properties\<close>

text \<open>
  C2. A threaded call is a run of its callback over row ranges that cover every row exactly once.
  Every range starts at a multiple of the minimal batch size, ends at one or at the last row, and
  is at least one minimal batch long; the call succeeds exactly when every range did.
\<close>

theorem parallel_batches_cover:
  assumes "scheduler parallel max_tasks" and "0 < k" and "max 1 (n div k) \<le> max_tasks"
  shows "\<exists>rows. mset (concat (map range_tasks rows)) = mset [0..<n]
    \<and> (\<forall>(b, e) \<in> set rows. b \<le> e \<and> e \<le> n \<and> min k n \<le> e - b
          \<and> k dvd b \<and> (e = n \<or> k dvd e))
    \<and> snd (parallel_batches cb parallel n k s) = snd (run_ranges cb rows s)
    \<and> (fst (parallel_batches cb parallel n k s) = KLEIDICV_OK
        \<longleftrightarrow> (\<forall>err \<in> set (fst (run_ranges cb rows s)). err = KLEIDICV_OK))"
proof -
  obtain rs where rs: "schedule rs (max 1 (n div k))"
    "snd (parallel_batches cb parallel n k s) = snd (run_ranges cb (map (batch_rows n k) rs) s)"
    "fst (parallel_batches cb parallel n k s) = KLEIDICV_OK
        \<longleftrightarrow> (\<forall>err \<in> set (fst (run_ranges cb (map (batch_rows n k) rs) s)). err = KLEIDICV_OK)"
    using scheduler.parallel_batches_runs [OF assms, of cb s] by blast
  have "mset (concat (map range_tasks (map (batch_rows n k) rs))) = mset [0..<n]"
    using schedule_rows [OF rs(1) assms(2)] by (simp add: o_def)
  moreover have "\<forall>(b, e) \<in> set (map (batch_rows n k) rs). b \<le> e \<and> e \<le> n \<and> min k n \<le> e - b
      \<and> k dvd b \<and> (e = n \<or> k dvd e)"
    using batch_rows_bounds [OF rs(1) assms(2)]
    by (simp only: set_map ball_simps(9) case_prod_beta) blast
  ultimately show ?thesis using rs(2,3) by blast
qed

theorem parallel_batches_cover_witness:
  "\<exists>rows. mset (concat (map range_tasks rows)) = mset [0..<150]
     \<and> (\<forall>(b, e) \<in> set rows. b \<le> e \<and> e \<le> 150 \<and> min 64 150 \<le> e - b
          \<and> 64 dvd b \<and> (e = 150 \<or> 64 dvd e))"
proof -
  have "max 1 (150 div 64) \<le> (2 :: nat) ^ 32" by simp
  from parallel_batches_cover [OF two_workers zero_less_numeral this,
      of "\<lambda>b e s. (KLEIDICV_OK, s)" "0 :: nat"]
  show ?thesis by blast
qed

text \<open>
  C1. Threading does not change the result: for a callback that works row by row, with rows that
  do not interfere, the threaded call does what one call over all rows does, whatever schedule
  the caller's scheduler picks.
\<close>

theorem parallel_batches_one_call:
  assumes "scheduler parallel max_tasks" and "row_operation row n" and "row_stripes row n cb"
    and "0 < k" and "max 1 (n div k) \<le> max_tasks"
  shows "parallel_batches cb parallel n k s = cb 0 n s"
  using parallel_rows [OF assms] assms(3) by (simp add: row_stripes_def)

definition mark_row :: "nat \<Rightarrow> nat list \<Rightarrow> nat list" where
  "mark_row i xs = (if i < length xs then xs[i := xs ! i + 1] else xs)"

lemma mark_rows_commute: "row_operation mark_row n"
  by unfold_locales (auto simp: mark_row_def list_update_swap)

theorem parallel_batches_one_call_witness:
  "parallel_batches (\<lambda>b e s. (KLEIDICV_OK, fold mark_row [b..<e] s)) (example_parallel 2) 5 2
     [0, 0, 0, 0, 0] = (KLEIDICV_OK, [1, 1, 1, 1, 1])"
proof -
  have "row_stripes mark_row 5 (\<lambda>b e s. (KLEIDICV_OK, fold mark_row [b..<e] s))"
    by (simp add: row_stripes_def)
  moreover have "fold mark_row [0..<5] [0, 0, 0, 0, 0] = [1, 1, 1, 1, 1]"
    by (simp add: mark_row_def upt_rec)
  ultimately show ?thesis
    using parallel_batches_one_call [OF two_workers mark_rows_commute, of 5 _ 2] by simp
qed

text \<open>
  Nor does concurrency: if the workers run at the same time and the row steps of their
  batches interleave in any way, the final state is that of the rows done in order.
\<close>

lemma interleaved_workers:
  assumes "schedule rs (max 1 (n div k))" and "0 < k" and "row_operation row n"
    and "interleaves (map (\<lambda>r. range_tasks (batch_rows n k r)) rs) ys"
  shows "fold row ys s = fold row [0..<n] s"
proof -
  have m: "mset ys = mset [0..<n]"
    using interleaves_mset [OF assms(4)] schedule_rows [OF assms(1,2)] by simp
  show ?thesis by (rule row_operation.fold_rows_perm [OF assms(3) m rows_subset [OF m]])
qed

lemma interleaved_workers_example:
  "fold mark_row [1, 0, 2] [0, 0, 0] = fold mark_row [0..<3] [0, 0, 0]"
proof -
  have "interleaves (map (\<lambda>r. range_tasks (batch_rows 3 1 r)) [(0, 1), (1, 3)]) [1, 0, 2]"
    by (rule interleaves.advance [of 1 _ _ "[2]"] interleaves.advance [of 0 _ _ "[]"]
        interleaves.advance [of 1 _ _ "[]"] interleaves.finished
      | simp add: range_tasks_def batch_rows_def upt_rec)+
  moreover have "schedule [(0, 1), (1, 3)] (max 1 (3 div 1))"
    by (auto simp: schedule_def covers_once_def range_tasks_def upt_rec)
  ultimately show ?thesis
    using interleaved_workers [OF _ _ mark_rows_commute, of _ 3 1] by (metis zero_less_one)
qed

text \<open>
  C5. The choice between the streaming and the CPU backend does not change the result either: with
  two backends that compute the same rows, each batch runs on exactly one of them, and afterwards
  the image is that of one call and every unit of the limiter has been given back.
\<close>

theorem hybrid_dispatch_one_call:
  assumes "scheduler parallel max_tasks" and "row_operation row n"
    and "row_stripes row n cpu_callback" and "row_stripes row n sme_callback"
    and "0 < k" and "max 1 (n div k) \<le> max_tasks"
  shows "parallel_batches_with_sme sme limiter cpu_of cpu_callback sme_callback parallel n k (sl, s)
    = (case cpu_callback 0 n s of (err, s') \<Rightarrow> (err, sl, s'))"
  using parallel_rows_with_sme [OF assms] assms(3) by (simp add: row_stripes_def)

theorem hybrid_dispatch_one_call_witness:
  "parallel_batches_with_sme True (Some (solo_topo, [1])) (\<lambda>b e. int b)
     (\<lambda>b e s. (KLEIDICV_OK, fold mark_row [b..<e] s))
     (\<lambda>b e s. (KLEIDICV_OK, fold mark_row [b..<e] s)) (example_parallel 2) 3 1 ([1], [0, 0, 0])
   = (KLEIDICV_OK, [1], [1, 1, 1])"
proof -
  have "row_stripes mark_row 3 (\<lambda>b e s. (KLEIDICV_OK, fold mark_row [b..<e] s))"
    by (simp add: row_stripes_def)
  moreover have "fold mark_row [0..<3] [0, 0, 0] = [1, 1, 1]"
    by (simp add: mark_row_def upt_rec)
  ultimately show ?thesis
    using hybrid_dispatch_one_call [OF two_workers mark_rows_commute, of 3 _ _ 1] by simp
qed

text \<open>
  C40. An empty range at the end, which the documentation of the callback allows
  (\<open>begin \<le> end \<le> task_count\<close>), is not run as an empty range when the row count is no
  multiple of the batch size: the callback gets the rows behind the last full batch again, or, for
  an image smaller than one batch, a first row behind the last one.
\<close>

theorem empty_range_runs_backwards:
  assumes "0 < k" and "\<not> k dvd n" and "m = max 1 (n div k)"
  shows "covers_once [(0, m), (m, m)] m
    \<and> kleidicv_thread_batch_callback
      \<lparr>callback = cb, row_count = n, min_batch_size = k, task_count = m\<rparr> m m = cb (m * k) n
    \<and> (if n < k then n < m * k else m * k < n)"
proof (intro conjI)
  show "covers_once [(0, m), (m, m)] m" by (simp add: covers_once_def range_tasks_def)
  show "kleidicv_thread_batch_callback
      \<lparr>callback = cb, row_count = n, min_batch_size = k, task_count = m\<rparr> m m = cb (m * k) n"
    by (simp add: kleidicv_thread_batch_callback_def Let_def)
  show "if n < k then n < m * k else m * k < n"
  proof (cases "n < k")
    case True
    with assms show ?thesis by simp
  next
    case False
    then have "1 \<le> n div k" using assms(1) by (metis One_nat_def Suc_le_eq div_greater_zero_iff not_le)
    then have mk: "m = n div k" using assms(3) by (simp add: max_def)
    have "n div k * k < n" using assms(2)
      by (metis div_times_less_eq_dividend dvd_triv_right le_neq_implies_less)
    then show ?thesis using False mk by simp
  qed
qed

theorem empty_range_runs_backwards_witness:
  "kleidicv_thread_batch_callback
     \<lparr>callback = (\<lambda>b e s. (KLEIDICV_OK, [b, e])), row_count = 10, min_batch_size = 64,
      task_count = 1\<rparr> 1 1 [] = (KLEIDICV_OK, [64, 10])"
proof -
  have "\<not> (64 :: nat) dvd 10" by (simp add: dvd_eq_mod_eq_0)
  from empty_range_runs_backwards [OF _ this refl, of "\<lambda>b e s. (KLEIDICV_OK, [b, e])"]
  show ?thesis by (simp add: fun_eq_iff)
qed

end
