(* ===== verification/Kcv_Utils.thy ===== *)
theory Kcv_Utils
  imports Kcv_Types
begin

unbundle bit_operations_syntax

text \<open>
  \<^verbatim>\<open>kleidicv/include/kleidicv/utils.h\<close>: saturating and rounding arithmetic,
  alignment, and the checks that every operation makes on its arguments. Pointers are addresses
  with 0 for \<^verbatim>\<open>nullptr\<close>; a check returns the error it would return from the caller,
  \<open>KLEIDICV_OK\<close> when it passes.
\<close>

section \<open>Saturating arithmetic\<close>

text \<open>The limits of an integer type of the given width.\<close>

definition max_signed :: "nat \<Rightarrow> int" where "max_signed w = 2 ^ (w - 1) - 1"
definition min_signed :: "nat \<Rightarrow> int" where "min_signed w = - (2 ^ (w - 1))"
definition max_unsigned :: "nat \<Rightarrow> int" where "max_unsigned w = 2 ^ w - 1"

text \<open>
  The value to which a signed operand is converted when it is compared with an unsigned one: the
  usual arithmetic conversions leave it alone when the unsigned type is narrower than
  \<^verbatim>\<open>int\<close> or than the signed type, and reduce it modulo its width otherwise.
\<close>

definition compared_as :: "nat \<Rightarrow> nat \<Rightarrow> int \<Rightarrow> int" where
  "compared_as s u value =
     (if u \<ge> 32 \<and> u \<ge> s then value mod 2 ^ u else value)"

definition saturating_cast_signed_unsigned :: "'s :: len word \<Rightarrow> 'u :: len word" where
  "saturating_cast_signed_unsigned v =
     (if compared_as LENGTH('s) LENGTH('u) (sint v) > max_unsigned LENGTH('u)
      then word_of_int (max_unsigned LENGTH('u))
      else if sint v < 0 then 0
      else word_of_int (sint v))"

definition saturating_cast_unsigned_unsigned :: "'s :: len word \<Rightarrow> 'u :: len word" where
  "saturating_cast_unsigned_unsigned v = ucast v"

text \<open>
  To a signed type, from a signed and from an unsigned one; the bounds of the destination are
  converted to the source type first.
\<close>

definition saturating_cast_signed_signed :: "'s :: len word \<Rightarrow> 'd :: len word" where
  "saturating_cast_signed_signed v =
     (if sint v > sint (word_of_int (max_signed LENGTH('d)) :: 's word)
      then word_of_int (max_signed LENGTH('d))
      else if sint v < sint (word_of_int (min_signed LENGTH('d)) :: 's word)
      then word_of_int (min_signed LENGTH('d))
      else word_of_int (sint v))"

definition saturating_cast_unsigned_signed :: "'s :: len word \<Rightarrow> 'd :: len word" where
  "saturating_cast_unsigned_signed v =
     (if uint v > uint (word_of_int (max_signed LENGTH('d)) :: 's word)
      then word_of_int (max_signed LENGTH('d))
      else word_of_int (uint v))"

definition saturating_sub :: "'u :: len word \<Rightarrow> 'u word \<Rightarrow> 'u word" where
  "saturating_sub a b = (if b > a then 0 else a - b)"

text \<open>
  \<^verbatim>\<open>rounding_shift_right\<close> on an unsigned and on a signed type of at least the width of
  \<^verbatim>\<open>int\<close>; narrower operands are promoted before they are added.
\<close>

definition rounding_shift_right :: "'u :: len word \<Rightarrow> nat \<Rightarrow> 'u word" where
  "rounding_shift_right value shift = drop_bit shift (value + push_bit (shift - 1) 1)"

definition rounding_shift_right_signed :: "'u :: len word \<Rightarrow> nat \<Rightarrow> 'u word" where
  "rounding_shift_right_signed value shift = signed_drop_bit shift (value + push_bit (shift - 1) 1)"

lemmas saturating_defs [kcv_defs] = max_signed_def min_signed_def max_unsigned_def compared_as_def
  saturating_cast_signed_unsigned_def saturating_cast_unsigned_unsigned_def
  saturating_cast_signed_signed_def saturating_cast_unsigned_signed_def saturating_sub_def
  rounding_shift_right_def rounding_shift_right_signed_def

subsection \<open>What the casts compute\<close>

text \<open>The mathematical meaning: the nearest value of the interval.\<close>

definition clamp :: "int \<Rightarrow> int \<Rightarrow> int \<Rightarrow> int" where
  "clamp lo hi v = max lo (min hi v)"

lemma uint_word_of_int_in_range:
  assumes "0 \<le> v" and "v < 2 ^ LENGTH('u :: len)"
  shows "uint (word_of_int v :: 'u word) = v"
  unfolding uint_word_of_int by (rule mod_pos_pos_trivial [OF assms])

lemma max_unsigned_pos: "0 \<le> max_unsigned w" "max_unsigned w < 2 ^ w"
  by (simp_all add: max_unsigned_def)

lemma uint_max_unsigned: "uint (word_of_int (max_unsigned LENGTH('u)) :: 'u :: len word) = max_unsigned LENGTH('u)"
  by (rule uint_word_of_int_in_range) (rule max_unsigned_pos)+

lemma sint_word_of_int_in_range:
  fixes v :: int
  assumes "- (2 ^ (LENGTH('d :: len) - 1)) \<le> v" and "v < 2 ^ (LENGTH('d) - 1)"
  shows "sint (word_of_int v :: 'd word) = v"
  unfolding sint_sbintrunc' by (rule signed_take_bit_int_eq_self [OF assms])

lemma compared_as_signed:
  fixes v :: "'s :: len word"
  shows "compared_as LENGTH('s) u (sint v) > max_unsigned u \<longleftrightarrow> sint v > max_unsigned u"
proof (cases "u \<ge> 32 \<and> u \<ge> LENGTH('s)")
  case True
  have "sint v < 2 ^ (LENGTH('s) - 1)" by (rule sint_lt)
  also have "\<dots> \<le> (2 :: int) ^ u" using True by (intro power_increasing) auto
  finally have "\<not> sint v > max_unsigned u" by (simp add: max_unsigned_def)
  moreover have "\<not> sint v mod 2 ^ u > max_unsigned u"
  proof -
    have "sint v mod 2 ^ u < 2 ^ u" by (rule pos_mod_bound) simp
    then show ?thesis unfolding max_unsigned_def by linarith
  qed
  ultimately show ?thesis using True by (simp add: compared_as_def)
next
  case False
  then show ?thesis by (auto simp: compared_as_def)
qed

lemma sat_signed_unsigned:
  fixes v :: "'s :: len word"
  shows "uint (saturating_cast_signed_unsigned v :: 'u :: len word)
    = clamp 0 (max_unsigned LENGTH('u)) (sint v)"
proof -
  have "uint (word_of_int (sint v) :: 'u word) = sint v"
    if "0 \<le> sint v" "sint v \<le> max_unsigned LENGTH('u)"
    using that max_unsigned_pos(2) [of "LENGTH('u)"] by (intro uint_word_of_int_in_range) linarith+
  then show ?thesis
    unfolding saturating_cast_signed_unsigned_def compared_as_signed clamp_def
    using max_unsigned_pos(1) [of "LENGTH('u)"] uint_max_unsigned [where 'u = 'u]
    by (smt (verit) uint_0_eq)
qed

lemma sint_max_signed_le:
  assumes "LENGTH('d :: len) \<le> LENGTH('s :: len)"
  shows "sint (word_of_int (max_signed LENGTH('d)) :: 's word) = max_signed LENGTH('d)"
    and "sint (word_of_int (min_signed LENGTH('d)) :: 's word) = min_signed LENGTH('d)"
proof -
  have le: "(2 :: int) ^ (LENGTH('d) - 1) \<le> 2 ^ (LENGTH('s) - 1)"
    using assms by (intro power_increasing) auto
  have pos: "0 < (2 :: int) ^ (LENGTH('d) - 1)" by simp
  show "sint (word_of_int (max_signed LENGTH('d)) :: 's word) = max_signed LENGTH('d)"
    using le pos unfolding max_signed_def by (intro sint_word_of_int_in_range) linarith+
  show "sint (word_of_int (min_signed LENGTH('d)) :: 's word) = min_signed LENGTH('d)"
    using le pos unfolding min_signed_def by (intro sint_word_of_int_in_range) linarith+
qed

lemma sint_of_int_cast:
  assumes "min_signed LENGTH('d :: len) \<le> v" and "v \<le> max_signed LENGTH('d)"
  shows "sint (word_of_int v :: 'd word) = v"
  using assms unfolding min_signed_def max_signed_def by (intro sint_word_of_int_in_range) linarith+

lemma min_le_max_signed: "min_signed w \<le> max_signed w" "0 \<le> max_signed w" "min_signed w \<le> 0"
  using zero_less_power [of "2 :: int" "w - 1"] unfolding min_signed_def max_signed_def by linarith+

lemma sat_signed_signed:
  fixes v :: "'s :: len word"
  assumes "LENGTH('d :: len) \<le> LENGTH('s)"
  shows "sint (saturating_cast_signed_signed v :: 'd word)
    = clamp (min_signed LENGTH('d)) (max_signed LENGTH('d)) (sint v)"
  unfolding saturating_cast_signed_signed_def sint_max_signed_le [OF assms] clamp_def
  using min_le_max_signed [of "LENGTH('d)"] sint_of_int_cast [where 'd = 'd]
  by (smt (verit))

lemma sat_unsigned_signed:
  fixes v :: "'s :: len word"
  shows "sint (saturating_cast_unsigned_signed v :: 'd :: len word)
    = clamp (min_signed LENGTH('d)) (max_signed LENGTH('d)) (uint v)"
proof (cases "LENGTH('d) \<le> LENGTH('s)")
  case True
  have "max_signed LENGTH('d) < 2 ^ LENGTH('s)"
  proof -
    have "(2 :: int) ^ (LENGTH('d) - 1) \<le> 2 ^ LENGTH('s)"
      using True by (intro power_increasing) auto
    then show ?thesis unfolding max_signed_def by linarith
  qed
  then have "uint (word_of_int (max_signed LENGTH('d)) :: 's word) = max_signed LENGTH('d)"
    using min_le_max_signed by (intro uint_word_of_int_in_range)
  moreover have "min_signed LENGTH('d) \<le> uint v"
    using min_le_max_signed(3) uint_ge_0 by (rule order_trans)
  ultimately show ?thesis
    using min_le_max_signed [of "LENGTH('d)"] sint_of_int_cast [where 'd = 'd]
    unfolding saturating_cast_unsigned_signed_def clamp_def
    by (smt (verit))
next
  case False
  then have le: "LENGTH('s) \<le> LENGTH('d) - 1" by simp
  have lt: "uint v < 2 ^ LENGTH('s)" by simp
  note lt
  also have "\<dots> \<le> (2 :: int) ^ (LENGTH('d) - 1)" using le by (intro power_increasing) auto
  finally have small: "uint v \<le> max_signed LENGTH('d)" unfolding max_signed_def by linarith
  have "(2 :: int) ^ LENGTH('s) dvd 2 ^ (LENGTH('d) - 1)" using le by (rule le_imp_power_dvd)
  then have "max_signed LENGTH('d) mod 2 ^ LENGTH('s) = 2 ^ LENGTH('s) - 1"
    by (simp add: max_signed_def mod_diff_left_eq [symmetric] zmod_minus1 dvd_eq_mod_eq_0)
  then have "uint v \<le> uint (word_of_int (max_signed LENGTH('d)) :: 's word)"
    unfolding uint_word_of_int using lt by linarith
  moreover have "min_signed LENGTH('d) \<le> uint v"
    using min_le_max_signed(3) uint_ge_0 by (rule order_trans)
  ultimately show ?thesis
    using small sint_of_int_cast [where 'd = 'd, of "uint v"]
    unfolding saturating_cast_unsigned_signed_def clamp_def
    by (smt (verit))
qed

subsection \<open>Rounding shifts\<close>

lemma uint_push_one: "s < LENGTH('u) \<Longrightarrow> uint (push_bit s (1 :: 'u :: len word)) = 2 ^ s"
proof -
  assume "s < LENGTH('u)"
  then have "(2 :: int) ^ s < 2 ^ LENGTH('u)" by (simp add: power_strict_increasing)
  moreover have "uint (push_bit s (1 :: 'u word)) = take_bit LENGTH('u) (push_bit s (uint (1 :: 'u word)))"
    by (rule unsigned_push_bit_eq)
  ultimately show ?thesis by (simp add: take_bit_int_eq_self)
qed

lemma uint_drop_bit_div: "uint (drop_bit s x) = uint x div 2 ^ s" for x :: "'u :: len word"
proof -
  have "uint (drop_bit s x) = drop_bit s (take_bit LENGTH('u) (uint x))"
    by (rule unsigned_drop_bit_eq)
  then show ?thesis by (simp add: take_bit_int_eq_self drop_bit_eq_div)
qed

lemma uint_plus_no_wrap:
  fixes a b :: "'u :: len word"
  assumes "uint a + uint b < 2 ^ LENGTH('u)"
  shows "uint (a + b) = uint a + uint b"
  unfolding uint_word_ariths(1) by (rule mod_pos_pos_trivial) (use assms in simp_all)

lemma rounding_shift_right_div:
  fixes v :: "'u :: len word"
  assumes "0 < s" and "s \<le> LENGTH('u)" and "uint v + 2 ^ (s - 1) < 2 ^ LENGTH('u)"
  shows "uint (rounding_shift_right v s) = (uint v + 2 ^ (s - 1)) div 2 ^ s"
proof -
  have "uint (push_bit (s - 1) (1 :: 'u word)) = 2 ^ (s - 1)"
    using assms(1,2) by (intro uint_push_one) simp
  then show ?thesis
    using uint_plus_no_wrap [of v "push_bit (s - 1) 1"] assms(3)
    unfolding rounding_shift_right_def
    by (simp only: uint_drop_bit_div)
qed

text \<open>A rounding shift is the nearest multiple, halves rounded up.\<close>

lemma rounding_div_nearest:
  fixes v :: int
  assumes "0 < s"
  shows "v - 2 ^ (s - 1) < (v + 2 ^ (s - 1)) div 2 ^ s * 2 ^ s"
    and "(v + 2 ^ (s - 1)) div 2 ^ s * 2 ^ s \<le> v + 2 ^ (s - 1)"
proof -
  obtain t where t: "s = Suc t" using assms by (cases s) auto
  let ?h = "(2 :: int) ^ t" and ?x = "v + 2 ^ t"
  have "?x = ?x div (2 * ?h) * (2 * ?h) + ?x mod (2 * ?h)" by (rule div_mult_mod_eq [symmetric])
  moreover have "0 \<le> ?x mod (2 * ?h)" "?x mod (2 * ?h) < 2 * ?h" by simp_all
  ultimately have "v - ?h < ?x div (2 * ?h) * (2 * ?h)" "?x div (2 * ?h) * (2 * ?h) \<le> v + ?h"
    by linarith+
  then show "v - 2 ^ (s - 1) < (v + 2 ^ (s - 1)) div 2 ^ s * 2 ^ s"
    and "(v + 2 ^ (s - 1)) div 2 ^ s * 2 ^ s \<le> v + 2 ^ (s - 1)"
    by (simp_all add: t)
qed

section \<open>Alignment\<close>

text \<open>\<open>align\<close> is \<^verbatim>\<open>alignof(AlignType)\<close>: 2, 4, 8 or 16.\<close>

definition is_misaligned :: "nat \<Rightarrow> nat \<Rightarrow> bool" where
  "is_misaligned align v = (v AND (align - 1) \<noteq> 0)"

definition align_up :: "u64 \<Rightarrow> u64 \<Rightarrow> u64" where
  "align_up value alignment = (value + alignment - 1) AND NOT (alignment - 1)"

lemma is_misaligned_dvd: "is_misaligned (2 ^ k) v \<longleftrightarrow> \<not> 2 ^ k dvd v"
proof -
  have "v AND (2 ^ k - 1) = take_bit k v"
    by (simp only: mask_eq_exp_minus_1 [symmetric] take_bit_eq_mask)
  then show ?thesis by (simp only: is_misaligned_def take_bit_eq_mod dvd_eq_mod_eq_0)
qed

lemma and_not_mask_word: "x AND NOT (mask k) = push_bit k (drop_bit k x)" for x :: "'u :: len word"
  by (rule bit_word_eqI) (auto simp: bit_simps)

lemma unat_round_down:
  fixes x :: u64
  shows "unat (x AND NOT (mask k)) = unat x div 2 ^ k * 2 ^ k"
proof -
  have "unat x div 2 ^ k * 2 ^ k \<le> unat x" by simp
  moreover have "unat x < 2 ^ 64" using unsigned_less [of x, where 'a = nat] by simp
  ultimately have "unat x div 2 ^ k * 2 ^ k < 2 ^ 64" by (rule le_less_trans)
  have "unat (drop_bit k x) = drop_bit k (take_bit 64 (unat x))"
    using unsigned_drop_bit_eq [of k x, where 'a = nat] by simp
  also have "take_bit 64 (unat x) = unat x"
    using \<open>unat x < 2 ^ 64\<close> by (simp only: take_bit_nat_eq_self)
  finally have "unat (drop_bit k x) = unat x div 2 ^ k" by (simp only: drop_bit_eq_div)
  moreover have "unat (push_bit k (drop_bit k x)) = take_bit 64 (push_bit k (unat (drop_bit k x)))"
    using unsigned_push_bit_eq [of k "drop_bit k x", where 'a = nat] by simp
  ultimately show ?thesis
    using \<open>unat x div 2 ^ k * 2 ^ k < 2 ^ 64\<close>
    by (simp only: and_not_mask_word push_bit_eq_mult take_bit_nat_eq_self)
qed

lemma unat_mask_word64: "k < 64 \<Longrightarrow> unat (mask k :: u64) = 2 ^ k - 1"
proof -
  assume "k < 64"
  then have "mask k < (2 :: nat) ^ 64"
    by (simp only: mask_eq_exp_minus_1) (meson diff_less less_imp_diff_less one_less_numeral_iff
      power_strict_increasing semiring_norm(76) zero_less_one zero_less_power)
  moreover have "unat (mask k :: u64) = take_bit 64 (mask k)"
    using unsigned_of_nat [of "mask k", where 'b = 64 and 'a = nat] by (simp add: of_nat_mask_eq)
  ultimately show ?thesis by (simp only: take_bit_nat_eq_self mask_eq_exp_minus_1)
qed

lemma align_up_eq:
  assumes "k < 64" and "unat v + 2 ^ k \<le> 2 ^ 64"
  shows "unat (align_up v (2 ^ k)) = (unat v + 2 ^ k - 1) div 2 ^ k * 2 ^ k"
proof -
  have mask: "2 ^ k - 1 = (mask k :: u64)" by (simp add: mask_eq_exp_minus_1)
  have "unat (v + mask k) = unat v + (2 ^ k - 1)"
  proof -
    have m: "unat (mask k :: u64) = 2 ^ k - 1"
      using assms(1) by (simp add: unat_mask_word64)
    have "unat v + (2 ^ k - 1) < 2 ^ 64" using assms(2) by (simp add: less_eq_Suc_le)
    then show ?thesis by (simp add: unat_word_ariths m)
  qed
  then show ?thesis
    by (simp add: align_up_def add_diff_eq [symmetric] mask unat_round_down del: add_diff_eq)
qed

section \<open>Argument checks\<close>

definition nullptr :: nat where "nullptr = 0"

definition any_null :: "nat list \<Rightarrow> bool" where
  "any_null pointers = list_ex (\<lambda>p. p = nullptr) pointers"

definition check_pointers :: "nat list \<Rightarrow> kleidicv_error_t" where
  "check_pointers pointers =
     (if any_null pointers then KLEIDICV_ERROR_NULL_POINTER else KLEIDICV_OK)"

text \<open>Both specialisations: the alignment of the element type decides.\<close>

definition check_pointer_and_stride :: "nat \<Rightarrow> nat \<Rightarrow> nat \<Rightarrow> nat \<Rightarrow> kleidicv_error_t" where
  "check_pointer_and_stride align pointer stride height =
     (if align = 1 then
        (if pointer = nullptr then KLEIDICV_ERROR_NULL_POINTER else KLEIDICV_OK)
      else
        (if pointer = nullptr then KLEIDICV_ERROR_NULL_POINTER
         else if height > 1 \<and> is_misaligned align stride then KLEIDICV_ERROR_ALIGNMENT
         else KLEIDICV_OK))"

text \<open>The alignment check of \<^verbatim>\<open>MAKE_POINTER_CHECK_ALIGNMENT\<close>.\<close>

definition make_pointer_check_alignment :: "nat \<Rightarrow> nat \<Rightarrow> kleidicv_error_t" where
  "make_pointer_check_alignment align from =
     (if align > 1 \<and> is_misaligned align from then KLEIDICV_ERROR_ALIGNMENT else KLEIDICV_OK)"

text \<open>\<^verbatim>\<open>__builtin_mul_overflow\<close>: the wrapped product and whether it wrapped.\<close>

definition mul_overflow :: "nat \<Rightarrow> nat \<Rightarrow> bool \<times> nat" where
  "mul_overflow a b = (size_max < a * b, size_wrap (int a * int b))"

definition add_overflow :: "nat \<Rightarrow> nat \<Rightarrow> bool \<times> nat" where
  "add_overflow a b = (size_max < a + b, size_wrap (int a + int b))"

definition check_image_size :: "nat \<Rightarrow> nat \<Rightarrow> kleidicv_error_t" where
  "check_image_size width height =
     (case mul_overflow width height of (overflow, image_size) \<Rightarrow>
        (if overflow then KLEIDICV_ERROR_RANGE
         else if image_size > KLEIDICV_MAX_IMAGE_PIXELS then KLEIDICV_ERROR_RANGE
         else KLEIDICV_OK))"

definition check_rectangle_size :: "kleidicv_rectangle_t \<Rightarrow> kleidicv_error_t" where
  "check_rectangle_size rect = check_image_size (rect_width rect) (rect_height rect)"

text \<open>The checks of an operation run in order; the first failing one is returned.\<close>

fun checks :: "kleidicv_error_t list \<Rightarrow> kleidicv_error_t" where
  "checks [] = KLEIDICV_OK"
| "checks (e # es) = (if e = KLEIDICV_OK then checks es else e)"

lemma checks_OK: "checks es = KLEIDICV_OK \<longleftrightarrow> (\<forall>e \<in> set es. e = KLEIDICV_OK)"
  by (induction es) auto

lemmas check_defs [kcv_defs] = nullptr_def any_null_def check_pointers_def
  check_pointer_and_stride_def make_pointer_check_alignment_def mul_overflow_def add_overflow_def
  check_image_size_def check_rectangle_size_def is_misaligned_def

lemma check_pointer_and_stride_OK:
  "check_pointer_and_stride (2 ^ k) pointer stride height = KLEIDICV_OK \<longleftrightarrow>
     pointer \<noteq> nullptr \<and> (height \<le> 1 \<or> 2 ^ k dvd stride)"
proof (cases k)
  case 0
  then show ?thesis by (simp add: check_pointer_and_stride_def)
next
  case (Suc j)
  then have "(2 :: nat) ^ k \<noteq> 1" by simp
  then show ?thesis
    by (simp only: check_pointer_and_stride_def is_misaligned_dvd if_False) auto
qed

lemma check_image_size_OK:
  "check_image_size width height = KLEIDICV_OK \<longleftrightarrow> width * height \<le> KLEIDICV_MAX_IMAGE_PIXELS"
proof (cases "size_max < width * height")
  case True
  then show ?thesis
    by (simp add: check_image_size_def mul_overflow_def KLEIDICV_MAX_IMAGE_PIXELS_def size_max_def)
next
  case False
  then have "size_wrap (int width * int height) = width * height"
    using size_wrap_id [of "width * height"] by simp
  with False show ?thesis by (simp add: check_image_size_def mul_overflow_def)
qed

lemma check_image_size_RANGE:
  "check_image_size width height = (if width * height \<le> KLEIDICV_MAX_IMAGE_PIXELS
     then KLEIDICV_OK else KLEIDICV_ERROR_RANGE)"
  using check_image_size_OK [of width height]
  by (auto simp: check_image_size_def mul_overflow_def split: if_splits)

end
