(* ===== verification/Thread_Ops.thy ===== *)
theory Thread_Ops
  imports Thread_Batches Kcv_Utils Kcv_Memory
begin

text \<open>
  The threaded operations (\<^verbatim>\<open>kleidicv_thread/src/kleidicv_thread.cpp\<close>, from line 199
  on) that pass their image on row range by row range. As in the templates of the code the
  single-threaded operation is an argument; a typed pointer is an offset in elements of its type,
  strides are in bytes. Arguments that are only handed through to the backend are part of the
  function that is passed.
\<close>

unbundle bit_operations_syntax

section \<open>Element-wise operations on one and two sources\<close>

definition elem_offset :: "nat \<Rightarrow> nat \<Rightarrow> nat \<Rightarrow> nat" where
  "elem_offset row stride sizeof_T = row * stride div sizeof_T"

definition kleidicv_thread_unary_op_impl ::
    "nat \<Rightarrow> nat \<Rightarrow> (nat \<Rightarrow> nat \<Rightarrow> nat \<Rightarrow> nat \<Rightarrow> nat \<Rightarrow> nat \<Rightarrow> 's action) \<Rightarrow> 's parallel_fn
      \<Rightarrow> nat \<Rightarrow> nat \<Rightarrow> nat \<Rightarrow> nat \<Rightarrow> nat \<Rightarrow> nat \<Rightarrow> 's action" where
  "kleidicv_thread_unary_op_impl sizeof_S sizeof_D f mt src src_stride dst dst_stride width height =
     parallel_batches
       (\<lambda>begin stop. f (src + elem_offset begin src_stride sizeof_S) src_stride
          (dst + elem_offset begin dst_stride sizeof_D) dst_stride width (stop - begin))
       mt height 1"

definition kleidicv_thread_unary_op_with_sme_impl ::
    "nat \<Rightarrow> nat \<Rightarrow> (nat \<Rightarrow> nat \<Rightarrow> nat \<Rightarrow> nat \<Rightarrow> nat \<Rightarrow> nat \<Rightarrow> 's action)
      \<Rightarrow> (nat \<Rightarrow> nat \<Rightarrow> nat \<Rightarrow> nat \<Rightarrow> nat \<Rightarrow> nat \<Rightarrow> 's action)
      \<Rightarrow> bool \<Rightarrow> (SmcuTopology \<times> u32 list) option \<Rightarrow> (nat \<Rightarrow> nat \<Rightarrow> int) \<Rightarrow> (u32 list \<times> 's) parallel_fn
      \<Rightarrow> nat \<Rightarrow> nat \<Rightarrow> nat \<Rightarrow> nat \<Rightarrow> nat \<Rightarrow> nat \<Rightarrow> (u32 list \<times> 's) action" where
  "kleidicv_thread_unary_op_with_sme_impl sizeof_S sizeof_D cpu_function sme_function
     sme limiter cpu_of mt src src_stride dst dst_stride width height =
     (let make_callback = (\<lambda>function begin stop.
            function (src + elem_offset begin src_stride sizeof_S) src_stride
              (dst + elem_offset begin dst_stride sizeof_D) dst_stride width (stop - begin))
      in parallel_batches_with_sme sme limiter cpu_of (make_callback cpu_function)
           (make_callback sme_function) mt height 1)"

definition kleidicv_thread_binary_op_impl ::
    "nat \<Rightarrow> nat \<Rightarrow> (nat \<Rightarrow> nat \<Rightarrow> nat \<Rightarrow> nat \<Rightarrow> nat \<Rightarrow> nat \<Rightarrow> nat \<Rightarrow> nat \<Rightarrow> 's action) \<Rightarrow> 's parallel_fn
      \<Rightarrow> nat \<Rightarrow> nat \<Rightarrow> nat \<Rightarrow> nat \<Rightarrow> nat \<Rightarrow> nat \<Rightarrow> nat \<Rightarrow> nat \<Rightarrow> 's action" where
  "kleidicv_thread_binary_op_impl sizeof_S sizeof_D f mt
     src_a src_a_stride src_b src_b_stride dst dst_stride width height =
     parallel_batches
       (\<lambda>begin stop. f (src_a + elem_offset begin src_a_stride sizeof_S) src_a_stride
          (src_b + elem_offset begin src_b_stride sizeof_S) src_b_stride
          (dst + elem_offset begin dst_stride sizeof_D) dst_stride width (stop - begin))
       mt height 1"

text \<open>
  \<^verbatim>\<open>kleidicv_thread_scale_u8\<close>: the arguments are checked before the table is computed;
  \<open>scale_table\<close> is the operation on the precalculated table.
\<close>

definition kleidicv_thread_scale_u8 ::
    "(nat \<Rightarrow> nat \<Rightarrow> nat \<Rightarrow> nat \<Rightarrow> nat \<Rightarrow> nat \<Rightarrow> 's action) \<Rightarrow> 's parallel_fn
      \<Rightarrow> nat \<Rightarrow> nat \<Rightarrow> nat \<Rightarrow> nat \<Rightarrow> nat \<Rightarrow> nat \<Rightarrow> 's action" where
  "kleidicv_thread_scale_u8 scale_table mt src src_stride dst dst_stride width height s =
     (let err = checks [check_pointer_and_stride 1 src src_stride height,
                        check_pointer_and_stride 1 dst dst_stride height,
                        check_image_size width height]
      in if err \<noteq> KLEIDICV_OK then (err, s)
         else kleidicv_thread_unary_op_impl 1 1 scale_table mt src src_stride dst dst_stride
                width height s)"

section \<open>Operations with work items of their own\<close>

definition kleidicv_thread_transpose ::
    "(nat \<Rightarrow> nat \<Rightarrow> nat \<Rightarrow> nat \<Rightarrow> nat \<Rightarrow> nat \<Rightarrow> nat \<Rightarrow> 's action) \<Rightarrow> 's parallel_fn
      \<Rightarrow> nat \<Rightarrow> nat \<Rightarrow> nat \<Rightarrow> nat \<Rightarrow> nat \<Rightarrow> nat \<Rightarrow> nat \<Rightarrow> 's action" where
  "kleidicv_thread_transpose transpose_op mt src src_stride dst dst_stride src_width src_height
     pixel_size s =
     (if src = dst then
        (if src_width \<noteq> src_height then (KLEIDICV_ERROR_NOT_IMPLEMENTED, s)
         else transpose_op src src_stride dst dst_stride src_width src_height pixel_size s)
      else if pixel_size \<notin> {1, 2, 1 * 3, 2 * 3, 4, 8} then (KLEIDICV_ERROR_NOT_IMPLEMENTED, s)
      else
        parallel_batches
          (\<lambda>begin stop. transpose_op (src + begin * pixel_size) src_stride
             (dst + begin * dst_stride) dst_stride (stop - begin) src_height pixel_size)
          mt src_width 64 s)"

definition kleidicv_thread_rotate ::
    "bool \<Rightarrow> (nat \<Rightarrow> nat \<Rightarrow> nat \<Rightarrow> nat \<Rightarrow> nat \<Rightarrow> nat \<Rightarrow> int \<Rightarrow> nat \<Rightarrow> 's action) \<Rightarrow> 's parallel_fn
      \<Rightarrow> nat \<Rightarrow> nat \<Rightarrow> nat \<Rightarrow> nat \<Rightarrow> nat \<Rightarrow> nat \<Rightarrow> int \<Rightarrow> nat \<Rightarrow> 's action" where
  "kleidicv_thread_rotate rotate_is_implemented rotate_op mt src src_stride width height dst dst_stride
     angle pixel_size s =
     (if \<not> rotate_is_implemented then (KLEIDICV_ERROR_NOT_IMPLEMENTED, s)
      else
        parallel_batches
          (\<lambda>begin stop. let dst_column_offset = (if angle = 90 then begin else width - stop) in
             rotate_op (src + begin * pixel_size) src_stride (stop - begin) height
               (dst + dst_column_offset * dst_stride) dst_stride angle pixel_size)
          mt width 64 s)"

definition kleidicv_thread_flip ::
    "kleidicv_error_t \<Rightarrow> nat \<Rightarrow> (nat \<Rightarrow> nat \<Rightarrow> 's action) \<Rightarrow> 's parallel_fn \<Rightarrow> nat \<Rightarrow> nat \<Rightarrow> 's action" where
  "kleidicv_thread_flip validation work_item_count flip_work_items mt width height s =
     (if validation \<noteq> KLEIDICV_OK then (validation, s)
      else if width = 0 \<or> height = 0 then (KLEIDICV_OK, s)
      else if work_item_count = 0 then (KLEIDICV_OK, s)
      else parallel_batches flip_work_items mt work_item_count 1 s)"

text \<open>
  \<^verbatim>\<open>kleidicv_thread_add_padding_by_copy\<close>: the checks give an error or the
  destination height; \<open>process_stripe\<close> is \<open>None\<close> when the operation could not be
  created.
\<close>

definition kleidicv_thread_add_padding_by_copy ::
    "kleidicv_error_t + nat \<Rightarrow> (nat \<Rightarrow> nat \<Rightarrow> 's action) option \<Rightarrow> 's parallel_fn \<Rightarrow> 's action" where
  "kleidicv_thread_add_padding_by_copy check_result process_stripe mt s =
     (case check_result of
        Inl err \<Rightarrow> (err, s)
      | Inr dst_height \<Rightarrow>
          (case process_stripe of
             None \<Rightarrow> (KLEIDICV_ERROR_ALLOCATION, s)
           | Some stripe \<Rightarrow> parallel_batches stripe mt dst_height 4 s))"

section \<open>Colour conversions\<close>

definition kleidicv_thread_yuv_semiplanar_to_rgb_u8 ::
    "(nat \<Rightarrow> nat \<Rightarrow> nat \<Rightarrow> nat \<Rightarrow> nat \<Rightarrow> nat \<Rightarrow> nat \<Rightarrow> nat \<Rightarrow> 's action) \<Rightarrow> 's parallel_fn
      \<Rightarrow> nat \<Rightarrow> nat \<Rightarrow> nat \<Rightarrow> nat \<Rightarrow> nat \<Rightarrow> nat \<Rightarrow> nat \<Rightarrow> nat \<Rightarrow> 's action" where
  "kleidicv_thread_yuv_semiplanar_to_rgb_u8 convert mt src_y src_y_stride src_uv src_uv_stride
     dst dst_stride width height s =
     (if src_y = nullptr \<or> src_uv = nullptr \<or> dst = nullptr then (KLEIDICV_ERROR_NULL_POINTER, s)
      else
        parallel_batches
          (\<lambda>begin stop.
             let row_begin = begin * 2; row_end = min height (stop * 2); row_uv = begin in
             convert (src_y + row_begin * src_y_stride) src_y_stride
               (src_uv + row_uv * src_uv_stride) src_uv_stride
               (dst + row_begin * dst_stride) dst_stride width (row_end - row_begin))
          mt ((height + 1) div 2) 1 s)"

definition kleidicv_thread_yuv_to_rgb_u8 ::
    "(nat \<Rightarrow> nat \<Rightarrow> nat \<Rightarrow> nat \<Rightarrow> nat \<Rightarrow> nat \<Rightarrow> 's action)
      \<Rightarrow> (nat \<Rightarrow> nat \<Rightarrow> nat \<Rightarrow> nat \<Rightarrow> nat \<Rightarrow> nat \<Rightarrow> 's action)
      \<Rightarrow> (nat \<Rightarrow> nat \<Rightarrow> nat \<Rightarrow> nat \<Rightarrow> nat \<Rightarrow> nat \<Rightarrow> nat \<Rightarrow> nat \<Rightarrow> 's action)
      \<Rightarrow> (nat \<Rightarrow> nat \<Rightarrow> 's action) \<Rightarrow> 's parallel_fn
      \<Rightarrow> nat \<Rightarrow> nat \<Rightarrow> nat \<Rightarrow> nat \<Rightarrow> nat \<Rightarrow> nat \<Rightarrow> u32 \<Rightarrow> 's action" where
  "kleidicv_thread_yuv_to_rgb_u8 yuv444 yuv422 semiplanar yuv420p_stripe mt
     src src_stride dst dst_stride width height color_format s =
     (let base_format = color_format AND KLEIDICV_COLOR_CONVERSION_YUV_FMT_MASK in
      if base_format = KLEIDICV_COLOR_CONVERSION_FMT_YUV444 then
        kleidicv_thread_unary_op_impl 1 1 yuv444 mt src src_stride dst dst_stride width height s
      else if base_format = KLEIDICV_COLOR_CONVERSION_FMT_YUV422 then
        kleidicv_thread_unary_op_impl 1 1 yuv422 mt src src_stride dst dst_stride width height s
      else if base_format = KLEIDICV_COLOR_CONVERSION_FMT_YUV420SP then
        (if src = nullptr then (KLEIDICV_ERROR_NULL_POINTER, s)
         else let src_uv = src + src_stride * height in
           kleidicv_thread_yuv_semiplanar_to_rgb_u8 semiplanar mt src src_stride src_uv src_stride
             dst dst_stride width height s)
      else parallel_batches yuv420p_stripe mt ((height + 1) div 2) 1 s)"

definition kleidicv_thread_rgb_to_yuv_semiplanar_u8 ::
    "(nat \<Rightarrow> nat \<Rightarrow> 's action) \<Rightarrow> 's parallel_fn \<Rightarrow> nat \<Rightarrow> 's action" where
  "kleidicv_thread_rgb_to_yuv_semiplanar_u8 yuv420sp_stripe mt height =
     parallel_batches yuv420sp_stripe mt ((height + 1) div 2) 1"

text \<open>Every format other than 444 and 422 goes to the 420 planar stripes.\<close>

definition kleidicv_thread_rgb_to_yuv_u8 ::
    "(nat \<Rightarrow> nat \<Rightarrow> nat \<Rightarrow> nat \<Rightarrow> nat \<Rightarrow> nat \<Rightarrow> 's action)
      \<Rightarrow> (nat \<Rightarrow> nat \<Rightarrow> nat \<Rightarrow> nat \<Rightarrow> nat \<Rightarrow> nat \<Rightarrow> 's action)
      \<Rightarrow> (nat \<Rightarrow> nat \<Rightarrow> 's action) \<Rightarrow> 's parallel_fn
      \<Rightarrow> nat \<Rightarrow> nat \<Rightarrow> nat \<Rightarrow> nat \<Rightarrow> nat \<Rightarrow> nat \<Rightarrow> u32 \<Rightarrow> 's action" where
  "kleidicv_thread_rgb_to_yuv_u8 yuv444 yuv422 yuv420p_stripe mt
     src src_stride dst dst_stride width height color_format s =
     (let base_format = color_format AND KLEIDICV_COLOR_CONVERSION_YUV_FMT_MASK in
      if base_format = KLEIDICV_COLOR_CONVERSION_FMT_YUV444 then
        kleidicv_thread_unary_op_impl 1 1 yuv444 mt src src_stride dst dst_stride width height s
      else if base_format = KLEIDICV_COLOR_CONVERSION_FMT_YUV422 then
        kleidicv_thread_unary_op_impl 1 1 yuv422 mt src src_stride dst dst_stride width height s
      else parallel_batches yuv420p_stripe mt ((height + 1) div 2) 1 s)"

section \<open>Filters\<close>

text \<open>
  Every filter validates the whole image first, then distributes stripes of rows; the stripe
  functions have the captured image arguments applied.
\<close>

definition kleidicv_thread_gaussian_blur_u8 ::
    "kleidicv_error_t \<Rightarrow> 's range_callback \<Rightarrow> 's range_callback \<Rightarrow> 's range_callback
      \<Rightarrow> bool \<Rightarrow> (SmcuTopology \<times> u32 list) option \<Rightarrow> (nat \<Rightarrow> nat \<Rightarrow> int) \<Rightarrow> (u32 list \<times> 's) parallel_fn
      \<Rightarrow> nat \<Rightarrow> nat \<Rightarrow> (u32 list \<times> 's) action" where
  "kleidicv_thread_gaussian_blur_u8 validation fixed_stripe fixed_stripe_sme arbitrary_stripe
     sme limiter cpu_of mt kernel_width height s =
     (if validation \<noteq> KLEIDICV_OK then (validation, s)
      else if kernel_width \<le> 9 \<or> kernel_width = 15 \<or> kernel_width = 21 then
        parallel_batches_with_sme sme limiter cpu_of fixed_stripe fixed_stripe_sme mt height 1 s
      else parallel_batches_cpu_only arbitrary_stripe arbitrary_stripe mt height 1 s)"

definition kleidicv_thread_separable_filter_2d ::
    "kleidicv_error_t \<Rightarrow> 's range_callback \<Rightarrow> 's range_callback
      \<Rightarrow> bool \<Rightarrow> (SmcuTopology \<times> u32 list) option \<Rightarrow> (nat \<Rightarrow> nat \<Rightarrow> int) \<Rightarrow> (u32 list \<times> 's) parallel_fn
      \<Rightarrow> nat \<Rightarrow> (u32 list \<times> 's) action" where
  "kleidicv_thread_separable_filter_2d validation stripe stripe_sme sme limiter cpu_of mt height s =
     (if validation \<noteq> KLEIDICV_OK then (validation, s)
      else parallel_batches_with_sme sme limiter cpu_of stripe stripe_sme mt height 1 s)"

definition kleidicv_thread_blur_and_downsample_u8 ::
    "kleidicv_error_t \<Rightarrow> 's range_callback \<Rightarrow> 's parallel_fn \<Rightarrow> nat \<Rightarrow> 's action" where
  "kleidicv_thread_blur_and_downsample_u8 validation stripe mt src_height s =
     (if validation \<noteq> KLEIDICV_OK then (validation, s)
      else parallel_batches stripe mt src_height 1 s)"

text \<open>Horizontal and vertical Sobel have the same body with their own stripe functions.\<close>

definition kleidicv_thread_sobel_3x3 ::
    "kleidicv_error_t \<Rightarrow> 's range_callback \<Rightarrow> 's range_callback
      \<Rightarrow> bool \<Rightarrow> (SmcuTopology \<times> u32 list) option \<Rightarrow> (nat \<Rightarrow> nat \<Rightarrow> int) \<Rightarrow> (u32 list \<times> 's) parallel_fn
      \<Rightarrow> nat \<Rightarrow> (u32 list \<times> 's) action" where
  "kleidicv_thread_sobel_3x3 validation stripe stripe_sme sme limiter cpu_of mt height s =
     (if validation \<noteq> KLEIDICV_OK then (validation, s)
      else parallel_batches_with_sme sme limiter cpu_of stripe stripe_sme mt height 1 s)"

definition kleidicv_thread_median_blur_u8 ::
    "kleidicv_error_t \<Rightarrow> 's range_callback \<Rightarrow> 's range_callback \<Rightarrow> 's range_callback \<Rightarrow> 's range_callback
      \<Rightarrow> bool \<Rightarrow> (SmcuTopology \<times> u32 list) option \<Rightarrow> (nat \<Rightarrow> nat \<Rightarrow> int) \<Rightarrow> (u32 list \<times> 's) parallel_fn
      \<Rightarrow> nat \<Rightarrow> nat \<Rightarrow> (u32 list \<times> 's) action" where
  "kleidicv_thread_median_blur_u8 validation network_stripe network_stripe_sme small_hist_stripe
     large_hist_stripe sme limiter cpu_of mt kernel_width height s =
     (if validation \<noteq> KLEIDICV_OK then (validation, s)
      else if kernel_width \<le> 7 then
        parallel_batches_with_sme sme limiter cpu_of network_stripe network_stripe_sme mt height 1 s
      else if kernel_width > 7 \<and> kernel_width \<le> 15 then
        parallel_batches_cpu_only small_hist_stripe small_hist_stripe mt height 1 s
      else parallel_batches_cpu_only large_hist_stripe large_hist_stripe mt height 1 s)"

text \<open>The other element types of the median filter only have the sorting network.\<close>

definition kleidicv_thread_median_blur_network ::
    "kleidicv_error_t \<Rightarrow> 's range_callback \<Rightarrow> 's range_callback
      \<Rightarrow> bool \<Rightarrow> (SmcuTopology \<times> u32 list) option \<Rightarrow> (nat \<Rightarrow> nat \<Rightarrow> int) \<Rightarrow> (u32 list \<times> 's) parallel_fn
      \<Rightarrow> nat \<Rightarrow> (u32 list \<times> 's) action" where
  "kleidicv_thread_median_blur_network validation stripe stripe_sme sme limiter cpu_of mt height s =
     (if validation \<noteq> KLEIDICV_OK then (validation, s)
      else parallel_batches_with_sme sme limiter cpu_of stripe stripe_sme mt height 1 s)"

text \<open>
  The height is an unsigned subtraction: for an image of less than two rows, were it to pass
  validation, the row count would wrap around.
\<close>

definition kleidicv_thread_scharr_interleaved_s16_u8 ::
    "kleidicv_error_t \<Rightarrow> 's range_callback \<Rightarrow> 's parallel_fn \<Rightarrow> nat \<Rightarrow> 's action" where
  "kleidicv_thread_scharr_interleaved_s16_u8 validation stripe mt src_height s =
     (if validation \<noteq> KLEIDICV_OK then (validation, s)
      else parallel_batches stripe mt (size_wrap (int src_height - 2)) 1 s)"

section \<open>Resizing and remapping\<close>

text \<open>
  Fixed scales: each task is the gap between two source rows; a batch of gaps reads one more row.
  \<open>src_height - 1\<close> is an unsigned subtraction.
\<close>

definition resize_row_count :: "nat \<Rightarrow> nat" where
  "resize_row_count src_height = max 1 (size_wrap (int src_height - 1))"

definition overlapping_stripe :: "nat \<Rightarrow> 's range_callback \<Rightarrow> 's range_callback" where
  "overlapping_stripe src_height stripe_function y_begin y_end =
     stripe_function y_begin (min src_height (y_end + 1))"

definition kleidicv_thread_resize_linear_fixed_scale_u8 ::
    "'s range_callback \<Rightarrow> 's range_callback
      \<Rightarrow> bool \<Rightarrow> (SmcuTopology \<times> u32 list) option \<Rightarrow> (nat \<Rightarrow> nat \<Rightarrow> int) \<Rightarrow> (u32 list \<times> 's) parallel_fn
      \<Rightarrow> nat \<Rightarrow> (u32 list \<times> 's) action" where
  "kleidicv_thread_resize_linear_fixed_scale_u8 stripe_function sme_stripe_function
     sme limiter cpu_of mt src_height =
     parallel_batches_with_sme sme limiter cpu_of
       (overlapping_stripe src_height stripe_function)
       (overlapping_stripe src_height sme_stripe_function)
       mt (resize_row_count src_height) 1"

record resize_kind =
  rk_implemented :: bool
  rk_is_2x2 :: bool
  rk_is_4x4 :: bool

definition kleidicv_thread_resize_linear_u8 ::
    "resize_kind \<Rightarrow> 's range_callback \<times> 's range_callback \<Rightarrow> 's range_callback \<times> 's range_callback
      \<Rightarrow> 's range_callback \<times> 's range_callback
      \<Rightarrow> bool \<Rightarrow> (SmcuTopology \<times> u32 list) option \<Rightarrow> (nat \<Rightarrow> nat \<Rightarrow> int) \<Rightarrow> (u32 list \<times> 's) parallel_fn
      \<Rightarrow> nat \<Rightarrow> nat \<Rightarrow> nat \<Rightarrow> nat \<Rightarrow> nat \<Rightarrow> nat \<Rightarrow> nat \<Rightarrow> (u32 list \<times> 's) action" where
  "kleidicv_thread_resize_linear_u8 kind stripes_2x2 stripes_4x4 generic_stripes
     sme limiter cpu_of mt src src_stride src_width src_height dst dst_stride dst_height s =
     (if \<not> rk_implemented kind then (KLEIDICV_ERROR_NOT_IMPLEMENTED, s)
      else
        let err = checks [check_pointer_and_stride 1 src src_stride src_height,
                          check_pointer_and_stride 1 dst dst_stride dst_height] in
        if err \<noteq> KLEIDICV_OK then (err, s)
        else if src_width = 0 \<or> src_height = 0 then (KLEIDICV_OK, s)
        else if rk_is_2x2 kind then
          kleidicv_thread_resize_linear_fixed_scale_u8 (fst stripes_2x2) (snd stripes_2x2)
            sme limiter cpu_of mt src_height s
        else if rk_is_4x4 kind then
          kleidicv_thread_resize_linear_fixed_scale_u8 (fst stripes_4x4) (snd stripes_4x4)
            sme limiter cpu_of mt src_height s
        else
          parallel_batches_with_sme sme limiter cpu_of (fst generic_stripes) (snd generic_stripes)
            mt dst_height 1 s)"

definition kleidicv_thread_resize_linear_f32 ::
    "bool \<Rightarrow> 's range_callback \<Rightarrow> 's range_callback
      \<Rightarrow> bool \<Rightarrow> (SmcuTopology \<times> u32 list) option \<Rightarrow> (nat \<Rightarrow> nat \<Rightarrow> int) \<Rightarrow> (u32 list \<times> 's) parallel_fn
      \<Rightarrow> nat \<Rightarrow> (u32 list \<times> 's) action" where
  "kleidicv_thread_resize_linear_f32 implemented stripe stripe_sme sme limiter cpu_of mt src_height s =
     (if \<not> implemented then (KLEIDICV_ERROR_NOT_IMPLEMENTED, s)
      else
        parallel_batches_with_sme sme limiter cpu_of
          (overlapping_stripe src_height stripe) (overlapping_stripe src_height stripe_sme)
          mt (resize_row_count src_height) 1 s)"

text \<open>
  Remapping reads anywhere in the source and takes its coordinates from one map
  (\<open>s16\<close>) or two (\<open>s16point5\<close>, \<open>f32\<close>) that advance with the rows.
\<close>

definition kleidicv_thread_remap_s16 ::
    "nat \<Rightarrow> bool \<Rightarrow> (nat \<Rightarrow> nat \<Rightarrow> nat \<Rightarrow> nat \<Rightarrow> nat \<Rightarrow> nat \<Rightarrow> 's action) \<Rightarrow> 's parallel_fn
      \<Rightarrow> nat \<Rightarrow> nat \<Rightarrow> nat \<Rightarrow> nat \<Rightarrow> nat \<Rightarrow> nat \<Rightarrow> 's action" where
  "kleidicv_thread_remap_s16 sizeof_T implemented remap mt dst dst_stride dst_width dst_height
     mapxy mapxy_stride s =
     (if \<not> implemented then (KLEIDICV_ERROR_NOT_IMPLEMENTED, s)
      else
        parallel_batches
          (\<lambda>begin stop. remap (dst + elem_offset begin dst_stride sizeof_T) dst_stride dst_width
             (stop - begin) (mapxy + elem_offset begin mapxy_stride 2) mapxy_stride)
          mt dst_height 1 s)"

definition kleidicv_thread_remap_two_maps ::
    "nat \<Rightarrow> nat \<Rightarrow> nat \<Rightarrow> bool \<Rightarrow> (nat \<Rightarrow> nat \<Rightarrow> nat \<Rightarrow> nat \<Rightarrow> nat \<Rightarrow> nat \<Rightarrow> nat \<Rightarrow> nat \<Rightarrow> 's action)
      \<Rightarrow> 's parallel_fn \<Rightarrow> nat \<Rightarrow> nat \<Rightarrow> nat \<Rightarrow> nat \<Rightarrow> nat \<Rightarrow> nat \<Rightarrow> nat \<Rightarrow> nat \<Rightarrow> 's action" where
  "kleidicv_thread_remap_two_maps sizeof_T sizeof_A sizeof_B implemented remap mt
     dst dst_stride dst_width dst_height map_a map_a_stride map_b map_b_stride s =
     (if \<not> implemented then (KLEIDICV_ERROR_NOT_IMPLEMENTED, s)
      else
        parallel_batches
          (\<lambda>begin stop. remap (dst + elem_offset begin dst_stride sizeof_T) dst_stride dst_width
             (stop - begin) (map_a + elem_offset begin map_a_stride sizeof_A) map_a_stride
             (map_b + elem_offset begin map_b_stride sizeof_B) map_b_stride)
          mt dst_height 1 s)"

definition kleidicv_thread_remap_s16point5 where
  "kleidicv_thread_remap_s16point5 sizeof_T = kleidicv_thread_remap_two_maps sizeof_T 2 2"

definition kleidicv_thread_remap_f32 where
  "kleidicv_thread_remap_f32 sizeof_T = kleidicv_thread_remap_two_maps sizeof_T 4 4"

definition kleidicv_thread_warp_perspective_u8 ::
    "bool \<Rightarrow> 's range_callback \<Rightarrow> 's parallel_fn \<Rightarrow> nat \<Rightarrow> 's action" where
  "kleidicv_thread_warp_perspective_u8 implemented stripe mt dst_height s =
     (if \<not> implemented then (KLEIDICV_ERROR_NOT_IMPLEMENTED, s)
      else parallel_batches stripe mt dst_height 1 s)"

section \<open>A threaded call is the single call\<close>

lemma fold_from: "b \<le> e \<Longrightarrow> fold (\<lambda>r. g (b + r)) [0..<e - b] s = fold g [b..<e] s"
proof -
  have "fold (\<lambda>r. g (b + r)) [0..<n] s = fold g [b..<b + n] s" for n
    by (induction n) simp_all
  from this [of "e - b"] show "b \<le> e \<Longrightarrow> ?thesis" by simp
qed

lemma elem_offset_add:
  "sz dvd stride \<Longrightarrow> elem_offset (b + r) stride sz = elem_offset b stride sz + elem_offset r stride sz"
  by (simp add: elem_offset_def add_mult_distrib div_plus_div_distrib_dvd_left)

lemma elem_offset_zero [simp]: "elem_offset 0 stride sz = 0"
  by (simp add: elem_offset_def)

text \<open>A callback that hands the rows of the whole image on is a stripe of these rows.\<close>

lemma shifted_row_stripes:
  assumes "\<And>b h s. cb b (b + h) s = (KLEIDICV_OK, fold (\<lambda>r. g (b + r)) [0..<h] s)"
  shows "row_stripes g n cb"
  unfolding row_stripes_def
proof (intro allI impI)
  fix b e s
  assume "b \<le> e" "e \<le> n"
  with assms [of b "e - b" s] fold_from [of b e g s] show "cb b e s = (KLEIDICV_OK, fold g [b..<e] s)"
    by simp
qed

text \<open>
  The contract of an element-wise operation: row by row, each source row at its offset into the
  destination row at its offset.
\<close>

definition unary_rows ::
    "nat \<Rightarrow> nat \<Rightarrow> (nat \<Rightarrow> nat \<Rightarrow> nat \<Rightarrow> 's \<Rightarrow> 's) \<Rightarrow> nat \<Rightarrow> nat \<Rightarrow> nat
      \<Rightarrow> (nat \<Rightarrow> nat \<Rightarrow> nat \<Rightarrow> nat \<Rightarrow> nat \<Rightarrow> nat \<Rightarrow> 's action) \<Rightarrow> bool" where
  "unary_rows sizeof_S sizeof_D rowf src_stride dst_stride width f \<longleftrightarrow>
     (\<forall>src dst h s. f src src_stride dst dst_stride width h s =
        (KLEIDICV_OK, fold (\<lambda>r. rowf (src + elem_offset r src_stride sizeof_S)
                                 (dst + elem_offset r dst_stride sizeof_D) width) [0..<h] s))"

lemma unary_row_stripes:
  assumes "unary_rows A B rowf ss ds w f" and "A dvd ss" and "B dvd ds"
  shows "row_stripes (\<lambda>r. rowf (src + elem_offset r ss A) (dst + elem_offset r ds B) w) n
    (\<lambda>begin stop. f (src + elem_offset begin ss A) ss (dst + elem_offset begin ds B) ds w (stop - begin))"
  using assms by (intro shifted_row_stripes) (simp add: unary_rows_def elem_offset_add add.assoc)

text \<open>
  A threaded element-wise operation does what the single-threaded one does on the whole image,
  when the strides are multiples of the element sizes and the rows do not interfere.
\<close>

theorem thread_unary_op_one_call:
  assumes "scheduler mt max_tasks" and "max 1 height \<le> max_tasks"
    and "unary_rows sizeof_S sizeof_D rowf src_stride dst_stride width f"
    and "sizeof_S dvd src_stride" and "sizeof_D dvd dst_stride"
    and "row_operation (\<lambda>r. rowf (src + elem_offset r src_stride sizeof_S)
      (dst + elem_offset r dst_stride sizeof_D) width) height"
  shows "kleidicv_thread_unary_op_impl sizeof_S sizeof_D f mt src src_stride dst dst_stride width height s
    = f src src_stride dst dst_stride width height s"
proof -
  have "max 1 (height div 1) \<le> max_tasks" using assms(2) by simp
  from parallel_rows [OF assms(1,6) unary_row_stripes [OF assms(3-5)] zero_less_one this]
  show ?thesis
    using assms(3) by (simp add: kleidicv_thread_unary_op_impl_def unary_rows_def)
qed

definition copy_rows :: "nat \<Rightarrow> nat \<Rightarrow> nat \<Rightarrow> nat \<Rightarrow> nat \<Rightarrow> nat \<Rightarrow> mem action" where
  "copy_rows src ss dst ds w h m =
     (KLEIDICV_OK, fold (\<lambda>r. memcpy (dst + elem_offset r ds 1) (src + elem_offset r ss 1) w) [0..<h] m)"

lemma copy_rows_row_operation:
  assumes "w \<le> ds" and "w \<le> ss" and "src + h * ss \<le> dst"
  shows "row_operation (\<lambda>r. memcpy (dst + elem_offset r ds 1) (src + elem_offset r ss 1) w) h"
proof (rule footprint_rows [OF footprint_memcpy])
  fix i j
  assume ij: "i < h" "j < h" "i \<noteq> j"
  show "{dst + elem_offset i ds 1..<dst + elem_offset i ds 1 + w}
      \<inter> {dst + elem_offset j ds 1..<dst + elem_offset j ds 1 + w} = {}"
    using rows_disjoint [OF assms(1) ij(3), of dst] by (simp add: elem_offset_def)
  have "src + j * ss + w \<le> dst" using row_in_image [OF ij(2) assms(2), of src] assms(3) by linarith
  then show "{dst + elem_offset i ds 1..<dst + elem_offset i ds 1 + w}
      \<inter> {src + elem_offset j ss 1..<src + elem_offset j ss 1 + w} = {}"
    by (auto simp: elem_offset_def)
qed

theorem thread_unary_op_one_call_witness:
  "kleidicv_thread_unary_op_impl 1 1 copy_rows (example_parallel 2) 100 4 200 8 3 5 (\<lambda>a. of_nat a)
    = copy_rows 100 4 200 8 3 5 (\<lambda>a. of_nat a)"
  using thread_unary_op_one_call [OF two_workers, of 5 1 1 "\<lambda>s d. memcpy d s" 4 8 3 copy_rows 100 200]
    copy_rows_row_operation [of 3 8 4 100 5 200]
  by (simp add: unary_rows_def copy_rows_def)

definition binary_rows ::
    "nat \<Rightarrow> nat \<Rightarrow> (nat \<Rightarrow> nat \<Rightarrow> nat \<Rightarrow> nat \<Rightarrow> 's \<Rightarrow> 's) \<Rightarrow> nat \<Rightarrow> nat \<Rightarrow> nat \<Rightarrow> nat
      \<Rightarrow> (nat \<Rightarrow> nat \<Rightarrow> nat \<Rightarrow> nat \<Rightarrow> nat \<Rightarrow> nat \<Rightarrow> nat \<Rightarrow> nat \<Rightarrow> 's action) \<Rightarrow> bool" where
  "binary_rows sizeof_S sizeof_D rowf a_stride b_stride dst_stride width f \<longleftrightarrow>
     (\<forall>a b dst h s. f a a_stride b b_stride dst dst_stride width h s =
        (KLEIDICV_OK, fold (\<lambda>r. rowf (a + elem_offset r a_stride sizeof_S)
                                 (b + elem_offset r b_stride sizeof_S)
                                 (dst + elem_offset r dst_stride sizeof_D) width) [0..<h] s))"

lemma binary_row_stripes:
  assumes "binary_rows A B rowf sa sb ds w f" and "A dvd sa" and "A dvd sb" and "B dvd ds"
  shows "row_stripes (\<lambda>r. rowf (a + elem_offset r sa A) (b + elem_offset r sb A)
      (dst + elem_offset r ds B) w) n
    (\<lambda>begin stop. f (a + elem_offset begin sa A) sa (b + elem_offset begin sb A) sb
      (dst + elem_offset begin ds B) ds w (stop - begin))"
  using assms by (intro shifted_row_stripes) (simp add: binary_rows_def elem_offset_add add.assoc)

text \<open>
  The same for two sources (sums, differences, comparisons): every row of the result comes
  from the rows of the same number of both sources.
\<close>

theorem thread_binary_op_one_call:
  assumes "scheduler mt max_tasks" and "max 1 height \<le> max_tasks"
    and "binary_rows sizeof_S sizeof_D rowf a_stride b_stride dst_stride width f"
    and "sizeof_S dvd a_stride" and "sizeof_S dvd b_stride" and "sizeof_D dvd dst_stride"
    and "row_operation (\<lambda>r. rowf (a + elem_offset r a_stride sizeof_S)
      (b + elem_offset r b_stride sizeof_S) (dst + elem_offset r dst_stride sizeof_D) width) height"
  shows "kleidicv_thread_binary_op_impl sizeof_S sizeof_D f mt a a_stride b b_stride dst dst_stride
      width height s = f a a_stride b b_stride dst dst_stride width height s"
proof -
  have "max 1 (height div 1) \<le> max_tasks" using assms(2) by simp
  from parallel_rows [OF assms(1,7) binary_row_stripes [OF assms(3-6)] zero_less_one this]
  show ?thesis
    using assms(3) by (simp add: kleidicv_thread_binary_op_impl_def binary_rows_def)
qed

definition or_bytes :: "nat \<Rightarrow> nat \<Rightarrow> nat \<Rightarrow> nat \<Rightarrow> mem \<Rightarrow> mem" where
  "or_bytes a b dst n m =
     (\<lambda>x. if dst \<le> x \<and> x < dst + n then m (a + (x - dst)) OR m (b + (x - dst)) else m x)"

definition or_rows :: "nat \<Rightarrow> nat \<Rightarrow> nat \<Rightarrow> nat \<Rightarrow> nat \<Rightarrow> nat \<Rightarrow> nat \<Rightarrow> nat \<Rightarrow> mem action" where
  "or_rows a sa b sb dst ds w h m =
     (KLEIDICV_OK, fold (\<lambda>r. or_bytes (a + elem_offset r sa 1) (b + elem_offset r sb 1)
        (dst + elem_offset r ds 1) w) [0..<h] m)"

lemma footprint_or_bytes:
  "footprint {dst..<dst + n} ({a..<a + n} \<union> {b..<b + n}) (or_bytes a b dst n)"
proof -
  have "p + (x - dst) \<in> {p..<p + n}" if "dst \<le> x" "x < dst + n" for p x
    using that by auto
  then show ?thesis by (auto simp: footprint_def or_bytes_def)
qed

lemma or_rows_row_operation:
  "row_operation (\<lambda>r. or_bytes (0 + elem_offset r 4 1) (20 + elem_offset r 4 1)
     (40 + elem_offset r 4 1) 4) 3"
proof (rule footprint_rows [OF footprint_or_bytes])
  fix i j :: nat
  assume ij: "i < 3" "j < 3" "i \<noteq> j"
  show "{40 + elem_offset i 4 1..<40 + elem_offset i 4 1 + 4}
      \<inter> {40 + elem_offset j 4 1..<40 + elem_offset j 4 1 + 4} = {}"
    using rows_disjoint [of 4 4 i j 40] ij by (simp add: elem_offset_def)
  show "{40 + elem_offset i 4 1..<40 + elem_offset i 4 1 + 4}
      \<inter> ({0 + elem_offset j 4 1..<0 + elem_offset j 4 1 + 4}
         \<union> {20 + elem_offset j 4 1..<20 + elem_offset j 4 1 + 4}) = {}"
    using ij by (auto simp: elem_offset_def)
qed

theorem thread_binary_op_one_call_witness:
  "kleidicv_thread_binary_op_impl 1 1 or_rows (example_parallel 2) 0 4 20 4 40 4 4 3 (\<lambda>a. of_nat a)
    = or_rows 0 4 20 4 40 4 4 3 (\<lambda>a. of_nat a)"
  using thread_binary_op_one_call [OF two_workers, of 3 1 1 or_bytes 4 4 4 4 or_rows 0 20 40]
    or_rows_row_operation
  by (simp add: binary_rows_def or_rows_def)

section \<open>Columns: transposition and rotation\<close>

text \<open>
  The contract of a rotation by 90 or 270 degrees (or of a transposition): source columns become
  destination rows, in order or, for another angle than 90, in reverse order.
\<close>

definition rotate_columns ::
    "(nat \<Rightarrow> nat \<Rightarrow> 's \<Rightarrow> 's) \<Rightarrow> nat \<Rightarrow> nat \<Rightarrow> nat \<Rightarrow> int \<Rightarrow> nat
      \<Rightarrow> (nat \<Rightarrow> nat \<Rightarrow> nat \<Rightarrow> nat \<Rightarrow> nat \<Rightarrow> nat \<Rightarrow> int \<Rightarrow> nat \<Rightarrow> 's action) \<Rightarrow> bool" where
  "rotate_columns colf src_stride dst_stride height angle pixel_size f \<longleftrightarrow>
     (\<forall>src dst w s. f src src_stride w height dst dst_stride angle pixel_size s =
        (KLEIDICV_OK,
         fold (\<lambda>c. colf (src + c * pixel_size)
                   (dst + (if angle = 90 then c else w - 1 - c) * dst_stride)) [0..<w] s))"

text \<open>
  Threaded rotation: although a batch of columns other than the first starts in the middle of
  the image and, turning by 270 degrees, ends up at the other end of it, the result is that of the
  single rotation of the whole image.
\<close>

theorem thread_rotate_one_call:
  assumes "scheduler mt max_tasks" and "max 1 (width div 64) \<le> max_tasks"
    and f: "rotate_columns colf src_stride dst_stride height angle pixel_size f"
    and "row_operation (\<lambda>c. colf (src + c * pixel_size)
      (dst + (if angle = 90 then c else width - 1 - c) * dst_stride)) width"
  shows "kleidicv_thread_rotate True f mt src src_stride width height dst dst_stride angle pixel_size s
    = f src src_stride width height dst dst_stride angle pixel_size s"
proof -
  let ?g = "\<lambda>c. colf (src + c * pixel_size) (dst + (if angle = 90 then c else width - 1 - c) * dst_stride)"
  have stripes: "row_stripes ?g width (\<lambda>begin stop.
      let dst_column_offset = (if angle = 90 then begin else width - stop) in
      f (src + begin * pixel_size) src_stride (stop - begin) height
        (dst + dst_column_offset * dst_stride) dst_stride angle pixel_size)"
    unfolding row_stripes_def
  proof (intro allI impI)
    fix b e s
    assume be: "b \<le> e" "e \<le> width"
    have col: "colf (src + b * pixel_size + c * pixel_size)
        (dst + (if angle = 90 then b else width - e) * dst_stride
           + (if angle = 90 then c else e - b - 1 - c) * dst_stride) = ?g (b + c)"
      if "c < e - b" for c
    proof -
      have "width - e + (e - b - 1 - c) = width - 1 - (b + c)" using be that by linarith
      then have "(width - e) * dst_stride + (e - b - 1 - c) * dst_stride = (width - 1 - (b + c)) * dst_stride"
        by (metis add_mult_distrib)
      then show ?thesis by (simp add: add_mult_distrib add.assoc)
    qed
    have "fold (\<lambda>c. colf (src + b * pixel_size + c * pixel_size)
        (dst + (if angle = 90 then b else width - e) * dst_stride
           + (if angle = 90 then c else e - b - 1 - c) * dst_stride)) [0..<e - b] s
        = fold (\<lambda>c. ?g (b + c)) [0..<e - b] s"
      by (rule fold_cong) (simp_all add: col)
    also have "\<dots> = fold ?g [b..<e] s" by (rule fold_from [OF be(1)])
    finally show "(let dst_column_offset = (if angle = 90 then b else width - e) in
        f (src + b * pixel_size) src_stride (e - b) height
          (dst + dst_column_offset * dst_stride) dst_stride angle pixel_size) s
      = (KLEIDICV_OK, fold ?g [b..<e] s)"
      using f by (simp add: rotate_columns_def)
  qed
  from parallel_rows [OF assms(1,4) this zero_less_numeral assms(2)] f show ?thesis
    by (simp add: kleidicv_thread_rotate_def rotate_columns_def)
qed

definition column_to_row :: "nat \<Rightarrow> nat \<Rightarrow> nat \<Rightarrow> nat \<Rightarrow> mem \<Rightarrow> mem" where
  "column_to_row h ss src dst m =
     (\<lambda>x. if dst \<le> x \<and> x < dst + h then m (src + (x - dst) * ss) else m x)"

definition rotate_bytes ::
    "nat \<Rightarrow> nat \<Rightarrow> nat \<Rightarrow> nat \<Rightarrow> nat \<Rightarrow> nat \<Rightarrow> int \<Rightarrow> nat \<Rightarrow> mem action" where
  "rotate_bytes src ss w h dst ds angle ps m =
     (KLEIDICV_OK, fold (\<lambda>c. column_to_row h ss (src + c * ps)
        (dst + (if angle = 90 then c else w - 1 - c) * ds)) [0..<w] m)"

lemma footprint_column_to_row:
  "footprint {dst..<dst + h} {src + i * ss | i. i < h} (column_to_row h ss src dst)"
proof -
  have "src + (x - dst) * ss \<in> {src + i * ss | i. i < h}" if "dst \<le> x" "x < dst + h" for x
    using that by (intro CollectI exI [of _ "x - dst"]) auto
  then show ?thesis by (auto simp: footprint_def column_to_row_def)
qed

lemma rotate_bytes_row_operation:
  "row_operation (\<lambda>c. column_to_row 2 200 (0 + c * 1) (1000 + (if (270 :: int) = 90 then c else 130 - 1 - c) * 2)) 130"
proof (rule footprint_rows [OF footprint_column_to_row])
  fix i j :: nat
  assume ij: "i < 130" "j < 130" "i \<noteq> j"
  let ?d = "\<lambda>c. 1000 + (if (270 :: int) = 90 then c else 130 - 1 - c) * 2"
  show "{?d i..<?d i + 2} \<inter> {?d j..<?d j + 2} = {}"
    using rows_disjoint [of 2 2 "129 - i" "129 - j" 1000] ij by simp
  show "{?d i..<?d i + 2} \<inter> {0 + j * 1 + k * 200 | k. k < 2} = {}"
    using ij by auto
qed

theorem thread_rotate_one_call_witness:
  "kleidicv_thread_rotate True rotate_bytes (example_parallel 2) 0 200 130 2 1000 2 270 1 (\<lambda>a. of_nat a)
    = rotate_bytes 0 200 130 2 1000 2 270 1 (\<lambda>a. of_nat a)"
  using thread_rotate_one_call [OF two_workers, of 130 "column_to_row 2 200" 200 2 2 270 1 rotate_bytes 0 1000]
    rotate_bytes_row_operation
  by (simp add: rotate_columns_def rotate_bytes_def)

section \<open>Half-height chroma\<close>

text \<open>
  The contract of the conversion from semi-planar YUV on one image: pairs of rows share one chroma
  row, the last pair of an odd height has one row, and the conversion of a run of pairs, which is the
  call on the addresses and the height of these rows, succeeds and handles them in order.
\<close>

definition row_pairs ::
    "(nat \<Rightarrow> 's \<Rightarrow> 's) \<Rightarrow> (nat \<Rightarrow> nat \<Rightarrow> nat \<Rightarrow> nat \<Rightarrow> nat \<Rightarrow> nat \<Rightarrow> nat \<Rightarrow> nat \<Rightarrow> 's action)
      \<Rightarrow> nat \<Rightarrow> nat \<Rightarrow> nat \<Rightarrow> nat \<Rightarrow> nat \<Rightarrow> nat \<Rightarrow> nat \<Rightarrow> nat \<Rightarrow> bool" where
  "row_pairs pair f src_y y_stride src_uv uv_stride dst dst_stride width height \<longleftrightarrow>
     (\<forall>b e s. b \<le> e \<and> e \<le> (height + 1) div 2 \<longrightarrow>
        f (src_y + b * 2 * y_stride) y_stride (src_uv + b * uv_stride) uv_stride
          (dst + b * 2 * dst_stride) dst_stride width (min height (e * 2) - b * 2) s
        = (KLEIDICV_OK, fold pair [b..<e] s))"

text \<open>
  Tasks are chroma rows, so that no batch splits a pair of luma rows, and an odd last row is clipped.
\<close>

lemma thread_yuv_semiplanar_pairs:
  assumes "scheduler mt max_tasks" and "max 1 ((height + 1) div 2) \<le> max_tasks"
    and pairs: "row_pairs pair f src_y y_stride src_uv uv_stride dst dst_stride width height"
    and "src_y \<noteq> nullptr" "src_uv \<noteq> nullptr" "dst \<noteq> nullptr"
    and "row_operation pair ((height + 1) div 2)"
  shows "kleidicv_thread_yuv_semiplanar_to_rgb_u8 f mt src_y y_stride src_uv uv_stride dst dst_stride
      width height s = f src_y y_stride src_uv uv_stride dst dst_stride width height s"
proof -
  let ?cb = "\<lambda>begin stop. let row_begin = begin * 2; row_end = min height (stop * 2); row_uv = begin in
      f (src_y + row_begin * y_stride) y_stride (src_uv + row_uv * uv_stride) uv_stride
        (dst + row_begin * dst_stride) dst_stride width (row_end - row_begin)"
  have "row_stripes pair ((height + 1) div 2) ?cb"
    using pairs unfolding row_stripes_def row_pairs_def Let_def by blast
  moreover have "max 1 ((height + 1) div 2 div 1) \<le> max_tasks" using assms(2) by simp
  moreover have "min height ((height + 1) div 2 * 2) = height" by linarith
  then have "f src_y y_stride src_uv uv_stride dst dst_stride width height s
    = (KLEIDICV_OK, fold pair [0..<(height + 1) div 2] s)"
    using pairs [unfolded row_pairs_def, rule_format, of 0 "(height + 1) div 2" s] by simp
  ultimately show ?thesis
    using parallel_rows [OF assms(1,7) _ zero_less_one, of ?cb s] assms(4-6)
    by (simp add: kleidicv_thread_yuv_semiplanar_to_rgb_u8_def)
qed

section \<open>Choosing a filter and counting its rows\<close>

text \<open>
  The threaded Gaussian and median filters run, for an image that passes validation, the
  kernels of the right size class over all rows, whichever backend the batches get; for an
  image that does not, nothing runs and the error of the validation is returned.
\<close>

theorem thread_filters_dispatch:
  assumes "scheduler mt max_tasks" and "max 1 height \<le> max_tasks"
    and "row_operation row height" and "row_operation row' height" and "row_operation row'' height"
    and "row_stripes row height fixed" and "row_stripes row height fixed_sme"
    and "row_stripes row' height hist" and "row_stripes row'' height arbitrary"
  shows "kleidicv_thread_gaussian_blur_u8 validation fixed fixed_sme arbitrary sme limiter cpu_of mt
      kernel_width height (sl, s) =
      (if validation \<noteq> KLEIDICV_OK then (validation, sl, s)
       else (KLEIDICV_OK, sl, fold (if kernel_width \<in> {..9} \<union> {15, 21} then row else row'') [0..<height] s))
    \<and> kleidicv_thread_median_blur_u8 validation fixed fixed_sme hist arbitrary sme limiter cpu_of mt
      kernel_width height (sl, s) =
      (if validation \<noteq> KLEIDICV_OK then (validation, sl, s)
       else (KLEIDICV_OK, sl, fold (if kernel_width \<le> 7 then row
          else if kernel_width \<le> 15 then row' else row'') [0..<height] s))"
proof -
  have m: "max 1 (height div 1) \<le> max_tasks" using assms(2) by simp
  have cpu: "parallel_batches_cpu_only cb cb mt height 1 (sl, s) = (KLEIDICV_OK, sl, fold r [0..<height] s)"
    if "row_operation r height" "row_stripes r height cb" for r cb
    using parallel_rows_with_sme [OF assms(1) that that(2) zero_less_one m, of False None cpu_of sl s]
    by (simp add: parallel_batches_with_sme_def)
  note sme_run = parallel_rows_with_sme [OF assms(1) assms(3) assms(6,7) zero_less_one m]
  show ?thesis
    by (auto simp: kleidicv_thread_gaussian_blur_u8_def kleidicv_thread_median_blur_u8_def sme_run
        cpu [OF assms(4,8)] cpu [OF assms(5,9)] simp del: One_nat_def)
qed

theorem thread_filters_dispatch_witness:
  "kleidicv_thread_median_blur_u8 KLEIDICV_OK
     (\<lambda>b e s. (KLEIDICV_OK, fold mark_row [b..<e] s)) (\<lambda>b e s. (KLEIDICV_OK, fold mark_row [b..<e] s))
     (\<lambda>b e s. (KLEIDICV_OK, fold mark_row [b..<e] s)) (\<lambda>b e s. (KLEIDICV_OK, fold mark_row [b..<e] s))
     True (Some (solo_topo, [1])) (\<lambda>b e. int b) (example_parallel 2) 9 3 ([1], [0, 0, 0])
   = (KLEIDICV_OK, [1], [1, 1, 1])"
proof -
  have st: "row_stripes mark_row 3 (\<lambda>b e s. (KLEIDICV_OK, fold mark_row [b..<e] s))"
    by (simp add: row_stripes_def)
  have "fold mark_row [0..<3] [0, 0, 0] = [1, 1, 1]"
    by (simp add: mark_row_def upt_rec)
  then show ?thesis
    using thread_filters_dispatch [OF two_workers _ mark_rows_commute mark_rows_commute
        mark_rows_commute st st st st]
    by simp
qed

text \<open>
  C39. The number of tasks of a threaded fixed-scale resize is the number of gaps between source rows,
  at least one, except for an empty image: there the unsigned subtraction wraps and the scheduler
  is asked to run \<open>2 ^ 64 - 1\<close> tasks. The 8-bit resize returns before that, the floating
  point one does not.
\<close>

theorem resize_f32_empty_image_tasks:
  assumes "src_height \<le> size_max"
  shows "resize_row_count src_height =
      (if src_height = 0 then size_max else if src_height = 1 then 1 else src_height - 1)
    \<and> (let cb = (\<lambda>b e (slots, s). case overlapping_stripe 0 stripe b e s of (err, s') \<Rightarrow> (err, slots, s')) in
        kleidicv_thread_resize_linear_f32 True stripe stripe_sme False limiter cpu_of mt 0
        = mt (kleidicv_thread_batch_callback
            \<lparr>callback = cb, row_count = size_max, min_batch_size = 1, task_count = size_max\<rparr>) size_max)
    \<and> kleidicv_thread_resize_linear_u8 kind st2 st4 stg sme limiter cpu_of mt 1 stride width 0 1 dstride 0 s
        = (if rk_implemented kind then KLEIDICV_OK else KLEIDICV_ERROR_NOT_IMPLEMENTED, s)"
proof (intro conjI)
  have zero: "size_wrap (- 1) = size_max" by (simp add: size_wrap_def size_max_def)
  have one: "1 \<le> size_max" by (simp add: size_max_def)
  show "resize_row_count src_height =
      (if src_height = 0 then size_max else if src_height = 1 then 1 else src_height - 1)"
  proof (cases src_height)
    case 0
    then show ?thesis using zero one by (simp add: resize_row_count_def)
  next
    case (Suc n)
    then have "size_wrap (int src_height - 1) = n" using assms size_wrap_id [of n] by simp
    then show ?thesis using Suc by (simp add: resize_row_count_def)
  qed
  show "let cb = (\<lambda>b e (slots, s). case overlapping_stripe 0 stripe b e s of (err, s') \<Rightarrow> (err, slots, s')) in
        kleidicv_thread_resize_linear_f32 True stripe stripe_sme False limiter cpu_of mt 0
        = mt (kleidicv_thread_batch_callback
            \<lparr>callback = cb, row_count = size_max, min_batch_size = 1, task_count = size_max\<rparr>) size_max"
    using zero one
    by (simp add: kleidicv_thread_resize_linear_f32_def parallel_batches_with_sme_def fun_eq_iff
        parallel_batches_cpu_only_def parallel_batches_def resize_row_count_def Let_def)
  show "kleidicv_thread_resize_linear_u8 kind st2 st4 stg sme limiter cpu_of mt 1 stride width 0 1 dstride 0 s
        = (if rk_implemented kind then KLEIDICV_OK else KLEIDICV_ERROR_NOT_IMPLEMENTED, s)"
    by (simp add: kleidicv_thread_resize_linear_u8_def check_pointer_and_stride_def nullptr_def)
qed

theorem resize_f32_empty_image_tasks_witness:
  "resize_row_count 0 = size_max"
  using resize_f32_empty_image_tasks [of 0, THEN conjunct1] by simp

end
