(* ===== verification/Border_Coordinates.thy ===== *)
theory Border_Coordinates
  imports Kcv_Types
begin

text \<open>
  What the border types of \<^verbatim>\<open>ctypes.h\<close> mean: the pixel of a row (or the row of an image)
  that stands behind a coordinate outside of it. The specification of padding and of the filters.
\<close>

text \<open>
  The source coordinate behind a coordinate of any size: clamped, periodic, or mirrored with or
  without repeating the edge.
\<close>

definition border_coordinate :: "kleidicv_border_type_t \<Rightarrow> int \<Rightarrow> nat \<Rightarrow> nat" where
  "border_coordinate border_type x len =
     nat (case border_type of
            KLEIDICV_BORDER_TYPE_REPLICATE \<Rightarrow> max 0 (min x (int len - 1))
          | KLEIDICV_BORDER_TYPE_WRAP \<Rightarrow> x mod int len
          | KLEIDICV_BORDER_TYPE_REFLECT \<Rightarrow>
              min (x mod (2 * int len)) (2 * int len - 1 - x mod (2 * int len))
          | KLEIDICV_BORDER_TYPE_REVERSE \<Rightarrow>
              min (x mod (2 * int len - 2)) (2 * int len - 2 - x mod (2 * int len - 2))
          | _ \<Rightarrow> 0)"

lemma border_coordinate_inside:
  assumes "0 \<le> x" and "x < int len"
    and "bt \<in> {KLEIDICV_BORDER_TYPE_REPLICATE, KLEIDICV_BORDER_TYPE_WRAP, KLEIDICV_BORDER_TYPE_REFLECT,
           KLEIDICV_BORDER_TYPE_REVERSE}"
  shows "border_coordinate bt x len = nat x"
proof -
  have "min (x mod (2 * int len - 2)) (2 * int len - 2 - x mod (2 * int len - 2)) = x" if "1 < len"
  proof (cases "x = int len - 1")
    case True
    show ?thesis
    proof (cases "len = 2")
      case False
      then have "x < 2 * int len - 2" using True that by simp
      with assms(1) True show ?thesis by simp
    qed (use True in simp)
  next
    case False
    with assms that have "x < 2 * int len - 2" by simp
    with assms that show ?thesis by simp
  qed
  moreover have "x = 0" if "\<not> 1 < len" using assms that by simp
  ultimately show ?thesis using assms by (cases "1 < len") (auto simp: border_coordinate_def)
qed

lemma border_coordinate_less: "0 < len \<Longrightarrow> border_coordinate bt x len < len"
proof -
  assume len: "0 < len"
  have "x mod (2 * int len - 2) < 2 * int len - 2" if "len \<noteq> 1"
    by (rule pos_mod_bound) (use len that in simp)
  moreover have "x mod (2 * int len) < 2 * int len" "x mod int len < int len"
    using len by simp_all
  ultimately show ?thesis
    using len by (cases "len = 1"; cases bt) (auto simp: border_coordinate_def min_def nat_less_iff)
qed

text \<open>
  The mirrors and wraps of the first \<open>len\<close> coordinates on either side, without divisions.
\<close>

lemma border_coordinate_left:
  assumes "- int len \<le> x" and "x < 0"
  shows "border_coordinate KLEIDICV_BORDER_TYPE_REPLICATE x len = 0"
    and "border_coordinate KLEIDICV_BORDER_TYPE_WRAP x len = nat (int len + x)"
    and "border_coordinate KLEIDICV_BORDER_TYPE_REFLECT x len = nat (- x - 1)"
    and "- int len < x \<Longrightarrow> border_coordinate KLEIDICV_BORDER_TYPE_REVERSE x len = nat (- x)"
proof -
  have mod: "x mod m = x + m" if "int len \<le> m" for m
  proof (rule int_mod_pos_eq [of _ _ "-1"])
    show "x = m * -1 + (x + m)" by simp
  qed (use assms that in auto)
  show "border_coordinate KLEIDICV_BORDER_TYPE_REPLICATE x len = 0"
    using assms by (simp add: border_coordinate_def)
  show "border_coordinate KLEIDICV_BORDER_TYPE_WRAP x len = nat (int len + x)"
    by (simp add: border_coordinate_def mod add.commute)
  show "border_coordinate KLEIDICV_BORDER_TYPE_REFLECT x len = nat (- x - 1)"
    using assms by (simp add: border_coordinate_def mod min_def)
  show "border_coordinate KLEIDICV_BORDER_TYPE_REVERSE x len = nat (- x)" if "- int len < x"
  proof -
    from that assms have "2 \<le> len" by simp
    then have "x mod (2 * int len - 2) = x + (2 * int len - 2)" by (intro mod) simp
    with that assms show ?thesis by (simp add: border_coordinate_def min_def) arith
  qed
qed

lemma border_coordinate_right:
  assumes "int len \<le> x" and "x < 2 * int len"
  shows "border_coordinate KLEIDICV_BORDER_TYPE_REPLICATE x len = len - 1"
    and "border_coordinate KLEIDICV_BORDER_TYPE_WRAP x len = nat (x - int len)"
    and "border_coordinate KLEIDICV_BORDER_TYPE_REFLECT x len = nat (2 * int len - 1 - x)"
    and "x < 2 * int len - 1 \<Longrightarrow>
      border_coordinate KLEIDICV_BORDER_TYPE_REVERSE x len = nat (2 * int len - 2 - x)"
proof -
  show "border_coordinate KLEIDICV_BORDER_TYPE_REPLICATE x len = len - 1"
    using assms by (simp add: border_coordinate_def)
  have "x mod int len = x - int len"
  proof (rule int_mod_pos_eq [of _ _ 1])
    show "x = int len * 1 + (x - int len)" by simp
  qed (use assms in auto)
  then show "border_coordinate KLEIDICV_BORDER_TYPE_WRAP x len = nat (x - int len)"
    by (simp add: border_coordinate_def)
  show "border_coordinate KLEIDICV_BORDER_TYPE_REFLECT x len = nat (2 * int len - 1 - x)"
    using assms by (simp add: border_coordinate_def min_def)
  show "border_coordinate KLEIDICV_BORDER_TYPE_REVERSE x len = nat (2 * int len - 2 - x)"
    if "x < 2 * int len - 1"
  proof (cases "x = 2 * int len - 2")
    case True
    then show ?thesis by (simp add: border_coordinate_def)
  next
    case False
    with that assms show ?thesis by (simp add: border_coordinate_def min_def)
  qed
qed

end
