(* ===== verification/Add_Padding.thy ===== *)
theory Add_Padding
  imports Padding_Kernels Thread_Ops "HOL-Library.Signed_Division" Border_Coordinates
begin

text \<open>
  Padding an image by copying: \<^verbatim>\<open>kleidicv/include/kleidicv/transform/add_padding_by_copy.h\<close>
  (argument checks, choice of the execution strategy),
  \<^verbatim>\<open>kleidicv/src/transform/add_padding_by_copy_common.h\<close> (the operation object, its index
  tables, the row fillers and stripe loops of the six strategies) and
  \<^verbatim>\<open>add_padding_by_copy_api.cpp\<close>. The padded image is specified by one address map per
  border type; every strategy is shown to implement it, stripe by stripe.
\<close>

section \<open>Checks and strategies\<close>

definition add_padding_by_copy_is_implemented ::
    "nat \<Rightarrow> nat \<Rightarrow> nat \<Rightarrow> kleidicv_border_type_t \<Rightarrow> bool" where
  "add_padding_by_copy_is_implemented src_width src_height pixel_size border_type =
     (let kMaxPixelSize = KLEIDICV_MAXIMUM_TYPE_SIZE * KLEIDICV_MAXIMUM_CHANNEL_COUNT in
      if pixel_size = 0 \<or> pixel_size > kMaxPixelSize then False
      else if border_type \<noteq> KLEIDICV_BORDER_TYPE_CONSTANT
        \<and> border_type \<noteq> KLEIDICV_BORDER_TYPE_REPLICATE
        \<and> border_type \<noteq> KLEIDICV_BORDER_TYPE_REFLECT
        \<and> border_type \<noteq> KLEIDICV_BORDER_TYPE_WRAP
        \<and> border_type \<noteq> KLEIDICV_BORDER_TYPE_REVERSE then False
      else if border_type \<noteq> KLEIDICV_BORDER_TYPE_CONSTANT \<and> (src_width = 0 \<or> src_height = 0) then False
      else True)"

definition add_padding_by_copy_check_pointer_and_stride_as ::
    "nat \<Rightarrow> nat \<Rightarrow> nat \<Rightarrow> nat \<Rightarrow> kleidicv_error_t" where
  "add_padding_by_copy_check_pointer_and_stride_as align pointer stride height =
     checks [make_pointer_check_alignment align pointer,
             check_pointer_and_stride align pointer stride height]"

definition add_padding_by_copy_check_pointer_and_stride ::
    "nat \<Rightarrow> nat \<Rightarrow> nat \<Rightarrow> nat \<Rightarrow> kleidicv_error_t" where
  "add_padding_by_copy_check_pointer_and_stride pointer stride height pixel_size =
     (if pixel_size = 2 \<or> pixel_size = 3 * 2
      then add_padding_by_copy_check_pointer_and_stride_as 2 pointer stride height
      else if pixel_size = 4 \<or> pixel_size = 3 * 4
      then add_padding_by_copy_check_pointer_and_stride_as 4 pointer stride height
      else if pixel_size = 8
      then add_padding_by_copy_check_pointer_and_stride_as 8 pointer stride height
      else add_padding_by_copy_check_pointer_and_stride_as 1 pointer stride height)"

record AddPaddingByCopyParameters =
  pad_src :: nat
  pad_dst :: nat
  pad_src_stride :: nat
  pad_dst_stride :: nat
  pad_src_width :: nat
  pad_src_height :: nat
  top_padding :: nat
  bottom_padding :: nat
  left_padding :: nat
  right_padding :: nat
  pad_pixel_size :: nat
  pad_border_type :: kleidicv_border_type_t
  pad_border_value :: nat

text \<open>
  The sums are over \<^verbatim>\<open>size_t\<close>, but every operand is at most
  \<open>KLEIDICV_MAX_IMAGE_PIXELS\<close> when they are formed.
\<close>

definition add_padding_by_copy_checks :: "AddPaddingByCopyParameters \<Rightarrow> kleidicv_error_t + nat" where
  "add_padding_by_copy_checks p =
     (let size_error = check_image_size (pad_src_width p) (pad_src_height p) in
      if size_error \<noteq> KLEIDICV_OK then Inl size_error
      else if \<not> add_padding_by_copy_is_implemented (pad_src_width p) (pad_src_height p)
        (pad_pixel_size p) (pad_border_type p) then Inl KLEIDICV_ERROR_NOT_IMPLEMENTED
      else
        let src_error = add_padding_by_copy_check_pointer_and_stride (pad_src p) (pad_src_stride p)
              (pad_src_height p) (pad_pixel_size p) in
        if src_error \<noteq> KLEIDICV_OK then Inl src_error
        else if pad_border_type p = KLEIDICV_BORDER_TYPE_CONSTANT \<and> any_null [pad_border_value p]
          then Inl KLEIDICV_ERROR_NULL_POINTER
        else
          let kMaxImageDimension = KLEIDICV_MAX_IMAGE_PIXELS in
          if pad_src_width p > kMaxImageDimension \<or> pad_src_height p > kMaxImageDimension
            \<or> top_padding p > kMaxImageDimension \<or> bottom_padding p > kMaxImageDimension
            \<or> left_padding p > kMaxImageDimension \<or> right_padding p > kMaxImageDimension
            then Inl KLEIDICV_ERROR_RANGE
          else
            let horizontal_padding = size_wrap (int (left_padding p) + int (right_padding p));
                vertical_padding = size_wrap (int (top_padding p) + int (bottom_padding p)) in
            if horizontal_padding > kMaxImageDimension \<or> vertical_padding > kMaxImageDimension
              then Inl KLEIDICV_ERROR_RANGE
            else if pad_src_width p > kMaxImageDimension - horizontal_padding
              \<or> pad_src_height p > kMaxImageDimension - vertical_padding
              then Inl KLEIDICV_ERROR_RANGE
            else
              let dst_width = size_wrap (int (pad_src_width p) + int horizontal_padding);
                  computed_dst_height = size_wrap (int (pad_src_height p) + int vertical_padding);
                  dst_size_error = check_image_size dst_width computed_dst_height in
              if dst_size_error \<noteq> KLEIDICV_OK then Inl dst_size_error
              else
                let dst_error = add_padding_by_copy_check_pointer_and_stride (pad_dst p)
                      (pad_dst_stride p) computed_dst_height (pad_pixel_size p) in
                if dst_error \<noteq> KLEIDICV_OK then Inl dst_error
                else Inr computed_dst_height)"

datatype AddPaddingByCopyBorderStrategy =
  kConstant | kReplicate | kWrapFast | kReflectFast | kReverseFast | kIndexed

definition can_use_wrap_fast_path :: "nat \<Rightarrow> nat \<Rightarrow> nat \<Rightarrow> bool" where
  "can_use_wrap_fast_path src_width left right = (left \<le> src_width \<and> right \<le> src_width)"

definition can_use_reflect_fast_path :: "nat \<Rightarrow> nat \<Rightarrow> nat \<Rightarrow> bool" where
  "can_use_reflect_fast_path src_width left right =
     (src_width > 1 \<and> left \<le> src_width \<and> right \<le> src_width)"

definition can_use_reverse_fast_path :: "nat \<Rightarrow> nat \<Rightarrow> nat \<Rightarrow> bool" where
  "can_use_reverse_fast_path src_width left right =
     (src_width > 1 \<and> left < src_width \<and> right < src_width)"

definition resolve_border_strategy ::
    "nat \<Rightarrow> nat \<Rightarrow> nat \<Rightarrow> kleidicv_border_type_t \<Rightarrow> AddPaddingByCopyBorderStrategy" where
  "resolve_border_strategy src_width left right border_type =
     (if border_type = KLEIDICV_BORDER_TYPE_CONSTANT then kConstant
      else if border_type = KLEIDICV_BORDER_TYPE_REPLICATE then kReplicate
      else if border_type = KLEIDICV_BORDER_TYPE_WRAP \<and> can_use_wrap_fast_path src_width left right
        then kWrapFast
      else if border_type = KLEIDICV_BORDER_TYPE_REFLECT \<and> can_use_reflect_fast_path src_width left right
        then kReflectFast
      else if border_type = KLEIDICV_BORDER_TYPE_REVERSE \<and> can_use_reverse_fast_path src_width left right
        then kReverseFast
      else kIndexed)"

section \<open>Border coordinates\<close>

definition positive_remainder :: "int \<Rightarrow> int \<Rightarrow> int" where
  "positive_remainder v period =
     (let remainder = v smod period in if remainder < 0 then remainder + period else remainder)"

definition wrap_index :: "int \<Rightarrow> nat \<Rightarrow> nat" where
  "wrap_index position len = nat (positive_remainder position (int len))"

definition reflect_index :: "int \<Rightarrow> nat \<Rightarrow> nat" where
  "reflect_index position len =
     (if len = 1 then 0
      else
        let period = int (push_bit 1 len); reflected = positive_remainder position period in
        nat (if reflected \<ge> int len then period - reflected - 1 else reflected))"

definition reverse_index :: "int \<Rightarrow> nat \<Rightarrow> nat" where
  "reverse_index position len =
     (if len = 1 then 0
      else
        let period = int (push_bit 1 (len - 1)); reflected = positive_remainder position period in
        nat (if reflected \<ge> int len then period - reflected else reflected))"

lemma positive_remainder_mod:
  assumes "0 < period"
  shows "positive_remainder v period = v mod period"
proof -
  have "\<not> v mod period < 0" using pos_mod_sign [OF assms, of v] by linarith
  then show ?thesis
    unfolding positive_remainder_def Let_def using assms
    by (cases "v \<ge> 0")
      (auto simp: signed_modulo_int_def signed_divide_int_def sgn_if minus_div_mult_eq_mod
        zmod_zminus1_eq_if abs_if algebra_simps)
qed

section \<open>The operation object\<close>

text \<open>The derived members of \<^verbatim>\<open>AddPaddingByCopyTargetBase\<close>.\<close>

definition dst_width where
  "dst_width p = pad_src_width p + left_padding p + right_padding p"
definition dst_height where
  "dst_height p = pad_src_height p + top_padding p + bottom_padding p"
definition left_size where "left_size p = left_padding p * pad_pixel_size p"
definition inner_size where "inner_size p = pad_src_width p * pad_pixel_size p"
definition right_size where "right_size p = right_padding p * pad_pixel_size p"
definition inner_offset where "inner_offset p = left_padding p * pad_pixel_size p"
definition right_offset where
  "right_offset p = (left_padding p + pad_src_width p) * pad_pixel_size p"

lemmas member_defs = dst_width_def dst_height_def left_size_def inner_size_def right_size_def
  inner_offset_def right_offset_def

definition split_body_rows :: "AddPaddingByCopyParameters \<Rightarrow> nat \<Rightarrow> nat \<Rightarrow> nat \<times> nat" where
  "split_body_rows p dst_y_begin dst_y_end =
     (let body_begin_limit = top_padding p;
          body_end_limit = top_padding p + pad_src_height p;
          body_begin = min (max dst_y_begin body_begin_limit) dst_y_end;
          body_end = max body_begin (min dst_y_end body_end_limit)
      in (body_begin, body_end))"

text \<open>The tables are written into one array of words behind the object, from \<open>at\<close> on.\<close>

definition build_coordinate_sequence ::
    "(int \<Rightarrow> nat \<Rightarrow> nat) \<Rightarrow> nat \<Rightarrow> nat \<Rightarrow> int \<Rightarrow> nat \<Rightarrow> nat list \<Rightarrow> nat list" where
  "build_coordinate_sequence map_index at number start len storage =
     fold (\<lambda>i xs. xs[at + i := map_index (start + int i) len]) [0..<number] storage"

definition build_vertical_border_rows ::
    "(int \<Rightarrow> nat \<Rightarrow> nat) \<Rightarrow> nat \<Rightarrow> nat \<Rightarrow> nat \<Rightarrow> nat \<Rightarrow> nat \<Rightarrow> nat list \<Rightarrow> nat list" where
  "build_vertical_border_rows map_index top_at top_number bottom_at bottom_number height storage =
     build_coordinate_sequence map_index bottom_at bottom_number (int height) height
       (build_coordinate_sequence map_index top_at top_number (- int top_number) height storage)"

definition build_horizontal_border_indices ::
    "(int \<Rightarrow> nat \<Rightarrow> nat) \<Rightarrow> nat \<Rightarrow> nat \<Rightarrow> nat \<Rightarrow> nat \<Rightarrow> nat list \<Rightarrow> nat list" where
  "build_horizontal_border_indices map_index at left right width storage =
     build_coordinate_sequence map_index (at + left) right (int width) width
       (build_coordinate_sequence map_index at left (- int left) width storage)"

definition reflect_word_count where "reflect_word_count p = top_padding p + bottom_padding p"
definition reverse_word_count where "reverse_word_count p = top_padding p + bottom_padding p"
definition wrap_word_count where "wrap_word_count p = top_padding p + bottom_padding p"
definition indexed_word_count where
  "indexed_word_count p = left_padding p + right_padding p + top_padding p + bottom_padding p"

definition storage_word_count :: "AddPaddingByCopyBorderStrategy \<Rightarrow> AddPaddingByCopyParameters \<Rightarrow> nat" where
  "storage_word_count strategy p =
     (case strategy of
        kConstant \<Rightarrow> 0
      | kReplicate \<Rightarrow> 0
      | kReflectFast \<Rightarrow> reflect_word_count p
      | kReverseFast \<Rightarrow> reverse_word_count p
      | kWrapFast \<Rightarrow> wrap_word_count p
      | kIndexed \<Rightarrow> indexed_word_count p)"

lemmas word_count_defs = storage_word_count_def reflect_word_count_def reverse_word_count_def
  wrap_word_count_def indexed_word_count_def

definition prepare_indexed_maps_with ::
    "(int \<Rightarrow> nat \<Rightarrow> nat) \<Rightarrow> AddPaddingByCopyParameters \<Rightarrow> nat list \<Rightarrow> nat list" where
  "prepare_indexed_maps_with map_index p storage =
     build_vertical_border_rows map_index
       (left_padding p + right_padding p) (top_padding p)
       (left_padding p + right_padding p + top_padding p) (bottom_padding p) (pad_src_height p)
       (build_horizontal_border_indices map_index 0 (left_padding p) (right_padding p)
         (pad_src_width p) storage)"

definition prepare_indexed_maps :: "AddPaddingByCopyParameters \<Rightarrow> nat list \<Rightarrow> nat list" where
  "prepare_indexed_maps p =
     (if pad_border_type p = KLEIDICV_BORDER_TYPE_WRAP then prepare_indexed_maps_with wrap_index p
      else if pad_border_type p = KLEIDICV_BORDER_TYPE_REFLECT then prepare_indexed_maps_with reflect_index p
      else prepare_indexed_maps_with reverse_index p)"

text \<open>The constructors: what each strategy writes into its storage.\<close>

definition construct_reflect :: "AddPaddingByCopyParameters \<Rightarrow> nat list \<Rightarrow> nat list" where
  "construct_reflect p =
     build_vertical_border_rows reflect_index 0 (top_padding p) (top_padding p) (bottom_padding p) (pad_src_height p)"

definition construct_reverse :: "AddPaddingByCopyParameters \<Rightarrow> nat list \<Rightarrow> nat list" where
  "construct_reverse p =
     build_vertical_border_rows reverse_index 0 (top_padding p) (top_padding p) (bottom_padding p) (pad_src_height p)"

definition construct_wrap :: "AddPaddingByCopyParameters \<Rightarrow> nat list \<Rightarrow> nat list" where
  "construct_wrap p =
     build_vertical_border_rows wrap_index 0 (top_padding p) (top_padding p) (bottom_padding p) (pad_src_height p)"

definition construct ::
    "AddPaddingByCopyBorderStrategy \<Rightarrow> AddPaddingByCopyParameters \<Rightarrow> nat list \<Rightarrow> nat list" where
  "construct strategy p storage =
     (case strategy of
        kConstant \<Rightarrow> storage
      | kReplicate \<Rightarrow> storage
      | kReflectFast \<Rightarrow> construct_reflect p storage
      | kReverseFast \<Rightarrow> construct_reverse p storage
      | kWrapFast \<Rightarrow> construct_wrap p storage
      | kIndexed \<Rightarrow> prepare_indexed_maps p storage)"

lemmas construct_defs = construct_def construct_reflect_def construct_reverse_def construct_wrap_def

record padding_operation =
  op_parameters :: AddPaddingByCopyParameters
  op_strategy :: AddPaddingByCopyBorderStrategy
  op_PixelSize :: nat
  op_storage :: "nat list"

definition top_rows_at :: "padding_operation \<Rightarrow> nat" where
  "top_rows_at op =
     (if op_strategy op = kIndexed
      then left_padding (op_parameters op) + right_padding (op_parameters op) else 0)"

definition top_rows :: "padding_operation \<Rightarrow> nat \<Rightarrow> nat" where
  "top_rows op i = op_storage op ! (top_rows_at op + i)"

definition bottom_rows :: "padding_operation \<Rightarrow> nat \<Rightarrow> nat" where
  "bottom_rows op i = op_storage op ! (top_rows_at op + top_padding (op_parameters op) + i)"

definition border_indices :: "padding_operation \<Rightarrow> nat \<Rightarrow> nat" where
  "border_indices op i = op_storage op ! i"

section \<open>Filling one row\<close>

text \<open>A row filler takes the addresses of the source row and of the destination row.\<close>

definition fill_constant_body_row :: "nat \<Rightarrow> AddPaddingByCopyParameters \<Rightarrow> nat \<Rightarrow> nat \<Rightarrow> mem \<Rightarrow> mem" where
  "fill_constant_body_row PixelSize p src_row dst_row m =
     fill_repeated_pixel PixelSize (pad_pixel_size p) (pad_border_value p)
       (dst_row + right_offset p) (right_size p)
       (memcpy (dst_row + inner_offset p) src_row (inner_size p)
         (fill_repeated_pixel PixelSize (pad_pixel_size p) (pad_border_value p) dst_row (left_size p) m))"

definition fill_replicate_row :: "nat \<Rightarrow> AddPaddingByCopyParameters \<Rightarrow> nat \<Rightarrow> nat \<Rightarrow> mem \<Rightarrow> mem" where
  "fill_replicate_row PixelSize p src_row dst_row m =
     (let leftmost_src_pixel = src_row;
          rightmost_src_pixel = src_row + inner_size p - pad_pixel_size p
      in fill_repeated_pixel PixelSize (pad_pixel_size p) rightmost_src_pixel
           (dst_row + right_offset p) (right_size p)
           (memcpy (dst_row + inner_offset p) src_row (inner_size p)
             (fill_repeated_pixel PixelSize (pad_pixel_size p) leftmost_src_pixel
               dst_row (left_size p) m)))"

definition fill_reflect_row :: "nat \<Rightarrow> AddPaddingByCopyParameters \<Rightarrow> nat \<Rightarrow> nat \<Rightarrow> mem \<Rightarrow> mem" where
  "fill_reflect_row PixelSize p src_row dst_row m =
     (let left_border_last_src_pixel =
            src_row + (if left_size p = 0 then 0 else left_size p - pad_pixel_size p);
          rightmost_src_pixel =
            src_row + (if right_size p = 0 then 0 else inner_size p - pad_pixel_size p)
      in copy_reversed_pixels PixelSize (pad_pixel_size p) rightmost_src_pixel
           (dst_row + right_offset p) (right_size p)
           (memcpy (dst_row + inner_offset p) src_row (inner_size p)
             (copy_reversed_pixels PixelSize (pad_pixel_size p) left_border_last_src_pixel
               dst_row (left_size p) m)))"

definition fill_reverse_row :: "nat \<Rightarrow> AddPaddingByCopyParameters \<Rightarrow> nat \<Rightarrow> nat \<Rightarrow> mem \<Rightarrow> mem" where
  "fill_reverse_row PixelSize p src_row dst_row m =
     (let two_pixel_size = pad_pixel_size p + pad_pixel_size p;
          left_border_last_src_pixel = src_row + (if left_size p = 0 then 0 else left_size p);
          right_border_last_src_pixel =
            src_row + (if right_size p = 0 then 0 else inner_size p - two_pixel_size)
      in copy_reversed_pixels PixelSize (pad_pixel_size p) right_border_last_src_pixel
           (dst_row + right_offset p) (right_size p)
           (memcpy (dst_row + inner_offset p) src_row (inner_size p)
             (copy_reversed_pixels PixelSize (pad_pixel_size p) left_border_last_src_pixel
               dst_row (left_size p) m)))"

definition fill_wrap_row :: "AddPaddingByCopyParameters \<Rightarrow> nat \<Rightarrow> nat \<Rightarrow> mem \<Rightarrow> mem" where
  "fill_wrap_row p src_row dst_row m =
     (let left_border_src = src_row + inner_size p - left_size p; right_border_src = src_row
      in memcpy (dst_row + right_offset p) right_border_src (right_size p)
           (memcpy (dst_row + inner_offset p) src_row (inner_size p)
             (memcpy dst_row left_border_src (left_size p) m)))"

text \<open>Copying pixel by pixel through a table: the typed loop moves one element of \<open>es\<close> bytes.\<close>

definition copy_indexed_pixels_typed ::
    "nat \<Rightarrow> nat \<Rightarrow> nat \<Rightarrow> (nat \<Rightarrow> nat) \<Rightarrow> nat \<Rightarrow> mem \<Rightarrow> mem" where
  "copy_indexed_pixels_typed es src dst indices number m =
     fold (\<lambda>i m. store_bytes (dst + i * es) (load_lane es (src + indices i * es) m) m) [0..<number] m"

definition copy_indexed_pixels_by_bytes ::
    "nat \<Rightarrow> nat \<Rightarrow> nat \<Rightarrow> (nat \<Rightarrow> nat) \<Rightarrow> nat \<Rightarrow> mem \<Rightarrow> mem" where
  "copy_indexed_pixels_by_bytes pixel_size src dst indices number m =
     snd (fold (\<lambda>i (dst_offset, m). (dst_offset + pixel_size,
         memcpy (dst + dst_offset) (src + indices i * pixel_size) pixel_size m))
       [0..<number] (0, m))"

definition copy_indexed_pixels_common ::
    "nat \<Rightarrow> nat \<Rightarrow> nat \<Rightarrow> nat \<Rightarrow> (nat \<Rightarrow> nat) \<Rightarrow> nat \<Rightarrow> mem \<Rightarrow> mem" where
  "copy_indexed_pixels_common PixelSize pixel_size src dst indices number =
     (if PixelSize = 1 then copy_indexed_pixels_typed 1 src dst indices number
      else if PixelSize = 2 then copy_indexed_pixels_typed 2 src dst indices number
      else if PixelSize = 4 then copy_indexed_pixels_typed 4 src dst indices number
      else if PixelSize = 8 then copy_indexed_pixels_typed 8 src dst indices number
      else copy_indexed_pixels_by_bytes pixel_size src dst indices number)"

definition fill_indexed_row :: "padding_operation \<Rightarrow> nat \<Rightarrow> nat \<Rightarrow> mem \<Rightarrow> mem" where
  "fill_indexed_row op src_row dst_row m =
     (let p = op_parameters op;
          right_indices = (\<lambda>i. border_indices op (left_padding p + i))
      in copy_indexed_pixels_common (op_PixelSize op) (pad_pixel_size p) src_row
           (dst_row + right_offset p) right_indices (right_padding p)
           (copy_indexed_pixels_common (op_PixelSize op) (pad_pixel_size p) src_row dst_row
             (border_indices op) (left_padding p)
             (memcpy (dst_row + inner_offset p) src_row (inner_size p) m)))"

section \<open>Stripes\<close>

text \<open>
  Row loops carry the destination (and source) address along, moved on by the stride after each
  row.
\<close>

definition process_vertical_mapped_stripe ::
    "padding_operation \<Rightarrow> nat \<Rightarrow> nat \<Rightarrow> nat \<Rightarrow> nat \<Rightarrow> (nat \<Rightarrow> nat \<Rightarrow> mem \<Rightarrow> mem) \<Rightarrow> mem \<Rightarrow> mem" where
  "process_vertical_mapped_stripe op body_begin body_end dst_y_begin dst_y_end fill_row m =
     (let p = op_parameters op;
          dst_row = pad_dst p + dst_y_begin * pad_dst_stride p;
          (dst_row, m) = fold (\<lambda>dst_y (dst_row, m).
              (dst_row + pad_dst_stride p,
               fill_row (pad_src p + top_rows op dst_y * pad_src_stride p) dst_row m))
            [dst_y_begin..<body_begin] (dst_row, m);
          (dst_row, m) =
            (if body_begin < body_end then
               (let src_row = pad_src p + (body_begin - top_padding p) * pad_src_stride p;
                    (dst_row, src_row, m) = fold (\<lambda>dst_y (dst_row, src_row, m).
                        (dst_row + pad_dst_stride p, src_row + pad_src_stride p,
                         fill_row src_row dst_row m))
                      [body_begin..<body_end] (dst_row, src_row, m)
                in (dst_row, m))
             else (dst_row, m));
          bottom_base = top_padding p + pad_src_height p
      in snd (fold (\<lambda>dst_y (dst_row, m).
              (dst_row + pad_dst_stride p,
               fill_row (pad_src p + bottom_rows op (dst_y - bottom_base) * pad_src_stride p) dst_row m))
            [body_end..<dst_y_end] (dst_row, m)))"

definition fill_constant_rows ::
    "nat \<Rightarrow> AddPaddingByCopyParameters \<Rightarrow> nat \<Rightarrow> nat \<Rightarrow> mem \<Rightarrow> mem" where
  "fill_constant_rows PixelSize p dst_y_begin dst_y_end m =
     snd (fold (\<lambda>dst_y (dst_row, m).
         (dst_row + pad_dst_stride p,
          fill_repeated_pixel PixelSize (pad_pixel_size p) (pad_border_value p) dst_row
            (dst_width p * pad_pixel_size p) m))
       [dst_y_begin..<dst_y_end] (pad_dst p + dst_y_begin * pad_dst_stride p, m))"

text \<open>The body loop of the constant and of the replicated border, over a row filler.\<close>

definition process_body_rows ::
    "(nat \<Rightarrow> nat \<Rightarrow> mem \<Rightarrow> mem) \<Rightarrow> AddPaddingByCopyParameters \<Rightarrow> nat \<Rightarrow> nat \<Rightarrow> mem \<Rightarrow> mem" where
  "process_body_rows fill_row p dst_y_begin dst_y_end m =
     snd (snd (fold (\<lambda>dst_y (dst_row, src_row, m).
         (dst_row + pad_dst_stride p, src_row + pad_src_stride p, fill_row src_row dst_row m))
       [dst_y_begin..<dst_y_end]
       (pad_dst p + dst_y_begin * pad_dst_stride p,
        pad_src p + (dst_y_begin - top_padding p) * pad_src_stride p, m)))"

definition process_constant_body_rows where
  "process_constant_body_rows PixelSize p = process_body_rows (fill_constant_body_row PixelSize p) p"

definition process_replicate_body_rows where
  "process_replicate_body_rows PixelSize p = process_body_rows (fill_replicate_row PixelSize p) p"

definition fill_replicate_rows ::
    "nat \<Rightarrow> AddPaddingByCopyParameters \<Rightarrow> nat \<Rightarrow> nat \<Rightarrow> nat \<Rightarrow> mem \<Rightarrow> mem" where
  "fill_replicate_rows PixelSize p src_row dst_y_begin dst_y_end m =
     snd (fold (\<lambda>dst_y (dst_row, m).
         (dst_row + pad_dst_stride p, fill_replicate_row PixelSize p src_row dst_row m))
       [dst_y_begin..<dst_y_end] (pad_dst p + dst_y_begin * pad_dst_stride p, m))"

definition fill_replicate_top_rows where
  "fill_replicate_top_rows PixelSize p = fill_replicate_rows PixelSize p (pad_src p)"

definition fill_replicate_bottom_rows where
  "fill_replicate_bottom_rows PixelSize p =
     fill_replicate_rows PixelSize p (pad_src p + (pad_src_height p - 1) * pad_src_stride p)"

definition process_stripe :: "padding_operation \<Rightarrow> nat \<Rightarrow> nat \<Rightarrow> mem action" where
  "process_stripe op dst_y_begin dst_y_end m =
     (let p = op_parameters op; S = op_PixelSize op;
          (body_begin, body_end) = split_body_rows p dst_y_begin dst_y_end;
          mapped = (\<lambda>fill_row.
            process_vertical_mapped_stripe op body_begin body_end dst_y_begin dst_y_end fill_row m)
      in (KLEIDICV_OK,
          case op_strategy op of
            kConstant \<Rightarrow>
              (if inner_size p = 0 then fill_constant_rows S p dst_y_begin dst_y_end m
               else fill_constant_rows S p body_end dst_y_end
                 (process_constant_body_rows S p body_begin body_end
                   (fill_constant_rows S p dst_y_begin body_begin m)))
          | kReplicate \<Rightarrow>
              fill_replicate_bottom_rows S p body_end dst_y_end
                (process_replicate_body_rows S p body_begin body_end
                  (fill_replicate_top_rows S p dst_y_begin body_begin m))
          | kReflectFast \<Rightarrow> mapped (fill_reflect_row S p)
          | kReverseFast \<Rightarrow> mapped (fill_reverse_row S p)
          | kWrapFast \<Rightarrow> mapped (fill_wrap_row p)
          | kIndexed \<Rightarrow> mapped (fill_indexed_row op)))"

section \<open>Creating and running the operation\<close>

text \<open>
  One allocation holds the object, \<open>object_size\<close> bytes, and behind it, aligned, the table.
  \<open>malloc\<close> gives the initial contents of the table, or nothing.
\<close>

definition storage_offset :: "nat \<Rightarrow> nat" where
  "storage_offset object_size = unat (align_up (word_of_nat object_size) 8)"

definition allocate_operation ::
    "nat \<Rightarrow> (nat \<Rightarrow> (nat \<Rightarrow> nat) option) \<Rightarrow> nat \<Rightarrow> AddPaddingByCopyParameters
      \<Rightarrow> AddPaddingByCopyBorderStrategy \<Rightarrow> padding_operation option" where
  "allocate_operation object_size malloc PixelSize parameters strategy =
     (let storage_words = storage_word_count strategy parameters;
          total_size = storage_offset object_size + storage_words * 8
      in case malloc total_size of
           None \<Rightarrow> None
         | Some contents \<Rightarrow>
             Some \<lparr>op_parameters = parameters, op_strategy = strategy, op_PixelSize = PixelSize,
               op_storage = construct strategy parameters (map contents [0..<storage_words])\<rparr>)"

definition create_add_padding_by_copy_operation ::
    "nat \<Rightarrow> (nat \<Rightarrow> (nat \<Rightarrow> nat) option) \<Rightarrow> AddPaddingByCopyParameters
      \<Rightarrow> AddPaddingByCopyBorderStrategy \<Rightarrow> padding_operation option" where
  "create_add_padding_by_copy_operation object_size malloc parameters strategy =
     allocate_operation object_size malloc (template_pixel_size (pad_pixel_size parameters))
       parameters strategy"

definition kleidicv_add_padding_by_copy ::
    "nat \<Rightarrow> (nat \<Rightarrow> (nat \<Rightarrow> nat) option) \<Rightarrow> AddPaddingByCopyParameters \<Rightarrow> mem action" where
  "kleidicv_add_padding_by_copy object_size malloc parameters m =
     (case add_padding_by_copy_checks parameters of
        Inl err \<Rightarrow> (err, m)
      | Inr height \<Rightarrow>
          let strategy = resolve_border_strategy (pad_src_width parameters)
                (left_padding parameters) (right_padding parameters) (pad_border_type parameters)
          in case create_add_padding_by_copy_operation object_size malloc parameters strategy of
               None \<Rightarrow> (KLEIDICV_ERROR_ALLOCATION, m)
             | Some op \<Rightarrow> process_stripe op 0 height m)"

section \<open>What a padded image is\<close>

lemma wrap_index_eq: "0 < len \<Longrightarrow> wrap_index x len = border_coordinate KLEIDICV_BORDER_TYPE_WRAP x len"
  by (simp add: wrap_index_def positive_remainder_mod border_coordinate_def)

lemma reflect_index_eq:
  assumes "0 < len"
  shows "reflect_index x len = border_coordinate KLEIDICV_BORDER_TYPE_REFLECT x len"
proof (cases "len = 1")
  case True
  have "x mod 2 = 0 \<or> x mod 2 = 1" by presburger
  with True show ?thesis by (auto simp: reflect_index_def border_coordinate_def)
next
  case False
  define r where "r = x mod (2 * int len)"
  have "positive_remainder x (int (push_bit 1 len)) = r" "int (push_bit 1 len) = 2 * int len"
    using assms by (simp_all add: push_bit_eq_mult positive_remainder_mod r_def mult.commute)
  with False show ?thesis
    unfolding reflect_index_def border_coordinate_def r_def [symmetric]
    by (auto simp: Let_def min_def)
qed

lemma reverse_index_eq:
  assumes "0 < len"
  shows "reverse_index x len = border_coordinate KLEIDICV_BORDER_TYPE_REVERSE x len"
proof (cases "len = 1")
  case True
  then show ?thesis by (simp add: reverse_index_def border_coordinate_def min_def)
next
  case False
  define r where "r = x mod (2 * int len - 2)"
  have "positive_remainder x (int (push_bit 1 (len - 1))) = r" "int (push_bit 1 (len - 1)) = 2 * int len - 2"
    using assms False by (simp_all add: push_bit_eq_mult positive_remainder_mod r_def algebra_simps of_nat_diff)
  with False show ?thesis
    unfolding reverse_index_def border_coordinate_def r_def [symmetric]
    by (auto simp: Let_def min_def)
qed

text \<open>
  The source of pixel \<open>X\<close> of a destination row that is built from the source row at
  \<open>src_row\<close>, and of its bytes.
\<close>

definition row_pixel :: "AddPaddingByCopyParameters \<Rightarrow> nat \<Rightarrow> nat \<Rightarrow> nat" where
  "row_pixel p src_row X =
     (if pad_border_type p = KLEIDICV_BORDER_TYPE_CONSTANT then
        (if left_padding p \<le> X \<and> X < left_padding p + pad_src_width p
         then src_row + (X - left_padding p) * pad_pixel_size p else pad_border_value p)
      else src_row + border_coordinate (pad_border_type p) (int X - int (left_padding p)) (pad_src_width p)
             * pad_pixel_size p)"

definition row_byte :: "AddPaddingByCopyParameters \<Rightarrow> nat \<Rightarrow> nat \<Rightarrow> nat" where
  "row_byte p src_row k = row_pixel p src_row (k div pad_pixel_size p) + k mod pad_pixel_size p"

definition row_size :: "AddPaddingByCopyParameters \<Rightarrow> nat" where
  "row_size p = dst_width p * pad_pixel_size p"

text \<open>A whole destination row, with a source that is left alone.\<close>

definition row_outside :: "AddPaddingByCopyParameters \<Rightarrow> nat \<Rightarrow> nat \<Rightarrow> bool" where
  "row_outside p src_row dst_row \<longleftrightarrow>
     (\<forall>k < row_size p. outside dst_row (row_size p) (row_byte p src_row) k)"

lemma row_size_parts: "row_size p = left_size p + inner_size p + right_size p"
  by (simp add: row_size_def member_defs add_mult_distrib)

lemma right_offset_parts: "right_offset p = left_size p + inner_size p"
  by (simp add: member_defs add_mult_distrib)

lemma row_byte_at:
  assumes "k = X * pad_pixel_size p + j" and "j < pad_pixel_size p"
  shows "row_byte p src_row k = row_pixel p src_row X + j"
  using assms by (simp add: row_byte_def)

text \<open>The three parts of a row, in either order.\<close>

lemma three_parts:
  assumes "\<And>k. k < n1 + n2 + n3 \<Longrightarrow> outside dst (n1 + n2 + n3) f k"
  shows "gather (dst + (n1 + n2)) n3 (\<lambda>k. f (n1 + n2 + k))
      (gather (dst + n1) n2 (\<lambda>k. f (n1 + k)) (gather dst n1 f m)) = gather dst (n1 + n2 + n3) f m"
proof -
  have "outside dst (n1 + n2) f k" if "k < n1 + n2" for k
    using assms [of k] that by (auto simp: outside_def)
  with assms show ?thesis by (simp only: gather_split)
qed

lemma three_parts_inner_first:
  assumes "\<And>k. k < n1 + n2 + n3 \<Longrightarrow> outside dst (n1 + n2 + n3) f k"
  shows "gather (dst + (n1 + n2)) n3 (\<lambda>k. f (n1 + n2 + k))
      (gather dst n1 f (gather (dst + n1) n2 (\<lambda>k. f (n1 + k)) m)) = gather dst (n1 + n2 + n3) f m"
proof -
  have "gather dst n1 f (gather (dst + n1) n2 (\<lambda>k. f (n1 + k)) m)
      = gather (dst + n1) n2 (\<lambda>k. f (n1 + k)) (gather dst n1 f m)"
  proof (rule footprint_commute [OF footprint_gather footprint_gather])
    show "{dst..<dst + n1} \<inter> (\<lambda>k. f (n1 + k)) ` {..<n2} = {}"
    proof -
      have "f (n1 + k) \<notin> {dst..<dst + n1}" if "k < n2" for k
        using assms [of "n1 + k"] that by (auto simp: outside_def)
      then show ?thesis by auto
    qed
    show "{dst + n1..<dst + n1 + n2} \<inter> f ` {..<n1} = {}"
    proof -
      have "f k \<notin> {dst + n1..<dst + n1 + n2}" if "k < n1" for k
        using assms [of k] that by (auto simp: outside_def)
      then show ?thesis by auto
    qed
  qed auto
  then show ?thesis using three_parts [OF assms] by simp
qed

text \<open>
  A row filler is right if each part is: the hypotheses compare the bytes that the parts gather
  with the row specification.
\<close>

lemma row_from_parts:
  assumes out: "row_outside p src_row dst_row"
    and left: "\<And>m. (\<And>k. k < left_size p \<Longrightarrow> outside dst_row (left_size p) (row_byte p src_row) k)
      \<Longrightarrow> left m = gather dst_row (left_size p) (row_byte p src_row) m"
    and inner: "\<And>k. k < inner_size p \<Longrightarrow> row_byte p src_row (left_size p + k) = src_row + k"
    and right: "\<And>m. (\<And>k. k < right_size p \<Longrightarrow>
        outside (dst_row + right_offset p) (right_size p) (\<lambda>k. row_byte p src_row (right_offset p + k)) k)
      \<Longrightarrow> right m = gather (dst_row + right_offset p) (right_size p)
        (\<lambda>k. row_byte p src_row (right_offset p + k)) m"
  shows "right (memcpy (dst_row + inner_offset p) src_row (inner_size p) (left m))
      = gather dst_row (row_size p) (row_byte p src_row) m"
    and "right (left (memcpy (dst_row + inner_offset p) src_row (inner_size p) m))
      = gather dst_row (row_size p) (row_byte p src_row) m"
proof -
  let ?f = "row_byte p src_row"
  have out': "outside dst_row (left_size p + inner_size p + right_size p) ?f k"
    if "k < left_size p + inner_size p + right_size p" for k
    using out that by (simp add: row_outside_def row_size_parts)
  have "outside dst_row (left_size p) ?f k" if "k < left_size p" for k
    using out' [of k] that by (auto simp: outside_def)
  note left' = left [OF this]
  have "outside (dst_row + right_offset p) (right_size p) (\<lambda>k. ?f (right_offset p + k)) k"
    if "k < right_size p" for k
    using out' [of "right_offset p + k"] that by (auto simp: outside_def right_offset_parts)
  note right' = right [OF this]
  have mid: "memcpy (dst_row + inner_offset p) src_row (inner_size p)
      = gather (dst_row + left_size p) (inner_size p) (\<lambda>k. ?f (left_size p + k))"
    unfolding memcpy_gather inner_offset_def left_size_def [symmetric]
    by (rule gather_cong) (simp add: inner)
  show "right (memcpy (dst_row + inner_offset p) src_row (inner_size p) (left m))
      = gather dst_row (row_size p) ?f m"
    using three_parts [OF out', of m] by (simp add: left' right' mid right_offset_parts row_size_parts)
  show "right (left (memcpy (dst_row + inner_offset p) src_row (inner_size p) m))
      = gather dst_row (row_size p) ?f m"
    using three_parts_inner_first [OF out', of m]
    by (simp add: left' right' mid right_offset_parts row_size_parts)
qed

subsection \<open>The row fillers\<close>

lemma fill_part:
  assumes "0 < P" and "P dvd n" and f: "\<And>k. k < n \<Longrightarrow> f k = repeated pixel P k"
    and "\<And>k. k < n \<Longrightarrow> outside dst n f k"
  shows "fill_repeated_pixel (template_pixel_size P) P pixel dst n m = gather dst n f m"
proof -
  have "outside dst n (repeated pixel P) k" if "k < n" for k
    using assms(3,4) that by (simp add: outside_def)
  with assms(1,2) have "fill_repeated_pixel (template_pixel_size P) P pixel dst n m
      = gather dst n (repeated pixel P) m" by (intro fill_repeated_pixel_gather)
  also have "\<dots> = gather dst n f m" by (rule gather_same) (simp add: f)
  finally show ?thesis .
qed

lemma reversed_part:
  assumes "0 < P" and "P dvd n" and "n \<le> src_last + P"
    and f: "\<And>k. k < n \<Longrightarrow> f k = reversed src_last P k"
    and "\<And>k. k < n \<Longrightarrow> outside dst n f k"
  shows "copy_reversed_pixels (template_pixel_size P) P src_last dst n m = gather dst n f m"
proof -
  have "outside dst n (reversed src_last P) k" if "k < n" for k
    using assms(4,5) that by (simp add: outside_def)
  with assms(1-3) have "copy_reversed_pixels (template_pixel_size P) P src_last dst n m
      = gather dst n (reversed src_last P) m" by (intro copy_reversed_pixels_gather)
  also have "\<dots> = gather dst n f m" by (rule gather_same) (simp add: f)
  finally show ?thesis .
qed

lemma memcpy_part:
  assumes "\<And>k. k < n \<Longrightarrow> f k = src + k"
  shows "memcpy dst src n m = gather dst n f m"
  unfolding memcpy_gather by (rule gather_same) (simp add: assms)

text \<open>Bytes of the three parts of a row, by pixel.\<close>

lemma row_byte_left:
  assumes "k < left_size p"
  obtains X j where "k = X * pad_pixel_size p + j" and "j < pad_pixel_size p"
    and "X < left_padding p" and "row_byte p src_row k = row_pixel p src_row X + j"
proof (rule that)
  have P: "0 < pad_pixel_size p" using assms by (cases "pad_pixel_size p") (auto simp: left_size_def)
  show "k = k div pad_pixel_size p * pad_pixel_size p + k mod pad_pixel_size p" by simp
  show "k mod pad_pixel_size p < pad_pixel_size p" using P by simp
  show "k div pad_pixel_size p < left_padding p"
    using assms by (simp add: left_size_def less_mult_imp_div_less)
  show "row_byte p src_row k = row_pixel p src_row (k div pad_pixel_size p) + k mod pad_pixel_size p"
    by (simp add: row_byte_def)
qed

lemma row_byte_offset:
  assumes "0 < pad_pixel_size p"
  shows "row_byte p src_row (X * pad_pixel_size p + k)
    = row_pixel p src_row (X + k div pad_pixel_size p) + k mod pad_pixel_size p"
  using assms by (simp add: row_byte_def)

lemma row_byte_inner:
  assumes "k < inner_size p" and "pad_border_type p \<in> {KLEIDICV_BORDER_TYPE_CONSTANT,
    KLEIDICV_BORDER_TYPE_REPLICATE, KLEIDICV_BORDER_TYPE_WRAP, KLEIDICV_BORDER_TYPE_REFLECT,
    KLEIDICV_BORDER_TYPE_REVERSE}"
  shows "row_byte p src_row (left_size p + k) = src_row + k"
proof -
  let ?P = "pad_pixel_size p"
  have P: "0 < ?P" using assms by (cases "pad_pixel_size p") (auto simp: inner_size_def)
  have X: "k div ?P < pad_src_width p" using assms(1) by (simp add: inner_size_def less_mult_imp_div_less)
  have "row_byte p src_row (left_size p + k)
      = row_pixel p src_row (left_padding p + k div ?P) + k mod ?P"
    unfolding left_size_def by (rule row_byte_offset [OF P])
  also have "row_pixel p src_row (left_padding p + k div ?P) = src_row + k div ?P * ?P"
    using X assms(2) border_coordinate_inside [of "int (k div ?P)" "pad_src_width p" "pad_border_type p"]
    by (auto simp: row_pixel_def zdiv_int [symmetric] simp del: of_nat_div)
  finally show ?thesis by simp
qed

lemma row_byte_right:
  assumes "k < right_size p"
  obtains j X where "k = X * pad_pixel_size p + j" and "j < pad_pixel_size p"
    and "X < right_padding p"
    and "row_byte p src_row (right_offset p + k)
      = row_pixel p src_row (left_padding p + pad_src_width p + X) + j"
proof (rule that)
  let ?P = "pad_pixel_size p"
  have P: "0 < ?P" using assms by (cases "pad_pixel_size p") (auto simp: right_size_def)
  show "k = k div ?P * ?P + k mod ?P" by simp
  show "k mod ?P < ?P" using P by simp
  show "k div ?P < right_padding p" using assms by (simp add: right_size_def less_mult_imp_div_less)
  show "row_byte p src_row (right_offset p + k)
      = row_pixel p src_row (left_padding p + pad_src_width p + k div ?P) + k mod ?P"
    unfolding right_offset_def by (rule row_byte_offset [OF P])
qed

lemma sizes_dvd [simp]:
  "pad_pixel_size p dvd left_size p" "pad_pixel_size p dvd inner_size p"
  "pad_pixel_size p dvd right_size p"
  by (simp_all add: member_defs)

lemma constant_row:
  assumes "pad_border_type p = KLEIDICV_BORDER_TYPE_CONSTANT" and "0 < pad_pixel_size p"
    and "row_outside p src_row dst_row"
  shows "fill_constant_body_row (template_pixel_size (pad_pixel_size p)) p src_row dst_row m
    = gather dst_row (row_size p) (row_byte p src_row) m"
  unfolding fill_constant_body_row_def
proof (rule row_from_parts(1) [OF assms(3)])
  have left: "row_byte p src_row k = repeated (pad_border_value p) (pad_pixel_size p) k"
    if "k < left_size p" for k
    using that by (rule row_byte_left) (simp add: row_pixel_def assms repeated_def)
  have right: "row_byte p src_row (right_offset p + k) = repeated (pad_border_value p) (pad_pixel_size p) k"
    if "k < right_size p" for k
    using that by (rule row_byte_right) (simp add: row_pixel_def assms repeated_def)
  fix m
  show "fill_repeated_pixel (template_pixel_size (pad_pixel_size p)) (pad_pixel_size p)
      (pad_border_value p) dst_row (left_size p) m = gather dst_row (left_size p) (row_byte p src_row) m"
    if "\<And>k. k < left_size p \<Longrightarrow> outside dst_row (left_size p) (row_byte p src_row) k"
    by (rule fill_part) (use assms left that in auto)
  show "fill_repeated_pixel (template_pixel_size (pad_pixel_size p)) (pad_pixel_size p)
      (pad_border_value p) (dst_row + right_offset p) (right_size p) m
    = gather (dst_row + right_offset p) (right_size p) (\<lambda>k. row_byte p src_row (right_offset p + k)) m"
    if "\<And>k. k < right_size p \<Longrightarrow> outside (dst_row + right_offset p) (right_size p)
      (\<lambda>k. row_byte p src_row (right_offset p + k)) k"
    by (rule fill_part) (use assms right that in auto)
qed (use assms(1) in \<open>simp add: row_byte_inner\<close>)

lemma replicate_row:
  assumes "pad_border_type p = KLEIDICV_BORDER_TYPE_REPLICATE" and "0 < pad_pixel_size p"
    and "0 < pad_src_width p" and "row_outside p src_row dst_row"
  shows "fill_replicate_row (template_pixel_size (pad_pixel_size p)) p src_row dst_row m
    = gather dst_row (row_size p) (row_byte p src_row) m"
  unfolding fill_replicate_row_def Let_def
proof (rule row_from_parts(1) [OF assms(4)])
  have left: "row_byte p src_row k = repeated src_row (pad_pixel_size p) k" if "k < left_size p" for k
    using that by (rule row_byte_left) (simp add: row_pixel_def border_coordinate_def assms repeated_def)
  have last: "src_row + inner_size p - pad_pixel_size p = src_row + (pad_src_width p - 1) * pad_pixel_size p"
    using assms(3) by (simp add: inner_size_def diff_mult_distrib)
  have right: "row_byte p src_row (right_offset p + k)
      = repeated (src_row + inner_size p - pad_pixel_size p) (pad_pixel_size p) k"
    if "k < right_size p" for k
    using that
  proof (rule row_byte_right)
    fix j X
    assume k: "k = X * pad_pixel_size p + j" "j < pad_pixel_size p" and "row_byte p src_row (right_offset p + k)
      = row_pixel p src_row (left_padding p + pad_src_width p + X) + j"
    moreover have "border_coordinate KLEIDICV_BORDER_TYPE_REPLICATE
        (int (left_padding p + pad_src_width p + X) - int (left_padding p)) (pad_src_width p)
        = pad_src_width p - 1" using assms(3) by (simp add: border_coordinate_def)
    ultimately show ?thesis unfolding last using assms(1) by (simp add: row_pixel_def repeated_def)
  qed
  fix m
  show "fill_repeated_pixel (template_pixel_size (pad_pixel_size p)) (pad_pixel_size p)
      src_row dst_row (left_size p) m = gather dst_row (left_size p) (row_byte p src_row) m"
    if "\<And>k. k < left_size p \<Longrightarrow> outside dst_row (left_size p) (row_byte p src_row) k"
    by (rule fill_part) (use assms left that in auto)
  show "fill_repeated_pixel (template_pixel_size (pad_pixel_size p)) (pad_pixel_size p)
      (src_row + inner_size p - pad_pixel_size p) (dst_row + right_offset p) (right_size p) m
    = gather (dst_row + right_offset p) (right_size p) (\<lambda>k. row_byte p src_row (right_offset p + k)) m"
    if "\<And>k. k < right_size p \<Longrightarrow> outside (dst_row + right_offset p) (right_size p)
      (\<lambda>k. row_byte p src_row (right_offset p + k)) k"
    by (rule fill_part) (use assms right that in auto)
qed (use assms(1) in \<open>simp add: row_byte_inner\<close>)

text \<open>Mirrored coordinates next to the image.\<close>

lemma mirror_left:
  assumes "X < left" and "left \<le> w"
  shows "border_coordinate KLEIDICV_BORDER_TYPE_WRAP (int X - int left) w = w - left + X"
    and "border_coordinate KLEIDICV_BORDER_TYPE_REFLECT (int X - int left) w = left - 1 - X"
    and "left < w \<Longrightarrow> border_coordinate KLEIDICV_BORDER_TYPE_REVERSE (int X - int left) w = left - X"
proof -
  have mod: "(int X - int left) mod q = int X - int left + q" if "int left \<le> q" for q
  proof -
    have "(int X - int left) mod q = (int X - int left + q) mod q" by simp
    also have "\<dots> = int X - int left + q" by (rule mod_pos_pos_trivial) (use assms(1) that in auto)
    finally show ?thesis .
  qed
  show "border_coordinate KLEIDICV_BORDER_TYPE_WRAP (int X - int left) w = w - left + X"
    using assms by (simp add: border_coordinate_def mod)
  show "border_coordinate KLEIDICV_BORDER_TYPE_REFLECT (int X - int left) w = left - 1 - X"
    using assms by (simp add: border_coordinate_def mod min_def)
  show "border_coordinate KLEIDICV_BORDER_TYPE_REVERSE (int X - int left) w = left - X" if "left < w"
    using assms that by (simp add: border_coordinate_def mod min_def) arith
qed

lemma mirror_right:
  assumes "X < right" and "right \<le> w"
  shows "border_coordinate KLEIDICV_BORDER_TYPE_WRAP (int (w + X)) w = X"
    and "border_coordinate KLEIDICV_BORDER_TYPE_REFLECT (int (w + X)) w = w - 1 - X"
    and "right < w \<Longrightarrow> border_coordinate KLEIDICV_BORDER_TYPE_REVERSE (int (w + X)) w = w - 2 - X"
proof -
  have "int (w + X) mod int w = int X" using assms by simp
  then show "border_coordinate KLEIDICV_BORDER_TYPE_WRAP (int (w + X)) w = X"
    by (simp add: border_coordinate_def)
  have "int (w + X) mod (2 * int w) = int (w + X)" using assms by simp
  then show "border_coordinate KLEIDICV_BORDER_TYPE_REFLECT (int (w + X)) w = w - 1 - X"
    using assms by (simp add: border_coordinate_def min_def)
  show "border_coordinate KLEIDICV_BORDER_TYPE_REVERSE (int (w + X)) w = w - 2 - X" if "right < w"
  proof (cases "X = w - 2")
    case True
    then have "int (w + X) = 2 * int w - 2" using assms that by simp
    with True show ?thesis by (simp add: border_coordinate_def)
  next
    case False
    with assms that have "int (w + X) mod (2 * int w - 2) = int (w + X)" by simp
    with assms that show ?thesis by (simp add: border_coordinate_def min_def)
  qed
qed

lemma row_pixel_coordinate:
  "pad_border_type p \<noteq> KLEIDICV_BORDER_TYPE_CONSTANT \<Longrightarrow> row_pixel p src_row X
    = src_row + border_coordinate (pad_border_type p) (int X - int (left_padding p)) (pad_src_width p)
        * pad_pixel_size p"
  "pad_border_type p \<noteq> KLEIDICV_BORDER_TYPE_CONSTANT \<Longrightarrow>
    row_pixel p src_row (left_padding p + pad_src_width p + X)
    = src_row + border_coordinate (pad_border_type p) (int (pad_src_width p + X)) (pad_src_width p)
        * pad_pixel_size p"
  by (simp_all add: row_pixel_def add.assoc)

lemma wrap_row:
  assumes "pad_border_type p = KLEIDICV_BORDER_TYPE_WRAP"
    and fast: "left_padding p \<le> pad_src_width p" "right_padding p \<le> pad_src_width p"
    and "row_outside p src_row dst_row"
  shows "fill_wrap_row p src_row dst_row m = gather dst_row (row_size p) (row_byte p src_row) m"
  unfolding fill_wrap_row_def Let_def
proof (rule row_from_parts(1) [OF assms(4)])
  fix m
  show "memcpy dst_row (src_row + inner_size p - left_size p) (left_size p) m
      = gather dst_row (left_size p) (row_byte p src_row) m"
  proof (rule memcpy_part)
    fix k
    assume "k < left_size p"
    then show "row_byte p src_row k = src_row + inner_size p - left_size p + k"
    proof (rule row_byte_left)
      fix X j
      assume X: "X < left_padding p" "k = X * pad_pixel_size p + j"
        and "row_byte p src_row k = row_pixel p src_row X + j"
      moreover have "src_row + inner_size p - left_size p + k
          = src_row + (pad_src_width p - left_padding p + X) * pad_pixel_size p + j"
        using mult_le_mono1 [OF fast(1), of "pad_pixel_size p"]
        unfolding inner_size_def left_size_def X(2) add_mult_distrib diff_mult_distrib by linarith
      ultimately show ?thesis
        using assms(1) mirror_left(1) [OF X(1) fast(1)] by (simp add: row_pixel_coordinate)
    qed
  qed
  show "memcpy (dst_row + right_offset p) src_row (right_size p) m
      = gather (dst_row + right_offset p) (right_size p) (\<lambda>k. row_byte p src_row (right_offset p + k)) m"
  proof (rule memcpy_part)
    fix k
    assume "k < right_size p"
    then show "row_byte p src_row (right_offset p + k) = src_row + k"
    proof (rule row_byte_right)
      fix X j
      assume X: "X < right_padding p" "k = X * pad_pixel_size p + j"
        and "row_byte p src_row (right_offset p + k)
          = row_pixel p src_row (left_padding p + pad_src_width p + X) + j"
      then show ?thesis
        using assms(1) mirror_right(1) [OF X(1) fast(2)] by (simp add: row_pixel_coordinate)
    qed
  qed
qed (use assms(1) in \<open>simp add: row_byte_inner\<close>)

lemma reversed_pixel:
  assumes "j < P" and "i \<le> n"
  shows "reversed (a + n * P) P (i * P + j) = a + (n - i) * P + j"
  using assms mult_le_mono1 [OF assms(2), of P] by (simp add: reversed_lane diff_mult_distrib)

lemma reflect_row:
  assumes bt: "pad_border_type p = KLEIDICV_BORDER_TYPE_REFLECT" and P: "0 < pad_pixel_size p"
    and w: "0 < pad_src_width p"
    and fast: "left_padding p \<le> pad_src_width p" "right_padding p \<le> pad_src_width p"
    and "row_outside p src_row dst_row"
  shows "fill_reflect_row (template_pixel_size (pad_pixel_size p)) p src_row dst_row m
    = gather dst_row (row_size p) (row_byte p src_row) m"
  unfolding fill_reflect_row_def Let_def
proof (rule row_from_parts(1) [OF assms(6)])
  let ?P = "pad_pixel_size p"
  let ?left = "src_row + (if left_size p = 0 then 0 else left_size p - ?P)"
  let ?right = "src_row + (if right_size p = 0 then 0 else inner_size p - ?P)"
  have left: "row_byte p src_row k = reversed ?left ?P k" if "k < left_size p" for k
    using that
  proof (rule row_byte_left)
    fix X j
    assume k: "k = X * ?P + j" "j < ?P" and X: "X < left_padding p"
      and byte: "row_byte p src_row k = row_pixel p src_row X + j"
    have "?left = src_row + (left_padding p - 1) * ?P"
      using that by (simp add: left_size_def diff_mult_distrib)
    then show ?thesis
      using byte k bt mirror_left(2) [OF X fast(1)] reversed_pixel [OF k(2), of X "left_padding p - 1" src_row] X
      by (simp add: row_pixel_coordinate)
  qed
  have right: "row_byte p src_row (right_offset p + k) = reversed ?right ?P k" if "k < right_size p" for k
    using that
  proof (rule row_byte_right)
    fix X j
    assume k: "k = X * ?P + j" "j < ?P" and X: "X < right_padding p"
      and byte: "row_byte p src_row (right_offset p + k)
        = row_pixel p src_row (left_padding p + pad_src_width p + X) + j"
    have "?right = src_row + (pad_src_width p - 1) * ?P"
      using that by (simp add: inner_size_def diff_mult_distrib)
    then show ?thesis
      using byte k bt mirror_right(2) [OF X fast(2)] X fast(2)
        reversed_pixel [OF k(2), of X "pad_src_width p - 1" src_row]
      by (simp add: row_pixel_coordinate)
  qed
  have "right_size p \<le> inner_size p" "?P \<le> inner_size p"
    using fast(2) w by (simp_all add: right_size_def inner_size_def)
  then have len: "left_size p \<le> ?left + ?P" "right_size p \<le> ?right + ?P" by auto
  fix m
  show "copy_reversed_pixels (template_pixel_size ?P) ?P ?left dst_row (left_size p) m
      = gather dst_row (left_size p) (row_byte p src_row) m"
    if "\<And>k. k < left_size p \<Longrightarrow> outside dst_row (left_size p) (row_byte p src_row) k"
    by (rule reversed_part) (use P left len that in auto)
  show "copy_reversed_pixels (template_pixel_size ?P) ?P ?right (dst_row + right_offset p) (right_size p) m
    = gather (dst_row + right_offset p) (right_size p) (\<lambda>k. row_byte p src_row (right_offset p + k)) m"
    if "\<And>k. k < right_size p \<Longrightarrow> outside (dst_row + right_offset p) (right_size p)
      (\<lambda>k. row_byte p src_row (right_offset p + k)) k"
    by (rule reversed_part) (use P right len that in auto)
qed (use bt in \<open>simp add: row_byte_inner\<close>)

lemma reverse_row:
  assumes bt: "pad_border_type p = KLEIDICV_BORDER_TYPE_REVERSE" and P: "0 < pad_pixel_size p"
    and fast: "left_padding p < pad_src_width p" "right_padding p < pad_src_width p"
    and "row_outside p src_row dst_row"
  shows "fill_reverse_row (template_pixel_size (pad_pixel_size p)) p src_row dst_row m
    = gather dst_row (row_size p) (row_byte p src_row) m"
  unfolding fill_reverse_row_def Let_def
proof (rule row_from_parts(1) [OF assms(5)])
  let ?P = "pad_pixel_size p"
  let ?left = "src_row + (if left_size p = 0 then 0 else left_size p)"
  let ?right = "src_row + (if right_size p = 0 then 0 else inner_size p - (?P + ?P))"
  have left: "row_byte p src_row k = reversed ?left ?P k" if "k < left_size p" for k
    using that
  proof (rule row_byte_left)
    fix X j
    assume k: "k = X * ?P + j" "j < ?P" and X: "X < left_padding p"
      and byte: "row_byte p src_row k = row_pixel p src_row X + j"
    have "?left = src_row + left_padding p * ?P" by (simp add: left_size_def)
    then show ?thesis
      using byte k bt mirror_left(3) [OF X _ fast(1)] reversed_pixel [OF k(2), of X "left_padding p" src_row]
        X fast(1) by (simp add: row_pixel_coordinate)
  qed
  have right: "row_byte p src_row (right_offset p + k) = reversed ?right ?P k" if "k < right_size p" for k
    using that
  proof (rule row_byte_right)
    fix X j
    assume k: "k = X * ?P + j" "j < ?P" and X: "X < right_padding p"
      and byte: "row_byte p src_row (right_offset p + k)
        = row_pixel p src_row (left_padding p + pad_src_width p + X) + j"
    have "inner_size p - (?P + ?P) = (pad_src_width p - 2) * ?P"
      by (simp add: inner_size_def diff_mult_distrib mult_2)
    then have "?right = src_row + (pad_src_width p - 2) * ?P" using that by simp
    then show ?thesis
      using byte k bt mirror_right(3) [OF X _ fast(2)] X fast(2)
        reversed_pixel [OF k(2), of X "pad_src_width p - 2" src_row]
      by (simp add: row_pixel_coordinate)
  qed
  have "right_size p \<le> inner_size p - (?P + ?P) + ?P"
  proof (cases "right_padding p")
    case 0
    then show ?thesis by (simp add: right_size_def)
  next
    case (Suc r)
    with mult_le_mono1 [of "Suc (Suc r)" "pad_src_width p" ?P] fast(2)
    show ?thesis unfolding right_size_def inner_size_def by simp
  qed
  then have len: "left_size p \<le> ?left + ?P" "right_size p \<le> ?right + ?P" by auto
  fix m
  show "copy_reversed_pixels (template_pixel_size ?P) ?P ?left dst_row (left_size p) m
      = gather dst_row (left_size p) (row_byte p src_row) m"
    if "\<And>k. k < left_size p \<Longrightarrow> outside dst_row (left_size p) (row_byte p src_row) k"
    by (rule reversed_part) (use P left len that in auto)
  show "copy_reversed_pixels (template_pixel_size ?P) ?P ?right (dst_row + right_offset p) (right_size p) m
    = gather (dst_row + right_offset p) (right_size p) (\<lambda>k. row_byte p src_row (right_offset p + k)) m"
    if "\<And>k. k < right_size p \<Longrightarrow> outside (dst_row + right_offset p) (right_size p)
      (\<lambda>k. row_byte p src_row (right_offset p + k)) k"
    by (rule reversed_part) (use P right len that in auto)
qed (use bt in \<open>simp add: row_byte_inner\<close>)

subsection \<open>Pixels through a table\<close>

text \<open>Loops that carry an address along are loops over the addresses.\<close>

lemma fold_cursor:
  fixes base d :: nat
  shows "fold (\<lambda>i (c, m). (c + d, f i c m)) [a..<b] (base + a * d, m)
    = (base + max a b * d, fold (\<lambda>i. f i (base + i * d)) [a..<b] m)"
proof (induction b)
  case (Suc b)
  then show ?case by (cases "a \<le> b") (auto simp: max_def)
qed simp

lemma fold_cursors:
  fixes base base' d d' t :: nat
  assumes "t \<le> a"
  shows "fold (\<lambda>i (c, e, m). (c + d, e + d', f e c m)) [a..<b] (base + a * d, base' + (a - t) * d', m)
    = (base + max a b * d, base' + (max a b - t) * d',
       fold (\<lambda>i. f (base' + (i - t) * d') (base + i * d)) [a..<b] m)"
proof (induction b)
  case (Suc b)
  with assms show ?case by (cases "a \<le> b") (auto simp: max_def Suc_diff_le)
qed simp

definition indexed_byte :: "nat \<Rightarrow> nat \<Rightarrow> (nat \<Rightarrow> nat) \<Rightarrow> nat \<Rightarrow> nat" where
  "indexed_byte P src indices k = src + indices (k div P) * P + k mod P"

lemma fold_pixels_gather:
  assumes "0 < P" and "\<And>k. k < n * P \<Longrightarrow> outside dst (n * P) (indexed_byte P src indices) k"
  shows "fold (\<lambda>i. memcpy (dst + i * P) (src + indices i * P) P) [0..<n] m
    = gather dst (n * P) (indexed_byte P src indices) m"
  using assms(2)
proof (induction n)
  case (Suc n)
  have "outside dst (n * P) (indexed_byte P src indices) k" if "k < n * P" for k
    using Suc.prems [of k] that by (auto simp: outside_def)
  then have "fold (\<lambda>i. memcpy (dst + i * P) (src + indices i * P) P) [0..<Suc n] m
      = memcpy (dst + n * P) (src + indices n * P) P (gather dst (n * P) (indexed_byte P src indices) m)"
    using Suc.IH by simp
  also have "\<dots> = gather (dst + n * P) P (\<lambda>k. indexed_byte P src indices (n * P + k))
      (gather dst (n * P) (indexed_byte P src indices) m)"
    unfolding memcpy_gather by (rule gather_same) (simp add: indexed_byte_def)
  also have "\<dots> = gather dst (n * P + P) (indexed_byte P src indices) m"
    by (rule gather_split) (use Suc.prems in \<open>simp add: add.commute\<close>)
  finally show ?case by (simp add: add.commute)
qed simp

lemma store_lane_memcpy: "store_bytes dst (load_lane es src m) m = memcpy dst src es m"
proof (rule mem_block_eq [of es _ dst])
  fix k
  assume "k < es"
  then show "store_bytes dst (load_lane es src m) m (dst + k) = memcpy dst src es m (dst + k)"
    by (simp add: store_bytes_def memcpy_gather)
next
  fix a
  assume "a < dst \<or> dst + es \<le> a"
  then show "store_bytes dst (load_lane es src m) m a = memcpy dst src es m a"
    by (auto simp: store_bytes_def memcpy_def)
qed

lemma copy_indexed_gather:
  assumes "0 < P" and "\<And>k. k < n * P \<Longrightarrow> outside dst (n * P) (indexed_byte P src indices) k"
  shows "copy_indexed_pixels_common (template_pixel_size P) P src dst indices n m
    = gather dst (n * P) (indexed_byte P src indices) m"
proof -
  have typed: "copy_indexed_pixels_typed P src dst indices n m
      = fold (\<lambda>i. memcpy (dst + i * P) (src + indices i * P) P) [0..<n] m"
    by (simp add: copy_indexed_pixels_typed_def store_lane_memcpy)
  have bytes: "copy_indexed_pixels_by_bytes P src dst indices n m
      = fold (\<lambda>i. memcpy (dst + i * P) (src + indices i * P) P) [0..<n] m"
    using fold_cursor [of P "\<lambda>i c. memcpy (dst + c) (src + indices i * P) P" 0 n 0 m]
    by (simp add: copy_indexed_pixels_by_bytes_def)
  have "copy_indexed_pixels_common (template_pixel_size P) P src dst indices n m
      = fold (\<lambda>i. memcpy (dst + i * P) (src + indices i * P) P) [0..<n] m"
    using assms(1) typed bytes
    by (auto simp: copy_indexed_pixels_common_def template_pixel_size_def split: if_splits)
  then show ?thesis using fold_pixels_gather [OF assms] by simp
qed

subsection \<open>The tables\<close>

lemma build_coordinate_sequence_length [simp]:
  "length (build_coordinate_sequence f at n start len xs) = length xs"
  unfolding build_coordinate_sequence_def by (rule arr.fill_size) simp

lemma build_coordinate_sequence_nth:
  assumes "at + n \<le> length xs" and "i < length xs"
  shows "build_coordinate_sequence f at n start len xs ! i
    = (if at \<le> i \<and> i < at + n then f (start + int (i - at)) len else xs ! i)"
proof -
  let ?ys = "build_coordinate_sequence f at n start len xs"
  have "arr_get ?ys i = (if at \<le> i \<and> i < at + n then Some (f (start + int (i - at)) len) else arr_get xs i)"
  proof (cases "at \<le> i \<and> i < at + n")
    case True
    then have "i = at + (i - at)" and mem: "i - at \<in> set [0..<n]" by auto
    then show ?thesis
      using arr.fill_get [of "[0..<n]" "\<lambda>j. at + j" xs "i - at" "\<lambda>j. f (start + int j) len"]
        assms True unfolding build_coordinate_sequence_def by (simp add: inj_on_def)
  next
    case False
    then have "i \<notin> (\<lambda>j. at + j) ` set [0..<n]" by auto
    moreover have "\<forall>j \<in> set [0..<n]. at + j < length xs" using assms(1) by auto
    ultimately show ?thesis
      using arr.fill_get_other [of "[0..<n]" "\<lambda>j. at + j" xs i "\<lambda>j. f (start + int j) len"] False
      unfolding build_coordinate_sequence_def by auto
  qed
  with assms(2) show ?thesis by (auto simp: arr_get_def split: if_splits)
qed

text \<open>The operation that is built for given parameters, whatever memory the allocation held.\<close>

definition strategy_of :: "AddPaddingByCopyParameters \<Rightarrow> AddPaddingByCopyBorderStrategy" where
  "strategy_of p =
     resolve_border_strategy (pad_src_width p) (left_padding p) (right_padding p) (pad_border_type p)"

definition operation_for :: "AddPaddingByCopyParameters \<Rightarrow> padding_operation \<Rightarrow> bool" where
  "operation_for p op \<longleftrightarrow>
     op_parameters op = p \<and> op_strategy op = strategy_of p
     \<and> op_PixelSize op = template_pixel_size (pad_pixel_size p)
     \<and> (\<exists>contents. op_storage op =
           construct (strategy_of p) p (map contents [0..<storage_word_count (strategy_of p) p]))"

lemma create_operation_for:
  "create_add_padding_by_copy_operation object_size malloc p (strategy_of p) = Some op
    \<Longrightarrow> operation_for p op"
  by (auto simp: create_add_padding_by_copy_operation_def allocate_operation_def operation_for_def
      Let_def split: option.splits)

definition mapped_strategy :: "AddPaddingByCopyBorderStrategy \<Rightarrow> bool" where
  "mapped_strategy s \<longleftrightarrow> s \<in> {kReflectFast, kReverseFast, kWrapFast, kIndexed}"

definition implemented :: "AddPaddingByCopyParameters \<Rightarrow> bool" where
  "implemented p = add_padding_by_copy_is_implemented (pad_src_width p) (pad_src_height p)
     (pad_pixel_size p) (pad_border_type p)"

lemma implemented_facts:
  assumes "implemented p"
  shows "0 < pad_pixel_size p" and "pad_border_type p \<in> {KLEIDICV_BORDER_TYPE_CONSTANT,
    KLEIDICV_BORDER_TYPE_REPLICATE, KLEIDICV_BORDER_TYPE_WRAP, KLEIDICV_BORDER_TYPE_REFLECT,
    KLEIDICV_BORDER_TYPE_REVERSE}"
    and "pad_border_type p \<noteq> KLEIDICV_BORDER_TYPE_CONSTANT \<Longrightarrow> 0 < pad_src_width p"
    and "pad_border_type p \<noteq> KLEIDICV_BORDER_TYPE_CONSTANT \<Longrightarrow> 0 < pad_src_height p"
  using assms by (auto simp: implemented_def add_padding_by_copy_is_implemented_def Let_def split: if_splits)

text \<open>The index function behind each mapped strategy.\<close>

definition index_of_type :: "kleidicv_border_type_t \<Rightarrow> int \<Rightarrow> nat \<Rightarrow> nat" where
  "index_of_type bt =
     (if bt = KLEIDICV_BORDER_TYPE_WRAP then wrap_index
      else if bt = KLEIDICV_BORDER_TYPE_REFLECT then reflect_index else reverse_index)"

lemma index_of_type_eq:
  assumes "mapped_strategy (strategy_of p)" and "implemented p" and "0 < len"
  shows "index_of_type (pad_border_type p) x len = border_coordinate (pad_border_type p) x len"
  using assms(1,3) implemented_facts(2) [OF assms(2)]
  by (auto simp: index_of_type_def mapped_strategy_def strategy_of_def resolve_border_strategy_def
      wrap_index_eq reflect_index_eq reverse_index_eq split: if_splits)

lemma vertical_rows_nth:
  assumes "at + top_number + bottom_number \<le> length xs"
  shows "i < top_number \<Longrightarrow>
      build_vertical_border_rows f at top_number (at + top_number) bottom_number height xs ! (at + i)
        = f (int i - int top_number) height"
    and "i < bottom_number \<Longrightarrow>
      build_vertical_border_rows f at top_number (at + top_number) bottom_number height xs
        ! (at + top_number + i) = f (int (height + i)) height"
    and "i < at \<Longrightarrow>
      build_vertical_border_rows f at top_number (at + top_number) bottom_number height xs ! i = xs ! i"
  using assms unfolding build_vertical_border_rows_def
  by (simp_all add: build_coordinate_sequence_nth)

lemma horizontal_indices_nth:
  assumes "l + r \<le> length xs"
  shows "i < l \<Longrightarrow> build_horizontal_border_indices f 0 l r width xs ! i = f (int i - int l) width"
    and "i < r \<Longrightarrow> build_horizontal_border_indices f 0 l r width xs ! (l + i) = f (int (width + i)) width"
  using assms unfolding build_horizontal_border_indices_def
  by (simp_all add: build_coordinate_sequence_nth)

lemma horizontal_indices_length [simp]:
  "length (build_horizontal_border_indices f at l r width xs) = length xs"
  by (simp add: build_horizontal_border_indices_def)

lemma construct_mapped:
  assumes "mapped_strategy (strategy_of p)"
  shows "strategy_of p \<noteq> kIndexed \<Longrightarrow> construct (strategy_of p) p xs
      = build_vertical_border_rows (index_of_type (pad_border_type p)) 0 (top_padding p)
          (0 + top_padding p) (bottom_padding p) (pad_src_height p) xs"
    and "strategy_of p = kIndexed \<Longrightarrow> construct (strategy_of p) p xs
      = prepare_indexed_maps_with (index_of_type (pad_border_type p)) p xs"
  using assms
  by (auto simp: construct_defs mapped_strategy_def strategy_of_def resolve_border_strategy_def
      index_of_type_def prepare_indexed_maps_def split: if_splits)

lemma rows_of_tables:
  assumes op: "operation_for p op" and s: "mapped_strategy (strategy_of p)" and imp: "implemented p"
    and h: "0 < pad_src_height p"
  shows "Y < top_padding p \<Longrightarrow>
      top_rows op Y = border_coordinate (pad_border_type p) (int Y - int (top_padding p)) (pad_src_height p)"
    and "i < bottom_padding p \<Longrightarrow>
      bottom_rows op i = border_coordinate (pad_border_type p) (int (pad_src_height p + i)) (pad_src_height p)"
proof -
  obtain xs where len: "length xs = storage_word_count (strategy_of p) p"
    and storage: "op_storage op = construct (strategy_of p) p xs"
    using op unfolding operation_for_def by (metis length_map length_upt diff_zero)
  have at: "top_rows_at op = (if strategy_of p = kIndexed then left_padding p + right_padding p else 0)"
    using op by (simp add: operation_for_def top_rows_at_def)
  have tb: "top_rows_at op + top_padding p + bottom_padding p \<le> length xs"
    using s by (auto simp: len at word_count_defs mapped_strategy_def)
  define ys where "ys = (if strategy_of p = kIndexed
     then build_horizontal_border_indices (index_of_type (pad_border_type p)) 0 (left_padding p)
       (right_padding p) (pad_src_width p) xs
     else xs)"
  have eq: "op_storage op = build_vertical_border_rows (index_of_type (pad_border_type p)) (top_rows_at op)
      (top_padding p) (top_rows_at op + top_padding p) (bottom_padding p) (pad_src_height p) ys"
    using construct_mapped [OF s, of xs] unfolding storage at prepare_indexed_maps_with_def ys_def by auto
  have "top_rows_at op + top_padding p + bottom_padding p \<le> length ys" using tb by (simp add: ys_def)
  note nth = vertical_rows_nth(1,2) [OF this]
  have p: "op_parameters op = p" using op by (simp add: operation_for_def)
  show "Y < top_padding p \<Longrightarrow>
      top_rows op Y = border_coordinate (pad_border_type p) (int Y - int (top_padding p)) (pad_src_height p)"
    unfolding top_rows_def eq nth(1) by (rule index_of_type_eq [OF s imp h])
  show "i < bottom_padding p \<Longrightarrow>
      bottom_rows op i = border_coordinate (pad_border_type p) (int (pad_src_height p + i)) (pad_src_height p)"
    unfolding bottom_rows_def eq p nth(2) by (rule index_of_type_eq [OF s imp h])
qed

lemma indices_of_table:
  assumes op: "operation_for p op" and s: "strategy_of p = kIndexed" and imp: "implemented p"
    and w: "0 < pad_src_width p"
  shows "X < left_padding p \<Longrightarrow>
      border_indices op X = border_coordinate (pad_border_type p) (int X - int (left_padding p)) (pad_src_width p)"
    and "i < right_padding p \<Longrightarrow>
      border_indices op (left_padding p + i)
        = border_coordinate (pad_border_type p) (int (pad_src_width p + i)) (pad_src_width p)"
proof -
  obtain xs where len: "length xs = storage_word_count kIndexed p"
    and storage: "op_storage op = construct kIndexed p xs"
    using op s unfolding operation_for_def by (metis length_map length_upt diff_zero)
  have m: "mapped_strategy (strategy_of p)" by (simp add: s mapped_strategy_def)
  have eq: "op_storage op = prepare_indexed_maps_with (index_of_type (pad_border_type p)) p xs"
    using construct_mapped(2) [OF m s] s storage by simp
  have nth: "op_storage op ! i = build_horizontal_border_indices (index_of_type (pad_border_type p)) 0
      (left_padding p) (right_padding p) (pad_src_width p) xs ! i" if "i < left_padding p + right_padding p" for i
    unfolding eq prepare_indexed_maps_with_def
    by (rule vertical_rows_nth(3)) (use that len in \<open>simp_all add: word_count_defs\<close>)
  have lr: "left_padding p + right_padding p \<le> length xs" by (simp add: len word_count_defs)
  show "X < left_padding p \<Longrightarrow>
      border_indices op X = border_coordinate (pad_border_type p) (int X - int (left_padding p)) (pad_src_width p)"
    and "i < right_padding p \<Longrightarrow>
      border_indices op (left_padding p + i)
        = border_coordinate (pad_border_type p) (int (pad_src_width p + i)) (pad_src_width p)"
    using horizontal_indices_nth [OF lr] index_of_type_eq [OF m imp w]
    by (simp_all add: border_indices_def nth)
qed

lemma indexed_part:
  assumes "0 < P" and f: "\<And>k. k < n * P \<Longrightarrow> f k = indexed_byte P src indices k"
    and "\<And>k. k < n * P \<Longrightarrow> outside dst (n * P) f k"
  shows "copy_indexed_pixels_common (template_pixel_size P) P src dst indices n m = gather dst (n * P) f m"
proof -
  have "outside dst (n * P) (indexed_byte P src indices) k" if "k < n * P" for k
    using assms(2,3) that by (simp add: outside_def)
  with assms(1) have "copy_indexed_pixels_common (template_pixel_size P) P src dst indices n m
      = gather dst (n * P) (indexed_byte P src indices) m" by (intro copy_indexed_gather)
  also have "\<dots> = gather dst (n * P) f m" by (rule gather_same) (simp add: f)
  finally show ?thesis .
qed

lemma indexed_row:
  assumes op: "operation_for p op" and s: "strategy_of p = kIndexed" and imp: "implemented p"
    and out: "row_outside p src_row dst_row"
  shows "fill_indexed_row op src_row dst_row m = gather dst_row (row_size p) (row_byte p src_row) m"
proof -
  let ?P = "pad_pixel_size p"
  have bt: "pad_border_type p \<noteq> KLEIDICV_BORDER_TYPE_CONSTANT"
    using s by (auto simp: strategy_of_def resolve_border_strategy_def)
  have w: "0 < pad_src_width p" and P: "0 < ?P" using implemented_facts [OF imp] bt by auto
  have fields: "op_parameters op = p" "op_PixelSize op = template_pixel_size ?P"
    using op by (simp_all add: operation_for_def)
  have left: "row_byte p src_row k = indexed_byte ?P src_row (border_indices op) k" if "k < left_size p" for k
    using that by (rule row_byte_left)
      (simp add: row_pixel_coordinate(1) [OF bt] indexed_byte_def indices_of_table(1) [OF op s imp w])
  have right: "row_byte p src_row (right_offset p + k)
      = indexed_byte ?P src_row (\<lambda>i. border_indices op (left_padding p + i)) k" if "k < right_size p" for k
    using that by (rule row_byte_right)
      (simp add: row_pixel_coordinate(2) [OF bt] indexed_byte_def indices_of_table(2) [OF op s imp w])
  show ?thesis
    unfolding fill_indexed_row_def Let_def fields
  proof (rule row_from_parts(2) [OF out, where
        left = "copy_indexed_pixels_common (template_pixel_size ?P) ?P src_row dst_row (border_indices op)
          (left_padding p)"
        and right = "copy_indexed_pixels_common (template_pixel_size ?P) ?P src_row (dst_row + right_offset p)
          (\<lambda>i. border_indices op (left_padding p + i)) (right_padding p)"])
    fix m
    show "copy_indexed_pixels_common (template_pixel_size ?P) ?P src_row dst_row (border_indices op)
        (left_padding p) m = gather dst_row (left_size p) (row_byte p src_row) m"
      if "\<And>k. k < left_size p \<Longrightarrow> outside dst_row (left_size p) (row_byte p src_row) k"
      unfolding left_size_def
      by (rule indexed_part [OF P]) (use left that in \<open>auto simp: left_size_def\<close>)
    show "copy_indexed_pixels_common (template_pixel_size ?P) ?P src_row (dst_row + right_offset p)
        (\<lambda>i. border_indices op (left_padding p + i)) (right_padding p) m
      = gather (dst_row + right_offset p) (right_size p) (\<lambda>k. row_byte p src_row (right_offset p + k)) m"
      if "\<And>k. k < right_size p \<Longrightarrow> outside (dst_row + right_offset p) (right_size p)
        (\<lambda>k. row_byte p src_row (right_offset p + k)) k"
      unfolding right_size_def
      by (rule indexed_part [OF P]) (use right that in \<open>auto simp: right_size_def\<close>)
  qed (use implemented_facts(2) [OF imp] in \<open>simp add: row_byte_inner\<close>)
qed

section \<open>Stripes of the padded image\<close>

text \<open>The address behind pixel \<open>(X, Y)\<close> of the padded image, and the row that shows it.\<close>

definition border_address :: "AddPaddingByCopyParameters \<Rightarrow> nat \<Rightarrow> nat \<Rightarrow> nat" where
  "border_address p X Y =
     (if pad_border_type p = KLEIDICV_BORDER_TYPE_CONSTANT then
        (if left_padding p \<le> X \<and> X < left_padding p + pad_src_width p
           \<and> top_padding p \<le> Y \<and> Y < top_padding p + pad_src_height p
         then pad_src p + (Y - top_padding p) * pad_src_stride p + (X - left_padding p) * pad_pixel_size p
         else pad_border_value p)
      else
        pad_src p
        + border_coordinate (pad_border_type p) (int Y - int (top_padding p)) (pad_src_height p)
            * pad_src_stride p
        + border_coordinate (pad_border_type p) (int X - int (left_padding p)) (pad_src_width p)
            * pad_pixel_size p)"

definition padded_byte :: "AddPaddingByCopyParameters \<Rightarrow> nat \<Rightarrow> nat \<Rightarrow> nat" where
  "padded_byte p Y k = border_address p (k div pad_pixel_size p) Y + k mod pad_pixel_size p"

definition padded_row :: "AddPaddingByCopyParameters \<Rightarrow> nat \<Rightarrow> mem \<Rightarrow> mem" where
  "padded_row p Y = gather (pad_dst p + Y * pad_dst_stride p) (row_size p) (padded_byte p Y)"

text \<open>No destination row overlaps what it is made from.\<close>

definition apart :: "AddPaddingByCopyParameters \<Rightarrow> bool" where
  "apart p = list_all (\<lambda>Y. list_all (\<lambda>Y'. list_all
      (outside (pad_dst p + Y * pad_dst_stride p) (row_size p) (padded_byte p Y'))
      [0..<row_size p]) [0..<dst_height p]) [0..<dst_height p]"

lemma apart_outside:
  "apart p \<Longrightarrow> Y < dst_height p \<Longrightarrow> Y' < dst_height p \<Longrightarrow> k < row_size p \<Longrightarrow>
    outside (pad_dst p + Y * pad_dst_stride p) (row_size p) (padded_byte p Y') k"
  by (simp add: apart_def list_all_iff)

lemma split_body_rows_eq:
  assumes "split_body_rows p b e = (bb, be)" and "b \<le> e"
  shows "b \<le> bb" "bb \<le> be" "be \<le> e"
    and "Y < bb \<Longrightarrow> b \<le> Y \<Longrightarrow> Y < top_padding p"
    and "bb \<le> Y \<Longrightarrow> Y < be \<Longrightarrow> top_padding p \<le> Y \<and> Y < top_padding p + pad_src_height p"
    and "be \<le> Y \<Longrightarrow> Y < e \<Longrightarrow> top_padding p + pad_src_height p \<le> Y"
  using assms by (auto simp: split_body_rows_def Let_def min_def max_def split: if_splits)

definition mapped_source_row :: "padding_operation \<Rightarrow> nat \<Rightarrow> nat" where
  "mapped_source_row op Y =
     (let p = op_parameters op in
      pad_src p +
        (if Y < top_padding p then top_rows op Y
         else if Y < top_padding p + pad_src_height p then Y - top_padding p
         else bottom_rows op (Y - (top_padding p + pad_src_height p))) * pad_src_stride p)"

lemma fold_upt_cong:
  fixes a b :: nat
  assumes "\<And>i. a \<le> i \<Longrightarrow> i < b \<Longrightarrow> f i = g i"
  shows "fold f [a..<b] s = fold g [a..<b] s"
  by (rule fold_cong) (auto simp: assms)

lemma fold_cursor_rows:
  assumes "\<And>Y. a \<le> Y \<Longrightarrow> Y < b \<Longrightarrow> f Y (base + Y * d) = g Y"
  shows "fold (\<lambda>Y (c, m). (c + d, f Y c m)) [a..<b] (base + a * d, m)
    = (base + max a b * d, fold g [a..<b] m)"
  unfolding fold_cursor using fold_upt_cong [of a b, OF assms] by simp

lemma fold_cursors_rows:
  assumes "a < b \<Longrightarrow> t \<le> a"
    and "\<And>Y. a \<le> Y \<Longrightarrow> Y < b \<Longrightarrow> f (base' + (Y - t) * d') (base + Y * d) = g Y"
  shows "(case fold (\<lambda>Y (c, e, m). (c + d, e + d', f e c m)) [a..<b]
      (base + a * d, base' + (a - t) * d', m) of (c, e, m) \<Rightarrow> (c, m))
    = (base + max a b * d, fold g [a..<b] m)"
proof (cases "a < b")
  case True
  have "fold (\<lambda>Y. f (base' + (Y - t) * d') (base + Y * d)) [a..<b] m = fold g [a..<b] m"
    by (rule fold_upt_cong) (rule assms(2))
  with fold_cursors [OF assms(1) [OF True], where d = d and d' = d' and f = f and b = b
      and base = base and base' = base' and m = m]
  show ?thesis by simp
next
  case False
  then show ?thesis by simp
qed

lemma process_vertical_mapped_stripe_rows:
  assumes split: "split_body_rows (op_parameters op) b e = (bb, be)" and "b \<le> e"
  shows "process_vertical_mapped_stripe op bb be b e fill_row m
    = fold (\<lambda>Y. fill_row (mapped_source_row op Y)
        (pad_dst (op_parameters op) + Y * pad_dst_stride (op_parameters op))) [b..<e] m"
proof -
  let ?p = "op_parameters op"
  let ?row = "\<lambda>Y. fill_row (mapped_source_row op Y) (pad_dst ?p + Y * pad_dst_stride ?p)"
  let ?base = "top_padding ?p + pad_src_height ?p"
  note body = split_body_rows_eq [OF split assms(2)]
  have top: "fold (\<lambda>Y (dst_row, m). (dst_row + pad_dst_stride ?p,
        fill_row (pad_src ?p + top_rows op Y * pad_src_stride ?p) dst_row m)) [b..<bb]
      (pad_dst ?p + b * pad_dst_stride ?p, m) = (pad_dst ?p + max b bb * pad_dst_stride ?p, fold ?row [b..<bb] m)"
    for m
    by (rule fold_cursor_rows) (use body(4) in \<open>simp add: mapped_source_row_def Let_def\<close>)
  have mid: "(case fold (\<lambda>Y (dst_row, src_row, m). (dst_row + pad_dst_stride ?p, src_row + pad_src_stride ?p,
        fill_row src_row dst_row m)) [bb..<be]
      (pad_dst ?p + bb * pad_dst_stride ?p, pad_src ?p + (bb - top_padding ?p) * pad_src_stride ?p, m)
      of (dst_row, src_row, m) \<Rightarrow> (dst_row, m))
    = (pad_dst ?p + max bb be * pad_dst_stride ?p, fold ?row [bb..<be] m)" for m
  proof (rule fold_cursors_rows)
    show "top_padding ?p \<le> bb" if "bb < be" using body(5) [of bb] that by simp
    show "fill_row (pad_src ?p + (Y - top_padding ?p) * pad_src_stride ?p)
        (pad_dst ?p + Y * pad_dst_stride ?p) = ?row Y" if "bb \<le> Y" "Y < be" for Y
      using body(5) [OF that] by (simp add: mapped_source_row_def Let_def)
  qed
  have bot: "fold (\<lambda>Y (dst_row, m). (dst_row + pad_dst_stride ?p,
        fill_row (pad_src ?p + bottom_rows op (Y - ?base) * pad_src_stride ?p) dst_row m)) [be..<e]
      (pad_dst ?p + be * pad_dst_stride ?p, m)
    = (pad_dst ?p + max be e * pad_dst_stride ?p, fold ?row [be..<e] m)" for m
  proof (rule fold_cursor_rows)
    show "fill_row (pad_src ?p + bottom_rows op (Y - ?base) * pad_src_stride ?p)
        (pad_dst ?p + Y * pad_dst_stride ?p) = ?row Y" if "be \<le> Y" "Y < e" for Y
      using body(6) [OF that] by (simp add: mapped_source_row_def Let_def)
  qed
  have max: "max b bb = bb" "max bb be = be" using body(1,2) by simp_all
  have eq: "fold ?row [b..<e] m = fold ?row [be..<e] (fold ?row [bb..<be] (fold ?row [b..<bb] m))"
    using body(1-3) by (simp add: fold_upt_append)
  show ?thesis
  proof (cases "bb < be")
    case True
    then show ?thesis
      unfolding process_vertical_mapped_stripe_def Let_def eq
      by (simp only: top mid bot max prod.case snd_conv if_True)
  next
    case False
    with body(2) have "be = bb" by simp
    with False show ?thesis
      unfolding process_vertical_mapped_stripe_def Let_def eq
      using bot [of "fold ?row [b..<bb] m"] by (simp add: top max)
  qed
qed

text \<open>The source row that the border type asks for.\<close>

definition border_source_row :: "AddPaddingByCopyParameters \<Rightarrow> nat \<Rightarrow> nat" where
  "border_source_row p Y = pad_src p
     + border_coordinate (pad_border_type p) (int Y - int (top_padding p)) (pad_src_height p) * pad_src_stride p"

lemma row_byte_border_source:
  "pad_border_type p \<noteq> KLEIDICV_BORDER_TYPE_CONSTANT \<Longrightarrow>
    row_byte p (border_source_row p Y) k = padded_byte p Y k"
  by (simp add: row_byte_def padded_byte_def row_pixel_def border_address_def border_source_row_def)

lemma row_byte_constant_body:
  assumes "pad_border_type p = KLEIDICV_BORDER_TYPE_CONSTANT"
    and "top_padding p \<le> Y" and "Y < top_padding p + pad_src_height p"
  shows "row_byte p (pad_src p + (Y - top_padding p) * pad_src_stride p) k = padded_byte p Y k"
  using assms by (simp add: row_byte_def padded_byte_def row_pixel_def border_address_def)

lemma row_outside_padded:
  assumes "apart p" and "Y < dst_height p" and "\<And>k. row_byte p src_row k = padded_byte p Y k"
  shows "row_outside p src_row (pad_dst p + Y * pad_dst_stride p)"
  using apart_outside [OF assms(1,2,2)] assms(3) by (simp add: row_outside_def outside_def)

lemma gather_row_byte:
  assumes "\<And>k. row_byte p src_row k = padded_byte p Y k"
  shows "gather (pad_dst p + Y * pad_dst_stride p) (row_size p) (row_byte p src_row) = padded_row p Y"
  unfolding padded_row_def by (rule gather_cong) (simp add: assms)

lemma mapped_source_row_eq:
  assumes op: "operation_for p op" and s: "mapped_strategy (strategy_of p)" and imp: "implemented p"
    and Y: "Y < dst_height p"
  shows "mapped_source_row op Y = border_source_row p Y"
proof -
  have bt: "pad_border_type p \<noteq> KLEIDICV_BORDER_TYPE_CONSTANT"
    using s by (auto simp: strategy_of_def resolve_border_strategy_def mapped_strategy_def)
  note imp' = implemented_facts [OF imp]
  have h: "0 < pad_src_height p" using imp'(4) [OF bt] .
  note rows = rows_of_tables [OF op s imp h]
  have p: "op_parameters op = p" using op by (simp add: operation_for_def)
  consider "Y < top_padding p" | "top_padding p \<le> Y" "Y < top_padding p + pad_src_height p"
    | "top_padding p + pad_src_height p \<le> Y" by linarith
  then show ?thesis
  proof cases
    case 1
    then show ?thesis by (simp add: mapped_source_row_def border_source_row_def p rows(1))
  next
    case 2
    then have "border_coordinate (pad_border_type p) (int Y - int (top_padding p)) (pad_src_height p)
        = Y - top_padding p"
      using border_coordinate_inside [of "int Y - int (top_padding p)" "pad_src_height p" "pad_border_type p"]
        imp'(2) bt by (auto simp: nat_diff_distrib)
    with 2 show ?thesis by (simp add: mapped_source_row_def border_source_row_def p)
  next
    case 3
    then obtain i where i: "Y = top_padding p + pad_src_height p + i" by (metis le_iff_add)
    then have "i < bottom_padding p" using Y by (simp add: dst_height_def)
    with i show ?thesis
      by (simp add: mapped_source_row_def border_source_row_def p rows(2) add.assoc)
  qed
qed

lemma mapped_row:
  assumes op: "operation_for p op" and s: "mapped_strategy (strategy_of p)" and imp: "implemented p"
    and out: "row_outside p src_row dst_row"
  defines "S \<equiv> template_pixel_size (pad_pixel_size p)"
  shows "(case strategy_of p of
      kReflectFast \<Rightarrow> fill_reflect_row S p src_row dst_row m
    | kReverseFast \<Rightarrow> fill_reverse_row S p src_row dst_row m
    | kWrapFast \<Rightarrow> fill_wrap_row p src_row dst_row m
    | _ \<Rightarrow> fill_indexed_row op src_row dst_row m) = gather dst_row (row_size p) (row_byte p src_row) m"
proof -
  have P: "0 < pad_pixel_size p" using implemented_facts(1) [OF imp] .
  note resolve = strategy_of_def resolve_border_strategy_def can_use_reflect_fast_path_def
    can_use_reverse_fast_path_def can_use_wrap_fast_path_def
  show ?thesis
  proof (cases "strategy_of p")
    case kReflectFast
    then have "pad_border_type p = KLEIDICV_BORDER_TYPE_REFLECT" "0 < pad_src_width p"
      "left_padding p \<le> pad_src_width p" "right_padding p \<le> pad_src_width p"
      by (auto simp: resolve split: if_splits)
    from reflect_row [OF this(1) P this(2-4) out] kReflectFast show ?thesis by (simp add: S_def)
  next
    case kReverseFast
    then have "pad_border_type p = KLEIDICV_BORDER_TYPE_REVERSE"
      "left_padding p < pad_src_width p" "right_padding p < pad_src_width p"
      by (auto simp: resolve split: if_splits)
    from reverse_row [OF this(1) P this(2,3) out] kReverseFast show ?thesis by (simp add: S_def)
  next
    case kWrapFast
    then have "pad_border_type p = KLEIDICV_BORDER_TYPE_WRAP"
      "left_padding p \<le> pad_src_width p" "right_padding p \<le> pad_src_width p"
      by (auto simp: resolve split: if_splits)
    from wrap_row [OF this out] kWrapFast show ?thesis by simp
  next
    case kIndexed
    from indexed_row [OF op kIndexed imp out] kIndexed show ?thesis by simp
  qed (use s in \<open>simp_all add: mapped_strategy_def\<close>)
qed

lemma process_stripe_mapped:
  assumes op: "operation_for p op" and s: "mapped_strategy (strategy_of p)" and imp: "implemented p"
    and "apart p" and "b \<le> e" and "e \<le> dst_height p"
  shows "process_stripe op b e m = (KLEIDICV_OK, fold (padded_row p) [b..<e] m)"
proof -
  have bt: "pad_border_type p \<noteq> KLEIDICV_BORDER_TYPE_CONSTANT"
    using s by (auto simp: strategy_of_def resolve_border_strategy_def mapped_strategy_def)
  obtain bb be where split: "split_body_rows p b e = (bb, be)" by fastforce
  have fields: "op_parameters op = p" "op_PixelSize op = template_pixel_size (pad_pixel_size p)"
    "op_strategy op = strategy_of p"
    using op by (simp_all add: operation_for_def)
  define filler where "filler src_row dst_row m = (case strategy_of p of
      kReflectFast \<Rightarrow> fill_reflect_row (template_pixel_size (pad_pixel_size p)) p src_row dst_row m
    | kReverseFast \<Rightarrow> fill_reverse_row (template_pixel_size (pad_pixel_size p)) p src_row dst_row m
    | kWrapFast \<Rightarrow> fill_wrap_row p src_row dst_row m
    | _ \<Rightarrow> fill_indexed_row op src_row dst_row m)" for src_row dst_row m
  have "process_stripe op b e m
      = (KLEIDICV_OK, process_vertical_mapped_stripe op bb be b e filler m)"
    using s by (auto simp: process_stripe_def fields split Let_def mapped_strategy_def filler_def [abs_def])
  also have "process_vertical_mapped_stripe op bb be b e filler m
      = fold (\<lambda>Y. filler (mapped_source_row op Y) (pad_dst p + Y * pad_dst_stride p)) [b..<e] m"
    using process_vertical_mapped_stripe_rows [of op b e bb be filler m] split assms(5) by (simp add: fields)
  also have "\<dots> = fold (padded_row p) [b..<e] m"
  proof (rule fold_upt_cong)
    fix Y
    assume "b \<le> Y" "Y < e"
    then have Y: "Y < dst_height p" using assms(6) by simp
    note byte = row_byte_border_source [OF bt, of Y]
    have "filler (border_source_row p Y) (pad_dst p + Y * pad_dst_stride p) m' = padded_row p Y m'" for m'
      unfolding filler_def gather_row_byte [OF byte, symmetric]
      by (rule mapped_row [OF op s imp row_outside_padded [OF assms(4) Y byte]])
    then show "filler (mapped_source_row op Y) (pad_dst p + Y * pad_dst_stride p) = padded_row p Y"
      by (simp add: fun_eq_iff mapped_source_row_eq [OF op s imp Y])
  qed
  finally show ?thesis .
qed

lemma cursor_loop_rows:
  assumes "\<And>Y. b \<le> Y \<Longrightarrow> Y < e \<Longrightarrow> f (pad_dst p + Y * pad_dst_stride p) = padded_row p Y"
  shows "snd (fold (\<lambda>Y (dst_row, m). (dst_row + pad_dst_stride p, f dst_row m)) [b..<e]
      (pad_dst p + b * pad_dst_stride p, m)) = fold (padded_row p) [b..<e] m"
  using fold_cursor_rows [where f = "\<lambda>_. f" and g = "padded_row p" and a = b and b = e
      and base = "pad_dst p" and d = "pad_dst_stride p" and m = m] assms by simp

lemma process_body_rows_eq:
  assumes "\<And>Y. b \<le> Y \<Longrightarrow> Y < e \<Longrightarrow> top_padding p \<le> Y"
    and "\<And>Y. b \<le> Y \<Longrightarrow> Y < e \<Longrightarrow> fill_row (pad_src p + (Y - top_padding p) * pad_src_stride p)
      (pad_dst p + Y * pad_dst_stride p) = padded_row p Y"
  shows "process_body_rows fill_row p b e m = fold (padded_row p) [b..<e] m"
proof -
  have "(case fold (\<lambda>Y (c, r, m). (c + pad_dst_stride p, r + pad_src_stride p, fill_row r c m)) [b..<e]
        (pad_dst p + b * pad_dst_stride p, pad_src p + (b - top_padding p) * pad_src_stride p, m) of
        (c, r, m) \<Rightarrow> (c, m))
      = (pad_dst p + max b e * pad_dst_stride p, fold (padded_row p) [b..<e] m)"
    by (rule fold_cursors_rows) (use assms(1) [of b] assms(2) in auto)
  then show ?thesis by (simp add: process_body_rows_def split: prod.splits)
qed

lemma process_stripe_constant:
  assumes op: "operation_for p op" and bt: "pad_border_type p = KLEIDICV_BORDER_TYPE_CONSTANT"
    and imp: "implemented p" and "apart p" and "b \<le> e" and "e \<le> dst_height p"
  shows "process_stripe op b e m = (KLEIDICV_OK, fold (padded_row p) [b..<e] m)"
proof -
  let ?S = "template_pixel_size (pad_pixel_size p)"
  note P = implemented_facts(1) [OF imp]
  obtain bb be where split: "split_body_rows p b e = (bb, be)" by fastforce
  note body = split_body_rows_eq [OF split assms(5)]
  have fields: "op_parameters op = p" "op_PixelSize op = ?S" "op_strategy op = kConstant"
    using op bt by (simp_all add: operation_for_def strategy_of_def resolve_border_strategy_def)
  have border: "fill_constant_rows ?S p y y' m' = fold (padded_row p) [y..<y'] m'"
    if "\<And>Y k. y \<le> Y \<Longrightarrow> Y < y' \<Longrightarrow> padded_byte p Y k = repeated (pad_border_value p) (pad_pixel_size p) k"
      and "y' \<le> e" for y y' m'
    unfolding fill_constant_rows_def
  proof (rule cursor_loop_rows)
    fix Y
    assume Y: "y \<le> Y" "Y < y'"
    then have "Y < dst_height p" using assms(6) that(2) by simp
    from apart_outside [OF assms(4) this this]
    have "fill_repeated_pixel ?S (pad_pixel_size p) (pad_border_value p) (pad_dst p + Y * pad_dst_stride p)
        (row_size p) m = gather (pad_dst p + Y * pad_dst_stride p) (row_size p) (padded_byte p Y) m" for m
      by (intro fill_part P that(1) Y) (simp_all add: row_size_def)
    then show "fill_repeated_pixel ?S (pad_pixel_size p) (pad_border_value p) (pad_dst p + Y * pad_dst_stride p)
        (dst_width p * pad_pixel_size p) = padded_row p Y"
      by (simp add: fun_eq_iff padded_row_def row_size_def)
  qed
  show ?thesis
  proof (cases "inner_size p = 0")
    case True
    with P have "pad_src_width p = 0" by (simp add: inner_size_def)
    then have "fill_constant_rows ?S p b e m = fold (padded_row p) [b..<e] m"
      by (intro border) (simp_all add: padded_byte_def border_address_def bt repeated_def)
    with True show ?thesis by (simp add: process_stripe_def fields split Let_def)
  next
    case False
    have border_byte: "padded_byte p Y k = repeated (pad_border_value p) (pad_pixel_size p) k"
      if "Y < top_padding p \<or> top_padding p + pad_src_height p \<le> Y" for Y k
      using that by (auto simp: padded_byte_def border_address_def bt repeated_def)
    have top: "fill_constant_rows ?S p b bb m' = fold (padded_row p) [b..<bb] m'" for m'
    proof (rule border)
      show "bb \<le> e" using body(2,3) by simp
    qed (rule border_byte, use body(4) in blast)
    have bot: "fill_constant_rows ?S p be e m' = fold (padded_row p) [be..<e] m'" for m'
      by (rule border, rule border_byte) (use body(6) in auto)
    have mid: "process_constant_body_rows ?S p bb be m' = fold (padded_row p) [bb..<be] m'" for m'
      unfolding process_constant_body_rows_def
    proof (rule process_body_rows_eq)
      fix Y
      assume "bb \<le> Y" "Y < be"
      note Y = body(5) [OF this]
      then show "top_padding p \<le> Y" by simp
      note byte = row_byte_constant_body [OF bt conjunct1 [OF Y] conjunct2 [OF Y]]
      have lt: "Y < dst_height p" using \<open>Y < be\<close> body(3) assms(6) by simp
      from constant_row [OF bt P row_outside_padded [OF assms(4) lt byte]]
      show "fill_constant_body_row ?S p (pad_src p + (Y - top_padding p) * pad_src_stride p)
          (pad_dst p + Y * pad_dst_stride p) = padded_row p Y"
        by (simp add: fun_eq_iff gather_row_byte [OF byte])
    qed
    show ?thesis
      using False body(1-3) by (simp add: process_stripe_def fields split Let_def top mid bot fold_upt_append)
  qed
qed

lemma process_stripe_replicate:
  assumes op: "operation_for p op" and bt: "pad_border_type p = KLEIDICV_BORDER_TYPE_REPLICATE"
    and imp: "implemented p" and "apart p" and "b \<le> e" and "e \<le> dst_height p"
  shows "process_stripe op b e m = (KLEIDICV_OK, fold (padded_row p) [b..<e] m)"
proof -
  let ?S = "template_pixel_size (pad_pixel_size p)"
  have P: "0 < pad_pixel_size p" and w: "0 < pad_src_width p" and h: "0 < pad_src_height p"
    using implemented_facts [OF imp] bt by simp_all
  have nc: "pad_border_type p \<noteq> KLEIDICV_BORDER_TYPE_CONSTANT" using bt by simp
  obtain bb be where split: "split_body_rows p b e = (bb, be)" by fastforce
  note body = split_body_rows_eq [OF split assms(5)]
  have fields: "op_parameters op = p" "op_PixelSize op = ?S" "op_strategy op = kReplicate"
    using op bt by (simp_all add: operation_for_def strategy_of_def resolve_border_strategy_def)
  have row: "fill_replicate_row ?S p src_row (pad_dst p + Y * pad_dst_stride p) = padded_row p Y"
    if "src_row = border_source_row p Y" and "Y < e" for Y src_row
  proof -
    have Y: "Y < dst_height p" using that(2) assms(6) by simp
    note byte = row_byte_border_source [OF nc, of Y, folded that(1)]
    show ?thesis
      using replicate_row [OF bt P w row_outside_padded [OF assms(4) Y byte]]
      by (simp add: fun_eq_iff gather_row_byte [OF byte])
  qed
  have source: "border_source_row p Y = pad_src p
      + (if Y < top_padding p then 0 else if Y < top_padding p + pad_src_height p then Y - top_padding p
         else pad_src_height p - 1) * pad_src_stride p" for Y
    using h by (auto simp: border_source_row_def bt border_coordinate_def nat_diff_distrib)
  have top: "fill_replicate_top_rows ?S p b bb m' = fold (padded_row p) [b..<bb] m'" for m'
    unfolding fill_replicate_top_rows_def fill_replicate_rows_def
    by (rule cursor_loop_rows, rule row) (use body(2,3,4) source in auto)
  have bot: "fill_replicate_bottom_rows ?S p be e m' = fold (padded_row p) [be..<e] m'" for m'
    unfolding fill_replicate_bottom_rows_def fill_replicate_rows_def
  proof (rule cursor_loop_rows, rule row)
    fix Y
    assume Y: "be \<le> Y" "Y < e"
    from body(6) [OF Y]
    show "pad_src p + (pad_src_height p - 1) * pad_src_stride p = border_source_row p Y"
      by (simp add: source)
  qed
  have mid: "process_replicate_body_rows ?S p bb be m' = fold (padded_row p) [bb..<be] m'" for m'
    unfolding process_replicate_body_rows_def
  proof (rule process_body_rows_eq)
    fix Y
    assume "bb \<le> Y" "Y < be"
    note Y = body(5) [OF this]
    then show "top_padding p \<le> Y" by simp
    show "fill_replicate_row ?S p (pad_src p + (Y - top_padding p) * pad_src_stride p)
        (pad_dst p + Y * pad_dst_stride p) = padded_row p Y"
      by (rule row) (use Y \<open>Y < be\<close> body(3) in \<open>simp_all add: source\<close>)
  qed
  show ?thesis
    using body(1-3) by (simp add: process_stripe_def fields split Let_def top mid bot fold_upt_append)
qed

text \<open>Every strategy, in one statement.\<close>

lemma mapped_strategy_if:
  "pad_border_type p \<noteq> KLEIDICV_BORDER_TYPE_CONSTANT \<Longrightarrow> pad_border_type p \<noteq> KLEIDICV_BORDER_TYPE_REPLICATE
    \<Longrightarrow> mapped_strategy (strategy_of p)"
  by (auto simp: mapped_strategy_def strategy_of_def resolve_border_strategy_def)

lemma process_stripe_rows:
  assumes "operation_for p op" and "implemented p" and "apart p" and "b \<le> e" and "e \<le> dst_height p"
  shows "process_stripe op b e m = (KLEIDICV_OK, fold (padded_row p) [b..<e] m)"
proof -
  consider "pad_border_type p = KLEIDICV_BORDER_TYPE_CONSTANT"
    | "pad_border_type p = KLEIDICV_BORDER_TYPE_REPLICATE" | "mapped_strategy (strategy_of p)"
    using mapped_strategy_if by blast
  then show ?thesis
    using process_stripe_constant [OF assms(1) _ assms(2-5)] process_stripe_replicate [OF assms(1) _ assms(2-5)]
      process_stripe_mapped [OF assms(1) _ assms(2-5)] by cases blast+
qed

lemma padded_rows_operation:
  assumes "apart p" and "dst_height p \<le> 1 \<or> row_size p \<le> pad_dst_stride p"
  shows "row_operation (padded_row p) (dst_height p)"
  unfolding padded_row_def
proof (rule footprint_rows [OF footprint_gather])
  fix i j
  assume ij: "i < dst_height p" "j < dst_height p" "i \<noteq> j"
  then have "row_size p \<le> pad_dst_stride p" using assms(2) by auto
  then show "{pad_dst p + i * pad_dst_stride p..<pad_dst p + i * pad_dst_stride p + row_size p}
      \<inter> {pad_dst p + j * pad_dst_stride p..<pad_dst p + j * pad_dst_stride p + row_size p} = {}"
    by (rule rows_disjoint [OF _ ij(3)])
  have "padded_byte p j k \<notin> {pad_dst p + i * pad_dst_stride p..<pad_dst p + i * pad_dst_stride p + row_size p}"
    if "k < row_size p" for k
    using apart_outside [OF assms(1) ij(1,2) that] by (auto simp: outside_def)
  then show "{pad_dst p + i * pad_dst_stride p..<pad_dst p + i * pad_dst_stride p + row_size p}
      \<inter> padded_byte p j ` {..<row_size p} = {}" by auto
qed

text \<open>The usual layout: everything that is read lies before the destination.\<close>

lemma apart_after:
  assumes imp: "implemented p"
    and src: "pad_src p + (pad_src_height p - 1) * pad_src_stride p + inner_size p \<le> pad_dst p"
    and bv: "pad_border_type p = KLEIDICV_BORDER_TYPE_CONSTANT \<Longrightarrow> pad_border_value p + pad_pixel_size p \<le> pad_dst p"
  shows "apart p"
proof -
  let ?P = "pad_pixel_size p"
  note imp' = implemented_facts [OF imp]
  have in_src: "pad_src p + y * pad_src_stride p + x * ?P + j < pad_dst p"
    if "y < pad_src_height p" "x < pad_src_width p" "j < ?P" for x y j
  proof -
    have "y * pad_src_stride p \<le> (pad_src_height p - 1) * pad_src_stride p"
      using that(1) by (intro mult_le_mono1) simp
    moreover have "Suc x * ?P \<le> inner_size p"
      unfolding inner_size_def by (rule mult_le_mono1) (use that(2) in simp)
    then have "x * ?P + j < inner_size p" using that(3) by simp
    ultimately show ?thesis using src by linarith
  qed
  have "padded_byte p Y k < pad_dst p" for Y k
  proof -
    have j: "k mod ?P < ?P" using imp'(1) by simp
    show ?thesis
    proof (cases "pad_border_type p = KLEIDICV_BORDER_TYPE_CONSTANT")
      case True
      have "(Y - top_padding p) < pad_src_height p" if "top_padding p \<le> Y" "Y < top_padding p + pad_src_height p"
        using that by simp
      moreover have "k div ?P - left_padding p < pad_src_width p"
        if "left_padding p \<le> k div ?P" "k div ?P < left_padding p + pad_src_width p" using that by simp
      ultimately show ?thesis
        using in_src [OF _ _ j] j bv [OF True] True by (auto simp: padded_byte_def border_address_def)
    next
      case False
      have h: "0 < pad_src_height p" and w: "0 < pad_src_width p" using imp' False by simp_all
      show ?thesis
        using in_src [OF border_coordinate_less [OF h] border_coordinate_less [OF w] j] False
        by (simp add: padded_byte_def border_address_def)
    qed
  qed
  then have "padded_byte p Y k < pad_dst p + Y' * pad_dst_stride p" for Y Y' k
    by (meson le_add1 less_le_trans)
  then show ?thesis by (simp add: apart_def list_all_iff outside_def)
qed

section \<open>The checks\<close>

definition pixel_alignment :: "nat \<Rightarrow> nat" where
  "pixel_alignment P = (if P \<in> {2, 6} then 2 else if P \<in> {4, 12} then 4 else if P = 8 then 8 else 1)"

lemma pointer_check_as:
  "add_padding_by_copy_check_pointer_and_stride_as (2 ^ k) pointer stride height = KLEIDICV_OK
    \<longleftrightarrow> pointer \<noteq> nullptr \<and> 2 ^ k dvd pointer \<and> (height \<le> 1 \<or> 2 ^ k dvd stride)"
proof -
  have "make_pointer_check_alignment (2 ^ k) pointer = KLEIDICV_OK \<longleftrightarrow> 2 ^ k dvd pointer"
    using one_less_power [of "2 :: nat" k]
    by (cases "k = 0") (simp_all add: make_pointer_check_alignment_def is_misaligned_dvd)
  then show ?thesis
    using check_pointer_and_stride_OK [of k pointer stride height]
    unfolding add_padding_by_copy_check_pointer_and_stride_as_def checks_OK by auto
qed

lemma pointer_check:
  "add_padding_by_copy_check_pointer_and_stride pointer stride height P = KLEIDICV_OK
    \<longleftrightarrow> pointer \<noteq> nullptr \<and> pixel_alignment P dvd pointer \<and> (height \<le> 1 \<or> pixel_alignment P dvd stride)"
  using pointer_check_as [of 0 pointer stride height] pointer_check_as [of 1 pointer stride height]
    pointer_check_as [of 2 pointer stride height] pointer_check_as [of 3 pointer stride height]
  unfolding add_padding_by_copy_check_pointer_and_stride_def pixel_alignment_def by auto

lemma wrapped_sum:
  "a \<le> KLEIDICV_MAX_IMAGE_PIXELS \<Longrightarrow> b \<le> KLEIDICV_MAX_IMAGE_PIXELS \<Longrightarrow> size_wrap (int a + int b) = a + b"
  using size_wrap_id [of "a + b"] by (simp add: KLEIDICV_MAX_IMAGE_PIXELS_def size_max_def)

definition padding_sizes_ok :: "AddPaddingByCopyParameters \<Rightarrow> bool" where
  "padding_sizes_ok p \<longleftrightarrow>
     pad_src_width p * pad_src_height p \<le> KLEIDICV_MAX_IMAGE_PIXELS
     \<and> dst_width p \<le> KLEIDICV_MAX_IMAGE_PIXELS \<and> dst_height p \<le> KLEIDICV_MAX_IMAGE_PIXELS
     \<and> dst_width p * dst_height p \<le> KLEIDICV_MAX_IMAGE_PIXELS"

definition padding_pointers_ok :: "AddPaddingByCopyParameters \<Rightarrow> bool" where
  "padding_pointers_ok p \<longleftrightarrow>
     pad_src p \<noteq> nullptr \<and> pixel_alignment (pad_pixel_size p) dvd pad_src p
     \<and> (pad_src_height p \<le> 1 \<or> pixel_alignment (pad_pixel_size p) dvd pad_src_stride p)
     \<and> pad_dst p \<noteq> nullptr \<and> pixel_alignment (pad_pixel_size p) dvd pad_dst p
     \<and> (dst_height p \<le> 1 \<or> pixel_alignment (pad_pixel_size p) dvd pad_dst_stride p)
     \<and> (pad_border_type p = KLEIDICV_BORDER_TYPE_CONSTANT \<longrightarrow> pad_border_value p \<noteq> nullptr)"

lemma checks_exact:
  "add_padding_by_copy_checks p = Inr h \<longleftrightarrow>
     implemented p \<and> padding_sizes_ok p \<and> padding_pointers_ok p \<and> h = dst_height p"
proof -
  let ?M = KLEIDICV_MAX_IMAGE_PIXELS
  let ?fits = "left_padding p \<le> ?M \<and> right_padding p \<le> ?M \<and> top_padding p \<le> ?M \<and> bottom_padding p \<le> ?M
    \<and> pad_src_width p \<le> ?M \<and> pad_src_height p \<le> ?M \<and> left_padding p + right_padding p \<le> ?M
    \<and> top_padding p + bottom_padding p \<le> ?M"
  show ?thesis
  proof (cases ?fits)
    case True
    then have wraps: "size_wrap (int (left_padding p) + int (right_padding p)) = left_padding p + right_padding p"
      "size_wrap (int (top_padding p) + int (bottom_padding p)) = top_padding p + bottom_padding p"
      "size_wrap (int (pad_src_width p) + int (left_padding p + right_padding p)) = dst_width p"
      "size_wrap (int (pad_src_height p) + int (top_padding p + bottom_padding p)) = dst_height p"
      by (simp_all only: wrapped_sum dst_width_def dst_height_def add.assoc)
    have diffs: "pad_src_width p > ?M - (left_padding p + right_padding p) \<longleftrightarrow> \<not> dst_width p \<le> ?M"
      "pad_src_height p > ?M - (top_padding p + bottom_padding p) \<longleftrightarrow> \<not> dst_height p \<le> ?M"
      using True by (auto simp: dst_width_def dst_height_def)
    show ?thesis
      unfolding add_padding_by_copy_checks_def Let_def wraps diffs
      using True check_image_size_OK [of "pad_src_width p" "pad_src_height p"]
        check_image_size_OK [of "dst_width p" "dst_height p"]
        pointer_check [of "pad_src p" "pad_src_stride p" "pad_src_height p" "pad_pixel_size p"]
        pointer_check [of "pad_dst p" "pad_dst_stride p" "dst_height p" "pad_pixel_size p"]
      by (auto simp: implemented_def padding_sizes_ok_def padding_pointers_ok_def any_null_def)
  next
    case False
    then have "\<not> padding_sizes_ok p" by (auto simp: padding_sizes_ok_def dst_width_def dst_height_def)
    moreover have "add_padding_by_copy_checks p \<noteq> Inr h"
    proof (cases "left_padding p \<le> ?M \<and> right_padding p \<le> ?M \<and> top_padding p \<le> ?M \<and> bottom_padding p \<le> ?M")
      case True
      then have wraps: "size_wrap (int (left_padding p) + int (right_padding p)) = left_padding p + right_padding p"
        "size_wrap (int (top_padding p) + int (bottom_padding p)) = top_padding p + bottom_padding p"
        by (simp_all add: wrapped_sum)
      show ?thesis using False True unfolding add_padding_by_copy_checks_def Let_def wraps by auto
    next
      case False
      then show ?thesis unfolding add_padding_by_copy_checks_def Let_def by auto
    qed
    ultimately show ?thesis by simp
  qed
qed

section \<open>Properties\<close>

text \<open>What the padded rows hold, byte by byte.\<close>

lemma fold_padded_rows:
  assumes "apart p" and "dst_height p \<le> 1 \<or> row_size p \<le> pad_dst_stride p" and "n \<le> dst_height p"
  shows "(\<forall>Y < n. \<forall>k < row_size p. fold (padded_row p) [0..<n] m (pad_dst p + Y * pad_dst_stride p + k)
      = m (padded_byte p Y k))
    \<and> (\<forall>a. (\<forall>Y < n. a \<notin> {pad_dst p + Y * pad_dst_stride p..<pad_dst p + Y * pad_dst_stride p + row_size p})
        \<longrightarrow> fold (padded_row p) [0..<n] m a = m a)"
  using assms(3)
proof (induction n)
  case 0
  then show ?case by simp
next
  case (Suc n)
  let ?m = "fold (padded_row p) [0..<n] m"
  let ?row = "\<lambda>Y. {pad_dst p + Y * pad_dst_stride p..<pad_dst p + Y * pad_dst_stride p + row_size p}"
  have step: "fold (padded_row p) [0..<Suc n] m = padded_row p n ?m" by simp
  have out: "padded_row p n ?m a = ?m a" if "a \<notin> ?row n" for a
    unfolding padded_row_def by (rule gather_out) (use that in auto)
  have "fold (padded_row p) [0..<Suc n] m (pad_dst p + Y * pad_dst_stride p + k) = m (padded_byte p Y k)"
    if "Y < Suc n" "k < row_size p" for Y k
  proof (cases "Y = n")
    case True
    have "padded_byte p n k \<notin> ?row Y'" if "Y' < n" for Y'
      using apart_outside [OF assms(1), of Y' n k] that \<open>k < row_size p\<close> Suc.prems by (auto simp: outside_def)
    then have "?m (padded_byte p n k) = m (padded_byte p n k)" using Suc by auto
    with True that(2) show ?thesis unfolding step by (simp add: padded_row_def)
  next
    case False
    with that have "row_size p \<le> pad_dst_stride p" using assms(2) Suc.prems by auto
    from rows_disjoint [OF this False, of "pad_dst p"] that(2)
    have "pad_dst p + Y * pad_dst_stride p + k \<notin> ?row n" by auto
    with Suc that False show ?thesis unfolding step by (simp add: out)
  qed
  moreover have "fold (padded_row p) [0..<Suc n] m a = m a" if "\<forall>Y < Suc n. a \<notin> ?row Y" for a
    using Suc that unfolding step by (simp add: out del: atLeastLessThan_iff)
  ultimately show ?case by blast
qed

lemma add_padding_result:
  assumes "add_padding_by_copy_checks p = Inr h" and "\<And>n. malloc n \<noteq> None" and "apart p"
  shows "kleidicv_add_padding_by_copy object_size malloc p m
    = (KLEIDICV_OK, fold (padded_row p) [0..<dst_height p] m)"
proof -
  have imp: "implemented p" and h: "h = dst_height p" using assms(1) by (simp_all add: checks_exact)
  obtain op where op: "create_add_padding_by_copy_operation object_size malloc p (strategy_of p) = Some op"
  proof -
    obtain contents where "malloc (storage_offset object_size + storage_word_count (strategy_of p) p * 8)
        = Some contents" using assms(2) by blast
    then show ?thesis
      using that by (simp add: create_add_padding_by_copy_operation_def allocate_operation_def)
  qed
  from process_stripe_rows [OF create_operation_for [OF op] imp assms(3), of 0 "dst_height p"]
  show ?thesis using op
    by (simp add: kleidicv_add_padding_by_copy_def assms(1) h Let_def flip: strategy_of_def)
qed

text \<open>
  C23. Padding, for every border type, pixel size and execution strategy: when the arguments pass
  the checks and the buffers do not overlap, the call succeeds and every byte of every destination
  pixel is the byte that the border type assigns to it (the constant, the clamped, periodic or
  mirrored source pixel); no byte outside the destination rows changes.
\<close>

theorem add_padding_image:
  assumes "add_padding_by_copy_checks p = Inr h" and "\<And>n. malloc n \<noteq> None" and "apart p"
    and "dst_height p \<le> 1 \<or> row_size p \<le> pad_dst_stride p"
  shows "case kleidicv_add_padding_by_copy object_size malloc p m of (err, m') \<Rightarrow>
    err = KLEIDICV_OK
    \<and> (\<forall>Y < dst_height p. \<forall>X < dst_width p. \<forall>j < pad_pixel_size p.
        m' (pad_dst p + Y * pad_dst_stride p + (X * pad_pixel_size p + j)) = m (border_address p X Y + j))
    \<and> (\<forall>a. (\<forall>Y < dst_height p. a \<notin> {pad_dst p + Y * pad_dst_stride p
            ..<pad_dst p + Y * pad_dst_stride p + dst_width p * pad_pixel_size p}) \<longrightarrow> m' a = m a)"
proof -
  note rows = fold_padded_rows [OF assms(3,4) order_refl, of m]
  have "X * pad_pixel_size p + j < row_size p"
    and "padded_byte p Y (X * pad_pixel_size p + j) = border_address p X Y + j"
    if "X < dst_width p" "j < pad_pixel_size p" for X Y j
    using mult_le_mono1 [of "Suc X" "dst_width p" "pad_pixel_size p"] that
    by (auto simp: row_size_def padded_byte_def)
  with rows show ?thesis
    unfolding add_padding_result [OF assms(1-3)] row_size_def [symmetric] by simp
qed

definition example_padding :: "kleidicv_border_type_t \<Rightarrow> AddPaddingByCopyParameters" where
  "example_padding bt = \<lparr>pad_src = 100, pad_dst = 200, pad_src_stride = 8, pad_dst_stride = 16,
     pad_src_width = 3, pad_src_height = 2, top_padding = 1, bottom_padding = 1,
     left_padding = 2, right_padding = 1, pad_pixel_size = 2, pad_border_type = bt, pad_border_value = 90\<rparr>"

lemma example_padding_ok:
  "add_padding_by_copy_checks (example_padding KLEIDICV_BORDER_TYPE_REVERSE) = Inr 4"
  "apart (example_padding KLEIDICV_BORDER_TYPE_REVERSE)"
proof -
  show checks: "add_padding_by_copy_checks (example_padding KLEIDICV_BORDER_TYPE_REVERSE) = Inr 4"
    unfolding checks_exact
    by (simp add: example_padding_def implemented_def add_padding_by_copy_is_implemented_def limit_defs
        padding_sizes_ok_def padding_pointers_ok_def dst_width_def dst_height_def pixel_alignment_def
        nullptr_def)
  show "apart (example_padding KLEIDICV_BORDER_TYPE_REVERSE)"
  proof (rule apart_after)
    show "implemented (example_padding KLEIDICV_BORDER_TYPE_REVERSE)" using checks by (simp only: checks_exact)
  qed (simp_all add: example_padding_def inner_size_def)
qed

theorem add_padding_image_witness:
  "case kleidicv_add_padding_by_copy 168 (\<lambda>_. Some (\<lambda>_. 0)) (example_padding KLEIDICV_BORDER_TYPE_REVERSE)
      (\<lambda>a. word_of_nat a) of (err, m') \<Rightarrow>
    err = KLEIDICV_OK
    \<and> map (\<lambda>k. m' (200 + k)) [0..<12] = [112, 113, 110, 111, 108, 109, 110, 111, 112, 113, 110, 111]
    \<and> m' 212 = 212"
proof -
  let ?p = "example_padding KLEIDICV_BORDER_TYPE_REVERSE"
  let ?m = "\<lambda>a. word_of_nat a :: u8"
  obtain err m' where eq: "kleidicv_add_padding_by_copy 168 (\<lambda>_. Some (\<lambda>_. 0)) ?p ?m = (err, m')"
    by fastforce
  have "dst_height ?p \<le> 1 \<or> row_size ?p \<le> pad_dst_stride ?p"
    by (simp add: example_padding_def row_size_def dst_width_def)
  note image = add_padding_image [OF example_padding_ok(1) _ example_padding_ok(2) this,
      where malloc = "\<lambda>_. Some (\<lambda>_. 0)" and object_size = 168 and m = ?m, unfolded eq prod.case]
  have dims: "dst_height ?p = 4" "dst_width ?p = 6" "pad_pixel_size ?p = 2" "pad_dst ?p = 200"
    "pad_dst_stride ?p = 16" by (simp_all add: example_padding_def dst_width_def dst_height_def)
  have ok: "err = KLEIDICV_OK"
    and all: "\<forall>Y < 4. \<forall>X < 6. \<forall>j < 2. m' (200 + Y * 16 + (X * 2 + j)) = ?m (border_address ?p X Y + j)"
    and rest: "\<forall>a. (\<forall>Y < 4. a \<notin> {200 + Y * 16..<200 + Y * 16 + 6 * 2}) \<longrightarrow> m' a = ?m a"
    using image unfolding dims by auto
  have byte: "m' (200 + (X * 2 + j)) = ?m (border_address ?p X 0 + j)" if "X < 6" "j < 2" for X j
    using all [rule_format, of 0 X j] that by simp
  have bytes: "m' (200 + k) = ?m (padded_byte ?p 0 k)" if "k < 12" for k
    using byte [of "k div 2" "k mod 2"] that by (simp add: padded_byte_def example_padding_def)
  have "map (\<lambda>k. m' (200 + k)) [0..<12] = map (\<lambda>k. ?m (padded_byte ?p 0 k)) [0..<12]"
    by (rule map_cong) (auto simp: bytes)
  also have "\<dots> = [112, 113, 110, 111, 108, 109, 110, 111, 112, 113, 110, 111]"
    by (simp add: upt_rec padded_byte_def border_address_def border_coordinate_def example_padding_def)
  finally have "map (\<lambda>k. m' (200 + k)) [0..<12] = [112, 113, 110, 111, 108, 109, 110, 111, 112, 113, 110, 111]" .
  moreover have "(212 :: nat) \<notin> {200 + Y * 16..<200 + Y * 16 + 6 * 2}" for Y
    by auto
  with rest have "m' 212 = 212" by simp
  ultimately show ?thesis using ok by (simp add: eq)
qed

text \<open>
  C25. The argument checks of padding are exact: a call is accepted, with the destination height as
  result, if and only if the border type and pixel size are implemented, both images stay within
  the size limit, and every pointer and stride is present and aligned for the pixel size, whatever
  64-bit values the arguments have. For accepted arguments no size, offset or table computation
  leaves the range of \<^verbatim>\<open>size_t\<close>.
\<close>

theorem padding_checks_exact:
  "(add_padding_by_copy_checks p = Inr h \<longleftrightarrow>
      implemented p \<and> padding_sizes_ok p \<and> padding_pointers_ok p \<and> h = dst_height p)
   \<and> (add_padding_by_copy_checks p = Inr h \<longrightarrow>
      row_size p \<le> size_max \<and> right_offset p \<le> row_size p
      \<and> storage_word_count s p * 8 \<le> size_max - 2 ^ 32)"
proof (rule conjI [OF checks_exact], rule impI)
  assume "add_padding_by_copy_checks p = Inr h"
  then have imp: "implemented p" and sizes: "padding_sizes_ok p" by (simp_all add: checks_exact)
  have "pad_pixel_size p \<le> 32"
    using imp by (auto simp: implemented_def add_padding_by_copy_is_implemented_def Let_def limit_defs
        split: if_splits)
  then have "row_size p \<le> KLEIDICV_MAX_IMAGE_PIXELS * 32"
    using sizes unfolding row_size_def padding_sizes_ok_def by (intro mult_le_mono) simp_all
  moreover have "right_offset p \<le> row_size p" by (simp add: row_size_parts right_offset_parts)
  moreover have "storage_word_count s p \<le> dst_width p + dst_height p"
    by (cases s) (simp_all add: word_count_defs dst_width_def dst_height_def)
  ultimately show "row_size p \<le> size_max \<and> right_offset p \<le> row_size p
      \<and> storage_word_count s p * 8 \<le> size_max - 2 ^ 32"
    using sizes by (simp add: padding_sizes_ok_def KLEIDICV_MAX_IMAGE_PIXELS_def size_max_def)
qed

theorem padding_checks_exact_witness:
  "add_padding_by_copy_checks (example_padding KLEIDICV_BORDER_TYPE_WRAP) = Inr 4
   \<and> add_padding_by_copy_checks (example_padding KLEIDICV_BORDER_TYPE_NONE) \<noteq> Inr 4"
  using padding_checks_exact [of "example_padding KLEIDICV_BORDER_TYPE_WRAP" 4 kIndexed]
    padding_checks_exact [of "example_padding KLEIDICV_BORDER_TYPE_NONE" 4 kIndexed]
  by (simp add: example_padding_def implemented_def add_padding_by_copy_is_implemented_def limit_defs
      padding_sizes_ok_def padding_pointers_ok_def dst_width_def dst_height_def pixel_alignment_def
      nullptr_def)

text \<open>
  The three index functions extend an image row to all coordinates: they are the identity on
  the row and always stay inside it; wrapping is periodic, reflecting mirrors about the outer edge
  of the first and the last pixel, reversing about their centres.
\<close>

theorem border_index_functions:
  assumes "0 < len"
  shows "(\<forall>x. wrap_index x len < len \<and> reflect_index x len < len \<and> reverse_index x len < len)
    \<and> (\<forall>i < len. wrap_index (int i) len = i \<and> reflect_index (int i) len = i \<and> reverse_index (int i) len = i)
    \<and> (\<forall>x. wrap_index (x + int len) len = wrap_index x len
        \<and> reflect_index (- 1 - x) len = reflect_index x len
        \<and> reflect_index (2 * int len - 1 - x) len = reflect_index x len
        \<and> reverse_index (- x) len = reverse_index x len
        \<and> reverse_index (2 * int len - 2 - x) len = reverse_index x len)"
proof (intro conjI allI impI)
  fix x
  let ?n = "int len"
  note eqs = wrap_index_eq [OF assms] reflect_index_eq [OF assms] reverse_index_eq [OF assms]
  show "wrap_index x len < len" "reflect_index x len < len" "reverse_index x len < len"
    unfolding eqs by (rule border_coordinate_less [OF assms])+
  show "wrap_index (x + ?n) len = wrap_index x len" unfolding eqs by (simp add: border_coordinate_def)
  have mirror: "min ((q - 1 - x) mod q) (q - 1 - (q - 1 - x) mod q) = min (x mod q) (q - 1 - x mod q)"
    if "0 < q" for q
  proof -
    have "(q - 1 - x) mod q = (q - 1 - x mod q) mod q" by (simp add: mod_diff_right_eq)
    also have "\<dots> = q - 1 - x mod q"
      using that pos_mod_bound [of q x] pos_mod_sign [of q x] by (intro mod_pos_pos_trivial) linarith+
    finally show ?thesis by (simp add: min.commute)
  qed
  have "(- 1 - x) mod (2 * ?n) = (2 * ?n - 1 - x) mod (2 * ?n)"
    using mod_add_self1 [of "2 * ?n" "- 1 - x"] by (simp add: algebra_simps)
  then show "reflect_index (- 1 - x) len = reflect_index x len"
    and "reflect_index (2 * ?n - 1 - x) len = reflect_index x len"
    unfolding eqs using mirror [of "2 * ?n"] assms by (simp_all add: border_coordinate_def)
  have mirror0: "min ((- x) mod q) (q - (- x) mod q) = min (x mod q) (q - x mod q) \<or> x mod q = 0 \<and> (- x) mod q = 0"
    for q
    by (cases "x mod q = 0") (auto simp: zmod_zminus1_eq_if min.commute)
  have shift: "(2 * ?n - 2 - x) mod (2 * ?n - 2) = (- x) mod (2 * ?n - 2)"
    using mod_add_self1 [of "2 * ?n - 2" "- x"] by (simp add: algebra_simps)
  then show "reverse_index (2 * ?n - 2 - x) len = reverse_index x len"
    and "reverse_index (- x) len = reverse_index x len"
    unfolding eqs using mirror0 [of "2 * ?n - 2"] assms by (auto simp: border_coordinate_def)
next
  fix i
  assume "i < len"
  then show "wrap_index (int i) len = i" "reflect_index (int i) len = i" "reverse_index (int i) len = i"
    unfolding wrap_index_eq [OF assms] reflect_index_eq [OF assms] reverse_index_eq [OF assms]
    by (simp_all add: border_coordinate_inside)
qed

theorem border_index_functions_witness:
  "reflect_index (- 3) 5 = reflect_index 2 5 \<and> reverse_index (- 3) 5 = reverse_index 3 5"
proof -
  from border_index_functions [of 5]
  have "\<forall>x. reflect_index (- 1 - x) 5 = reflect_index x 5 \<and> reverse_index (- x) 5 = reverse_index x 5"
    by simp
  from this [rule_format, of 2] this [rule_format, of 3] show ?thesis by simp
qed

text \<open>
  C24. Threaded padding gives the result of the single-threaded call, bit for bit, on every path: when
  the arguments are rejected, when the operation cannot be allocated, and for every schedule of
  the stripes otherwise.
\<close>

theorem threaded_padding_one_call:
  assumes "scheduler mt max_tasks" and "max 1 (dst_height p div 4) \<le> max_tasks"
    and "apart p" and "dst_height p \<le> 1 \<or> row_size p \<le> pad_dst_stride p"
  shows "kleidicv_thread_add_padding_by_copy (add_padding_by_copy_checks p)
      (map_option process_stripe
        (create_add_padding_by_copy_operation object_size malloc p (strategy_of p))) mt m
    = kleidicv_add_padding_by_copy object_size malloc p m"
proof (cases "add_padding_by_copy_checks p")
  case (Inl err)
  then show ?thesis by (simp add: kleidicv_thread_add_padding_by_copy_def kleidicv_add_padding_by_copy_def)
next
  case (Inr h)
  then have imp: "implemented p" and h: "h = dst_height p" by (simp_all add: checks_exact)
  show ?thesis
  proof (cases "create_add_padding_by_copy_operation object_size malloc p (strategy_of p)")
    case None
    with Inr show ?thesis
      by (simp add: kleidicv_thread_add_padding_by_copy_def kleidicv_add_padding_by_copy_def Let_def
          flip: strategy_of_def)
  next
    case (Some op)
    note rows = process_stripe_rows [OF create_operation_for [OF Some] imp assms(3)]
    have stripes: "row_stripes (padded_row p) (dst_height p) (process_stripe op)"
      by (simp add: row_stripes_def rows)
    have "parallel_batches (process_stripe op) mt (dst_height p) 4 m
        = (KLEIDICV_OK, fold (padded_row p) [0..<dst_height p] m)"
      by (rule parallel_rows [OF assms(1) padded_rows_operation [OF assms(3,4)] stripes _ assms(2)]) simp
    with Inr Some rows [of 0 "dst_height p"] show ?thesis
      by (simp add: kleidicv_thread_add_padding_by_copy_def kleidicv_add_padding_by_copy_def h Let_def
          flip: strategy_of_def)
  qed
qed

theorem threaded_padding_one_call_witness:
  "kleidicv_thread_add_padding_by_copy
      (add_padding_by_copy_checks (example_padding KLEIDICV_BORDER_TYPE_REVERSE))
      (map_option process_stripe (create_add_padding_by_copy_operation 168 (\<lambda>_. Some (\<lambda>_. 7))
        (example_padding KLEIDICV_BORDER_TYPE_REVERSE)
        (strategy_of (example_padding KLEIDICV_BORDER_TYPE_REVERSE)))) (example_parallel 2) (\<lambda>a. word_of_nat a)
    = kleidicv_add_padding_by_copy 168 (\<lambda>_. Some (\<lambda>_. 7)) (example_padding KLEIDICV_BORDER_TYPE_REVERSE)
        (\<lambda>a. word_of_nat a)"
  by (rule threaded_padding_one_call [OF two_workers _ example_padding_ok(2)])
    (simp_all add: example_padding_def dst_height_def row_size_def dst_width_def)

end
