(* ===== verification/Kcv_Rows.thy ===== *)
theory Kcv_Rows
  imports Kcv_Memory Kcv_Utils
begin

text \<open>
  Rows of pixels, \<^verbatim>\<open>kleidicv/include/kleidicv/types.h\<close>: rectangles and margins,
  \<open>Columns\<close> (a position in a row), \<open>Rows\<close> (a position in an image with a stride),
  \<open>ParallelRows\<close> (two rows at a time) and the drivers \<open>zip_rows\<close> and
  \<open>zip_parallel_rows\<close> that hand the rows of several images to an operation. Pointers are byte
  addresses, so a row knows the size of its element type.
\<close>

section \<open>Rectangles and margins\<close>

record Rectangle =
  rectangle_width :: nat
  rectangle_height :: nat

definition area :: "Rectangle \<Rightarrow> nat" where
  "area rect = size_wrap (int (rectangle_width rect) * int (rectangle_height rect))"

definition flatten :: "Rectangle \<Rightarrow> Rectangle" where
  "flatten rect = \<lparr>rectangle_width = area rect, rectangle_height = 1\<rparr>"

record Margin =
  margin_left :: nat
  margin_top :: nat
  margin_right :: nat
  margin_bottom :: nat

definition margin_of_kernel :: "Rectangle \<Rightarrow> kleidicv_point_t \<Rightarrow> Margin" where
  "margin_of_kernel kern anchor =
     \<lparr>margin_left = pt_x anchor, margin_top = pt_y anchor,
      margin_right = size_wrap (int (rectangle_width kern) - int (pt_x anchor) - 1),
      margin_bottom = size_wrap (int (rectangle_height kern) - int (pt_y anchor) - 1)\<rparr>"

section \<open>Columns\<close>

record Columns =
  col_ptr :: nat
  col_sizeof :: nat
  col_channels :: nat

text \<open>The address of \<^verbatim>\<open>ptr[index]\<close> for elements of \<open>size\<close> bytes.\<close>

definition element_address :: "nat \<Rightarrow> nat \<Rightarrow> int \<Rightarrow> nat" where
  "element_address ptr sizeof_T index = nat (int ptr + index * int sizeof_T)"

definition columns_add :: "int \<Rightarrow> Columns \<Rightarrow> Columns" where
  "columns_add diff c =
     c\<lparr>col_ptr := element_address (col_ptr c) (col_sizeof c) (int (col_channels c) * diff)\<rparr>"

definition columns_subtract :: "int \<Rightarrow> Columns \<Rightarrow> Columns" where
  "columns_subtract diff c =
     c\<lparr>col_ptr := element_address (col_ptr c) (col_sizeof c) (- (int (col_channels c) * diff))\<rparr>"

definition columns_at :: "Columns \<Rightarrow> int \<Rightarrow> Columns" where
  "columns_at c column =
     \<lparr>col_ptr = element_address (col_ptr c) (col_sizeof c) (column * int (col_channels c)),
      col_sizeof = col_sizeof c, col_channels = col_channels c\<rparr>"

definition columns_ptr_at :: "Columns \<Rightarrow> int \<Rightarrow> nat" where
  "columns_ptr_at c column =
     element_address (col_ptr c) (col_sizeof c) (column * int (col_channels c))"

text \<open>Stepping to pixel \<open>k\<close>, in whichever of these ways, is adding \<open>k\<close> pixel sizes.\<close>

definition pixel_bytes :: "Columns \<Rightarrow> nat" where
  "pixel_bytes c = col_channels c * col_sizeof c"

definition step_column :: "nat \<Rightarrow> Columns \<Rightarrow> Columns" where
  "step_column k c = c\<lparr>col_ptr := col_ptr c + k * pixel_bytes c\<rparr>"

lemma pixel_bytes_step [simp]: "pixel_bytes (step_column k c) = pixel_bytes c"
  by (simp add: pixel_bytes_def step_column_def)

lemma step_column_sel [simp]:
  "col_ptr (step_column k c) = col_ptr c + k * pixel_bytes c"
  "col_sizeof (step_column k c) = col_sizeof c"
  "col_channels (step_column k c) = col_channels c"
  by (simp_all add: step_column_def)

lemma step_column_0 [simp]: "step_column 0 = id"
  by (simp add: step_column_def fun_eq_iff)

lemma step_column_add [simp]: "step_column j (step_column k c) = step_column (k + j) c"
  by (simp add: step_column_def pixel_bytes_def algebra_simps)

lemma element_address_nat:
  "element_address p sz (int n) = p + n * sz"
  unfolding element_address_def of_nat_mult [symmetric] of_nat_add [symmetric] nat_int ..

lemma columns_add_step: "columns_add (int k) c = step_column k c"
  unfolding columns_add_def of_nat_mult [symmetric] element_address_nat
  by (simp add: step_column_def pixel_bytes_def mult.commute mult.left_commute)

lemma columns_at_step: "columns_at c (int k) = step_column k c"
  unfolding columns_at_def of_nat_mult [symmetric] element_address_nat
  by (simp add: step_column_def pixel_bytes_def mult.assoc)

lemma columns_ptr_at_step: "columns_ptr_at c (int k) = col_ptr (step_column k c)"
  unfolding columns_ptr_at_def of_nat_mult [symmetric] element_address_nat
  by (simp add: pixel_bytes_def mult.assoc)

lemma columns_subtract_step: "columns_subtract (int k) (step_column (k + n) c) = step_column n c"
proof -
  have "int (col_ptr c + (k + n) * pixel_bytes c)
      + - (int (col_channels c) * int k) * int (col_sizeof c)
    = int (col_ptr c + n * pixel_bytes c)"
    by (simp add: pixel_bytes_def algebra_simps)
  then show ?thesis
    by (simp add: columns_subtract_def element_address_def step_column_def del: of_nat_add of_nat_mult)
qed

section \<open>Rows\<close>

text \<open>
  \<^verbatim>\<open>add_stride\<close> works on \<^verbatim>\<open>uintptr_t\<close>, so it wraps around; a stride is
  a \<^verbatim>\<open>ptrdiff_t\<close> there. The case distinction is the one of the code, which keeps the
  negation of the smallest stride in range.
\<close>

definition ptrdiff :: "nat \<Rightarrow> int" where
  "ptrdiff n = (let z = int n mod 2 ^ 64 in if z < 2 ^ 63 then z else z - 2 ^ 64)"

definition add_stride :: "nat \<Rightarrow> int \<Rightarrow> nat" where
  "add_stride ptr stride =
     (if stride \<ge> 0 then size_wrap (int ptr + stride)
      else size_wrap (int ptr - (int (size_wrap (- (stride + 1))) + 1)))"

definition subtract_stride :: "nat \<Rightarrow> int \<Rightarrow> nat" where
  "subtract_stride ptr stride =
     (if stride \<ge> 0 then size_wrap (int ptr - stride)
      else size_wrap (int ptr + (int (size_wrap (- (stride + 1))) + 1)))"

lemma size_wrap_add_mod: "size_wrap (a + int (size_wrap b)) = size_wrap (a + b)"
  by (simp add: size_wrap_def mod_add_right_eq)

lemma size_wrap_diff_mod: "size_wrap (a - int (size_wrap b)) = size_wrap (a - b)"
  by (simp add: size_wrap_def mod_diff_right_eq)

lemma add_stride_wrap: "add_stride ptr stride = size_wrap (int ptr + stride)"
  using size_wrap_diff_mod [of "int ptr - 1" "- (stride + 1)"]
  by (simp add: add_stride_def algebra_simps)

lemma subtract_stride_wrap: "subtract_stride ptr stride = size_wrap (int ptr - stride)"
  using size_wrap_add_mod [of "int ptr + 1" "- (stride + 1)"]
  by (simp add: subtract_stride_def algebra_simps)

lemma add_stride_ptrdiff: "add_stride ptr (ptrdiff n) = size_wrap (int ptr + int n)"
proof -
  have "ptrdiff n mod 2 ^ 64 = int n mod 2 ^ 64" by (simp add: ptrdiff_def Let_def)
  then have "(int ptr + ptrdiff n) mod 2 ^ 64 = (int ptr + int n) mod 2 ^ 64"
    by (metis mod_add_right_eq)
  then show ?thesis by (simp add: add_stride_wrap size_wrap_def)
qed

lemma ptrdiff_small: "n < 2 ^ 63 \<Longrightarrow> ptrdiff n = int n"
  by (simp add: ptrdiff_def)

record Rows =
  row_ptr :: nat
  row_stride :: nat
  row_sizeof :: nat
  row_channels :: nat

definition is_continuous :: "nat \<Rightarrow> Rows \<Rightarrow> bool" where
  "is_continuous len r = (row_stride r = size_wrap (int (len * row_channels r * row_sizeof r)))"

definition rows_pointer_at :: "Rows \<Rightarrow> int \<Rightarrow> int \<Rightarrow> nat" where
  "rows_pointer_at r row column =
     (let ptr = add_stride (row_ptr r) (row * ptrdiff (row_stride r))
      in element_address ptr (row_sizeof r) (column * int (row_channels r)))"

definition rows_add :: "int \<Rightarrow> Rows \<Rightarrow> Rows" where
  "rows_add diff r = r\<lparr>row_ptr := rows_pointer_at r diff 0\<rparr>"

definition rows_next :: "Rows \<Rightarrow> Rows" where
  "rows_next r = rows_add 1 r"

definition rows_at :: "Rows \<Rightarrow> int \<Rightarrow> int \<Rightarrow> Rows" where
  "rows_at r row column = r\<lparr>row_ptr := rows_pointer_at r row column\<rparr>"

definition as_columns :: "Rows \<Rightarrow> Columns" where
  "as_columns r = \<lparr>col_ptr = row_ptr r, col_sizeof = row_sizeof r, col_channels = row_channels r\<rparr>"

definition offset_for_index :: "Rows \<Rightarrow> nat \<Rightarrow> nat \<Rightarrow> nat" where
  "offset_for_index r index len =
     (let row = index div len; column = index mod len
      in size_wrap (int (row * row_stride r + column * row_sizeof r)))"

text \<open>Row \<open>i\<close> of an image that lies in the address space.\<close>

definition in_memory :: "nat \<Rightarrow> Rows \<Rightarrow> bool" where
  "in_memory rows r \<longleftrightarrow> (\<forall>i < rows. row_ptr r + i * row_stride r \<le> size_max)"

definition row_columns :: "Rows \<Rightarrow> nat \<Rightarrow> Columns" where
  "row_columns r i = \<lparr>col_ptr = row_ptr r + i * row_stride r, col_sizeof = row_sizeof r,
     col_channels = row_channels r\<rparr>"

lemma row_columns_sel [simp]:
  "col_ptr (row_columns r i) = row_ptr r + i * row_stride r"
  "col_sizeof (row_columns r i) = row_sizeof r" "col_channels (row_columns r i) = row_channels r"
  by (simp_all add: row_columns_def)

lemma rows_next_wrap:
  "rows_next r = r\<lparr>row_ptr := size_wrap (int (row_ptr r) + int (row_stride r))\<rparr>"
  by (simp add: rows_next_def rows_add_def rows_pointer_at_def element_address_def
      add_stride_ptrdiff)

lemma funpow_rows_next:
  "(rows_next ^^ i) r =
    (if i = 0 then r else r\<lparr>row_ptr := size_wrap (int (row_ptr r) + int (i * row_stride r))\<rparr>)"
proof (induction i)
  case 0
  then show ?case by simp
next
  case (Suc i)
  have "size_wrap (int (size_wrap (int (row_ptr r) + int (i * row_stride r))) + int (row_stride r))
    = size_wrap (int (row_ptr r) + int (Suc i * row_stride r))"
    using size_wrap_add_mod [of "int (row_stride r)" "int (row_ptr r) + int (i * row_stride r)"]
    by (simp add: algebra_simps)
  with Suc show ?case by (simp add: rows_next_wrap del: of_nat_mult)
qed

lemma as_columns_row:
  assumes "in_memory n r" and "i < n"
  shows "as_columns ((rows_next ^^ i) r) = row_columns r i"
proof -
  have "size_wrap (int (row_ptr r) + int (i * row_stride r)) = row_ptr r + i * row_stride r"
    using assms size_wrap_id [of "row_ptr r + i * row_stride r"] by (simp add: in_memory_def)
  then show ?thesis
    by (simp add: funpow_rows_next as_columns_def row_columns_def del: of_nat_mult)
qed

section \<open>Handing rows to an operation\<close>

definition zip_rows ::
    "(nat \<Rightarrow> Columns list \<Rightarrow> 's \<Rightarrow> 's) \<Rightarrow> Rectangle \<Rightarrow> Rows list \<Rightarrow> 's \<Rightarrow> 's" where
  "zip_rows process_row rect rows s =
     (let rect = (if list_all (is_continuous (rectangle_width rect)) rows then flatten rect else rect)
      in snd (fold (\<lambda>_ (rows, s).
           (map rows_next rows, process_row (rectangle_width rect) (map as_columns rows) s))
           [0..<rectangle_height rect] (rows, s)))"

lemma zip_loop:
  "fold (\<lambda>_ (rows, s). (map rows_next rows, f (map as_columns rows) s)) [0..<n] (rows, s)
    = (map (rows_next ^^ n) rows,
       fold (\<lambda>i. f (map (\<lambda>r. as_columns ((rows_next ^^ i) r)) rows)) [0..<n] s)"
  by (induction n) (simp_all add: comp_def)

lemma zip_rows_eq:
  assumes "\<forall>r \<in> set rows. in_memory h r" and "w * h \<le> size_max"
  shows "zip_rows process_row \<lparr>rectangle_width = w, rectangle_height = h\<rparr> rows s =
    (if list_all (is_continuous w) rows then process_row (w * h) (map (\<lambda>r. row_columns r 0) rows) s
     else fold (\<lambda>i. process_row w (map (\<lambda>r. row_columns r i) rows)) [0..<h] s)"
proof -
  have wh: "area \<lparr>rectangle_width = w, rectangle_height = h\<rparr> = w * h"
    using size_wrap_id [OF assms(2)] by (simp add: area_def)
  have first: "as_columns r = row_columns r 0" for r
    by (simp add: as_columns_def row_columns_def)
  have row: "map (\<lambda>r. as_columns ((rows_next ^^ i) r)) rows = map (\<lambda>r. row_columns r i) rows"
    if "i < h" for i
    using assms(1) that by (auto intro: as_columns_row)
  have "fold (\<lambda>i. process_row w (map (\<lambda>r. as_columns ((rows_next ^^ i) r)) rows)) [0..<h] s
    = fold (\<lambda>i. process_row w (map (\<lambda>r. row_columns r i) rows)) [0..<h] s"
  proof (intro fold_cong refl)
    fix i
    assume "i \<in> set [0..<h]"
    then have "i < h" by simp
    from row [OF this]
    show "process_row w (map (\<lambda>r. as_columns ((rows_next ^^ i) r)) rows)
      = process_row w (map (\<lambda>r. row_columns r i) rows)" by (simp only:)
  qed
  then show ?thesis
    by (simp add: zip_rows_def Let_def zip_loop flatten_def wh first)
qed

text \<open>
  Pixel \<open>(i, j)\<close> of each image. In a continuous image it is pixel \<open>i * w + j\<close> of the flattened
  row, so an operation that works pixel by pixel does not see the difference.
\<close>

definition pixel_columns :: "Rows list \<Rightarrow> nat \<Rightarrow> nat \<Rightarrow> Columns list" where
  "pixel_columns rows i j = map (\<lambda>r. step_column j (row_columns r i)) rows"

definition pixel_loop ::
    "(Columns list \<Rightarrow> 't \<Rightarrow> 't) \<Rightarrow> nat \<Rightarrow> nat \<Rightarrow> Rows list \<Rightarrow> 't \<Rightarrow> 't" where
  "pixel_loop work w h rows = fold (\<lambda>i. fold (\<lambda>j. work (pixel_columns rows i j)) [0..<w]) [0..<h]"

definition columns_loop :: "(Columns list \<Rightarrow> 't \<Rightarrow> 't) \<Rightarrow> nat \<Rightarrow> Columns list \<Rightarrow> 't \<Rightarrow> 't" where
  "columns_loop work len cols = fold (\<lambda>k. work (map (step_column k) cols)) [0..<len]"

lemma fold_grid:
  "fold (\<lambda>i. fold (\<lambda>j. f (i * w + j)) [0..<w]) [0..<h] s = fold f [0..<h * w] s"
proof (induction h)
  case 0
  then show ?case by simp
next
  case (Suc h)
  have "fold (\<lambda>j. f (p + j)) [0..<w] u = fold f [p..<p + w] u" for p u
    by (induction w) simp_all
  moreover have "[0..<Suc h * w] = [0..<h * w] @ [h * w..<h * w + w]"
    using upt_add_eq_append [of 0 "h * w" w] by (simp add: add.commute)
  ultimately show ?case using Suc by simp
qed

lemma row_columns_pixels:
  "map (step_column j) (map (\<lambda>r. row_columns r i) rows) = pixel_columns rows i j"
  by (simp add: pixel_columns_def)

lemma continuous_pixels:
  assumes "list_all (is_continuous w) rows"
    and "\<forall>r \<in> set rows. w * row_channels r * row_sizeof r \<le> size_max"
  shows "map (step_column (i * w + j)) (map (\<lambda>r. row_columns r 0) rows) = pixel_columns rows i j"
proof -
  have "step_column (i * w + j) (row_columns r 0) = step_column j (row_columns r i)"
    if "r \<in> set rows" for r
  proof -
    have "size_wrap (int (w * row_channels r * row_sizeof r)) = w * row_channels r * row_sizeof r"
      using assms(2) that by (intro size_wrap_id) simp
    with assms(1) that have "row_stride r = w * row_channels r * row_sizeof r"
      unfolding list_all_iff is_continuous_def by metis
    then show ?thesis
      by (simp add: step_column_def row_columns_def pixel_bytes_def algebra_simps)
  qed
  then show ?thesis by (simp add: pixel_columns_def)
qed

text \<open>
  What \<open>zip_rows\<close> asks of an operation: on one run of pixels it simulates the pixel loop. The
  relation \<open>R\<close> couples the state of the operation with the state of the loop, \<open>ok\<close> tells the
  runs it is made for.
\<close>

locale run_simulation =
  fixes process_row :: "nat \<Rightarrow> Columns list \<Rightarrow> 's \<Rightarrow> 's"
    and work :: "Columns list \<Rightarrow> 't \<Rightarrow> 't"
    and R :: "'s \<Rightarrow> 't \<Rightarrow> bool"
    and ok :: "nat \<Rightarrow> Columns list \<Rightarrow> bool"
  assumes simulates_run:
    "ok len cols \<Longrightarrow> R s t \<Longrightarrow> R (process_row len cols s) (columns_loop work len cols t)"
begin

lemma simulates_rows:
  assumes "\<forall>i < h. ok w (map (\<lambda>r. row_columns r i) rows)" and "R s t" and "n \<le> h"
  shows "R (fold (\<lambda>i. process_row w (map (\<lambda>r. row_columns r i) rows)) [0..<n] s)
    (pixel_loop work w n rows t)"
  using assms(3)
proof (induction n)
  case 0
  then show ?case using assms(2) by (simp add: pixel_loop_def)
next
  case (Suc n)
  with assms(1) have "ok w (map (\<lambda>r. row_columns r n) rows)" by simp
  from simulates_run [OF this Suc.IH] Suc.prems show ?case
    by (simp add: pixel_loop_def columns_loop_def pixel_columns_def comp_def)
qed

lemma zip_rows_simulates:
  assumes "\<forall>r \<in> set rows. in_memory h r \<and> (0 < h \<longrightarrow> w * row_channels r * row_sizeof r \<le> size_max)"
    and "w * h \<le> size_max"
    and "\<forall>i < h. ok w (map (\<lambda>r. row_columns r i) rows)"
    and "list_all (is_continuous w) rows \<Longrightarrow> ok (w * h) (map (\<lambda>r. row_columns r 0) rows)"
    and "R s t"
  shows "R (zip_rows process_row \<lparr>rectangle_width = w, rectangle_height = h\<rparr> rows s)
    (pixel_loop work w h rows t)"
proof (cases "list_all (is_continuous w) rows")
  case True
  have "pixel_loop work w h rows t
    = fold (\<lambda>i. fold (\<lambda>j. work (map (step_column (i * w + j)) (map (\<lambda>r. row_columns r 0) rows)))
        [0..<w]) [0..<h] t"
    using continuous_pixels [OF True] assms(1) by (cases "h = 0") (simp_all add: pixel_loop_def)
  also have "\<dots> = columns_loop work (w * h) (map (\<lambda>r. row_columns r 0) rows) t"
    by (simp only: columns_loop_def mult.commute [of w h] fold_grid
        [of "\<lambda>k. work (map (step_column k) (map (\<lambda>r. row_columns r 0) rows))"])
  finally show ?thesis
    using zip_rows_eq [of rows h w process_row s] assms simulates_run [OF assms(4) [OF True] assms(5)]
      True by simp
next
  case False
  then show ?thesis
    using zip_rows_eq [of rows h w process_row s] assms simulates_rows [OF assms(3,5) order_refl]
    by simp
qed

end

section \<open>Copying rows\<close>

text \<open>
  \<open>CopyRows\<close> moves a run at once. Between images that do not overlap this is pixel by pixel.
\<close>

fun copy_process_row :: "nat \<Rightarrow> Columns list \<Rightarrow> mem \<Rightarrow> mem" where
  "copy_process_row len [src, dst] m =
     memcpy (col_ptr dst) (col_ptr src) (len * col_sizeof dst * col_channels dst) m"
| "copy_process_row len _ m = m"

definition copy_rows :: "Rectangle \<Rightarrow> Rows \<Rightarrow> Rows \<Rightarrow> mem \<Rightarrow> mem" where
  "copy_rows rect src dst = zip_rows copy_process_row rect [src, dst]"

fun copy_pixel :: "Columns list \<Rightarrow> mem \<Rightarrow> mem" where
  "copy_pixel [src, dst] m = memcpy (col_ptr dst) (col_ptr src) (pixel_bytes dst) m"
| "copy_pixel _ m = m"

definition copy_ok :: "nat \<Rightarrow> Columns list \<Rightarrow> bool" where
  "copy_ok len cols \<longleftrightarrow>
     (\<exists>src dst. cols = [src, dst] \<and> pixel_bytes src = pixel_bytes dst
        \<and> {col_ptr src..<col_ptr src + len * pixel_bytes src}
          \<inter> {col_ptr dst..<col_ptr dst + len * pixel_bytes dst} = {})"

lemma memcpy_append:
  assumes "{src..<src + (a + b)} \<inter> {dst..<dst + (a + b)} = {}"
  shows "memcpy (dst + a) (src + a) b (memcpy dst src a m) = memcpy dst src (a + b) m"
proof
  fix x
  have "src + (x - dst) \<notin> {dst..<dst + (a + b)}" if "dst \<le> x" "x < dst + (a + b)"
  proof -
    have "src + (x - dst) \<in> {src..<src + (a + b)}"
      using that by auto
    with assms show ?thesis by blast
  qed
  then show "memcpy (dst + a) (src + a) b (memcpy dst src a m) x = memcpy dst src (a + b) m x"
    by (cases "dst + a \<le> x"; cases "dst \<le> x"; cases "x < dst + (a + b)")
      (auto simp: memcpy_def)
qed

lemma copy_run:
  assumes "pixel_bytes src = pixel_bytes dst"
    and "{col_ptr src..<col_ptr src + n * pixel_bytes src}
      \<inter> {col_ptr dst..<col_ptr dst + n * pixel_bytes dst} = {}" and "len \<le> n"
  shows "columns_loop copy_pixel len [src, dst] m
    = memcpy (col_ptr dst) (col_ptr src) (len * pixel_bytes dst) m"
  using assms(3)
proof (induction len)
  case 0
  then show ?case by (auto simp: columns_loop_def memcpy_def fun_eq_iff)
next
  case (Suc len)
  let ?b = "pixel_bytes dst"
  have "Suc len * ?b \<le> n * ?b" using Suc.prems by (rule mult_le_mono1)
  then have "{col_ptr src..<col_ptr src + (len * ?b + ?b)} \<inter> {col_ptr dst..<col_ptr dst + (len * ?b + ?b)} = {}"
    using assms(1,2) by (auto simp: disjoint_iff)
  from memcpy_append [OF this] Suc assms(1) show ?case
    by (simp add: columns_loop_def add.commute)
qed

interpretation copying: run_simulation copy_process_row copy_pixel "(=)" copy_ok
proof
  fix len :: nat and cols and s t :: mem
  assume "copy_ok len cols" and "s = t"
  then obtain src dst where c: "cols = [src, dst]" "pixel_bytes src = pixel_bytes dst"
    "{col_ptr src..<col_ptr src + len * pixel_bytes src}
      \<inter> {col_ptr dst..<col_ptr dst + len * pixel_bytes dst} = {}"
    by (auto simp only: copy_ok_def)
  have "len * col_sizeof dst * col_channels dst = len * pixel_bytes dst"
    by (simp add: pixel_bytes_def)
  with copy_run [OF c(2,3) order_refl] c(1) \<open>s = t\<close>
  show "copy_process_row len cols s = columns_loop copy_pixel len cols t"
    by (simp only: copy_process_row.simps)
qed

section \<open>A zero margin\<close>

definition make_zero_border_border :: "Rectangle \<Rightarrow> Rows \<Rightarrow> Margin \<Rightarrow> mem \<Rightarrow> mem" where
  "make_zero_border_border rect rows margin m =
     (let pixel = row_sizeof rows * row_channels rows;
          inner = size_wrap (int (rectangle_width rect) - int (margin_left margin) - int (margin_right margin));
          zero = (\<lambda>column count index. memset (row_ptr (rows_at rows (int index) (int column))) 0 (count * pixel));
          m = (if margin_left margin \<noteq> 0
               then fold (zero 0 (margin_left margin)) [0..<rectangle_height rect] m else m);
          m = (if margin_top margin \<noteq> 0
               then fold (zero (margin_left margin) inner) [0..<margin_top margin] m else m);
          m = (if margin_right margin \<noteq> 0
               then fold (zero (size_wrap (int (rectangle_width rect) - int (margin_right margin))) (margin_right margin))
                 [0..<rectangle_height rect] m else m);
          m = (if margin_bottom margin \<noteq> 0
               then fold (zero (margin_left margin) inner)
                 [size_wrap (int (rectangle_height rect) - int (margin_bottom margin))..<rectangle_height rect] m
               else m)
      in m)"

lemma rows_at_nat:
  assumes "row_ptr r + i * row_stride r \<le> size_max" and "row_stride r < 2 ^ 63"
  shows "row_ptr (rows_at r (int i) (int j))
    = row_ptr r + i * row_stride r + j * (row_sizeof r * row_channels r)"
proof -
  have "add_stride (row_ptr r) (int i * ptrdiff (row_stride r)) = row_ptr r + i * row_stride r"
    using size_wrap_id [OF assms(1)] assms(2) by (simp add: add_stride_wrap ptrdiff_small)
  then show ?thesis
    unfolding rows_at_def rows_pointer_at_def
    by (simp add: Let_def element_address_nat [of _ _ "j * row_channels r", simplified] mult_ac)
qed

lemma memset_rows:
  "fold (\<lambda>i. memset (f i) 0 n) is m a = (if \<exists>i \<in> set is. f i \<le> a \<and> a < f i + n then 0 else m a)"
  by (induction "is" arbitrary: m) (auto simp: memset_def)

text \<open>The bytes of pixel \<open>(i, j)\<close>, and of the pixels from column \<open>c\<close> on in row \<open>i\<close>.\<close>

definition in_pixel :: "Rows \<Rightarrow> nat \<Rightarrow> nat \<Rightarrow> nat \<Rightarrow> bool" where
  "in_pixel r i j a \<longleftrightarrow>
     (let p = row_ptr r + i * row_stride r + j * (row_sizeof r * row_channels r)
      in p \<le> a \<and> a < p + row_sizeof r * row_channels r)"

lemma in_pixel_run:
  "(\<exists>j. c \<le> j \<and> j < c + n \<and> in_pixel r i j a) \<longleftrightarrow>
    row_ptr r + i * row_stride r + c * (row_sizeof r * row_channels r) \<le> a
    \<and> a < row_ptr r + i * row_stride r + c * (row_sizeof r * row_channels r)
        + n * (row_sizeof r * row_channels r)"
proof -
  define b where "b = row_ptr r + i * row_stride r"
  define p where "p = row_sizeof r * row_channels r"
  have "(\<exists>j. c \<le> j \<and> j < c + n \<and> b + j * p \<le> a \<and> a < b + j * p + p)
    \<longleftrightarrow> b + c * p \<le> a \<and> a < b + c * p + n * p" (is "?L = ?R")
  proof
    assume ?L
    then obtain j where j: "c \<le> j" "j < c + n" "b + j * p \<le> a" "a < b + j * p + p" by blast
    have "c * p \<le> j * p" using j by simp
    moreover have "j * p + p \<le> c * p + n * p"
      using mult_le_mono1 [of "Suc j" "c + n" p] j by (simp add: add_mult_distrib)
    ultimately show ?R using j by linarith
  next
    assume R: ?R
    then have "0 < p" by (cases p) auto
    let ?j = "(a - b) div p"
    from R have "c \<le> ?j"
      using \<open>0 < p\<close> by (subst less_eq_div_iff_mult_less_eq) auto
    moreover have "?j < c + n"
      using R \<open>0 < p\<close> by (subst div_less_iff_less_mult) (auto simp: add_mult_distrib)
    moreover have "?j * p \<le> a - b" "a - b < ?j * p + p"
      using \<open>0 < p\<close> dividend_less_div_times [of p "a - b"] by (auto simp: add.commute)
    with R have "b + ?j * p \<le> a" "a < b + ?j * p + p" by linarith+
    ultimately show ?L by blast
  qed
  then show ?thesis by (simp add: in_pixel_def b_def p_def Let_def)
qed

definition in_margin :: "Rectangle \<Rightarrow> Margin \<Rightarrow> nat \<Rightarrow> nat \<Rightarrow> bool" where
  "in_margin rect margin i j \<longleftrightarrow>
     i < margin_top margin \<or> rectangle_height rect - margin_bottom margin \<le> i
     \<or> j < margin_left margin \<or> rectangle_width rect - margin_right margin \<le> j"

lemma zero_columns:
  assumes "in_memory h r" and "row_stride r < 2 ^ 63" and "set is \<subseteq> {..<h}"
  shows "fold (\<lambda>i. memset (row_ptr (rows_at r (int i) (int c))) 0 (n * (row_sizeof r * row_channels r))) is m a
    = (if \<exists>i \<in> set is. \<exists>j. c \<le> j \<and> j < c + n \<and> in_pixel r i j a then 0 else m a)"
proof -
  have "row_ptr (rows_at r (int i) (int c)) = row_ptr r + i * row_stride r + c * (row_sizeof r * row_channels r)"
    if "i \<in> set is" for i
    using that assms rows_at_nat [of r i c] by (auto simp: in_memory_def)
  then show ?thesis unfolding memset_rows in_pixel_run by (simp cong: if_cong)
qed

lemma margin_regions:
  fixes P :: "nat \<Rightarrow> nat \<Rightarrow> bool"
  assumes "T + B \<le> H" and "L + R \<le> W"
  shows "(\<exists>i \<in> set [H - B..<H]. \<exists>j. L \<le> j \<and> j < W - R \<and> P i j)
      \<or> (\<exists>i \<in> set [0..<H]. \<exists>j. W - R \<le> j \<and> j < W \<and> P i j)
      \<or> (\<exists>i \<in> set [0..<T]. \<exists>j. L \<le> j \<and> j < W - R \<and> P i j)
      \<or> (\<exists>i \<in> set [0..<H]. \<exists>j. 0 \<le> j \<and> j < 0 + L \<and> P i j)
    \<longleftrightarrow> (\<exists>i < H. \<exists>j < W. (i < T \<or> H - B \<le> i \<or> j < L \<or> W - R \<le> j) \<and> P i j)" (is "?A \<longleftrightarrow> ?B")
proof
  assume ?A
  then obtain i j where P: "P i j" and ij: "(H - B \<le> i \<and> i < H \<and> j < W - R) \<or> (i < H \<and> W - R \<le> j \<and> j < W)
      \<or> (i < T \<and> j < W - R) \<or> (i < H \<and> j < L)"
    by (elim disjE bexE exE conjE) fastforce+
  from ij assms have "i < H \<and> j < W \<and> (i < T \<or> H - B \<le> i \<or> j < L \<or> W - R \<le> j)" by linarith
  with P show ?B by blast
next
  assume ?B
  then obtain i j where P: "P i j" and ij: "i < H" "j < W" "i < T \<or> H - B \<le> i \<or> j < L \<or> W - R \<le> j"
    by blast
  then have "j < L \<or> W - R \<le> j \<or> L \<le> j \<and> j < W - R \<and> (i < T \<or> H - B \<le> i)" by linarith
  with P ij(1,2) show ?A
    unfolding set_upt Bex_def atLeastLessThan_iff by (metis add_0 zero_le)
qed

text \<open>
  C21. The zero border: exactly the bytes of the pixels in the margin are set to zero, corners
  included, and every other byte keeps its value. The margins lie inside the rectangle, the image
  inside the address space.
\<close>

theorem zero_border_bytes:
  assumes "in_memory (rectangle_height rect) r" and "row_stride r < 2 ^ 63"
    and "rectangle_width rect \<le> size_max" and "rectangle_height rect \<le> size_max"
    and "margin_left margin + margin_right margin \<le> rectangle_width rect"
    and "margin_top margin + margin_bottom margin \<le> rectangle_height rect"
  shows "make_zero_border_border rect r margin m a =
    (if \<exists>i < rectangle_height rect. \<exists>j < rectangle_width rect.
          in_margin rect margin i j \<and> in_pixel r i j a then 0 else m a)"
proof -
  obtain W H L T R B where eqs: "rectangle_width rect = W" "rectangle_height rect = H"
    "margin_left margin = L" "margin_top margin = T" "margin_right margin = R" "margin_bottom margin = B"
    by blast
  have diffs: "int W - int L - int R = int (W - L - R)" "int W - int R = int (W - R)"
    "int H - int B = int (H - B)"
    using assms(5,6) by (simp_all add: eqs of_nat_diff)
  have wraps: "size_wrap (int W - int L - int R) = W - L - R" "size_wrap (int W - int R) = W - R"
    "size_wrap (int H - int B) = H - B"
    unfolding diffs using assms(3,4) by (simp_all add: eqs size_wrap_id)
  note zero = zero_columns [OF assms(1) [unfolded eqs] assms(2)]
  have sub: "set [0..<H] \<subseteq> {..<H}" "set [0..<T] \<subseteq> {..<H}" "set [H - B..<H] \<subseteq> {..<H}"
    using assms(6) by (auto simp: eqs)
  have ranges: "W - R + R = W" "L + (W - L - R) = W - R" using assms(5) by (simp_all add: eqs)
  have "make_zero_border_border rect r margin m a =
    (if (\<exists>i \<in> set [H - B..<H]. \<exists>j. L \<le> j \<and> j < W - R \<and> in_pixel r i j a)
      \<or> (\<exists>i \<in> set [0..<H]. \<exists>j. W - R \<le> j \<and> j < W \<and> in_pixel r i j a)
      \<or> (\<exists>i \<in> set [0..<T]. \<exists>j. L \<le> j \<and> j < W - R \<and> in_pixel r i j a)
      \<or> (\<exists>i \<in> set [0..<H]. \<exists>j. 0 \<le> j \<and> j < 0 + L \<and> in_pixel r i j a) then 0 else m a)"
    unfolding make_zero_border_border_def Let_def eqs wraps
    by (cases "L = 0"; cases "T = 0"; cases "R = 0"; cases "B = 0")
      (simp_all only: zero [OF sub(1)] zero [OF sub(2)] zero [OF sub(3)] ranges if_True if_False
        not_False_eq_True simp_thms, auto)
  also have "\<dots> = (if \<exists>i < H. \<exists>j < W. in_margin rect margin i j \<and> in_pixel r i j a then 0 else m a)"
    using margin_regions [of T B H L R W "\<lambda>i j. in_pixel r i j a"] assms(5,6)
    by (simp add: in_margin_def eqs)
  finally show ?thesis by (simp add: eqs)
qed


text \<open>Three by three bytes with a margin of one: only the byte in the middle survives.\<close>

theorem zero_border_bytes_witness:
  "make_zero_border_border \<lparr>rectangle_width = 3, rectangle_height = 3\<rparr>
      \<lparr>row_ptr = 10, row_stride = 3, row_sizeof = 1, row_channels = 1\<rparr>
      \<lparr>margin_left = 1, margin_top = 1, margin_right = 1, margin_bottom = 1\<rparr> (\<lambda>_. 7) 14 = 7
    \<and> make_zero_border_border \<lparr>rectangle_width = 3, rectangle_height = 3\<rparr>
      \<lparr>row_ptr = 10, row_stride = 3, row_sizeof = 1, row_channels = 1\<rparr>
      \<lparr>margin_left = 1, margin_top = 1, margin_right = 1, margin_bottom = 1\<rparr> (\<lambda>_. 7) 15 = 0"
proof -
  let ?rect = "\<lparr>rectangle_width = 3, rectangle_height = 3\<rparr>"
  let ?r = "\<lparr>row_ptr = 10, row_stride = 3, row_sizeof = 1, row_channels = 1\<rparr>"
  let ?g = "\<lparr>margin_left = 1, margin_top = 1, margin_right = 1, margin_bottom = 1\<rparr>"
  have fits: "in_memory (rectangle_height ?rect) ?r" "row_stride ?r < 2 ^ 63"
    "rectangle_width ?rect \<le> size_max" "rectangle_height ?rect \<le> size_max"
    "margin_left ?g + margin_right ?g \<le> rectangle_width ?rect"
    "margin_top ?g + margin_bottom ?g \<le> rectangle_height ?rect"
    by (simp_all add: in_memory_def size_max_def)
  have "\<not> (\<exists>i < 3. \<exists>j < 3. in_margin ?rect ?g i j \<and> in_pixel ?r i j 14)"
    by (auto simp: in_margin_def in_pixel_def Let_def, presburger+)
  moreover have "in_margin ?rect ?g 1 2 \<and> in_pixel ?r 1 2 15"
    by (simp add: in_margin_def in_pixel_def)
  then have "\<exists>i < 3. \<exists>j < 3. in_margin ?rect ?g i j \<and> in_pixel ?r i j 15"
    by (intro exI [of _ 1] exI [of _ 2] conjI) simp_all
  ultimately show ?thesis
    using zero_border_bytes [OF fits, of "\<lambda>_. 7" 14] zero_border_bytes [OF fits, of "\<lambda>_. 7" 15] by simp
qed

end
