(* ===== verification/Row_Based_Operation.thy ===== *)
theory Row_Based_Operation
  imports Kcv_Rows Loop_Unroll
begin

text \<open>
  The facades of \<^verbatim>\<open>kleidicv/include/kleidicv/operations.h\<close> that run an operation
  over one row: \<open>RowBasedOperation\<close> (vector paths unrolled twice and once, the rewound last
  vector, the remaining elements one by one through \<open>RemainingPathAdapter\<close> of
  \<^verbatim>\<open>neon.h\<close>) and \<open>RowBasedBlockOperation\<close>, which in addition stops after a number of
  vectors to let the operation empty its accumulators. An operation is shown to simulate a loop over
  pixels once its vector paths simulate runs of that loop.
\<close>

section \<open>An operation\<close>

text \<open>
  The tags (\<^verbatim>\<open>UnrollTwice\<close>, \<^verbatim>\<open>UnrollOnce\<close>,
  \<^verbatim>\<open>TryToAvoidTailLoop\<close>) and the paths, as actions on the state of the operation and
  the memory.
\<close>

record 's vec_operation =
  op_num_lanes :: nat
  op_unrolled_twice :: bool
  op_unrolled_once :: bool
  op_avoids_tail :: bool
  op_vector_path_2x :: "Columns list \<Rightarrow> 's \<Rightarrow> 's"
  op_vector_path :: "Columns list \<Rightarrow> 's \<Rightarrow> 's"
  op_scalar_path :: "Columns list \<Rightarrow> 's \<Rightarrow> 's"

definition remaining_path :: "('s, 'o) vec_operation_scheme \<Rightarrow> nat \<Rightarrow> Columns list \<Rightarrow> 's \<Rightarrow> 's" where
  "remaining_path op len cols =
     fold (\<lambda>index. op_scalar_path op (map (\<lambda>c. columns_at c (int index)) cols)) [0..<len]"

definition step_path ::
    "(Columns list \<Rightarrow> 's \<Rightarrow> 's) \<Rightarrow> nat \<Rightarrow> Columns list \<times> 's \<Rightarrow> Columns list \<times> 's" where
  "step_path path step st = (case st of (cols, s) \<Rightarrow> (map (columns_add (int step)) cols, path cols s))"

definition step_back :: "nat \<Rightarrow> Columns list \<times> 's \<Rightarrow> Columns list \<times> 's" where
  "step_back backward_step st =
     (case st of (cols, s) \<Rightarrow> (map (columns_subtract (int backward_step)) cols, s))"

text \<open>
  The label \<^verbatim>\<open>avoid_tail_loop\<close> and the jump back to it: at most one jump is made,
  because the rewound loop has exactly one vector left.
\<close>

function avoid_tail_loop ::
    "('s, 'o) vec_operation_scheme \<Rightarrow> loop_unroll \<times> Columns list \<times> 's \<Rightarrow> loop_unroll \<times> Columns list \<times> 's"
where
  "avoid_tail_loop op st =
     (let st = unroll_once_if True (step_path (op_vector_path op)) st in
      if op_avoids_tail op then
        (case try_avoid_tail_loop step_back st of
           (jump, st') \<Rightarrow> if jump then avoid_tail_loop op st' else st')
      else st)"
  by pat_completeness auto
termination
proof (relation "measure (\<lambda>(op, (lp, st)). if lu_length lp mod lu_step lp = 0 then 0 else 1)")
  fix op :: "('s, 'o) vec_operation_scheme" and st u jump st'
  assume u: "u = unroll_once_if True (step_path (op_vector_path op)) st"
    and j: "(jump, st') = try_avoid_tail_loop step_back u" "jump"
  obtain lp x where st: "st = (lp, x)" by (cases st)
  from u have lp: "lu_length (fst u) = lu_length lp mod lu_step lp" "lu_step (fst u) = lu_step lp"
    by (simp_all add: st unroll_once_if_def unroll_once_def unroll_n_times_def Let_def
        minus_mult_div_eq_mod)
  from j have "lu_length (fst u) \<noteq> 0" "lu_length (fst st') = lu_step (fst u)"
    "lu_step (fst st') = lu_step (fst u)"
    by (auto simp: try_avoid_tail_loop_def avoid_tail_def split: prod.splits if_splits)
  with lp show "((op, st'), op, st)
    \<in> measure (\<lambda>(op, (lp, st)). if lu_length lp mod lu_step lp = 0 then 0 else 1)"
    by (cases st') (simp add: st)
qed simp

declare avoid_tail_loop.simps [simp del]

definition process_row :: "('s, 'o) vec_operation_scheme \<Rightarrow> nat \<Rightarrow> Columns list \<Rightarrow> 's \<Rightarrow> 's" where
  "process_row op len cols s =
     (let st = (LoopUnroll len (op_num_lanes op), cols, s);
          st = (if op_unrolled_twice op
                then unroll_twice_if True (step_path (op_vector_path_2x op)) st else st);
          st = (if op_unrolled_once op then avoid_tail_loop op st else st)
      in snd (snd (remaining (\<lambda>rem_length _ (cols, s). (cols, remaining_path op rem_length cols s)) st)))"

definition apply_operation_by_rows ::
    "('s, 'o) vec_operation_scheme \<Rightarrow> Rectangle \<Rightarrow> Rows list \<Rightarrow> 's \<Rightarrow> 's" where
  "apply_operation_by_rows op = zip_rows (process_row op)"

section \<open>Simulation of a pixel loop\<close>

lemma columns_loop_shift:
  "columns_loop work n (map (step_column p) cols) t
    = fold (\<lambda>k. work (map (step_column k) cols)) [p..<p + n] t"
  unfolding columns_loop_def
  by (simp add: comp_def fold_shift [of "\<lambda>k. work (map (step_column k) cols)"])

lemma columns_loop_append:
  "columns_loop work n (map (step_column p) cols) (columns_loop work p cols t)
    = columns_loop work (p + n) cols t"
  unfolding columns_loop_shift
  unfolding columns_loop_def by (rule fold_upt_append) simp_all

text \<open>
  \<open>ok n cols\<close> tells that the \<open>n\<close> pixels from \<open>cols\<close> on may be processed as one run. An
  operation that rewinds needs pixel steps that can be repeated.
\<close>

locale vector_simulation =
  fixes op :: "('s, 'o) vec_operation_scheme"
    and work :: "Columns list \<Rightarrow> 't \<Rightarrow> 't"
    and R :: "'s \<Rightarrow> 't \<Rightarrow> bool"
    and ok :: "nat \<Rightarrow> Columns list \<Rightarrow> bool"
  assumes lanes_pos: "ok n cols \<Longrightarrow> 0 < op_num_lanes op"
    and ok_part: "ok n cols \<Longrightarrow> k + m \<le> n \<Longrightarrow> ok m (map (step_column k) cols)"
    and vector_run: "op_unrolled_once op \<Longrightarrow> ok (op_num_lanes op) cols \<Longrightarrow> R s t \<Longrightarrow>
      R (op_vector_path op cols s) (columns_loop work (op_num_lanes op) cols t)"
    and vector_2x_run: "op_unrolled_twice op \<Longrightarrow> ok (2 * op_num_lanes op) cols \<Longrightarrow> R s t \<Longrightarrow>
      R (op_vector_path_2x op cols s) (columns_loop work (2 * op_num_lanes op) cols t)"
    and scalar_run: "ok 1 cols \<Longrightarrow> R s t \<Longrightarrow> R (op_scalar_path op cols s) (work cols t)"
    and repeatable: "op_avoids_tail op \<Longrightarrow> ok n cols \<Longrightarrow>
      element_operation (\<lambda>k. work (map (step_column k) cols)) n"
begin

text \<open>The state after the first \<open>p\<close> pixels.\<close>

definition at_pixel :: "nat \<Rightarrow> Columns list \<Rightarrow> 't \<Rightarrow> loop_unroll \<times> Columns list \<times> 's \<Rightarrow> bool" where
  "at_pixel len cols t st \<longleftrightarrow>
     (case st of (lp, cs, s) \<Rightarrow>
        lu_step lp = op_num_lanes op \<and> (can_avoid_tail lp \<longleftrightarrow> op_num_lanes op \<le> len)
        \<and> lu_length lp \<le> len
        \<and> (let p = len - lu_length lp in
             cs = map (step_column p) cols \<and> R s (columns_loop work p cols t)))"

lemma at_pixel_blocks:
  assumes path: "\<And>cs s t. ok n cs \<Longrightarrow> R s t \<Longrightarrow> R (path cs s) (columns_loop work n cs t)"
    and ok: "ok len cols" and "p + m * n \<le> len" and "R s (columns_loop work p cols t)"
  shows "\<exists>s'. fold (\<lambda>_. step_path path n) [0..<m] (map (step_column p) cols, s)
      = (map (step_column (p + m * n)) cols, s') \<and> R s' (columns_loop work (p + m * n) cols t)"
  using assms(3)
proof (induction m)
  case 0
  then show ?case using assms(4) by simp
next
  case (Suc m)
  then have "p + m * n \<le> len" by simp
  from Suc.IH [OF this] obtain s' where
    s': "fold (\<lambda>_. step_path path n) [0..<m] (map (step_column p) cols, s)
      = (map (step_column (p + m * n)) cols, s')" "R s' (columns_loop work (p + m * n) cols t)"
    by blast
  have "ok n (map (step_column (p + m * n)) cols)"
    using Suc.prems by (intro ok_part [OF ok]) simp
  from path [OF this s'(2)] have
    "R (path (map (step_column (p + m * n)) cols) s') (columns_loop work (p + Suc m * n) cols t)"
    unfolding columns_loop_append by (simp add: add.commute add.left_commute)
  moreover have "fold (\<lambda>_. step_path path n) [0..<Suc m] (map (step_column p) cols, s)
      = (map (step_column (p + Suc m * n)) cols, path (map (step_column (p + m * n)) cols) s')"
    using s'(1) by (simp add: step_path_def columns_add_step comp_def add.commute add.left_commute)
  ultimately show ?case by blast
qed

lemma at_pixel_unroll:
  assumes path: "\<And>cs s t. ok (f * op_num_lanes op) cs \<Longrightarrow> R s t \<Longrightarrow>
      R (path cs s) (columns_loop work (f * op_num_lanes op) cs t)"
    and ok: "ok len cols" and st: "at_pixel len cols t st"
  shows "at_pixel len cols t (unroll_n_times f (step_path path) st)
    \<and> lu_length (fst (unroll_n_times f (step_path path) st)) = lu_length (fst st) mod (f * op_num_lanes op)"
proof -
  obtain lp cs s where eq: "st = (lp, cs, s)" by (cases st)
  let ?n = "f * op_num_lanes op"
  let ?m = "lu_length lp div ?n" and ?p = "len - lu_length lp"
  from st have lp: "lu_step lp = op_num_lanes op" "lu_length lp \<le> len"
    "cs = map (step_column ?p) cols" "R s (columns_loop work ?p cols t)"
    by (simp_all add: at_pixel_def eq Let_def)
  have le: "?m * ?n \<le> lu_length lp" by (rule div_times_less_eq_dividend)
  with lp(2) have "?p + ?m * ?n \<le> len" by linarith
  from at_pixel_blocks [where path = path and n = ?n and m = ?m and p = ?p, OF path ok this lp(4)] obtain s' where
    s': "fold (\<lambda>_. step_path path ?n) [0..<?m] (map (step_column ?p) cols, s)
      = (map (step_column (?p + ?m * ?n)) cols, s')" "R s' (columns_loop work (?p + ?m * ?n) cols t)"
    by blast
  have "len - (lu_length lp - ?m * ?n) = ?p + ?m * ?n" "lu_length lp mod ?n \<le> len"
    using le lp(2) mod_less_eq_dividend [of "lu_length lp" ?n] by linarith+
  with s' st show ?thesis
    by (simp add: at_pixel_def eq unroll_n_times_def Let_def lp(1,3) mult.commute [of ?n]
        minus_div_mult_eq_mod)
qed

lemma at_pixel_rewind:
  assumes avoids: "op_avoids_tail op" and once: "op_unrolled_once op"
    and ok: "ok len cols" and st: "at_pixel len cols t (lp, cs, s)"
    and rest: "lu_length lp < op_num_lanes op" and can: "can_avoid_tail lp"
  shows "at_pixel len cols t
    (avoid_tail_loop op (avoid_tail lp, step_back (lu_step lp - lu_length lp) (cs, s)))"
proof -
  let ?n = "op_num_lanes op"
  let ?p = "len - lu_length lp" and ?q = "len - ?n"
  let ?E = "\<lambda>k. work (map (step_column k) cols)"
  from st can have lp: "lu_step lp = ?n" "?n \<le> len" "lu_length lp \<le> len"
    "cs = map (step_column ?p) cols" "R s (columns_loop work ?p cols t)"
    by (simp_all add: at_pixel_def Let_def)
  have "?p = (?n - lu_length lp) + ?q" using rest lp(2) by linarith
  then have start: "step_back (?n - lu_length lp) (cs, s) = (map (step_column ?q) cols, s)"
    unfolding lp(4) by (simp add: step_back_def columns_subtract_step del: add_diff_assoc)
  have "ok ?n (map (step_column ?q) cols)" using lp(2) by (intro ok_part [OF ok]) simp
  from vector_run [OF once this lp(5)]
  have "R (op_vector_path op (map (step_column ?q) cols) s)
    (fold ?E ([0..<?p] @ [?q..<?q + ?n]) t)"
    unfolding columns_loop_shift by (simp add: columns_loop_def)
  also have "fold ?E ([0..<?p] @ [?q..<?q + ?n]) t = fold ?E [0..<len] t"
    using rest lp(2,3)
    by (intro element_operation.fold_rows_set [OF repeatable [OF avoids ok]]) auto
  finally have "R (op_vector_path op (map (step_column ?q) cols) s) (columns_loop work len cols t)"
    by (simp add: columns_loop_def)
  then show ?thesis
    unfolding lp(1) start using lp(1,2) lanes_pos [OF ok] can
    by (simp add: avoid_tail_loop.simps [of op "(lp\<lparr>lu_length := op_num_lanes op\<rparr>, _)"] unroll_once_if_def
        unroll_once_def unroll_n_times_def avoid_tail_def try_avoid_tail_loop_def avoids Let_def
        step_path_def columns_add_step at_pixel_def comp_def)
qed

lemma at_pixel_avoid_tail_loop:
  assumes once: "op_unrolled_once op" and ok: "ok len cols" and st: "at_pixel len cols t st"
  shows "at_pixel len cols t (avoid_tail_loop op st)"
proof -
  let ?u = "unroll_n_times 1 (step_path (op_vector_path op)) st"
  obtain lp cs s where u: "?u = (lp, cs, s)" by (cases ?u)
  have vector: "R (op_vector_path op cs s) (columns_loop work (1 * op_num_lanes op) cs t)"
    if "ok (1 * op_num_lanes op) cs" "R s t" for cs s t
    using vector_run [OF once] that by simp
  from at_pixel_unroll [where path = "op_vector_path op" and f = 1, OF vector ok st]
  have at: "at_pixel len cols t (lp, cs, s)" and lt: "lu_length lp < op_num_lanes op"
    using lanes_pos [OF ok] unfolding u by simp_all
  show ?thesis
    using at at_pixel_rewind [OF _ once ok at lt] lanes_pos [OF ok]
    unfolding avoid_tail_loop.simps [of op st] unroll_once_if_def unroll_once_def if_True u
    by (simp add: try_avoid_tail_loop_def Let_def)
qed

lemma process_row_simulates:
  assumes ok: "ok len cols" and R: "R s t"
  shows "R (process_row op len cols s) (columns_loop work len cols t)"
proof -
  let ?start = "(LoopUnroll len (op_num_lanes op), cols, s)"
  let ?twice = "if op_unrolled_twice op
    then unroll_twice_if True (step_path (op_vector_path_2x op)) ?start else ?start"
  let ?once = "if op_unrolled_once op then avoid_tail_loop op ?twice else ?twice"
  have "at_pixel len cols t ?start"
    using R by (simp add: at_pixel_def LoopUnroll_def columns_loop_def)
  then have "at_pixel len cols t ?twice"
    using at_pixel_unroll [where path = "op_vector_path_2x op" and f = 2, OF vector_2x_run ok]
    by (simp add: unroll_twice_if_def unroll_twice_def)
  then have once: "at_pixel len cols t ?once" using at_pixel_avoid_tail_loop [OF _ ok] by simp
  obtain lp cs s' where eq: "?once = (lp, cs, s')" by (cases ?once)
  let ?p = "len - lu_length lp"
  from once have lp: "lu_length lp \<le> len" "cs = map (step_column ?p) cols"
    "R s' (columns_loop work ?p cols t)"
    unfolding eq by (simp_all add: at_pixel_def Let_def)
  have "R (fold (\<lambda>k. op_scalar_path op (map (step_column k) cs)) [0..<m] s')
      (columns_loop work (?p + m) cols t)" if "m \<le> lu_length lp" for m
    using that
  proof (induction m)
    case 0
    then show ?case using lp(3) by simp
  next
    case (Suc m)
    have "ok 1 (map (step_column (?p + m)) cols)"
      using Suc.prems lp(1) by (intro ok_part [OF ok]) simp
    from scalar_run [OF this] Suc show ?case
      by (simp add: lp(2) comp_def columns_loop_def)
  qed
  from this [of "lu_length lp"] lp(1,3)
  have "R (remaining_path op (lu_length lp) cs s') (columns_loop work len cols t)"
    by (simp add: remaining_path_def columns_at_step)
  moreover have "R s' (columns_loop work len cols t)" if "lu_length lp = 0" using lp(3) that by simp
  ultimately show ?thesis
    unfolding process_row_def Let_def eq remaining_def by simp
qed

end

sublocale vector_simulation \<subseteq> run_simulation "process_row op" work R ok
  by unfold_locales (rule process_row_simulates)

end
