(* ===== verification/Kcv_Elements.thy ===== *)
theory Kcv_Elements
  imports Kcv_Memory
begin

text \<open>
  Typed access to the byte memory: elements of \<open>LENGTH('a) div 8\<close> bytes in little-endian order,
  and the load and store of vectors of elements (\<^verbatim>\<open>vld1q\<close>,
  \<^verbatim>\<open>vst1q\<close> of \<^verbatim>\<open>neon_intrinsics.h\<close>, 16 bytes each).
\<close>

unbundle bit_operations_syntax

definition sizeof :: "'a::len itself \<Rightarrow> nat" where
  "sizeof t = LENGTH('a) div 8"

definition load_elem :: "nat \<Rightarrow> mem \<Rightarrow> 'a::len word" where
  "load_elem p m = foldr (\<lambda>i w. push_bit 8 w OR ucast (m (p + i))) [0..<sizeof TYPE('a)] 0"

definition store_elem :: "nat \<Rightarrow> 'a::len word \<Rightarrow> mem \<Rightarrow> mem" where
  "store_elem p w m =
     (\<lambda>a. if p \<le> a \<and> a < p + sizeof TYPE('a) then ucast (drop_bit (8 * (a - p)) w) else m a)"

definition elem_bytes :: "'a::len itself \<Rightarrow> nat \<Rightarrow> nat set" where
  "elem_bytes t p = {p..<p + sizeof TYPE('a)}"

lemma load_elem_cong:
  fixes w :: "'a::len word"
  assumes "\<forall>a \<in> elem_bytes TYPE('a) p. m a = m' a"
  shows "load_elem p m = (load_elem p m' :: 'a word)"
  unfolding load_elem_def by (rule foldr_cong) (use assms in \<open>auto simp: elem_bytes_def\<close>)

lemma bit_bytes:
  "bit (foldr (\<lambda>b w. push_bit 8 w OR ucast b) bs 0 :: 'a::len word) n \<longleftrightarrow>
     n < LENGTH('a) \<and> n div 8 < length bs \<and> bit (bs ! (n div 8) :: u8) (n mod 8)"
proof (induction bs arbitrary: n)
  case Nil
  then show ?case by simp
next
  case (Cons b bs)
  show ?case
  proof (cases "n < 8")
    case True
    then show ?thesis by (auto simp: bit_simps Cons)
  next
    case False
    then have "n div 8 = Suc ((n - 8) div 8)" "n mod 8 = (n - 8) mod 8" "n = n - 8 + 8"
      by (simp_all add: le_div_geq le_mod_geq)
    with False show ?thesis
      by (auto simp: bit_simps Cons dest: bit_imp_le_length)
  qed
qed

lemma load_elem_bytes:
  "load_elem p m = foldr (\<lambda>b w. push_bit 8 w OR ucast b) (map (\<lambda>i. m (p + i)) [0..<sizeof TYPE('a)])
    (0 :: 'a::len word)"
  by (simp add: load_elem_def foldr_map comp_def)

lemma load_store_same:
  fixes w :: "'a::len word"
  assumes "8 dvd LENGTH('a)"
  shows "load_elem p (store_elem p w m) = w"
proof (rule bit_word_eqI)
  fix n
  assume n: "n < LENGTH('a)"
  with assms have "n div 8 < sizeof TYPE('a)" by (auto simp: sizeof_def elim!: dvdE)
  with n show "bit (load_elem p (store_elem p w m) :: 'a word) n \<longleftrightarrow> bit w n"
    by (simp add: load_elem_bytes bit_bytes store_elem_def bit_simps)
qed

lemma store_elem_outside: "a \<notin> elem_bytes TYPE('a) p \<Longrightarrow> store_elem p (w :: 'a::len word) m a = m a"
  by (auto simp: store_elem_def elem_bytes_def)

lemma load_store_other:
  assumes "elem_bytes TYPE('a::len) p \<inter> elem_bytes TYPE('b::len) q = {}"
  shows "load_elem q (store_elem p (w :: 'a word) m) = (load_elem q m :: 'b word)"
  by (rule load_elem_cong) (use assms store_elem_outside [of _ p w m] in blast)

lemma sizeof_u8 [simp]: "sizeof TYPE(8) = 1" by (simp add: sizeof_def)
lemma sizeof_u16 [simp]: "sizeof TYPE(16) = 2" by (simp add: sizeof_def)
lemma sizeof_u32 [simp]: "sizeof TYPE(32) = 4" by (simp add: sizeof_def)
lemma sizeof_u64 [simp]: "sizeof TYPE(64) = 8" by (simp add: sizeof_def)

lemma load_elem_u8 [simp]: "load_elem p m = (m p :: u8)"
  by (simp add: load_elem_def upt_rec)

lemma store_elem_u8 [simp]: "store_elem p (v :: u8) m = m(p := v)"
  by (auto simp: store_elem_def fun_eq_iff)

section \<open>A sequence of stores\<close>

text \<open>
  A loop that computes an element at each position and stores it. When no store touches what a
  later position reads, every element is the one computed from the memory before the loop.
\<close>

definition reads :: "nat set \<Rightarrow> (mem \<Rightarrow> 'v) \<Rightarrow> bool" where
  "reads A g \<longleftrightarrow> (\<forall>m m'. (\<forall>a \<in> A. m a = m' a) \<longrightarrow> g m = g m')"

lemma readsD: "reads A g \<Longrightarrow> (\<And>a. a \<in> A \<Longrightarrow> m a = m' a) \<Longrightarrow> g m = g m'"
  unfolding reads_def by blast

lemma reads_load: "reads (elem_bytes TYPE('a::len) p) (\<lambda>m. load_elem p m :: 'a word)"
  unfolding reads_def using load_elem_cong by blast

lemma reads_comp: "reads A g \<Longrightarrow> reads A (\<lambda>m. f (g m))"
  unfolding reads_def by metis

lemma reads_comp2: "reads A g \<Longrightarrow> reads B h \<Longrightarrow> reads (A \<union> B) (\<lambda>m. f (g m) (h m))"
  unfolding reads_def by (metis UnCI)

text \<open>The positions stored before a position do not change what it reads.\<close>

definition stores_apart :: "'a::len itself \<Rightarrow> (nat \<Rightarrow> nat) \<Rightarrow> (nat \<Rightarrow> nat set) \<Rightarrow> nat \<Rightarrow> bool" where
  "stores_apart t d A n \<longleftrightarrow>
     (\<forall>i j. i < j \<and> j < n \<longrightarrow> elem_bytes TYPE('a) (d i) \<inter> A j = {})"

lemma stores_outside:
  fixes g :: "nat \<Rightarrow> mem \<Rightarrow> 'a::len word"
  assumes "\<forall>i < n. a \<notin> elem_bytes TYPE('a) (d i)"
  shows "fold (\<lambda>i m. store_elem (d i) (g i m) m) [0..<n] m a = m a"
  using assms by (induction n) (simp_all add: store_elem_outside)

lemma stores_from_start:
  fixes g :: "nat \<Rightarrow> mem \<Rightarrow> 'a::len word"
  assumes "\<And>i. i < n \<Longrightarrow> reads (A i) (g i)" and "stores_apart TYPE('a) d A n"
  shows "fold (\<lambda>i m. store_elem (d i) (g i m) m) [0..<n] m
    = fold (\<lambda>i. store_elem (d i) (g i m)) [0..<n] m"
  using assms
proof (induction n)
  case 0
  then show ?case by simp
next
  case (Suc n)
  have "stores_apart TYPE('a) d A n" using Suc.prems(2) by (simp add: stores_apart_def)
  then have IH: "fold (\<lambda>i m. store_elem (d i) (g i m) m) [0..<n] m
      = fold (\<lambda>i. store_elem (d i) (g i m)) [0..<n] m" using Suc by simp
  have "g n (fold (\<lambda>i m. store_elem (d i) (g i m) m) [0..<n] m) = g n m"
  proof (rule readsD [OF Suc.prems(1) [of n]])
    fix a
    assume "a \<in> A n"
    with Suc.prems(2) have "\<forall>i < n. a \<notin> elem_bytes TYPE('a) (d i)"
      unfolding stores_apart_def by blast
    then show "fold (\<lambda>i m. store_elem (d i) (g i m) m) [0..<n] m a = m a" by (rule stores_outside)
  qed simp
  then show ?case by (simp add: IH)
qed

lemma stores_result:
  fixes v :: "nat \<Rightarrow> 'a::len word"
  assumes "8 dvd LENGTH('a)" and "k < n"
    and "\<forall>j. k < j \<and> j < n \<longrightarrow> elem_bytes TYPE('a) (d j) \<inter> elem_bytes TYPE('a) (d k) = {}"
  shows "load_elem (d k) (fold (\<lambda>i. store_elem (d i) (v i)) [0..<n] m) = v k"
  using assms(2,3)
proof (induction n)
  case 0
  then show ?case by simp
next
  case (Suc n)
  show ?case
  proof (cases "k = n")
    case True
    then show ?thesis by (simp add: load_store_same [OF assms(1)])
  next
    case False
    with Suc.prems have "elem_bytes TYPE('a) (d n) \<inter> elem_bytes TYPE('a) (d k) = {}" "k < n"
      by auto
    with Suc show ?thesis by (simp add: load_store_other)
  qed
qed

section \<open>Vectors\<close>

definition num_lanes_of :: "'a::len itself \<Rightarrow> nat" where
  "num_lanes_of t = 16 div sizeof TYPE('a)"

definition vld1q_elems :: "nat \<Rightarrow> mem \<Rightarrow> 'a::len word list" where
  "vld1q_elems p m = map (\<lambda>i. load_elem (p + i * sizeof TYPE('a)) m) [0..<num_lanes_of TYPE('a)]"

definition vst1q_elems :: "nat \<Rightarrow> 'a::len word list \<Rightarrow> mem \<Rightarrow> mem" where
  "vst1q_elems p v = fold (\<lambda>i. store_elem (p + i * sizeof TYPE('a)) (v ! i)) [0..<length v]"

lemma vld1q_length [simp]: "length (vld1q_elems p m :: 'a::len word list) = num_lanes_of TYPE('a)"
  by (simp add: vld1q_elems_def)

lemma vld1q_append:
  "(vld1q_elems p m :: 'a::len word list) @ vld1q_elems (p + num_lanes_of TYPE('a) * sizeof TYPE('a)) m
    = map (\<lambda>i. load_elem (p + i * sizeof TYPE('a)) m) [0..<2 * num_lanes_of TYPE('a)]"
proof (rule nth_equalityI)
  let ?n = "num_lanes_of TYPE('a)"
  let ?s = "sizeof TYPE('a)"
  fix i
  assume i: "i < length ((vld1q_elems p m :: 'a word list) @ vld1q_elems (p + ?n * ?s) m)"
  have shift: "p + ?n * ?s + (i - ?n) * ?s = p + i * ?s" if "?n \<le> i"
    using that by (metis add.assoc add_mult_distrib le_add_diff_inverse)
  show "((vld1q_elems p m :: 'a word list) @ vld1q_elems (p + ?n * ?s) m) ! i
    = map (\<lambda>i. load_elem (p + i * ?s) m) [0..<2 * ?n] ! i"
  proof (cases "?n \<le> i")
    case True
    moreover from this i have "i - ?n < ?n" "i < 2 * ?n" by simp_all
    ultimately show ?thesis using shift by (simp add: nth_append vld1q_elems_def add.assoc)
  next
    case False
    then show ?thesis by (simp add: nth_append vld1q_elems_def)
  qed
qed simp

lemma vst1q_append:
  fixes v w :: "'a::len word list"
  shows "vst1q_elems (p + length v * sizeof TYPE('a)) w (vst1q_elems p v m) = vst1q_elems p (v @ w) m"
proof -
  let ?st = "\<lambda>i. store_elem (p + i * sizeof TYPE('a)) ((v @ w) ! i)"
  have "fold ?st [length v..<length v + n] u
    = fold (\<lambda>i. store_elem (p + length v * sizeof TYPE('a) + i * sizeof TYPE('a)) (w ! i)) [0..<n] u"
    if "n \<le> length w" for n u
    using that by (induction n) (simp_all add: nth_append add_mult_distrib add.assoc)
  from this [of "length w"] have w: "fold ?st [length v..<length v + length w] u
    = vst1q_elems (p + length v * sizeof TYPE('a)) w u" for u
    by (simp add: vst1q_elems_def)
  have v: "fold ?st [0..<length v] u = vst1q_elems p v u" for u
    unfolding vst1q_elems_def by (intro fold_cong) (auto simp: nth_append)
  have "[0..<length (v @ w)] = [0..<length v] @ [length v..<length v + length w]"
    using upt_add_eq_append [of 0 "length v" "length w"] by simp
  then show ?thesis
    unfolding vst1q_elems_def [of p "v @ w"] by (simp add: v w)
qed

lemma vst1q_map:
  "vst1q_elems d (map f [0..<n] :: 'a::len word list) m
    = fold (\<lambda>i. store_elem (d + i * sizeof TYPE('a)) (f i)) [0..<n] m"
  unfolding vst1q_elems_def by (rule fold_cong) auto

end
