(* ===== verification/Operation_Adapters.thy ===== *)
theory Operation_Adapters
  imports Row_Based_Operation Kcv_Elements
begin

text \<open>
  \<open>OperationAdapter\<close> of \<^verbatim>\<open>operations.h\<close>: an operation that is written for one
  vector or one element becomes an operation on columns, which loads the vectors, calls it and stores
  what it returns. The adapter is modelled for the shapes of operations used here: one source and a
  destination, two sources and a destination, a source only, and pointers.
\<close>

section \<open>Loading and storing two vectors\<close>

definition load_consecutive :: "nat \<Rightarrow> mem \<Rightarrow> 'a::len word list \<times> 'a word list" where
  "load_consecutive src m =
     (vld1q_elems src m, vld1q_elems (src + num_lanes_of TYPE('a) * sizeof TYPE('a)) m)"

definition store_consecutive :: "'a::len word list \<Rightarrow> 'a word list \<Rightarrow> nat \<Rightarrow> mem \<Rightarrow> mem" where
  "store_consecutive vec_0 vec_1 dst m =
     vst1q_elems (dst + num_lanes_of TYPE('a) * sizeof TYPE('a)) vec_1 (vst1q_elems dst vec_0 m)"

section \<open>One source and a destination\<close>

fun unary_vector_path_2x ::
    "('a::len word list \<Rightarrow> 'a word list) \<Rightarrow> Columns list \<Rightarrow> mem \<Rightarrow> mem" where
  "unary_vector_path_2x vector_path [src, dst] m =
     (let (src_0, src_1) = load_consecutive (col_ptr src) m;
          res_0 = vector_path src_0; res_1 = vector_path src_1
      in store_consecutive res_0 res_1 (col_ptr dst) m)"
| "unary_vector_path_2x _ _ m = m"

fun unary_vector_path ::
    "('a::len word list \<Rightarrow> 'a word list) \<Rightarrow> Columns list \<Rightarrow> mem \<Rightarrow> mem" where
  "unary_vector_path vector_path [src, dst] m =
     vst1q_elems (col_ptr dst) (vector_path (vld1q_elems (col_ptr src) m)) m"
| "unary_vector_path _ _ m = m"

fun unary_scalar_path :: "('a::len word \<Rightarrow> 'a word) \<Rightarrow> Columns list \<Rightarrow> mem \<Rightarrow> mem" where
  "unary_scalar_path scalar_path [src, dst] m =
     store_elem (col_ptr dst) (scalar_path (load_elem (col_ptr src) m)) m"
| "unary_scalar_path _ _ m = m"

definition unary_operation ::
    "bool \<Rightarrow> bool \<Rightarrow> ('a::len word list \<Rightarrow> 'a word list) \<Rightarrow> ('a word \<Rightarrow> 'a word) \<Rightarrow> mem vec_operation"
where
  "unary_operation twice once vector_path scalar_path =
     \<lparr>op_num_lanes = num_lanes_of TYPE('a), op_unrolled_twice = twice, op_unrolled_once = once,
      op_avoids_tail = False, op_vector_path_2x = unary_vector_path_2x vector_path,
      op_vector_path = unary_vector_path vector_path,
      op_scalar_path = unary_scalar_path scalar_path\<rparr>"

section \<open>Two sources and a destination\<close>

fun binary_vector_path_2x ::
    "('a::len word list \<Rightarrow> 'a word list \<Rightarrow> 'a word list) \<Rightarrow> Columns list \<Rightarrow> mem \<Rightarrow> mem" where
  "binary_vector_path_2x vector_path [src_a, src_b, dst] m =
     (let (src_a_0, src_a_1) = load_consecutive (col_ptr src_a) m;
          (src_b_0, src_b_1) = load_consecutive (col_ptr src_b) m;
          res_0 = vector_path src_a_0 src_b_0; res_1 = vector_path src_a_1 src_b_1
      in store_consecutive res_0 res_1 (col_ptr dst) m)"
| "binary_vector_path_2x _ _ m = m"

fun binary_vector_path ::
    "('a::len word list \<Rightarrow> 'a word list \<Rightarrow> 'a word list) \<Rightarrow> Columns list \<Rightarrow> mem \<Rightarrow> mem" where
  "binary_vector_path vector_path [src_a, src_b, dst] m =
     vst1q_elems (col_ptr dst)
       (vector_path (vld1q_elems (col_ptr src_a) m) (vld1q_elems (col_ptr src_b) m)) m"
| "binary_vector_path _ _ m = m"

fun binary_scalar_path ::
    "('a::len word \<Rightarrow> 'a word \<Rightarrow> 'a word) \<Rightarrow> Columns list \<Rightarrow> mem \<Rightarrow> mem" where
  "binary_scalar_path scalar_path [src_a, src_b, dst] m =
     store_elem (col_ptr dst)
       (scalar_path (load_elem (col_ptr src_a) m) (load_elem (col_ptr src_b) m)) m"
| "binary_scalar_path _ _ m = m"

definition binary_operation ::
    "bool \<Rightarrow> bool \<Rightarrow> ('a::len word list \<Rightarrow> 'a word list \<Rightarrow> 'a word list)
      \<Rightarrow> ('a word \<Rightarrow> 'a word \<Rightarrow> 'a word) \<Rightarrow> mem vec_operation" where
  "binary_operation twice once vector_path scalar_path =
     \<lparr>op_num_lanes = num_lanes_of TYPE('a), op_unrolled_twice = twice, op_unrolled_once = once,
      op_avoids_tail = False, op_vector_path_2x = binary_vector_path_2x vector_path,
      op_vector_path = binary_vector_path vector_path,
      op_scalar_path = binary_scalar_path scalar_path\<rparr>"

section \<open>A source only\<close>

text \<open>The state is the operation object; the image is read only.\<close>

fun sink_vector_path_2x ::
    "mem \<Rightarrow> ('a::len word list \<Rightarrow> 'o \<Rightarrow> 'o) \<Rightarrow> Columns list \<Rightarrow> 'o \<Rightarrow> 'o" where
  "sink_vector_path_2x m vector_path [src] op =
     (let (src_0, src_1) = load_consecutive (col_ptr src) m
      in vector_path src_1 (vector_path src_0 op))"
| "sink_vector_path_2x _ _ _ op = op"

fun sink_vector_path ::
    "mem \<Rightarrow> ('a::len word list \<Rightarrow> 'o \<Rightarrow> 'o) \<Rightarrow> Columns list \<Rightarrow> 'o \<Rightarrow> 'o" where
  "sink_vector_path m vector_path [src] op = vector_path (vld1q_elems (col_ptr src) m) op"
| "sink_vector_path _ _ _ op = op"

fun sink_scalar_path :: "mem \<Rightarrow> ('a::len word \<Rightarrow> 'o \<Rightarrow> 'o) \<Rightarrow> Columns list \<Rightarrow> 'o \<Rightarrow> 'o" where
  "sink_scalar_path m scalar_path [src] op = scalar_path (load_elem (col_ptr src) m) op"
| "sink_scalar_path _ _ _ op = op"

definition sink_operation ::
    "mem \<Rightarrow> bool \<Rightarrow> bool \<Rightarrow> ('a::len word list \<Rightarrow> 'o \<Rightarrow> 'o) \<Rightarrow> ('a word \<Rightarrow> 'o \<Rightarrow> 'o) \<Rightarrow> 'o vec_operation"
where
  "sink_operation m twice once vector_path scalar_path =
     \<lparr>op_num_lanes = num_lanes_of TYPE('a), op_unrolled_twice = twice, op_unrolled_once = once,
      op_avoids_tail = False, op_vector_path_2x = sink_vector_path_2x m vector_path,
      op_vector_path = sink_vector_path m vector_path,
      op_scalar_path = sink_scalar_path m scalar_path\<rparr>"

section \<open>Pointers\<close>

text \<open>The operation loads and stores itself; \<open>n\<close> is \<^verbatim>\<open>num_lanes()\<close>.\<close>

fun pointer_vector_path_2x ::
    "nat \<Rightarrow> (nat \<Rightarrow> nat \<Rightarrow> mem \<Rightarrow> mem) \<Rightarrow> Columns list \<Rightarrow> mem \<Rightarrow> mem" where
  "pointer_vector_path_2x n vector_path [src, dst] m =
     vector_path (col_ptr (columns_at src (int n))) (col_ptr (columns_at dst (int n)))
       (vector_path (col_ptr src) (col_ptr dst) m)"
| "pointer_vector_path_2x _ _ _ m = m"

fun pointer_path :: "(nat \<Rightarrow> nat \<Rightarrow> mem \<Rightarrow> mem) \<Rightarrow> Columns list \<Rightarrow> mem \<Rightarrow> mem" where
  "pointer_path path [src, dst] m = path (col_ptr src) (col_ptr dst) m"
| "pointer_path _ _ m = m"

definition pointer_operation ::
    "nat \<Rightarrow> bool \<Rightarrow> bool \<Rightarrow> (nat \<Rightarrow> nat \<Rightarrow> mem \<Rightarrow> mem) \<Rightarrow> (nat \<Rightarrow> nat \<Rightarrow> mem \<Rightarrow> mem) \<Rightarrow> mem vec_operation"
where
  "pointer_operation n twice once vector_path scalar_path =
     \<lparr>op_num_lanes = n, op_unrolled_twice = twice, op_unrolled_once = once,
      op_avoids_tail = False, op_vector_path_2x = pointer_vector_path_2x n vector_path,
      op_vector_path = pointer_path vector_path, op_scalar_path = pointer_path scalar_path\<rparr>"

lemmas adapter_defs [kcv_defs] = unary_operation_def binary_operation_def sink_operation_def
  pointer_operation_def load_consecutive_def store_consecutive_def

section \<open>Lane by lane is element by element\<close>

definition element_type :: "'a::len itself \<Rightarrow> bool" where
  "element_type t \<longleftrightarrow> LENGTH('a) \<in> {8, 16, 32, 64}"

lemma element_type_lanes: "element_type TYPE('a::len) \<Longrightarrow> 0 < num_lanes_of TYPE('a)"
  by (auto simp: element_type_def num_lanes_of_def sizeof_def)

lemma element_type_bytes: "element_type TYPE('a::len) \<Longrightarrow> 8 dvd LENGTH('a)"
  by (auto simp: element_type_def)

definition single_channel :: "'a::len itself \<Rightarrow> Columns \<Rightarrow> bool" where
  "single_channel t c \<longleftrightarrow> col_sizeof c = sizeof TYPE('a) \<and> col_channels c = 1"

lemma single_channel_step [simp]: "single_channel t (step_column k c) = single_channel t c"
  by (simp add: single_channel_def)

lemma single_channel_pixel: "single_channel TYPE('a::len) c \<Longrightarrow> pixel_bytes c = sizeof TYPE('a)"
  by (simp add: single_channel_def pixel_bytes_def)

definition element_at :: "'a::len itself \<Rightarrow> Columns \<Rightarrow> nat \<Rightarrow> nat" where
  "element_at t c i = col_ptr c + i * sizeof TYPE('a)"

lemma element_at_step:
  "single_channel TYPE('a::len) c \<Longrightarrow>
    element_at TYPE('a) (step_column k c) = (\<lambda>i. element_at TYPE('a) c (k + i))"
  by (simp add: element_at_def single_channel_pixel add_mult_distrib fun_eq_iff)

lemma stores_apart_shift:
  "stores_apart t d A n \<Longrightarrow> k + m \<le> n \<Longrightarrow> stores_apart t (\<lambda>i. d (k + i)) (\<lambda>i. A (k + i)) m"
  by (auto simp: stores_apart_def)

definition unary_ok :: "'a::len itself \<Rightarrow> nat \<Rightarrow> Columns list \<Rightarrow> bool" where
  "unary_ok t n cols \<longleftrightarrow> element_type TYPE('a)
     \<and> (\<exists>src dst. cols = [src, dst] \<and> single_channel TYPE('a) src \<and> single_channel TYPE('a) dst
        \<and> stores_apart TYPE('a) (element_at TYPE('a) dst)
            (\<lambda>i. elem_bytes TYPE('a) (element_at TYPE('a) src i)) n)"

definition binary_ok :: "'a::len itself \<Rightarrow> nat \<Rightarrow> Columns list \<Rightarrow> bool" where
  "binary_ok t n cols \<longleftrightarrow> element_type TYPE('a)
     \<and> (\<exists>a b dst. cols = [a, b, dst] \<and> single_channel TYPE('a) a \<and> single_channel TYPE('a) b
        \<and> single_channel TYPE('a) dst
        \<and> stores_apart TYPE('a) (element_at TYPE('a) dst)
            (\<lambda>i. elem_bytes TYPE('a) (element_at TYPE('a) a i)
              \<union> elem_bytes TYPE('a) (element_at TYPE('a) b i)) n)"

definition sink_ok :: "'a::len itself \<Rightarrow> nat \<Rightarrow> Columns list \<Rightarrow> bool" where
  "sink_ok t n cols \<longleftrightarrow> element_type TYPE('a) \<and> (\<exists>src. cols = [src] \<and> single_channel TYPE('a) src)"

lemma unary_ok_part:
  assumes "unary_ok TYPE('a::len) n cols" and "k + m \<le> n"
  shows "unary_ok TYPE('a) m (map (step_column k) cols)"
proof -
  from assms(1) obtain src dst where c: "element_type TYPE('a)" "cols = [src, dst]"
    "single_channel TYPE('a) src" "single_channel TYPE('a) dst"
    "stores_apart TYPE('a) (element_at TYPE('a) dst)
      (\<lambda>i. elem_bytes TYPE('a) (element_at TYPE('a) src i)) n"
    by (auto simp: unary_ok_def)
  from stores_apart_shift [OF c(5) assms(2)] c(1-4) show ?thesis
    by (simp add: unary_ok_def element_at_step)
qed

lemma binary_ok_part:
  assumes "binary_ok TYPE('a::len) n cols" and "k + m \<le> n"
  shows "binary_ok TYPE('a) m (map (step_column k) cols)"
proof -
  from assms(1) obtain a b dst where c: "element_type TYPE('a)" "cols = [a, b, dst]"
    "single_channel TYPE('a) a" "single_channel TYPE('a) b" "single_channel TYPE('a) dst"
    "stores_apart TYPE('a) (element_at TYPE('a) dst)
      (\<lambda>i. elem_bytes TYPE('a) (element_at TYPE('a) a i)
        \<union> elem_bytes TYPE('a) (element_at TYPE('a) b i)) n"
    by (auto simp: binary_ok_def)
  from stores_apart_shift [OF c(6) assms(2)] c(1-5) show ?thesis
    by (simp add: binary_ok_def element_at_step)
qed

lemma vst1q_stores:
  assumes "\<And>i. i < n \<Longrightarrow> reads (A i) (g i)" and "stores_apart TYPE('a) (element_at TYPE('a) dst) A n"
  shows "fold (\<lambda>i m. store_elem (element_at TYPE('a) dst i) (g i m) m) [0..<n] m
    = vst1q_elems (col_ptr dst) (map (\<lambda>i. g i m :: 'a::len word) [0..<n]) m"
  using stores_from_start [OF assms] by (simp add: vst1q_map element_at_def)

locale unary_lanes =
  fixes vector_path :: "'a::len word list \<Rightarrow> 'a word list" and scalar_path :: "'a word \<Rightarrow> 'a word"
  assumes lanes: "vector_path v = map scalar_path v"
begin

lemma unary_run:
  assumes "unary_ok TYPE('a) n [src, dst]"
  shows "columns_loop (unary_scalar_path scalar_path) n [src, dst] m
    = vst1q_elems (col_ptr dst)
        (map (\<lambda>i. scalar_path (load_elem (element_at TYPE('a) src i) m)) [0..<n]) m"
proof -
  from assms have c: "single_channel TYPE('a) src" "single_channel TYPE('a) dst"
    "stores_apart TYPE('a) (element_at TYPE('a) dst)
      (\<lambda>i. elem_bytes TYPE('a) (element_at TYPE('a) src i)) n"
    by (auto simp: unary_ok_def)
  have "columns_loop (unary_scalar_path scalar_path) n [src, dst] m
    = fold (\<lambda>i m. store_elem (element_at TYPE('a) dst i)
        (scalar_path (load_elem (element_at TYPE('a) src i) m)) m) [0..<n] m"
    unfolding columns_loop_def using c(1,2)
    by (intro fold_cong) (auto simp: fun_eq_iff element_at_def single_channel_pixel)
  then show ?thesis
    using vst1q_stores [OF reads_comp [OF reads_load] c(3)] by simp
qed

lemma unary_vector:
  assumes "unary_ok TYPE('a) (num_lanes_of TYPE('a)) [src, dst]"
  shows "unary_vector_path vector_path [src, dst] m
    = columns_loop (unary_scalar_path scalar_path) (num_lanes_of TYPE('a)) [src, dst] m"
  unfolding unary_run [OF assms] by (simp add: lanes vld1q_elems_def element_at_def comp_def)

lemma unary_vector_2x:
  assumes "unary_ok TYPE('a) (2 * num_lanes_of TYPE('a)) [src, dst]"
  shows "unary_vector_path_2x vector_path [src, dst] m
    = columns_loop (unary_scalar_path scalar_path) (2 * num_lanes_of TYPE('a)) [src, dst] m"
proof -
  let ?n = "num_lanes_of TYPE('a)" and ?s = "sizeof TYPE('a)"
  let ?v = "vld1q_elems (col_ptr src) m :: 'a word list"
  let ?w = "vld1q_elems (col_ptr src + ?n * ?s) m :: 'a word list"
  have "unary_vector_path_2x vector_path [src, dst] m
    = vst1q_elems (col_ptr dst) (map scalar_path (?v @ ?w)) m"
    using vst1q_append [of "col_ptr dst" "map scalar_path ?v" "map scalar_path ?w" m]
    by (simp add: load_consecutive_def store_consecutive_def lanes)
  then show ?thesis
    unfolding unary_run [OF assms] vld1q_append by (simp add: element_at_def comp_def)
qed

end

sublocale unary_lanes \<subseteq> vector_simulation "unary_operation twice once vector_path scalar_path"
  "unary_scalar_path scalar_path" "(=)" "unary_ok TYPE('a)"
proof (rule vector_simulation.intro)
  fix n k m :: nat and cols and s t :: mem
  let ?op = "unary_operation twice once vector_path scalar_path"
  have l: "op_num_lanes ?op = num_lanes_of TYPE('a)" by (simp add: unary_operation_def)
  { assume "unary_ok TYPE('a) n cols"
    then show "0 < op_num_lanes ?op" by (auto simp: l unary_ok_def element_type_lanes)
  }
  { assume "unary_ok TYPE('a) n cols" "k + m \<le> n"
    then show "unary_ok TYPE('a) m (map (step_column k) cols)" by (rule unary_ok_part)
  }
  { assume "unary_ok TYPE('a) (op_num_lanes ?op) cols" "s = t"
    then show "op_vector_path ?op cols s
        = columns_loop (unary_scalar_path scalar_path) (op_num_lanes ?op) cols t"
      using unary_vector by (auto simp: unary_operation_def unary_ok_def)
  }
  { assume "unary_ok TYPE('a) (2 * op_num_lanes ?op) cols" "s = t"
    then show "op_vector_path_2x ?op cols s
        = columns_loop (unary_scalar_path scalar_path) (2 * op_num_lanes ?op) cols t"
      using unary_vector_2x by (auto simp: unary_operation_def unary_ok_def)
  }
  { assume "s = t"
    then show "op_scalar_path ?op cols s = unary_scalar_path scalar_path cols t"
      by (simp add: unary_operation_def)
  }
  { assume "op_avoids_tail ?op"
    then show "element_operation (\<lambda>k. unary_scalar_path scalar_path (map (step_column k) cols)) n"
      by (simp add: unary_operation_def)
  }
qed

locale binary_lanes =
  fixes vector_path :: "'a::len word list \<Rightarrow> 'a word list \<Rightarrow> 'a word list"
    and scalar_path :: "'a word \<Rightarrow> 'a word \<Rightarrow> 'a word"
  assumes lanes: "length v = length w \<Longrightarrow> vector_path v w = map2 scalar_path v w"
begin

lemma binary_run:
  assumes "binary_ok TYPE('a) n [a, b, dst]"
  shows "columns_loop (binary_scalar_path scalar_path) n [a, b, dst] m
    = vst1q_elems (col_ptr dst)
        (map (\<lambda>i. scalar_path (load_elem (element_at TYPE('a) a i) m)
                     (load_elem (element_at TYPE('a) b i) m)) [0..<n]) m"
proof -
  from assms have c: "single_channel TYPE('a) a" "single_channel TYPE('a) b"
    "single_channel TYPE('a) dst"
    "stores_apart TYPE('a) (element_at TYPE('a) dst)
      (\<lambda>i. elem_bytes TYPE('a) (element_at TYPE('a) a i)
        \<union> elem_bytes TYPE('a) (element_at TYPE('a) b i)) n"
    by (auto simp: binary_ok_def)
  have "columns_loop (binary_scalar_path scalar_path) n [a, b, dst] m
    = fold (\<lambda>i m. store_elem (element_at TYPE('a) dst i)
        (scalar_path (load_elem (element_at TYPE('a) a i) m) (load_elem (element_at TYPE('a) b i) m)) m)
        [0..<n] m"
    unfolding columns_loop_def using c(1-3)
    by (intro fold_cong) (auto simp: fun_eq_iff element_at_def single_channel_pixel)
  then show ?thesis
    using vst1q_stores [OF reads_comp2 [OF reads_load reads_load] c(4)] by simp
qed

lemma binary_vector:
  assumes "binary_ok TYPE('a) (num_lanes_of TYPE('a)) [a, b, dst]"
  shows "binary_vector_path vector_path [a, b, dst] m
    = columns_loop (binary_scalar_path scalar_path) (num_lanes_of TYPE('a)) [a, b, dst] m"
  unfolding binary_run [OF assms]
  by (simp add: lanes vld1q_elems_def element_at_def zip_map_map zip_same_conv_map comp_def)

lemma binary_vector_2x:
  assumes "binary_ok TYPE('a) (2 * num_lanes_of TYPE('a)) [a, b, dst]"
  shows "binary_vector_path_2x vector_path [a, b, dst] m
    = columns_loop (binary_scalar_path scalar_path) (2 * num_lanes_of TYPE('a)) [a, b, dst] m"
proof -
  let ?n = "num_lanes_of TYPE('a)" and ?s = "sizeof TYPE('a)"
  let ?v = "\<lambda>c. vld1q_elems (col_ptr c) m :: 'a word list"
  let ?w = "\<lambda>c. vld1q_elems (col_ptr c + ?n * ?s) m :: 'a word list"
  have "binary_vector_path_2x vector_path [a, b, dst] m
    = vst1q_elems (col_ptr dst) (map2 scalar_path (?v a @ ?w a) (?v b @ ?w b)) m"
    using vst1q_append [of "col_ptr dst" "map2 scalar_path (?v a) (?v b)"
        "map2 scalar_path (?w a) (?w b)" m]
    by (simp add: load_consecutive_def store_consecutive_def lanes)
  then show ?thesis
    unfolding binary_run [OF assms] vld1q_append
    by (simp add: element_at_def zip_map_map zip_same_conv_map comp_def)
qed

end

sublocale binary_lanes \<subseteq> vector_simulation "binary_operation twice once vector_path scalar_path"
  "binary_scalar_path scalar_path" "(=)" "binary_ok TYPE('a)"
proof (rule vector_simulation.intro)
  fix n k m :: nat and cols and s t :: mem
  let ?op = "binary_operation twice once vector_path scalar_path"
  have l: "op_num_lanes ?op = num_lanes_of TYPE('a)" by (simp add: binary_operation_def)
  { assume "binary_ok TYPE('a) n cols"
    then show "0 < op_num_lanes ?op" by (auto simp: l binary_ok_def element_type_lanes)
  }
  { assume "binary_ok TYPE('a) n cols" "k + m \<le> n"
    then show "binary_ok TYPE('a) m (map (step_column k) cols)" by (rule binary_ok_part)
  }
  { assume "binary_ok TYPE('a) (op_num_lanes ?op) cols" "s = t"
    then show "op_vector_path ?op cols s
        = columns_loop (binary_scalar_path scalar_path) (op_num_lanes ?op) cols t"
      using binary_vector by (auto simp: binary_operation_def binary_ok_def)
  }
  { assume "binary_ok TYPE('a) (2 * op_num_lanes ?op) cols" "s = t"
    then show "op_vector_path_2x ?op cols s
        = columns_loop (binary_scalar_path scalar_path) (2 * op_num_lanes ?op) cols t"
      using binary_vector_2x by (auto simp: binary_operation_def binary_ok_def)
  }
  { assume "s = t"
    then show "op_scalar_path ?op cols s = binary_scalar_path scalar_path cols t"
      by (simp add: binary_operation_def)
  }
  { assume "op_avoids_tail ?op"
    then show "element_operation (\<lambda>k. binary_scalar_path scalar_path (map (step_column k) cols)) n"
      by (simp add: binary_operation_def)
  }
qed

lemma sink_run:
  fixes collect :: "'a::len word \<Rightarrow> 't \<Rightarrow> 't"
  assumes "sink_ok TYPE('a) n [src]"
  shows "columns_loop (sink_scalar_path m collect) n [src] t
    = fold collect (map (\<lambda>i. load_elem (element_at TYPE('a) src i) m) [0..<n]) t"
  unfolding columns_loop_def fold_map using assms
  by (intro fold_cong) (auto simp: fun_eq_iff sink_ok_def single_channel_pixel element_at_def)

text \<open>
  An operation that only collects: its vector path, seen through \<open>R\<close>, collects the lanes of the
  vector in order.
\<close>

locale sink_lanes =
  fixes vector_path :: "'a::len word list \<Rightarrow> 'o \<Rightarrow> 'o" and scalar_path :: "'a word \<Rightarrow> 'o \<Rightarrow> 'o"
    and collect :: "'a word \<Rightarrow> 't \<Rightarrow> 't" and R :: "'o \<Rightarrow> 't \<Rightarrow> bool"
  assumes collects_vector: "length v = num_lanes_of TYPE('a) \<Longrightarrow> R s t \<Longrightarrow>
      R (vector_path v s) (fold collect v t)"
    and collects_scalar: "R s t \<Longrightarrow> R (scalar_path x s) (collect x t)"

sublocale sink_lanes \<subseteq> vector_simulation "sink_operation m twice once vector_path scalar_path"
  "sink_scalar_path m collect" R "sink_ok TYPE('a)"
proof (rule vector_simulation.intro)
  fix n k l :: nat and cols s t
  let ?op = "sink_operation m twice once vector_path scalar_path"
  have lanes: "op_num_lanes ?op = num_lanes_of TYPE('a)" by (simp add: sink_operation_def)
  { assume "sink_ok TYPE('a) n cols"
    then show "0 < op_num_lanes ?op" by (auto simp: lanes sink_ok_def element_type_lanes)
  }
  { assume "sink_ok TYPE('a) n cols" "k + l \<le> n"
    then show "sink_ok TYPE('a) l (map (step_column k) cols)" by (auto simp: sink_ok_def)
  }
  { assume ok: "sink_ok TYPE('a) (op_num_lanes ?op) cols" and R: "R s t"
    then obtain src where c: "cols = [src]" by (auto simp: sink_ok_def)
    have "R (vector_path (vld1q_elems (col_ptr src) m) s) (fold collect (vld1q_elems (col_ptr src) m) t)"
      using R by (intro collects_vector) simp_all
    then show "R (op_vector_path ?op cols s)
        (columns_loop (sink_scalar_path m collect) (op_num_lanes ?op) cols t)"
      using sink_run [of _ src m collect t] ok
      by (simp add: c sink_operation_def vld1q_elems_def element_at_def)
  }
  { assume ok: "sink_ok TYPE('a) (2 * op_num_lanes ?op) cols" and R: "R s t"
    then obtain src where c: "cols = [src]" by (auto simp: sink_ok_def)
    let ?v = "vld1q_elems (col_ptr src) m :: 'a word list"
    let ?w = "vld1q_elems (col_ptr src + num_lanes_of TYPE('a) * sizeof TYPE('a)) m :: 'a word list"
    have "R (vector_path ?w (vector_path ?v s)) (fold collect ?w (fold collect ?v t))"
      using R by (intro collects_vector) simp_all
    also have "fold collect ?w (fold collect ?v t) = fold collect (?v @ ?w) t" by simp
    finally show "R (op_vector_path_2x ?op cols s)
        (columns_loop (sink_scalar_path m collect) (2 * op_num_lanes ?op) cols t)"
      unfolding vld1q_append using sink_run [of _ src m collect t] ok
      by (simp add: c sink_operation_def load_consecutive_def element_at_def)
  }
  { assume "sink_ok TYPE('a) 1 cols" and "R s t"
    then show "R (op_scalar_path ?op cols s) (sink_scalar_path m collect cols t)"
      using collects_scalar by (auto simp: sink_operation_def sink_ok_def)
  }
  { assume "op_avoids_tail ?op"
    then show "element_operation (\<lambda>k. sink_scalar_path m collect (map (step_column k) cols)) n"
      by (simp add: sink_operation_def)
  }
qed

end
