(* ===== verification/Image_Results.thy ===== *)
theory Image_Results
  imports Operation_Adapters
begin

text \<open>
  What an element-wise operation leaves in memory: every destination element is the scalar result of
  the source elements at its position in the memory before the call, and no other byte changes. The
  destination may be one of the sources; otherwise the images must not overlap.
\<close>

section \<open>Images\<close>

definition image_layout :: "'a::len itself \<Rightarrow> nat \<Rightarrow> nat \<Rightarrow> Rows \<Rightarrow> bool" where
  "image_layout t w h r \<longleftrightarrow> row_sizeof r = sizeof TYPE('a) \<and> row_channels r = 1
     \<and> w * sizeof TYPE('a) \<le> row_stride r \<and> row_ptr r + h * row_stride r \<le> size_max"

definition pixel_address :: "'a::len itself \<Rightarrow> Rows \<Rightarrow> nat \<Rightarrow> nat \<Rightarrow> nat" where
  "pixel_address t r i j = row_ptr r + i * row_stride r + j * sizeof TYPE('a)"

text \<open>The same image, or no common byte.\<close>

definition same_or_apart :: "nat \<Rightarrow> Rows \<Rightarrow> Rows \<Rightarrow> bool" where
  "same_or_apart h src dst \<longleftrightarrow>
     row_ptr src = row_ptr dst \<and> row_stride src = row_stride dst
     \<or> {row_ptr src..<row_ptr src + h * row_stride src} \<inter> {row_ptr dst..<row_ptr dst + h * row_stride dst} = {}"

definition written :: "'a::len itself \<Rightarrow> nat \<Rightarrow> nat \<Rightarrow> Rows \<Rightarrow> nat set" where
  "written t w h r = (\<Union>i<h. \<Union>j<w. elem_bytes TYPE('a) (pixel_address TYPE('a) r i j))"

lemma image_layout_sel:
  assumes "image_layout TYPE('a::len) w h r"
  shows "row_sizeof r = sizeof TYPE('a)" "row_channels r = 1"
    "w * sizeof TYPE('a) \<le> row_stride r" "row_ptr r + h * row_stride r \<le> size_max"
  using assms by (simp_all add: image_layout_def)

lemma pixel_in_row:
  assumes "j < w"
  shows "elem_bytes TYPE('a::len) (pixel_address TYPE('a) r i j)
    \<subseteq> {row_ptr r + i * row_stride r..<row_ptr r + i * row_stride r + w * sizeof TYPE('a)}"
proof -
  have "j * sizeof TYPE('a) + sizeof TYPE('a) \<le> w * sizeof TYPE('a)"
    using mult_le_mono1 [of "Suc j" w "sizeof TYPE('a)"] assms by simp
  then show ?thesis by (auto simp: elem_bytes_def pixel_address_def)
qed

lemma pixel_in_image:
  assumes "image_layout TYPE('a::len) w h r" and "i < h" and "j < w"
  shows "elem_bytes TYPE('a) (pixel_address TYPE('a) r i j)
    \<subseteq> {row_ptr r..<row_ptr r + h * row_stride r}"
  using pixel_in_row [OF assms(3), where 'a = 'a and r = r and i = i]
    row_in_image [OF assms(2) image_layout_sel(3) [OF assms(1)], of "row_ptr r"]
  by (auto simp: subset_iff)

lemma pixels_apart:
  assumes "image_layout TYPE('a::len) w h r"
    and "i < h" "j < w" "i' < h" "j' < w" and "(i, j) \<noteq> (i', j')"
  shows "elem_bytes TYPE('a) (pixel_address TYPE('a) r i j)
    \<inter> elem_bytes TYPE('a) (pixel_address TYPE('a) r i' j') = {}"
proof (cases "i = i'")
  case True
  with assms(6) have "j \<noteq> j'" by simp
  from rows_disjoint [OF order_refl this, of "row_ptr r + i * row_stride r" "sizeof TYPE('a)"] True
  show ?thesis by (simp add: elem_bytes_def pixel_address_def)
next
  case False
  from rows_disjoint [OF image_layout_sel(3) [OF assms(1)] False, of "row_ptr r"]
    pixel_in_row [OF assms(3), where 'a = 'a and r = r and i = i]
    pixel_in_row [OF assms(5), where 'a = 'a and r = r and i = i']
  show ?thesis by blast
qed

lemma source_apart:
  assumes "image_layout TYPE('a::len) w h dst" and "image_layout TYPE('a) w h src"
    and "same_or_apart h src dst"
    and "i < h" "j < w" "i' < h" "j' < w" and "(i, j) \<noteq> (i', j')"
  shows "elem_bytes TYPE('a) (pixel_address TYPE('a) dst i j)
    \<inter> elem_bytes TYPE('a) (pixel_address TYPE('a) src i' j') = {}"
proof (cases "row_ptr src = row_ptr dst \<and> row_stride src = row_stride dst")
  case True
  then have "pixel_address TYPE('a) src = pixel_address TYPE('a) dst"
    by (simp add: pixel_address_def fun_eq_iff)
  with pixels_apart [OF assms(1,4-8)] show ?thesis by simp
next
  case False
  with assms(3) pixel_in_image [OF assms(1,4,5)] pixel_in_image [OF assms(2,6,7)]
  show ?thesis unfolding same_or_apart_def by blast
qed

section \<open>Runs of an image\<close>

lemma row_single_channel:
  "image_layout TYPE('a::len) w h r \<Longrightarrow> single_channel TYPE('a) (row_columns r i)"
  by (simp add: single_channel_def image_layout_def)

lemma row_element:
  "element_at TYPE('a::len) (row_columns r i) j = pixel_address TYPE('a) r i j"
  by (simp add: element_at_def pixel_address_def)

text \<open>Element \<open>k\<close> of a continuous image.\<close>

lemma flat_element:
  assumes "image_layout TYPE('a::len) w h r" and "is_continuous w r" and "k < w * h"
  shows "element_at TYPE('a) (row_columns r 0) k = pixel_address TYPE('a) r (k div w) (k mod w)"
proof -
  have "w * sizeof TYPE('a) \<le> h * row_stride r"
    using image_layout_sel(3) [OF assms(1)] assms(3) by (cases h) (auto intro: trans_le_add1)
  then have "w * sizeof TYPE('a) \<le> size_max" using image_layout_sel(4) [OF assms(1)] by linarith
  with assms(1,2) have "row_stride r = w * sizeof TYPE('a)"
    using size_wrap_id [of "w * sizeof TYPE('a)"] by (simp add: image_layout_def is_continuous_def)
  moreover have "k * s = k div w * (w * s) + k mod w * s" for s
    by (metis add_mult_distrib div_mult_mod_eq mult.assoc)
  ultimately show ?thesis by (simp add: element_at_def pixel_address_def)
qed

lemma image_in_memory:
  assumes "image_layout TYPE('a::len) w h r"
  shows "in_memory h r"
proof -
  have "row_ptr r + i * row_stride r \<le> size_max" if "i < h" for i
    using mult_le_mono1 [of i h "row_stride r"] that image_layout_sel(4) [OF assms] by linarith
  then show ?thesis by (simp add: in_memory_def)
qed

lemma image_row_size:
  assumes "image_layout TYPE('a::len) w h r" and "0 < h"
  shows "w * row_channels r * row_sizeof r \<le> size_max"
proof -
  have "row_stride r \<le> h * row_stride r" using assms(2) by (cases h) simp_all
  with image_layout_sel [OF assms(1)] have "w * sizeof TYPE('a) \<le> size_max" by linarith
  then show ?thesis using image_layout_sel(1,2) [OF assms(1)] by simp
qed

text \<open>The pixels in scan order, which is the order of the loop.\<close>

lemma pixel_loop_scan:
  "pixel_loop work w h rows t
    = fold (\<lambda>k. work (pixel_columns rows (k div w) (k mod w))) [0..<h * w] t"
proof -
  let ?f = "\<lambda>k. work (pixel_columns rows (k div w) (k mod w))"
  have "fold (\<lambda>j. work (pixel_columns rows i j)) [0..<w] = fold (\<lambda>j. ?f (i * w + j)) [0..<w]" for i
    by (intro ext fold_cong refl) simp
  then have "pixel_loop work w h rows t = fold (\<lambda>i. fold (\<lambda>j. ?f (i * w + j)) [0..<w]) [0..<h] t"
    by (simp only: pixel_loop_def)
  then show ?thesis by (simp only: fold_grid [of ?f])
qed

lemma scan_distinct:
  assumes "k < h * w" and "l < h * w" and "k \<noteq> (l :: nat)"
  shows "k div w < h \<and> k mod w < w \<and> l div w < h \<and> l mod w < w \<and> (k div w, k mod w) \<noteq> (l div w, l mod w)"
proof -
  have "0 < w" using assms(1) by (cases w) simp_all
  moreover from this assms have "k div w < h" "l div w < h"
    by (simp_all add: div_less_iff_less_mult)
  ultimately show ?thesis using assms(3) by (metis Pair_inject div_mult_mod_eq mod_less_divisor)
qed


section \<open>The image after the operation\<close>

definition pixel_rows_ok :: "nat \<Rightarrow> nat \<Rightarrow> (nat \<Rightarrow> Columns list \<Rightarrow> bool) \<Rightarrow> Rows list \<Rightarrow> bool" where
  "pixel_rows_ok w h ok rows \<longleftrightarrow>
     (\<forall>i < h. ok w (map (\<lambda>r. row_columns r i) rows))
     \<and> (list_all (is_continuous w) rows \<longrightarrow> ok (w * h) (map (\<lambda>r. row_columns r 0) rows))"

lemma stores_apart_row:
  assumes "image_layout TYPE('a::len) w h dst" and "image_layout TYPE('a) w h src"
    and "same_or_apart h src dst" and "i < h"
  shows "stores_apart TYPE('a) (element_at TYPE('a) (row_columns dst i))
    (\<lambda>j. elem_bytes TYPE('a) (element_at TYPE('a) (row_columns src i) j)) w"
  unfolding stores_apart_def row_element
proof (intro allI impI)
  fix j j'
  assume "j < j' \<and> j' < w"
  with source_apart [OF assms(1-3), of i j i j'] assms(4)
  show "elem_bytes TYPE('a) (pixel_address TYPE('a) dst i j)
    \<inter> elem_bytes TYPE('a) (pixel_address TYPE('a) src i j') = {}" by simp
qed

lemma stores_apart_flat:
  assumes "image_layout TYPE('a::len) w h dst" and "image_layout TYPE('a) w h src"
    and "same_or_apart h src dst" and "is_continuous w dst" and "is_continuous w src"
  shows "stores_apart TYPE('a) (element_at TYPE('a) (row_columns dst 0))
    (\<lambda>j. elem_bytes TYPE('a) (element_at TYPE('a) (row_columns src 0) j)) (w * h)"
  unfolding stores_apart_def
proof (intro allI impI)
  fix k l
  assume kl: "k < l \<and> l < w * h"
  with scan_distinct [of k h w l]
  have "k div w < h" "k mod w < w" "l div w < h" "l mod w < w"
    "(k div w, k mod w) \<noteq> (l div w, l mod w)" by (simp_all add: mult.commute)
  from source_apart [OF assms(1-3) this]
  show "elem_bytes TYPE('a) (element_at TYPE('a) (row_columns dst 0) k)
    \<inter> elem_bytes TYPE('a) (element_at TYPE('a) (row_columns src 0) l) = {}"
    using kl flat_element [OF assms(1,4), of k] flat_element [OF assms(2,5), of l] by simp
qed

lemma stores_apart_Un:
  "stores_apart t d A n \<Longrightarrow> stores_apart t d B n \<Longrightarrow> stores_apart t d (\<lambda>i. A i \<union> B i) n"
  unfolding stores_apart_def by blast

lemma unary_rows_ok:
  assumes "element_type TYPE('a::len)" and "image_layout TYPE('a) w h src"
    and "image_layout TYPE('a) w h dst" and "same_or_apart h src dst"
  shows "pixel_rows_ok w h (unary_ok TYPE('a)) [src, dst]"
  using assms stores_apart_row [OF assms(3,2,4)] stores_apart_flat [OF assms(3,2,4)]
  by (simp add: pixel_rows_ok_def unary_ok_def row_single_channel)

lemma binary_rows_ok:
  assumes "element_type TYPE('a::len)" and "image_layout TYPE('a) w h a"
    and "image_layout TYPE('a) w h b" and "image_layout TYPE('a) w h dst"
    and "same_or_apart h a dst" and "same_or_apart h b dst"
  shows "pixel_rows_ok w h (binary_ok TYPE('a)) [a, b, dst]"
  using assms stores_apart_Un [OF stores_apart_row [OF assms(4,2,5)] stores_apart_row [OF assms(4,3,6)]]
    stores_apart_Un [OF stores_apart_flat [OF assms(4,2,5)] stores_apart_flat [OF assms(4,3,6)]]
  by (simp add: pixel_rows_ok_def binary_ok_def row_single_channel)

lemma sink_rows_ok:
  assumes "element_type TYPE('a::len)" and "image_layout TYPE('a) w h src"
  shows "pixel_rows_ok w h (sink_ok TYPE('a)) [src]"
  using assms by (simp add: pixel_rows_ok_def sink_ok_def row_single_channel)

text \<open>The stores of a scan over the image.\<close>

lemma scan_stores:
  fixes g :: "nat \<Rightarrow> nat \<Rightarrow> mem \<Rightarrow> 'a::len word"
  assumes "element_type TYPE('a)" and "image_layout TYPE('a) w h dst"
    and "\<And>i j. i < h \<Longrightarrow> j < w \<Longrightarrow> reads (A i j) (g i j)"
    and "\<And>i j i' j'. i < h \<Longrightarrow> j < w \<Longrightarrow> i' < h \<Longrightarrow> j' < w \<Longrightarrow> (i, j) \<noteq> (i', j') \<Longrightarrow>
      elem_bytes TYPE('a) (pixel_address TYPE('a) dst i j) \<inter> A i' j' = {}"
    and m': "m' = fold (\<lambda>k m. store_elem (pixel_address TYPE('a) dst (k div w) (k mod w))
      (g (k div w) (k mod w) m) m) [0..<h * w] m"
  shows "\<And>i j. i < h \<Longrightarrow> j < w \<Longrightarrow> load_elem (pixel_address TYPE('a) dst i j) m' = g i j m"
    and "\<And>a. a \<notin> written TYPE('a) w h dst \<Longrightarrow> m' a = m a"
proof -
  let ?d = "\<lambda>k. pixel_address TYPE('a) dst (k div w) (k mod w)"
  have pos: "k div w < h \<and> k mod w < w" if "k < h * w" for k
    using that by (cases w) (simp_all add: div_less_iff_less_mult)
  have apart: "stores_apart TYPE('a) ?d (\<lambda>k. A (k div w) (k mod w)) (h * w)"
    unfolding stores_apart_def
  proof (intro allI impI)
    fix k l
    assume "k < l \<and> l < h * w"
    with scan_distinct [of k h w l] have "k div w < h" "k mod w < w" "l div w < h" "l mod w < w"
      "(k div w, k mod w) \<noteq> (l div w, l mod w)" by simp_all
    from assms(4) [OF this]
    show "elem_bytes TYPE('a) (?d k) \<inter> A (l div w) (l mod w) = {}" .
  qed
  have start: "m' = fold (\<lambda>k. store_elem (?d k) (g (k div w) (k mod w) m)) [0..<h * w] m"
    unfolding m' using pos assms(3) by (intro stores_from_start [OF _ apart]) simp
  { fix i j
    assume ij: "i < h" "j < w"
    let ?k = "i * w + j"
    have "Suc i * w \<le> h * w" using ij by (intro mult_le_mono1) simp
    with ij have k: "?k < h * w" "?k div w = i" "?k mod w = j" by simp_all
    have "\<forall>l. ?k < l \<and> l < h * w \<longrightarrow> elem_bytes TYPE('a) (?d l) \<inter> elem_bytes TYPE('a) (?d ?k) = {}"
    proof (intro allI impI)
      fix l
      assume l: "?k < l \<and> l < h * w"
      then have "l \<noteq> ?k" by simp
      with scan_distinct [of l h w ?k] l k(1)
      have "l div w < h" "l mod w < w" "?k div w < h" "?k mod w < w"
        "(l div w, l mod w) \<noteq> (?k div w, ?k mod w)" by blast+
      from pixels_apart [OF assms(2) this]
      show "elem_bytes TYPE('a) (?d l) \<inter> elem_bytes TYPE('a) (?d ?k) = {}" .
    qed
    from stores_result [where v = "\<lambda>k. g (k div w) (k mod w) m" and d = ?d and m = m,
        OF element_type_bytes [OF assms(1)] k(1) this]
    show "load_elem (pixel_address TYPE('a) dst i j) m' = g i j m"
      unfolding start k .
  }
  { fix a
    assume "a \<notin> written TYPE('a) w h dst"
    then have "\<forall>k < h * w. a \<notin> elem_bytes TYPE('a) (?d k)" using pos by (auto simp: written_def)
    then show "m' a = m a" unfolding m' by (rule stores_outside)
  }
qed


lemma pixel_column_ptr:
  "image_layout TYPE('a::len) w h r \<Longrightarrow>
    col_ptr (step_column j (row_columns r i)) = pixel_address TYPE('a) r i j"
  by (simp add: pixel_address_def single_channel_pixel row_single_channel)

context binary_lanes
begin

text \<open>The element-wise result for two sources.\<close>

lemma binary_image:
  assumes "element_type TYPE('a)" and "w * h \<le> size_max"
    and a: "image_layout TYPE('a) w h a" and b: "image_layout TYPE('a) w h b"
    and d: "image_layout TYPE('a) w h dst"
    and apart: "same_or_apart h a dst" "same_or_apart h b dst"
    and m': "m' = apply_operation_by_rows (binary_operation twice once vector_path scalar_path)
      \<lparr>rectangle_width = w, rectangle_height = h\<rparr> [a, b, dst] m"
  shows "\<And>i j. i < h \<Longrightarrow> j < w \<Longrightarrow> load_elem (pixel_address TYPE('a) dst i j) m'
      = scalar_path (load_elem (pixel_address TYPE('a) a i j) m)
          (load_elem (pixel_address TYPE('a) b i j) m)"
    and "\<And>x. x \<notin> written TYPE('a) w h dst \<Longrightarrow> m' x = m x"
proof -
  let ?rows = "[a, b, dst]"
  have "pixel_rows_ok w h (binary_ok TYPE('a)) ?rows"
    using binary_rows_ok [OF assms(1) a b d apart] .
  then have "m' = pixel_loop (binary_scalar_path scalar_path) w h ?rows m"
    unfolding m' apply_operation_by_rows_def pixel_rows_ok_def
    using image_in_memory [OF a] image_in_memory [OF b] image_in_memory [OF d]
      image_row_size [OF a] image_row_size [OF b] image_row_size [OF d] assms(2)
    by (intro zip_rows_simulates) auto
  also have "\<dots> = fold (\<lambda>k m. store_elem (pixel_address TYPE('a) dst (k div w) (k mod w))
      (scalar_path (load_elem (pixel_address TYPE('a) a (k div w) (k mod w)) m)
        (load_elem (pixel_address TYPE('a) b (k div w) (k mod w)) m)) m) [0..<h * w] m"
    unfolding pixel_loop_scan pixel_columns_def
    by (intro fold_cong refl ext)
      (simp add: pixel_column_ptr [OF a] pixel_column_ptr [OF b] pixel_column_ptr [OF d]
        del: step_column_sel row_columns_sel)
  finally have scan: "m' = fold (\<lambda>k m. store_elem (pixel_address TYPE('a) dst (k div w) (k mod w))
      (scalar_path (load_elem (pixel_address TYPE('a) a (k div w) (k mod w)) m)
        (load_elem (pixel_address TYPE('a) b (k div w) (k mod w)) m)) m) [0..<h * w] m" .
  note result = scan_stores [where w = w and h = h and m = m and m' = m'
      and A = "\<lambda>i j. elem_bytes TYPE('a) (pixel_address TYPE('a) a i j)
        \<union> elem_bytes TYPE('a) (pixel_address TYPE('a) b i j)"
      and g = "\<lambda>i j m. scalar_path (load_elem (pixel_address TYPE('a) a i j) m)
        (load_elem (pixel_address TYPE('a) b i j) m)", OF assms(1) d
      reads_comp2 [OF reads_load reads_load] _ scan]
  have disj: "elem_bytes TYPE('a) (pixel_address TYPE('a) dst i j)
      \<inter> (elem_bytes TYPE('a) (pixel_address TYPE('a) a i' j')
        \<union> elem_bytes TYPE('a) (pixel_address TYPE('a) b i' j')) = {}"
    if "i < h" "j < w" "i' < h" "j' < w" "(i, j) \<noteq> (i', j')" for i j i' j'
    using source_apart [OF d a apart(1) that] source_apart [OF d b apart(2) that] by blast
  show "\<And>i j. i < h \<Longrightarrow> j < w \<Longrightarrow> load_elem (pixel_address TYPE('a) dst i j) m'
      = scalar_path (load_elem (pixel_address TYPE('a) a i j) m)
          (load_elem (pixel_address TYPE('a) b i j) m)"
    using result(1) disj by blast
  show "\<And>x. x \<notin> written TYPE('a) w h dst \<Longrightarrow> m' x = m x"
    using result(2) disj by blast
qed

end

context unary_lanes
begin

lemma unary_image:
  assumes "element_type TYPE('a)" and "w * h \<le> size_max"
    and a: "image_layout TYPE('a) w h src" and d: "image_layout TYPE('a) w h dst"
    and apart: "same_or_apart h src dst"
    and m': "m' = apply_operation_by_rows (unary_operation twice once vector_path scalar_path)
      \<lparr>rectangle_width = w, rectangle_height = h\<rparr> [src, dst] m"
  shows "\<And>i j. i < h \<Longrightarrow> j < w \<Longrightarrow> load_elem (pixel_address TYPE('a) dst i j) m'
      = scalar_path (load_elem (pixel_address TYPE('a) src i j) m)"
    and "\<And>x. x \<notin> written TYPE('a) w h dst \<Longrightarrow> m' x = m x"
proof -
  let ?rows = "[src, dst]"
  have "pixel_rows_ok w h (unary_ok TYPE('a)) ?rows"
    using unary_rows_ok [OF assms(1) a d apart] .
  then have "m' = pixel_loop (unary_scalar_path scalar_path) w h ?rows m"
    unfolding m' apply_operation_by_rows_def pixel_rows_ok_def
    using image_in_memory [OF a] image_in_memory [OF d]
      image_row_size [OF a] image_row_size [OF d] assms(2)
    by (intro zip_rows_simulates) auto
  also have "\<dots> = fold (\<lambda>k m. store_elem (pixel_address TYPE('a) dst (k div w) (k mod w))
      (scalar_path (load_elem (pixel_address TYPE('a) src (k div w) (k mod w)) m)) m) [0..<h * w] m"
    unfolding pixel_loop_scan pixel_columns_def
    by (intro fold_cong refl ext) (simp add: pixel_column_ptr [OF a] pixel_column_ptr [OF d]
        del: step_column_sel row_columns_sel)
  finally have scan: "m' = fold (\<lambda>k m. store_elem (pixel_address TYPE('a) dst (k div w) (k mod w))
      (scalar_path (load_elem (pixel_address TYPE('a) src (k div w) (k mod w)) m)) m) [0..<h * w] m" .
  note result = scan_stores [where w = w and h = h and m = m and m' = m'
      and A = "\<lambda>i j. elem_bytes TYPE('a) (pixel_address TYPE('a) src i j)"
      and g = "\<lambda>i j m. scalar_path (load_elem (pixel_address TYPE('a) src i j) m)", OF assms(1) d
      reads_comp [OF reads_load] _ scan]
  show "\<And>i j. i < h \<Longrightarrow> j < w \<Longrightarrow> load_elem (pixel_address TYPE('a) dst i j) m'
      = scalar_path (load_elem (pixel_address TYPE('a) src i j) m)"
    using result(1) source_apart [OF d a apart] by blast
  show "\<And>x. x \<notin> written TYPE('a) w h dst \<Longrightarrow> m' x = m x"
    using result(2) source_apart [OF d a apart] by blast
qed

end

text \<open>The elements of an image in scan order.\<close>

definition image_elements :: "Rows \<Rightarrow> nat \<Rightarrow> nat \<Rightarrow> mem \<Rightarrow> 'a::len word list" where
  "image_elements src w h m =
     map (\<lambda>k. load_elem (pixel_address TYPE('a) src (k div w) (k mod w)) m) [0..<h * w]"

context sink_lanes
begin

text \<open>A collecting operation has collected the image in scan order.\<close>

lemma sink_image:
  assumes "element_type TYPE('a)" and "w * h \<le> size_max" and a: "image_layout TYPE('a) w h src"
    and "R s t"
  shows "R (apply_operation_by_rows (sink_operation m twice once vector_path scalar_path)
      \<lparr>rectangle_width = w, rectangle_height = h\<rparr> [src] s)
    (fold collect (image_elements src w h m) t)"
proof -
  have "pixel_rows_ok w h (sink_ok TYPE('a)) [src]" using sink_rows_ok [OF assms(1) a] .
  then have "R (apply_operation_by_rows (sink_operation m twice once vector_path scalar_path)
      \<lparr>rectangle_width = w, rectangle_height = h\<rparr> [src] s)
    (pixel_loop (sink_scalar_path m collect) w h [src] t)"
    unfolding apply_operation_by_rows_def pixel_rows_ok_def
    using image_in_memory [OF a] image_row_size [OF a] assms(2,4)
    by (intro zip_rows_simulates) auto
  also have "pixel_loop (sink_scalar_path m collect) w h [src] t
    = fold collect (image_elements src w h m) t"
    unfolding pixel_loop_scan pixel_columns_def image_elements_def fold_map
    by (intro fold_cong refl ext) (simp add: pixel_column_ptr [OF a]
        del: step_column_sel row_columns_sel)
  finally show ?thesis .
qed

end

end
