(* ===== verification/Saturating_Lanes.thy ===== *)
theory Saturating_Lanes
  imports Kcv_Elements Kcv_Utils
begin

text \<open>
  The arithmetic of one element and of one vector lane: the compiler's overflow builtins, which the
  scalar paths of \<^verbatim>\<open>kleidicv/src/arithmetics\<close> use, and the saturating vector
  instructions of their vector paths. A signed and an unsigned type of the same width share the
  words, so the signedness of \<^verbatim>\<open>ScalarType\<close> is an argument.
\<close>

section \<open>Values and limits\<close>

definition lane_value :: "bool \<Rightarrow> 'a::len word \<Rightarrow> int" where
  "lane_value is_signed w = (if is_signed then sint w else uint w)"

definition type_max :: "bool \<Rightarrow> 'a::len itself \<Rightarrow> int" where
  "type_max is_signed t = (if is_signed then max_signed LENGTH('a) else max_unsigned LENGTH('a))"

definition type_lowest :: "bool \<Rightarrow> 'a::len itself \<Rightarrow> int" where
  "type_lowest is_signed t = (if is_signed then min_signed LENGTH('a) else 0)"

definition max_lane :: "bool \<Rightarrow> 'a::len word" where
  "max_lane is_signed = word_of_int (type_max is_signed TYPE('a))"

definition lowest_lane :: "bool \<Rightarrow> 'a::len word" where
  "lowest_lane is_signed = word_of_int (type_lowest is_signed TYPE('a))"

text \<open>\<^verbatim>\<open>__builtin_add_overflow\<close> and its relatives on the exact result \<open>z\<close>.\<close>

definition builtin_overflow :: "bool \<Rightarrow> int \<Rightarrow> bool \<times> 'a::len word" where
  "builtin_overflow is_signed z =
     (let result = word_of_int z in (lane_value is_signed (result :: 'a word) \<noteq> z, result))"

text \<open>What a saturating instruction makes of the exact result.\<close>

definition saturate :: "bool \<Rightarrow> int \<Rightarrow> 'a::len word" where
  "saturate is_signed z =
     word_of_int (max (type_lowest is_signed TYPE('a)) (min (type_max is_signed TYPE('a)) z))"

lemma lane_value_bounds:
  "type_lowest is_signed TYPE('a) \<le> lane_value is_signed (w :: 'a::len word)"
  "lane_value is_signed w \<le> type_max is_signed TYPE('a)"
  using sint_ge [of w] sint_lt [of w] uint_bounded [of w]
  by (auto simp: lane_value_def type_lowest_def type_max_def max_signed_def min_signed_def
      max_unsigned_def)

lemma lane_value_of_int:
  assumes "type_lowest is_signed TYPE('a::len) \<le> z" and "z \<le> type_max is_signed TYPE('a)"
  shows "lane_value is_signed (word_of_int z :: 'a word) = z"
proof (cases is_signed)
  case True
  have "signed_take_bit (LENGTH('a) - 1) z = z"
    using assms True
    by (intro signed_take_bit_int_eq_self)
      (auto simp: type_lowest_def type_max_def max_signed_def min_signed_def)
  with True show ?thesis by (simp add: lane_value_def sint_sbintrunc')
next
  case False
  have "take_bit LENGTH('a) z = z"
    using assms False
    by (intro take_bit_int_eq_self) (auto simp: type_lowest_def type_max_def max_unsigned_def)
  with False show ?thesis by (simp add: lane_value_def uint_word_of_int_eq)
qed

lemma type_lowest_le_max: "type_lowest is_signed TYPE('a::len) \<le> type_max is_signed TYPE('a)"
  using lane_value_bounds [of is_signed "0 :: 'a word"] by linarith

lemma lane_value_saturate:
  "lane_value is_signed (saturate is_signed z :: 'a::len word)
    = max (type_lowest is_signed TYPE('a)) (min (type_max is_signed TYPE('a)) z)"
  unfolding saturate_def using type_lowest_le_max [of is_signed, where 'a = 'a]
  by (intro lane_value_of_int) auto

lemma lane_value_inject: "lane_value is_signed v = lane_value is_signed w \<longleftrightarrow> v = w"
  by (auto simp: lane_value_def dest: signed_word_eqI unsigned_word_eqI)

lemma builtin_overflow_iff:
  "fst (builtin_overflow is_signed z :: bool \<times> 'a::len word) \<longleftrightarrow>
     z < type_lowest is_signed TYPE('a) \<or> type_max is_signed TYPE('a) < z"
  using lane_value_of_int [of is_signed z, where 'a = 'a]
    lane_value_bounds [of is_signed "word_of_int z :: 'a word"]
  unfolding builtin_overflow_def Let_def fst_conv by linarith

lemma saturate_cases:
  "(saturate is_signed z :: 'a::len word) =
    (if fst (builtin_overflow is_signed z :: bool \<times> 'a word)
     then if z < type_lowest is_signed TYPE('a) then lowest_lane is_signed else max_lane is_signed
     else snd (builtin_overflow is_signed z :: bool \<times> 'a word))"
  using type_lowest_le_max [of is_signed, where 'a = 'a]
  unfolding builtin_overflow_iff
  by (auto simp: saturate_def lowest_lane_def max_lane_def builtin_overflow_def Let_def max_def min_def)

section \<open>Scalar paths\<close>

definition saturating_add_scalar :: "bool \<Rightarrow> 'a::len word \<Rightarrow> 'a word \<Rightarrow> 'a word" where
  "saturating_add_scalar is_signed src_a src_b =
     (let (overflow, result) = builtin_overflow is_signed (lane_value is_signed src_a + lane_value is_signed src_b)
      in if is_signed \<and> lane_value is_signed src_b < 0
         then (if overflow then lowest_lane is_signed else result)
         else (if overflow then max_lane is_signed else result))"

definition saturating_sub_scalar :: "bool \<Rightarrow> 'a::len word \<Rightarrow> 'a word \<Rightarrow> 'a word" where
  "saturating_sub_scalar is_signed src_a src_b =
     (let (overflow, result) = builtin_overflow is_signed (lane_value is_signed src_a - lane_value is_signed src_b)
      in if is_signed \<and> lane_value is_signed src_b < 0
         then (if overflow then max_lane is_signed else result)
         else (if overflow then lowest_lane is_signed else result))"

definition saturating_absdiff_scalar :: "bool \<Rightarrow> 'a::len word \<Rightarrow> 'a word \<Rightarrow> 'a word" where
  "saturating_absdiff_scalar is_signed src_a src_b =
     (let a = lane_value is_signed src_a; b = lane_value is_signed src_b;
          (overflow, difference) = builtin_overflow is_signed (max a b - min a b)
      in if overflow then max_lane is_signed else difference)"

definition saturating_multiply_scalar :: "bool \<Rightarrow> 'a::len word \<Rightarrow> 'a word \<Rightarrow> 'a word" where
  "saturating_multiply_scalar is_signed src_a src_b =
     (let a = lane_value is_signed src_a; b = lane_value is_signed src_b;
          (overflow, result) = builtin_overflow is_signed (a * b)
      in if is_signed then
           (if overflow then (if a < 0 \<and> b > 0 \<or> a > 0 \<and> b < 0 then lowest_lane is_signed else max_lane is_signed)
            else result)
         else (if overflow then max_lane is_signed else result))"

definition saturate_abs :: "'a::len word \<Rightarrow> 'a word" where
  "saturate_abs input =
     (if input = lowest_lane True then max_lane True else word_of_int \<bar>sint input\<bar>)"

definition add_abs_with_threshold_scalar :: "'a::len word \<Rightarrow> 'a word \<Rightarrow> 'a word \<Rightarrow> 'a word" where
  "add_abs_with_threshold_scalar threshold src_a src_b =
     (let (overflow, sum) = builtin_overflow True (sint (saturate_abs src_a) + sint (saturate_abs src_b));
          add_abs = (if overflow then max_lane True else sum)
      in if sint add_abs > sint threshold then add_abs else 0)"

section \<open>Vector instructions\<close>

text \<open>
  A widening instruction gives exact products, which fit into twice the width; \<open>vqmovn\<close> saturates
  them back.
\<close>

definition vqaddq :: "bool \<Rightarrow> 'a::len word list \<Rightarrow> 'a word list \<Rightarrow> 'a word list" where
  "vqaddq is_signed = map2 (\<lambda>a b. saturate is_signed (lane_value is_signed a + lane_value is_signed b))"

definition vqsubq :: "bool \<Rightarrow> 'a::len word list \<Rightarrow> 'a word list \<Rightarrow> 'a word list" where
  "vqsubq is_signed = map2 (\<lambda>a b. saturate is_signed (lane_value is_signed a - lane_value is_signed b))"

definition vqabsq :: "'a::len word list \<Rightarrow> 'a word list" where
  "vqabsq = map (\<lambda>a. saturate True \<bar>sint a\<bar>)"

definition vabdq :: "bool \<Rightarrow> 'a::len word list \<Rightarrow> 'a word list \<Rightarrow> 'a word list" where
  "vabdq is_signed = map2 (\<lambda>a b. word_of_int \<bar>lane_value is_signed a - lane_value is_signed b\<bar>)"

definition vget_low_elems :: "'v list \<Rightarrow> 'v list" where
  "vget_low_elems v = take (length v div 2) v"

definition vget_high_elems :: "'v list \<Rightarrow> 'v list" where
  "vget_high_elems v = drop (length v div 2) v"

definition vmull :: "bool \<Rightarrow> 'a::len word list \<Rightarrow> 'a word list \<Rightarrow> int list" where
  "vmull is_signed = map2 (\<lambda>a b. lane_value is_signed a * lane_value is_signed b)"

definition vmull_high :: "bool \<Rightarrow> 'a::len word list \<Rightarrow> 'a word list \<Rightarrow> int list" where
  "vmull_high is_signed v w = vmull is_signed (vget_high_elems v) (vget_high_elems w)"

definition vqmovn :: "bool \<Rightarrow> int list \<Rightarrow> 'a::len word list" where
  "vqmovn is_signed = map (saturate is_signed)"

definition vqmovn_high :: "bool \<Rightarrow> 'a::len word list \<Rightarrow> int list \<Rightarrow> 'a word list" where
  "vqmovn_high is_signed low wide = low @ vqmovn is_signed wide"

text \<open>Comparisons give all ones or zero.\<close>

definition lane_mask :: "bool \<Rightarrow> 'a::len word" where
  "lane_mask b = (if b then - 1 else 0)"

definition vceqq :: "'a::len word list \<Rightarrow> 'a word list \<Rightarrow> 'a word list" where
  "vceqq = map2 (\<lambda>a b. lane_mask (a = b))"

definition vcgtq :: "bool \<Rightarrow> 'a::len word list \<Rightarrow> 'a word list \<Rightarrow> 'a word list" where
  "vcgtq is_signed = map2 (\<lambda>a b. lane_mask (lane_value is_signed a > lane_value is_signed b))"

definition vcgeq :: "bool \<Rightarrow> 'a::len word list \<Rightarrow> 'a word list \<Rightarrow> 'a word list" where
  "vcgeq is_signed = map2 (\<lambda>a b. lane_mask (lane_value is_signed a \<ge> lane_value is_signed b))"

definition vcleq :: "bool \<Rightarrow> 'a::len word list \<Rightarrow> 'a word list \<Rightarrow> 'a word list" where
  "vcleq is_signed = map2 (\<lambda>a b. lane_mask (lane_value is_signed a \<le> lane_value is_signed b))"

definition vandq :: "'a::len word list \<Rightarrow> 'a word list \<Rightarrow> 'a word list" where
  "vandq = map2 (\<lambda>a b. a AND b)"

text \<open>Bits of \<open>a\<close> where the mask is set, of \<open>b\<close> elsewhere.\<close>

definition vbslq :: "'a::len word list \<Rightarrow> 'a word list \<Rightarrow> 'a word list \<Rightarrow> 'a word list" where
  "vbslq selector v w = map (\<lambda>(s, a, b). (a AND s) OR (b AND NOT s)) (zip selector (zip v w))"

definition vdupq_n :: "'a::len word \<Rightarrow> 'a word list" where
  "vdupq_n x = replicate (num_lanes_of TYPE('a)) x"

section \<open>One lane is one element\<close>

lemma saturating_add_lane:
  "saturating_add_scalar is_signed a b
    = saturate is_signed (lane_value is_signed a + lane_value is_signed (b :: 'a::len word))"
proof -
  have "lane_value is_signed b < 0 \<Longrightarrow> is_signed" by (simp add: lane_value_def split: if_splits)
  then show ?thesis
    using lane_value_bounds [of is_signed a] lane_value_bounds [of is_signed b]
    by (auto simp: saturating_add_scalar_def saturate_cases split_beta Let_def builtin_overflow_iff)
qed

lemma saturating_sub_lane:
  "saturating_sub_scalar is_signed a b
    = saturate is_signed (lane_value is_signed a - lane_value is_signed (b :: 'a::len word))"
proof -
  have "lane_value is_signed b < 0 \<Longrightarrow> is_signed" by (simp add: lane_value_def split: if_splits)
  then show ?thesis
    using lane_value_bounds [of is_signed a] lane_value_bounds [of is_signed b]
    by (auto simp: saturating_sub_scalar_def saturate_cases split_beta Let_def builtin_overflow_iff)
qed

lemma saturating_multiply_lane:
  "saturating_multiply_scalar is_signed a b
    = saturate is_signed (lane_value is_signed a * lane_value is_signed (b :: 'a::len word))"
proof (cases is_signed)
  case True
  let ?a = "sint a" and ?b = "sint b"
  have low: "type_lowest True TYPE('a) \<le> 0" and high: "0 \<le> type_max True TYPE('a)"
    using lane_value_bounds [of True "0 :: 'a word"] by (simp_all add: lane_value_def)
  have neg: "?a < 0 \<and> ?b > 0 \<or> ?a > 0 \<and> ?b < 0" if "?a * ?b < type_lowest True TYPE('a)"
  proof -
    from that low have "?a * ?b < 0" by linarith
    then show ?thesis by (auto simp: mult_less_0_iff)
  qed
  have pos: "\<not> (?a < 0 \<and> ?b > 0 \<or> ?a > 0 \<and> ?b < 0)" if "type_max True TYPE('a) < ?a * ?b"
  proof -
    from that high have "\<not> ?a * ?b < 0" by linarith
    then show ?thesis by (auto simp: mult_less_0_iff)
  qed
  have "fst (builtin_overflow True (?a * ?b) :: bool \<times> 'a word) \<longleftrightarrow>
      ?a * ?b < type_lowest True TYPE('a) \<or> type_max True TYPE('a) < ?a * ?b"
    by (rule builtin_overflow_iff)
  then show ?thesis
    using True neg pos type_lowest_le_max [of True, where 'a = 'a]
    by (auto simp: saturating_multiply_scalar_def saturate_cases split_beta Let_def lane_value_def)
next
  case False
  have "\<not> uint a * uint b < type_lowest False TYPE('a)" by (simp add: type_lowest_def not_less)
  with False show ?thesis
    by (auto simp: saturating_multiply_scalar_def saturate_cases split_beta Let_def lane_value_def)
qed

lemma saturating_absdiff_lane:
  fixes a b :: "'a::len word"
  shows "saturating_absdiff_scalar is_signed a b
    = saturate is_signed \<bar>lane_value is_signed a - lane_value is_signed b\<bar>"
proof -
  let ?a = "lane_value is_signed a" and ?b = "lane_value is_signed b"
  have d: "max ?a ?b - min ?a ?b = \<bar>?a - ?b\<bar>" by linarith
  have "type_lowest is_signed TYPE('a) \<le> 0"
    by (simp add: type_lowest_def min_signed_def)
  then have "\<not> \<bar>?a - ?b\<bar> < type_lowest is_signed TYPE('a)" by linarith
  then show ?thesis
    unfolding saturating_absdiff_scalar_def Let_def d saturate_cases by (simp add: split_beta)
qed

lemma absdiff_unsigned_lane:
  fixes a b :: "'a::len word"
  shows "saturate False \<bar>uint a - uint b\<bar> = (word_of_int \<bar>uint a - uint b\<bar> :: 'a word)"
proof -
  have "\<bar>uint a - uint b\<bar> \<le> 2 ^ LENGTH('a) - 1"
    using uint_bounded [of a] uint_bounded [of b] uint_nonnegative [of a] uint_nonnegative [of b]
    by linarith
  then show ?thesis
    by (simp add: saturate_def type_lowest_def type_max_def max_unsigned_def min_absorb2)
qed

text \<open>Two saturating instructions, the second on a difference that may already be saturated.\<close>

lemma absdiff_signed_lane:
  fixes a b :: "'a::len word"
  shows "saturate True \<bar>sint (saturate True (sint a - sint b) :: 'a word)\<bar>
    = (saturate True \<bar>sint a - sint b\<bar> :: 'a word)"
proof -
  let ?d = "sint a - sint b"
  let ?l = "type_lowest True TYPE('a)" and ?h = "type_max True TYPE('a)"
  have s: "sint (saturate True ?d :: 'a word) = max ?l (min ?h ?d)"
    using lane_value_saturate [of True ?d, where 'a = 'a] by (simp add: lane_value_def)
  have lh: "?l = - ?h - 1" by (simp add: type_lowest_def type_max_def min_signed_def max_signed_def)
  have "0 \<le> ?h" using lane_value_bounds [of True "0 :: 'a word"] by (simp add: lane_value_def)
  then have "min ?h \<bar>max ?l (min ?h ?d)\<bar> = min ?h \<bar>?d\<bar>" unfolding lh by linarith
  then show ?thesis by (simp add: saturate_def [of True "\<bar>_\<bar>"] s)
qed

lemma lane_value_max: "lane_value is_signed (max_lane is_signed :: 'a::len word) = type_max is_signed TYPE('a)"
  and lane_value_lowest: "lane_value is_signed (lowest_lane is_signed :: 'a word) = type_lowest is_signed TYPE('a)"
  using type_lowest_le_max [of is_signed, where 'a = 'a]
  by (simp_all add: max_lane_def lowest_lane_def lane_value_of_int)

lemma saturate_abs_lane: "saturate_abs (a :: 'a::len word) = saturate True \<bar>sint a\<bar>"
proof -
  let ?l = "type_lowest True TYPE('a)" and ?h = "type_max True TYPE('a)"
  have lh: "?l = - ?h - 1" by (simp add: type_lowest_def type_max_def min_signed_def max_signed_def)
  have "0 \<le> ?h" using lane_value_bounds [of True "0 :: 'a word"] by (simp add: lane_value_def)
  have b: "?l \<le> sint a" "sint a \<le> ?h" using lane_value_bounds [of True a] by (simp_all add: lane_value_def)
  show ?thesis
  proof (cases "a = lowest_lane True")
    case True
    then have "sint a = ?l" using lane_value_lowest [of True, where 'a = 'a] by (simp add: lane_value_def)
    with True lh \<open>0 \<le> ?h\<close> show ?thesis by (simp add: saturate_abs_def saturate_def max_lane_def)
  next
    case False
    have "sint a \<noteq> ?l"
    proof
      assume "sint a = ?l"
      then have "lane_value True a = lane_value True (lowest_lane True :: 'a word)"
        by (simp add: lane_value_def lane_value_lowest [of True, unfolded lane_value_def, simplified])
      with False show False by (simp add: lane_value_inject)
    qed
    with b lh \<open>0 \<le> ?h\<close> have "max ?l (min ?h \<bar>sint a\<bar>) = \<bar>sint a\<bar>" by linarith
    with False show ?thesis by (simp add: saturate_abs_def saturate_def)
  qed
qed

lemma add_abs_with_threshold_lane:
  fixes a b :: "'a::len word"
  shows "add_abs_with_threshold_scalar threshold a b
    = (let s = saturate True (sint (saturate True \<bar>sint a\<bar> :: 'a word)
                 + sint (saturate True \<bar>sint b\<bar> :: 'a word))
       in s AND lane_mask (sint s > sint threshold))"
proof -
  let ?z = "sint (saturate True \<bar>sint a\<bar> :: 'a word) + sint (saturate True \<bar>sint b\<bar> :: 'a word)"
  have "0 \<le> sint (saturate True \<bar>sint c\<bar> :: 'a word)" for c :: "'a word"
    using lane_value_saturate [of True "\<bar>sint c\<bar>", where 'a = 'a]
      lane_value_bounds [of True "0 :: 'a word"] by (simp add: lane_value_def)
  from this [of a] this [of b] have "\<not> ?z < type_lowest True TYPE('a)"
    using lane_value_bounds [of True "0 :: 'a word"] by (simp add: lane_value_def)
  then have "(saturate True ?z :: 'a word)
    = (if fst (builtin_overflow True ?z :: bool \<times> 'a word) then max_lane True
       else snd (builtin_overflow True ?z :: bool \<times> 'a word))"
    by (simp add: saturate_cases)
  then show ?thesis
    by (simp add: add_abs_with_threshold_scalar_def saturate_abs_lane Let_def split_beta lane_mask_def)
qed

end
