(* ===== verification/Elementwise_Ops.thy ===== *)
theory Elementwise_Ops
  imports Image_Results Saturating_Lanes
begin

text \<open>
  The element-wise operations of \<^verbatim>\<open>kleidicv/src/arithmetics/*_neon.cpp\<close>: for each
  the vector path and the scalar path, shown to agree lane by lane, and the function behind the
  API, from its checks to the image in memory.
\<close>

section \<open>The operations\<close>

definition SaturatingAdd :: "bool \<Rightarrow> 'a::len itself \<Rightarrow> mem vec_operation" where
  "SaturatingAdd is_signed t =
     binary_operation True False (vqaddq is_signed) (saturating_add_scalar is_signed :: 'a word \<Rightarrow> _)"

definition SaturatingSub :: "bool \<Rightarrow> 'a::len itself \<Rightarrow> mem vec_operation" where
  "SaturatingSub is_signed t =
     binary_operation True False (vqsubq is_signed) (saturating_sub_scalar is_signed :: 'a word \<Rightarrow> _)"

definition absdiff_vector_path :: "bool \<Rightarrow> 'a::len word list \<Rightarrow> 'a word list \<Rightarrow> 'a word list" where
  "absdiff_vector_path is_signed src_a src_b =
     (if is_signed then vqabsq (vqsubq is_signed src_a src_b) else vabdq is_signed src_a src_b)"

definition SaturatingAbsDiff :: "bool \<Rightarrow> 'a::len itself \<Rightarrow> mem vec_operation" where
  "SaturatingAbsDiff is_signed t =
     binary_operation True False (absdiff_vector_path is_signed)
       (saturating_absdiff_scalar is_signed :: 'a word \<Rightarrow> _)"

definition multiply_vector_path :: "bool \<Rightarrow> 'a::len word list \<Rightarrow> 'a word list \<Rightarrow> 'a word list" where
  "multiply_vector_path is_signed src_a src_b =
     (let high_part = vmull_high is_signed src_a src_b;
          low_part = vmull is_signed (vget_low_elems src_a) (vget_low_elems src_b)
      in vqmovn_high is_signed (vqmovn is_signed low_part) high_part)"

definition SaturatingMultiply :: "bool \<Rightarrow> 'a::len itself \<Rightarrow> mem vec_operation" where
  "SaturatingMultiply is_signed t =
     binary_operation True False (multiply_vector_path is_signed)
       (saturating_multiply_scalar is_signed :: 'a word \<Rightarrow> _)"

definition add_abs_with_threshold_vector_path ::
    "'a::len word \<Rightarrow> 'a word list \<Rightarrow> 'a word list \<Rightarrow> 'a word list" where
  "add_abs_with_threshold_vector_path threshold src_a src_b =
     (let add_abs = vqaddq True (vqabsq src_a) (vqabsq src_b)
      in vandq add_abs (vcgtq True add_abs (replicate (length add_abs) threshold)))"

definition SaturatingAddAbsWithThreshold :: "16 word \<Rightarrow> mem vec_operation" where
  "SaturatingAddAbsWithThreshold threshold =
     binary_operation True True (add_abs_with_threshold_vector_path threshold)
       (add_abs_with_threshold_scalar threshold)"

definition BitwiseAnd :: "mem vec_operation" where
  "BitwiseAnd = binary_operation True False vandq (\<lambda>src_a src_b. src_a AND src_b :: 8 word)"

definition ComparatorEqual :: "mem vec_operation" where
  "ComparatorEqual = binary_operation True False vceqq (\<lambda>src_a src_b. if src_a = src_b then 255 else 0 :: 8 word)"

definition ComparatorGreater :: "mem vec_operation" where
  "ComparatorGreater =
     binary_operation True False (vcgtq False) (\<lambda>src_a src_b. if src_a > src_b then 255 else 0 :: 8 word)"

definition threshold_vector_path :: "'a::len word \<Rightarrow> 'a word \<Rightarrow> 'a word list \<Rightarrow> 'a word list" where
  "threshold_vector_path threshold thr_value src =
     (let predicate = vcgtq False src (replicate (length src) threshold)
      in vbslq predicate (replicate (length src) thr_value) (replicate (length src) 0))"

definition BinaryThreshold :: "8 word \<Rightarrow> 8 word \<Rightarrow> mem vec_operation" where
  "BinaryThreshold threshold thr_value =
     unary_operation True False (threshold_vector_path threshold thr_value)
       (\<lambda>src. if src > threshold then thr_value else 0)"

definition in_range_vector_path :: "'a::len word \<Rightarrow> 'a word \<Rightarrow> 'a word list \<Rightarrow> 'a word list" where
  "in_range_vector_path lower_bound upper_bound src =
     vandq (vcgeq False src (replicate (length src) lower_bound))
       (vcleq False src (replicate (length src) upper_bound))"

definition InRange :: "8 word \<Rightarrow> 8 word \<Rightarrow> mem vec_operation" where
  "InRange lower_bound upper_bound =
     unary_operation True False (in_range_vector_path lower_bound upper_bound)
       (\<lambda>src. if src \<ge> lower_bound \<and> src \<le> upper_bound then 255 else 0)"

section \<open>The vector paths work lane by lane\<close>

lemma map2_replicate_right: "map2 f v (replicate (length v) x) = map (\<lambda>a. f a x) v"
  by (induction v) auto

lemma lane_mask_u8: "lane_mask b = (if b then 255 else 0 :: 8 word)"
  by (simp add: lane_mask_def)

lemma multiply_halves:
  assumes "length v = length w"
  shows "multiply_vector_path is_signed v w
    = map2 (\<lambda>a b. saturate is_signed (lane_value is_signed a * lane_value is_signed b)) v w"
proof -
  have "map2 f v w = map2 f (take n v) (take n w) @ map2 f (drop n v) (drop n w)" for f :: "'a word \<Rightarrow> 'a word \<Rightarrow> 'a word" and n
    by (metis append_take_drop_id assms length_take map_append zip_append)
  from this [of "\<lambda>a b. saturate is_signed (lane_value is_signed a * lane_value is_signed b)" "length v div 2"]
  show ?thesis
    using assms by (simp add: multiply_vector_path_def vmull_high_def vmull_def vqmovn_high_def
        vqmovn_def vget_low_elems_def vget_high_elems_def Let_def comp_def split_def)
qed

interpretation add_lanes: binary_lanes "vqaddq is_signed" "saturating_add_scalar is_signed"
  by unfold_locales (simp add: vqaddq_def saturating_add_lane)

interpretation sub_lanes: binary_lanes "vqsubq is_signed" "saturating_sub_scalar is_signed"
  by unfold_locales (simp add: vqsubq_def saturating_sub_lane)

interpretation absdiff_lanes: binary_lanes "absdiff_vector_path is_signed" "saturating_absdiff_scalar is_signed"
proof unfold_locales
  fix v w :: "'a::len word list"
  show "absdiff_vector_path is_signed v w = map2 (saturating_absdiff_scalar is_signed) v w"
  proof (cases is_signed)
    case True
    then show ?thesis
      by (simp add: absdiff_vector_path_def vqabsq_def vqsubq_def saturating_absdiff_lane
          lane_value_def absdiff_signed_lane comp_def split_def)
  next
    case False
    then show ?thesis
      by (simp add: absdiff_vector_path_def vabdq_def saturating_absdiff_lane
          lane_value_def absdiff_unsigned_lane)
  qed
qed

interpretation multiply_lanes: binary_lanes "multiply_vector_path is_signed" "saturating_multiply_scalar is_signed"
  by unfold_locales (simp add: multiply_halves saturating_multiply_lane)

interpretation threshold_lanes: binary_lanes "add_abs_with_threshold_vector_path threshold"
  "add_abs_with_threshold_scalar threshold"
proof unfold_locales
  fix v w :: "'a::len word list"
  assume "length v = length w"
  then show "add_abs_with_threshold_vector_path threshold v w
      = map2 (add_abs_with_threshold_scalar threshold) v w"
    by (induction v w rule: list_induct2)
      (simp_all add: add_abs_with_threshold_vector_path_def vqaddq_def vqabsq_def vcgtq_def vandq_def
        add_abs_with_threshold_lane Let_def lane_value_def)
qed

interpretation and_lanes: binary_lanes vandq "\<lambda>src_a src_b. src_a AND src_b"
  by unfold_locales (simp add: vandq_def)

interpretation equal_lanes: binary_lanes vceqq "\<lambda>src_a src_b. if src_a = src_b then 255 else 0 :: 8 word"
  by unfold_locales (simp add: vceqq_def lane_mask_u8)

interpretation greater_lanes: binary_lanes "vcgtq False" "\<lambda>src_a src_b. if src_a > src_b then 255 else 0 :: 8 word"
  by unfold_locales (simp add: vcgtq_def lane_mask_u8 lane_value_def word_less_def)

interpretation binary_threshold_lanes: unary_lanes "threshold_vector_path threshold thr_value"
  "\<lambda>src. if src > threshold then thr_value else 0"
proof unfold_locales
  fix v :: "'a::len word list"
  show "threshold_vector_path threshold thr_value v = map (\<lambda>src. if src > threshold then thr_value else 0) v"
    by (induction v)
      (auto simp: threshold_vector_path_def vcgtq_def vbslq_def lane_mask_def lane_value_def
        word_less_def Let_def)
qed

interpretation in_range_lanes: unary_lanes "in_range_vector_path lower_bound upper_bound"
  "\<lambda>src. if src \<ge> lower_bound \<and> src \<le> upper_bound then 255 else 0 :: 8 word"
proof unfold_locales
  fix v :: "8 word list"
  show "in_range_vector_path lower_bound upper_bound v
    = map (\<lambda>src. if src \<ge> lower_bound \<and> src \<le> upper_bound then 255 else 0) v"
    by (induction v)
      (auto simp: in_range_vector_path_def vandq_def vcgeq_def vcleq_def lane_mask_def
        lane_value_def word_le_def)
qed

section \<open>Behind the API\<close>

definition single_channel_rows :: "nat \<Rightarrow> nat \<Rightarrow> nat \<Rightarrow> Rows" where
  "single_channel_rows sizeof_T ptr stride =
     \<lparr>row_ptr = ptr, row_stride = stride, row_sizeof = sizeof_T, row_channels = 1\<rparr>"

text \<open>
  The body that the functions with two sources share: checks of the three images and of the size,
  then the rows. The alignment of an element type is its size.
\<close>

definition elementwise_binary ::
    "mem vec_operation \<Rightarrow> nat \<Rightarrow> nat \<Rightarrow> nat \<Rightarrow> nat \<Rightarrow> nat \<Rightarrow> nat \<Rightarrow> nat \<Rightarrow> nat \<Rightarrow> nat \<Rightarrow> mem
      \<Rightarrow> kleidicv_error_t \<times> mem" where
  "elementwise_binary op sizeof_T src_a src_a_stride src_b src_b_stride dst dst_stride w h m =
     (let err = checks [check_pointer_and_stride sizeof_T src_a src_a_stride h,
            check_pointer_and_stride sizeof_T src_b src_b_stride h,
            check_pointer_and_stride sizeof_T dst dst_stride h, check_image_size w h]
      in if err \<noteq> KLEIDICV_OK then (err, m)
         else (KLEIDICV_OK, apply_operation_by_rows op \<lparr>rectangle_width = w, rectangle_height = h\<rparr>
           [single_channel_rows sizeof_T src_a src_a_stride,
            single_channel_rows sizeof_T src_b src_b_stride,
            single_channel_rows sizeof_T dst dst_stride] m))"

definition elementwise_unary ::
    "mem vec_operation \<Rightarrow> nat \<Rightarrow> nat \<Rightarrow> nat \<Rightarrow> nat \<Rightarrow> nat \<Rightarrow> nat \<Rightarrow> nat \<Rightarrow> mem \<Rightarrow> kleidicv_error_t \<times> mem" where
  "elementwise_unary op sizeof_T src src_stride dst dst_stride w h m =
     (let err = checks [check_pointer_and_stride sizeof_T src src_stride h,
            check_pointer_and_stride sizeof_T dst dst_stride h, check_image_size w h]
      in if err \<noteq> KLEIDICV_OK then (err, m)
         else (KLEIDICV_OK, apply_operation_by_rows op \<lparr>rectangle_width = w, rectangle_height = h\<rparr>
           [single_channel_rows sizeof_T src src_stride, single_channel_rows sizeof_T dst dst_stride] m))"

definition saturating_add where
  "saturating_add is_signed (t :: 'a::len itself) = elementwise_binary (SaturatingAdd is_signed t) (sizeof t)"

definition saturating_sub_neon where
  "saturating_sub_neon is_signed (t :: 'a::len itself) = elementwise_binary (SaturatingSub is_signed t) (sizeof t)"

definition saturating_absdiff where
  "saturating_absdiff is_signed (t :: 'a::len itself) =
     elementwise_binary (SaturatingAbsDiff is_signed t) (sizeof t)"

text \<open>The scale is not used, as the code notes.\<close>

definition saturating_multiply where
  "saturating_multiply is_signed (t :: 'a::len itself) =
     elementwise_binary (SaturatingMultiply is_signed t) (sizeof t)"

definition saturating_add_abs_with_threshold where
  "saturating_add_abs_with_threshold threshold = elementwise_binary (SaturatingAddAbsWithThreshold threshold) 2"

definition bitwise_and where "bitwise_and = elementwise_binary BitwiseAnd 1"
definition compare_equal where "compare_equal = elementwise_binary ComparatorEqual 1"
definition compare_greater where "compare_greater = elementwise_binary ComparatorGreater 1"

definition threshold_binary where
  "threshold_binary threshold thr_value = elementwise_unary (BinaryThreshold threshold thr_value) 1"

definition in_range where
  "in_range lower_bound upper_bound = elementwise_unary (InRange lower_bound upper_bound) 1"

lemmas elementwise_defs [kcv_defs] = SaturatingAdd_def SaturatingSub_def SaturatingAbsDiff_def
  SaturatingMultiply_def SaturatingAddAbsWithThreshold_def BitwiseAnd_def ComparatorEqual_def
  ComparatorGreater_def BinaryThreshold_def InRange_def saturating_add_def saturating_sub_neon_def
  saturating_absdiff_def saturating_multiply_def saturating_add_abs_with_threshold_def
  bitwise_and_def compare_equal_def compare_greater_def threshold_binary_def in_range_def

text \<open>An image argument that the documentation allows.\<close>

definition legal_image :: "'a::len itself \<Rightarrow> nat \<Rightarrow> nat \<Rightarrow> nat \<Rightarrow> nat \<Rightarrow> bool" where
  "legal_image t w h ptr stride \<longleftrightarrow> ptr \<noteq> nullptr \<and> sizeof TYPE('a) dvd stride
     \<and> w * sizeof TYPE('a) \<le> stride \<and> ptr + h * stride \<le> size_max"

definition same_or_separate :: "nat \<Rightarrow> nat \<Rightarrow> nat \<Rightarrow> nat \<Rightarrow> nat \<Rightarrow> bool" where
  "same_or_separate h src src_stride dst dst_stride \<longleftrightarrow> src = dst \<and> src_stride = dst_stride
     \<or> {src..<src + h * src_stride} \<inter> {dst..<dst + h * dst_stride} = {}"

definition element_in :: "'a::len itself \<Rightarrow> nat \<Rightarrow> nat \<Rightarrow> nat \<Rightarrow> nat \<Rightarrow> mem \<Rightarrow> 'a word" where
  "element_in t ptr stride i j m = load_elem (ptr + i * stride + j * sizeof TYPE('a)) m"

definition image_bytes :: "'a::len itself \<Rightarrow> nat \<Rightarrow> nat \<Rightarrow> nat \<Rightarrow> nat \<Rightarrow> nat set" where
  "image_bytes t w h ptr stride =
     (\<Union>i<h. {ptr + i * stride..<ptr + i * stride + w * sizeof TYPE('a)})"

lemma legal_layout:
  "legal_image TYPE('a::len) w h ptr stride \<Longrightarrow>
    image_layout TYPE('a) w h (single_channel_rows (sizeof TYPE('a)) ptr stride)"
  by (simp add: legal_image_def image_layout_def single_channel_rows_def)

lemma same_or_separate_rows:
  "same_or_separate h s ss d ds \<Longrightarrow>
    same_or_apart h (single_channel_rows n s ss) (single_channel_rows k d ds)"
  by (simp add: same_or_separate_def same_or_apart_def single_channel_rows_def)

lemma pixel_address_rows:
  "load_elem (pixel_address TYPE('a::len) (single_channel_rows n p st) i j) m = element_in TYPE('a) p st i j m"
  by (simp add: pixel_address_def single_channel_rows_def element_in_def)

lemma written_rows:
  "written TYPE('a::len) w h (single_channel_rows n p st) \<subseteq> image_bytes TYPE('a) w h p st"
proof -
  have "elem_bytes TYPE('a) (pixel_address TYPE('a) (single_channel_rows n p st) i j)
    \<subseteq> {p + i * st..<p + i * st + w * sizeof TYPE('a)}" if "j < w" for i j
    using pixel_in_row [OF that, where 'a = 'a and r = "single_channel_rows n p st" and i = i]
    by (simp add: single_channel_rows_def)
  then show ?thesis by (force simp: written_def image_bytes_def)
qed

lemma sizeof_power: "element_type TYPE('a::len) \<Longrightarrow> \<exists>k. sizeof TYPE('a) = 2 ^ k"
  by (auto simp: element_type_def sizeof_def intro: exI [of _ 0] exI [of _ 1] exI [of _ 2] exI [of _ 3])

lemma legal_checks:
  assumes "element_type TYPE('a::len)" and "legal_image TYPE('a) w h ptr stride"
  shows "check_pointer_and_stride (sizeof TYPE('a)) ptr stride h = KLEIDICV_OK"
proof -
  obtain k where "sizeof TYPE('a) = 2 ^ k" using sizeof_power [OF assms(1)] by blast
  with assms(2) show ?thesis by (simp add: check_pointer_and_stride_OK legal_image_def)
qed

text \<open>The call succeeds, every destination element has its value, no other byte changes.\<close>

definition image_result ::
    "'a::len itself \<Rightarrow> nat \<Rightarrow> nat \<Rightarrow> nat \<Rightarrow> nat \<Rightarrow> (nat \<Rightarrow> nat \<Rightarrow> 'a word) \<Rightarrow> mem
      \<Rightarrow> kleidicv_error_t \<times> mem \<Rightarrow> bool" where
  "image_result t w h dst dst_stride pixel m r \<longleftrightarrow>
     fst r = KLEIDICV_OK
     \<and> (\<forall>i j. i < h \<longrightarrow> j < w \<longrightarrow> element_in TYPE('a) dst dst_stride i j (snd r) = pixel i j)
     \<and> (\<forall>x. x \<notin> image_bytes TYPE('a) w h dst dst_stride \<longrightarrow> snd r x = m x)"

lemma image_resultD:
  "image_result TYPE('a::len) w h d sd pixel m r \<Longrightarrow> i < h \<Longrightarrow> j < w \<Longrightarrow>
    element_in TYPE('a) d sd i j (snd r) = pixel i j"
  by (simp add: image_result_def)

lemma pixels_fit: "w * h \<le> KLEIDICV_MAX_IMAGE_PIXELS \<Longrightarrow> w * h \<le> size_max"
  by (simp add: KLEIDICV_MAX_IMAGE_PIXELS_def size_max_def)

context binary_lanes
begin

lemma elementwise_binary_result:
  assumes "element_type TYPE('a)" and "w * h \<le> KLEIDICV_MAX_IMAGE_PIXELS"
    and a: "legal_image TYPE('a) w h a sa" and b: "legal_image TYPE('a) w h b sb"
    and d: "legal_image TYPE('a) w h d sd"
    and apart: "same_or_separate h a sa d sd" "same_or_separate h b sb d sd"
  shows "image_result TYPE('a) w h d sd
    (\<lambda>i j. scalar_path (element_in TYPE('a) a sa i j m) (element_in TYPE('a) b sb i j m)) m
    (elementwise_binary (binary_operation twice once vector_path scalar_path) (sizeof TYPE('a))
      a sa b sb d sd w h m)"
proof -
  let ?rows = "single_channel_rows (sizeof TYPE('a))"
  let ?m = "apply_operation_by_rows (binary_operation twice once vector_path scalar_path)
    \<lparr>rectangle_width = w, rectangle_height = h\<rparr> [?rows a sa, ?rows b sb, ?rows d sd] m"
  note image = binary_image [where m' = ?m, OF assms(1) pixels_fit [OF assms(2)] legal_layout [OF a]
    legal_layout [OF b] legal_layout [OF d] same_or_separate_rows [OF apart(1)]
    same_or_separate_rows [OF apart(2)] refl]
  have "elementwise_binary (binary_operation twice once vector_path scalar_path) (sizeof TYPE('a))
      a sa b sb d sd w h m = (KLEIDICV_OK, ?m)"
    using legal_checks [OF assms(1) a] legal_checks [OF assms(1) b] legal_checks [OF assms(1) d]
      assms(2) by (simp add: elementwise_binary_def checks_OK check_image_size_OK)
  then show ?thesis
    using image written_rows [where 'a = 'a and n = "sizeof TYPE('a)" and w = w and h = h and p = d and st = sd]
    by (auto simp: image_result_def pixel_address_rows)
qed

end

context unary_lanes
begin

lemma elementwise_unary_result:
  assumes "element_type TYPE('a)" and "w * h \<le> KLEIDICV_MAX_IMAGE_PIXELS"
    and a: "legal_image TYPE('a) w h a sa" and d: "legal_image TYPE('a) w h d sd"
    and apart: "same_or_separate h a sa d sd"
  shows "image_result TYPE('a) w h d sd (\<lambda>i j. scalar_path (element_in TYPE('a) a sa i j m)) m
    (elementwise_unary (unary_operation twice once vector_path scalar_path) (sizeof TYPE('a))
      a sa d sd w h m)"
proof -
  let ?rows = "single_channel_rows (sizeof TYPE('a))"
  let ?m = "apply_operation_by_rows (unary_operation twice once vector_path scalar_path)
    \<lparr>rectangle_width = w, rectangle_height = h\<rparr> [?rows a sa, ?rows d sd] m"
  note image = unary_image [where m' = ?m, OF assms(1) pixels_fit [OF assms(2)] legal_layout [OF a]
    legal_layout [OF d] same_or_separate_rows [OF apart] refl]
  have "elementwise_unary (unary_operation twice once vector_path scalar_path) (sizeof TYPE('a))
      a sa d sd w h m = (KLEIDICV_OK, ?m)"
    using legal_checks [OF assms(1) a] legal_checks [OF assms(1) d]
      assms(2) by (simp add: elementwise_unary_def checks_OK check_image_size_OK)
  then show ?thesis
    using image written_rows [where 'a = 'a and n = "sizeof TYPE('a)" and w = w and h = h and p = d and st = sd]
    by (auto simp: image_result_def pixel_address_rows)
qed

end

text \<open>
  C15. Saturating arithmetic on images: addition, subtraction, absolute difference and multiplication
  leave in every destination element the exact result on the source elements, clamped to the range of
  the element type, signed or unsigned, whatever way the width splits into vectors and remaining
  elements and whether or not the rows are continuous. The operation may work in place; nothing
  outside the destination pixels is written.
\<close>

theorem saturating_arithmetic_image:
  fixes m :: mem and a sa b sb :: nat and is_signed :: bool
  defines "va \<equiv> \<lambda>i j. lane_value is_signed (element_in TYPE('a::len) a sa i j m)"
  defines "vb \<equiv> \<lambda>i j. lane_value is_signed (element_in TYPE('a) b sb i j m)"
  assumes "element_type TYPE('a)" and "w * h \<le> KLEIDICV_MAX_IMAGE_PIXELS"
    and "legal_image TYPE('a) w h a sa" and "legal_image TYPE('a) w h b sb"
    and "legal_image TYPE('a) w h d sd"
    and "same_or_separate h a sa d sd" and "same_or_separate h b sb d sd"
  shows "image_result TYPE('a) w h d sd (\<lambda>i j. saturate is_signed (va i j + vb i j)) m
      (saturating_add is_signed TYPE('a) a sa b sb d sd w h m)
    \<and> image_result TYPE('a) w h d sd (\<lambda>i j. saturate is_signed (va i j - vb i j)) m
      (saturating_sub_neon is_signed TYPE('a) a sa b sb d sd w h m)
    \<and> image_result TYPE('a) w h d sd (\<lambda>i j. saturate is_signed \<bar>va i j - vb i j\<bar>) m
      (saturating_absdiff is_signed TYPE('a) a sa b sb d sd w h m)
    \<and> image_result TYPE('a) w h d sd (\<lambda>i j. saturate is_signed (va i j * vb i j)) m
      (saturating_multiply is_signed TYPE('a) a sa b sb d sd w h m)"
  using add_lanes.elementwise_binary_result [OF assms(3-9), of is_signed m True False]
    sub_lanes.elementwise_binary_result [OF assms(3-9), of is_signed m True False]
    absdiff_lanes.elementwise_binary_result [OF assms(3-9), of is_signed m True False]
    multiply_lanes.elementwise_binary_result [OF assms(3-9), of is_signed m True False]
  by (simp add: va_def vb_def saturating_add_def saturating_sub_neon_def saturating_absdiff_def
      saturating_multiply_def SaturatingAdd_def SaturatingSub_def SaturatingAbsDiff_def
      SaturatingMultiply_def saturating_add_lane saturating_sub_lane saturating_absdiff_lane
      saturating_multiply_lane)

text \<open>Four signed bytes at 16 and 32, the result at 48, rows of two: \<open>100 + 100\<close> saturates.\<close>

lemma legal_example:
  "element_type TYPE(8)" "(2 :: nat) * 2 \<le> KLEIDICV_MAX_IMAGE_PIXELS"
  "legal_image TYPE(8) 2 2 16 4" "legal_image TYPE(8) 2 2 32 4" "legal_image TYPE(8) 2 2 48 4"
  "same_or_separate 2 16 4 48 4" "same_or_separate 2 32 4 48 4"
  by (auto simp: element_type_def KLEIDICV_MAX_IMAGE_PIXELS_def legal_image_def nullptr_def
      size_max_def same_or_separate_def)

theorem saturating_arithmetic_image_witness:
  "element_in TYPE(8) 48 4 1 1
    (snd (saturating_add True TYPE(8) 16 4 32 4 48 4 2 2 (\<lambda>_. 100))) = 127"
  using image_resultD [OF saturating_arithmetic_image [where is_signed = True and m = "\<lambda>_. 100",
      OF legal_example, THEN conjunct1], of 1 1]
  by (simp add: element_in_def lane_value_def saturate_def type_lowest_def
      type_max_def min_signed_def max_signed_def)

lemma saturate_s16:
  assumes "0 \<le> z"
  shows "(saturate True z :: 16 word) = word_of_int (min 32767 z)"
    and "sint (saturate True z :: 16 word) = min 32767 z"
proof -
  have limits: "type_lowest True TYPE(16) = - 32768" "type_max True TYPE(16) = 32767"
    by (simp_all add: type_lowest_def type_max_def min_signed_def max_signed_def)
  have clamp: "max (- 32768) (min 32767 z) = min 32767 z" using assms by linarith
  show "(saturate True z :: 16 word) = word_of_int (min 32767 z)"
    unfolding saturate_def limits clamp ..
  show "sint (saturate True z :: 16 word) = min 32767 z"
    using lane_value_saturate [of True z, where 'a = 16]
    unfolding lane_value_def limits clamp if_True .
qed

lemma add_abs_with_threshold_s16:
  "add_abs_with_threshold_scalar threshold x y
    = (let s = min 32767 (min 32767 \<bar>sint x\<bar> + min 32767 \<bar>sint y\<bar>)
       in if s > sint threshold then word_of_int s else (0 :: 16 word))"
proof -
  have pos: "0 \<le> min 32767 \<bar>sint x\<bar> + min 32767 \<bar>sint y\<bar>" by linarith
  show ?thesis
    unfolding add_abs_with_threshold_lane Let_def saturate_s16(2) [OF abs_ge_zero]
      saturate_s16(2) [OF pos] unfolding saturate_s16(1) [OF pos] lane_mask_def by simp
qed

text \<open>
  C20. The remaining element-wise operations on bytes, and the sum of absolute values on 16-bit
  elements: comparison masks, threshold, range test and conjunction give exactly the mask or value of
  the comparison at every element; the sum of absolute values saturates (also for the lowest value,
  whose absolute value has no 16-bit representation) and is zero unless it exceeds the threshold.
\<close>

theorem mask_operations_image:
  fixes m :: mem
  assumes "element_type TYPE(8)" and "w * h \<le> KLEIDICV_MAX_IMAGE_PIXELS"
    and "legal_image TYPE(8) w h a sa" and "legal_image TYPE(8) w h b sb"
    and "legal_image TYPE(8) w h d sd"
    and "same_or_separate h a sa d sd" and "same_or_separate h b sb d sd"
    and "legal_image TYPE(16) w h a16 sa16" and "legal_image TYPE(16) w h b16 sb16"
    and "legal_image TYPE(16) w h d16 sd16"
    and "same_or_separate h a16 sa16 d16 sd16" and "same_or_separate h b16 sb16 d16 sd16"
  shows "image_result TYPE(8) w h d sd
      (\<lambda>i j. element_in TYPE(8) a sa i j m AND element_in TYPE(8) b sb i j m) m
      (bitwise_and a sa b sb d sd w h m)
    \<and> image_result TYPE(8) w h d sd
      (\<lambda>i j. if element_in TYPE(8) a sa i j m = element_in TYPE(8) b sb i j m then 255 else 0) m
      (compare_equal a sa b sb d sd w h m)
    \<and> image_result TYPE(8) w h d sd
      (\<lambda>i j. if element_in TYPE(8) a sa i j m > element_in TYPE(8) b sb i j m then 255 else 0) m
      (compare_greater a sa b sb d sd w h m)
    \<and> image_result TYPE(8) w h d sd
      (\<lambda>i j. if element_in TYPE(8) a sa i j m > threshold then thr_value else 0) m
      (threshold_binary threshold thr_value a sa d sd w h m)
    \<and> image_result TYPE(8) w h d sd
      (\<lambda>i j. if lower \<le> element_in TYPE(8) a sa i j m \<and> element_in TYPE(8) a sa i j m \<le> upper
              then 255 else 0) m
      (in_range lower upper a sa d sd w h m)
    \<and> image_result TYPE(16) w h d16 sd16
      (\<lambda>i j. let s = min 32767 (min 32767 \<bar>sint (element_in TYPE(16) a16 sa16 i j m)\<bar>
                   + min 32767 \<bar>sint (element_in TYPE(16) b16 sb16 i j m)\<bar>)
              in if s > sint threshold16 then word_of_int s else 0) m
      (saturating_add_abs_with_threshold threshold16 a16 sa16 b16 sb16 d16 sd16 w h m)"
proof -
  have e16: "element_type TYPE(16)" by (simp add: element_type_def)
  show ?thesis
    using and_lanes.elementwise_binary_result [OF assms(1-7), of m True False]
      equal_lanes.elementwise_binary_result [OF assms(1-7), of m True False]
      greater_lanes.elementwise_binary_result [OF assms(1-7), of m True False]
      binary_threshold_lanes.elementwise_unary_result [where threshold = threshold and thr_value = thr_value
        and m = m and twice = True and once = False, OF assms(1-3,5,6)]
      in_range_lanes.elementwise_unary_result [where lower_bound = lower and upper_bound = upper
        and m = m and twice = True and once = False, OF assms(1-3,5,6)]
      threshold_lanes.elementwise_binary_result [where threshold = threshold16 and m = m and twice = True and once = True,
        OF e16 assms(2,8-12)]
    by (simp add: bitwise_and_def compare_equal_def compare_greater_def threshold_binary_def
        in_range_def saturating_add_abs_with_threshold_def BitwiseAnd_def ComparatorEqual_def
        ComparatorGreater_def BinaryThreshold_def InRange_def SaturatingAddAbsWithThreshold_def add_abs_with_threshold_s16)
qed

theorem mask_operations_image_witness:
  "element_in TYPE(8) 48 4 1 0
      (snd (compare_greater 16 4 32 4 48 4 2 2 (\<lambda>a. of_nat (64 - a)))) = 255"
proof -
  have legal: "legal_image TYPE(16) 2 2 64 4" "legal_image TYPE(16) 2 2 80 4"
    "legal_image TYPE(16) 2 2 96 4" "same_or_separate 2 64 4 96 4" "same_or_separate 2 80 4 96 4"
    by (auto simp: legal_image_def nullptr_def size_max_def same_or_separate_def)
  from mask_operations_image [OF legal_example legal]
  have "image_result TYPE(8) 2 2 48 4 (\<lambda>i j. if element_in TYPE(8) 16 4 i j (\<lambda>a. of_nat (64 - a))
        > element_in TYPE(8) 32 4 i j (\<lambda>a. of_nat (64 - a)) then 255 else 0) (\<lambda>a. of_nat (64 - a))
      (compare_greater 16 4 32 4 48 4 2 2 (\<lambda>a. of_nat (64 - a)))"
    by blast
  from image_resultD [OF this, of 1 0] show ?thesis by (simp add: element_in_def)
qed

end
