(* ===== verification/Threaded_Elementwise.thy ===== *)
theory Threaded_Elementwise
  imports Elementwise_Ops Thread_Ops
begin

text \<open>
  The threaded element-wise operations (\<^verbatim>\<open>KLEIDICV_THREAD_BINARY_OP_IMPL\<close> in
  \<^verbatim>\<open>kleidicv_thread.cpp\<close>) put together with the operations they run: the batches of
  rows, each a call with its own checks and its own decision whether its rows are continuous, leave
  the memory of the single call.
\<close>

section \<open>One row as a step\<close>

lemma footprint_store:
  assumes "reads A g"
  shows "footprint (elem_bytes TYPE('a::len) d) A (\<lambda>m. store_elem d (g m :: 'a word) m)"
proof -
  have "g m = g m'" if "\<forall>b \<in> A. m b = m' b" for m m'
    using assms that unfolding reads_def by blast
  then show ?thesis
    unfolding footprint_def by (auto simp: store_elem_def elem_bytes_def) metis
qed

lemma footprint_stores:
  fixes g :: "nat \<Rightarrow> mem \<Rightarrow> 'a::len word"
  assumes "\<And>j. j < n \<Longrightarrow> reads (A j) (g j)" and "stores_apart TYPE('a) d A n"
  shows "footprint (\<Union>j<n. elem_bytes TYPE('a) (d j)) (\<Union>j<n. A j)
    (fold (\<lambda>j m. store_elem (d j) (g j m) m) [0..<n])"
  using assms
proof (induction n)
  case 0
  then show ?case by (simp add: id_def)
next
  case (Suc n)
  have "stores_apart TYPE('a) d A n" using Suc.prems(2) by (simp add: stores_apart_def)
  with Suc have IH: "footprint (\<Union>j<n. elem_bytes TYPE('a) (d j)) (\<Union>j<n. A j)
      (fold (\<lambda>j m. store_elem (d j) (g j m) m) [0..<n])" by simp
  have "(\<Union>j<n. elem_bytes TYPE('a) (d j)) \<inter> A n = {}"
    using Suc.prems(2) unfolding stores_apart_def by blast
  from footprint_comp [OF IH footprint_store [OF Suc.prems(1) [of n]] this]
  show ?case by (simp add: lessThan_Suc Un_commute comp_def)
qed

context binary_lanes
begin

definition binary_row :: "nat \<Rightarrow> Rows \<Rightarrow> Rows \<Rightarrow> Rows \<Rightarrow> nat \<Rightarrow> mem \<Rightarrow> mem" where
  "binary_row w a b dst i =
     fold (\<lambda>j m. store_elem (pixel_address TYPE('a) dst i j)
       (scalar_path (load_elem (pixel_address TYPE('a) a i j) m)
         (load_elem (pixel_address TYPE('a) b i j) m)) m) [0..<w]"

lemma binary_rows_eq:
  assumes "element_type TYPE('a)" and "w * h \<le> size_max"
    and a: "image_layout TYPE('a) w h a" and b: "image_layout TYPE('a) w h b"
    and d: "image_layout TYPE('a) w h dst"
    and apart: "same_or_apart h a dst" "same_or_apart h b dst"
  shows "apply_operation_by_rows (binary_operation twice once vector_path scalar_path)
      \<lparr>rectangle_width = w, rectangle_height = h\<rparr> [a, b, dst] m
    = fold (binary_row w a b dst) [0..<h] m"
proof -
  let ?rows = "[a, b, dst]"
  have "pixel_rows_ok w h (binary_ok TYPE('a)) ?rows"
    using binary_rows_ok [OF assms(1) a b d apart] .
  then have "apply_operation_by_rows (binary_operation twice once vector_path scalar_path)
      \<lparr>rectangle_width = w, rectangle_height = h\<rparr> ?rows m
    = pixel_loop (binary_scalar_path scalar_path) w h ?rows m"
    unfolding apply_operation_by_rows_def pixel_rows_ok_def
    using image_in_memory [OF a] image_in_memory [OF b] image_in_memory [OF d]
      image_row_size [OF a] image_row_size [OF b] image_row_size [OF d] assms(2)
    by (intro zip_rows_simulates) auto
  also have "\<dots> = fold (binary_row w a b dst) [0..<h] m"
    unfolding pixel_loop_def binary_row_def pixel_columns_def
    by (intro fold_cong refl ext)
      (simp add: pixel_column_ptr [OF a] pixel_column_ptr [OF b] pixel_column_ptr [OF d]
        del: step_column_sel row_columns_sel)
  finally show ?thesis .
qed

lemma binary_row_operation:
  assumes a: "image_layout TYPE('a) w h a" and b: "image_layout TYPE('a) w h b"
    and d: "image_layout TYPE('a) w h dst"
    and apart: "same_or_apart h a dst" "same_or_apart h b dst"
  shows "row_operation (binary_row w a b dst) h"
proof (rule footprint_rows)
  let ?W = "\<lambda>i. \<Union>j<w. elem_bytes TYPE('a) (pixel_address TYPE('a) dst i j)"
  let ?A = "\<lambda>i j. elem_bytes TYPE('a) (pixel_address TYPE('a) a i j)
      \<union> elem_bytes TYPE('a) (pixel_address TYPE('a) b i j)"
  show "footprint (?W i) (\<Union>j<w. ?A i j) (binary_row w a b dst i)" if "i < h" for i
    unfolding binary_row_def
    using stores_apart_Un [OF stores_apart_row [OF d a apart(1) that] stores_apart_row [OF d b apart(2) that]]
    by (intro footprint_stores reads_comp2 reads_load) (simp add: row_element [abs_def])
  show "?W i \<inter> ?W i' = {}" if "i < h" "i' < h" "i \<noteq> i'" for i i'
    using pixels_apart [OF d that(1) _ that(2)] that(3) by fastforce
  show "?W i \<inter> (\<Union>j<w. ?A i' j) = {}" if "i < h" "i' < h" "i \<noteq> i'" for i i'
    using source_apart [OF d a apart(1) that(1) _ that(2)]
      source_apart [OF d b apart(2) that(1) _ that(2)] that(3) by fastforce
qed

lemma elementwise_binary_rows:
  assumes "element_type TYPE('a)" and "w * h \<le> KLEIDICV_MAX_IMAGE_PIXELS"
    and a: "legal_image TYPE('a) w h a sa" and b: "legal_image TYPE('a) w h b sb"
    and d: "legal_image TYPE('a) w h d sd"
    and apart: "same_or_separate h a sa d sd" "same_or_separate h b sb d sd"
  shows "elementwise_binary (binary_operation twice once vector_path scalar_path) (sizeof TYPE('a))
      a sa b sb d sd w h m
    = (KLEIDICV_OK, fold (binary_row w (single_channel_rows (sizeof TYPE('a)) a sa)
        (single_channel_rows (sizeof TYPE('a)) b sb) (single_channel_rows (sizeof TYPE('a)) d sd)) [0..<h] m)"
  using legal_checks [OF assms(1) a] legal_checks [OF assms(1) b] legal_checks [OF assms(1) d]
    binary_rows_eq [OF assms(1) pixels_fit [OF assms(2)] legal_layout [OF a] legal_layout [OF b]
      legal_layout [OF d] same_or_separate_rows [OF apart(1)] same_or_separate_rows [OF apart(2)]]
    assms(2)
  by (simp add: elementwise_binary_def checks_OK check_image_size_OK)

text \<open>A batch sees the images from its first row on.\<close>

lemma binary_row_shift:
  "binary_row w (single_channel_rows n (a + k * sa) sa) (single_channel_rows n (b + k * sb) sb)
     (single_channel_rows n (d + k * sd) sd)
   = (\<lambda>i. binary_row w (single_channel_rows n a sa) (single_channel_rows n b sb)
     (single_channel_rows n d sd) (k + i))"
  by (simp add: binary_row_def pixel_address_def single_channel_rows_def add_mult_distrib add.assoc
      fun_eq_iff)

end

lemma legal_image_batch:
  assumes "legal_image t w h p st" and "k \<le> e" and "e \<le> h"
  shows "legal_image t w (e - k) (p + k * st) st"
proof -
  have "k * st + (e - k) * st = e * st" using assms(2) by (simp add: add_mult_distrib [symmetric])
  moreover have "e * st \<le> h * st" using assms(3) by simp
  ultimately show ?thesis using assms(1) unfolding legal_image_def nullptr_def by linarith
qed

lemma same_or_separate_batch:
  assumes "same_or_separate h p st q su" and "k \<le> e" and "e \<le> h"
  shows "same_or_separate (e - k) (p + k * st) st (q + k * su) su"
proof (cases "p = q \<and> st = su")
  case True
  then show ?thesis by (simp add: same_or_separate_def)
next
  case False
  have "{x + k * u..<x + k * u + (e - k) * u} \<subseteq> {x..<x + h * u}" for x u
  proof -
    have "k * u + (e - k) * u = e * u" "e * u \<le> h * u"
      using assms(2,3) by (simp_all add: add_mult_distrib [symmetric])
    then have "x \<le> x + k * u \<and> x + k * u + (e - k) * u \<le> x + h * u" by linarith
    then show ?thesis by auto
  qed
  with False assms(1) show ?thesis unfolding same_or_separate_def by blast
qed

context binary_lanes
begin

lemma threaded_binary:
  fixes a b d :: nat and twice once :: bool
  defines "sz \<equiv> sizeof TYPE('a)"
  defines "f \<equiv> \<lambda>a sa b sb d sd w h. elementwise_binary
    (binary_operation twice once vector_path scalar_path) sz (a * sz) sa (b * sz) sb (d * sz) sd w h"
  assumes sched: "scheduler mt max_tasks" "max 1 h \<le> max_tasks"
    and t: "element_type TYPE('a)" and size: "w * h \<le> KLEIDICV_MAX_IMAGE_PIXELS"
    and la: "legal_image TYPE('a) w h (a * sz) sa" and lb: "legal_image TYPE('a) w h (b * sz) sb"
    and ld: "legal_image TYPE('a) w h (d * sz) sd"
    and apart: "same_or_separate h (a * sz) sa (d * sz) sd" "same_or_separate h (b * sz) sb (d * sz) sd"
  shows "kleidicv_thread_binary_op_impl sz sz f mt a sa b sb d sd w h m = f a sa b sb d sd w h m"
proof -
  let ?rows = "single_channel_rows sz"
  let ?row = "binary_row w (?rows (a * sz) sa) (?rows (b * sz) sb) (?rows (d * sz) sd)"
  have pos: "0 < sz" using t by (auto simp: sz_def element_type_def sizeof_def)
  have address: "(p + elem_offset k st sz) * sz = p * sz + k * st" if "sz dvd st" for p k st
    using that pos by (simp add: elem_offset_def add_mult_distrib)
  have dvd: "sz dvd sa" "sz dvd sb" "sz dvd sd"
    using la lb ld by (simp_all add: legal_image_def sz_def)
  have stripe: "f (a + elem_offset k sa sz) sa (b + elem_offset k sb sz) sb (d + elem_offset k sd sz) sd
      w (e - k) m = (KLEIDICV_OK, fold ?row [k..<e] m)" if ke: "k \<le> e" "e \<le> h" for k e m
  proof -
    have "w * (e - k) \<le> KLEIDICV_MAX_IMAGE_PIXELS"
      using mult_le_mono2 [of "e - k" h w] ke size by linarith
    from elementwise_binary_rows [OF t this legal_image_batch [OF la ke] legal_image_batch [OF lb ke]
        legal_image_batch [OF ld ke] same_or_separate_batch [OF apart(1) ke]
        same_or_separate_batch [OF apart(2) ke], folded sz_def]
    have "f (a + elem_offset k sa sz) sa (b + elem_offset k sb sz) sb (d + elem_offset k sd sz) sd
        w (e - k) m = (KLEIDICV_OK, fold (\<lambda>i. ?row (k + i)) [0..<e - k] m)"
      by (simp add: f_def address dvd binary_row_shift)
    also have "fold (\<lambda>i. ?row (k + i)) [0..<e - k] m = fold ?row [k..<e] m"
      using fold_shift [of ?row k "e - k" m] ke by simp
    finally show ?thesis .
  qed
  have rows: "row_operation ?row h"
    using binary_row_operation [OF legal_layout [OF la] legal_layout [OF lb] legal_layout [OF ld]
      same_or_separate_rows [OF apart(1)] same_or_separate_rows [OF apart(2)]] by (simp add: sz_def)
  have "row_stripes ?row h (\<lambda>begin stop. f (a + elem_offset begin sa sz) sa
      (b + elem_offset begin sb sz) sb (d + elem_offset begin sd sz) sd w (stop - begin))"
    unfolding row_stripes_def using stripe by blast
  from parallel_rows [OF sched(1) rows this zero_less_one] sched(2)
  have "kleidicv_thread_binary_op_impl sz sz f mt a sa b sb d sd w h m
      = (KLEIDICV_OK, fold ?row [0..<h] m)"
    by (simp add: kleidicv_thread_binary_op_impl_def)
  also have "\<dots> = f a sa b sb d sd w h m"
    using elementwise_binary_rows [OF t size la lb ld apart] by (simp add: f_def sz_def)
  finally show ?thesis .
qed

end


text \<open>
  C16. Threaded saturating arithmetic and comparisons: for every scheduler the threaded call leaves the
  memory, and returns the error, of the single call, although each batch decides for itself whether
  its rows are continuous and where its vectors start. Pointers are in elements.
\<close>

theorem threaded_elementwise_one_call:
  fixes a b d :: nat and is_signed :: bool
  defines "sz \<equiv> sizeof TYPE('a::len)"
  defines "typed \<equiv> \<lambda>f (a :: nat) sa b sb d sd. f (a * sz) sa (b * sz) sb (d * sz) sd"
  assumes "scheduler mt max_tasks" and "max 1 h \<le> max_tasks"
    and "element_type TYPE('a)" and "w * h \<le> KLEIDICV_MAX_IMAGE_PIXELS"
    and "legal_image TYPE('a) w h (a * sz) sa" and "legal_image TYPE('a) w h (b * sz) sb"
    and "legal_image TYPE('a) w h (d * sz) sd"
    and "same_or_separate h (a * sz) sa (d * sz) sd" and "same_or_separate h (b * sz) sb (d * sz) sd"
    and op: "op \<in> {saturating_add is_signed TYPE('a), saturating_sub_neon is_signed TYPE('a),
      saturating_absdiff is_signed TYPE('a), saturating_multiply is_signed TYPE('a)}"
  shows "kleidicv_thread_binary_op_impl sz sz (typed op) mt a sa b sb d sd w h m
    = typed op a sa b sb d sd w h m"
  using op add_lanes.threaded_binary [where twice = True and once = False and m = m
      and is_signed = is_signed, OF assms(3-11) [unfolded sz_def]]
    sub_lanes.threaded_binary [where twice = True and once = False and m = m
      and is_signed = is_signed, OF assms(3-11) [unfolded sz_def]]
    absdiff_lanes.threaded_binary [where twice = True and once = False and m = m
      and is_signed = is_signed, OF assms(3-11) [unfolded sz_def]]
    multiply_lanes.threaded_binary [where twice = True and once = False and m = m
      and is_signed = is_signed, OF assms(3-11) [unfolded sz_def]]
  by (elim insertE emptyE)
    (simp_all add: typed_def sz_def saturating_add_def saturating_sub_neon_def saturating_absdiff_def
      saturating_multiply_def SaturatingAdd_def SaturatingSub_def SaturatingAbsDiff_def
      SaturatingMultiply_def)

theorem threaded_elementwise_one_call_witness:
  "kleidicv_thread_binary_op_impl 1 1 (\<lambda>a sa b sb d sd. saturating_add True TYPE(8) (a * 1) sa (b * 1) sb (d * 1) sd)
      (example_parallel 2) 16 4 32 4 48 4 2 2 (\<lambda>_. 100)
    = saturating_add True TYPE(8) (16 * 1) 4 (32 * 1) 4 (48 * 1) 4 2 2 (\<lambda>_. 100)"
  using threaded_elementwise_one_call [where 'a = 8 and a = 16 and b = 32 and d = 48 and h = 2
      and w = 2 and sa = 4 and sb = 4 and sd = 4 and is_signed = True and m = "\<lambda>_. 100"
      and op = "saturating_add True TYPE(8)", OF two_workers] legal_example
  by simp

end
