(* ===== verification/Block_Operation.thy ===== *)
theory Block_Operation
  imports Operation_Adapters
begin

text \<open>
  \<open>RowBasedBlockOperation\<close> of \<^verbatim>\<open>operations.h\<close>: operations with accumulators
  that hold a limited number of vectors are run in blocks, and told when a block has ended. Whether
  the loop over blocks ends depends on the operation, so it is a partial function.
\<close>

record 's block_operation = "'s vec_operation" +
  op_max_vectors_per_block :: nat
  op_on_block_finished :: "nat \<Rightarrow> 's \<Rightarrow> 's"

definition vectors_in_block :: "('s, 'o) block_operation_scheme \<Rightarrow> nat \<Rightarrow> nat \<Rightarrow> nat \<Rightarrow> nat" where
  "vectors_in_block op factor processed_length index =
     (let max_vectors = op_max_vectors_per_block op div factor * factor;
          remaining_vectors = (processed_length - index) div op_num_lanes op
      in min max_vectors remaining_vectors)"

text \<open>One block: the unrolled loop, which also counts down the length, and the notification.\<close>

definition process_block ::
    "('s, 'o) block_operation_scheme \<Rightarrow> nat \<Rightarrow> (Columns list \<Rightarrow> 's \<Rightarrow> 's) \<Rightarrow> nat
      \<Rightarrow> nat \<times> Columns list \<times> 's \<Rightarrow> nat \<times> Columns list \<times> 's" where
  "process_block op factor path vectors st =
     (case snd (unroll_n_times factor (\<lambda>step (len, st). (len - step, step_path path step st))
             (LoopUnroll (vectors * op_num_lanes op) (op_num_lanes op), st)) of
        (len, cols, s) \<Rightarrow> (len, cols, op_on_block_finished op vectors s))"

partial_function (option) block_loop ::
    "('s, 'o) block_operation_scheme \<Rightarrow> nat \<Rightarrow> (Columns list \<Rightarrow> 's \<Rightarrow> 's) \<Rightarrow> nat \<Rightarrow> nat
      \<Rightarrow> nat \<times> Columns list \<times> 's \<Rightarrow> (nat \<times> Columns list \<times> 's) option" where
  "block_loop op factor path processed_length index st =
     (if index < processed_length
      then block_loop op factor path processed_length
             (index + vectors_in_block op factor processed_length index * op_num_lanes op)
             (process_block op factor path (vectors_in_block op factor processed_length index) st)
      else Some st)"

definition process_blocks ::
    "('s, 'o) block_operation_scheme \<Rightarrow> nat \<Rightarrow> (Columns list \<Rightarrow> 's \<Rightarrow> 's)
      \<Rightarrow> nat \<times> Columns list \<times> 's \<Rightarrow> (nat \<times> Columns list \<times> 's) option" where
  "process_blocks op factor path st =
     (let elements_per_iteration = factor * op_num_lanes op;
          processed_length = fst st div elements_per_iteration * elements_per_iteration
      in block_loop op factor path processed_length 0 st)"

definition block_process_row ::
    "('s, 'o) block_operation_scheme \<Rightarrow> nat \<Rightarrow> Columns list \<Rightarrow> 's \<Rightarrow> 's option" where
  "block_process_row op len cols s =
     (case (if op_unrolled_twice op then process_blocks op 2 (op_vector_path_2x op) (len, cols, s)
            else Some (len, cols, s)) of
        None \<Rightarrow> None
      | Some st \<Rightarrow>
          (case (if op_unrolled_once op then process_blocks op 1 (op_vector_path op) st else Some st) of
             None \<Rightarrow> None
           | Some (len, cols, s) \<Rightarrow>
               Some (snd (snd (remaining (\<lambda>rem_length _ (cols, s). (cols, remaining_path op rem_length cols s))
                 (LoopUnroll len (op_num_lanes op), cols, s))))))"

definition apply_block_operation_by_rows ::
    "('s, 'o) block_operation_scheme \<Rightarrow> Rectangle \<Rightarrow> Rows list \<Rightarrow> 's \<Rightarrow> 's option" where
  "apply_block_operation_by_rows op rect rows s =
     zip_rows (\<lambda>len cols so. Option.bind so (block_process_row op len cols)) rect rows (Some s)"

section \<open>The loop over blocks ends\<close>

text \<open>A block of no vectors would be repeated for ever.\<close>

lemma block_loop_stuck:
  assumes "op_max_vectors_per_block op < factor" and "index < processed_length"
  shows "block_loop op factor path processed_length index st = None"
proof (rule ccontr)
  assume "block_loop op factor path processed_length index st \<noteq> None"
  then obtain r where "block_loop op factor path processed_length index st = Some r" by blast
  then have "\<not> (op_max_vectors_per_block op < factor \<and> index < processed_length)"
    by (rule block_loop.raw_induct [where P = "\<lambda>op factor path processed_length index st r.
          \<not> (op_max_vectors_per_block op < factor \<and> index < processed_length)", rotated])
      (simp add: vectors_in_block_def Let_def split: if_splits,
        metis add_0_right div_less min_0L mult_0)
  with assms show False by blast
qed

lemma block_loop_ends:
  assumes "0 < factor" and "factor \<le> op_max_vectors_per_block op" and "0 < op_num_lanes op"
    and "processed_length = index + k * (factor * op_num_lanes op)"
  shows "\<exists>r. block_loop op factor path processed_length index st = Some r"
  using assms(4)
proof (induction k arbitrary: index st rule: less_induct)
  case (less k)
  let ?n = "op_num_lanes op"
  let ?v = "vectors_in_block op factor processed_length index"
  show ?case
  proof (cases "k = 0")
    case True
    with less.prems show ?thesis by (cases st) (simp add: block_loop.simps)
  next
    case False
    define b where "b = min (op_max_vectors_per_block op div factor) k"
    have "(processed_length - index) div ?n = k * factor"
      using less.prems assms(3) by (simp add: mult.assoc [symmetric])
    then have v: "?v = b * factor"
      by (simp add: vectors_in_block_def b_def Let_def nat_mult_min_left)
    have "0 < b" using False assms(1,2) by (simp add: b_def div_greater_zero_iff)
    have "b \<le> k" by (simp add: b_def)
    have "processed_length = index + ?v * ?n + (k - b) * (factor * ?n)"
      using less.prems \<open>b \<le> k\<close> unfolding v
      by (simp add: add_mult_distrib [symmetric] mult.assoc [symmetric] add.assoc)
    from less.IH [OF _ this] \<open>0 < b\<close> False
    have "\<exists>r. block_loop op factor path processed_length (index + ?v * ?n)
        (process_block op factor path ?v st) = Some r" by simp
    moreover have "index < processed_length" using less.prems False assms(1,3) by simp
    ultimately show ?thesis by (subst block_loop.simps) simp
  qed
qed

text \<open>
  C22. The loop over blocks terminates exactly when there is nothing to process or one iteration of the
  unrolled loop fits into a block: an operation whose accumulators hold fewer vectors than one
  iteration processes would hang, every other one is run to the end.
\<close>

theorem process_blocks_terminates:
  assumes "0 < factor" and "0 < op_num_lanes op"
  shows "process_blocks op factor path (len, cols, s) \<noteq> None \<longleftrightarrow>
    len < factor * op_num_lanes op \<or> factor \<le> op_max_vectors_per_block op"
proof (cases "factor \<le> op_max_vectors_per_block op")
  case True
  from block_loop_ends [OF assms(1) True assms(2), of _ 0 "len div (factor * op_num_lanes op)"] True
  show ?thesis by (auto simp: process_blocks_def Let_def)
next
  case False
  let ?n = "factor * op_num_lanes op"
  show ?thesis
  proof (cases "len < ?n")
    case True
    then show ?thesis by (simp add: process_blocks_def Let_def block_loop.simps)
  next
    case long: False
    then have "0 < len div ?n * ?n" using assms by (simp add: div_greater_zero_iff)
    from block_loop_stuck [where op = op and factor = factor, OF _ this] False long show ?thesis
      by (simp add: process_blocks_def Let_def not_le)
  qed
qed


theorem process_blocks_terminates_witness:
  "process_blocks \<lparr>op_num_lanes = 16, op_unrolled_twice = True, op_unrolled_once = False,
      op_avoids_tail = False, op_vector_path_2x = \<lambda>_ s. s, op_vector_path = \<lambda>_ s. s,
      op_scalar_path = \<lambda>_ s. s, op_max_vectors_per_block = 1, op_on_block_finished = \<lambda>_ s. s\<rparr>
    2 (\<lambda>_ s. s) (40, [], 0 :: nat) = None"
  using process_blocks_terminates [of 2 "\<lparr>op_num_lanes = 16, op_unrolled_twice = True,
      op_unrolled_once = False, op_avoids_tail = False, op_vector_path_2x = \<lambda>_ s. s,
      op_vector_path = \<lambda>_ s. s, op_scalar_path = \<lambda>_ s. s, op_max_vectors_per_block = 1,
      op_on_block_finished = \<lambda>_ s. s\<rparr>" "\<lambda>_ s. s" 40 "[]" "0 :: nat"]
  by (simp del: not_None_eq)

section \<open>Simulation of a pixel loop\<close>

text \<open>The relation knows how many vectors the current block holds.\<close>

locale block_simulation =
  fixes op :: "('s, 'o) block_operation_scheme"
    and work :: "Columns list \<Rightarrow> 't \<Rightarrow> 't"
    and R :: "nat \<Rightarrow> 's \<Rightarrow> 't \<Rightarrow> bool"
    and ok :: "nat \<Rightarrow> Columns list \<Rightarrow> bool"
  assumes lanes_pos: "ok n cols \<Longrightarrow> 0 < op_num_lanes op"
    and ok_part: "ok n cols \<Longrightarrow> k + m \<le> n \<Longrightarrow> ok m (map (step_column k) cols)"
    and block_size: "2 \<le> op_max_vectors_per_block op"
    and vector_run: "op_unrolled_once op \<Longrightarrow> v < op_max_vectors_per_block op \<Longrightarrow>
      ok (op_num_lanes op) cols \<Longrightarrow> R v s t \<Longrightarrow>
      R (v + 1) (op_vector_path op cols s) (columns_loop work (op_num_lanes op) cols t)"
    and vector_2x_run: "op_unrolled_twice op \<Longrightarrow> v + 2 \<le> op_max_vectors_per_block op \<Longrightarrow>
      ok (2 * op_num_lanes op) cols \<Longrightarrow> R v s t \<Longrightarrow>
      R (v + 2) (op_vector_path_2x op cols s) (columns_loop work (2 * op_num_lanes op) cols t)"
    and finished: "v \<le> op_max_vectors_per_block op \<Longrightarrow> R v s t \<Longrightarrow> R 0 (op_on_block_finished op v s) t"
    and scalar_run: "ok 1 cols \<Longrightarrow> R 0 s t \<Longrightarrow> R 0 (op_scalar_path op cols s) (work cols t)"
begin

definition unrolled_path :: "nat \<Rightarrow> (Columns list \<Rightarrow> 's \<Rightarrow> 's) \<Rightarrow> bool" where
  "unrolled_path f path \<longleftrightarrow> 0 < f \<and> f \<le> op_max_vectors_per_block op
     \<and> (\<forall>v cs s t. v + f \<le> op_max_vectors_per_block op \<longrightarrow> ok (f * op_num_lanes op) cs \<longrightarrow> R v s t \<longrightarrow>
          R (v + f) (path cs s) (columns_loop work (f * op_num_lanes op) cs t))"

text \<open>The state after the first \<open>p\<close> pixels, \<open>v\<close> vectors into a block.\<close>

definition at_block :: "nat \<Rightarrow> Columns list \<Rightarrow> 't \<Rightarrow> nat \<Rightarrow> nat \<Rightarrow> nat \<times> Columns list \<times> 's \<Rightarrow> bool" where
  "at_block len cols t p v st \<longleftrightarrow> p \<le> len
     \<and> (case st of (l, cs, s) \<Rightarrow> l = len - p \<and> cs = map (step_column p) cols
          \<and> R v s (columns_loop work p cols t))"

lemma block_iterations:
  assumes path: "unrolled_path f path" and ok: "ok len cols"
    and "at_block len cols t p 0 st"
    and "p + b * (f * op_num_lanes op) \<le> len" and "b * f \<le> op_max_vectors_per_block op"
  shows "at_block len cols t (p + b * (f * op_num_lanes op)) (b * f)
    (fold (\<lambda>_ (len, st). (len - f * op_num_lanes op, step_path path (f * op_num_lanes op) st)) [0..<b] st)"
  using assms(4,5)
proof (induction b)
  case 0
  then show ?case using assms(3) by simp
next
  case (Suc b)
  let ?n = "f * op_num_lanes op"
  let ?st = "fold (\<lambda>_ (len, st). (len - ?n, step_path path ?n st)) [0..<b] st"
  let ?p = "p + b * ?n"
  have "at_block len cols t ?p (b * f) ?st" using Suc by simp
  then obtain s where st: "?st = (len - ?p, map (step_column ?p) cols, s)"
    and R: "R (b * f) s (columns_loop work ?p cols t)"
    by (cases ?st) (auto simp: at_block_def)
  have "ok ?n (map (step_column ?p) cols)" using Suc.prems by (intro ok_part [OF ok]) simp
  moreover have "b * f + f \<le> op_max_vectors_per_block op" using Suc.prems(2) by simp
  ultimately have "R (b * f + f) (path (map (step_column ?p) cols) s)
      (columns_loop work ?n (map (step_column ?p) cols) (columns_loop work ?p cols t))"
    using path R unfolding unrolled_path_def by blast
  moreover have "columns_add (int ?n) = step_column ?n" by (rule ext) (rule columns_add_step)
  then have "(case ?st of (len, st) \<Rightarrow> (len - ?n, step_path path ?n st))
      = (len - ?p - ?n, map (step_column (?p + ?n)) cols, path (map (step_column ?p) cols) s)"
    unfolding st by (simp add: step_path_def comp_def del: of_nat_mult)
  ultimately show ?case
    using Suc.prems unfolding columns_loop_append
    by (simp add: at_block_def add.commute add.left_commute)
qed

lemma one_block:
  assumes path: "unrolled_path f path" and ok: "ok len cols" and "at_block len cols t p 0 st"
    and "p + b * (f * op_num_lanes op) \<le> len" and "b * f \<le> op_max_vectors_per_block op"
  shows "at_block len cols t (p + b * (f * op_num_lanes op)) 0 (process_block op f path (b * f) st)"
proof -
  let ?n = "f * op_num_lanes op"
  let ?st = "fold (\<lambda>_ (len, st). (len - ?n, step_path path ?n st)) [0..<b] st"
  have "0 < ?n" using path lanes_pos [OF ok] by (simp add: unrolled_path_def)
  then have "b * f * op_num_lanes op div ?n = b" by (simp add: mult.assoc)
  then have "process_block op f path (b * f) st
      = (case ?st of (len, cs, s) \<Rightarrow> (len, cs, op_on_block_finished op (b * f) s))"
    by (simp add: process_block_def unroll_n_times_def LoopUnroll_def Let_def)
  with block_iterations [OF assms] finished [OF assms(5)] show ?thesis
    by (auto simp: at_block_def split: prod.splits)
qed

lemma block_loop_simulates:
  assumes path: "unrolled_path f path" and ok: "ok len cols"
    and "at_block len cols t (p0 + index) 0 st"
    and "processed = index + k * (f * op_num_lanes op)" and "p0 + processed \<le> len"
  shows "\<exists>st'. block_loop op f path processed index st = Some st'
    \<and> at_block len cols t (p0 + processed) 0 st'"
  using assms(3-5)
proof (induction k arbitrary: index st rule: less_induct)
  case (less k)
  let ?n = "op_num_lanes op"
  let ?v = "vectors_in_block op f processed index"
  have f: "0 < f" "f \<le> op_max_vectors_per_block op" using path by (simp_all add: unrolled_path_def)
  have n: "0 < ?n" using lanes_pos [OF ok] .
  show ?case
  proof (cases "k = 0")
    case True
    with less.prems show ?thesis by (cases st) (simp add: block_loop.simps)
  next
    case False
    define b where "b = min (op_max_vectors_per_block op div f) k"
    have "(processed - index) div ?n = k * f"
      using less.prems n by (simp add: mult.assoc [symmetric])
    then have v: "?v = b * f"
      by (simp add: vectors_in_block_def b_def Let_def nat_mult_min_left)
    have "0 < b" using False f by (simp add: b_def div_greater_zero_iff)
    have "b \<le> k" by (simp add: b_def)
    have "b * f \<le> op_max_vectors_per_block op div f * f" by (simp add: b_def)
    also have "\<dots> \<le> op_max_vectors_per_block op" by (rule div_times_less_eq_dividend)
    finally have max: "b * f \<le> op_max_vectors_per_block op" .
    have rest: "processed = index + b * (f * ?n) + (k - b) * (f * ?n)"
      using less.prems(2) \<open>b \<le> k\<close>
      by (simp add: add_mult_distrib [symmetric] add.assoc)
    with less.prems(3) have "p0 + index + b * (f * ?n) \<le> len" by linarith
    from one_block [OF path ok less.prems(1) this max]
    have at: "at_block len cols t (p0 + (index + b * (f * ?n))) 0 (process_block op f path (b * f) st)"
      by (simp add: add.assoc)
    have "k - b < k" using \<open>0 < b\<close> False by simp
    from less.IH [OF this at rest less.prems(3)]
    have "\<exists>st'. block_loop op f path processed (index + b * (f * ?n)) (process_block op f path (b * f) st)
        = Some st' \<and> at_block len cols t (p0 + processed) 0 st'" .
    moreover have "index < processed" using less.prems(2) False f n by simp
    ultimately show ?thesis by (subst block_loop.simps) (simp add: v mult.assoc)
  qed
qed

lemma process_blocks_simulates:
  assumes path: "unrolled_path f path" and ok: "ok len cols" and at: "at_block len cols t p 0 st"
  shows "\<exists>st' q. process_blocks op f path st = Some st' \<and> at_block len cols t q 0 st'"
proof -
  let ?n = "f * op_num_lanes op"
  let ?k = "fst st div ?n"
  from at have p: "fst st = len - p" "p \<le> len" by (auto simp: at_block_def split: prod.splits)
  have "?k * ?n \<le> fst st" by (rule div_times_less_eq_dividend)
  with p have "p + ?k * ?n \<le> len" by linarith
  with block_loop_simulates [OF path ok, of t p 0 st "?k * ?n" ?k] at
  show ?thesis unfolding process_blocks_def Let_def by auto
qed

lemma block_process_row_simulates:
  assumes ok: "ok len cols" and R: "R 0 s t"
  shows "\<exists>s'. block_process_row op len cols s = Some s' \<and> R 0 s' (columns_loop work len cols t)"
proof -
  have start: "at_block len cols t 0 0 (len, cols, s)"
    using R by (simp add: at_block_def columns_loop_def)
  have paths: "op_unrolled_twice op \<Longrightarrow> unrolled_path 2 (op_vector_path_2x op)"
    "op_unrolled_once op \<Longrightarrow> unrolled_path 1 (op_vector_path op)"
    using vector_2x_run vector_run block_size by (simp_all add: unrolled_path_def)
  obtain st p where twice: "(if op_unrolled_twice op
      then process_blocks op 2 (op_vector_path_2x op) (len, cols, s) else Some (len, cols, s)) = Some st"
    and at: "at_block len cols t p 0 st"
    using process_blocks_simulates [OF paths(1) ok start] start by (cases "op_unrolled_twice op") auto
  obtain st' q where once: "(if op_unrolled_once op
      then process_blocks op 1 (op_vector_path op) st else Some st) = Some st'"
    and at': "at_block len cols t q 0 st'"
    using process_blocks_simulates [OF paths(2) ok at] at by (cases "op_unrolled_once op") auto
  obtain cs s' where st': "st' = (len - q, cs, s')" by (cases st') (use at' in \<open>auto simp: at_block_def\<close>)
  from at' have q: "q \<le> len" "cs = map (step_column q) cols" "R 0 s' (columns_loop work q cols t)"
    by (simp_all add: at_block_def st')
  have "R 0 (fold (\<lambda>k. op_scalar_path op (map (step_column k) cs)) [0..<m] s')
      (columns_loop work (q + m) cols t)" if "m \<le> len - q" for m
    using that
  proof (induction m)
    case 0
    then show ?case using q(3) by simp
  next
    case (Suc m)
    have "ok 1 (map (step_column (q + m)) cols)"
      using Suc.prems q(1) by (intro ok_part [OF ok]) simp
    from scalar_run [OF this] Suc show ?case by (simp add: q(2) comp_def columns_loop_def)
  qed
  from this [of "len - q"] q(1)
  have "R 0 (remaining_path op (len - q) cs s') (columns_loop work len cols t)"
    by (simp add: remaining_path_def columns_at_step)
  moreover have "R 0 s' (columns_loop work len cols t)" if "len - q = 0" using q that by simp
  ultimately show ?thesis
    unfolding block_process_row_def twice option.case once
    by (simp add: st' LoopUnroll_def remaining_def)
qed

end

sublocale block_simulation \<subseteq> run_simulation
  "\<lambda>len cols so. Option.bind so (block_process_row op len cols)" work
  "\<lambda>so t. \<exists>s. so = Some s \<and> R 0 s t" ok
  by unfold_locales (use block_process_row_simulates in fastforce)

end
