(* ===== verification/Min_Max.thy ===== *)
theory Min_Max
  imports Elementwise_Ops
begin

text \<open>
  Minimum and maximum of an image (\<^verbatim>\<open>analysis/min_max_neon.cpp\<close>): the operation
  keeps the extremes lane by lane and reduces the lanes at the end. The output pointers are flags
  for non-null pointers, the results what is written through them.
\<close>

section \<open>Lane-wise extremes and horizontal reductions\<close>

definition lane_min :: "bool \<Rightarrow> 'a::len word \<Rightarrow> 'a word \<Rightarrow> 'a word" where
  "lane_min is_signed a b = (if lane_value is_signed b < lane_value is_signed a then b else a)"

definition lane_max :: "bool \<Rightarrow> 'a::len word \<Rightarrow> 'a word \<Rightarrow> 'a word" where
  "lane_max is_signed a b = (if lane_value is_signed a < lane_value is_signed b then b else a)"

definition vminq :: "bool \<Rightarrow> 'a::len word list \<Rightarrow> 'a word list \<Rightarrow> 'a word list" where
  "vminq is_signed = map2 (lane_min is_signed)"

definition vmaxq :: "bool \<Rightarrow> 'a::len word list \<Rightarrow> 'a word list \<Rightarrow> 'a word list" where
  "vmaxq is_signed = map2 (lane_max is_signed)"

definition vminvq :: "bool \<Rightarrow> 'a::len word list \<Rightarrow> 'a word" where
  "vminvq is_signed v = fold (lane_min is_signed) (tl v) (hd v)"

definition vmaxvq :: "bool \<Rightarrow> 'a::len word list \<Rightarrow> 'a word" where
  "vmaxvq is_signed v = fold (lane_max is_signed) (tl v) (hd v)"

lemma lane_min_value [simp]:
  "lane_value is_signed (lane_min is_signed a b) = min (lane_value is_signed a) (lane_value is_signed b)"
  by (simp add: lane_min_def min_def)

lemma lane_max_value [simp]:
  "lane_value is_signed (lane_max is_signed a b) = max (lane_value is_signed a) (lane_value is_signed b)"
  by (simp add: lane_max_def max_def)

lemma vminq_length [simp]: "length (vminq s v w) = min (length v) (length w)"
  by (simp add: vminq_def)

lemma vmaxq_length [simp]: "length (vmaxq s v w) = min (length v) (length w)"
  by (simp add: vmaxq_def)

text \<open>The smallest and the largest value of a list of elements, starting from a bound.\<close>

definition list_min :: "bool \<Rightarrow> 'a::len word list \<Rightarrow> int \<Rightarrow> int" where
  "list_min is_signed = fold (\<lambda>x t. min t (lane_value is_signed x))"

definition list_max :: "bool \<Rightarrow> 'a::len word list \<Rightarrow> int \<Rightarrow> int" where
  "list_max is_signed = fold (\<lambda>x t. max t (lane_value is_signed x))"

lemma list_min_simps [simp]:
  "list_min s [] t = t" "list_min s (x # v) t = list_min s v (min t (lane_value s x))"
  by (simp_all add: list_min_def)

lemma list_max_simps [simp]:
  "list_max s [] t = t" "list_max s (x # v) t = list_max s v (max t (lane_value s x))"
  by (simp_all add: list_max_def)

lemma list_min_start: "list_min s v (min t u) = min t (list_min s v u)"
  by (induction v arbitrary: u) (simp_all add: min.assoc)

lemma list_max_start: "list_max s v (max t u) = max t (list_max s v u)"
  by (induction v arbitrary: u) (simp_all add: max.assoc)

lemma list_min_end: "list_min s v (min t u) = min (list_min s v t) u"
  using list_min_start [of s v u t] by (simp add: min.commute)

lemma list_max_end: "list_max s v (max t u) = max (list_max s v t) u"
  using list_max_start [of s v u t] by (simp add: max.commute)

lemma list_min_vminq: "length v = length w \<Longrightarrow> list_min s (vminq s v w) t = list_min s w (list_min s v t)"
proof (induction v w arbitrary: t rule: list_induct2)
  case (Cons x v y w)
  have "list_min s (vminq s (x # v) (y # w)) t
      = list_min s (vminq s v w) (min (lane_value s y) (min t (lane_value s x)))"
    by (simp add: vminq_def min.commute min.left_commute)
  also have "\<dots> = list_min s w (min (lane_value s y) (list_min s v (min t (lane_value s x))))"
    by (simp only: Cons.IH list_min_start)
  finally show ?case by (simp add: min.commute)
qed (simp add: vminq_def)

lemma list_max_vmaxq: "length v = length w \<Longrightarrow> list_max s (vmaxq s v w) t = list_max s w (list_max s v t)"
proof (induction v w arbitrary: t rule: list_induct2)
  case (Cons x v y w)
  have "list_max s (vmaxq s (x # v) (y # w)) t
      = list_max s (vmaxq s v w) (max (lane_value s y) (max t (lane_value s x)))"
    by (simp add: vmaxq_def max.commute max.left_commute)
  also have "\<dots> = list_max s w (max (lane_value s y) (list_max s v (max t (lane_value s x))))"
    by (simp only: Cons.IH list_max_start)
  finally show ?case by (simp add: max.commute)
qed (simp add: vmaxq_def)

lemma fold_lane_min: "lane_value s (fold (lane_min s) v x) = list_min s v (lane_value s x)"
  by (induction v arbitrary: x) (simp_all add: min.commute)

lemma fold_lane_max: "lane_value s (fold (lane_max s) v x) = list_max s v (lane_value s x)"
  by (induction v arbitrary: x) (simp_all add: max.commute)

lemma vminvq_value: "v \<noteq> [] \<Longrightarrow> min t (lane_value s (vminvq s v)) = list_min s v t"
  by (cases v) (simp_all add: vminvq_def fold_lane_min list_min_start)

lemma vmaxvq_value: "v \<noteq> [] \<Longrightarrow> max t (lane_value s (vmaxvq s v)) = list_max s v t"
  by (cases v) (simp_all add: vmaxvq_def fold_lane_max list_max_start)

lemma list_min_replicate: "lane_value s x = t \<Longrightarrow> list_min s (replicate n x) t = t"
  by (induction n) simp_all

lemma list_max_replicate: "lane_value s x = t \<Longrightarrow> list_max s (replicate n x) t = t"
  by (induction n) simp_all

lemma list_min_Min: "v \<noteq> [] \<Longrightarrow> \<forall>x \<in> set v. lane_value s x \<le> t \<Longrightarrow>
  list_min s v t = Min (lane_value s ` set v)"
proof (induction v arbitrary: t)
  case (Cons x v)
  show ?case
  proof (cases "v = []")
    case False
    have "list_min s (x # v) t = min (lane_value s x) (list_min s v t)"
      by (simp add: list_min_start [symmetric] min.commute)
    with False Cons show ?thesis by simp
  qed (use Cons.prems in \<open>simp add: min.absorb2\<close>)
qed simp

lemma list_max_Max: "v \<noteq> [] \<Longrightarrow> \<forall>x \<in> set v. t \<le> lane_value s x \<Longrightarrow>
  list_max s v t = Max (lane_value s ` set v)"
proof (induction v arbitrary: t)
  case (Cons x v)
  show ?case
  proof (cases "v = []")
    case False
    have "list_max s (x # v) t = max (lane_value s x) (list_max s v t)"
      by (simp add: list_max_start [symmetric] max.commute)
    with False Cons show ?thesis by simp
  qed (use Cons.prems in \<open>simp add: max.absorb2\<close>)
qed simp

section \<open>The operation\<close>

record 'v MinMax =
  mm_vmin :: "'v list"
  mm_vmax :: "'v list"
  mm_min :: 'v
  mm_max :: 'v

definition MinMax_init :: "bool \<Rightarrow> 'a::len word MinMax" where
  "MinMax_init is_signed =
     \<lparr>mm_vmin = vdupq_n (max_lane is_signed), mm_vmax = vdupq_n (lowest_lane is_signed),
      mm_min = max_lane is_signed, mm_max = lowest_lane is_signed\<rparr>"

definition min_max_vector_path :: "bool \<Rightarrow> 'a::len word list \<Rightarrow> 'a word MinMax \<Rightarrow> 'a word MinMax" where
  "min_max_vector_path is_signed src s =
     s\<lparr>mm_vmin := vminq is_signed (mm_vmin s) src, mm_vmax := vmaxq is_signed (mm_vmax s) src\<rparr>"

text \<open>\<^verbatim>\<open>std::min\<close> and \<^verbatim>\<open>std::max\<close> keep their first argument on a tie.\<close>

definition min_max_scalar_path :: "bool \<Rightarrow> 'a::len word \<Rightarrow> 'a word MinMax \<Rightarrow> 'a word MinMax" where
  "min_max_scalar_path is_signed src s =
     s\<lparr>mm_min := lane_min is_signed (mm_min s) src, mm_max := lane_max is_signed (mm_max s) src\<rparr>"

definition get_min :: "bool \<Rightarrow> 'a::len word MinMax \<Rightarrow> 'a word" where
  "get_min is_signed s = lane_min is_signed (mm_min s) (vminvq is_signed (mm_vmin s))"

definition get_max :: "bool \<Rightarrow> 'a::len word MinMax \<Rightarrow> 'a word" where
  "get_max is_signed s = lane_max is_signed (mm_max s) (vmaxvq is_signed (mm_vmax s))"

definition min_max ::
    "bool \<Rightarrow> 'a::len itself \<Rightarrow> mem \<Rightarrow> nat \<Rightarrow> nat \<Rightarrow> nat \<Rightarrow> nat \<Rightarrow> bool \<Rightarrow> bool
      \<Rightarrow> kleidicv_error_t \<times> 'a word option \<times> 'a word option" where
  "min_max is_signed t m src src_stride w h min_value max_value =
     (let err = checks [check_pointer_and_stride (sizeof TYPE('a)) src src_stride h, check_image_size w h]
      in if err \<noteq> KLEIDICV_OK then (err, None, None)
         else if w = 0 \<or> h = 0 then (KLEIDICV_ERROR_RANGE, None, None)
         else
           (let op = apply_operation_by_rows
                (sink_operation m True False (min_max_vector_path is_signed) (min_max_scalar_path is_signed))
                \<lparr>rectangle_width = w, rectangle_height = h\<rparr>
                [single_channel_rows (sizeof TYPE('a)) src src_stride] (MinMax_init is_signed :: 'a word MinMax)
            in (KLEIDICV_OK, if min_value then Some (get_min is_signed op) else None,
                if max_value then Some (get_max is_signed op) else None)))"

text \<open>The extremes so far are those of the scalar fields and of the lanes together.\<close>

definition min_max_sees :: "bool \<Rightarrow> 'a::len word MinMax \<Rightarrow> int \<times> int \<Rightarrow> bool" where
  "min_max_sees is_signed s t \<longleftrightarrow>
     length (mm_vmin s) = num_lanes_of TYPE('a) \<and> length (mm_vmax s) = num_lanes_of TYPE('a)
     \<and> list_min is_signed (mm_vmin s) (lane_value is_signed (mm_min s)) = fst t
     \<and> list_max is_signed (mm_vmax s) (lane_value is_signed (mm_max s)) = snd t"

definition min_max_collect :: "bool \<Rightarrow> 'a::len word \<Rightarrow> int \<times> int \<Rightarrow> int \<times> int" where
  "min_max_collect is_signed x t =
     (min (fst t) (lane_value is_signed x), max (snd t) (lane_value is_signed x))"

lemma fold_min_max_collect:
  "fold (min_max_collect s) v t = (list_min s v (fst t), list_max s v (snd t))"
  by (induction v arbitrary: t) (simp_all add: min_max_collect_def)

interpretation min_max_lanes: sink_lanes "min_max_vector_path is_signed"
  "min_max_scalar_path is_signed" "min_max_collect is_signed" "min_max_sees is_signed"
proof unfold_locales
  fix v :: "'a::len word list" and s :: "'a word MinMax" and t x
  assume sees: "min_max_sees is_signed s t"
  show "min_max_sees is_signed (min_max_scalar_path is_signed x s) (min_max_collect is_signed x t)"
    using sees
    by (simp add: min_max_sees_def min_max_scalar_path_def min_max_collect_def list_min_end list_max_end)
  assume "length v = num_lanes_of TYPE('a)"
  with sees show "min_max_sees is_signed (min_max_vector_path is_signed v s)
      (fold (min_max_collect is_signed) v t)"
    by (simp add: min_max_sees_def min_max_vector_path_def fold_min_max_collect list_min_vminq
        list_max_vmaxq)
qed


section \<open>The image\<close>

text \<open>The values of the elements of an image.\<close>

definition image_values :: "bool \<Rightarrow> 'a::len itself \<Rightarrow> nat \<Rightarrow> nat \<Rightarrow> nat \<Rightarrow> nat \<Rightarrow> mem \<Rightarrow> int set" where
  "image_values is_signed t src src_stride w h m =
     {lane_value is_signed (element_in TYPE('a) src src_stride i j m) | i j. i < h \<and> j < w}"

lemma image_values_grid:
  "image_values is_signed TYPE('a::len) src src_stride w h m
    = (\<lambda>(i, j). lane_value is_signed (element_in TYPE('a) src src_stride i j m)) ` ({..<h} \<times> {..<w})"
  by (auto simp: image_values_def)

lemma image_elements_values:
  assumes "0 < w"
  shows "lane_value s ` set (image_elements (single_channel_rows (sizeof TYPE('a::len)) src ss) w h m :: 'a word list)
    = image_values s TYPE('a) src ss w h m"
proof -
  have "(\<lambda>k. (k div w, k mod w)) ` {0..<h * w} = {..<h} \<times> {..<w}"
  proof (intro equalityI subsetI)
    fix p
    assume "p \<in> {..<h} \<times> {..<w}"
    then obtain i j where p: "p = (i, j)" "i < h" "j < w" by auto
    then have "Suc i * w \<le> h * w" by (intro mult_le_mono1) simp
    with p have "i * w + j \<in> {0..<h * w}" "p = ((i * w + j) div w, (i * w + j) mod w)" by simp_all
    then show "p \<in> (\<lambda>k. (k div w, k mod w)) ` {0..<h * w}" by blast
  qed (use assms in \<open>auto simp: div_less_iff_less_mult\<close>)
  then have "(\<lambda>(i, j). element_in TYPE('a) src ss i j m) ` ({..<h} \<times> {..<w})
      = (\<lambda>k. element_in TYPE('a) src ss (k div w) (k mod w) m) ` {0..<h * w}"
    by (metis (no_types, lifting) image_cong image_image split_conv)
  then have "set (image_elements (single_channel_rows (sizeof TYPE('a)) src ss) w h m)
      = (\<lambda>(i, j). element_in TYPE('a) src ss i j m) ` ({..<h} \<times> {..<w})"
    by (simp add: image_elements_def pixel_address_rows)
  then show ?thesis by (auto simp: image_values_def image_iff)
qed

lemma image_elements_length [simp]: "length (image_elements src w h m) = h * w"
  by (simp add: image_elements_def)

text \<open>The operation after the whole image.\<close>

lemma min_max_result:
  assumes "element_type TYPE('a::len)" and "w * h \<le> KLEIDICV_MAX_IMAGE_PIXELS" and "0 < w" and "0 < h"
    and a: "legal_image TYPE('a) w h src src_stride"
  shows "\<exists>mn mx. min_max is_signed TYPE('a) m src src_stride w h p_min p_max
      = (KLEIDICV_OK, if p_min then Some mn else None, if p_max then Some mx else None)
    \<and> lane_value is_signed mn = list_min is_signed (image_elements (single_channel_rows (sizeof TYPE('a)) src src_stride) w h m :: 'a word list) (type_max is_signed TYPE('a))
    \<and> lane_value is_signed mx = list_max is_signed (image_elements (single_channel_rows (sizeof TYPE('a)) src src_stride) w h m :: 'a word list) (type_lowest is_signed TYPE('a))"
proof -
  let ?img = "image_elements (single_channel_rows (sizeof TYPE('a)) src src_stride) w h m :: 'a word list"
  let ?op = "apply_operation_by_rows
    (sink_operation m True False (min_max_vector_path is_signed) (min_max_scalar_path is_signed))
    \<lparr>rectangle_width = w, rectangle_height = h\<rparr> [single_channel_rows (sizeof TYPE('a)) src src_stride]
    (MinMax_init is_signed :: 'a word MinMax)"
  let ?lo = "type_lowest is_signed TYPE('a)" and ?hi = "type_max is_signed TYPE('a)"
  have top: "lane_value is_signed (max_lane is_signed :: 'a word) = ?hi"
    "lane_value is_signed (lowest_lane is_signed :: 'a word) = ?lo"
    using type_lowest_le_max [of is_signed, where 'a = 'a]
    by (simp_all add: max_lane_def lowest_lane_def lane_value_of_int)
  have "min_max_sees is_signed (MinMax_init is_signed :: 'a word MinMax) (?hi, ?lo)"
    by (simp add: min_max_sees_def MinMax_init_def vdupq_n_def list_min_replicate list_max_replicate top)
  from min_max_lanes.sink_image [OF assms(1) pixels_fit [OF assms(2)] legal_layout [OF a] this]
  have sees: "min_max_sees is_signed ?op (list_min is_signed ?img ?hi, list_max is_signed ?img ?lo)"
    by (simp add: fold_min_max_collect)
  have "mm_vmin ?op \<noteq> []" "mm_vmax ?op \<noteq> []"
    using sees element_type_lanes [OF assms(1)] by (auto simp: min_max_sees_def)
  with sees have "lane_value is_signed (get_min is_signed ?op) = list_min is_signed ?img ?hi"
    "lane_value is_signed (get_max is_signed ?op) = list_max is_signed ?img ?lo"
    by (simp_all add: min_max_sees_def get_min_def get_max_def vminvq_value vmaxvq_value)
  then show ?thesis
    using legal_checks [OF assms(1) a] assms(2-4)
    by - (rule exI [of _ "get_min is_signed ?op"], rule exI [of _ "get_max is_signed ?op"],
      simp add: min_max_def checks_OK check_image_size_OK Let_def)
qed

text \<open>
  C19. Minimum and maximum: for a legal image that is not empty the call succeeds and writes the smallest and
  the largest element of the image, of signed and unsigned elements of every width, whether the
  rows are continuous or not; an empty image is a range error and nothing is written.
\<close>

theorem min_max_image:
  assumes "element_type TYPE('a::len)" and "w * h \<le> KLEIDICV_MAX_IMAGE_PIXELS"
    and "legal_image TYPE('a) w h src src_stride"
  shows "if w = 0 \<or> h = 0
    then min_max is_signed TYPE('a) m src src_stride w h p_min p_max = (KLEIDICV_ERROR_RANGE, None, None)
    else \<exists>mn mx. min_max is_signed TYPE('a) m src src_stride w h p_min p_max
        = (KLEIDICV_OK, if p_min then Some mn else None, if p_max then Some mx else None)
      \<and> lane_value is_signed mn = Min (image_values is_signed TYPE('a) src src_stride w h m)
      \<and> lane_value is_signed mx = Max (image_values is_signed TYPE('a) src src_stride w h m)"
proof (cases "w = 0 \<or> h = 0")
  case True
  then show ?thesis
    using legal_checks [OF assms(1,3)] assms(2) by (auto simp: min_max_def checks_OK check_image_size_OK)
next
  case False
  let ?img = "image_elements (single_channel_rows (sizeof TYPE('a)) src src_stride) w h m :: 'a word list"
  have "?img \<noteq> []" using False by (simp add: image_elements_def)
  then have "list_min is_signed ?img (type_max is_signed TYPE('a))
      = Min (image_values is_signed TYPE('a) src src_stride w h m)"
    "list_max is_signed ?img (type_lowest is_signed TYPE('a))
      = Max (image_values is_signed TYPE('a) src src_stride w h m)"
    using False by (simp_all add: list_min_Min list_max_Max lane_value_bounds image_elements_values)
  with min_max_result [OF assms(1,2) _ _ assms(3), of is_signed m p_min p_max] False
  show ?thesis by simp
qed

theorem min_max_image_witness:
  "\<exists>mn mx. min_max True TYPE(8) (\<lambda>a. of_nat a) 126 2 2 2 True True = (KLEIDICV_OK, Some mn, Some mx)
    \<and> sint mn = - 128 \<and> sint mx = (127 :: int)"
proof -
  have legal: "legal_image TYPE(8) 2 2 126 2"
    by (simp add: legal_image_def nullptr_def size_max_def)
  have "image_values True TYPE(8) 126 2 2 2 (\<lambda>a. of_nat a) = {126, 127, - 128, - 127}"
    by (simp add: image_values_grid element_in_def lane_value_def lessThan_nat_numeral
        lessThan_Suc insert_Times_insert insert_commute)
  then show ?thesis
    using min_max_image [OF _ _ legal, of True "\<lambda>a. of_nat a" True True]
    by (simp add: element_type_def KLEIDICV_MAX_IMAGE_PIXELS_def lane_value_def)
qed

end
