(* ===== verification/Block_Sinks.thy ===== *)
theory Block_Sinks
  imports Block_Operation Min_Max
begin

text \<open>
  Operations with a source only that run in blocks: the adapter of \<^verbatim>\<open>operations.h\<close>
  around an operation with \<open>max_vectors_per_block\<close> and \<open>on_block_finished\<close>, and
  the result of such an operation on an image.
\<close>

definition block_sink_operation ::
    "mem \<Rightarrow> ('a::len word list \<Rightarrow> 'o \<Rightarrow> 'o) \<Rightarrow> ('a word \<Rightarrow> 'o \<Rightarrow> 'o) \<Rightarrow> nat \<Rightarrow> (nat \<Rightarrow> 'o \<Rightarrow> 'o)
      \<Rightarrow> 'o block_operation" where
  "block_sink_operation m vector_path scalar_path max_vectors finished =
     vec_operation.extend (sink_operation m True False vector_path scalar_path)
       \<lparr>op_max_vectors_per_block = max_vectors, op_on_block_finished = finished\<rparr>"

lemma block_sink_sel [simp]:
  "op_num_lanes (block_sink_operation m vp (sp :: 'a::len word \<Rightarrow> _) n f) = num_lanes_of TYPE('a)"
  "op_unrolled_once (block_sink_operation m vp sp n f) = False"
  "op_vector_path_2x (block_sink_operation m vp sp n f) = sink_vector_path_2x m vp"
  "op_scalar_path (block_sink_operation m vp sp n f) = sink_scalar_path m sp"
  "op_max_vectors_per_block (block_sink_operation m vp sp n f) = n"
  "op_on_block_finished (block_sink_operation m vp sp n f) = f"
  by (simp_all add: block_sink_operation_def sink_operation_def vec_operation.defs)

text \<open>
  The operation collects the lanes of a vector in order, as long as the block is not full, and the end
  of a block changes nothing of what has been collected.
\<close>

locale block_sink =
  fixes vector_path :: "'a::len word list \<Rightarrow> 'o \<Rightarrow> 'o" and scalar_path :: "'a word \<Rightarrow> 'o \<Rightarrow> 'o"
    and max_vectors :: nat and finished :: "nat \<Rightarrow> 'o \<Rightarrow> 'o"
    and collect :: "'a word \<Rightarrow> 't \<Rightarrow> 't" and R :: "nat \<Rightarrow> 'o \<Rightarrow> 't \<Rightarrow> bool"
  assumes two_vectors: "2 \<le> max_vectors"
    and collects_vector: "length v = num_lanes_of TYPE('a) \<Longrightarrow> k < max_vectors \<Longrightarrow> R k s t \<Longrightarrow>
      R (k + 1) (vector_path v s) (fold collect v t)"
    and keeps_block: "k \<le> max_vectors \<Longrightarrow> R k s t \<Longrightarrow> R 0 (finished k s) t"
    and collects_scalar: "R 0 s t \<Longrightarrow> R 0 (scalar_path x s) (collect x t)"

sublocale block_sink \<subseteq> block_simulation
  "block_sink_operation m vector_path scalar_path max_vectors finished"
  "sink_scalar_path m collect" R "sink_ok TYPE('a)"
proof (rule block_simulation.intro)
  fix n k l v :: nat and cols s t
  let ?op = "block_sink_operation m vector_path scalar_path max_vectors finished"
  { assume "sink_ok TYPE('a) n cols"
    then show "0 < op_num_lanes ?op" by (auto simp: sink_ok_def element_type_lanes)
  }
  { assume "sink_ok TYPE('a) n cols" "k + l \<le> n"
    then show "sink_ok TYPE('a) l (map (step_column k) cols)" by (auto simp: sink_ok_def)
  }
  { assume "op_unrolled_once ?op"
    then show "R (v + 1) (op_vector_path ?op cols s)
        (columns_loop (sink_scalar_path m collect) (op_num_lanes ?op) cols t)" by simp
  }
  { assume max: "v + 2 \<le> op_max_vectors_per_block ?op"
      and ok: "sink_ok TYPE('a) (2 * op_num_lanes ?op) cols" and R: "R v s t"
    then obtain src where c: "cols = [src]" by (auto simp: sink_ok_def)
    let ?v = "vld1q_elems (col_ptr src) m :: 'a word list"
    let ?w = "vld1q_elems (col_ptr src + num_lanes_of TYPE('a) * sizeof TYPE('a)) m :: 'a word list"
    have "R (v + 1) (vector_path ?v s) (fold collect ?v t)"
      using R max by - (rule collects_vector, simp_all)
    then have "R (v + 1 + 1) (vector_path ?w (vector_path ?v s)) (fold collect ?w (fold collect ?v t))"
      using max by - (rule collects_vector, simp_all)
    also have "fold collect ?w (fold collect ?v t) = fold collect (?v @ ?w) t" by simp
    finally show "R (v + 2) (op_vector_path_2x ?op cols s)
        (columns_loop (sink_scalar_path m collect) (2 * op_num_lanes ?op) cols t)"
      unfolding vld1q_append using sink_run [of _ src m collect t] ok
      by (simp add: c load_consecutive_def element_at_def)
  }
  { assume "sink_ok TYPE('a) 1 cols" and "R 0 s t"
    then show "R 0 (op_scalar_path ?op cols s) (sink_scalar_path m collect cols t)"
      using collects_scalar by (auto simp: sink_ok_def)
  }
qed (use two_vectors keeps_block in simp_all)

context block_sink
begin

lemma block_sink_image:
  assumes "element_type TYPE('a)" and "w * h \<le> size_max" and a: "image_layout TYPE('a) w h src"
    and "R 0 s t"
  shows "\<exists>s'. apply_block_operation_by_rows
      (block_sink_operation m vector_path scalar_path max_vectors finished)
      \<lparr>rectangle_width = w, rectangle_height = h\<rparr> [src] s = Some s'
    \<and> R 0 s' (fold collect (image_elements src w h m) t)"
proof -
  have "pixel_rows_ok w h (sink_ok TYPE('a)) [src]" using sink_rows_ok [OF assms(1) a] .
  then have "\<exists>s'. apply_block_operation_by_rows
      (block_sink_operation m vector_path scalar_path max_vectors finished)
      \<lparr>rectangle_width = w, rectangle_height = h\<rparr> [src] s = Some s'
    \<and> R 0 s' (pixel_loop (sink_scalar_path m collect) w h [src] t)"
    unfolding apply_block_operation_by_rows_def pixel_rows_ok_def
    using image_in_memory [OF a] image_row_size [OF a] assms(2,4)
    by (intro zip_rows_simulates) auto
  also have "pixel_loop (sink_scalar_path m collect) w h [src] t
    = fold collect (image_elements src w h m) t"
    unfolding pixel_loop_scan pixel_columns_def image_elements_def fold_map
    by (intro fold_cong refl ext) (simp add: pixel_column_ptr [OF a]
        del: step_column_sel row_columns_sel)
  finally show ?thesis .
qed

end

end
