(* ===== verification/Count_Nonzeros.thy ===== *)
theory Count_Nonzeros
  imports Block_Sinks
begin

text \<open>
  Counting the bytes of an image that are not zero (\<^verbatim>\<open>analysis/count_nonzeros_neon.cpp\<close>):
  every lane of the vector accumulator counts down one byte, and is added to the accumulator at the
  end of a block.
\<close>

section \<open>The operation\<close>

record CountNonZeros =
  accumulator :: u64
  v_accumulator :: "u8 list"

definition vaddq_u8 :: "u8 list \<Rightarrow> u8 list \<Rightarrow> u8 list" where
  "vaddq_u8 = map2 (+)"

definition vtstq_u8 :: "u8 list \<Rightarrow> u8 list \<Rightarrow> u8 list" where
  "vtstq_u8 = map2 (\<lambda>a b. lane_mask (a AND b \<noteq> 0))"

definition vnegq_s8 :: "u8 list \<Rightarrow> u8 list" where
  "vnegq_s8 = map uminus"

definition vaddlvq_u8 :: "u8 list \<Rightarrow> u16" where
  "vaddlvq_u8 v = sum_list (map ucast v)"

definition CountNonZeros_init :: CountNonZeros where
  "CountNonZeros_init = \<lparr>accumulator = 0, v_accumulator = vdupq_n 0\<rparr>"

definition count_vector_path :: "u8 list \<Rightarrow> CountNonZeros \<Rightarrow> CountNonZeros" where
  "count_vector_path src s = s\<lparr>v_accumulator := vaddq_u8 (v_accumulator s) (vtstq_u8 src src)\<rparr>"

definition count_scalar_path :: "u8 \<Rightarrow> CountNonZeros \<Rightarrow> CountNonZeros" where
  "count_scalar_path src s = s\<lparr>accumulator := accumulator s + (if src \<noteq> 0 then 1 else 0)\<rparr>"

definition count_on_block_finished :: "nat \<Rightarrow> CountNonZeros \<Rightarrow> CountNonZeros" where
  "count_on_block_finished vectors s =
     s\<lparr>accumulator := accumulator s + ucast (vaddlvq_u8 (vnegq_s8 (v_accumulator s))),
       v_accumulator := vdupq_n 0\<rparr>"

definition count_max_vectors_per_block :: nat where
  "count_max_vectors_per_block = 255"

text \<open>What is written through the pointer \<open>p_count\<close> is the second component. The outer \<open>None\<close> would be a
  call that does not return.\<close>

definition count_nonzeros ::
    "mem \<Rightarrow> nat \<Rightarrow> nat \<Rightarrow> nat \<Rightarrow> nat \<Rightarrow> nat \<Rightarrow> (kleidicv_error_t \<times> u64 option) option" where
  "count_nonzeros m src src_stride w h p_count =
     (let err = checks [check_pointers [p_count],
            check_pointer_and_stride 1 src src_stride h, check_image_size w h]
      in if err \<noteq> KLEIDICV_OK then Some (err, None)
         else map_option (\<lambda>op. (KLEIDICV_OK, Some (accumulator op)))
           (apply_block_operation_by_rows
             (block_sink_operation m count_vector_path count_scalar_path count_max_vectors_per_block
               count_on_block_finished)
             \<lparr>rectangle_width = w, rectangle_height = h\<rparr> [single_channel_rows 1 src src_stride]
             CountNonZeros_init))"

section \<open>What has been counted\<close>

definition lane_counts :: "u8 list \<Rightarrow> nat" where
  "lane_counts v = sum_list (map (\<lambda>x. unat (- x)) v)"

text \<open>After \<open>k\<close> vectors of a block no lane has counted further than \<open>k\<close>.\<close>

definition count_sees :: "nat \<Rightarrow> CountNonZeros \<Rightarrow> nat \<Rightarrow> bool" where
  "count_sees k s t \<longleftrightarrow> length (v_accumulator s) = 16 \<and> (\<forall>x \<in> set (v_accumulator s). unat (- x) \<le> k)
     \<and> accumulator s + of_nat (lane_counts (v_accumulator s)) = of_nat t"

definition count_collect :: "u8 \<Rightarrow> nat \<Rightarrow> nat" where
  "count_collect x t = (if x \<noteq> 0 then t + 1 else t)"

lemma fold_count_collect: "fold count_collect v t = t + length (filter (\<lambda>x. x \<noteq> 0) v)"
  by (induction v arbitrary: t) (simp_all add: count_collect_def)

lemma lane_counts_down:
  fixes x y :: u8
  assumes "unat (- x) < 255"
  shows "unat (- (x + lane_mask (y AND y \<noteq> 0))) = unat (- x) + (if y \<noteq> 0 then 1 else 0)"
proof -
  have "unat (- x + 1) = unat (- x) + 1"
    using assms unat_word_ariths(1) [of "- x" 1] by simp
  moreover have "- (x - 1) = - x + 1" by simp
  ultimately show ?thesis by (simp add: lane_mask_def)
qed

lemma vector_counts_down:
  assumes "length v = length src" and "\<forall>x \<in> set v. unat (- x) \<le> k" and "k < 255"
  shows "(\<forall>x \<in> set (vaddq_u8 v (vtstq_u8 src src)). unat (- x) \<le> k + 1)
    \<and> lane_counts (vaddq_u8 v (vtstq_u8 src src)) = lane_counts v + length (filter (\<lambda>x. x \<noteq> 0) src)"
  using assms(1,2)
proof (induction v src rule: list_induct2)
  case (Cons x v y src)
  have "unat (- x) < 255" using Cons.prems assms(3) by simp
  from lane_counts_down [OF this, of y] Cons show ?case
    by (auto simp: vaddq_u8_def vtstq_u8_def lane_counts_def)
qed (simp add: vaddq_u8_def vtstq_u8_def lane_counts_def)

lemma horizontal_sum:
  assumes "length v \<le> 257"
  shows "unat (vaddlvq_u8 (vnegq_s8 v)) = lane_counts v"
proof -
  have "unat (sum_list (map ucast (map uminus v)) :: u16) = lane_counts v \<and> lane_counts v \<le> 255 * length v"
    if "length v \<le> 257"
    using that
  proof (induction v)
    case (Cons x v)
    have "unat (- x) \<le> 255" using unsigned_less [of "- x", where ?'a = nat] by simp
    with Cons have le: "unat (- x) + lane_counts v \<le> 255 * length (x # v)" by simp
    with Cons.prems have "unat (- x) + lane_counts v < 2 ^ 16" by simp
    moreover have "unat (ucast (- x) :: u16) = unat (- x)"
      using \<open>unat (- x) \<le> 255\<close> by (simp add: unsigned_ucast_eq take_bit_nat_eq_self)
    ultimately show ?case
      using Cons le by (simp add: unat_word_ariths lane_counts_def)
  qed (simp add: lane_counts_def)
  with assms show ?thesis by (simp add: vaddlvq_u8_def vnegq_s8_def)
qed

lemma lane_counts_zero [simp]: "lane_counts (vdupq_n 0) = 0"
  by (simp add: lane_counts_def vdupq_n_def)

interpretation count_lanes: block_sink count_vector_path count_scalar_path
  count_max_vectors_per_block count_on_block_finished count_collect count_sees
proof unfold_locales
  fix v :: "u8 list" and k t x s
  have lanes: "num_lanes_of TYPE(8) = 16" by (simp add: num_lanes_of_def)
  show "2 \<le> count_max_vectors_per_block" by (simp add: count_max_vectors_per_block_def)
  { assume "length v = num_lanes_of TYPE(8)" "k < count_max_vectors_per_block" "count_sees k s t"
    with vector_counts_down [of "v_accumulator s" v k]
    show "count_sees (k + 1) (count_vector_path v s) (fold count_collect v t)"
      by (auto simp: count_sees_def count_vector_path_def fold_count_collect lanes vaddq_u8_def
          vtstq_u8_def count_max_vectors_per_block_def add.assoc [symmetric])
  }
  { assume "count_sees k s t"
    then have c: "length (v_accumulator s) = 16"
      "accumulator s + of_nat (lane_counts (v_accumulator s)) = of_nat t" by (simp_all add: count_sees_def)
    from c(1) have "lane_counts (v_accumulator s) = unat (vaddlvq_u8 (vnegq_s8 (v_accumulator s)))"
      by (simp add: horizontal_sum)
    then have "(ucast (vaddlvq_u8 (vnegq_s8 (v_accumulator s))) :: u64) = of_nat (lane_counts (v_accumulator s))"
      by simp
    with c show "count_sees 0 (count_on_block_finished k s) t"
      by (simp add: count_sees_def count_on_block_finished_def)
        (simp add: vdupq_n_def lanes)
  }
  { assume "count_sees 0 s t"
    then show "count_sees 0 (count_scalar_path x s) (count_collect x t)"
      by (simp add: count_sees_def count_scalar_path_def count_collect_def add_ac)
  }
qed


section \<open>The image\<close>

lemma image_elements_count:
  assumes "0 < w"
  shows "length (filter (\<lambda>x. x \<noteq> 0) (image_elements (single_channel_rows 1 src ss) w h m :: u8 list))
    = card {(i, j). i < h \<and> j < w \<and> m (src + i * ss + j) \<noteq> 0}"
proof -
  let ?p = "\<lambda>k. (k div w, k mod w)"
  let ?K = "{k. k < h * w \<and> m (src + (k div w) * ss + k mod w) \<noteq> 0}"
  have "{(i, j). i < h \<and> j < w \<and> m (src + i * ss + j) \<noteq> 0} = ?p ` ?K"
  proof (intro equalityI subsetI)
    fix q
    assume "q \<in> {(i, j). i < h \<and> j < w \<and> m (src + i * ss + j) \<noteq> 0}"
    then obtain i j where q: "q = (i, j)" "i < h" "j < w" "m (src + i * ss + j) \<noteq> 0" by auto
    then have "Suc i * w \<le> h * w" by (intro mult_le_mono1) simp
    with q have "i * w + j \<in> ?K" "q = ?p (i * w + j)" by simp_all
    then show "q \<in> ?p ` ?K" by blast
  qed (use assms in \<open>auto simp: div_less_iff_less_mult\<close>)
  moreover have "inj_on ?p ?K"
    by (rule inj_onI) (metis div_mult_mod_eq prod.inject)
  moreover have "length (filter (\<lambda>x. x \<noteq> 0) (image_elements (single_channel_rows 1 src ss) w h m :: u8 list))
      = card ?K"
    by (simp add: image_elements_def pixel_address_def single_channel_rows_def filter_map comp_def
        length_filter_conv_card add.assoc cong: conj_cong)
  ultimately show ?thesis by (simp add: card_image)
qed

text \<open>
  C17. Counting: for a legal image the call returns, succeeds and gives the number of bytes that are not
  zero, for every size up to the largest image: no lane and no sum wraps around. Null pointers and
  images that are too large are errors, and nothing is written.
\<close>

theorem count_nonzeros_image:
  assumes "w \<le> src_stride" and "src + h * src_stride \<le> size_max"
  shows "count_nonzeros m src src_stride w h p_count =
    (if p_count = nullptr \<or> src = nullptr then Some (KLEIDICV_ERROR_NULL_POINTER, None)
     else if w * h > KLEIDICV_MAX_IMAGE_PIXELS then Some (KLEIDICV_ERROR_RANGE, None)
     else Some (KLEIDICV_OK, Some (of_nat (card {(i, j). i < h \<and> j < w \<and> m (src + i * src_stride + j) \<noteq> 0}))))"
proof (cases "p_count = nullptr \<or> src = nullptr \<or> w * h > KLEIDICV_MAX_IMAGE_PIXELS")
  case True
  then show ?thesis
    by (auto simp: count_nonzeros_def check_pointers_def any_null_def check_pointer_and_stride_def
        check_image_size_RANGE)
next
  case False
  let ?img = "image_elements (single_channel_rows 1 src src_stride) w h m :: u8 list"
  let ?op = "apply_block_operation_by_rows
    (block_sink_operation m count_vector_path count_scalar_path count_max_vectors_per_block
      count_on_block_finished)
    \<lparr>rectangle_width = w, rectangle_height = h\<rparr> [single_channel_rows 1 src src_stride] CountNonZeros_init"
  have layout: "image_layout TYPE(8) w h (single_channel_rows 1 src src_stride)"
    using assms by (simp add: image_layout_def single_channel_rows_def)
  have "count_sees 0 CountNonZeros_init 0"
    by (simp add: count_sees_def CountNonZeros_init_def) (simp add: vdupq_n_def num_lanes_of_def)
  from count_lanes.block_sink_image [OF _ pixels_fit layout this, of m] False
  obtain s where "?op = Some s" and "count_sees 0 s (length (filter (\<lambda>x. x \<noteq> 0) ?img))"
    by (auto simp: element_type_def fold_count_collect)
  moreover from this have "lane_counts (v_accumulator s) = 0"
    by (simp add: count_sees_def lane_counts_def)
  ultimately have "?op = Some s" "accumulator s = of_nat (length (filter (\<lambda>x. x \<noteq> 0) ?img))"
    by (simp_all add: count_sees_def)
  moreover have "length (filter (\<lambda>x. x \<noteq> 0) ?img)
      = card {(i, j). i < h \<and> j < w \<and> m (src + i * src_stride + j) \<noteq> 0}"
    using image_elements_count [of w src src_stride h m]
    by (cases "w = 0") (simp_all add: image_elements_def)
  ultimately show ?thesis
    using False by (simp add: count_nonzeros_def check_pointers_def any_null_def
        check_pointer_and_stride_def check_image_size_RANGE)
qed

theorem count_nonzeros_image_witness:
  "count_nonzeros (\<lambda>a. of_nat (a mod 2)) 40 2 2 2 8 = Some (KLEIDICV_OK, Some 2)"
proof -
  have "{(i, j). i < 2 \<and> j < 2 \<and> (of_nat ((40 + i * 2 + j) mod 2) :: u8) \<noteq> 0} = {(0, 1), (1, 1 :: nat)}"
    by (auto simp: less_2_cases_iff)
  then show ?thesis
    using count_nonzeros_image [of 2 2 40 2 "\<lambda>a. of_nat (a mod 2)" 8]
    by (simp add: nullptr_def size_max_def KLEIDICV_MAX_IMAGE_PIXELS_def)
qed

end
