(* ===== verification/Thread_Reduce.thy ===== *)
theory Thread_Reduce
  imports Thread_Ops
begin

text \<open>
  The threaded reductions (\<^verbatim>\<open>kleidicv_thread.cpp\<close>, lines 640 to 805): every batch
  writes the extreme value, or its offset, of its rows into the slot of its first row; after the
  join the slots are reduced. Output parameters are flags for a non-null pointer and optional
  values for what is written through it.
\<close>

section \<open>Minimum and maximum\<close>

definition reduce_min :: "'a :: linorder \<Rightarrow> 'a list \<Rightarrow> nat \<Rightarrow> bool \<Rightarrow> 'a option" where
  "reduce_min type_max values n result =
     (if \<not> result then None
      else Some (fold (\<lambda>i acc. min acc (values ! i)) [0..<n] type_max))"

definition reduce_max :: "'a :: linorder \<Rightarrow> 'a list \<Rightarrow> nat \<Rightarrow> bool \<Rightarrow> 'a option" where
  "reduce_max type_lowest values n result =
     (if \<not> result then None
      else Some (fold (\<lambda>i acc. max acc (values ! i)) [0..<n] type_lowest))"

text \<open>
  The backend \<open>min_max_func\<close> gets the source offset, the stride, the width and the number of
  rows and which of the two results are wanted; it gives its error and what it wrote.
\<close>

type_synonym 'a min_max_fn =
  "nat \<Rightarrow> nat \<Rightarrow> nat \<Rightarrow> nat \<Rightarrow> bool \<Rightarrow> bool \<Rightarrow> kleidicv_error_t \<times> 'a option \<times> 'a option"

definition write_opt :: "nat \<Rightarrow> 'a option \<Rightarrow> 'a list \<Rightarrow> 'a list" where
  "write_opt i v xs = (case v of None \<Rightarrow> xs | Some x \<Rightarrow> xs[i := x])"

definition min_max_callback ::
    "nat \<Rightarrow> 'a min_max_fn \<Rightarrow> nat \<Rightarrow> nat \<Rightarrow> nat \<Rightarrow> bool \<Rightarrow> bool \<Rightarrow> ('a list \<times> 'a list) range_callback" where
  "min_max_callback sizeof_T min_max_func src src_stride width p_min p_max begin stop st =
     (case st of (min_values, max_values) \<Rightarrow>
        (case min_max_func (src + begin * (src_stride div sizeof_T)) src_stride width (stop - begin)
                p_min p_max of
           (err, mn, mx) \<Rightarrow> (err, write_opt begin mn min_values, write_opt begin mx max_values)))"

text \<open>\<open>malloc 0\<close> and \<open>malloc 1\<close> decide the two allocations.\<close>

definition parallel_min_max ::
    "(nat \<Rightarrow> nat \<Rightarrow> bool) \<Rightarrow> nat \<Rightarrow> 'a :: linorder \<Rightarrow> 'a \<Rightarrow> 'a min_max_fn
      \<Rightarrow> ('a list \<times> 'a list) parallel_fn \<Rightarrow> nat \<Rightarrow> nat \<Rightarrow> nat \<Rightarrow> nat \<Rightarrow> bool \<Rightarrow> bool
      \<Rightarrow> kleidicv_error_t \<times> 'a option \<times> 'a option" where
  "parallel_min_max malloc sizeof_T type_max type_lowest min_max_func mt src src_stride width height
     p_min p_max =
     (let value_count = max 1 height;
          min_alloc = (if p_min then ha_allocate_and_fill (malloc 0) sizeof_T type_max value_count type_max ha_empty
                       else (True, ha_empty));
          max_alloc = (if p_max then ha_allocate_and_fill (malloc 1) sizeof_T type_max value_count type_lowest ha_empty
                       else (True, ha_empty))
      in if \<not> fst min_alloc \<or> \<not> fst max_alloc then (KLEIDICV_ERROR_ALLOCATION, None, None)
         else
           (case parallel_batches
               (min_max_callback sizeof_T min_max_func src src_stride width p_min p_max) mt height 1
               (ha_elems (snd min_alloc), ha_elems (snd max_alloc)) of
              (return_val, min_values, max_values) \<Rightarrow>
                (return_val, reduce_min type_max min_values height p_min,
                 reduce_max type_lowest max_values height p_max)))"

section \<open>Locations\<close>

text \<open>
  \<open>read offset\<close> is the element at a byte offset from \<^verbatim>\<open>src\<close>, \<open>None\<close> when
  that read is outside the image or through a null pointer, which C++ leaves undefined: the result
  of the whole reduction is then \<open>None\<close>.
\<close>

definition reduce_step ::
    "nat \<Rightarrow> (nat \<Rightarrow> 'a option) \<Rightarrow> nat list \<Rightarrow> ('a \<Rightarrow> 'a \<Rightarrow> bool) \<Rightarrow> nat \<Rightarrow> nat option \<Rightarrow> nat option" where
  "reduce_step src_stride read offsets compare i acc =
     (case acc of
        None \<Rightarrow> None
      | Some result \<Rightarrow>
          (let offset = offsets ! i + i * src_stride in
           case (read offset, read result) of
             (Some x, Some y) \<Rightarrow> Some (if compare x y then offset else result)
           | _ \<Rightarrow> None))"

definition reduce_offset ::
    "nat \<Rightarrow> (nat \<Rightarrow> 'a option) \<Rightarrow> nat list \<Rightarrow> nat \<Rightarrow> bool \<Rightarrow> ('a \<Rightarrow> 'a \<Rightarrow> bool) \<Rightarrow> nat option option" where
  "reduce_offset src_stride read offsets n result compare =
     (if \<not> result then Some None
      else map_option Some (fold (reduce_step src_stride read offsets compare) [0..<n] (Some 0)))"

text \<open>
  The outer \<open>None\<close> is undefined behaviour; otherwise the error and the two offsets written.
\<close>

definition parallel_min_max_loc ::
    "(nat \<Rightarrow> nat \<Rightarrow> bool) \<Rightarrow> nat \<Rightarrow> (nat \<Rightarrow> 'a :: linorder option) \<Rightarrow> nat min_max_fn
      \<Rightarrow> (nat list \<times> nat list) parallel_fn \<Rightarrow> nat \<Rightarrow> nat \<Rightarrow> nat \<Rightarrow> nat \<Rightarrow> bool \<Rightarrow> bool
      \<Rightarrow> (kleidicv_error_t \<times> nat option \<times> nat option) option" where
  "parallel_min_max_loc malloc sizeof_T read min_max_loc_func mt src src_stride width height
     p_min_offset p_max_offset =
     (let value_count = max 1 height;
          min_alloc = (if p_min_offset then ha_allocate_and_fill (malloc 0) 8 0 value_count 0 ha_empty
                       else (True, ha_empty));
          max_alloc = (if p_max_offset then ha_allocate_and_fill (malloc 1) 8 0 value_count 0 ha_empty
                       else (True, ha_empty))
      in if \<not> fst min_alloc \<or> \<not> fst max_alloc then Some (KLEIDICV_ERROR_ALLOCATION, None, None)
         else
           (case parallel_batches
               (min_max_callback sizeof_T min_max_loc_func src src_stride width p_min_offset p_max_offset)
               mt height 1 (ha_elems (snd min_alloc), ha_elems (snd max_alloc)) of
              (return_val, min_offsets, max_offsets) \<Rightarrow>
                (case (reduce_offset src_stride read min_offsets height p_min_offset (<),
                       reduce_offset src_stride read max_offsets height p_max_offset (>)) of
                   (Some mn, Some mx) \<Rightarrow> Some (return_val, mn, mx)
                 | _ \<Rightarrow> None)))"

section \<open>Slots filled batch by batch\<close>

text \<open>
  What the reduction of the slots relies on: an associative, commutative combination with a
  neutral value, the one the slots are initialised with.
\<close>

locale reduction =
  fixes f :: "'a \<Rightarrow> 'a \<Rightarrow> 'a" and z :: 'a
  assumes assoc: "f (f a b) c = f a (f b c)"
    and commute: "f a b = f b a"
    and neutral: "f a z = a"
begin

lemma left_commute: "f a (f b c) = f b (f a c)"
  by (metis assoc commute)

lemma fold_extract: "fold f xs (f a b) = f a (fold f xs b)"
proof (induction xs arbitrary: b)
  case (Cons x xs)
  have "fold f xs (f x (f a b)) = fold f xs (f a (f x b))" by (simp only: left_commute)
  then show ?case by (simp add: Cons.IH)
qed simp

lemma fold_start: "fold f xs a = f a (fold f xs z)"
  using fold_extract [of xs a z] by (simp add: neutral)

lemma fold_perm: "mset xs = mset ys \<Longrightarrow> fold f xs a = fold f ys a"
  by (rule fun_cong [where f = "fold f xs"], rule fold_multiset_equiv)
    (auto simp: fun_eq_iff left_commute)

lemma fold_update:
  assumes "i < length xs" and "xs ! i = z"
  shows "fold f (xs[i := v]) a = f v (fold f xs a)"
proof -
  have xs: "xs = take i xs @ z # drop (Suc i) xs"
    using assms by (metis id_take_nth_drop)
  have "fold f (xs[i := v]) a = fold f (drop (Suc i) xs) (f v (fold f (take i xs) a))"
    using assms(1) by (simp add: upd_conv_take_nth_drop)
  also have "\<dots> = f v (fold f (drop (Suc i) xs) (f z (fold f (take i xs) a)))"
    by (simp add: fold_extract commute [of z] neutral)
  also have "fold f (drop (Suc i) xs) (f z (fold f (take i xs) a)) = fold f xs a"
    by (subst (3) xs) simp
  finally show ?thesis .
qed

lemma fold_slots: "n \<le> length xs \<Longrightarrow> fold (\<lambda>i acc. f acc (xs ! i)) [0..<n] a = fold f (take n xs) a"
  by (induction n) (simp_all add: take_Suc_conv_app_nth commute)

lemma fold_replicate: "fold f (replicate n z) a = a"
  by (induction n arbitrary: a) (simp_all add: commute [of z] neutral)

definition write_batches :: "(nat \<Rightarrow> 'a) \<Rightarrow> (nat \<times> nat) list \<Rightarrow> 'a list \<Rightarrow> 'a list" where
  "write_batches g rs xs = fold (\<lambda>r xs. xs[fst r := fold f (map g (range_tasks r)) z]) rs xs"

lemma write_batches_length: "length (write_batches g rs xs) = length xs"
  by (induction rs arbitrary: xs) (simp_all add: write_batches_def)

lemma fold_write_batches:
  assumes "distinct (map fst rs)" and "\<forall>r \<in> set rs. fst r < length xs \<and> xs ! fst r = z"
  shows "fold f (write_batches g rs xs) a = fold f (map g (concat (map range_tasks rs))) (fold f xs a)"
  using assms
proof (induction rs arbitrary: xs)
  case Nil
  then show ?case by (simp add: write_batches_def)
next
  case (Cons r rs)
  let ?v = "fold f (map g (range_tasks r)) z" and ?xs = "xs[fst r := fold f (map g (range_tasks r)) z]"
  have "fold f (write_batches g (r # rs) xs) a = fold f (write_batches g rs ?xs) a"
    by (simp add: write_batches_def)
  also have "\<dots> = fold f (map g (concat (map range_tasks rs))) (fold f ?xs a)"
    using Cons.prems by (intro Cons.IH) (auto simp: nth_list_update)
  also have "fold f ?xs a = f ?v (fold f xs a)"
    using Cons.prems by (intro fold_update) auto
  also have "\<dots> = fold f (map g (range_tasks r)) (fold f xs a)"
    by (metis commute fold_start)
  finally show ?case by simp
qed

end

lemma min_reduction: "(\<And>v :: 'a :: linorder. v \<le> t) \<Longrightarrow> reduction min t"
  by unfold_locales (rule min.assoc min.commute | simp add: min.absorb1)+

lemma max_reduction: "(\<And>v :: 'a :: linorder. t \<le> v) \<Longrightarrow> reduction max t"
  by unfold_locales (rule max.assoc max.commute | simp add: max.absorb1)+

interpretation u8_min: reduction "min :: u8 \<Rightarrow> u8 \<Rightarrow> u8" "- 1"
  by (rule min_reduction) simp

interpretation u8_max: reduction "max :: u8 \<Rightarrow> u8 \<Rightarrow> u8" 0
  by (rule max_reduction) simp

text \<open>Distinct batches begin at distinct rows.\<close>

lemma schedule_distinct:
  assumes "schedule rs n"
  shows "distinct (map fst rs)"
proof -
  have "mset (concat (map range_tasks rs)) = mset [0..<n]" and ne: "\<forall>r \<in> set rs. fst r < snd r"
    using assms by (auto simp: schedule_def covers_once_def)
  then have "distinct (concat (map range_tasks rs))"
    by (metis distinct_upt mset_eq_imp_distinct_iff)
  then show ?thesis using ne
  proof (induction rs)
    case Nil
    then show ?case by simp
  next
    case (Cons r rs)
    have "fst r \<notin> fst ` set rs"
    proof
      assume "fst r \<in> fst ` set rs"
      then obtain q where q: "q \<in> set rs" "fst q = fst r" by auto
      then have "fst r \<in> set (range_tasks q)" "fst r \<in> set (range_tasks r)"
        using Cons.prems(2) by (auto simp: range_tasks_def)
      then show False using Cons.prems(1) q(1) by auto
    qed
    with Cons show ?case by simp
  qed
qed

lemma batch_rows_one:
  assumes "schedule rs n" and "0 < n"
  shows "map (batch_rows n 1) rs = rs"
  using assms by (intro map_idI) (auto simp: batch_rows_def max_def)

lemma parallel_one_runs:
  assumes "scheduler mt max_tasks" and "0 < n" and "n \<le> max_tasks"
  shows "\<exists>rs. schedule rs n
    \<and> snd (parallel_batches cb mt n 1 s) = snd (run_ranges cb rs s)
    \<and> (fst (parallel_batches cb mt n 1 s) = KLEIDICV_OK
        \<longleftrightarrow> (\<forall>err \<in> set (fst (run_ranges cb rs s)). err = KLEIDICV_OK))"
proof -
  have m: "max 1 (n div 1) = n" using assms(2) by simp
  then have "max 1 (n div 1) \<le> max_tasks" using assms(3) by simp
  from scheduler.parallel_batches_runs [OF assms(1) zero_less_one this, of cb s]
  obtain rs where "schedule rs n"
    and "snd (parallel_batches cb mt n 1 s) = snd (run_ranges cb (map (batch_rows n 1) rs) s)"
    and "fst (parallel_batches cb mt n 1 s) = KLEIDICV_OK
        \<longleftrightarrow> (\<forall>err \<in> set (fst (run_ranges cb (map (batch_rows n 1) rs) s)). err = KLEIDICV_OK)"
    unfolding m by blast
  then show ?thesis using batch_rows_one [of rs n] assms(2) by (intro exI [of _ rs]) simp
qed

section \<open>What the backends compute\<close>

text \<open>
  The backend on a stripe of rows gives the extremes of the row extremes \<open>rmin\<close> and
  \<open>rmax\<close>.
\<close>

definition min_max_backend ::
    "nat \<Rightarrow> 'a :: linorder \<Rightarrow> 'a \<Rightarrow> 'a min_max_fn \<Rightarrow> nat \<Rightarrow> nat \<Rightarrow> nat \<Rightarrow> nat \<Rightarrow> bool \<Rightarrow> bool
      \<Rightarrow> (nat \<Rightarrow> 'a) \<Rightarrow> (nat \<Rightarrow> 'a) \<Rightarrow> bool" where
  "min_max_backend sizeof_T type_max type_lowest func src src_stride width height p_min p_max rmin rmax \<longleftrightarrow>
     (\<forall>b e. b < e \<longrightarrow> e \<le> height \<longrightarrow>
        func (src + b * (src_stride div sizeof_T)) src_stride width (e - b) p_min p_max =
          (KLEIDICV_OK,
           if p_min then Some (fold min (map rmin [b..<e]) type_max) else None,
           if p_max then Some (fold max (map rmax [b..<e]) type_lowest) else None))"

lemma run_min_max:
  assumes backend: "min_max_backend sz tmax tlow func src ss w n pmin pmax rmin rmax"
    and red: "reduction min tmax" "reduction max tlow"
    and rs: "\<forall>r \<in> set rs. fst r < snd r \<and> snd r \<le> n"
  shows "run_ranges (min_max_callback sz func src ss w pmin pmax) rs (mn, mx) =
    (replicate (length rs) KLEIDICV_OK,
     (if pmin then reduction.write_batches min tmax rmin rs mn else mn),
     (if pmax then reduction.write_batches max tlow rmax rs mx else mx))"
  using rs
proof (induction rs arbitrary: mn mx)
  case Nil
  then show ?case by (simp add: reduction.write_batches_def [OF red(1)] reduction.write_batches_def [OF red(2)])
next
  case (Cons r rs)
  obtain b e where r: "r = (b, e)" by (cases r)
  with Cons.prems have be: "b < e" "e \<le> n" by auto
  with backend have "func (src + b * (ss div sz)) ss w (e - b) pmin pmax = (KLEIDICV_OK,
      if pmin then Some (fold min (map rmin [b..<e]) tmax) else None,
      if pmax then Some (fold max (map rmax [b..<e]) tlow) else None)"
    by (simp add: min_max_backend_def)
  with Cons show ?case
    by (simp add: r min_max_callback_def write_opt_def range_tasks_def
        reduction.write_batches_def [OF red(1)] reduction.write_batches_def [OF red(2)])
qed

lemma reduced_slots:
  assumes "reduction f z" and "schedule rs n"
  shows "fold (\<lambda>i acc. f acc (reduction.write_batches f z g rs (replicate n z) ! i)) [0..<n] z
    = fold f (map g [0..<n]) z"
proof -
  let ?xs = "reduction.write_batches f z g rs (replicate n z)"
  have len: "length ?xs = n" by (simp add: reduction.write_batches_length [OF assms(1)])
  have start: "\<forall>r \<in> set rs. fst r < n"
    and m: "mset (concat (map range_tasks rs)) = mset [0..<n]"
    using assms(2) by (force simp: schedule_def covers_once_def)+
  have "fold (\<lambda>i acc. f acc (?xs ! i)) [0..<n] z = fold f (take n ?xs) z"
    by (rule reduction.fold_slots [OF assms(1)]) (simp add: len)
  also have "\<dots> = fold f ?xs z" by (simp add: len)
  also have "\<dots> = fold f (map g (concat (map range_tasks rs))) (fold f (replicate n z) z)"
    by (rule reduction.fold_write_batches [OF assms(1) schedule_distinct [OF assms(2)]])
      (use start in simp)
  also have "fold f (replicate n z) z = z" by (rule reduction.fold_replicate [OF assms(1)])
  also have "fold f (map g (concat (map range_tasks rs))) z = fold f (map g [0..<n]) z"
    by (rule reduction.fold_perm [OF assms(1)]) (use m in \<open>metis mset_map\<close>)
  finally show ?thesis .
qed

lemma slots_allocated:
  assumes "fst (ha_allocate_and_fill malloc sz z n v ha_empty)"
  shows "ha_elems (snd (ha_allocate_and_fill malloc sz z n v ha_empty)) = replicate n v"
  using ha_allocate_and_fill_fresh [of malloc sz z n v _ "snd (ha_allocate_and_fill malloc sz z n v ha_empty)"]
    assms by (metis prod.collapse)

text \<open>Whether the slots of a result that is wanted can be allocated.\<close>

definition slots_available :: "(nat \<Rightarrow> bool) \<Rightarrow> nat \<Rightarrow> nat \<Rightarrow> bool \<Rightarrow> bool" where
  "slots_available malloc sizeof_T n wanted \<longleftrightarrow>
     (wanted \<longrightarrow> n \<le> size_max div sizeof_T \<and> malloc (n * sizeof_T))"

lemma slots_available_alloc:
  assumes "slots_available malloc sz n wanted" and "wanted" and "0 < n"
  shows "fst (ha_allocate_and_fill malloc sz z n v ha_empty)"
  using assms by (simp add: slots_available_def ha_allocate_and_fill_def ha_allocate_def ha_empty_def)

lemma wanted_slots:
  assumes "slots_available malloc sz n wanted" and "0 < n"
  shows "ha_elems (snd (if wanted then ha_allocate_and_fill malloc sz z n v ha_empty
      else (True, ha_empty))) = (if wanted then replicate n v else [])"
proof (cases wanted)
  case True
  with slots_allocated [OF slots_available_alloc [OF assms(1) True assms(2)]] show ?thesis by simp
next
  case False
  then show ?thesis by (simp add: ha_elems_def ha_empty_def)
qed

text \<open>
  The threaded minimum and maximum are those of one call over the whole image, for any
  schedule, when the slots can be allocated and the backend is right on every stripe.
\<close>

theorem parallel_min_max_one_call:
  assumes sched: "scheduler mt max_tasks" and h: "0 < height" "height \<le> max_tasks"
    and tops: "\<And>v :: 'a :: linorder. v \<le> type_max" "\<And>v. type_lowest \<le> v"
    and backend: "min_max_backend sizeof_T type_max type_lowest func src src_stride width height
      p_min p_max rmin rmax"
    and alloc: "slots_available (malloc 0) sizeof_T height p_min"
      "slots_available (malloc 1) sizeof_T height p_max"
  shows "parallel_min_max malloc sizeof_T type_max type_lowest func mt src src_stride width height
      p_min p_max = func src src_stride width height p_min p_max"
proof -
  note red = min_reduction [OF tops(1)] max_reduction [OF tops(2)]
  let ?cb = "min_max_callback sizeof_T func src src_stride width p_min p_max"
  let ?mn = "if p_min then replicate height type_max else []"
  let ?mx = "if p_max then replicate height type_lowest else []"
  obtain rs where rs: "schedule rs height"
    "snd (parallel_batches ?cb mt height 1 (?mn, ?mx)) = snd (run_ranges ?cb rs (?mn, ?mx))"
    "fst (parallel_batches ?cb mt height 1 (?mn, ?mx)) = KLEIDICV_OK
      \<longleftrightarrow> (\<forall>err \<in> set (fst (run_ranges ?cb rs (?mn, ?mx))). err = KLEIDICV_OK)"
    using parallel_one_runs [OF sched h, of ?cb "(?mn, ?mx)"] by blast
  have "\<forall>r \<in> set rs. fst r < snd r \<and> snd r \<le> height"
    using rs(1) by (auto simp: schedule_def covers_once_def)
  note run = run_min_max [OF backend red this, of ?mn ?mx]
  have batches: "parallel_batches ?cb mt height 1 (?mn, ?mx) = (KLEIDICV_OK,
      if p_min then reduction.write_batches min type_max rmin rs ?mn else ?mn,
      if p_max then reduction.write_batches max type_lowest rmax rs ?mx else ?mx)"
    using rs(2,3) run by (simp add: prod_eq_iff)
  note elems = wanted_slots [OF alloc(1) h(1)] wanted_slots [OF alloc(2) h(1)]
  have whole: "func src src_stride width height p_min p_max = (KLEIDICV_OK,
      if p_min then Some (fold min (map rmin [0..<height]) type_max) else None,
      if p_max then Some (fold max (map rmax [0..<height]) type_lowest) else None)"
    using backend [unfolded min_max_backend_def, rule_format, of 0 height] h by simp
  have v: "max 1 height = height" using h(1) by simp
  have ok: "fst (if p_min then ha_allocate_and_fill (malloc 0) sizeof_T type_max height type_max ha_empty
         else (True, ha_empty))"
    "fst (if p_max then ha_allocate_and_fill (malloc 1) sizeof_T type_max height type_lowest ha_empty
         else (True, ha_empty))"
    by (simp_all add: slots_available_alloc [OF alloc(1) _ h(1)]
        slots_available_alloc [OF alloc(2) _ h(1)] del: One_nat_def)
  show ?thesis
    unfolding parallel_min_max_def Let_def whole v elems batches
    using ok reduced_slots [OF red(1) rs(1)] reduced_slots [OF red(2) rs(1)]
    by (cases p_min; cases p_max) (simp_all add: reduce_min_def reduce_max_def)
qed

text \<open>A two-row image of row minima 1, 0 and row maxima 3, 9.\<close>

definition example_min_max :: "u8 min_max_fn" where
  "example_min_max src src_stride width height p_min p_max =
     (KLEIDICV_OK,
      if p_min then Some (fold min (map ((!) [1, 0]) [src div 3..<src div 3 + height]) (- 1)) else None,
      if p_max then Some (fold max (map ((!) [3, 9]) [src div 3..<src div 3 + height]) 0) else None)"

theorem parallel_min_max_one_call_witness:
  "parallel_min_max (\<lambda>_ _. True) 1 (- 1) 0 example_min_max (example_parallel 2) 0 3 3 2 True True
     = (KLEIDICV_OK, Some 0, Some 9)"
proof -
  have "min_max_backend 1 (- 1) 0 example_min_max 0 3 3 2 True True ((!) [1, 0]) ((!) [3, 9])"
    by (auto simp: min_max_backend_def example_min_max_def)
  moreover have "example_min_max 0 3 3 2 True True = (KLEIDICV_OK, Some 0, Some 9)"
    by (simp add: example_min_max_def upt_rec)
  ultimately show ?thesis
    using parallel_min_max_one_call [OF two_workers, of 2 "- 1" 0 1 example_min_max 0 3 3 True True
        "(!) [1, 0]" "(!) [3, 9]" "\<lambda>_ _. True"]
    by (simp add: slots_available_def size_max_def)
qed

section \<open>Locations\<close>

text \<open>A strict total order by which the elements at two offsets are compared.\<close>

locale strict_order =
  fixes lt :: "'a \<Rightarrow> 'a \<Rightarrow> bool"
  assumes irreflexive: "\<not> lt a a"
    and transitive: "lt a b \<Longrightarrow> lt b c \<Longrightarrow> lt a c"
    and total: "a \<noteq> b \<Longrightarrow> lt a b \<or> lt b a"
begin

lemma asym: "lt a b \<Longrightarrow> \<not> lt b a"
  using irreflexive transitive by blast

text \<open>Of the best candidates the scan keeps the first.\<close>

lemma scan_keep:
  assumes "\<forall>c \<in> set cs. \<not> lt (v c) (v acc)"
  shows "fold (\<lambda>c acc. if lt (v c) (v acc) then c else acc) cs acc = acc"
  using assms by (induction cs) auto

lemma scan_worse:
  assumes "lt (v best) (v acc)" and "\<forall>c \<in> set xs. lt (v best) (v c)"
  shows "lt (v best) (v (fold (\<lambda>c acc. if lt (v c) (v acc) then c else acc) xs acc))"
  using assms by (induction xs arbitrary: acc) auto

lemma scan_first:
  assumes "cs = xs @ best # ys" and "lt (v best) (v acc)" and "\<forall>c \<in> set xs. lt (v best) (v c)"
    and "\<forall>c \<in> set ys. \<not> lt (v c) (v best)"
  shows "fold (\<lambda>c acc. if lt (v c) (v acc) then c else acc) cs acc = best"
  using scan_worse [OF assms(2,3)] scan_keep [OF assms(4)] assms(1) by simp

end

interpretation ascending: strict_order "(<) :: 'a :: linorder \<Rightarrow> 'a \<Rightarrow> bool"
  by unfold_locales auto

interpretation descending: strict_order "(>) :: 'a :: linorder \<Rightarrow> 'a \<Rightarrow> bool"
  by unfold_locales auto

text \<open>
  The byte offsets of the elements of the rows \<open>b\<close> to \<open>e\<close>, and the offset that
  comes first among those with the best value.
\<close>

definition stripe_offsets :: "nat \<Rightarrow> nat \<Rightarrow> nat \<Rightarrow> nat \<Rightarrow> nat \<Rightarrow> nat set" where
  "stripe_offsets src_stride width sizeof_T b e =
     {r * src_stride + c * sizeof_T | r c. b \<le> r \<and> r < e \<and> c < width}"

definition first_best :: "('a \<Rightarrow> 'a \<Rightarrow> bool) \<Rightarrow> (nat \<Rightarrow> 'a) \<Rightarrow> nat set \<Rightarrow> nat \<Rightarrow> bool" where
  "first_best lt v S best \<longleftrightarrow>
     best \<in> S \<and> (\<forall>p \<in> S. if p < best then lt (v best) (v p) else \<not> lt (v p) (v best))"

lemma first_best_subset: "first_best lt v S best \<Longrightarrow> T \<subseteq> S \<Longrightarrow> best \<in> T \<Longrightarrow> first_best lt v T best"
  by (auto simp: first_best_def)

lemma first_best_unique:
  assumes "first_best lt v S a" and "first_best lt v S b"
  shows "a = b"
proof (rule ccontr)
  assume "a \<noteq> b"
  then consider "a < b" | "b < a" by linarith
  then show False
    using assms by cases (auto simp: first_best_def split: if_splits)
qed

lemma stripe_offsets_mono: "a \<le> b \<Longrightarrow> e \<le> f \<Longrightarrow>
    stripe_offsets ss w sz b e \<subseteq> stripe_offsets ss w sz a f"
  unfolding stripe_offsets_def by fastforce

lemma stripe_offsets_bounds:
  assumes "o1 \<in> stripe_offsets ss w sz b e" and "w * sz \<le> ss" and "0 < sz"
  shows "b * ss \<le> o1" and "o1 < e * ss"
proof -
  from assms(1) obtain r c where rc: "o1 = r * ss + c * sz" "b \<le> r" "r < e" "c < w"
    by (auto simp: stripe_offsets_def)
  have "c * sz < w * sz" using rc(4) assms(3) by simp
  with assms(2) have "c * sz < ss" by linarith
  moreover have "(r + 1) * ss \<le> e * ss" using rc(3) by (intro mult_le_mono1) simp
  ultimately show "o1 < e * ss" using rc(1) by simp
  have "b * ss \<le> r * ss" using rc(2) by (rule mult_le_mono1)
  then show "b * ss \<le> o1" unfolding rc(1) by linarith
qed

lemma schedule_disjoint:
  assumes "schedule rs n" and "(a, e) \<in> set rs" and "(b, f) \<in> set rs" and "a < b"
  shows "e \<le> b"
proof (rule ccontr)
  assume "\<not> e \<le> b"
  then have in_a: "b \<in> set (range_tasks (a, e))" using assms(4) by (simp add: range_tasks_def)
  have in_b: "b \<in> set (range_tasks (b, f))"
    using assms(1,3) by (auto simp: schedule_def range_tasks_def)
  have "mset (concat (map range_tasks rs)) = mset [0..<n]"
    using assms(1) by (simp add: schedule_def covers_once_def)
  then have "distinct (concat (map range_tasks rs))"
    by (metis distinct_upt mset_eq_imp_distinct_iff)
  moreover obtain xs ys where rs: "rs = xs @ (a, e) # ys" using assms(2) by (meson split_list)
  moreover have "(b, f) \<in> set xs \<or> (b, f) \<in> set ys" using assms(3,4) rs by auto
  ultimately show False using in_a in_b by auto
qed

lemma schedule_owner:
  assumes "schedule rs n" and "r < n"
  obtains b e where "(b, e) \<in> set rs" "b \<le> r" "r < e" "e \<le> n"
proof -
  have "mset (concat (map range_tasks rs)) = mset [0..<n]"
    using assms(1) by (simp add: schedule_def covers_once_def)
  then have "r \<in> set (concat (map range_tasks rs))"
    using assms(2) by (metis atLeastLessThan_iff le0 mset_eq_setD set_upt)
  then obtain q where "q \<in> set rs" "r \<in> set (range_tasks q)" by auto
  moreover have "snd q \<le> n" using \<open>q \<in> set rs\<close> assms(1) by (auto simp: schedule_def covers_once_def)
  ultimately show thesis using that [of "fst q" "snd q"] by (auto simp: range_tasks_def)
qed

text \<open>The slots after the run: the batches' offsets at their first rows, 0 elsewhere.\<close>

definition write_locs :: "(nat \<Rightarrow> nat \<Rightarrow> nat) \<Rightarrow> (nat \<times> nat) list \<Rightarrow> nat list \<Rightarrow> nat list" where
  "write_locs m rs xs = fold (\<lambda>r xs. xs[fst r := m (fst r) (snd r)]) rs xs"

lemma write_locs_nth:
  assumes "schedule rs n" and "i < n"
  shows "(\<exists>e. (i, e) \<in> set rs \<and> write_locs m rs (replicate n 0) ! i = m i e)
    \<or> (i \<notin> fst ` set rs \<and> write_locs m rs (replicate n 0) ! i = 0)"
proof -
  have in_range: "\<forall>r \<in> set rs. fst r < length (replicate n (0 :: nat))"
    using assms(1) by (force simp: schedule_def covers_once_def)
  have inj: "inj_on fst (set rs)" "distinct rs"
    using schedule_distinct [OF assms(1)] by (simp_all add: distinct_map)
  show ?thesis
  proof (cases "i \<in> fst ` set rs")
    case True
    then obtain e where e: "(i, e) \<in> set rs" by force
    then show ?thesis
      using arr.fill_get [OF TrueI in_range inj e, of "\<lambda>r. m (fst r) (snd r)"]
      by (auto simp: write_locs_def arr_get_def split: if_splits)
  next
    case False
    then show ?thesis
      using arr.fill_get_other [OF TrueI in_range False, of "\<lambda>r. m (fst r) (snd r)"] assms(2)
      by (auto simp: write_locs_def arr_get_def split: if_splits)
  qed
qed

context strict_order
begin

lemma first_best_not_worse: "first_best lt v S best \<Longrightarrow> p \<in> S \<Longrightarrow> \<not> lt (v p) (v best)"
  unfolding first_best_def by (cases "p < best") (auto dest: asym)

lemma reduce_scan:
  assumes "read acc = Some (v acc)" and "\<forall>i \<in> set is. read (offsets ! i + i * ss) = Some (v (offsets ! i + i * ss))"
  shows "fold (reduce_step ss read offsets lt) is (Some acc)
    = Some (fold (\<lambda>c acc. if lt (v c) (v acc) then c else acc) (map (\<lambda>i. offsets ! i + i * ss) is) acc)"
  using assms by (induction "is" arbitrary: acc) (auto simp: reduce_step_def Let_def)

lemma reduce_offset_first:
  assumes rs: "schedule rs n" and n: "0 < n" and w: "0 < w" "w * sz \<le> ss" "0 < sz"
    and read: "\<forall>p \<in> stripe_offsets ss w sz 0 n. read p = Some (v p)"
    and m: "\<And>b e. b < e \<Longrightarrow> e \<le> n \<Longrightarrow> first_best lt v (stripe_offsets ss w sz b e) (b * ss + m b e)"
  shows "reduce_offset ss read (write_locs m rs (replicate n 0)) n True lt = Some (Some (m 0 n))"
proof -
  let ?xs = "write_locs m rs (replicate n 0)" and ?best = "m 0 n"
  let ?c = "\<lambda>i. ?xs ! i + i * ss"
  let ?S = "stripe_offsets ss w sz 0 n"
  have best: "first_best lt v ?S ?best" using m [of 0 n] n by simp
  have corner: "i * ss \<in> stripe_offsets ss w sz i (Suc i)" for i
    using w(1) unfolding stripe_offsets_def by force
  have cand: "\<exists>e \<le> n. ?c i \<in> stripe_offsets ss w sz i e \<and> (\<forall>b f. (b, f) \<in> set rs \<longrightarrow> i < b \<longrightarrow> e \<le> b)"
    if i: "i < n" for i
    using write_locs_nth [OF rs i, of m]
  proof (elim disjE exE conjE)
    fix e
    assume e: "(i, e) \<in> set rs" and eq: "?xs ! i = m i e"
    from e rs have "i < e" "e \<le> n" by (auto simp: schedule_def covers_once_def)
    with m [of i e] eq schedule_disjoint [OF rs e] show ?thesis
      by (auto simp: first_best_def add.commute)
  next
    assume "?xs ! i = 0"
    with corner [of i] i show ?thesis by (intro exI [of _ "Suc i"]) auto
  qed
  have inS: "?c i \<in> ?S" if "i < n" for i
    using cand [OF that] stripe_offsets_mono [of 0 i] by blast
  have zero: "0 \<in> ?S" using corner [of 0] stripe_offsets_mono [of 0 0 "Suc 0" n] n by force
  have scan: "fold (reduce_step ss read ?xs lt) [0..<n] (Some 0)
      = Some (fold (\<lambda>c acc. if lt (v c) (v acc) then c else acc) (map ?c [0..<n]) 0)"
    using read zero inS by (intro reduce_scan) auto
  have "fold (\<lambda>c acc. if lt (v c) (v acc) then c else acc) (map ?c [0..<n]) 0 = ?best"
  proof (cases "?best = 0")
    case True
    then show ?thesis
      using best inS by (subst scan_keep) (auto simp: first_best_def)
  next
    case False
    from best obtain r c where "?best = r * ss + c * sz" "r < n" "c < w"
      by (auto simp: first_best_def stripe_offsets_def)
    moreover obtain b e where be: "(b, e) \<in> set rs" "b \<le> r" "r < e" "e \<le> n"
      using schedule_owner [OF rs \<open>r < n\<close>] .
    ultimately have inb: "?best \<in> stripe_offsets ss w sz b e"
      by (auto simp: stripe_offsets_def)
    have b: "b < n" using be by linarith
    have "first_best lt v (stripe_offsets ss w sz b e) ?best"
      by (rule first_best_subset [OF best stripe_offsets_mono inb]) (use be in auto)
    then have "b * ss + m b e = ?best"
      using m [of b e] be by (intro first_best_unique [of lt v "stripe_offsets ss w sz b e"]) auto
    moreover have "?xs ! b = m b e"
      using write_locs_nth [OF rs b, of m] be(1) schedule_distinct [OF rs]
      by (force simp: distinct_map inj_on_def)
    ultimately have cb: "?c b = ?best" by simp
    have "?c i < ?best" if ib: "i < b" for i
    proof -
      obtain f where f: "?c i \<in> stripe_offsets ss w sz i f" "f \<le> b"
        using cand [of i] ib b be(1) by (meson less_trans)
      have "?c i < f * ss" by (rule stripe_offsets_bounds(2) [OF f(1) w(2,3)])
      also have "\<dots> \<le> b * ss" using f(2) by (rule mult_le_mono1)
      also have "\<dots> \<le> ?best" by (rule stripe_offsets_bounds(1) [OF inb w(2,3)])
      finally show ?thesis .
    qed
    with best inS b have before: "\<forall>c \<in> set (map ?c [0..<b]). lt (v ?best) (v c)"
      by (auto simp: first_best_def)
    have after: "\<forall>c \<in> set (map ?c [Suc b..<n]). \<not> lt (v c) (v ?best)"
      using first_best_not_worse [OF best] inS by auto
    have start: "lt (v ?best) (v 0)" using best zero False by (auto simp: first_best_def)
    have "[0..<n] = [0..<b] @ b # [Suc b..<n]"
      using b by (metis append_Cons append_Nil less_imp_le upt_append upt_conv_Cons zero_le)
    then have "map ?c [0..<n] = map ?c [0..<b] @ ?best # map ?c [Suc b..<n]"
      using cb by simp
    then show ?thesis using start before after by (rule scan_first)
  qed
  with scan show ?thesis by (simp add: reduce_offset_def)
qed

end

definition min_max_loc_backend ::
    "nat \<Rightarrow> nat min_max_fn \<Rightarrow> nat \<Rightarrow> nat \<Rightarrow> nat \<Rightarrow> nat \<Rightarrow> bool \<Rightarrow> bool
      \<Rightarrow> (nat \<Rightarrow> 'a :: linorder) \<Rightarrow> (nat \<Rightarrow> nat \<Rightarrow> nat) \<Rightarrow> (nat \<Rightarrow> nat \<Rightarrow> nat) \<Rightarrow> bool" where
  "min_max_loc_backend sizeof_T func src src_stride width height p_min p_max v mn mx \<longleftrightarrow>
     (\<forall>b e. b < e \<longrightarrow> e \<le> height \<longrightarrow>
        func (src + b * (src_stride div sizeof_T)) src_stride width (e - b) p_min p_max =
          (KLEIDICV_OK, if p_min then Some (mn b e) else None, if p_max then Some (mx b e) else None)
        \<and> first_best (<) v (stripe_offsets src_stride width sizeof_T b e) (b * src_stride + mn b e)
        \<and> first_best (>) v (stripe_offsets src_stride width sizeof_T b e) (b * src_stride + mx b e))"

lemma run_min_max_loc:
  assumes backend: "min_max_loc_backend sz func src ss w n pmin pmax v m1 m2"
    and rs: "\<forall>r \<in> set rs. fst r < snd r \<and> snd r \<le> n"
  shows "run_ranges (min_max_callback sz func src ss w pmin pmax) rs (mn, mx) =
    (replicate (length rs) KLEIDICV_OK,
     (if pmin then write_locs m1 rs mn else mn), (if pmax then write_locs m2 rs mx else mx))"
  using rs
proof (induction rs arbitrary: mn mx)
  case Nil
  then show ?case by (simp add: write_locs_def)
next
  case (Cons r rs)
  obtain b e where r: "r = (b, e)" by (cases r)
  with Cons.prems have "b < e" "e \<le> n" by auto
  with backend have "func (src + b * (ss div sz)) ss w (e - b) pmin pmax =
      (KLEIDICV_OK, if pmin then Some (m1 b e) else None, if pmax then Some (m2 b e) else None)"
    by (simp add: min_max_loc_backend_def)
  with Cons show ?case
    by (simp add: r min_max_callback_def write_opt_def write_locs_def)
qed

lemma parallel_min_max_loc_whole:
  assumes sched: "scheduler mt max_tasks" and h: "0 < height" "height \<le> max_tasks"
    and w: "0 < width" "width * sizeof_T \<le> src_stride" "0 < sizeof_T"
    and read: "\<forall>p \<in> stripe_offsets src_stride width sizeof_T 0 height. read p = Some (v p)"
    and backend: "min_max_loc_backend sizeof_T func src src_stride width height p_min p_max v mn mx"
    and alloc: "slots_available (malloc 0) 8 height p_min" "slots_available (malloc 1) 8 height p_max"
  shows "parallel_min_max_loc malloc sizeof_T read func mt src src_stride width height p_min p_max
    = Some (func src src_stride width height p_min p_max)"
proof -
  let ?cb = "min_max_callback sizeof_T func src src_stride width p_min p_max"
  let ?mn = "if p_min then replicate height 0 else []"
  let ?mx = "if p_max then replicate height 0 else []"
  obtain rs where rs: "schedule rs height"
    "snd (parallel_batches ?cb mt height 1 (?mn, ?mx)) = snd (run_ranges ?cb rs (?mn, ?mx))"
    "fst (parallel_batches ?cb mt height 1 (?mn, ?mx)) = KLEIDICV_OK
      \<longleftrightarrow> (\<forall>err \<in> set (fst (run_ranges ?cb rs (?mn, ?mx))). err = KLEIDICV_OK)"
    using parallel_one_runs [OF sched h, of ?cb "(?mn, ?mx)"] by blast
  have "\<forall>r \<in> set rs. fst r < snd r \<and> snd r \<le> height"
    using rs(1) by (auto simp: schedule_def covers_once_def)
  note run = run_min_max_loc [OF backend this, of ?mn ?mx]
  have batches: "parallel_batches ?cb mt height 1 (?mn, ?mx) = (KLEIDICV_OK,
      if p_min then write_locs mn rs ?mn else ?mn, if p_max then write_locs mx rs ?mx else ?mx)"
    using rs(2,3) run by (simp add: prod_eq_iff)
  note elems = wanted_slots [OF alloc(1) h(1)] wanted_slots [OF alloc(2) h(1)]
  have whole: "func src src_stride width height p_min p_max =
      (KLEIDICV_OK, if p_min then Some (mn 0 height) else None, if p_max then Some (mx 0 height) else None)"
    using backend [unfolded min_max_loc_backend_def, rule_format, of 0 height] h by simp
  have best: "reduce_offset src_stride read (write_locs mn rs (replicate height 0)) height True (<)
      = Some (Some (mn 0 height))"
    "reduce_offset src_stride read (write_locs mx rs (replicate height 0)) height True (>)
      = Some (Some (mx 0 height))"
    using backend by (auto intro!: ascending.reduce_offset_first [OF rs(1) h(1) w read]
        descending.reduce_offset_first [OF rs(1) h(1) w read] simp: min_max_loc_backend_def)
  have v: "max 1 height = height" using h(1) by simp
  have ok: "fst (if p_min then ha_allocate_and_fill (malloc 0) 8 0 height (0 :: nat) ha_empty
         else (True, ha_empty))"
    "fst (if p_max then ha_allocate_and_fill (malloc 1) 8 0 height (0 :: nat) ha_empty
         else (True, ha_empty))"
    by (simp_all add: slots_available_alloc [OF alloc(1) _ h(1)]
        slots_available_alloc [OF alloc(2) _ h(1)] del: One_nat_def)
  show ?thesis
    unfolding parallel_min_max_loc_def Let_def whole v elems batches
    using ok best by (cases p_min; cases p_max) (simp_all add: reduce_offset_def)
qed

text \<open>
  C4. The threaded location of the minimum and maximum is that of one call, ties included: the first
  offset in row order, for any schedule, although the slots of rows inside a batch are never
  written and the scan sees the first element of those rows instead.
\<close>

theorem parallel_min_max_loc_one_call:
  assumes sched: "scheduler mt max_tasks" and h: "0 < height" "height \<le> max_tasks"
    and w: "0 < width" "width * sizeof_T \<le> src_stride" "0 < sizeof_T"
    and read: "\<forall>p \<in> stripe_offsets src_stride width sizeof_T 0 height. read p = Some (v p)"
    and backend: "min_max_loc_backend sizeof_T func src src_stride width height p_min p_max v mn mx"
    and alloc: "slots_available (malloc 0) 8 height p_min" "slots_available (malloc 1) 8 height p_max"
  shows "parallel_min_max_loc malloc sizeof_T read func mt src src_stride width height p_min p_max
    = Some (func src src_stride width height p_min p_max)"
  using assms by (rule parallel_min_max_loc_whole)

text \<open>The image 5 1 / 1 7: its minimum occurs twice.\<close>

definition example_pixel :: "nat \<Rightarrow> nat" where
  "example_pixel = (!) [5, 1, 1, 7]"

definition example_loc :: "nat min_max_fn" where
  "example_loc src src_stride width height p_min p_max =
     (KLEIDICV_OK, if p_min then Some (if src = 0 then 1 else 0) else None,
      if p_max then Some (if src = 0 then (if height = 1 then 0 else 3) else 1) else None)"

lemma stripe_offsets_dense: "0 < w \<Longrightarrow> stripe_offsets w w 1 b e = {b * w..<e * w}"
proof (intro set_eqI iffI)
  fix x
  assume "0 < w" "x \<in> {b * w..<e * w}"
  then have "b \<le> x div w" "x div w < e" "x mod w < w" "x = x div w * w + x mod w * 1"
    by (simp_all add: less_eq_div_iff_mult_less_eq div_less_iff_less_mult)
  then show "x \<in> stripe_offsets w w 1 b e" unfolding stripe_offsets_def by blast
next
  fix x
  assume "0 < w" "x \<in> stripe_offsets w w 1 b e"
  then show "x \<in> {b * w..<e * w}" using stripe_offsets_bounds [of x w w 1 b e] by auto
qed

lemma example_loc_backend:
  "min_max_loc_backend 1 example_loc 0 2 2 2 True True example_pixel
     (\<lambda>b e. if b = 0 then 1 else 0) (\<lambda>b e. if b = 0 then (if e = 1 then 0 else 3) else 1)"
proof -
  have ranges: "b = 0 \<and> e = 1 \<or> b = 0 \<and> e = 2 \<or> b = 1 \<and> e = 2" if "b < e" "e \<le> (2 :: nat)" for b e
    using that by linarith
  have sets: "{0..<2 :: nat} = {0, 1}" "{2..<4 :: nat} = {2, 3}" "{0..<4 :: nat} = {0, 1, 2, 3}"
    by auto
  show ?thesis
    unfolding min_max_loc_backend_def stripe_offsets_dense [OF zero_less_numeral]
  proof (intro allI impI)
    fix b e :: nat
    assume "b < e" "e \<le> 2"
    from ranges [OF this] show "example_loc (0 + b * (2 div 1)) 2 2 (e - b) True True =
        (KLEIDICV_OK, if True then Some (if b = 0 then 1 else 0) else None,
         if True then Some (if b = 0 then if e = 1 then 0 else 3 else 1) else None)
      \<and> first_best (<) example_pixel {b * 2..<e * 2} (b * 2 + (if b = 0 then 1 else 0))
      \<and> first_best (>) example_pixel {b * 2..<e * 2}
          (b * 2 + (if b = 0 then if e = 1 then 0 else 3 else 1))"
      by (elim disjE conjE) (simp_all add: example_loc_def first_best_def example_pixel_def sets)
  qed
qed

theorem parallel_min_max_loc_one_call_witness:
  "parallel_min_max_loc (\<lambda>_ _. True) 1 (\<lambda>p. Some (example_pixel p)) example_loc (example_parallel 2)
     0 2 2 2 True True = Some (KLEIDICV_OK, Some 1, Some 3)"
  using parallel_min_max_loc_one_call [OF two_workers, of 2 2 1 2 "\<lambda>p. Some (example_pixel p)"
      example_pixel example_loc 0 True True _ _ "\<lambda>_ _. True", OF _ _ _ _ _ _ example_loc_backend]
  by (simp add: slots_available_def size_max_def example_loc_def)

text \<open>
  The scan of the slots starts at the first element of the image: it reads it whatever the batches
  have returned. With a null source, which the single-threaded operation refuses without a read,
  the threaded one reads through the null pointer, and the result is undefined.
\<close>

lemma reduce_step_stuck: "fold (reduce_step ss read xs lt) is None = None"
  by (induction "is") (simp_all add: reduce_step_def)

lemma reduce_offset_no_read:
  assumes "0 < n" and "read 0 = None"
  shows "reduce_offset ss read xs n True lt = None"
proof -
  have "reduce_step ss read xs lt 0 (Some 0) = None"
    using assms(2) by (simp add: reduce_step_def Let_def split: option.split)
  then show ?thesis
    using assms(1) by (simp add: reduce_offset_def upt_conv_Cons reduce_step_stuck)
qed

lemma parallel_min_max_loc_reads_source:
  assumes "0 < height" and "p_min \<or> p_max" and "read 0 = None"
    and alloc: "slots_available (malloc 0) 8 height p_min" "slots_available (malloc 1) 8 height p_max"
  shows "parallel_min_max_loc malloc sizeof_T read func mt src src_stride width height p_min p_max = None"
proof -
  have "max 1 height = height" using assms(1) by simp
  moreover have "fst (if p_min then ha_allocate_and_fill (malloc 0) 8 0 height (0 :: nat) ha_empty
         else (True, ha_empty))"
    "fst (if p_max then ha_allocate_and_fill (malloc 1) 8 0 height (0 :: nat) ha_empty
         else (True, ha_empty))"
    by (simp_all add: slots_available_alloc [OF alloc(1) _ assms(1)]
        slots_available_alloc [OF alloc(2) _ assms(1)] del: One_nat_def)
  ultimately show ?thesis
    unfolding parallel_min_max_loc_def Let_def using assms(2)
    by (cases p_min; cases p_max)
      (simp_all add: reduce_offset_no_read [where read = read, OF assms(1,3)] split: prod.split option.split del: One_nat_def)
qed

end
