(* ===== verification/Min_Max_Loc.thy ===== *)
theory Min_Max_Loc
  imports Block_Sinks Thread_Reduce
begin

text \<open>
  The location of the first minimum and the first maximum of an image of bytes
  (\<^verbatim>\<open>analysis/min_max_loc_neon.cpp\<close>). Per lane the vector path keeps the extreme and
  the number of the vector it was seen in, counted within a block; between blocks the extreme is
  spread over all lanes, so that only better elements are noticed. The elements that do not fill a
  vector are handled one by one. The code keeps two copies of every variable, for minimum and
  maximum; the model keeps one record for each and takes the comparison as an argument.
\<close>

section \<open>Instructions\<close>

text \<open>\<^verbatim>\<open>vcltq_u8\<close> or \<^verbatim>\<open>vcgtq_u8\<close>, \<^verbatim>\<open>vminq_u8\<close> or \<^verbatim>\<open>vmaxq_u8\<close>, and their horizontal reductions.\<close>

definition vbetterq :: "(u8 \<Rightarrow> u8 \<Rightarrow> bool) \<Rightarrow> u8 list \<Rightarrow> u8 list \<Rightarrow> u8 list" where
  "vbetterq better = map2 (\<lambda>a b. lane_mask (better a b))"

definition lane_best :: "(u8 \<Rightarrow> u8 \<Rightarrow> bool) \<Rightarrow> u8 \<Rightarrow> u8 \<Rightarrow> u8" where
  "lane_best better a b = (if better b a then b else a)"

definition vbestq :: "(u8 \<Rightarrow> u8 \<Rightarrow> bool) \<Rightarrow> u8 list \<Rightarrow> u8 list \<Rightarrow> u8 list" where
  "vbestq better = map2 (lane_best better)"

definition vbestvq :: "(u8 \<Rightarrow> u8 \<Rightarrow> bool) \<Rightarrow> u8 list \<Rightarrow> u8" where
  "vbestvq better v = fold (\<lambda>b a. lane_best better a b) (tl v) (hd v)"

text \<open>\<^verbatim>\<open>vcleq\<close> or \<^verbatim>\<open>vcgeq\<close>: not worse.\<close>

definition vnot_worseq :: "(u8 \<Rightarrow> u8 \<Rightarrow> bool) \<Rightarrow> u8 list \<Rightarrow> u8 list \<Rightarrow> u8 list" where
  "vnot_worseq better = map2 (\<lambda>a b. lane_mask (\<not> better b a))"

definition vceqzq_u8 :: "u8 list \<Rightarrow> u8 list" where
  "vceqzq_u8 = map (\<lambda>x. lane_mask (x = 0))"

text \<open>The lanes of a vector of bytes read as words of \<open>n\<close> bytes.\<close>

definition lane_bytes :: "nat \<Rightarrow> nat \<Rightarrow> u8 list \<Rightarrow> 'a::len word" where
  "lane_bytes n i v = foldr (\<lambda>b w. push_bit 8 w OR ucast b) (take n (drop (n * i) v)) 0"

definition vreinterpretq_u32_u8 :: "u8 list \<Rightarrow> u32 list" where
  "vreinterpretq_u32_u8 v = map (\<lambda>i. lane_bytes 4 i v) [0..<4]"

definition vmaxvq_u32 :: "u32 list \<Rightarrow> u32" where
  "vmaxvq_u32 v = fold max (tl v) (hd v)"

definition vgetq_lane_u64 :: "nat \<Rightarrow> u8 list \<Rightarrow> u64" where
  "vgetq_lane_u64 i v = lane_bytes 8 i v"

text \<open>Trailing zero bits; the builtin is undefined for 0, to which the code does not apply it.\<close>

definition builtin_ctzll :: "u64 \<Rightarrow> nat" where
  "builtin_ctzll w = length (takeWhile (\<lambda>n. \<not> bit w n) [0..<64])"

section \<open>The operation\<close>

record LocHalf =
  v_best :: "u8 list"
  v_best_new :: "u8 list"
  v_offsets :: "u8 list"
  v_offsets_new :: "u8 list"
  block_index :: nat
  best_vector :: u8
  best_scalar :: u8
  best_scalar_index :: nat

record MinMaxLoc =
  loc_min :: LocHalf
  loc_max :: LocHalf
  v_running_offset :: "u8 list"
  running_index :: nat

definition LocHalf_init :: "u8 \<Rightarrow> LocHalf" where
  "LocHalf_init worst =
     \<lparr>v_best = vdupq_n worst, v_best_new = vdupq_n worst, v_offsets = vdupq_n 0,
      v_offsets_new = vdupq_n 0, block_index = 0, best_vector = worst, best_scalar = worst,
      best_scalar_index = 0\<rparr>"

definition MinMaxLoc_init :: MinMaxLoc where
  "MinMaxLoc_init =
     \<lparr>loc_min = LocHalf_init 255, loc_max = LocHalf_init 0, v_running_offset = vdupq_n 1,
      running_index = 0\<rparr>"

definition half_vector_path :: "(u8 \<Rightarrow> u8 \<Rightarrow> bool) \<Rightarrow> u8 list \<Rightarrow> u8 list \<Rightarrow> LocHalf \<Rightarrow> LocHalf" where
  "half_vector_path better offset src h =
     (let is_better = vbetterq better src (v_best_new h) in
      h\<lparr>v_offsets_new := vbslq is_better offset (v_offsets_new h),
        v_best_new := vbestq better (v_best_new h) src\<rparr>)"

definition loc_vector_path :: "u8 list \<Rightarrow> MinMaxLoc \<Rightarrow> MinMaxLoc" where
  "loc_vector_path src s =
     s\<lparr>loc_min := half_vector_path (<) (v_running_offset s) src (loc_min s),
       loc_max := half_vector_path (>) (v_running_offset s) src (loc_max s),
       v_running_offset := map2 (+) (v_running_offset s) (vdupq_n 1)\<rparr>"

definition half_scalar_path :: "(u8 \<Rightarrow> u8 \<Rightarrow> bool) \<Rightarrow> nat \<Rightarrow> u8 \<Rightarrow> LocHalf \<Rightarrow> LocHalf" where
  "half_scalar_path better index src h =
     (if better src (best_scalar h) then h\<lparr>best_scalar := src, best_scalar_index := index\<rparr> else h)"

definition loc_scalar_path :: "u8 \<Rightarrow> MinMaxLoc \<Rightarrow> MinMaxLoc" where
  "loc_scalar_path src s =
     s\<lparr>loc_min := half_scalar_path (<) (running_index s) src (loc_min s),
       loc_max := half_scalar_path (>) (running_index s) src (loc_max s),
       running_index := running_index s + 1\<rparr>"

definition half_block_finished :: "(u8 \<Rightarrow> u8 \<Rightarrow> bool) \<Rightarrow> nat \<Rightarrow> LocHalf \<Rightarrow> LocHalf" where
  "half_block_finished better index h =
     (let best = vbestvq better (v_best_new h);
          no_update = vceqzq_u8 (v_offsets_new h)
      in h\<lparr>best_vector := best,
           block_index := (if vmaxvq_u32 (vreinterpretq_u32_u8 (v_offsets_new h)) \<noteq> 0 then index
             else block_index h),
           v_offsets := vbslq no_update (v_offsets h) (v_offsets_new h),
           v_best := vbslq no_update (v_best h) (v_best_new h),
           v_best_new := vdupq_n best, v_offsets_new := vdupq_n 0\<rparr>)"

definition loc_on_block_finished :: "nat \<Rightarrow> MinMaxLoc \<Rightarrow> MinMaxLoc" where
  "loc_on_block_finished vectors s =
     s\<lparr>loc_min := half_block_finished (<) (running_index s) (loc_min s),
       loc_max := half_block_finished (>) (running_index s) (loc_max s),
       running_index := running_index s + vectors * num_lanes_of TYPE(8),
       v_running_offset := vdupq_n 1\<rparr>"

definition loc_max_vectors_per_block :: nat where
  "loc_max_vectors_per_block = 255 - 1"

definition lane_of_first_smallest :: "u8 list \<Rightarrow> u8 \<Rightarrow> nat" where
  "lane_of_first_smallest v smallest =
     (let flags = vcleq False v (vdupq_n smallest);
          lower = vgetq_lane_u64 0 flags;
          lane = (if lower = 0 then 8 else 0);
          halfvector = (if lane \<noteq> 0 then vgetq_lane_u64 1 flags else lower)
      in lane + builtin_ctzll halfvector div 8)"

definition selected_offsets :: "(u8 \<Rightarrow> u8 \<Rightarrow> bool) \<Rightarrow> LocHalf \<Rightarrow> u8 list" where
  "selected_offsets better h =
     vbslq (vnot_worseq better (v_best h) (v_best_new h)) (v_offsets h) (vdupq_n 255)"

definition best_index :: "(u8 \<Rightarrow> u8 \<Rightarrow> bool) \<Rightarrow> LocHalf \<Rightarrow> nat" where
  "best_index better h =
     (if better (best_scalar h) (best_vector h) then best_scalar_index h
      else
        (let selected = selected_offsets better h;
             earliest_offset = vminvq False selected
         in if earliest_offset = 0 then best_scalar_index h
            else
              (let lane = lane_of_first_smallest selected earliest_offset;
                   vector_index = block_index h + (unat earliest_offset - 1) * num_lanes_of TYPE(8) + lane
               in if better (best_vector h) (best_scalar h) \<or> vector_index < best_scalar_index h
                  then vector_index else best_scalar_index h)))"

definition min_index :: "MinMaxLoc \<Rightarrow> nat" where
  "min_index s = best_index (<) (loc_min s)"

definition max_index :: "MinMaxLoc \<Rightarrow> nat" where
  "max_index s = best_index (>) (loc_max s)"

definition min_max_loc ::
    "mem \<Rightarrow> nat \<Rightarrow> nat \<Rightarrow> nat \<Rightarrow> nat \<Rightarrow> bool \<Rightarrow> bool
      \<Rightarrow> (kleidicv_error_t \<times> nat option \<times> nat option) option" where
  "min_max_loc m src src_stride w h min_offset max_offset =
     (let err = checks [check_pointer_and_stride 1 src src_stride h, check_image_size w h];
          src_rows = single_channel_rows 1 src src_stride
      in if err \<noteq> KLEIDICV_OK then Some (err, None, None)
         else if w = 0 \<or> h = 0 then Some (KLEIDICV_ERROR_RANGE, None, None)
         else map_option (\<lambda>op. (KLEIDICV_OK,
             if min_offset then Some (offset_for_index src_rows (min_index op) w) else None,
             if max_offset then Some (offset_for_index src_rows (max_index op) w) else None))
           (apply_block_operation_by_rows
             (block_sink_operation m loc_vector_path loc_scalar_path loc_max_vectors_per_block
               loc_on_block_finished)
             \<lparr>rectangle_width = w, rectangle_height = h\<rparr> [src_rows] MinMaxLoc_init))"

section \<open>Facts about the instructions\<close>

lemma vbslq_lane:
  assumes "length s = length v" and "length v = length w" and "i < length s" and "s ! i = lane_mask c"
  shows "vbslq s v w ! i = (if c then v ! i else w ! i)"
  using assms by (simp add: vbslq_def lane_mask_def)

lemma vbslq_length [simp]: "length (vbslq s v w) = min (length s) (min (length v) (length w))"
  by (simp add: vbslq_def)

lemma lane_bytes_zero:
  assumes "n * 8 \<le> LENGTH('a::len)" and "n * i + n \<le> length v"
  shows "(lane_bytes n i v :: 'a word) = 0 \<longleftrightarrow> (\<forall>j < n. v ! (n * i + j) = 0)"
proof
  let ?bs = "take n (drop (n * i) v)"
  have len: "length ?bs = n" using assms(2) by simp
  { assume z: "(lane_bytes n i v :: 'a word) = 0"
    show "\<forall>j < n. v ! (n * i + j) = 0"
    proof (intro allI impI)
      fix j
      assume j: "j < n"
      show "v ! (n * i + j) = 0"
      proof (rule bit_word_eqI)
        fix b
        assume "b < LENGTH(8)"
        then have b: "(8 * j + b) div 8 = j" "(8 * j + b) mod 8 = b" by simp_all
        have "\<not> bit (lane_bytes n i v :: 'a word) (8 * j + b)" using z by simp
        moreover have "8 * j + b < LENGTH('a)" using j assms(1) \<open>b < LENGTH(8)\<close> by simp
        ultimately have "\<not> bit (?bs ! j) b"
          using j len b by (simp only: lane_bytes_def bit_bytes) blast
        with j assms(2) b(2) show "bit (v ! (n * i + j)) b \<longleftrightarrow> bit (0 :: u8) b" by (simp add: nth_drop)
      qed
    qed
  }
  { assume "\<forall>j < n. v ! (n * i + j) = 0"
    then have "\<forall>j < n. ?bs ! j = 0" using assms(2) by simp
    then have "\<not> bit (lane_bytes n i v :: 'a word) b" for b
      using len by (simp add: lane_bytes_def bit_bytes)
    then show "(lane_bytes n i v :: 'a word) = 0" by (simp add: bit_eq_iff)
  }
qed

text \<open>The test for an update of any lane.\<close>

lemma vmaxvq_u32_zero:
  assumes "v \<noteq> []"
  shows "vmaxvq_u32 v = 0 \<longleftrightarrow> (\<forall>x \<in> set v. x = 0)"
proof -
  have "max a b = 0 \<longleftrightarrow> a = 0 \<and> b = 0" for a b :: u32
    using max.bounded_iff [of a b 0] by (simp only: word_le_0_iff)
  then have "fold max xs a = 0 \<longleftrightarrow> a = 0 \<and> (\<forall>x \<in> set xs. x = 0)" for xs and a :: u32
    by (induction xs arbitrary: a) auto
  with assms show ?thesis by (cases v) (simp_all add: vmaxvq_u32_def)
qed

lemma any_lane_set:
  assumes "length v = 16"
  shows "vmaxvq_u32 (vreinterpretq_u32_u8 v) \<noteq> 0 \<longleftrightarrow> (\<exists>l < 16. v ! l \<noteq> 0)"
proof -
  have word: "lane_bytes 4 i v = (0 :: u32) \<longleftrightarrow> (\<forall>j < 4. v ! (4 * i + j) = 0)" if "i < 4" for i
    using that assms by (intro lane_bytes_zero) simp_all
  have "vmaxvq_u32 (vreinterpretq_u32_u8 v) = 0 \<longleftrightarrow> (\<forall>i < 4. lane_bytes 4 i v = (0 :: u32))"
    by (subst vmaxvq_u32_zero) (auto simp: vreinterpretq_u32_u8_def)
  also have "\<dots> \<longleftrightarrow> (\<forall>i < 4. \<forall>j < 4. v ! (4 * i + j) = 0)" using word by blast
  also have "\<dots> \<longleftrightarrow> (\<forall>l < 16. v ! l = 0)"
  proof (intro iffI allI impI)
    fix l :: nat
    assume "\<forall>i < 4. \<forall>j < 4. v ! (4 * i + j) = 0" and "l < 16"
    moreover from this have "l div 4 < 4" "l mod 4 < 4" by simp_all
    ultimately show "v ! l = 0" by (metis mult_div_mod_eq)
  qed simp
  finally show ?thesis by blast
qed

lemma ctz_bytes:
  assumes "length bs = 8" and "k < 8" and "\<forall>j < k. bs ! j = 0" and "bs ! k = (- 1 :: u8)"
  shows "builtin_ctzll (foldr (\<lambda>b w. push_bit 8 w OR ucast b) bs 0) = 8 * k"
proof -
  let ?w = "foldr (\<lambda>b w. push_bit 8 w OR ucast b) bs 0 :: u64"
  have low: "\<not> bit ?w n" if "n < 8 * k" for n
  proof -
    have "n div 8 < k" using that by (simp add: div_less_iff_less_mult mult.commute)
    with assms(3) show ?thesis by (simp add: bit_bytes)
  qed
  have high: "bit ?w (8 * k)" using assms by (simp add: bit_bytes)
  have "[0..<64 :: nat] = [0..<8 * k] @ (8 * k) # [Suc (8 * k)..<64]"
    using assms(2) upt_add_eq_append [of 0 "8 * k" "64 - 8 * k"] by (simp add: upt_conv_Cons)
  then have "takeWhile (\<lambda>n. \<not> bit ?w n) [0..<64] = [0..<8 * k]"
    using low high takeWhile_append2 [of "[0..<8 * k]" "\<lambda>n. \<not> bit ?w n"] by simp
  then show ?thesis by (simp add: builtin_ctzll_def)
qed

lemma lane_of_first_smallest_eq:
  assumes "length v = 16" and "l < 16" and "v ! l \<le> x" and "\<forall>k < l. \<not> v ! k \<le> x"
  shows "lane_of_first_smallest v x = l"
proof -
  let ?f = "vcleq False v (vdupq_n x)"
  have len: "length ?f = 16" using assms(1) by (simp add: vcleq_def vdupq_n_def num_lanes_of_def)
  have f: "?f ! k = lane_mask (v ! k \<le> x)" if "k < 16" for k
    using that assms(1)
    by (simp add: vcleq_def vdupq_n_def num_lanes_of_def lane_value_def word_le_def)
  have lower: "vgetq_lane_u64 0 ?f = 0 \<longleftrightarrow> 8 \<le> l"
  proof -
    have "vgetq_lane_u64 0 ?f = 0 \<longleftrightarrow> (\<forall>j < 8. \<not> v ! j \<le> x)"
      unfolding vgetq_lane_u64_def using len f by (subst lane_bytes_zero) (auto simp: lane_mask_def)
    with assms(3,4) show ?thesis by (metis leD leI order_less_le_trans)
  qed
  have half: "builtin_ctzll (vgetq_lane_u64 i ?f) = 8 * k"
    if "l = 8 * i + k" "k < 8" "i < 2" for i k
    unfolding vgetq_lane_u64_def lane_bytes_def
  proof (rule ctz_bytes)
    show "length (take 8 (drop (8 * i) ?f)) = 8" using that(3) len by simp
    show "k < 8" by fact
    show "\<forall>j < k. take 8 (drop (8 * i) ?f) ! j = 0"
      using that len f assms(4) by (simp add: lane_mask_def)
    show "take 8 (drop (8 * i) ?f) ! k = - 1"
      using that len f assms(2,3) by (simp add: lane_mask_def)
  qed
  show ?thesis
  proof (cases "8 \<le> l")
    case True
    then show ?thesis using lower half [of 1 "l - 8"] assms(2)
      by (simp add: lane_of_first_smallest_def Let_def)
  next
    case False
    then show ?thesis using lower half [of 0 l]
      by (simp add: lane_of_first_smallest_def Let_def)
  qed
qed


lemma vminvq_least:
  assumes "x \<in> set v" and "\<forall>y \<in> set v. lane_value s x \<le> lane_value s y"
  shows "vminvq s v = (x :: 'a::len word)"
proof -
  let ?t = "type_max s TYPE('a)"
  have "v \<noteq> []" using assms(1) by auto
  have "Min (lane_value s ` set v) = lane_value s x"
    using assms by (intro Min_eqI) auto
  then have "list_min s v ?t = lane_value s x"
    using list_min_Min [OF \<open>v \<noteq> []\<close>, of s ?t] by (simp add: lane_value_bounds)
  then have "min ?t (lane_value s (vminvq s v)) = lane_value s x"
    by (simp add: vminvq_value [OF \<open>v \<noteq> []\<close>])
  then have "lane_value s (vminvq s v) = lane_value s x"
    using lane_value_bounds(2) [of s "vminvq s v"] by (simp add: min_absorb2)
  then show ?thesis by (simp add: lane_value_inject)
qed

section \<open>Tracking the first best position\<close>

text \<open>
  What has been seen of the elements at the positions \<open>A\<close> by a search that starts with the value
  \<open>start\<close>: either nothing better, or the first of the best.
\<close>

definition tracks :: "('a \<Rightarrow> 'a \<Rightarrow> bool) \<Rightarrow> 'a list \<Rightarrow> nat set \<Rightarrow> 'a \<Rightarrow> 'a \<Rightarrow> nat option \<Rightarrow> bool" where
  "tracks better xs A start best r \<longleftrightarrow>
     (case r of
        None \<Rightarrow> best = start \<and> (\<forall>a \<in> A. \<not> better (xs ! a) start)
      | Some p \<Rightarrow> first_best better ((!) xs) A p \<and> best = xs ! p \<and> better best start)"

lemma tracks_empty: "tracks better xs {} start start None"
  by (simp add: tracks_def)

lemma tracks_append:
  assumes "A \<subseteq> {..<length xs}"
  shows "tracks better (xs @ ys) A start best r \<longleftrightarrow> tracks better xs A start best r"
proof -
  have "(xs @ ys) ! a = xs ! a" if "a \<in> A" for a using assms that by (auto simp: nth_append)
  then show ?thesis
    by (auto simp: tracks_def first_best_def split: option.split)
qed

text \<open>A search that goes on behind where it was, with what it had found.\<close>

definition later :: "nat option \<Rightarrow> nat option \<Rightarrow> nat option" where
  "later r r' = (case r' of None \<Rightarrow> r | Some p \<Rightarrow> Some p)"

context strict_order
begin

lemma not_lt_trans: "\<not> lt b a \<Longrightarrow> \<not> lt c b \<Longrightarrow> \<not> lt c a"
  using total transitive by metis

lemma lt_not_trans: "lt a b \<Longrightarrow> \<not> lt c b \<Longrightarrow> lt a c"
  using total transitive by metis

lemma not_lt_lt_trans: "\<not> lt b a \<Longrightarrow> lt b c \<Longrightarrow> lt a c"
  using total transitive by metis

lemma tracks_chain:
  assumes old: "tracks lt xs A start best r" and new: "tracks lt xs B best best' r'"
    and order: "\<forall>a \<in> A. \<forall>b \<in> B. a < b"
  shows "tracks lt xs (A \<union> B) start best' (later r r')"
proof (cases r')
  case None
  with new have n: "best' = best" "\<forall>b \<in> B. \<not> lt (xs ! b) best" by (simp_all add: tracks_def)
  show ?thesis
  proof (cases r)
    case None
    with old n \<open>r' = None\<close> show ?thesis by (auto simp: tracks_def later_def)
  next
    case (Some p)
    with old n \<open>r' = None\<close> order show ?thesis
      by (auto simp: tracks_def later_def first_best_def dest: order_less_not_sym)
  qed
next
  case (Some p)
  with new have n: "first_best lt ((!) xs) B p" "best' = xs ! p" "lt (xs ! p) best"
    by (auto simp: tracks_def)
  then have p: "p \<in> B" by (simp add: first_best_def)
  have worse: "lt (xs ! p) (xs ! a)" if "a \<in> A" for a
  proof (cases r)
    case None
    with old that n(3) show ?thesis by (auto simp: tracks_def intro: lt_not_trans)
  next
    case (Some q)
    with old that have "\<not> lt (xs ! a) best"
      using asym by (auto simp: tracks_def first_best_def split: if_splits)
    with n(3) show ?thesis by (rule lt_not_trans)
  qed
  have "lt best' start"
  proof (cases r)
    case None
    with old n show ?thesis by (simp add: tracks_def)
  next
    case (Some q)
    with old n show ?thesis by (auto simp: tracks_def intro: transitive)
  qed
  then show ?thesis
    using n Some worse order p by (auto simp: tracks_def later_def first_best_def)
qed

lemma tracks_one:
  "tracks lt xs {p} best (if lt (xs ! p) best then xs ! p else best) (if lt (xs ! p) best then Some p else None)"
  by (simp add: tracks_def first_best_def irreflexive)

end

section \<open>The state of the search\<close>

definition lane_positions :: "nat \<Rightarrow> nat \<Rightarrow> nat \<Rightarrow> nat set" where
  "lane_positions base k l = (\<lambda>j. base + 16 * j + l) ` {..<k}"

text \<open>Lane \<open>l\<close>, \<open>k\<close> vectors into the block that begins at \<open>base\<close>.\<close>

definition lane_sees :: "(u8 \<Rightarrow> u8 \<Rightarrow> bool) \<Rightarrow> u8 list \<Rightarrow> nat \<Rightarrow> nat \<Rightarrow> LocHalf \<Rightarrow> nat \<Rightarrow> bool" where
  "lane_sees better xs base k h l \<longleftrightarrow>
     (\<exists>r. tracks better xs (lane_positions base k l) (best_vector h) (v_best_new h ! l) r
       \<and> (case r of
            None \<Rightarrow> v_offsets_new h ! l = 0
          | Some p \<Rightarrow> \<exists>j < k. p = base + 16 * j + l \<and> v_offsets_new h ! l = of_nat (j + 1)))"

text \<open>The lanes with the best value, and where the first of them was seen.\<close>

definition located :: "(u8 \<Rightarrow> u8 \<Rightarrow> bool) \<Rightarrow> LocHalf \<Rightarrow> nat option \<Rightarrow> bool" where
  "located better h r \<longleftrightarrow>
     (\<forall>l < 16. \<not> better (v_best h ! l) (best_vector h))
     \<and> (case r of
          None \<Rightarrow> (\<forall>l < 16. v_offsets h ! l = 0 \<and> \<not> better (best_vector h) (v_best h ! l))
        | Some p \<Rightarrow> (\<exists>l < 16. \<not> better (best_vector h) (v_best h ! l)
            \<and> p = block_index h + (unat (v_offsets h ! l) - 1) * 16 + l
            \<and> (\<forall>l' < 16. \<not> better (best_vector h) (v_best h ! l') \<longrightarrow>
                 0 < unat (v_offsets h ! l') \<and> unat (v_offsets h ! l') < 255
                 \<and> (unat (v_offsets h ! l) < unat (v_offsets h ! l')
                    \<or> v_offsets h ! l = v_offsets h ! l' \<and> l \<le> l'))))"

definition half_lengths :: "LocHalf \<Rightarrow> bool" where
  "half_lengths h \<longleftrightarrow> length (v_best h) = 16 \<and> length (v_best_new h) = 16
     \<and> length (v_offsets h) = 16 \<and> length (v_offsets_new h) = 16"

definition half_sees :: "(u8 \<Rightarrow> u8 \<Rightarrow> bool) \<Rightarrow> u8 \<Rightarrow> nat \<Rightarrow> nat \<Rightarrow> u8 list \<Rightarrow> LocHalf \<Rightarrow> bool" where
  "half_sees better worst k base xs h \<longleftrightarrow> half_lengths h
     \<and> (\<exists>S V rs rv. S \<union> V = {..<base} \<and> tracks better xs S worst (best_scalar h) rs
         \<and> best_scalar_index h = (case rs of None \<Rightarrow> 0 | Some p \<Rightarrow> p)
         \<and> tracks better xs V worst (best_vector h) rv \<and> located better h rv)
     \<and> (\<forall>l < 16. lane_sees better xs base k h l)"

lemma half_seesI:
  assumes "half_lengths h" and "S \<union> V = {..<base}" and "tracks better xs S worst (best_scalar h) rs"
    and "best_scalar_index h = (case rs of None \<Rightarrow> 0 | Some p \<Rightarrow> p)"
    and "tracks better xs V worst (best_vector h) rv" and "located better h rv"
    and "\<And>l. l < 16 \<Longrightarrow> lane_sees better xs base k h l"
  shows "half_sees better worst k base xs h"
  unfolding half_sees_def
proof (intro conjI allI impI)
  show "\<exists>S V rs rv. S \<union> V = {..<base} \<and> tracks better xs S worst (best_scalar h) rs
      \<and> best_scalar_index h = (case rs of None \<Rightarrow> 0 | Some p \<Rightarrow> p)
      \<and> tracks better xs V worst (best_vector h) rv \<and> located better h rv"
    by (rule exI [of _ S], rule exI [of _ V], rule exI [of _ rs], rule exI [of _ rv])
      (intro conjI assms)
qed (intro assms)+

lemma half_seesE:
  assumes "half_sees better worst k base xs h"
  obtains S V rs rv where "half_lengths h" and "S \<union> V = {..<base}"
    and "tracks better xs S worst (best_scalar h) rs"
    and "best_scalar_index h = (case rs of None \<Rightarrow> 0 | Some p \<Rightarrow> p)"
    and "tracks better xs V worst (best_vector h) rv" and "located better h rv"
    and "\<forall>l < 16. lane_sees better xs base k h l"
  using assms unfolding half_sees_def by (elim conjE exE) (rule that; simp)

lemma lane_positions_Suc:
  "lane_positions base (Suc k) l = lane_positions base k l \<union> {base + 16 * k + l}"
  by (auto simp: lane_positions_def lessThan_Suc)

lemma lane_positions_bound: "l < 16 \<Longrightarrow> lane_positions base k l \<subseteq> {base..<base + 16 * k}"
  by (auto simp: lane_positions_def)

lemma lane_positions_cover: "{base..<base + 16 * k} = (\<Union>l<16. lane_positions base k l)"
proof (intro equalityI subsetI)
  fix p
  assume p: "p \<in> {base..<base + 16 * k}"
  then have "p - base < k * 16" by auto
  with p have "p = base + 16 * ((p - base) div 16) + (p - base) mod 16" "(p - base) div 16 < k"
    by (simp_all add: div_less_iff_less_mult)
  then have "p \<in> lane_positions base k ((p - base) mod 16)" unfolding lane_positions_def by blast
  then show "p \<in> (\<Union>l<16. lane_positions base k l)" by (intro UN_I) simp_all
qed (use lane_positions_bound in blast)


text \<open>
  What the search for minimum and the search for maximum rely on: a strict order of bytes and the
  value to start with, which is not better than any other.
\<close>

locale byte_search = strict_order better for better :: "u8 \<Rightarrow> u8 \<Rightarrow> bool" +
  fixes worst :: u8
  assumes no_worse: "\<not> better worst x"
begin

lemma vbestvq_best:
  assumes "v \<noteq> []"
  shows "vbestvq better v \<in> set v" and "\<forall>x \<in> set v. \<not> better x (vbestvq better v)"
proof -
  have "fold (\<lambda>b a. lane_best better a b) xs x \<in> insert x (set xs)
    \<and> (\<forall>y \<in> insert x (set xs). \<not> better y (fold (\<lambda>b a. lane_best better a b) xs x))" for xs x
  proof (induction xs arbitrary: x)
    case (Cons z xs)
    let ?r = "fold (\<lambda>b a. lane_best better a b) xs (lane_best better x z)"
    have "\<not> better (lane_best better x z) ?r" using Cons [of "lane_best better x z"] by blast
    moreover have "\<not> better x (lane_best better x z)" "\<not> better z (lane_best better x z)"
      using irreflexive asym by (auto simp: lane_best_def)
    ultimately have "\<not> better x ?r" "\<not> better z ?r" using not_lt_trans by blast+
    moreover have "lane_best better x z \<in> {x, z}" by (simp add: lane_best_def)
    ultimately show ?case using Cons [of "lane_best better x z"] by auto
  qed (simp add: irreflexive)
  then show "vbestvq better v \<in> set v" and "\<forall>x \<in> set v. \<not> better x (vbestvq better v)"
    using assms by (cases v; simp add: vbestvq_def)+
qed

lemma half_vector_lane:
  assumes "half_lengths h" and "length v = 16" and "l < 16"
  shows "v_best_new (half_vector_path better (vdupq_n off) v h) ! l
      = (if better (v ! l) (v_best_new h ! l) then v ! l else v_best_new h ! l)"
    and "v_offsets_new (half_vector_path better (vdupq_n off) v h) ! l
      = (if better (v ! l) (v_best_new h ! l) then off else v_offsets_new h ! l)"
proof -
  have "vbetterq better v (v_best_new h) ! l = lane_mask (better (v ! l) (v_best_new h ! l))"
    using assms by (simp add: vbetterq_def half_lengths_def)
  from vbslq_lane [OF _ _ _ this, of "vdupq_n off" "v_offsets_new h"] assms
  show "v_offsets_new (half_vector_path better (vdupq_n off) v h) ! l
      = (if better (v ! l) (v_best_new h ! l) then off else v_offsets_new h ! l)"
    by (simp add: half_vector_path_def half_lengths_def vdupq_n_def num_lanes_of_def vbetterq_def)
  show "v_best_new (half_vector_path better (vdupq_n off) v h) ! l
      = (if better (v ! l) (v_best_new h ! l) then v ! l else v_best_new h ! l)"
    using assms by (simp add: half_vector_path_def half_lengths_def vbestq_def lane_best_def Let_def)
qed

lemma half_vector_other [simp]:
  "best_vector (half_vector_path better off v h) = best_vector h"
  "best_scalar (half_vector_path better off v h) = best_scalar h"
  "best_scalar_index (half_vector_path better off v h) = best_scalar_index h"
  "v_best (half_vector_path better off v h) = v_best h"
  "v_offsets (half_vector_path better off v h) = v_offsets h"
  "block_index (half_vector_path better off v h) = block_index h"
  by (simp_all add: half_vector_path_def Let_def)

lemma half_vector_located [simp]:
  "located better (half_vector_path better off v h) r = located better h r"
  by (simp add: located_def split: option.split)

lemma half_sees_append:
  assumes "half_sees better worst k base xs h" and "base + 16 * k \<le> length xs"
  shows "half_sees better worst k base (xs @ ys) h"
proof -
  have lanes: "lane_positions base k l \<subseteq> {..<length xs}" if "l < 16" for l
    using lane_positions_bound [OF that, of base k] assms(2) by auto
  from assms(1) obtain S V rs rv where h: "half_lengths h" "S \<union> V = {..<base}"
    "tracks better xs S worst (best_scalar h) rs"
    "best_scalar_index h = (case rs of None \<Rightarrow> 0 | Some p \<Rightarrow> p)"
    "tracks better xs V worst (best_vector h) rv" "located better h rv"
    and l: "\<forall>l < 16. lane_sees better xs base k h l"
    by (rule half_seesE)
  have "{..<base} \<subseteq> {..<length xs}" using assms(2) by simp
  moreover have "S \<subseteq> {..<base}" "V \<subseteq> {..<base}" by (simp_all flip: h(2))
  ultimately have "S \<subseteq> {..<length xs}" "V \<subseteq> {..<length xs}" by (simp_all only: order_trans)
  then have "tracks better (xs @ ys) S worst (best_scalar h) rs"
    "tracks better (xs @ ys) V worst (best_vector h) rv" using h by (simp_all add: tracks_append)
  moreover have "lane_sees better (xs @ ys) base k h l" if "l < 16" for l
    using l that unfolding lane_sees_def tracks_append [OF lanes [OF that]] by blast
  ultimately show ?thesis by (rule half_seesI [OF h(1,2) _ h(4) _ h(6)])
qed

lemma half_vector:
  assumes sees: "half_sees better worst k base xs h" and len: "length xs = base + 16 * k"
    and v: "length v = 16"
  shows "half_sees better worst (k + 1) base (xs @ v)
    (half_vector_path better (vdupq_n (of_nat (k + 1))) v h)"
proof -
  let ?h = "half_vector_path better (vdupq_n (of_nat (k + 1))) v h"
  have old: "half_sees better worst k base (xs @ v) h" using half_sees_append [OF sees] len by simp
  then have lens: "half_lengths h" by (simp add: half_sees_def)
  have "lane_sees better (xs @ v) base (Suc k) ?h l" if l: "l < 16" for l
  proof -
    let ?p = "base + 16 * k + l"
    have p: "(xs @ v) ! ?p = v ! l" using len by (simp add: nth_append)
    from old l obtain r where t: "tracks better (xs @ v) (lane_positions base k l) (best_vector h) (v_best_new h ! l) r"
      and r: "case r of None \<Rightarrow> v_offsets_new h ! l = 0
        | Some p \<Rightarrow> \<exists>j < k. p = base + 16 * j + l \<and> v_offsets_new h ! l = of_nat (j + 1)"
      by (auto simp: half_sees_def lane_sees_def)
    have "\<forall>a \<in> lane_positions base k l. \<forall>b \<in> {?p}. a < b" by (auto simp: lane_positions_def)
    from tracks_chain [OF t tracks_one this, unfolded p]
    have "tracks better (xs @ v) (lane_positions base (Suc k) l) (best_vector ?h) (v_best_new ?h ! l)
        (later r (if better (v ! l) (v_best_new h ! l) then Some ?p else None))"
      by (simp add: lane_positions_Suc half_vector_lane [OF lens v l])
    moreover have "case later r (if better (v ! l) (v_best_new h ! l) then Some ?p else None) of
        None \<Rightarrow> v_offsets_new ?h ! l = 0
      | Some p \<Rightarrow> \<exists>j < Suc k. p = base + 16 * j + l \<and> v_offsets_new ?h ! l = of_nat (j + 1)"
    proof (cases "better (v ! l) (v_best_new h ! l)")
      case True
      then show ?thesis unfolding half_vector_lane [OF lens v l] by (simp add: later_def)
    next
      case False
      with r show ?thesis
        unfolding half_vector_lane [OF lens v l]
        by (cases r) (auto simp: later_def intro: less_SucI)
    qed
    ultimately show ?thesis unfolding lane_sees_def by blast
  qed
  moreover have "half_lengths ?h"
    using lens v by (simp add: half_lengths_def half_vector_path_def vbetterq_def vbestq_def
        vdupq_n_def num_lanes_of_def Let_def)
  ultimately show ?thesis using old by (simp add: half_sees_def)
qed

lemma block_finished_lane:
  assumes "half_lengths h" and "l < 16"
  shows "v_best (half_block_finished better base h) ! l
      = (if v_offsets_new h ! l = 0 then v_best h ! l else v_best_new h ! l)"
    and "v_offsets (half_block_finished better base h) ! l
      = (if v_offsets_new h ! l = 0 then v_offsets h ! l else v_offsets_new h ! l)"
proof -
  have c: "vceqzq_u8 (v_offsets_new h) ! l = lane_mask (v_offsets_new h ! l = 0)"
    and len: "length (vceqzq_u8 (v_offsets_new h)) = 16"
    using assms by (simp_all add: vceqzq_u8_def half_lengths_def)
  show "v_best (half_block_finished better base h) ! l
      = (if v_offsets_new h ! l = 0 then v_best h ! l else v_best_new h ! l)"
    using vbslq_lane [OF _ _ _ c, of "v_best h" "v_best_new h"] assms len
    by (simp add: half_block_finished_def half_lengths_def Let_def)
  show "v_offsets (half_block_finished better base h) ! l
      = (if v_offsets_new h ! l = 0 then v_offsets h ! l else v_offsets_new h ! l)"
    using vbslq_lane [OF _ _ _ c, of "v_offsets h" "v_offsets_new h"] assms len
    by (simp add: half_block_finished_def half_lengths_def Let_def)
qed

lemma block_finished_sel:
  assumes "half_lengths h"
  shows "best_vector (half_block_finished better base h) = vbestvq better (v_best_new h)"
    and "block_index (half_block_finished better base h)
      = (if \<exists>l < 16. v_offsets_new h ! l \<noteq> 0 then base else block_index h)"
    and "best_scalar (half_block_finished better base h) = best_scalar h"
    and "best_scalar_index (half_block_finished better base h) = best_scalar_index h"
    and "half_lengths (half_block_finished better base h)"
  using assms any_lane_set [of "v_offsets_new h"]
  by (simp_all add: half_block_finished_def half_lengths_def vceqzq_u8_def vdupq_n_def
      num_lanes_of_def Let_def)

lemma block_finished_lanes:
  "l < 16 \<Longrightarrow> lane_sees better xs n 0 (half_block_finished better base h) l"
  unfolding lane_sees_def
  by (rule exI [of _ None]) (simp add: lane_positions_def tracks_def half_block_finished_def
      vdupq_n_def num_lanes_of_def Let_def)

text \<open>What a lane has found in the block, read off its offset.\<close>

lemma lane_found:
  assumes "lane_sees better xs base k h l" and "k \<le> 254"
  defines "p \<equiv> base + (unat (v_offsets_new h ! l) - 1) * 16 + l"
  shows "v_offsets_new h ! l = 0 \<Longrightarrow> v_best_new h ! l = best_vector h
      \<and> (\<forall>a \<in> lane_positions base k l. \<not> better (xs ! a) (best_vector h))"
    and "v_offsets_new h ! l \<noteq> 0 \<Longrightarrow> unat (v_offsets_new h ! l) < 255
      \<and> first_best better ((!) xs) (lane_positions base k l) p
      \<and> v_best_new h ! l = xs ! p \<and> better (v_best_new h ! l) (best_vector h)"
proof -
  from assms(1) obtain r
    where t: "tracks better xs (lane_positions base k l) (best_vector h) (v_best_new h ! l) r"
      and r: "case r of None \<Rightarrow> v_offsets_new h ! l = 0
        | Some p \<Rightarrow> \<exists>j < k. p = base + 16 * j + l \<and> v_offsets_new h ! l = of_nat (j + 1)"
    unfolding lane_sees_def by blast
  have off: "unat (of_nat (j + 1) :: u8) = j + 1" if "j < k" for j
    using that assms(2) by (simp add: unat_of_nat del: of_nat_Suc of_nat_add)
  have nz: "of_nat (j + 1) \<noteq> (0 :: u8)" if "j < k" for j
    using off [OF that] by (metis add_is_0 one_neq_zero unsigned_0)
  { assume "v_offsets_new h ! l = 0"
    with r nz have "r = None" by (cases r) auto
    with t show "v_best_new h ! l = best_vector h
        \<and> (\<forall>a \<in> lane_positions base k l. \<not> better (xs ! a) (best_vector h))"
      by (simp add: tracks_def)
  }
  { assume "v_offsets_new h ! l \<noteq> 0"
    with r obtain j where j: "r = Some (base + 16 * j + l)" "j < k" "v_offsets_new h ! l = of_nat (j + 1)"
      by (cases r) auto
    then have "unat (v_offsets_new h ! l) = j + 1" using off by metis
    with t j assms(2) show "unat (v_offsets_new h ! l) < 255
        \<and> first_best better ((!) xs) (lane_positions base k l) p
        \<and> v_best_new h ! l = xs ! p \<and> better (v_best_new h ! l) (best_vector h)"
      by (auto simp: tracks_def p_def mult.commute)
  }
qed

lemma nothing_found:
  assumes lens: "half_lengths h" and lanes: "\<forall>l < 16. lane_sees better xs base k h l" and "k \<le> 254"
    and loc: "located better h r" and none: "\<forall>l < 16. v_offsets_new h ! l = 0"
  defines "h' \<equiv> half_block_finished better base h"
  shows "tracks better xs {base..<base + 16 * k} (best_vector h) (best_vector h') None" and "located better h' r"
proof -
  note found = lane_found(1) [OF lanes [rule_format] assms(3) none [rule_format]]
  have len: "length (v_best_new h) = 16" using lens by (simp add: half_lengths_def)
  then have "vbestvq better (v_best_new h) \<in> set (v_best_new h)" by (intro vbestvq_best) auto
  then obtain l where "l < 16" "vbestvq better (v_best_new h) = v_best_new h ! l"
    using len by (auto simp: in_set_conv_nth)
  with found have best: "best_vector h' = best_vector h"
    unfolding h'_def block_finished_sel(1) [OF lens] by simp
  show "tracks better xs {base..<base + 16 * k} (best_vector h) (best_vector h') None"
    unfolding best lane_positions_cover using found by (auto simp: tracks_def)
  have "block_index h' = block_index h"
    unfolding h'_def block_finished_sel(2) [OF lens] using none by auto
  moreover have "v_best h' ! l = v_best h ! l" "v_offsets h' ! l = v_offsets h ! l" if "l < 16" for l
    unfolding h'_def block_finished_lane [OF lens that] using none that by simp_all
  ultimately show "located better h' r"
    using loc best by (simp add: located_def cong: option.case_cong conj_cong imp_cong)
qed

lemma something_found:
  assumes lens: "half_lengths h" and lanes: "\<forall>l < 16. lane_sees better xs base k h l" and "k \<le> 254"
    and loc: "located better h r" and l0: "l0 < 16" "v_offsets_new h ! l0 \<noteq> 0"
  defines "h' \<equiv> half_block_finished better base h"
  shows "\<exists>p. tracks better xs {base..<base + 16 * k} (best_vector h) (best_vector h') (Some p)
    \<and> located better h' (Some p)"
proof -
  let ?off = "\<lambda>l. v_offsets_new h ! l" and ?new = "\<lambda>l. v_best_new h ! l"
  let ?B = "best_vector h" and ?b = "best_vector h'"
  let ?q = "\<lambda>l. (unat (?off l) - 1) * 16 + l"
  note none = lane_found(1) [OF lanes [rule_format] assms(3)]
  note some = lane_found(2) [OF lanes [rule_format] assms(3)]
  have len: "length (v_best_new h) = 16" using lens by (simp add: half_lengths_def)
  then have "v_best_new h \<noteq> []" by auto
  note b = vbestvq_best [OF this, folded block_finished_sel(1) [OF lens, of base], folded h'_def]
  from b(1) len obtain l1 where l1: "l1 < 16" "?b = ?new l1" by (auto simp: in_set_conv_nth)
  have b_best: "\<not> better (?new l) ?b" if "l < 16" for l using b(2) len that by simp
  have bB: "better ?b ?B"
    using not_lt_lt_trans [OF b_best [OF l0(1)]] some [OF l0] by blast
  have "?off l1 \<noteq> 0" using none [OF l1(1)] l1(2) bB irreflexive by metis
  text \<open>The lanes that hold the best value of the block, and the first of them.\<close>
  define L where "L = {l. l < 16 \<and> ?off l \<noteq> 0 \<and> ?new l = ?b}"
  have "l1 \<in> L" using l1 \<open>?off l1 \<noteq> 0\<close> by (simp add: L_def)
  then obtain s where s: "s \<in> L" "\<And>l. l \<in> L \<Longrightarrow> ?q s \<le> ?q l"
    using ex_has_least_nat [of "\<lambda>l. l \<in> L" l1 ?q] by blast
  then have sl: "s < 16" "?off s \<noteq> 0" "?new s = ?b" by (simp_all add: L_def)
  define p where "p = base + ?q s"
  have xp: "xs ! p = ?b" and p_best: "first_best better ((!) xs) (lane_positions base k s) p"
    using some [OF sl(1,2)] sl(3) by (simp_all add: p_def add.assoc)
  have in_lane: "if a < p then better ?b (xs ! a) else \<not> better (xs ! a) ?b"
    if l: "l < 16" and a: "a \<in> lane_positions base k l" for l a
  proof (cases "?off l = 0")
    case True
    with none [OF l] a have "\<not> better (xs ! a) ?B" by blast
    with bB have "better ?b (xs ! a)" by (rule lt_not_trans)
    then show ?thesis using asym by simp
  next
    case False
    let ?p = "base + (unat (?off l) - 1) * 16 + l"
    have f: "first_best better ((!) xs) (lane_positions base k l) ?p" "?new l = xs ! ?p"
      using some [OF l False] by simp_all
    then have na: "\<not> better (xs ! a) (?new l)" using a asym by (auto simp: first_best_def split: if_splits)
    then have "\<not> better (xs ! a) ?b" using b_best [OF l] not_lt_trans by blast
    moreover have "better ?b (xs ! a)" if "a < p"
    proof (cases "?new l = ?b")
      case True
      then have "?q s \<le> ?q l" using s(2) l False by (simp add: L_def)
      then have "a < ?p" using that by (simp add: p_def)
      then show ?thesis using f a True by (auto simp: first_best_def)
    next
      case False
      then have "better ?b (?new l)" using b_best [OF l] total by blast
      then show ?thesis using na by (rule lt_not_trans)
    qed
    ultimately show ?thesis by simp
  qed
  have "p \<in> {base..<base + 16 * k}"
    using p_best lane_positions_bound [OF sl(1), of base k] by (auto simp: first_best_def)
  then have "first_best better ((!) xs) {base..<base + 16 * k} p"
    using in_lane unfolding first_best_def xp lane_positions_cover by blast
  then have "tracks better xs {base..<base + 16 * k} ?B ?b (Some p)"
    using bB by (simp add: tracks_def xp)
  moreover have "located better h' (Some p)"
    unfolding located_def option.case
  proof (intro conjI allI impI exI [of _ s])
    have old: "\<not> better (v_best h ! l) ?B" if "l < 16" for l using loc that by (simp add: located_def)
    have in_L: "?off l \<noteq> 0 \<and> ?new l = ?b" if "l < 16" "\<not> better ?b (v_best h' ! l)" for l
    proof (cases "?off l = 0")
      case True
      then have "better ?b (v_best h' ! l)"
        using lt_not_trans [OF bB old [OF that(1)]] by (simp add: h'_def block_finished_lane [OF lens that(1)])
      with that(2) show ?thesis by blast
    next
      case False
      with that(2) have "\<not> better ?b (?new l)" by (simp add: h'_def block_finished_lane [OF lens that(1)])
      with b_best [OF that(1)] total False show ?thesis by blast
    qed
    have offsets: "v_offsets h' ! l = ?off l" if "l < 16" "?off l \<noteq> 0" for l
      using that by (simp add: h'_def block_finished_lane [OF lens that(1)])
    show "\<not> better (v_best h' ! l) ?b" if l: "l < 16" for l
    proof (cases "?off l = 0")
      case True
      then have "\<not> better (v_best h' ! l) ?B" using old [OF l] by (simp add: h'_def block_finished_lane [OF lens l])
      with bB show ?thesis using asym lt_not_trans by blast
    next
      case False
      then show ?thesis using b_best [OF l] by (simp add: h'_def block_finished_lane [OF lens l])
    qed
    show "s < 16" by fact
    show "\<not> better ?b (v_best h' ! s)"
      using sl irreflexive by (simp add: h'_def block_finished_lane [OF lens sl(1)])
    have "block_index h' = base" using l0 by (auto simp: h'_def block_finished_sel [OF lens])
    then show "p = block_index h' + (unat (v_offsets h' ! s) - 1) * 16 + s"
      by (simp add: p_def offsets [OF sl(1,2)])
    fix l
    assume l: "l < 16" and sel: "\<not> better ?b (v_best h' ! l)"
    note off = offsets [OF l] in_L [OF l sel]
    have "0 < unat (?off l)" "0 < unat (?off s)" using off sl(2) by (simp_all add: unat_gt_0)
    with off show "0 < unat (v_offsets h' ! l)" by simp
    show "unat (v_offsets h' ! l) < 255" using some [OF l] off by simp
    have "l \<in> L" using l off by (simp add: L_def)
    from s(2) [OF this] have "unat (?off s) < unat (?off l) \<or> unat (?off s) = unat (?off l) \<and> s \<le> l"
      using l sl(1) \<open>0 < unat (?off l)\<close> \<open>0 < unat (?off s)\<close> by linarith
    then show "unat (v_offsets h' ! s) < unat (v_offsets h' ! l)
        \<or> v_offsets h' ! s = v_offsets h' ! l \<and> s \<le> l"
      using off offsets [OF sl(1,2)] by (simp add: word_unat_eq_iff)
  qed
  ultimately show ?thesis by blast
qed

lemma half_finished:
  assumes sees: "half_sees better worst k base xs h" and "k \<le> 254"
  shows "half_sees better worst 0 (base + 16 * k) xs (half_block_finished better base h)"
proof -
  let ?h = "half_block_finished better base h" and ?new = "{base..<base + 16 * k}"
  from sees obtain S V rs rv where h: "half_lengths h" "S \<union> V = {..<base}"
    "tracks better xs S worst (best_scalar h) rs"
    "best_scalar_index h = (case rs of None \<Rightarrow> 0 | Some p \<Rightarrow> p)"
    "tracks better xs V worst (best_vector h) rv" "located better h rv"
    and l: "\<forall>l < 16. lane_sees better xs base k h l"
    by (rule half_seesE)
  obtain r where r: "tracks better xs ?new (best_vector h) (best_vector ?h) r" "located better ?h (later rv r)"
  proof (cases "\<forall>l < 16. v_offsets_new h ! l = 0")
    case True
    from nothing_found [OF h(1) l assms(2) h(6) this] that [of None] show ?thesis
      by (simp add: later_def)
  next
    case False
    then obtain l0 where "l0 < 16" "v_offsets_new h ! l0 \<noteq> 0" by blast
    from something_found [OF h(1) l assms(2) h(6) this] that show ?thesis
      by (auto simp: later_def)
  qed
  have "V \<subseteq> {..<base}" by (simp flip: h(2))
  then have "\<forall>a \<in> V. \<forall>b \<in> ?new. a < b" by fastforce
  from tracks_chain [OF h(5) r(1) this]
  have "tracks better xs (V \<union> ?new) worst (best_vector ?h) (later rv r)" .
  moreover have "S \<union> (V \<union> ?new) = {..<base + 16 * k}"
    unfolding Un_assoc [symmetric] h(2) by auto
  ultimately show ?thesis
    using h(3,4) r(2) block_finished_lanes
    by (intro half_seesI [where S = S and V = "V \<union> ?new" and rs = rs and rv = "later rv r"])
      (simp_all add: block_finished_sel [OF h(1)])
qed

lemma half_scalar_other [simp]:
  "best_vector (half_scalar_path better i x h) = best_vector h"
  "v_best (half_scalar_path better i x h) = v_best h"
  "v_best_new (half_scalar_path better i x h) = v_best_new h"
  "v_offsets (half_scalar_path better i x h) = v_offsets h"
  "v_offsets_new (half_scalar_path better i x h) = v_offsets_new h"
  "block_index (half_scalar_path better i x h) = block_index h"
  by (simp_all add: half_scalar_path_def)

lemma half_scalar:
  assumes sees: "half_sees better worst 0 base xs h" and len: "length xs = base"
  shows "half_sees better worst 0 (base + 1) (xs @ [x]) (half_scalar_path better base x h)"
proof -
  let ?h = "half_scalar_path better base x h"
  have "half_sees better worst 0 base (xs @ [x]) h" using half_sees_append [OF sees] len by simp
  then obtain S V rs rv where h: "half_lengths h" "S \<union> V = {..<base}"
    "tracks better (xs @ [x]) S worst (best_scalar h) rs"
    "best_scalar_index h = (case rs of None \<Rightarrow> 0 | Some p \<Rightarrow> p)"
    "tracks better (xs @ [x]) V worst (best_vector h) rv" "located better h rv"
    and l: "\<forall>l < 16. lane_sees better (xs @ [x]) base 0 h l"
    by (rule half_seesE)
  let ?r = "later rs (if better x (best_scalar h) then Some base else None)"
  have "S \<subseteq> {..<base}" by (simp flip: h(2))
  then have "\<forall>a \<in> S. \<forall>b \<in> {base}. a < b" by fastforce
  moreover have x: "(xs @ [x]) ! base = x" by (simp add: nth_append len)
  ultimately have "tracks better (xs @ [x]) (S \<union> {base}) worst (best_scalar ?h) ?r"
    using tracks_chain [OF h(3) tracks_one, of base, unfolded x]
    by (cases "better x (best_scalar h)") (simp_all add: half_scalar_path_def)
  moreover have "S \<union> {base} \<union> V = {..<base + 1}"
    using h(2) by (simp add: lessThan_Suc Un_commute Un_left_commute flip: insert_is_Un)
  moreover have "best_scalar_index ?h = (case ?r of None \<Rightarrow> 0 | Some p \<Rightarrow> p)"
    using h(4) by (simp add: half_scalar_path_def later_def)
  moreover have "half_lengths ?h" "located better ?h rv"
    using h(1,6) by (simp_all add: half_lengths_def located_def cong: option.case_cong)
  moreover have "lane_sees better (xs @ [x]) (base + 1) 0 ?h l" if "l < 16" for l
    using l that by (simp add: lane_sees_def lane_positions_def cong: option.case_cong)
  ultimately show ?thesis
    using h(5) by (intro half_seesI [where rs = ?r and rv = rv]) simp_all
qed

section \<open>The index\<close>

lemma selected_lane:
  assumes "half_lengths h" and "l < 16" and "v_best_new h ! l = best_vector h"
  shows "selected_offsets better h ! l
    = (if better (best_vector h) (v_best h ! l) then 255 else v_offsets h ! l)"
proof -
  have c: "vnot_worseq better (v_best h) (v_best_new h) ! l = lane_mask (\<not> better (best_vector h) (v_best h ! l))"
    using assms by (simp add: vnot_worseq_def half_lengths_def)
  show ?thesis
    using vbslq_lane [OF _ _ _ c, of "v_offsets h" "vdupq_n 255"] assms
    by (simp add: selected_offsets_def half_lengths_def vnot_worseq_def vdupq_n_def num_lanes_of_def)
qed

lemma selected_length: "half_lengths h \<Longrightarrow> length (selected_offsets better h) = 16"
  by (simp add: selected_offsets_def half_lengths_def vnot_worseq_def vdupq_n_def num_lanes_of_def)

lemma earliest_none:
  assumes "half_lengths h" and "\<forall>l < 16. v_best_new h ! l = best_vector h" and "located better h None"
  shows "vminvq False (selected_offsets better h) = 0"
proof (rule vminvq_least)
  have "selected_offsets better h ! 0 = 0"
    using selected_lane [OF assms(1), of 0] assms(2,3) by (simp add: located_def)
  then show "0 \<in> set (selected_offsets better h)"
    using nth_mem [of 0 "selected_offsets better h"] selected_length [OF assms(1)] by simp
qed (simp add: lane_value_def)

lemma earliest_some:
  assumes lens: "half_lengths h" and new: "\<forall>l < 16. v_best_new h ! l = best_vector h"
    and loc: "located better h (Some p)"
  defines "earliest \<equiv> vminvq False (selected_offsets better h)"
  shows "earliest \<noteq> 0"
    and "block_index h + (unat earliest - 1) * 16 + lane_of_first_smallest (selected_offsets better h) earliest = p"
proof -
  let ?sel = "selected_offsets better h"
  from loc obtain l where l: "l < 16" "\<not> better (best_vector h) (v_best h ! l)"
    and p: "p = block_index h + (unat (v_offsets h ! l) - 1) * 16 + l"
    and least: "\<And>l'. l' < 16 \<Longrightarrow> \<not> better (best_vector h) (v_best h ! l') \<Longrightarrow>
      0 < unat (v_offsets h ! l') \<and> unat (v_offsets h ! l') < 255
      \<and> (unat (v_offsets h ! l) < unat (v_offsets h ! l') \<or> v_offsets h ! l = v_offsets h ! l' \<and> l \<le> l')"
    unfolding located_def by auto
  have sel: "?sel ! l' = (if better (best_vector h) (v_best h ! l') then 255 else v_offsets h ! l')" if "l' < 16" for l'
    using selected_lane [OF lens that] new that by simp
  have len: "length ?sel = 16" by (rule selected_length [OF lens])
  have max: "unat (255 :: u8) = 255" by simp
  have order: "unat (?sel ! l) < unat (?sel ! l') \<or> ?sel ! l = ?sel ! l' \<and> l \<le> l'" if "l' < 16" for l'
    using sel [OF that] sel [OF l(1)] l(2) least [OF that] least [OF l] by (auto simp: max)
  have le: "?sel ! l \<le> ?sel ! l'" if "l' < 16" for l'
    using order [OF that] by (auto simp: word_le_nat_alt)
  have e: "earliest = ?sel ! l"
    unfolding earliest_def
  proof (rule vminvq_least)
    show "?sel ! l \<in> set ?sel" using l(1) len by simp
    show "\<forall>y \<in> set ?sel. lane_value False (?sel ! l) \<le> lane_value False y"
      using le len by (auto simp: in_set_conv_nth lane_value_def word_le_def)
  qed
  then show "earliest \<noteq> 0" using sel [OF l(1)] l(2) least [OF l] by auto
  have "\<not> ?sel ! k \<le> ?sel ! l" if "k < l" for k
    using order [of k] that l(1) by (auto simp: word_le_nat_alt)
  then have "lane_of_first_smallest ?sel earliest = l"
    unfolding e using l(1) len by (intro lane_of_first_smallest_eq) simp_all
  with e sel [OF l(1)] l(2) p
  show "block_index h + (unat earliest - 1) * 16 + lane_of_first_smallest ?sel earliest = p" by simp
qed

lemma half_result:
  assumes sees: "half_sees better worst 0 n xs h" and n: "0 < n"
  shows "first_best better ((!) xs) {..<n} (best_index better h)"
proof -
  from sees obtain S V rs rv where h: "half_lengths h" "S \<union> V = {..<n}"
    "tracks better xs S worst (best_scalar h) rs"
    "best_scalar_index h = (case rs of None \<Rightarrow> 0 | Some p \<Rightarrow> p)"
    "tracks better xs V worst (best_vector h) rv" "located better h rv"
    and l: "\<forall>l < 16. lane_sees better xs n 0 h l"
    by (rule half_seesE)
  have new: "\<forall>l < 16. v_best_new h ! l = best_vector h"
  proof (intro allI impI)
    fix i :: nat
    assume "i < 16"
    with l have i: "lane_sees better xs n 0 h i" by simp
    have "v_offsets_new h ! i = 0"
      using lane_found(2) [OF i] by (auto simp: lane_positions_def first_best_def)
    from lane_found(1) [OF i _ this] show "v_best_new h ! i = best_vector h" by simp
  qed
  have vector: "\<not> better (xs ! a) (best_vector h)" if "a \<in> V" for a
    using h(5) that asym irreflexive by (auto simp: tracks_def first_best_def split: option.splits if_splits)
  have scalar: "\<not> better (xs ! a) (best_scalar h)" if "a \<in> S" for a
    using h(3) that asym irreflexive by (auto simp: tracks_def first_best_def split: option.splits if_splits)
  show ?thesis
  proof (cases "better (best_scalar h) (best_vector h)")
    case True
    have "rs \<noteq> None"
    proof
      assume "rs = None"
      with h(3) True have "better worst (best_vector h)" by (simp add: tracks_def)
      then show False using no_worse by blast
    qed
    then obtain p where p: "rs = Some p" "first_best better ((!) xs) S p" "best_scalar h = xs ! p"
      using h(3) by (auto simp: tracks_def)
    have "better (xs ! p) (xs ! a)" if "a \<in> V" for a
      using lt_not_trans [OF True vector [OF that]] p(3) by simp
    then have "first_best better ((!) xs) (S \<union> V) p"
      using p(2) asym by (auto simp: first_best_def)
    then show ?thesis using True h(2,4) p(1) by (simp add: best_index_def)
  next
    case scalar_no_better: False
    show ?thesis
    proof (cases rv)
      case None
      with h(5) have bv: "best_vector h = worst" by (simp add: tracks_def)
      with scalar_no_better have "rs = None" using h(3) by (cases rs) (auto simp: tracks_def)
      then have "best_scalar h = worst" "best_scalar_index h = 0" using h(3,4) by (simp_all add: tracks_def)
      then have "best_index better h = 0"
        using scalar_no_better earliest_none [OF h(1) new] h(6) None by (simp add: best_index_def)
      moreover have "\<not> better (xs ! a) worst" if "a < n" for a
        using vector [of a] scalar [of a] that h(2) bv \<open>best_scalar h = worst\<close> by auto
      then have "\<not> better (xs ! a) (xs ! 0)" if "a < n" for a
        using that no_worse n by (metis not_lt_trans)
      ultimately show ?thesis using n by (simp add: first_best_def)
    next
      case (Some p)
      with h(5) have p: "first_best better ((!) xs) V p" "best_vector h = xs ! p" "better (xs ! p) worst"
        by (auto simp: tracks_def)
      have located: "located better h (Some p)" using h(6) Some by simp
      have lanes: "num_lanes_of TYPE(8) = 16" by (simp add: num_lanes_of_def)
      have index: "best_index better h
          = (if better (best_vector h) (best_scalar h) \<or> p < best_scalar_index h then p else best_scalar_index h)"
        using scalar_no_better earliest_some [OF h(1) new located]
        by (simp add: best_index_def Let_def lanes)
      show ?thesis
      proof (cases "better (best_vector h) (best_scalar h)")
        case True
        have "better (xs ! p) (xs ! a)" if "a \<in> S" for a
          using lt_not_trans [OF True scalar [OF that]] p(2) by simp
        then have "first_best better ((!) xs) (S \<union> V) p"
          using p(1) asym by (auto simp: first_best_def)
        then show ?thesis using True h(2) index by simp
      next
        case False
        with scalar_no_better total have eq: "best_scalar h = best_vector h" by blast
        with p(2,3) obtain q where q: "rs = Some q" "first_best better ((!) xs) S q" "xs ! q = xs ! p"
          using h(3) irreflexive by (cases rs) (auto simp: tracks_def)
        have "first_best better ((!) xs) (S \<union> V) (if p < q then p else q)"
          using p(1) q(2,3) asym irreflexive
          by (auto simp: first_best_def split: if_splits)
        then show ?thesis using False h(2,4) index q(1) by (cases "p < q") simp_all
      qed
    qed
  qed
qed

lemma half_init: "half_sees better worst 0 0 [] (LocHalf_init worst)"
proof (rule half_seesI [where S = "{}" and V = "{}" and rs = None and rv = None])
  have n: "num_lanes_of TYPE(8) = 16" by (simp add: num_lanes_of_def)
  show "half_lengths (LocHalf_init worst)" "located better (LocHalf_init worst) None"
    using irreflexive by (simp_all add: half_lengths_def located_def LocHalf_init_def vdupq_n_def n)
  show "lane_sees better [] 0 0 (LocHalf_init worst) l" if "l < 16" for l
    unfolding lane_sees_def using that
    by (intro exI [of _ None]) (simp add: tracks_def lane_positions_def LocHalf_init_def vdupq_n_def n)
qed (simp_all add: tracks_def LocHalf_init_def)

end

interpretation min_search: byte_search "(<)" 255
proof unfold_locales
  show "\<not> 255 < (x :: u8)" for x
    using unsigned_less [of x, where ?'a = nat] by (simp add: word_less_nat_alt)
qed

interpretation max_search: byte_search "(>)" 0
  by unfold_locales auto

section \<open>Minimum and maximum together\<close>

definition loc_sees :: "nat \<Rightarrow> MinMaxLoc \<Rightarrow> u8 list \<Rightarrow> bool" where
  "loc_sees k s xs \<longleftrightarrow> length xs = running_index s + 16 * k
     \<and> v_running_offset s = vdupq_n (of_nat (k + 1))
     \<and> half_sees (<) 255 k (running_index s) xs (loc_min s)
     \<and> half_sees (>) 0 k (running_index s) xs (loc_max s)"

lemma fold_append: "fold (\<lambda>x xs. xs @ [x]) v xs = xs @ v"
  by (induction v arbitrary: xs) simp_all

interpretation loc_lanes: block_sink loc_vector_path loc_scalar_path loc_max_vectors_per_block
  loc_on_block_finished "\<lambda>x xs. xs @ [x]" loc_sees
proof unfold_locales
  fix v xs :: "u8 list" and k s x
  have lanes: "num_lanes_of TYPE(8) = 16" by (simp add: num_lanes_of_def)
  show "2 \<le> loc_max_vectors_per_block" by (simp add: loc_max_vectors_per_block_def)
  { assume len: "length v = num_lanes_of TYPE(8)" and "loc_sees k s xs"
    then have sees: "length xs = running_index s + 16 * k"
      "v_running_offset s = vdupq_n (of_nat (k + 1))"
      "half_sees (<) 255 k (running_index s) xs (loc_min s)"
      "half_sees (>) 0 k (running_index s) xs (loc_max s)"
      by (simp_all add: loc_sees_def)
    have "map2 (+) (vdupq_n (of_nat (k + 1))) (vdupq_n 1) = (vdupq_n (of_nat (k + 1 + 1)) :: u8 list)"
      by (simp add: vdupq_n_def zip_replicate add.commute)
    then show "loc_sees (k + 1) (loc_vector_path v s) (fold (\<lambda>x xs. xs @ [x]) v xs)"
      unfolding fold_append
      using min_search.half_vector [OF sees(3,1) len [unfolded lanes]]
        max_search.half_vector [OF sees(4,1) len [unfolded lanes]] sees(1,2) len
      by (simp add: loc_sees_def loc_vector_path_def lanes)
  }
  { assume "k \<le> loc_max_vectors_per_block" and "loc_sees k s xs"
    then show "loc_sees 0 (loc_on_block_finished k s) xs"
      using min_search.half_finished [of k "running_index s" xs "loc_min s"]
        max_search.half_finished [of k "running_index s" xs "loc_max s"]
      by (simp add: loc_sees_def loc_on_block_finished_def lanes loc_max_vectors_per_block_def mult.commute)
  }
  { assume "loc_sees 0 s xs"
    then show "loc_sees 0 (loc_scalar_path x s) (xs @ [x])"
      using min_search.half_scalar [of "running_index s" xs "loc_min s" x]
        max_search.half_scalar [of "running_index s" xs "loc_max s" x]
      by (simp add: loc_sees_def loc_scalar_path_def)
  }
qed


section \<open>The image\<close>

lemma first_best_image:
  assumes "first_best lt v S p" and "strict_mono_on S f" and "\<And>k. k \<in> S \<Longrightarrow> v' (f k) = v k"
  shows "first_best lt v' (f ` S) (f p)"
  unfolding first_best_def
proof (intro conjI ballI)
  have p: "p \<in> S" using assms(1) by (simp add: first_best_def)
  then show "f p \<in> f ` S" by blast
  fix q
  assume "q \<in> f ` S"
  then obtain k where k: "k \<in> S" "q = f k" by blast
  have "f k < f p \<longleftrightarrow> k < p" using strict_mono_on_less [OF assms(2) k(1) p] .
  with assms(1,3) k p show "if q < f p then lt (v' (f p)) (v' q) else \<not> lt (v' q) (v' (f p))"
    by (simp add: first_best_def)
qed

text \<open>The byte offset of the element with the number \<open>k\<close> in scan order.\<close>

definition scan_offset :: "nat \<Rightarrow> nat \<Rightarrow> nat \<Rightarrow> nat" where
  "scan_offset w src_stride k = k div w * src_stride + k mod w"

lemma scan_offset_mono:
  assumes "0 < w" and "w \<le> src_stride"
  shows "strict_mono_on S (scan_offset w src_stride)"
proof (rule strict_mono_onI)
  fix k l :: nat
  assume "k < l"
  show "scan_offset w src_stride k < scan_offset w src_stride l"
  proof (cases "k div w = l div w")
    case True
    with \<open>k < l\<close> have "k mod w < l mod w"
      by (metis div_mult_mod_eq nat_add_left_cancel_less)
    with True show ?thesis by (simp add: scan_offset_def)
  next
    case False
    with div_le_mono [of k l w] \<open>k < l\<close> have "Suc (k div w) \<le> l div w" by linarith
    then have "Suc (k div w) * src_stride \<le> l div w * src_stride" by (rule mult_le_mono1)
    moreover have "k mod w < src_stride" using assms mod_less_divisor [of w k] by linarith
    ultimately show ?thesis by (simp add: scan_offset_def)
  qed
qed

lemma scan_offsets:
  assumes "0 < w"
  shows "scan_offset w ss ` {..<h * w} = stripe_offsets ss w 1 0 h"
proof (intro equalityI subsetI)
  fix x
  assume "x \<in> stripe_offsets ss w 1 0 h"
  then obtain r c where x: "x = r * ss + c" "r < h" "c < w" by (auto simp: stripe_offsets_def)
  then have "Suc r * w \<le> h * w" by (intro mult_le_mono1) simp
  with x have "r * w + c \<in> {..<h * w}" "x = scan_offset w ss (r * w + c)" by (simp_all add: scan_offset_def)
  then show "x \<in> scan_offset w ss ` {..<h * w}" by blast
next
  fix x
  assume "x \<in> scan_offset w ss ` {..<h * w}"
  then obtain k where "k < h * w" "x = k div w * ss + k mod w * 1" by (auto simp: scan_offset_def)
  moreover from this assms have "k div w < h" "k mod w < w" by (simp_all add: div_less_iff_less_mult)
  ultimately show "x \<in> stripe_offsets ss w 1 0 h" unfolding stripe_offsets_def by blast
qed

text \<open>The index of the first best element gives its byte offset.\<close>

lemma best_offset:
  assumes best: "first_best better ((!) (image_elements (single_channel_rows 1 src ss) w h m)) {..<h * w} i"
    and w: "0 < w" "w \<le> ss" and fits: "src + h * ss \<le> size_max"
  shows "first_best better (\<lambda>offset. m (src + offset)) (stripe_offsets ss w 1 0 h)
    (offset_for_index (single_channel_rows 1 src ss) i w)"
proof -
  have i: "i < h * w" using best by (simp add: first_best_def)
  have "scan_offset w ss i \<in> stripe_offsets ss w 1 0 h" using scan_offsets [OF w(1)] i by blast
  then have "scan_offset w ss i \<le> size_max"
    using stripe_offsets_bounds(2) [of _ ss w 1 0 h] w fits by fastforce
  then have "offset_for_index (single_channel_rows 1 src ss) i w = scan_offset w ss i"
    by (simp add: offset_for_index_def scan_offset_def single_channel_rows_def size_wrap_id Let_def
        flip: of_nat_mult of_nat_add)
  moreover have "first_best better (\<lambda>offset. m (src + offset)) (scan_offset w ss ` {..<h * w}) (scan_offset w ss i)"
  proof (rule first_best_image [OF best scan_offset_mono [OF w]])
    fix k
    assume "k \<in> {..<h * w}"
    then show "m (src + scan_offset w ss k) = image_elements (single_channel_rows 1 src ss) w h m ! k"
      by (simp add: image_elements_def pixel_address_def single_channel_rows_def scan_offset_def add.assoc)
  qed
  ultimately show ?thesis by (simp add: scan_offsets [OF w(1)])
qed

lemma min_max_loc_result:
  assumes size: "w * h \<le> KLEIDICV_MAX_IMAGE_PIXELS" "0 < w" "0 < h"
    and src: "src \<noteq> nullptr" "w \<le> src_stride" "src + h * src_stride \<le> size_max"
  shows "\<exists>mn mx. min_max_loc m src src_stride w h p_min p_max
      = Some (KLEIDICV_OK, if p_min then Some mn else None, if p_max then Some mx else None)
    \<and> first_best (<) (\<lambda>offset. m (src + offset)) (stripe_offsets src_stride w 1 0 h) mn
    \<and> first_best (>) (\<lambda>offset. m (src + offset)) (stripe_offsets src_stride w 1 0 h) mx"
proof -
  let ?rows = "single_channel_rows 1 src src_stride"
  let ?img = "image_elements ?rows w h m :: u8 list"
  have layout: "image_layout TYPE(8) w h ?rows"
    using src(2,3) by (simp add: image_layout_def single_channel_rows_def)
  have "loc_sees 0 MinMaxLoc_init []"
    using min_search.half_init max_search.half_init by (simp add: loc_sees_def MinMaxLoc_init_def)
  from loc_lanes.block_sink_image [OF _ pixels_fit [OF size(1)] layout this, of m]
  obtain s where s: "apply_block_operation_by_rows
      (block_sink_operation m loc_vector_path loc_scalar_path loc_max_vectors_per_block loc_on_block_finished)
      \<lparr>rectangle_width = w, rectangle_height = h\<rparr> [?rows] MinMaxLoc_init = Some s"
    and sees: "loc_sees 0 s ?img"
    by (auto simp: element_type_def fold_append)
  have "0 < h * w" using size(2,3) by simp
  with sees have "first_best (<) ((!) ?img) {..<h * w} (min_index s)"
    "first_best (>) ((!) ?img) {..<h * w} (max_index s)"
    using min_search.half_result [of "running_index s" ?img "loc_min s"]
      max_search.half_result [of "running_index s" ?img "loc_max s"]
    by (simp_all add: loc_sees_def min_index_def max_index_def)
  note best = this [THEN best_offset, OF size(2) src(2,3)]
  show ?thesis
    using best s size src(1)
    by - (rule exI [of _ "offset_for_index ?rows (min_index s) w"],
      rule exI [of _ "offset_for_index ?rows (max_index s) w"],
      simp add: min_max_loc_def checks_OK check_image_size_OK check_pointer_and_stride_def Let_def)
qed

text \<open>
  C14. Locations: for a legal image of bytes that is not empty the call returns and gives the byte offset of
  the first minimum and of the first maximum in row order, ties between the vector path, the scalar
  path, lanes and blocks included; an empty image is a range error.
\<close>

theorem min_max_loc_image:
  assumes "w * h \<le> KLEIDICV_MAX_IMAGE_PIXELS"
    and "src \<noteq> nullptr" and "w \<le> src_stride" and "src + h * src_stride \<le> size_max"
  shows "if w = 0 \<or> h = 0
    then min_max_loc m src src_stride w h p_min p_max = Some (KLEIDICV_ERROR_RANGE, None, None)
    else \<exists>mn mx. min_max_loc m src src_stride w h p_min p_max
        = Some (KLEIDICV_OK, if p_min then Some mn else None, if p_max then Some mx else None)
      \<and> first_best (<) (\<lambda>offset. m (src + offset)) (stripe_offsets src_stride w 1 0 h) mn
      \<and> first_best (>) (\<lambda>offset. m (src + offset)) (stripe_offsets src_stride w 1 0 h) mx"
proof (cases "w = 0 \<or> h = 0")
  case True
  then show ?thesis
    using assms(1,2) by (auto simp: min_max_loc_def checks_OK check_image_size_OK check_pointer_and_stride_def)
next
  case False
  then show ?thesis using min_max_loc_result [OF assms(1) _ _ assms(2-4), of m p_min p_max] by simp
qed

theorem min_max_loc_image_witness:
  "\<exists>mn mx. min_max_loc (\<lambda>a. of_nat (a mod 3)) 40 2 2 2 True True = Some (KLEIDICV_OK, Some mn, Some mx)
    \<and> mn = 2 \<and> mx = 1"
proof -
  let ?v = "\<lambda>offset. of_nat ((40 + offset) mod 3) :: u8"
  have S: "stripe_offsets 2 2 1 0 2 = {0, 1, 2, 3}"
    by (subst stripe_offsets_dense) auto
  have "first_best (<) ?v {0, 1, 2, 3} 2" "first_best (>) ?v {0, 1, 2, 3} 1"
    by (simp_all add: first_best_def)
  moreover have "\<exists>mn mx. min_max_loc (\<lambda>a. of_nat (a mod 3)) 40 2 2 2 True True
        = Some (KLEIDICV_OK, Some mn, Some mx)
      \<and> first_best (<) ?v {0, 1, 2, 3} mn \<and> first_best (>) ?v {0, 1, 2, 3} mx"
    using min_max_loc_image [of 2 2 40 2 "\<lambda>a. of_nat (a mod 3)" True True]
    by (simp add: S [simplified] nullptr_def size_max_def KLEIDICV_MAX_IMAGE_PIXELS_def)
  ultimately show ?thesis using first_best_unique by metis
qed

end
