(* ===== verification/Threaded_Analysis.thy ===== *)
theory Threaded_Analysis
  imports Min_Max_Loc
begin

text \<open>
  The threaded location of minimum and maximum (\<^verbatim>\<open>kleidicv_thread_min_max_loc_u8\<close>)
  put together with the operation it runs on every batch of rows.
\<close>

lemma stripe_offsets_shift: "(+) (b * ss) ` stripe_offsets ss w sz 0 (e - b) = stripe_offsets ss w sz b e"
proof (intro equalityI subsetI)
  fix x
  assume "x \<in> stripe_offsets ss w sz b e"
  then obtain r c where x: "x = r * ss + c * sz" "b \<le> r" "r < e" "c < w" by (auto simp: stripe_offsets_def)
  then have "(r - b) * ss + c * sz \<in> stripe_offsets ss w sz 0 (e - b)" unfolding stripe_offsets_def by fastforce
  moreover have "x = b * ss + ((r - b) * ss + c * sz)"
    using x(1,2) by (simp add: add.assoc [symmetric] add_mult_distrib [symmetric])
  ultimately show "x \<in> (+) (b * ss) ` stripe_offsets ss w sz 0 (e - b)" by blast
next
  fix x
  assume "x \<in> (+) (b * ss) ` stripe_offsets ss w sz 0 (e - b)"
  then obtain r c where "x = b * ss + (r * ss + c * sz)" "r < e - b" "c < w" by (auto simp: stripe_offsets_def)
  then have "x = (b + r) * ss + c * sz" "b \<le> b + r" "b + r < e" "c < w" by (simp_all add: add_mult_distrib)
  then show "x \<in> stripe_offsets ss w sz b e" unfolding stripe_offsets_def by blast
qed

text \<open>The operation on a stripe, as the batches call it.\<close>

lemma stripe_location:
  assumes size: "w * h \<le> KLEIDICV_MAX_IMAGE_PIXELS" "0 < w" and be: "b < e" "e \<le> h"
    and src: "src \<noteq> nullptr" "w \<le> ss" "src + h * ss \<le> size_max"
  shows "\<exists>mn mx. min_max_loc m (src + b * ss) ss w (e - b) p_min p_max
      = Some (KLEIDICV_OK, if p_min then Some mn else None, if p_max then Some mx else None)
    \<and> first_best (<) (\<lambda>offset. m (src + offset)) (stripe_offsets ss w 1 b e) (b * ss + mn)
    \<and> first_best (>) (\<lambda>offset. m (src + offset)) (stripe_offsets ss w 1 b e) (b * ss + mx)"
proof -
  have "w * (e - b) \<le> w * h" using be by (intro mult_le_mono2) simp
  with size(1) have pixels: "w * (e - b) \<le> KLEIDICV_MAX_IMAGE_PIXELS" by linarith
  have "b * ss + (e - b) * ss = e * ss" using be by (simp add: add_mult_distrib [symmetric])
  moreover have "e * ss \<le> h * ss" using be by simp
  ultimately have "src + b * ss + (e - b) * ss \<le> size_max" using src(3) by linarith
  moreover have "src + b * ss \<noteq> nullptr" using src(1) by (simp add: nullptr_def)
  ultimately obtain mn mx where r: "min_max_loc m (src + b * ss) ss w (e - b) p_min p_max
      = Some (KLEIDICV_OK, if p_min then Some mn else None, if p_max then Some mx else None)"
    and best: "first_best (<) (\<lambda>offset. m (src + b * ss + offset)) (stripe_offsets ss w 1 0 (e - b)) mn"
      "first_best (>) (\<lambda>offset. m (src + b * ss + offset)) (stripe_offsets ss w 1 0 (e - b)) mx"
    using min_max_loc_result [OF pixels size(2) _ _ src(2), of "src + b * ss" m p_min p_max] be(1) by auto
  have "first_best lt (\<lambda>offset. m (src + offset)) (stripe_offsets ss w 1 b e) (b * ss + p)"
    if "first_best lt (\<lambda>offset. m (src + b * ss + offset)) (stripe_offsets ss w 1 0 (e - b)) p" for lt p
    using first_best_image [OF that, of "(+) (b * ss)" "\<lambda>offset. m (src + offset)"]
    by (simp add: stripe_offsets_shift strict_mono_on_def add.assoc)
  from this [OF best(1)] this [OF best(2)] r show ?thesis by blast
qed

text \<open>
  C18. The threaded location on an image of bytes in memory: for every scheduler, with the slots allocated,
  the call gives the offset of the first minimum and the first maximum of the whole image,
  although every batch has located its own with vectors and blocks that start at its first row.
\<close>

theorem threaded_min_max_loc_image:
  assumes sched: "scheduler mt max_tasks" and h: "0 < h" "h \<le> max_tasks"
    and size: "w * h \<le> KLEIDICV_MAX_IMAGE_PIXELS" "0 < w"
    and src: "src \<noteq> nullptr" "w \<le> src_stride" "src + h * src_stride \<le> size_max"
    and alloc: "slots_available (malloc 0) 8 h p_min" "slots_available (malloc 1) 8 h p_max"
  shows "\<exists>mn mx. parallel_min_max_loc malloc 1 (\<lambda>offset. Some (m (src + offset)))
        (\<lambda>src src_stride w h p_min p_max. the (min_max_loc m src src_stride w h p_min p_max))
        mt src src_stride w h p_min p_max
      = Some (KLEIDICV_OK, if p_min then Some mn else None, if p_max then Some mx else None)
    \<and> first_best (<) (\<lambda>offset. m (src + offset)) (stripe_offsets src_stride w 1 0 h) mn
    \<and> first_best (>) (\<lambda>offset. m (src + offset)) (stripe_offsets src_stride w 1 0 h) mx"
proof -
  let ?func = "\<lambda>src src_stride w h p_min p_max. the (min_max_loc m src src_stride w h p_min p_max)"
  let ?v = "\<lambda>offset. m (src + offset)"
  have "\<forall>b e. \<exists>mn mx. b < e \<longrightarrow> e \<le> h \<longrightarrow>
      min_max_loc m (src + b * src_stride) src_stride w (e - b) p_min p_max
        = Some (KLEIDICV_OK, if p_min then Some mn else None, if p_max then Some mx else None)
      \<and> first_best (<) ?v (stripe_offsets src_stride w 1 b e) (b * src_stride + mn)
      \<and> first_best (>) ?v (stripe_offsets src_stride w 1 b e) (b * src_stride + mx)"
    using stripe_location [OF size _ _ src] by blast
  then obtain mn mx where stripes: "\<And>b e. b < e \<Longrightarrow> e \<le> h \<Longrightarrow>
      min_max_loc m (src + b * src_stride) src_stride w (e - b) p_min p_max
        = Some (KLEIDICV_OK, if p_min then Some (mn b e) else None, if p_max then Some (mx b e) else None)
      \<and> first_best (<) ?v (stripe_offsets src_stride w 1 b e) (b * src_stride + mn b e)
      \<and> first_best (>) ?v (stripe_offsets src_stride w 1 b e) (b * src_stride + mx b e)"
    unfolding choice_iff by blast
  have backend: "min_max_loc_backend 1 ?func src src_stride w h p_min p_max ?v mn mx"
    unfolding min_max_loc_backend_def using stripes by simp
  have "parallel_min_max_loc malloc 1 (\<lambda>offset. Some (?v offset)) ?func mt src src_stride w h p_min p_max
      = Some (?func src src_stride w h p_min p_max)"
    using parallel_min_max_loc_whole [OF sched h size(2) _ _ _ backend alloc] src(2) by simp
  with stripes [of 0 h] h(1) show ?thesis by simp blast
qed

theorem threaded_min_max_loc_image_witness:
  "\<exists>mn mx. parallel_min_max_loc (\<lambda>_ _. True) 1 (\<lambda>offset. Some (of_nat ((40 + offset) mod 3) :: u8))
      (\<lambda>src ss w h p_min p_max. the (min_max_loc (\<lambda>a. of_nat (a mod 3)) src ss w h p_min p_max))
      (example_parallel 2) 40 2 2 2 True True = Some (KLEIDICV_OK, Some mn, Some mx)
    \<and> first_best (<) (\<lambda>offset. of_nat ((40 + offset) mod 3) :: u8) {0, 1, 2, 3} mn"
proof -
  have "stripe_offsets 2 2 1 0 2 = {0, 1, 2, 3}" by (subst stripe_offsets_dense) auto
  then show ?thesis
    using threaded_min_max_loc_image [OF two_workers, of 2 2 40 2 "\<lambda>_ _. True" True True "\<lambda>a. of_nat (a mod 3)"]
    by (auto simp: nullptr_def size_max_def KLEIDICV_MAX_IMAGE_PIXELS_def slots_available_def)
qed

end
