(* ===== verification/Fixed_Borders.thy ===== *)
theory Fixed_Borders
  imports Border_Coordinates
begin

text \<open>
  Border offsets of the fixed-size filters, \<^verbatim>\<open>kleidicv/include/kleidicv/workspace/\<close>:
  \<^verbatim>\<open>border_types.h\<close> and the tables of \<^verbatim>\<open>border_3x3.h\<close> to
  \<^verbatim>\<open>border_21x21.h\<close>. A filter of size \<open>S\<close> reads, for a pixel at index \<open>i\<close>, the \<open>S\<close>
  pixels at \<open>i + offset\<close>; close to the edges the tables fold these back into the image. The
  property: every entry of every table is the coordinate the border type defines.
\<close>

section \<open>Border types\<close>

datatype FixedBorderType = REPLICATE | REFLECT | WRAP | REVERSE

definition get_fixed_border_type :: "kleidicv_border_type_t \<Rightarrow> FixedBorderType option" where
  "get_fixed_border_type border_type =
     (case border_type of
        KLEIDICV_BORDER_TYPE_REPLICATE \<Rightarrow> Some REPLICATE
      | KLEIDICV_BORDER_TYPE_REFLECT \<Rightarrow> Some REFLECT
      | KLEIDICV_BORDER_TYPE_WRAP \<Rightarrow> Some WRAP
      | KLEIDICV_BORDER_TYPE_REVERSE \<Rightarrow> Some REVERSE
      | _ \<Rightarrow> None)"

definition border_type_of :: "FixedBorderType \<Rightarrow> kleidicv_border_type_t" where
  "border_type_of t =
     (case t of REPLICATE \<Rightarrow> KLEIDICV_BORDER_TYPE_REPLICATE | REFLECT \<Rightarrow> KLEIDICV_BORDER_TYPE_REFLECT
      | WRAP \<Rightarrow> KLEIDICV_BORDER_TYPE_WRAP | REVERSE \<Rightarrow> KLEIDICV_BORDER_TYPE_REVERSE)"

lemma get_fixed_border_type_Some:
  "get_fixed_border_type t = Some b \<longleftrightarrow> t = border_type_of b"
  by (cases t; cases b) (simp_all add: get_fixed_border_type_def border_type_of_def)

text \<open>
  The object that answers the offsets. \<^verbatim>\<open>height_\<close> is called \<^verbatim>\<open>width_\<close> in
  the largest of the classes; it is the length of whatever direction the object serves. An
  \<^verbatim>\<open>Offsets\<close> object is the list of its \<^verbatim>\<open>ptrdiff_t\<close> values.
\<close>

record FixedBorderInfo =
  fb_length :: nat
  fb_border_type :: FixedBorderType

text \<open>
  \<^verbatim>\<open>height_ - k\<close> is computed in \<^verbatim>\<open>size_t\<close>. Passed to
  \<^verbatim>\<open>get\<close> it becomes a \<^verbatim>\<open>ptrdiff_t\<close> again and is the mathematical
  difference; compared with an index it stays as it wrapped.
\<close>

definition size_from_end :: "FixedBorderInfo \<Rightarrow> nat \<Rightarrow> nat" where
  "size_from_end info k = size_wrap (int (fb_length info) - int k)"

definition offset_from_end :: "FixedBorderInfo \<Rightarrow> nat \<Rightarrow> int" where
  "offset_from_end info k = int (fb_length info) - int k"

definition wrap_offset :: "FixedBorderInfo \<Rightarrow> int" where
  "wrap_offset info = - int (fb_length info)"

lemma size_from_end_eq:
  assumes "k \<le> fb_length info" and "fb_length info \<le> size_max"
  shows "size_from_end info k = fb_length info - k"
  using assms size_wrap_id [of "fb_length info - k"] by (simp add: size_from_end_def of_nat_diff)

section \<open>Filters of size 3\<close>

definition offsets_without_border_3x3 :: "int list" where
  "offsets_without_border_3x3 = [-1, 0, 1]"

definition offsets_with_left_border_3x3 :: "FixedBorderInfo \<Rightarrow> nat \<Rightarrow> int list" where
  "offsets_with_left_border_3x3 info column_index =
     (case fb_border_type info of
        REPLICATE \<Rightarrow>
              [0, 0, 1]
      | REFLECT \<Rightarrow>
              [0, 0, 1]
      | WRAP \<Rightarrow>
              [offset_from_end info 1, 0, 1]
      | REVERSE \<Rightarrow>
              [1, 0, 1])"

definition offsets_with_right_border_3x3 :: "FixedBorderInfo \<Rightarrow> nat \<Rightarrow> int list" where
  "offsets_with_right_border_3x3 info column_index =
     (case fb_border_type info of
        REPLICATE \<Rightarrow>
              [-1, 0, 0]
      | REFLECT \<Rightarrow>
              [-1, 0, 0]
      | WRAP \<Rightarrow>
              [-1, 0, 1 + wrap_offset info]
      | REVERSE \<Rightarrow>
              [-1, 0, -1])"

definition offsets_with_border_3x3 :: "FixedBorderInfo \<Rightarrow> nat \<Rightarrow> int list" where
  "offsets_with_border_3x3 info index =
     (if index = 0 then offsets_with_left_border_3x3 info index
      else if index = size_from_end info 1 then offsets_with_right_border_3x3 info index
      else offsets_without_border_3x3)"

section \<open>Filters of size 5\<close>

definition offsets_without_border_5x5 :: "int list" where
  "offsets_without_border_5x5 = [-2, -1, 0, 1, 2]"

definition offsets_with_left_border_5x5 :: "FixedBorderInfo \<Rightarrow> nat \<Rightarrow> int list" where
  "offsets_with_left_border_5x5 info column_index =
     (case fb_border_type info of
        REPLICATE \<Rightarrow>
          if column_index = 0 then
              [0, 0, 0, 1, 2]
          else
              [-1, -1, 0, 1, 2]
      | REFLECT \<Rightarrow>
          if column_index = 0 then
              [1, 0, 0, 1, 2]
          else
              [-1, -1, 0, 1, 2]
      | WRAP \<Rightarrow>
          if column_index = 0 then
              [offset_from_end info 2, offset_from_end info 1, 0, 1, 2]
          else
              [offset_from_end info 2, -1, 0, 1, 2]
      | REVERSE \<Rightarrow>
          if column_index = 0 then
              [2, 1, 0, 1, 2]
          else
              [0, -1, 0, 1, 2])"

definition offsets_with_right_border_5x5 :: "FixedBorderInfo \<Rightarrow> nat \<Rightarrow> int list" where
  "offsets_with_right_border_5x5 info column_index =
     (case fb_border_type info of
        REPLICATE \<Rightarrow>
          if column_index = size_from_end info 2 then
              [-2, -1, 0, 1, 1]
          else
              [-2, -1, 0, 0, 0]
      | REFLECT \<Rightarrow>
          if column_index = size_from_end info 2 then
              [-2, -1, 0, 1, 1]
          else
              [-2, -1, 0, 0, -1]
      | WRAP \<Rightarrow>
          if column_index = size_from_end info 2 then
              [-2, -1, 0, 1, 2 + wrap_offset info]
          else
              [-2, -1, 0, 1 + wrap_offset info, 2 + wrap_offset info]
      | REVERSE \<Rightarrow>
          if column_index = size_from_end info 2 then
              [-2, -1, 0, 1, 0]
          else
              [-2, -1, 0, -1, -2])"

definition offsets_with_border_5x5 :: "FixedBorderInfo \<Rightarrow> nat \<Rightarrow> int list" where
  "offsets_with_border_5x5 info index =
     (if index \<le> 1 then offsets_with_left_border_5x5 info index
      else if index \<ge> size_from_end info 2 then offsets_with_right_border_5x5 info index
      else offsets_without_border_5x5)"

section \<open>Filters of size 7\<close>

definition offsets_without_border_7x7 :: "int list" where
  "offsets_without_border_7x7 = [-3, -2, -1, 0, 1, 2, 3]"

definition offsets_with_left_border_7x7 :: "FixedBorderInfo \<Rightarrow> nat \<Rightarrow> int list" where
  "offsets_with_left_border_7x7 info column_index =
     (case fb_border_type info of
        REPLICATE \<Rightarrow>
          if column_index = 0 then
              [0, 0, 0, 0, 1, 2, 3]
          else if column_index = 1 then
              [-1, -1, -1, 0, 1, 2, 3]
          else
              [-2, -2, -1, 0, 1, 2, 3]
      | REFLECT \<Rightarrow>
          if column_index = 0 then
              [2, 1, 0, 0, 1, 2, 3]
          else if column_index = 1 then
              [0, -1, -1, 0, 1, 2, 3]
          else
              [-2, -2, -1, 0, 1, 2, 3]
      | WRAP \<Rightarrow>
          if column_index = 0 then
              [offset_from_end info 3, offset_from_end info 2, offset_from_end info 1, 0, 1, 2, 3]
          else if column_index = 1 then
              [offset_from_end info 3, offset_from_end info 2, -1, 0, 1, 2, 3]
          else
              [offset_from_end info 3, -2, -1, 0, 1, 2, 3]
      | REVERSE \<Rightarrow>
          if column_index = 0 then
              [3, 2, 1, 0, 1, 2, 3]
          else if column_index = 1 then
              [1, 0, -1, 0, 1, 2, 3]
          else
              [-1, -2, -1, 0, 1, 2, 3])"

definition offsets_with_right_border_7x7 :: "FixedBorderInfo \<Rightarrow> nat \<Rightarrow> int list" where
  "offsets_with_right_border_7x7 info column_index =
     (case fb_border_type info of
        REPLICATE \<Rightarrow>
          if column_index = size_from_end info 3 then
              [-3, -2, -1, 0, 1, 2, 2]
          else if column_index = size_from_end info 2 then
              [-3, -2, -1, 0, 1, 1, 1]
          else
              [-3, -2, -1, 0, 0, 0, 0]
      | REFLECT \<Rightarrow>
          if column_index = size_from_end info 3 then
              [-3, -2, -1, 0, 1, 2, 2]
          else if column_index = size_from_end info 2 then
              [-3, -2, -1, 0, 1, 1, 0]
          else
              [-3, -2, -1, 0, 0, -1, -2]
      | WRAP \<Rightarrow>
          if column_index = size_from_end info 3 then
              [-3, -2, -1, 0, 1, 2, 3 + wrap_offset info]
          else if column_index = size_from_end info 2 then
              [-3, -2, -1, 0, 1, 2 + wrap_offset info, 3 + wrap_offset info]
          else
              [-3, -2, -1, 0, 1 + wrap_offset info, 2 + wrap_offset info, 3 + wrap_offset info]
      | REVERSE \<Rightarrow>
          if column_index = size_from_end info 3 then
              [-3, -2, -1, 0, 1, 2, 1]
          else if column_index = size_from_end info 2 then
              [-3, -2, -1, 0, 1, 0, -1]
          else
              [-3, -2, -1, 0, -1, -2, -3])"

definition offsets_with_border_7x7 :: "FixedBorderInfo \<Rightarrow> nat \<Rightarrow> int list" where
  "offsets_with_border_7x7 info index =
     (if index \<le> 2 then offsets_with_left_border_7x7 info index
      else if index \<ge> size_from_end info 3 then offsets_with_right_border_7x7 info index
      else offsets_without_border_7x7)"

section \<open>Filters of size 9\<close>

definition offsets_without_border_9x9 :: "int list" where
  "offsets_without_border_9x9 = [-4, -3, -2, -1, 0, 1, 2, 3, 4]"

definition offsets_with_left_border_9x9 :: "FixedBorderInfo \<Rightarrow> nat \<Rightarrow> int list" where
  "offsets_with_left_border_9x9 info column_index =
     (case fb_border_type info of
        REPLICATE \<Rightarrow>
          if column_index = 0 then
              [0, 0, 0, 0, 0, 1, 2, 3, 4]
          else if column_index = 1 then
              [-1, -1, -1, -1, 0, 1, 2, 3, 4]
          else if column_index = 2 then
              [-2, -2, -2, -1, 0, 1, 2, 3, 4]
          else
              [-3, -3, -2, -1, 0, 1, 2, 3, 4]
      | REFLECT \<Rightarrow>
          if column_index = 0 then
              [3, 2, 1, 0, 0, 1, 2, 3, 4]
          else if column_index = 1 then
              [1, 0, -1, -1, 0, 1, 2, 3, 4]
          else if column_index = 2 then
              [-1, -2, -2, -1, 0, 1, 2, 3, 4]
          else
              [-3, -3, -2, -1, 0, 1, 2, 3, 4]
      | WRAP \<Rightarrow>
          if column_index = 0 then
              [offset_from_end info 4, offset_from_end info 3, offset_from_end info 2,
               offset_from_end info 1, 0, 1, 2, 3, 4]
          else if column_index = 1 then
              [offset_from_end info 4, offset_from_end info 3, offset_from_end info 2, -1, 0, 1,
               2, 3, 4]
          else if column_index = 2 then
              [offset_from_end info 4, offset_from_end info 3, -2, -1, 0, 1, 2, 3, 4]
          else
              [offset_from_end info 4, -3, -2, -1, 0, 1, 2, 3, 4]
      | REVERSE \<Rightarrow>
          if column_index = 0 then
              [4, 3, 2, 1, 0, 1, 2, 3, 4]
          else if column_index = 1 then
              [2, 1, 0, -1, 0, 1, 2, 3, 4]
          else if column_index = 2 then
              [0, -1, -2, -1, 0, 1, 2, 3, 4]
          else
              [-2, -3, -2, -1, 0, 1, 2, 3, 4])"

definition offsets_with_right_border_9x9 :: "FixedBorderInfo \<Rightarrow> nat \<Rightarrow> int list" where
  "offsets_with_right_border_9x9 info column_index =
     (case fb_border_type info of
        REPLICATE \<Rightarrow>
          if column_index = size_from_end info 4 then
              [-4, -3, -2, -1, 0, 1, 2, 3, 3]
          else if column_index = size_from_end info 3 then
              [-4, -3, -2, -1, 0, 1, 2, 2, 2]
          else if column_index = size_from_end info 2 then
              [-4, -3, -2, -1, 0, 1, 1, 1, 1]
          else
              [-4, -3, -2, -1, 0, 0, 0, 0, 0]
      | REFLECT \<Rightarrow>
          if column_index = size_from_end info 4 then
              [-4, -3, -2, -1, 0, 1, 2, 3, 3]
          else if column_index = size_from_end info 3 then
              [-4, -3, -2, -1, 0, 1, 2, 2, 1]
          else if column_index = size_from_end info 2 then
              [-4, -3, -2, -1, 0, 1, 1, 0, -1]
          else
              [-4, -3, -2, -1, 0, 0, -1, -2, -3]
      | WRAP \<Rightarrow>
          if column_index = size_from_end info 4 then
              [-4, -3, -2, -1, 0, 1, 2, 3, 4 + wrap_offset info]
          else if column_index = size_from_end info 3 then
              [-4, -3, -2, -1, 0, 1, 2, 3 + wrap_offset info, 4 + wrap_offset info]
          else if column_index = size_from_end info 2 then
              [-4, -3, -2, -1, 0, 1, 2 + wrap_offset info, 3 + wrap_offset info,
               4 + wrap_offset info]
          else
              [-4, -3, -2, -1, 0, 1 + wrap_offset info, 2 + wrap_offset info,
               3 + wrap_offset info, 4 + wrap_offset info]
      | REVERSE \<Rightarrow>
          if column_index = size_from_end info 4 then
              [-4, -3, -2, -1, 0, 1, 2, 3, 2]
          else if column_index = size_from_end info 3 then
              [-4, -3, -2, -1, 0, 1, 2, 1, 0]
          else if column_index = size_from_end info 2 then
              [-4, -3, -2, -1, 0, 1, 0, -1, -2]
          else
              [-4, -3, -2, -1, 0, -1, -2, -3, -4])"

definition offsets_with_border_9x9 :: "FixedBorderInfo \<Rightarrow> nat \<Rightarrow> int list" where
  "offsets_with_border_9x9 info index =
     (if index \<le> 3 then offsets_with_left_border_9x9 info index
      else if index \<ge> size_from_end info 4 then offsets_with_right_border_9x9 info index
      else offsets_without_border_9x9)"

section \<open>Filters of size 15\<close>

definition offsets_without_border_15x15 :: "int list" where
  "offsets_without_border_15x15 = [-7, -6, -5, -4, -3, -2, -1, 0, 1, 2, 3, 4, 5, 6, 7]"

definition offsets_with_left_border_15x15 :: "FixedBorderInfo \<Rightarrow> nat \<Rightarrow> int list" where
  "offsets_with_left_border_15x15 info column_index =
     (case fb_border_type info of
        REPLICATE \<Rightarrow>
          if column_index = 0 then
              [0, 0, 0, 0, 0, 0, 0, 0, 1, 2, 3, 4, 5, 6, 7]
          else if column_index = 1 then
              [-1, -1, -1, -1, -1, -1, -1, 0, 1, 2, 3, 4, 5, 6, 7]
          else if column_index = 2 then
              [-2, -2, -2, -2, -2, -2, -1, 0, 1, 2, 3, 4, 5, 6, 7]
          else if column_index = 3 then
              [-3, -3, -3, -3, -3, -2, -1, 0, 1, 2, 3, 4, 5, 6, 7]
          else if column_index = 4 then
              [-4, -4, -4, -4, -3, -2, -1, 0, 1, 2, 3, 4, 5, 6, 7]
          else if column_index = 5 then
              [-5, -5, -5, -4, -3, -2, -1, 0, 1, 2, 3, 4, 5, 6, 7]
          else
              [-6, -6, -5, -4, -3, -2, -1, 0, 1, 2, 3, 4, 5, 6, 7]
      | REFLECT \<Rightarrow>
          if column_index = 0 then
              [6, 5, 4, 3, 2, 1, 0, 0, 1, 2, 3, 4, 5, 6, 7]
          else if column_index = 1 then
              [4, 3, 2, 1, 0, -1, -1, 0, 1, 2, 3, 4, 5, 6, 7]
          else if column_index = 2 then
              [2, 1, 0, -1, -2, -2, -1, 0, 1, 2, 3, 4, 5, 6, 7]
          else if column_index = 3 then
              [0, -1, -2, -3, -3, -2, -1, 0, 1, 2, 3, 4, 5, 6, 7]
          else if column_index = 4 then
              [-2, -3, -4, -4, -3, -2, -1, 0, 1, 2, 3, 4, 5, 6, 7]
          else if column_index = 5 then
              [-4, -5, -5, -4, -3, -2, -1, 0, 1, 2, 3, 4, 5, 6, 7]
          else
              [-6, -6, -5, -4, -3, -2, -1, 0, 1, 2, 3, 4, 5, 6, 7]
      | WRAP \<Rightarrow>
          if column_index = 0 then
              [offset_from_end info 7, offset_from_end info 6, offset_from_end info 5,
               offset_from_end info 4, offset_from_end info 3, offset_from_end info 2,
               offset_from_end info 1, 0, 1, 2, 3, 4, 5, 6, 7]
          else if column_index = 1 then
              [offset_from_end info 7, offset_from_end info 6, offset_from_end info 5,
               offset_from_end info 4, offset_from_end info 3, offset_from_end info 2, -1, 0, 1,
               2, 3, 4, 5, 6, 7]
          else if column_index = 2 then
              [offset_from_end info 7, offset_from_end info 6, offset_from_end info 5,
               offset_from_end info 4, offset_from_end info 3, -2, -1, 0, 1, 2, 3, 4, 5, 6, 7]
          else if column_index = 3 then
              [offset_from_end info 7, offset_from_end info 6, offset_from_end info 5,
               offset_from_end info 4, -3, -2, -1, 0, 1, 2, 3, 4, 5, 6, 7]
          else if column_index = 4 then
              [offset_from_end info 7, offset_from_end info 6, offset_from_end info 5, -4, -3,
               -2, -1, 0, 1, 2, 3, 4, 5, 6, 7]
          else if column_index = 5 then
              [offset_from_end info 7, offset_from_end info 6, -5, -4, -3, -2, -1, 0, 1, 2, 3, 4,
               5, 6, 7]
          else
              [offset_from_end info 7, -6, -5, -4, -3, -2, -1, 0, 1, 2, 3, 4, 5, 6, 7]
      | REVERSE \<Rightarrow>
          if column_index = 0 then
              [7, 6, 5, 4, 3, 2, 1, 0, 1, 2, 3, 4, 5, 6, 7]
          else if column_index = 1 then
              [5, 4, 3, 2, 1, 0, -1, 0, 1, 2, 3, 4, 5, 6, 7]
          else if column_index = 2 then
              [3, 2, 1, 0, -1, -2, -1, 0, 1, 2, 3, 4, 5, 6, 7]
          else if column_index = 3 then
              [1, 0, -1, -2, -3, -2, -1, 0, 1, 2, 3, 4, 5, 6, 7]
          else if column_index = 4 then
              [-1, -2, -3, -4, -3, -2, -1, 0, 1, 2, 3, 4, 5, 6, 7]
          else if column_index = 5 then
              [-3, -4, -5, -4, -3, -2, -1, 0, 1, 2, 3, 4, 5, 6, 7]
          else
              [-5, -6, -5, -4, -3, -2, -1, 0, 1, 2, 3, 4, 5, 6, 7])"

definition offsets_with_right_border_15x15 :: "FixedBorderInfo \<Rightarrow> nat \<Rightarrow> int list" where
  "offsets_with_right_border_15x15 info column_index =
     (case fb_border_type info of
        REPLICATE \<Rightarrow>
          if column_index = size_from_end info 7 then
              [-7, -6, -5, -4, -3, -2, -1, 0, 1, 2, 3, 4, 5, 6, 6]
          else if column_index = size_from_end info 6 then
              [-7, -6, -5, -4, -3, -2, -1, 0, 1, 2, 3, 4, 5, 5, 5]
          else if column_index = size_from_end info 5 then
              [-7, -6, -5, -4, -3, -2, -1, 0, 1, 2, 3, 4, 4, 4, 4]
          else if column_index = size_from_end info 4 then
              [-7, -6, -5, -4, -3, -2, -1, 0, 1, 2, 3, 3, 3, 3, 3]
          else if column_index = size_from_end info 3 then
              [-7, -6, -5, -4, -3, -2, -1, 0, 1, 2, 2, 2, 2, 2, 2]
          else if column_index = size_from_end info 2 then
              [-7, -6, -5, -4, -3, -2, -1, 0, 1, 1, 1, 1, 1, 1, 1]
          else
              [-7, -6, -5, -4, -3, -2, -1, 0, 0, 0, 0, 0, 0, 0, 0]
      | REFLECT \<Rightarrow>
          if column_index = size_from_end info 7 then
              [-7, -6, -5, -4, -3, -2, -1, 0, 1, 2, 3, 4, 5, 6, 6]
          else if column_index = size_from_end info 6 then
              [-7, -6, -5, -4, -3, -2, -1, 0, 1, 2, 3, 4, 5, 5, 4]
          else if column_index = size_from_end info 5 then
              [-7, -6, -5, -4, -3, -2, -1, 0, 1, 2, 3, 4, 4, 3, 2]
          else if column_index = size_from_end info 4 then
              [-7, -6, -5, -4, -3, -2, -1, 0, 1, 2, 3, 3, 2, 1, 0]
          else if column_index = size_from_end info 3 then
              [-7, -6, -5, -4, -3, -2, -1, 0, 1, 2, 2, 1, 0, -1, -2]
          else if column_index = size_from_end info 2 then
              [-7, -6, -5, -4, -3, -2, -1, 0, 1, 1, 0, -1, -2, -3, -4]
          else
              [-7, -6, -5, -4, -3, -2, -1, 0, 0, -1, -2, -3, -4, -5, -6]
      | WRAP \<Rightarrow>
          if column_index = size_from_end info 7 then
              [-7, -6, -5, -4, -3, -2, -1, 0, 1, 2, 3, 4, 5, 6, 7 + wrap_offset info]
          else if column_index = size_from_end info 6 then
              [-7, -6, -5, -4, -3, -2, -1, 0, 1, 2, 3, 4, 5, 6 + wrap_offset info,
               7 + wrap_offset info]
          else if column_index = size_from_end info 5 then
              [-7, -6, -5, -4, -3, -2, -1, 0, 1, 2, 3, 4, 5 + wrap_offset info,
               6 + wrap_offset info, 7 + wrap_offset info]
          else if column_index = size_from_end info 4 then
              [-7, -6, -5, -4, -3, -2, -1, 0, 1, 2, 3, 4 + wrap_offset info,
               5 + wrap_offset info, 6 + wrap_offset info, 7 + wrap_offset info]
          else if column_index = size_from_end info 3 then
              [-7, -6, -5, -4, -3, -2, -1, 0, 1, 2, 3 + wrap_offset info, 4 + wrap_offset info,
               5 + wrap_offset info, 6 + wrap_offset info, 7 + wrap_offset info]
          else if column_index = size_from_end info 2 then
              [-7, -6, -5, -4, -3, -2, -1, 0, 1, 2 + wrap_offset info, 3 + wrap_offset info,
               4 + wrap_offset info, 5 + wrap_offset info, 6 + wrap_offset info,
               7 + wrap_offset info]
          else
              [-7, -6, -5, -4, -3, -2, -1, 0, 1 + wrap_offset info, 2 + wrap_offset info,
               3 + wrap_offset info, 4 + wrap_offset info, 5 + wrap_offset info,
               6 + wrap_offset info, 7 + wrap_offset info]
      | REVERSE \<Rightarrow>
          if column_index = size_from_end info 7 then
              [-7, -6, -5, -4, -3, -2, -1, 0, 1, 2, 3, 4, 5, 6, 5]
          else if column_index = size_from_end info 6 then
              [-7, -6, -5, -4, -3, -2, -1, 0, 1, 2, 3, 4, 5, 4, 3]
          else if column_index = size_from_end info 5 then
              [-7, -6, -5, -4, -3, -2, -1, 0, 1, 2, 3, 4, 3, 2, 1]
          else if column_index = size_from_end info 4 then
              [-7, -6, -5, -4, -3, -2, -1, 0, 1, 2, 3, 2, 1, 0, -1]
          else if column_index = size_from_end info 3 then
              [-7, -6, -5, -4, -3, -2, -1, 0, 1, 2, 1, 0, -1, -2, -3]
          else if column_index = size_from_end info 2 then
              [-7, -6, -5, -4, -3, -2, -1, 0, 1, 0, -1, -2, -3, -4, -5]
          else
              [-7, -6, -5, -4, -3, -2, -1, 0, -1, -2, -3, -4, -5, -6, -7])"

definition offsets_with_border_15x15 :: "FixedBorderInfo \<Rightarrow> nat \<Rightarrow> int list" where
  "offsets_with_border_15x15 info index =
     (if index \<le> 6 then offsets_with_left_border_15x15 info index
      else if index \<ge> size_from_end info 7 then offsets_with_right_border_15x15 info index
      else offsets_without_border_15x15)"

section \<open>Filters of size 21\<close>

definition offsets_without_border_21x21 :: "int list" where
  "offsets_without_border_21x21 = [-10, -9, -8, -7, -6, -5, -4, -3, -2, -1, 0, 1, 2, 3, 4, 5, 6, 7, 8, 9, 10]"

definition offsets_with_left_border_21x21 :: "FixedBorderInfo \<Rightarrow> nat \<Rightarrow> int list" where
  "offsets_with_left_border_21x21 info column_index =
     (case fb_border_type info of
        REPLICATE \<Rightarrow>
          if column_index = 0 then
              [0, 0, 0, 0, 0, 0, 0, 0, 0, 0, 0, 1, 2, 3, 4, 5, 6, 7, 8, 9, 10]
          else if column_index = 1 then
              [-1, -1, -1, -1, -1, -1, -1, -1, -1, -1, 0, 1, 2, 3, 4, 5, 6, 7, 8, 9, 10]
          else if column_index = 2 then
              [-2, -2, -2, -2, -2, -2, -2, -2, -2, -1, 0, 1, 2, 3, 4, 5, 6, 7, 8, 9, 10]
          else if column_index = 3 then
              [-3, -3, -3, -3, -3, -3, -3, -3, -2, -1, 0, 1, 2, 3, 4, 5, 6, 7, 8, 9, 10]
          else if column_index = 4 then
              [-4, -4, -4, -4, -4, -4, -4, -3, -2, -1, 0, 1, 2, 3, 4, 5, 6, 7, 8, 9, 10]
          else if column_index = 5 then
              [-5, -5, -5, -5, -5, -5, -4, -3, -2, -1, 0, 1, 2, 3, 4, 5, 6, 7, 8, 9, 10]
          else if column_index = 6 then
              [-6, -6, -6, -6, -6, -5, -4, -3, -2, -1, 0, 1, 2, 3, 4, 5, 6, 7, 8, 9, 10]
          else if column_index = 7 then
              [-7, -7, -7, -7, -6, -5, -4, -3, -2, -1, 0, 1, 2, 3, 4, 5, 6, 7, 8, 9, 10]
          else if column_index = 8 then
              [-8, -8, -8, -7, -6, -5, -4, -3, -2, -1, 0, 1, 2, 3, 4, 5, 6, 7, 8, 9, 10]
          else
              [-9, -9, -8, -7, -6, -5, -4, -3, -2, -1, 0, 1, 2, 3, 4, 5, 6, 7, 8, 9, 10]
      | REFLECT \<Rightarrow>
          if column_index = 0 then
              [9, 8, 7, 6, 5, 4, 3, 2, 1, 0, 0, 1, 2, 3, 4, 5, 6, 7, 8, 9, 10]
          else if column_index = 1 then
              [7, 6, 5, 4, 3, 2, 1, 0, -1, -1, 0, 1, 2, 3, 4, 5, 6, 7, 8, 9, 10]
          else if column_index = 2 then
              [5, 4, 3, 2, 1, 0, -1, -2, -2, -1, 0, 1, 2, 3, 4, 5, 6, 7, 8, 9, 10]
          else if column_index = 3 then
              [3, 2, 1, 0, -1, -2, -3, -3, -2, -1, 0, 1, 2, 3, 4, 5, 6, 7, 8, 9, 10]
          else if column_index = 4 then
              [1, 0, -1, -2, -3, -4, -4, -3, -2, -1, 0, 1, 2, 3, 4, 5, 6, 7, 8, 9, 10]
          else if column_index = 5 then
              [-1, -2, -3, -4, -5, -5, -4, -3, -2, -1, 0, 1, 2, 3, 4, 5, 6, 7, 8, 9, 10]
          else if column_index = 6 then
              [-3, -4, -5, -6, -6, -5, -4, -3, -2, -1, 0, 1, 2, 3, 4, 5, 6, 7, 8, 9, 10]
          else if column_index = 7 then
              [-5, -6, -7, -7, -6, -5, -4, -3, -2, -1, 0, 1, 2, 3, 4, 5, 6, 7, 8, 9, 10]
          else if column_index = 8 then
              [-7, -8, -8, -7, -6, -5, -4, -3, -2, -1, 0, 1, 2, 3, 4, 5, 6, 7, 8, 9, 10]
          else
              [-9, -9, -8, -7, -6, -5, -4, -3, -2, -1, 0, 1, 2, 3, 4, 5, 6, 7, 8, 9, 10]
      | WRAP \<Rightarrow>
          if column_index = 0 then
              [offset_from_end info 10, offset_from_end info 9, offset_from_end info 8,
               offset_from_end info 7, offset_from_end info 6, offset_from_end info 5,
               offset_from_end info 4, offset_from_end info 3, offset_from_end info 2,
               offset_from_end info 1, 0, 1, 2, 3, 4, 5, 6, 7, 8, 9, 10]
          else if column_index = 1 then
              [offset_from_end info 10, offset_from_end info 9, offset_from_end info 8,
               offset_from_end info 7, offset_from_end info 6, offset_from_end info 5,
               offset_from_end info 4, offset_from_end info 3, offset_from_end info 2, -1, 0, 1,
               2, 3, 4, 5, 6, 7, 8, 9, 10]
          else if column_index = 2 then
              [offset_from_end info 10, offset_from_end info 9, offset_from_end info 8,
               offset_from_end info 7, offset_from_end info 6, offset_from_end info 5,
               offset_from_end info 4, offset_from_end info 3, -2, -1, 0, 1, 2, 3, 4, 5, 6, 7, 8,
               9, 10]
          else if column_index = 3 then
              [offset_from_end info 10, offset_from_end info 9, offset_from_end info 8,
               offset_from_end info 7, offset_from_end info 6, offset_from_end info 5,
               offset_from_end info 4, -3, -2, -1, 0, 1, 2, 3, 4, 5, 6, 7, 8, 9, 10]
          else if column_index = 4 then
              [offset_from_end info 10, offset_from_end info 9, offset_from_end info 8,
               offset_from_end info 7, offset_from_end info 6, offset_from_end info 5, -4, -3,
               -2, -1, 0, 1, 2, 3, 4, 5, 6, 7, 8, 9, 10]
          else if column_index = 5 then
              [offset_from_end info 10, offset_from_end info 9, offset_from_end info 8,
               offset_from_end info 7, offset_from_end info 6, -5, -4, -3, -2, -1, 0, 1, 2, 3, 4,
               5, 6, 7, 8, 9, 10]
          else if column_index = 6 then
              [offset_from_end info 10, offset_from_end info 9, offset_from_end info 8,
               offset_from_end info 7, -6, -5, -4, -3, -2, -1, 0, 1, 2, 3, 4, 5, 6, 7, 8, 9, 10]
          else if column_index = 7 then
              [offset_from_end info 10, offset_from_end info 9, offset_from_end info 8, -7, -6,
               -5, -4, -3, -2, -1, 0, 1, 2, 3, 4, 5, 6, 7, 8, 9, 10]
          else if column_index = 8 then
              [offset_from_end info 10, offset_from_end info 9, -8, -7, -6, -5, -4, -3, -2, -1,
               0, 1, 2, 3, 4, 5, 6, 7, 8, 9, 10]
          else
              [offset_from_end info 10, -9, -8, -7, -6, -5, -4, -3, -2, -1, 0, 1, 2, 3, 4, 5, 6,
               7, 8, 9, 10]
      | REVERSE \<Rightarrow>
          if column_index = 0 then
              [10, 9, 8, 7, 6, 5, 4, 3, 2, 1, 0, 1, 2, 3, 4, 5, 6, 7, 8, 9, 10]
          else if column_index = 1 then
              [8, 7, 6, 5, 4, 3, 2, 1, 0, -1, 0, 1, 2, 3, 4, 5, 6, 7, 8, 9, 10]
          else if column_index = 2 then
              [6, 5, 4, 3, 2, 1, 0, -1, -2, -1, 0, 1, 2, 3, 4, 5, 6, 7, 8, 9, 10]
          else if column_index = 3 then
              [4, 3, 2, 1, 0, -1, -2, -3, -2, -1, 0, 1, 2, 3, 4, 5, 6, 7, 8, 9, 10]
          else if column_index = 4 then
              [2, 1, 0, -1, -2, -3, -4, -3, -2, -1, 0, 1, 2, 3, 4, 5, 6, 7, 8, 9, 10]
          else if column_index = 5 then
              [0, -1, -2, -3, -4, -5, -4, -3, -2, -1, 0, 1, 2, 3, 4, 5, 6, 7, 8, 9, 10]
          else if column_index = 6 then
              [-2, -3, -4, -5, -6, -5, -4, -3, -2, -1, 0, 1, 2, 3, 4, 5, 6, 7, 8, 9, 10]
          else if column_index = 7 then
              [-4, -5, -6, -7, -6, -5, -4, -3, -2, -1, 0, 1, 2, 3, 4, 5, 6, 7, 8, 9, 10]
          else if column_index = 8 then
              [-6, -7, -8, -7, -6, -5, -4, -3, -2, -1, 0, 1, 2, 3, 4, 5, 6, 7, 8, 9, 10]
          else
              [-8, -9, -8, -7, -6, -5, -4, -3, -2, -1, 0, 1, 2, 3, 4, 5, 6, 7, 8, 9, 10])"

definition offsets_with_right_border_21x21 :: "FixedBorderInfo \<Rightarrow> nat \<Rightarrow> int list" where
  "offsets_with_right_border_21x21 info column_index =
     (case fb_border_type info of
        REPLICATE \<Rightarrow>
          if column_index = size_from_end info 10 then
              [-10, -9, -8, -7, -6, -5, -4, -3, -2, -1, 0, 1, 2, 3, 4, 5, 6, 7, 8, 9, 9]
          else if column_index = size_from_end info 9 then
              [-10, -9, -8, -7, -6, -5, -4, -3, -2, -1, 0, 1, 2, 3, 4, 5, 6, 7, 8, 8, 8]
          else if column_index = size_from_end info 8 then
              [-10, -9, -8, -7, -6, -5, -4, -3, -2, -1, 0, 1, 2, 3, 4, 5, 6, 7, 7, 7, 7]
          else if column_index = size_from_end info 7 then
              [-10, -9, -8, -7, -6, -5, -4, -3, -2, -1, 0, 1, 2, 3, 4, 5, 6, 6, 6, 6, 6]
          else if column_index = size_from_end info 6 then
              [-10, -9, -8, -7, -6, -5, -4, -3, -2, -1, 0, 1, 2, 3, 4, 5, 5, 5, 5, 5, 5]
          else if column_index = size_from_end info 5 then
              [-10, -9, -8, -7, -6, -5, -4, -3, -2, -1, 0, 1, 2, 3, 4, 4, 4, 4, 4, 4, 4]
          else if column_index = size_from_end info 4 then
              [-10, -9, -8, -7, -6, -5, -4, -3, -2, -1, 0, 1, 2, 3, 3, 3, 3, 3, 3, 3, 3]
          else if column_index = size_from_end info 3 then
              [-10, -9, -8, -7, -6, -5, -4, -3, -2, -1, 0, 1, 2, 2, 2, 2, 2, 2, 2, 2, 2]
          else if column_index = size_from_end info 2 then
              [-10, -9, -8, -7, -6, -5, -4, -3, -2, -1, 0, 1, 1, 1, 1, 1, 1, 1, 1, 1, 1]
          else
              [-10, -9, -8, -7, -6, -5, -4, -3, -2, -1, 0, 0, 0, 0, 0, 0, 0, 0, 0, 0, 0]
      | REFLECT \<Rightarrow>
          if column_index = size_from_end info 10 then
              [-10, -9, -8, -7, -6, -5, -4, -3, -2, -1, 0, 1, 2, 3, 4, 5, 6, 7, 8, 9, 9]
          else if column_index = size_from_end info 9 then
              [-10, -9, -8, -7, -6, -5, -4, -3, -2, -1, 0, 1, 2, 3, 4, 5, 6, 7, 8, 8, 7]
          else if column_index = size_from_end info 8 then
              [-10, -9, -8, -7, -6, -5, -4, -3, -2, -1, 0, 1, 2, 3, 4, 5, 6, 7, 7, 6, 5]
          else if column_index = size_from_end info 7 then
              [-10, -9, -8, -7, -6, -5, -4, -3, -2, -1, 0, 1, 2, 3, 4, 5, 6, 6, 5, 4, 3]
          else if column_index = size_from_end info 6 then
              [-10, -9, -8, -7, -6, -5, -4, -3, -2, -1, 0, 1, 2, 3, 4, 5, 5, 4, 3, 2, 1]
          else if column_index = size_from_end info 5 then
              [-10, -9, -8, -7, -6, -5, -4, -3, -2, -1, 0, 1, 2, 3, 4, 4, 3, 2, 1, 0, -1]
          else if column_index = size_from_end info 4 then
              [-10, -9, -8, -7, -6, -5, -4, -3, -2, -1, 0, 1, 2, 3, 3, 2, 1, 0, -1, -2, -3]
          else if column_index = size_from_end info 3 then
              [-10, -9, -8, -7, -6, -5, -4, -3, -2, -1, 0, 1, 2, 2, 1, 0, -1, -2, -3, -4, -5]
          else if column_index = size_from_end info 2 then
              [-10, -9, -8, -7, -6, -5, -4, -3, -2, -1, 0, 1, 1, 0, -1, -2, -3, -4, -5, -6, -7]
          else
              [-10, -9, -8, -7, -6, -5, -4, -3, -2, -1, 0, 0, -1, -2, -3, -4, -5, -6, -7, -8, -9]
      | WRAP \<Rightarrow>
          if column_index = size_from_end info 10 then
              [-10, -9, -8, -7, -6, -5, -4, -3, -2, -1, 0, 1, 2, 3, 4, 5, 6, 7, 8, 9,
               10 + wrap_offset info]
          else if column_index = size_from_end info 9 then
              [-10, -9, -8, -7, -6, -5, -4, -3, -2, -1, 0, 1, 2, 3, 4, 5, 6, 7, 8,
               9 + wrap_offset info, 10 + wrap_offset info]
          else if column_index = size_from_end info 8 then
              [-10, -9, -8, -7, -6, -5, -4, -3, -2, -1, 0, 1, 2, 3, 4, 5, 6, 7,
               8 + wrap_offset info, 9 + wrap_offset info, 10 + wrap_offset info]
          else if column_index = size_from_end info 7 then
              [-10, -9, -8, -7, -6, -5, -4, -3, -2, -1, 0, 1, 2, 3, 4, 5, 6,
               7 + wrap_offset info, 8 + wrap_offset info, 9 + wrap_offset info,
               10 + wrap_offset info]
          else if column_index = size_from_end info 6 then
              [-10, -9, -8, -7, -6, -5, -4, -3, -2, -1, 0, 1, 2, 3, 4, 5, 6 + wrap_offset info,
               7 + wrap_offset info, 8 + wrap_offset info, 9 + wrap_offset info,
               10 + wrap_offset info]
          else if column_index = size_from_end info 5 then
              [-10, -9, -8, -7, -6, -5, -4, -3, -2, -1, 0, 1, 2, 3, 4, 5 + wrap_offset info,
               6 + wrap_offset info, 7 + wrap_offset info, 8 + wrap_offset info,
               9 + wrap_offset info, 10 + wrap_offset info]
          else if column_index = size_from_end info 4 then
              [-10, -9, -8, -7, -6, -5, -4, -3, -2, -1, 0, 1, 2, 3, 4 + wrap_offset info,
               5 + wrap_offset info, 6 + wrap_offset info, 7 + wrap_offset info,
               8 + wrap_offset info, 9 + wrap_offset info, 10 + wrap_offset info]
          else if column_index = size_from_end info 3 then
              [-10, -9, -8, -7, -6, -5, -4, -3, -2, -1, 0, 1, 2, 3 + wrap_offset info,
               4 + wrap_offset info, 5 + wrap_offset info, 6 + wrap_offset info,
               7 + wrap_offset info, 8 + wrap_offset info, 9 + wrap_offset info,
               10 + wrap_offset info]
          else if column_index = size_from_end info 2 then
              [-10, -9, -8, -7, -6, -5, -4, -3, -2, -1, 0, 1, 2 + wrap_offset info,
               3 + wrap_offset info, 4 + wrap_offset info, 5 + wrap_offset info,
               6 + wrap_offset info, 7 + wrap_offset info, 8 + wrap_offset info,
               9 + wrap_offset info, 10 + wrap_offset info]
          else
              [-10, -9, -8, -7, -6, -5, -4, -3, -2, -1, 0, 1 + wrap_offset info,
               2 + wrap_offset info, 3 + wrap_offset info, 4 + wrap_offset info,
               5 + wrap_offset info, 6 + wrap_offset info, 7 + wrap_offset info,
               8 + wrap_offset info, 9 + wrap_offset info, 10 + wrap_offset info]
      | REVERSE \<Rightarrow>
          if column_index = size_from_end info 10 then
              [-10, -9, -8, -7, -6, -5, -4, -3, -2, -1, 0, 1, 2, 3, 4, 5, 6, 7, 8, 9, 8]
          else if column_index = size_from_end info 9 then
              [-10, -9, -8, -7, -6, -5, -4, -3, -2, -1, 0, 1, 2, 3, 4, 5, 6, 7, 8, 7, 6]
          else if column_index = size_from_end info 8 then
              [-10, -9, -8, -7, -6, -5, -4, -3, -2, -1, 0, 1, 2, 3, 4, 5, 6, 7, 6, 5, 4]
          else if column_index = size_from_end info 7 then
              [-10, -9, -8, -7, -6, -5, -4, -3, -2, -1, 0, 1, 2, 3, 4, 5, 6, 5, 4, 3, 2]
          else if column_index = size_from_end info 6 then
              [-10, -9, -8, -7, -6, -5, -4, -3, -2, -1, 0, 1, 2, 3, 4, 5, 4, 3, 2, 1, 0]
          else if column_index = size_from_end info 5 then
              [-10, -9, -8, -7, -6, -5, -4, -3, -2, -1, 0, 1, 2, 3, 4, 3, 2, 1, 0, -1, -2]
          else if column_index = size_from_end info 4 then
              [-10, -9, -8, -7, -6, -5, -4, -3, -2, -1, 0, 1, 2, 3, 2, 1, 0, -1, -2, -3, -4]
          else if column_index = size_from_end info 3 then
              [-10, -9, -8, -7, -6, -5, -4, -3, -2, -1, 0, 1, 2, 1, 0, -1, -2, -3, -4, -5, -6]
          else if column_index = size_from_end info 2 then
              [-10, -9, -8, -7, -6, -5, -4, -3, -2, -1, 0, 1, 0, -1, -2, -3, -4, -5, -6, -7, -8]
          else
              [-10, -9, -8, -7, -6, -5, -4, -3, -2, -1, 0, -1, -2, -3, -4, -5, -6, -7, -8, -9, -10])"

definition offsets_with_border_21x21 :: "FixedBorderInfo \<Rightarrow> nat \<Rightarrow> int list" where
  "offsets_with_border_21x21 info index =
     (if index < 10 then offsets_with_left_border_21x21 info index
      else if index \<ge> size_from_end info 10 then offsets_with_right_border_21x21 info index
      else offsets_without_border_21x21)"

section \<open>The class template\<close>

text \<open>
  \<^verbatim>\<open>FixedBorderInfo<T, S>\<close>: the compiler picks the class by the size; there is none
  for other sizes.
\<close>

definition offsets_without_border :: "nat \<Rightarrow> int list" where
  "offsets_without_border S =
     (if S = 3 then offsets_without_border_3x3 else if S = 5 then offsets_without_border_5x5
      else if S = 7 then offsets_without_border_7x7 else if S = 9 then offsets_without_border_9x9
      else if S = 15 then offsets_without_border_15x15 else if S = 21 then offsets_without_border_21x21
      else [])"

definition offsets_with_left_border :: "nat \<Rightarrow> FixedBorderInfo \<Rightarrow> nat \<Rightarrow> int list" where
  "offsets_with_left_border S info index =
     (if S = 3 then offsets_with_left_border_3x3 info index else if S = 5 then offsets_with_left_border_5x5 info index
      else if S = 7 then offsets_with_left_border_7x7 info index else if S = 9 then offsets_with_left_border_9x9 info index
      else if S = 15 then offsets_with_left_border_15x15 info index
      else if S = 21 then offsets_with_left_border_21x21 info index else [])"

definition offsets_with_right_border :: "nat \<Rightarrow> FixedBorderInfo \<Rightarrow> nat \<Rightarrow> int list" where
  "offsets_with_right_border S info index =
     (if S = 3 then offsets_with_right_border_3x3 info index else if S = 5 then offsets_with_right_border_5x5 info index
      else if S = 7 then offsets_with_right_border_7x7 info index else if S = 9 then offsets_with_right_border_9x9 info index
      else if S = 15 then offsets_with_right_border_15x15 info index
      else if S = 21 then offsets_with_right_border_21x21 info index else [])"

definition offsets_with_border :: "nat \<Rightarrow> FixedBorderInfo \<Rightarrow> nat \<Rightarrow> int list" where
  "offsets_with_border S info index =
     (if S = 3 then offsets_with_border_3x3 info index else if S = 5 then offsets_with_border_5x5 info index
      else if S = 7 then offsets_with_border_7x7 info index else if S = 9 then offsets_with_border_9x9 info index
      else if S = 15 then offsets_with_border_15x15 info index
      else if S = 21 then offsets_with_border_21x21 info index else [])"

abbreviation filter_size :: "nat \<Rightarrow> bool" where
  "filter_size S \<equiv> S \<in> {3, 5, 7, 9, 15, 21}"

section \<open>What the tables hold\<close>

text \<open>
  Left of an image of length \<open>n\<close>, at index \<open>i\<close>, the offset of tap \<open>k\<close> (counted from the middle
  of the filter), and right of it at index \<open>n - t\<close>.
\<close>

definition left_offset :: "FixedBorderInfo \<Rightarrow> int \<Rightarrow> int \<Rightarrow> int" where
  "left_offset info i k =
     (if 0 \<le> i + k then k
      else case fb_border_type info of
        REPLICATE \<Rightarrow> - i | REFLECT \<Rightarrow> - k - 1 - 2 * i | WRAP \<Rightarrow> int (fb_length info) + k
      | REVERSE \<Rightarrow> - k - 2 * i)"

definition right_offset :: "FixedBorderInfo \<Rightarrow> int \<Rightarrow> int \<Rightarrow> int" where
  "right_offset info t k =
     (if k < t then k
      else case fb_border_type info of
        REPLICATE \<Rightarrow> t - 1 | REFLECT \<Rightarrow> 2 * t - 1 - k | WRAP \<Rightarrow> k - int (fb_length info)
      | REVERSE \<Rightarrow> 2 * t - 2 - k)"

definition taps :: "nat \<Rightarrow> int list" where
  "taps S = map (\<lambda>j. int j - int (S div 2)) [0..<S]"

lemma taps_simps:
  "taps 3 = [-1, 0, 1]"
  "taps 5 = [-2, -1, 0, 1, 2]"
  "taps 7 = [-3, -2, -1, 0, 1, 2, 3]"
  "taps 9 = [-4, -3, -2, -1, 0, 1, 2, 3, 4]"
  "taps 15 = [-7, -6, -5, -4, -3, -2, -1, 0, 1, 2, 3, 4, 5, 6, 7]"
  "taps 21 = [-10, -9, -8, -7, -6, -5, -4, -3, -2, -1, 0, 1, 2, 3, 4, 5, 6, 7, 8, 9, 10]"
  by (simp_all add: taps_def upt_rec)

lemma less_cases:
  "(i :: nat) < 1 \<longleftrightarrow> i = 0"
  "(i :: nat) < 2 \<longleftrightarrow> i = 0 \<or> i = 1"
  "(i :: nat) < 3 \<longleftrightarrow> i = 0 \<or> i = 1 \<or> i = 2"
  "(i :: nat) < 4 \<longleftrightarrow> i = 0 \<or> i = 1 \<or> i = 2 \<or> i = 3"
  "(i :: nat) < 7 \<longleftrightarrow> i = 0 \<or> i = 1 \<or> i = 2 \<or> i = 3 \<or> i = 4 \<or> i = 5 \<or> i = 6"
  "(i :: nat) < 10 \<longleftrightarrow> i = 0 \<or> i = 1 \<or> i = 2 \<or> i = 3 \<or> i = 4 \<or> i = 5 \<or> i = 6 \<or> i = 7 \<or> i = 8 \<or> i = 9"
  by arith+

lemma at_end_iff:
  assumes "fb_length info \<le> size_max" and "k \<le> fb_length info" and "i + t = fb_length info"
  shows "(i = size_from_end info k) = (t = k)"
  using assms by (auto simp: size_from_end_eq)

lemmas offset_defs = left_offset_def right_offset_def offset_from_end_def wrap_offset_def

lemma offsets_without_border_taps: "filter_size S \<Longrightarrow> offsets_without_border S = taps S"
  by (auto simp: offsets_without_border_def taps_simps
      offsets_without_border_3x3_def offsets_without_border_5x5_def offsets_without_border_7x7_def
      offsets_without_border_9x9_def offsets_without_border_15x15_def offsets_without_border_21x21_def)

lemma left_table_3:
  "i < 1 \<Longrightarrow> offsets_with_left_border_3x3 info i = map (left_offset info (int i)) (taps 3)"
  by (cases "fb_border_type info"; simp only: less_cases; (elim disjE)?;
      simp add: offsets_with_left_border_3x3_def offset_defs taps_simps)

lemma right_table_3:
  assumes "fb_length info \<le> size_max" and "2 \<le> fb_length info" and "t < 1"
    and "i + (t + 1) = fb_length info"
  shows "offsets_with_right_border_3x3 info i = map (right_offset info (int t + 1)) (taps 3)"
proof -
  have test: "(i = size_from_end info k) = (t + 1 = k)" if "k \<le> 1" for k
    using at_end_iff assms that by simp
  show ?thesis
    using assms(3)
    by (cases "fb_border_type info"; simp only: less_cases; (elim disjE)?;
        simp add: offsets_with_right_border_3x3_def test offset_defs taps_simps)
qed

lemma left_table_5:
  "i < 2 \<Longrightarrow> offsets_with_left_border_5x5 info i = map (left_offset info (int i)) (taps 5)"
  by (cases "fb_border_type info"; simp only: less_cases; (elim disjE)?;
      simp add: offsets_with_left_border_5x5_def offset_defs taps_simps)

lemma right_table_5:
  assumes "fb_length info \<le> size_max" and "4 \<le> fb_length info" and "t < 2"
    and "i + (t + 1) = fb_length info"
  shows "offsets_with_right_border_5x5 info i = map (right_offset info (int t + 1)) (taps 5)"
proof -
  have test: "(i = size_from_end info k) = (t + 1 = k)" if "k \<le> 2" for k
    using at_end_iff assms that by simp
  show ?thesis
    using assms(3)
    by (cases "fb_border_type info"; simp only: less_cases; (elim disjE)?;
        simp add: offsets_with_right_border_5x5_def test offset_defs taps_simps)
qed

lemma left_table_7:
  "i < 3 \<Longrightarrow> offsets_with_left_border_7x7 info i = map (left_offset info (int i)) (taps 7)"
  by (cases "fb_border_type info"; simp only: less_cases; (elim disjE)?;
      simp add: offsets_with_left_border_7x7_def offset_defs taps_simps)

lemma right_table_7:
  assumes "fb_length info \<le> size_max" and "6 \<le> fb_length info" and "t < 3"
    and "i + (t + 1) = fb_length info"
  shows "offsets_with_right_border_7x7 info i = map (right_offset info (int t + 1)) (taps 7)"
proof -
  have test: "(i = size_from_end info k) = (t + 1 = k)" if "k \<le> 3" for k
    using at_end_iff assms that by simp
  show ?thesis
    using assms(3)
    by (cases "fb_border_type info"; simp only: less_cases; (elim disjE)?;
        simp add: offsets_with_right_border_7x7_def test offset_defs taps_simps)
qed

lemma left_table_9:
  "i < 4 \<Longrightarrow> offsets_with_left_border_9x9 info i = map (left_offset info (int i)) (taps 9)"
  by (cases "fb_border_type info"; simp only: less_cases; (elim disjE)?;
      simp add: offsets_with_left_border_9x9_def offset_defs taps_simps)

lemma right_table_9:
  assumes "fb_length info \<le> size_max" and "8 \<le> fb_length info" and "t < 4"
    and "i + (t + 1) = fb_length info"
  shows "offsets_with_right_border_9x9 info i = map (right_offset info (int t + 1)) (taps 9)"
proof -
  have test: "(i = size_from_end info k) = (t + 1 = k)" if "k \<le> 4" for k
    using at_end_iff assms that by simp
  show ?thesis
    using assms(3)
    by (cases "fb_border_type info"; simp only: less_cases; (elim disjE)?;
        simp add: offsets_with_right_border_9x9_def test offset_defs taps_simps)
qed

lemma left_table_15:
  "i < 7 \<Longrightarrow> offsets_with_left_border_15x15 info i = map (left_offset info (int i)) (taps 15)"
  by (cases "fb_border_type info"; simp only: less_cases; (elim disjE)?;
      simp add: offsets_with_left_border_15x15_def offset_defs taps_simps)

lemma right_table_15:
  assumes "fb_length info \<le> size_max" and "14 \<le> fb_length info" and "t < 7"
    and "i + (t + 1) = fb_length info"
  shows "offsets_with_right_border_15x15 info i = map (right_offset info (int t + 1)) (taps 15)"
proof -
  have test: "(i = size_from_end info k) = (t + 1 = k)" if "k \<le> 7" for k
    using at_end_iff assms that by simp
  show ?thesis
    using assms(3)
    by (cases "fb_border_type info"; simp only: less_cases; (elim disjE)?;
        simp add: offsets_with_right_border_15x15_def test offset_defs taps_simps)
qed

lemma left_table_21:
  "i < 10 \<Longrightarrow> offsets_with_left_border_21x21 info i = map (left_offset info (int i)) (taps 21)"
  by (cases "fb_border_type info"; simp only: less_cases; (elim disjE)?;
      simp add: offsets_with_left_border_21x21_def offset_defs taps_simps)

lemma right_table_21:
  assumes "fb_length info \<le> size_max" and "20 \<le> fb_length info" and "t < 10"
    and "i + (t + 1) = fb_length info"
  shows "offsets_with_right_border_21x21 info i = map (right_offset info (int t + 1)) (taps 21)"
proof -
  have test: "(i = size_from_end info k) = (t + 1 = k)" if "k \<le> 10" for k
    using at_end_iff assms that by simp
  show ?thesis
    using assms(3)
    by (cases "fb_border_type info"; simp only: less_cases; (elim disjE)?;
        simp add: offsets_with_right_border_21x21_def test offset_defs taps_simps)
qed

section \<open>The offsets are those of the border type\<close>

lemma length_taps [simp]: "length (taps S) = S"
  by (simp add: taps_def)

lemma nth_taps [simp]: "j < S \<Longrightarrow> taps S ! j = int j - int (S div 2)"
  by (simp add: taps_def)

lemma offsets_with_left_border_taps:
  assumes "filter_size S" and "i < S div 2"
  shows "offsets_with_left_border S info i = map (left_offset info (int i)) (taps S)"
  using assms by (auto simp: offsets_with_left_border_def left_table_3 left_table_5 left_table_7
      left_table_9 left_table_15 left_table_21)

lemma offsets_with_right_border_taps:
  assumes "filter_size S" and "fb_length info \<le> size_max" and "S - 1 \<le> fb_length info"
    and "i < fb_length info" and "fb_length info - S div 2 \<le> i"
  shows "offsets_with_right_border S info i
    = map (right_offset info (int (fb_length info) - int i)) (taps S)"
proof -
  define t where "t = fb_length info - 1 - i"
  have t: "t < S div 2" "i + (t + 1) = fb_length info" "int (fb_length info) - int i = int t + 1"
    using assms by (auto simp: t_def)
  from assms(1) show ?thesis
    using right_table_3 [of info t i] right_table_5 [of info t i] right_table_7 [of info t i]
      right_table_9 [of info t i] right_table_15 [of info t i] right_table_21 [of info t i]
      assms(2,3) t
    by (auto simp: offsets_with_right_border_def)
qed

lemma left_offset_coordinate:
  assumes "i < m" and "- int m \<le> k" and "k \<le> int m" and "2 * m \<le> fb_length info"
  shows "int i + left_offset info (int i) k
    = int (border_coordinate (border_type_of (fb_border_type info)) (int i + k) (fb_length info))"
proof (cases "0 \<le> int i + k")
  case True
  with assms have "border_coordinate (border_type_of (fb_border_type info)) (int i + k) (fb_length info)
      = nat (int i + k)"
    by (intro border_coordinate_inside) (auto simp: border_type_of_def split: FixedBorderType.split)
  with True show ?thesis by (simp add: left_offset_def)
next
  case False
  with assms show ?thesis
    by (auto simp: left_offset_def border_type_of_def border_coordinate_left split: FixedBorderType.split)
qed

lemma right_offset_coordinate:
  assumes "i < fb_length info" and "fb_length info - m \<le> i" and "- int m \<le> k" and "k \<le> int m"
    and "2 * m \<le> fb_length info"
  shows "int i + right_offset info (int (fb_length info) - int i) k
    = int (border_coordinate (border_type_of (fb_border_type info)) (int i + k) (fb_length info))"
proof (cases "int i + k < int (fb_length info)")
  case True
  with assms have "border_coordinate (border_type_of (fb_border_type info)) (int i + k) (fb_length info)
      = nat (int i + k)"
    by (intro border_coordinate_inside) (auto simp: border_type_of_def split: FixedBorderType.split)
  with True assms show ?thesis by (simp add: right_offset_def)
next
  case False
  with assms show ?thesis
    by (auto simp: right_offset_def border_type_of_def border_coordinate_right of_nat_diff
        split: FixedBorderType.split)
qed

lemma inner_coordinate:
  assumes "0 \<le> int i + k" and "int i + k < int (fb_length info)"
  shows "int i + k
    = int (border_coordinate (border_type_of (fb_border_type info)) (int i + k) (fb_length info))"
proof -
  from assms have "border_coordinate (border_type_of (fb_border_type info)) (int i + k) (fb_length info)
      = nat (int i + k)"
    by (intro border_coordinate_inside) (auto simp: border_type_of_def split: FixedBorderType.split)
  with assms(1) show ?thesis by simp
qed

lemma offsets_with_border_cases:
  assumes "filter_size S" and "fb_length info \<le> size_max" and "S - 1 \<le> fb_length info"
    and "i < fb_length info"
  shows "offsets_with_border S info i =
    (if i < S div 2 then offsets_with_left_border S info i
     else if fb_length info - S div 2 \<le> i then offsets_with_right_border S info i
     else offsets_without_border S)"
proof -
  have "size_from_end info k = fb_length info - k" if "k \<le> S div 2" for k
    using that assms(1-3) by (intro size_from_end_eq) auto
  with assms(1,4) show ?thesis
    by (auto simp: offsets_with_border_def offsets_with_left_border_def offsets_with_right_border_def
        offsets_without_border_def offsets_with_border_3x3_def offsets_with_border_5x5_def
        offsets_with_border_7x7_def offsets_with_border_9x9_def offsets_with_border_15x15_def
        offsets_with_border_21x21_def)
qed

text \<open>
  The three ways the filters read their taps, in terms of the coordinate that stands behind a
  position.
\<close>

definition tap_coordinate :: "nat \<Rightarrow> FixedBorderInfo \<Rightarrow> nat \<Rightarrow> nat \<Rightarrow> nat" where
  "tap_coordinate S info i j =
     border_coordinate (border_type_of (fb_border_type info)) (int i + int j - int (S div 2)) (fb_length info)"

lemma filter_size_odd: "filter_size S \<Longrightarrow> S = 2 * (S div 2) + 1"
  by auto

lemma tap_range:
  assumes "filter_size S" and "j < S"
  shows "- int (S div 2) \<le> int j - int (S div 2)" and "int j - int (S div 2) \<le> int (S div 2)"
  using assms(2) filter_size_odd [OF assms(1)] by linarith+

lemma left_border_coordinate:
  assumes "filter_size S" and "S - 1 \<le> fb_length info" and "i < S div 2" and "j < S"
  shows "int i + offsets_with_left_border S info i ! j = int (tap_coordinate S info i j)"
  using left_offset_coordinate [of i "S div 2" "int j - int (S div 2)" info] tap_range [OF assms(1,4)]
    filter_size_odd [OF assms(1)] assms
  by (simp add: offsets_with_left_border_taps tap_coordinate_def algebra_simps)

lemma right_border_coordinate:
  assumes "filter_size S" and "fb_length info \<le> size_max" and "S - 1 \<le> fb_length info"
    and "i < fb_length info" and "fb_length info - S div 2 \<le> i" and "j < S"
  shows "int i + offsets_with_right_border S info i ! j = int (tap_coordinate S info i j)"
  using right_offset_coordinate [of i info "S div 2" "int j - int (S div 2)"] tap_range [OF assms(1,6)]
    filter_size_odd [OF assms(1)] assms
  by (simp add: offsets_with_right_border_taps tap_coordinate_def algebra_simps)

lemma without_border_coordinate:
  assumes "filter_size S" and "S div 2 \<le> i" and "i + S div 2 < fb_length info" and "j < S"
  shows "int i + offsets_without_border S ! j = int (tap_coordinate S info i j)"
  using inner_coordinate [of i "int j - int (S div 2)" info] tap_range [OF assms(1,4)] assms
  by (simp add: offsets_without_border_taps tap_coordinate_def algebra_simps)

lemma with_border_coordinate:
  assumes "filter_size S" and "fb_length info \<le> size_max" and "S - 1 \<le> fb_length info"
    and "i < fb_length info" and "j < S"
  shows "int i + offsets_with_border S info i ! j = int (tap_coordinate S info i j)"
  using left_border_coordinate [of S info i j] right_border_coordinate [of S info i j]
    without_border_coordinate [of S i info j] assms
  by (auto simp: offsets_with_border_cases not_le not_less)

text \<open>
  C30. Border tables. For every filter size, every border type and every image length the filters
  accept (one less than the size of the filter, or more), the tap \<open>j\<close> of the filter at row or column
  \<open>i\<close> reads exactly the row or column that the border type assigns to position \<open>i + j - S div 2\<close>,
  and this lies inside of the image.
\<close>

theorem fixed_border_offsets:
  assumes "S \<in> {3, 5, 7, 9, 15, 21}" and "S - 1 \<le> n" and "n \<le> size_max"
    and "get_fixed_border_type t = Some bt" and "i < n" and "j < S"
  shows "int i + offsets_with_border S \<lparr> fb_length = n, fb_border_type = bt \<rparr> i ! j
      = int (border_coordinate t (int i + int j - int (S div 2)) n)
    \<and> border_coordinate t (int i + int j - int (S div 2)) n < n"
proof
  show "int i + offsets_with_border S \<lparr> fb_length = n, fb_border_type = bt \<rparr> i ! j
      = int (border_coordinate t (int i + int j - int (S div 2)) n)"
    using with_border_coordinate [of S "\<lparr> fb_length = n, fb_border_type = bt \<rparr>" i j] assms
    by (simp add: tap_coordinate_def get_fixed_border_type_Some)
  show "border_coordinate t (int i + int j - int (S div 2)) n < n"
    using assms(4,5) by (cases bt) (auto simp: get_fixed_border_type_Some border_type_of_def
        intro: border_coordinate_less)
qed

lemma fixed_border_offsets_witness:
  "(1 :: int) + offsets_with_border 5 \<lparr> fb_length = 4, fb_border_type = REVERSE \<rparr> 1 ! 0
     = int (border_coordinate KLEIDICV_BORDER_TYPE_REVERSE (-1) 4)"
  using fixed_border_offsets [of 5 4 KLEIDICV_BORDER_TYPE_REVERSE REVERSE 1 0]
  by (simp add: get_fixed_border_type_def size_max_def)

end
