(* ===== verification/Store_Loops.thy ===== *)
theory Store_Loops
  imports Kcv_Elements Loop_Unroll
begin

text \<open>
  Loops that compute the elements of a row from other memory and store them side by side: with
  vectors of any number of lanes, with the last vector overlapping the one before, or one by one,
  the row holds the same elements afterwards. Shared by the filters.
\<close>

section \<open>A doubled loop, an overlapping loop and a tail\<close>

lemma index_at_avoid_tail:
  assumes at: "index_at elem 0 len s0 (lp, s)" and "element_operation elem len"
    and "block_callback elem len (l2_step lp) once" and "0 < l2_step lp"
  shows "index_at elem 0 len s0 (unroll_once2 True once (lp, s))"
proof (cases "l2_step lp \<le> len")
  case False
  with at show ?thesis by (simp add: unroll_once2_def unroll_n_times2_def index_at_def Let_def)
next
  case True
  let ?n = "l2_step lp" let ?i = "l2_index lp"
  let ?rest = "if ?n dvd len - ?i then [?i..<len]
    else [?i..<?i + (len - ?i) div ?n * ?n] @ [len - ?n..<len]"
  have lp: "l2_length lp = len" "?i \<le> len" "s = fold elem [0..<?i] s0"
    using at by (simp_all add: index_at_def)
  have bound: "?i + (len - ?i) div ?n * ?n \<le> len"
    using lp(2) div_times_less_eq_dividend [of "len - ?i" ?n] by linarith
  have over: "len - ?i < (len - ?i) div ?n * ?n + ?n"
    using assms(4) by (metis add.commute dividend_less_div_times mult.commute)
  have "set ([0..<?i] @ ?rest) = set [0..<len]"
    using lp(2) bound over by auto
  moreover have "set ([0..<?i] @ ?rest) \<subseteq> {..<len}"
    using lp(2) bound by auto
  ultimately have "fold elem ([0..<?i] @ ?rest) s0 = fold elem [0..<len] s0"
    by (rule element_operation.fold_rows_set [OF assms(2)])
  then have "rewind_loop ?n len once (?i + (len - ?i) div ?n * ?n) ?i s = (len, fold elem [0..<len] s0)"
    using rewind_loop_blocks [OF assms(3,4) True refl lp(2), of s] lp(3) by simp
  with True lp(1) show ?thesis
    by (simp add: unroll_once2_def unroll_n_times2_def remaining_length2_def index_at_def Let_def)
qed

text \<open>How far the two loops get before the tail.\<close>

lemma avoid_tail_index:
  assumes "element_operation elem len" and "block_callback elem len step once" and "0 < step"
  shows "index_at elem 0 len s (unroll_once2 True once (LoopUnroll2 0 len step, s))"
  using index_at_avoid_tail [OF index_at_start [of elem 0 len s step, simplified] assms(1)] assms(2,3)
  by (simp add: LoopUnroll2_def)

lemma avoid_tail_index_twice:
  assumes "element_operation elem len" and "block_callback elem len step once"
    and "block_callback elem len (2 * step) twice" and "0 < step"
  shows "index_at elem 0 len s
    (unroll_once2 True once (unroll_twice2 True twice (LoopUnroll2 0 len step, s)))"
proof -
  obtain lp s' where st: "unroll_twice2 True twice (LoopUnroll2 0 len step, s) = (lp, s')"
    by (metis surj_pair)
  have two: "block_callback elem len (2 * l2_step (LoopUnroll2 0 len step)) twice"
    "0 < 2 * l2_step (LoopUnroll2 0 len step)" "\<not> (True \<and> (2 :: nat) = 1)"
    using assms by (simp_all add: LoopUnroll2_def)
  have "index_at elem 0 len s (lp, s')" "l2_step lp = step"
    using index_at_unroll [OF index_at_start [of elem 0 len s step, simplified] two] st
    by (simp_all add: unroll_twice2_def LoopUnroll2_def)
  then show ?thesis
    using index_at_avoid_tail [OF _ assms(1), of s lp s' once] assms(2,4) by (simp add: st)
qed

text \<open>When the data holds a vector there is nothing left for a tail.\<close>

lemma avoid_tail_complete:
  assumes "element_operation elem len" and "block_callback elem len step once" and "0 < step"
    and "step \<le> len \<or> len = 0"
  shows "snd (unroll_once2 True once (LoopUnroll2 0 len step, s)) = fold elem [0..<len] s"
proof (cases "len = 0")
  case True
  with assms(3) show ?thesis by (simp add: unroll_once2_def unroll_n_times2_def LoopUnroll2_def Let_def)
next
  case False
  with assms(4) have le: "step \<le> len" by simp
  have "l2_index (fst (unroll_once2 True once (LoopUnroll2 0 len step, s))) = len"
    using rewind_loop_blocks [OF assms(2,3) le refl, of 0 s] le
    by (simp add: unroll_once2_def unroll_n_times2_def LoopUnroll2_def remaining_length2_def Let_def)
  with avoid_tail_index [OF assms(1-3), of s] show ?thesis
    by (cases "unroll_once2 True once (LoopUnroll2 0 len step, s)") (simp add: index_at_def)
qed

section \<open>Rows of stores\<close>

text \<open>
  Element \<open>i\<close> of the row at address \<open>d\<close> is computed by \<open>g i\<close>, which reads the addresses \<open>R i\<close>; the
  row does not overlap anything that is read.
\<close>

definition row_address :: "'a::len itself \<Rightarrow> nat \<Rightarrow> nat \<Rightarrow> nat" where
  "row_address t d i = d + i * sizeof TYPE('a)"

definition store_row :: "(nat \<Rightarrow> mem \<Rightarrow> 'a::len word) \<Rightarrow> nat \<Rightarrow> nat \<Rightarrow> mem \<Rightarrow> mem" where
  "store_row g d i m = store_elem (row_address TYPE('a) d i) (g i m) m"

definition row_bytes :: "'a::len itself \<Rightarrow> nat \<Rightarrow> nat \<Rightarrow> nat set" where
  "row_bytes t d len = {d..<d + len * sizeof TYPE('a)}"

definition reads_apart ::
    "(nat \<Rightarrow> mem \<Rightarrow> 'a::len word) \<Rightarrow> (nat \<Rightarrow> nat set) \<Rightarrow> nat \<Rightarrow> nat \<Rightarrow> bool" where
  "reads_apart g R d len \<longleftrightarrow>
     (\<forall>i < len. reads (R i) (g i) \<and> R i \<inter> row_bytes TYPE('a) d len = {})"

lemma reads_apartD:
  fixes g :: "nat \<Rightarrow> mem \<Rightarrow> 'a::len word"
  assumes "reads_apart g R d len" and "i < len"
  shows "reads (R i) (g i)" and "R i \<inter> row_bytes TYPE('a) d len = {}"
  using assms by (simp_all add: reads_apart_def)

lemma row_element_bytes:
  assumes "i < len"
  shows "elem_bytes TYPE('a::len) (row_address TYPE('a) d i) \<subseteq> row_bytes TYPE('a) d len"
proof -
  have "i * sizeof TYPE('a) + sizeof TYPE('a) \<le> len * sizeof TYPE('a)"
    using mult_le_mono1 [of "Suc i" len "sizeof TYPE('a)"] assms by simp
  then show ?thesis by (auto simp: elem_bytes_def row_bytes_def row_address_def)
qed

lemma row_elements_apart:
  "i \<noteq> j \<Longrightarrow> elem_bytes TYPE('a::len) (row_address TYPE('a) d i)
    \<inter> elem_bytes TYPE('a) (row_address TYPE('a) d j) = {}"
  using rows_disjoint [of "sizeof TYPE('a)" "sizeof TYPE('a)" i j d]
  by (simp add: elem_bytes_def row_address_def)

lemma store_row_footprint:
  fixes g :: "nat \<Rightarrow> mem \<Rightarrow> 'a::len word"
  assumes "reads (R i) (g i)"
  shows "footprint (elem_bytes TYPE('a) (row_address TYPE('a) d i)) (R i) (store_row g d i)"
  unfolding footprint_def
proof (intro conjI allI impI)
  fix m m' :: mem and a
  assume "\<forall>b \<in> R i. m b = m' b" and a: "a \<in> elem_bytes TYPE('a) (row_address TYPE('a) d i)"
  then have "g i m = g i m'" by (intro readsD [OF assms]) simp
  with a show "store_row g d i m a = store_row g d i m' a"
    by (auto simp: store_row_def store_elem_def elem_bytes_def)
qed (simp add: store_row_def store_elem_outside)

lemma store_row_elements:
  fixes g :: "nat \<Rightarrow> mem \<Rightarrow> 'a::len word"
  assumes "reads_apart g R d len"
  shows "element_operation (store_row g d) len"
proof (rule footprint_elements)
  show "footprint (elem_bytes TYPE('a) (row_address TYPE('a) d i)) (R i) (store_row g d i)"
    if "i < len" for i
    using store_row_footprint [where R = R and g = g and i = i] reads_apartD(1) [OF assms that] by blast
  show "elem_bytes TYPE('a) (row_address TYPE('a) d i) \<inter> R j = {}" if "i < len" "j < len" for i j
    using reads_apartD(2) [OF assms that(2)] row_element_bytes [OF that(1), where 'a = 'a and d = d]
    by blast
qed (rule row_elements_apart)

lemma store_row_start:
  fixes g :: "nat \<Rightarrow> mem \<Rightarrow> 'a::len word"
  assumes "reads_apart g R d len" and "p + n \<le> len"
  shows "fold (store_row g d) [p..<p + n] m
    = fold (\<lambda>i. store_elem (row_address TYPE('a) d (p + i)) (g (p + i) m)) [0..<n] m"
proof -
  have "stores_apart TYPE('a) (\<lambda>i. row_address TYPE('a) d (p + i)) (\<lambda>i. R (p + i)) n"
    unfolding stores_apart_def
  proof (intro allI impI)
    fix i j
    assume "i < j \<and> j < n"
    with assms(2) have "p + i < len" "p + j < len" by simp_all
    then show "elem_bytes TYPE('a) (row_address TYPE('a) d (p + i)) \<inter> R (p + j) = {}"
      using reads_apartD(2) [OF assms(1)] row_element_bytes [where 'a = 'a and d = d] by blast
  qed
  moreover have "reads (R (p + i)) (g (p + i))" if "i < n" for i
    using reads_apartD(1) [OF assms(1)] that assms(2) by simp
  ultimately have "fold (\<lambda>i m. store_elem (row_address TYPE('a) d (p + i)) (g (p + i) m) m) [0..<n] m
      = fold (\<lambda>i. store_elem (row_address TYPE('a) d (p + i)) (g (p + i) m)) [0..<n] m"
    by (intro stores_from_start [where A = "\<lambda>i. R (p + i)"]) simp_all
  moreover have "(\<lambda>i. store_row g d (p + i))
      = (\<lambda>i m. store_elem (row_address TYPE('a) d (p + i)) (g (p + i) m) m)"
    by (simp add: store_row_def fun_eq_iff)
  ultimately show ?thesis using fold_shift [of "store_row g d" p n m] by simp
qed

text \<open>A vector of results is a block of the row.\<close>

lemma vector_store_block:
  fixes g :: "nat \<Rightarrow> mem \<Rightarrow> 'a::len word"
  assumes "reads_apart g R d len"
    and "\<And>i m. i + n \<le> len \<Longrightarrow>
      callback i m = vst1q_elems (row_address TYPE('a) d i) (map (\<lambda>l. g (i + l) m) [0..<n]) m"
  shows "block_callback (store_row g d) len n callback"
  unfolding block_callback_def
proof (intro allI impI)
  fix i m
  assume i: "i + n \<le> len"
  have "row_address TYPE('a) d i + l * sizeof TYPE('a) = row_address TYPE('a) d (i + l)" for l
    by (simp add: row_address_def add_mult_distrib)
  with i show "callback i m = fold (store_row g d) [i..<i + n] m"
    by (simp add: assms(2) store_row_start [OF assms(1)] vst1q_map)
qed

text \<open>Two vectors, both computed before the first is stored.\<close>

lemma vector_store_blocks:
  fixes g :: "nat \<Rightarrow> mem \<Rightarrow> 'a::len word"
  assumes "reads_apart g R d len"
    and "\<And>i m. i + 2 * n \<le> len \<Longrightarrow>
      callback i m = vst1q_elems (row_address TYPE('a) d (i + n)) (map (\<lambda>l. g (i + n + l) m) [0..<n])
        (vst1q_elems (row_address TYPE('a) d i) (map (\<lambda>l. g (i + l) m) [0..<n]) m)"
  shows "block_callback (store_row g d) len (2 * n) callback"
proof (rule vector_store_block [OF assms(1)])
  fix i m
  assume i: "i + 2 * n \<le> len"
  have "map (\<lambda>l. g (i + l) m) [0..<2 * n]
      = map (\<lambda>l. g (i + l) m) [0..<n] @ map (\<lambda>l. g (i + n + l) m) [0..<n]"
    by (rule nth_equalityI) (auto simp: nth_append)
  moreover have "row_address TYPE('a) d (i + n) = row_address TYPE('a) d i + n * sizeof TYPE('a)"
    by (simp add: row_address_def add_mult_distrib)
  ultimately show "callback i m
      = vst1q_elems (row_address TYPE('a) d i) (map (\<lambda>l. g (i + l) m) [0..<2 * n]) m"
    using vst1q_append [of "row_address TYPE('a) d i" "map (\<lambda>l. g (i + l) m) [0..<n]"
        "map (\<lambda>l. g (i + n + l) m) [0..<n]" m] i
    by (simp add: assms(2))
qed

text \<open>What the row holds, and what else may change.\<close>

lemma store_row_result:
  fixes g :: "nat \<Rightarrow> mem \<Rightarrow> 'a::len word"
  assumes "reads_apart g R d len" and "8 dvd LENGTH('a)" and "i < len"
  shows "load_elem (row_address TYPE('a) d i) (fold (store_row g d) [0..<len] m) = g i m"
proof -
  have "fold (store_row g d) [0..<len] m = fold (\<lambda>i. store_elem (row_address TYPE('a) d i) (g i m)) [0..<len] m"
    using store_row_start [OF assms(1), of 0 len m] by simp
  moreover have "\<forall>j. i < j \<and> j < len \<longrightarrow>
      elem_bytes TYPE('a) (row_address TYPE('a) d j) \<inter> elem_bytes TYPE('a) (row_address TYPE('a) d i) = {}"
    by (intro allI impI row_elements_apart) simp
  from stores_result [OF assms(2,3) this, of "\<lambda>i. g i m" m]
  have "load_elem (row_address TYPE('a) d i)
      (fold (\<lambda>i. store_elem (row_address TYPE('a) d i) (g i m)) [0..<len] m) = g i m" .
  ultimately show ?thesis by (simp only:)
qed

lemma store_row_outside:
  fixes g :: "nat \<Rightarrow> mem \<Rightarrow> 'a::len word"
  assumes "a \<notin> row_bytes TYPE('a) d len"
  shows "fold (store_row g d) [0..<len] m a = m a"
  unfolding store_row_def using assms row_element_bytes [where 'a = 'a and d = d and len = len]
  by (intro stores_outside) blast

text \<open>
  The tail may compute its elements in another way, as long as the values are the same.
\<close>

lemma store_row_values:
  fixes g g' :: "nat \<Rightarrow> mem \<Rightarrow> 'a::len word"
  assumes g: "reads_apart g R d len" and g': "reads_apart g' R d len"
    and same: "\<And>i. i < len \<Longrightarrow> g i m = g' i m" and "p \<le> len"
  shows "fold (store_row g d) [p..<len] (fold (store_row g' d) [0..<p] m) = fold (store_row g' d) [0..<len] m"
proof -
  define s where "s = fold (store_row g' d) [0..<p] m"
  have unchanged: "s a = m a" if "a \<notin> row_bytes TYPE('a) d len" for a
  proof -
    have "a \<notin> row_bytes TYPE('a) d p"
      using that mult_le_mono1 [OF assms(4), of "sizeof TYPE('a)"]
      unfolding row_bytes_def atLeastLessThan_iff by linarith
    then show ?thesis unfolding s_def by (rule store_row_outside)
  qed
  have "g (p + i) s = g' (p + i) s" if "p + i < len" for i
  proof -
    have apart: "R (p + i) \<inter> row_bytes TYPE('a) d len = {}" using reads_apartD(2) [OF g that] .
    have "g (p + i) s = g (p + i) m"
      by (rule readsD [OF reads_apartD(1) [OF g that]]) (use unchanged apart in blast)
    moreover have "g' (p + i) s = g' (p + i) m"
      by (rule readsD [OF reads_apartD(1) [OF g' that]]) (use unchanged apart in blast)
    ultimately show ?thesis using same [OF that] by simp
  qed
  then have "fold (store_row g d) [p..<p + (len - p)] s = fold (store_row g' d) [p..<p + (len - p)] s"
    using assms(4) by (simp only: store_row_start [OF g] store_row_start [OF g'])
      (intro fold_cong refl, simp)
  then show ?thesis using assms(4) by (simp add: s_def fold_upt_append)
qed

lemma index_at_tail_values:
  fixes g g' :: "nat \<Rightarrow> mem \<Rightarrow> 'a::len word"
  assumes "index_at (store_row g' d) 0 len m st"
    and "reads_apart g R d len" and "reads_apart g' R d len"
    and "\<And>i. i < len \<Longrightarrow> g i m = g' i m"
  shows "snd (tail2 (store_row g d) st) = fold (store_row g' d) [0..<len] m"
proof -
  obtain lp s where st: "st = (lp, s)" by (cases st)
  with assms(1) have "l2_length lp = len" "l2_index lp \<le> len" "s = fold (store_row g' d) [0..<l2_index lp] m"
    by (simp_all add: index_at_def)
  with store_row_values [OF assms(2,3,4), of "l2_index lp"] show ?thesis by (simp add: st tail2_def)
qed

end
