(* ===== verification/Separable_Filter.thy ===== *)
theory Separable_Filter
  imports Fixed_Borders Store_Loops Kcv_Rows Operation_Adapters
begin

text \<open>
  Separable filters, \<^verbatim>\<open>kleidicv/include/kleidicv/workspace/separable.h\<close> and the drivers
  \<^verbatim>\<open>separable_filter_3x3_neon.h\<close> to \<^verbatim>\<open>separable_filter_21x21_neon.h\<close>: every row
  of the image is filtered vertically into a buffer of wider elements, and the buffer horizontally
  into the destination row. The filter itself is the argument of the template. The result: for any
  filter whose vector paths do what its scalar paths do, every pixel of the destination is the
  two-dimensional filter of the source pixels that the border type assigns.
\<close>

section \<open>The filter and the drivers\<close>

text \<open>
  The filter class that the templates take: four functions, each returning what the code writes to
  its destination pointer. A vector path gets one vector for each tap.
\<close>

record ('s, 'b, 'd) separable_kernel =
  vertical_vector_path :: "'s list list \<Rightarrow> 'b list"
  vertical_scalar_path :: "'s list \<Rightarrow> 'b"
  horizontal_vector_path :: "'b list list \<Rightarrow> 'd list"
  horizontal_scalar_path :: "'b list \<Rightarrow> 'd"

type_synonym ('a, 'b, 'd) word_kernel = "('a word, 'b word, 'd word) separable_kernel"

definition element_pointer :: "Rows \<Rightarrow> nat \<Rightarrow> nat" where
  "element_pointer rows index = element_address (row_ptr rows) (row_sizeof rows) (int index)"

text \<open>
  \<^verbatim>\<open>&src_rows.at(border_offsets.ck())[index]\<close> for the rows and
  \<^verbatim>\<open>&src_rows.at(0, border_offsets.ck())[index]\<close> for the columns of the taps
  \<open>k\<close>.
\<close>

definition vertical_pointers :: "Rows \<Rightarrow> int list \<Rightarrow> nat list \<Rightarrow> nat \<Rightarrow> nat list" where
  "vertical_pointers src_rows offsets ks index =
     map (\<lambda>k. element_pointer (rows_at src_rows (offsets ! k) 0) index) ks"

definition horizontal_pointers :: "Rows \<Rightarrow> int list \<Rightarrow> nat list \<Rightarrow> nat \<Rightarrow> nat list" where
  "horizontal_pointers src_rows offsets ks index =
     map (\<lambda>k. element_pointer (rows_at src_rows 0 (offsets ! k)) index) ks"

text \<open>The bodies of the loops: two vectors, one vector, one element.\<close>

definition vertical_twice_step ::
    "('a::len, 'b::len, 'd) word_kernel \<Rightarrow> nat list \<Rightarrow> Rows \<Rightarrow> Rows \<Rightarrow> int list \<Rightarrow> nat \<Rightarrow> mem \<Rightarrow> mem" where
  "vertical_twice_step flt ks src_rows dst_rows offsets index m =
     (let src_x2 = map (\<lambda>p. load_consecutive p m) (vertical_pointers src_rows offsets ks index);
          src_a = map fst src_x2; src_b = map snd src_x2
      in vst1q_elems (element_pointer dst_rows (index + num_lanes_of TYPE('a))) (vertical_vector_path flt src_b)
           (vst1q_elems (element_pointer dst_rows index) (vertical_vector_path flt src_a) m))"

definition vertical_once_step ::
    "('a::len, 'b::len, 'd) word_kernel \<Rightarrow> nat list \<Rightarrow> Rows \<Rightarrow> Rows \<Rightarrow> int list \<Rightarrow> nat \<Rightarrow> mem \<Rightarrow> mem" where
  "vertical_once_step flt ks src_rows dst_rows offsets index m =
     (let src = map (\<lambda>p. vld1q_elems p m) (vertical_pointers src_rows offsets ks index)
      in vst1q_elems (element_pointer dst_rows index) (vertical_vector_path flt src) m)"

definition vertical_tail_step ::
    "('a::len, 'b::len, 'd) word_kernel \<Rightarrow> nat list \<Rightarrow> Rows \<Rightarrow> Rows \<Rightarrow> int list \<Rightarrow> nat \<Rightarrow> mem \<Rightarrow> mem" where
  "vertical_tail_step flt ks src_rows dst_rows offsets index m =
     (let src = map (\<lambda>p. load_elem p m) (vertical_pointers src_rows offsets ks index)
      in store_elem (element_pointer dst_rows index) (vertical_scalar_path flt src) m)"

definition horizontal_twice_step ::
    "('a, 'b::len, 'd::len) word_kernel \<Rightarrow> nat list \<Rightarrow> Rows \<Rightarrow> Rows \<Rightarrow> int list \<Rightarrow> nat \<Rightarrow> mem \<Rightarrow> mem" where
  "horizontal_twice_step flt ks src_rows dst_rows offsets index m =
     (let src_x2 = map (\<lambda>p. load_consecutive p m) (horizontal_pointers src_rows offsets ks index);
          src_a = map fst src_x2; src_b = map snd src_x2
      in vst1q_elems (element_pointer dst_rows (index + num_lanes_of TYPE('b))) (horizontal_vector_path flt src_b)
           (vst1q_elems (element_pointer dst_rows index) (horizontal_vector_path flt src_a) m))"

definition horizontal_once_step ::
    "('a, 'b::len, 'd::len) word_kernel \<Rightarrow> nat list \<Rightarrow> Rows \<Rightarrow> Rows \<Rightarrow> int list \<Rightarrow> nat \<Rightarrow> mem \<Rightarrow> mem" where
  "horizontal_once_step flt ks src_rows dst_rows offsets index m =
     (let src = map (\<lambda>p. vld1q_elems p m) (horizontal_pointers src_rows offsets ks index)
      in vst1q_elems (element_pointer dst_rows index) (horizontal_vector_path flt src) m)"

definition horizontal_tail_step ::
    "('a, 'b::len, 'd::len) word_kernel \<Rightarrow> nat list \<Rightarrow> Rows \<Rightarrow> Rows \<Rightarrow> int list \<Rightarrow> nat \<Rightarrow> mem \<Rightarrow> mem" where
  "horizontal_tail_step flt ks src_rows dst_rows offsets index m =
     (let src = map (\<lambda>p. load_elem p m) (horizontal_pointers src_rows offsets ks index)
      in store_elem (element_pointer dst_rows index) (horizontal_scalar_path flt src) m)"

definition process_vertical_3x3 ::
    "('a::len, 'b::len, 'd::len) word_kernel \<Rightarrow> nat \<Rightarrow> Rows \<Rightarrow> Rows \<Rightarrow> int list \<Rightarrow> mem \<Rightarrow> mem" where
  "process_vertical_3x3 flt width src_rows dst_rows offsets m =
     snd (tail2 (vertical_tail_step flt [0..<3] src_rows dst_rows offsets)
        (unroll_once2 True (vertical_once_step flt [0..<3] src_rows dst_rows offsets)
          (unroll_twice2 True (vertical_twice_step flt [0..<3] src_rows dst_rows offsets)
          (LoopUnroll2 0 (width * row_channels src_rows) (num_lanes_of TYPE('a)), m))))"

definition process_horizontal_scalar_3x3 ::
    "('a::len, 'b::len, 'd::len) word_kernel \<Rightarrow> Rows \<Rightarrow> Rows \<Rightarrow> int list \<Rightarrow> nat \<Rightarrow> mem \<Rightarrow> mem" where
  "process_horizontal_scalar_3x3 flt src_rows dst_rows offsets index m =
     horizontal_tail_step flt [0..<3] src_rows dst_rows offsets index m"

definition process_horizontal_3x3 ::
    "('a::len, 'b::len, 'd::len) word_kernel \<Rightarrow> nat \<Rightarrow> Rows \<Rightarrow> Rows \<Rightarrow> int list \<Rightarrow> mem \<Rightarrow> mem" where
  "process_horizontal_3x3 flt width src_rows dst_rows offsets m =
     snd (tail2 (process_horizontal_scalar_3x3 flt src_rows dst_rows offsets)
        (unroll_once2 True (horizontal_once_step flt [0..<3] src_rows dst_rows offsets)
          (unroll_twice2 True (horizontal_twice_step flt [0..<3] src_rows dst_rows offsets)
            (LoopUnroll2 0 (width * row_channels src_rows) (num_lanes_of TYPE('b)), m))))"

definition process_horizontal_borders_3x3 ::
    "('a::len, 'b::len, 'd::len) word_kernel \<Rightarrow> Rows \<Rightarrow> Rows \<Rightarrow> int list \<Rightarrow> mem \<Rightarrow> mem" where
  "process_horizontal_borders_3x3 flt src_rows dst_rows offsets =
     fold (process_horizontal_scalar_3x3 flt src_rows dst_rows offsets) [0..<row_channels src_rows]"

definition process_vertical_5x5 ::
    "('a::len, 'b::len, 'd::len) word_kernel \<Rightarrow> nat \<Rightarrow> Rows \<Rightarrow> Rows \<Rightarrow> int list \<Rightarrow> mem \<Rightarrow> mem" where
  "process_vertical_5x5 flt width src_rows dst_rows offsets m =
     snd (tail2 (vertical_tail_step flt [0..<5] src_rows dst_rows offsets)
        (unroll_once2 True (vertical_once_step flt [0..<5] src_rows dst_rows offsets)
          (LoopUnroll2 0 (width * row_channels src_rows) (num_lanes_of TYPE('a)), m)))"

definition process_horizontal_scalar_5x5 ::
    "('a::len, 'b::len, 'd::len) word_kernel \<Rightarrow> Rows \<Rightarrow> Rows \<Rightarrow> int list \<Rightarrow> nat \<Rightarrow> mem \<Rightarrow> mem" where
  "process_horizontal_scalar_5x5 flt src_rows dst_rows offsets index m =
     horizontal_tail_step flt [0..<5] src_rows dst_rows offsets index m"

definition process_horizontal_5x5 ::
    "('a::len, 'b::len, 'd::len) word_kernel \<Rightarrow> nat \<Rightarrow> Rows \<Rightarrow> Rows \<Rightarrow> int list \<Rightarrow> mem \<Rightarrow> mem" where
  "process_horizontal_5x5 flt width src_rows dst_rows offsets m =
     snd (tail2 (process_horizontal_scalar_5x5 flt src_rows dst_rows offsets)
        (unroll_once2 True (horizontal_once_step flt [0..<5] src_rows dst_rows offsets)
          (unroll_twice2 True (horizontal_twice_step flt [0..<5] src_rows dst_rows offsets)
            (LoopUnroll2 0 (width * row_channels src_rows) (num_lanes_of TYPE('b)), m))))"

definition process_horizontal_borders_5x5 ::
    "('a::len, 'b::len, 'd::len) word_kernel \<Rightarrow> Rows \<Rightarrow> Rows \<Rightarrow> int list \<Rightarrow> mem \<Rightarrow> mem" where
  "process_horizontal_borders_5x5 flt src_rows dst_rows offsets =
     fold (process_horizontal_scalar_5x5 flt src_rows dst_rows offsets) [0..<row_channels src_rows]"

definition process_vertical_7x7 ::
    "('a::len, 'b::len, 'd::len) word_kernel \<Rightarrow> nat \<Rightarrow> Rows \<Rightarrow> Rows \<Rightarrow> int list \<Rightarrow> mem \<Rightarrow> mem" where
  "process_vertical_7x7 flt width src_rows dst_rows offsets m =
     snd (tail2 (vertical_tail_step flt [0..<7] src_rows dst_rows offsets)
        (unroll_once2 True (vertical_once_step flt [0..<7] src_rows dst_rows offsets)
          (LoopUnroll2 0 (width * row_channels src_rows) (num_lanes_of TYPE('a)), m)))"

definition process_horizontal_scalar_7x7 ::
    "('a::len, 'b::len, 'd::len) word_kernel \<Rightarrow> Rows \<Rightarrow> Rows \<Rightarrow> int list \<Rightarrow> nat \<Rightarrow> mem \<Rightarrow> mem" where
  "process_horizontal_scalar_7x7 flt src_rows dst_rows offsets index m =
     horizontal_tail_step flt [0..<7] src_rows dst_rows offsets index m"

definition process_horizontal_7x7 ::
    "('a::len, 'b::len, 'd::len) word_kernel \<Rightarrow> nat \<Rightarrow> Rows \<Rightarrow> Rows \<Rightarrow> int list \<Rightarrow> mem \<Rightarrow> mem" where
  "process_horizontal_7x7 flt width src_rows dst_rows offsets m =
     snd (tail2 (process_horizontal_scalar_7x7 flt src_rows dst_rows offsets)
        (unroll_once2 True (horizontal_once_step flt [0..<7] src_rows dst_rows offsets)
          (unroll_twice2 True (horizontal_twice_step flt [0..<7] src_rows dst_rows offsets)
            (LoopUnroll2 0 (width * row_channels src_rows) (num_lanes_of TYPE('b)), m))))"

definition process_horizontal_borders_7x7 ::
    "('a::len, 'b::len, 'd::len) word_kernel \<Rightarrow> Rows \<Rightarrow> Rows \<Rightarrow> int list \<Rightarrow> mem \<Rightarrow> mem" where
  "process_horizontal_borders_7x7 flt src_rows dst_rows offsets =
     fold (process_horizontal_scalar_7x7 flt src_rows dst_rows offsets) [0..<row_channels src_rows]"

definition process_vertical_9x9 ::
    "('a::len, 'b::len, 'd::len) word_kernel \<Rightarrow> nat \<Rightarrow> Rows \<Rightarrow> Rows \<Rightarrow> int list \<Rightarrow> mem \<Rightarrow> mem" where
  "process_vertical_9x9 flt width src_rows dst_rows offsets m =
     snd (tail2 (vertical_tail_step flt [0..<9] src_rows dst_rows offsets)
        (unroll_once2 True (vertical_once_step flt [0..<9] src_rows dst_rows offsets)
          (LoopUnroll2 0 (width * row_channels src_rows) (num_lanes_of TYPE('a)), m)))"

definition process_horizontal_scalar_9x9 ::
    "('a::len, 'b::len, 'd::len) word_kernel \<Rightarrow> Rows \<Rightarrow> Rows \<Rightarrow> int list \<Rightarrow> nat \<Rightarrow> mem \<Rightarrow> mem" where
  "process_horizontal_scalar_9x9 flt src_rows dst_rows offsets index m =
     horizontal_tail_step flt [0..<9] src_rows dst_rows offsets index m"

definition process_horizontal_9x9 ::
    "('a::len, 'b::len, 'd::len) word_kernel \<Rightarrow> nat \<Rightarrow> Rows \<Rightarrow> Rows \<Rightarrow> int list \<Rightarrow> mem \<Rightarrow> mem" where
  "process_horizontal_9x9 flt width src_rows dst_rows offsets m =
     snd (tail2 (process_horizontal_scalar_9x9 flt src_rows dst_rows offsets)
        (unroll_once2 True (horizontal_once_step flt [0..<9] src_rows dst_rows offsets)
          (unroll_twice2 True (horizontal_twice_step flt [0..<9] src_rows dst_rows offsets)
            (LoopUnroll2 0 (width * row_channels src_rows) (num_lanes_of TYPE('b)), m))))"

definition process_horizontal_borders_9x9 ::
    "('a::len, 'b::len, 'd::len) word_kernel \<Rightarrow> Rows \<Rightarrow> Rows \<Rightarrow> int list \<Rightarrow> mem \<Rightarrow> mem" where
  "process_horizontal_borders_9x9 flt src_rows dst_rows offsets =
     fold (process_horizontal_scalar_9x9 flt src_rows dst_rows offsets) [0..<row_channels src_rows]"

definition process_vertical_15x15 ::
    "('a::len, 'b::len, 'd::len) word_kernel \<Rightarrow> nat \<Rightarrow> Rows \<Rightarrow> Rows \<Rightarrow> int list \<Rightarrow> mem \<Rightarrow> mem" where
  "process_vertical_15x15 flt width src_rows dst_rows offsets m =
     snd (tail2 (vertical_tail_step flt [0..<15] src_rows dst_rows offsets)
        (unroll_once2 True (vertical_once_step flt [0..<15] src_rows dst_rows offsets)
          (LoopUnroll2 0 (width * row_channels src_rows) (num_lanes_of TYPE('a)), m)))"

definition process_horizontal_scalar_15x15 ::
    "('a::len, 'b::len, 'd::len) word_kernel \<Rightarrow> Rows \<Rightarrow> Rows \<Rightarrow> int list \<Rightarrow> nat \<Rightarrow> mem \<Rightarrow> mem" where
  "process_horizontal_scalar_15x15 flt src_rows dst_rows offsets index m =
     horizontal_tail_step flt [0..<15] src_rows dst_rows offsets index m"

definition process_horizontal_15x15 ::
    "('a::len, 'b::len, 'd::len) word_kernel \<Rightarrow> nat \<Rightarrow> Rows \<Rightarrow> Rows \<Rightarrow> int list \<Rightarrow> mem \<Rightarrow> mem" where
  "process_horizontal_15x15 flt width src_rows dst_rows offsets m =
     snd (tail2 (process_horizontal_scalar_15x15 flt src_rows dst_rows offsets)
        (unroll_once2 True (horizontal_once_step flt [0..<15] src_rows dst_rows offsets)
          (unroll_twice2 True (horizontal_twice_step flt [0..<15] src_rows dst_rows offsets)
            (LoopUnroll2 0 (width * row_channels src_rows) (num_lanes_of TYPE('b)), m))))"

definition process_horizontal_borders_15x15 ::
    "('a::len, 'b::len, 'd::len) word_kernel \<Rightarrow> Rows \<Rightarrow> Rows \<Rightarrow> int list \<Rightarrow> mem \<Rightarrow> mem" where
  "process_horizontal_borders_15x15 flt src_rows dst_rows offsets =
     fold (process_horizontal_scalar_15x15 flt src_rows dst_rows offsets) [0..<row_channels src_rows]"

definition process_vertical_21x21 ::
    "('a::len, 'b::len, 'd::len) word_kernel \<Rightarrow> nat \<Rightarrow> Rows \<Rightarrow> Rows \<Rightarrow> int list \<Rightarrow> mem \<Rightarrow> mem" where
  "process_vertical_21x21 flt width src_rows dst_rows offsets m =
     snd (unroll_once2 True (vertical_once_step flt [0..<21] src_rows dst_rows offsets)
          (LoopUnroll2 0 (width * row_channels src_rows) (num_lanes_of TYPE('a)), m))"

definition process_horizontal_scalar_21x21 ::
    "('a::len, 'b::len, 'd::len) word_kernel \<Rightarrow> Rows \<Rightarrow> Rows \<Rightarrow> int list \<Rightarrow> nat \<Rightarrow> mem \<Rightarrow> mem" where
  "process_horizontal_scalar_21x21 flt src_rows dst_rows offsets index m =
     horizontal_tail_step flt [0..<21] src_rows dst_rows offsets index m"

definition process_horizontal_21x21 ::
    "('a::len, 'b::len, 'd::len) word_kernel \<Rightarrow> nat \<Rightarrow> Rows \<Rightarrow> Rows \<Rightarrow> int list \<Rightarrow> mem \<Rightarrow> mem" where
  "process_horizontal_21x21 flt width src_rows dst_rows offsets m =
     snd (tail2 (process_horizontal_scalar_21x21 flt src_rows dst_rows offsets)
        (unroll_once2 True (horizontal_once_step flt [0..<21] src_rows dst_rows offsets)
          (unroll_twice2 True (horizontal_twice_step flt [0..<21] src_rows dst_rows offsets)
            (LoopUnroll2 0 (width * row_channels src_rows) (num_lanes_of TYPE('b)), m))))"

definition process_horizontal_borders_21x21 ::
    "('a::len, 'b::len, 'd::len) word_kernel \<Rightarrow> Rows \<Rightarrow> Rows \<Rightarrow> int list \<Rightarrow> mem \<Rightarrow> mem" where
  "process_horizontal_borders_21x21 flt src_rows dst_rows offsets =
     fold (process_horizontal_scalar_21x21 flt src_rows dst_rows offsets) [0..<row_channels src_rows]"

text \<open>
  \<^verbatim>\<open>SeparableFilter<FilterType, S>\<close>: the compiler picks the driver by the size; there is
  none for other sizes.
\<close>

definition driver_margin :: "nat \<Rightarrow> nat" where
  "driver_margin S =
     (if S = 3 then 1 else if S = 5 then 2 else if S = 7 then 3 else if S = 9 then 4
      else if S = 15 then 7 else if S = 21 then 10 else 0)"

definition process_vertical :: "nat \<Rightarrow> ('a::len, 'b::len, 'd::len) word_kernel \<Rightarrow>
    nat \<Rightarrow> Rows \<Rightarrow> Rows \<Rightarrow> int list \<Rightarrow> mem \<Rightarrow> mem" where
  "process_vertical S flt width src_rows dst_rows offsets m =
     (if S = 3 then process_vertical_3x3 flt width src_rows dst_rows offsets m
      else if S = 5 then process_vertical_5x5 flt width src_rows dst_rows offsets m
      else if S = 7 then process_vertical_7x7 flt width src_rows dst_rows offsets m
      else if S = 9 then process_vertical_9x9 flt width src_rows dst_rows offsets m
      else if S = 15 then process_vertical_15x15 flt width src_rows dst_rows offsets m
      else if S = 21 then process_vertical_21x21 flt width src_rows dst_rows offsets m
      else m)"

definition process_horizontal :: "nat \<Rightarrow> ('a::len, 'b::len, 'd::len) word_kernel \<Rightarrow>
    nat \<Rightarrow> Rows \<Rightarrow> Rows \<Rightarrow> int list \<Rightarrow> mem \<Rightarrow> mem" where
  "process_horizontal S flt width src_rows dst_rows offsets m =
     (if S = 3 then process_horizontal_3x3 flt width src_rows dst_rows offsets m
      else if S = 5 then process_horizontal_5x5 flt width src_rows dst_rows offsets m
      else if S = 7 then process_horizontal_7x7 flt width src_rows dst_rows offsets m
      else if S = 9 then process_horizontal_9x9 flt width src_rows dst_rows offsets m
      else if S = 15 then process_horizontal_15x15 flt width src_rows dst_rows offsets m
      else if S = 21 then process_horizontal_21x21 flt width src_rows dst_rows offsets m
      else m)"

definition process_horizontal_borders :: "nat \<Rightarrow> ('a::len, 'b::len, 'd::len) word_kernel \<Rightarrow>
    Rows \<Rightarrow> Rows \<Rightarrow> int list \<Rightarrow> mem \<Rightarrow> mem" where
  "process_horizontal_borders S flt src_rows dst_rows offsets m =
     (if S = 3 then process_horizontal_borders_3x3 flt src_rows dst_rows offsets m
      else if S = 5 then process_horizontal_borders_5x5 flt src_rows dst_rows offsets m
      else if S = 7 then process_horizontal_borders_7x7 flt src_rows dst_rows offsets m
      else if S = 9 then process_horizontal_borders_9x9 flt src_rows dst_rows offsets m
      else if S = 15 then process_horizontal_borders_15x15 flt src_rows dst_rows offsets m
      else if S = 21 then process_horizontal_borders_21x21 flt src_rows dst_rows offsets m
      else m)"

section \<open>The workspace\<close>

record SeparableFilterWorkspace =
  ws_rect :: Rectangle
  ws_channels :: nat
  ws_buffer :: nat
  ws_buffer_rows_stride :: nat

text \<open>\<open>malloc n\<close> is the address of \<open>n\<close> fresh bytes, or nothing.\<close>

definition workspace_allocate :: "(nat \<Rightarrow> nat option) \<Rightarrow> Rectangle \<Rightarrow> nat \<Rightarrow> nat \<Rightarrow> nat option \<times> nat" where
  "workspace_allocate malloc rect channels intermediate_size =
     (let buffer_rows_number_of_elements = size_wrap (int (rectangle_width rect) * int channels);
          buffer_rows_number_of_elements = size_wrap (int buffer_rows_number_of_elements + 3);
          buffer_rows_stride = size_wrap (int buffer_rows_number_of_elements * int intermediate_size)
      in (malloc buffer_rows_stride, buffer_rows_stride))"

definition workspace_create ::
    "(nat \<Rightarrow> nat option) \<Rightarrow> Rectangle \<Rightarrow> nat \<Rightarrow> nat \<Rightarrow> kleidicv_error_t + SeparableFilterWorkspace" where
  "workspace_create malloc rect channels intermediate_size =
     (case workspace_allocate malloc rect channels intermediate_size of
        (None, _) \<Rightarrow> Inl KLEIDICV_ERROR_ALLOCATION
      | (Some allocation, buffer_rows_stride) \<Rightarrow>
          Inr \<lparr> ws_rect = rect, ws_channels = channels, ws_buffer = allocation,
                ws_buffer_rows_stride = buffer_rows_stride \<rparr>)"

definition workspace_process_horizontal ::
    "nat \<Rightarrow> ('a::len, 'b::len, 'd::len) word_kernel \<Rightarrow> nat \<Rightarrow> Rows \<Rightarrow> Rows \<Rightarrow> FixedBorderInfo \<Rightarrow> mem \<Rightarrow> mem" where
  "workspace_process_horizontal S flt width buffer_rows dst_rows horizontal_border m =
     (let margin = driver_margin S;
          m = fold (\<lambda>horizontal_index.
                process_horizontal_borders S flt (rows_at buffer_rows 0 (int horizontal_index))
                  (rows_at dst_rows 0 (int horizontal_index))
                  (offsets_with_left_border S horizontal_border horizontal_index)) [0..<margin] m;
          width_without_borders = size_wrap (int width - int (2 * margin));
          m = process_horizontal S flt width_without_borders (rows_at buffer_rows 0 (int margin))
                (rows_at dst_rows 0 (int margin)) (offsets_without_border S) m
      in fold (\<lambda>horizontal_index.
                let index = size_wrap (int width - int margin + int horizontal_index)
                in process_horizontal_borders S flt (rows_at buffer_rows 0 (int index))
                  (rows_at dst_rows 0 (int index))
                  (offsets_with_right_border S horizontal_border index)) [0..<margin] m)"

definition buffer_rows :: "'b::len itself \<Rightarrow> SeparableFilterWorkspace \<Rightarrow> Rows" where
  "buffer_rows t ws = \<lparr> row_ptr = ws_buffer ws, row_stride = ws_buffer_rows_stride ws,
     row_sizeof = sizeof TYPE('b), row_channels = ws_channels ws \<rparr>"

definition workspace_process ::
    "nat \<Rightarrow> SeparableFilterWorkspace \<Rightarrow> nat \<Rightarrow> nat \<Rightarrow> Rows \<Rightarrow> Rows \<Rightarrow> FixedBorderType \<Rightarrow>
     ('a::len, 'b::len, 'd::len) word_kernel \<Rightarrow> mem \<Rightarrow> mem" where
  "workspace_process S ws y_begin y_end src_rows dst_rows border_type flt m =
     (let vertical_border =
            \<lparr> fb_length = rectangle_height (ws_rect ws), fb_border_type = border_type \<rparr>;
          horizontal_border =
            \<lparr> fb_length = rectangle_width (ws_rect ws), fb_border_type = border_type \<rparr>;
          width = rectangle_width (ws_rect ws);
          buffer = buffer_rows TYPE('b) ws
      in fold (\<lambda>vertical_index m.
            let offsets = offsets_with_border S vertical_border vertical_index;
                m = process_vertical S flt width (rows_at src_rows (int vertical_index) 0) buffer offsets m
            in workspace_process_horizontal S flt width buffer (rows_at dst_rows (int vertical_index) 0)
                 horizontal_border m) [y_begin..<y_end] m)"

section \<open>One driver call\<close>

text \<open>
  An element computed from the elements at index \<open>i\<close> of the rows (or shifted rows) at \<open>P k\<close>, one for
  each tap, and the bytes it reads.
\<close>

definition tap_value :: "('s::len word list \<Rightarrow> 'v) \<Rightarrow> nat \<Rightarrow> (nat \<Rightarrow> nat) \<Rightarrow> nat \<Rightarrow> mem \<Rightarrow> 'v" where
  "tap_value f S P i m = f (map (\<lambda>k. load_elem (row_address TYPE('s) (P k) i) m) [0..<S])"

definition tap_bytes :: "'s::len itself \<Rightarrow> nat \<Rightarrow> (nat \<Rightarrow> nat) \<Rightarrow> nat \<Rightarrow> nat set" where
  "tap_bytes t S P i = (\<Union>k<S. elem_bytes TYPE('s) (row_address TYPE('s) (P k) i))"

lemma reads_tap_value: "reads (tap_bytes TYPE('s::len) S P i) (tap_value (f :: 's word list \<Rightarrow> 'v) S P i)"
  unfolding reads_def tap_value_def
proof (intro allI impI arg_cong [of _ _ f] map_cong refl)
  fix m m' :: mem and k
  assume "\<forall>a \<in> tap_bytes TYPE('s) S P i. m a = m' a" and "k \<in> set [0..<S]"
  then have "\<forall>a \<in> elem_bytes TYPE('s) (row_address TYPE('s) (P k) i). m a = m' a"
    by (auto simp: tap_bytes_def)
  then show "load_elem (row_address TYPE('s) (P k) i) m = (load_elem (row_address TYPE('s) (P k) i) m' :: 's word)"
    by (rule load_elem_cong)
qed

definition taps_apart :: "'s::len itself \<Rightarrow> nat \<Rightarrow> (nat \<Rightarrow> nat) \<Rightarrow> 'v::len itself \<Rightarrow> nat \<Rightarrow> nat \<Rightarrow> bool" where
  "taps_apart t S P t' d len \<longleftrightarrow> (\<forall>k < S. row_bytes TYPE('s) (P k) len \<inter> row_bytes TYPE('v) d len = {})"

lemma tap_reads_apart:
  fixes f :: "'s::len word list \<Rightarrow> 'v::len word"
  assumes "taps_apart TYPE('s) S P TYPE('v) d len"
  shows "reads_apart (tap_value f S P) (tap_bytes TYPE('s) S P) d len"
  unfolding reads_apart_def
proof (intro allI impI conjI reads_tap_value)
  fix i
  assume "i < len"
  then have "tap_bytes TYPE('s) S P i \<subseteq> (\<Union>k<S. row_bytes TYPE('s) (P k) len)"
    using row_element_bytes [where 'a = 's] by (fastforce simp: tap_bytes_def)
  with assms show "tap_bytes TYPE('s) S P i \<inter> row_bytes TYPE('v) d len = {}"
    unfolding taps_apart_def by blast
qed

text \<open>A vector for each tap, worked on lane by lane.\<close>

definition lanewise :: "('s list list \<Rightarrow> 'v list) \<Rightarrow> ('s list \<Rightarrow> 'v) \<Rightarrow> nat \<Rightarrow> nat \<Rightarrow> bool" where
  "lanewise vec scalar S lanes \<longleftrightarrow>
     (\<forall>v. length v = S \<and> (\<forall>x \<in> set v. length x = lanes) \<longrightarrow>
        vec v = map (\<lambda>l. scalar (map (\<lambda>x. x ! l) v)) [0..<lanes])"

lemma lanewiseD:
  "lanewise vec scalar S lanes \<Longrightarrow> length v = S \<Longrightarrow> (\<And>x. x \<in> set v \<Longrightarrow> length x = lanes) \<Longrightarrow>
    vec v = map (\<lambda>l. scalar (map (\<lambda>x. x ! l) v)) [0..<lanes]"
  unfolding lanewise_def by blast

lemma row_address_add: "row_address TYPE('s::len) p (i + l) = row_address TYPE('s) p i + l * sizeof TYPE('s)"
  by (simp add: row_address_def add_mult_distrib)

lemma lanewise_taps:
  fixes vec :: "'s::len word list list \<Rightarrow> 'v list"
  assumes "lanewise vec scalar S (num_lanes_of TYPE('s))"
  shows "vec (map (\<lambda>k. vld1q_elems (row_address TYPE('s) (P k) i) m) [0..<S])
    = map (\<lambda>l. tap_value scalar S P (i + l) m) [0..<num_lanes_of TYPE('s)]"
proof -
  have "vec (map (\<lambda>k. vld1q_elems (row_address TYPE('s) (P k) i) m) [0..<S])
    = map (\<lambda>l. scalar (map (\<lambda>x. x ! l) (map (\<lambda>k. vld1q_elems (row_address TYPE('s) (P k) i) m) [0..<S])))
        [0..<num_lanes_of TYPE('s)]"
    by (intro lanewiseD [OF assms]) auto
  also have "\<dots> = map (\<lambda>l. tap_value scalar S P (i + l) m) [0..<num_lanes_of TYPE('s)]"
    by (simp add: tap_value_def vld1q_elems_def comp_def row_address_add)
  finally show ?thesis .
qed

lemma element_pointer_row:
  "row_sizeof r = sizeof TYPE('s::len) \<Longrightarrow> element_pointer r i = row_address TYPE('s) (row_ptr r) i"
  unfolding element_pointer_def element_address_nat by (simp add: row_address_def)

lemma rows_at_sel [simp]:
  "row_sizeof (rows_at r i j) = row_sizeof r" "row_stride (rows_at r i j) = row_stride r"
  "row_channels (rows_at r i j) = row_channels r"
  by (simp_all add: rows_at_def)

lemma vertical_pointers_row:
  "row_sizeof src = sizeof TYPE('s::len) \<Longrightarrow> vertical_pointers src offs ks i
    = map (\<lambda>k. row_address TYPE('s) (row_ptr (rows_at src (offs ! k) 0)) i) ks"
  by (simp add: vertical_pointers_def element_pointer_row)

lemma horizontal_pointers_row:
  "row_sizeof src = sizeof TYPE('s::len) \<Longrightarrow> horizontal_pointers src offs ks i
    = map (\<lambda>k. row_address TYPE('s) (row_ptr (rows_at src 0 (offs ! k))) i) ks"
  by (simp add: horizontal_pointers_def element_pointer_row)

text \<open>
  The loop body that stores two, one vector or an element of results is the same for both directions,
  so the lemmas about the loops are stated once for the pointers \<open>P\<close> of the taps.
\<close>

lemma twice_block:
  fixes vec :: "'s::len word list list \<Rightarrow> 'v::len word list"
  assumes "lanewise vec scalar S (num_lanes_of TYPE('s))" and "taps_apart TYPE('s) S P TYPE('v) d len"
    and "\<And>i m. callback i m =
      vst1q_elems (row_address TYPE('v) d (i + num_lanes_of TYPE('s)))
        (vec (map (\<lambda>k. vld1q_elems (row_address TYPE('s) (P k) (i + num_lanes_of TYPE('s))) m) [0..<S]))
        (vst1q_elems (row_address TYPE('v) d i)
          (vec (map (\<lambda>k. vld1q_elems (row_address TYPE('s) (P k) i) m) [0..<S])) m)"
  shows "block_callback (store_row (tap_value scalar S P) d) len (2 * num_lanes_of TYPE('s)) callback"
  by (rule vector_store_blocks [OF tap_reads_apart [OF assms(2)]])
    (simp only: assms(3) lanewise_taps [OF assms(1)])

lemma once_block:
  fixes vec :: "'s::len word list list \<Rightarrow> 'v::len word list"
  assumes "lanewise vec scalar S (num_lanes_of TYPE('s))" and "taps_apart TYPE('s) S P TYPE('v) d len"
    and "\<And>i m. callback i m = vst1q_elems (row_address TYPE('v) d i)
          (vec (map (\<lambda>k. vld1q_elems (row_address TYPE('s) (P k) i) m) [0..<S])) m"
  shows "block_callback (store_row (tap_value scalar S P) d) len (num_lanes_of TYPE('s)) callback"
  by (rule vector_store_block [OF tap_reads_apart [OF assms(2)]])
    (simp only: assms(3) lanewise_taps [OF assms(1)])

lemma consecutive_rows:
  "load_consecutive (row_address TYPE('s::len) p i) m
    = (vld1q_elems (row_address TYPE('s) p i) m :: 's word list,
       vld1q_elems (row_address TYPE('s) p (i + num_lanes_of TYPE('s))) m)"
  by (simp add: load_consecutive_def row_address_add)

text \<open>The scalar step of every driver is the same.\<close>

lemma scalar_steps:
  "process_horizontal_scalar_3x3 flt src dst offs = horizontal_tail_step flt [0..<3] src dst offs"
  "process_horizontal_scalar_5x5 flt src dst offs = horizontal_tail_step flt [0..<5] src dst offs"
  "process_horizontal_scalar_7x7 flt src dst offs = horizontal_tail_step flt [0..<7] src dst offs"
  "process_horizontal_scalar_9x9 flt src dst offs = horizontal_tail_step flt [0..<9] src dst offs"
  "process_horizontal_scalar_15x15 flt src dst offs = horizontal_tail_step flt [0..<15] src dst offs"
  "process_horizontal_scalar_21x21 flt src dst offs = horizontal_tail_step flt [0..<21] src dst offs"
  by (simp_all add: fun_eq_iff process_horizontal_scalar_3x3_def process_horizontal_scalar_5x5_def process_horizontal_scalar_7x7_def
      process_horizontal_scalar_9x9_def process_horizontal_scalar_15x15_def process_horizontal_scalar_21x21_def)

section \<open>The contract of a filter\<close>

text \<open>
  What the drivers rely on: the vector paths work lane by lane. The lane of the horizontal vector path
  may differ from the scalar path on buffer values that the vertical path never produces
  (accumulators that would wrap around in one and not in the other).
\<close>

locale separable_filter =
  fixes flt :: "('a::len, 'b::len, 'd::len) word_kernel" and S :: nat
    and buffer_ok :: "'b word \<Rightarrow> bool" and lane :: "'b word list \<Rightarrow> 'd word"
  assumes size: "S \<in> {3, 5, 7, 9, 15, 21}"
    and types: "element_type TYPE('a)" "element_type TYPE('b)" "element_type TYPE('d)"
    and vertical_lanes:
      "lanewise (vertical_vector_path flt) (vertical_scalar_path flt) S (num_lanes_of TYPE('a))"
    and horizontal_lanes: "lanewise (horizontal_vector_path flt) lane S (num_lanes_of TYPE('b))"
    and lane_scalar: "length v = S \<Longrightarrow> (\<And>x. x \<in> set v \<Longrightarrow> buffer_ok x) \<Longrightarrow> lane v = horizontal_scalar_path flt v"
    and vertical_ok: "length u = S \<Longrightarrow> buffer_ok (vertical_scalar_path flt u)"
begin

lemma lanes: "0 < num_lanes_of TYPE('a)" "0 < num_lanes_of TYPE('b)" "num_lanes_of TYPE('a) \<le> 16"
  using types by (simp_all add: element_type_lanes) (simp add: num_lanes_of_def)

lemma process_vertical_row:
  assumes "row_sizeof src = sizeof TYPE('a)" and "row_sizeof dst = sizeof TYPE('b)"
    and "len = width * row_channels src" and "S - 1 \<le> width"
    and "taps_apart TYPE('a) S (\<lambda>k. row_ptr (rows_at src (offs ! k) 0)) TYPE('b) (row_ptr dst) len"
  shows "process_vertical S flt width src dst offs m
    = fold (store_row (tap_value (vertical_scalar_path flt) S (\<lambda>k. row_ptr (rows_at src (offs ! k) 0)))
        (row_ptr dst)) [0..<len] m"
proof -
  let ?P = "\<lambda>k. row_ptr (rows_at src (offs ! k) 0)"
  let ?row = "store_row (tap_value (vertical_scalar_path flt) S ?P) (row_ptr dst)"
  note [simp] = vertical_pointers_row [OF assms(1)] element_pointer_row [OF assms(2)]
  have tail: "vertical_tail_step flt [0..<S] src dst offs = ?row"
    by (simp add: fun_eq_iff vertical_tail_step_def store_row_def tap_value_def comp_def)
  have once: "block_callback ?row len (num_lanes_of TYPE('a)) (vertical_once_step flt [0..<S] src dst offs)"
    by (rule once_block [OF vertical_lanes assms(5)])
      (simp add: vertical_once_step_def comp_def)
  have twice: "block_callback ?row len (2 * num_lanes_of TYPE('a)) (vertical_twice_step flt [0..<S] src dst offs)"
    by (rule twice_block [OF vertical_lanes assms(5)])
      (simp add: vertical_twice_step_def Let_def comp_def consecutive_rows)
  have elem: "element_operation ?row len"
    by (rule store_row_elements [OF tap_reads_apart [OF assms(5)]])
  have no_tail: "num_lanes_of TYPE('a) \<le> len \<or> len = 0" if "S = 21"
  proof -
    have "width \<le> len" if "len \<noteq> 0"
      using that mult_le_mono2 [of 1 "row_channels src" width] assms(3) by (cases "row_channels src") simp_all
    with assms(4) that lanes(3) show ?thesis by force
  qed
  have twice_tail: "snd (tail2 ?row (unroll_once2 True (vertical_once_step flt [0..<S] src dst offs)
      (unroll_twice2 True (vertical_twice_step flt [0..<S] src dst offs)
        (LoopUnroll2 0 len (num_lanes_of TYPE('a)), m)))) = fold ?row [0..<len] m"
    by (intro index_at_tail avoid_tail_index_twice elem once twice lanes)
  have once_tail: "snd (tail2 ?row (unroll_once2 True (vertical_once_step flt [0..<S] src dst offs)
      (LoopUnroll2 0 len (num_lanes_of TYPE('a)), m))) = fold ?row [0..<len] m"
    by (intro index_at_tail avoid_tail_index elem once lanes)
  have only_once: "snd (unroll_once2 True (vertical_once_step flt [0..<S] src dst offs)
      (LoopUnroll2 0 len (num_lanes_of TYPE('a)), m)) = fold ?row [0..<len] m" if "S = 21"
    by (intro avoid_tail_complete elem once lanes no_tail that)
  from size consider "S = 3" | "S = 5" | "S = 7" | "S = 9" | "S = 15" | "S = 21" by auto
  then show ?thesis
  proof cases
    case 1 from twice_tail show ?thesis
      unfolding tail [symmetric] assms(3) by (simp only: 1 process_vertical_def process_vertical_3x3_def) simp
  next
    case 2 from once_tail show ?thesis
      unfolding tail [symmetric] assms(3) by (simp add: 2 process_vertical_def process_vertical_5x5_def)
  next
    case 3 from once_tail show ?thesis
      unfolding tail [symmetric] assms(3) by (simp add: 3 process_vertical_def process_vertical_7x7_def)
  next
    case 4 from once_tail show ?thesis
      unfolding tail [symmetric] assms(3) by (simp add: 4 process_vertical_def process_vertical_9x9_def)
  next
    case 5 from once_tail show ?thesis
      unfolding tail [symmetric] assms(3) by (simp add: 5 process_vertical_def process_vertical_15x15_def)
  next
    case 6 from only_once [OF 6] show ?thesis
      unfolding tail [symmetric] assms(3) by (simp add: 6 process_vertical_def process_vertical_21x21_def)
  qed
qed

lemma horizontal_tail_row:
  assumes "row_sizeof src = sizeof TYPE('b)" and "row_sizeof dst = sizeof TYPE('d)"
  shows "horizontal_tail_step flt [0..<S] src dst offs
    = store_row (tap_value (horizontal_scalar_path flt) S (\<lambda>k. row_ptr (rows_at src 0 (offs ! k)))) (row_ptr dst)"
  by (simp add: fun_eq_iff horizontal_tail_step_def store_row_def tap_value_def comp_def
      horizontal_pointers_row [OF assms(1)] element_pointer_row [OF assms(2)])

lemma process_horizontal_row:
  assumes "row_sizeof src = sizeof TYPE('b)" and "row_sizeof dst = sizeof TYPE('d)"
    and "len = width * row_channels src"
    and "taps_apart TYPE('b) S (\<lambda>k. row_ptr (rows_at src 0 (offs ! k))) TYPE('d) (row_ptr dst) len"
    and "\<And>k i. k < S \<Longrightarrow> i < len \<Longrightarrow>
      buffer_ok (load_elem (row_address TYPE('b) (row_ptr (rows_at src 0 (offs ! k))) i) m)"
  shows "process_horizontal S flt width src dst offs m
    = fold (store_row (tap_value lane S (\<lambda>k. row_ptr (rows_at src 0 (offs ! k)))) (row_ptr dst)) [0..<len] m"
proof -
  let ?P = "\<lambda>k. row_ptr (rows_at src 0 (offs ! k))"
  let ?row = "store_row (tap_value lane S ?P) (row_ptr dst)"
  note [simp] = horizontal_pointers_row [OF assms(1)] element_pointer_row [OF assms(2)]
  have once: "block_callback ?row len (num_lanes_of TYPE('b)) (horizontal_once_step flt [0..<S] src dst offs)"
    by (rule once_block [OF horizontal_lanes assms(4)])
      (simp add: horizontal_once_step_def comp_def)
  have twice: "block_callback ?row len (2 * num_lanes_of TYPE('b)) (horizontal_twice_step flt [0..<S] src dst offs)"
    by (rule twice_block [OF horizontal_lanes assms(4)])
      (simp add: horizontal_twice_step_def Let_def comp_def consecutive_rows)
  have elem: "element_operation ?row len"
    by (rule store_row_elements [OF tap_reads_apart [OF assms(4)]])
  have same: "tap_value (horizontal_scalar_path flt) S ?P i m = tap_value lane S ?P i m" if "i < len" for i
    unfolding tap_value_def using assms(5) that by (intro lane_scalar [symmetric]) auto
  have "snd (tail2 (horizontal_tail_step flt [0..<S] src dst offs)
      (unroll_once2 True (horizontal_once_step flt [0..<S] src dst offs)
        (unroll_twice2 True (horizontal_twice_step flt [0..<S] src dst offs)
          (LoopUnroll2 0 len (num_lanes_of TYPE('b)), m)))) = fold ?row [0..<len] m"
    unfolding horizontal_tail_row [OF assms(1,2)]
    by (rule index_at_tail_values [OF avoid_tail_index_twice [OF elem once twice lanes(2)]
          tap_reads_apart [OF assms(4)] tap_reads_apart [OF assms(4)] same])
  with size show ?thesis
    by (auto simp: assms(3) process_horizontal_def process_horizontal_3x3_def process_horizontal_5x5_def
        process_horizontal_7x7_def process_horizontal_9x9_def process_horizontal_15x15_def
        process_horizontal_21x21_def scalar_steps)
qed

lemma process_horizontal_borders_row:
  assumes "row_sizeof src = sizeof TYPE('b)" and "row_sizeof dst = sizeof TYPE('d)"
  shows "process_horizontal_borders S flt src dst offs m
    = fold (store_row (tap_value (horizontal_scalar_path flt) S (\<lambda>k. row_ptr (rows_at src 0 (offs ! k))))
        (row_ptr dst)) [0..<row_channels src] m"
  unfolding horizontal_tail_row [OF assms, symmetric]
  using size
  by (auto simp: process_horizontal_borders_def process_horizontal_borders_3x3_def
      process_horizontal_borders_5x5_def process_horizontal_borders_7x7_def process_horizontal_borders_9x9_def
      process_horizontal_borders_15x15_def process_horizontal_borders_21x21_def
      scalar_steps)

end

end
