(* ===== verification/Separable_Rows.thy ===== *)
theory Separable_Rows
  imports Separable_Filter
begin

text \<open>
  One row of a separable filter: the left border, the middle and the right border of the horizontal
  pass fill the destination row, each pixel from the buffer elements its border type assigns.
\<close>

section \<open>Filling a row piece by piece\<close>

text \<open>
  Elements \<open>p\<close> to \<open>p + n\<close> of the row at \<open>d\<close> get their values and nothing else changes; an action
  that does so in every memory that agrees with \<open>m0\<close> on the bytes \<open>B\<close> it reads.
\<close>

definition segment_post :: "(nat \<Rightarrow> 'd::len word) \<Rightarrow> nat \<Rightarrow> nat \<Rightarrow> nat \<Rightarrow> mem \<Rightarrow> mem \<Rightarrow> bool" where
  "segment_post f d p n m m' \<longleftrightarrow>
     (\<forall>i. p \<le> i \<and> i < p + n \<longrightarrow> load_elem (row_address TYPE('d) d i) m' = f i)
     \<and> (\<forall>a. a \<notin> row_bytes TYPE('d) (row_address TYPE('d) d p) n \<longrightarrow> m' a = m a)"

definition fills ::
    "nat set \<Rightarrow> mem \<Rightarrow> (nat \<Rightarrow> 'd::len word) \<Rightarrow> nat \<Rightarrow> nat \<Rightarrow> nat \<Rightarrow> (mem \<Rightarrow> mem) \<Rightarrow> bool" where
  "fills B m0 f d p n X \<longleftrightarrow> (\<forall>m. (\<forall>a \<in> B. m a = m0 a) \<longrightarrow> segment_post f d p n m (X m))"

lemma fillsD: "fills B m0 f d p n X \<Longrightarrow> (\<And>a. a \<in> B \<Longrightarrow> m a = m0 a) \<Longrightarrow> segment_post f d p n m (X m)"
  unfolding fills_def by blast

lemma segment_outside:
  fixes f :: "nat \<Rightarrow> 'd::len word"
  shows "segment_post f d p n m m' \<Longrightarrow> a \<notin> row_bytes TYPE('d) (row_address TYPE('d) d p) n \<Longrightarrow> m' a = m a"
  unfolding segment_post_def by blast

lemma segment_inside:
  fixes f :: "nat \<Rightarrow> 'd::len word"
  shows "segment_post f d p n m m' \<Longrightarrow> p \<le> i \<Longrightarrow> i < p + n \<Longrightarrow> load_elem (row_address TYPE('d) d i) m' = f i"
  unfolding segment_post_def by blast

lemma segment_bytes:
  "row_bytes TYPE('d::len) (row_address TYPE('d) d p) n
    = {row_address TYPE('d) d p..<row_address TYPE('d) d (p + n)}"
  by (simp add: row_bytes_def row_address_def add_mult_distrib add.assoc)

lemma row_address_mono: "i \<le> j \<Longrightarrow> row_address TYPE('d::len) d i \<le> row_address TYPE('d) d j"
  unfolding row_address_def by (simp add: mult_le_mono1)

lemma segment_subset:
  assumes "q \<le> p" and "p + n \<le> q + k"
  shows "row_bytes TYPE('d::len) (row_address TYPE('d) d p) n
    \<subseteq> row_bytes TYPE('d) (row_address TYPE('d) d q) k"
  using row_address_mono [OF assms(1), where 'd = 'd and d = d]
    row_address_mono [OF assms(2), where 'd = 'd and d = d]
  by (auto simp: segment_bytes)

lemma segment_comp:
  fixes f :: "nat \<Rightarrow> 'd::len word"
  assumes a: "segment_post f d p n m m1" and b: "segment_post f d (p + n) k m1 m2"
  shows "segment_post f d p (n + k) m m2"
  unfolding segment_post_def
proof (intro conjI allI impI)
  fix i
  assume i: "p \<le> i \<and> i < p + (n + k)"
  show "load_elem (row_address TYPE('d) d i) m2 = f i"
  proof (cases "i < p + n")
    case True
    have "load_elem (row_address TYPE('d) d i) m2 = (load_elem (row_address TYPE('d) d i) m1 :: 'd word)"
    proof (rule load_elem_cong, intro ballI)
      fix x
      assume "x \<in> elem_bytes TYPE('d) (row_address TYPE('d) d i)"
      then have "x < row_address TYPE('d) d (i + 1)" by (simp add: elem_bytes_def row_address_def)
      also have "\<dots> \<le> row_address TYPE('d) d (p + n)" using True by (intro row_address_mono) simp
      finally show "m2 x = m1 x" by (intro segment_outside [OF b]) (simp add: segment_bytes)
    qed
    with segment_inside [OF a] i True show ?thesis by simp
  next
    case False
    with i show ?thesis by (intro segment_inside [OF b]) simp_all
  qed
next
  fix x
  assume "x \<notin> row_bytes TYPE('d) (row_address TYPE('d) d p) (n + k)"
  moreover have "row_bytes TYPE('d) (row_address TYPE('d) d p) n
      \<subseteq> row_bytes TYPE('d) (row_address TYPE('d) d p) (n + k)"
    "row_bytes TYPE('d) (row_address TYPE('d) d (p + n)) k
      \<subseteq> row_bytes TYPE('d) (row_address TYPE('d) d p) (n + k)"
    by (intro segment_subset; simp)+
  ultimately have "x \<notin> row_bytes TYPE('d) (row_address TYPE('d) d p) n"
    "x \<notin> row_bytes TYPE('d) (row_address TYPE('d) d (p + n)) k" by blast+
  then show "m2 x = m x" using segment_outside [OF a] segment_outside [OF b] by simp
qed

lemma fills_comp:
  fixes f :: "nat \<Rightarrow> 'd::len word"
  assumes "fills B m0 f d p n X" and "fills B m0 f d (p + n) k Y"
    and "B \<inter> row_bytes TYPE('d) (row_address TYPE('d) d p) n = {}"
  shows "fills B m0 f d p (n + k) (\<lambda>m. Y (X m))"
  unfolding fills_def
proof (intro allI impI)
  fix m :: mem
  assume agree: "\<forall>a \<in> B. m a = m0 a"
  then have X: "segment_post f d p n m (X m)" by (intro fillsD [OF assms(1)]) simp
  have "\<forall>a \<in> B. X m a = m0 a"
    using segment_outside [OF X] agree assms(3) by (metis disjoint_iff)
  then have "segment_post f d (p + n) k (X m) (Y (X m))" by (intro fillsD [OF assms(2)]) simp
  with X show "segment_post f d p (n + k) m (Y (X m))" by (rule segment_comp)
qed

lemma fills_fold:
  fixes f :: "nat \<Rightarrow> 'd::len word"
  assumes "\<And>h. h < k \<Longrightarrow> fills B m0 f d (p + h * n) n (X h)"
    and "B \<inter> row_bytes TYPE('d) (row_address TYPE('d) d p) (k * n) = {}"
  shows "fills B m0 f d p (k * n) (fold X [0..<k])"
  using assms
proof (induction k)
  case 0
  then show ?case by (auto simp: fills_def segment_post_def)
next
  case (Suc k)
  have "row_bytes TYPE('d) (row_address TYPE('d) d p) (k * n)
      \<subseteq> row_bytes TYPE('d) (row_address TYPE('d) d p) (Suc k * n)"
    by (intro segment_subset) simp_all
  with Suc.prems(2) have apart: "B \<inter> row_bytes TYPE('d) (row_address TYPE('d) d p) (k * n) = {}" by blast
  from fills_comp [OF Suc.IH [OF Suc.prems(1) apart] Suc.prems(1) apart]
  show ?case by (simp add: add.commute [of n])
qed

lemma fills_store_row:
  fixes f :: "nat \<Rightarrow> 'd::len word"
  assumes "8 dvd LENGTH('d)"
    and "\<And>m. (\<And>a. a \<in> B \<Longrightarrow> m a = m0 a) \<Longrightarrow>
      X m = fold (store_row g (row_address TYPE('d) d p)) [0..<n] m"
    and "reads_apart g R (row_address TYPE('d) d p) n"
    and "\<And>m i. (\<And>a. a \<in> B \<Longrightarrow> m a = m0 a) \<Longrightarrow> i < n \<Longrightarrow> g i m = f (p + i)"
  shows "fills B m0 f d p n X"
  unfolding fills_def segment_post_def
proof (intro allI impI conjI)
  fix m :: mem and i
  assume agree: "\<forall>a \<in> B. m a = m0 a" and "p \<le> i \<and> i < p + n"
  then have i: "i - p < n" "p + (i - p) = i" by auto
  have addr: "row_address TYPE('d) (row_address TYPE('d) d p) (i - p) = row_address TYPE('d) d i"
    using i(2) by (simp add: row_address_def flip: add_mult_distrib)
  show "load_elem (row_address TYPE('d) d i) (X m) = f i"
    using store_row_result [OF assms(3,1) i(1), of m] assms(2) [of m] assms(4) [of m, OF _ i(1)] agree i(2)
    by (simp add: addr)
next
  fix m :: mem and a
  assume "\<forall>a \<in> B. m a = m0 a" "a \<notin> row_bytes TYPE('d) (row_address TYPE('d) d p) n"
  then show "X m a = m a" using assms(2) [of m] by (simp add: store_row_outside)
qed

section \<open>Pointers\<close>

lemma rows_at_columns:
  assumes "row_ptr r \<le> size_max"
  shows "row_ptr (rows_at r 0 column) = nat (int (row_ptr r) + column * int (row_channels r) * int (row_sizeof r))"
  using size_wrap_id [OF assms]
  by (simp add: rows_at_def rows_pointer_at_def add_stride_wrap element_address_def)

lemma rows_at_column:
  assumes "row_ptr r \<le> size_max" and "row_sizeof r = sizeof TYPE('s::len)"
  shows "row_ptr (rows_at r 0 (int x)) = row_address TYPE('s) (row_ptr r) (x * row_channels r)"
proof -
  have "int (row_ptr r) + int x * int (row_channels r) * int (row_sizeof r)
      = int (row_ptr r + x * row_channels r * row_sizeof r)" by simp
  then show ?thesis
    unfolding rows_at_columns [OF assms(1)] by (simp only: nat_int) (simp add: row_address_def assms(2))
qed

text \<open>A column given by an offset from another column.\<close>

lemma rows_at_column_offset:
  assumes "row_sizeof r = sizeof TYPE('s::len)"
    and "row_address TYPE('s) (row_ptr r) (x * row_channels r) \<le> size_max" and "int x + off = int t"
  shows "row_ptr (rows_at (rows_at r 0 (int x)) 0 off) = row_address TYPE('s) (row_ptr r) (t * row_channels r)"
proof -
  have "row_ptr r \<le> size_max" using assms(2) by (simp add: row_address_def)
  then have x: "row_ptr (rows_at r 0 (int x)) = row_address TYPE('s) (row_ptr r) (x * row_channels r)"
    by (rule rows_at_column [OF _ assms(1)])
  have off: "off = int t - int x" using assms(3) by simp
  have "int (row_address TYPE('s) (row_ptr r) (x * row_channels r))
      + off * int (row_channels r) * int (row_sizeof r)
    = int (row_address TYPE('s) (row_ptr r) (t * row_channels r))"
    by (simp add: off row_address_def assms(1) algebra_simps)
  then show ?thesis
    using rows_at_columns [of "rows_at r 0 (int x)" off] assms(2) by (simp only: x rows_at_sel nat_int)
qed

lemma ptrdiff_mod: "ptrdiff n mod 2 ^ 64 = int n mod 2 ^ 64"
  by (simp add: ptrdiff_def Let_def)

lemma rows_at_row:
  "row_ptr (rows_at r k 0) = size_wrap (int (row_ptr r) + k * int (row_stride r))"
proof -
  have "(int (row_ptr r) + k * ptrdiff (row_stride r)) mod 2 ^ 64
      = (int (row_ptr r) + k * int (row_stride r)) mod 2 ^ 64"
    by (intro mod_add_cong mod_mult_cong refl ptrdiff_mod)
  then show ?thesis
    by (simp add: rows_at_def rows_pointer_at_def add_stride_wrap element_address_def size_wrap_def)
qed

lemma rows_at_row_offset:
  assumes "int y + off = int t" and "row_ptr r + t * row_stride r \<le> size_max"
  shows "row_ptr (rows_at (rows_at r (int y) 0) off 0) = row_ptr r + t * row_stride r"
proof -
  have "row_ptr (rows_at (rows_at r (int y) 0) off 0)
      = size_wrap (off * int (row_stride r) + int (size_wrap (int (row_ptr r) + int y * int (row_stride r))))"
    by (simp add: rows_at_row add.commute)
  also have "\<dots> = size_wrap (int (row_ptr r + t * row_stride r))"
    using assms(1) by (simp add: size_wrap_add_mod algebra_simps flip: distrib_right)
  finally show ?thesis by (simp only: size_wrap_id [OF assms(2)])
qed

section \<open>The horizontal pass\<close>

definition row_layout :: "'b::len itself \<Rightarrow> 'd::len itself \<Rightarrow> nat \<Rightarrow> nat \<Rightarrow> Rows \<Rightarrow> Rows \<Rightarrow> bool" where
  "row_layout t t' w ch buf dst \<longleftrightarrow>
     row_sizeof buf = sizeof TYPE('b) \<and> row_sizeof dst = sizeof TYPE('d)
     \<and> row_channels buf = ch \<and> row_channels dst = ch
     \<and> row_address TYPE('b) (row_ptr buf) (w * ch) \<le> size_max
     \<and> row_address TYPE('d) (row_ptr dst) (w * ch) \<le> size_max
     \<and> row_bytes TYPE('b) (row_ptr buf) (w * ch) \<inter> row_bytes TYPE('d) (row_ptr dst) (w * ch) = {}"

lemma row_layoutD:
  assumes "row_layout TYPE('b::len) TYPE('d::len) w ch buf dst"
  shows "row_sizeof buf = sizeof TYPE('b)" "row_sizeof dst = sizeof TYPE('d)"
    "row_channels buf = ch" "row_channels dst = ch"
    "i \<le> w * ch \<Longrightarrow> row_address TYPE('b) (row_ptr buf) i \<le> size_max"
    "i \<le> w * ch \<Longrightarrow> row_address TYPE('d) (row_ptr dst) i \<le> size_max"
    "row_bytes TYPE('b) (row_ptr buf) (w * ch) \<inter> row_bytes TYPE('d) (row_ptr dst) (w * ch) = {}"
  using assms row_address_mono [of i "w * ch" "row_ptr buf", where 'd = 'b]
    row_address_mono [of i "w * ch" "row_ptr dst", where 'd = 'd]
  by (auto simp: row_layout_def)

definition buffer_value :: "nat \<Rightarrow> mem \<Rightarrow> nat \<Rightarrow> 'b::len word" where
  "buffer_value b m e = load_elem (row_address TYPE('b) b e) m"

lemma buffer_value_agree:
  assumes "\<And>a. a \<in> row_bytes TYPE('b::len) b n \<Longrightarrow> m a = m0 a" and "e < n"
  shows "buffer_value b m e = (buffer_value b m0 e :: 'b word)"
  unfolding buffer_value_def
  using assms row_element_bytes [OF assms(2), where 'a = 'b and d = b] by (intro load_elem_cong) blast

definition row_value ::
    "('b word list \<Rightarrow> 'd) \<Rightarrow> nat \<Rightarrow> FixedBorderInfo \<Rightarrow> nat \<Rightarrow> (nat \<Rightarrow> 'b::len word) \<Rightarrow> nat \<Rightarrow> 'd" where
  "row_value f S info ch buf e =
     f (map (\<lambda>j. buf (tap_coordinate S info (e div ch) j * ch + e mod ch)) [0..<S])"

lemma tap_value_buffer:
  "tap_value f S (\<lambda>k. row_address TYPE('b::len) b (T k)) i m
    = f (map (\<lambda>k. buffer_value b m (T k + i) :: 'b word) [0..<S])"
  by (simp add: tap_value_def buffer_value_def row_address_def add_mult_distrib add.assoc)

lemma tap_coordinate_less:
  assumes "0 < fb_length info"
  shows "tap_coordinate S info x j < fb_length info"
  unfolding tap_coordinate_def using assms
  by (intro border_coordinate_less) (cases "fb_border_type info"; simp add: border_type_of_def)+

lemma element_in_row:
  fixes t w ch i :: nat
  assumes "t < w" and "i < ch"
  shows "t * ch + i < w * ch"
  using assms mult_le_mono1 [of "Suc t" w ch] by simp

text \<open>Taps into the buffer at elements \<open>T k\<close> on.\<close>

lemma buffer_taps_apart:
  assumes "row_bytes TYPE('b::len) b n \<inter> row_bytes TYPE('d::len) d n = {}"
    and "\<And>k. k < S \<Longrightarrow> T k + len \<le> n" and "p + len \<le> n"
  shows "taps_apart TYPE('b) S (\<lambda>k. row_address TYPE('b) b (T k)) TYPE('d) (row_address TYPE('d) d p) len"
  unfolding taps_apart_def
proof (intro allI impI)
  fix k
  assume "k < S"
  then have "row_bytes TYPE('b) (row_address TYPE('b) b (T k)) len \<subseteq> row_bytes TYPE('b) (row_address TYPE('b) b 0) n"
    using assms(2) by (intro segment_subset) simp_all
  moreover have "row_bytes TYPE('d) (row_address TYPE('d) d p) len
      \<subseteq> row_bytes TYPE('d) (row_address TYPE('d) d 0) n"
    using assms(3) by (intro segment_subset) simp_all
  ultimately show "row_bytes TYPE('b) (row_address TYPE('b) b (T k)) len
      \<inter> row_bytes TYPE('d) (row_address TYPE('d) d p) len = {}"
    using assms(1) by (simp add: row_address_def) blast
qed

context separable_filter
begin

lemma margin [simp]: "driver_margin S = S div 2"
  using size by (auto simp: driver_margin_def)

lemma border_column_fills:
  assumes lay: "row_layout TYPE('b) TYPE('d) w ch buf dst" and x: "x < w" and w: "w = fb_length info"
    and offs: "\<And>k. k < S \<Longrightarrow> int x + offs ! k = int (tap_coordinate S info x k)"
  shows "fills (row_bytes TYPE('b) (row_ptr buf) (w * ch)) m0
    (row_value (horizontal_scalar_path flt) S info ch (buffer_value (row_ptr buf) m0)) (row_ptr dst) (x * ch) ch
    (process_horizontal_borders S flt (rows_at buf 0 (int x)) (rows_at dst 0 (int x)) offs)"
proof (rule fills_store_row)
  note lay' = row_layoutD [OF lay]
  let ?T = "\<lambda>k. tap_coordinate S info x k * ch"
  let ?P = "\<lambda>k. row_address TYPE('b) (row_ptr buf) (?T k)"
  let ?g = "tap_value (horizontal_scalar_path flt) S ?P"
  have tap: "tap_coordinate S info x k < w" for k
    using x w by (simp add: tap_coordinate_less)
  have xw: "x * ch \<le> w * ch" using x by simp
  have P: "row_ptr (rows_at (rows_at buf 0 (int x)) 0 (offs ! k)) = ?P k" if "k < S" for k
    using rows_at_column_offset [OF lay'(1), of x "offs ! k" "tap_coordinate S info x k"] lay'(3,5) xw offs [OF that]
    by simp
  have d: "row_ptr (rows_at dst 0 (int x)) = row_address TYPE('d) (row_ptr dst) (x * ch)"
    using rows_at_column [OF _ lay'(2), of x] lay'(4) lay'(6) [of 0] by (simp add: row_address_def)
  have eq: "tap_value f S (\<lambda>k. row_ptr (rows_at (rows_at buf 0 (int x)) 0 (offs ! k))) = tap_value f S ?P"
    for f :: "'b word list \<Rightarrow> 'd word"
    unfolding tap_value_def by (intro ext arg_cong [of _ _ f] map_cong refl) (simp add: P)
  show "process_horizontal_borders S flt (rows_at buf 0 (int x)) (rows_at dst 0 (int x)) offs m
      = fold (store_row ?g (row_address TYPE('d) (row_ptr dst) (x * ch))) [0..<ch] m" for m
    using process_horizontal_borders_row [of "rows_at buf 0 (int x)" "rows_at dst 0 (int x)" offs m] lay'(1-3)
    by (simp add: eq d)
  have bound: "t * ch + ch \<le> w * ch" if "t < w" for t
    using mult_le_mono1 [of "Suc t" w ch] that by simp
  show "reads_apart ?g (tap_bytes TYPE('b) S ?P) (row_address TYPE('d) (row_ptr dst) (x * ch)) ch"
    by (intro tap_reads_apart buffer_taps_apart [OF lay'(7)] bound tap x)
  fix m :: mem and i
  assume agree: "\<And>a. a \<in> row_bytes TYPE('b) (row_ptr buf) (w * ch) \<Longrightarrow> m a = m0 a" and i: "i < ch"
  have "(x * ch + i) div ch = x" "(x * ch + i) mod ch = i" using i by simp_all
  then show "?g i m
      = row_value (horizontal_scalar_path flt) S info ch (buffer_value (row_ptr buf) m0) (x * ch + i)"
    unfolding tap_value_buffer row_value_def
    by (intro arg_cong [of _ _ "horizontal_scalar_path flt"] map_cong refl)
      (simp add: buffer_value_agree [OF agree element_in_row [OF tap i]])
qed (use types in \<open>auto simp: element_type_def\<close>)

lemma middle_fills:
  assumes lay: "row_layout TYPE('b) TYPE('d) w ch buf dst" and w: "w = fb_length info" "2 * (S div 2) \<le> w"
    and ok: "\<And>e. e < w * ch \<Longrightarrow> buffer_ok (buffer_value (row_ptr buf) m0 e)"
  shows "fills (row_bytes TYPE('b) (row_ptr buf) (w * ch)) m0
    (row_value (horizontal_scalar_path flt) S info ch (buffer_value (row_ptr buf) m0)) (row_ptr dst)
    (S div 2 * ch) ((w - 2 * (S div 2)) * ch)
    (process_horizontal S flt (w - 2 * (S div 2)) (rows_at buf 0 (int (S div 2))) (rows_at dst 0 (int (S div 2)))
      (offsets_without_border S))"
proof (rule fills_store_row)
  note lay' = row_layoutD [OF lay]
  let ?mg = "S div 2" let ?w = "w - 2 * ?mg"
  let ?P = "\<lambda>k. row_address TYPE('b) (row_ptr buf) (k * ch)"
  let ?g = "tap_value lane S ?P"
  have off: "int ?mg + offsets_without_border S ! k = int k" if "k < S" for k
    using that size by (simp add: offsets_without_border_taps)
  have mw: "?mg * ch \<le> w * ch" using w(2) by simp
  have P: "row_ptr (rows_at (rows_at buf 0 (int ?mg)) 0 (offsets_without_border S ! k)) = ?P k" if "k < S" for k
    using rows_at_column_offset [OF lay'(1), of ?mg "offsets_without_border S ! k" k] lay'(3,5) mw off [OF that]
    by simp
  have d: "row_ptr (rows_at dst 0 (int ?mg)) = row_address TYPE('d) (row_ptr dst) (?mg * ch)"
    using rows_at_column [OF _ lay'(2), of ?mg] lay'(4) lay'(6) [of 0] by (simp add: row_address_def)
  have eq: "tap_value f S (\<lambda>k. row_ptr (rows_at (rows_at buf 0 (int ?mg)) 0 (offsets_without_border S ! k)))
      = tap_value f S ?P" for f :: "'b word list \<Rightarrow> 'd word"
    unfolding tap_value_def by (intro ext arg_cong [of _ _ f] map_cong refl) (simp add: P)
  have k_bound: "k * ch + ?w * ch \<le> w * ch" if "k < S" for k
  proof -
    have "k + ?w \<le> w" using that w(2) filter_size_odd [OF size] by linarith
    then show ?thesis using mult_le_mono1 [of "k + ?w" w ch] by (simp add: add_mult_distrib)
  qed
  have d_bound: "?mg * ch + ?w * ch \<le> w * ch"
    using size by (intro k_bound) auto
  have apart: "taps_apart TYPE('b) S ?P TYPE('d) (row_address TYPE('d) (row_ptr dst) (?mg * ch)) (?w * ch)"
    by (rule buffer_taps_apart [OF lay'(7) k_bound d_bound])
  then show "reads_apart ?g (tap_bytes TYPE('b) S ?P) (row_address TYPE('d) (row_ptr dst) (?mg * ch)) (?w * ch)"
    by (rule tap_reads_apart)
  { fix m :: mem
    assume agree: "\<And>a. a \<in> row_bytes TYPE('b) (row_ptr buf) (w * ch) \<Longrightarrow> m a = m0 a"
    have inside: "k * ch + i < w * ch" if "k < S" "i < ?w * ch" for k i
      using k_bound [OF that(1)] that(2) by linarith
    have buf: "buffer_value (row_ptr buf) m (k * ch + i) = (buffer_value (row_ptr buf) m0 (k * ch + i) :: 'b word)"
      if "k < S" "i < ?w * ch" for k i
      by (rule buffer_value_agree [OF agree inside [OF that]])
    have "buffer_ok (load_elem (row_address TYPE('b) (?P k) i) m)" if "k < S" "i < ?w * ch" for k i
      using ok [OF inside [OF that]] buf [OF that]
      by (simp add: buffer_value_def row_address_def add_mult_distrib add.assoc)
    then show "process_horizontal S flt ?w (rows_at buf 0 (int ?mg)) (rows_at dst 0 (int ?mg))
          (offsets_without_border S) m
        = fold (store_row ?g (row_address TYPE('d) (row_ptr dst) (?mg * ch))) [0..<?w * ch] m"
      using process_horizontal_row [of "rows_at buf 0 (int ?mg)" "rows_at dst 0 (int ?mg)" "?w * ch" ?w
          "offsets_without_border S" m] lay'(1-3) apart
      by (simp add: eq d P taps_apart_def)
    fix i
    assume i: "i < ?w * ch"
    then have ch: "0 < ch" by (cases ch) simp_all
    have div: "(?mg * ch + i) div ch = ?mg + i div ch" "(?mg * ch + i) mod ch = i mod ch"
      using ch by simp_all
    have x: "i div ch < ?w" using i ch by (simp add: div_less_iff_less_mult)
    have coord: "tap_coordinate S info (?mg + i div ch) k = k + i div ch" if "k < S" for k
    proof -
      have "?mg \<le> ?mg + i div ch" "?mg + i div ch + ?mg < fb_length info" using x w by linarith+
      from without_border_coordinate [OF size this that] off [OF that] show ?thesis by simp
    qed
    have split: "(k + i div ch) * ch + i mod ch = k * ch + i" for k
      by (simp add: add_mult_distrib)
    have "?g i m = lane (map (\<lambda>k. buffer_value (row_ptr buf) m0 (k * ch + i)) [0..<S])"
      unfolding tap_value_buffer using i by (intro arg_cong [of _ _ lane] map_cong refl) (simp add: buf)
    also have "\<dots> = horizontal_scalar_path flt (map (\<lambda>k. buffer_value (row_ptr buf) m0 (k * ch + i)) [0..<S])"
      using ok inside i by (intro lane_scalar) auto
    also have "\<dots> = row_value (horizontal_scalar_path flt) S info ch (buffer_value (row_ptr buf) m0) (?mg * ch + i)"
      unfolding row_value_def div
      by (intro arg_cong [of _ _ "horizontal_scalar_path flt"] map_cong refl) (simp add: coord split)
    finally show "?g i m
      = row_value (horizontal_scalar_path flt) S info ch (buffer_value (row_ptr buf) m0) (?mg * ch + i)" .
  }
qed (use types in \<open>auto simp: element_type_def\<close>)

lemma horizontal_pass_fills:
  assumes lay: "row_layout TYPE('b) TYPE('d) w ch buf dst" and w: "w = fb_length info" "S - 1 \<le> w" "w \<le> size_max"
    and ok: "\<And>e. e < w * ch \<Longrightarrow> buffer_ok (buffer_value (row_ptr buf) m0 e)"
  shows "fills (row_bytes TYPE('b) (row_ptr buf) (w * ch)) m0
    (row_value (horizontal_scalar_path flt) S info ch (buffer_value (row_ptr buf) m0)) (row_ptr dst) 0 (w * ch)
    (workspace_process_horizontal S flt w buf dst info)"
proof -
  let ?mg = "S div 2"
  let ?fills = "fills (row_bytes TYPE('b) (row_ptr buf) (w * ch)) m0
    (row_value (horizontal_scalar_path flt) S info ch (buffer_value (row_ptr buf) m0)) (row_ptr dst)"
  have S: "S = 2 * ?mg + 1" by (rule filter_size_odd [OF size])
  with w(2) have mw: "2 * ?mg \<le> w" by simp
  have apart: "row_bytes TYPE('b) (row_ptr buf) (w * ch)
      \<inter> row_bytes TYPE('d) (row_address TYPE('d) (row_ptr dst) p) n = {}" if "p + n \<le> w * ch" for p n
    using row_layoutD(7) [OF lay] segment_subset [of 0 p n "w * ch" "row_ptr dst", where 'd = 'd] that
    by (simp add: row_address_def) blast
  have wraps: "size_wrap (int w - int (2 * ?mg)) = w - 2 * ?mg"
    using mw w(3) size_wrap_id [of "w - 2 * ?mg"] by (simp add: of_nat_diff)
  have wraps_right: "size_wrap (int w - int ?mg + int h) = w - ?mg + h" if "h < ?mg" for h
  proof -
    have "int w - int ?mg + int h = int (w - ?mg + h)" using mw by (simp add: of_nat_diff)
    then show ?thesis using that mw w(3) by (simp only:) (intro size_wrap_id, linarith)
  qed
  let ?left = "\<lambda>h. process_horizontal_borders S flt (rows_at buf 0 (int h)) (rows_at dst 0 (int h))
      (offsets_with_left_border S info h)"
  let ?mid = "process_horizontal S flt (w - 2 * ?mg) (rows_at buf 0 (int ?mg)) (rows_at dst 0 (int ?mg))
      (offsets_without_border S)"
  let ?right = "\<lambda>h. process_horizontal_borders S flt (rows_at buf 0 (int (w - ?mg + h)))
      (rows_at dst 0 (int (w - ?mg + h))) (offsets_with_right_border S info (w - ?mg + h))"
  have "?fills (0 + h * ch) ch (?left h)" if "h < ?mg" for h
    using border_column_fills [OF lay _ w(1), of h "offsets_with_left_border S info h"]
      left_border_coordinate [OF size, of info h] that mw w by simp
  moreover have "?mg * ch \<le> w * ch" using mw by simp
  ultimately have left: "?fills 0 (?mg * ch) (fold ?left [0..<?mg])"
    using apart [of 0 "?mg * ch"] by (intro fills_fold) simp_all
  have len1: "?mg * ch + (w - 2 * ?mg) * ch = (w - ?mg) * ch" "(w - ?mg) * ch + ?mg * ch = w * ch"
    using mw by (simp_all flip: add_mult_distrib)
  have mid: "?fills (0 + ?mg * ch) ((w - 2 * ?mg) * ch) ?mid"
    using middle_fills [OF lay w(1) mw ok] by simp
  have column: "?fills (x * ch) ch (process_horizontal_borders S flt (rows_at buf 0 (int x)) (rows_at dst 0 (int x))
      (offsets_with_right_border S info x))" if "w - ?mg \<le> x" "x < w" for x
    using border_column_fills [OF lay that(2) w(1)] right_border_coordinate [OF size, of info x] that w by simp
  have "?fills ((w - ?mg) * ch + h * ch) ch (?right h)" if "h < ?mg" for h
    unfolding add_mult_distrib [symmetric] by (rule column) (use that mw in auto)
  then have right: "?fills (0 + (w - ?mg) * ch) (?mg * ch) (fold ?right [0..<?mg])"
    using apart [of "(w - ?mg) * ch" "?mg * ch"] len1(2) by (intro fills_fold) simp_all
  have le: "0 + ?mg * ch \<le> w * ch" "0 + (w - ?mg) * ch \<le> w * ch" using mw by simp_all
  have "?fills 0 ((w - ?mg) * ch) (\<lambda>m. ?mid (fold ?left [0..<?mg] m))"
    using fills_comp [OF left mid apart [OF le(1)]] by (simp only: len1)
  from fills_comp [OF this right apart [OF le(2)]]
  have all: "?fills 0 (w * ch) (\<lambda>m. fold ?right [0..<?mg] (?mid (fold ?left [0..<?mg] m)))"
    by (simp only: len1)
  have "workspace_process_horizontal S flt w buf dst info
      = (\<lambda>m. fold ?right [0..<?mg] (?mid (fold ?left [0..<?mg] m)))"
    by (rule ext, unfold workspace_process_horizontal_def Let_def margin wraps, rule fold_cong)
      (simp_all add: wraps_right)
  with all show ?thesis by simp
qed

end

end
