(* ===== verification/Separable_Image.thy ===== *)
theory Separable_Image
  imports Separable_Rows
begin

text \<open>
  A whole image through the separable workspace: every destination element is the horizontal filter
  of the vertical filters of the source elements its border type assigns, and outside of the rows it
  was asked for only the workspace buffer changes.
\<close>

section \<open>The image of the filter\<close>

definition stride_bytes :: "nat \<Rightarrow> Rows \<Rightarrow> nat set" where
  "stride_bytes h r = {row_ptr r..<row_ptr r + h * row_stride r}"

definition channel_layout :: "'a::len itself \<Rightarrow> nat \<Rightarrow> nat \<Rightarrow> nat \<Rightarrow> Rows \<Rightarrow> bool" where
  "channel_layout t w h ch r \<longleftrightarrow> row_sizeof r = sizeof TYPE('a) \<and> row_channels r = ch
     \<and> w * ch * sizeof TYPE('a) \<le> row_stride r \<and> row_ptr r + h * row_stride r \<le> size_max"

text \<open>Element \<open>e\<close> (a channel of a pixel) of row \<open>y\<close>.\<close>

definition image_element :: "'a::len itself \<Rightarrow> Rows \<Rightarrow> nat \<Rightarrow> nat \<Rightarrow> nat" where
  "image_element t r y e = row_address TYPE('a) (row_ptr r + y * row_stride r) e"

definition separated_element ::
    "nat \<Rightarrow> FixedBorderType \<Rightarrow> nat \<Rightarrow> nat \<Rightarrow> nat \<Rightarrow> ('a::len, 'b::len, 'd) word_kernel \<Rightarrow> Rows \<Rightarrow> nat \<Rightarrow> nat \<Rightarrow>
     mem \<Rightarrow> 'd word" where
  "separated_element S bt w h ch flt src y e m =
     row_value (horizontal_scalar_path flt) S \<lparr> fb_length = w, fb_border_type = bt \<rparr> ch
       (\<lambda>e. vertical_scalar_path flt (map (\<lambda>k. load_elem (image_element TYPE('a) src
          (tap_coordinate S \<lparr> fb_length = h, fb_border_type = bt \<rparr> y k) e) m) [0..<S])) e"

definition filter_layout ::
    "'a::len itself \<Rightarrow> 'b::len itself \<Rightarrow> 'd::len itself \<Rightarrow> nat \<Rightarrow> nat \<Rightarrow> nat \<Rightarrow> Rows \<Rightarrow> Rows \<Rightarrow> SeparableFilterWorkspace \<Rightarrow> bool"
where
  "filter_layout ta tb td w h ch src dst ws \<longleftrightarrow>
     channel_layout TYPE('a) w h ch src \<and> channel_layout TYPE('d) w h ch dst
     \<and> ws_rect ws = \<lparr> rectangle_width = w, rectangle_height = h \<rparr> \<and> ws_channels ws = ch
     \<and> row_address TYPE('b) (ws_buffer ws) (w * ch) \<le> size_max
     \<and> row_bytes TYPE('b) (ws_buffer ws) (w * ch) \<inter> stride_bytes h src = {}
     \<and> row_bytes TYPE('b) (ws_buffer ws) (w * ch) \<inter> stride_bytes h dst = {}
     \<and> stride_bytes h src \<inter> stride_bytes h dst = {}"

lemma filter_layoutD:
  assumes "filter_layout TYPE('a::len) TYPE('b::len) TYPE('d::len) w h ch src dst ws"
  shows "channel_layout TYPE('a) w h ch src" "channel_layout TYPE('d) w h ch dst"
    "ws_rect ws = \<lparr> rectangle_width = w, rectangle_height = h \<rparr>" "ws_channels ws = ch"
    "row_address TYPE('b) (ws_buffer ws) (w * ch) \<le> size_max"
    "row_bytes TYPE('b) (ws_buffer ws) (w * ch) \<inter> stride_bytes h src = {}"
    "row_bytes TYPE('b) (ws_buffer ws) (w * ch) \<inter> stride_bytes h dst = {}"
    "stride_bytes h src \<inter> stride_bytes h dst = {}"
  using assms by (simp_all add: filter_layout_def)

lemma channel_layoutD:
  assumes "channel_layout TYPE('a::len) w h ch r"
  shows "row_sizeof r = sizeof TYPE('a)" "row_channels r = ch"
    "w * ch * sizeof TYPE('a) \<le> row_stride r" "row_ptr r + h * row_stride r \<le> size_max"
  using assms by (simp_all add: channel_layout_def)

lemma row_in_bytes:
  assumes "channel_layout TYPE('a::len) w h ch r" and "y < h"
  shows "row_bytes TYPE('a) (row_ptr r + y * row_stride r) (w * ch) \<subseteq> stride_bytes h r"
  using row_in_image [OF assms(2) channel_layoutD(3) [OF assms(1)], of "row_ptr r"]
  by (auto simp: row_bytes_def stride_bytes_def)

lemma row_start_bound:
  assumes "channel_layout TYPE('a::len) w h ch r" and "y < h"
  shows "row_ptr r + y * row_stride r \<le> size_max"
    "row_address TYPE('a) (row_ptr r + y * row_stride r) (w * ch) \<le> size_max"
  using row_in_image [OF assms(2) channel_layoutD(3) [OF assms(1)], of "row_ptr r"] channel_layoutD(4) [OF assms(1)]
  by (simp_all add: row_address_def)

lemma rows_of_image_apart:
  assumes "channel_layout TYPE('a::len) w h ch r" and "y \<noteq> y'"
  shows "row_bytes TYPE('a) (row_ptr r + y * row_stride r) (w * ch)
    \<inter> row_bytes TYPE('a) (row_ptr r + y' * row_stride r) (w * ch) = {}"
  using rows_disjoint [OF channel_layoutD(3) [OF assms(1)] assms(2), of "row_ptr r"]
  by (simp add: row_bytes_def)

text \<open>The filtered element depends on the source image only.\<close>

lemma separated_element_cong:
  fixes flt :: "('a::len, 'b::len, 'd::len) word_kernel"
  assumes src: "channel_layout TYPE('a) w h ch src" and "0 < w" "0 < h" and e: "e < w * ch"
    and agree: "\<And>a. a \<in> stride_bytes h src \<Longrightarrow> m a = m' a"
  shows "separated_element S bt w h ch flt src y e m = separated_element S bt w h ch flt src y e m'"
  unfolding separated_element_def row_value_def
proof (intro arg_cong [of _ _ "horizontal_scalar_path flt"] arg_cong [of _ _ "vertical_scalar_path flt"]
    map_cong refl load_elem_cong ballI)
  fix j k a
  let ?y = "tap_coordinate S \<lparr> fb_length = h, fb_border_type = bt \<rparr> y k"
  let ?e = "tap_coordinate S \<lparr> fb_length = w, fb_border_type = bt \<rparr> (e div ch) j * ch + e mod ch"
  assume a: "a \<in> elem_bytes TYPE('a) (image_element TYPE('a) src ?y ?e)"
  have "0 < ch" using e by (cases ch) simp_all
  then have "?e < w * ch"
    using \<open>0 < w\<close> by (intro element_in_row) (simp_all add: tap_coordinate_less [of "\<lparr> fb_length = w, fb_border_type = bt \<rparr>", simplified])
  moreover have "?y < h"
    using \<open>0 < h\<close> tap_coordinate_less [of "\<lparr> fb_length = h, fb_border_type = bt \<rparr>"] by simp
  ultimately show "m a = m' a"
    using a row_in_bytes [OF src, of ?y] row_element_bytes [of ?e "w * ch", where 'a = 'a]
    by (intro agree) (auto simp: image_element_def)
qed

context separable_filter
begin

definition image_row :: "SeparableFilterWorkspace \<Rightarrow> Rows \<Rightarrow> Rows \<Rightarrow> FixedBorderType \<Rightarrow> nat \<Rightarrow> mem \<Rightarrow> mem" where
  "image_row ws src dst bt y m =
     workspace_process_horizontal S flt (rectangle_width (ws_rect ws)) (buffer_rows TYPE('b) ws)
       (rows_at dst (int y) 0) \<lparr> fb_length = rectangle_width (ws_rect ws), fb_border_type = bt \<rparr>
       (process_vertical S flt (rectangle_width (ws_rect ws)) (rows_at src (int y) 0) (buffer_rows TYPE('b) ws)
         (offsets_with_border S \<lparr> fb_length = rectangle_height (ws_rect ws), fb_border_type = bt \<rparr> y) m)"

lemma workspace_process_rows:
  "workspace_process S ws y_begin y_end src dst bt flt m = fold (image_row ws src dst bt) [y_begin..<y_end] m"
  by (simp add: workspace_process_def image_row_def [abs_def] Let_def)

lemma image_row_result:
  assumes lay: "filter_layout TYPE('a) TYPE('b) TYPE('d) w h ch src dst ws"
    and dims: "S - 1 \<le> w" "S - 1 \<le> h" "w \<le> size_max" "h \<le> size_max" and y: "y < h"
  shows "e < w * ch \<Longrightarrow> load_elem (image_element TYPE('d) dst y e) (image_row ws src dst bt y m)
      = separated_element S bt w h ch flt src y e m"
    and "a \<notin> row_bytes TYPE('b) (ws_buffer ws) (w * ch) \<Longrightarrow>
      a \<notin> row_bytes TYPE('d) (row_ptr dst + y * row_stride dst) (w * ch) \<Longrightarrow>
      image_row ws src dst bt y m a = m a"
proof -
  note lay' = filter_layoutD [OF lay]
  note src = channel_layoutD [OF lay'(1)] and dst = channel_layoutD [OF lay'(2)]
  let ?buf = "buffer_rows TYPE('b) ws"
  let ?v = "\<lparr> fb_length = h, fb_border_type = bt \<rparr>" and ?h = "\<lparr> fb_length = w, fb_border_type = bt \<rparr>"
  let ?tap = "tap_coordinate S ?v y" and ?offs = "offsets_with_border S ?v y"
  let ?P = "\<lambda>k. row_ptr src + ?tap k * row_stride src"
  let ?dst = "rows_at dst (int y) 0"
  have buf: "row_ptr ?buf = ws_buffer ws" "row_sizeof ?buf = sizeof TYPE('b)" "row_channels ?buf = ch"
    using lay'(4) by (simp_all add: buffer_rows_def)
  have tap: "?tap k < h" for k using tap_coordinate_less [of ?v] y by simp
  have P: "row_ptr (rows_at (rows_at src (int y) 0) (?offs ! k) 0) = ?P k" if "k < S" for k
    using rows_at_row_offset [of y "?offs ! k" "?tap k" src] with_border_coordinate [OF size, of ?v y k]
      that dims y row_start_bound(1) [OF lay'(1) tap] by simp
  have eq: "tap_value f S (\<lambda>k. row_ptr (rows_at (rows_at src (int y) 0) (?offs ! k) 0)) = tap_value f S ?P"
    for f :: "'a word list \<Rightarrow> 'b word"
    unfolding tap_value_def by (intro ext arg_cong [of _ _ f] map_cong refl) (simp add: P)
  have src_apart: "row_bytes TYPE('a) (?P k) (w * ch) \<inter> row_bytes TYPE('b) (ws_buffer ws) (w * ch) = {}" for k
    using row_in_bytes [OF lay'(1) tap] lay'(6) by blast
  then have apart: "taps_apart TYPE('a) S ?P TYPE('b) (ws_buffer ws) (w * ch)"
    by (simp add: taps_apart_def)
  let ?g = "tap_value (vertical_scalar_path flt) S ?P"
  define m1 where "m1 = process_vertical S flt w (rows_at src (int y) 0) ?buf ?offs m"
  have m1: "m1 = fold (store_row ?g (ws_buffer ws)) [0..<w * ch] m"
    unfolding m1_def
    using process_vertical_row [of "rows_at src (int y) 0" ?buf "w * ch" w ?offs m] src(1,2) buf dims(1) apart
    by (simp add: eq P taps_apart_def)
  have vval: "buffer_value (ws_buffer ws) m1 e = ?g e m" if "e < w * ch" for e
    unfolding buffer_value_def m1 using types
    by (intro store_row_result [OF tap_reads_apart [OF apart]] that) (auto simp: element_type_def)
  have dptr: "row_ptr ?dst = row_ptr dst + y * row_stride dst"
    using rows_at_row [of dst "int y"] size_wrap_id [OF row_start_bound(1) [OF lay'(2) y]] by simp
  have row_lay: "row_layout TYPE('b) TYPE('d) w ch ?buf ?dst"
    using buf dst(1,2) lay'(5) row_start_bound(2) [OF lay'(2) y] row_in_bytes [OF lay'(2) y] lay'(7)
    by (auto simp: row_layout_def dptr)
  have ok: "buffer_ok (buffer_value (row_ptr ?buf) m1 e)" if "e < w * ch" for e
    unfolding buf vval [OF that] tap_value_def by (rule vertical_ok) simp
  have "fills (row_bytes TYPE('b) (row_ptr ?buf) (w * ch)) m1
    (row_value (horizontal_scalar_path flt) S ?h ch (buffer_value (row_ptr ?buf) m1)) (row_ptr ?dst) 0 (w * ch)
    (workspace_process_horizontal S flt w ?buf ?dst ?h)"
    using dims by (intro horizontal_pass_fills [OF row_lay] ok) simp_all
  then have "segment_post (row_value (horizontal_scalar_path flt) S ?h ch (buffer_value (row_ptr ?buf) m1))
    (row_ptr ?dst) 0 (w * ch) m1 (workspace_process_horizontal S flt w ?buf ?dst ?h m1)"
    by (rule fillsD) simp
  moreover have "workspace_process_horizontal S flt w ?buf ?dst ?h m1 = image_row ws src dst bt y m"
    by (simp add: image_row_def m1_def lay'(3))
  ultimately have post: "segment_post (row_value (horizontal_scalar_path flt) S ?h ch (buffer_value (ws_buffer ws) m1))
    (row_ptr dst + y * row_stride dst) 0 (w * ch) m1 (image_row ws src dst bt y m)"
    by (simp add: buf dptr)
  { assume e: "e < w * ch"
    then have ch: "0 < ch" "0 < w" by (cases ch; cases w; simp)+
    have "load_elem (image_element TYPE('d) dst y e) (image_row ws src dst bt y m)
      = row_value (horizontal_scalar_path flt) S ?h ch (buffer_value (ws_buffer ws) m1) e"
      unfolding image_element_def using e by (intro segment_inside [OF post]) simp_all
    also have "\<dots> = separated_element S bt w h ch flt src y e m"
      unfolding separated_element_def row_value_def image_element_def
    proof (intro arg_cong [of _ _ "horizontal_scalar_path flt"] map_cong refl)
      fix j
      let ?e = "tap_coordinate S ?h (e div ch) j * ch + e mod ch"
      have "?e < w * ch" using ch tap_coordinate_less [of ?h] by (intro element_in_row) simp_all
      then show "buffer_value (ws_buffer ws) m1 ?e
          = vertical_scalar_path flt (map (\<lambda>k. load_elem (row_address TYPE('a) (?P k) ?e) m) [0..<S])"
        by (simp add: vval tap_value_def)
    qed
    finally show "load_elem (image_element TYPE('d) dst y e) (image_row ws src dst bt y m)
      = separated_element S bt w h ch flt src y e m" .
  }
  assume "a \<notin> row_bytes TYPE('b) (ws_buffer ws) (w * ch)"
    "a \<notin> row_bytes TYPE('d) (row_ptr dst + y * row_stride dst) (w * ch)"
  then show "image_row ws src dst bt y m a = m a"
    using segment_outside [OF post, of a] store_row_outside [of a "ws_buffer ws" "w * ch" ?g m]
    by (simp add: m1 row_address_def)
qed

text \<open>
  All rows: the later rows read a source that the earlier ones did not touch, and leave their rows
  alone. The state after rows \<open>y_begin\<close> to \<open>n\<close>:
\<close>

definition rows_done ::
    "nat \<Rightarrow> nat \<Rightarrow> nat \<Rightarrow> Rows \<Rightarrow> Rows \<Rightarrow> SeparableFilterWorkspace \<Rightarrow> FixedBorderType \<Rightarrow> nat \<Rightarrow> nat \<Rightarrow>
     mem \<Rightarrow> mem \<Rightarrow> bool" where
  "rows_done w h ch src dst ws bt y_begin n m m' \<longleftrightarrow>
     (\<forall>y e. y_begin \<le> y \<and> y < n \<and> e < w * ch \<longrightarrow>
        load_elem (image_element TYPE('d) dst y e) m' = separated_element S bt w h ch flt src y e m)
     \<and> (\<forall>a. a \<notin> row_bytes TYPE('b) (ws_buffer ws) (w * ch) \<and>
        (\<forall>y. y_begin \<le> y \<and> y < n \<longrightarrow>
          a \<notin> row_bytes TYPE('d) (row_ptr dst + y * row_stride dst) (w * ch)) \<longrightarrow> m' a = m a)"

lemma rows_done_step:
  assumes lay: "filter_layout TYPE('a) TYPE('b) TYPE('d) w h ch src dst ws"
    and dims: "S - 1 \<le> w" "S - 1 \<le> h" "w \<le> size_max" "h \<le> size_max"
    and n: "n < h" "y_begin \<le> n" and m1: "rows_done w h ch src dst ws bt y_begin n m m1"
  shows "rows_done w h ch src dst ws bt y_begin (Suc n) m (image_row ws src dst bt n m1)"
  unfolding rows_done_def
proof (intro conjI allI impI)
  note lay' = filter_layoutD [OF lay]
  have held: "y_begin \<le> y \<Longrightarrow> y < n \<Longrightarrow> e < w * ch \<Longrightarrow>
      load_elem (image_element TYPE('d) dst y e) m1 = separated_element S bt w h ch flt src y e m" for y e
    using m1 by (simp add: rows_done_def)
  have others: "a \<notin> row_bytes TYPE('b) (ws_buffer ws) (w * ch) \<Longrightarrow>
      \<forall>y. y_begin \<le> y \<and> y < n \<longrightarrow>
        a \<notin> row_bytes TYPE('d) (row_ptr dst + y * row_stride dst) (w * ch) \<Longrightarrow> m1 a = m a" for a
    using m1 by (simp add: rows_done_def)
  have src_same: "m1 a = m a" if "a \<in> stride_bytes h src" for a
  proof (rule others)
    show "a \<notin> row_bytes TYPE('b) (ws_buffer ws) (w * ch)" using that lay'(6) by blast
    show "\<forall>y. y_begin \<le> y \<and> y < n \<longrightarrow>
        a \<notin> row_bytes TYPE('d) (row_ptr dst + y * row_stride dst) (w * ch)"
      using that lay'(8) row_in_bytes [OF lay'(2)] n(1) by (meson disjoint_iff less_trans subsetD)
  qed
  { fix y e
    assume y: "y_begin \<le> y \<and> y < Suc n \<and> e < w * ch"
    then have e: "e < w * ch" by simp
    then have pos: "0 < w" "0 < h" using n by (cases w; simp)+
    show "load_elem (image_element TYPE('d) dst y e) (image_row ws src dst bt n m1)
      = separated_element S bt w h ch flt src y e m"
    proof (cases "y = n")
      case True
      have "load_elem (image_element TYPE('d) dst y e) (image_row ws src dst bt n m1)
        = separated_element S bt w h ch flt src y e m1"
        unfolding True by (rule image_row_result(1) [OF lay dims n(1) e])
      also have "\<dots> = separated_element S bt w h ch flt src y e m"
        by (rule separated_element_cong [OF lay'(1) pos e src_same])
      finally show ?thesis .
    next
      case False
      with y have y': "y_begin \<le> y" "y < n" by simp_all
      have "load_elem (image_element TYPE('d) dst y e) (image_row ws src dst bt n m1)
          = (load_elem (image_element TYPE('d) dst y e) m1 :: 'd word)"
      proof (rule load_elem_cong, intro ballI)
        fix a
        assume "a \<in> elem_bytes TYPE('d) (image_element TYPE('d) dst y e)"
        then have a: "a \<in> row_bytes TYPE('d) (row_ptr dst + y * row_stride dst) (w * ch)"
          using row_element_bytes [OF e, where 'a = 'd] unfolding image_element_def by blast
        have "a \<in> stride_bytes h dst" using a row_in_bytes [OF lay'(2), of y] y'(2) n(1) by auto
        then show "image_row ws src dst bt n m1 a = m1 a"
          using a lay'(7) rows_of_image_apart [OF lay'(2) False]
          by (intro image_row_result(2) [OF lay dims n(1)]) auto
      qed
      then show ?thesis using held [OF y' e] by simp
    qed
  }
  fix a
  assume a: "a \<notin> row_bytes TYPE('b) (ws_buffer ws) (w * ch) \<and>
      (\<forall>y. y_begin \<le> y \<and> y < Suc n \<longrightarrow>
        a \<notin> row_bytes TYPE('d) (row_ptr dst + y * row_stride dst) (w * ch))"
  then have "m1 a = m a" by (intro others) auto
  moreover have "image_row ws src dst bt n m1 a = m1 a"
    using a n(2) by (intro image_row_result(2) [OF lay dims n(1)]) auto
  ultimately show "image_row ws src dst bt n m1 a = m a" by simp
qed

lemma workspace_process_image:
  assumes lay: "filter_layout TYPE('a) TYPE('b) TYPE('d) w h ch src dst ws"
    and dims: "S - 1 \<le> w" "S - 1 \<le> h" "w \<le> size_max" "h \<le> size_max"
    and ys: "y_begin \<le> y_end" "y_end \<le> h"
  shows "\<And>y e. y_begin \<le> y \<Longrightarrow> y < y_end \<Longrightarrow> e < w * ch \<Longrightarrow>
      load_elem (image_element TYPE('d) dst y e) (workspace_process S ws y_begin y_end src dst bt flt m)
      = separated_element S bt w h ch flt src y e m"
    and "\<And>a. a \<notin> row_bytes TYPE('b) (ws_buffer ws) (w * ch) \<Longrightarrow>
      (\<And>y. y_begin \<le> y \<Longrightarrow> y < y_end \<Longrightarrow>
        a \<notin> row_bytes TYPE('d) (row_ptr dst + y * row_stride dst) (w * ch)) \<Longrightarrow>
      workspace_process S ws y_begin y_end src dst bt flt m a = m a"
proof -
  have "rows_done w h ch src dst ws bt y_begin y_end m (fold (image_row ws src dst bt) [y_begin..<y_end] m)"
    using ys
  proof (induction y_end rule: dec_induct)
    case base
    show ?case by (auto simp: rows_done_def)
  next
    case (step n)
    then show ?case using rows_done_step [OF lay dims, of n y_begin bt m] by simp
  qed
  then show "\<And>y e. y_begin \<le> y \<Longrightarrow> y < y_end \<Longrightarrow> e < w * ch \<Longrightarrow>
      load_elem (image_element TYPE('d) dst y e) (workspace_process S ws y_begin y_end src dst bt flt m)
      = separated_element S bt w h ch flt src y e m"
    and "\<And>a. a \<notin> row_bytes TYPE('b) (ws_buffer ws) (w * ch) \<Longrightarrow>
      (\<And>y. y_begin \<le> y \<Longrightarrow> y < y_end \<Longrightarrow>
        a \<notin> row_bytes TYPE('d) (row_ptr dst + y * row_stride dst) (w * ch)) \<Longrightarrow>
      workspace_process S ws y_begin y_end src dst bt flt m a = m a"
    unfolding rows_done_def workspace_process_rows by blast+
qed

end

end
