(* ===== verification/Gaussian_Kernels.thy ===== *)
theory Gaussian_Kernels
  imports Separable_Image Saturating_Lanes
begin

text \<open>
  The Gaussian filters of \<^verbatim>\<open>kleidicv/src/filters/gaussian_blur_fixed_neon.cpp\<close>: the
  four binomial kernels and the kernel given by its coefficients, each with its vector and its scalar
  paths. The vector paths are shown to work lane by lane, so that every kernel meets the contract of
  the separable filter drivers, and the scalar paths to compute rounded weighted sums.
\<close>

unbundle bit_operations_syntax

section \<open>Widening and narrowing instructions\<close>

text \<open>
  Unsigned lanes. A widening instruction extends its operands before it adds or multiplies;
  \<open>vrshrn_n_u\<close> rounds without losing the carry and keeps the low half of the result.
\<close>

definition vaddl_u :: "'a::len word list \<Rightarrow> 'a word list \<Rightarrow> 'w::len word list" where
  "vaddl_u = map2 (\<lambda>a b. ucast a + ucast b)"

definition vmovl_u :: "'a::len word list \<Rightarrow> 'w::len word list" where
  "vmovl_u = map ucast"

definition vshll_n_u :: "nat \<Rightarrow> 'a::len word list \<Rightarrow> 'w::len word list" where
  "vshll_n_u n = map (\<lambda>a. push_bit n (ucast a))"

definition vshlq_n_u :: "nat \<Rightarrow> 'a::len word list \<Rightarrow> 'a word list" where
  "vshlq_n_u n = map (push_bit n)"

definition vaddq_u :: "'a::len word list \<Rightarrow> 'a word list \<Rightarrow> 'a word list" where
  "vaddq_u = map2 (+)"

definition vmulq_u :: "'a::len word list \<Rightarrow> 'a word list \<Rightarrow> 'a word list" where
  "vmulq_u = map2 (*)"

definition vmlaq_u :: "'a::len word list \<Rightarrow> 'a word list \<Rightarrow> 'a word list \<Rightarrow> 'a word list" where
  "vmlaq_u acc a b = map2 (+) acc (vmulq_u a b)"

definition vmlal_u :: "'w::len word list \<Rightarrow> 'a::len word list \<Rightarrow> 'a word list \<Rightarrow> 'w word list" where
  "vmlal_u acc a b = map2 (+) acc (map2 (\<lambda>a b. ucast a * ucast b) a b)"

definition vrshrn_n_u :: "nat \<Rightarrow> 'w::len word list \<Rightarrow> 'a::len word list" where
  "vrshrn_n_u n = map (\<lambda>a. word_of_int ((uint a + 2 ^ (n - 1)) div 2 ^ n))"

definition vmovn_u :: "'w::len word list \<Rightarrow> 'a::len word list" where
  "vmovn_u = map ucast"

text \<open>
  \<^verbatim>\<open>vreinterpretq_u8_u16\<close> shows the bytes of the lanes, low byte first;
  \<^verbatim>\<open>vuzp2q_u8\<close> takes the odd lanes of two vectors.
\<close>

definition vreinterpretq_u8_u16 :: "u16 list \<Rightarrow> u8 list" where
  "vreinterpretq_u8_u16 v = concat (map (\<lambda>w. [ucast w, ucast (drop_bit 8 w)]) v)"

definition vuzp2q_u8 :: "u8 list \<Rightarrow> u8 list \<Rightarrow> u8 list" where
  "vuzp2q_u8 v w = map (\<lambda>i. (v @ w) ! (2 * i + 1)) [0..<length v]"

section \<open>The binomial kernels\<close>

text \<open>
  The scalar paths add \<^verbatim>\<open>int\<close> values. \<^verbatim>\<open>rounding_shift_right\<close> on an
  \<^verbatim>\<open>int\<close>, or on a narrower type, which C++ promotes to it:
\<close>

definition rounding_shift_right_int :: "int \<Rightarrow> nat \<Rightarrow> int" where
  "rounding_shift_right_int value shift = drop_bit shift (value + push_bit (shift - 1) 1)"

definition gaussian_3_vertical_vector :: "u8 list list \<Rightarrow> u16 list" where
  "gaussian_3_vertical_vector src =
     (let acc_0_2_l = vaddl_u (vget_low_elems (src ! 0)) (vget_low_elems (src ! 2));
          acc_0_2_h = vaddl_u (vget_high_elems (src ! 0)) (vget_high_elems (src ! 2));
          acc_1_l = vshll_n_u 1 (vget_low_elems (src ! 1));
          acc_1_h = vshll_n_u 1 (vget_high_elems (src ! 1))
      in vaddq_u acc_0_2_l acc_1_l @ vaddq_u acc_0_2_h acc_1_h)"

definition gaussian_3_vertical_scalar :: "u8 list \<Rightarrow> u16" where
  "gaussian_3_vertical_scalar src =
     word_of_int (uint (src ! 0) + 2 * uint (src ! 1) + uint (src ! 2))"

definition gaussian_3_horizontal_vector :: "u16 list list \<Rightarrow> u8 list" where
  "gaussian_3_horizontal_vector src =
     (let acc_wide = vaddq_u (src ! 0) (src ! 2);
          acc_wide = vaddq_u acc_wide (vshlq_n_u 1 (src ! 1))
      in vrshrn_n_u 4 acc_wide)"

definition gaussian_3_horizontal_scalar :: "u16 list \<Rightarrow> u8" where
  "gaussian_3_horizontal_scalar src =
     (let acc = uint (src ! 0) + 2 * uint (src ! 1) + uint (src ! 2)
      in word_of_int (rounding_shift_right_int acc 4))"

definition gaussian_5_vertical_vector :: "u8 list list \<Rightarrow> u16 list" where
  "gaussian_5_vertical_vector src =
     (let acc_0_4_l = vaddl_u (vget_low_elems (src ! 0)) (vget_low_elems (src ! 4));
          acc_0_4_h = vaddl_u (vget_high_elems (src ! 0)) (vget_high_elems (src ! 4));
          acc_1_3_l = vaddl_u (vget_low_elems (src ! 1)) (vget_low_elems (src ! 3));
          acc_1_3_h = vaddl_u (vget_high_elems (src ! 1)) (vget_high_elems (src ! 3));
          acc_l = vmlal_u acc_0_4_l (vget_low_elems (src ! 2)) (replicate 8 6);
          acc_h = vmlal_u acc_0_4_h (vget_high_elems (src ! 2)) (replicate 8 6);
          acc_l = vmlaq_u acc_l acc_1_3_l (replicate 8 4);
          acc_h = vmlaq_u acc_h acc_1_3_h (replicate 8 4)
      in acc_l @ acc_h)"

definition gaussian_5_vertical_scalar :: "u8 list \<Rightarrow> u16" where
  "gaussian_5_vertical_scalar src =
     word_of_int (uint (src ! 0) + uint (src ! 4) + 4 * (uint (src ! 1) + uint (src ! 3)) + 6 * uint (src ! 2))"

definition gaussian_5_horizontal_vector :: "u16 list list \<Rightarrow> u8 list" where
  "gaussian_5_horizontal_vector src =
     (let acc_0_4 = vaddq_u (src ! 0) (src ! 4);
          acc_1_3 = vaddq_u (src ! 1) (src ! 3);
          acc_u16 = vmlaq_u acc_0_4 (src ! 2) (replicate 8 6);
          acc_u16 = vmlaq_u acc_u16 acc_1_3 (replicate 8 4)
      in vrshrn_n_u 8 acc_u16)"

definition gaussian_5_horizontal_scalar :: "u16 list \<Rightarrow> u8" where
  "gaussian_5_horizontal_scalar src =
     (let acc = uint (src ! 0) + uint (src ! 4) + 4 * (uint (src ! 1) + uint (src ! 3)) + 6 * uint (src ! 2)
      in word_of_int (rounding_shift_right_int acc 8))"

definition gaussian_7_vertical_vector :: "u8 list list \<Rightarrow> u16 list" where
  "gaussian_7_vertical_vector src =
     (let acc_0_6_l = vaddl_u (vget_low_elems (src ! 0)) (vget_low_elems (src ! 6));
          acc_0_6_h = vaddl_u (vget_high_elems (src ! 0)) (vget_high_elems (src ! 6));
          acc_1_5_l = vaddl_u (vget_low_elems (src ! 1)) (vget_low_elems (src ! 5));
          acc_1_5_h = vaddl_u (vget_high_elems (src ! 1)) (vget_high_elems (src ! 5));
          acc_2_4_l = vaddl_u (vget_low_elems (src ! 2)) (vget_low_elems (src ! 4));
          acc_2_4_h = vaddl_u (vget_high_elems (src ! 2)) (vget_high_elems (src ! 4));
          acc_3_l = vmovl_u (vget_low_elems (src ! 3));
          acc_3_h = vmovl_u (vget_high_elems (src ! 3));
          acc_0_2_4_6_l = vmlaq_u acc_0_6_l acc_2_4_l (replicate 8 7);
          acc_0_2_4_6_h = vmlaq_u acc_0_6_h acc_2_4_h (replicate 8 7);
          acc_0_2_3_4_6_l = vmlaq_u acc_0_2_4_6_l acc_3_l (replicate 8 9);
          acc_0_2_3_4_6_h = vmlaq_u acc_0_2_4_6_h acc_3_h (replicate 8 9);
          acc_0_2_3_4_6_l = vshlq_n_u 1 acc_0_2_3_4_6_l;
          acc_0_2_3_4_6_h = vshlq_n_u 1 acc_0_2_3_4_6_h;
          acc_0_1_2_3_4_5_6_l = vmlaq_u acc_0_2_3_4_6_l acc_1_5_l (replicate 8 7);
          acc_0_1_2_3_4_5_6_h = vmlaq_u acc_0_2_3_4_6_h acc_1_5_h (replicate 8 7)
      in acc_0_1_2_3_4_5_6_l @ acc_0_1_2_3_4_5_6_h)"

definition gaussian_7_vertical_scalar :: "u8 list \<Rightarrow> u16" where
  "gaussian_7_vertical_scalar src =
     word_of_int (uint (src ! 0) * 2 + uint (src ! 1) * 7 + uint (src ! 2) * 14 + uint (src ! 3) * 18 +
       uint (src ! 4) * 14 + uint (src ! 5) * 7 + uint (src ! 6) * 2)"

definition gaussian_7_horizontal_vector :: "u16 list list \<Rightarrow> u8 list" where
  "gaussian_7_horizontal_vector src =
     (let acc_0_6_l = vaddl_u (vget_low_elems (src ! 0)) (vget_low_elems (src ! 6)) :: u32 list;
          acc_0_6_h = vaddl_u (vget_high_elems (src ! 0)) (vget_high_elems (src ! 6)) :: u32 list;
          acc_1_5_l = vaddl_u (vget_low_elems (src ! 1)) (vget_low_elems (src ! 5));
          acc_1_5_h = vaddl_u (vget_high_elems (src ! 1)) (vget_high_elems (src ! 5));
          acc_2_4 = vaddq_u (src ! 2) (src ! 4);
          acc_0_2_4_6_l = vmlal_u acc_0_6_l (vget_low_elems acc_2_4) (vget_low_elems (replicate 8 7));
          acc_0_2_4_6_h = vmlal_u acc_0_6_h (vget_high_elems acc_2_4) (vget_high_elems (replicate 8 7));
          acc_0_2_3_4_6_l = vmlal_u acc_0_2_4_6_l (vget_low_elems (src ! 3)) (vget_low_elems (replicate 8 9));
          acc_0_2_3_4_6_h = vmlal_u acc_0_2_4_6_h (vget_high_elems (src ! 3)) (vget_high_elems (replicate 8 9));
          acc_0_2_3_4_6_l = vshlq_n_u 1 acc_0_2_3_4_6_l;
          acc_0_2_3_4_6_h = vshlq_n_u 1 acc_0_2_3_4_6_h;
          acc_0_1_2_3_4_5_6_l = vmlaq_u acc_0_2_3_4_6_l acc_1_5_l (replicate 4 7);
          acc_0_1_2_3_4_5_6_h = vmlaq_u acc_0_2_3_4_6_h acc_1_5_h (replicate 4 7);
          acc_0_1_2_3_4_5_6_u16_l = vrshrn_n_u 12 acc_0_1_2_3_4_5_6_l :: u16 list;
          acc_0_1_2_3_4_5_6_u16_h = vrshrn_n_u 12 acc_0_1_2_3_4_5_6_h
      in vmovn_u (acc_0_1_2_3_4_5_6_u16_l @ acc_0_1_2_3_4_5_6_u16_h))"

definition gaussian_7_horizontal_scalar :: "u16 list \<Rightarrow> u8" where
  "gaussian_7_horizontal_scalar src =
     (let acc = word_of_int (uint (src ! 0) * 2 + uint (src ! 1) * 7 + uint (src ! 2) * 14 +
            uint (src ! 3) * 18 + uint (src ! 4) * 14 + uint (src ! 5) * 7 + uint (src ! 6) * 2) :: u32
      in ucast (rounding_shift_right acc 12))"

definition gaussian_9_vertical_vector :: "u8 list list \<Rightarrow> u16 list" where
  "gaussian_9_vertical_vector src =
     (let acc_0_8_l = vaddl_u (vget_low_elems (src ! 0)) (vget_low_elems (src ! 8));
          acc_0_8_h = vaddl_u (vget_high_elems (src ! 0)) (vget_high_elems (src ! 8));
          acc_1_7_l = vaddl_u (vget_low_elems (src ! 1)) (vget_low_elems (src ! 7));
          acc_1_7_h = vaddl_u (vget_high_elems (src ! 1)) (vget_high_elems (src ! 7));
          acc_2_6_l = vaddl_u (vget_low_elems (src ! 2)) (vget_low_elems (src ! 6));
          acc_2_6_h = vaddl_u (vget_high_elems (src ! 2)) (vget_high_elems (src ! 6));
          acc_3_5_l = vaddl_u (vget_low_elems (src ! 3)) (vget_low_elems (src ! 5));
          acc_3_5_h = vaddl_u (vget_high_elems (src ! 3)) (vget_high_elems (src ! 5));
          acc_4_l = vmovl_u (vget_low_elems (src ! 4));
          acc_4_h = vmovl_u (vget_high_elems (src ! 4));
          acc_l_even = vshlq_n_u 2 acc_0_8_l;
          acc_h_even = vshlq_n_u 2 acc_0_8_h;
          acc_l_odd = vmulq_u acc_1_7_l (replicate 8 13);
          acc_h_odd = vmulq_u acc_1_7_h (replicate 8 13);
          acc_l_even = vmlaq_u acc_l_even acc_2_6_l (replicate 8 30);
          acc_h_even = vmlaq_u acc_h_even acc_2_6_h (replicate 8 30);
          acc_l_odd = vmlaq_u acc_l_odd acc_3_5_l (replicate 8 51);
          acc_h_odd = vmlaq_u acc_h_odd acc_3_5_h (replicate 8 51);
          acc_l_even = vmlaq_u acc_l_even acc_4_l (replicate 8 60);
          acc_h_even = vmlaq_u acc_h_even acc_4_h (replicate 8 60);
          acc_l = vaddq_u acc_l_even acc_l_odd;
          acc_h = vaddq_u acc_h_even acc_h_odd
      in acc_l @ acc_h)"

definition gaussian_9_vertical_scalar :: "u8 list \<Rightarrow> u16" where
  "gaussian_9_vertical_scalar src =
     word_of_int (uint (src ! 0) * 4 + uint (src ! 1) * 13 + uint (src ! 2) * 30 + uint (src ! 3) * 51 +
       uint (src ! 4) * 60 + uint (src ! 5) * 51 + uint (src ! 6) * 30 + uint (src ! 7) * 13 +
       uint (src ! 8) * 4)"

definition gaussian_9_horizontal_vector :: "u16 list list \<Rightarrow> u8 list" where
  "gaussian_9_horizontal_vector src =
     (let acc_0_8_l = vaddl_u (vget_low_elems (src ! 0)) (vget_low_elems (src ! 8)) :: u32 list;
          acc_0_8_h = vaddl_u (vget_high_elems (src ! 0)) (vget_high_elems (src ! 8)) :: u32 list;
          acc_1_7_l = vaddl_u (vget_low_elems (src ! 1)) (vget_low_elems (src ! 7));
          acc_1_7_h = vaddl_u (vget_high_elems (src ! 1)) (vget_high_elems (src ! 7));
          acc_2_6_l = vaddl_u (vget_low_elems (src ! 2)) (vget_low_elems (src ! 6));
          acc_2_6_h = vaddl_u (vget_high_elems (src ! 2)) (vget_high_elems (src ! 6));
          acc_3_5_l = vaddl_u (vget_low_elems (src ! 3)) (vget_low_elems (src ! 5));
          acc_3_5_h = vaddl_u (vget_high_elems (src ! 3)) (vget_high_elems (src ! 5));
          acc_4_l = vmovl_u (vget_low_elems (src ! 4));
          acc_4_h = vmovl_u (vget_high_elems (src ! 4));
          acc_l_even = vshlq_n_u 2 acc_0_8_l;
          acc_h_even = vshlq_n_u 2 acc_0_8_h;
          acc_l_odd = vmulq_u acc_1_7_l (replicate 4 13);
          acc_h_odd = vmulq_u acc_1_7_h (replicate 4 13);
          acc_l_even = vmlaq_u acc_l_even acc_2_6_l (replicate 4 30);
          acc_h_even = vmlaq_u acc_h_even acc_2_6_h (replicate 4 30);
          acc_l_odd = vmlaq_u acc_l_odd acc_3_5_l (replicate 4 51);
          acc_h_odd = vmlaq_u acc_h_odd acc_3_5_h (replicate 4 51);
          acc_l_even = vmlaq_u acc_l_even acc_4_l (replicate 4 60);
          acc_h_even = vmlaq_u acc_h_even acc_4_h (replicate 4 60);
          acc_l = vaddq_u acc_l_even acc_l_odd;
          acc_h = vaddq_u acc_h_even acc_h_odd;
          acc_u16_l = vrshrn_n_u 16 acc_l :: u16 list;
          acc_u16_h = vrshrn_n_u 16 acc_h
      in vmovn_u (acc_u16_l @ acc_u16_h))"

definition gaussian_9_horizontal_scalar :: "u16 list \<Rightarrow> u8" where
  "gaussian_9_horizontal_scalar src =
     (let acc = word_of_int (uint (src ! 0) * 4 + uint (src ! 1) * 13 + uint (src ! 2) * 30 +
            uint (src ! 3) * 51 + uint (src ! 4) * 60 + uint (src ! 5) * 51 + uint (src ! 6) * 30 +
            uint (src ! 7) * 13 + uint (src ! 8) * 4) :: u32
      in ucast (rounding_shift_right acc 16))"

definition GaussianBlur_binomial :: "nat \<Rightarrow> (8, 16, 8) word_kernel" where
  "GaussianBlur_binomial S =
     (if S = 3 then
        \<lparr> vertical_vector_path = gaussian_3_vertical_vector, vertical_scalar_path = gaussian_3_vertical_scalar,
          horizontal_vector_path = gaussian_3_horizontal_vector,
          horizontal_scalar_path = gaussian_3_horizontal_scalar \<rparr>
      else if S = 5 then
        \<lparr> vertical_vector_path = gaussian_5_vertical_vector, vertical_scalar_path = gaussian_5_vertical_scalar,
          horizontal_vector_path = gaussian_5_horizontal_vector,
          horizontal_scalar_path = gaussian_5_horizontal_scalar \<rparr>
      else if S = 7 then
        \<lparr> vertical_vector_path = gaussian_7_vertical_vector, vertical_scalar_path = gaussian_7_vertical_scalar,
          horizontal_vector_path = gaussian_7_horizontal_vector,
          horizontal_scalar_path = gaussian_7_horizontal_scalar \<rparr>
      else
        \<lparr> vertical_vector_path = gaussian_9_vertical_vector, vertical_scalar_path = gaussian_9_vertical_scalar,
          horizontal_vector_path = gaussian_9_horizontal_vector,
          horizontal_scalar_path = gaussian_9_horizontal_scalar \<rparr>)"

section \<open>The kernel of given coefficients\<close>

definition get_half_kernel_size :: "nat \<Rightarrow> nat" where
  "get_half_kernel_size kernel_size = drop_bit 1 kernel_size + 1"

text \<open>
  \<open>half_kernel\<close> holds the coefficients up to and including the middle one. The accumulator of
  the scalar path is an \<^verbatim>\<open>uint16_t\<close>, to which the \<^verbatim>\<open>int\<close> products are added.
\<close>

definition half_kernel_scalar :: "nat \<Rightarrow> u8 list \<Rightarrow> u8 list \<Rightarrow> u8" where
  "half_kernel_scalar S half_kernel src =
     (let half = get_half_kernel_size S;
          acc = word_of_int (uint (src ! (half - 1)) * uint (half_kernel ! (half - 1))) :: u16;
          acc = fold (\<lambda>i acc. word_of_int (uint acc +
                  (uint (src ! i) + uint (src ! (S - i - 1))) * uint (half_kernel ! i))) [0..<half - 1] acc
      in word_of_int (rounding_shift_right_int (uint acc) 8))"

definition half_kernel_vector :: "nat \<Rightarrow> u8 list \<Rightarrow> u8 list list \<Rightarrow> u8 list" where
  "half_kernel_vector S half_kernel src =
     (let half = get_half_kernel_size S;
          half_kernel_mid = replicate 8 (half_kernel ! (half - 1));
          acc_l = vmlal_u (replicate 8 (128 :: u16)) (vget_low_elems (src ! (half - 1))) half_kernel_mid;
          acc_h = vmlal_u (replicate 8 (128 :: u16)) (vget_high_elems (src ! (half - 1))) half_kernel_mid;
          (acc_l, acc_h) = fold (\<lambda>i (acc_l, acc_h).
            let j = S - i - 1;
                vec_l = vaddl_u (vget_low_elems (src ! i)) (vget_low_elems (src ! j));
                vec_h = vaddl_u (vget_high_elems (src ! i)) (vget_high_elems (src ! j));
                coeff = replicate 8 (ucast (half_kernel ! i))
            in (vmlaq_u acc_l vec_l coeff, vmlaq_u acc_h vec_h coeff)) [0..<half - 1] (acc_l, acc_h)
      in vuzp2q_u8 (vreinterpretq_u8_u16 acc_l) (vreinterpretq_u8_u16 acc_h))"

definition GaussianBlur_half_kernel :: "nat \<Rightarrow> u8 list \<Rightarrow> (8, 8, 8) word_kernel" where
  "GaussianBlur_half_kernel S half_kernel =
     \<lparr> vertical_vector_path = half_kernel_vector S half_kernel,
       vertical_scalar_path = half_kernel_scalar S half_kernel,
       horizontal_vector_path = half_kernel_vector S half_kernel,
       horizontal_scalar_path = half_kernel_scalar S half_kernel \<rparr>"

section \<open>The vector paths work lane by lane\<close>

text \<open>
  Vectors are written as \<open>map f is\<close>, with the lanes \<open>is\<close> they hold; the instructions then work on
  the functions.
\<close>

lemma map2_maps: "map2 f (map g is) (map h is) = map (\<lambda>i. f (g i) (h i)) is"
  by (induction "is") auto

lemma map2_map_replicate: "length is = n \<Longrightarrow> map2 f (map g is) (replicate n c) = map (\<lambda>i. f (g i) c) is"
  by (induction "is" arbitrary: n) auto

lemma map2_replicate_map: "length is = n \<Longrightarrow> map2 f (replicate n c) (map h is) = map (\<lambda>i. f c (h i)) is"
  by (induction "is" arbitrary: n) auto

lemma halves:
  "length lo = length hi \<Longrightarrow> vget_low_elems (map f (lo @ hi)) = map f lo"
  "length lo = length hi \<Longrightarrow> vget_high_elems (map f (lo @ hi)) = map f hi"
  "vget_low_elems (replicate 8 c) = replicate 4 c" "vget_high_elems (replicate 8 c) = replicate 4 c"
  by (simp_all add: vget_low_elems_def vget_high_elems_def)

text \<open>The instructions on such vectors.\<close>

named_theorems lane_rules

lemma lane_rules_maps [lane_rules]:
  "vaddl_u (map f is) (map g is) = map (\<lambda>i. ucast (f i) + ucast (g i)) is"
  "vmovl_u (map f is) = map (\<lambda>i. ucast (f i)) is"
  "vshll_n_u n (map f is) = map (\<lambda>i. push_bit n (ucast (f i))) is"
  "vshlq_n_u n (map f is) = map (\<lambda>i. push_bit n (f i)) is"
  "vaddq_u (map f is) (map g is) = map (\<lambda>i. f i + g i) is"
  "vmulq_u (map f is) (map g is) = map (\<lambda>i. f i * g i) is"
  "vmlaq_u (map h is) (map f is) (map g is) = map (\<lambda>i. h i + f i * g i) is"
  "vmlal_u (map h' is) (map f is) (map g is) = map (\<lambda>i. h' i + ucast (f i) * ucast (g i)) is"
  "vrshrn_n_u n (map f is) = map (\<lambda>i. word_of_int ((uint (f i) + 2 ^ (n - 1)) div 2 ^ n)) is"
  "vmovn_u (map f is) = map (\<lambda>i. ucast (f i)) is"
  by (simp_all add: vaddl_u_def vmovl_u_def vshll_n_u_def vshlq_n_u_def vaddq_u_def vmulq_u_def vmlaq_u_def
      vmlal_u_def vrshrn_n_u_def vmovn_u_def map2_maps)

lemma replicate_map: "length is = n \<Longrightarrow> replicate n c = map (\<lambda>_. c) is"
  by (simp add: map_replicate_const)

lemma lane_rules_constants [lane_rules]:
  assumes "length is = n"
  shows "vmulq_u (map f is) (replicate n c) = map (\<lambda>i. f i * c) is"
    and "vmlaq_u (map h is) (map f is) (replicate n c) = map (\<lambda>i. h i + f i * c) is"
    and "vmlal_u (map h' is) (map f is) (replicate n c) = map (\<lambda>i. h' i + ucast (f i) * ucast c) is"
    and "vmlal_u (replicate n c') (map f is) (replicate n c) = map (\<lambda>i. c' + ucast (f i) * ucast c) is"
  by (simp_all add: vmulq_u_def vmlaq_u_def vmlal_u_def map2_maps replicate_map [OF assms])

lemma lanewiseI:
  assumes "\<And>F lo (hi :: nat list). length lo = n \<Longrightarrow> length hi = n \<Longrightarrow>
    vec (map (\<lambda>k. map (F k) (lo @ hi)) [0..<S]) = map (\<lambda>l. scalar (map (\<lambda>k. F k l) [0..<S])) (lo @ hi)"
  shows "lanewise vec scalar S (2 * n)"
  unfolding lanewise_def
proof (intro allI impI, elim conjE)
  fix v :: "'a list list"
  assume v: "length v = S" "\<forall>x \<in> set v. length x = 2 * n"
  have split: "[0..<2 * n] = [0..<n] @ [n..<2 * n]"
    using upt_add_eq_append [of 0 n n] by (simp add: mult_2)
  have row: "map (\<lambda>l. v ! k ! l) [0..<2 * n] = v ! k" if "k < S" for k
    using map_nth [of "v ! k"] v that by simp
  have "map (\<lambda>k. map (\<lambda>l. v ! k ! l) [0..<2 * n]) [0..<S] = map ((!) v) [0..<S]"
    by (intro map_cong refl) (simp add: row)
  also have "\<dots> = v" using v(1) map_nth [of v] by simp
  finally have V: "v = map (\<lambda>k. map (\<lambda>l. v ! k ! l) [0..<2 * n]) [0..<S]" by simp
  have "map (\<lambda>x. x ! l) v = map (\<lambda>k. v ! k ! l) [0..<S]" for l
    using v(1) by (intro nth_equalityI) simp_all
  with assms [of "[0..<n]" "[n..<2 * n]" "\<lambda>k l. v ! k ! l"] V
  show "vec v = map (\<lambda>l. scalar (map (\<lambda>x. x ! l) v)) [0..<2 * n]"
    by (simp add: split)
qed

text \<open>\<^verbatim>\<open>int\<close> sums and word sums.\<close>

lemma word_of_int_uint_ucast [simp]: "word_of_int (uint (a :: 'a::len word)) = (ucast a :: 'b::len word)"
  by transfer simp

lemma lanes_u8: "num_lanes_of TYPE(8) = 16" and lanes_u16: "num_lanes_of TYPE(16) = 8"
  by (simp_all add: num_lanes_of_def)

lemma nth_map_upt: "k < S \<Longrightarrow> map f [0..<S] ! k = f k"
  by simp

lemma append_maps: "(\<And>i. f i = h i) \<Longrightarrow> map f lo @ map f hi = map h (lo @ hi)"
  by simp

lemma gaussian_3_vertical_lanes:
  "lanewise gaussian_3_vertical_vector gaussian_3_vertical_scalar 3 (2 * 8)"
  by (rule lanewiseI, unfold gaussian_3_vertical_vector_def gaussian_3_vertical_scalar_def Let_def,
      simp only: nth_map_upt halves lane_rules numeral_less_iff zero_less_numeral semiring_norm, rule append_maps)
    (simp add: push_bit_eq_mult algebra_simps)

lemma gaussian_5_vertical_lanes:
  "lanewise gaussian_5_vertical_vector gaussian_5_vertical_scalar 5 (2 * 8)"
  by (rule lanewiseI, unfold gaussian_5_vertical_vector_def gaussian_5_vertical_scalar_def Let_def,
      simp only: nth_map_upt halves lane_rules numeral_less_iff zero_less_numeral semiring_norm, rule append_maps)
    (simp add: push_bit_eq_mult distrib_right)

lemma gaussian_7_vertical_lanes:
  "lanewise gaussian_7_vertical_vector gaussian_7_vertical_scalar 7 (2 * 8)"
  by (rule lanewiseI, unfold gaussian_7_vertical_vector_def gaussian_7_vertical_scalar_def Let_def,
      simp only: nth_map_upt halves lane_rules numeral_less_iff zero_less_numeral semiring_norm, rule append_maps)
    (simp add: push_bit_eq_mult algebra_simps)

lemma gaussian_9_vertical_lanes:
  "lanewise gaussian_9_vertical_vector gaussian_9_vertical_scalar 9 (2 * 8)"
  by (rule lanewiseI, unfold gaussian_9_vertical_vector_def gaussian_9_vertical_scalar_def Let_def,
      simp only: nth_map_upt halves lane_rules numeral_less_iff zero_less_numeral semiring_norm, rule append_maps)
    (simp add: push_bit_eq_mult algebra_simps)


text \<open>
  A lane of the horizontal vector paths, as the instructions compute it. Sums of 16-bit lanes may
  wrap around there.
\<close>

definition gaussian_3_lane :: "u16 list \<Rightarrow> u8" where
  "gaussian_3_lane s =
     word_of_int ((uint (s ! 0 + s ! 2 + push_bit 1 (s ! 1)) + 2 ^ (4 - 1)) div 2 ^ 4)"

definition gaussian_5_lane :: "u16 list \<Rightarrow> u8" where
  "gaussian_5_lane s =
     word_of_int ((uint (s ! 0 + s ! 4 + s ! 2 * 6 + (s ! 1 + s ! 3) * 4) + 2 ^ (8 - 1)) div 2 ^ 8)"

definition gaussian_7_lane :: "u16 list \<Rightarrow> u8" where
  "gaussian_7_lane s =
     ucast (word_of_int ((uint (push_bit 1 (ucast (s ! 0) + ucast (s ! 6) + ucast (s ! 2 + s ! 4) * ucast (7 :: u16)
        + ucast (s ! 3) * ucast (9 :: u16)) + (ucast (s ! 1) + ucast (s ! 5)) * 7 :: u32) + 2 ^ (12 - 1)) div 2 ^ 12) :: u16)"

definition gaussian_9_lane :: "u16 list \<Rightarrow> u8" where
  "gaussian_9_lane s =
     ucast (word_of_int ((uint (push_bit 2 (ucast (s ! 0) + ucast (s ! 8)) + (ucast (s ! 2) + ucast (s ! 6)) * 30
        + ucast (s ! 4) * 60 + ((ucast (s ! 1) + ucast (s ! 7)) * 13 + (ucast (s ! 3) + ucast (s ! 5)) * 51) :: u32)
        + 2 ^ (16 - 1)) div 2 ^ 16) :: u16)"

lemma gaussian_3_horizontal_lanes: "lanewise gaussian_3_horizontal_vector gaussian_3_lane 3 (2 * 4)"
  by (rule lanewiseI, unfold gaussian_3_horizontal_vector_def gaussian_3_lane_def Let_def,
      simp only: nth_map_upt lane_rules length_append numeral_less_iff zero_less_numeral semiring_norm
        add_numeral_special, simp?)

lemma gaussian_5_horizontal_lanes: "lanewise gaussian_5_horizontal_vector gaussian_5_lane 5 (2 * 4)"
  by (rule lanewiseI, unfold gaussian_5_horizontal_vector_def gaussian_5_lane_def Let_def,
      simp only: nth_map_upt lane_rules length_append numeral_less_iff zero_less_numeral semiring_norm
        add_numeral_special, simp?)

lemma gaussian_7_horizontal_lanes: "lanewise gaussian_7_horizontal_vector gaussian_7_lane 7 (2 * 4)"
  by (rule lanewiseI, unfold gaussian_7_horizontal_vector_def gaussian_7_lane_def Let_def,
      simp only: nth_map_upt halves lane_rules length_append numeral_less_iff zero_less_numeral semiring_norm
        map_append [symmetric])

lemma gaussian_9_horizontal_lanes: "lanewise gaussian_9_horizontal_vector gaussian_9_lane 9 (2 * 4)"
  by (rule lanewiseI, unfold gaussian_9_horizontal_vector_def gaussian_9_lane_def Let_def,
      simp only: nth_map_upt halves lane_rules length_append numeral_less_iff zero_less_numeral semiring_norm
        map_append [symmetric])

section \<open>The scalar paths are rounded weighted sums\<close>

definition binomial_weights :: "nat \<Rightarrow> int list" where
  "binomial_weights S =
     (if S = 3 then [1, 2, 1] else if S = 5 then [1, 4, 6, 4, 1] else if S = 7 then [2, 7, 14, 18, 14, 7, 2]
      else [4, 13, 30, 51, 60, 51, 30, 13, 4])"

definition binomial_shift :: "nat \<Rightarrow> nat" where
  "binomial_shift S = (if S = 3 then 4 else if S = 5 then 8 else if S = 7 then 12 else 16)"

definition weighted_sum :: "int list \<Rightarrow> (nat \<Rightarrow> int) \<Rightarrow> int" where
  "weighted_sum ws f = (\<Sum>j\<leftarrow>[0..<length ws]. ws ! j * f j)"

definition rounded :: "nat \<Rightarrow> int \<Rightarrow> int" where
  "rounded shift x = (x + 2 ^ (shift - 1)) div 2 ^ shift"

lemma weighted_sum_bounds:
  assumes "\<forall>x \<in> set ws. 0 \<le> x" and "\<And>j. j < length ws \<Longrightarrow> 0 \<le> f j \<and> f j \<le> b"
  shows "0 \<le> weighted_sum ws f" and "weighted_sum ws f \<le> sum_list ws * b"
proof -
  have "weighted_sum ws f \<le> (\<Sum>j\<leftarrow>[0..<length ws]. ws ! j * b)"
    unfolding weighted_sum_def using assms by (intro sum_list_mono) (auto intro: mult_left_mono)
  also have "\<dots> = (\<Sum>j\<leftarrow>[0..<length ws]. ws ! j) * b" by (rule sum_list_mult_const)
  also have "(\<Sum>j\<leftarrow>[0..<length ws]. ws ! j) = sum_list ws" by (simp add: map_nth)
  finally show "weighted_sum ws f \<le> sum_list ws * b" .
  show "0 \<le> weighted_sum ws f"
    unfolding weighted_sum_def using assms by (intro sum_list_nonneg) auto
qed

lemma uint_u8_bounds: "0 \<le> uint (x :: u8)" "uint (x :: u8) \<le> 255"
  using unsigned_less [of x, where ?'a = int] by simp_all

lemma uint_word_of_int_small: "0 \<le> x \<Longrightarrow> x < 2 ^ LENGTH('a::len) \<Longrightarrow> uint (word_of_int x :: 'a word) = x"
  by (simp add: uint_word_of_int)

lemma rounding_shift_right_int_div: "0 < shift \<Longrightarrow> rounding_shift_right_int x shift = rounded shift x"
  by (simp add: rounding_shift_right_int_def rounded_def drop_bit_eq_div push_bit_eq_mult)

lemma binomial_weights_bounds:
  "\<forall>x \<in> set (binomial_weights S). 0 \<le> x" "sum_list (binomial_weights S) * 255 < 2 ^ 16"
  by (simp_all add: binomial_weights_def)

text \<open>The buffer holds sums of bytes with these weights.\<close>

definition binomial_buffer :: "nat \<Rightarrow> u16 \<Rightarrow> bool" where
  "binomial_buffer S x = (uint x \<le> sum_list (binomial_weights S) * 255)"

lemma weighted_sum_3: "weighted_sum (binomial_weights 3) f = 1 * f 0 + 2 * f 1 + 1 * f 2"
  by (simp add: weighted_sum_def binomial_weights_def upt_rec eval_nat_numeral)

lemma weighted_sum_5: "weighted_sum (binomial_weights 5) f = 1 * f 0 + 4 * f 1 + 6 * f 2 + 4 * f 3 + 1 * f 4"
  by (simp add: weighted_sum_def binomial_weights_def upt_rec eval_nat_numeral)

lemma weighted_sum_7: "weighted_sum (binomial_weights 7) f = 2 * f 0 + 7 * f 1 + 14 * f 2 + 18 * f 3 + 14 * f 4 + 7 * f 5 + 2 * f 6"
  by (simp add: weighted_sum_def binomial_weights_def upt_rec eval_nat_numeral)

lemma weighted_sum_9: "weighted_sum (binomial_weights 9) f = 4 * f 0 + 13 * f 1 + 30 * f 2 + 51 * f 3 + 60 * f 4 + 51 * f 5 + 30 * f 6 + 13 * f 7 + 4 * f 8"
  by (simp add: weighted_sum_def binomial_weights_def upt_rec eval_nat_numeral)

lemma vertical_word_sum:
  "uint (word_of_int (weighted_sum (binomial_weights S) (\<lambda>k. uint (v ! k))) :: u16)
    = weighted_sum (binomial_weights S) (\<lambda>k. uint (v ! k :: u8))"
proof (rule uint_word_of_int_small)
  have f: "0 \<le> uint (v ! k) \<and> uint (v ! k) \<le> 255" for k using uint_u8_bounds by simp
  show "0 \<le> weighted_sum (binomial_weights S) (\<lambda>k. uint (v ! k))"
    by (rule weighted_sum_bounds(1) [OF binomial_weights_bounds(1) f])
  have "weighted_sum (binomial_weights S) (\<lambda>k. uint (v ! k)) \<le> sum_list (binomial_weights S) * 255"
    by (rule weighted_sum_bounds(2) [OF binomial_weights_bounds(1) f])
  with binomial_weights_bounds(2) [of S]
  show "weighted_sum (binomial_weights S) (\<lambda>k. uint (v ! k)) < 2 ^ LENGTH(16)" by simp
qed

definition binomial_vertical :: "nat \<Rightarrow> u8 list \<Rightarrow> u16" where
  "binomial_vertical S v = word_of_int (weighted_sum (binomial_weights S) (\<lambda>k. uint (v ! k)))"

lemma vertical_sums:
  "gaussian_3_vertical_scalar = binomial_vertical 3" "gaussian_5_vertical_scalar = binomial_vertical 5"
  "gaussian_7_vertical_scalar = binomial_vertical 7" "gaussian_9_vertical_scalar = binomial_vertical 9"
  by (simp_all add: fun_eq_iff binomial_vertical_def gaussian_3_vertical_scalar_def gaussian_5_vertical_scalar_def
      gaussian_7_vertical_scalar_def gaussian_9_vertical_scalar_def weighted_sum_3 weighted_sum_5
      weighted_sum_7 weighted_sum_9 distrib_left)

definition binomial_horizontal :: "nat \<Rightarrow> u16 list \<Rightarrow> u8" where
  "binomial_horizontal S v =
     word_of_int (rounded (binomial_shift S) (weighted_sum (binomial_weights S) (\<lambda>j. uint (v ! j))))"

lemma binomial_buffer_sum:
  assumes "length v = S" and "\<And>x. x \<in> set v \<Longrightarrow> binomial_buffer S x" and "length (binomial_weights S) = S"
  shows "0 \<le> weighted_sum (binomial_weights S) (\<lambda>j. uint (v ! j))"
    and "weighted_sum (binomial_weights S) (\<lambda>j. uint (v ! j))
      \<le> sum_list (binomial_weights S) * (sum_list (binomial_weights S) * 255)"
  using weighted_sum_bounds [OF binomial_weights_bounds(1), of S "\<lambda>j. uint (v ! j)" "sum_list (binomial_weights S) * 255"]
    assms by (simp_all add: binomial_buffer_def)

text \<open>No intermediate sum of the horizontal paths wraps around on such values.\<close>

lemma horizontal_scalars:
  "gaussian_3_horizontal_scalar v = binomial_horizontal 3 v"
  "gaussian_5_horizontal_scalar v = binomial_horizontal 5 v"
  by (simp_all add: binomial_horizontal_def gaussian_3_horizontal_scalar_def gaussian_5_horizontal_scalar_def
      binomial_shift_def rounding_shift_right_int_div weighted_sum_3 weighted_sum_5 algebra_simps)

lemma horizontal_scalar_7:
  assumes "length v = 7" and "\<And>x. x \<in> set v \<Longrightarrow> binomial_buffer 7 x"
  shows "gaussian_7_horizontal_scalar v = binomial_horizontal 7 v"
proof -
  let ?x = "weighted_sum (binomial_weights 7) (\<lambda>j. uint (v ! j))"
  have x: "0 \<le> ?x" "?x \<le> 64 * (64 * 255)"
    using binomial_buffer_sum [OF assms] by (simp_all add: binomial_weights_def)
  have "uint (v ! 0) * 2 + uint (v ! 1) * 7 + uint (v ! 2) * 14 + uint (v ! 3) * 18 + uint (v ! 4) * 14
      + uint (v ! 5) * 7 + uint (v ! 6) * 2 = ?x" by (simp add: weighted_sum_7)
  then have "gaussian_7_horizontal_scalar v = ucast (rounding_shift_right (word_of_int ?x :: u32) 12)"
    by (simp add: gaussian_7_horizontal_scalar_def Let_def)
  moreover have "uint (rounding_shift_right (word_of_int ?x :: u32) 12) = rounded 12 ?x"
    using x by (subst rounding_shift_right_div) (simp_all add: uint_word_of_int_small rounded_def)
  ultimately show ?thesis
    by (simp add: binomial_horizontal_def binomial_shift_def flip: word_of_int_uint_ucast)
qed

lemma horizontal_scalar_9:
  assumes "length v = 9" and "\<And>x. x \<in> set v \<Longrightarrow> binomial_buffer 9 x"
  shows "gaussian_9_horizontal_scalar v = binomial_horizontal 9 v"
proof -
  let ?x = "weighted_sum (binomial_weights 9) (\<lambda>j. uint (v ! j))"
  have x: "0 \<le> ?x" "?x \<le> 256 * (256 * 255)"
    using binomial_buffer_sum [OF assms] by (simp_all add: binomial_weights_def)
  have "uint (v ! 0) * 4 + uint (v ! 1) * 13 + uint (v ! 2) * 30 + uint (v ! 3) * 51 + uint (v ! 4) * 60
      + uint (v ! 5) * 51 + uint (v ! 6) * 30 + uint (v ! 7) * 13 + uint (v ! 8) * 4 = ?x"
    by (simp add: weighted_sum_9)
  then have "gaussian_9_horizontal_scalar v = ucast (rounding_shift_right (word_of_int ?x :: u32) 16)"
    by (simp add: gaussian_9_horizontal_scalar_def Let_def)
  moreover have "uint (rounding_shift_right (word_of_int ?x :: u32) 16) = rounded 16 ?x"
    using x by (subst rounding_shift_right_div) (simp_all add: uint_word_of_int_small rounded_def)
  ultimately show ?thesis
    by (simp add: binomial_horizontal_def binomial_shift_def flip: word_of_int_uint_ucast)
qed

lemma ucast_word_of_int_u16: "(ucast (word_of_int x :: u16) :: u8) = word_of_int x"
  by transfer simp

lemma ucast_add_u16:
  fixes a b :: u16
  assumes "uint a + uint b < 2 ^ 16"
  shows "(ucast (a + b) :: u32) = ucast a + ucast b"
proof -
  have "uint (a + b) = uint a + uint b" using assms by (intro uint_plus_no_wrap) simp
  then have "word_of_int (uint (a + b)) = (word_of_int (uint a + uint b) :: u32)" by simp
  then show ?thesis by simp
qed

lemma lane_3:
  assumes "length v = 3" and "\<And>x. x \<in> set v \<Longrightarrow> binomial_buffer 3 x"
  shows "gaussian_3_lane v = binomial_horizontal 3 v"
proof -
  let ?x = "weighted_sum (binomial_weights 3) (\<lambda>j. uint (v ! j))"
  have x: "0 \<le> ?x" "?x \<le> 4 * (4 * 255)"
    using binomial_buffer_sum [OF assms] by (simp_all add: binomial_weights_def)
  have "v ! 0 + v ! 2 + push_bit 1 (v ! 1) = word_of_int ?x"
    by (simp add: weighted_sum_3 push_bit_eq_mult distrib_right)
  moreover have "uint (word_of_int ?x :: u16) = ?x" using x by (intro uint_word_of_int_small) simp_all
  ultimately show ?thesis
    unfolding gaussian_3_lane_def binomial_horizontal_def
    by (simp only: rounded_def binomial_shift_def) simp
qed

lemma lane_5:
  assumes "length v = 5" and "\<And>x. x \<in> set v \<Longrightarrow> binomial_buffer 5 x"
  shows "gaussian_5_lane v = binomial_horizontal 5 v"
proof -
  let ?x = "weighted_sum (binomial_weights 5) (\<lambda>j. uint (v ! j))"
  have x: "0 \<le> ?x" "?x \<le> 16 * (16 * 255)"
    using binomial_buffer_sum [OF assms] by (simp_all add: binomial_weights_def)
  have "v ! 0 + v ! 4 + v ! 2 * 6 + (v ! 1 + v ! 3) * 4 = word_of_int ?x"
    by (simp add: weighted_sum_5 push_bit_eq_mult distrib_right)
  moreover have "uint (word_of_int ?x :: u16) = ?x" using x by (intro uint_word_of_int_small) simp_all
  ultimately show ?thesis
    unfolding gaussian_5_lane_def binomial_horizontal_def
    by (simp only: rounded_def binomial_shift_def) simp
qed

lemma lane_7:
  assumes "length v = 7" and "\<And>x. x \<in> set v \<Longrightarrow> binomial_buffer 7 x"
  shows "gaussian_7_lane v = binomial_horizontal 7 v"
proof -
  let ?x = "weighted_sum (binomial_weights 7) (\<lambda>j. uint (v ! j))"
  have x: "0 \<le> ?x" "?x \<le> 64 * (64 * 255)"
    using binomial_buffer_sum [OF assms] by (simp_all add: binomial_weights_def)
  have "uint (v ! k) \<le> 16320" if "k < 7" for k
    using assms that nth_mem [of k v] by (fastforce simp: binomial_buffer_def binomial_weights_def)
  from this [of 2] this [of 4] have "(ucast (v ! 2 + v ! 4) :: u32) = ucast (v ! 2) + ucast (v ! 4)"
    by (intro ucast_add_u16) simp
  then have "push_bit 1 (ucast (v ! 0) + ucast (v ! 6) + ucast (v ! 2 + v ! 4) * ucast (7 :: u16)
      + ucast (v ! 3) * ucast (9 :: u16)) + (ucast (v ! 1) + ucast (v ! 5)) * 7
    = (word_of_int ?x :: u32)"
    by (simp add: weighted_sum_7 push_bit_eq_mult distrib_right distrib_left)
  moreover have "uint (word_of_int ?x :: u32) = ?x" using x by (intro uint_word_of_int_small) simp_all
  ultimately show ?thesis
    unfolding gaussian_7_lane_def binomial_horizontal_def
    by (simp only: rounded_def binomial_shift_def ucast_word_of_int_u16) simp
qed

lemma lane_9:
  assumes "length v = 9" and "\<And>x. x \<in> set v \<Longrightarrow> binomial_buffer 9 x"
  shows "gaussian_9_lane v = binomial_horizontal 9 v"
proof -
  let ?x = "weighted_sum (binomial_weights 9) (\<lambda>j. uint (v ! j))"
  have x: "0 \<le> ?x" "?x \<le> 256 * (256 * 255)"
    using binomial_buffer_sum [OF assms] by (simp_all add: binomial_weights_def)
  have "push_bit 2 (ucast (v ! 0) + ucast (v ! 8)) + (ucast (v ! 2) + ucast (v ! 6)) * 30
      + ucast (v ! 4) * 60 + ((ucast (v ! 1) + ucast (v ! 7)) * 13 + (ucast (v ! 3) + ucast (v ! 5)) * 51)
    = (word_of_int ?x :: u32)"
    by (simp add: weighted_sum_9 push_bit_eq_mult distrib_right distrib_left)
  moreover have "uint (word_of_int ?x :: u32) = ?x" using x by (intro uint_word_of_int_small) simp_all
  ultimately show ?thesis
    unfolding gaussian_9_lane_def binomial_horizontal_def
    by (simp only: rounded_def binomial_shift_def ucast_word_of_int_u16) simp
qed

section \<open>The kernel of given coefficients, lane by lane\<close>

lemma vreinterpret_length [simp]: "length (vreinterpretq_u8_u16 v) = 2 * length v"
  by (induction v) (simp_all add: vreinterpretq_u8_u16_def)

lemma vreinterpret_append: "vreinterpretq_u8_u16 (v @ w) = vreinterpretq_u8_u16 v @ vreinterpretq_u8_u16 w"
  by (simp add: vreinterpretq_u8_u16_def)

lemma vreinterpret_odd: "i < length v \<Longrightarrow> vreinterpretq_u8_u16 v ! (2 * i + 1) = ucast (drop_bit 8 (v ! i))"
proof (induction v arbitrary: i)
  case (Cons w v)
  then show ?case by (cases i) (simp_all add: vreinterpretq_u8_u16_def)
qed simp

lemma high_bytes:
  assumes "length v = length w"
  shows "vuzp2q_u8 (vreinterpretq_u8_u16 v) (vreinterpretq_u8_u16 w) = map (\<lambda>x. ucast (drop_bit 8 x)) (v @ w)"
  unfolding vuzp2q_u8_def vreinterpret_append [symmetric]
  using assms by (intro nth_equalityI) (simp_all add: vreinterpret_odd [simplified] del: map_append)

lemma half_kernel_fold:
  assumes "length lo = 8" and "length hi = 8" and "n \<le> S"
  shows "fold (\<lambda>i (acc_l, acc_h).
      let j = S - i - 1;
          vec_l = vaddl_u (vget_low_elems (map (\<lambda>k. map (F k) (lo @ hi)) [0..<S] ! i))
            (vget_low_elems (map (\<lambda>k. map (F k) (lo @ hi)) [0..<S] ! j));
          vec_h = vaddl_u (vget_high_elems (map (\<lambda>k. map (F k) (lo @ hi)) [0..<S] ! i))
            (vget_high_elems (map (\<lambda>k. map (F k) (lo @ hi)) [0..<S] ! j));
          coeff = replicate 8 (c i)
      in (vmlaq_u acc_l vec_l coeff, vmlaq_u acc_h vec_h coeff)) [0..<n] (map A lo, map A hi)
    = (let B = (\<lambda>l. fold (\<lambda>i a. a + (ucast (F i l) + ucast (F (S - i - 1) l)) * c i) [0..<n] (A l :: 'w::len word))
       in (map B lo, map B hi))"
  using assms(3)
proof (induction n)
  case 0
  then show ?case by simp
next
  case (Suc n)
  then have "n < S" "S - n - 1 < S" by simp_all
  with Suc assms(1,2) show ?case
    by (simp add: Let_def halves lane_rules del: map_append)
qed

lemma fold_add_start: "fold (\<lambda>i a. a + f i) xs (b + a) = b + fold (\<lambda>i a. a + f i) xs (a :: 'a::comm_monoid_add)"
  by (induction xs arbitrary: a) (simp_all add: add.assoc)

lemma rounded_high_byte: "(ucast (drop_bit 8 (128 + x :: u16)) :: u8) = word_of_int (rounding_shift_right_int (uint x) 8)"
proof -
  have "uint (drop_bit 8 (128 + x)) = ((uint x + 128) mod 2 ^ 16) div 256"
  proof -
    have "uint (128 :: u16) = 128" by simp
    then have "uint (128 + x) = (uint x + 128) mod 2 ^ 16"
      using uint_word_ariths(1) [of 128 x] by (simp only: add.commute) simp
    then show ?thesis by (simp add: uint_drop_bit_div)
  qed
  then have "(ucast (drop_bit 8 (128 + x)) :: u8) = word_of_int (((uint x + 128) mod 2 ^ 16) div 256)"
    by (metis word_of_int_uint_ucast)
  also have "((uint x + 128) mod 2 ^ 16) div 256 mod 256 = ((uint x + 128) div 256) mod 256"
    using zmod_zmult2_eq [of 256 "uint x + 128" 256] by simp
  then have "(word_of_int (((uint x + 128) mod 2 ^ 16) div 256) :: u8) = word_of_int ((uint x + 128) div 256)"
    by (simp add: word_of_int_eq_iff take_bit_eq_mod)
  also have "(uint x + 128) div 256 = rounding_shift_right_int (uint x) 8"
    by (simp add: rounding_shift_right_int_div rounded_def)
  finally show ?thesis .
qed

lemma half_kernel_lanes:
  assumes "0 < S"
  shows "lanewise (half_kernel_vector S hk) (half_kernel_scalar S hk) S (2 * 8)"
proof (rule lanewiseI)
  fix F :: "nat \<Rightarrow> nat \<Rightarrow> u8" and lo hi :: "nat list"
  assume l: "length lo = 8" "length hi = 8"
  define h where "h = get_half_kernel_size S - 1"
  have h: "h < S" "h \<le> S" using assms by (simp_all add: h_def get_half_kernel_size_def drop_bit_eq_div)
  let ?src = "map (\<lambda>k. map (F k) (lo @ hi)) [0..<S]"
  let ?A = "\<lambda>l. (128 :: u16) + ucast (F h l) * ucast (hk ! h)"
  let ?g = "\<lambda>l i (a :: u16). a + (ucast (F i l) + ucast (F (S - i - 1) l)) * ucast (hk ! i)"
  have start: "vmlal_u (replicate 8 128) (vget_low_elems (?src ! h)) (replicate 8 (hk ! h)) = map ?A lo"
    "vmlal_u (replicate 8 128) (vget_high_elems (?src ! h)) (replicate 8 (hk ! h)) = map ?A hi"
    using h l by (simp_all add: halves lane_rules del: map_append)
  have vec: "half_kernel_vector S hk ?src
      = map (\<lambda>x. ucast (drop_bit 8 x)) (map (\<lambda>l. fold (?g l) [0..<h] (?A l)) (lo @ hi))"
    unfolding half_kernel_vector_def Let_def h_def [symmetric] start
    using half_kernel_fold [OF l h(2), of F "\<lambda>i. ucast (hk ! i)" ?A] l
    by (simp only: Let_def high_bytes length_map prod.case map_append)
  have "half_kernel_scalar S hk (map (\<lambda>k. F k l) [0..<S])
      = word_of_int (rounding_shift_right_int (uint (fold (?g l) [0..<h] (ucast (F h l) * ucast (hk ! h)))) 8)" for l
  proof -
    have "fold (\<lambda>i acc. word_of_int (uint acc + (uint (map (\<lambda>k. F k l) [0..<S] ! i)
          + uint (map (\<lambda>k. F k l) [0..<S] ! (S - i - 1))) * uint (hk ! i))) [0..<h] a = fold (?g l) [0..<h] a" for a
      using h by (intro fold_cong refl ext) simp
    then show ?thesis
      unfolding half_kernel_scalar_def Let_def h_def [symmetric] using h by simp
  qed
  then have "half_kernel_scalar S hk (map (\<lambda>k. F k l) [0..<S]) = ucast (drop_bit 8 (fold (?g l) [0..<h] (?A l)))" for l
    by (simp add: fold_add_start rounded_high_byte)
  then show "half_kernel_vector S hk ?src = map (\<lambda>l. half_kernel_scalar S hk (map (\<lambda>k. F k l) [0..<S])) (lo @ hi)"
    unfolding vec by simp
qed

text \<open>
  The whole kernel is the half kernel and its mirror image. A pass adds its products up in 16 bits,
  and keeps the byte above the lowest one of the rounded sum; only when the coefficients add up to at
  most 256 is this the rounded weighted sum, whatever the bytes are.
\<close>

definition full_kernel :: "nat \<Rightarrow> u8 list \<Rightarrow> int list" where
  "full_kernel S hk = map (\<lambda>j. uint (hk ! min j (S - 1 - j))) [0..<S]"

lemma length_full_kernel [simp]: "length (full_kernel S hk) = S"
  by (simp add: full_kernel_def)

lemma mirrored_sum:
  fixes f w :: "nat \<Rightarrow> int"
  assumes "S = 2 * h + 1"
  shows "(\<Sum>j<S. w (min j (S - 1 - j)) * f j) = f h * w h + (\<Sum>i<h. (f i + f (S - i - 1)) * w i)"
proof -
  let ?t = "\<lambda>j. w (min j (S - 1 - j)) * f j"
  have low: "min j (S - 1 - j) = j" if "j \<le> h" for j
    using that assms by (intro min_absorb1) linarith
  have split: "{..<S} = {..<h} \<union> {h} \<union> {Suc h..<S}" using assms by auto
  have disj: "({..<h} \<union> {h}) \<inter> {Suc h..<S} = {}" "{..<h} \<inter> {h} = {}" by auto
  have "(\<Sum>j<S. ?t j) = (\<Sum>j<h. ?t j) + ?t h + (\<Sum>j \<in> {Suc h..<S}. ?t j)"
    unfolding split sum.union_disjoint [OF _ finite_atLeastLessThan disj(1), of "?t",
        OF finite_UnI [OF finite_lessThan finite.insertI [OF finite.emptyI]]]
      sum.union_disjoint [OF finite_lessThan finite.insertI [OF finite.emptyI] disj(2)] by simp
  also have "(\<Sum>j \<in> {Suc h..<S}. ?t j) = (\<Sum>i<h. w i * f (S - i - 1))"
    by (rule sum.reindex_bij_witness [of _ "\<lambda>i. S - i - 1" "\<lambda>j. S - j - 1"]) (use assms in auto)
  also have "(\<Sum>j<h. ?t j) = (\<Sum>i<h. w i * f i)"
    by (intro sum.cong refl) (simp only: lessThan_iff less_imp_le low)
  also have "?t h = f h * w h" by (simp only: le_refl low mult.commute)
  finally show ?thesis by (simp add: sum.distrib algebra_simps)
qed

lemma fold_word_sum:
  "fold (\<lambda>i acc. word_of_int (uint acc + f i)) [0..<n] (word_of_int a)
    = (word_of_int (a + (\<Sum>i<n. f i)) :: 'w::len word)"
  by (induction n) (simp_all add: add.assoc)

lemma full_kernel_sum:
  assumes "S = 2 * h + 1"
  shows "weighted_sum (full_kernel S hk) f
    = f h * uint (hk ! h) + (\<Sum>i<h. (f i + f (S - i - 1)) * uint (hk ! i))"
proof -
  have "weighted_sum (full_kernel S hk) f = (\<Sum>j<S. uint (hk ! min j (S - 1 - j)) * f j)"
    unfolding weighted_sum_def interv_sum_list_conv_sum_set_nat length_full_kernel
    by (rule sum.cong) (auto simp: full_kernel_def)
  then show ?thesis using mirrored_sum [OF assms, of "\<lambda>i. uint (hk ! i)" f] by simp
qed

definition half_kernel_pass :: "int \<Rightarrow> int" where
  "half_kernel_pass x = (x mod 2 ^ 16 + 128) div 256 mod 256"

lemma half_kernel_sum:
  assumes "S = 2 * h + 1"
  shows "uint (half_kernel_scalar S hk v) = half_kernel_pass (weighted_sum (full_kernel S hk) (\<lambda>j. uint (v ! j)))"
proof -
  let ?x = "weighted_sum (full_kernel S hk) (\<lambda>j. uint (v ! j))"
  have "get_half_kernel_size S - 1 = h" using assms by (simp add: get_half_kernel_size_def drop_bit_eq_div)
  then have "half_kernel_scalar S hk v = word_of_int (rounding_shift_right_int (uint (word_of_int ?x :: u16)) 8)"
    unfolding half_kernel_scalar_def Let_def full_kernel_sum [OF assms] by (simp only: fold_word_sum)
  also have "uint \<dots> = half_kernel_pass ?x"
    by (simp add: rounding_shift_right_int_div rounded_def half_kernel_pass_def uint_word_of_int)
  finally show ?thesis .
qed

lemma half_kernel_pass_exact: "0 \<le> x \<Longrightarrow> x \<le> 65280 \<Longrightarrow> half_kernel_pass x = rounded 8 x"
  by (simp add: half_kernel_pass_def rounded_def)

lemma half_kernel_sum_bounds:
  assumes "sum_list (full_kernel S hk) \<le> 256" and "\<And>j. 0 \<le> f j \<and> f j \<le> (255 :: int)"
  shows "0 \<le> weighted_sum (full_kernel S hk) f" "weighted_sum (full_kernel S hk) f \<le> 65280"
proof -
  have pos: "\<forall>x \<in> set (full_kernel S hk). 0 \<le> x" by (auto simp: full_kernel_def)
  show "0 \<le> weighted_sum (full_kernel S hk) f" by (rule weighted_sum_bounds(1) [OF pos assms(2)])
  have "weighted_sum (full_kernel S hk) f \<le> sum_list (full_kernel S hk) * 255"
    by (rule weighted_sum_bounds(2) [OF pos assms(2)])
  then show "weighted_sum (full_kernel S hk) f \<le> 65280" using assms(1) by simp
qed

section \<open>The kernels meet the contract of the drivers\<close>

lemma filter_types: "element_type TYPE(8)" "element_type TYPE(16)"
  by (simp_all add: element_type_def)

lemma binomial_vertical_buffer: "binomial_buffer S (binomial_vertical S v)"
proof -
  have f: "0 \<le> uint (v ! k) \<and> uint (v ! k) \<le> 255" for k using uint_u8_bounds by simp
  show ?thesis
    unfolding binomial_buffer_def binomial_vertical_def vertical_word_sum
    by (rule weighted_sum_bounds(2) [OF binomial_weights_bounds(1) f])
qed

interpretation binomial_3: separable_filter "GaussianBlur_binomial 3" 3 "binomial_buffer 3" gaussian_3_lane
  by unfold_locales
    (simp_all add: filter_types GaussianBlur_binomial_def lanes_u8 lanes_u16 vertical_sums binomial_vertical_buffer
      gaussian_3_vertical_lanes [simplified vertical_sums, simplified] gaussian_3_horizontal_lanes [simplified]
      lane_3 horizontal_scalars)

interpretation binomial_5: separable_filter "GaussianBlur_binomial 5" 5 "binomial_buffer 5" gaussian_5_lane
  by unfold_locales
    (simp_all add: filter_types GaussianBlur_binomial_def lanes_u8 lanes_u16 vertical_sums binomial_vertical_buffer
      gaussian_5_vertical_lanes [simplified vertical_sums, simplified] gaussian_5_horizontal_lanes [simplified]
      lane_5 horizontal_scalars)

interpretation binomial_7: separable_filter "GaussianBlur_binomial 7" 7 "binomial_buffer 7" gaussian_7_lane
  by unfold_locales
    (simp_all add: filter_types GaussianBlur_binomial_def lanes_u8 lanes_u16 vertical_sums binomial_vertical_buffer
      gaussian_7_vertical_lanes [simplified vertical_sums, simplified] gaussian_7_horizontal_lanes [simplified]
      lane_7 horizontal_scalar_7)

interpretation binomial_9: separable_filter "GaussianBlur_binomial 9" 9 "binomial_buffer 9" gaussian_9_lane
  by unfold_locales
    (simp_all add: filter_types GaussianBlur_binomial_def lanes_u8 lanes_u16 vertical_sums binomial_vertical_buffer
      gaussian_9_vertical_lanes [simplified vertical_sums, simplified] gaussian_9_horizontal_lanes [simplified]
      lane_9 horizontal_scalar_9)

interpretation half_kernel_filter: separable_filter "GaussianBlur_half_kernel 15 hk" 15 "\<lambda>_. True"
  "half_kernel_scalar 15 hk" for hk
  using half_kernel_lanes [of 15 hk]
  by unfold_locales (simp_all add: filter_types GaussianBlur_half_kernel_def lanes_u8)

end
