(* ===== verification/Gaussian_Sigma.thy ===== *)
theory Gaussian_Sigma
  imports Complex_Main Gaussian_Kernels
begin

text \<open>
  The coefficients of a Gaussian kernel of given sigma,
  \<^verbatim>\<open>kleidicv/include/kleidicv/filters/sigma.h\<close>: the code over an arbitrary floating-point
  arithmetic, and what the diffusion of the rounding errors gives when that arithmetic is exact.
\<close>

section \<open>The half kernel\<close>

text \<open>
  The operations of \<^verbatim>\<open>float\<close> the code uses, literals and conversions included;
  \<open>f_to_int\<close> is the value of a float that holds an integer.
\<close>

record 'f float_ops =
  f_literal :: "rat \<Rightarrow> 'f"
  f_of_size :: "nat \<Rightarrow> 'f"
  f_equal :: "'f \<Rightarrow> 'f \<Rightarrow> bool"
  f_add :: "'f \<Rightarrow> 'f \<Rightarrow> 'f"
  f_sub :: "'f \<Rightarrow> 'f \<Rightarrow> 'f"
  f_mul :: "'f \<Rightarrow> 'f \<Rightarrow> 'f"
  f_div :: "'f \<Rightarrow> 'f \<Rightarrow> 'f"
  f_neg :: "'f \<Rightarrow> 'f"
  f_exp :: "'f \<Rightarrow> 'f"
  f_round :: "'f \<Rightarrow> 'f"
  f_to_int :: "'f \<Rightarrow> int"

text \<open>
  One step of the second loop: the coefficient is rounded and the rounding error goes into the next
  one.
\<close>

definition half_kernel_step :: "'f float_ops \<Rightarrow> 'f \<Rightarrow> 'f \<Rightarrow> u8 list \<times> 'f \<Rightarrow> u8 list \<times> 'f" where
  "half_kernel_step fl multiplier half_kernel_float = (\<lambda>(half_kernel, error).
     let float_value = f_sub fl (f_mul fl half_kernel_float multiplier) error;
         value_rounded = f_round fl float_value
     in (half_kernel @ [word_of_int (f_to_int fl value_rounded)], f_sub fl value_rounded float_value))"

text \<open>
  \<open>None\<close> stands for the result \<^verbatim>\<open>false\<close>, \<open>Some\<close> for \<^verbatim>\<open>true\<close> with the
  \<open>half_size\<close> coefficients the code has written.
\<close>

definition generate_gaussian_half_kernel :: "'f float_ops \<Rightarrow> nat \<Rightarrow> 'f \<Rightarrow> u8 list option" where
  "generate_gaussian_half_kernel fl half_size sigma =
     (let kMid = half_size - 1;
          kKernelSize = kMid * 2 + 1;
          sigma = (if f_equal fl sigma (f_literal fl 0)
                   then f_add fl (f_mul fl (f_of_size fl kKernelSize) (f_literal fl (15 / 100)))
                     (f_literal fl (35 / 100))
                   else sigma);
          coefficient = f_div fl (f_literal fl 1) (f_neg fl (f_mul fl (f_mul fl (f_literal fl 2) sigma) sigma));
          half_kernel_float = map (\<lambda>i. let j = kMid - i in
            f_exp fl (f_mul fl (f_mul fl (f_of_size fl j) (f_of_size fl j)) coefficient)) [0..<kMid];
          sum = fold (\<lambda>h sum. f_add fl sum h) half_kernel_float (f_literal fl 0);
          multiplier = f_div fl (f_literal fl 256)
            (f_add fl (f_mul fl sum (f_literal fl 2)) (f_literal fl 1));
          (half_kernel, error) = fold (half_kernel_step fl multiplier) half_kernel_float ([], f_literal fl 0);
          mid_value = word_of_int (f_to_int fl (f_round fl (f_sub fl multiplier error))) :: u16
      in if mid_value = 256 then None else Some (half_kernel @ [ucast mid_value]))"

section \<open>Exact arithmetic\<close>

text \<open>\<^verbatim>\<open>std::round\<close> rounds halves away from zero.\<close>

definition round_away :: "real \<Rightarrow> int" where
  "round_away x = (if 0 \<le> x then \<lfloor>x + 1 / 2\<rfloor> else \<lceil>x - 1 / 2\<rceil>)"

definition exact_ops :: "real float_ops" where
  "exact_ops = \<lparr> f_literal = real_of_rat, f_of_size = real, f_equal = (=), f_add = (+), f_sub = (-),
     f_mul = (*), f_div = (/), f_neg = uminus, f_exp = exp, f_round = (\<lambda>x. of_int (round_away x)),
     f_to_int = floor \<rparr>"

lemma exact_ops_simps:
  "f_literal exact_ops = real_of_rat" "f_of_size exact_ops = real" "f_equal exact_ops = (=)"
  "f_add exact_ops = (+)" "f_sub exact_ops = (-)" "f_mul exact_ops = (*)" "f_div exact_ops = (/)"
  "f_neg exact_ops = uminus" "f_exp exact_ops = exp" "f_round exact_ops = (\<lambda>x. of_int (round_away x))"
  "f_to_int exact_ops = floor"
  by (simp_all add: exact_ops_def)

lemma half_kernel_step_exact:
  "half_kernel_step exact_ops M x (ks, e) =
     (ks @ [word_of_int (round_away (x * M - e))], of_int (round_away (x * M - e)) - (x * M - e))"
  by (simp add: half_kernel_step_def exact_ops_simps Let_def)

lemma round_away_error: "\<bar>of_int (round_away x) - x\<bar> \<le> 1 / 2"
  using floor_correct [of "x + 1 / 2"] ceiling_correct [of "x - 1 / 2"]
  unfolding round_away_def abs_le_iff by (cases "0 \<le> x") (simp_all only: if_True if_False, linarith+)

lemma round_away_nonneg: "- (1 / 2) < x \<Longrightarrow> 0 \<le> round_away x"
  unfolding round_away_def by (simp add: le_floor_iff)

lemma round_away_less: "x + 1 / 2 < of_int n \<Longrightarrow> 0 \<le> n \<Longrightarrow> round_away x < n"
  using round_away_error [of x] by linarith

text \<open>
  The coefficients add up to the exact ones and the last error: the other errors have cancelled.
\<close>

lemma half_kernel_steps:
  assumes "\<forall>x \<in> set xs. 0 < x * M \<and> x * M \<le> 128" and "\<bar>e\<bar> \<le> 1 / 2"
    and "fold (half_kernel_step exact_ops M) xs (ks, e) = (ks', e')"
  shows "\<exists>cs. ks' = ks @ cs \<and> length cs = length xs \<and> \<bar>e'\<bar> \<le> 1 / 2
    \<and> (\<Sum>c\<leftarrow>cs. real_of_int (uint c)) = sum_list xs * M + e' - e
    \<and> (\<forall>i < length xs. \<bar>real_of_int (uint (cs ! i)) - xs ! i * M\<bar> \<le> 1)"
  using assms
proof (induction xs arbitrary: ks e)
  case Nil
  then show ?case by simp
next
  case (Cons x xs)
  let ?r = "round_away (x * M - e)"
  let ?e = "of_int ?r - (x * M - e)"
  have range: "0 \<le> ?r" "?r < 256"
    using Cons.prems(1,2) by (auto intro!: round_away_nonneg round_away_less simp: abs_le_iff)
  then have r: "uint (word_of_int ?r :: u8) = ?r" by (intro uint_word_of_int_small) simp_all
  have e: "\<bar>?e\<bar> \<le> 1 / 2" by (rule round_away_error)
  have "fold (half_kernel_step exact_ops M) xs (ks @ [word_of_int ?r], ?e) = (ks', e')"
    using Cons.prems(3) by (simp add: half_kernel_step_exact)
  from Cons.IH [OF _ e this] Cons.prems(1) obtain cs where cs: "ks' = (ks @ [word_of_int ?r]) @ cs"
    "length cs = length xs" "\<bar>e'\<bar> \<le> 1 / 2" "(\<Sum>c\<leftarrow>cs. real_of_int (uint c)) = sum_list xs * M + e' - ?e"
    "\<forall>i < length xs. \<bar>real_of_int (uint (cs ! i)) - xs ! i * M\<bar> \<le> 1" by auto
  have "\<bar>real_of_int (uint ((word_of_int ?r # cs) ! i)) - (x # xs) ! i * M\<bar> \<le> 1" if "i < Suc (length xs)" for i
  proof (cases i)
    case 0
    have "\<bar>of_int ?r - x * M\<bar> \<le> 1" using e Cons.prems(2) unfolding abs_le_iff by linarith
    with 0 r show ?thesis by (simp del: of_int_uint)
  qed (use that cs(5) in simp)
  then show ?case
    using cs r by (intro exI [of _ "word_of_int ?r # cs"]) (simp add: distrib_right del: of_int_uint)
qed

definition exact_sigma :: "nat \<Rightarrow> real \<Rightarrow> real" where
  "exact_sigma h sigma = (if sigma = 0 then real (2 * h + 1) * (15 / 100) + 35 / 100 else sigma)"

text \<open>The values of the Gaussian function, and the weights they give the \<open>2 h + 1\<close> taps, in 256ths.\<close>

definition gaussian_value :: "real \<Rightarrow> nat \<Rightarrow> nat \<Rightarrow> real" where
  "gaussian_value sigma h i = exp (- (real (h - i))\<^sup>2 / (2 * sigma\<^sup>2))"

definition gaussian_weight :: "real \<Rightarrow> nat \<Rightarrow> nat \<Rightarrow> real" where
  "gaussian_weight sigma h i =
     256 * gaussian_value sigma h i / (1 + 2 * (\<Sum>k<h. gaussian_value sigma h k))"

lemma generate_exact:
  "generate_gaussian_half_kernel exact_ops (h + 1) sigma =
     (let xs = map (gaussian_value (exact_sigma h sigma) h) [0..<h];
          M = gaussian_weight (exact_sigma h sigma) h h;
          (hk, error) = fold (half_kernel_step exact_ops M) xs ([], 0);
          mid = word_of_int (round_away (M - error)) :: u16
      in if mid = 256 then None else Some (hk @ [ucast mid]))"
proof -
  have lit: "real_of_rat (15 / 100) = 15 / 100" "real_of_rat (35 / 100) = 35 / 100" "real_of_rat 256 = 256"
    "real_of_rat 2 = 2"
    by (simp_all add: of_rat_divide)
  have sig: "(if sigma = 0 then real (h * 2 + 1) * (15 / 100) + 35 / 100 else sigma) = exact_sigma h sigma"
    by (simp add: exact_sigma_def mult.commute)
  have val: "(\<lambda>i. exp (real (h - i) * real (h - i) * (1 / - (2 * s * s)))) = gaussian_value s h" for s
    by (simp add: gaussian_value_def power2_eq_square fun_eq_iff)
  have total: "fold (\<lambda>x sum. sum + x) (map f [0..<h]) 0 = (\<Sum>k<h. f k)" for f :: "nat \<Rightarrow> real"
    by (induction h) (simp_all add: add.commute)
  have M: "256 / ((\<Sum>k<h. gaussian_value s h k) * 2 + 1) = gaussian_weight s h h" for s
    by (simp add: gaussian_weight_def gaussian_value_def add.commute mult.commute)
  show ?thesis
    unfolding generate_gaussian_half_kernel_def exact_ops_simps Let_def lit of_rat_0 of_rat_1 add_diff_cancel_right'
      sig val total M floor_of_int by (rule refl)
qed

lemma gaussian_value_pos: "0 < gaussian_value s h i"
  by (simp add: gaussian_value_def)

lemma gaussian_weight_value: "gaussian_weight s h i = gaussian_value s h i * gaussian_weight s h h"
  by (simp add: gaussian_weight_def gaussian_value_def)

lemma gaussian_weight_sum: "2 * (\<Sum>k<h. gaussian_weight s h k) + gaussian_weight s h h = 256"
proof -
  let ?s = "\<Sum>k<h. gaussian_value s h k"
  have "0 \<le> ?s" by (intro sum_nonneg) (simp add: gaussian_value_pos less_imp_le)
  then have pos: "1 + 2 * ?s \<noteq> 0" by linarith
  have sum: "(\<Sum>k<h. gaussian_weight s h k) = 256 * ?s / (1 + 2 * ?s)"
    by (simp add: gaussian_weight_def sum_distrib_left sum_divide_distrib)
  have mid: "gaussian_weight s h h = 256 / (1 + 2 * ?s)"
    by (simp add: gaussian_weight_def gaussian_value_def)
  have "2 * (256 * ?s / (1 + 2 * ?s)) + 256 / (1 + 2 * ?s) = 256 * (1 + 2 * ?s) / (1 + 2 * ?s)"
    by (simp add: distrib_left add_divide_distrib)
  also have "\<dots> = 256" using pos by (rule nonzero_mult_div_cancel_right)
  finally show ?thesis unfolding sum mid .
qed

lemma gaussian_weight_pos: "0 < gaussian_weight s h i"
  unfolding gaussian_weight_def
  by (intro divide_pos_pos mult_pos_pos add_pos_nonneg mult_nonneg_nonneg sum_nonneg less_imp_le gaussian_value_pos)
    simp_all

lemma gaussian_weight_bounds: "i < h \<Longrightarrow> gaussian_weight s h i \<le> 128" "gaussian_weight s h h \<le> 256"
proof -
  note pos = gaussian_weight_pos [of s h]
  show "gaussian_weight s h i \<le> 128" if "i < h"
    using member_le_sum [of i "{..<h}" "gaussian_weight s h"] that pos gaussian_weight_sum [of s h]
    by (simp add: less_imp_le) (smt (verit) pos)
  have "0 \<le> (\<Sum>k<h. gaussian_weight s h k)" by (intro sum_nonneg less_imp_le pos)
  then show "gaussian_weight s h h \<le> 256" using gaussian_weight_sum [of s h] by linarith
qed

lemma uint_256_u16: "uint (256 :: u16) = 256"
  by simp

text \<open>The coefficients before the middle one, and the error left for it.\<close>

lemma exact_coefficients:
  obtains hk e where
    "fold (half_kernel_step exact_ops (gaussian_weight s h h)) (map (gaussian_value s h) [0..<h]) ([], 0) = (hk, e)"
    "length hk = h" "\<bar>e\<bar> \<le> 1 / 2" "gaussian_weight s h h - e < 256 + 1 / 2"
    "real_of_int (\<Sum>i<h. uint (hk ! i)) = (\<Sum>k<h. gaussian_weight s h k) + e"
    "\<And>i. i < h \<Longrightarrow> \<bar>real_of_int (uint (hk ! i)) - gaussian_weight s h i\<bar> \<le> 1"
proof -
  let ?xs = "map (gaussian_value s h) [0..<h]" and ?M = "gaussian_weight s h h"
  obtain hk e where f: "fold (half_kernel_step exact_ops ?M) ?xs ([], 0) = (hk, e)" by fastforce
  have xs: "gaussian_value s h i * ?M = gaussian_weight s h i" for i by (rule gaussian_weight_value [symmetric])
  have "\<forall>x \<in> set ?xs. 0 < x * ?M \<and> x * ?M \<le> 128"
    using gaussian_weight_bounds(1) gaussian_weight_pos by (auto simp: xs)
  from half_kernel_steps [OF this _ f] obtain cs where cs: "hk = [] @ cs" "length cs = length ?xs" "\<bar>e\<bar> \<le> 1 / 2"
    "(\<Sum>c\<leftarrow>cs. real_of_int (uint c)) = sum_list ?xs * ?M + e - 0"
    "\<forall>i < length ?xs. \<bar>real_of_int (uint (cs ! i)) - ?xs ! i * ?M\<bar> \<le> 1"
    by fastforce
  then have hk: "length hk = h" and e: "\<bar>e\<bar> \<le> 1 / 2"
    and total: "real_of_int (\<Sum>i<h. uint (hk ! i)) = (\<Sum>k<h. gaussian_weight s h k) + e"
    and each: "\<And>i. i < h \<Longrightarrow> \<bar>real_of_int (uint (hk ! i)) - gaussian_weight s h i\<bar> \<le> 1"
    by (simp_all add: xs sum_list_sum_nth atLeast0LessThan sum_distrib_right del: of_int_uint)
  have "?M - e < 256 + 1 / 2"
  proof (cases "h = 0")
    case True
    then show ?thesis using f gaussian_weight_bounds(2) [of s h] by simp
  next
    case False
    then have "0 < (\<Sum>k<h. gaussian_weight s h k)" by (intro sum_pos gaussian_weight_pos) auto
    then show ?thesis using e gaussian_weight_sum [of s h] unfolding abs_le_iff by linarith
  qed
  from that [OF f hk e this total each] show thesis .
qed

lemma generate_exact_cases:
  assumes "s = exact_sigma h sigma" and "r = round_away (gaussian_weight s h h - e)"
    and "fold (half_kernel_step exact_ops (gaussian_weight s h h)) (map (gaussian_value s h) [0..<h]) ([], 0) = (hk, e)"
    and e: "\<bar>e\<bar> \<le> 1 / 2" and "gaussian_weight s h h - e < 256 + 1 / 2"
  shows "generate_gaussian_half_kernel exact_ops (h + 1) sigma = (if r = 256 then None else Some (hk @ [word_of_int r]))"
    and "r \<noteq> 256 \<Longrightarrow> uint (word_of_int r :: u8) = r"
proof -
  have r: "0 \<le> r" "r < 257"
    using assms(2,5) e gaussian_weight_pos [of s h h] unfolding abs_le_iff
    by (auto intro!: round_away_nonneg round_away_less)
  then have mid: "uint (word_of_int r :: u16) = r" by (intro uint_word_of_int_small) simp_all
  then have "(word_of_int r :: u16) = 256 \<longleftrightarrow> r = 256"
    by (metis word_of_int_numeral uint_256_u16)
  then show "generate_gaussian_half_kernel exact_ops (h + 1) sigma = (if r = 256 then None else Some (hk @ [word_of_int r]))"
    unfolding generate_exact Let_def assms(1) [symmetric] assms(3)
    by (simp add: mid assms(2) [symmetric] flip: word_of_int_uint_ucast)
  show "r \<noteq> 256 \<Longrightarrow> uint (word_of_int r :: u8) = r" using r by (intro uint_word_of_int_small) simp_all
qed

text \<open>
  C31. In exact arithmetic the coefficients of \<^verbatim>\<open>generate_gaussian_half_kernel\<close> are the
  Gaussian weights of the taps up to an error of at most one 256th each, and with the mirrored half
  they add up to one, up to one 256th: the rounding errors do not accumulate. The function gives up
  only when the middle tap has at least 255 of the 256 parts of the weight.
\<close>

theorem half_kernel_weights:
  "case generate_gaussian_half_kernel exact_ops (h + 1) sigma of
     None \<Rightarrow> 255 \<le> gaussian_weight (exact_sigma h sigma) h h
   | Some hk \<Rightarrow> length hk = h + 1
       \<and> (\<forall>i \<le> h. \<bar>real_of_int (uint (hk ! i)) - gaussian_weight (exact_sigma h sigma) h i\<bar> \<le> 1)
       \<and> \<bar>2 * (\<Sum>i<h. uint (hk ! i)) + uint (hk ! h) - 256\<bar> \<le> 1"
proof -
  define s where "s = exact_sigma h sigma"
  obtain hk e where f: "fold (half_kernel_step exact_ops (gaussian_weight s h h)) (map (gaussian_value s h) [0..<h]) ([], 0) = (hk, e)"
    and hk: "length hk = h" and e: "\<bar>e\<bar> \<le> 1 / 2" and M: "gaussian_weight s h h - e < 256 + 1 / 2"
    and sum: "real_of_int (\<Sum>i<h. uint (hk ! i)) = (\<Sum>k<h. gaussian_weight s h k) + e"
    and each: "\<And>i. i < h \<Longrightarrow> \<bar>real_of_int (uint (hk ! i)) - gaussian_weight s h i\<bar> \<le> 1"
    by (rule exact_coefficients [of s h]) blast
  define r where "r = round_away (gaussian_weight s h h - e)"
  have round: "\<bar>of_int r - (gaussian_weight s h h - e)\<bar> \<le> 1 / 2" unfolding r_def by (rule round_away_error)
  note gen = generate_exact_cases [OF s_def r_def f e M]
  show ?thesis
  proof (cases "r = 256")
    case True
    then have "255 \<le> gaussian_weight s h h" using round e unfolding abs_le_iff by simp
    then show ?thesis using gen True by (simp flip: s_def)
  next
    case False
    note u = gen(2) [OF False]
    have "\<bar>real_of_int (uint ((hk @ [word_of_int r]) ! i)) - gaussian_weight s h i\<bar> \<le> 1" if "i \<le> h" for i
    proof (cases "i = h")
      case True
      have "\<bar>of_int r - gaussian_weight s h h\<bar> \<le> 1" using round e unfolding abs_le_iff by linarith
      with True show ?thesis by (simp add: nth_append hk u del: of_int_uint)
    qed (use that each hk in \<open>simp add: nth_append del: of_int_uint\<close>)
    moreover have "\<bar>real_of_int (2 * (\<Sum>i<h. uint (hk ! i)) + r - 256)\<bar> \<le> 1"
      using sum round e gaussian_weight_sum [of s h] unfolding abs_le_iff of_int_add of_int_diff of_int_mult
      by (simp del: of_int_uint of_int_sum)
    then have "\<bar>2 * (\<Sum>i<h. uint (hk ! i)) + r - 256\<bar> \<le> 1" by linarith
    ultimately show ?thesis
      using gen(1) False hk by (simp add: nth_append u del: of_int_uint flip: s_def)
  qed
qed

lemma half_kernel_weights_witness:
  "\<exists>hk. generate_gaussian_half_kernel exact_ops (1 + 1) 1 = Some hk \<and> length hk = 2
    \<and> \<bar>2 * uint (hk ! 0) + uint (hk ! 1) - 256\<bar> \<le> 1"
proof -
  have "1 / 2 \<le> exp (- (1 / 2) :: real)" using exp_ge_add_one_self [of "- (1 / 2) :: real"] by simp
  then have "gaussian_weight (exact_sigma 1 1) 1 1 \<le> 128"
    by (simp add: gaussian_weight_def gaussian_value_def exact_sigma_def field_simps)
  then show ?thesis
    using half_kernel_weights [of 1 1] by (auto split: option.splits)
qed

text \<open>
  One 256th too much is possible: with this sigma two errors of one half add up, and the mirrored
  coefficients 25, 207 and 25 have the sum 257.
\<close>

lemma coefficients_of_257:
  fixes sigma :: real
  assumes "sigma = 1 / sqrt (2 * ln (414 / 49))"
  shows "0 < sigma" and "generate_gaussian_half_kernel exact_ops 2 sigma = Some [25, 207]"
proof -
  have l: "0 < ln (414 / 49 :: real)" by simp
  then show pos: "0 < sigma" unfolding assms by simp
  have "sigma\<^sup>2 = 1 / (2 * ln (414 / 49))"
    using l unfolding assms power_divide by (subst real_sqrt_pow2) simp_all
  then have "- 1 / (2 * sigma\<^sup>2) = - ln (414 / 49)" using l by simp
  then have v: "gaussian_value sigma 1 0 = 49 / 414"
    unfolding gaussian_value_def by (simp add: exp_minus)
  have M: "gaussian_weight sigma 1 1 = 207"
    using gaussian_value_def [of sigma 1 1] unfolding gaussian_weight_def
    by (simp add: v [unfolded One_nat_def])
  have s: "exact_sigma 1 sigma = sigma" using pos by (simp add: exact_sigma_def)
  have r: "round_away (49 / 2) = 25" "round_away (207 - 1 / 2) = 207"
    by (simp_all add: round_away_def)
  have "fold (half_kernel_step exact_ops 207) (map (gaussian_value sigma 1) [0..<1]) ([], 0) = ([25], 1 / 2)"
    by (simp add: half_kernel_step_exact v [unfolded One_nat_def] r(1))
  then have "generate_gaussian_half_kernel exact_ops (1 + 1) sigma = Some [25, 207]"
    unfolding generate_exact Let_def s M by (simp only: prod.case r(2)) simp
  then show "generate_gaussian_half_kernel exact_ops 2 sigma = Some [25, 207]" by (simp add: numeral_2_eq_2)
qed

text \<open>
  The exact arithmetic with a hyperbola in place of the exponential function: an arithmetic in which
  the code can be run.
\<close>

definition hyperbola_ops :: "real float_ops" where
  "hyperbola_ops = exact_ops\<lparr>f_exp := \<lambda>x. 1 / (1 - x)\<rparr>"

lemma hyperbola_half_kernels:
  "generate_gaussian_half_kernel hyperbola_ops 2 1 = Some [73, 110]"
  "generate_gaussian_half_kernel hyperbola_ops 2 (1 / 100) = None"
  by (simp_all add: generate_gaussian_half_kernel_def hyperbola_ops_def exact_ops_def half_kernel_step_def Let_def
      round_away_def)

end
