(* ===== verification/Filter_Images.thy ===== *)
theory Filter_Images
  imports Gaussian_Kernels Thread_Batches
begin

text \<open>
  What a stripe function of a separable filter does, for elements of any type: the same few lines,
  create the workspace and process the rows from \<open>y_begin\<close> to \<open>y_end\<close>, appear in every filter.
\<close>

section \<open>Stripes\<close>

definition image_rows :: "'a::len itself \<Rightarrow> nat \<Rightarrow> nat \<Rightarrow> nat \<Rightarrow> Rows" where
  "image_rows t ptr stride channels =
     \<lparr> row_ptr = ptr, row_stride = stride, row_sizeof = sizeof TYPE('a), row_channels = channels \<rparr>"

text \<open>The workspace of an image of \<open>w\<close> by \<open>h\<close> pixels with a buffer at \<open>buf\<close>.\<close>

definition image_workspace :: "nat \<Rightarrow> nat \<Rightarrow> nat \<Rightarrow> nat \<Rightarrow> nat \<Rightarrow> SeparableFilterWorkspace" where
  "image_workspace w h ch buf s =
     \<lparr> ws_rect = \<lparr> rectangle_width = w, rectangle_height = h \<rparr>, ws_channels = ch, ws_buffer = buf,
       ws_buffer_rows_stride = s \<rparr>"

lemma workspace_create_image:
  assumes "(w * ch + 3) * k \<le> size_max" and "0 < k" and "malloc ((w * ch + 3) * k) = Some buf"
  shows "workspace_create malloc \<lparr> rectangle_width = w, rectangle_height = h \<rparr> ch k
    = Inr (image_workspace w h ch buf ((w * ch + 3) * k))"
proof -
  have "w * ch + 3 \<le> (w * ch + 3) * k" using assms(2) by simp
  then have "w * ch + 3 \<le> size_max" using assms(1) by linarith
  then have "size_wrap (int w * int ch) = w * ch" and "size_wrap (int (w * ch) + 3) = w * ch + 3"
    using size_wrap_id [of "w * ch"] size_wrap_id [of "w * ch + 3"] by simp_all
  moreover have "size_wrap (int (w * ch + 3) * int k) = (w * ch + 3) * k"
    using size_wrap_id [OF assms(1)] by simp
  ultimately show ?thesis
    using assms(3) by (simp add: workspace_create_def workspace_allocate_def image_workspace_def Let_def)
qed

section \<open>Filtered images\<close>

text \<open>
  The workspace of \<open>n\<close> bytes, the source and the destination lie in memory without overlap.
\<close>

definition filter_memory ::
    "'a::len itself \<Rightarrow> 'd::len itself \<Rightarrow> nat \<Rightarrow> nat \<Rightarrow> nat \<Rightarrow> nat \<Rightarrow> nat \<Rightarrow> nat \<Rightarrow> nat \<Rightarrow> nat \<Rightarrow> nat \<Rightarrow> bool" where
  "filter_memory ta td w h ch src ss dst ds buf n \<longleftrightarrow>
     w * ch * sizeof TYPE('a) \<le> ss \<and> w * ch * sizeof TYPE('d) \<le> ds
     \<and> src + h * ss \<le> size_max \<and> dst + h * ds \<le> size_max \<and> buf + n \<le> size_max
     \<and> {buf..<buf + n} \<inter> {src..<src + h * ss} = {} \<and> {buf..<buf + n} \<inter> {dst..<dst + h * ds} = {}
     \<and> {src..<src + h * ss} \<inter> {dst..<dst + h * ds} = {}"

text \<open>Channel \<open>c\<close> of pixel \<open>x\<close> of row \<open>y\<close>.\<close>

definition pixel_at :: "'a::len itself \<Rightarrow> nat \<Rightarrow> nat \<Rightarrow> nat \<Rightarrow> nat \<Rightarrow> nat \<Rightarrow> nat \<Rightarrow> nat" where
  "pixel_at t ptr stride ch y x c = ptr + y * stride + (x * ch + c) * sizeof TYPE('a)"

text \<open>The element a filter tap reads: tap \<open>k\<close> of row \<open>y\<close> and tap \<open>j\<close> of column \<open>x\<close>.\<close>

definition filter_tap ::
    "'a::len itself \<Rightarrow> nat \<Rightarrow> FixedBorderType \<Rightarrow> nat \<Rightarrow> nat \<Rightarrow> nat \<Rightarrow> nat \<Rightarrow> nat \<Rightarrow> mem \<Rightarrow> nat \<Rightarrow> nat \<Rightarrow> nat \<Rightarrow> nat \<Rightarrow> nat \<Rightarrow>
     'a word" where
  "filter_tap t S bt w h ch src ss m y x c k j =
     load_elem (pixel_at TYPE('a) src ss ch
       (border_coordinate (border_type_of bt) (int y + int k - int (S div 2)) h)
       (border_coordinate (border_type_of bt) (int x + int j - int (S div 2)) w) c) m"

text \<open>
  A call that filters the rows from \<open>y_begin\<close> to \<open>y_end\<close> succeeds, the rows hold the elements asked
  for, and only they and the workspace have changed.
\<close>

definition filtered ::
    "'d::len itself \<Rightarrow> nat \<Rightarrow> nat \<Rightarrow> nat \<Rightarrow> nat \<Rightarrow> nat \<Rightarrow> nat \<Rightarrow> nat \<Rightarrow> nat \<Rightarrow> (nat \<Rightarrow> nat \<Rightarrow> nat \<Rightarrow> 'd word) \<Rightarrow> mem \<Rightarrow>
     kleidicv_error_t \<times> mem \<Rightarrow> bool" where
  "filtered t w ch dst ds buf n y_begin y_end pixel m r \<longleftrightarrow>
     fst r = KLEIDICV_OK
     \<and> (\<forall>y x c. y_begin \<le> y \<and> y < y_end \<and> x < w \<and> c < ch \<longrightarrow>
          load_elem (pixel_at TYPE('d) dst ds ch y x c) (snd r) = pixel y x c)
     \<and> (\<forall>a. a \<notin> {buf..<buf + n}
          \<and> (\<forall>y. y_begin \<le> y \<and> y < y_end \<longrightarrow> a \<notin> {dst + y * ds..<dst + y * ds + w * ch * sizeof TYPE('d)})
          \<longrightarrow> snd r a = m a)"

lemma filteredD:
  assumes "filtered TYPE('d::len) w ch dst ds buf n y_begin y_end pixel m r"
  shows "fst r = KLEIDICV_OK"
    and "y_begin \<le> y \<Longrightarrow> y < y_end \<Longrightarrow> x < w \<Longrightarrow> c < ch \<Longrightarrow>
      load_elem (pixel_at TYPE('d) dst ds ch y x c) (snd r) = pixel y x c"
    and "a \<notin> {buf..<buf + n} \<Longrightarrow>
      (\<And>y. y_begin \<le> y \<Longrightarrow> y < y_end \<Longrightarrow> a \<notin> {dst + y * ds..<dst + y * ds + w * ch * sizeof TYPE('d)})
      \<Longrightarrow> snd r a = m a"
  using assms unfolding filtered_def by blast+

lemma filtered_cong:
  assumes "\<And>y x c. y_begin \<le> y \<Longrightarrow> y < y_end \<Longrightarrow> x < w \<Longrightarrow> c < ch \<Longrightarrow> pixel y x c = pixel' y x c"
  shows "filtered TYPE('d::len) w ch dst ds buf n y_begin y_end pixel m r
    = filtered TYPE('d) w ch dst ds buf n y_begin y_end pixel' m r"
  using assms unfolding filtered_def by auto

lemma image_element_rows:
  "image_element TYPE('a::len) (image_rows TYPE('a) p st ch) y (x * ch + c) = pixel_at TYPE('a) p st ch y x c"
  by (simp add: image_element_def row_address_def image_rows_def pixel_at_def)

lemma filter_memory_layout:
  assumes "filter_memory TYPE('a::len) TYPE('d::len) w h ch src ss dst ds buf n"
    and "(w * ch + 3) * sizeof TYPE('b::len) \<le> n"
  shows "filter_layout TYPE('a) TYPE('b) TYPE('d) w h ch (image_rows TYPE('a) src ss ch)
    (image_rows TYPE('d) dst ds ch) (image_workspace w h ch buf s)"
proof -
  have "row_bytes TYPE('b) buf (w * ch) \<subseteq> {buf..<buf + n}" and "row_address TYPE('b) buf (w * ch) \<le> buf + n"
    using assms(2) by (auto simp: row_bytes_def row_address_def distrib_right)
  then show ?thesis
    using assms(1)
    by (auto simp: filter_layout_def channel_layout_def image_rows_def image_workspace_def filter_memory_def
        stride_bytes_def)
qed

lemma separated_taps:
  fixes flt :: "('a::len, 'b::len, 'd::len) word_kernel"
  assumes "c < ch"
  shows "separated_element S bt w h ch flt (image_rows TYPE('a) src ss ch) y (x * ch + c) m =
     horizontal_scalar_path flt (map (\<lambda>j. vertical_scalar_path flt
       (map (\<lambda>k. filter_tap TYPE('a) S bt w h ch src ss m y x c k j) [0..<S])) [0..<S])"
  using assms
  by (simp add: separated_element_def row_value_def image_element_rows filter_tap_def tap_coordinate_def)

lemma separable_filtered:
  fixes flt :: "('a::len, 'b::len, 'd::len) word_kernel"
  assumes "separable_filter flt S ok lane"
    and lay: "filter_memory TYPE('a) TYPE('d) w h ch src ss dst ds buf n"
    and n: "(w * ch + 3) * sizeof TYPE('b) \<le> n"
    and dims: "S - 1 \<le> w" "S - 1 \<le> h" "w \<le> size_max" "h \<le> size_max" and ys: "y_begin \<le> y_end" "y_end \<le> h"
  shows "filtered TYPE('d) w ch dst ds buf n y_begin y_end
      (\<lambda>y x c. horizontal_scalar_path flt (map (\<lambda>j. vertical_scalar_path flt
        (map (\<lambda>k. filter_tap TYPE('a) S bt w h ch src ss m y x c k j) [0..<S])) [0..<S])) m
    (KLEIDICV_OK, workspace_process S (image_workspace w h ch buf s) y_begin y_end (image_rows TYPE('a) src ss ch)
      (image_rows TYPE('d) dst ds ch) bt flt m)"
proof -
  let ?r = "workspace_process S (image_workspace w h ch buf s) y_begin y_end (image_rows TYPE('a) src ss ch)
      (image_rows TYPE('d) dst ds ch) bt flt m"
  note layout = filter_memory_layout [OF lay n, of s]
  note image = separable_filter.workspace_process_image [OF assms(1) layout dims ys]
  have "load_elem (pixel_at TYPE('d) dst ds ch y x c) ?r
      = horizontal_scalar_path flt (map (\<lambda>j. vertical_scalar_path flt
        (map (\<lambda>k. filter_tap TYPE('a) S bt w h ch src ss m y x c k j) [0..<S])) [0..<S])"
    if "y_begin \<le> y" "y < y_end" "x < w" "c < ch" for y x c
  proof -
    have e: "x * ch + c < w * ch" using that by (intro element_in_row) simp_all
    show ?thesis
      using image(1) [OF that(1,2) e, of bt m] that(4)
      by (simp add: image_element_rows separated_taps)
  qed
  moreover have "?r a = m a"
    if "a \<notin> {buf..<buf + n}"
      "\<And>y. y_begin \<le> y \<Longrightarrow> y < y_end \<Longrightarrow> a \<notin> {dst + y * ds..<dst + y * ds + w * ch * sizeof TYPE('d)}" for a
    using that n
    by (intro image(2)) (auto simp: row_bytes_def image_rows_def image_workspace_def distrib_right)
  ultimately show ?thesis unfolding filtered_def by auto
qed

end
