(* ===== verification/Gaussian_Blur.thy ===== *)
theory Gaussian_Blur
  imports Gaussian_Sigma Filter_Images
begin

text \<open>
  Gaussian blur of fixed kernel sizes: the checks of
  \<^verbatim>\<open>kleidicv/include/kleidicv/filters/gaussian_blur.h\<close>, the Neon stripe function of
  \<^verbatim>\<open>kleidicv/src/filters/gaussian_blur_fixed_neon.cpp\<close> and the operation
  \<^verbatim>\<open>kleidicv_gaussian_blur_u8\<close> of \<^verbatim>\<open>gaussian_blur_api.cpp\<close>.
\<close>

section \<open>Checks\<close>

definition gaussian_blur_checks :: "nat \<Rightarrow> nat \<Rightarrow> nat \<Rightarrow> nat \<Rightarrow> nat \<Rightarrow> nat \<Rightarrow> kleidicv_error_t" where
  "gaussian_blur_checks src src_stride dst dst_stride width height =
     checks [check_pointer_and_stride 1 src src_stride height,
             check_pointer_and_stride 1 dst dst_stride height,
             check_image_size width height]"

text \<open>The error, or the border type the operation goes on with.\<close>

definition gaussian_blur_validate ::
    "'f float_ops \<Rightarrow> nat \<Rightarrow> nat \<Rightarrow> nat \<Rightarrow> nat \<Rightarrow> nat \<Rightarrow> nat \<Rightarrow> nat \<Rightarrow> nat \<Rightarrow> nat \<Rightarrow> 'f \<Rightarrow> 'f \<Rightarrow>
     kleidicv_border_type_t \<Rightarrow> kleidicv_error_t + FixedBorderType" where
  "gaussian_blur_validate fl src src_stride dst dst_stride width height channels kernel_width kernel_height
      sigma_x sigma_y border_type =
     (case get_fixed_border_type border_type of
        None \<Rightarrow> Inl KLEIDICV_ERROR_NOT_IMPLEMENTED
      | Some fixed_border_type \<Rightarrow>
          if kernel_width \<noteq> kernel_height then Inl KLEIDICV_ERROR_NOT_IMPLEMENTED
          else if kernel_width < 3 \<or> 255 < kernel_width then Inl KLEIDICV_ERROR_NOT_IMPLEMENTED
          else if kernel_width AND 1 \<noteq> 1 then Inl KLEIDICV_ERROR_NOT_IMPLEMENTED
          else if \<not> f_equal fl sigma_x sigma_y then Inl KLEIDICV_ERROR_NOT_IMPLEMENTED
          else if width < kernel_width - 1 \<or> height < kernel_width - 1 then Inl KLEIDICV_ERROR_NOT_IMPLEMENTED
          else if KLEIDICV_MAXIMUM_CHANNEL_COUNT < channels then Inl KLEIDICV_ERROR_NOT_IMPLEMENTED
          else if (9 < kernel_width \<and> kernel_width \<noteq> 15 \<and> kernel_width \<noteq> 21) \<and>
              (fixed_border_type \<noteq> REPLICATE \<or>
               (let margin = kernel_width div 2;
                    max_border_length = 8;
                    aligned_margin = (margin + max_border_length - 1) div max_border_length * max_border_length
                in width < aligned_margin + margin))
            then Inl KLEIDICV_ERROR_NOT_IMPLEMENTED
          else (let check_error = gaussian_blur_checks src src_stride dst dst_stride width height in
                if check_error \<noteq> KLEIDICV_OK then Inl check_error else Inr fixed_border_type))"

section \<open>The stripe function\<close>

definition gaussian_rows :: "nat \<Rightarrow> nat \<Rightarrow> nat \<Rightarrow> Rows" where
  "gaussian_rows ptr stride channels =
     \<lparr> row_ptr = ptr, row_stride = stride, row_sizeof = sizeof TYPE(8), row_channels = channels \<rparr>"

text \<open>
  \<open>malloc n\<close> is the address of the \<open>n\<close> bytes of the workspace, or nothing. The size of a
  \<^verbatim>\<open>BufferType\<close> is two bytes for a binomial kernel and one otherwise.
\<close>

definition gaussian_blur_fixed_kernel_size ::
    "'f float_ops \<Rightarrow> (nat \<Rightarrow> nat option) \<Rightarrow> nat \<Rightarrow> bool \<Rightarrow> nat \<Rightarrow> nat \<Rightarrow> nat \<Rightarrow> nat \<Rightarrow> Rectangle \<Rightarrow> nat \<Rightarrow> nat \<Rightarrow>
     nat \<Rightarrow> 'f \<Rightarrow> FixedBorderType \<Rightarrow> mem action" where
  "gaussian_blur_fixed_kernel_size fl malloc KernelSize IsBinomial src src_stride dst dst_stride rect
      y_begin y_end channels sigma border_type m =
     (let intermediate_size = (if IsBinomial then sizeof TYPE(16) else sizeof TYPE(8)) in
      case workspace_create malloc rect channels intermediate_size of
        Inl err \<Rightarrow> (err, m)
      | Inr workspace \<Rightarrow>
          let src_rows = gaussian_rows src src_stride channels;
              dst_rows = gaussian_rows dst dst_stride channels
          in if IsBinomial then
               (KLEIDICV_OK, workspace_process KernelSize workspace y_begin y_end src_rows dst_rows border_type
                  (GaussianBlur_binomial KernelSize) m)
             else
               (case generate_gaussian_half_kernel fl (get_half_kernel_size KernelSize) sigma of
                  Some half_kernel \<Rightarrow>
                    (KLEIDICV_OK, workspace_process KernelSize workspace y_begin y_end src_rows dst_rows border_type
                       (GaussianBlur_half_kernel KernelSize half_kernel) m)
                | None \<Rightarrow>
                    (KLEIDICV_OK, fold (\<lambda>row. memcpy (rows_pointer_at dst_rows (int row) 0)
                       (rows_pointer_at src_rows (int row) 0)
                       (size_wrap (int (rectangle_width rect) * int (sizeof TYPE(8)) * int channels)))
                       [y_begin..<y_end] m)))"

definition gaussian_blur_fixed ::
    "'f float_ops \<Rightarrow> (nat \<Rightarrow> nat option) \<Rightarrow> bool \<Rightarrow> nat \<Rightarrow> nat \<Rightarrow> nat \<Rightarrow> nat \<Rightarrow> nat \<Rightarrow> Rectangle \<Rightarrow> nat \<Rightarrow> nat \<Rightarrow>
     nat \<Rightarrow> 'f \<Rightarrow> FixedBorderType \<Rightarrow> mem action" where
  "gaussian_blur_fixed fl malloc IsBinomial kernel_size src src_stride dst dst_stride rect y_begin y_end
      channels sigma border_type =
     (let run = (\<lambda>KernelSize IsBinomial. gaussian_blur_fixed_kernel_size fl malloc KernelSize IsBinomial
            src src_stride dst dst_stride rect y_begin y_end channels sigma border_type)
      in if kernel_size = 3 then run 3 IsBinomial
         else if kernel_size = 5 then run 5 IsBinomial
         else if kernel_size = 7 then run 7 IsBinomial
         else if kernel_size = 9 then run 9 IsBinomial
         else if kernel_size = 15 then run 15 False
         else if kernel_size = 21 then run 21 False
         else (\<lambda>m. (KLEIDICV_ERROR_NOT_IMPLEMENTED, m)))"

text \<open>The arguments of a stripe function, in the order of the declaration.\<close>

type_synonym 'f gaussian_stripe =
  "nat \<Rightarrow> nat \<Rightarrow> nat \<Rightarrow> nat \<Rightarrow> nat \<Rightarrow> nat \<Rightarrow> nat \<Rightarrow> nat \<Rightarrow> nat \<Rightarrow> nat \<Rightarrow> nat \<Rightarrow> 'f \<Rightarrow> 'f \<Rightarrow> FixedBorderType \<Rightarrow> mem action"

definition gaussian_blur_fixed_stripe_u8 :: "'f float_ops \<Rightarrow> (nat \<Rightarrow> nat option) \<Rightarrow> 'f gaussian_stripe" where
  "gaussian_blur_fixed_stripe_u8 fl malloc src src_stride dst dst_stride width height y_begin y_end channels
      kernel_width kernel_height sigma_x sigma_y fixed_border_type =
     gaussian_blur_fixed fl malloc (f_equal fl sigma_x (f_literal fl 0)) kernel_width src src_stride dst dst_stride
       \<lparr> rectangle_width = width, rectangle_height = height \<rparr> y_begin y_end channels sigma_x fixed_border_type"

section \<open>The operation\<close>

text \<open>
  The stripe functions the library has chosen when it was loaded are arguments: the two for fixed
  kernel sizes and the one for arbitrary sizes.
\<close>

definition gaussian_blur_u8 ::
    "'f float_ops \<Rightarrow> 'f gaussian_stripe \<Rightarrow> 'f gaussian_stripe \<Rightarrow> 'f gaussian_stripe \<Rightarrow> bool \<Rightarrow>
     nat \<Rightarrow> nat \<Rightarrow> nat \<Rightarrow> nat \<Rightarrow> nat \<Rightarrow> nat \<Rightarrow> nat \<Rightarrow> nat \<Rightarrow> nat \<Rightarrow> 'f \<Rightarrow> 'f \<Rightarrow> kleidicv_border_type_t \<Rightarrow> mem action" where
  "gaussian_blur_u8 fl fixed_stripe fixed_stripe_sme arbitrary_stripe kUseSME src src_stride dst dst_stride
      width height channels kernel_width kernel_height sigma_x sigma_y border_type m =
     (case gaussian_blur_validate fl src src_stride dst dst_stride width height channels kernel_width
        kernel_height sigma_x sigma_y border_type of
        Inl err \<Rightarrow> (err, m)
      | Inr fixed_border_type \<Rightarrow>
          if kernel_width \<le> 9 \<or> kernel_width = 15 \<or> kernel_width = 21 then
            (if kUseSME then fixed_stripe_sme else fixed_stripe) src src_stride dst dst_stride width height 0 height
              channels kernel_width kernel_height sigma_x sigma_y fixed_border_type m
          else arbitrary_stripe src src_stride dst dst_stride width height 0 height
              channels kernel_width kernel_height sigma_x sigma_y fixed_border_type m)"


section \<open>The image\<close>

text \<open>
  The buffer, the source and the destination lie in memory without overlap; \<open>n\<close> is the size of the
  workspace.
\<close>

definition blur_layout :: "nat \<Rightarrow> nat \<Rightarrow> nat \<Rightarrow> nat \<Rightarrow> nat \<Rightarrow> nat \<Rightarrow> nat \<Rightarrow> nat \<Rightarrow> nat \<Rightarrow> bool" where
  "blur_layout w h ch src ss dst ds buf n \<longleftrightarrow>
     w * ch \<le> ss \<and> w * ch \<le> ds \<and> src + h * ss \<le> size_max \<and> dst + h * ds \<le> size_max \<and> buf + n \<le> size_max
     \<and> {buf..<buf + n} \<inter> {src..<src + h * ss} = {} \<and> {buf..<buf + n} \<inter> {dst..<dst + h * ds} = {}
     \<and> {src..<src + h * ss} \<inter> {dst..<dst + h * ds} = {}"

text \<open>The byte a filter tap reads: tap \<open>k\<close> of row \<open>y\<close> and tap \<open>j\<close> of column \<open>x\<close>.\<close>

definition source_tap ::
    "nat \<Rightarrow> FixedBorderType \<Rightarrow> nat \<Rightarrow> nat \<Rightarrow> nat \<Rightarrow> nat \<Rightarrow> nat \<Rightarrow> mem \<Rightarrow> nat \<Rightarrow> nat \<Rightarrow> nat \<Rightarrow> nat \<Rightarrow> nat \<Rightarrow> u8" where
  "source_tap S bt w h ch src ss m y x c k j =
     m (src + border_coordinate (border_type_of bt) (int y + int k - int (S div 2)) h * ss
          + border_coordinate (border_type_of bt) (int x + int j - int (S div 2)) w * ch + c)"

text \<open>
  The exact binomial filter, and the filter of given coefficients, which ends each of its two passes
  with a byte; \<open>exact_half_kernel_pixel\<close> rounds the weighted sums instead.
\<close>

definition binomial_pixel :: "nat \<Rightarrow> (nat \<Rightarrow> nat \<Rightarrow> u8) \<Rightarrow> int" where
  "binomial_pixel S tap = rounded (binomial_shift S)
     (weighted_sum (binomial_weights S) (\<lambda>j. weighted_sum (binomial_weights S) (\<lambda>k. uint (tap k j))))"

definition half_kernel_pixel :: "nat \<Rightarrow> u8 list \<Rightarrow> (nat \<Rightarrow> nat \<Rightarrow> u8) \<Rightarrow> int" where
  "half_kernel_pixel S hk tap = half_kernel_pass (weighted_sum (full_kernel S hk)
     (\<lambda>j. half_kernel_pass (weighted_sum (full_kernel S hk) (\<lambda>k. uint (tap k j)))))"

definition exact_half_kernel_pixel :: "nat \<Rightarrow> u8 list \<Rightarrow> (nat \<Rightarrow> nat \<Rightarrow> u8) \<Rightarrow> int" where
  "exact_half_kernel_pixel S hk tap = rounded 8 (weighted_sum (full_kernel S hk)
     (\<lambda>j. rounded 8 (weighted_sum (full_kernel S hk) (\<lambda>k. uint (tap k j)))))"

lemma binomial_filter:
  assumes "S \<in> {3, 5, 7, 9}"
  shows "\<exists>lane. separable_filter (GaussianBlur_binomial S) S (binomial_buffer S) lane"
  using assms binomial_3.separable_filter_axioms binomial_5.separable_filter_axioms
    binomial_7.separable_filter_axioms binomial_9.separable_filter_axioms by auto

lemma half_kernel_contract:
  assumes "filter_size S"
  shows "separable_filter (GaussianBlur_half_kernel S hk) S (\<lambda>_. True) (half_kernel_scalar S hk)"
  using assms half_kernel_lanes [of S hk]
  by unfold_locales (auto simp: filter_types GaussianBlur_half_kernel_def lanes_u8)

text \<open>
  What a call that filters the rows from \<open>y_begin\<close> to \<open>y_end\<close> has done: it succeeds, the rows hold the
  pixels asked for, and only they and the workspace have changed.
\<close>

definition blurred ::
    "nat \<Rightarrow> nat \<Rightarrow> nat \<Rightarrow> nat \<Rightarrow> nat \<Rightarrow> nat \<Rightarrow> nat \<Rightarrow> nat \<Rightarrow> (nat \<Rightarrow> nat \<Rightarrow> nat \<Rightarrow> int) \<Rightarrow> mem \<Rightarrow>
     kleidicv_error_t \<times> mem \<Rightarrow> bool" where
  "blurred w ch dst ds buf n y_begin y_end pixel m r \<longleftrightarrow>
     fst r = KLEIDICV_OK
     \<and> (\<forall>y x c. y_begin \<le> y \<and> y < y_end \<and> x < w \<and> c < ch \<longrightarrow> uint (snd r (dst + y * ds + x * ch + c)) = pixel y x c)
     \<and> (\<forall>a. a \<notin> {buf..<buf + n} \<and> (\<forall>y. y_begin \<le> y \<and> y < y_end \<longrightarrow> a \<notin> {dst + y * ds..<dst + y * ds + w * ch})
         \<longrightarrow> snd r a = m a)"

lemma blurredD:
  assumes "blurred w ch dst ds buf n y_begin y_end pixel m r"
  shows "fst r = KLEIDICV_OK"
    and "y_begin \<le> y \<Longrightarrow> y < y_end \<Longrightarrow> x < w \<Longrightarrow> c < ch \<Longrightarrow> uint (snd r (dst + y * ds + x * ch + c)) = pixel y x c"
    and "a \<notin> {buf..<buf + n} \<Longrightarrow> (\<And>y. y_begin \<le> y \<Longrightarrow> y < y_end \<Longrightarrow> a \<notin> {dst + y * ds..<dst + y * ds + w * ch})
      \<Longrightarrow> snd r a = m a"
  using assms unfolding blurred_def by blast+

lemma gaussian_memory:
  "gaussian_rows = image_rows TYPE(8)" "blur_layout = filter_memory TYPE(8) TYPE(8)"
  "pixel_at TYPE(8) p st ch y x c = p + y * st + x * ch + c" "load_elem a m = (m a :: u8)"
  "filter_tap TYPE(8) S bt w h ch src ss m y x c k j = source_tap S bt w h ch src ss m y x c k j"
  by (simp_all add: fun_eq_iff gaussian_rows_def image_rows_def blur_layout_def filter_memory_def sizeof_def
      pixel_at_def load_elem_def filter_tap_def source_tap_def add.assoc)

lemma separable_blur:
  fixes flt :: "(8, 'b::len, 8) word_kernel"
  assumes "separable_filter flt S ok lane" and lay: "blur_layout w h ch src ss dst ds buf n"
    and n: "(w * ch + 3) * sizeof TYPE('b) \<le> n"
    and dims: "S - 1 \<le> w" "S - 1 \<le> h" "w \<le> size_max" "h \<le> size_max" and ys: "y_begin \<le> y_end" "y_end \<le> h"
    and pixel: "\<And>tap. uint (horizontal_scalar_path flt (map (\<lambda>j. vertical_scalar_path flt
      (map (\<lambda>k. tap k j) [0..<S])) [0..<S])) = pixel tap"
  shows "blurred w ch dst ds buf n y_begin y_end (\<lambda>y x c. pixel (source_tap S bt w h ch src ss m y x c)) m
    (KLEIDICV_OK, workspace_process S (image_workspace w h ch buf s) y_begin y_end (gaussian_rows src ss ch) (gaussian_rows dst ds ch)
        bt flt m)"
proof -
  note image = filteredD [OF separable_filtered [OF assms(1) lay [unfolded gaussian_memory] n dims ys, of bt m s],
      unfolded gaussian_memory pixel sizeof_def]
  have "uint (workspace_process S (image_workspace w h ch buf s) y_begin y_end (gaussian_rows src ss ch)
      (gaussian_rows dst ds ch) bt flt m (dst + y * ds + x * ch + c)) = pixel (source_tap S bt w h ch src ss m y x c)"
    if "y_begin \<le> y" "y < y_end" "x < w" "c < ch" for y x c
    using image(2) [OF that] by (simp add: gaussian_memory pixel)
  then show ?thesis using image(3) unfolding blurred_def by (auto simp: gaussian_memory)
qed

text \<open>The pixels of the two kinds of kernel.\<close>

lemma rounded_byte:
  assumes "0 \<le> x" and "x \<le> 2 ^ n * 255" and "0 < n"
  shows "uint (word_of_int (rounded n x) :: u8) = rounded n x"
proof (rule uint_word_of_int_small)
  show "0 \<le> rounded n x" using assms(1) by (simp add: rounded_def pos_imp_zdiv_nonneg_iff)
  obtain k where n: "n = Suc k" using assms(3) by (cases n) auto
  have "(x + 2 ^ k) div 2 ^ n \<le> (2 ^ n * 255 + 2 ^ k) div 2 ^ n"
    using assms(2) by (intro zdiv_mono1) simp_all
  also have "\<dots> = 255" by (simp add: n)
  finally show "rounded n x < 2 ^ LENGTH(8)" by (simp add: rounded_def n)
qed

lemma binomial_scalars:
  assumes "S \<in> {3, 5, 7, 9}"
  shows "vertical_scalar_path (GaussianBlur_binomial S) = binomial_vertical S"
    and "length v = S \<Longrightarrow> (\<And>x. x \<in> set v \<Longrightarrow> binomial_buffer S x) \<Longrightarrow>
      horizontal_scalar_path (GaussianBlur_binomial S) v = binomial_horizontal S v"
    and "length (binomial_weights S) = S"
    and "sum_list (binomial_weights S) * sum_list (binomial_weights S) = 2 ^ binomial_shift S"
  using assms by (auto simp: GaussianBlur_binomial_def vertical_sums horizontal_scalars horizontal_scalar_7
      horizontal_scalar_9 binomial_weights_def binomial_shift_def)

lemma weighted_sum_cong: "(\<And>j. j < length ws \<Longrightarrow> f j = g j) \<Longrightarrow> weighted_sum ws f = weighted_sum ws g"
  unfolding weighted_sum_def by (intro arg_cong [of _ _ sum_list] map_cong refl) simp

lemma binomial_pixel_scalars:
  assumes S: "S \<in> {3, 5, 7, 9}"
  shows "uint (horizontal_scalar_path (GaussianBlur_binomial S)
    (map (\<lambda>j. vertical_scalar_path (GaussianBlur_binomial S) (map (\<lambda>k. tap k j) [0..<S])) [0..<S]))
    = binomial_pixel S tap"
proof -
  note scalars = binomial_scalars [OF S]
  let ?W = "binomial_weights S"
  let ?v = "map (\<lambda>j. binomial_vertical S (map (\<lambda>k. tap k j) [0..<S])) [0..<S]"
  have ok: "length ?v = S" "\<And>x. x \<in> set ?v \<Longrightarrow> binomial_buffer S x"
    using binomial_vertical_buffer by auto
  have vertical: "weighted_sum ?W (\<lambda>j. uint (?v ! j)) = weighted_sum ?W (\<lambda>j. weighted_sum ?W (\<lambda>k. uint (tap k j)))"
  proof (rule weighted_sum_cong)
    fix j assume "j < length ?W"
    then have "uint (?v ! j) = weighted_sum ?W (\<lambda>k. uint (map (\<lambda>k. tap k j) [0..<S] ! k))"
      by (simp only: scalars(3) nth_map_upt binomial_vertical_def vertical_word_sum)
    also have "\<dots> = weighted_sum ?W (\<lambda>k. uint (tap k j))" by (rule weighted_sum_cong) (simp add: scalars(3))
    finally show "uint (?v ! j) = weighted_sum ?W (\<lambda>k. uint (tap k j))" .
  qed
  have "0 \<le> weighted_sum ?W (\<lambda>j. uint (?v ! j))" "weighted_sum ?W (\<lambda>j. uint (?v ! j)) \<le> 2 ^ binomial_shift S * 255"
    using binomial_buffer_sum [OF ok scalars(3)] scalars(4) by (simp_all add: mult.assoc [symmetric])
  moreover have "0 < binomial_shift S" by (simp add: binomial_shift_def)
  ultimately show ?thesis
    using scalars(2) [OF ok(1)] ok(2) rounded_byte [of "weighted_sum ?W (\<lambda>j. uint (?v ! j))" "binomial_shift S"]
    unfolding scalars(1) binomial_horizontal_def binomial_pixel_def vertical [symmetric] by presburger
qed

lemma half_kernel_pixel_scalars:
  assumes "filter_size S"
  shows "uint (horizontal_scalar_path (GaussianBlur_half_kernel S hk)
    (map (\<lambda>j. vertical_scalar_path (GaussianBlur_half_kernel S hk) (map (\<lambda>k. tap k j) [0..<S])) [0..<S]))
    = half_kernel_pixel S hk tap"
proof -
  note sum = half_kernel_sum [OF filter_size_odd [OF assms]]
  have "weighted_sum (full_kernel S hk)
      (\<lambda>j. uint (map (\<lambda>j. half_kernel_scalar S hk (map (\<lambda>k. tap k j) [0..<S])) [0..<S] ! j))
    = weighted_sum (full_kernel S hk) (\<lambda>j. half_kernel_pass (weighted_sum (full_kernel S hk) (\<lambda>k. uint (tap k j))))"
    by (intro weighted_sum_cong) (simp add: sum, intro arg_cong [of _ _ half_kernel_pass] weighted_sum_cong, simp)
  then show ?thesis by (simp add: GaussianBlur_half_kernel_def sum half_kernel_pixel_def)
qed

text \<open>Coefficients that add up to at most 256 keep both passes in range; with 257 white bytes wrap to zero.\<close>

lemma half_kernel_pixel_exact:
  assumes "sum_list (full_kernel S hk) \<le> 256"
  shows "half_kernel_pixel S hk tap = exact_half_kernel_pixel S hk tap"
proof -
  have byte: "0 \<le> uint (tap k j) \<and> uint (tap k j) \<le> 255" for k j using uint_u8_bounds by simp
  let ?v = "\<lambda>j. weighted_sum (full_kernel S hk) (\<lambda>k. uint (tap k j))"
  have v: "0 \<le> ?v j" "?v j \<le> 65280" for j by (rule half_kernel_sum_bounds [OF assms byte])+
  have pass: "half_kernel_pass (?v j) = rounded 8 (?v j)" for j by (rule half_kernel_pass_exact [OF v])
  have "0 \<le> rounded 8 (?v j) \<and> rounded 8 (?v j) \<le> 255" for j
    using zdiv_mono1 [of "?v j + 128" "65280 + 128" 256] v [of j] by (simp add: rounded_def pos_imp_zdiv_nonneg_iff)
  from half_kernel_sum_bounds [OF assms this]
  show ?thesis unfolding half_kernel_pixel_def exact_half_kernel_pixel_def pass by (intro half_kernel_pass_exact)
qed

lemma half_kernel_pixel_white:
  assumes "sum_list (full_kernel S hk) = 257" and "\<And>k j. k < S \<Longrightarrow> j < S \<Longrightarrow> tap k j = 255"
  shows "half_kernel_pixel S hk tap = 0"
proof -
  have const: "weighted_sum (full_kernel S hk) (\<lambda>j. c) = 257 * c" for c
    unfolding weighted_sum_def sum_list_mult_const assms(1) [symmetric] map_nth by (rule refl)
  have "weighted_sum (full_kernel S hk) (\<lambda>k. uint (tap k j)) = 65535" if "j < S" for j
    using const [of 255] assms(2) that weighted_sum_cong [of "full_kernel S hk" "\<lambda>k. uint (tap k j)" "\<lambda>k. 255"] by simp
  then have "weighted_sum (full_kernel S hk) (\<lambda>j. half_kernel_pass (weighted_sum (full_kernel S hk) (\<lambda>k. uint (tap k j))))
    = weighted_sum (full_kernel S hk) (\<lambda>j. 0)"
    by (intro weighted_sum_cong) (simp add: half_kernel_pass_def)
  then show ?thesis using const [of 0] by (simp add: half_kernel_pixel_def half_kernel_pass_def)
qed

section \<open>The operation as a whole\<close>

text \<open>The legal arguments: what the kernels support, then the pointers, then the size.\<close>

definition supported_blur ::
    "'f float_ops \<Rightarrow> nat \<Rightarrow> nat \<Rightarrow> nat \<Rightarrow> nat \<Rightarrow> nat \<Rightarrow> 'f \<Rightarrow> 'f \<Rightarrow> FixedBorderType \<Rightarrow> bool" where
  "supported_blur fl w h ch kw kh sx sy bt \<longleftrightarrow>
     kw = kh \<and> odd kw \<and> 3 \<le> kw \<and> kw \<le> 255 \<and> f_equal fl sx sy \<and> kw - 1 \<le> w \<and> kw - 1 \<le> h \<and> ch \<le> 4
     \<and> (kw \<in> {3, 5, 7, 9, 15, 21} \<or> bt = REPLICATE \<and> kw div 2 + 8 * ((kw div 2 + 7) div 8) \<le> w)"

lemma merge_if: "(if a then x else if b then x else y) = (if a \<or> b then x else y)"
  by simp

text \<open>
  C32. \<^verbatim>\<open>gaussian_blur_validate\<close> decides exactly as \<open>supported_blur\<close> says, one condition for
  all of its checks of the kernel and of the size of the image: what is not supported, or has a border
  mode without a fixed-size filter, is not implemented; of what is supported, null pointers and then
  images that are too large are refused, and the rest is accepted. A kernel of size 9 is treated as
  the other fixed sizes are and accepted from a width of 8 on, with every fixed border mode, where the
  comment of \<^verbatim>\<open>kleidicv.h\<close> leaves 9 out of these sizes and so asks for a width of 12.
\<close>

theorem gaussian_blur_validate_decides:
  "gaussian_blur_validate fl src ss dst ds w h ch kw kh sx sy border =
     (case get_fixed_border_type border of
        None \<Rightarrow> Inl KLEIDICV_ERROR_NOT_IMPLEMENTED
      | Some bt \<Rightarrow>
          if \<not> supported_blur fl w h ch kw kh sx sy bt then Inl KLEIDICV_ERROR_NOT_IMPLEMENTED
          else if src = nullptr \<or> dst = nullptr then Inl KLEIDICV_ERROR_NULL_POINTER
          else if KLEIDICV_MAX_IMAGE_PIXELS < w * h then Inl KLEIDICV_ERROR_RANGE
          else Inr bt)"
proof (cases "get_fixed_border_type border")
  case (Some bt)
  have odd: "kw AND 1 = 1 \<longleftrightarrow> odd kw" by (simp add: and_one_eq odd_iff_mod_2_eq_one)
  have sizes: "odd kw \<Longrightarrow> 3 \<le> kw \<Longrightarrow> kw \<le> 9 \<Longrightarrow> kw \<in> {3, 5, 7, 9}"
    unfolding insert_iff empty_iff by presburger
  then have small: "kw \<in> {3, 5, 7, 9, 15, 21} \<longleftrightarrow> \<not> (9 < kw \<and> kw \<noteq> 15 \<and> kw \<noteq> 21)" if "odd kw" "3 \<le> kw"
    using that by (auto simp: not_less)
  have margin: "(kw div 2 + 8 - 1) div 8 * 8 = 8 * ((kw div 2 + 7) div 8)" by simp
  have check: "gaussian_blur_checks src ss dst ds w h = (if src = nullptr \<or> dst = nullptr then KLEIDICV_ERROR_NULL_POINTER
      else if KLEIDICV_MAX_IMAGE_PIXELS < w * h then KLEIDICV_ERROR_RANGE else KLEIDICV_OK)"
    by (simp add: gaussian_blur_checks_def check_pointer_and_stride_def check_image_size_RANGE)
  show ?thesis
  proof (cases "odd kw \<and> 3 \<le> kw")
    case True
    define big where "big \<longleftrightarrow> 9 < kw \<and> kw \<noteq> 15 \<and> kw \<noteq> 21"
    define wide where "wide \<longleftrightarrow> kw div 2 + 8 * ((kw div 2 + 7) div 8) \<le> w"
    have supported: "supported_blur fl w h ch kw kh sx sy bt \<longleftrightarrow> kw = kh \<and> kw \<le> 255 \<and> f_equal fl sx sy
        \<and> kw - 1 \<le> w \<and> kw - 1 \<le> h \<and> ch \<le> 4 \<and> (\<not> big \<or> bt = REPLICATE \<and> wide)"
      unfolding supported_blur_def small [OF conjunct1 [OF True] conjunct2 [OF True]] big_def wide_def
      using True by blast
    have narrow: "w < (kw div 2 + 8 - 1) div 8 * 8 + kw div 2 \<longleftrightarrow> \<not> wide"
      unfolding wide_def margin by (simp only: not_le add.commute)
    have bounds: "kw < 3 \<or> 255 < kw \<longleftrightarrow> \<not> kw \<le> 255" "w < kw - 1 \<or> h < kw - 1 \<longleftrightarrow> \<not> (kw - 1 \<le> w \<and> kw - 1 \<le> h)"
      "4 < ch \<longleftrightarrow> \<not> ch \<le> 4" using True by auto
    have "kw AND 1 \<noteq> 1 \<longleftrightarrow> False" using True odd by simp
    note conditions = bounds this narrow big_def [symmetric] KLEIDICV_MAXIMUM_CHANNEL_COUNT_def
    have accepted: "(if (if null then KLEIDICV_ERROR_NULL_POINTER else if large then KLEIDICV_ERROR_RANGE
          else KLEIDICV_OK) \<noteq> KLEIDICV_OK
        then Inl (if null then KLEIDICV_ERROR_NULL_POINTER else if large then KLEIDICV_ERROR_RANGE else KLEIDICV_OK)
        else Inr bt) = (if null then Inl KLEIDICV_ERROR_NULL_POINTER else if large then Inl KLEIDICV_ERROR_RANGE else Inr bt)"
      for null large by simp
    have refuse: "(\<not> A \<or> \<not> B \<or> False \<or> \<not> C \<or> \<not> (D \<and> D') \<or> \<not> E \<or> F \<and> (\<not> G \<or> \<not> H))
        = (\<not> (A \<and> B \<and> C \<and> D \<and> D' \<and> E \<and> (\<not> F \<or> G \<and> H)))" for A B C D D' E F G H by blast
    show ?thesis
      unfolding gaussian_blur_validate_def Some option.case merge_if Let_def conditions check
      by (rule if_cong, unfold supported) (rule refuse, rule refl, rule accepted)
  next
    case False
    have "\<not> supported_blur fl w h ch kw kh sx sy bt" using False unfolding supported_blur_def by blast
    moreover have "kw < 3 \<or> kw AND 1 \<noteq> 1" using False unfolding odd not_le [symmetric] by blast
    then have "gaussian_blur_validate fl src ss dst ds w h ch kw kh sx sy border = Inl KLEIDICV_ERROR_NOT_IMPLEMENTED"
      unfolding gaussian_blur_validate_def Some option.case merge_if
      by (elim disjE) (simp_all only: simp_thms if_True)
    ultimately show ?thesis by (simp only: Some option.case if_True simp_thms)
  qed
qed (simp add: gaussian_blur_validate_def)

lemma gaussian_blur_accepted:
  assumes "gaussian_blur_validate fl src ss dst ds w h ch S S sx sy border = Inr bt"
  shows "S - 1 \<le> w" "S - 1 \<le> h" "w \<le> size_max" "h \<le> size_max" "3 \<le> S"
proof -
  have ok: "S - 1 \<le> w" "S - 1 \<le> h" "3 \<le> S" "gaussian_blur_checks src ss dst ds w h = KLEIDICV_OK"
    using assms by (auto simp: gaussian_blur_validate_def Let_def split: option.splits if_splits)
  then have "w * h \<le> size_max"
    by (simp add: gaussian_blur_checks_def check_image_size_OK KLEIDICV_MAX_IMAGE_PIXELS_def size_max_def
        split: if_splits)
  moreover have "0 < w" "0 < h" using ok by linarith+
  then have "w \<le> w * h" "h \<le> w * h" by simp_all
  ultimately show "S - 1 \<le> w" "S - 1 \<le> h" "w \<le> size_max" "h \<le> size_max" "3 \<le> S" using ok by linarith+
qed

text \<open>The operation on an accepted image is one run of the stripe function for its kernel size.\<close>

lemma gaussian_blur_u8_fixed:
  assumes "gaussian_blur_validate fl src ss dst ds w h ch S S sx sy border = Inr bt" and "filter_size S"
  shows "gaussian_blur_u8 fl (gaussian_blur_fixed_stripe_u8 fl malloc) sme arb False src ss dst ds w h ch S S sx sy border m
    = gaussian_blur_fixed_kernel_size fl malloc S (S \<in> {3, 5, 7, 9} \<and> f_equal fl sx (f_literal fl 0)) src ss dst ds
        \<lparr> rectangle_width = w, rectangle_height = h \<rparr> 0 h ch sx bt m"
  using assms(2) unfolding gaussian_blur_u8_def assms(1) gaussian_blur_fixed_stripe_u8_def gaussian_blur_fixed_def
  by (elim insertE emptyE) (simp_all add: Let_def)

text \<open>A call on an image of two by two pixels, for the examples.\<close>

lemma blur_example:
  "gaussian_blur_validate hyperbola_ops 100 2 200 2 2 2 1 3 3 s s KLEIDICV_BORDER_TYPE_REPLICATE = Inr REPLICATE"
  "blur_layout 2 2 1 100 2 200 2 300 10" "blur_layout 2 2 1 100 2 200 2 300 5"
  "f_equal hyperbola_ops = (=)" "f_literal hyperbola_ops = of_rat"
  by (simp_all add: gaussian_blur_validate_def hyperbola_ops_def exact_ops_def get_fixed_border_type_def gaussian_blur_checks_def
      check_pointer_and_stride_def check_image_size_RANGE KLEIDICV_MAX_IMAGE_PIXELS_def nullptr_def
      KLEIDICV_MAXIMUM_CHANNEL_COUNT_def blur_layout_def size_max_def)

lemma upt_3: "[0..<3] = [0, 1, 2 :: nat]"
  by (simp add: upt_rec)

lemma blur_example_kernel:
  "full_kernel 3 [73, 110] = [73, 110, 73]" "get_half_kernel_size 3 = 2"
  "generate_gaussian_half_kernel hyperbola_ops 2 1 = Some [73, 110]"
  "generate_gaussian_half_kernel hyperbola_ops 2 (1 / 100) = None"
  by (simp_all add: full_kernel_def get_half_kernel_size_def upt_3 hyperbola_half_kernels drop_bit_eq_div)

lemma blur_example_taps:
  "source_tap 3 REPLICATE 2 2 1 100 2 (\<lambda>a. of_nat a) 0 0 0 k j =
     of_nat (100 + (if k = 2 then 2 else 0) + (if j = 2 then 1 else 0))" if "k < 3" "j < 3"
proof -
  have "k = 0 \<or> k = 1 \<or> k = 2" "j = 0 \<or> j = 1 \<or> j = 2" using that by linarith+
  then show ?thesis
    by (elim disjE; simp add: source_tap_def border_coordinate_def border_type_of_def)
qed

text \<open>
  C6. \<^verbatim>\<open>kleidicv_gaussian_blur_u8\<close> with sigma 0 and a kernel of size 3, 5, 7 or 9: every
  channel of every pixel becomes the two-dimensional binomial sum of the source bytes under the
  kernel, coordinates beyond the image being those of the border type, divided by a power of two and
  rounded to nearest once; nothing is lost between the vertical and the horizontal pass. No other
  byte changes outside of the workspace.
\<close>

theorem gaussian_blur_binomial_image:
  assumes "gaussian_blur_validate fl src ss dst ds w h ch S S sx sy border = Inr bt"
    and "S \<in> {3, 5, 7, 9}" and "f_equal fl sx (f_literal fl 0)"
    and "malloc ((w * ch + 3) * 2) = Some buf"
    and "blur_layout w h ch src ss dst ds buf ((w * ch + 3) * 2)"
  shows "blurred w ch dst ds buf ((w * ch + 3) * 2) 0 h
    (\<lambda>y x c. binomial_pixel S (source_tap S bt w h ch src ss m y x c)) m
    (gaussian_blur_u8 fl (gaussian_blur_fixed_stripe_u8 fl malloc) sme arb False src ss dst ds w h ch S S sx sy border m)"
proof -
  from binomial_filter [OF assms(2)] obtain lane
    where flt: "separable_filter (GaussianBlur_binomial S) S (binomial_buffer S) lane" by blast
  have size: "(w * ch + 3) * 2 \<le> size_max" using assms(5) by (simp add: blur_layout_def)
  have create: "workspace_create malloc \<lparr> rectangle_width = w, rectangle_height = h \<rparr> ch 2
    = Inr (image_workspace w h ch buf ((w * ch + 3) * 2))"
    using size assms(4) by (intro workspace_create_image) simp_all
  note dims = gaussian_blur_accepted [OF assms(1)]
  have "gaussian_blur_u8 fl (gaussian_blur_fixed_stripe_u8 fl malloc) sme arb False src ss dst ds w h ch S S sx sy border m
    = gaussian_blur_fixed_kernel_size fl malloc S True src ss dst ds
        \<lparr> rectangle_width = w, rectangle_height = h \<rparr> 0 h ch sx bt m"
    using gaussian_blur_u8_fixed [OF assms(1), of malloc sme arb m] assms(2,3) by auto
  then show ?thesis
    using separable_blur [where bt = bt and m = m and s = "(w * ch + 3) * 2" and pixel = "binomial_pixel S",
        OF flt assms(5) _ dims(1-4) le0 order_refl binomial_pixel_scalars [OF assms(2)]]
    by (simp add: gaussian_blur_fixed_kernel_size_def create sizeof_def)
qed

lemma gaussian_blur_binomial_image_witness:
  "let r = gaussian_blur_u8 hyperbola_ops (gaussian_blur_fixed_stripe_u8 hyperbola_ops (\<lambda>_. Some 300))
         (gaussian_blur_fixed_stripe_u8 hyperbola_ops (\<lambda>_. None)) (gaussian_blur_fixed_stripe_u8 hyperbola_ops (\<lambda>_. None)) False
         100 2 200 2 2 2 1 3 3 0 0 KLEIDICV_BORDER_TYPE_REPLICATE (\<lambda>a. of_nat a)
   in fst r = KLEIDICV_OK \<and> uint (snd r (200 + 0 * 2 + 0 * 1 + 0)) = 101"
proof -
  have "blurred 2 1 200 2 300 ((2 * 1 + 3) * 2) 0 2
      (\<lambda>y x c. binomial_pixel 3 (source_tap 3 REPLICATE 2 2 1 100 2 (\<lambda>a. of_nat a) y x c)) (\<lambda>a. of_nat a)
      (gaussian_blur_u8 hyperbola_ops (gaussian_blur_fixed_stripe_u8 hyperbola_ops (\<lambda>_. Some 300))
         (gaussian_blur_fixed_stripe_u8 hyperbola_ops (\<lambda>_. None)) (gaussian_blur_fixed_stripe_u8 hyperbola_ops (\<lambda>_. None)) False
         100 2 200 2 2 2 1 3 3 0 0 KLEIDICV_BORDER_TYPE_REPLICATE (\<lambda>a. of_nat a))"
    by (rule gaussian_blur_binomial_image) (simp_all add: blur_example blur_example [simplified])
  note image = blurredD(1,2) [OF this]
  have "binomial_pixel 3 (source_tap 3 REPLICATE 2 2 1 100 2 (\<lambda>a. of_nat a) 0 0 0) = 101"
    by (simp add: binomial_pixel_def weighted_sum_3 blur_example_taps blur_example_taps [simplified] rounded_def binomial_shift_def)
  then show ?thesis using image(1) image(2) [of 0 0 0] unfolding Let_def by simp
qed

text \<open>The operation with a half kernel, whatever its coefficients are.\<close>

lemma half_kernel_blurred:
  assumes "gaussian_blur_validate fl src ss dst ds w h ch S S sx sy border = Inr bt"
    and "filter_size S" and "S \<in> {15, 21} \<or> \<not> f_equal fl sx (f_literal fl 0)"
    and "generate_gaussian_half_kernel fl (get_half_kernel_size S) sx = Some hk"
    and "malloc (w * ch + 3) = Some buf"
    and "blur_layout w h ch src ss dst ds buf (w * ch + 3)"
  shows "blurred w ch dst ds buf (w * ch + 3) 0 h
    (\<lambda>y x c. half_kernel_pixel S hk (source_tap S bt w h ch src ss m y x c)) m
    (gaussian_blur_u8 fl (gaussian_blur_fixed_stripe_u8 fl malloc) sme arb False src ss dst ds w h ch S S sx sy border m)"
proof -
  have size: "(w * ch + 3) * 1 \<le> size_max" using assms(6) by (simp add: blur_layout_def)
  have create: "workspace_create malloc \<lparr> rectangle_width = w, rectangle_height = h \<rparr> ch 1
    = Inr (image_workspace w h ch buf ((w * ch + 3) * 1))"
    using size assms(5) by (intro workspace_create_image) simp_all
  note dims = gaussian_blur_accepted [OF assms(1)]
  have "gaussian_blur_u8 fl (gaussian_blur_fixed_stripe_u8 fl malloc) sme arb False src ss dst ds w h ch S S sx sy border m
    = gaussian_blur_fixed_kernel_size fl malloc S False src ss dst ds
        \<lparr> rectangle_width = w, rectangle_height = h \<rparr> 0 h ch sx bt m"
    using gaussian_blur_u8_fixed [OF assms(1,2), of malloc sme arb m] assms(3) by auto
  then show ?thesis
    using separable_blur [where bt = bt and m = m and s = "(w * ch + 3) * 1" and pixel = "half_kernel_pixel S hk",
        OF half_kernel_contract [OF assms(2)] assms(6) _ dims(1-4) le0 order_refl half_kernel_pixel_scalars [OF assms(2)]]
    by (simp add: gaussian_blur_fixed_kernel_size_def create [simplified] sizeof_def assms(4))
qed

text \<open>
  C7. With a sigma for which there is a half kernel every channel of every pixel becomes the byte two
  passes over the source bytes under the kernel give, each of which adds its products up in 16 bits,
  which may wrap around, and keeps the upper byte of the rounded sum. When the mirrored coefficients
  add up to at most 256 nothing wraps around: the byte is the weighted sum rounded after the vertical
  and again after the horizontal pass.
\<close>

theorem gaussian_blur_half_kernel_image:
  assumes "gaussian_blur_validate fl src ss dst ds w h ch S S sx sy border = Inr bt"
    and "filter_size S" and "S \<in> {15, 21} \<or> \<not> f_equal fl sx (f_literal fl 0)"
    and "generate_gaussian_half_kernel fl (get_half_kernel_size S) sx = Some hk"
    and "malloc (w * ch + 3) = Some buf"
    and "blur_layout w h ch src ss dst ds buf (w * ch + 3)"
  shows "blurred w ch dst ds buf (w * ch + 3) 0 h
      (\<lambda>y x c. half_kernel_pixel S hk (source_tap S bt w h ch src ss m y x c)) m
      (gaussian_blur_u8 fl (gaussian_blur_fixed_stripe_u8 fl malloc) sme arb False src ss dst ds w h ch S S sx sy border m)
    \<and> (sum_list (full_kernel S hk) \<le> 256 \<longrightarrow>
        (\<forall>tap. half_kernel_pixel S hk tap = exact_half_kernel_pixel S hk tap))"
  using half_kernel_blurred [where malloc = malloc, OF assms] half_kernel_pixel_exact by blast

lemma gaussian_blur_half_kernel_image_witness:
  "let r = gaussian_blur_u8 hyperbola_ops (gaussian_blur_fixed_stripe_u8 hyperbola_ops (\<lambda>_. Some 300))
         (gaussian_blur_fixed_stripe_u8 hyperbola_ops (\<lambda>_. None)) (gaussian_blur_fixed_stripe_u8 hyperbola_ops (\<lambda>_. None)) False
         100 2 200 2 2 2 1 3 3 1 1 KLEIDICV_BORDER_TYPE_REPLICATE (\<lambda>a. of_nat a)
   in fst r = KLEIDICV_OK \<and> uint (snd r (200 + 0 * 2 + 0 * 1 + 0)) = 101"
proof -
  have both: "blurred 2 1 200 2 300 (2 * 1 + 3) 0 2
      (\<lambda>y x c. half_kernel_pixel 3 [73, 110] (source_tap 3 REPLICATE 2 2 1 100 2 (\<lambda>a. of_nat a) y x c)) (\<lambda>a. of_nat a)
      (gaussian_blur_u8 hyperbola_ops (gaussian_blur_fixed_stripe_u8 hyperbola_ops (\<lambda>_. Some 300))
         (gaussian_blur_fixed_stripe_u8 hyperbola_ops (\<lambda>_. None)) (gaussian_blur_fixed_stripe_u8 hyperbola_ops (\<lambda>_. None)) False
         100 2 200 2 2 2 1 3 3 1 1 KLEIDICV_BORDER_TYPE_REPLICATE (\<lambda>a. of_nat a))
    \<and> (sum_list (full_kernel 3 [73, 110]) \<le> 256 \<longrightarrow>
        (\<forall>tap. half_kernel_pixel 3 [73, 110] tap = exact_half_kernel_pixel 3 [73, 110] tap))"
    by (rule gaussian_blur_half_kernel_image)
      (simp_all add: blur_example blur_example [simplified] blur_example_kernel)
  note image = blurredD(1,2) [OF conjunct1 [OF both]]
  have "half_kernel_pixel 3 [73, 110] tap = exact_half_kernel_pixel 3 [73, 110] tap" for tap
    using conjunct2 [OF both] by (simp add: blur_example_kernel)
  then have "half_kernel_pixel 3 [73, 110] (source_tap 3 REPLICATE 2 2 1 100 2 (\<lambda>a. of_nat a) 0 0 0) = 101"
    by (simp add: exact_half_kernel_pixel_def weighted_sum_def blur_example_kernel upt_3 blur_example_taps
        blur_example_taps [simplified] rounded_def)
  then show ?thesis using image(1) image(2) [of 0 0 0] unfolding Let_def by simp
qed

text \<open>
  C38. When the mirrored coefficients add up to 257, which a rounding error of
  \<^verbatim>\<open>generate_gaussian_half_kernel\<close> can make them do, the accumulators of a white image
  hold 65535, the rounding constant wraps them around, and the white image turns black.
\<close>

theorem white_image_turns_black:
  assumes "gaussian_blur_validate fl src ss dst ds w h ch S S sx sy border = Inr bt"
    and "filter_size S" and "S \<in> {15, 21} \<or> \<not> f_equal fl sx (f_literal fl 0)"
    and "generate_gaussian_half_kernel fl (get_half_kernel_size S) sx = Some hk"
    and "sum_list (full_kernel S hk) = 257"
    and "malloc (w * ch + 3) = Some buf"
    and "blur_layout w h ch src ss dst ds buf (w * ch + 3)"
    and "\<And>y b. y < h \<Longrightarrow> b < w * ch \<Longrightarrow> m (src + y * ss + b) = 255"
  shows "blurred w ch dst ds buf (w * ch + 3) 0 h (\<lambda>y x c. 0) m
    (gaussian_blur_u8 fl (gaussian_blur_fixed_stripe_u8 fl malloc) sme arb False src ss dst ds w h ch S S sx sy border m)"
proof -
  have dims: "0 < h" "0 < w" using gaussian_blur_accepted [OF assms(1)] by linarith+
  have white: "source_tap S bt w h ch src ss m y x c k j = 255" if "c < ch" for y x c k j
    unfolding source_tap_def add.assoc
    using assms(8) [OF border_coordinate_less [OF dims(1)] element_in_row [OF border_coordinate_less [OF dims(2)] that]]
    by (simp add: add.assoc)
  have "half_kernel_pixel S hk (source_tap S bt w h ch src ss m y x c) = 0" if "c < ch" for y x c
    using white [OF that] by (intro half_kernel_pixel_white [OF assms(5)]) simp
  then show ?thesis
    using half_kernel_blurred [where m = m and sme = sme and arb = arb and malloc = malloc, OF assms(1-4,6,7)] unfolding blurred_def by simp
qed

lemma white_image_turns_black_witness:
  "\<exists>sigma > 0. generate_gaussian_half_kernel exact_ops (get_half_kernel_size 3) sigma = Some [25, 207]
   \<and> (let r = gaussian_blur_u8 exact_ops (gaussian_blur_fixed_stripe_u8 exact_ops (\<lambda>_. Some 300))
         (gaussian_blur_fixed_stripe_u8 exact_ops (\<lambda>_. None)) (gaussian_blur_fixed_stripe_u8 exact_ops (\<lambda>_. None)) False
         100 2 200 2 2 2 1 3 3 sigma sigma KLEIDICV_BORDER_TYPE_REPLICATE (\<lambda>_. 255)
      in fst r = KLEIDICV_OK \<and> uint (snd r (200 + 0 * 2 + 0 * 1 + 0)) = 0)"
proof -
  define sigma :: real where "sigma = 1 / sqrt (2 * ln (414 / 49))"
  note coefficients = coefficients_of_257 [OF sigma_def]
  have ops: "f_equal exact_ops = (=)" "f_literal exact_ops = of_rat" by (simp_all add: exact_ops_def)
  have "gaussian_blur_validate exact_ops 100 2 200 2 2 2 1 3 3 sigma sigma KLEIDICV_BORDER_TYPE_REPLICATE = Inr REPLICATE"
    using blur_example(1) [of sigma] unfolding gaussian_blur_validate_def ops blur_example(4) .
  then have "blurred 2 1 200 2 300 (2 * 1 + 3) 0 2 (\<lambda>y x c. 0) (\<lambda>_. 255)
      (gaussian_blur_u8 exact_ops (gaussian_blur_fixed_stripe_u8 exact_ops (\<lambda>_. Some 300))
         (gaussian_blur_fixed_stripe_u8 exact_ops (\<lambda>_. None)) (gaussian_blur_fixed_stripe_u8 exact_ops (\<lambda>_. None)) False
         100 2 200 2 2 2 1 3 3 sigma sigma KLEIDICV_BORDER_TYPE_REPLICATE (\<lambda>_. 255))"
    by (rule white_image_turns_black [where hk = "[25, 207]"])
      (use coefficients(1) in \<open>simp_all add: blur_example blur_example [simplified] blur_example_kernel coefficients(2) ops
        full_kernel_def upt_3\<close>)
  note image = blurredD(1,2) [OF this]
  have "generate_gaussian_half_kernel exact_ops (get_half_kernel_size 3) sigma = Some [25, 207]"
    by (simp add: blur_example_kernel coefficients)
  then show ?thesis
    using coefficients(1) image(1) image(2) [of 0 0 0] unfolding Let_def by (intro exI [of _ sigma]) simp
qed

lemma memcpy_rows_copied:
  assumes "\<And>i j. i \<noteq> j \<Longrightarrow> i < h \<Longrightarrow> j < h \<Longrightarrow> {d i..<d i + n} \<inter> {d j..<d j + n} = {}"
    and "\<And>i j. i < h \<Longrightarrow> j < h \<Longrightarrow> {d i..<d i + n} \<inter> {s j..<s j + n} = {}" and "y_end \<le> (h :: nat)"
  shows "\<And>y b. y_begin \<le> y \<Longrightarrow> y < y_end \<Longrightarrow> b < n \<Longrightarrow>
      fold (\<lambda>i. memcpy (d i) (s i) n) [y_begin..<y_end] m (d y + b) = m (s y + b)"
    and "\<And>a. (\<And>y. y_begin \<le> y \<Longrightarrow> y < y_end \<Longrightarrow> a \<notin> {d y..<d y + n}) \<Longrightarrow>
      fold (\<lambda>i. memcpy (d i) (s i) n) [y_begin..<y_end] m a = m a"
proof -
  let ?f = "\<lambda>k. fold (\<lambda>i. memcpy (d i) (s i) n) [y_begin..<k] m"
  have "(\<forall>y b. y_begin \<le> y \<and> y < k \<and> b < n \<longrightarrow> ?f k (d y + b) = m (s y + b))
      \<and> (\<forall>a. (\<forall>y. y_begin \<le> y \<and> y < k \<longrightarrow> a \<notin> {d y..<d y + n}) \<longrightarrow> ?f k a = m a)" if "k \<le> h" for k
    using that
  proof (induction k)
    case (Suc k)
    show ?case
    proof (cases "y_begin \<le> k")
      case True
      have rec: "?f (Suc k) = memcpy (d k) (s k) n (?f k)" using True by simp
      have k: "k \<le> h" "k < h" using Suc.prems by simp_all
      note earlier = conjunct1 [OF Suc.IH [OF k(1)], rule_format] conjunct2 [OF Suc.IH [OF k(1)], rule_format]
      have src: "?f k (s k + b) = m (s k + b)" if "b < n" for b
      proof (rule earlier(2))
        fix y assume "y_begin \<le> y \<and> y < k"
        then have "{d y..<d y + n} \<inter> {s k..<s k + n} = {}" using k by (intro assms(2)) simp_all
        moreover have "s k + b \<in> {s k..<s k + n}" using that by simp
        ultimately show "s k + b \<notin> {d y..<d y + n}" by blast
      qed
      have "?f (Suc k) (d y + b) = m (s y + b)" if "y_begin \<le> y" "y < Suc k" "b < n" for y b
      proof (cases "y = k")
        case False
        then have "{d y..<d y + n} \<inter> {d k..<d k + n} = {}" using that k by (intro assms(1)) simp_all
        moreover have "d y + b \<in> {d y..<d y + n}" using that by simp
        ultimately have "d y + b \<notin> {d k..<d k + n}" by blast
        then have "?f (Suc k) (d y + b) = ?f k (d y + b)" unfolding rec memcpy_def by auto
        then show ?thesis using earlier(1) [of y b] that False by simp
      qed (use src that in \<open>simp add: rec memcpy_def\<close>)
      moreover have "?f (Suc k) a = m a" if "\<forall>y. y_begin \<le> y \<and> y < Suc k \<longrightarrow> a \<notin> {d y..<d y + n}" for a
        using that [rule_format, of k] earlier(2) [of a] that True unfolding rec memcpy_def by auto
      ultimately show ?thesis by blast
    qed (use Suc in auto)
  qed auto
  from this [OF assms(3)] show "\<And>y b. y_begin \<le> y \<Longrightarrow> y < y_end \<Longrightarrow> b < n \<Longrightarrow> ?f y_end (d y + b) = m (s y + b)"
    and "\<And>a. (\<And>y. y_begin \<le> y \<Longrightarrow> y < y_end \<Longrightarrow> a \<notin> {d y..<d y + n}) \<Longrightarrow> ?f y_end a = m a" by blast+
qed

lemma gaussian_row_pointer:
  assumes "y < h" and "p + h * st \<le> size_max"
  shows "rows_pointer_at (gaussian_rows p st ch) (int y) 0 = p + y * st"
proof -
  have "p + y * st \<le> size_max" using assms mult_le_mono1 [of y h st] by linarith
  then have "size_wrap (int p + int y * int st) = p + y * st" using size_wrap_id [of "p + y * st"] by simp
  then show ?thesis
    using rows_at_row [of "gaussian_rows p st ch" "int y"] by (simp add: rows_at_def gaussian_rows_def)
qed

lemma copied_image:
  assumes lay: "blur_layout w h ch src ss dst ds buf n"
  shows "blurred w ch dst ds buf n 0 h (\<lambda>y x c. uint (m (src + y * ss + x * ch + c))) m
    (KLEIDICV_OK, fold (\<lambda>y. memcpy (dst + y * ds) (src + y * ss) (w * ch)) [0..<h] m)"
proof -
  note lay = lay [unfolded blur_layout_def]
  let ?copy = "\<lambda>y. memcpy (dst + y * ds) (src + y * ss) (w * ch)"
  have dst_row: "{dst + i * ds..<dst + i * ds + w * ch} \<subseteq> {dst..<dst + h * ds}" if "i < h" for i
    using row_in_image [OF that, of "w * ch" ds dst] lay by auto
  have src_row: "{src + i * ss..<src + i * ss + w * ch} \<subseteq> {src..<src + h * ss}" if "i < h" for i
    using row_in_image [OF that, of "w * ch" ss src] lay by auto
  have apart: "{dst + i * ds..<dst + i * ds + w * ch} \<inter> {src + j * ss..<src + j * ss + w * ch} = {}"
    if "i < h" "j < h" for i j
    using dst_row [OF that(1)] src_row [OF that(2)] lay by blast
  have rows: "\<And>i j. i \<noteq> j \<Longrightarrow> {dst + i * ds..<dst + i * ds + w * ch} \<inter> {dst + j * ds..<dst + j * ds + w * ch} = {}"
    using lay by (intro rows_disjoint) simp_all
  have copied: "fold ?copy [0..<h] m (dst + y * ds + b) = m (src + y * ss + b)" if "y < h" "b < w * ch" for y b
    by (rule memcpy_rows_copied(1) [of h "\<lambda>i. dst + i * ds" "w * ch" "\<lambda>i. src + i * ss"])
      (use that rows apart in simp_all)
  have "fold ?copy [0..<h] m (dst + y * ds + x * ch + c) = m (src + y * ss + x * ch + c)"
    if "y < h" "x < w" "c < ch" for y x c
    using copied [OF that(1) element_in_row [OF that(2,3)]] by (simp add: add.assoc)
  moreover have "fold ?copy [0..<h] m a = m a" if "\<And>y. y < h \<Longrightarrow> a \<notin> {dst + y * ds..<dst + y * ds + w * ch}" for a
    by (rule memcpy_rows_copied(2) [of h "\<lambda>i. dst + i * ds" "w * ch" "\<lambda>i. src + i * ss"])
      (use that rows apart in simp_all)
  ultimately show ?thesis unfolding blurred_def by simp
qed

text \<open>
  C33. When sigma is so small that the middle tap would get all of the weight there is no half kernel,
  and \<^verbatim>\<open>kleidicv_gaussian_blur_u8\<close> copies the image.
\<close>

theorem gaussian_blur_small_sigma_copies:
  assumes "gaussian_blur_validate fl src ss dst ds w h ch S S sx sy border = Inr bt"
    and "filter_size S" and "S \<in> {15, 21} \<or> \<not> f_equal fl sx (f_literal fl 0)"
    and "generate_gaussian_half_kernel fl (get_half_kernel_size S) sx = None"
    and "malloc (w * ch + 3) = Some buf"
    and "blur_layout w h ch src ss dst ds buf (w * ch + 3)"
  shows "blurred w ch dst ds buf (w * ch + 3) 0 h (\<lambda>y x c. uint (m (src + y * ss + x * ch + c))) m
    (gaussian_blur_u8 fl (gaussian_blur_fixed_stripe_u8 fl malloc) sme arb False src ss dst ds w h ch S S sx sy border m)"
proof -
  note lay = assms(6) [unfolded blur_layout_def]
  have size: "(w * ch + 3) * 1 \<le> size_max" using lay by simp
  have create: "workspace_create malloc \<lparr> rectangle_width = w, rectangle_height = h \<rparr> ch 1
    = Inr (image_workspace w h ch buf ((w * ch + 3) * 1))"
    using size assms(5) by (intro workspace_create_image) simp_all
  have len: "size_wrap (int w * int ch) = w * ch"
    using size_wrap_id [of "w * ch"] size by simp
  have copy: "fold (\<lambda>y. memcpy (rows_pointer_at (gaussian_rows dst ds ch) (int y) 0)
      (rows_pointer_at (gaussian_rows src ss ch) (int y) 0) (w * ch)) [0..<h] m
    = fold (\<lambda>y. memcpy (dst + y * ds) (src + y * ss) (w * ch)) [0..<h] m"
    by (rule fold_cong) (use lay gaussian_row_pointer in auto)
  have "gaussian_blur_u8 fl (gaussian_blur_fixed_stripe_u8 fl malloc) sme arb False src ss dst ds w h ch S S sx sy border m
    = gaussian_blur_fixed_kernel_size fl malloc S False src ss dst ds
        \<lparr> rectangle_width = w, rectangle_height = h \<rparr> 0 h ch sx bt m"
    using gaussian_blur_u8_fixed [OF assms(1,2), of malloc sme arb m] assms(3) by auto
  then show ?thesis
    using copied_image [OF assms(6)]
    by (simp add: gaussian_blur_fixed_kernel_size_def create [simplified] sizeof_def assms(4) len copy)
qed

lemma gaussian_blur_small_sigma_copies_witness:
  "let r = gaussian_blur_u8 hyperbola_ops (gaussian_blur_fixed_stripe_u8 hyperbola_ops (\<lambda>_. Some 300))
         (gaussian_blur_fixed_stripe_u8 hyperbola_ops (\<lambda>_. None)) (gaussian_blur_fixed_stripe_u8 hyperbola_ops (\<lambda>_. None)) False
         100 2 200 2 2 2 1 3 3 (1 / 100) (1 / 100) KLEIDICV_BORDER_TYPE_REPLICATE (\<lambda>a. of_nat a)
   in fst r = KLEIDICV_OK \<and> uint (snd r (200 + 0 * 2 + 0 * 1 + 0)) = 100"
proof -
  have "blurred 2 1 200 2 300 (2 * 1 + 3) 0 2
      (\<lambda>y x c. uint (of_nat (100 + y * 2 + x * 1 + c) :: u8)) (\<lambda>a. of_nat a)
      (gaussian_blur_u8 hyperbola_ops (gaussian_blur_fixed_stripe_u8 hyperbola_ops (\<lambda>_. Some 300))
         (gaussian_blur_fixed_stripe_u8 hyperbola_ops (\<lambda>_. None)) (gaussian_blur_fixed_stripe_u8 hyperbola_ops (\<lambda>_. None)) False
         100 2 200 2 2 2 1 3 3 (1 / 100) (1 / 100) KLEIDICV_BORDER_TYPE_REPLICATE (\<lambda>a. of_nat a))"
    by (rule gaussian_blur_small_sigma_copies)
      (simp_all add: blur_example blur_example [simplified] blur_example_kernel)
  note image = blurredD(1,2) [OF this]
  show ?thesis using image(1) image(2) [of 0 0 0] unfolding Let_def by simp
qed

end
