(* ===== verification/Sobel.thy ===== *)
theory Sobel
  imports Filter_Images
begin

text \<open>
  The Sobel gradients: the two filters and stripe functions of
  \<^verbatim>\<open>kleidicv/src/filters/sobel_neon.cpp\<close>, the checks of
  \<^verbatim>\<open>filters/sobel.h\<close> and the operations of \<^verbatim>\<open>sobel_api.cpp\<close>. The 16-bit
  elements are signed.
\<close>

unbundle bit_operations_syntax

section \<open>The filters\<close>

definition vsubl_u :: "'a::len word list \<Rightarrow> 'a word list \<Rightarrow> 'w::len word list" where
  "vsubl_u = map2 (\<lambda>a b. ucast a - ucast b)"

definition vsubq_s :: "'a::len word list \<Rightarrow> 'a word list \<Rightarrow> 'a word list" where
  "vsubq_s = map2 (-)"

definition smooth_vertical_vector :: "u8 list list \<Rightarrow> u16 list" where
  "smooth_vertical_vector src =
     (let acc_l = vaddl_u (vget_low_elems (src ! 0)) (vget_low_elems (src ! 2));
          acc_h = vaddl_u (vget_high_elems (src ! 0)) (vget_high_elems (src ! 2));
          shift_l = vshll_n_u 1 (vget_low_elems (src ! 1));
          shift_h = vshll_n_u 1 (vget_high_elems (src ! 1))
      in vaddq_u acc_l shift_l @ vaddq_u acc_h shift_h)"

definition smooth_vertical_scalar :: "u8 list \<Rightarrow> u16" where
  "smooth_vertical_scalar src = word_of_int (uint (src ! 0) + 2 * uint (src ! 1) + uint (src ! 2))"

definition difference_horizontal_vector :: "u16 list list \<Rightarrow> u16 list" where
  "difference_horizontal_vector src = vsubq_s (src ! 2) (src ! 0)"

definition difference_horizontal_scalar :: "u16 list \<Rightarrow> u16" where
  "difference_horizontal_scalar src = word_of_int (sint (src ! 2) - sint (src ! 0))"

definition HorizontalSobel3x3 :: "(8, 16, 16) word_kernel" where
  "HorizontalSobel3x3 =
     \<lparr> vertical_vector_path = smooth_vertical_vector, vertical_scalar_path = smooth_vertical_scalar,
       horizontal_vector_path = difference_horizontal_vector,
       horizontal_scalar_path = difference_horizontal_scalar \<rparr>"

definition difference_vertical_vector :: "u8 list list \<Rightarrow> u16 list" where
  "difference_vertical_vector src =
     vsubl_u (vget_low_elems (src ! 2)) (vget_low_elems (src ! 0))
       @ vsubl_u (vget_high_elems (src ! 2)) (vget_high_elems (src ! 0))"

definition difference_vertical_scalar :: "u8 list \<Rightarrow> u16" where
  "difference_vertical_scalar src = word_of_int (uint (src ! 2) - uint (src ! 0))"

definition smooth_horizontal_vector :: "u16 list list \<Rightarrow> u16 list" where
  "smooth_horizontal_vector src =
     (let acc = vaddq_u (src ! 0) (src ! 2) in vaddq_u acc (vshlq_n_u 1 (src ! 1)))"

definition smooth_horizontal_scalar :: "u16 list \<Rightarrow> u16" where
  "smooth_horizontal_scalar src = word_of_int (sint (src ! 0) + 2 * sint (src ! 1) + sint (src ! 2))"

definition VerticalSobel3x3 :: "(8, 16, 16) word_kernel" where
  "VerticalSobel3x3 =
     \<lparr> vertical_vector_path = difference_vertical_vector, vertical_scalar_path = difference_vertical_scalar,
       horizontal_vector_path = smooth_horizontal_vector,
       horizontal_scalar_path = smooth_horizontal_scalar \<rparr>"

section \<open>Stripes, checks and operations\<close>

definition sobel_3x3_horizontal_stripe_s16_u8 ::
    "(nat \<Rightarrow> nat option) \<Rightarrow> nat \<Rightarrow> nat \<Rightarrow> nat \<Rightarrow> nat \<Rightarrow> nat \<Rightarrow> nat \<Rightarrow> nat \<Rightarrow> nat \<Rightarrow> nat \<Rightarrow> mem action" where
  "sobel_3x3_horizontal_stripe_s16_u8 malloc src src_stride dst dst_stride width height y_begin y_end channels m =
     (case workspace_create malloc \<lparr> rectangle_width = width, rectangle_height = height \<rparr> channels
        (sizeof TYPE(16)) of
        Inl err \<Rightarrow> (err, m)
      | Inr workspace \<Rightarrow>
          (KLEIDICV_OK, workspace_process 3 workspace y_begin y_end (image_rows TYPE(8) src src_stride channels)
             (image_rows TYPE(16) dst dst_stride channels) REPLICATE HorizontalSobel3x3 m))"

definition sobel_3x3_vertical_stripe_s16_u8 ::
    "(nat \<Rightarrow> nat option) \<Rightarrow> nat \<Rightarrow> nat \<Rightarrow> nat \<Rightarrow> nat \<Rightarrow> nat \<Rightarrow> nat \<Rightarrow> nat \<Rightarrow> nat \<Rightarrow> nat \<Rightarrow> mem action" where
  "sobel_3x3_vertical_stripe_s16_u8 malloc src src_stride dst dst_stride width height y_begin y_end channels m =
     (case workspace_create malloc \<lparr> rectangle_width = width, rectangle_height = height \<rparr> channels
        (sizeof TYPE(16)) of
        Inl err \<Rightarrow> (err, m)
      | Inr workspace \<Rightarrow>
          (KLEIDICV_OK, workspace_process 3 workspace y_begin y_end (image_rows TYPE(8) src src_stride channels)
             (image_rows TYPE(16) dst dst_stride channels) REPLICATE VerticalSobel3x3 m))"

definition sobel_validate :: "nat \<Rightarrow> nat \<Rightarrow> nat \<Rightarrow> nat \<Rightarrow> nat \<Rightarrow> nat \<Rightarrow> nat \<Rightarrow> kleidicv_error_t" where
  "sobel_validate src src_stride dst dst_stride width height channels =
     (if width < 2 \<or> height < 2 then KLEIDICV_ERROR_NOT_IMPLEMENTED
      else checks [check_pointer_and_stride (sizeof TYPE(8)) src src_stride height,
                   check_pointer_and_stride (sizeof TYPE(16)) dst dst_stride height,
                   check_image_size width height,
                   if KLEIDICV_MAXIMUM_CHANNEL_COUNT < channels then KLEIDICV_ERROR_NOT_IMPLEMENTED
                   else KLEIDICV_OK])"

text \<open>The stripe function is the one chosen when the library was loaded.\<close>

definition sobel_3x3_s16_u8 ::
    "(nat \<Rightarrow> nat \<Rightarrow> nat \<Rightarrow> nat \<Rightarrow> nat \<Rightarrow> nat \<Rightarrow> nat \<Rightarrow> nat \<Rightarrow> nat \<Rightarrow> mem action) \<Rightarrow> nat \<Rightarrow> nat \<Rightarrow> nat \<Rightarrow> nat \<Rightarrow> nat \<Rightarrow> nat \<Rightarrow>
     nat \<Rightarrow> mem action" where
  "sobel_3x3_s16_u8 StripeFunction src src_stride dst dst_stride width height channels m =
     (let err = sobel_validate src src_stride dst dst_stride width height channels in
      if err \<noteq> KLEIDICV_OK then (err, m)
      else StripeFunction src src_stride dst dst_stride width height 0 height channels m)"

section \<open>The filters meet the contract\<close>

lemma lane_rules_sobel [lane_rules]:
  "vsubl_u (map f is) (map g is) = map (\<lambda>i. ucast (f i) - ucast (g i)) is"
  "vsubq_s (map f' is) (map g' is) = map (\<lambda>i. f' i - g' i) is"
  by (simp_all add: vsubl_u_def vsubq_s_def map2_maps)

lemma word_of_int_sint [simp]: "word_of_int (sint (x :: 'a::len word)) = x"
  by simp

lemma difference_horizontal_scalar_eq: "difference_horizontal_scalar src = src ! 2 - src ! 0"
  by (simp add: difference_horizontal_scalar_def)

lemma smooth_horizontal_scalar_eq: "smooth_horizontal_scalar src = src ! 0 + 2 * (src ! 1) + src ! 2"
  by (simp add: smooth_horizontal_scalar_def)

lemma smooth_vertical_lanes: "lanewise smooth_vertical_vector smooth_vertical_scalar 3 (2 * 8)"
  by (rule lanewiseI, unfold smooth_vertical_vector_def smooth_vertical_scalar_def Let_def,
      simp only: nth_map_upt halves lane_rules numeral_less_iff zero_less_numeral semiring_norm, rule append_maps)
    (simp add: push_bit_eq_mult algebra_simps)

lemma difference_vertical_lanes: "lanewise difference_vertical_vector difference_vertical_scalar 3 (2 * 8)"
  by (rule lanewiseI, unfold difference_vertical_vector_def difference_vertical_scalar_def Let_def,
      simp only: nth_map_upt halves lane_rules numeral_less_iff zero_less_numeral semiring_norm, rule append_maps)
    simp

lemma difference_horizontal_lanes: "lanewise difference_horizontal_vector difference_horizontal_scalar 3 (2 * 4)"
  by (rule lanewiseI, unfold difference_horizontal_vector_def difference_horizontal_scalar_eq Let_def,
      simp only: nth_map_upt lane_rules numeral_less_iff zero_less_numeral semiring_norm)

lemma smooth_horizontal_lanes: "lanewise smooth_horizontal_vector smooth_horizontal_scalar 3 (2 * 4)"
  by (rule lanewiseI, unfold smooth_horizontal_vector_def smooth_horizontal_scalar_eq Let_def,
      simp only: nth_map_upt lane_rules numeral_less_iff zero_less_numeral semiring_norm)
    (simp add: push_bit_eq_mult algebra_simps)

interpretation horizontal_sobel: separable_filter HorizontalSobel3x3 3 "\<lambda>_. True" difference_horizontal_scalar
  by unfold_locales
    (simp_all add: filter_types HorizontalSobel3x3_def lanes_u8 lanes_u16
      smooth_vertical_lanes [simplified] difference_horizontal_lanes [simplified])

interpretation vertical_sobel: separable_filter VerticalSobel3x3 3 "\<lambda>_. True" smooth_horizontal_scalar
  by unfold_locales
    (simp_all add: filter_types VerticalSobel3x3_def lanes_u8 lanes_u16
      difference_vertical_lanes [simplified] smooth_horizontal_lanes [simplified])

section \<open>The gradients\<close>

definition smooth :: "(nat \<Rightarrow> int) \<Rightarrow> int" where "smooth f = f 0 + 2 * f 1 + f 2"
definition difference :: "(nat \<Rightarrow> int) \<Rightarrow> int" where "difference f = f 2 - f 0"

text \<open>The gradients of the three by three taps around a pixel, and what the filters make of them.\<close>

definition horizontal_gradient :: "(nat \<Rightarrow> nat \<Rightarrow> u8) \<Rightarrow> int" where
  "horizontal_gradient tap = difference (\<lambda>j. smooth (\<lambda>k. uint (tap k j)))"

definition vertical_gradient :: "(nat \<Rightarrow> nat \<Rightarrow> u8) \<Rightarrow> int" where
  "vertical_gradient tap = smooth (\<lambda>j. difference (\<lambda>k. uint (tap k j)))"

definition kernel_pixel :: "('a, 'b, 'd) word_kernel \<Rightarrow> nat \<Rightarrow> (nat \<Rightarrow> nat \<Rightarrow> 'a word) \<Rightarrow> 'd word" where
  "kernel_pixel flt S tap =
     horizontal_scalar_path flt (map (\<lambda>j. vertical_scalar_path flt (map (\<lambda>k. tap k j) [0..<S])) [0..<S])"

lemma sint_small: "\<bar>x\<bar> < 2 ^ (LENGTH('a::len) - 1) \<Longrightarrow> sint (word_of_int x :: 'a word) = x"
  by (intro sint_word_of_int_in_range) (unfold abs_less_iff, linarith+)

lemma upt_three: "[0..<3] = [0, 1, 2 :: nat]"
  by (simp add: upt_rec)

lemma sobel_pixels:
  "sint (kernel_pixel HorizontalSobel3x3 3 tap) = horizontal_gradient tap"
  "sint (kernel_pixel VerticalSobel3x3 3 tap) = vertical_gradient tap"
proof -
  have b: "0 \<le> uint (tap k j)" "uint (tap k j) \<le> 255" for k j using uint_u8_bounds by simp_all
  have h: "\<bar>horizontal_gradient tap\<bar> < 32768"
    unfolding horizontal_gradient_def smooth_def difference_def
    using b [of 0 0] b [of 1 0] b [of 2 0] b [of 0 2] b [of 1 2] b [of 2 2] unfolding abs_less_iff by (intro conjI) linarith+
  have v: "\<bar>vertical_gradient tap\<bar> < 32768"
    unfolding vertical_gradient_def smooth_def difference_def
    using b [of 0 0] b [of 2 0] b [of 0 1] b [of 2 1] b [of 0 2] b [of 2 2]
    unfolding abs_less_iff right_diff_distrib by (intro conjI) linarith+
  have "kernel_pixel HorizontalSobel3x3 3 tap = word_of_int (horizontal_gradient tap)"
    by (simp add: kernel_pixel_def HorizontalSobel3x3_def upt_three difference_horizontal_scalar_eq
        smooth_vertical_scalar_def horizontal_gradient_def smooth_def difference_def)
  then show "sint (kernel_pixel HorizontalSobel3x3 3 tap) = horizontal_gradient tap"
    using h by (simp add: sint_small)
  have "kernel_pixel VerticalSobel3x3 3 tap = word_of_int (vertical_gradient tap)"
    by (simp add: kernel_pixel_def VerticalSobel3x3_def upt_three smooth_horizontal_scalar_eq
        difference_vertical_scalar_def vertical_gradient_def smooth_def difference_def)
  then show "sint (kernel_pixel VerticalSobel3x3 3 tap) = vertical_gradient tap"
    using v by (simp add: sint_small)
qed

lemma sobel_accepted:
  assumes "sobel_validate src ss dst ds w h ch = KLEIDICV_OK"
  shows "2 \<le> w" "2 \<le> h" "w \<le> size_max" "h \<le> size_max" "ch \<le> 4"
proof -
  have ok: "2 \<le> w" "2 \<le> h" "ch \<le> 4" "w * h \<le> KLEIDICV_MAX_IMAGE_PIXELS"
    using assms by (auto simp: sobel_validate_def checks_OK check_image_size_OK KLEIDICV_MAXIMUM_CHANNEL_COUNT_def
        split: if_splits)
  moreover have "w \<le> w * h" "h \<le> w * h" using ok by simp_all
  moreover have "KLEIDICV_MAX_IMAGE_PIXELS \<le> size_max" by (simp add: KLEIDICV_MAX_IMAGE_PIXELS_def size_max_def)
  ultimately show "2 \<le> w" "2 \<le> h" "w \<le> size_max" "h \<le> size_max" "ch \<le> 4" by linarith+
qed

text \<open>
  C8. The Sobel operations store, as signed 16-bit values that never overflow, the horizontal and the
  vertical gradient at every channel of every pixel, with the image continued by its border pixels,
  and change nothing else outside of the workspace.
\<close>

theorem sobel_image:
  assumes "sobel_validate src ss dst ds w h ch = KLEIDICV_OK"
    and "malloc ((w * ch + 3) * 2) = Some buf"
    and "filter_memory TYPE(8) TYPE(16) w h ch src ss dst ds buf ((w * ch + 3) * 2)"
  shows "(\<exists>pixel. (\<forall>y x c. sint (pixel y x c) = horizontal_gradient (filter_tap TYPE(8) 3 REPLICATE w h ch src ss m y x c))
      \<and> filtered TYPE(16) w ch dst ds buf ((w * ch + 3) * 2) 0 h pixel m
          (sobel_3x3_s16_u8 (sobel_3x3_horizontal_stripe_s16_u8 malloc) src ss dst ds w h ch m))
    \<and> (\<exists>pixel. (\<forall>y x c. sint (pixel y x c) = vertical_gradient (filter_tap TYPE(8) 3 REPLICATE w h ch src ss m y x c))
      \<and> filtered TYPE(16) w ch dst ds buf ((w * ch + 3) * 2) 0 h pixel m
          (sobel_3x3_s16_u8 (sobel_3x3_vertical_stripe_s16_u8 malloc) src ss dst ds w h ch m))"
proof -
  have size: "(w * ch + 3) * 2 \<le> size_max" using assms(3) by (simp add: filter_memory_def)
  have create: "workspace_create malloc \<lparr> rectangle_width = w, rectangle_height = h \<rparr> ch (sizeof TYPE(16))
      = Inr (image_workspace w h ch buf ((w * ch + 3) * 2))"
    using workspace_create_image [of w ch 2 malloc buf h] size assms(2) by (simp add: sizeof_def)
  have n: "(w * ch + 3) * sizeof TYPE(16) \<le> (w * ch + 3) * 2" by (simp add: sizeof_def)
  have dims: "3 - 1 \<le> w" "3 - 1 \<le> h" "w \<le> size_max" "h \<le> size_max"
    using sobel_accepted [OF assms(1)] by simp_all
  note horizontal = separable_filtered [OF horizontal_sobel.separable_filter_axioms assms(3) n dims le0 order_refl,
      of REPLICATE m "(w * ch + 3) * 2", folded kernel_pixel_def]
  note vertical = separable_filtered [OF vertical_sobel.separable_filter_axioms assms(3) n dims le0 order_refl,
      of REPLICATE m "(w * ch + 3) * 2", folded kernel_pixel_def]
  show ?thesis
    using horizontal vertical sobel_pixels
    unfolding sobel_3x3_s16_u8_def Let_def assms(1) sobel_3x3_horizontal_stripe_s16_u8_def
      sobel_3x3_vertical_stripe_s16_u8_def create
    by (auto intro!: exI)
qed

lemma sobel_image_witness:
  "let r = sobel_3x3_s16_u8 (sobel_3x3_horizontal_stripe_s16_u8 (\<lambda>_. Some 300)) 100 2 200 4 2 2 1 (\<lambda>a. of_nat a)
   in fst r = KLEIDICV_OK \<and> sint (load_elem (pixel_at TYPE(16) 200 4 1 0 0 0) (snd r) :: u16) = 4"
proof -
  have ok: "sobel_validate 100 2 200 4 2 2 1 = KLEIDICV_OK"
    "filter_memory TYPE(8) TYPE(16) 2 2 1 100 2 200 4 300 ((2 * 1 + 3) * 2)"
    by (simp_all add: sobel_validate_def check_pointer_and_stride_def check_image_size_RANGE sizeof_def nullptr_def
        is_misaligned_def KLEIDICV_MAX_IMAGE_PIXELS_def KLEIDICV_MAXIMUM_CHANNEL_COUNT_def filter_memory_def size_max_def)
  have "horizontal_gradient (filter_tap TYPE(8) 3 REPLICATE 2 2 1 100 2 (\<lambda>a. of_nat a) 0 0 0) = 4"
    by (simp add: horizontal_gradient_def smooth_def difference_def filter_tap_def border_coordinate_def
        border_type_of_def pixel_at_def sizeof_def load_elem_def)
  moreover obtain pixel where "sint (pixel 0 0 0) = horizontal_gradient (filter_tap TYPE(8) 3 REPLICATE 2 2 1 100 2 (\<lambda>a. of_nat a) 0 0 0)"
    and "filtered TYPE(16) 2 1 200 4 300 ((2 * 1 + 3) * 2) 0 2 pixel (\<lambda>a. of_nat a)
      (sobel_3x3_s16_u8 (sobel_3x3_horizontal_stripe_s16_u8 (\<lambda>_. Some 300)) 100 2 200 4 2 2 1 (\<lambda>a. of_nat a))"
    using sobel_image [OF ok(1) refl ok(2), of "\<lambda>a. of_nat a"] by blast
  ultimately show ?thesis using filteredD(1,2) [of 2 1 200 4 300 "(2 * 1 + 3) * 2" 0 2 pixel] unfolding Let_def
    by (metis zero_less_numeral zero_less_one le0)
qed

end
