(* ===== verification/Separable_Filter_2D.thy ===== *)
theory Separable_Filter_2D
  imports Filter_Images
begin

text \<open>
  The filter of two given vectors of five coefficients:
  \<^verbatim>\<open>kleidicv/src/filters/separable_filter_2d_neon.cpp\<close>, the checks of
  \<^verbatim>\<open>filters/separable_filter_2d.h\<close> and the operation of
  \<^verbatim>\<open>separable_filter_2d_api.cpp\<close>. The two specialisations of the class differ in the
  widths of the elements only: \<open>'a\<close> for the image, \<open>'b\<close> (twice as wide) for the buffer and \<open>'w\<close>
  (four times) for the horizontal sums.
\<close>

section \<open>The filter\<close>

definition vmull_u :: "'a::len word list \<Rightarrow> 'a word list \<Rightarrow> 'w::len word list" where
  "vmull_u = map2 (\<lambda>a b. ucast a * ucast b)"

definition vqmovn_u :: "'w::len word list \<Rightarrow> 'a::len word list" where
  "vqmovn_u = map (\<lambda>a. saturate False (uint a))"

text \<open>A vector with the coefficient in every lane.\<close>

definition coefficient_lanes :: "'b::len itself \<Rightarrow> 'a::len word list \<Rightarrow> nat \<Rightarrow> 'b word list" where
  "coefficient_lanes t coefficients i = replicate (num_lanes_of TYPE('b)) (ucast (coefficients ! i))"

definition filter_2d_vertical_vector :: "'a::len word list \<Rightarrow> 'a word list list \<Rightarrow> 'b::len word list" where
  "filter_2d_vertical_vector kernel_y src =
     (let k = coefficient_lanes TYPE('a) kernel_y;
          acc_l = vmull_u (vget_low_elems (src ! 0)) (vget_low_elems (k 0));
          acc_h = vmull_u (vget_high_elems (src ! 0)) (vget_high_elems (k 0));
          (acc_l, acc_h) = fold (\<lambda>i (acc_l, acc_h).
            let vec_l = vmull_u (vget_low_elems (src ! i)) (vget_low_elems (k i));
                vec_h = vmull_u (vget_high_elems (src ! i)) (vget_high_elems (k i))
            in (vqaddq False acc_l vec_l, vqaddq False acc_h vec_h)) [1..<5] (acc_l, acc_h)
      in acc_l @ acc_h)"

text \<open>
  The scalar loops stop at the first overflow and store the largest value of the source type, also
  into the wider buffer.
\<close>

fun filter_2d_vertical_loop :: "'a::len word list \<Rightarrow> 'a word list \<Rightarrow> nat list \<Rightarrow> 'b::len word \<Rightarrow> 'b word" where
  "filter_2d_vertical_loop kernel_y src [] acc = acc"
| "filter_2d_vertical_loop kernel_y src (i # is) acc =
     (let temp = ucast (src ! i) * ucast (kernel_y ! i) :: 'b word;
          (overflow, acc) = builtin_overflow False (uint acc + uint temp)
      in if overflow then word_of_int (max_unsigned LENGTH('a))
         else filter_2d_vertical_loop kernel_y src is acc)"

definition filter_2d_vertical_scalar :: "'a::len word list \<Rightarrow> 'a word list \<Rightarrow> 'b::len word" where
  "filter_2d_vertical_scalar kernel_y src =
     filter_2d_vertical_loop kernel_y src [1..<5] (ucast (src ! 0) * ucast (kernel_y ! 0))"

definition filter_2d_horizontal_vector ::
    "'w::len itself \<Rightarrow> 'a::len word list \<Rightarrow> 'b::len word list list \<Rightarrow> 'a word list" where
  "filter_2d_horizontal_vector t kernel_x src =
     (let k = coefficient_lanes TYPE('b) kernel_x;
          acc_l = vmull_u (vget_low_elems (src ! 0)) (vget_low_elems (k 0)) :: 'w word list;
          acc_h = vmull_u (vget_high_elems (src ! 0)) (vget_high_elems (k 0)) :: 'w word list;
          (acc_l, acc_h) = fold (\<lambda>i (acc_l, acc_h).
            (vmlal_u acc_l (vget_low_elems (src ! i)) (vget_low_elems (k i)),
             vmlal_u acc_h (vget_high_elems (src ! i)) (vget_high_elems (k i)))) [1..<5] (acc_l, acc_h);
          acc = vqmovn_u acc_l @ vqmovn_u acc_h :: 'b word list
      in vqmovn_u acc)"

fun filter_2d_horizontal_loop :: "'a::len word list \<Rightarrow> 'b::len word list \<Rightarrow> nat list \<Rightarrow> 'a word \<Rightarrow> 'a word" where
  "filter_2d_horizontal_loop kernel_x src [] acc = acc"
| "filter_2d_horizontal_loop kernel_x src (i # is) acc =
     (let (overflow, temp) = builtin_overflow False (uint (src ! i) * uint (kernel_x ! i)) :: bool \<times> 'a word
      in if overflow then max_lane False
         else let (overflow, acc) = builtin_overflow False (uint acc + uint temp)
              in if overflow then max_lane False
                 else filter_2d_horizontal_loop kernel_x src is acc)"

definition filter_2d_horizontal_scalar :: "'a::len word list \<Rightarrow> 'b::len word list \<Rightarrow> 'a word" where
  "filter_2d_horizontal_scalar kernel_x src =
     (let (overflow, acc) = builtin_overflow False (uint (src ! 0) * uint (kernel_x ! 0))
      in if overflow then max_lane False else filter_2d_horizontal_loop kernel_x src [1..<5] acc)"

text \<open>
  The coefficients are the values the two arrays hold when the filter is constructed. The scalar
  paths of the code read the arrays again; they are not part of the destination.
\<close>

definition SeparableFilter2D ::
    "'w::len itself \<Rightarrow> 'a::len word list \<Rightarrow> 'a word list \<Rightarrow> ('a, 'b::len, 'a) word_kernel" where
  "SeparableFilter2D t kernel_x kernel_y =
     \<lparr> vertical_vector_path = filter_2d_vertical_vector kernel_y,
       vertical_scalar_path = filter_2d_vertical_scalar kernel_y,
       horizontal_vector_path = filter_2d_horizontal_vector TYPE('w) kernel_x,
       horizontal_scalar_path = filter_2d_horizontal_scalar kernel_x \<rparr>"

definition SeparableFilter2D_u8 :: "u8 list \<Rightarrow> u8 list \<Rightarrow> (8, 16, 8) word_kernel" where
  "SeparableFilter2D_u8 = SeparableFilter2D TYPE(32)"

definition SeparableFilter2D_u16 :: "u16 list \<Rightarrow> u16 list \<Rightarrow> (16, 32, 16) word_kernel" where
  "SeparableFilter2D_u16 = SeparableFilter2D TYPE(64)"

section \<open>Stripes, checks and operation\<close>

definition load_kernel :: "nat \<Rightarrow> mem \<Rightarrow> 'a::len word list" where
  "load_kernel ptr m = map (\<lambda>i. load_elem (ptr + i * sizeof TYPE('a)) m) [0..<5]"

definition separable_filter_2d_stripe ::
    "('a::len word list \<Rightarrow> 'a word list \<Rightarrow> ('a, 'b::len, 'a) word_kernel) \<Rightarrow> (nat \<Rightarrow> nat option) \<Rightarrow>
     nat \<Rightarrow> nat \<Rightarrow> nat \<Rightarrow> nat \<Rightarrow> nat \<Rightarrow> nat \<Rightarrow> nat \<Rightarrow> nat \<Rightarrow> nat \<Rightarrow> nat \<Rightarrow> nat \<Rightarrow> nat \<Rightarrow> nat \<Rightarrow> FixedBorderType \<Rightarrow> mem action"
where
  "separable_filter_2d_stripe SeparableFilterClass malloc src src_stride dst dst_stride width height y_begin y_end
      channels kernel_x kernel_width kernel_y kernel_height fixed_border_type m =
     (case workspace_create malloc \<lparr> rectangle_width = width, rectangle_height = height \<rparr> channels
        (sizeof TYPE('b)) of
        Inl err \<Rightarrow> (err, m)
      | Inr workspace \<Rightarrow>
          (KLEIDICV_OK, workspace_process 5 workspace y_begin y_end (image_rows TYPE('a) src src_stride channels)
             (image_rows TYPE('a) dst dst_stride channels) fixed_border_type
             (SeparableFilterClass (load_kernel kernel_x m) (load_kernel kernel_y m)) m))"

definition separable_filter_2d_checks ::
    "nat \<Rightarrow> nat \<Rightarrow> nat \<Rightarrow> nat \<Rightarrow> nat \<Rightarrow> nat \<Rightarrow> nat \<Rightarrow> nat \<Rightarrow> nat \<Rightarrow> kleidicv_error_t" where
  "separable_filter_2d_checks align src src_stride dst dst_stride width height kernel_x kernel_y =
     checks [check_pointer_and_stride align src src_stride height,
             check_pointer_and_stride align dst dst_stride height,
             check_image_size width height, check_pointers [kernel_x, kernel_y]]"

definition separable_filter_2d_validate ::
    "nat \<Rightarrow> nat \<Rightarrow> nat \<Rightarrow> nat \<Rightarrow> nat \<Rightarrow> nat \<Rightarrow> nat \<Rightarrow> nat \<Rightarrow> nat \<Rightarrow> nat \<Rightarrow> nat \<Rightarrow> nat \<Rightarrow> kleidicv_border_type_t \<Rightarrow>
     kleidicv_error_t + FixedBorderType" where
  "separable_filter_2d_validate align src src_stride dst dst_stride width height channels kernel_x kernel_width
      kernel_y kernel_height border_type =
     (if kernel_width \<noteq> 5 \<or> kernel_height \<noteq> 5 then Inl KLEIDICV_ERROR_NOT_IMPLEMENTED
      else if width < kernel_width - 1 \<or> height < kernel_width - 1 then Inl KLEIDICV_ERROR_NOT_IMPLEMENTED
      else (case get_fixed_border_type border_type of
              None \<Rightarrow> Inl KLEIDICV_ERROR_NOT_IMPLEMENTED
            | Some fixed_border_type \<Rightarrow>
                (let check_error = separable_filter_2d_checks align src src_stride dst dst_stride width height
                       kernel_x kernel_y
                 in if check_error \<noteq> KLEIDICV_OK then Inl check_error
                    else if KLEIDICV_MAXIMUM_CHANNEL_COUNT < channels then Inl KLEIDICV_ERROR_NOT_IMPLEMENTED
                    else Inr fixed_border_type)))"

text \<open>The element type gives the alignment; the stripe function is the one the library has chosen.\<close>

definition separable_filter_2d ::
    "nat \<Rightarrow> (nat \<Rightarrow> nat \<Rightarrow> nat \<Rightarrow> nat \<Rightarrow> nat \<Rightarrow> nat \<Rightarrow> nat \<Rightarrow> nat \<Rightarrow> nat \<Rightarrow> nat \<Rightarrow> nat \<Rightarrow> nat \<Rightarrow> nat \<Rightarrow> FixedBorderType \<Rightarrow> mem action) \<Rightarrow>
     nat \<Rightarrow> nat \<Rightarrow> nat \<Rightarrow> nat \<Rightarrow> nat \<Rightarrow> nat \<Rightarrow> nat \<Rightarrow> nat \<Rightarrow> nat \<Rightarrow> nat \<Rightarrow> nat \<Rightarrow> kleidicv_border_type_t \<Rightarrow> mem action" where
  "separable_filter_2d align StripeFunction src src_stride dst dst_stride width height channels kernel_x kernel_width
      kernel_y kernel_height border_type m =
     (case separable_filter_2d_validate align src src_stride dst dst_stride width height channels kernel_x
        kernel_width kernel_y kernel_height border_type of
        Inl err \<Rightarrow> (err, m)
      | Inr fixed_border_type \<Rightarrow>
          StripeFunction src src_stride dst dst_stride width height 0 height channels kernel_x kernel_width
            kernel_y kernel_height fixed_border_type m)"

section \<open>Sums that saturate\<close>

lemma uint_saturate: "0 \<le> z \<Longrightarrow> uint (saturate False z :: 'a::len word) = min (max_unsigned LENGTH('a)) z"
  using lane_value_saturate [of False z, where 'a = 'a]
  by (simp add: lane_value_def type_lowest_def type_max_def max_unsigned_def min_def max_def)

lemma saturate_le: "0 \<le> z \<Longrightarrow> z \<le> max_unsigned LENGTH('a) \<Longrightarrow> (saturate False z :: 'a::len word) = word_of_int z"
  by (simp add: saturate_def type_lowest_def type_max_def max_def min_def)

lemma saturate_ge: "max_unsigned LENGTH('a) \<le> z \<Longrightarrow> (saturate False z :: 'a::len word) = max_lane False"
  using max_unsigned_pos(1) [of "LENGTH('a)"]
  by (simp add: saturate_def max_lane_def type_lowest_def type_max_def max_def min_def)

lemma uint_le_max: "uint (x :: 'a::len word) \<le> max_unsigned LENGTH('a)"
  using unsigned_less [of x, where ?'a = int] by (simp add: max_unsigned_def)

lemma builtin_overflow_unsigned:
  assumes "0 \<le> z"
  shows "(builtin_overflow False z :: bool \<times> 'a::len word)
    = (max_unsigned LENGTH('a) < z, if max_unsigned LENGTH('a) < z then word_of_int z else saturate False z)"
proof (rule prod_eqI)
  show "fst (builtin_overflow False z :: bool \<times> 'a word)
      = fst (max_unsigned LENGTH('a) < z, if max_unsigned LENGTH('a) < z then word_of_int z else saturate False z)"
    using assms builtin_overflow_iff [of False z, where 'a = 'a] by (simp add: type_lowest_def type_max_def)
  show "snd (builtin_overflow False z :: bool \<times> 'a word)
      = snd (max_unsigned LENGTH('a) < z, if max_unsigned LENGTH('a) < z then word_of_int z else saturate False z)"
    using assms by (simp add: builtin_overflow_def Let_def saturate_le)
qed

text \<open>The sum of the products \<open>a i * b i\<close>.\<close>

definition product_sum :: "(nat \<Rightarrow> int) \<Rightarrow> (nat \<Rightarrow> int) \<Rightarrow> nat list \<Rightarrow> int" where
  "product_sum a b is = (\<Sum>i\<leftarrow>is. a i * b i)"

lemma product_sum_simps [simp]:
  "product_sum a b [] = 0" "product_sum a b (i # is) = a i * b i + product_sum a b is"
  by (simp_all add: product_sum_def)

lemma product_sum_nonneg: "(\<And>i. 0 \<le> a i) \<Longrightarrow> (\<And>i. 0 \<le> b i) \<Longrightarrow> 0 \<le> product_sum a b is"
  by (induction "is") simp_all

lemma saturate_add:
  assumes "0 \<le> x" and "0 \<le> y"
  shows "saturate False (uint (saturate False x :: 'a::len word) + y) = (saturate False (x + y) :: 'a word)"
proof (cases "x \<le> max_unsigned LENGTH('a)")
  case True
  with assms show ?thesis by (simp add: uint_saturate)
next
  case False
  then have "uint (saturate False x :: 'a word) = max_unsigned LENGTH('a)" using assms(1) by (simp add: uint_saturate)
  with False assms(2) show ?thesis by (simp add: saturate_ge)
qed

lemma uint_product:
  fixes s k :: "'a::len word"
  assumes "2 * LENGTH('a) \<le> LENGTH('b::len)"
  shows "uint (ucast s * ucast k :: 'b word) = uint s * uint k"
proof -
  have "uint s * uint k < 2 ^ LENGTH('a) * 2 ^ LENGTH('a)"
    using unsigned_less [of s, where ?'a = int] unsigned_less [of k, where ?'a = int]
    by (intro mult_strict_mono) simp_all
  also have "(2 :: int) ^ LENGTH('a) * 2 ^ LENGTH('a) = 2 ^ (2 * LENGTH('a))" by (simp add: mult_2 power_add)
  also have "\<dots> \<le> 2 ^ LENGTH('b)" using assms by (intro power_increasing) simp_all
  finally have "uint (word_of_int (uint s * uint k) :: 'b word) = uint s * uint k"
    by (intro uint_word_of_int_small) simp_all
  then show ?thesis by simp
qed

lemma saturating_fold:
  fixes s k :: "nat \<Rightarrow> 'a::len word"
  assumes "2 * LENGTH('a) \<le> LENGTH('b::len)" and "0 \<le> z"
  shows "fold (\<lambda>i a. saturate False (uint a + uint (ucast (s i) * ucast (k i) :: 'b word))) is (saturate False z)
    = (saturate False (z + product_sum (\<lambda>i. uint (s i)) (\<lambda>i. uint (k i)) is) :: 'b word)"
  using assms(2)
proof (induction "is" arbitrary: z)
  case (Cons i "is")
  then show ?case by (simp add: uint_product [OF assms(1)] saturate_add add.assoc)
qed simp

lemma product_saturate:
  fixes s k :: "'a::len word"
  assumes "2 * LENGTH('a) \<le> LENGTH('b::len)"
  shows "(ucast s * ucast k :: 'b word) = saturate False (uint s * uint k)"
proof -
  have "uint s * uint k \<le> max_unsigned LENGTH('b)"
    using uint_le_max [of "ucast s * ucast k :: 'b word"] by (simp add: uint_product [OF assms])
  then show ?thesis by (simp add: saturate_le)
qed

text \<open>What the vertical vector path computes in a lane, and the scalar path for an element.\<close>

definition five_sum :: "'s::len word list \<Rightarrow> 'k::len word list \<Rightarrow> int" where
  "five_sum src kk = product_sum (\<lambda>i. uint (src ! i)) (\<lambda>i. uint (kk ! i)) [0..<5]"

lemma five_sum_nonneg: "0 \<le> five_sum src kk"
  by (simp add: five_sum_def product_sum_nonneg)

lemma five_first: "[0..<5] = 0 # [1..<5 :: nat]"
  by (simp add: upt_conv_Cons)

lemma five_sum_first:
  "five_sum src kk = uint (src ! 0) * uint (kk ! 0) + product_sum (\<lambda>i. uint (src ! i)) (\<lambda>i. uint (kk ! i)) [1..<5]"
  by (simp only: five_sum_def five_first product_sum_simps)

lemma five_sum_map:
  "five_sum (map f [0..<5]) kk = product_sum (\<lambda>i. uint (f i)) (\<lambda>i. uint (kk ! i)) [0..<5]"
  by (simp add: five_sum_def five_first upt_rec)

lemma vertical_loop:
  assumes "2 * LENGTH('a) \<le> LENGTH('b::len)"
  shows "filter_2d_vertical_loop (kk :: 'a::len word list) src is (acc :: 'b word)
    = (let z = uint acc + product_sum (\<lambda>i. uint (src ! i)) (\<lambda>i. uint (kk ! i)) is
       in if max_unsigned LENGTH('b) < z then word_of_int (max_unsigned LENGTH('a)) else word_of_int z)"
proof (induction "is" arbitrary: acc)
  case Nil
  then show ?case using uint_le_max [of acc] by simp
next
  case (Cons i "is")
  let ?t = "uint (src ! i) * uint (kk ! i)"
  let ?rest = "product_sum (\<lambda>i. uint (src ! i)) (\<lambda>i. uint (kk ! i)) is"
  have pos: "0 \<le> ?t" "0 \<le> ?rest" by (simp_all add: product_sum_nonneg)
  show ?case
  proof (cases "max_unsigned LENGTH('b) < uint acc + ?t")
    case True
    with pos show ?thesis by (simp add: builtin_overflow_unsigned uint_product [OF assms] Let_def)
  next
    case False
    with pos show ?thesis
      by (simp add: builtin_overflow_unsigned uint_product [OF assms] Let_def Cons.IH uint_saturate add.assoc)
  qed
qed

lemma vertical_scalar_sum:
  assumes "2 * LENGTH('a) \<le> LENGTH('b::len)"
  shows "(filter_2d_vertical_scalar (kk :: 'a::len word list) src :: 'b word)
    = (if max_unsigned LENGTH('b) < five_sum src kk then word_of_int (max_unsigned LENGTH('a))
       else word_of_int (five_sum src kk))"
  by (simp add: filter_2d_vertical_scalar_def vertical_loop [OF assms] five_sum_first uint_product [OF assms] Let_def)

lemma horizontal_loop:
  "filter_2d_horizontal_loop (kk :: 'a::len word list) (src :: 'b::len word list) is acc
    = saturate False (uint acc + product_sum (\<lambda>i. uint (src ! i)) (\<lambda>i. uint (kk ! i)) is)"
proof (induction "is" arbitrary: acc)
  case Nil
  then show ?case using uint_le_max [of acc] by (simp add: saturate_le)
next
  case (Cons i "is")
  let ?t = "uint (src ! i) * uint (kk ! i)"
  let ?rest = "product_sum (\<lambda>i. uint (src ! i)) (\<lambda>i. uint (kk ! i)) is"
  have pos: "0 \<le> ?t" "0 \<le> ?rest" "0 \<le> uint acc" by (simp_all add: product_sum_nonneg)
  consider "max_unsigned LENGTH('a) < ?t" | "?t \<le> max_unsigned LENGTH('a)" "max_unsigned LENGTH('a) < uint acc + ?t"
    | "uint acc + ?t \<le> max_unsigned LENGTH('a)" using pos by linarith
  then show ?case
  proof cases
    case 1
    then have "saturate False (uint acc + (?t + ?rest)) = (max_lane False :: 'a word)"
      using pos by (intro saturate_ge) linarith
    with 1 pos show ?thesis by (simp add: builtin_overflow_unsigned)
  next
    case 2
    then have "saturate False (uint acc + (?t + ?rest)) = (max_lane False :: 'a word)"
      using pos by (intro saturate_ge) linarith
    with 2 pos show ?thesis by (simp add: builtin_overflow_unsigned uint_saturate)
  next
    case 3
    then have fits: "\<not> max_unsigned LENGTH('a) < ?t" "\<not> max_unsigned LENGTH('a) < uint acc + ?t"
      using pos by linarith+
    then have low: "min (max_unsigned LENGTH('a)) ?t = ?t" "min (max_unsigned LENGTH('a)) (uint acc + ?t) = uint acc + ?t"
      by simp_all
    show ?thesis
      using pos by (simp add: fits low builtin_overflow_unsigned Let_def Cons.IH uint_saturate add.assoc)
  qed
qed

lemma horizontal_scalar_sum:
  "filter_2d_horizontal_scalar (kk :: 'a::len word list) (src :: 'b::len word list) = saturate False (five_sum src kk)"
proof -
  have pos: "0 \<le> uint (src ! 0) * uint (kk ! 0)" by simp
  moreover have "0 \<le> product_sum (\<lambda>i. uint (src ! i)) (\<lambda>i. uint (kk ! i)) [1..<5]" by (simp add: product_sum_nonneg)
  ultimately show ?thesis
    by (cases "max_unsigned LENGTH('a) < uint (src ! 0) * uint (kk ! 0)")
      (simp_all add: filter_2d_horizontal_scalar_def five_sum_first builtin_overflow_unsigned Let_def horizontal_loop
        uint_saturate saturate_ge del: upt_Suc)
qed

section \<open>Vector lanes\<close>

lemma filter_lane_rules [lane_rules]:
  "vmull_u (map f is) (map g is) = map (\<lambda>i. ucast (f i) * ucast (g i)) is"
  "vqaddq False (map f' is) (map g' is) = map (\<lambda>i. saturate False (uint (f' i) + uint (g' i))) is"
  "vqmovn_u (map h is) = map (\<lambda>i. saturate False (uint (h i))) is"
  by (simp_all add: vmull_u_def vqaddq_def vqmovn_u_def map2_maps lane_value_def comp_def)

lemma coefficient_halves:
  assumes "num_lanes_of TYPE('b::len) = 2 * n" and "length is = n"
  shows "vget_low_elems (coefficient_lanes TYPE('b) kk i) = map (\<lambda>_. ucast (kk ! i)) is"
    and "vget_high_elems (coefficient_lanes TYPE('b) kk i) = map (\<lambda>_. ucast (kk ! i)) is"
  using assms by (simp_all add: coefficient_lanes_def vget_low_elems_def vget_high_elems_def map_replicate_const)

lemma fold_halves:
  assumes "\<And>i A. i \<in> set is \<Longrightarrow> Fl i (map A lo) = map (\<lambda>l. g i l (A l)) lo"
    and "\<And>i A. i \<in> set is \<Longrightarrow> Fh i (map A hi) = map (\<lambda>l. g i l (A l)) hi"
  shows "fold (\<lambda>i (l, h). (Fl i l, Fh i h)) is (map A lo, map A hi)
    = (map (\<lambda>l. fold (\<lambda>i. g i l) is (A l)) lo, map (\<lambda>l. fold (\<lambda>i. g i l) is (A l)) hi)"
  using assms by (induction "is" arbitrary: A) simp_all

definition filter_2d_lane :: "'a::len word list \<Rightarrow> 'a word list \<Rightarrow> 'b::len word" where
  "filter_2d_lane kernel_y src = saturate False (five_sum src kernel_y)"

lemma filter_2d_vertical_lanes:
  fixes kk :: "'a::len word list"
  assumes "2 * LENGTH('a) \<le> LENGTH('b::len)" and n: "num_lanes_of TYPE('a) = 2 * n"
  shows "lanewise (filter_2d_vertical_vector kk) (filter_2d_lane kk :: 'a word list \<Rightarrow> 'b word) 5 (2 * n)"
proof (rule lanewiseI)
  fix F :: "nat \<Rightarrow> nat \<Rightarrow> 'a word" and lo hi :: "nat list"
  assume l: "length lo = n" "length hi = n"
  let ?src = "map (\<lambda>k. map (F k) (lo @ hi)) [0..<5]"
  let ?k = "coefficient_lanes TYPE('a) kk"
  let ?p = "\<lambda>i l. ucast (F i l) * ucast (kk ! i) :: 'b word"
  let ?g = "\<lambda>i l a. saturate False (uint a + uint (?p i l)) :: 'b word"
  have pos: "0 < (5 :: nat)" by simp
  have low: "vmull_u (vget_low_elems (?src ! i)) (vget_low_elems (?k i)) = map (?p i) lo" if "i < 5" for i
    using that l by (simp add: halves coefficient_halves(1) [OF n l(1)] lane_rules del: map_append)
  have high: "vmull_u (vget_high_elems (?src ! i)) (vget_high_elems (?k i)) = map (?p i) hi" if "i < 5" for i
    using that l by (simp add: halves coefficient_halves(2) [OF n l(2)] lane_rules del: map_append)
  have fold: "fold (\<lambda>i (acc_l, acc_h).
      (vqaddq False acc_l (vmull_u (vget_low_elems (?src ! i)) (vget_low_elems (?k i))),
       vqaddq False acc_h (vmull_u (vget_high_elems (?src ! i)) (vget_high_elems (?k i))))) [1..<5] (map A lo, map A hi)
    = (map (\<lambda>l. fold (\<lambda>i. ?g i l) [1..<5] (A l)) lo, map (\<lambda>l. fold (\<lambda>i. ?g i l) [1..<5] (A l)) hi)" for A
    by (rule fold_halves) (simp_all only: low high lane_rules set_upt atLeastLessThan_iff)
  have vec: "filter_2d_vertical_vector kk ?src = map (\<lambda>l. fold (\<lambda>i. ?g i l) [1..<5] (?p 0 l)) (lo @ hi)"
    unfolding filter_2d_vertical_vector_def Let_def low [OF pos] high [OF pos] fold
    by (simp only: prod.case map_append)
  have "fold (\<lambda>i. ?g i l) [1..<5] (?p 0 l) = filter_2d_lane kk (map (\<lambda>k. F k l) [0..<5])" for l
  proof -
    have "fold (\<lambda>i. ?g i l) [1..<5] (?p 0 l) = saturate False (uint (F 0 l) * uint (kk ! 0)
        + product_sum (\<lambda>i. uint (F i l)) (\<lambda>i. uint (kk ! i)) [1..<5])"
      unfolding product_saturate [OF assms(1), of "F 0 l" "kk ! 0"]
      by (rule saturating_fold [OF assms(1), where s = "\<lambda>i. F i l" and k = "\<lambda>i. kk ! i"]) simp
    also have "\<dots> = filter_2d_lane kk (map (\<lambda>k. F k l) [0..<5])"
      by (simp only: filter_2d_lane_def five_sum_map) (simp only: five_first product_sum_simps)
    finally show ?thesis .
  qed
  then show "filter_2d_vertical_vector kk ?src = map (\<lambda>l. filter_2d_lane kk (map (\<lambda>k. F k l) [0..<5]) :: 'b word) (lo @ hi)"
    unfolding vec by simp
qed

lemma wide_fold:
  fixes s k :: "nat \<Rightarrow> 'b::len word"
  shows "fold (\<lambda>i a. a + ucast (s i) * ucast (k i)) is (word_of_int z)
    = (word_of_int (z + product_sum (\<lambda>i. uint (s i)) (\<lambda>i. uint (k i)) is) :: 'w::len word)"
proof (induction "is" arbitrary: z)
  case (Cons i "is")
  have "word_of_int z + ucast (s i) * ucast (k i) = (word_of_int (z + uint (s i) * uint (k i)) :: 'w word)"
    by simp
  then show ?case by (simp only: fold_Cons comp_apply Cons.IH product_sum_simps add.assoc)
qed simp

lemma product_sum_bound:
  assumes "\<And>i. i \<in> set is \<Longrightarrow> a i * b i \<le> (c :: int)"
  shows "product_sum a b is \<le> int (length is) * c"
  using assms
proof (induction "is")
  case (Cons i "is")
  then have "a i * b i \<le> c" "product_sum a b is \<le> int (length is) * c" by simp_all
  then show ?case by (simp add: distrib_right)
qed simp

lemma wide_sum_fits:
  assumes "LENGTH('a::len) + LENGTH('b::len) + 3 \<le> LENGTH('w::len)"
  shows "uint (word_of_int (five_sum (src :: 'b word list) (kk :: 'a word list)) :: 'w word) = five_sum src kk"
proof -
  let ?c = "2 ^ (LENGTH('b) + LENGTH('a)) :: int"
  have "uint (src ! i) * uint (kk ! i) \<le> ?c" for i
    unfolding power_add
    by (intro mult_mono less_imp_le [OF unsigned_less]) simp_all
  then have "five_sum src kk \<le> int (length [0..<5 :: nat]) * ?c"
    unfolding five_sum_def by (intro product_sum_bound)
  moreover have "int (length [0..<5 :: nat]) * ?c < 2 ^ (LENGTH('a) + LENGTH('b) + 3)"
    by (simp add: power_add)
  moreover have "(2 :: int) ^ (LENGTH('a) + LENGTH('b) + 3) \<le> 2 ^ LENGTH('w)"
    using assms by (intro power_increasing) simp_all
  ultimately show ?thesis by (intro uint_word_of_int_small five_sum_nonneg) linarith
qed

lemma uint_ucast_up: "LENGTH('a::len) \<le> LENGTH('b::len) \<Longrightarrow> uint (ucast (x :: 'a word) :: 'b word) = uint x"
  by (rule uint_up_ucast) (simp add: is_up)

lemma narrow_twice:
  assumes "LENGTH('a::len) \<le> LENGTH('b::len)" and "0 \<le> z"
  shows "(saturate False (uint (saturate False z :: 'b word)) :: 'a word) = saturate False z"
proof (cases "z \<le> max_unsigned LENGTH('b)")
  case False
  have "max_unsigned LENGTH('a) \<le> max_unsigned LENGTH('b)"
    using power_increasing [OF assms(1), of "2 :: int"] unfolding max_unsigned_def by linarith
  with False show ?thesis unfolding uint_saturate [OF assms(2)] by (simp add: saturate_ge min_def)
qed (simp add: uint_saturate assms(2))

lemma filter_2d_horizontal_lanes:
  fixes kk :: "'a::len word list"
  assumes wide: "LENGTH('a) + LENGTH('b::len) + 3 \<le> LENGTH('w::len)" and ab: "LENGTH('a) \<le> LENGTH('b)"
    and n: "num_lanes_of TYPE('b) = 2 * n"
  shows "lanewise (filter_2d_horizontal_vector TYPE('w) kk) (\<lambda>v :: 'b word list. saturate False (five_sum v kk)) 5 (2 * n)"
proof (rule lanewiseI)
  fix F :: "nat \<Rightarrow> nat \<Rightarrow> 'b word" and lo hi :: "nat list"
  assume l: "length lo = n" "length hi = n"
  let ?src = "map (\<lambda>k. map (F k) (lo @ hi)) [0..<5]"
  let ?k = "coefficient_lanes TYPE('b) kk"
  let ?c = "\<lambda>i. ucast (kk ! i) :: 'b word"
  let ?g = "\<lambda>i l a. a + ucast (F i l) * ucast (?c i) :: 'w word"
  have pos: "0 < (5 :: nat)" by simp
  have low: "vget_low_elems (?src ! i) = map (F i) lo" "vget_low_elems (?k i) = map (\<lambda>_. ?c i) lo" if "i < 5" for i
    using that l by (simp_all add: halves coefficient_halves(1) [OF n l(1)] del: map_append)
  have high: "vget_high_elems (?src ! i) = map (F i) hi" "vget_high_elems (?k i) = map (\<lambda>_. ?c i) hi" if "i < 5" for i
    using that l by (simp_all add: halves coefficient_halves(2) [OF n l(2)] del: map_append)
  have fold: "fold (\<lambda>i (acc_l, acc_h).
      (vmlal_u acc_l (vget_low_elems (?src ! i)) (vget_low_elems (?k i)),
       vmlal_u acc_h (vget_high_elems (?src ! i)) (vget_high_elems (?k i)))) [1..<5] (map A lo, map A hi)
    = (map (\<lambda>l. fold (\<lambda>i. ?g i l) [1..<5] (A l)) lo, map (\<lambda>l. fold (\<lambda>i. ?g i l) [1..<5] (A l)) hi)" for A
    by (rule fold_halves) (simp_all only: low high lane_rules set_upt atLeastLessThan_iff)
  let ?sum = "\<lambda>l. five_sum (map (\<lambda>k. F k l) [0..<5]) kk"
  have sum: "fold (\<lambda>i. ?g i l) [1..<5] (ucast (F 0 l) * ucast (?c 0)) = (word_of_int (?sum l) :: 'w word)" for l
  proof -
    have "ucast (F 0 l) * ucast (?c 0) = (word_of_int (uint (F 0 l) * uint (?c 0)) :: 'w word)" by simp
    then have "fold (\<lambda>i. ?g i l) [1..<5] (ucast (F 0 l) * ucast (?c 0))
      = (word_of_int (uint (F 0 l) * uint (?c 0) + product_sum (\<lambda>i. uint (F i l)) (\<lambda>i. uint (?c i)) [1..<5]) :: 'w word)"
      by (simp only: wide_fold [where s = "\<lambda>i. F i l" and k = ?c])
    also have "uint (F 0 l) * uint (?c 0) + product_sum (\<lambda>i. uint (F i l)) (\<lambda>i. uint (?c i)) [1..<5] = ?sum l"
      by (simp only: five_sum_map uint_ucast_up [OF ab]) (simp only: five_first product_sum_simps)
    finally show ?thesis .
  qed
  have "filter_2d_horizontal_vector TYPE('w) kk ?src
      = map (\<lambda>l. saturate False (uint (saturate False (uint (word_of_int (?sum l) :: 'w word)) :: 'b word))) (lo @ hi)"
    unfolding filter_2d_horizontal_vector_def Let_def low [OF pos] high [OF pos] lane_rules fold
    by (simp only: prod.case sum lane_rules) (simp only: map_append [symmetric] lane_rules)
  then show "filter_2d_horizontal_vector TYPE('w) kk ?src = map (\<lambda>l. saturate False (?sum l)) (lo @ hi)"
    by (simp only: wide_sum_fits [OF wide] narrow_twice [OF ab five_sum_nonneg])
qed

section \<open>One of the two vertical paths runs\<close>

text \<open>
  The vertical paths store different values once a sum exceeds the buffer type. A row as long as a
  vector never reaches the scalar path, since the vector loop repeats the last elements; a shorter
  row never reaches the vector path. So a call behaves as the filter with one path only.
\<close>

lemma vector_loop_index: "fst (vector_loop n len cb i s) = fst (vector_loop n len cb' i s')"
proof (induction n len cb i s arbitrary: s' rule: vector_loop.induct)
  case (1 n len cb i s)
  then show ?case by (simp add: vector_loop.simps [of n len cb] vector_loop.simps [of n len cb'])
qed

lemma rewind_loop_index: "fst (rewind_loop n len cb mi i s) = fst (rewind_loop n len cb' mi i s')"
proof (induction n len cb mi i s arbitrary: s' rule: rewind_loop.induct)
  case (1 n len cb mi i s)
  let ?r = "vector_loop n mi cb i s" and ?r' = "vector_loop n mi cb' i s'"
  have r: "fst ?r = fst ?r'" by (rule vector_loop_index)
  show ?case
  proof (cases "i < len \<and> 0 < n")
    case True
    have "fst (rewind_loop n len cb len (len - n) (snd ?r)) = fst (rewind_loop n len cb' len (len - n) (snd ?r'))"
      if "len - fst ?r \<noteq> 0" using 1(1) [OF True refl that] .
    moreover have "fst (rewind_loop n len cb mi (fst ?r) (snd ?r)) = fst (rewind_loop n len cb' mi (fst ?r) (snd ?r'))"
      if "\<not> len - fst ?r \<noteq> 0" using 1(2) [OF True refl that] .
    ultimately show ?thesis
      unfolding rewind_loop.simps [of n len cb mi i] rewind_loop.simps [of n len cb' mi i] Let_def if_P [OF True]
      using r by (simp split: if_splits)
  next
    case False
    show ?thesis
      unfolding rewind_loop.simps [of n len cb mi i] rewind_loop.simps [of n len cb' mi i] if_not_P [OF False] by simp
  qed
qed

lemma once_then_tail:
  assumes "0 < step" and "step \<le> len"
  shows "tail2 tc (unroll_once2 True cb (LoopUnroll2 0 len step, m))
    = tail2 tc' (unroll_once2 True cb (LoopUnroll2 0 len step, m))"
proof -
  have block: "block_callback (\<lambda>_. id) len step (\<lambda>_. id)"
    by (simp add: block_callback_def fold_id)
  have "fst (rewind_loop step len cb (len div step * step) 0 m) = len"
    using rewind_loop_blocks [OF block assms refl, of 0 m]
      rewind_loop_index [of step len cb "len div step * step" 0 m "\<lambda>_. id" m]
    by (simp only: diff_zero add_0 fst_conv)
  with assms show ?thesis
    by (auto simp: tail2_def unroll_once2_def unroll_n_times2_def LoopUnroll2_def remaining_length2_def Let_def
        split: prod.splits)
qed

lemma short_row_no_vector:
  assumes "len < step"
  shows "unroll_once2 True cb (LoopUnroll2 0 len step, m) = unroll_once2 True cb' (LoopUnroll2 0 len step, m)"
  using assms by (simp add: unroll_once2_def unroll_n_times2_def LoopUnroll2_def Let_def)

lemma process_vertical_one_path:
  fixes flt :: "('a::len, 'b::len, 'd::len) word_kernel"
  shows "0 < num_lanes_of TYPE('a) \<Longrightarrow> num_lanes_of TYPE('a) \<le> width * row_channels src \<Longrightarrow>
      process_vertical_5x5 (flt\<lparr>vertical_scalar_path := f\<rparr>) width src dst offs m
        = process_vertical_5x5 flt width src dst offs m"
    and "width * row_channels src < num_lanes_of TYPE('a) \<Longrightarrow>
      process_vertical_5x5 (flt\<lparr>vertical_vector_path := g\<rparr>) width src dst offs m
        = process_vertical_5x5 flt width src dst offs m"
proof -
  have once: "vertical_once_step (flt\<lparr>vertical_scalar_path := f\<rparr>) = vertical_once_step flt"
    by (simp add: fun_eq_iff vertical_once_step_def)
  show "process_vertical_5x5 (flt\<lparr>vertical_scalar_path := f\<rparr>) width src dst offs m
        = process_vertical_5x5 flt width src dst offs m"
    if "0 < num_lanes_of TYPE('a)" "num_lanes_of TYPE('a) \<le> width * row_channels src"
    unfolding process_vertical_5x5_def once by (intro arg_cong [of _ _ snd] once_then_tail that)
  have tail: "vertical_tail_step (flt\<lparr>vertical_vector_path := g\<rparr>) = vertical_tail_step flt"
    by (simp add: fun_eq_iff vertical_tail_step_def)
  show "process_vertical_5x5 (flt\<lparr>vertical_vector_path := g\<rparr>) width src dst offs m
        = process_vertical_5x5 flt width src dst offs m"
    if "width * row_channels src < num_lanes_of TYPE('a)"
    unfolding process_vertical_5x5_def tail
    by (intro arg_cong [of _ _ snd] arg_cong [of _ _ "tail2 _"] short_row_no_vector that)
qed

lemma horizontal_part_same:
  fixes flt flt' :: "('a::len, 'b::len, 'd::len) word_kernel"
  assumes "horizontal_vector_path flt' = horizontal_vector_path flt"
    and "horizontal_scalar_path flt' = horizontal_scalar_path flt"
  shows "workspace_process_horizontal 5 flt' = workspace_process_horizontal 5 flt"
proof -
  have "horizontal_twice_step flt' = horizontal_twice_step flt" "horizontal_once_step flt' = horizontal_once_step flt"
    "horizontal_tail_step flt' = horizontal_tail_step flt"
    using assms by (simp_all add: fun_eq_iff horizontal_twice_step_def horizontal_once_step_def horizontal_tail_step_def)
  moreover from this have "process_horizontal_scalar_5x5 flt' = process_horizontal_scalar_5x5 flt"
    by (simp add: fun_eq_iff process_horizontal_scalar_5x5_def)
  ultimately have "process_horizontal 5 flt' = process_horizontal 5 flt"
    "process_horizontal_borders 5 flt' = process_horizontal_borders 5 flt"
    by (intro ext, simp add: process_horizontal_def process_horizontal_5x5_def process_horizontal_borders_def
        process_horizontal_borders_5x5_def)+
  then show ?thesis by (intro ext, simp add: workspace_process_horizontal_def)
qed

lemma workspace_process_one_path:
  fixes flt flt' :: "('a::len, 'b::len, 'd::len) word_kernel"
  assumes "horizontal_vector_path flt' = horizontal_vector_path flt"
    and "horizontal_scalar_path flt' = horizontal_scalar_path flt"
    and "\<And>src dst offs m. row_channels src = row_channels src_rows \<Longrightarrow>
      process_vertical_5x5 flt' (rectangle_width (ws_rect ws)) src dst offs m
        = process_vertical_5x5 flt (rectangle_width (ws_rect ws)) src dst offs m"
  shows "workspace_process 5 ws y_begin y_end src_rows dst_rows bt flt' m
    = workspace_process 5 ws y_begin y_end src_rows dst_rows bt flt m"
  unfolding workspace_process_def Let_def horizontal_part_same [OF assms(1,2)]
  by (simp add: process_vertical_def assms(3))

section \<open>The filtered image\<close>

text \<open>The sum of the five by five taps weighted by the products of the coefficients.\<close>

definition weighted_taps :: "'a::len word list \<Rightarrow> 'a word list \<Rightarrow> (nat \<Rightarrow> nat \<Rightarrow> 'a word) \<Rightarrow> int" where
  "weighted_taps kernel_x kernel_y tap =
     (\<Sum>j<5. (\<Sum>k<5. uint (tap k j) * uint (kernel_y ! k)) * uint (kernel_x ! j))"

lemma product_sum_five: "product_sum a b [0..<5] = (\<Sum>i<5. a i * b i)"
  unfolding product_sum_def interv_sum_list_conv_sum_set_nat by (simp add: atLeast0LessThan)

text \<open>
  A sum may be cut off at any value above the range of the result: a weight of at least one keeps it
  above, and a weight of zero removes it in any case.
\<close>

definition cut_off :: "int \<Rightarrow> int \<Rightarrow> int \<Rightarrow> bool" where
  "cut_off M v s \<longleftrightarrow> 0 \<le> s \<and> 0 \<le> v \<and> (v = s \<or> M \<le> s \<and> M \<le> v)"

lemma cut_off_product:
  assumes "cut_off M v s" and "0 \<le> k"
  shows "cut_off M (v * k) (s * k) \<or> k = 0"
proof (cases "k = 0")
  case False
  with assms(2) have k: "1 \<le> k" by simp
  have "v \<le> v * k" "s \<le> s * k"
    using assms(1) k mult_left_mono [of 1 k v] mult_left_mono [of 1 k s] by (simp_all add: cut_off_def)
  then show ?thesis using assms by (auto simp: cut_off_def)
qed simp

lemma min_add_cong:
  fixes M :: int
  assumes "min M a = min M a'" "min M b = min M b'" "0 \<le> a" "0 \<le> a'" "0 \<le> b" "0 \<le> b'"
  shows "min M (a + b) = min M (a' + b')"
  using assms unfolding min_def by (simp split: if_splits)

lemma cut_off_sum:
  assumes "\<And>j. cut_off M (v j) (s j)" and "\<And>j. 0 \<le> k j"
  shows "min M (product_sum v k js) = min M (product_sum s k js)"
proof (induction js)
  case (Cons j js)
  have pos: "0 \<le> v j" "0 \<le> s j" for j using assms(1) by (simp_all add: cut_off_def)
  have "min M (v j * k j) = min M (s j * k j)"
    using cut_off_product [OF assms, of j j] by (auto simp: cut_off_def)
  then show ?case
    unfolding product_sum_simps using assms(2) pos by (intro min_add_cong Cons.IH product_sum_nonneg) simp_all
qed simp

lemma filter_2d_pixel:
  fixes V :: "'a::len word list \<Rightarrow> 'b::len word"
  assumes "\<And>u. cut_off (max_unsigned LENGTH('a)) (uint (V u)) (five_sum u ky)"
  shows "filter_2d_horizontal_scalar kx (map (\<lambda>j. V (map (\<lambda>k. tap k j) [0..<5])) [0..<5])
    = saturate False (weighted_taps kx ky tap)"
proof -
  have taps: "weighted_taps kx ky tap
      = product_sum (\<lambda>j. five_sum (map (\<lambda>k. tap k j) [0..<5]) ky) (\<lambda>j. uint (kx ! j)) [0..<5]"
    unfolding five_sum_map unfolding product_sum_five weighted_taps_def ..
  have "min (max_unsigned LENGTH('a)) (five_sum (map (\<lambda>j. V (map (\<lambda>k. tap k j) [0..<5])) [0..<5]) kx)
      = min (max_unsigned LENGTH('a)) (weighted_taps kx ky tap)"
    unfolding five_sum_map [of _ kx] taps by (intro cut_off_sum assms) simp
  moreover have "0 \<le> weighted_taps kx ky tap"
    unfolding taps by (intro product_sum_nonneg five_sum_nonneg) simp
  ultimately show ?thesis
    unfolding horizontal_scalar_sum word_uint_eq_iff by (simp add: uint_saturate five_sum_nonneg)
qed

lemma max_unsigned_mono: "n \<le> k \<Longrightarrow> max_unsigned n \<le> max_unsigned k"
  using power_increasing [of n k "2 :: int"] unfolding max_unsigned_def by linarith

lemma vertical_cut_offs:
  fixes ky :: "'a::len word list"
  assumes "2 * LENGTH('a) \<le> LENGTH('b::len)"
  shows "cut_off (max_unsigned LENGTH('a)) (uint (filter_2d_lane ky u :: 'b word)) (five_sum u ky)"
    and "cut_off (max_unsigned LENGTH('a)) (uint (filter_2d_vertical_scalar ky u :: 'b word)) (five_sum u ky)"
proof -
  have max: "max_unsigned LENGTH('a) \<le> max_unsigned LENGTH('b)" "0 \<le> max_unsigned LENGTH('a)"
    using assms max_unsigned_pos(1) [of "LENGTH('a)"] by (simp_all add: max_unsigned_mono)
  have fits: "uint (word_of_int z :: 'b word) = z" if "0 \<le> z" "z \<le> max_unsigned LENGTH('b)" for z
    using that by (intro uint_word_of_int_small) (simp_all add: max_unsigned_def)
  show "cut_off (max_unsigned LENGTH('a)) (uint (filter_2d_lane ky u :: 'b word)) (five_sum u ky)"
    using max by (auto simp: cut_off_def filter_2d_lane_def uint_saturate five_sum_nonneg min_def)
  show "cut_off (max_unsigned LENGTH('a)) (uint (filter_2d_vertical_scalar ky u :: 'b word)) (five_sum u ky)"
    using max by (auto simp: cut_off_def vertical_scalar_sum [OF assms] fits five_sum_nonneg)
qed

text \<open>The element types of the two specialisations.\<close>

definition filter_2d_types :: "'a::len itself \<Rightarrow> 'b::len itself \<Rightarrow> 'w::len itself \<Rightarrow> bool" where
  "filter_2d_types ta tb tw \<longleftrightarrow>
     2 * LENGTH('a) \<le> LENGTH('b) \<and> LENGTH('a) + LENGTH('b) + 3 \<le> LENGTH('w)
     \<and> even (num_lanes_of TYPE('a)) \<and> even (num_lanes_of TYPE('b)) \<and> element_type TYPE('a) \<and> element_type TYPE('b)"

lemma filter_2d_types_used:
  "filter_2d_types TYPE(8) TYPE(16) TYPE(32)" "filter_2d_types TYPE(16) TYPE(32) TYPE(64)"
  by (simp_all add: filter_2d_types_def num_lanes_of_def element_type_def)

text \<open>The two filters with one path each.\<close>

definition each_lane :: "('s list \<Rightarrow> 'v) \<Rightarrow> nat \<Rightarrow> 's list list \<Rightarrow> 'v list" where
  "each_lane f lanes v = map (\<lambda>l. f (map (\<lambda>x. x ! l) v)) [0..<lanes]"

lemma each_lane_lanes: "lanewise (each_lane f lanes) f S lanes"
  by (simp add: lanewise_def each_lane_def)

lemma one_path_filters:
  fixes kx ky :: "'a::len word list"
  assumes "filter_2d_types TYPE('a) TYPE('b::len) TYPE('w::len)"
  defines "flt \<equiv> SeparableFilter2D TYPE('w) kx ky :: ('a, 'b, 'a) word_kernel"
  shows "separable_filter (flt\<lparr>vertical_scalar_path := filter_2d_lane ky\<rparr>) 5 (\<lambda>_. True) (filter_2d_horizontal_scalar kx)"
    and "separable_filter
      (flt\<lparr>vertical_vector_path := each_lane (filter_2d_vertical_scalar ky) (num_lanes_of TYPE('a))\<rparr>) 5
      (\<lambda>_. True) (filter_2d_horizontal_scalar kx)"
proof -
  note types = assms(1) [unfolded filter_2d_types_def]
  obtain n where n: "num_lanes_of TYPE('a) = 2 * n" using types by (elim conjE evenE)
  obtain n' where n': "num_lanes_of TYPE('b) = 2 * n'" using types by (elim conjE evenE)
  have vert: "lanewise (filter_2d_vertical_vector ky) (filter_2d_lane ky :: 'a word list \<Rightarrow> 'b word) 5
      (num_lanes_of TYPE('a))"
    unfolding n using types by (intro filter_2d_vertical_lanes n) simp
  have "lanewise (filter_2d_horizontal_vector TYPE('w) kx) (\<lambda>v :: 'b word list. saturate False (five_sum v kx)) 5
      (num_lanes_of TYPE('b))"
    unfolding n' using types by (intro filter_2d_horizontal_lanes n') simp_all
  then have horiz: "lanewise (filter_2d_horizontal_vector TYPE('w) kx)
      (filter_2d_horizontal_scalar kx :: 'b word list \<Rightarrow> 'a word) 5 (num_lanes_of TYPE('b))"
    by (simp add: horizontal_scalar_sum [abs_def])
  show "separable_filter (flt\<lparr>vertical_scalar_path := filter_2d_lane ky\<rparr>) 5 (\<lambda>_. True) (filter_2d_horizontal_scalar kx)"
    using types vert horiz by unfold_locales (simp_all add: flt_def SeparableFilter2D_def)
  show "separable_filter
      (flt\<lparr>vertical_vector_path := each_lane (filter_2d_vertical_scalar ky) (num_lanes_of TYPE('a))\<rparr>) 5
      (\<lambda>_. True) (filter_2d_horizontal_scalar kx)"
    using types horiz by unfold_locales (simp_all add: flt_def SeparableFilter2D_def each_lane_lanes)
qed

lemma filter_2d_process_image:
  fixes kx ky :: "'a::len word list"
  assumes types: "filter_2d_types TYPE('a) TYPE('b::len) TYPE('w::len)"
    and lay: "filter_memory TYPE('a) TYPE('a) w h ch src ss dst ds buf n"
    and n: "(w * ch + 3) * sizeof TYPE('b) \<le> n"
    and dims: "5 - 1 \<le> w" "5 - 1 \<le> h" "w \<le> size_max" "h \<le> size_max" and ys: "y_begin \<le> y_end" "y_end \<le> h"
  shows "filtered TYPE('a) w ch dst ds buf n y_begin y_end
      (\<lambda>y x c. saturate False (weighted_taps kx ky (filter_tap TYPE('a) 5 bt w h ch src ss m y x c))) m
    (KLEIDICV_OK, workspace_process 5 (image_workspace w h ch buf s) y_begin y_end (image_rows TYPE('a) src ss ch)
      (image_rows TYPE('a) dst ds ch) bt (SeparableFilter2D TYPE('w) kx ky :: ('a, 'b, 'a) word_kernel) m)"
proof (cases "num_lanes_of TYPE('a) \<le> w * ch")
  case True
  let ?flt = "SeparableFilter2D TYPE('w) kx ky :: ('a, 'b, 'a) word_kernel"
  let ?flt' = "?flt\<lparr>vertical_scalar_path := filter_2d_lane ky\<rparr>"
  have "0 < num_lanes_of TYPE('a)"
    using types by (simp add: filter_2d_types_def element_type_lanes)
  with True have "workspace_process 5 (image_workspace w h ch buf s) y_begin y_end (image_rows TYPE('a) src ss ch)
      (image_rows TYPE('a) dst ds ch) bt ?flt' m
    = workspace_process 5 (image_workspace w h ch buf s) y_begin y_end (image_rows TYPE('a) src ss ch)
      (image_rows TYPE('a) dst ds ch) bt ?flt m"
    by (intro workspace_process_one_path process_vertical_one_path(1))
      (simp_all add: image_workspace_def image_rows_def)
  moreover have "filter_2d_horizontal_scalar kx (map (\<lambda>j. filter_2d_lane ky (map (\<lambda>k. tap k j) [0..<5]) :: 'b word) [0..<5])
      = saturate False (weighted_taps kx ky tap)" for tap :: "nat \<Rightarrow> nat \<Rightarrow> 'a word"
    using types by (intro filter_2d_pixel vertical_cut_offs) (simp add: filter_2d_types_def)
  moreover note separable_filtered [OF one_path_filters(1) [OF types, where kx = kx and ky = ky] lay n dims ys, of bt m s]
  ultimately show ?thesis
    by (simp add: SeparableFilter2D_def)
next
  case False
  let ?flt = "SeparableFilter2D TYPE('w) kx ky :: ('a, 'b, 'a) word_kernel"
  let ?flt' = "?flt\<lparr>vertical_vector_path := each_lane (filter_2d_vertical_scalar ky) (num_lanes_of TYPE('a))\<rparr>"
  from False have "workspace_process 5 (image_workspace w h ch buf s) y_begin y_end (image_rows TYPE('a) src ss ch)
      (image_rows TYPE('a) dst ds ch) bt ?flt' m
    = workspace_process 5 (image_workspace w h ch buf s) y_begin y_end (image_rows TYPE('a) src ss ch)
      (image_rows TYPE('a) dst ds ch) bt ?flt m"
    by (intro workspace_process_one_path process_vertical_one_path(2))
      (simp_all add: image_workspace_def image_rows_def)
  moreover have "filter_2d_horizontal_scalar kx (map (\<lambda>j. filter_2d_vertical_scalar ky (map (\<lambda>k. tap k j) [0..<5]) :: 'b word) [0..<5])
      = saturate False (weighted_taps kx ky tap)" for tap :: "nat \<Rightarrow> nat \<Rightarrow> 'a word"
    using types by (intro filter_2d_pixel vertical_cut_offs) (simp add: filter_2d_types_def)
  moreover note separable_filtered [OF one_path_filters(2) [OF types, where kx = kx and ky = ky] lay n dims ys, of bt m s]
  ultimately show ?thesis
    by (simp add: SeparableFilter2D_def)
qed

section \<open>The operations\<close>

text \<open>The two arrays of coefficients are apart from what the operation writes.\<close>

definition kernels_apart ::
    "'a::len itself \<Rightarrow> nat \<Rightarrow> nat \<Rightarrow> nat \<Rightarrow> nat \<Rightarrow> nat \<Rightarrow> nat \<Rightarrow> nat \<Rightarrow> bool" where
  "kernels_apart t kernel_x kernel_y h dst ds buf n \<longleftrightarrow>
     (\<forall>p \<in> {kernel_x, kernel_y}. {p..<p + 5 * sizeof TYPE('a)} \<inter> ({buf..<buf + n} \<union> {dst..<dst + h * ds}) = {})"

lemma separable_filter_2d_accepted:
  assumes "separable_filter_2d_validate align src ss dst ds w h ch kx kw ky kh b = Inr bt"
  shows "kw = 5" "kh = 5" "4 \<le> w" "4 \<le> h" "w \<le> size_max" "h \<le> size_max" "ch \<le> 4"
    "get_fixed_border_type b = Some bt"
proof -
  have ok: "kw = 5" "kh = 5" "4 \<le> w" "4 \<le> h" "ch \<le> 4" "w * h \<le> KLEIDICV_MAX_IMAGE_PIXELS"
    "get_fixed_border_type b = Some bt"
    using assms by (auto simp: separable_filter_2d_validate_def separable_filter_2d_checks_def checks_OK
        check_image_size_OK KLEIDICV_MAXIMUM_CHANNEL_COUNT_def Let_def split: if_splits option.splits)
  moreover have "w \<le> w * h" "h \<le> w * h" using ok by simp_all
  moreover have "KLEIDICV_MAX_IMAGE_PIXELS \<le> size_max" by (simp add: KLEIDICV_MAX_IMAGE_PIXELS_def size_max_def)
  ultimately show "kw = 5" "kh = 5" "4 \<le> w" "4 \<le> h" "w \<le> size_max" "h \<le> size_max" "ch \<le> 4"
    "get_fixed_border_type b = Some bt" by (simp_all, linarith+)
qed

lemma filter_2d_operation_image:
  fixes t :: "'w::len itself"
  assumes types: "filter_2d_types TYPE('a::len) TYPE('b::len) TYPE('w)"
    and ok: "separable_filter_2d_validate align src ss dst ds w h ch kx kw ky kh b = Inr bt"
    and buf: "malloc ((w * ch + 3) * sizeof TYPE('b)) = Some buf"
    and lay: "filter_memory TYPE('a) TYPE('a) w h ch src ss dst ds buf ((w * ch + 3) * sizeof TYPE('b))"
  shows "filtered TYPE('a) w ch dst ds buf ((w * ch + 3) * sizeof TYPE('b)) 0 h
      (\<lambda>y x c. saturate False (weighted_taps (load_kernel kx m) (load_kernel ky m)
        (filter_tap TYPE('a) 5 bt w h ch src ss m y x c))) m
    (separable_filter_2d align (separable_filter_2d_stripe
      (SeparableFilter2D TYPE('w) :: 'a word list \<Rightarrow> 'a word list \<Rightarrow> ('a, 'b, 'a) word_kernel) malloc)
      src ss dst ds w h ch kx kw ky kh b m)"
proof -
  note acc = separable_filter_2d_accepted [OF ok]
  have size: "(w * ch + 3) * sizeof TYPE('b) \<le> size_max" using lay by (simp add: filter_memory_def)
  have "0 < sizeof TYPE('b)" using types by (auto simp: filter_2d_types_def element_type_def sizeof_def)
  then have "workspace_create malloc \<lparr> rectangle_width = w, rectangle_height = h \<rparr> ch (sizeof TYPE('b))
      = Inr (image_workspace w h ch buf ((w * ch + 3) * sizeof TYPE('b)))"
    by (intro workspace_create_image size buf)
  moreover have "5 - 1 \<le> w" "5 - 1 \<le> h" using acc by simp_all
  note filter_2d_process_image [OF types lay order_refl this acc(5,6) le0 order_refl, of "load_kernel kx m"
      "load_kernel ky m" bt m "(w * ch + 3) * sizeof TYPE('b)"]
  ultimately show ?thesis
    by (simp add: separable_filter_2d_def ok separable_filter_2d_stripe_def)
qed

text \<open>
  C9. \<open>separable_filter_2d\<close> on 8-bit images: the element stored for every channel of every
  pixel is the exact sum of the five by five taps weighted by the products of the coefficients, cut
  off once at 255, although the code sums in steps that overflow, saturate or stop early, and although
  its vector and scalar paths keep different values in between. This holds for all four border types
  the code has fixed-size offsets for and accepts, REPLICATE, REFLECT, WRAP and REVERSE; the comment of
  \<^verbatim>\<open>kleidicv.h\<close> names only REPLICATE as supported.
\<close>

theorem separable_filter_2d_image_u8:
  assumes "separable_filter_2d_validate 1 src ss dst ds w h ch kx kw ky kh b = Inr bt"
    and "malloc ((w * ch + 3) * 2) = Some buf"
    and "filter_memory TYPE(8) TYPE(8) w h ch src ss dst ds buf ((w * ch + 3) * 2)"
    and "kernels_apart TYPE(8) kx ky h dst ds buf ((w * ch + 3) * 2)"
  shows "filtered TYPE(8) w ch dst ds buf ((w * ch + 3) * 2) 0 h
      (\<lambda>y x c. saturate False (weighted_taps (load_kernel kx m) (load_kernel ky m)
        (filter_tap TYPE(8) 5 bt w h ch src ss m y x c))) m
    (separable_filter_2d 1 (separable_filter_2d_stripe SeparableFilter2D_u8 malloc)
      src ss dst ds w h ch kx kw ky kh b m)"
  using filter_2d_operation_image [OF filter_2d_types_used(1) assms(1), of malloc buf m] assms(2,3)
  by (simp add: SeparableFilter2D_u8_def sizeof_def)

lemma separable_filter_2d_image_u8_witness:
  "let r = separable_filter_2d 1 (separable_filter_2d_stripe SeparableFilter2D_u8 (\<lambda>_. Some 1000))
       100 4 300 4 4 4 1 500 5 600 5 KLEIDICV_BORDER_TYPE_REPLICATE (\<lambda>a. if a < 200 \<and> 100 \<le> a then 3 else 1)
   in fst r = KLEIDICV_OK \<and> load_elem (pixel_at TYPE(8) 300 4 1 0 0 0) (snd r) = (75 :: u8)"
proof -
  let ?m = "\<lambda>a :: nat. if a < 200 \<and> 100 \<le> a then 3 else 1 :: u8"
  have ok: "separable_filter_2d_validate 1 100 4 300 4 4 4 1 500 5 600 5 KLEIDICV_BORDER_TYPE_REPLICATE = Inr REPLICATE"
    "filter_memory TYPE(8) TYPE(8) 4 4 1 100 4 300 4 1000 ((4 * 1 + 3) * 2)"
    "kernels_apart TYPE(8) 500 600 4 300 4 1000 ((4 * 1 + 3) * 2)"
    by (auto simp: separable_filter_2d_validate_def separable_filter_2d_checks_def any_null_def
        check_pointer_and_stride_def check_image_size_RANGE check_pointers_def sizeof_def nullptr_def is_misaligned_def
        KLEIDICV_MAX_IMAGE_PIXELS_def KLEIDICV_MAXIMUM_CHANNEL_COUNT_def get_fixed_border_type_def filter_memory_def
        kernels_apart_def size_max_def)
  note image = separable_filter_2d_image_u8 [OF ok(1) refl ok(2,3), of ?m]
  have tap: "filter_tap TYPE(8) 5 REPLICATE 4 4 1 100 4 ?m 0 0 0 k j = 3" for k j
    using border_coordinate_less [of 4 KLEIDICV_BORDER_TYPE_REPLICATE "int k - 2"]
      border_coordinate_less [of 4 KLEIDICV_BORDER_TYPE_REPLICATE "int j - 2"]
    by (simp add: filter_tap_def pixel_at_def load_elem_def sizeof_def border_type_of_def)
  have kernels: "load_kernel 500 ?m = replicate 5 (1 :: u8)" "load_kernel 600 ?m = replicate 5 (1 :: u8)"
    by (intro nth_equalityI, simp_all add: load_kernel_def load_elem_def sizeof_def upt_rec [of _ 2])+
  have pixel: "(saturate False (weighted_taps (load_kernel 500 ?m) (load_kernel 600 ?m)
      (filter_tap TYPE(8) 5 REPLICATE 4 4 1 100 4 ?m 0 0 0)) :: u8) = 75"
    unfolding weighted_taps_def tap kernels
    by (simp add: saturate_def type_lowest_def type_max_def max_unsigned_def)
  show ?thesis
    unfolding Let_def
    by (intro conjI filteredD(1) [OF image]
        trans [OF filteredD(2) [OF image le0 zero_less_numeral zero_less_numeral zero_less_one] pixel])
qed

text \<open>
  C10. The same on 16-bit images, with 32-bit buffers and 64-bit sums and the limit 65535, again for the
  four border types the code accepts, of which \<^verbatim>\<open>kleidicv.h\<close> names only REPLICATE.
\<close>

theorem separable_filter_2d_image_u16:
  assumes "separable_filter_2d_validate 2 src ss dst ds w h ch kx kw ky kh b = Inr bt"
    and "malloc ((w * ch + 3) * 4) = Some buf"
    and "filter_memory TYPE(16) TYPE(16) w h ch src ss dst ds buf ((w * ch + 3) * 4)"
    and "kernels_apart TYPE(16) kx ky h dst ds buf ((w * ch + 3) * 4)"
  shows "filtered TYPE(16) w ch dst ds buf ((w * ch + 3) * 4) 0 h
      (\<lambda>y x c. saturate False (weighted_taps (load_kernel kx m) (load_kernel ky m)
        (filter_tap TYPE(16) 5 bt w h ch src ss m y x c))) m
    (separable_filter_2d 2 (separable_filter_2d_stripe SeparableFilter2D_u16 malloc)
      src ss dst ds w h ch kx kw ky kh b m)"
  using filter_2d_operation_image [OF filter_2d_types_used(2) assms(1), of malloc buf m] assms(2,3)
  by (simp add: SeparableFilter2D_u16_def sizeof_def)

lemma separable_filter_2d_image_u16_witness:
  "let r = separable_filter_2d 2 (separable_filter_2d_stripe SeparableFilter2D_u16 (\<lambda>_. Some 1000))
       100 8 300 8 4 4 1 500 5 600 5 KLEIDICV_BORDER_TYPE_REPLICATE (\<lambda>a. if a < 200 \<and> 100 \<le> a then 255 else 1)
   in fst r = KLEIDICV_OK \<and> load_elem (pixel_at TYPE(16) 300 8 1 0 0 0) (snd r) = (65535 :: u16)"
proof -
  let ?m = "\<lambda>a :: nat. if a < 200 \<and> 100 \<le> a then 255 else 1 :: u8"
  have ok: "separable_filter_2d_validate 2 100 8 300 8 4 4 1 500 5 600 5 KLEIDICV_BORDER_TYPE_REPLICATE = Inr REPLICATE"
    "filter_memory TYPE(16) TYPE(16) 4 4 1 100 8 300 8 1000 ((4 * 1 + 3) * 4)"
    "kernels_apart TYPE(16) 500 600 4 300 8 1000 ((4 * 1 + 3) * 4)"
    by (auto simp: separable_filter_2d_validate_def separable_filter_2d_checks_def any_null_def
        check_pointer_and_stride_def check_image_size_RANGE check_pointers_def sizeof_def nullptr_def is_misaligned_def
        KLEIDICV_MAX_IMAGE_PIXELS_def KLEIDICV_MAXIMUM_CHANNEL_COUNT_def get_fixed_border_type_def filter_memory_def
        kernels_apart_def size_max_def)
  note image = separable_filter_2d_image_u16 [OF ok(1) refl ok(2,3), of ?m]
  have tap: "filter_tap TYPE(16) 5 REPLICATE 4 4 1 100 8 ?m 0 0 0 k j = 65535" for k j
    using border_coordinate_less [of 4 KLEIDICV_BORDER_TYPE_REPLICATE "int k - 2"]
      border_coordinate_less [of 4 KLEIDICV_BORDER_TYPE_REPLICATE "int j - 2"]
    by (simp add: filter_tap_def pixel_at_def load_elem_def sizeof_def border_type_of_def upt_rec)
  have kernels: "load_kernel 500 ?m = replicate 5 (257 :: u16)" "load_kernel 600 ?m = replicate 5 (257 :: u16)"
    by (intro nth_equalityI, simp_all add: load_kernel_def load_elem_def sizeof_def upt_rec [of _ 2])+
  have pixel: "(saturate False (weighted_taps (load_kernel 500 ?m) (load_kernel 600 ?m)
      (filter_tap TYPE(16) 5 REPLICATE 4 4 1 100 8 ?m 0 0 0)) :: u16) = 65535"
    unfolding weighted_taps_def tap kernels
    by (simp add: saturate_def type_lowest_def type_max_def max_unsigned_def)
  show ?thesis
    unfolding Let_def
    by (intro conjI filteredD(1) [OF image]
        trans [OF filteredD(2) [OF image le0 zero_less_numeral zero_less_numeral zero_less_one] pixel])
qed

end
