(* ===== verification/Image_Writes.thy ===== *)
theory Image_Writes
  imports Store_Loops
begin

text \<open>
  Operations that write elements at scattered addresses, each element always with the same value: the
  elements may be written in any order, several of them at once, and more than once. The rules build
  the set of the elements that a composed operation has written. Nothing that is read is overwritten.
\<close>

section \<open>Written elements\<close>

text \<open>
  Element \<open>i\<close> lies at \<open>addr i\<close> and gets the value \<open>val i\<close>; \<open>B\<close> are the bytes the operations read, which
  are those of the memory \<open>m0\<close> throughout.
\<close>

definition scattered :: "'a::len itself \<Rightarrow> ('i \<Rightarrow> nat) \<Rightarrow> 'i set \<Rightarrow> nat set \<Rightarrow> bool" where
  "scattered t addr I B \<longleftrightarrow>
     (\<forall>i \<in> I. elem_bytes TYPE('a) (addr i) \<inter> B = {})
     \<and> (\<forall>i \<in> I. \<forall>j \<in> I. i \<noteq> j \<longrightarrow> elem_bytes TYPE('a) (addr i) \<inter> elem_bytes TYPE('a) (addr j) = {})"

definition unchanged :: "nat set \<Rightarrow> mem \<Rightarrow> mem \<Rightarrow> bool" where
  "unchanged B m0 m \<longleftrightarrow> (\<forall>a \<in> B. m a = m0 a)"

definition writes ::
    "('i \<Rightarrow> nat) \<Rightarrow> nat set \<Rightarrow> mem \<Rightarrow> ('i \<Rightarrow> 'a::len word) \<Rightarrow> 'i set \<Rightarrow> (mem \<Rightarrow> mem) \<Rightarrow> bool" where
  "writes addr B m0 val E f \<longleftrightarrow>
     (\<forall>m. unchanged B m0 m \<longrightarrow>
        (\<forall>i \<in> E. load_elem (addr i) (f m) = val i)
        \<and> (\<forall>a. a \<notin> (\<Union>i \<in> E. elem_bytes TYPE('a) (addr i)) \<longrightarrow> f m a = m a))"

lemma writesD:
  fixes val :: "'i \<Rightarrow> 'a::len word"
  assumes "writes addr B m0 val E f" and "unchanged B m0 m"
  shows "i \<in> E \<Longrightarrow> load_elem (addr i) (f m) = val i"
    and "(\<And>i. i \<in> E \<Longrightarrow> a \<notin> elem_bytes TYPE('a) (addr i)) \<Longrightarrow> f m a = m a"
  using assms unfolding writes_def by blast+

lemma writesI:
  fixes val :: "'i \<Rightarrow> 'a::len word"
  assumes "\<And>m i. unchanged B m0 m \<Longrightarrow> i \<in> E \<Longrightarrow> load_elem (addr i) (f m) = val i"
    and "\<And>m a. unchanged B m0 m \<Longrightarrow> (\<And>i. i \<in> E \<Longrightarrow> a \<notin> elem_bytes TYPE('a) (addr i)) \<Longrightarrow> f m a = m a"
  shows "writes addr B m0 val E f"
  using assms unfolding writes_def by blast

lemma writes_unchanged:
  fixes val :: "'i \<Rightarrow> 'a::len word"
  assumes "writes addr B m0 val E f" and "scattered TYPE('a) addr I B" and "E \<subseteq> I" and "unchanged B m0 m"
  shows "unchanged B m0 (f m)"
  unfolding unchanged_def
proof (intro ballI)
  fix a
  assume a: "a \<in> B"
  then have "f m a = m a"
    using assms(2,3) by (intro writesD(2) [OF assms(1,4)]) (auto simp: scattered_def)
  with a assms(4) show "f m a = m0 a" by (simp add: unchanged_def)
qed

lemma writes_nothing: "writes addr B m0 val {} (\<lambda>m. m)"
  by (rule writesI) simp_all

lemma writes_cong:
  assumes "writes addr B m0 val E f" and "\<And>m. unchanged B m0 m \<Longrightarrow> g m = f m"
  shows "writes addr B m0 val E g"
  using assms unfolding writes_def by simp

lemma writes_comp:
  fixes val :: "'i \<Rightarrow> 'a::len word"
  assumes I: "scattered TYPE('a) addr I B" "E \<subseteq> I" "F \<subseteq> I"
    and f: "writes addr B m0 val E f" and g: "writes addr B m0 val F g"
  shows "writes addr B m0 val (E \<union> F) (\<lambda>m. g (f m))"
proof (rule writesI)
  fix m i
  assume m: "unchanged B m0 m" and i: "i \<in> E \<union> F"
  note fm = writes_unchanged [OF f I(1,2) m]
  show "load_elem (addr i) (g (f m)) = val i"
  proof (cases "i \<in> F")
    case True
    then show ?thesis by (rule writesD(1) [OF g fm])
  next
    case False
    with i have i: "i \<in> E" by simp
    have "load_elem (addr i) (g (f m)) = (load_elem (addr i) (f m) :: 'a word)"
    proof (rule load_elem_cong, intro ballI writesD(2) [OF g fm])
      fix a j
      assume a: "a \<in> elem_bytes TYPE('a) (addr i)" and "j \<in> F"
      with False i I have "i \<noteq> j" "i \<in> I" "j \<in> I" by auto
      with a I(1) show "a \<notin> elem_bytes TYPE('a) (addr j)" unfolding scattered_def by blast
    qed
    also have "\<dots> = val i" by (rule writesD(1) [OF f m i])
    finally show ?thesis .
  qed
next
  fix m a
  assume m: "unchanged B m0 m" and a: "\<And>i. i \<in> E \<union> F \<Longrightarrow> a \<notin> elem_bytes TYPE('a) (addr i)"
  have "g (f m) a = f m a" by (rule writesD(2) [OF g writes_unchanged [OF f I(1,2) m]]) (simp add: a)
  also have "\<dots> = m a" by (rule writesD(2) [OF f m]) (simp add: a)
  finally show "g (f m) a = m a" .
qed

lemma writes_fold:
  fixes val :: "'i \<Rightarrow> 'a::len word"
  assumes I: "scattered TYPE('a) addr I B"
    and "\<And>k. k \<in> set ks \<Longrightarrow> E k \<subseteq> I" and "\<And>k. k \<in> set ks \<Longrightarrow> writes addr B m0 val (E k) (X k)"
  shows "writes addr B m0 val (\<Union>k \<in> set ks. E k) (fold X ks)"
  using assms(2,3)
proof (induction ks rule: rev_induct)
  case Nil
  then show ?case by (simp add: writes_nothing id_def)
next
  case (snoc k ks)
  have "writes addr B m0 val ((\<Union>k \<in> set ks. E k) \<union> E k) (\<lambda>m. X k (fold X ks m))"
    using snoc by (intro writes_comp [OF I]) auto
  then show ?case by (simp add: Un_commute comp_def)
qed

section \<open>Stores\<close>

lemma writes_store:
  fixes val :: "'i \<Rightarrow> 'a::len word"
  assumes "8 dvd LENGTH('a)" and "\<And>m. unchanged B m0 m \<Longrightarrow> f m = store_elem (addr i) (val i) m"
  shows "writes addr B m0 val {i} f"
  by (rule writesI) (simp_all add: assms load_store_same store_elem_outside)

lemma writes_vector:
  fixes val :: "'i \<Rightarrow> 'a::len word"
  assumes "8 dvd LENGTH('a)" and I: "scattered TYPE('a) addr I B" "\<And>l. l < n \<Longrightarrow> i l \<in> I"
    and "\<And>l. l < n \<Longrightarrow> addr (i l) = p + l * sizeof TYPE('a)"
    and "\<And>m. unchanged B m0 m \<Longrightarrow> f m = vst1q_elems p (map (\<lambda>l. val (i l)) [0..<n]) m"
  shows "writes addr B m0 val (i ` {..<n}) f"
proof -
  have "writes addr B m0 val (\<Union>l \<in> set [0..<n]. {i l})
      (fold (\<lambda>l. store_elem (p + l * sizeof TYPE('a)) (val (i l))) [0..<n])"
    using assms by (intro writes_fold [OF I(1)] writes_store) auto
  also have "(\<Union>l \<in> set [0..<n]. {i l}) = i ` {..<n}" by auto
  finally show ?thesis by (rule writes_cong) (simp add: assms(5) vst1q_map)
qed

section \<open>Loops of overlapping vectors\<close>

text \<open>
  The loop that avoids a tail calls the vector step at multiples of the vector length, and once more
  at the last position where a vector fits, if anything is left.
\<close>

lemma vector_loop_calls:
  assumes "0 < n"
  shows "vector_loop n (i + q * n) cb i s = (i + q * n, fold (\<lambda>k. cb (i + k * n)) [0..<q] s)"
proof (induction q arbitrary: i s)
  case 0
  then show ?case by (simp add: vector_loop_stops)
next
  case (Suc q)
  have "vector_loop n (i + Suc q * n) cb i s = vector_loop n (i + n + q * n) cb (i + n) (cb i s)"
    using assms by (subst vector_loop.simps) (simp add: add.assoc)
  also have "\<dots> = (i + n + q * n, fold (\<lambda>k. cb (i + n + k * n)) [0..<q] (cb i s))" by (rule Suc.IH)
  also have "fold (\<lambda>k. cb (i + n + k * n)) [0..<q] (cb i s) = fold (\<lambda>k. cb (i + k * n)) (map Suc [0..<q]) (cb i s)"
    by (simp add: fold_map comp_def add.assoc)
  also have "\<dots> = fold (\<lambda>k. cb (i + k * n)) [0..<Suc q] s"
    unfolding map_Suc_upt by (simp add: upt_conv_Cons del: upt_Suc)
  finally show ?case by (simp add: add.assoc)
qed

lemma avoid_tail_calls:
  assumes "0 < n" and "n \<le> len"
  shows "snd (tail2 elem (unroll_once2 True cb (LoopUnroll2 0 len n, s)))
    = fold cb (map (\<lambda>k. k * n) [0..<len div n] @ (if n dvd len then [] else [len - n])) s"
proof -
  let ?q = "len div n"
  let ?m = "fold (\<lambda>k. cb (k * n)) [0..<?q] s"
  have loop: "vector_loop n (?q * n) cb 0 s = (?q * n, ?m)"
    using vector_loop_calls [OF assms(1), of 0 ?q cb s] by simp
  have "0 < len" using assms by simp
  have finished: "rewind_loop n len cb mi len u = (len, u)" for mi u by (simp add: rewind_loop.simps)
  have "rewind_loop n len cb (?q * n) 0 s = (len, if n dvd len then ?m else cb (len - n) ?m)"
  proof (cases "n dvd len")
    case True
    then show ?thesis
      using assms(1) \<open>0 < len\<close> loop finished by (subst rewind_loop.simps) simp
  next
    case False
    then have "?q * n < len"
      using div_times_less_eq_dividend [of len n] by (metis dvd_triv_right nat_less_le)
    then show ?thesis
      using False assms \<open>0 < len\<close> loop finished vector_loop_one [OF assms, of cb ?m]
      by (subst rewind_loop.simps, simp, subst rewind_loop.simps) (simp add: Let_def)
  qed
  then show ?thesis
    using assms(2) by (simp add: tail2_def unroll_once2_def unroll_n_times2_def LoopUnroll2_def
        remaining_length2_def Let_def fold_map comp_def)
qed

lemma short_loop_calls:
  "len < n \<Longrightarrow> snd (tail2 elem (unroll_once2 True cb (LoopUnroll2 0 len n, s))) = fold elem [0..<len] s"
  by (simp add: tail2_def unroll_once2_def unroll_n_times2_def LoopUnroll2_def Let_def)

text \<open>
  Position \<open>i\<close> of the loop stands for the elements \<open>E i\<close>; a vector step writes those of its positions.
\<close>

lemma writes_overlapping_loop:
  fixes val :: "'i \<Rightarrow> 'a::len word"
  assumes I: "scattered TYPE('a) addr I B" "\<And>i. i < len \<Longrightarrow> E i \<subseteq> I" and n: "0 < n"
    and vector: "\<And>i. i + n \<le> len \<Longrightarrow> writes addr B m0 val (\<Union>k \<in> {i..<i + n}. E k) (cb i)"
    and element: "\<And>i. i < len \<Longrightarrow> writes addr B m0 val (E i) (elem i)"
  shows "writes addr B m0 val (\<Union>i < len. E i)
    (\<lambda>m. snd (tail2 elem (unroll_once2 True cb (LoopUnroll2 0 len n, m))))"
proof (cases "n \<le> len")
  case False
  have "writes addr B m0 val (\<Union>i \<in> set [0..<len]. E i) (fold elem [0..<len])"
    using I element by (intro writes_fold [OF I(1)]) auto
  then show ?thesis using False by (simp add: short_loop_calls atLeast0LessThan)
next
  case True
  let ?calls = "map (\<lambda>k. k * n) [0..<len div n] @ (if n dvd len then [] else [len - n])"
  have fits: "i + n \<le> len" if "i \<in> set ?calls" for i
  proof -
    have "k * n + n \<le> len" if "k < len div n" for k
      using that n by (metis Suc_leI add.commute less_eq_div_iff_mult_less_eq mult_Suc)
    with that True show ?thesis by (auto split: if_splits)
  qed
  have "(\<Union>i \<in> set ?calls. {i..<i + n}) = {..<len}"
  proof (intro subset_antisym subsetI)
    fix j
    assume "j \<in> {..<len}"
    then have j: "j < len" by simp
    have grid: "j div n * n \<le> j" "j < j div n * n + n"
      using div_mult_mod_eq [of j n] mod_less_divisor [OF n, of j] by linarith+
    show "j \<in> (\<Union>i \<in> set ?calls. {i..<i + n})"
    proof (cases "j div n < len div n")
      case True
      with grid show ?thesis by force
    next
      case False
      then have "len div n * n \<le> j" using grid by (meson le_trans mult_le_mono1 not_less)
      moreover from this j have "\<not> n dvd len" by (metis dvd_div_mult_self not_less)
      moreover have "len < len div n * n + n"
        using div_mult_mod_eq [of len n] mod_less_divisor [OF n, of len] by linarith
      ultimately show ?thesis using j by auto
    qed
  qed (use fits in force)
  then have "(\<Union>i < len. E i) = (\<Union>i \<in> set ?calls. \<Union>k \<in> {i..<i + n}. E k)"
    by (metis UN_UN_flatten)
  moreover have "writes addr B m0 val (\<Union>i \<in> set ?calls. \<Union>k \<in> {i..<i + n}. E k) (fold cb ?calls)"
  proof (rule writes_fold [OF I(1)])
    fix i
    assume "i \<in> set ?calls"
    then have i: "i + n \<le> len" by (rule fits)
    then show "writes addr B m0 val (\<Union>k \<in> {i..<i + n}. E k) (cb i)" by (rule vector)
    show "(\<Union>k \<in> {i..<i + n}. E k) \<subseteq> I"
    proof (intro UN_least I(2))
      fix k
      assume "k \<in> {i..<i + n}"
      with i show "k < len" by simp
    qed
  qed
  ultimately show ?thesis by (simp only: avoid_tail_calls [OF n True])
qed

end
