(* ===== verification/Median_Networks.thy ===== *)
theory Median_Networks
  imports Min_Max
begin

text \<open>
  The networks that select the median of a square window:
  \<^verbatim>\<open>kleidicv/src/filters/median_blur_sorting_network_3x3.h\<close>,
  \<^verbatim>\<open>_5x5.h\<close> and \<^verbatim>\<open>_7x7.h\<close>, and the two comparators of
  \<^verbatim>\<open>median_blur_sorting_network_neon.cpp\<close>. The networks are correct for every
  comparator because they are correct for single bits, and for these it is enough to look at the
  windows with exactly as many ones as the median needs and with one less.
\<close>

section \<open>Comparators and windows\<close>

record 'v comparator =
  compare_and_swap :: "'v \<Rightarrow> 'v \<Rightarrow> 'v \<times> 'v"
  keep_min :: "'v \<Rightarrow> 'v \<Rightarrow> 'v"
  keep_max :: "'v \<Rightarrow> 'v \<Rightarrow> 'v"
  get_min :: "'v \<Rightarrow> 'v \<Rightarrow> 'v"
  get_max :: "'v \<Rightarrow> 'v \<Rightarrow> 'v"

definition VectorizedComparator :: "bool \<Rightarrow> 'a::len word list comparator" where
  "VectorizedComparator is_signed =
     \<lparr> compare_and_swap = (\<lambda>left right.
         let max_value = vmaxq is_signed left right; min_value = vminq is_signed left right
         in (min_value, max_value)),
       keep_min = vminq is_signed, keep_max = vmaxq is_signed,
       get_min = vminq is_signed, get_max = vmaxq is_signed \<rparr>"

definition ScalarComparator :: "bool \<Rightarrow> 'a::len word comparator" where
  "ScalarComparator is_signed =
     \<lparr> compare_and_swap = (\<lambda>left right.
         if lane_value is_signed left > lane_value is_signed right then (right, left) else (left, right)),
       keep_min = lane_min is_signed, keep_max = lane_max is_signed,
       get_min = lane_min is_signed, get_max = lane_max is_signed \<rparr>"

text \<open>
  \<open>KernelWindow (row, col)\<close>. A step replaces both cells by the smaller and the larger value, the left
  one by the smaller, or the right one by the larger.
\<close>

type_synonym cell = "nat \<times> nat"
type_synonym 'v window = "cell \<Rightarrow> 'v"

datatype network_step = Compare_and_swap cell cell | Keep_min cell cell | Keep_max cell cell

fun run_step :: "'v comparator \<Rightarrow> network_step \<Rightarrow> 'v window \<Rightarrow> 'v window" where
  "run_step cmp (Compare_and_swap p q) W =
     (case compare_and_swap cmp (W p) (W q) of (left, right) \<Rightarrow> W(p := left, q := right))"
| "run_step cmp (Keep_min p q) W = W(p := keep_min cmp (W p) (W q))"
| "run_step cmp (Keep_max p q) W = W(q := keep_max cmp (W p) (W q))"

definition run :: "'v comparator \<Rightarrow> network_step list \<Rightarrow> 'v window \<Rightarrow> 'v window" where
  "run cmp steps W = fold (run_step cmp) steps W"

section \<open>The networks\<close>

definition row_3x3 :: "nat \<Rightarrow> network_step list" where
  "row_3x3 r =
     [Compare_and_swap (r, 0) (r, 2), Compare_and_swap (r, 0) (r, 1), Compare_and_swap (r, 1) (r, 2)]"

definition sorting_network3x3_single_row :: "'v comparator \<Rightarrow> 'v window \<Rightarrow> 'v" where
  "sorting_network3x3_single_row cmp W =
     (let W = run cmp (concat (map row_3x3 [0..<3])) W;
          max_0_1_2 = get_max cmp (W (0, 0)) (W (1, 0));
          max_0_1_2 = get_max cmp max_0_1_2 (W (2, 0));
          src_tmp_0 = W (0, 1); mid_0_1_2 = W (1, 1); src_tmp_2 = W (2, 1);
          (src_tmp_0, src_tmp_2) = compare_and_swap cmp src_tmp_0 src_tmp_2;
          mid_0_1_2 = keep_max cmp src_tmp_0 mid_0_1_2;
          mid_0_1_2 = keep_min cmp mid_0_1_2 src_tmp_2;
          min_0_1_2 = get_min cmp (W (0, 2)) (W (1, 2));
          min_0_1_2 = get_min cmp min_0_1_2 (W (2, 2));
          (min_0_1_2, max_0_1_2) = compare_and_swap cmp min_0_1_2 max_0_1_2;
          mid_0_1_2 = keep_max cmp min_0_1_2 mid_0_1_2
      in keep_min cmp mid_0_1_2 max_0_1_2)"

definition common_3x3 :: "network_step list" where
  "common_3x3 =
     [Compare_and_swap (1, 0) (2, 0), Compare_and_swap (1, 2) (2, 2), Compare_and_swap (1, 1) (2, 1)]"

definition sorting_network3x3_dual_rows :: "'v comparator \<Rightarrow> 'v window \<Rightarrow> 'v \<times> 'v" where
  "sorting_network3x3_dual_rows cmp W =
     (let W = run cmp (concat (map row_3x3 [0..<4]) @ common_3x3) W;
          max_0_1_2 = get_max cmp (W (0, 0)) (W (2, 0));
          src_tmp_0 = get_min cmp (W (0, 1)) (W (2, 1));
          mid_0_1_2 = get_max cmp (W (1, 1)) src_tmp_0;
          min_0_1_2 = get_min cmp (W (0, 2)) (W (1, 2));
          (min_0_1_2, max_0_1_2) = compare_and_swap cmp min_0_1_2 max_0_1_2;
          mid_0_1_2 = keep_max cmp min_0_1_2 mid_0_1_2;
          output_vec_0 = keep_min cmp mid_0_1_2 max_0_1_2;
          max_0_1_2 = get_max cmp (W (2, 0)) (W (3, 0));
          src_tmp_0 = get_max cmp (W (1, 1)) (W (3, 1));
          mid_0_1_2 = get_min cmp (W (2, 1)) src_tmp_0;
          min_0_1_2 = get_min cmp (W (1, 2)) (W (3, 2));
          (min_0_1_2, max_0_1_2) = compare_and_swap cmp min_0_1_2 max_0_1_2;
          mid_0_1_2 = keep_max cmp min_0_1_2 mid_0_1_2
      in (output_vec_0, keep_min cmp mid_0_1_2 max_0_1_2))"

text \<open>The columns of the larger windows all run the same steps.\<close>

definition column_5x5 :: "nat \<Rightarrow> network_step list" where
  "column_5x5 c =
     [Compare_and_swap (3, c) (0, c), Compare_and_swap (4, c) (1, c), Compare_and_swap (2, c) (0, c),
      Compare_and_swap (3, c) (1, c), Compare_and_swap (1, c) (0, c), Compare_and_swap (4, c) (2, c),
      Compare_and_swap (2, c) (1, c), Compare_and_swap (4, c) (3, c), Compare_and_swap (3, c) (2, c)]"

definition row_0_5x5 :: "network_step list" where
  "row_0_5x5 =
     [Compare_and_swap (0, 3) (0, 0), Compare_and_swap (0, 4) (0, 1), Compare_and_swap (0, 2) (0, 0),
      Compare_and_swap (0, 3) (0, 1), Keep_min (0, 1) (0, 0), Compare_and_swap (0, 4) (0, 2),
      Keep_min (0, 2) (0, 1), Compare_and_swap (0, 4) (0, 3), Keep_min (0, 3) (0, 2)]"

definition row_1_5x5 :: "network_step list" where
  "row_1_5x5 =
     [Compare_and_swap (1, 3) (1, 0), Compare_and_swap (1, 4) (1, 1), Compare_and_swap (1, 2) (1, 0),
      Compare_and_swap (1, 3) (1, 1), Keep_min (1, 1) (1, 0), Compare_and_swap (1, 4) (1, 2),
      Keep_min (1, 2) (1, 1), Compare_and_swap (1, 4) (1, 3), Compare_and_swap (1, 3) (1, 2)]"

definition row_2_5x5 :: "network_step list" where
  "row_2_5x5 =
     [Compare_and_swap (2, 3) (2, 0), Compare_and_swap (2, 4) (2, 1), Compare_and_swap (2, 2) (2, 0),
      Compare_and_swap (2, 3) (2, 1), Keep_min (2, 1) (2, 0), Compare_and_swap (2, 4) (2, 2),
      Compare_and_swap (2, 2) (2, 1), Keep_max (2, 4) (2, 3), Compare_and_swap (2, 3) (2, 2)]"

definition row_3_5x5 :: "network_step list" where
  "row_3_5x5 =
     [Compare_and_swap (3, 3) (3, 0), Compare_and_swap (3, 4) (3, 1), Compare_and_swap (3, 2) (3, 0),
      Compare_and_swap (3, 3) (3, 1), Compare_and_swap (3, 1) (3, 0), Compare_and_swap (3, 4) (3, 2),
      Compare_and_swap (3, 2) (3, 1), Keep_max (3, 4) (3, 3), Keep_max (3, 3) (3, 2)]"

definition row_4_5x5 :: "network_step list" where
  "row_4_5x5 =
     [Compare_and_swap (4, 3) (4, 0), Compare_and_swap (4, 4) (4, 1), Compare_and_swap (4, 2) (4, 0),
      Keep_max (4, 3) (4, 1), Compare_and_swap (4, 1) (4, 0), Keep_max (4, 4) (4, 2),
      Keep_max (4, 2) (4, 1)]"

definition diagonals_5x5 :: "network_step list" where
  "diagonals_5x5 =
     [Keep_min (2, 1) (0, 3), Keep_min (3, 0) (1, 2), Keep_min (3, 0) (2, 1),
      Compare_and_swap (3, 1) (0, 4), Compare_and_swap (4, 0) (1, 3), Compare_and_swap (2, 2) (0, 4),
      Compare_and_swap (3, 1) (1, 3), Keep_min (1, 3) (0, 4), Compare_and_swap (4, 0) (2, 2),
      Keep_min (2, 2) (1, 3), Keep_max (4, 0) (3, 1), Keep_max (3, 1) (2, 2),
      Keep_max (3, 2) (1, 4), Keep_max (4, 1) (2, 3), Keep_max (2, 3) (1, 4),
      Compare_and_swap (3, 0) (1, 4), Keep_min (2, 2) (1, 4), Keep_max (3, 0) (2, 2)]"

definition network_5x5 :: "network_step list" where
  "network_5x5 = concat (map column_5x5 [0..<5]) @ row_0_5x5 @ row_1_5x5 @ row_2_5x5 @ row_3_5x5 @ row_4_5x5
     @ diagonals_5x5"

definition sorting_network5x5 :: "'v comparator \<Rightarrow> 'v window \<Rightarrow> 'v" where
  "sorting_network5x5 cmp W = run cmp network_5x5 W (2, 2)"

definition column_7x7 :: "nat \<Rightarrow> network_step list" where
  "column_7x7 c =
     [Compare_and_swap (0, c) (6, c), Compare_and_swap (2, c) (3, c), Compare_and_swap (4, c) (5, c),
      Compare_and_swap (0, c) (2, c), Compare_and_swap (1, c) (4, c), Compare_and_swap (3, c) (6, c),
      Compare_and_swap (0, c) (1, c), Compare_and_swap (2, c) (5, c), Compare_and_swap (3, c) (4, c),
      Compare_and_swap (1, c) (2, c), Compare_and_swap (4, c) (6, c), Compare_and_swap (2, c) (3, c),
      Compare_and_swap (4, c) (5, c), Compare_and_swap (1, c) (2, c), Compare_and_swap (3, c) (4, c),
      Compare_and_swap (5, c) (6, c)]"

definition row_0_7x7 :: "network_step list" where
  "row_0_7x7 =
     [Compare_and_swap (0, 0) (0, 6), Compare_and_swap (0, 2) (0, 3), Compare_and_swap (0, 4) (0, 5),
      Compare_and_swap (0, 0) (0, 2), Compare_and_swap (0, 1) (0, 4), Compare_and_swap (0, 3) (0, 6),
      Keep_max (0, 0) (0, 1), Compare_and_swap (0, 2) (0, 5), Compare_and_swap (0, 3) (0, 4),
      Keep_max (0, 1) (0, 2), Compare_and_swap (0, 4) (0, 6), Keep_max (0, 2) (0, 3),
      Compare_and_swap (0, 4) (0, 5), Compare_and_swap (0, 3) (0, 4), Compare_and_swap (0, 5) (0, 6)]"

definition row_1_7x7 :: "network_step list" where
  "row_1_7x7 =
     [Compare_and_swap (1, 0) (1, 6), Compare_and_swap (1, 2) (1, 3), Compare_and_swap (1, 4) (1, 5),
      Compare_and_swap (1, 1) (1, 4), Compare_and_swap (1, 0) (1, 2), Compare_and_swap (1, 3) (1, 6),
      Keep_max (1, 0) (1, 1), Compare_and_swap (1, 3) (1, 4), Compare_and_swap (1, 2) (1, 5),
      Keep_max (1, 1) (1, 2), Compare_and_swap (1, 4) (1, 6), Keep_max (1, 2) (1, 3),
      Compare_and_swap (1, 4) (1, 5), Compare_and_swap (1, 3) (1, 4), Compare_and_swap (1, 5) (1, 6)]"

definition row_2_7x7 :: "network_step list" where
  "row_2_7x7 =
     [Compare_and_swap (2, 0) (2, 6), Compare_and_swap (2, 2) (2, 3), Compare_and_swap (2, 4) (2, 5),
      Compare_and_swap (2, 1) (2, 4), Compare_and_swap (2, 0) (2, 2), Compare_and_swap (2, 3) (2, 6),
      Keep_max (2, 0) (2, 1), Compare_and_swap (2, 3) (2, 4), Compare_and_swap (2, 2) (2, 5),
      Compare_and_swap (2, 1) (2, 2), Compare_and_swap (2, 4) (2, 6), Compare_and_swap (2, 2) (2, 3),
      Compare_and_swap (2, 4) (2, 5), Keep_max (2, 1) (2, 2), Compare_and_swap (2, 3) (2, 4),
      Compare_and_swap (2, 5) (2, 6)]"

definition row_3_7x7 :: "network_step list" where
  "row_3_7x7 =
     [Compare_and_swap (3, 0) (3, 6), Compare_and_swap (3, 2) (3, 3), Compare_and_swap (3, 4) (3, 5),
      Compare_and_swap (3, 1) (3, 4), Compare_and_swap (3, 0) (3, 2), Compare_and_swap (3, 3) (3, 6),
      Keep_max (3, 0) (3, 1), Compare_and_swap (3, 3) (3, 4), Compare_and_swap (3, 2) (3, 5),
      Compare_and_swap (3, 1) (3, 2), Compare_and_swap (3, 4) (3, 6), Compare_and_swap (3, 2) (3, 3),
      Compare_and_swap (3, 4) (3, 5), Compare_and_swap (3, 1) (3, 2), Compare_and_swap (3, 3) (3, 4),
      Keep_min (3, 5) (3, 6)]"

definition row_4_7x7 :: "network_step list" where
  "row_4_7x7 =
     [Compare_and_swap (4, 0) (4, 6), Compare_and_swap (4, 2) (4, 3), Compare_and_swap (4, 4) (4, 5),
      Compare_and_swap (4, 1) (4, 4), Compare_and_swap (4, 0) (4, 2), Compare_and_swap (4, 3) (4, 6),
      Compare_and_swap (4, 0) (4, 1), Compare_and_swap (4, 3) (4, 4), Compare_and_swap (4, 2) (4, 5),
      Compare_and_swap (4, 1) (4, 2), Keep_min (4, 4) (4, 6), Compare_and_swap (4, 2) (4, 3),
      Keep_min (4, 4) (4, 5), Compare_and_swap (4, 1) (4, 2), Compare_and_swap (4, 3) (4, 4)]"

definition row_5_7x7 :: "network_step list" where
  "row_5_7x7 =
     [Compare_and_swap (5, 0) (5, 6), Compare_and_swap (5, 2) (5, 3), Compare_and_swap (5, 4) (5, 5),
      Compare_and_swap (5, 1) (5, 4), Compare_and_swap (5, 0) (5, 2), Compare_and_swap (5, 3) (5, 6),
      Compare_and_swap (5, 0) (5, 1), Compare_and_swap (5, 3) (5, 4), Compare_and_swap (5, 2) (5, 5),
      Compare_and_swap (5, 1) (5, 2), Keep_min (5, 4) (5, 6), Compare_and_swap (5, 2) (5, 3),
      Keep_min (5, 4) (5, 5), Compare_and_swap (5, 1) (5, 2), Keep_min (5, 3) (5, 4)]"

definition row_6_7x7 :: "network_step list" where
  "row_6_7x7 =
     [Compare_and_swap (6, 0) (6, 6), Compare_and_swap (6, 2) (6, 3), Compare_and_swap (6, 4) (6, 5),
      Compare_and_swap (6, 1) (6, 4), Compare_and_swap (6, 0) (6, 2), Keep_min (6, 3) (6, 6),
      Compare_and_swap (6, 0) (6, 1), Keep_min (6, 3) (6, 4), Keep_min (6, 2) (6, 5),
      Compare_and_swap (6, 1) (6, 2), Keep_min (6, 2) (6, 3), Compare_and_swap (6, 1) (6, 2)]"

definition diagonals_7x7 :: "network_step list" where
  "diagonals_7x7 =
     [Keep_max (1, 3) (2, 2), Keep_max (3, 1) (4, 0), Keep_max (2, 2) (4, 0),
      Keep_max (4, 0) (0, 4), Compare_and_swap (4, 1) (2, 3), Compare_and_swap (5, 0) (0, 5),
      Compare_and_swap (3, 2) (1, 4), Keep_max (4, 1) (3, 2), Compare_and_swap (2, 3) (1, 4),
      Keep_max (5, 0) (2, 3), Compare_and_swap (3, 2) (0, 5), Keep_max (3, 2) (2, 3),
      Compare_and_swap (1, 4) (0, 5), Compare_and_swap (2, 3) (1, 4), Compare_and_swap (6, 0) (0, 6),
      Compare_and_swap (4, 2) (3, 3), Compare_and_swap (2, 4) (1, 5), Compare_and_swap (5, 1) (2, 4),
      Compare_and_swap (6, 0) (4, 2), Compare_and_swap (3, 3) (0, 6), Keep_max (6, 0) (5, 1),
      Compare_and_swap (3, 3) (2, 4), Compare_and_swap (4, 2) (1, 5), Compare_and_swap (5, 1) (4, 2),
      Keep_min (2, 4) (0, 6), Compare_and_swap (4, 2) (3, 3), Keep_min (2, 4) (1, 5),
      Keep_max (5, 1) (4, 2), Compare_and_swap (3, 3) (2, 4), Compare_and_swap (5, 2) (3, 4),
      Compare_and_swap (6, 1) (1, 6), Compare_and_swap (4, 3) (2, 5), Compare_and_swap (5, 2) (4, 3),
      Keep_min (3, 4) (2, 5), Compare_and_swap (6, 1) (3, 4), Keep_min (4, 3) (1, 6),
      Compare_and_swap (6, 1) (5, 2), Keep_min (4, 3) (3, 4), Compare_and_swap (5, 2) (4, 3),
      Keep_min (5, 3) (4, 4), Keep_min (3, 5) (2, 6), Keep_min (5, 3) (3, 5),
      Keep_min (6, 2) (5, 3)]"

definition middle_7x7 :: "network_step list" where
  "middle_7x7 =
     [Compare_and_swap (6, 1) (0, 4), Compare_and_swap (6, 2) (2, 3), Compare_and_swap (5, 2) (4, 3),
      Compare_and_swap (4, 2) (2, 4), Compare_and_swap (3, 3) (1, 4), Compare_and_swap (6, 1) (6, 2),
      Compare_and_swap (4, 2) (3, 3), Compare_and_swap (4, 3) (0, 5), Compare_and_swap (2, 3) (0, 4),
      Compare_and_swap (2, 4) (1, 4), Compare_and_swap (6, 2) (4, 2), Compare_and_swap (5, 2) (3, 3),
      Compare_and_swap (4, 3) (2, 4), Keep_min (1, 4) (0, 5), Keep_max (6, 1) (4, 3),
      Compare_and_swap (6, 2) (5, 2), Keep_max (4, 2) (2, 4), Keep_min (3, 3) (0, 4),
      Compare_and_swap (2, 3) (1, 4), Compare_and_swap (5, 2) (2, 3), Compare_and_swap (4, 3) (3, 3),
      Keep_min (2, 4) (1, 4), Compare_and_swap (5, 2) (4, 3), Keep_max (4, 2) (2, 3),
      Keep_min (3, 3) (2, 4), Keep_max (4, 2) (4, 3), Keep_min (3, 3) (2, 3),
      Keep_max (4, 3) (3, 3)]"

definition network_7x7 :: "network_step list" where
  "network_7x7 = concat (map column_7x7 [0..<7]) @ row_0_7x7 @ row_1_7x7 @ row_2_7x7 @ row_3_7x7 @ row_4_7x7
     @ row_5_7x7 @ row_6_7x7 @ diagonals_7x7 @ middle_7x7"

definition sorting_network7x7 :: "'v comparator \<Rightarrow> 'v window \<Rightarrow> 'v" where
  "sorting_network7x7 cmp W = run cmp network_7x7 W (3, 3)"

section \<open>Networks on other values\<close>

definition comparator_of :: "('v \<Rightarrow> 'v \<Rightarrow> 'v) \<Rightarrow> ('v \<Rightarrow> 'v \<Rightarrow> 'v) \<Rightarrow> 'v comparator" where
  "comparator_of lo hi =
     \<lparr> compare_and_swap = (\<lambda>l r. (lo l r, hi l r)), keep_min = lo, keep_max = hi, get_min = lo, get_max = hi \<rparr>"

lemma comparator_of_sel [simp]:
  "compare_and_swap (comparator_of lo hi) l r = (lo l r, hi l r)" "keep_min (comparator_of lo hi) = lo"
  "keep_max (comparator_of lo hi) = hi" "get_min (comparator_of lo hi) = lo" "get_max (comparator_of lo hi) = hi"
  by (simp_all add: comparator_of_def)

lemma vectorized_comparator: "VectorizedComparator s = comparator_of (vminq s) (vmaxq s)"
  by (simp add: VectorizedComparator_def comparator_of_def)

lemma scalar_comparator: "ScalarComparator s = comparator_of (lane_min s) (lane_max s)"
proof -
  have "(if lane_value s a > lane_value s b then (b, a) else (a, b)) = (lane_min s a b, lane_max s a b)"
    for a b :: "'a word"
    using lane_value_inject [of s a b] by (auto simp: lane_min_def lane_max_def)
  then show ?thesis by (simp add: ScalarComparator_def comparator_of_def)
qed

lemma run_Nil [simp]: "run cmp [] W = W"
  and run_Cons [simp]: "run cmp (s # ss) W = run cmp ss (run_step cmp s W)"
  and run_append: "run cmp (ss @ ss') W = run cmp ss' (run cmp ss W)"
  by (simp_all add: run_def)

text \<open>
  A map that respects the smaller and the larger of two values commutes with every network: the
  interface between the comparators the code uses and the one on single bits.
\<close>

locale comparator_map =
  fixes lo hi :: "'v \<Rightarrow> 'v \<Rightarrow> 'v" and lo' hi' :: "'u \<Rightarrow> 'u \<Rightarrow> 'u" and ok :: "'v \<Rightarrow> bool" and h :: "'v \<Rightarrow> 'u"
  assumes ok: "ok x \<Longrightarrow> ok y \<Longrightarrow> ok (lo x y)" "ok x \<Longrightarrow> ok y \<Longrightarrow> ok (hi x y)"
    and commutes: "ok x \<Longrightarrow> ok y \<Longrightarrow> h (lo x y) = lo' (h x) (h y)" "ok x \<Longrightarrow> ok y \<Longrightarrow> h (hi x y) = hi' (h x) (h y)"
begin

lemma run_step_map:
  assumes "\<And>p. ok (W p)"
  shows "ok (run_step (comparator_of lo hi) s W p)"
    and "h (run_step (comparator_of lo hi) s W p) = run_step (comparator_of lo' hi') s (\<lambda>p. h (W p)) p"
  using assms by (cases s; simp add: ok commutes)+

lemma run_map:
  assumes "\<And>p. ok (W p)"
  shows "ok (run (comparator_of lo hi) steps W p)"
    and "h (run (comparator_of lo hi) steps W p) = run (comparator_of lo' hi') steps (\<lambda>p. h (W p)) p"
proof -
  have "(\<forall>p. ok (run (comparator_of lo hi) steps W p))
      \<and> (\<lambda>p. h (run (comparator_of lo hi) steps W p)) = run (comparator_of lo' hi') steps (\<lambda>p. h (W p))"
    using assms
  proof (induction steps arbitrary: W)
    case (Cons s steps)
    have "(\<lambda>p. h (run_step (comparator_of lo hi) s W p)) = run_step (comparator_of lo' hi') s (\<lambda>p. h (W p))"
      by (intro ext run_step_map(2) Cons.prems)
    with Cons.IH [of "run_step (comparator_of lo hi) s W"] run_step_map(1) [OF Cons.prems] show ?case by simp
  qed simp
  then show "ok (run (comparator_of lo hi) steps W p)"
    and "h (run (comparator_of lo hi) steps W p) = run (comparator_of lo' hi') steps (\<lambda>p. h (W p)) p"
    by (blast, blast dest: fun_cong)
qed

lemma single_row_map:
  assumes "\<And>p. ok (W p)"
  shows "h (sorting_network3x3_single_row (comparator_of lo hi) W)
    = sorting_network3x3_single_row (comparator_of lo' hi') (\<lambda>p. h (W p))"
  using run_map [OF assms] by (simp add: sorting_network3x3_single_row_def Let_def ok commutes)

lemma dual_rows_map:
  assumes "\<And>p. ok (W p)"
  shows "map_prod h h (sorting_network3x3_dual_rows (comparator_of lo hi) W)
    = sorting_network3x3_dual_rows (comparator_of lo' hi') (\<lambda>p. h (W p))"
  using run_map [OF assms] by (simp add: sorting_network3x3_dual_rows_def Let_def ok commutes)

lemma network_5x5_map:
  assumes "\<And>p. ok (W p)"
  shows "h (sorting_network5x5 (comparator_of lo hi) W) = sorting_network5x5 (comparator_of lo' hi') (\<lambda>p. h (W p))"
  using run_map [OF assms] by (simp add: sorting_network5x5_def)

lemma network_7x7_map:
  assumes "\<And>p. ok (W p)"
  shows "h (sorting_network7x7 (comparator_of lo hi) W) = sorting_network7x7 (comparator_of lo' hi') (\<lambda>p. h (W p))"
  using run_map [OF assms] by (simp add: sorting_network7x7_def)

lemma network_results_ok:
  assumes "\<And>p. ok (W p)"
  shows "ok (sorting_network3x3_single_row (comparator_of lo hi) W)"
    and "ok (sorting_network5x5 (comparator_of lo hi) W)" and "ok (sorting_network7x7 (comparator_of lo hi) W)"
  using run_map(1) [OF assms]
  by (simp_all add: sorting_network3x3_single_row_def sorting_network5x5_def sorting_network7x7_def Let_def ok)

lemma dual_results_ok:
  assumes "\<And>p. ok (W p)"
  shows "ok (fst (sorting_network3x3_dual_rows (comparator_of lo hi) W))"
    and "ok (snd (sorting_network3x3_dual_rows (comparator_of lo hi) W))"
  using run_map(1) [OF assms] by (simp_all add: sorting_network3x3_dual_rows_def Let_def ok)

end

text \<open>One bit for each value: whether it reaches a threshold. And one value of each vector.\<close>

interpretation threshold: comparator_map "lane_min s" "lane_max s" "(\<and>)" "(\<or>)" "\<lambda>_. True" "\<lambda>a. t \<le> lane_value s a"
  for s t
  by unfold_locales auto

interpretation lane: comparator_map "vminq s" "vmaxq s" "lane_min s" "lane_max s" "\<lambda>v. length v = n \<and> l < n" "\<lambda>v. v ! l"
  for s n l
  by unfold_locales (simp_all add: vminq_def vmaxq_def)

section \<open>Single bits\<close>

abbreviation bits :: "bool comparator" where "bits \<equiv> comparator_of (\<and>) (\<or>)"

text \<open>The number of ones among \<open>f 0\<close> to \<open>f (n - 1)\<close>, and in the rows from \<open>y\<close> on of a window.\<close>

definition ones :: "nat \<Rightarrow> (nat \<Rightarrow> bool) \<Rightarrow> nat" where
  "ones n f = (\<Sum>i<n. of_bool (f i))"

definition window_ones :: "nat \<Rightarrow> nat \<Rightarrow> bool window \<Rightarrow> nat" where
  "window_ones n y W = (\<Sum>r<n. ones n (\<lambda>c. W (y + r, c)))"

lemma ones_filter: "length (filter f [0..<n]) = ones n f"
  by (induction n) (simp_all add: ones_def)

lemma ones_le: "ones n f \<le> n"
  using sum_mono [of "{..<n}" "\<lambda>i. of_bool (f i)" "\<lambda>_. 1 :: nat"] by (simp add: ones_def)

fun step_cells :: "network_step \<Rightarrow> cell set" where
  "step_cells (Compare_and_swap p q) = {p, q}"
| "step_cells (Keep_min p q) = {p, q}"
| "step_cells (Keep_max p q) = {p, q}"

lemma run_step_untouched: "p \<notin> step_cells s \<Longrightarrow> run_step cmp s W p = W p"
  by (cases s) (auto split: prod.splits)

lemma run_step_cong:
  assumes "step_cells s \<subseteq> C" and "\<And>p. p \<in> C \<Longrightarrow> W p = W' p" and "q \<in> C"
  shows "run_step cmp s W q = run_step cmp s W' q"
  using assms(1) assms(2) assms(2) [OF assms(3)] by (cases s) (simp_all add: split_def)

lemma run_untouched: "(\<And>s. s \<in> set steps \<Longrightarrow> p \<notin> step_cells s) \<Longrightarrow> run cmp steps W p = W p"
  by (induction steps arbitrary: W) (simp_all add: run_step_untouched)

lemma run_cong:
  assumes "\<And>s. s \<in> set steps \<Longrightarrow> step_cells s \<subseteq> C" and "\<And>p. p \<in> C \<Longrightarrow> W p = W' p" and "q \<in> C"
  shows "run cmp steps W q = run cmp steps W' q"
  using assms
proof (induction steps arbitrary: W W')
  case (Cons s steps)
  have s: "step_cells s \<subseteq> C" using Cons.prems(1) [of s] by simp
  have "run cmp steps (run_step cmp s W) q = run cmp steps (run_step cmp s W') q"
  proof (rule Cons.IH)
    show "step_cells s' \<subseteq> C" if "s' \<in> set steps" for s' using Cons.prems(1) [of s'] that by simp
    show "run_step cmp s W p = run_step cmp s W' p" if "p \<in> C" for p
      by (rule run_step_cong [OF s Cons.prems(2) that])
  qed (rule Cons.prems(3))
  then show ?case by simp
qed simp

text \<open>Steps that stay within one row, or one column.\<close>

lemma run_blocks:
  assumes "\<And>k s p. k < length blocks \<Longrightarrow> s \<in> set (blocks ! k) \<Longrightarrow> p \<in> step_cells s \<Longrightarrow> key p = k"
  shows "run cmp (concat blocks) W p = (if key p < length blocks then run cmp (blocks ! key p) W p else W p)"
  using assms
proof (induction blocks arbitrary: p rule: rev_induct)
  case (snoc b blocks)
  have block: "key p = length blocks" if "s \<in> set b" "p \<in> step_cells s" for s p
    using snoc.prems [of "length blocks" s p] that by simp
  have IH: "run cmp (concat blocks) W p = (if key p < length blocks then run cmp (blocks ! key p) W p else W p)" for p
    using snoc.prems by (intro snoc.IH) (metis length_append_singleton less_SucI nth_append)
  show ?case
  proof (cases "key p = length blocks")
    case True
    have "run cmp b (run cmp (concat blocks) W) p = run cmp b W p"
      by (rule run_cong [where C = "{p. key p = length blocks}"]) (use True block in \<open>auto simp: IH simp del: split_paired_All\<close>)
    with True show ?thesis by (simp add: run_append)
  next
    case False
    then have "run cmp b (run cmp (concat blocks) W) p = run cmp (concat blocks) W p"
      using block by (intro run_untouched) blast
    with False show ?thesis by (simp add: run_append IH nth_append)
  qed
qed simp

text \<open>
  To test a network on many windows of bits at once, run it on the vectors of the bits that each cell
  has in these windows: \<open>f p a\<close> is the bit of cell \<open>p\<close> in the case \<open>a\<close>.
\<close>

fun vand :: "bool list \<Rightarrow> bool list \<Rightarrow> bool list" where
  "vand (a # as) (b # bs) = (a \<and> b) # vand as bs"
| "vand _ _ = []"

fun vor :: "bool list \<Rightarrow> bool list \<Rightarrow> bool list" where
  "vor (a # as) (b # bs) = (a \<or> b) # vor as bs"
| "vor _ _ = []"

lemma vand_vor_nth:
  "length (vand v w) = min (length v) (length w)" "length (vor v w) = min (length v) (length w)"
  "l < length v \<Longrightarrow> l < length w \<Longrightarrow> vand v w ! l = (v ! l \<and> w ! l)"
  "l < length v \<Longrightarrow> l < length w \<Longrightarrow> vor v w ! l = (v ! l \<or> w ! l)"
proof -
  show "length (vand v w) = min (length v) (length w)" by (induction v w rule: vand.induct) simp_all
  show "length (vor v w) = min (length v) (length w)" by (induction v w rule: vor.induct) simp_all
  show "l < length v \<Longrightarrow> l < length w \<Longrightarrow> vand v w ! l = (v ! l \<and> w ! l)"
    by (induction v w arbitrary: l rule: vand.induct) (auto simp: nth_Cons split: nat.splits)
  show "l < length v \<Longrightarrow> l < length w \<Longrightarrow> vor v w ! l = (v ! l \<or> w ! l)"
    by (induction v w arbitrary: l rule: vor.induct) (auto simp: nth_Cons split: nat.splits)
qed

abbreviation tests :: "bool list comparator" where "tests \<equiv> comparator_of vand vor"

interpretation test: comparator_map vand vor "(\<and>)" "(\<or>)" "\<lambda>v. length v = n \<and> l < n" "\<lambda>v. v ! l" for n l
  by unfold_locales (simp_all add: vand_vor_nth)

definition cases_window :: "(cell \<Rightarrow> 'c \<Rightarrow> bool) \<Rightarrow> 'c list \<Rightarrow> bool list window" where
  "cases_window f cs p = map (f p) cs"

definition tested :: "network_step list \<Rightarrow> (cell \<Rightarrow> 'c \<Rightarrow> bool) \<Rightarrow> 'c list \<Rightarrow> bool list window" where
  "tested steps f cs = run tests steps (cases_window f cs)"

lemma network_tests:
  assumes "tested steps f cs q = map g cs" and "a \<in> set cs"
    and "list_all (\<lambda>s. step_cells s \<subseteq> C) steps" and "q \<in> C" and "\<And>p. p \<in> C \<Longrightarrow> W p = f p a"
  shows "run bits steps W q = g a"
proof -
  obtain l where l: "l < length cs" "cs ! l = a" using assms(2) by (auto simp: in_set_conv_nth)
  have "run bits steps W q = run bits steps (\<lambda>p. map (f p) cs ! l) q"
    using assms(3-5) l by (intro run_cong [where C = C]) (simp_all add: list_all_iff)
  also have "\<dots> = run tests steps (\<lambda>p. map (f p) cs) q ! l"
    using l(1) by (intro test.run_map(2) [symmetric, where n = "length cs"]) simp
  also have "run tests steps (\<lambda>p. map (f p) cs) q = map g cs" using assms(1) by (simp add: tested_def cases_window_def [abs_def])
  finally show ?thesis using l by simp
qed

fun assignments :: "nat \<Rightarrow> bool list list" where
  "assignments 0 = [[]]"
| "assignments (Suc n) = map ((#) False) (assignments n) @ map ((#) True) (assignments n)"

lemma assignments: "length a = n \<Longrightarrow> a \<in> set (assignments n)"
proof (induction n arbitrary: a)
  case (Suc n)
  from Suc.prems obtain b a' where "a = b # a'" "length a' = n" by (cases a) simp_all
  with Suc.IH [of a'] show ?case by (cases b) auto
qed simp

text \<open>Lists that do not increase, with a bound and a sum.\<close>

fun stairs :: "nat \<Rightarrow> nat \<Rightarrow> nat \<Rightarrow> nat list list" where
  "stairs 0 b t = (if t = 0 then [[]] else [])"
| "stairs (Suc n) b t = concat (map (\<lambda>x. map ((#) x) (stairs n x (t - x))) [0..<Suc (min b t)])"

lemma stairs:
  assumes "length a = n" and "\<And>x. x \<in> set a \<Longrightarrow> x \<le> b" and "sorted_wrt (\<ge>) a" and "sum_list a = t"
  shows "a \<in> set (stairs n b t)"
  using assms
proof (induction n arbitrary: a b t)
  case (Suc n)
  from Suc.prems(1) obtain x a' where a: "a = x # a'" by (cases a) simp_all
  then have "a' \<in> set (stairs n x (t - x))" using Suc.prems by (intro Suc.IH) auto
  moreover have "x < Suc (min b t)" using Suc.prems(2) [of x] Suc.prems(4) by (simp add: a)
  ultimately show ?case by (auto simp: a simp del: upt_Suc)
qed simp

text \<open>The steps of one line of cells depend on its number of ones only.\<close>

lemma line_tests:
  assumes "tested steps (\<lambda>p a. a ! coord p) (assignments n) q
      = map (\<lambda>a. g (length (filter id a))) (assignments n)"
    and "list_all (\<lambda>s. step_cells s \<subseteq> cell ` {..<n}) steps" and "q \<in> cell ` {..<n}" and "\<And>i. coord (cell i) = i"
  shows "run bits steps W q = g (ones n (\<lambda>i. W (cell i)))"
proof -
  let ?a = "map (\<lambda>i. W (cell i)) [0..<n]"
  have "run bits steps W q = g (length (filter id ?a))"
    using assms(4) by (intro network_tests [OF assms(1) _ assms(2,3)] assignments) auto
  then show ?thesis by (simp add: filter_map comp_def ones_filter)
qed

lemma count_below: "k \<le> n \<Longrightarrow> (\<Sum>r<n. of_bool (r < k)) = (k :: nat)"
  and count_from: "k \<le> n \<Longrightarrow> (\<Sum>r<n. of_bool (n - k \<le> r)) = (k :: nat)"
proof -
  assume "k \<le> n"
  then have "{..<n} \<inter> {r. r < k} = {..<k}" "{..<n} \<inter> {r. n - k \<le> r} = {n - k..<n}" by auto
  then show "(\<Sum>r<n. of_bool (r < k)) = k" "(\<Sum>r<n. of_bool (n - k \<le> r)) = k"
    using \<open>k \<le> n\<close> by (simp_all add: sum_of_bool_eq)
qed

lemma window_ones_columns: "window_ones n 0 W = (\<Sum>c<n. ones n (\<lambda>i. W (i, c)))"
  unfolding window_ones_def ones_def add_0 by (rule sum.swap)

lemma sorted_columns_ones:
  assumes "\<And>c. k c \<le> n"
  shows "(\<Sum>r<n. ones n (\<lambda>c. r < k c)) = (\<Sum>c<n. k c)"
    and "(\<Sum>r<n. ones n (\<lambda>c. n - k c \<le> r)) = (\<Sum>c<n. k c)"
  unfolding ones_def
  by (subst sum.swap, simp only: count_below count_from assms)+

lemma ones_cong: "(\<And>i. i < n \<Longrightarrow> f i = g i) \<Longrightarrow> ones n f = ones n g"
  unfolding ones_def by (intro sum.cong) simp_all

lemma ones_mono: "(\<And>i. f i \<Longrightarrow> g i) \<Longrightarrow> ones n f \<le> ones n g"
  unfolding ones_def by (intro sum_mono) auto

section \<open>The 5x5 network on bits\<close>

definition column_5x5_test :: "nat \<Rightarrow> bool" where
  "column_5x5_test c \<longleftrightarrow>
     map (tested (column_5x5 c) (\<lambda>p a. a ! fst p) (assignments 5)) (map (\<lambda>r. (r, c)) [0..<5])
     = map (\<lambda>r. map (\<lambda>a. r < length (filter id a)) (assignments 5)) [0..<5]"

lemma columns_5x5_tests: "list_all column_5x5_test [0..<5]"
  by code_simp

lemma columns_5x5_bits:
  assumes "r < 5" and "c < 5"
  shows "run bits (concat (map column_5x5 [0..<5])) W (r, c) = (r < ones 5 (\<lambda>i. W (i, c)))"
proof -
  have "run bits (concat (map column_5x5 [0..<5])) W (r, c) = run bits (column_5x5 c) W (r, c)"
    using assms by (subst run_blocks [where key = snd]) (auto simp: column_5x5_def)
  also have "\<dots> = (r < ones 5 (\<lambda>i. W (i, c)))"
  proof (rule line_tests [where cell = "\<lambda>i. (i, c)" and coord = fst])
    have "column_5x5_test c" using columns_5x5_tests assms(2) by (simp add: list_all_iff)
    then have "\<forall>r \<in> set [0..<5]. (tested (column_5x5 c) (\<lambda>p a. a ! fst p) (assignments 5) \<circ> (\<lambda>r. (r, c))) r
        = map (\<lambda>a. r < length (filter id a)) (assignments 5)"
      unfolding column_5x5_test_def map_map map_eq_conv .
    moreover have "r \<in> set [0..<5]" using assms(1) by simp
    ultimately show "tested (column_5x5 c) (\<lambda>p a. a ! fst p) (assignments 5) (r, c)
        = map (\<lambda>a. r < length (filter id a)) (assignments 5)"
      unfolding comp_apply by (rule bspec)
  qed (use assms in \<open>simp_all add: column_5x5_def\<close>)
  finally show ?thesis .
qed

definition rows_5x5 :: "network_step list list" where
  "rows_5x5 = [row_0_5x5, row_1_5x5, row_2_5x5, row_3_5x5, row_4_5x5]"

text \<open>The cells whose values the diagonals use.\<close>

definition kept_5x5 :: "cell list" where
  "kept_5x5 = [(0, 3), (0, 4), (1, 2), (1, 3), (1, 4), (2, 1), (2, 2), (2, 3), (3, 0), (3, 1), (3, 2), (4, 0), (4, 1)]"

lemmas rows_5x5_defs = row_0_5x5_def row_1_5x5_def row_2_5x5_def row_3_5x5_def row_4_5x5_def

definition row_5x5_test :: "cell \<Rightarrow> bool" where
  "row_5x5_test p \<longleftrightarrow> tested (rows_5x5 ! fst p) (\<lambda>p a. a ! snd p) (assignments 5) p
     = map (\<lambda>a. snd p < length (filter id a)) (assignments 5)"

lemma rows_5x5_tests: "list_all row_5x5_test kept_5x5"
  by code_simp

lemma rows_5x5_cells: "r < 5 \<Longrightarrow> s \<in> set (rows_5x5 ! r) \<Longrightarrow> step_cells s \<subseteq> Pair r ` {..<5}"
  by (auto simp: rows_5x5_def rows_5x5_defs less_Suc_eq numeral_eq_Suc)

lemma rows_5x5_bits:
  assumes "(r, c) \<in> set kept_5x5"
  shows "run bits (concat rows_5x5) W (r, c) = (c < ones 5 (\<lambda>i. W (r, i)))"
proof -
  have r: "r < 5" "c < 5" using assms by (auto simp: kept_5x5_def)
  have len: "length rows_5x5 = 5" by (simp add: rows_5x5_def)
  have key: "fst p = k" if "k < length rows_5x5" "s \<in> set (rows_5x5 ! k)" "p \<in> step_cells s" for k s p
    using rows_5x5_cells [of k s] that by (auto simp: len)
  have "run bits (concat rows_5x5) W (r, c) = run bits (rows_5x5 ! r) W (r, c)"
    using r key by (subst run_blocks [where key = fst]) (simp_all add: len)
  also have "\<dots> = (c < ones 5 (\<lambda>i. W (r, i)))"
  proof (rule line_tests [where cell = "Pair r" and coord = snd])
    have "row_5x5_test (r, c)" using rows_5x5_tests assms by (simp add: list_all_iff)
    then show "tested (rows_5x5 ! r) (\<lambda>p a. a ! snd p) (assignments 5) (r, c)
        = map (\<lambda>a. c < length (filter id a)) (assignments 5)"
      unfolding row_5x5_test_def fst_conv snd_conv .
    show "list_all (\<lambda>s. step_cells s \<subseteq> Pair r ` {..<5}) (rows_5x5 ! r)"
      using rows_5x5_cells [OF r(1)] by (simp add: list_all_iff)
  qed (use r in simp_all)
  finally show ?thesis .
qed

definition diagonals_5x5_test :: "nat \<Rightarrow> bool" where
  "diagonals_5x5_test t \<longleftrightarrow>
     tested diagonals_5x5 (\<lambda>p a. snd p < a ! fst p) (stairs 5 5 t) (2, 2)
     = map (\<lambda>_. t = 13) (stairs 5 5 t)"

lemma diagonals_5x5_tests: "list_all diagonals_5x5_test [12, 13]"
  by code_simp

lemma diagonals_5x5_cells: "list_all (\<lambda>s. step_cells s \<subseteq> set kept_5x5) diagonals_5x5"
  by (simp add: diagonals_5x5_def kept_5x5_def)

lemma network_5x5_exact:
  assumes "window_ones 5 0 W = t" and "t = 12 \<or> t = 13"
  shows "sorting_network5x5 bits W = (t = 13)"
proof -
  let ?columns = "run bits (concat (map column_5x5 [0..<5])) W"
  let ?o = "\<lambda>c. ones 5 (\<lambda>i. W (i, c))"
  let ?n = "\<lambda>r. ones 5 (\<lambda>c. r < ?o c)"
  let ?a = "map ?n [0..<5]"
  have row: "run bits (concat rows_5x5) ?columns p = (snd p < ?a ! fst p)" if "p \<in> set kept_5x5" for p
  proof -
    obtain r c where p: "p = (r, c)" by (cases p)
    have "r < 5" using that by (auto simp: p kept_5x5_def)
    then have "ones 5 (\<lambda>i. ?columns (r, i)) = ?n r" by (intro ones_cong) (simp add: columns_5x5_bits)
    then show ?thesis using rows_5x5_bits [of r c ?columns] that \<open>r < 5\<close> by (simp add: p)
  qed
  have "sum_list ?a = t"
    using sorted_columns_ones(1) [of ?o 5] assms(1)
    by (simp add: ones_le window_ones_columns interv_sum_list_conv_sum_set_nat atLeast0LessThan)
  moreover have "sorted_wrt (\<ge>) ?a"
    unfolding sorted_wrt_iff_nth_less by (auto intro!: ones_mono)
  ultimately have a: "?a \<in> set (stairs 5 5 t)"
    by (intro stairs) (auto simp: ones_le)
  have "run bits diagonals_5x5 (run bits (concat rows_5x5) ?columns) (2, 2) = (t = 13)"
  proof (rule network_tests [OF _ a diagonals_5x5_cells])
    have "diagonals_5x5_test t" using diagonals_5x5_tests assms(2) by auto
    then show "tested diagonals_5x5 (\<lambda>p a. snd p < a ! fst p) (stairs 5 5 t) (2, 2) = map (\<lambda>_. t = 13) (stairs 5 5 t)"
      unfolding diagonals_5x5_test_def .
  qed (use row in \<open>simp_all add: kept_5x5_def\<close>)
  moreover have split: "network_5x5 = concat (map column_5x5 [0..<5]) @ concat rows_5x5 @ diagonals_5x5"
    by (simp add: network_5x5_def rows_5x5_def)
  ultimately show ?thesis unfolding sorting_network5x5_def split run_append by simp
qed

section \<open>The 7x7 network on bits\<close>

definition column_7x7_test :: "nat \<Rightarrow> bool" where
  "column_7x7_test c \<longleftrightarrow>
     map (tested (column_7x7 c) (\<lambda>p a. a ! fst p) (assignments 7)) (map (\<lambda>r. (r, c)) [0..<7])
     = map (\<lambda>r. map (\<lambda>a. 7 - length (filter id a) \<le> r) (assignments 7)) [0..<7]"

lemma columns_7x7_tests: "list_all column_7x7_test [0..<7]"
  by code_simp

lemma columns_7x7_bits:
  assumes "r < 7" and "c < 7"
  shows "run bits (concat (map column_7x7 [0..<7])) W (r, c) = (7 - ones 7 (\<lambda>i. W (i, c)) \<le> r)"
proof -
  have "run bits (concat (map column_7x7 [0..<7])) W (r, c) = run bits (column_7x7 c) W (r, c)"
    using assms by (subst run_blocks [where key = snd]) (auto simp: column_7x7_def)
  also have "\<dots> = (7 - ones 7 (\<lambda>i. W (i, c)) \<le> r)"
  proof (rule line_tests [where cell = "\<lambda>i. (i, c)" and coord = fst])
    have "column_7x7_test c" using columns_7x7_tests assms(2) by (simp add: list_all_iff)
    then have "\<forall>r \<in> set [0..<7]. (tested (column_7x7 c) (\<lambda>p a. a ! fst p) (assignments 7) \<circ> (\<lambda>r. (r, c))) r
        = map (\<lambda>a. 7 - length (filter id a) \<le> r) (assignments 7)"
      unfolding column_7x7_test_def map_map map_eq_conv .
    moreover have "r \<in> set [0..<7]" using assms(1) by simp
    ultimately show "tested (column_7x7 c) (\<lambda>p a. a ! fst p) (assignments 7) (r, c)
        = map (\<lambda>a. 7 - length (filter id a) \<le> r) (assignments 7)"
      unfolding comp_apply by (rule bspec)
  qed (use assms in \<open>simp_all add: column_7x7_def\<close>)
  finally show ?thesis .
qed

definition rows_7x7 :: "network_step list list" where
  "rows_7x7 = [row_0_7x7, row_1_7x7, row_2_7x7, row_3_7x7, row_4_7x7, row_5_7x7, row_6_7x7]"

text \<open>The cells whose values the diagonals use.\<close>

definition kept_7x7 :: "cell list" where
  "kept_7x7 = [(0, 4), (0, 5), (0, 6), (1, 3), (1, 4), (1, 5), (1, 6), (2, 2), (2, 3), (2, 4), (2, 5), (2, 6), (3, 1), (3, 2),
     (3, 3), (3, 4), (3, 5), (4, 0), (4, 1), (4, 2), (4, 3), (4, 4), (5, 0), (5, 1), (5, 2), (5, 3), (6, 0), (6, 1), (6, 2)]"

lemmas rows_7x7_defs = row_0_7x7_def row_1_7x7_def row_2_7x7_def row_3_7x7_def row_4_7x7_def row_5_7x7_def
  row_6_7x7_def

definition row_7x7_test :: "cell \<Rightarrow> bool" where
  "row_7x7_test p \<longleftrightarrow> tested (rows_7x7 ! fst p) (\<lambda>p a. a ! snd p) (assignments 7) p
     = map (\<lambda>a. 7 - length (filter id a) \<le> snd p) (assignments 7)"

lemma rows_7x7_tests: "list_all row_7x7_test kept_7x7"
  by code_simp

lemma rows_7x7_cells: "r < 7 \<Longrightarrow> s \<in> set (rows_7x7 ! r) \<Longrightarrow> step_cells s \<subseteq> Pair r ` {..<7}"
  by (auto simp: rows_7x7_def rows_7x7_defs less_Suc_eq numeral_eq_Suc)

lemma rows_7x7_bits:
  assumes "(r, c) \<in> set kept_7x7"
  shows "run bits (concat rows_7x7) W (r, c) = (7 - ones 7 (\<lambda>i. W (r, i)) \<le> c)"
proof -
  have r: "r < 7" "c < 7" using assms by (auto simp: kept_7x7_def)
  have len: "length rows_7x7 = 7" by (simp add: rows_7x7_def)
  have key: "fst p = k" if "k < length rows_7x7" "s \<in> set (rows_7x7 ! k)" "p \<in> step_cells s" for k s p
    using rows_7x7_cells [of k s] that by (auto simp: len)
  have "run bits (concat rows_7x7) W (r, c) = run bits (rows_7x7 ! r) W (r, c)"
    using r key by (subst run_blocks [where key = fst]) (simp_all add: len)
  also have "\<dots> = (7 - ones 7 (\<lambda>i. W (r, i)) \<le> c)"
  proof (rule line_tests [where cell = "Pair r" and coord = snd])
    have "row_7x7_test (r, c)" using rows_7x7_tests assms by (simp add: list_all_iff)
    then show "tested (rows_7x7 ! r) (\<lambda>p a. a ! snd p) (assignments 7) (r, c)
        = map (\<lambda>a. 7 - length (filter id a) \<le> c) (assignments 7)"
      unfolding row_7x7_test_def fst_conv snd_conv .
    show "list_all (\<lambda>s. step_cells s \<subseteq> Pair r ` {..<7}) (rows_7x7 ! r)"
      using rows_7x7_cells [OF r(1)] by (simp add: list_all_iff)
  qed (use r in simp_all)
  finally show ?thesis .
qed

definition diagonals_7x7_test :: "nat \<Rightarrow> bool" where
  "diagonals_7x7_test t \<longleftrightarrow>
     tested (diagonals_7x7 @ middle_7x7) (\<lambda>p a. 7 - a ! (6 - fst p) \<le> snd p) (stairs 7 7 t) (3, 3)
     = map (\<lambda>_. t = 25) (stairs 7 7 t)"

lemma diagonals_7x7_tests: "list_all diagonals_7x7_test [24, 25]"
  by code_simp

lemma diagonals_7x7_cells: "list_all (\<lambda>s. step_cells s \<subseteq> set kept_7x7) (diagonals_7x7 @ middle_7x7)"
  by (simp add: diagonals_7x7_def middle_7x7_def kept_7x7_def)

lemma network_7x7_exact:
  assumes "window_ones 7 0 W = t" and "t = 24 \<or> t = 25"
  shows "sorting_network7x7 bits W = (t = 25)"
proof -
  let ?columns = "run bits (concat (map column_7x7 [0..<7])) W"
  let ?o = "\<lambda>c. ones 7 (\<lambda>i. W (i, c))"
  let ?n = "\<lambda>r. ones 7 (\<lambda>c. 7 - ?o c \<le> r)"
  let ?a = "map (\<lambda>i. ?n (6 - i)) [0..<7]"
  have row: "run bits (concat rows_7x7) ?columns p = (7 - ?a ! (6 - fst p) \<le> snd p)" if "p \<in> set kept_7x7" for p
  proof -
    obtain r c where p: "p = (r, c)" by (cases p)
    have "r < 7" using that by (auto simp: p kept_7x7_def)
    then have "ones 7 (\<lambda>i. ?columns (r, i)) = ?n r" by (intro ones_cong) (simp add: columns_7x7_bits)
    then show ?thesis using rows_7x7_bits [of r c ?columns] that \<open>r < 7\<close> by (simp add: p)
  qed
  have "sum_list ?a = t"
    using sorted_columns_ones(2) [of ?o 7] assms(1) sum.nat_diff_reindex [of ?n 7]
    by (simp add: ones_le window_ones_columns interv_sum_list_conv_sum_set_nat atLeast0LessThan)
  moreover have "sorted_wrt (\<ge>) ?a"
    unfolding sorted_wrt_iff_nth_less by (auto intro!: ones_mono)
  ultimately have a: "?a \<in> set (stairs 7 7 t)"
    by (intro stairs) (auto simp: ones_le)
  have "run bits (diagonals_7x7 @ middle_7x7) (run bits (concat rows_7x7) ?columns) (3, 3) = (t = 25)"
  proof (rule network_tests [OF _ a diagonals_7x7_cells])
    have "diagonals_7x7_test t" using diagonals_7x7_tests assms(2) by auto
    then show "tested (diagonals_7x7 @ middle_7x7) (\<lambda>p a. 7 - a ! (6 - fst p) \<le> snd p) (stairs 7 7 t) (3, 3) = map (\<lambda>_. t = 25) (stairs 7 7 t)"
      unfolding diagonals_7x7_test_def .
  qed (use row in \<open>simp_all add: kept_7x7_def\<close>)
  moreover have split: "network_7x7 = concat (map column_7x7 [0..<7]) @ concat rows_7x7 @ diagonals_7x7 @ middle_7x7"
    by (simp add: network_7x7_def rows_7x7_def)
  ultimately show ?thesis unfolding sorting_network7x7_def split run_append by simp
qed

section \<open>The 3x3 networks on bits\<close>

definition row_3x3_test :: "nat \<Rightarrow> bool" where
  "row_3x3_test r \<longleftrightarrow>
     map (tested (row_3x3 r) (\<lambda>p a. a ! snd p) (assignments 3)) (map (Pair r) [0..<3])
     = map (\<lambda>c. map (\<lambda>a. 3 - length (filter id a) \<le> c) (assignments 3)) [0..<3]"

lemma rows_3x3_tests: "list_all row_3x3_test [0..<4]"
  by code_simp

lemma rows_3x3_bits:
  assumes "r < k" and "k \<le> 4" and "c < 3"
  shows "run bits (concat (map row_3x3 [0..<k])) W (r, c) = (3 - ones 3 (\<lambda>i. W (r, i)) \<le> c)"
proof -
  have "run bits (concat (map row_3x3 [0..<k])) W (r, c) = run bits (row_3x3 r) W (r, c)"
    using assms by (subst run_blocks [where key = fst]) (auto simp: row_3x3_def)
  also have "\<dots> = (3 - ones 3 (\<lambda>i. W (r, i)) \<le> c)"
  proof (rule line_tests [where cell = "Pair r" and coord = snd])
    have "row_3x3_test r" using rows_3x3_tests assms(1,2) by (simp add: list_all_iff)
    then have "\<forall>c \<in> set [0..<3]. (tested (row_3x3 r) (\<lambda>p a. a ! snd p) (assignments 3) \<circ> Pair r) c
        = map (\<lambda>a. 3 - length (filter id a) \<le> c) (assignments 3)"
      unfolding row_3x3_test_def map_map map_eq_conv .
    moreover have "c \<in> set [0..<3]" using assms(3) by simp
    ultimately show "tested (row_3x3 r) (\<lambda>p a. a ! snd p) (assignments 3) (r, c)
        = map (\<lambda>a. 3 - length (filter id a) \<le> c) (assignments 3)"
      unfolding comp_apply by (rule bspec)
  qed (use assms in \<open>simp_all add: row_3x3_def\<close>)
  finally show ?thesis .
qed

text \<open>Both networks sort the rows first, so windows with sorted rows are enough.\<close>

definition sorted_rows :: "cell \<Rightarrow> nat list \<Rightarrow> bool" where
  "sorted_rows p a \<longleftrightarrow> 3 - a ! fst p \<le> snd p"

lemma sorted_rows_same:
  assumes "r < k" and "k \<le> 4" and "c < 3"
  shows "run bits (concat (map row_3x3 [0..<k])) W (r, c)
    = run bits (concat (map row_3x3 [0..<k])) (\<lambda>p. sorted_rows p (map (\<lambda>r. ones 3 (\<lambda>i. W (r, i))) [0..<k])) (r, c)"
proof -
  have "ones 3 (\<lambda>i. 3 - ones 3 (\<lambda>i. W (r, i)) \<le> i) = ones 3 (\<lambda>i. W (r, i))"
    unfolding ones_def [of 3 "\<lambda>i. 3 - ones 3 (\<lambda>i. W (r, i)) \<le> i"] by (rule count_from [OF ones_le])
  then show ?thesis using assms by (simp add: rows_3x3_bits sorted_rows_def)
qed

lemma row_counts: "map (\<lambda>r. ones 3 (\<lambda>i. W (r, i))) [0..<k] \<in> set (List.n_lists k [0, 1, 2, 3])"
proof -
  have v: "ones 3 f \<in> {0, 1, 2, 3}" for f using ones_le [of 3 f] by auto
  then have "set (map (\<lambda>r. ones 3 (\<lambda>i. W (r, i))) [0..<k]) \<subseteq> set [0, 1, 2, 3]"
    unfolding set_map list.set by (intro image_subsetI v)
  then show ?thesis by (simp only: set_n_lists mem_Collect_eq length_map length_upt diff_zero simp_thms)
qed

lemma single_row_tests:
  "sorting_network3x3_single_row tests (cases_window sorted_rows (List.n_lists 3 [0, 1, 2, 3 :: nat]))
    = map (\<lambda>a. 5 \<le> a ! 0 + a ! 1 + a ! 2) (List.n_lists 3 [0, 1, 2, 3 :: nat])"
  by code_simp

lemma dual_rows_tests:
  "sorting_network3x3_dual_rows tests (cases_window sorted_rows (List.n_lists 4 [0, 1, 2, 3 :: nat]))
    = (map (\<lambda>a. 5 \<le> a ! 0 + a ! 1 + a ! 2) (List.n_lists 4 [0, 1, 2, 3 :: nat]),
       map (\<lambda>a. 5 \<le> a ! 1 + a ! 2 + a ! 3) (List.n_lists 4 [0, 1, 2, 3 :: nat]))"
  by code_simp

lemma single_row_cong:
  assumes "\<And>r c. r < 3 \<Longrightarrow> c < 3 \<Longrightarrow>
    run cmp (concat (map row_3x3 [0..<3])) W (r, c) = run cmp (concat (map row_3x3 [0..<3])) W' (r, c)"
  shows "sorting_network3x3_single_row cmp W = sorting_network3x3_single_row cmp W'"
proof -
  note a = assms [OF _ _]
  have less: "0 < (3 :: nat)" "1 < (3 :: nat)" "2 < (3 :: nat)" by simp_all
  show ?thesis
    unfolding sorting_network3x3_single_row_def Let_def
    by (simp only: assms less)
qed

lemma dual_rows_cong:
  assumes "\<And>r c. r < 4 \<Longrightarrow> c < 3 \<Longrightarrow>
    run cmp (concat (map row_3x3 [0..<4])) W (r, c) = run cmp (concat (map row_3x3 [0..<4])) W' (r, c)"
  shows "sorting_network3x3_dual_rows cmp W = sorting_network3x3_dual_rows cmp W'"
proof -
  have same: "run cmp (concat (map row_3x3 [0..<4]) @ common_3x3) W (r, c)
      = run cmp (concat (map row_3x3 [0..<4]) @ common_3x3) W' (r, c)" if "r < 4" "c < 3" for r c
    unfolding run_append
    by (rule run_cong [where C = "{..<4} \<times> {..<3}"]) (use that assms in \<open>auto simp: common_3x3_def\<close>)
  have less: "0 < (3 :: nat)" "1 < (3 :: nat)" "2 < (3 :: nat)" "0 < (4 :: nat)" "1 < (4 :: nat)" "2 < (4 :: nat)"
    "3 < (4 :: nat)" by simp_all
  show ?thesis
    unfolding sorting_network3x3_dual_rows_def Let_def
    by (simp only: same less)
qed

lemma window_ones_3: "window_ones 3 y W = ones 3 (\<lambda>c. W (y, c)) + ones 3 (\<lambda>c. W (y + 1, c)) + ones 3 (\<lambda>c. W (y + 2, c))"
  by (simp add: window_ones_def eval_nat_numeral)

lemma single_row_bits: "sorting_network3x3_single_row bits W = (5 \<le> window_ones 3 0 W)"
proof -
  let ?cs = "List.n_lists 3 [0, 1, 2, 3 :: nat]" and ?a = "map (\<lambda>r. ones 3 (\<lambda>i. W (r, i))) [0..<3]"
  obtain l where l: "l < length ?cs" "?cs ! l = ?a" using row_counts [of W 3] unfolding in_set_conv_nth by blast
  have "sorting_network3x3_single_row bits W = sorting_network3x3_single_row bits (\<lambda>p. sorted_rows p ?a)"
    by (rule single_row_cong) (rule sorted_rows_same; simp)
  also have "(\<lambda>p. sorted_rows p ?a) = (\<lambda>p. cases_window sorted_rows ?cs p ! l)"
    unfolding cases_window_def nth_map [OF l(1)] l(2) ..
  also have "sorting_network3x3_single_row bits \<dots> = sorting_network3x3_single_row tests (cases_window sorted_rows ?cs) ! l"
    using l(1) by (intro test.single_row_map [symmetric, where n = "length ?cs"]) (simp only: cases_window_def length_map)
  also have "\<dots> = (5 \<le> ?a ! 0 + ?a ! 1 + ?a ! 2)"
    unfolding single_row_tests nth_map [OF l(1)] l(2) ..
  finally show ?thesis by (simp add: window_ones_3)
qed

lemma dual_rows_bits: "sorting_network3x3_dual_rows bits W = (5 \<le> window_ones 3 0 W, 5 \<le> window_ones 3 1 W)"
proof -
  let ?cs = "List.n_lists 4 [0, 1, 2, 3 :: nat]" and ?a = "map (\<lambda>r. ones 3 (\<lambda>i. W (r, i))) [0..<4]"
  obtain l where l: "l < length ?cs" "?cs ! l = ?a" using row_counts [of W 4] unfolding in_set_conv_nth by blast
  have "sorting_network3x3_dual_rows bits W = sorting_network3x3_dual_rows bits (\<lambda>p. sorted_rows p ?a)"
    by (rule dual_rows_cong) (rule sorted_rows_same; simp)
  also have "(\<lambda>p. sorted_rows p ?a) = (\<lambda>p. cases_window sorted_rows ?cs p ! l)"
    unfolding cases_window_def nth_map [OF l(1)] l(2) ..
  also have "sorting_network3x3_dual_rows bits \<dots>
      = map_prod (\<lambda>v. v ! l) (\<lambda>v. v ! l) (sorting_network3x3_dual_rows tests (cases_window sorted_rows ?cs))"
    using l(1) by (intro test.dual_rows_map [symmetric, where n = "length ?cs"]) (simp only: cases_window_def length_map)
  also have "\<dots> = (5 \<le> ?a ! 0 + ?a ! 1 + ?a ! 2, 5 \<le> ?a ! 1 + ?a ! 2 + ?a ! 3)"
    unfolding dual_rows_tests map_prod_simp nth_map [OF l(1)] l(2) ..
  finally show ?thesis unfolding window_ones_3 by (simp add: numeral_3_eq_3)
qed

section \<open>From the exact number of ones to all windows\<close>

lemma run_bits_mono:
  assumes "\<And>p. W p \<Longrightarrow> W' p" and "run bits steps W q"
  shows "run bits steps W' q"
  using assms
proof (induction steps arbitrary: W W')
  case (Cons s steps)
  have "run_step bits s W p \<Longrightarrow> run_step bits s W' p" for p
    using Cons.prems(1) by (cases s) (auto split: if_splits)
  then show ?case using Cons by (metis run_Cons)
qed simp

lemma window_ones_card: "window_ones n 0 W = card {p \<in> {..<n} \<times> {..<n}. W p}"
proof -
  have "window_ones n 0 W = (\<Sum>p \<in> {..<n} \<times> {..<n}. of_bool (W p))"
    unfolding window_ones_def ones_def add_0 by (simp only: sum.cartesian_product split_def prod.collapse)
  also have "\<dots> = card {p \<in> {..<n} \<times> {..<n}. W p}"
    by (simp add: sum_of_bool_eq Int_def)
  finally show ?thesis .
qed

text \<open>
  A window with more ones has one with exactly as many below it, a window with fewer has one above it,
  and a network respects this order.
\<close>

lemma median_from_exact:
  assumes mono: "\<And>W W'. (\<And>p. W p \<Longrightarrow> W' p) \<Longrightarrow> N W \<Longrightarrow> N W'"
    and exact: "\<And>W. window_ones n 0 W = Suc k \<Longrightarrow> N W" "\<And>W. window_ones n 0 W = k \<Longrightarrow> \<not> N W" and k: "k \<le> n * n"
  shows "N W = (k < window_ones n 0 W)"
proof -
  let ?box = "{..<n} \<times> {..<n}" and ?ones = "{p \<in> {..<n} \<times> {..<n}. W p}"
  have fin: "finite ?box" "finite ?ones" by simp_all
  show ?thesis
  proof (cases "k < window_ones n 0 W")
    case True
    then obtain T where T: "T \<subseteq> ?ones" "card T = Suc k"
      using obtain_subset_with_card_n [of "Suc k" ?ones] unfolding window_ones_card by auto
    then have "{p \<in> ?box. p \<in> T} = T" by auto
    with T(2) have "window_ones n 0 (\<lambda>p. p \<in> T) = Suc k" unfolding window_ones_card by simp
    then have "N (\<lambda>p. p \<in> T)" by (rule exact(1))
    then have "N W" using T(1) mono [of "\<lambda>p. p \<in> T" W] by blast
    with True show ?thesis by simp
  next
    case False
    then have le: "card ?ones \<le> k" by (simp add: window_ones_card)
    have "card ?box - card ?ones = card (?box - ?ones)"
      using fin by (intro card_Diff_subset [symmetric]) auto
    then have "k - card ?ones \<le> card (?box - ?ones)" using k by simp
    then obtain T where T: "T \<subseteq> ?box - ?ones" "card T = k - card ?ones"
      by (rule obtain_subset_with_card_n)
    let ?W = "\<lambda>p. p \<in> ?ones \<union> T \<or> p \<notin> ?box"
    have "{p \<in> ?box. ?W p} = ?ones \<union> T" using T(1) by auto
    moreover have "card (?ones \<union> T) = card ?ones + card T"
      using T(1) fin by (intro card_Un_disjoint) (auto intro: finite_subset)
    ultimately have "window_ones n 0 ?W = k" using T(2) le unfolding window_ones_card by simp
    then have "\<not> N ?W" by (rule exact(2))
    moreover have "N W \<Longrightarrow> N ?W" using mono [of W ?W] by blast
    ultimately show ?thesis using False by blast
  qed
qed

lemma network_5x5_bits: "sorting_network5x5 bits W = (13 \<le> window_ones 5 0 W)"
proof -
  have "sorting_network5x5 bits W = (12 < window_ones 5 0 W)"
    using network_5x5_exact
    by (intro median_from_exact) (auto simp: sorting_network5x5_def elim: run_bits_mono [rotated])
  then show ?thesis by auto
qed

lemma network_7x7_bits: "sorting_network7x7 bits W = (25 \<le> window_ones 7 0 W)"
proof -
  have "sorting_network7x7 bits W = (24 < window_ones 7 0 W)"
    using network_7x7_exact
    by (intro median_from_exact) (auto simp: sorting_network7x7_def elim: run_bits_mono [rotated])
  then show ?thesis by auto
qed

section \<open>Medians\<close>

text \<open>The values of the \<open>n\<close> rows from \<open>y\<close> on, and the one in the middle when they are sorted.\<close>

definition window_cells :: "nat \<Rightarrow> nat \<Rightarrow> 'v window \<Rightarrow> 'v list" where
  "window_cells n y W = concat (map (\<lambda>r. map (\<lambda>c. W (y + r, c)) [0..<n]) [0..<n])"

definition median_of :: "bool \<Rightarrow> 'a::len word list \<Rightarrow> 'a word" where
  "median_of is_signed vs = sort_key (lane_value is_signed) vs ! (length vs div 2)"

lemma window_cells_length: "length (window_cells n y W) = n * n"
  by (simp add: window_cells_def length_concat comp_def sum_list_triv)

lemma window_cells_ones: "length (filter f (window_cells n y W)) = window_ones n y (\<lambda>p. f (W p))"
proof -
  have "length (filter f (map (\<lambda>c. W (y + r, c)) [0..<n])) = ones n (\<lambda>c. f (W (y + r, c)))" for r
    by (simp add: filter_map comp_def ones_filter)
  then show ?thesis
    by (simp add: window_cells_def window_ones_def filter_concat length_concat comp_def
        interv_sum_list_conv_sum_set_nat atLeast0LessThan)
qed

lemma sorted_nth_ge_iff:
  assumes "sorted xs" and "k < length xs"
  shows "t \<le> xs ! k \<longleftrightarrow> length xs - k \<le> length (filter (\<lambda>x. (t :: int) \<le> x) xs)"
  using assms
proof (induction xs arbitrary: k)
  case (Cons x xs)
  show ?case
  proof (cases "t \<le> x")
    case True
    then have all: "\<forall>y \<in> set (x # xs). t \<le> y" using Cons.prems(1) by auto
    then have "filter (\<lambda>x. t \<le> x) (x # xs) = x # xs" by (simp only: filter_id_conv)
    moreover have "t \<le> (x # xs) ! k" using all Cons.prems(2) by (meson nth_mem)
    ultimately show ?thesis by simp
  next
    case False
    show ?thesis
    proof (cases k)
      case 0
      with False show ?thesis by (simp add: Suc_le_eq not_less)
    next
      case (Suc j)
      with Cons.IH [of j] Cons.prems False show ?thesis by simp
    qed
  qed
qed simp

lemma median_ofI:
  assumes "length vs = 2 * k + 1"
    and "\<And>t. t \<le> lane_value s m \<longleftrightarrow> Suc k \<le> length (filter (\<lambda>v. t \<le> lane_value s v) vs)"
  shows "m = median_of s vs"
proof -
  let ?ys = "sort (map (lane_value s) vs)"
  have "map (lane_value s) (sort_key (lane_value s) vs) = ?ys"
    by (rule properties_for_sort [symmetric]) simp_all
  then have val: "lane_value s (median_of s vs) = ?ys ! k"
    using assms(1) nth_map [of k "sort_key (lane_value s) vs" "lane_value s"] by (simp add: median_of_def)
  have "t \<le> lane_value s m \<longleftrightarrow> t \<le> ?ys ! k" for t
  proof -
    have "length (filter (\<lambda>x. t \<le> x) ?ys) = length (filter (\<lambda>v. t \<le> lane_value s v) vs)"
      by (simp add: filter_sort filter_map comp_def)
    then show ?thesis using sorted_nth_ge_iff [of ?ys k t] assms by simp
  qed
  then have "lane_value s m = lane_value s (median_of s vs)" unfolding val by (meson order_antisym order_refl)
  then show ?thesis by (simp add: lane_value_inject)
qed

lemma window_median:
  assumes "n * n = 2 * k + 1"
    and "\<And>t. t \<le> lane_value s m \<longleftrightarrow> Suc k \<le> window_ones n y (\<lambda>p. t \<le> lane_value s (W p))"
  shows "m = median_of s (window_cells n y W)"
  using assms by (intro median_ofI) (simp_all add: window_cells_length window_cells_ones)

lemma single_row_median: "sorting_network3x3_single_row (ScalarComparator s) W = median_of s (window_cells 3 0 W)"
  unfolding scalar_comparator
  by (rule window_median [where k = 4]) (simp_all add: threshold.single_row_map single_row_bits)

lemma dual_rows_median:
  "sorting_network3x3_dual_rows (ScalarComparator s) W
   = (median_of s (window_cells 3 0 W), median_of s (window_cells 3 1 W))"
proof (rule prod_eqI)
  let ?bit = "\<lambda>t p. t \<le> lane_value s (W p)"
  have "map_prod (\<lambda>a. t \<le> lane_value s a) (\<lambda>a. t \<le> lane_value s a)
      (sorting_network3x3_dual_rows (ScalarComparator s) W)
    = (5 \<le> window_ones 3 0 (?bit t), 5 \<le> window_ones 3 1 (?bit t))" for t
    unfolding scalar_comparator by (simp only: threshold.dual_rows_map dual_rows_bits)
  then have both: "(t \<le> lane_value s (fst (sorting_network3x3_dual_rows (ScalarComparator s) W)))
      = (5 \<le> window_ones 3 0 (?bit t))"
    "(t \<le> lane_value s (snd (sorting_network3x3_dual_rows (ScalarComparator s) W)))
      = (5 \<le> window_ones 3 1 (?bit t))" for t
    by (metis fst_map_prod snd_map_prod fst_conv snd_conv)+
  show "fst (sorting_network3x3_dual_rows (ScalarComparator s) W)
      = fst (median_of s (window_cells 3 0 W), median_of s (window_cells 3 1 W))"
    unfolding fst_conv by (rule window_median [where k = 4]) (simp_all add: both)
  show "snd (sorting_network3x3_dual_rows (ScalarComparator s) W)
      = snd (median_of s (window_cells 3 0 W), median_of s (window_cells 3 1 W))"
    unfolding snd_conv by (rule window_median [where k = 4]) (simp_all add: both)
qed

lemma network_5x5_median: "sorting_network5x5 (ScalarComparator s) W = median_of s (window_cells 5 0 W)"
  unfolding scalar_comparator
  by (rule window_median [where k = 12]) (simp_all add: threshold.network_5x5_map network_5x5_bits)

lemma network_7x7_median: "sorting_network7x7 (ScalarComparator s) W = median_of s (window_cells 7 0 W)"
  unfolding scalar_comparator
  by (rule window_median [where k = 24]) (simp_all add: threshold.network_7x7_map network_7x7_bits)

text \<open>
  On vectors the networks work lane by lane: each lane of the result is what the scalar network
  makes of the values the window has in that lane.
\<close>

lemma vector_networks_lanewise:
  assumes "\<And>p. length (W p) = n" and "l < n"
  shows "sorting_network3x3_single_row (VectorizedComparator s) W ! l
      = sorting_network3x3_single_row (ScalarComparator s) (\<lambda>p. W p ! l)"
    and "map_prod (\<lambda>v. v ! l) (\<lambda>v. v ! l) (sorting_network3x3_dual_rows (VectorizedComparator s) W)
      = sorting_network3x3_dual_rows (ScalarComparator s) (\<lambda>p. W p ! l)"
    and "sorting_network5x5 (VectorizedComparator s) W ! l = sorting_network5x5 (ScalarComparator s) (\<lambda>p. W p ! l)"
    and "sorting_network7x7 (VectorizedComparator s) W ! l = sorting_network7x7 (ScalarComparator s) (\<lambda>p. W p ! l)"
  using assms unfolding vectorized_comparator scalar_comparator
  by (intro lane.single_row_map [where n = n] lane.dual_rows_map [where n = n]
      lane.network_5x5_map [where n = n] lane.network_7x7_map [where n = n]; simp)+

text \<open>
  C13. The networks of the three sizes select the median of the values in their window, for signed and
  unsigned values of every width, and the network for two rows the medians of the two windows that
  share its inner rows.
\<close>

theorem networks_select_median:
  "sorting_network3x3_single_row (ScalarComparator s) W = median_of s (window_cells 3 0 W)
   \<and> sorting_network3x3_dual_rows (ScalarComparator s) W
      = (median_of s (window_cells 3 0 W), median_of s (window_cells 3 1 W))
   \<and> sorting_network5x5 (ScalarComparator s) W = median_of s (window_cells 5 0 W)
   \<and> sorting_network7x7 (ScalarComparator s) W = median_of s (window_cells 7 0 W)"
  by (intro conjI single_row_median dual_rows_median network_5x5_median network_7x7_median)

end
