(* ===== verification/Filter_2D.thy ===== *)
theory Filter_2D
  imports Image_Writes Filter_Images Median_Networks
begin

text \<open>
  Filters that look at a square window around each pixel:
  \<^verbatim>\<open>kleidicv/include/kleidicv/filters/filter_2d_neon.h\<close>, the loaders of
  \<^verbatim>\<open>filter_2d_window_loader_NxN.h\<close> and the drivers of
  \<^verbatim>\<open>process_filter_2d.h\<close>, one of which produces two rows at a time. For any filter whose
  vector path works lane by lane every destination element is what the scalar path makes of the window
  of source elements that the border type assigns.
\<close>

section \<open>Windows and filters\<close>

text \<open>
  The filter class that the templates take. The paths return what the code assigns to its output
  references; those for two rows read a window that is one row higher.
\<close>

record 's inner_filter =
  vector_path :: "'s list window \<Rightarrow> 's list"
  scalar_path :: "'s window \<Rightarrow> 's"

record 's dual_inner_filter = "'s inner_filter" +
  vector_path_for_dual_row_handling :: "'s list window \<Rightarrow> 's list \<times> 's list"
  scalar_path_for_dual_row_handling :: "'s window \<Rightarrow> 's \<times> 's"

type_synonym ('a, 'z) window_filter = "('a word, 'z) inner_filter_scheme"
type_synonym 'a dual_window_filter = "'a word dual_inner_filter"

text \<open>
  \<^verbatim>\<open>src_rows.at(window_row_offsets.cR(), window_col_offsets.cC())[index]\<close>. The array of the
  window is uninitialised at first; every cell of it that is used is loaded.
\<close>

definition window_pointer :: "Rows \<Rightarrow> int \<Rightarrow> int \<Rightarrow> nat \<Rightarrow> nat" where
  "window_pointer src_rows row_offset col_offset index =
     element_pointer (rows_at src_rows row_offset col_offset) index"

definition load_window_3x3 ::
    "(nat \<Rightarrow> 'v) \<Rightarrow> Rows \<Rightarrow> int list \<Rightarrow> int list \<Rightarrow> nat \<Rightarrow> 'v window \<Rightarrow> 'v window" where
  "load_window_3x3 load_array_element src_rows window_row_offsets window_col_offsets index W =
     (\<lambda>(row, col). if row < 3 \<and> col < 3
        then load_array_element (window_pointer src_rows (window_row_offsets ! row) (window_col_offsets ! col) index)
        else W (row, col))"

definition load_window_5x5 ::
    "(nat \<Rightarrow> 'v) \<Rightarrow> Rows \<Rightarrow> int list \<Rightarrow> int list \<Rightarrow> nat \<Rightarrow> 'v window \<Rightarrow> 'v window" where
  "load_window_5x5 load_array_element src_rows window_row_offsets window_col_offsets index W =
     (\<lambda>(row, col). if row < 5 \<and> col < 5
        then load_array_element (window_pointer src_rows (window_row_offsets ! row) (window_col_offsets ! col) index)
        else W (row, col))"

definition load_window_7x7 ::
    "(nat \<Rightarrow> 'v) \<Rightarrow> Rows \<Rightarrow> int list \<Rightarrow> int list \<Rightarrow> nat \<Rightarrow> 'v window \<Rightarrow> 'v window" where
  "load_window_7x7 load_array_element src_rows window_row_offsets window_col_offsets index W =
     (\<lambda>(row, col). if row < 7 \<and> col < 7
        then load_array_element (window_pointer src_rows (window_row_offsets ! row) (window_col_offsets ! col) index)
        else W (row, col))"

definition load_window ::
    "nat \<Rightarrow> (nat \<Rightarrow> 'v) \<Rightarrow> Rows \<Rightarrow> int list \<Rightarrow> int list \<Rightarrow> nat \<Rightarrow> 'v window \<Rightarrow> 'v window" where
  "load_window KSize =
     (if KSize = 3 then load_window_3x3 else if KSize = 5 then load_window_5x5 else load_window_7x7)"

text \<open>The row below the window of the second row of pixels. Only the loader of size 3 has it.\<close>

definition load_window_to_handle_dual_rows ::
    "(nat \<Rightarrow> 'v) \<Rightarrow> Rows \<Rightarrow> int list \<Rightarrow> int list \<Rightarrow> int list \<Rightarrow> nat \<Rightarrow> 'v window \<Rightarrow> 'v window" where
  "load_window_to_handle_dual_rows load_array_element src_rows window_row_offsets_0 window_row_offsets_1
     window_col_offsets index W =
     (let W = load_window_3x3 load_array_element src_rows window_row_offsets_0 window_col_offsets index W in
      (\<lambda>(row, col). if row = 3 \<and> col < 3
         then load_array_element (window_pointer src_rows (window_row_offsets_1 ! 2 + 1) (window_col_offsets ! col) index)
         else W (row, col)))"

section \<open>Pixels\<close>

definition vector_step ::
    "nat \<Rightarrow> ('a::len, 'z) window_filter \<Rightarrow> Rows \<Rightarrow> Rows \<Rightarrow> int list \<Rightarrow> int list \<Rightarrow> nat \<Rightarrow> mem \<Rightarrow> mem" where
  "vector_step KSize flt src_rows dst_rows window_row_offsets window_col_offsets index m =
     (let src = load_window KSize (\<lambda>x. vld1q_elems x m) src_rows window_row_offsets window_col_offsets index
            (\<lambda>_. replicate (num_lanes_of TYPE('a)) 0)
      in vst1q_elems (element_pointer dst_rows index) (vector_path flt src) m)"

definition process_one_element_with_horizontal_borders ::
    "nat \<Rightarrow> ('a::len, 'z) window_filter \<Rightarrow> Rows \<Rightarrow> Rows \<Rightarrow> int list \<Rightarrow> int list \<Rightarrow> nat \<Rightarrow> mem \<Rightarrow> mem" where
  "process_one_element_with_horizontal_borders KSize flt src_rows dst_rows window_row_offsets
     window_col_offsets index m =
     (let src = load_window KSize (\<lambda>x. load_elem x m) src_rows window_row_offsets window_col_offsets index (\<lambda>_. 0)
      in store_elem (element_pointer dst_rows index) (scalar_path flt src) m)"

definition process_pixels_without_horizontal_borders ::
    "nat \<Rightarrow> ('a::len, 'z) window_filter \<Rightarrow> nat \<Rightarrow> Rows \<Rightarrow> Rows \<Rightarrow> int list \<Rightarrow> int list \<Rightarrow> mem \<Rightarrow> mem" where
  "process_pixels_without_horizontal_borders KSize flt width src_rows dst_rows window_row_offsets
     window_col_offsets m =
     snd (tail2 (process_one_element_with_horizontal_borders KSize flt src_rows dst_rows window_row_offsets
          window_col_offsets)
        (unroll_once2 True (vector_step KSize flt src_rows dst_rows window_row_offsets window_col_offsets)
          (LoopUnroll2 0 (width * row_channels src_rows) (num_lanes_of TYPE('a)), m)))"

definition process_one_pixel_with_horizontal_borders ::
    "nat \<Rightarrow> ('a::len, 'z) window_filter \<Rightarrow> Rows \<Rightarrow> Rows \<Rightarrow> int list \<Rightarrow> int list \<Rightarrow> mem \<Rightarrow> mem" where
  "process_one_pixel_with_horizontal_borders KSize flt src_rows dst_rows window_row_offsets window_col_offsets =
     fold (process_one_element_with_horizontal_borders KSize flt src_rows dst_rows window_row_offsets
         window_col_offsets)
       [0..<row_channels src_rows]"

definition dual_vector_step ::
    "'a::len dual_window_filter \<Rightarrow> Rows \<Rightarrow> Rows \<Rightarrow> int list \<Rightarrow> int list \<Rightarrow> int list \<Rightarrow> nat \<Rightarrow> mem \<Rightarrow> mem" where
  "dual_vector_step flt src_rows dst_rows window_row_offsets_0 window_row_offsets_1 window_col_offsets index m =
     (let src = load_window_to_handle_dual_rows (\<lambda>x. vld1q_elems x m) src_rows window_row_offsets_0
            window_row_offsets_1 window_col_offsets index (\<lambda>_. replicate (num_lanes_of TYPE('a)) 0);
          (dst_vec_0, dst_vec_1) = vector_path_for_dual_row_handling flt src
      in vst1q_elems (element_pointer (rows_at dst_rows 1 0) index) dst_vec_1
           (vst1q_elems (element_pointer (rows_at dst_rows 0 0) index) dst_vec_0 m))"

definition process_two_element_vertically_with_or_without_horizontal_borders ::
    "'a::len dual_window_filter \<Rightarrow> Rows \<Rightarrow> Rows \<Rightarrow> int list \<Rightarrow> int list \<Rightarrow> int list \<Rightarrow> nat \<Rightarrow> mem \<Rightarrow> mem" where
  "process_two_element_vertically_with_or_without_horizontal_borders flt src_rows dst_rows
     window_row_offsets_0 window_row_offsets_1 window_col_offsets index m =
     (let src = load_window_to_handle_dual_rows (\<lambda>x. load_elem x m) src_rows window_row_offsets_0
            window_row_offsets_1 window_col_offsets index (\<lambda>_. 0);
          (output_vec_0, output_vec_1) = scalar_path_for_dual_row_handling flt src
      in store_elem (element_pointer (rows_at dst_rows 1 0) index) output_vec_1
           (store_elem (element_pointer (rows_at dst_rows 0 0) index) output_vec_0 m))"

definition process_pixels_of_dual_rows_without_horizontal_borders ::
    "'a::len dual_window_filter \<Rightarrow> nat \<Rightarrow> Rows \<Rightarrow> Rows \<Rightarrow> int list \<Rightarrow> int list \<Rightarrow> int list \<Rightarrow> mem \<Rightarrow> mem" where
  "process_pixels_of_dual_rows_without_horizontal_borders flt width src_rows dst_rows
     window_row_offsets_0 window_row_offsets_1 window_col_offsets m =
     snd (tail2 (process_two_element_vertically_with_or_without_horizontal_borders flt src_rows dst_rows
          window_row_offsets_0 window_row_offsets_1 window_col_offsets)
        (unroll_once2 True (dual_vector_step flt src_rows dst_rows window_row_offsets_0 window_row_offsets_1
            window_col_offsets)
          (LoopUnroll2 0 (width * row_channels src_rows) (num_lanes_of TYPE('a)), m)))"

definition process_two_pixels_with_horizontal_borders ::
    "'a::len dual_window_filter \<Rightarrow> Rows \<Rightarrow> Rows \<Rightarrow> int list \<Rightarrow> int list \<Rightarrow> int list \<Rightarrow> mem \<Rightarrow> mem" where
  "process_two_pixels_with_horizontal_borders flt src_rows dst_rows window_row_offsets_0 window_row_offsets_1
     window_col_offsets =
     fold (process_two_element_vertically_with_or_without_horizontal_borders flt src_rows dst_rows
         window_row_offsets_0 window_row_offsets_1 window_col_offsets)
       [0..<row_channels src_rows]"

section \<open>Images\<close>

definition process_filter2d_row ::
    "nat \<Rightarrow> ('a::len, 'z) window_filter \<Rightarrow> Rectangle \<Rightarrow> Rows \<Rightarrow> Rows \<Rightarrow> FixedBorderType \<Rightarrow> nat \<Rightarrow> mem \<Rightarrow> mem" where
  "process_filter2d_row KSize flt rect src_rows dst_rows border_type vertical_index m =
     (let kMargin = KSize div 2;
          vertical_border = \<lparr> fb_length = rectangle_height rect, fb_border_type = border_type \<rparr>;
          horizontal_border = \<lparr> fb_length = rectangle_width rect, fb_border_type = border_type \<rparr>;
          vertical_offsets = offsets_with_border KSize vertical_border vertical_index;
          pixel = (\<lambda>index. process_one_pixel_with_horizontal_borders KSize flt
            (rows_at src_rows (int vertical_index) (int index)) (rows_at dst_rows (int vertical_index) (int index))
            vertical_offsets);
          m = fold (\<lambda>horizontal_index. pixel horizontal_index
                (offsets_with_left_border KSize horizontal_border horizontal_index)) [0..<kMargin] m;
          width_without_borders = size_wrap (int (rectangle_width rect) - 2 * int kMargin);
          m = process_pixels_without_horizontal_borders KSize flt width_without_borders
                (rows_at src_rows (int vertical_index) (int kMargin))
                (rows_at dst_rows (int vertical_index) (int kMargin)) vertical_offsets
                (offsets_without_border KSize) m
      in fold (\<lambda>horizontal_index.
           let index = size_wrap (int (rectangle_width rect) - int kMargin + int horizontal_index)
           in pixel index (offsets_with_right_border KSize horizontal_border index)) [0..<kMargin] m)"

definition process_filter2d ::
    "nat \<Rightarrow> ('a::len, 'z) window_filter \<Rightarrow> Rectangle \<Rightarrow> nat \<Rightarrow> nat \<Rightarrow> Rows \<Rightarrow> Rows \<Rightarrow> FixedBorderType \<Rightarrow> mem \<Rightarrow> mem" where
  "process_filter2d KSize flt rect y_begin y_end src_rows dst_rows border_type =
     fold (process_filter2d_row KSize flt rect src_rows dst_rows border_type) [y_begin..<y_end]"

text \<open>Two rows at a time; the driver exists for size 3 only.\<close>

definition process_filter2d_dual_row ::
    "'a::len dual_window_filter \<Rightarrow> Rectangle \<Rightarrow> Rows \<Rightarrow> Rows \<Rightarrow> FixedBorderType \<Rightarrow> nat \<Rightarrow> mem \<Rightarrow> mem" where
  "process_filter2d_dual_row flt rect src_rows dst_rows border_type vertical_index m =
     (let kMargin = 3 div 2;
          vertical_border = \<lparr> fb_length = rectangle_height rect, fb_border_type = border_type \<rparr>;
          horizontal_border = \<lparr> fb_length = rectangle_width rect, fb_border_type = border_type \<rparr>;
          vertical_offsets_0 = offsets_with_border 3 vertical_border vertical_index;
          vertical_offsets_1 = offsets_with_border 3 vertical_border (vertical_index + 1);
          pixels = (\<lambda>index. process_two_pixels_with_horizontal_borders flt
            (rows_at src_rows (int vertical_index) (int index)) (rows_at dst_rows (int vertical_index) (int index))
            vertical_offsets_0 vertical_offsets_1);
          m = fold (\<lambda>horizontal_index. pixels horizontal_index
                (offsets_with_left_border 3 horizontal_border horizontal_index)) [0..<kMargin] m;
          width_without_borders = size_wrap (int (rectangle_width rect) - 2 * int kMargin);
          m = process_pixels_of_dual_rows_without_horizontal_borders flt width_without_borders
                (rows_at src_rows (int vertical_index) (int kMargin))
                (rows_at dst_rows (int vertical_index) (int kMargin)) vertical_offsets_0 vertical_offsets_1
                (offsets_without_border 3) m
      in fold (\<lambda>horizontal_index.
           let index = size_wrap (int (rectangle_width rect) - int kMargin + int horizontal_index)
           in pixels index (offsets_with_right_border 3 horizontal_border index)) [0..<kMargin] m)"

function dual_rows_loop ::
    "'a::len dual_window_filter \<Rightarrow> Rectangle \<Rightarrow> Rows \<Rightarrow> Rows \<Rightarrow> FixedBorderType \<Rightarrow> nat \<Rightarrow> nat \<Rightarrow> mem \<Rightarrow> nat \<times> mem" where
  "dual_rows_loop flt rect src_rows dst_rows border_type last_row vertical_index m =
     (if vertical_index < last_row
      then dual_rows_loop flt rect src_rows dst_rows border_type last_row (vertical_index + 2)
             (process_filter2d_dual_row flt rect src_rows dst_rows border_type vertical_index m)
      else (vertical_index, m))"
  by pat_completeness auto
termination by (relation "measure (\<lambda>(_, _, _, _, _, last_row, y, _). last_row - y)") auto

declare dual_rows_loop.simps [simp del]

definition process_filter2d_by_dual_rows ::
    "'a::len dual_window_filter \<Rightarrow> Rectangle \<Rightarrow> nat \<Rightarrow> nat \<Rightarrow> Rows \<Rightarrow> Rows \<Rightarrow> FixedBorderType \<Rightarrow> mem \<Rightarrow> mem" where
  "process_filter2d_by_dual_rows flt rect y_begin y_end src_rows dst_rows border_type m =
     (case dual_rows_loop flt rect src_rows dst_rows border_type (size_wrap (int y_end - 1)) y_begin m of
        (vertical_index, m) \<Rightarrow>
          process_filter2d 3 flt rect vertical_index y_end src_rows dst_rows border_type m)"

section \<open>Pointers into an image\<close>

lemma rows_at_pointer:
  "row_ptr (rows_at r row column)
    = nat (int (size_wrap (int (row_ptr r) + row * int (row_stride r))) + column * int (row_channels r) * int (row_sizeof r))"
  using rows_at_row [of r row] by (simp add: rows_at_def rows_pointer_at_def element_address_def Let_def)

lemma rows_at_image:
  assumes "channel_layout TYPE('a::len) w h ch r" and "y < h" and "x \<le> w"
  shows "row_ptr (rows_at r (int y) (int x)) = image_element TYPE('a) r y (x * ch)"
proof -
  have "size_wrap (int (row_ptr r) + int y * int (row_stride r)) = row_ptr r + y * row_stride r"
    using size_wrap_id [OF row_start_bound(1) [OF assms(1,2)]] by simp
  moreover have "int (row_ptr r + y * row_stride r) + int x * int ch * int (sizeof TYPE('a))
      = int (image_element TYPE('a) r y (x * ch))"
    by (simp add: image_element_def row_address_def)
  ultimately show ?thesis
    unfolding rows_at_pointer channel_layoutD(1,2) [OF assms(1)] by (simp only: nat_int)
qed

lemma rows_at_image_offset:
  assumes lay: "channel_layout TYPE('a::len) w h ch r" and y: "y < h" "t < h" and x: "x \<le> w"
    and off: "int y + row_off = int t" "int x + col_off = int u"
  shows "row_ptr (rows_at (rows_at r (int y) (int x)) row_off col_off) = image_element TYPE('a) r t (u * ch)"
proof -
  let ?p = "image_element TYPE('a) r y (x * ch)" and ?q = "image_element TYPE('a) r t (x * ch)"
  have "int ?p + row_off * int (row_stride r) = int ?q"
  proof -
    have row: "row_off = int t - int y" using off(1) by simp
    show ?thesis unfolding row by (simp add: image_element_def row_address_def algebra_simps)
  qed
  moreover have "?q \<le> size_max"
    using row_start_bound(2) [OF lay y(2)] row_address_mono [of "x * ch" "w * ch", where 'd = 'a] x
    unfolding image_element_def by (meson le_trans mult_le_mono1)
  ultimately have "size_wrap (int ?p + row_off * int (row_stride r)) = ?q"
    using size_wrap_id [of ?q] by simp
  moreover have "int ?q + col_off * int ch * int (sizeof TYPE('a)) = int (image_element TYPE('a) r t (u * ch))"
  proof -
    have col: "col_off = int u - int x" using off(2) by simp
    show ?thesis unfolding col by (simp add: image_element_def row_address_def algebra_simps)
  qed
  ultimately show ?thesis
    unfolding rows_at_pointer [of "rows_at r (int y) (int x)"] rows_at_image [OF lay y(1) x] rows_at_sel
      channel_layoutD(1,2) [OF lay]
    by (simp only: nat_int)
qed

lemma image_element_add:
  "image_element TYPE('a::len) r y e + l * sizeof TYPE('a) = image_element TYPE('a) r y (e + l)"
  by (simp add: image_element_def row_address_def add_mult_distrib)

lemma element_pointer_image:
  assumes "row_sizeof q = sizeof TYPE('a::len)" and "row_ptr q = image_element TYPE('a) r y e"
  shows "element_pointer q i = image_element TYPE('a) r y (e + i)"
  using assms by (simp add: element_pointer_row [where 's = 'a] image_element_add row_address_def)

section \<open>The elements of an image\<close>

definition image_pair :: "'a::len itself \<Rightarrow> nat \<Rightarrow> nat \<Rightarrow> nat \<Rightarrow> Rows \<Rightarrow> Rows \<Rightarrow> bool" where
  "image_pair t w h ch src dst \<longleftrightarrow>
     channel_layout TYPE('a) w h ch src \<and> channel_layout TYPE('a) w h ch dst
     \<and> stride_bytes h src \<inter> stride_bytes h dst = {}"

lemma image_pairD:
  assumes "image_pair TYPE('a::len) w h ch src dst"
  shows "channel_layout TYPE('a) w h ch src" "channel_layout TYPE('a) w h ch dst"
    "stride_bytes h src \<inter> stride_bytes h dst = {}"
  using assms by (simp_all add: image_pair_def)

abbreviation (input) element_of :: "'a::len itself \<Rightarrow> Rows \<Rightarrow> nat \<times> nat \<Rightarrow> nat" where
  "element_of t r \<equiv> (\<lambda>(y, e). image_element TYPE('a) r y e)"

lemma image_element_bytes:
  assumes "channel_layout TYPE('a::len) w h ch r" and "y < h" and "e < w * ch"
  shows "elem_bytes TYPE('a) (image_element TYPE('a) r y e) \<subseteq> stride_bytes h r"
  using row_element_bytes [OF assms(3), where 'a = 'a] row_in_bytes [OF assms(1,2)]
  unfolding image_element_def by blast

lemma image_scattered:
  assumes "image_pair TYPE('a::len) w h ch src dst"
  shows "scattered TYPE('a) (element_of TYPE('a) dst) ({..<h} \<times> {..<w * ch}) (stride_bytes h src)"
  unfolding scattered_def
proof (intro conjI ballI impI)
  note lay = image_pairD [OF assms]
  fix i
  assume "i \<in> {..<h} \<times> {..<w * ch}"
  then obtain y e where i: "i = (y, e)" "y < h" "e < w * ch" by auto
  then show "elem_bytes TYPE('a) (element_of TYPE('a) dst i) \<inter> stride_bytes h src = {}"
    using image_element_bytes [OF lay(2) i(2,3)] lay(3) by auto
  fix j
  assume "j \<in> {..<h} \<times> {..<w * ch}" and ne: "i \<noteq> j"
  then obtain y' e' where j: "j = (y', e')" "y' < h" "e' < w * ch" by auto
  show "elem_bytes TYPE('a) (element_of TYPE('a) dst i) \<inter> elem_bytes TYPE('a) (element_of TYPE('a) dst j) = {}"
  proof (cases "y = y'")
    case True
    with ne i(1) j(1) show ?thesis by (simp add: image_element_def row_elements_apart)
  next
    case False
    then show ?thesis
      using rows_of_image_apart [OF lay(2) False] row_element_bytes [OF i(3), where 'a = 'a]
        row_element_bytes [OF j(3), where 'a = 'a]
      unfolding i(1) j(1) image_element_def prod.case by blast
  qed
qed

lemma load_unchanged:
  assumes "channel_layout TYPE('a::len) w h ch r" and "y < h" and "e < w * ch"
    and "unchanged (stride_bytes h r) m0 m"
  shows "load_elem (image_element TYPE('a) r y e) m = (load_elem (image_element TYPE('a) r y e) m0 :: 'a word)"
  using image_element_bytes [OF assms(1-3)] assms(4) unfolding unchanged_def
  by (intro load_elem_cong) blast

text \<open>Neighbouring elements of a row.\<close>

lemma row_positions: "(\<Union>i < n. {(y, p + i)}) = {y :: nat} \<times> {p..<p + n :: nat}"
proof (intro subset_antisym subsetI)
  fix q
  assume "q \<in> {y} \<times> {p..<p + n}"
  then have "q = (y, p + (snd q - p))" "snd q - p < n" by auto
  then show "q \<in> (\<Union>i < n. {(y, p + i)})" by blast
qed auto

lemma shifted_positions: "(\<lambda>l. f (i + l)) ` {..<n} = (\<Union>k \<in> {i..<i + n :: nat}. {f k})"
proof (intro subset_antisym subsetI)
  fix q
  assume "q \<in> (\<Union>k \<in> {i..<i + n}. {f k})"
  then obtain k where "q = f k" "i \<le> k" "k < i + n" by auto
  then have "q = f (i + (k - i))" "k - i < n" by auto
  then show "q \<in> (\<lambda>l. f (i + l)) ` {..<n}" by blast
qed auto

lemma row_blocks: "(\<Union>k \<in> {i..<i + n}. Y \<times> {p + k..<p + k + 1}) = Y \<times> {p + i..<p + i + n :: nat}"
proof (intro subset_antisym subsetI)
  fix q
  assume "q \<in> Y \<times> {p + i..<p + i + n}"
  then have "fst q \<in> Y" "snd q = p + (snd q - p)" "snd q - p \<in> {i..<i + n}" by auto
  then show "q \<in> (\<Union>k \<in> {i..<i + n}. Y \<times> {p + k..<p + k + 1})"
    by (intro UN_I [of "snd q - p"]) (auto simp: mem_Times_iff)
qed auto

lemma column_positions:
  "(\<Union>x \<in> {a..<b}. Y \<times> {x * ch..<x * ch + ch}) = Y \<times> {a * ch..<b * ch :: nat}"
proof (intro subset_antisym subsetI)
  fix q
  assume "q \<in> (\<Union>x \<in> {a..<b}. Y \<times> {x * ch..<x * ch + ch})"
  then obtain x where x: "fst q \<in> Y" "a \<le> x" "x < b" "x * ch \<le> snd q" "snd q < x * ch + ch" by auto
  have "a * ch \<le> snd q" using order_trans [OF mult_le_mono1 [OF x(2)] x(4)] .
  moreover have "snd q < b * ch" using mult_le_mono1 [of "Suc x" b ch] x(3,5) by simp
  ultimately show "q \<in> Y \<times> {a * ch..<b * ch}" using x(1) by (cases q) simp
next
  fix q
  assume "q \<in> Y \<times> {a * ch..<b * ch}"
  then have q: "fst q \<in> Y" "a * ch \<le> snd q" "snd q < b * ch" by auto
  then have ch: "0 < ch" by (cases ch) simp_all
  then have "a \<le> snd q div ch" "snd q div ch < b"
    using q by (simp_all add: less_eq_div_iff_mult_less_eq less_mult_imp_div_less)
  moreover have "snd q div ch * ch \<le> snd q" "snd q < snd q div ch * ch + ch"
    using div_mult_mod_eq [of "snd q" ch] mod_less_divisor [OF ch, of "snd q"] by linarith+
  ultimately show "q \<in> (\<Union>x \<in> {a..<b}. Y \<times> {x * ch..<x * ch + ch})"
    using q(1) by (intro UN_I [of "snd q div ch"]) (auto simp: mem_Times_iff)
qed

lemma three_spans:
  fixes a b c h :: nat and Y :: "nat set"
  assumes "a \<le> b" and "b \<le> c" and "Y \<subseteq> {..<h}"
  shows "Y \<times> {0..<a} \<subseteq> {..<h} \<times> {..<c}" "Y \<times> {a..<b} \<subseteq> {..<h} \<times> {..<c}"
    "Y \<times> {0..<b} \<subseteq> {..<h} \<times> {..<c}" "Y \<times> {b..<c} \<subseteq> {..<h} \<times> {..<c}"
    "Y \<times> {0..<b} = Y \<times> {0..<a} \<union> Y \<times> {a..<b}" "Y \<times> {..<c} = Y \<times> {0..<b} \<union> Y \<times> {b..<c}"
  using assms by auto

section \<open>The contract of a filter\<close>

text \<open>
  The scalar path depends on the cells of the window only, and the vector path does the same in every
  lane.
\<close>

definition window_of :: "nat \<Rightarrow> FixedBorderType \<Rightarrow> nat \<Rightarrow> nat \<Rightarrow> nat \<Rightarrow> Rows \<Rightarrow> mem \<Rightarrow> nat \<Rightarrow> nat \<Rightarrow> 'a::len word window" where
  "window_of K bt w h ch src m y e =
     (\<lambda>(k, j). load_elem (image_element TYPE('a) src (tap_coordinate K \<lparr> fb_length = h, fb_border_type = bt \<rparr> y k)
        (tap_coordinate K \<lparr> fb_length = w, fb_border_type = bt \<rparr> (e div ch) j * ch + e mod ch)) m)"

locale window_kernel =
  fixes flt :: "('a::len, 'z) window_filter" and K :: nat
  assumes size: "K \<in> {3, 5, 7}" and type: "element_type TYPE('a)"
    and vector_length: "(\<And>p. length (V p) = n) \<Longrightarrow> length (vector_path flt V) = n"
    and vector_lanes: "(\<And>p. length (V p) = n) \<Longrightarrow> l < n \<Longrightarrow>
      vector_path flt V ! l = scalar_path flt (\<lambda>p. V p ! l)"
    and window_cells: "(\<And>r c. r < K \<Longrightarrow> c < K \<Longrightarrow> W (r, c) = W' (r, c)) \<Longrightarrow>
      scalar_path flt W = scalar_path flt W'"
begin

lemma filter_size: "filter_size K" using size by auto

lemma lanes: "0 < num_lanes_of TYPE('a)" "8 dvd LENGTH('a)"
  using type by (simp_all add: element_type_lanes element_type_bytes)

lemma load_window_cell:
  "r < K \<Longrightarrow> c < K \<Longrightarrow> load_window K load src_rows ro co index W (r, c)
    = load (window_pointer src_rows (ro ! r) (co ! c) index)"
  using size by (auto simp: load_window_def load_window_3x3_def load_window_5x5_def load_window_7x7_def)

lemma load_window_length:
  assumes "\<And>p. length (load p) = n" and "\<And>p. length (W p) = n"
  shows "length (load_window K load src_rows ro co index W p) = n"
  using size assms
  by (cases p) (auto simp: load_window_def load_window_3x3_def load_window_5x5_def load_window_7x7_def)

text \<open>The value a destination element gets.\<close>

definition filtered_element :: "FixedBorderType \<Rightarrow> nat \<Rightarrow> nat \<Rightarrow> nat \<Rightarrow> Rows \<Rightarrow> mem \<Rightarrow> nat \<times> nat \<Rightarrow> 'a word" where
  "filtered_element bt w h ch src m = (\<lambda>(y, e). scalar_path flt (window_of K bt w h ch src m y e))"

text \<open>
  Pointers at which \<open>len\<close> elements of row \<open>y\<close> from element \<open>p\<close> on are filtered: the pointers of the
  window lead to the coordinates behind its taps.
\<close>

definition window_pointers ::
    "FixedBorderType \<Rightarrow> nat \<Rightarrow> nat \<Rightarrow> nat \<Rightarrow> Rows \<Rightarrow> Rows \<Rightarrow> Rows \<Rightarrow> int list \<Rightarrow> int list \<Rightarrow> nat \<Rightarrow> nat \<Rightarrow> nat \<Rightarrow> bool" where
  "window_pointers bt w h ch src dst src_rows ro co y p len \<longleftrightarrow>
     row_sizeof src_rows = sizeof TYPE('a)
     \<and> (\<forall>i r c. i < len \<and> r < K \<and> c < K \<longrightarrow> window_pointer src_rows (ro ! r) (co ! c) i
          = image_element TYPE('a) src (tap_coordinate K \<lparr> fb_length = h, fb_border_type = bt \<rparr> y r)
              (tap_coordinate K \<lparr> fb_length = w, fb_border_type = bt \<rparr> ((p + i) div ch) c * ch + (p + i) mod ch))"

lemma window_pointersD:
  assumes "window_pointers bt w h ch src dst src_rows ro co y p len"
  shows "row_sizeof src_rows = sizeof TYPE('a)"
    and "i < len \<Longrightarrow> r < K \<Longrightarrow> c < K \<Longrightarrow> window_pointer src_rows (ro ! r) (co ! c) i
      = image_element TYPE('a) src (tap_coordinate K \<lparr> fb_length = h, fb_border_type = bt \<rparr> y r)
          (tap_coordinate K \<lparr> fb_length = w, fb_border_type = bt \<rparr> ((p + i) div ch) c * ch + (p + i) mod ch)"
  using assms by (simp_all add: window_pointers_def)

lemma window_pointer_lane:
  "row_sizeof src_rows = sizeof TYPE('a) \<Longrightarrow>
    window_pointer src_rows a b i + l * sizeof TYPE('a) = window_pointer src_rows a b (i + l)"
  by (simp add: window_pointer_def element_pointer_row [where 's = 'a] row_address_add)

text \<open>A tap of an element of the image is an element of the image.\<close>

lemma tap_in_image:
  assumes "y < h" and "e < w * ch"
  shows "tap_coordinate K \<lparr> fb_length = h, fb_border_type = bt \<rparr> y r < h"
    and "tap_coordinate K \<lparr> fb_length = w, fb_border_type = bt \<rparr> (e div ch) c * ch + e mod ch < w * ch"
proof -
  have pos: "0 < ch" "0 < w" using assms(2) by (cases ch; cases w; simp)+
  show "tap_coordinate K \<lparr> fb_length = h, fb_border_type = bt \<rparr> y r < h"
    using tap_coordinate_less [of "\<lparr> fb_length = h, fb_border_type = bt \<rparr>"] assms(1) by simp
  show "tap_coordinate K \<lparr> fb_length = w, fb_border_type = bt \<rparr> (e div ch) c * ch + e mod ch < w * ch"
    using pos tap_coordinate_less [of "\<lparr> fb_length = w, fb_border_type = bt \<rparr>"]
    by (intro element_in_row) simp_all
qed

lemma window_scalar:
  assumes lay: "channel_layout TYPE('a) w h ch src" and m: "unchanged (stride_bytes h src) m0 m"
    and ptrs: "window_pointers bt w h ch src dst src_rows ro co y p len"
    and y: "y < h" and i: "i < len" "p + i < w * ch"
  shows "scalar_path flt (load_window K (\<lambda>x. load_elem x m) src_rows ro co i (\<lambda>_. 0))
    = filtered_element bt w h ch src m0 (y, p + i)"
  unfolding filtered_element_def prod.case
  by (rule window_cells)
    (simp add: load_window_cell window_pointersD(2) [OF ptrs i(1)] window_of_def
      load_unchanged [OF lay tap_in_image [OF y i(2)] m])

lemma window_vector:
  assumes lay: "channel_layout TYPE('a) w h ch src" and m: "unchanged (stride_bytes h src) m0 m"
    and ptrs: "window_pointers bt w h ch src dst src_rows ro co y p len"
    and y: "y < h" and i: "i + num_lanes_of TYPE('a) \<le> len" "p + len \<le> w * ch"
  shows "vector_path flt (load_window K (\<lambda>x. vld1q_elems x m) src_rows ro co i
      (\<lambda>_. replicate (num_lanes_of TYPE('a)) 0))
    = map (\<lambda>l. filtered_element bt w h ch src m0 (y, p + (i + l))) [0..<num_lanes_of TYPE('a)]"
proof (rule nth_equalityI)
  let ?n = "num_lanes_of TYPE('a)"
  let ?V = "load_window K (\<lambda>x. vld1q_elems x m :: 'a word list) src_rows ro co i (\<lambda>_. replicate ?n 0)"
  have len: "length (?V q) = ?n" for q by (rule load_window_length) simp_all
  show "length (vector_path flt ?V) = length (map (\<lambda>l. filtered_element bt w h ch src m0 (y, p + (i + l))) [0..<?n])"
    by (simp add: vector_length [OF len])
  fix l
  assume "l < length (vector_path flt ?V)"
  then have l: "l < ?n" by (simp add: vector_length [OF len])
  have "vector_path flt ?V ! l = scalar_path flt (\<lambda>q. ?V q ! l)" by (rule vector_lanes [OF len l])
  also have "\<dots> = scalar_path flt (load_window K (\<lambda>x. load_elem x m) src_rows ro co (i + l) (\<lambda>_. 0))"
    using l by (intro window_cells)
      (simp add: load_window_cell vld1q_elems_def window_pointer_lane [OF window_pointersD(1) [OF ptrs]])
  also have "\<dots> = filtered_element bt w h ch src m0 (y, p + (i + l))"
    using l i by (intro window_scalar [OF lay m ptrs y]) simp_all
  finally show "vector_path flt ?V ! l
      = map (\<lambda>l. filtered_element bt w h ch src m0 (y, p + (i + l))) [0..<?n] ! l"
    using l by simp
qed

section \<open>Pixels and rows\<close>

definition filters ::
    "FixedBorderType \<Rightarrow> nat \<Rightarrow> nat \<Rightarrow> nat \<Rightarrow> Rows \<Rightarrow> Rows \<Rightarrow> mem \<Rightarrow> (nat \<times> nat) set \<Rightarrow> (mem \<Rightarrow> mem) \<Rightarrow> bool" where
  "filters bt w h ch src dst m0 =
     writes (element_of TYPE('a) dst) (stride_bytes h src) m0 (filtered_element bt w h ch src m0)"

lemma element_filters:
  assumes lay: "channel_layout TYPE('a) w h ch src"
    and ptrs: "window_pointers bt w h ch src dst src_rows ro co y p len"
    and dst: "row_sizeof dst_rows = sizeof TYPE('a)" "row_ptr dst_rows = image_element TYPE('a) dst y p"
    and y: "y < h" and i: "i < len" "p + len \<le> w * ch"
  shows "filters bt w h ch src dst m0 {(y, p + i)}
    (process_one_element_with_horizontal_borders K flt src_rows dst_rows ro co i)"
  unfolding filters_def
proof (rule writes_store [OF lanes(2)])
  fix m
  assume "unchanged (stride_bytes h src) m0 m"
  from window_scalar [OF lay this ptrs y i(1)] i
  show "process_one_element_with_horizontal_borders K flt src_rows dst_rows ro co i m
    = store_elem (element_of TYPE('a) dst (y, p + i)) (filtered_element bt w h ch src m0 (y, p + i)) m"
    by (simp add: process_one_element_with_horizontal_borders_def element_pointer_image [OF dst])
qed

lemma pixels_filter:
  assumes pair: "image_pair TYPE('a) w h ch src dst"
    and ptrs: "window_pointers bt w h ch src dst src_rows ro co y p len" and len: "len = width * row_channels src_rows"
    and dst: "row_sizeof dst_rows = sizeof TYPE('a)" "row_ptr dst_rows = image_element TYPE('a) dst y p"
    and y: "y < h" and p: "p + len \<le> w * ch"
  shows "filters bt w h ch src dst m0 ({y} \<times> {p..<p + len})
    (process_pixels_without_horizontal_borders K flt width src_rows dst_rows ro co)"
proof -
  note lay = image_pairD(1) [OF pair]
  let ?n = "num_lanes_of TYPE('a)"
  have "filters bt w h ch src dst m0 (\<Union>i < len. {(y, p + i)})
    (process_pixels_without_horizontal_borders K flt width src_rows dst_rows ro co)"
    unfolding filters_def process_pixels_without_horizontal_borders_def len [symmetric]
  proof (rule writes_overlapping_loop [OF image_scattered [OF pair] _ lanes(1)])
    fix i
    assume i: "i + ?n \<le> len"
    have "writes (element_of TYPE('a) dst) (stride_bytes h src) m0 (filtered_element bt w h ch src m0)
      ((\<lambda>l. (y, p + (i + l))) ` {..<?n}) (vector_step K flt src_rows dst_rows ro co i)"
    proof (rule writes_vector [OF lanes(2) image_scattered [OF pair]])
      fix m
      assume "unchanged (stride_bytes h src) m0 m"
      from window_vector [OF lay this ptrs y i p]
      show "vector_step K flt src_rows dst_rows ro co i m
        = vst1q_elems (image_element TYPE('a) dst y (p + i))
            (map (\<lambda>l. filtered_element bt w h ch src m0 (y, p + (i + l))) [0..<?n]) m"
        by (simp add: vector_step_def element_pointer_image [OF dst])
    qed (use y p i in \<open>auto simp: image_element_add add.assoc\<close>)
    then show "writes (element_of TYPE('a) dst) (stride_bytes h src) m0 (filtered_element bt w h ch src m0)
      (\<Union>k \<in> {i..<i + ?n}. {(y, p + k)}) (vector_step K flt src_rows dst_rows ro co i)"
      by (simp only: shifted_positions [of "\<lambda>k. (y, p + k)"])
  next
    fix i
    assume i: "i < len"
    show "writes (element_of TYPE('a) dst) (stride_bytes h src) m0 (filtered_element bt w h ch src m0)
      {(y, p + i)} (process_one_element_with_horizontal_borders K flt src_rows dst_rows ro co i)"
      using element_filters [OF lay ptrs dst y i p] by (simp add: filters_def)
    show "{(y, p + i)} \<subseteq> {..<h} \<times> {..<w * ch}" using i p y by simp
  qed
  then show ?thesis by (simp only: row_positions)
qed

lemma pixel_filters:
  assumes pair: "image_pair TYPE('a) w h ch src dst"
    and ptrs: "window_pointers bt w h ch src dst src_rows ro co y p ch" and ch: "row_channels src_rows = ch"
    and dst: "row_sizeof dst_rows = sizeof TYPE('a)" "row_ptr dst_rows = image_element TYPE('a) dst y p"
    and y: "y < h" and p: "p + ch \<le> w * ch"
  shows "filters bt w h ch src dst m0 ({y} \<times> {p..<p + ch})
    (process_one_pixel_with_horizontal_borders K flt src_rows dst_rows ro co)"
proof -
  have "filters bt w h ch src dst m0 (\<Union>i \<in> set [0..<ch]. {(y, p + i)})
    (process_one_pixel_with_horizontal_borders K flt src_rows dst_rows ro co)"
    unfolding process_one_pixel_with_horizontal_borders_def ch filters_def
  proof (rule writes_fold [OF image_scattered [OF pair]])
    fix i
    assume "i \<in> set [0..<ch]"
    then have i: "i < ch" by simp
    then show "writes (element_of TYPE('a) dst) (stride_bytes h src) m0 (filtered_element bt w h ch src m0)
      {(y, p + i)} (process_one_element_with_horizontal_borders K flt src_rows dst_rows ro co i)"
      using element_filters [OF image_pairD(1) [OF pair] ptrs dst y i p] by (simp add: filters_def)
    show "{(y, p + i)} \<subseteq> {..<h} \<times> {..<w * ch}" using i p y by simp
  qed
  then show ?thesis using row_positions [of y p ch] by (simp add: atLeast0LessThan)
qed

text \<open>The pointers of a border column and of the columns between the borders.\<close>

lemma column_pointers:
  assumes lay: "channel_layout TYPE('a) w h ch src" and y: "b < h" "y < h" and x: "x < w"
    and ro: "\<And>r. r < K \<Longrightarrow> int b + ro ! r = int (tap_coordinate K \<lparr> fb_length = h, fb_border_type = bt \<rparr> y r)"
    and co: "\<And>c. c < K \<Longrightarrow> int x + co ! c = int (tap_coordinate K \<lparr> fb_length = w, fb_border_type = bt \<rparr> x c)"
  shows "window_pointers bt w h ch src dst (rows_at src (int b) (int x))
    ro co y (x * ch) ch"
  unfolding window_pointers_def
proof (intro conjI allI impI)
  let ?v = "\<lparr> fb_length = h, fb_border_type = bt \<rparr>" and ?h = "\<lparr> fb_length = w, fb_border_type = bt \<rparr>"
  show "row_sizeof (rows_at src (int b) (int x)) = sizeof TYPE('a)" using channel_layoutD(1) [OF lay] by simp
  fix i r c
  assume i: "i < ch \<and> r < K \<and> c < K"
  have t: "tap_coordinate K ?v y r < h" using tap_coordinate_less [of ?v] y(2) by simp
  have "window_pointer (rows_at src (int b) (int x)) (ro ! r) (co ! c) i
      = image_element TYPE('a) src (tap_coordinate K ?v y r) (tap_coordinate K ?h x c * ch + i)"
    unfolding window_pointer_def using channel_layoutD(1) [OF lay] x i
    by (intro element_pointer_image rows_at_image_offset [OF lay y(1) t _ ro co]) simp_all
  moreover have "(x * ch + i) div ch = x" "(x * ch + i) mod ch = i" using i by simp_all
  ultimately show "window_pointer (rows_at src (int b) (int x)) (ro ! r) (co ! c) i
      = image_element TYPE('a) src (tap_coordinate K ?v y r)
          (tap_coordinate K ?h ((x * ch + i) div ch) c * ch + (x * ch + i) mod ch)" by simp
qed

lemma middle_pointers:
  assumes lay: "channel_layout TYPE('a) w h ch src" and y: "b < h" "y < h" and w: "K - 1 \<le> w"
    and ro: "\<And>r. r < K \<Longrightarrow> int b + ro ! r = int (tap_coordinate K \<lparr> fb_length = h, fb_border_type = bt \<rparr> y r)"
  shows "window_pointers bt w h ch src dst (rows_at src (int b) (int (K div 2)))
    ro (offsets_without_border K) y (K div 2 * ch)
    ((w - 2 * (K div 2)) * ch)"
  unfolding window_pointers_def
proof (intro conjI allI impI)
  let ?v = "\<lparr> fb_length = h, fb_border_type = bt \<rparr>" and ?h = "\<lparr> fb_length = w, fb_border_type = bt \<rparr>"
  let ?m = "K div 2"
  show "row_sizeof (rows_at src (int b) (int ?m)) = sizeof TYPE('a)" using channel_layoutD(1) [OF lay] by simp
  fix i r c
  assume i: "i < (w - 2 * ?m) * ch \<and> r < K \<and> c < K"
  have m: "K = 2 * ?m + 1" by (rule filter_size_odd [OF filter_size])
  have ch: "0 < ch" using i by (cases ch) simp_all
  have x: "i div ch < w - 2 * ?m" using i ch by (simp add: less_mult_imp_div_less)
  have t: "tap_coordinate K ?v y r < h" using tap_coordinate_less [of ?v] y(2) by simp
  have co: "offsets_without_border K ! c = int c - int ?m"
    using i nth_taps by (simp add: offsets_without_border_taps [OF filter_size])
  have "int (?m + i div ch) + offsets_without_border K ! c = int (tap_coordinate K ?h (?m + i div ch) c)"
    using x i by (intro without_border_coordinate [OF filter_size]) simp_all
  then have tap: "tap_coordinate K ?h (?m + i div ch) c = i div ch + c" by (simp add: co)
  have "window_pointer (rows_at src (int b) (int ?m)) (ro ! r) (offsets_without_border K ! c) i
      = image_element TYPE('a) src (tap_coordinate K ?v y r) (c * ch + i)"
    unfolding window_pointer_def using channel_layoutD(1) [OF lay] m w co i
    by (intro element_pointer_image rows_at_image_offset [OF lay y(1) t _ ro]) simp_all
  moreover have "(?m * ch + i) div ch = ?m + i div ch" "(?m * ch + i) mod ch = i mod ch" using ch by simp_all
  moreover have "(i div ch + c) * ch + i mod ch = c * ch + i"
    by (simp add: distrib_right)
  ultimately show "window_pointer (rows_at src (int b) (int ?m)) (ro ! r)
        (offsets_without_border K ! c) i
      = image_element TYPE('a) src (tap_coordinate K ?v y r)
          (tap_coordinate K ?h ((?m * ch + i) div ch) c * ch + (?m * ch + i) mod ch)"
    by (simp only: tap)
qed

lemma filters_comp:
  assumes "image_pair TYPE('a) w h ch src dst" and "E \<subseteq> {..<h} \<times> {..<w * ch}" "F \<subseteq> {..<h} \<times> {..<w * ch}"
    and "filters bt w h ch src dst m0 E f" "filters bt w h ch src dst m0 F g" and "G = E \<union> F"
  shows "filters bt w h ch src dst m0 G (\<lambda>m. g (f m))"
  using assms writes_comp [OF image_scattered [OF assms(1)]] by (simp add: filters_def)

lemma filters_fold:
  assumes "image_pair TYPE('a) w h ch src dst"
    and "\<And>k. k \<in> set ks \<Longrightarrow> E k \<subseteq> {..<h} \<times> {..<w * ch} \<and> filters bt w h ch src dst m0 (E k) (X k)"
    and "G = (\<Union>k \<in> set ks. E k)"
  shows "filters bt w h ch src dst m0 G (fold X ks)"
  using assms writes_fold [OF image_scattered [OF assms(1)], of ks E m0] by (simp add: filters_def)

text \<open>
  The rows \<open>Y\<close> are filtered when the pixels of the left border, the elements between the borders and
  the pixels of the right border are.
\<close>

lemma columns_filter:
  assumes pair: "image_pair TYPE('a) w h ch src dst" and Y: "Y \<subseteq> {..<h}" and b: "b \<le> w"
    and X: "\<And>x. a \<le> x \<Longrightarrow> x < b \<Longrightarrow> filters bt w h ch src dst m0 (Y \<times> {x * ch..<x * ch + ch}) (X x)"
    and xs: "set (map f ks) = {a..<b}"
  shows "filters bt w h ch src dst m0 (Y \<times> {a * ch..<b * ch}) (fold (\<lambda>k. X (f k)) ks)"
proof -
  have "filters bt w h ch src dst m0 (Y \<times> {a * ch..<b * ch}) (fold X (map f ks))"
  proof (rule filters_fold [OF pair])
    show "Y \<times> {a * ch..<b * ch} = (\<Union>x \<in> set (map f ks). Y \<times> {x * ch..<x * ch + ch})"
      unfolding xs column_positions ..
    fix x
    assume "x \<in> set (map f ks)"
    then have x: "a \<le> x" "x < b" "x < w" using b unfolding xs by auto
    have "x * ch + ch \<le> w * ch" using mult_le_mono1 [of "Suc x" w ch] x(3) by simp
    with Y X [OF x(1,2)] show "Y \<times> {x * ch..<x * ch + ch} \<subseteq> {..<h} \<times> {..<w * ch}
      \<and> filters bt w h ch src dst m0 (Y \<times> {x * ch..<x * ch + ch}) (X x)" by auto
  qed
  then show ?thesis by (simp add: fold_map comp_def)
qed

lemma parts_filter:
  assumes pair: "image_pair TYPE('a) w h ch src dst" and Y: "Y \<subseteq> {..<h}" and w: "2 * p \<le> w" "w \<le> size_max"
    and L: "\<And>x. x < p \<Longrightarrow> filters bt w h ch src dst m0 (Y \<times> {x * ch..<x * ch + ch}) (L x)"
    and M: "filters bt w h ch src dst m0 (Y \<times> {p * ch..<p * ch + (w - 2 * p) * ch}) M"
    and R: "\<And>x. w - p \<le> x \<Longrightarrow> x < w \<Longrightarrow> filters bt w h ch src dst m0 (Y \<times> {x * ch..<x * ch + ch}) (R x)"
  shows "filters bt w h ch src dst m0 (Y \<times> {..<w * ch})
    (\<lambda>m. fold (\<lambda>x. R (size_wrap (int w - int p + int x))) [0..<p] (M (fold L [0..<p] m)))"
proof -
  have right_index: "size_wrap (int w - int p + int x) = w - p + x" if "x < p" for x
  proof -
    have "int w - int p + int x = int (w - p + x)" "w - p + x \<le> size_max" using that w by simp_all
    then show ?thesis by (simp only: size_wrap_id)
  qed
  have left: "filters bt w h ch src dst m0 (Y \<times> {0 * ch..<p * ch}) (fold L [0..<p])"
    using w L by (intro columns_filter [OF pair Y, where f = "\<lambda>x. x"]) auto
  have "p + (w - 2 * p) = w - p" using w(1) by simp
  then have middle: "filters bt w h ch src dst m0 (Y \<times> {p * ch..<(w - p) * ch}) M"
    using M by (simp flip: add_mult_distrib)
  have right: "filters bt w h ch src dst m0 (Y \<times> {(w - p) * ch..<w * ch})
    (fold (\<lambda>x. R (size_wrap (int w - int p + int x))) [0..<p])"
  proof (rule columns_filter [OF pair Y order_refl R])
    have "map (\<lambda>x. size_wrap (int w - int p + int x)) [0..<p] = [w - p..<w - p + p]"
      by (rule nth_equalityI) (simp_all add: right_index)
    then show "set (map (\<lambda>x. size_wrap (int w - int p + int x)) [0..<p]) = {w - p..<w}"
      using w by (simp only: set_upt) simp
  qed
  have "p * ch \<le> (w - p) * ch" "(w - p) * ch \<le> w * ch" using w by (intro mult_le_mono1; simp)+
  note spans = three_spans [OF this Y]
  show ?thesis
    by (rule filters_comp [OF pair spans(3,4)
      filters_comp [OF pair spans(1,2) left [unfolded mult_0] middle spans(5)] right spans(6)])
qed

lemma inner_width: "2 * p \<le> w \<Longrightarrow> w \<le> size_max \<Longrightarrow> size_wrap (int w - 2 * int p) = w - 2 * p"
  using size_wrap_id [of "w - 2 * p"] by (simp add: of_nat_diff)

lemma inner_end: "2 * p \<le> w \<Longrightarrow> p * ch + (w - 2 * p) * ch \<le> w * (ch :: nat)"
proof -
  assume "2 * p \<le> w"
  then have "(p + (w - 2 * p)) * ch \<le> w * ch" by (intro mult_le_mono1) simp
  then show ?thesis by (simp only: add_mult_distrib)
qed

lemma row_offsets:
  assumes "y < h" and "K - 1 \<le> h" "h \<le> size_max" and "r < K"
  shows "int y + offsets_with_border K \<lparr> fb_length = h, fb_border_type = bt \<rparr> y ! r
    = int (tap_coordinate K \<lparr> fb_length = h, fb_border_type = bt \<rparr> y r)"
  using assms by (intro with_border_coordinate [OF filter_size]) simp_all

lemma column_filters:
  assumes pair: "image_pair TYPE('a) w h ch src dst" and y: "y < h" and x: "x < w" and h: "K - 1 \<le> h" "h \<le> size_max"
    and co: "\<And>c. c < K \<Longrightarrow> int x + co ! c = int (tap_coordinate K \<lparr> fb_length = w, fb_border_type = bt \<rparr> x c)"
  shows "filters bt w h ch src dst m0 ({y} \<times> {x * ch..<x * ch + ch})
    (process_one_pixel_with_horizontal_borders K flt (rows_at src (int y) (int x)) (rows_at dst (int y) (int x))
       (offsets_with_border K \<lparr> fb_length = h, fb_border_type = bt \<rparr> y) co)"
proof -
  note lay = image_pairD [OF pair]
  have "x * ch + ch \<le> w * ch" using mult_le_mono1 [of "Suc x" w ch] x by simp
  then show ?thesis
    using channel_layoutD(2) [OF lay(1)] channel_layoutD(1) [OF lay(2)] rows_at_image [OF lay(2) y] x
    by (intro pixel_filters [OF pair column_pointers [OF lay(1) y y x row_offsets [OF y h] co]] y) simp_all
qed

lemma row_filters:
  assumes pair: "image_pair TYPE('a) w h ch src dst" and y: "y < h"
    and dims: "K - 1 \<le> w" "K - 1 \<le> h" "w \<le> size_max" "h \<le> size_max"
  shows "filters bt w h ch src dst m0 ({y} \<times> {..<w * ch})
    (process_filter2d_row K flt \<lparr> rectangle_width = w, rectangle_height = h \<rparr> src dst bt y)"
proof -
  note lay = image_pairD [OF pair]
  have w: "2 * (K div 2) \<le> w" using filter_size_odd [OF filter_size] dims(1) by simp
  show ?thesis
    unfolding process_filter2d_row_def [abs_def] Let_def Rectangle.simps inner_width [OF w dims(3)]
    using y w dims(3) channel_layoutD(2) [OF lay(1)] channel_layoutD(1) [OF lay(2)] rows_at_image [OF lay(2) y]
      inner_end [OF w]
      left_border_coordinate [OF filter_size, of "\<lparr> fb_length = w, fb_border_type = bt \<rparr>"]
      right_border_coordinate [OF filter_size, of "\<lparr> fb_length = w, fb_border_type = bt \<rparr>"] dims
    by (intro parts_filter [OF pair] column_filters [OF pair]
        pixels_filter [OF pair middle_pointers [OF lay(1) y y dims(1) row_offsets [OF y dims(2,4)]]]) auto
qed

lemma rows_filter:
  assumes "image_pair TYPE('a) w h ch src dst" and "y_end \<le> h"
    and "K - 1 \<le> w" "K - 1 \<le> h" "w \<le> size_max" "h \<le> size_max"
  shows "filters bt w h ch src dst m0 ({y_begin..<y_end} \<times> {..<w * ch})
    (process_filter2d K flt \<lparr> rectangle_width = w, rectangle_height = h \<rparr> y_begin y_end src dst bt)"
  unfolding process_filter2d_def
  using assms by (intro filters_fold [OF assms(1), where E = "\<lambda>y. {y} \<times> {..<w * ch}"])
    (auto intro!: row_filters)

end

section \<open>Two rows at a time\<close>

text \<open>
  A filter that takes the windows of two rows from one window makes of it what the filter for one row
  makes of the upper and of the lower part.
\<close>

definition lower_window :: "'v window \<Rightarrow> 'v window" where
  "lower_window W = (\<lambda>(r, c). W (r + 1, c))"

locale dual_window_kernel = window_kernel flt 3 for flt :: "'a::len dual_window_filter" +
  assumes dual_scalar: "scalar_path_for_dual_row_handling flt W = (scalar_path flt W, scalar_path flt (lower_window W))"
    and dual_vector: "(\<And>p. length (V p) = n) \<Longrightarrow>
      vector_path_for_dual_row_handling flt V = (vector_path flt V, vector_path flt (lower_window V))"
begin

text \<open>The offsets of the rows of the lower window.\<close>

definition lower_offsets :: "int list \<Rightarrow> int list \<Rightarrow> int list" where
  "lower_offsets ro ro' = [ro ! 1, ro ! 2, ro' ! 2 + 1]"

lemma dual_load_cells:
  assumes "r < 3" and "c < 3"
  shows "load_window_to_handle_dual_rows load src_rows ro ro' co i W (r, c) = load_window 3 load src_rows ro co i W (r, c)"
    and "lower_window (load_window_to_handle_dual_rows load src_rows ro ro' co i W) (r, c)
      = load_window 3 load src_rows (lower_offsets ro ro') co i W (r, c)"
proof -
  have "r = 0 \<or> r = 1 \<or> r = 2" using assms(1) by auto
  with assms(2) show "load_window_to_handle_dual_rows load src_rows ro ro' co i W (r, c) = load_window 3 load src_rows ro co i W (r, c)"
    and "lower_window (load_window_to_handle_dual_rows load src_rows ro ro' co i W) (r, c)
      = load_window 3 load src_rows (lower_offsets ro ro') co i W (r, c)"
    by (auto simp: load_window_to_handle_dual_rows_def lower_window_def load_window_def load_window_3x3_def
        lower_offsets_def numeral_2_eq_2)
qed

lemma lower_window_nth: "(\<lambda>p. lower_window V p ! l) = lower_window (\<lambda>p. V p ! l)"
  by (auto simp: lower_window_def)

lemma vector_cells:
  assumes "\<And>p. length (V p) = n" and "\<And>p. length (V' p) = n" and "\<And>r c. r < 3 \<Longrightarrow> c < 3 \<Longrightarrow> V (r, c) = V' (r, c)"
  shows "vector_path flt V = vector_path flt V'"
proof (rule nth_equalityI)
  fix l
  assume "l < length (vector_path flt V)"
  then have "l < n" by (simp add: vector_length [OF assms(1)])
  then show "vector_path flt V ! l = vector_path flt V' ! l"
    using assms(3) by (simp add: vector_lanes [OF assms(1)] vector_lanes [OF assms(2)] cong: window_cells)
qed (simp add: vector_length [OF assms(1)] vector_length [OF assms(2)])

lemma dual_load_length:
  assumes "\<And>p. length (load p) = n" and "\<And>p. length (W p) = n"
  shows "length (load_window_to_handle_dual_rows load src_rows ro ro' co i W p) = n"
  using assms by (cases p) (simp add: load_window_to_handle_dual_rows_def load_window_3x3_def)

lemma dual_scalar_loaded:
  "scalar_path_for_dual_row_handling flt (load_window_to_handle_dual_rows load src_rows ro ro' co i W)
    = (scalar_path flt (load_window 3 load src_rows ro co i W),
       scalar_path flt (load_window 3 load src_rows (lower_offsets ro ro') co i W))"
  unfolding dual_scalar using dual_load_cells by (auto intro!: window_cells)

lemma dual_vector_loaded:
  assumes "\<And>p. length (load p) = n" and "\<And>p. length (W p) = n"
  shows "vector_path_for_dual_row_handling flt (load_window_to_handle_dual_rows load src_rows ro ro' co i W)
    = (vector_path flt (load_window 3 load src_rows ro co i W),
       vector_path flt (load_window 3 load src_rows (lower_offsets ro ro') co i W))"
proof -
  let ?V = "load_window_to_handle_dual_rows load src_rows ro ro' co i W"
  have "length (?V p) = n" for p by (rule dual_load_length) (rule assms)+
  moreover from this have "length (lower_window ?V p) = n" for p by (cases p) (simp add: lower_window_def)
  moreover have "length (load_window 3 load src_rows offs co i W p) = n" for offs p
    by (rule load_window_length) (rule assms)+
  ultimately show ?thesis
    unfolding dual_vector [OF dual_load_length [OF assms]] prod.inject using dual_load_cells
    by (intro conjI vector_cells [where n = n]) auto
qed

text \<open>Elements of both rows, each computed before either is stored.\<close>

lemma stored_vector_filters:
  assumes pair: "image_pair TYPE('a) w h ch src dst" and y: "y < h" and p: "p + n \<le> w * ch"
  shows "filters bt w h ch src dst m0 ({y} \<times> {p..<p + n})
    (vst1q_elems (image_element TYPE('a) dst y p) (map (\<lambda>l. filtered_element bt w h ch src m0 (y, p + l)) [0..<n]))"
proof -
  have "writes (element_of TYPE('a) dst) (stride_bytes h src) m0 (filtered_element bt w h ch src m0)
    ((\<lambda>l. (y, p + l)) ` {..<n})
    (vst1q_elems (image_element TYPE('a) dst y p) (map (\<lambda>l. filtered_element bt w h ch src m0 (y, p + l)) [0..<n]))"
    using y p by (intro writes_vector [OF lanes(2) image_scattered [OF pair]]) (auto simp: image_element_add)
  moreover have "(\<lambda>l. (y, p + l)) ` {..<n} = {y} \<times> {p..<p + n}"
    using row_positions [of y p n] by (simp add: UNION_singleton_eq_range)
  ultimately show ?thesis by (simp add: filters_def)
qed

lemma dual_positions:
  fixes y h p q c :: nat
  shows "y + 1 < h \<Longrightarrow> q \<le> c \<Longrightarrow> {y} \<times> {p..<q} \<subseteq> {..<h} \<times> {..<c :: nat}"
  "y + 1 < h \<Longrightarrow> q \<le> c \<Longrightarrow> {y + 1} \<times> {p..<q} \<subseteq> {..<h} \<times> {..<c :: nat}"
  "{y, y + 1} \<times> {p..<q} = {y} \<times> {p..<q} \<union> {y + 1} \<times> {p..<q}"
  using add_lessD1 [of y 1 h] by auto

lemma two_stores_filter:
  assumes pair: "image_pair TYPE('a) w h ch src dst" and y: "y + 1 < h" and p: "p + n \<le> w * ch"
  shows "filters bt w h ch src dst m0 ({y, y + 1} \<times> {p..<p + n})
    (\<lambda>m. vst1q_elems (image_element TYPE('a) dst (y + 1) p)
        (map (\<lambda>l. filtered_element bt w h ch src m0 (y + 1, p + l)) [0..<n])
      (vst1q_elems (image_element TYPE('a) dst y p) (map (\<lambda>l. filtered_element bt w h ch src m0 (y, p + l)) [0..<n]) m))"
  by (rule filters_comp [OF pair dual_positions(1,2) [OF y p] stored_vector_filters [OF pair add_lessD1 [OF y] p]
        stored_vector_filters [OF pair y p] dual_positions(3)])

lemma dual_pointers:
  assumes "row_sizeof dst_rows = sizeof TYPE('a)" and "row_ptr (rows_at dst_rows 0 0) = image_element TYPE('a) dst y p"
    and "row_ptr (rows_at dst_rows 1 0) = image_element TYPE('a) dst (y + 1) p"
  shows "element_pointer (rows_at dst_rows 0 0) i = image_element TYPE('a) dst y (p + i)"
    and "element_pointer (rows_at dst_rows 1 0) i = image_element TYPE('a) dst (y + 1) (p + i)"
  using assms by (intro element_pointer_image; simp)+

lemma two_elements_filter:
  assumes pair: "image_pair TYPE('a) w h ch src dst"
    and ptrs: "window_pointers bt w h ch src dst src_rows ro co y p len"
      "window_pointers bt w h ch src dst src_rows (lower_offsets ro ro') co (y + 1) p len"
    and dst: "row_sizeof dst_rows = sizeof TYPE('a)" "row_ptr (rows_at dst_rows 0 0) = image_element TYPE('a) dst y p"
      "row_ptr (rows_at dst_rows 1 0) = image_element TYPE('a) dst (y + 1) p"
    and y: "y + 1 < h" and i: "i < len" "p + len \<le> w * ch"
  shows "filters bt w h ch src dst m0 ({y, y + 1} \<times> {p + i..<p + i + 1})
    (process_two_element_vertically_with_or_without_horizontal_borders flt src_rows dst_rows ro ro' co i)"
proof -
  note lay = image_pairD(1) [OF pair]
  have bound: "p + i + 1 \<le> w * ch" using i by simp
  show ?thesis
    unfolding filters_def
  proof (rule writes_cong [OF two_stores_filter [OF pair y bound, unfolded filters_def]])
    fix m
    assume m: "unchanged (stride_bytes h src) m0 m"
    have "scalar_path flt (load_window 3 (\<lambda>x. load_elem x m) src_rows ro co i (\<lambda>_. 0))
        = filtered_element bt w h ch src m0 (y, p + i)"
      "scalar_path flt (load_window 3 (\<lambda>x. load_elem x m) src_rows (lower_offsets ro ro') co i (\<lambda>_. 0))
        = filtered_element bt w h ch src m0 (y + 1, p + i)"
      using window_scalar [OF lay m ptrs(1) _ i(1)] window_scalar [OF lay m ptrs(2) y i(1)] y i by simp_all
    then show "process_two_element_vertically_with_or_without_horizontal_borders flt src_rows dst_rows ro ro' co i m
      = vst1q_elems (image_element TYPE('a) dst (y + 1) (p + i))
          (map (\<lambda>l. filtered_element bt w h ch src m0 (y + 1, p + i + l)) [0..<1])
        (vst1q_elems (image_element TYPE('a) dst y (p + i))
          (map (\<lambda>l. filtered_element bt w h ch src m0 (y, p + i + l)) [0..<1]) m)"
      using dual_pointers [OF dst]
      by (simp add: process_two_element_vertically_with_or_without_horizontal_borders_def dual_scalar_loaded
          vst1q_elems_def)
  qed
qed

lemma dual_vector_filters:
  assumes pair: "image_pair TYPE('a) w h ch src dst"
    and ptrs: "window_pointers bt w h ch src dst src_rows ro co y p len"
      "window_pointers bt w h ch src dst src_rows (lower_offsets ro ro') co (y + 1) p len"
    and dst: "row_sizeof dst_rows = sizeof TYPE('a)" "row_ptr (rows_at dst_rows 0 0) = image_element TYPE('a) dst y p"
      "row_ptr (rows_at dst_rows 1 0) = image_element TYPE('a) dst (y + 1) p"
    and y: "y + 1 < h" and i: "i + num_lanes_of TYPE('a) \<le> len" "p + len \<le> w * ch"
  shows "filters bt w h ch src dst m0 ({y, y + 1} \<times> {p + i..<p + i + num_lanes_of TYPE('a)})
    (dual_vector_step flt src_rows dst_rows ro ro' co i)"
proof -
  note lay = image_pairD(1) [OF pair]
  let ?n = "num_lanes_of TYPE('a)"
  have bound: "p + i + ?n \<le> w * ch" using i by simp
  show ?thesis
    unfolding filters_def
  proof (rule writes_cong [OF two_stores_filter [OF pair y bound, unfolded filters_def]])
    fix m
    assume m: "unchanged (stride_bytes h src) m0 m"
    have vectors: "vector_path flt (load_window 3 (\<lambda>x. vld1q_elems x m) src_rows ro co i (\<lambda>_. replicate ?n 0))
        = map (\<lambda>l. filtered_element bt w h ch src m0 (y, p + (i + l))) [0..<?n]"
      "vector_path flt (load_window 3 (\<lambda>x. vld1q_elems x m) src_rows (lower_offsets ro ro') co i (\<lambda>_. replicate ?n 0))
        = map (\<lambda>l. filtered_element bt w h ch src m0 (y + 1, p + (i + l))) [0..<?n]"
      using window_vector [OF lay m ptrs(1) _ i] window_vector [OF lay m ptrs(2) y i] y by simp_all
    have "vector_path_for_dual_row_handling flt (load_window_to_handle_dual_rows (\<lambda>x. vld1q_elems x m) src_rows ro ro'
        co i (\<lambda>_. replicate ?n 0))
      = (map (\<lambda>l. filtered_element bt w h ch src m0 (y, p + (i + l))) [0..<?n],
         map (\<lambda>l. filtered_element bt w h ch src m0 (y + 1, p + (i + l))) [0..<?n])"
      unfolding vectors [symmetric] by (rule dual_vector_loaded) simp_all
    then show "dual_vector_step flt src_rows dst_rows ro ro' co i m
      = vst1q_elems (image_element TYPE('a) dst (y + 1) (p + i))
          (map (\<lambda>l. filtered_element bt w h ch src m0 (y + 1, p + i + l)) [0..<?n])
        (vst1q_elems (image_element TYPE('a) dst y (p + i))
          (map (\<lambda>l. filtered_element bt w h ch src m0 (y, p + i + l)) [0..<?n]) m)"
      using dual_pointers [OF dst]
      by (simp add: dual_vector_step_def add.assoc)
  qed
qed

lemma dual_pixels_filter:
  assumes pair: "image_pair TYPE('a) w h ch src dst"
    and ptrs: "window_pointers bt w h ch src dst src_rows ro co y p len"
      "window_pointers bt w h ch src dst src_rows (lower_offsets ro ro') co (y + 1) p len"
    and len: "len = width * row_channels src_rows"
    and dst: "row_sizeof dst_rows = sizeof TYPE('a)" "row_ptr (rows_at dst_rows 0 0) = image_element TYPE('a) dst y p"
      "row_ptr (rows_at dst_rows 1 0) = image_element TYPE('a) dst (y + 1) p"
    and y: "y + 1 < h" and p: "p + len \<le> w * ch"
  shows "filters bt w h ch src dst m0 ({y, y + 1} \<times> {p..<p + len})
    (process_pixels_of_dual_rows_without_horizontal_borders flt width src_rows dst_rows ro ro' co)"
proof -
  have "filters bt w h ch src dst m0 (\<Union>i < len. {y, y + 1} \<times> {p + i..<p + i + 1})
    (process_pixels_of_dual_rows_without_horizontal_borders flt width src_rows dst_rows ro ro' co)"
    unfolding filters_def process_pixels_of_dual_rows_without_horizontal_borders_def len [symmetric]
  proof (rule writes_overlapping_loop [OF image_scattered [OF pair] _ lanes(1)])
    fix i
    assume i: "i < len"
    then show "{y, y + 1} \<times> {p + i..<p + i + 1} \<subseteq> {..<h} \<times> {..<w * ch}"
      using dual_positions(1,2) [OF y, of "p + i + 1" "w * ch" "p + i"] p unfolding dual_positions(3) by simp
    show "writes (element_of TYPE('a) dst) (stride_bytes h src) m0 (filtered_element bt w h ch src m0)
      ({y, y + 1} \<times> {p + i..<p + i + 1})
      (process_two_element_vertically_with_or_without_horizontal_borders flt src_rows dst_rows ro ro' co i)"
      using two_elements_filter [OF pair ptrs dst y i p] by (simp add: filters_def)
  next
    fix i
    assume i: "i + num_lanes_of TYPE('a) \<le> len"
    have "(\<Union>k \<in> {i..<i + num_lanes_of TYPE('a)}. {y, y + 1} \<times> {p + k..<p + k + 1})
        = {y, y + 1} \<times> {p + i..<p + i + num_lanes_of TYPE('a)}"
      using row_blocks [of "{y, y + 1}" p i "num_lanes_of TYPE('a)"] .
    then show "writes (element_of TYPE('a) dst) (stride_bytes h src) m0 (filtered_element bt w h ch src m0)
      (\<Union>k \<in> {i..<i + num_lanes_of TYPE('a)}. {y, y + 1} \<times> {p + k..<p + k + 1})
      (dual_vector_step flt src_rows dst_rows ro ro' co i)"
      using dual_vector_filters [OF pair ptrs dst y i p] by (simp only: filters_def)
  qed
  then show ?thesis
    using row_blocks [of "{y, y + 1}" p 0 len] by (simp only: add_0 add_0_right atLeast0LessThan)
qed

lemma dual_pixel_filters:
  assumes pair: "image_pair TYPE('a) w h ch src dst"
    and ptrs: "window_pointers bt w h ch src dst src_rows ro co y p ch"
      "window_pointers bt w h ch src dst src_rows (lower_offsets ro ro') co (y + 1) p ch"
    and ch: "row_channels src_rows = ch"
    and dst: "row_sizeof dst_rows = sizeof TYPE('a)" "row_ptr (rows_at dst_rows 0 0) = image_element TYPE('a) dst y p"
      "row_ptr (rows_at dst_rows 1 0) = image_element TYPE('a) dst (y + 1) p"
    and y: "y + 1 < h" and p: "p + ch \<le> w * ch"
  shows "filters bt w h ch src dst m0 ({y, y + 1} \<times> {p..<p + ch})
    (process_two_pixels_with_horizontal_borders flt src_rows dst_rows ro ro' co)"
  unfolding process_two_pixels_with_horizontal_borders_def ch
proof (rule filters_fold [OF pair])
  show "{y, y + 1} \<times> {p..<p + ch} = (\<Union>i \<in> set [0..<ch]. {y, y + 1} \<times> {p + i..<p + i + 1})"
    using row_blocks [of "{y, y + 1}" p 0 ch] by (simp only: set_upt add_0 add_0_right)
  fix i
  assume "i \<in> set [0..<ch]"
  then have i: "i < ch" by simp
  then show "{y, y + 1} \<times> {p + i..<p + i + 1} \<subseteq> {..<h} \<times> {..<w * ch}
    \<and> filters bt w h ch src dst m0 ({y, y + 1} \<times> {p + i..<p + i + 1})
      (process_two_element_vertically_with_or_without_horizontal_borders flt src_rows dst_rows ro ro' co i)"
    using dual_positions(1,2) [OF y, of "p + i + 1" "w * ch" "p + i"] p two_elements_filter [OF pair ptrs dst y i p]
    unfolding dual_positions(3) by simp
qed

lemma lower_offsets_row:
  assumes y: "y + 1 < h" and h: "2 \<le> h" "h \<le> size_max" and r: "r < 3"
  shows "int y + lower_offsets (offsets_with_border 3 \<lparr> fb_length = h, fb_border_type = bt \<rparr> y)
      (offsets_with_border 3 \<lparr> fb_length = h, fb_border_type = bt \<rparr> (y + 1)) ! r
    = int (tap_coordinate 3 \<lparr> fb_length = h, fb_border_type = bt \<rparr> (y + 1) r)"
proof -
  let ?v = "\<lparr> fb_length = h, fb_border_type = bt \<rparr>"
  have upper: "int y + offsets_with_border 3 ?v y ! k = int (tap_coordinate 3 ?v y k)" if "k < 3" for k
    using row_offsets [of y h k bt] that y h by simp
  have lower: "int (y + 1) + offsets_with_border 3 ?v (y + 1) ! 2 = int (tap_coordinate 3 ?v (y + 1) 2)"
    using row_offsets [of "y + 1" h 2 bt] y h by simp
  have shift: "tap_coordinate 3 ?v (y + 1) k = tap_coordinate 3 ?v y (k + 1)" for k
    by (simp add: tap_coordinate_def)
  have "r = 0 \<or> r = 1 \<or> r = 2" using r by auto
  then show ?thesis
    using upper [of 1] upper [of 2] lower shift [of 0] shift [of 1]
    by (auto simp: lower_offsets_def numeral_2_eq_2)
qed

lemma dual_row_filters:
  assumes pair: "image_pair TYPE('a) w h ch src dst" and y: "y + 1 < h"
    and dims: "2 \<le> w" "2 \<le> h" "w \<le> size_max" "h \<le> size_max"
  shows "filters bt w h ch src dst m0 ({y, y + 1} \<times> {..<w * ch})
    (process_filter2d_dual_row flt \<lparr> rectangle_width = w, rectangle_height = h \<rparr> src dst bt y)"
proof -
  note lay = image_pairD [OF pair]
  let ?v = "\<lparr> fb_length = h, fb_border_type = bt \<rparr>" and ?h = "\<lparr> fb_length = w, fb_border_type = bt \<rparr>"
  let ?ro = "offsets_with_border 3 ?v y" and ?ro' = "offsets_with_border 3 ?v (y + 1)"
  have y': "y < h" using y by simp
  have k: "3 - 1 \<le> w" "3 - 1 \<le> h" using dims by simp_all
  have w: "2 * (3 div 2) \<le> w" using dims(1) by simp
  note upper = row_offsets [OF y' k(2) dims(4)] and lower = lower_offsets_row [OF y dims(2,4)]
  have dst: "row_ptr (rows_at (rows_at dst (int y) (int x)) 0 0) = image_element TYPE('a) dst y (x * ch)"
    "row_ptr (rows_at (rows_at dst (int y) (int x)) 1 0) = image_element TYPE('a) dst (y + 1) (x * ch)" if "x \<le> w" for x
    using rows_at_image_offset [OF lay(2) y' y' that, of 0 0 x] rows_at_image_offset [OF lay(2) y' y that, of 1 0 x]
    by simp_all
  have pixel: "filters bt w h ch src dst m0 ({y, y + 1} \<times> {x * ch..<x * ch + ch})
      (process_two_pixels_with_horizontal_borders flt (rows_at src (int y) (int x)) (rows_at dst (int y) (int x)) ?ro ?ro' co)"
    if x: "x < w" and co: "\<And>c. c < 3 \<Longrightarrow> int x + co ! c = int (tap_coordinate 3 ?h x c)" for x co
  proof -
    have "x * ch + ch \<le> w * ch" using mult_le_mono1 [of "Suc x" w ch] x by simp
    then show ?thesis
      using channel_layoutD(2) [OF lay(1)] channel_layoutD(1) [OF lay(2)] dst [of x] x
      by (intro dual_pixel_filters [OF pair column_pointers [OF lay(1) y' y' x upper co]
            column_pointers [OF lay(1) y' y x lower co]] y) simp_all
  qed
  have middle: "filters bt w h ch src dst m0 ({y, y + 1} \<times> {3 div 2 * ch..<3 div 2 * ch + (w - 2 * (3 div 2)) * ch})
      (process_pixels_of_dual_rows_without_horizontal_borders flt (w - 2 * (3 div 2))
         (rows_at src (int y) (int (3 div 2))) (rows_at dst (int y) (int (3 div 2))) ?ro ?ro' (offsets_without_border 3))"
    using channel_layoutD(2) [OF lay(1)] channel_layoutD(1) [OF lay(2)] dst [of "3 div 2"] w inner_end [OF w]
    by (intro dual_pixels_filter [OF pair middle_pointers [OF lay(1) y' y' k(1) upper]
          middle_pointers [OF lay(1) y' y k(1) lower]] y) simp_all
  show ?thesis
    unfolding process_filter2d_dual_row_def [abs_def] Let_def Rectangle.simps inner_width [OF w dims(3)]
  proof (rule parts_filter [OF pair _ w dims(3) pixel middle pixel])
    show "{y, y + 1} \<subseteq> {..<h}" using y by simp
    show "x < w" if "x < 3 div 2" for x using that dims by simp
    show "x < w" if "w - 3 div 2 \<le> x" "x < w" for x using that by simp
    show "int x + offsets_with_left_border 3 ?h x ! c = int (tap_coordinate 3 ?h x c)" if "x < 3 div 2" "c < 3" for x c
      using that k dims left_border_coordinate [of 3 ?h x c] by simp
    show "int x + offsets_with_right_border 3 ?h x ! c = int (tap_coordinate 3 ?h x c)"
      if "w - 3 div 2 \<le> x" "x < w" "c < 3" for x c
      using that k dims right_border_coordinate [of 3 ?h x c] by simp
  qed
qed

text \<open>The loop over pairs of rows ends at the last row but one or behind it.\<close>

lemma dual_rows_loop_filters:
  assumes pair: "image_pair TYPE('a) w h ch src dst" and y: "y \<le> y_end" "y_end \<le> h" "0 < y_end"
    and dims: "2 \<le> w" "2 \<le> h" "w \<le> size_max" "h \<le> size_max"
  shows "\<exists>y'. y \<le> y' \<and> y' \<le> y_end
    \<and> (\<forall>m. fst (dual_rows_loop flt \<lparr> rectangle_width = w, rectangle_height = h \<rparr> src dst bt (y_end - 1) y m) = y')
    \<and> filters bt w h ch src dst m0 ({y..<y'} \<times> {..<w * ch})
        (\<lambda>m. snd (dual_rows_loop flt \<lparr> rectangle_width = w, rectangle_height = h \<rparr> src dst bt (y_end - 1) y m))"
  using y(1)
proof (induction "y_end - y" arbitrary: y rule: less_induct)
  case less
  let ?rect = "\<lparr> rectangle_width = w, rectangle_height = h \<rparr>"
  show ?case
  proof (cases "y < y_end - 1")
    case False
    then have "dual_rows_loop flt ?rect src dst bt (y_end - 1) y m = (y, m)" for m
      by (simp add: dual_rows_loop.simps)
    moreover have "filters bt w h ch src dst m0 ({y..<y} \<times> {..<w * ch}) (\<lambda>m. m)"
      by (simp add: filters_def writes_nothing)
    ultimately show ?thesis using less.prems by (intro exI [of _ y]) simp
  next
    case True
    then have next_row: "y_end - (y + 2) < y_end - y" "y + 2 \<le> y_end" and inside: "y + 1 < h" using y by simp_all
    let ?step = "process_filter2d_dual_row flt ?rect src dst bt y"
    have loop: "dual_rows_loop flt ?rect src dst bt (y_end - 1) y m
        = dual_rows_loop flt ?rect src dst bt (y_end - 1) (y + 2) (?step m)" for m
      using True by (subst dual_rows_loop.simps) simp
    from less.hyps [OF next_row] obtain y' where y': "y + 2 \<le> y'" "y' \<le> y_end"
      "\<And>m. fst (dual_rows_loop flt ?rect src dst bt (y_end - 1) (y + 2) m) = y'"
      "filters bt w h ch src dst m0 ({y + 2..<y'} \<times> {..<w * ch})
        (\<lambda>m. snd (dual_rows_loop flt ?rect src dst bt (y_end - 1) (y + 2) m))" by blast
    have "filters bt w h ch src dst m0 ({y..<y'} \<times> {..<w * ch})
      (\<lambda>m. snd (dual_rows_loop flt ?rect src dst bt (y_end - 1) (y + 2) (?step m)))"
    proof (rule filters_comp [OF pair _ _ dual_row_filters [OF pair inside dims] y'(4)])
      have "{y..<y'} = {y, y + 1} \<union> {y + 2..<y'}" using y'(1) by auto
      then show "{y..<y'} \<times> {..<w * ch} = {y, y + 1} \<times> {..<w * ch} \<union> {y + 2..<y'} \<times> {..<w * ch}"
        by (simp only: Sigma_Un_distrib1)
    qed (use inside y'(2) y(2) in auto)
    moreover have "y \<le> y'" using y'(1) by simp
    ultimately show ?thesis unfolding loop y'(3) using y'(2) by blast
  qed
qed

lemma dual_rows_filter:
  assumes pair: "image_pair TYPE('a) w h ch src dst" and y: "y_begin \<le> y_end" "y_end \<le> h" "0 < y_end"
    and dims: "2 \<le> w" "2 \<le> h" "w \<le> size_max" "h \<le> size_max"
  shows "filters bt w h ch src dst m0 ({y_begin..<y_end} \<times> {..<w * ch})
    (process_filter2d_by_dual_rows flt \<lparr> rectangle_width = w, rectangle_height = h \<rparr> y_begin y_end src dst bt)"
proof -
  let ?rect = "\<lparr> rectangle_width = w, rectangle_height = h \<rparr>"
  have last_row: "size_wrap (int y_end - 1) = y_end - 1"
    using size_wrap_id [of "y_end - 1"] y dims(4) by (simp add: of_nat_diff)
  from dual_rows_loop_filters [OF pair y dims, of bt m0] obtain y' where y': "y_begin \<le> y'" "y' \<le> y_end"
    "\<And>m. fst (dual_rows_loop flt ?rect src dst bt (y_end - 1) y_begin m) = y'"
    "filters bt w h ch src dst m0 ({y_begin..<y'} \<times> {..<w * ch})
      (\<lambda>m. snd (dual_rows_loop flt ?rect src dst bt (y_end - 1) y_begin m))" by blast
  have eq: "process_filter2d_by_dual_rows flt ?rect y_begin y_end src dst bt m
      = process_filter2d 3 flt ?rect y' y_end src dst bt
          (snd (dual_rows_loop flt ?rect src dst bt (y_end - 1) y_begin m))" for m
    by (simp only: process_filter2d_by_dual_rows_def last_row case_prod_beta y'(3))
  have dims': "3 - 1 \<le> w" "3 - 1 \<le> h" using dims by simp_all
  have "filters bt w h ch src dst m0 ({y_begin..<y_end} \<times> {..<w * ch})
    (\<lambda>m. process_filter2d 3 flt ?rect y' y_end src dst bt
          (snd (dual_rows_loop flt ?rect src dst bt (y_end - 1) y_begin m)))"
  proof (rule filters_comp [OF pair _ _ y'(4) rows_filter [OF pair y(2) dims' dims(3,4)]])
    have "{y_begin..<y_end} = {y_begin..<y'} \<union> {y'..<y_end}" using y'(1,2) by auto
    then show "{y_begin..<y_end} \<times> {..<w * ch} = {y_begin..<y'} \<times> {..<w * ch} \<union> {y'..<y_end} \<times> {..<w * ch}"
      by (simp only: Sigma_Un_distrib1)
  qed (use y'(2) y(2) in auto)
  then show ?thesis by (simp only: eq [abs_def])
qed

end

section \<open>Filtered images\<close>

text \<open>An operation that writes the elements of the rows of a stripe, as the operations report it.\<close>

lemma writes_image:
  fixes pixel :: "nat \<Rightarrow> nat \<Rightarrow> nat \<Rightarrow> 'a::len word"
  assumes w: "writes (element_of TYPE('a) (image_rows TYPE('a) dst ds ch)) B m
      (\<lambda>(y, e). pixel y (e div ch) (e mod ch)) ({y_begin..<y_end} \<times> {..<w * ch}) f"
    and r: "fst r = KLEIDICV_OK" "snd r = f m"
  shows "filtered TYPE('a) w ch dst ds 0 0 y_begin y_end pixel m r"
  unfolding filtered_def r
proof (intro conjI allI impI refl)
  have m: "unchanged B m m" by (simp add: unchanged_def)
  note result = writesD [OF w m]
  fix y x c
  assume a: "y_begin \<le> y \<and> y < y_end \<and> x < w \<and> c < ch"
  then have "x * ch + c < w * ch" by (intro element_in_row) simp_all
  with a result(1) [of "(y, x * ch + c)"] show "load_elem (pixel_at TYPE('a) dst ds ch y x c) (f m) = pixel y x c"
    by (simp add: image_element_rows)
next
  have m: "unchanged B m m" by (simp add: unchanged_def)
  fix a
  assume a: "a \<notin> {0..<0 + 0} \<and> (\<forall>y. y_begin \<le> y \<and> y < y_end \<longrightarrow>
    a \<notin> {dst + y * ds..<dst + y * ds + w * ch * sizeof TYPE('a)})"
  show "f m a = m a"
  proof (rule writesD(2) [OF w m])
    fix i
    assume "i \<in> {y_begin..<y_end} \<times> {..<w * ch}"
    then obtain y e where i: "i = (y, e)" "y_begin \<le> y" "y < y_end" "e < w * ch" by auto
    then have "a \<notin> row_bytes TYPE('a) (dst + y * ds) (w * ch)" using a by (simp add: row_bytes_def)
    then show "a \<notin> elem_bytes TYPE('a) (element_of TYPE('a) (image_rows TYPE('a) dst ds ch) i)"
      using row_element_bytes [OF i(4), where 'a = 'a and d = "dst + y * ds"]
      by (auto simp: i(1) image_element_def image_rows_def)
  qed
qed

lemma image_pair_rows:
  assumes "filter_memory TYPE('a::len) TYPE('a) w h ch src ss dst ds 0 0"
  shows "image_pair TYPE('a) w h ch (image_rows TYPE('a) src ss ch) (image_rows TYPE('a) dst ds ch)"
  using assms by (auto simp: image_pair_def channel_layout_def image_rows_def filter_memory_def stride_bytes_def)

context window_kernel
begin

lemma filters_taps:
  assumes "filters bt w h ch (image_rows TYPE('a) src ss ch) dst m E f"
  shows "writes (element_of TYPE('a) dst) (stride_bytes h (image_rows TYPE('a) src ss ch)) m
    (\<lambda>(y, e). scalar_path flt (\<lambda>(k, j). filter_tap TYPE('a) K bt w h ch src ss m y (e div ch) (e mod ch) k j)) E f"
proof -
  have "filtered_element bt w h ch (image_rows TYPE('a) src ss ch) m
    = (\<lambda>(y, e). scalar_path flt (\<lambda>(k, j). filter_tap TYPE('a) K bt w h ch src ss m y (e div ch) (e mod ch) k j))"
    by (simp add: filtered_element_def window_of_def image_element_rows filter_tap_def tap_coordinate_def)
  with assms show ?thesis by (simp add: filters_def)
qed

end

end
