(* ===== verification/Median_Filter.thy ===== *)
theory Median_Filter
  imports Filter_2D Thread_Ops
begin

text \<open>
  The median filter of sizes 3, 5 and 7: the filter classes and the stripe function of
  \<^verbatim>\<open>median_blur_sorting_network_neon.cpp\<close>, the checks of
  \<^verbatim>\<open>filters/median_blur.h\<close> and the operations of
  \<^verbatim>\<open>median_blur_api.cpp\<close>, for signed and unsigned elements of every width. The
  histograms for larger sizes are arguments.
\<close>

section \<open>The filters\<close>

definition MedianBlurSortingNetwork_3 :: "bool \<Rightarrow> 'a::len dual_window_filter" where
  "MedianBlurSortingNetwork_3 is_signed =
     \<lparr> vector_path = sorting_network3x3_single_row (VectorizedComparator is_signed),
       scalar_path = sorting_network3x3_single_row (ScalarComparator is_signed),
       vector_path_for_dual_row_handling = sorting_network3x3_dual_rows (VectorizedComparator is_signed),
       scalar_path_for_dual_row_handling = sorting_network3x3_dual_rows (ScalarComparator is_signed) \<rparr>"

definition MedianBlurSortingNetwork_5 :: "bool \<Rightarrow> 'a::len word inner_filter" where
  "MedianBlurSortingNetwork_5 is_signed =
     \<lparr> vector_path = sorting_network5x5 (VectorizedComparator is_signed),
       scalar_path = sorting_network5x5 (ScalarComparator is_signed) \<rparr>"

definition MedianBlurSortingNetwork_7 :: "bool \<Rightarrow> 'a::len word inner_filter" where
  "MedianBlurSortingNetwork_7 is_signed =
     \<lparr> vector_path = sorting_network7x7 (VectorizedComparator is_signed),
       scalar_path = sorting_network7x7 (ScalarComparator is_signed) \<rparr>"

definition median_blur_sorting_network_stripe ::
    "'a::len itself \<Rightarrow> bool \<Rightarrow> nat \<Rightarrow> nat \<Rightarrow> nat \<Rightarrow> nat \<Rightarrow> nat \<Rightarrow> nat \<Rightarrow> nat \<Rightarrow> nat \<Rightarrow> nat \<Rightarrow> nat \<Rightarrow> nat \<Rightarrow> FixedBorderType \<Rightarrow>
     mem action" where
  "median_blur_sorting_network_stripe t is_signed src src_stride dst dst_stride width height y_begin y_end channels
      kernel_width kernel_height border_type m =
     (let rect = \<lparr> rectangle_width = width, rectangle_height = height \<rparr>;
          src_rows = image_rows TYPE('a) src src_stride channels;
          dst_rows = image_rows TYPE('a) dst dst_stride channels
      in if kernel_width = 3 then
           (KLEIDICV_OK, process_filter2d_by_dual_rows (MedianBlurSortingNetwork_3 is_signed :: 'a dual_window_filter)
              rect y_begin y_end src_rows dst_rows border_type m)
         else if kernel_width = 5 then
           (KLEIDICV_OK, process_filter2d 5 (MedianBlurSortingNetwork_5 is_signed :: 'a word inner_filter)
              rect y_begin y_end src_rows dst_rows border_type m)
         else
           (KLEIDICV_OK, process_filter2d 7 (MedianBlurSortingNetwork_7 is_signed :: 'a word inner_filter)
              rect y_begin y_end src_rows dst_rows border_type m))"

section \<open>Checks and operations\<close>

definition median_blur_checks :: "nat \<Rightarrow> nat \<Rightarrow> nat \<Rightarrow> nat \<Rightarrow> nat \<Rightarrow> nat \<Rightarrow> nat \<Rightarrow> kleidicv_error_t" where
  "median_blur_checks align src src_stride dst dst_stride width height =
     checks [check_pointer_and_stride align src src_stride height,
             check_pointer_and_stride align dst dst_stride height, check_image_size width height]"

text \<open>Sizes above 7 exist for \<^verbatim>\<open>uint8_t\<close> only.\<close>

definition is_kernel_size_supported :: "bool \<Rightarrow> nat \<Rightarrow> nat \<Rightarrow> bool" where
  "is_kernel_size_supported is_uint8 kernel_width kernel_height \<longleftrightarrow>
     kernel_width = kernel_height \<and> 3 \<le> kernel_width \<and> kernel_width \<le> (if is_uint8 then 255 else 7)
     \<and> kernel_width mod 2 \<noteq> 0"

definition median_blur_validate ::
    "'a::len itself \<Rightarrow> bool \<Rightarrow> nat \<Rightarrow> nat \<Rightarrow> nat \<Rightarrow> nat \<Rightarrow> nat \<Rightarrow> nat \<Rightarrow> nat \<Rightarrow> nat \<Rightarrow> nat \<Rightarrow> kleidicv_border_type_t \<Rightarrow>
     kleidicv_error_t + FixedBorderType" where
  "median_blur_validate t is_signed src src_stride dst dst_stride width height channels kernel_width kernel_height
      border_type =
     (let check_error = median_blur_checks (sizeof TYPE('a)) src src_stride dst dst_stride width height in
      if check_error \<noteq> KLEIDICV_OK then Inl check_error
      else (case get_fixed_border_type border_type of
          Some fixed_border_type \<Rightarrow>
            if src \<noteq> dst \<and> channels \<le> KLEIDICV_MAXIMUM_CHANNEL_COUNT
              \<and> size_wrap (int kernel_height - 1) \<le> height \<and> size_wrap (int kernel_width - 1) \<le> width
              \<and> is_kernel_size_supported (\<not> is_signed \<and> LENGTH('a) = 8) kernel_width kernel_height
            then Inr fixed_border_type else Inl KLEIDICV_ERROR_NOT_IMPLEMENTED
        | None \<Rightarrow> Inl KLEIDICV_ERROR_NOT_IMPLEMENTED))"

type_synonym median_stripe =
  "nat \<Rightarrow> nat \<Rightarrow> nat \<Rightarrow> nat \<Rightarrow> nat \<Rightarrow> nat \<Rightarrow> nat \<Rightarrow> nat \<Rightarrow> nat \<Rightarrow> nat \<Rightarrow> nat \<Rightarrow> FixedBorderType \<Rightarrow> mem action"

definition median_blur ::
    "'a::len itself \<Rightarrow> bool \<Rightarrow> median_stripe \<Rightarrow> nat \<Rightarrow> nat \<Rightarrow> nat \<Rightarrow> nat \<Rightarrow> nat \<Rightarrow> nat \<Rightarrow> nat \<Rightarrow> nat \<Rightarrow> nat \<Rightarrow>
     kleidicv_border_type_t \<Rightarrow> mem action" where
  "median_blur t is_signed StripeFunction src src_stride dst dst_stride width height channels kernel_width
      kernel_height border_type m =
     (case median_blur_validate TYPE('a) is_signed src src_stride dst dst_stride width height channels kernel_width
        kernel_height border_type of
        Inl err \<Rightarrow> (err, m)
      | Inr fixed_border_type \<Rightarrow>
          StripeFunction src src_stride dst dst_stride width height 0 height channels kernel_width kernel_height
            fixed_border_type m)"

text \<open>The operation on bytes, which chooses between the networks and the histograms.\<close>

definition median_blur_u8 ::
    "median_stripe \<Rightarrow> median_stripe \<Rightarrow> median_stripe \<Rightarrow> median_stripe \<Rightarrow> bool \<Rightarrow> nat \<Rightarrow> nat \<Rightarrow> nat \<Rightarrow> nat \<Rightarrow> nat \<Rightarrow> nat \<Rightarrow>
     nat \<Rightarrow> nat \<Rightarrow> nat \<Rightarrow> kleidicv_border_type_t \<Rightarrow> mem action" where
  "median_blur_u8 network_stripe network_stripe_sme small_hist_stripe large_hist_stripe kUseSME src src_stride dst
      dst_stride width height channels kernel_width kernel_height border_type m =
     (case median_blur_validate TYPE(8) False src src_stride dst dst_stride width height channels kernel_width
        kernel_height border_type of
        Inl err \<Rightarrow> (err, m)
      | Inr fixed_border_type \<Rightarrow>
          (let stripe = (if kernel_width \<le> 7 then (if kUseSME then network_stripe_sme else network_stripe)
                 else if kernel_width > 7 \<and> kernel_width \<le> 15 then small_hist_stripe
                 else large_hist_stripe)
           in stripe src src_stride dst dst_stride width height 0 height channels kernel_width kernel_height
                fixed_border_type m))"

section \<open>The filters meet the contract\<close>

lemma median_of_cells:
  "(\<And>r c. r < n \<Longrightarrow> c < n \<Longrightarrow> W (y + r, c) = W' (y + r, c)) \<Longrightarrow>
    median_of s (window_cells n y W) = median_of s (window_cells n y W')"
  unfolding window_cells_def by (intro arg_cong [of _ _ "median_of s"] arg_cong [of _ _ concat] map_cong) auto

lemma lower_window_cells: "window_cells n 0 (lower_window W) = window_cells n 1 W"
  by (simp add: window_cells_def lower_window_def)

interpretation vector_shape: comparator_map "vminq s" "vmaxq s" "\<lambda>_ _. n" "\<lambda>_ _. n" "\<lambda>v. length v = n" length
  for s n
  by unfold_locales (simp_all add: vminq_def vmaxq_def)

lemma vector_networks_length:
  assumes "\<And>p. length (V p) = n"
  shows "length (sorting_network3x3_single_row (VectorizedComparator s) V) = n"
    "length (sorting_network5x5 (VectorizedComparator s) V) = n"
    "length (sorting_network7x7 (VectorizedComparator s) V) = n"
    "length (fst (sorting_network3x3_dual_rows (VectorizedComparator s) V)) = n"
    "length (snd (sorting_network3x3_dual_rows (VectorizedComparator s) V)) = n"
  unfolding vectorized_comparator
  using vector_shape.network_results_ok [of V n s] vector_shape.dual_results_ok [of V n s] assms by simp_all

lemma dual_vector_network:
  assumes "\<And>p. length (V p) = n"
  shows "sorting_network3x3_dual_rows (VectorizedComparator s) V
    = (sorting_network3x3_single_row (VectorizedComparator s) V,
       sorting_network3x3_single_row (VectorizedComparator s) (lower_window V))"
proof -
  have lower: "length (lower_window V p) = n" for p using assms by (cases p) (simp add: lower_window_def)
  have "fst (sorting_network3x3_dual_rows (VectorizedComparator s) V) ! l
        = sorting_network3x3_single_row (VectorizedComparator s) V ! l"
      "snd (sorting_network3x3_dual_rows (VectorizedComparator s) V) ! l
        = sorting_network3x3_single_row (VectorizedComparator s) (lower_window V) ! l" if "l < n" for l
  proof -
    have nth: "(\<lambda>p. lower_window V p ! l) = lower_window (\<lambda>p. V p ! l)" by (auto simp: lower_window_def)
    show "fst (sorting_network3x3_dual_rows (VectorizedComparator s) V) ! l
        = sorting_network3x3_single_row (VectorizedComparator s) V ! l"
      "snd (sorting_network3x3_dual_rows (VectorizedComparator s) V) ! l
        = sorting_network3x3_single_row (VectorizedComparator s) (lower_window V) ! l"
      using vector_networks_lanewise(2) [of V n l s, OF assms that]
        vector_networks_lanewise(1) [of V n l s, OF assms that]
        vector_networks_lanewise(1) [of "lower_window V" n l s, OF lower that]
      by (simp_all add: nth dual_rows_median single_row_median lower_window_cells prod_eq_iff)
  qed
  then show ?thesis
    by (intro prod_eqI nth_equalityI) (simp_all add: vector_networks_length assms lower)
qed

lemma median_3_contract:
  "element_type TYPE('a) \<Longrightarrow> dual_window_kernel (MedianBlurSortingNetwork_3 s :: 'a::len dual_window_filter)"
proof unfold_locales
  fix W :: "'a word window"
  show "scalar_path_for_dual_row_handling (MedianBlurSortingNetwork_3 s) W
    = (scalar_path (MedianBlurSortingNetwork_3 s) W, scalar_path (MedianBlurSortingNetwork_3 s) (lower_window W))"
    by (simp add: MedianBlurSortingNetwork_3_def single_row_median dual_rows_median lower_window_cells)
next
  fix W W' :: "'a word window"
  assume "\<And>r c. r < 3 \<Longrightarrow> c < 3 \<Longrightarrow> W (r, c) = W' (r, c)"
  then show "scalar_path (MedianBlurSortingNetwork_3 s) W = scalar_path (MedianBlurSortingNetwork_3 s) W'"
    by (simp add: MedianBlurSortingNetwork_3_def single_row_median) (rule median_of_cells, simp)
qed (simp_all add: MedianBlurSortingNetwork_3_def vector_networks_length vector_networks_lanewise dual_vector_network)

lemma median_5_contract:
  "element_type TYPE('a) \<Longrightarrow> window_kernel (MedianBlurSortingNetwork_5 s :: 'a::len word inner_filter) 5"
proof unfold_locales
  fix W W' :: "'a word window"
  assume "\<And>r c. r < 5 \<Longrightarrow> c < 5 \<Longrightarrow> W (r, c) = W' (r, c)"
  then show "scalar_path (MedianBlurSortingNetwork_5 s) W = scalar_path (MedianBlurSortingNetwork_5 s) W'"
    by (simp add: MedianBlurSortingNetwork_5_def network_5x5_median) (rule median_of_cells, simp)
qed (simp_all add: MedianBlurSortingNetwork_5_def vector_networks_length vector_networks_lanewise)

lemma median_7_contract:
  "element_type TYPE('a) \<Longrightarrow> window_kernel (MedianBlurSortingNetwork_7 s :: 'a::len word inner_filter) 7"
proof unfold_locales
  fix W W' :: "'a word window"
  assume "\<And>r c. r < 7 \<Longrightarrow> c < 7 \<Longrightarrow> W (r, c) = W' (r, c)"
  then show "scalar_path (MedianBlurSortingNetwork_7 s) W = scalar_path (MedianBlurSortingNetwork_7 s) W'"
    by (simp add: MedianBlurSortingNetwork_7_def network_7x7_median) (rule median_of_cells, simp)
qed (simp_all add: MedianBlurSortingNetwork_7_def vector_networks_length vector_networks_lanewise)

interpretation median_3_u8: dual_window_kernel "MedianBlurSortingNetwork_3 s :: 8 dual_window_filter" for s
  by (rule median_3_contract) (simp add: element_type_def)
interpretation median_3_u16: dual_window_kernel "MedianBlurSortingNetwork_3 s :: 16 dual_window_filter" for s
  by (rule median_3_contract) (simp add: element_type_def)
interpretation median_3_u32: dual_window_kernel "MedianBlurSortingNetwork_3 s :: 32 dual_window_filter" for s
  by (rule median_3_contract) (simp add: element_type_def)
interpretation median_5_u8: window_kernel "MedianBlurSortingNetwork_5 s :: 8 word inner_filter" 5 for s
  by (rule median_5_contract) (simp add: element_type_def)
interpretation median_7_u8: window_kernel "MedianBlurSortingNetwork_7 s :: 8 word inner_filter" 7 for s
  by (rule median_7_contract) (simp add: element_type_def)

section \<open>The filtered image\<close>

definition median_pixel ::
    "bool \<Rightarrow> nat \<Rightarrow> FixedBorderType \<Rightarrow> nat \<Rightarrow> nat \<Rightarrow> nat \<Rightarrow> nat \<Rightarrow> nat \<Rightarrow> mem \<Rightarrow> nat \<Rightarrow> nat \<Rightarrow> nat \<Rightarrow> 'a::len word" where
  "median_pixel is_signed K bt w h ch src ss m y x c =
     median_of is_signed (window_cells K 0 (\<lambda>(k, j). filter_tap TYPE('a) K bt w h ch src ss m y x c k j))"

lemma median_stripe_writes:
  assumes type: "element_type TYPE('a::len)" and K: "K \<in> {3, 5, 7}"
    and mem: "filter_memory TYPE('a) TYPE('a) w h ch src ss dst ds 0 0"
    and y: "y_begin \<le> y_end" "y_end \<le> h" "0 < y_end" and dims: "K - 1 \<le> w" "K - 1 \<le> h" "w \<le> size_max" "h \<le> size_max"
  shows "writes (element_of TYPE('a) (image_rows TYPE('a) dst ds ch)) (stride_bytes h (image_rows TYPE('a) src ss ch)) m
      (\<lambda>(y, e). median_pixel s K bt w h ch src ss m y (e div ch) (e mod ch) :: 'a word)
      ({y_begin..<y_end} \<times> {..<w * ch})
      (\<lambda>m. snd (median_blur_sorting_network_stripe TYPE('a) s src ss dst ds w h y_begin y_end ch K K' bt m))"
proof -
  note pair = image_pair_rows [OF mem]
  consider "K = 3" | "K = 5" | "K = 7" using K by auto
  then show ?thesis
  proof cases
    case 1
    note contract = median_3_contract [OF type, of s]
    note kernel = dual_window_kernel.axioms(1) [OF contract]
    have "2 \<le> w" "2 \<le> h" using dims 1 by simp_all
    from window_kernel.filters_taps [OF kernel dual_window_kernel.dual_rows_filter [OF contract pair y this dims(3,4),
        where bt = bt and ?m0.0 = m]]
    show ?thesis
      by (simp add: 1 median_blur_sorting_network_stripe_def median_pixel_def MedianBlurSortingNetwork_3_def
          single_row_median)
  next
    case 2
    note kernel = median_5_contract [OF type, of s]
    from window_kernel.filters_taps [OF kernel window_kernel.rows_filter [OF kernel pair y(2) dims [unfolded 2],
        where bt = bt and ?m0.0 = m and y_begin = y_begin]]
    show ?thesis
      by (simp add: 2 median_blur_sorting_network_stripe_def median_pixel_def MedianBlurSortingNetwork_5_def
          network_5x5_median)
  next
    case 3
    note kernel = median_7_contract [OF type, of s]
    from window_kernel.filters_taps [OF kernel window_kernel.rows_filter [OF kernel pair y(2) dims [unfolded 3],
        where bt = bt and ?m0.0 = m and y_begin = y_begin]]
    show ?thesis
      by (simp add: 3 median_blur_sorting_network_stripe_def median_pixel_def MedianBlurSortingNetwork_7_def
          network_7x7_median)
  qed
qed

lemma median_stripe_ok:
  "fst (median_blur_sorting_network_stripe TYPE('a::len) s src ss dst ds w h y_begin y_end ch K K' bt m) = KLEIDICV_OK"
  by (simp add: median_blur_sorting_network_stripe_def Let_def)

lemma median_blur_accepted:
  assumes "median_blur_validate TYPE('a::len) s src ss dst ds w h ch kw kh b = Inr bt"
  shows "kh = kw" "3 \<le> kw" "kw mod 2 = 1" "kw - 1 \<le> w" "kw - 1 \<le> h" "w \<le> size_max" "h \<le> size_max"
    "get_fixed_border_type b = Some bt"
proof -
  have ok: "kh = kw" "3 \<le> kw" "kw \<le> 255" "kw mod 2 = 1" "size_wrap (int kw - 1) \<le> w" "size_wrap (int kw - 1) \<le> h"
    "w * h \<le> KLEIDICV_MAX_IMAGE_PIXELS" "get_fixed_border_type b = Some bt"
    using assms by (auto simp: median_blur_validate_def median_blur_checks_def is_kernel_size_supported_def checks_OK
        check_image_size_OK Let_def split: if_splits option.splits)
  have "size_wrap (int kw - 1) = kw - 1"
    using size_wrap_id [of "kw - 1"] ok(2,3) by (simp add: of_nat_diff size_max_def)
  with ok(5,6) have dims: "kw - 1 \<le> w" "kw - 1 \<le> h" by simp_all
  have "0 < w" "0 < h" using dims ok(2) by simp_all
  then have "w \<le> w * h" "h \<le> w * h" by simp_all
  moreover have "KLEIDICV_MAX_IMAGE_PIXELS \<le> size_max" by (simp add: KLEIDICV_MAX_IMAGE_PIXELS_def size_max_def)
  ultimately show "w \<le> size_max" "h \<le> size_max" using ok(7) by linarith+
  show "kh = kw" "3 \<le> kw" "kw mod 2 = 1" "kw - 1 \<le> w" "kw - 1 \<le> h" "get_fixed_border_type b = Some bt"
    using ok dims by simp_all
qed

text \<open>
  C11. The median filter of sizes 3, 5 and 7 stores at every channel of every pixel the median of the
  window around it, with the image continued as the border type says, for signed and unsigned elements
  of 8 to 64 bits, and changes nothing else.
\<close>

theorem median_blur_image:
  assumes "element_type TYPE('a::len)" and "kw \<le> 7"
    and "median_blur_validate TYPE('a) s src ss dst ds w h ch kw kh b = Inr bt"
    and "filter_memory TYPE('a) TYPE('a) w h ch src ss dst ds 0 0"
  shows "filtered TYPE('a) w ch dst ds 0 0 0 h (median_pixel s kw bt w h ch src ss m) m
    (median_blur TYPE('a) s (median_blur_sorting_network_stripe TYPE('a) s) src ss dst ds w h ch kw kh b m)"
proof -
  note acc = median_blur_accepted [OF assms(3)]
  have "kw = 3 \<or> kw = 4 \<or> kw = 5 \<or> kw = 6 \<or> kw = 7" using acc(2) assms(2) by linarith
  with acc(3) have kw: "kw \<in> {3, 5, 7}" by auto
  have "0 < h" using acc(2,5) by simp
  from writes_image [OF median_stripe_writes [OF assms(1) kw assms(4) le0 order_refl this acc(4-7)] median_stripe_ok refl]
  show ?thesis by (simp add: median_blur_def assms(3))
qed

lemma median_example:
  "median_blur_validate TYPE(8) False 100 3 200 3 3 3 1 3 3 KLEIDICV_BORDER_TYPE_REPLICATE = Inr REPLICATE"
  "filter_memory TYPE(8) TYPE(8) 3 3 1 100 3 200 3 0 0" "element_type TYPE(8)" "(3 :: nat) \<le> 7"
  "median_pixel False 3 REPLICATE 3 3 1 100 3 (\<lambda>a. of_nat a) 0 0 0 = (101 :: u8)"
proof -
  show "median_blur_validate TYPE(8) False 100 3 200 3 3 3 1 3 3 KLEIDICV_BORDER_TYPE_REPLICATE = Inr REPLICATE"
    "filter_memory TYPE(8) TYPE(8) 3 3 1 100 3 200 3 0 0" "element_type TYPE(8)" "(3 :: nat) \<le> 7"
    by (simp_all add: median_blur_validate_def median_blur_checks_def is_kernel_size_supported_def
        check_pointer_and_stride_def check_image_size_RANGE sizeof_def nullptr_def is_misaligned_def
        KLEIDICV_MAX_IMAGE_PIXELS_def KLEIDICV_MAXIMUM_CHANNEL_COUNT_def get_fixed_border_type_def filter_memory_def
        size_max_def size_wrap_def element_type_def)
  have cells: "window_cells 3 0 (\<lambda>(k, j). filter_tap TYPE(8) 3 REPLICATE 3 3 1 100 3 (\<lambda>a. of_nat a) 0 0 0 k j)
      = [100, 100, 101, 100, 100, 101, 103, 103, 104]"
    by (simp add: window_cells_def upt_rec filter_tap_def border_coordinate_def border_type_of_def pixel_at_def sizeof_def)
  have "median_of False [100, 100, 101, 100, 100, 101, 103, 103, 104 :: u8] = 101"
    by (simp add: median_of_def lane_value_def)
  then show "median_pixel False 3 REPLICATE 3 3 1 100 3 (\<lambda>a. of_nat a) 0 0 0 = (101 :: u8)"
    by (simp only: median_pixel_def cells)
qed

lemma median_blur_image_witness:
  "let r = median_blur TYPE(8) False (median_blur_sorting_network_stripe TYPE(8) False) 100 3 200 3 3 3 1 3 3
      KLEIDICV_BORDER_TYPE_REPLICATE (\<lambda>a. of_nat a)
   in fst r = KLEIDICV_OK \<and> load_elem (pixel_at TYPE(8) 200 3 1 0 0 0) (snd r) = (101 :: u8)"
proof -
  note image = median_blur_image [OF median_example(3,4,1,2), of "\<lambda>a. of_nat a"]
  show ?thesis
    unfolding Let_def
    by (intro conjI filteredD(1) [OF image]
        trans [OF filteredD(2) [OF image le0 zero_less_numeral zero_less_numeral zero_less_one] median_example(5)])
qed

text \<open>On bytes the networks serve the sizes up to 7, whatever the histograms do.\<close>

lemma median_blur_u8_small:
  assumes "kw \<le> 7"
  shows "median_blur_u8 network_stripe sme small large False src ss dst ds w h ch kw kh b m
    = median_blur TYPE(8) False network_stripe src ss dst ds w h ch kw kh b m"
  using assms by (simp add: median_blur_u8_def median_blur_def split: sum.split)

section \<open>Threads\<close>

text \<open>The ranges of a schedule in the order in which they run: each stripe writes its rows.\<close>

lemma run_ranges_stripe_writes:
  fixes stripe :: "nat \<Rightarrow> nat \<Rightarrow> mem action" and counters :: "u32 list"
  assumes "\<And>b e m. fst (stripe b e m) = KLEIDICV_OK"
  shows "run_ranges (\<lambda>b e (sl, s). case stripe b e s of (err, s') \<Rightarrow> (err, sl, s')) rs (counters, m)
    = (replicate (length rs) KLEIDICV_OK, counters, fold (\<lambda>(b, e) m. snd (stripe b e m)) rs m)"
proof (induction rs arbitrary: m)
  case (Cons r rs)
  obtain b e where "r = (b, e)" by (cases r)
  with Cons assms [of b e m] show ?case by (cases "stripe b e m") simp
qed simp

lemma scheduled_rows:
  assumes "schedule rs (max 1 n)"
  shows "(\<Union>(b, e) \<in> set (map (batch_rows n 1) rs). {b..<e}) = {..<n}"
proof -
  have "set (concat (map (\<lambda>r. range_tasks (batch_rows n 1 r)) rs)) = set [0..<n]"
    using schedule_rows [of rs n 1] assms by (intro mset_eq_setD) simp
  then show ?thesis by (auto simp: range_tasks_def case_prod_beta atLeast0LessThan)
qed

text \<open>
  C12. The threaded median filter stores the same image as the single call, whatever ranges of rows the
  scheduler picks and in whatever order it runs them, although every range starts its own pairs of
  rows. No unit is taken from the limiter.
\<close>

theorem threaded_median_blur_image:
  assumes "scheduler mt max_tasks" and "h \<le> max_tasks" and "element_type TYPE('a::len)" and "kw \<le> 7"
    and "median_blur_validate TYPE('a) s src ss dst ds w h ch kw kh b = Inr bt"
    and "filter_memory TYPE('a) TYPE('a) w h ch src ss dst ds 0 0"
  shows "\<exists>m'. kleidicv_thread_median_blur_network KLEIDICV_OK
      (\<lambda>y_begin y_end. median_blur_sorting_network_stripe TYPE('a) s src ss dst ds w h y_begin y_end ch kw kh bt)
      stripe_sme False limiter cpu_of mt h (counters, m) = (KLEIDICV_OK, counters, m')
    \<and> filtered TYPE('a) w ch dst ds 0 0 0 h (median_pixel s kw bt w h ch src ss m) m (KLEIDICV_OK, m')"
proof -
  let ?stripe = "\<lambda>y_begin y_end. median_blur_sorting_network_stripe TYPE('a) s src ss dst ds w h y_begin y_end ch kw kh bt"
  let ?cb = "\<lambda>b e (sl :: u32 list, m). case ?stripe b e m of (err, s') \<Rightarrow> (err, sl, s')"
  note acc = median_blur_accepted [OF assms(5)]
  have "kw = 3 \<or> kw = 4 \<or> kw = 5 \<or> kw = 6 \<or> kw = 7" using acc(2) assms(4) by linarith
  with acc(3) have kw: "kw \<in> {3, 5, 7}" by auto
  have h: "0 < h" "max 1 (h div 1) \<le> max_tasks" "max 1 (h div 1) = max 1 h" using acc(2,5) assms(2) by simp_all
  obtain rs where rs: "schedule rs (max 1 (h div 1))"
    "snd (parallel_batches ?cb mt h 1 (counters, m)) = snd (run_ranges ?cb (map (batch_rows h 1) rs) (counters, m))"
    "fst (parallel_batches ?cb mt h 1 (counters, m)) = KLEIDICV_OK
      \<longleftrightarrow> (\<forall>err \<in> set (fst (run_ranges ?cb (map (batch_rows h 1) rs) (counters, m))). err = KLEIDICV_OK)"
    using scheduler.parallel_batches_runs [OF assms(1) zero_less_one h(2), of ?cb "(counters, m)"] by blast
  define f where "f = fold (\<lambda>(b, e) m. snd (?stripe b e m)) (map (batch_rows h 1) rs)"
  have "run_ranges ?cb (map (batch_rows h 1) rs) (counters, m) = (replicate (length rs) KLEIDICV_OK, counters, f m)"
    unfolding f_def using run_ranges_stripe_writes [of ?stripe "map (batch_rows h 1) rs" counters m] by (simp add: median_stripe_ok)
  with rs(2,3) have "parallel_batches ?cb mt h 1 (counters, m) = (KLEIDICV_OK, counters, f m)"
    by (simp add: prod_eq_iff)
  then have run: "kleidicv_thread_median_blur_network KLEIDICV_OK ?stripe stripe_sme False limiter cpu_of mt h (counters, m)
      = (KLEIDICV_OK, counters, f m)"
    by (simp add: kleidicv_thread_median_blur_network_def parallel_batches_with_sme_def parallel_batches_cpu_only_def)
  let ?E = "\<lambda>(b, e). {b..<e} \<times> {..<w * ch}"
  have "writes (element_of TYPE('a) (image_rows TYPE('a) dst ds ch)) (stride_bytes h (image_rows TYPE('a) src ss ch)) m
      (\<lambda>(y, e). median_pixel s kw bt w h ch src ss m y (e div ch) (e mod ch) :: 'a word)
      (\<Union>r \<in> set (map (batch_rows h 1) rs). ?E r) f"
    unfolding f_def
  proof (rule writes_fold [OF image_scattered [OF image_pair_rows [OF assms(6)]]])
    fix r
    assume "r \<in> set (map (batch_rows h 1) rs)"
    then obtain r' where r': "r' \<in> set rs" "r = batch_rows h 1 r'" by auto
    note bounds = batch_rows_bounds [OF rs(1) zero_less_one r'(1)]
    obtain b e where r: "r = (b, e)" by (cases r)
    have be: "b < e" "e \<le> h" using bounds(2,3) h(1) r r'(2) by auto
    then show "?E r \<subseteq> {..<h} \<times> {..<w * ch}" by (auto simp: r)
    have "0 < e" "b \<le> e" using be by simp_all
    from median_stripe_writes [OF assms(3) kw assms(6) this(2) be(2) this(1) acc(4-7), of m s bt kh]
    show "writes (element_of TYPE('a) (image_rows TYPE('a) dst ds ch)) (stride_bytes h (image_rows TYPE('a) src ss ch)) m
      (\<lambda>(y, e). median_pixel s kw bt w h ch src ss m y (e div ch) (e mod ch) :: 'a word) (?E r)
      ((\<lambda>(b, e) m. snd (?stripe b e m)) r)"
      by (simp add: r)
  qed
  also have "(\<Union>r \<in> set (map (batch_rows h 1) rs). ?E r) = {0..<h} \<times> {..<w * ch}"
  proof -
    have "(\<Union>r \<in> set (map (batch_rows h 1) rs). ?E r)
        = (\<Union>(b, e) \<in> set (map (batch_rows h 1) rs). {b..<e}) \<times> {..<w * ch}" by blast
    also have "\<dots> = {0..<h} \<times> {..<w * ch}"
      unfolding scheduled_rows [OF rs(1) [unfolded h(3)]] by (simp only: atLeast0LessThan)
    finally show ?thesis .
  qed
  finally have "filtered TYPE('a) w ch dst ds 0 0 0 h (median_pixel s kw bt w h ch src ss m) m (KLEIDICV_OK, f m)"
    by (rule writes_image) simp_all
  with run show ?thesis by blast
qed

lemma threaded_median_blur_image_witness:
  "\<exists>m'. kleidicv_thread_median_blur_network KLEIDICV_OK
      (\<lambda>y_begin y_end. median_blur_sorting_network_stripe TYPE(8) False 100 3 200 3 3 3 y_begin y_end 1 3 3 REPLICATE)
      (\<lambda>_ _ m. (KLEIDICV_OK, m)) False None (\<lambda>_ _. 0) (example_parallel 2) 3 ([1], \<lambda>a. of_nat a)
        = (KLEIDICV_OK, [1], m')
    \<and> load_elem (pixel_at TYPE(8) 200 3 1 0 0 0) m' = (101 :: u8)"
proof -
  from threaded_median_blur_image [OF two_workers _ median_example(3,4,1,2), of "\<lambda>_ _ m. (KLEIDICV_OK, m)" None
      "\<lambda>_ _. 0" "[1]" "\<lambda>a. of_nat a"]
  obtain m' where run: "kleidicv_thread_median_blur_network KLEIDICV_OK
      (\<lambda>y_begin y_end. median_blur_sorting_network_stripe TYPE(8) False 100 3 200 3 3 3 y_begin y_end 1 3 3 REPLICATE)
      (\<lambda>_ _ m. (KLEIDICV_OK, m)) False None (\<lambda>_ _. 0) (example_parallel 2) 3 ([1], \<lambda>a. of_nat a)
        = (KLEIDICV_OK, [1], m')"
    and image: "filtered TYPE(8) 3 1 200 3 0 0 0 3 (median_pixel False 3 REPLICATE 3 3 1 100 3 (\<lambda>a. of_nat a))
      (\<lambda>a. of_nat a) (KLEIDICV_OK, m')" by auto
  have "load_elem (pixel_at TYPE(8) 200 3 1 0 0 0) m' = (101 :: u8)"
    using trans [OF filteredD(2) [OF image le0 zero_less_numeral zero_less_numeral zero_less_one] median_example(5)]
    by simp
  with run show ?thesis by blast
qed

end
