(* ===== verification/Flip_Kernels.thy ===== *)
theory Flip_Kernels
  imports Padding_Kernels
begin

text \<open>
  The row kernels of \<^verbatim>\<open>kleidicv/src/transform/flip_neon.cpp\<close>: copying a row to the
  destination, forwards or reversed, and exchanging two rows in place, forwards or reversed. A kernel
  moves its pointers along, so the state of its loops is two pointers and the memory. Every kernel is
  shown to be one \<open>rearrange\<close>: a set of bytes, each replaced by the byte that was at another
  address before the kernel started.
\<close>

section \<open>The kernels\<close>

definition vextq :: "nat \<Rightarrow> lane list \<Rightarrow> lane list \<Rightarrow> lane list" where
  "vextq n a b = drop n a @ take n b"

definition vst1q_lanes :: "nat \<Rightarrow> lane list \<Rightarrow> mem \<Rightarrow> mem" where
  "vst1q_lanes a v = store_bytes a (concat v)"

definition reverse_lanes :: "nat \<Rightarrow> lane list \<Rightarrow> lane list" where
  "reverse_lanes es v =
     (let kHalfNumLanes = num_lanes es div 2; v = vrev64q v in vextq kHalfNumLanes v v)"

definition reverse_lanes_3 ::
    "nat \<Rightarrow> lane list \<times> lane list \<times> lane list \<Rightarrow> lane list \<times> lane list \<times> lane list" where
  "reverse_lanes_3 es vectors =
     (case vectors of (v0, v1, v2) \<Rightarrow> (reverse_lanes es v0, reverse_lanes es v1, reverse_lanes es v2))"

definition swap_reversed_pixel_block_pair :: "nat \<Rightarrow> nat \<Rightarrow> nat \<Rightarrow> nat \<Rightarrow> mem \<Rightarrow> mem" where
  "swap_reversed_pixel_block_pair es kScalarsPerPixel forward_block backward_block m =
     (if kScalarsPerPixel = 3 then
        (let fwd = vld3q es forward_block m; bwd = vld3q es backward_block m
         in vst3q es forward_block (reverse_lanes_3 es bwd)
              (vst3q es backward_block (reverse_lanes_3 es fwd) m))
      else
        (let fwd = vld1q es forward_block m; bwd = vld1q es backward_block m
         in vst1q_lanes forward_block (reverse_lanes es bwd)
              (vst1q_lanes backward_block (reverse_lanes es fwd) m)))"

definition swap_reversed_vector_pair_2x :: "nat \<Rightarrow> nat \<Rightarrow> nat \<Rightarrow> mem \<Rightarrow> mem" where
  "swap_reversed_vector_pair_2x es forward_vectors backward_vectors m =
     (case (load2 es forward_vectors m, load2 es backward_vectors m) of
        ((fwd_0, fwd_1), (bwd_0, bwd_1)) \<Rightarrow>
          store2 es (reverse_lanes es fwd_1, reverse_lanes es fwd_0) backward_vectors
            (store2 es (reverse_lanes es bwd_1, reverse_lanes es bwd_0) forward_vectors m))"

text \<open>\<^verbatim>\<open>std::swap_ranges\<close> on \<open>n\<close> scalars.\<close>

definition swap_scalars :: "nat \<Rightarrow> nat \<Rightarrow> nat \<Rightarrow> mem \<Rightarrow> mem" where
  "swap_scalars es a b m = store_bytes b (load_lane es a m) (store_bytes a (load_lane es b m) m)"

definition swap_ranges :: "nat \<Rightarrow> nat \<Rightarrow> nat \<Rightarrow> nat \<Rightarrow> mem \<Rightarrow> mem" where
  "swap_ranges es first n second = fold (\<lambda>i. swap_scalars es (first + i * es) (second + i * es)) [0..<n]"

text \<open>
  The four row kernels. \<open>es\<close> is the size of \<^verbatim>\<open>ScalarType\<close>; pointers are byte
  addresses, so a pointer moved by \<open>n\<close> scalars moves by \<open>n * es\<close>.
\<close>

type_synonym row_cursor = "nat \<times> nat \<times> mem"

definition copy_row_to_dst :: "nat \<Rightarrow> nat \<Rightarrow> nat \<Rightarrow> nat \<Rightarrow> nat \<Rightarrow> mem \<Rightarrow> mem" where
  "copy_row_to_dst es kScalarsPerPixel src_row dst_row row_width_in_pixels m =
     (let kScalarsPerVec = num_lanes es; kScalarsPer2Vecs = kScalarsPerVec * 2;
          column_loop = LoopUnroll2 0 (row_width_in_pixels * kScalarsPerPixel) kScalarsPerVec;
          twice = (\<lambda>_ (src, dst, m).
            (src + kScalarsPer2Vecs * es, dst + kScalarsPer2Vecs * es, store2 es (load2 es src m) dst m));
          once = (\<lambda>_ (src, dst, m).
            (src + kScalarsPerVec * es, dst + kScalarsPerVec * es, vst1q_lanes dst (vld1q es src m) m));
          rest = (\<lambda>tail_begin tail_end (src, dst, m).
            (src, dst, memcpy dst src ((tail_end - tail_begin) * es) m))
      in snd (snd (snd (remaining2 rest (unroll_once2 False once (unroll_twice2 False twice
           (column_loop, (src_row, dst_row, m))))))))"

definition copy_reversed_row_to_dst :: "nat \<Rightarrow> nat \<Rightarrow> nat \<Rightarrow> nat \<Rightarrow> nat \<Rightarrow> mem \<Rightarrow> mem" where
  "copy_reversed_row_to_dst es kScalarsPerPixel src_row dst_row row_width_in_pixels m =
     (let kNumLanes = num_lanes es; kScalarsPerBlock = kNumLanes * kScalarsPerPixel;
          kScalarsPer2Blocks = kScalarsPerBlock * 2;
          column_loop = LoopUnroll2 0 row_width_in_pixels kNumLanes;
          dst_end = dst_row + row_width_in_pixels * kScalarsPerPixel * es;
          twice = (\<lambda>_ (src, dst, m).
            let dst = dst - kScalarsPer2Blocks * es in
            (src + kScalarsPer2Blocks * es, dst,
             if kScalarsPerPixel = 3 then
               (let vectors_0 = vld3q es src m; vectors_1 = vld3q es (src + kScalarsPerBlock * es) m
                in vst3q es (dst + kScalarsPerBlock * es) (reverse_lanes_3 es vectors_0)
                     (vst3q es dst (reverse_lanes_3 es vectors_1) m))
             else
               (case load2 es src m of (pixels_0, pixels_1) \<Rightarrow>
                  store2 es (reverse_lanes es pixels_1, reverse_lanes es pixels_0) dst m)));
          once = (\<lambda>_ (src, dst, m).
            let dst = dst - kScalarsPerBlock * es in
            (src + kScalarsPerBlock * es, dst,
             if kScalarsPerPixel = 3 then vst3q es dst (reverse_lanes_3 es (vld3q es src m)) m
             else vst1q_lanes dst (reverse_lanes es (vld1q es src m)) m));
          pixel = (\<lambda>_ (src, dst, m).
            let dst = dst - kScalarsPerPixel * es in
            (src + kScalarsPerPixel * es, dst, memcpy dst src (kScalarsPerPixel * es) m))
      in snd (snd (snd (tail2 pixel (unroll_once2 False once (unroll_twice2 False twice
           (column_loop, (src_row, dst_end, m))))))))"

definition swap_row_pair_in_place :: "nat \<Rightarrow> nat \<Rightarrow> nat \<Rightarrow> nat \<Rightarrow> nat \<Rightarrow> mem \<Rightarrow> mem" where
  "swap_row_pair_in_place es kScalarsPerPixel top_row bottom_row row_width_in_pixels m =
     (let kScalarsPerVec = num_lanes es; kScalarsPer2Vecs = kScalarsPerVec * 2;
          column_loop = LoopUnroll2 0 (row_width_in_pixels * kScalarsPerPixel) kScalarsPerVec;
          twice = (\<lambda>_ (top_row, bottom_row, m).
            let top_scalars = load2 es top_row m; bottom_scalars = load2 es bottom_row m
            in (top_row + kScalarsPer2Vecs * es, bottom_row + kScalarsPer2Vecs * es,
                store2 es bottom_scalars top_row (store2 es top_scalars bottom_row m)));
          once = (\<lambda>_ (top_row, bottom_row, m).
            let top_scalars = vld1q es top_row m; bottom_scalars = vld1q es bottom_row m
            in (top_row + kScalarsPerVec * es, bottom_row + kScalarsPerVec * es,
                vst1q_lanes bottom_row top_scalars (vst1q_lanes top_row bottom_scalars m)));
          rest = (\<lambda>tail_begin tail_end (top_row, bottom_row, m).
            (top_row, bottom_row, swap_ranges es top_row (tail_end - tail_begin) bottom_row m))
      in snd (snd (snd (remaining2 rest (unroll_once2 False once (unroll_twice2 False twice
           (column_loop, (top_row, bottom_row, m))))))))"

definition swap_reversed_row_pair_in_place :: "nat \<Rightarrow> nat \<Rightarrow> nat \<Rightarrow> nat \<Rightarrow> nat \<Rightarrow> nat \<Rightarrow> mem \<Rightarrow> mem" where
  "swap_reversed_row_pair_in_place es kScalarsPerPixel top_row_start bottom_row_start
     row_width_in_pixels num_pixel_pairs_to_swap m =
     (let kScalarsPerVector = num_lanes es; kScalarsPerBlock = kScalarsPerVector * kScalarsPerPixel;
          kScalarsPer2Blocks = kScalarsPerBlock * 2;
          column_loop = LoopUnroll2 0 num_pixel_pairs_to_swap kScalarsPerVector;
          backward_end = bottom_row_start + row_width_in_pixels * kScalarsPerPixel * es;
          twice = (\<lambda>_ (forward, backward, m).
            let backward = backward - kScalarsPer2Blocks * es in
            (forward + kScalarsPer2Blocks * es, backward,
             swap_reversed_vector_pair_2x es forward backward m));
          once = (\<lambda>_ (forward, backward, m).
            let backward = backward - kScalarsPerBlock * es in
            (forward + kScalarsPerBlock * es, backward,
             swap_reversed_pixel_block_pair es kScalarsPerPixel forward backward m));
          pixel = (\<lambda>_ (forward, backward, m).
            let backward = backward - kScalarsPerPixel * es in
            (forward + kScalarsPerPixel * es, backward,
             swap_ranges es forward kScalarsPerPixel backward m))
      in snd (snd (snd (tail2 pixel (unroll_once2 False once
           (unroll_twice_if2 (kScalarsPerPixel \<noteq> 3) False twice
             (column_loop, (top_row_start, backward_end, m))))))))"

section \<open>An invariant rule for the loops\<close>

text \<open>
  \<open>I i s\<close>: the loop has the state \<open>s\<close> after the first \<open>i\<close> elements. A rule for every part of a
  chain of loops.
\<close>

definition loop_at :: "(nat \<Rightarrow> 's \<Rightarrow> bool) \<Rightarrow> nat \<Rightarrow> nat \<Rightarrow> loop_unroll2 \<times> 's \<Rightarrow> bool" where
  "loop_at I len step st \<longleftrightarrow>
     (case st of (lp, s) \<Rightarrow> l2_length lp = len \<and> l2_step lp = step \<and> l2_index lp \<le> len \<and> I (l2_index lp) s)"

lemma loop_at_start: "I 0 s \<Longrightarrow> loop_at I len step (LoopUnroll2 0 len step, s)"
  by (simp add: loop_at_def LoopUnroll2_def)

lemma vector_loop_invariant:
  assumes "I index s" and "0 < n" and "index + q * n \<le> len"
    and "\<And>i s. I i s \<Longrightarrow> i + n \<le> len \<Longrightarrow> I (i + n) (cb i s)"
  shows "fst (vector_loop n (index + q * n) cb index s) = index + q * n
    \<and> I (index + q * n) (snd (vector_loop n (index + q * n) cb index s))"
  using assms(1,3)
proof (induction q arbitrary: index s)
  case 0
  then show ?case by (simp add: vector_loop_stops)
next
  case (Suc q)
  have "vector_loop n (index + Suc q * n) cb index s
      = vector_loop n (index + n + q * n) cb (index + n) (cb index s)"
    using assms(2) by (subst vector_loop.simps) (simp add: add.assoc)
  moreover have "I (index + n) (cb index s)" using Suc.prems by (intro assms(4)) simp_all
  ultimately show ?case using Suc.IH [of "index + n" "cb index s"] Suc.prems(2) by (simp add: add.assoc)
qed

lemma loop_at_unroll:
  assumes "loop_at I len step st" and "0 < k * step"
    and "\<And>i s. I i s \<Longrightarrow> i + k * step \<le> len \<Longrightarrow> I (i + k * step) (cb i s)"
  shows "loop_at I len step (unroll_n_times2 False k cb st)"
proof -
  obtain lp s where st: "st = (lp, s)" by (cases st)
  with assms(1) have lp: "l2_length lp = len" "l2_step lp = step" "l2_index lp \<le> len" "I (l2_index lp) s"
    by (simp_all add: loop_at_def)
  have le: "l2_index lp + (len - l2_index lp) div (k * step) * (k * step) \<le> len"
    using lp(3) div_times_less_eq_dividend [of "len - l2_index lp" "k * step"] by linarith
  from vector_loop_invariant [of I, OF lp(4) assms(2) le assms(3)] le lp show ?thesis
    by (simp add: loop_at_def st unroll_n_times2_def remaining_length2_def Let_def case_prod_beta)
qed

lemma loop_at_twice:
  assumes "loop_at I len step st" and "0 < step"
    and "\<And>i s. I i s \<Longrightarrow> i + 2 * step \<le> len \<Longrightarrow> I (i + 2 * step) (cb i s)"
  shows "loop_at I len step (unroll_twice2 False cb st)"
  unfolding unroll_twice2_def by (rule loop_at_unroll [OF assms(1)]) (use assms(2,3) in auto)

lemma loop_at_once:
  assumes "loop_at I len step st" and "0 < step"
    and "\<And>i s. I i s \<Longrightarrow> i + step \<le> len \<Longrightarrow> I (i + step) (cb i s)"
  shows "loop_at I len step (unroll_once2 False cb st)"
  unfolding unroll_once2_def by (rule loop_at_unroll [OF assms(1)]) (use assms(2,3) in auto)

lemma loop_at_tail:
  assumes "loop_at I len step st" and "\<And>i s. I i s \<Longrightarrow> i < len \<Longrightarrow> I (i + 1) (cb i s)"
  shows "I len (snd (tail2 cb st))"
proof -
  obtain lp s where st: "st = (lp, s)" by (cases st)
  with assms(1) have lp: "l2_length lp = len" "l2_index lp \<le> len" "I (l2_index lp) s"
    by (simp_all add: loop_at_def)
  have "I (l2_index lp + n) (fold cb [l2_index lp..<l2_index lp + n] s)" if "l2_index lp + n \<le> len" for n
    using that
  proof (induction n)
    case (Suc n)
    then show ?case using assms(2) [of "l2_index lp + n"] by simp
  qed (simp add: lp)
  from this [of "len - l2_index lp"] lp show ?thesis by (simp add: st tail2_def)
qed

lemma loop_at_remaining:
  assumes "loop_at I len step st" and "\<And>i s. I i s \<Longrightarrow> i < len \<Longrightarrow> Q (cb i len s)"
    and "\<And>s. I len s \<Longrightarrow> Q s"
  shows "Q (snd (remaining2 cb st))"
  using assms by (cases st) (auto simp: loop_at_def remaining2_def remaining_length2_def)

section \<open>Rearranged bytes\<close>

definition rearrange :: "nat set \<Rightarrow> (nat \<Rightarrow> nat) \<Rightarrow> mem \<Rightarrow> mem" where
  "rearrange W g m = (\<lambda>a. if a \<in> W then m (g a) else m a)"

lemma rearrange_in: "a \<in> W \<Longrightarrow> rearrange W g m a = m (g a)"
  by (simp add: rearrange_def)

lemma rearrange_out: "a \<notin> W \<Longrightarrow> rearrange W g m a = m a"
  by (simp add: rearrange_def)

lemma rearrange_empty [simp]: "rearrange {} g m = m"
  by (simp add: rearrange_def)

lemma rearrange_cong: "W = W' \<Longrightarrow> (\<And>a. a \<in> W' \<Longrightarrow> g a = g' a) \<Longrightarrow> rearrange W g m = rearrange W' g' m"
  by (auto simp: rearrange_def fun_eq_iff)

text \<open>
  One more block, the bytes of which come from places that have not been written yet.
\<close>

lemma rearrange_block:
  assumes "{d..<d + n} \<inter> W = {}" and "\<And>k. k < n \<Longrightarrow> h k = g (d + k) \<and> g (d + k) \<notin> W"
  shows "put_block d n (\<lambda>k. rearrange W g m (h k)) (rearrange W g m) = rearrange (W \<union> {d..<d + n}) g m"
proof (rule mem_block_eq [of n _ d])
  fix k
  assume k: "k < n"
  then have "put_block d n (\<lambda>k. rearrange W g m (h k)) (rearrange W g m) (d + k) = rearrange W g m (h k)"
    by (rule put_block_in)
  also have "\<dots> = m (g (d + k))" using assms(2) [OF k] by (simp add: rearrange_out)
  finally show "put_block d n (\<lambda>k. rearrange W g m (h k)) (rearrange W g m) (d + k)
      = rearrange (W \<union> {d..<d + n}) g m (d + k)"
    using k by (simp add: rearrange_in)
next
  fix a
  assume "a < d \<or> d + n \<le> a"
  then show "put_block d n (\<lambda>k. rearrange W g m (h k)) (rearrange W g m) a = rearrange (W \<union> {d..<d + n}) g m a"
    by (auto simp: put_block_out rearrange_def)
qed

text \<open>Two blocks exchanged, with the bytes of each in an order of its own.\<close>

lemma rearrange_pair:
  assumes "{d..<d + n} \<inter> W = {}" and "{e..<e + n} \<inter> W = {}" and "{d..<d + n} \<inter> {e..<e + n} = {}"
    and "\<And>k. k < n \<Longrightarrow> h k = g (d + k) \<and> g (d + k) \<in> {e..<e + n}"
    and "\<And>k. k < n \<Longrightarrow> h' k = g (e + k) \<and> g (e + k) \<in> {d..<d + n}"
  shows "put_block d n (\<lambda>k. rearrange W g m (h k)) (put_block e n (\<lambda>k. rearrange W g m (h' k)) (rearrange W g m))
    = rearrange (W \<union> {d..<d + n} \<union> {e..<e + n}) g m"
proof
  fix a
  let ?m = "rearrange W g m"
  consider (d) "a \<in> {d..<d + n}" | (e) "a \<in> {e..<e + n}" "a \<notin> {d..<d + n}"
    | (rest) "a \<notin> {d..<d + n}" "a \<notin> {e..<e + n}" by blast
  then show "put_block d n (\<lambda>k. ?m (h k)) (put_block e n (\<lambda>k. ?m (h' k)) ?m) a
      = rearrange (W \<union> {d..<d + n} \<union> {e..<e + n}) g m a"
  proof cases
    case d
    then have k: "a = d + (a - d)" "a - d < n" by auto
    with assms(4) [OF k(2)] have "h (a - d) = g a" "g a \<in> {e..<e + n}" by simp_all
    moreover have "g a \<notin> W" using calculation(2) assms(2) by blast
    moreover have "put_block d n (\<lambda>k. ?m (h k)) m' a = ?m (h (a - d))" for m'
      using put_block_in [OF k(2), of d] k(1) by metis
    ultimately show ?thesis using d by (simp add: rearrange_def)
  next
    case e
    then have k: "a = e + (a - e)" "a - e < n" by auto
    with assms(5) [OF k(2)] have "h' (a - e) = g a" "g a \<in> {d..<d + n}" by simp_all
    moreover have "g a \<notin> W" using calculation(2) assms(1) by blast
    moreover have "put_block e n (\<lambda>k. ?m (h' k)) m' a = ?m (h' (a - e))" for m'
      using put_block_in [OF k(2), of e] k(1) by metis
    moreover have "put_block d n (\<lambda>k. ?m (h k)) m' a = m' a" for m'
      using e(2) by (intro put_block_out) auto
    ultimately show ?thesis using e by (simp add: rearrange_def)
  next
    case rest
    then show ?thesis by (auto simp: put_block_out rearrange_def)
  qed
qed

section \<open>Vectors in and out\<close>

lemma vld1q_bytes_length [simp]: "length (vld1q es a m) = num_lanes es"
  by (simp add: vld1q_def)

lemma reverse_lanes_rev:
  assumes "even (num_lanes es)" and "length v = num_lanes es"
  shows "reverse_lanes es v = rev v"
  using reverse_packed_vector_lanes_rev [of v] assms
  by (simp add: reverse_lanes_def reverse_packed_vector_lanes_def vextq_def vcombine_def vget_low_def
      vget_high_def vrev64q_def Let_def)

lemma store_vector:
  assumes "lane_size es"
  shows "vst1q_lanes a (vld1q es s m) m' = put_block a 16 (\<lambda>k. m (s + k)) m'"
  using store_lanes_put [of "num_lanes es" "\<lambda>i. load_lane es (s + i * es) m" es "\<lambda>k. m (s + k)" a m']
  by (simp add: vst1q_lanes_def vld1q_def lane_size_facts [OF assms] add.assoc)

lemma store_two_vectors:
  assumes "lane_size es"
  shows "store2 es (load2 es s m) a m' = put_block a 32 (\<lambda>k. m (s + k)) m'"
  using put_block_append [of a 16 16 "\<lambda>k. m (s + k)" m']
    store_vector [OF assms, of a s m] store_vector [OF assms, of "a + 16" "s + 16" m]
  by (simp add: store2_def load2_def vst1q_lanes_def lane_size_facts [OF assms] add.assoc)

text \<open>\<open>turned s n P k\<close>: byte \<open>k\<close> of the run of \<open>n\<close> bytes at \<open>s\<close> with its pixels in reverse order.\<close>

definition turned :: "nat \<Rightarrow> nat \<Rightarrow> nat \<Rightarrow> nat \<Rightarrow> nat" where
  "turned s n P k = s + (n - P) - k div P * P + k mod P"

lemma turned_pixel: "j < P \<Longrightarrow> turned s n P (i * P + j) = s + (n - P) - i * P + j"
  by (simp add: turned_def)

lemma turned_lane:
  assumes "i < n" and "j < P"
  shows "turned s (n * P) P (i * P + j) = s + (n - 1 - i) * P + j"
proof -
  from assms(1) have "n = Suc ((n - 1 - i) + i)" by simp
  then have "n * P = (n - 1 - i) * P + i * P + P" by (metis add_mult_distrib add.commute mult_Suc)
  then show ?thesis using assms(2) by (simp add: turned_pixel)
qed

lemma store_reversed:
  assumes "lane_size es"
  shows "vst1q_lanes a (reverse_lanes es (vld1q es s m)) m' = put_block a 16 (\<lambda>k. m (turned s 16 es k)) m'"
proof -
  note es = lane_size_facts [OF assms]
  have "reverse_lanes es (vld1q es s m)
      = map (\<lambda>i. load_lane es (s + (num_lanes es - 1 - i) * es) m) [0..<num_lanes es]"
    by (simp only: reverse_lanes_rev [OF es(5) vld1q_bytes_length]) (simp only: vld1q_def rev_map_upt)
  moreover have "load_lane es (s + (num_lanes es - 1 - i) * es) m ! j = m (turned s 16 es (i * es + j))"
    if "i < num_lanes es" "j < es" for i j
    using turned_lane [OF that, of s] that es(2) by simp
  ultimately show ?thesis
    using store_lanes_put [of "num_lanes es" "\<lambda>i. load_lane es (s + (num_lanes es - 1 - i) * es) m" es
        "\<lambda>k. m (turned s 16 es k)" a m'] es(2)
    by (simp add: vst1q_lanes_def)
qed

text \<open>Reversing a run of pixels is reversing its two parts and exchanging them.\<close>

lemma turned_shift:
  assumes "P dvd i" and "i + P \<le> n"
  shows "turned s n P (i + k) = turned s (n - i) P k"
proof (cases "P = 0")
  case True
  with assms show ?thesis by simp
next
  case False
  with assms show ?thesis by (auto simp: turned_def algebra_simps elim!: dvdE)
qed

lemma turned_later:
  assumes "p \<le> n" and "p \<le> n'" and "s + n = s' + n'"
  shows "turned s n p k = turned s' n' p k"
  using assms by (simp add: turned_def)

lemma turned_bounds:
  assumes "0 < P" and "k < n" and "P dvd n"
  shows "s \<le> turned s n P k" and "turned s n P k < s + n"
proof -
  from assms(3) obtain q where n: "n = q * P" by (metis dvd_def mult.commute)
  have k: "k div P < q" using assms n by (simp add: less_mult_imp_div_less)
  have "turned s n P k = s + (q - 1 - k div P) * P + k mod P"
    using turned_lane [OF k, of "k mod P" P s] assms(1) by (simp add: n)
  moreover have "(q - 1 - k div P) * P + k mod P < (q - 1 - k div P + 1) * P" using assms(1) by simp
  moreover have "\<dots> \<le> q * P" using k by (intro mult_le_mono1) simp
  ultimately show "s \<le> turned s n P k" and "turned s n P k < s + n" using n by linarith+
qed

lemma store_two_reversed:
  assumes "lane_size es" and "load2 es s m = (v0, v1)"
  shows "store2 es (reverse_lanes es v1, reverse_lanes es v0) a m' = put_block a 32 (\<lambda>k. m (turned s 32 es k)) m'"
proof -
  note es = lane_size_facts [OF assms(1)]
  have v: "v0 = vld1q es s m" "v1 = vld1q es (s + 16) m" using assms(2) es by (simp_all add: load2_def)
  have le: "es \<le> 16" using es(3) by (auto intro: dvd_imp_le)
  have low: "turned (s + 16) 16 es k = turned s 32 es k" for k by (rule turned_later) (use le in auto)
  have high: "turned s 16 es k = turned s 32 es (16 + k)" for k
    using turned_shift [of es 16 32 s k] es(3) le by simp
  have "store2 es (reverse_lanes es v1, reverse_lanes es v0) a m'
      = vst1q_lanes (a + 16) (reverse_lanes es (vld1q es s m))
          (vst1q_lanes a (reverse_lanes es (vld1q es (s + 16) m)) m')"
    by (simp add: store2_def vst1q_lanes_def v es(2))
  also have "\<dots> = put_block (a + 16) 16 (\<lambda>k. m (turned s 32 es (16 + k))) (put_block a 16 (\<lambda>k. m (turned s 32 es k)) m')"
    by (simp only: store_reversed [OF assms(1)] low high)
  also have "\<dots> = put_block a 32 (\<lambda>k. m (turned s 32 es k)) m'"
    using put_block_append [of a 16 16 "\<lambda>k. m (turned s 32 es k)" m'] by simp
  finally show ?thesis .
qed

lemma interleaved_pixel:
  "load_lane es (b + (3 * k + 0) * es) m @ load_lane es (b + (3 * k + 1) * es) m
    @ load_lane es (b + (3 * k + 2) * es) m = load_lane (3 * es) (b + k * (3 * es)) m"
proof -
  have "load_lane es c m @ load_lane es (c + es) m @ load_lane es (c + es + es) m = load_lane (3 * es) c m" for c
    by (simp only: load_lane_append) (simp add: numeral_3_eq_3)
  from this [of "b + k * (3 * es)"] show ?thesis by (simp add: add_mult_distrib algebra_simps)
qed

lemma store_reversed_3:
  assumes "lane_size es"
  shows "vst3q es a (reverse_lanes_3 es (vld3q es s m)) m'
    = put_block a 48 (\<lambda>k. m (turned s 48 (3 * es) k)) m'"
proof -
  note es = lane_size_facts [OF assms]
  let ?n = "num_lanes es"
  let ?v = "\<lambda>i. load_lane (3 * es) (s + (?n - 1 - i) * (3 * es)) m"
  have rev: "reverse_lanes es (map v [0..<?n]) = map (\<lambda>i. v (?n - 1 - i)) [0..<?n]" for v
    using reverse_lanes_rev [OF es(5), of "map v [0..<?n]"] by (simp add: rev_map_upt)
  have "vst3q es a (reverse_lanes_3 es (vld3q es s m)) m' = store_bytes a (concat (map ?v [0..<?n])) m'"
    unfolding vst3q_def reverse_lanes_3_def vld3q_def Let_def prod.case rev join_lanes interleaved_pixel
    by (rule refl)
  also have "\<dots> = put_block a (?n * (3 * es)) (\<lambda>k. m (turned s 48 (3 * es) k)) m'"
  proof (rule store_lanes_put)
    fix i j
    assume "i < ?n" "j < 3 * es"
    from turned_lane [OF this, of s] this show "?v i ! j = m (turned s 48 (3 * es) (i * (3 * es) + j))"
      by (simp add: es(6))
  qed simp
  finally show ?thesis by (simp add: es)
qed

text \<open>
  \<open>exchanged a b n\<close>: where the bytes of two blocks of \<open>n\<close> bytes come from that are exchanged. A
  prefix that has been exchanged grows by one block of each.
\<close>

definition exchanged :: "nat \<Rightarrow> nat \<Rightarrow> nat \<Rightarrow> nat \<Rightarrow> nat" where
  "exchanged a b n x = (if x \<in> {a..<a + n} then b + (x - a) else a + (x - b))"

definition both :: "nat \<Rightarrow> nat \<Rightarrow> nat \<Rightarrow> nat set" where
  "both a b n = {a..<a + n} \<union> {b..<b + n}"

lemma exchanged_first [simp]: "k < n \<Longrightarrow> exchanged a b n (a + k) = b + k"
  by (simp add: exchanged_def)

lemma exchanged_second:
  assumes "{a..<a + n} \<inter> {b..<b + n} = {}" and "k < n"
  shows "exchanged a b n (b + k) = a + k"
proof -
  have "b + k \<in> {b..<b + n}" using assms(2) by simp
  with assms(1) have "b + k \<notin> {a..<a + n}" by blast
  then show ?thesis by (simp add: exchanged_def del: atLeastLessThan_iff)
qed

lemma exchange_grow:
  assumes dis: "{a..<a + n} \<inter> {b..<b + n} = {}" and le: "i + q \<le> n"
    and s: "s = rearrange (both a b i) (exchanged a b n) m"
  shows "put_block (a + i) q (\<lambda>k. s (b + i + k)) (put_block (b + i) q (\<lambda>k. s (a + i + k)) s)
      = rearrange (both a b (i + q)) (exchanged a b n) m" (is ?first)
    and "put_block (b + i) q (\<lambda>k. s (a + i + k)) (put_block (a + i) q (\<lambda>k. s (b + i + k)) s)
      = rearrange (both a b (i + q)) (exchanged a b n) m" (is ?second)
proof -
  let ?A = "{a + i..<a + i + q}" and ?B = "{b + i..<b + i + q}" and ?g = "exchanged a b n"
  have sub: "?A \<subseteq> {a..<a + n}" "?B \<subseteq> {b..<b + n}" "{a..<a + i} \<subseteq> {a..<a + n}" "{b..<b + i} \<subseteq> {b..<b + n}"
    using le by auto
  have off: "?A \<inter> both a b i = {}" "?B \<inter> both a b i = {}" "?A \<inter> ?B = {}"
  proof -
    have "?A \<inter> {a..<a + i} = {}" "?B \<inter> {b..<b + i} = {}" by auto
    then show "?A \<inter> both a b i = {}" "?B \<inter> both a b i = {}" "?A \<inter> ?B = {}"
      using dis sub unfolding both_def by blast+
  qed
  have union: "both a b i \<union> ?A \<union> ?B = both a b (i + q)" "both a b i \<union> ?B \<union> ?A = both a b (i + q)"
    unfolding both_def by auto
  have source: "b + i + k = ?g (a + i + k) \<and> ?g (a + i + k) \<in> ?B"
    "a + i + k = ?g (b + i + k) \<and> ?g (b + i + k) \<in> ?A" if "k < q" for k
    using that le exchanged_first [of "i + k" n a b] exchanged_second [OF dis, of "i + k"]
    by (simp_all add: add.assoc)
  have BA: "?B \<inter> ?A = {}" using off(3) by blast
  show ?first
    unfolding s union(1) [symmetric] by (rule rearrange_pair [OF off]) (rule source, assumption)+
  show ?second
    unfolding s union(2) [symmetric] by (rule rearrange_pair [OF off(2,1) BA]) (rule source, assumption)+
qed

lemma store_lane: "store_bytes a (load_lane es s m) m' = put_block a es (\<lambda>k. m (s + k)) m'"
  unfolding store_bytes_put_block load_lane_length by (rule put_block_cong) simp

lemma swap_ranges_grow:
  assumes dis: "{a..<a + n} \<inter> {b..<b + n} = {}" and le: "i + q * es \<le> n"
    and s: "s = rearrange (both a b i) (exchanged a b n) m"
  shows "swap_ranges es (a + i) q (b + i) s = rearrange (both a b (i + q * es)) (exchanged a b n) m"
  using le
proof (induction q)
  case 0
  then show ?case by (simp add: swap_ranges_def s)
next
  case (Suc q)
  define t where "t = swap_ranges es (a + i) q (b + i) s"
  have t: "t = rearrange (both a b (i + q * es)) (exchanged a b n) m"
    unfolding t_def using Suc by simp
  have "swap_ranges es (a + i) (Suc q) (b + i) s = swap_scalars es (a + (i + q * es)) (b + (i + q * es)) t"
    by (simp add: swap_ranges_def t_def add.assoc)
  also have "\<dots> = put_block (b + (i + q * es)) es (\<lambda>k. t (a + (i + q * es) + k))
      (put_block (a + (i + q * es)) es (\<lambda>k. t (b + (i + q * es) + k)) t)"
    by (simp only: swap_scalars_def store_lane)
  also have "\<dots> = rearrange (both a b (i + q * es + es)) (exchanged a b n) m"
    by (rule exchange_grow(2) [OF dis _ t]) (use Suc.prems in simp)
  finally show ?case by (simp add: add.commute add.left_commute)
qed

lemma swap_ranges_blocks:
  assumes "{a..<a + n * es} \<inter> {b..<b + n * es} = {}"
  shows "swap_ranges es a n b m
    = put_block a (n * es) (\<lambda>k. m (b + k)) (put_block b (n * es) (\<lambda>k. m (a + k)) m)"
  using swap_ranges_grow [OF assms, of 0 n es m m] exchange_grow(1) [OF assms, of 0 "n * es" m m]
  by (simp add: both_def)

section \<open>The kernels as rearrangements\<close>

lemma copy_grow:
  assumes "{src..<src + n} \<inter> {dst..<dst + n} = {}" and "i + q \<le> n"
    and s: "s = rearrange {dst..<dst + i} (\<lambda>a. src + (a - dst)) m"
  shows "put_block (dst + i) q (\<lambda>k. s (src + i + k)) s = rearrange {dst..<dst + (i + q)} (\<lambda>a. src + (a - dst)) m"
proof -
  have "src + i + k \<notin> {dst..<dst + n}" if "k < q" for k
  proof -
    have "src + i + k \<in> {src..<src + n}" using that assms(2) by simp
    with assms(1) show ?thesis by blast
  qed
  then have "put_block (dst + i) q (\<lambda>k. s (src + i + k)) s
      = rearrange ({dst..<dst + i} \<union> {dst + i..<dst + i + q}) (\<lambda>a. src + (a - dst)) m"
    unfolding s using assms(2) by (intro rearrange_block) (fastforce simp: add.assoc)+
  also have "{dst..<dst + i} \<union> {dst + i..<dst + i + q} = {dst..<dst + (i + q)}" by auto
  finally show ?thesis .
qed

text \<open>The rules for the two shapes of the row kernels.\<close>

lemma row_loop_rest:
  assumes "0 < step" and "I 0 c"
    and "\<And>i c. I i c \<Longrightarrow> i + 2 * step \<le> len \<Longrightarrow> I (i + 2 * step) (twice i c)"
    and "\<And>i c. I i c \<Longrightarrow> i + step \<le> len \<Longrightarrow> I (i + step) (once i c)"
    and "\<And>i c. I i c \<Longrightarrow> i < len \<Longrightarrow> snd (snd (rest i len c)) = m'"
    and "\<And>c. I len c \<Longrightarrow> snd (snd c) = m'"
  shows "snd (snd (snd (remaining2 rest (unroll_once2 False once (unroll_twice2 False twice
      (LoopUnroll2 0 len step, c)))))) = m'"
proof -
  have "loop_at I len step (unroll_once2 False once (unroll_twice2 False twice (LoopUnroll2 0 len step, c)))"
    by (rule loop_at_once [OF loop_at_twice [OF loop_at_start [of I, OF assms(2)] assms(1,3)] assms(1,4)])
  then show ?thesis by (rule loop_at_remaining [where Q = "\<lambda>c. snd (snd c) = m'"]) (rule assms(5,6), assumption+)+
qed

lemma row_loop_tail:
  assumes "0 < step" and "I 0 c"
    and "\<And>i c. enable \<Longrightarrow> I i c \<Longrightarrow> i + 2 * step \<le> len \<Longrightarrow> I (i + 2 * step) (twice i c)"
    and "\<And>i c. I i c \<Longrightarrow> i + step \<le> len \<Longrightarrow> I (i + step) (once i c)"
    and "\<And>i c. I i c \<Longrightarrow> i + 1 \<le> len \<Longrightarrow> I (i + 1) (pixel i c)"
    and "\<And>c. I len c \<Longrightarrow> snd (snd c) = m'"
  shows "snd (snd (snd (tail2 pixel (unroll_once2 False once (unroll_twice_if2 enable False twice
      (LoopUnroll2 0 len step, c)))))) = m'"
proof -
  have "loop_at I len step (unroll_twice_if2 enable False twice (LoopUnroll2 0 len step, c))"
  proof (cases enable)
    case True
    then show ?thesis
      using loop_at_twice [OF loop_at_start [of I, OF assms(2)] assms(1) assms(3) [OF True]] by (simp add: unroll_twice_if2_def)
  qed (simp add: unroll_twice_if2_def loop_at_start assms(2))
  from loop_at_once [OF this assms(1,4)]
  have "I len (snd (tail2 pixel (unroll_once2 False once (unroll_twice_if2 enable False twice
      (LoopUnroll2 0 len step, c)))))"
    by (rule loop_at_tail) (assumption+, rule assms(5), assumption, linarith)
  then show ?thesis by (rule assms(6))
qed

lemma unroll_twice_always: "unroll_twice2 False twice st = unroll_twice_if2 True False twice st"
  by (simp add: unroll_twice_if2_def)

lemma lanes_positive: "lane_size es \<Longrightarrow> 0 < num_lanes es"
  using lane_size_facts(2) [of es] by (cases "num_lanes es") auto

lemma two_vectors: "lane_size es \<Longrightarrow> num_lanes es * 2 * es = 32" "lane_size es \<Longrightarrow> 2 * num_lanes es * es = 32"
  by (auto simp: lane_size_def num_lanes_def kVectorLength_def)

lemma memcpy_put_block: "memcpy dst src n m = put_block dst n (\<lambda>k. m (src + k)) m"
  by (simp only: memcpy_gather gather_put_block)

lemma copy_row_to_dst_rearrange:
  assumes es: "lane_size es" and n: "n = w * S * es"
    and dis: "{src..<src + n} \<inter> {dst..<dst + n} = {}"
  shows "copy_row_to_dst es S src dst w m = rearrange {dst..<dst + n} (\<lambda>a. src + (a - dst)) m"
proof -
  define I where "I = (\<lambda>i (p, q, s). p = src + i * es \<and> q = dst + i * es
    \<and> s = rearrange {dst..<dst + i * es} (\<lambda>a. src + (a - dst)) m)"
  have grow: "put_block (dst + i * es) (c * es) (\<lambda>k. s (src + i * es + k)) s
      = rearrange {dst..<dst + (i + c) * es} (\<lambda>a. src + (a - dst)) m"
    if "i + c \<le> w * S" "s = rearrange {dst..<dst + i * es} (\<lambda>a. src + (a - dst)) m" for i c s
    using copy_grow [OF dis _ that(2), of "c * es"] mult_le_mono1 [OF that(1), of es]
    by (simp add: n add_mult_distrib)
  note vectors = lane_size_facts(2) [OF es] two_vectors [OF es]
  show ?thesis
    unfolding copy_row_to_dst_def Let_def
  proof (rule row_loop_rest [where I = I, OF lanes_positive [OF es]])
    show "I 0 (src, dst, m)" by (simp add: I_def)
  next
    fix i c
    assume "I i c" "i + 2 * num_lanes es \<le> w * S"
    with grow [of i "2 * num_lanes es"]
    show "I (i + 2 * num_lanes es) (case c of (src, dst, m) \<Rightarrow>
        (src + num_lanes es * 2 * es, dst + num_lanes es * 2 * es, store2 es (load2 es src m) dst m))"
      by (auto simp: I_def store_two_vectors [OF es] add_mult_distrib vectors)
  next
    fix i c
    assume "I i c" "i + num_lanes es \<le> w * S"
    with grow [of i "num_lanes es"]
    show "I (i + num_lanes es) (case c of (src, dst, m) \<Rightarrow>
        (src + num_lanes es * es, dst + num_lanes es * es, vst1q_lanes dst (vld1q es src m) m))"
      by (auto simp: I_def store_vector [OF es] add_mult_distrib vectors)
  next
    fix i c
    assume "I i c" "i < w * S"
    with grow [of i "w * S - i"]
    show "snd (snd (case c of (src, dst, m) \<Rightarrow> (src, dst, memcpy dst src ((w * S - i) * es) m)))
        = rearrange {dst..<dst + n} (\<lambda>a. src + (a - dst)) m"
      by (auto simp: I_def memcpy_put_block n)
  next
    fix c
    assume "I (w * S) c"
    then show "snd (snd c) = rearrange {dst..<dst + n} (\<lambda>a. src + (a - dst)) m"
      by (auto simp: I_def n)
  qed
qed

text \<open>The reversed copy fills the destination from its end; \<open>P\<close> is the size of a pixel.\<close>

lemma turned_part:
  assumes "i + q \<le> w" and "0 < q"
  shows "turned s (w * P) P ((w - (i + q)) * P + k) = turned (s + i * P) (q * P) P k"
proof -
  have w: "w * P - (w - (i + q)) * P = (i + q) * P" using assms(1) by (simp add: diff_mult_distrib)
  have "P \<le> q * P" using assms(2) by simp
  have "(w - (i + q)) * P + (i + q) * P = w * P" using assms(1) by (simp flip: add_mult_distrib)
  then have "(w - (i + q)) * P + P \<le> w * P" using \<open>P \<le> q * P\<close> unfolding add_mult_distrib by linarith
  then have "turned s (w * P) P ((w - (i + q)) * P + k) = turned s ((i + q) * P) P k"
    by (simp add: turned_shift w)
  also have "\<dots> = turned (s + i * P) (q * P) P k"
  proof (rule turned_later)
    show "P \<le> (i + q) * P" using \<open>P \<le> q * P\<close> unfolding add_mult_distrib by linarith
  qed (use \<open>P \<le> q * P\<close> in \<open>simp_all add: add_mult_distrib\<close>)
  finally show ?thesis .
qed

lemma turned_front:
  assumes "i + q \<le> w" and "0 < q"
  shows "turned s (w * P) P (i * P + k) = turned (s + (w - (i + q)) * P) (q * P) P k"
  using turned_part [of "w - (i + q)" q w s P k] assms by simp

lemma reverse_grow:
  assumes w: "i + q \<le> w" and "0 < q" and "0 < P"
    and dis: "{src..<src + w * P} \<inter> {dst..<dst + w * P} = {}"
    and s: "s = rearrange {dst + (w - i) * P..<dst + w * P} (\<lambda>a. turned src (w * P) P (a - dst)) m"
  shows "put_block (dst + (w - (i + q)) * P) (q * P) (\<lambda>k. s (turned (src + i * P) (q * P) P k)) s
    = rearrange {dst + (w - (i + q)) * P..<dst + w * P} (\<lambda>a. turned src (w * P) P (a - dst)) m"
proof -
  let ?d = "dst + (w - (i + q)) * P"
  have d: "?d + q * P = dst + (w - i) * P" using w by (simp add: add.assoc flip: add_mult_distrib)
  have le: "(w - i) * P \<le> w * P" by (intro mult_le_mono1) simp
  have "turned src (w * P) P ((w - (i + q)) * P + k) \<notin> {dst..<dst + w * P}" if "k < q * P" for k
  proof -
    have "(w - (i + q)) * P + k < w * P" using that d le by linarith
    from turned_bounds [OF assms(3) this, of src] dis show ?thesis by (auto simp: disjoint_iff)
  qed
  then have "put_block ?d (q * P) (\<lambda>k. s (turned (src + i * P) (q * P) P k)) s
      = rearrange ({dst + (w - i) * P..<dst + w * P} \<union> {?d..<?d + q * P}) (\<lambda>a. turned src (w * P) P (a - dst)) m"
    unfolding s by (intro rearrange_block) (auto simp: d turned_part [OF w assms(2)])
  also have "{dst + (w - i) * P..<dst + w * P} \<union> {?d..<?d + q * P} = {?d..<dst + w * P}"
    unfolding d by (subst Un_commute, rule ivl_disj_un_two(3)) (use d le in linarith)+
  finally show ?thesis .
qed

text \<open>The blocks of the code, for pixels of one or three scalars.\<close>

lemma block_sizes:
  assumes "lane_size es" and "S = 1 \<or> S = 3"
  shows "num_lanes es * S * es = num_lanes es * (S * es)"
    and "num_lanes es * S * 2 * es = 2 * num_lanes es * (S * es)"
    and "0 < S * es"
  using assms by (auto simp: lane_size_def num_lanes_def kVectorLength_def)

lemma copy_reversed_block:
  assumes "lane_size es" and "S = 1 \<or> S = 3"
  shows "(if S = 3 then vst3q es a (reverse_lanes_3 es (vld3q es s m)) m'
      else vst1q_lanes a (reverse_lanes es (vld1q es s m)) m')
    = put_block a (num_lanes es * (S * es)) (\<lambda>k. m (turned s (num_lanes es * (S * es)) (S * es) k)) m'"
  using assms(2) store_reversed_3 [OF assms(1), of a s m m'] store_reversed [OF assms(1), of a s m m']
  by (auto simp: lane_size_facts(2,6) [OF assms(1)] simp del: One_nat_def)

lemma copy_reversed_two_blocks:
  assumes "lane_size es" and S: "S = 1 \<or> S = 3"
  shows "(if S = 3 then
        (let v0 = vld3q es s m; v1 = vld3q es (s + num_lanes es * S * es) m
         in vst3q es (a + num_lanes es * S * es) (reverse_lanes_3 es v0) (vst3q es a (reverse_lanes_3 es v1) m'))
      else (case load2 es s m of (v0, v1) \<Rightarrow> store2 es (reverse_lanes es v1, reverse_lanes es v0) a m'))
    = put_block a (2 * num_lanes es * (S * es))
        (\<lambda>k. m (turned s (2 * num_lanes es * (S * es)) (S * es) k)) m'"
proof (cases "S = 3")
  case True
  note es = lane_size_facts(6) [OF assms(1)]
  have P: "3 * es dvd 48" "3 * es \<le> 48" using assms(1) by (auto simp: lane_size_def)
  have low: "turned (s + 48) 48 (3 * es) k = turned s 96 (3 * es) k" for k
    by (rule turned_later) (use P in auto)
  have high: "turned s 48 (3 * es) k = turned s 96 (3 * es) (48 + k)" for k
    using turned_shift [of "3 * es" 48 96 s k] P by simp
  have size: "num_lanes es * 3 * es = 48" "2 * num_lanes es * (3 * es) = 96" using es by simp_all
  show ?thesis
    using put_block_append [of a 48 48 "\<lambda>k. m (turned s 96 (3 * es) k)" m']
    by (simp add: True size store_reversed_3 [OF assms(1)] low high Let_def)
next
  case False
  with S have "S = 1" by simp
  obtain v0 v1 where v: "load2 es s m = (v0, v1)" by fastforce
  from store_two_reversed [OF assms(1) v] show ?thesis
    by (simp add: \<open>S = 1\<close> v two_vectors(2) [OF assms(1)])
qed

lemma turned_single: "k < P \<Longrightarrow> turned s P P k = s + k"
  by (simp add: turned_def)

lemma memcpy_turned: "memcpy dst src P m = put_block dst P (\<lambda>k. m (turned src P P k)) m"
  unfolding memcpy_put_block by (rule put_block_cong) (simp add: turned_single)

lemma copy_reversed_row_to_dst_rearrange:
  assumes es: "lane_size es" and S: "S = 1 \<or> S = 3" and P: "P = S * es"
    and dis: "{src..<src + w * P} \<inter> {dst..<dst + w * P} = {}"
  shows "copy_reversed_row_to_dst es S src dst w m
    = rearrange {dst..<dst + w * P} (\<lambda>a. turned src (w * P) P (a - dst)) m"
proof -
  let ?g = "\<lambda>a. turned src (w * P) P (a - dst)"
  define I where "I = (\<lambda>i (p, q, s). p = src + i * P \<and> q = dst + (w - i) * P
    \<and> s = rearrange {dst + (w - i) * P..<dst + w * P} ?g m)"
  note sizes = block_sizes [OF es S, folded P]
  note lanes = lanes_positive [OF es]
  have down: "dst + (w - i) * P - q * P = dst + (w - (i + q)) * P" if "i + q \<le> w" for i q
  proof -
    have "(w - i) * P = (w - (i + q)) * P + q * P" using that by (simp flip: add_mult_distrib)
    then show ?thesis by simp
  qed
  note grow = reverse_grow [OF _ _ sizes(3) dis]
  show ?thesis
    unfolding copy_reversed_row_to_dst_def Let_def unroll_twice_always
  proof (rule row_loop_tail [where I = I, OF lanes])
    show "I 0 (src, dst + w * S * es, m)" by (simp add: I_def P mult.assoc)
  next
    fix i c
    assume "I i c" "i + 2 * num_lanes es \<le> w"
    with grow [of i "2 * num_lanes es"] down [of i "2 * num_lanes es"] lanes
      copy_reversed_two_blocks [OF es S, folded P, unfolded Let_def]
    show "I (i + 2 * num_lanes es) (case c of (src, dst, m) \<Rightarrow>
        (src + num_lanes es * S * 2 * es, dst - num_lanes es * S * 2 * es,
         if S = 3 then vst3q es (dst - num_lanes es * S * 2 * es + num_lanes es * S * es)
             (reverse_lanes_3 es (vld3q es src m))
             (vst3q es (dst - num_lanes es * S * 2 * es)
               (reverse_lanes_3 es (vld3q es (src + num_lanes es * S * es) m)) m)
         else (case load2 es src m of (pixels_0, pixels_1) \<Rightarrow>
             store2 es (reverse_lanes es pixels_1, reverse_lanes es pixels_0)
               (dst - num_lanes es * S * 2 * es) m)))"
      by (auto simp: I_def sizes add_mult_distrib split del: if_split)
  next
    fix i c
    assume "I i c" "i + num_lanes es \<le> w"
    with grow [of i "num_lanes es"] down [of i "num_lanes es"] lanes copy_reversed_block [OF es S, folded P]
    show "I (i + num_lanes es) (case c of (src, dst, m) \<Rightarrow>
        (src + num_lanes es * S * es, dst - num_lanes es * S * es,
         if S = 3 then vst3q es (dst - num_lanes es * S * es) (reverse_lanes_3 es (vld3q es src m)) m
         else vst1q_lanes (dst - num_lanes es * S * es) (reverse_lanes es (vld1q es src m)) m))"
      by (auto simp: I_def sizes add_mult_distrib split del: if_split)
  next
    fix i c
    assume "I i c" "i + 1 \<le> w"
    with grow [of i 1] down [of i 1]
    show "I (i + 1) (case c of (src, dst, m) \<Rightarrow>
        (src + S * es, dst - S * es, memcpy (dst - S * es) src (S * es) m))"
      by (auto simp: I_def memcpy_turned simp flip: P)
  next
    fix c
    assume "I w c"
    then show "snd (snd c) = rearrange {dst..<dst + w * P} ?g m" by (auto simp: I_def)
  qed
qed

text \<open>Two rows exchanged.\<close>

lemma swap_row_pair_in_place_rearrange:
  assumes es: "lane_size es" and n: "n = w * S * es"
    and dis: "{t0..<t0 + n} \<inter> {b0..<b0 + n} = {}"
  shows "swap_row_pair_in_place es S t0 b0 w m = rearrange (both t0 b0 n) (exchanged t0 b0 n) m"
proof -
  define I where "I = (\<lambda>i (p, q, s). p = t0 + i * es \<and> q = b0 + i * es
    \<and> s = rearrange (both t0 b0 (i * es)) (exchanged t0 b0 n) m)"
  have le: "i * es + c * es \<le> n" if "i + c \<le> w * S" for i c
    using mult_le_mono1 [OF that, of es] by (simp add: n add_mult_distrib)
  note grow = exchange_grow [OF dis le]
  note vectors = lane_size_facts(2) [OF es] two_vectors [OF es]
  show ?thesis
    unfolding swap_row_pair_in_place_def Let_def
  proof (rule row_loop_rest [where I = I, OF lanes_positive [OF es]])
    show "I 0 (t0, b0, m)" by (simp add: I_def both_def)
  next
    fix i c
    assume "I i c" "i + 2 * num_lanes es \<le> w * S"
    with grow(1) [of i "2 * num_lanes es"]
    show "I (i + 2 * num_lanes es) (case c of (top_row, bottom_row, m) \<Rightarrow>
        (top_row + num_lanes es * 2 * es, bottom_row + num_lanes es * 2 * es,
         store2 es (load2 es bottom_row m) top_row (store2 es (load2 es top_row m) bottom_row m)))"
      by (auto simp: I_def store_two_vectors [OF es] add_mult_distrib vectors)
  next
    fix i c
    assume "I i c" "i + num_lanes es \<le> w * S"
    with grow(2) [of i "num_lanes es"]
    show "I (i + num_lanes es) (case c of (top_row, bottom_row, m) \<Rightarrow>
        (top_row + num_lanes es * es, bottom_row + num_lanes es * es,
         vst1q_lanes bottom_row (vld1q es top_row m) (vst1q_lanes top_row (vld1q es bottom_row m) m)))"
      by (auto simp: I_def store_vector [OF es] add_mult_distrib vectors)
  next
    fix i c
    assume "I i c" "i < w * S"
    with swap_ranges_grow [OF dis le, of i "w * S - i" _ m]
    show "snd (snd (case c of (top_row, bottom_row, m) \<Rightarrow>
          (top_row, bottom_row, swap_ranges es top_row (w * S - i) bottom_row m)))
        = rearrange (both t0 b0 n) (exchanged t0 b0 n) m"
      by (auto simp: I_def n simp flip: add_mult_distrib)
  next
    fix c
    assume "I (w * S) c"
    then show "snd (snd c) = rearrange (both t0 b0 n) (exchanged t0 b0 n) m"
      by (auto simp: I_def n)
  qed
qed

text \<open>
  Two rows exchanged and reversed: pixel \<open>i\<close> of the first one goes to pixel \<open>w - 1 - i\<close> of the second
  one, for the first \<open>num\<close> pixels. The rows may be the same one if the pixels involved are not.
\<close>

definition exchanged_reversed :: "nat \<Rightarrow> nat \<Rightarrow> nat \<Rightarrow> nat \<Rightarrow> nat \<Rightarrow> nat \<Rightarrow> nat" where
  "exchanged_reversed f b w num P x =
     (if x \<in> {f..<f + num * P} then turned b (w * P) P (x - f) else turned f (w * P) P (x - b))"

definition outer :: "nat \<Rightarrow> nat \<Rightarrow> nat \<Rightarrow> nat \<Rightarrow> nat \<Rightarrow> nat set" where
  "outer f b w P i = {f..<f + i * P} \<union> {b + (w - i) * P..<b + w * P}"

lemma exchange_reversed_grow:
  assumes dis: "{f..<f + num * P} \<inter> {b + (w - num) * P..<b + w * P} = {}" and "num \<le> w"
    and i: "i + q \<le> num" and "0 < q" and "0 < P"
    and s: "s = rearrange (outer f b w P i) (exchanged_reversed f b w num P) m"
  shows "put_block (f + i * P) (q * P) (\<lambda>k. s (turned (b + (w - (i + q)) * P) (q * P) P k))
      (put_block (b + (w - (i + q)) * P) (q * P) (\<lambda>k. s (turned (f + i * P) (q * P) P k)) s)
    = rearrange (outer f b w P (i + q)) (exchanged_reversed f b w num P) m" (is ?first)
    and "put_block (b + (w - (i + q)) * P) (q * P) (\<lambda>k. s (turned (f + i * P) (q * P) P k))
      (put_block (f + i * P) (q * P) (\<lambda>k. s (turned (b + (w - (i + q)) * P) (q * P) P k)) s)
    = rearrange (outer f b w P (i + q)) (exchanged_reversed f b w num P) m" (is ?second)
proof -
  let ?f = "f + i * P" and ?b = "b + (w - (i + q)) * P" and ?g = "exchanged_reversed f b w num P"
  let ?F = "{?f..<?f + q * P}" and ?B = "{?b..<?b + q * P}"
  have w: "i + q \<le> w" using i assms(2) by simp
  have f: "?f + q * P = f + (i + q) * P" by (simp add: add_mult_distrib)
  have b: "?b + q * P = b + (w - i) * P" using w by (simp add: add.assoc flip: add_mult_distrib)
  have le: "(i + q) * P \<le> num * P" "(w - num) * P \<le> (w - (i + q)) * P" "(w - i) * P \<le> w * P"
    by (rule mult_le_mono1 [OF i] mult_le_mono1 [OF diff_le_mono2 [OF i]] mult_le_mono1 [OF diff_le_self])+
  have sub: "?F \<subseteq> {f..<f + num * P}" "{f..<f + i * P} \<subseteq> {f..<f + num * P}"
    "?B \<subseteq> {b + (w - num) * P..<b + w * P}" "{b + (w - i) * P..<b + w * P} \<subseteq> {b + (w - num) * P..<b + w * P}"
    unfolding ivl_subset using f b le by linarith+
  have off: "?F \<inter> outer f b w P i = {}" "?B \<inter> outer f b w P i = {}" "?F \<inter> ?B = {}"
  proof -
    have "?F \<inter> {f..<f + i * P} = {}" "?B \<inter> {b + (w - i) * P..<b + w * P} = {}" unfolding b by auto
    then show "?F \<inter> outer f b w P i = {}" "?B \<inter> outer f b w P i = {}" "?F \<inter> ?B = {}"
      using dis sub unfolding outer_def by blast+
  qed
  then have BF: "?B \<inter> ?F = {}" by blast
  have union: "outer f b w P i \<union> ?F \<union> ?B = outer f b w P (i + q)"
  proof -
    have "{f..<f + i * P} \<union> ?F = {f..<f + (i + q) * P}"
      unfolding f by (rule ivl_disj_un_two(3)) (simp_all add: add_mult_distrib)
    moreover have "?B \<union> {b + (w - i) * P..<b + w * P} = {?b..<b + w * P}"
      unfolding b by (rule ivl_disj_un_two(3)) (use b le in linarith)+
    ultimately show ?thesis unfolding outer_def by blast
  qed
  then have union': "outer f b w P i \<union> ?B \<union> ?F = outer f b w P (i + q)" by blast
  have tb: "turned x (q * P) P k \<in> {x..<x + q * P}" if "k < q * P" for x k
    using turned_bounds [OF assms(5) that, of x] by simp
  have source: "turned ?b (q * P) P k = ?g (?f + k) \<and> ?g (?f + k) \<in> ?B"
    "turned ?f (q * P) P k = ?g (?b + k) \<and> ?g (?b + k) \<in> ?F" if k: "k < q * P" for k
  proof -
    have "?f + k \<in> ?F" "?b + k \<in> ?B" using k by simp_all
    with sub dis have "?f + k \<in> {f..<f + num * P}" "?b + k \<notin> {f..<f + num * P}" by blast+
    then have "?g (?f + k) = turned ?b (q * P) P k" "?g (?b + k) = turned ?f (q * P) P k"
      unfolding exchanged_reversed_def using turned_front [OF w assms(4)] turned_part [OF w assms(4)]
      by (simp_all add: add.assoc del: atLeastLessThan_iff)
    then show "turned ?b (q * P) P k = ?g (?f + k) \<and> ?g (?f + k) \<in> ?B"
      "turned ?f (q * P) P k = ?g (?b + k) \<and> ?g (?b + k) \<in> ?F" using tb [OF k] by simp_all
  qed
  show ?first
    unfolding s union [symmetric] by (rule rearrange_pair [OF off]) (rule source, assumption)+
  show ?second
    unfolding s union' [symmetric] by (rule rearrange_pair [OF off(2,1) BF]) (rule source, assumption)+
qed

lemma swap_blocks:
  assumes "lane_size es" and "S = 1 \<or> S = 3"
  shows "swap_reversed_pixel_block_pair es S f b m
    = put_block f (num_lanes es * (S * es)) (\<lambda>k. m (turned b (num_lanes es * (S * es)) (S * es) k))
        (put_block b (num_lanes es * (S * es)) (\<lambda>k. m (turned f (num_lanes es * (S * es)) (S * es) k)) m)"
  using copy_reversed_block [OF assms] assms(2)
  by (auto simp: swap_reversed_pixel_block_pair_def Let_def simp del: One_nat_def)

lemma swap_two_vectors:
  assumes "lane_size es"
  shows "swap_reversed_vector_pair_2x es f b m
    = put_block b (2 * num_lanes es * es) (\<lambda>k. m (turned f (2 * num_lanes es * es) es k))
        (put_block f (2 * num_lanes es * es) (\<lambda>k. m (turned b (2 * num_lanes es * es) es k)) m)"
proof -
  obtain f0 f1 b0 b1 where v: "load2 es f m = (f0, f1)" "load2 es b m = (b0, b1)" by fastforce
  show ?thesis
    using store_two_reversed [OF assms v(1)] store_two_reversed [OF assms v(2)]
    by (simp add: swap_reversed_vector_pair_2x_def v two_vectors(2) [OF assms])
qed

lemma swap_pixels:
  assumes "{f..<f + S * es} \<inter> {b..<b + S * es} = {}"
  shows "swap_ranges es f S b m
    = put_block f (S * es) (\<lambda>k. m (turned b (S * es) (S * es) k))
        (put_block b (S * es) (\<lambda>k. m (turned f (S * es) (S * es) k)) m)"
proof -
  have "put_block x (S * es) (\<lambda>k. m (turned y (S * es) (S * es) k)) = put_block x (S * es) (\<lambda>k. m (y + k))" for x y
    by (rule ext, rule put_block_cong) (simp add: turned_single)
  then show ?thesis by (simp only: swap_ranges_blocks [OF assms])
qed

lemma outer_pixels:
  fixes f :: nat
  assumes dis: "{f..<f + num * P} \<inter> {b + (w - num) * P..<b + w * P} = {}" and "num \<le> w" and "i + 1 \<le> num"
  shows "{f + i * P..<f + i * P + P} \<inter> {b + (w - (i + 1)) * P..<b + (w - (i + 1)) * P + P} = {}"
proof -
  have le: "(i + 1) * P \<le> num * P" "(w - num) * P \<le> (w - (i + 1)) * P" "(w - i) * P \<le> w * P"
    by (rule mult_le_mono1 [OF assms(3)] mult_le_mono1 [OF diff_le_mono2 [OF assms(3)]] mult_le_mono1 [OF diff_le_self])+
  have "w - i = w - (i + 1) + 1" using assms(2,3) by simp
  then have "(w - i) * P = (w - (i + 1)) * P + P" by (metis add_mult_distrib mult_1)
  moreover have "(i + 1) * P = i * P + P" by simp
  ultimately have "{f + i * P..<f + i * P + P} \<subseteq> {f..<f + num * P}"
    "{b + (w - (i + 1)) * P..<b + (w - (i + 1)) * P + P} \<subseteq> {b + (w - num) * P..<b + w * P}"
    unfolding ivl_subset using le by linarith+
  with dis show ?thesis by blast
qed

lemma swap_reversed_row_pair_in_place_rearrange:
  assumes es: "lane_size es" and S: "S = 1 \<or> S = 3" and P: "P = S * es" and num: "num \<le> w"
    and dis: "{f..<f + num * P} \<inter> {b + (w - num) * P..<b + w * P} = {}"
  shows "swap_reversed_row_pair_in_place es S f b w num m
    = rearrange (outer f b w P num) (exchanged_reversed f b w num P) m"
proof -
  let ?g = "exchanged_reversed f b w num P"
  define I where "I = (\<lambda>i (p, q, s). p = f + i * P \<and> q = b + (w - i) * P
    \<and> s = rearrange (outer f b w P i) ?g m)"
  note sizes = block_sizes [OF es S, folded P]
  note lanes = lanes_positive [OF es]
  have down: "b + (w - i) * P - q * P = b + (w - (i + q)) * P" if "i + q \<le> num" for i q
  proof -
    have "(w - i) * P = (w - (i + q)) * P + q * P" using that num by (simp flip: add_mult_distrib)
    then show ?thesis by simp
  qed
  note grow = exchange_reversed_grow [OF dis num _ _ sizes(3) refl]
  show ?thesis
    unfolding swap_reversed_row_pair_in_place_def Let_def
  proof (rule row_loop_tail [where I = I, OF lanes])
    show "I 0 (f, b + w * S * es, m)" by (simp add: I_def P mult.assoc outer_def)
  next
    fix i c
    assume "S \<noteq> 3" and I: "I i c" "i + 2 * num_lanes es \<le> num"
    with S P have "S = 1" "P = es" by simp_all
    with I grow(2) [of i "2 * num_lanes es"] down [of i "2 * num_lanes es"] lanes swap_two_vectors [OF es]
    show "I (i + 2 * num_lanes es) (case c of (forward, backward, m) \<Rightarrow>
        (forward + num_lanes es * S * 2 * es, backward - num_lanes es * S * 2 * es,
         swap_reversed_vector_pair_2x es forward (backward - num_lanes es * S * 2 * es) m))"
      by (auto simp: I_def add_mult_distrib mult.commute [of _ 2] simp del: mult_2)
  next
    fix i c
    assume "I i c" "i + num_lanes es \<le> num"
    with grow(1) [of i "num_lanes es"] down [of i "num_lanes es"] lanes swap_blocks [OF es S, folded P]
    show "I (i + num_lanes es) (case c of (forward, backward, m) \<Rightarrow>
        (forward + num_lanes es * S * es, backward - num_lanes es * S * es,
         swap_reversed_pixel_block_pair es S forward (backward - num_lanes es * S * es) m))"
      by (auto simp: I_def sizes add_mult_distrib)
  next
    fix i c
    assume I: "I i c" and i: "i + 1 \<le> num"
    have "{f + i * P..<f + i * P + P} \<inter> {b + (w - (i + 1)) * P..<b + (w - (i + 1)) * P + P} = {}"
      by (rule outer_pixels [OF dis num i])
    with I i grow(1) [of i 1] down [of i 1] swap_pixels [where S = S and es = es, folded P]
    show "I (i + 1) (case c of (forward, backward, m) \<Rightarrow>
        (forward + S * es, backward - S * es, swap_ranges es forward S (backward - S * es) m))"
      by (auto simp: I_def simp flip: P)
  next
    fix c
    assume "I num c"
    then show "snd (snd c) = rearrange (outer f b w P num) ?g m" by (auto simp: I_def)
  qed
qed

end
