(* ===== verification/Flip.thy ===== *)
theory Flip
  imports Flip_Kernels Thread_Ops Separable_Rows
begin

text \<open>
  The flip operation: \<^verbatim>\<open>kleidicv/include/kleidicv/transform/flip.h\<close> (checks, number of
  work items), \<^verbatim>\<open>kleidicv/src/transform/flip_neon.cpp\<close> (the work items, into a
  destination and in place) and \<^verbatim>\<open>flip_api.cpp\<close>. The flipped image is specified by
  one address map per mode; the work items are shown to move every byte there, whether the source is
  the destination or not, and in whatever order the items are run.
\<close>

section \<open>The operation\<close>

text \<open>
  A C enumeration may hold other values than its enumerators: \<open>None\<close> is a mode that is not one of
  the three.
\<close>

type_synonym flip_mode = "kleidicv_flip_mode_t option"

definition flip_validate_as :: "nat \<Rightarrow> nat \<Rightarrow> nat \<Rightarrow> nat \<Rightarrow> nat \<Rightarrow> nat \<Rightarrow> nat \<Rightarrow> flip_mode \<Rightarrow> kleidicv_error_t" where
  "flip_validate_as align src src_stride width height dst dst_stride flip_mode =
     (let err = checks [make_pointer_check_alignment align src, make_pointer_check_alignment align dst,
            check_pointer_and_stride align src src_stride height,
            check_pointer_and_stride align dst dst_stride height, check_image_size width height]
      in if err \<noteq> KLEIDICV_OK then err
         else if src = dst \<and> src_stride \<noteq> dst_stride then KLEIDICV_ERROR_RANGE
         else (case flip_mode of
             Some KLEIDICV_FLIP_HORIZONTAL \<Rightarrow> KLEIDICV_OK
           | Some KLEIDICV_FLIP_VERTICAL \<Rightarrow> KLEIDICV_OK
           | Some KLEIDICV_FLIP_BOTH \<Rightarrow> KLEIDICV_OK
           | None \<Rightarrow> KLEIDICV_ERROR_NOT_IMPLEMENTED))"

definition flip_validate :: "nat \<Rightarrow> nat \<Rightarrow> nat \<Rightarrow> nat \<Rightarrow> nat \<Rightarrow> nat \<Rightarrow> flip_mode \<Rightarrow> nat \<Rightarrow> kleidicv_error_t" where
  "flip_validate src src_stride width height dst dst_stride flip_mode pixel_size =
     (if pixel_size = 1 \<or> pixel_size = 1 * 3 then
        flip_validate_as 1 src src_stride width height dst dst_stride flip_mode
      else if pixel_size = 2 \<or> pixel_size = 2 * 3 then
        flip_validate_as 2 src src_stride width height dst dst_stride flip_mode
      else if pixel_size = 4 then flip_validate_as 4 src src_stride width height dst dst_stride flip_mode
      else if pixel_size = 8 then flip_validate_as 8 src src_stride width height dst dst_stride flip_mode
      else KLEIDICV_ERROR_NOT_IMPLEMENTED)"

definition flip_work_item_count :: "nat \<Rightarrow> bool \<Rightarrow> flip_mode \<Rightarrow> nat" where
  "flip_work_item_count height in_place flip_mode =
     (if \<not> in_place \<or> flip_mode = Some KLEIDICV_FLIP_HORIZONTAL then height
      else if flip_mode = Some KLEIDICV_FLIP_VERTICAL then height div 2
      else (height + 1) div 2)"

text \<open>\<^verbatim>\<open>&rows.at(row_idx, 0)[0]\<close>\<close>

definition row_start :: "Rows \<Rightarrow> nat \<Rightarrow> nat" where
  "row_start rows row_idx = row_ptr (rows_at rows (int row_idx) 0)"

definition flip_to_dst :: "nat \<Rightarrow> nat \<Rightarrow> Rectangle \<Rightarrow> Rows \<Rightarrow> Rows \<Rightarrow> flip_mode \<Rightarrow> mem range_callback" where
  "flip_to_dst es kScalarsPerPixel rect src_rows dst_rows flip_mode work_items_begin work_items_end m =
     (case flip_mode of
        Some KLEIDICV_FLIP_HORIZONTAL \<Rightarrow>
          (KLEIDICV_OK, fold (\<lambda>src_row_idx.
             copy_reversed_row_to_dst es kScalarsPerPixel (row_start src_rows src_row_idx)
               (row_start dst_rows src_row_idx) (rectangle_width rect))
             [work_items_begin..<work_items_end] m)
      | Some KLEIDICV_FLIP_VERTICAL \<Rightarrow>
          (KLEIDICV_OK, fold (\<lambda>src_row_idx.
             copy_row_to_dst es kScalarsPerPixel (row_start src_rows src_row_idx)
               (row_start dst_rows (rectangle_height rect - src_row_idx - 1)) (rectangle_width rect))
             [work_items_begin..<work_items_end] m)
      | Some KLEIDICV_FLIP_BOTH \<Rightarrow>
          (KLEIDICV_OK, fold (\<lambda>src_row_idx.
             copy_reversed_row_to_dst es kScalarsPerPixel (row_start src_rows src_row_idx)
               (row_start dst_rows (rectangle_height rect - src_row_idx - 1)) (rectangle_width rect))
             [work_items_begin..<work_items_end] m)
      | None \<Rightarrow> (KLEIDICV_ERROR_NOT_IMPLEMENTED, m))"

definition flip_in_place :: "nat \<Rightarrow> nat \<Rightarrow> Rectangle \<Rightarrow> Rows \<Rightarrow> flip_mode \<Rightarrow> mem range_callback" where
  "flip_in_place es kScalarsPerPixel rect rows flip_mode work_items_begin work_items_end m =
     (case flip_mode of
        Some KLEIDICV_FLIP_HORIZONTAL \<Rightarrow>
          (KLEIDICV_OK, fold (\<lambda>row_idx.
             let row = row_start rows row_idx in
             swap_reversed_row_pair_in_place es kScalarsPerPixel row row (rectangle_width rect)
               (rectangle_width rect div 2))
             [work_items_begin..<work_items_end] m)
      | Some KLEIDICV_FLIP_VERTICAL \<Rightarrow>
          (KLEIDICV_OK, fold (\<lambda>top_row_idx.
             let bottom_row_idx = rectangle_height rect - top_row_idx - 1 in
             swap_row_pair_in_place es kScalarsPerPixel (row_start rows top_row_idx)
               (row_start rows bottom_row_idx) (rectangle_width rect))
             [work_items_begin..<work_items_end] m)
      | Some KLEIDICV_FLIP_BOTH \<Rightarrow>
          (KLEIDICV_OK, fold (\<lambda>top_row_idx.
             let bottom_row_idx = rectangle_height rect - top_row_idx - 1;
                 num_pixel_pairs_to_swap =
                   (if top_row_idx = bottom_row_idx then rectangle_width rect div 2 else rectangle_width rect) in
             swap_reversed_row_pair_in_place es kScalarsPerPixel (row_start rows top_row_idx)
               (row_start rows bottom_row_idx) (rectangle_width rect) num_pixel_pairs_to_swap)
             [work_items_begin..<work_items_end] m)
      | None \<Rightarrow> (KLEIDICV_ERROR_NOT_IMPLEMENTED, m))"

definition flip_work_items_impl ::
    "nat \<Rightarrow> nat \<Rightarrow> nat \<Rightarrow> nat \<Rightarrow> nat \<Rightarrow> nat \<Rightarrow> nat \<Rightarrow> nat \<Rightarrow> flip_mode \<Rightarrow> mem range_callback" where
  "flip_work_items_impl es kScalarsPerPixel src src_stride width height dst dst_stride flip_mode
     work_items_begin work_items_end =
     (let rect = \<lparr>rectangle_width = width, rectangle_height = height\<rparr>;
          src_rows = \<lparr>row_ptr = src, row_stride = src_stride, row_sizeof = es, row_channels = kScalarsPerPixel\<rparr>;
          dst_rows = \<lparr>row_ptr = dst, row_stride = dst_stride, row_sizeof = es, row_channels = kScalarsPerPixel\<rparr>
      in if src = dst then
           flip_in_place es kScalarsPerPixel rect dst_rows flip_mode work_items_begin work_items_end
         else
           flip_to_dst es kScalarsPerPixel rect src_rows dst_rows flip_mode work_items_begin work_items_end)"

definition flip_work_items ::
    "nat \<Rightarrow> nat \<Rightarrow> nat \<Rightarrow> nat \<Rightarrow> nat \<Rightarrow> nat \<Rightarrow> flip_mode \<Rightarrow> nat \<Rightarrow> mem range_callback" where
  "flip_work_items src src_stride width height dst dst_stride flip_mode pixel_size b e m =
     (if pixel_size = 1 then flip_work_items_impl 1 1 src src_stride width height dst dst_stride flip_mode b e m
      else if pixel_size = 2 then flip_work_items_impl 2 1 src src_stride width height dst dst_stride flip_mode b e m
      else if pixel_size = 4 then flip_work_items_impl 4 1 src src_stride width height dst dst_stride flip_mode b e m
      else if pixel_size = 8 then flip_work_items_impl 8 1 src src_stride width height dst dst_stride flip_mode b e m
      else if pixel_size = 1 * 3 then flip_work_items_impl 1 3 src src_stride width height dst dst_stride flip_mode b e m
      else if pixel_size = 2 * 3 then flip_work_items_impl 2 3 src src_stride width height dst dst_stride flip_mode b e m
      else (KLEIDICV_ERROR_NOT_IMPLEMENTED, m))"

text \<open>\<open>WorkItemFlipFunction\<close> is the template argument: the backend chosen by the dispatcher.\<close>

definition flip ::
    "(nat \<Rightarrow> nat \<Rightarrow> nat \<Rightarrow> nat \<Rightarrow> nat \<Rightarrow> nat \<Rightarrow> flip_mode \<Rightarrow> nat \<Rightarrow> 's range_callback)
      \<Rightarrow> nat \<Rightarrow> nat \<Rightarrow> nat \<Rightarrow> nat \<Rightarrow> nat \<Rightarrow> nat \<Rightarrow> flip_mode \<Rightarrow> nat \<Rightarrow> 's action" where
  "flip WorkItemFlipFunction src src_stride width height dst dst_stride flip_mode pixel_size m =
     (let error = flip_validate src src_stride width height dst dst_stride flip_mode pixel_size in
      if error \<noteq> KLEIDICV_OK then (error, m)
      else if width = 0 \<or> height = 0 then (KLEIDICV_OK, m)
      else
        let work_item_count = flip_work_item_count height (src = dst) flip_mode in
        WorkItemFlipFunction src src_stride width height dst dst_stride flip_mode pixel_size 0
          work_item_count m)"

definition kleidicv_flip ::
    "nat \<Rightarrow> nat \<Rightarrow> nat \<Rightarrow> nat \<Rightarrow> nat \<Rightarrow> nat \<Rightarrow> flip_mode \<Rightarrow> nat \<Rightarrow> mem action" where
  "kleidicv_flip = flip flip_work_items"

section \<open>The flipped image\<close>

definition mirrors_x :: "flip_mode \<Rightarrow> bool" where
  "mirrors_x mode = (mode \<in> {Some KLEIDICV_FLIP_HORIZONTAL, Some KLEIDICV_FLIP_BOTH})"

definition mirrors_y :: "flip_mode \<Rightarrow> bool" where
  "mirrors_y mode = (mode \<in> {Some KLEIDICV_FLIP_VERTICAL, Some KLEIDICV_FLIP_BOTH})"

definition mirror :: "bool \<Rightarrow> nat \<Rightarrow> nat \<Rightarrow> nat" where
  "mirror mirrored n i = (if mirrored then n - 1 - i else i)"

lemma mirror_less [simp]: "i < n \<Longrightarrow> mirror b n i < n"
  by (auto simp: mirror_def)

lemma mirror_mirror [simp]: "i < n \<Longrightarrow> mirror b n (mirror b n i) = i"
  by (auto simp: mirror_def)

text \<open>
  \<open>moved D S J m m'\<close>: from \<open>m\<close> to \<open>m'\<close> the bytes of the index set \<open>J\<close> have been moved from their
  source to their destination, and nothing else has changed.
\<close>

definition moved :: "('i \<Rightarrow> nat) \<Rightarrow> ('i \<Rightarrow> nat) \<Rightarrow> 'i set \<Rightarrow> mem \<Rightarrow> mem \<Rightarrow> bool" where
  "moved D S J m m' \<longleftrightarrow> (\<forall>i \<in> J. m' (D i) = m (S i)) \<and> (\<forall>a. a \<notin> D ` J \<longrightarrow> m' a = m a)"

lemma moved_unique: "moved D S J m m1 \<Longrightarrow> moved D S J m m2 \<Longrightarrow> m1 = m2"
  unfolding moved_def by (rule ext) (metis imageE)

text \<open>Bytes that a rearrangement leaves alone count as moved if they are their own source.\<close>

lemma moved_rearrange:
  assumes "W \<subseteq> D ` J" and "\<And>i. i \<in> J \<Longrightarrow> D i \<in> W \<Longrightarrow> g (D i) = S i"
    and "\<And>i. i \<in> J \<Longrightarrow> D i \<notin> W \<Longrightarrow> S i = D i"
  shows "moved D S J m (rearrange W g m)"
  unfolding moved_def using assms by (auto simp: rearrange_def)

lemma moved_footprint:
  assumes "\<And>m. moved D S J m (f m)"
  shows "footprint (D ` J) (S ` J) f"
  unfolding footprint_def
proof (intro conjI allI impI)
  fix m a
  assume "a \<notin> D ` J"
  then show "f m a = m a" using assms [of m] by (simp add: moved_def)
next
  fix m m' :: mem and a
  assume eq: "\<forall>b \<in> S ` J. m b = m' b" and "a \<in> D ` J"
  then obtain i where "i \<in> J" "a = D i" by blast
  with eq assms [of m] assms [of m'] show "f m a = f m' a" by (simp add: moved_def)
qed

text \<open>Items that write different bytes and do not read what the others write.\<close>

lemma moved_items:
  assumes item: "\<And>i m. i < n \<Longrightarrow> moved D S (J i) m (item i m)"
    and dis: "\<And>i j. i < n \<Longrightarrow> j < n \<Longrightarrow> i \<noteq> j \<Longrightarrow> D ` J i \<inter> D ` J j = {} \<and> D ` J i \<inter> S ` J j = {}"
  shows "row_operation item n" and "moved D S (\<Union>i < n. J i) m (fold item [0..<n] m)"
proof -
  show "row_operation item n"
    by (rule footprint_rows [OF moved_footprint [OF item]]) (use dis in blast)+
  have "moved D S (\<Union>i < k. J i) m (fold item [0..<k] m)" if "k \<le> n" for k
    using that
  proof (induction k)
    case 0
    then show ?case by (simp add: moved_def)
  next
    case (Suc k)
    define m1 where "m1 = fold item [0..<k] m"
    have m1: "moved D S (\<Union>i < k. J i) m m1" using Suc by (simp add: m1_def)
    have step: "moved D S (J k) m1 (item k m1)" using Suc.prems by (intro item) simp
    have other: "D ` J i \<inter> D ` J k = {}" "D ` J i \<inter> S ` J k = {}" if "i < k" for i
      using dis [of i k] that Suc.prems by auto
    have "item k m1 (D x) = m (S x)" if "x \<in> J i" "i < Suc k" for x i
    proof (cases "i = k")
      case True
      have "S x \<notin> D ` (\<Union>i < k. J i)" using that True other(2) by fastforce
      then show ?thesis using m1 step that(1) True by (simp add: moved_def)
    next
      case False
      with that have i: "i < k" by simp
      then have "D x \<notin> D ` J k" using that(1) other(1) by blast
      moreover have "x \<in> (\<Union>i < k. J i)" using i that(1) by blast
      ultimately show ?thesis using m1 step unfolding moved_def by metis
    qed
    moreover have "item k m1 a = m a" if "a \<notin> D ` (\<Union>i < Suc k. J i)" for a
    proof -
      have "a \<notin> D ` J k" "a \<notin> D ` (\<Union>i < k. J i)" using that by (auto simp: lessThan_Suc)
      then show ?thesis using m1 step by (simp add: moved_def)
    qed
    ultimately show ?case by (auto simp: moved_def m1_def)
  qed
  then show "moved D S (\<Union>i < n. J i) m (fold item [0..<n] m)" by blast
qed

section \<open>Work items\<close>

definition flip_item ::
    "bool \<Rightarrow> nat \<Rightarrow> nat \<Rightarrow> nat \<Rightarrow> nat \<Rightarrow> Rows \<Rightarrow> Rows \<Rightarrow> flip_mode \<Rightarrow> nat \<Rightarrow> mem \<Rightarrow> mem" where
  "flip_item in_place es c w h src_rows dst_rows mode i =
     (let j = mirror (mirrors_y mode) h i in
      if in_place then
        (if mode = Some KLEIDICV_FLIP_VERTICAL then
           swap_row_pair_in_place es c (row_start dst_rows i) (row_start dst_rows j) w
         else
           swap_reversed_row_pair_in_place es c (row_start dst_rows i) (row_start dst_rows j) w
             (if i = j then w div 2 else w))
      else if mirrors_x mode then
        copy_reversed_row_to_dst es c (row_start src_rows i) (row_start dst_rows j) w
      else copy_row_to_dst es c (row_start src_rows i) (row_start dst_rows j) w)"

lemma mode_cases:
  assumes "mode \<noteq> None"
  obtains "mode = Some KLEIDICV_FLIP_HORIZONTAL" | "mode = Some KLEIDICV_FLIP_VERTICAL"
    | "mode = Some KLEIDICV_FLIP_BOTH"
  using assms by (cases mode) (auto intro: kleidicv_flip_mode_t.exhaust)

lemma flip_to_dst_items:
  assumes "mode \<noteq> None"
  shows "flip_to_dst es c \<lparr>rectangle_width = w, rectangle_height = h\<rparr> src_rows dst_rows mode b e m
    = (KLEIDICV_OK, fold (flip_item False es c w h src_rows dst_rows mode) [b..<e] m)"
  using assms
  by (cases rule: mode_cases)
    (simp_all add: flip_to_dst_def flip_item_def [abs_def] mirrors_x_def mirrors_y_def mirror_def Let_def)

lemma flip_in_place_items:
  assumes "mode \<noteq> None"
  shows "flip_in_place es c \<lparr>rectangle_width = w, rectangle_height = h\<rparr> dst_rows mode b e m
    = (KLEIDICV_OK, fold (flip_item True es c w h src_rows dst_rows mode) [b..<e] m)"
  using assms
  by (cases rule: mode_cases)
    (simp_all add: flip_in_place_def flip_item_def [abs_def] mirrors_x_def mirrors_y_def mirror_def Let_def
      cong: if_cong)

text \<open>Byte \<open>k\<close> of row \<open>y\<close> of the destination, and where it comes from; \<open>P\<close> is the pixel size.\<close>

definition dst_byte :: "nat \<Rightarrow> nat \<Rightarrow> nat \<times> nat \<Rightarrow> nat" where
  "dst_byte dst ds = (\<lambda>(y, k). dst + y * ds + k)"

definition src_byte :: "flip_mode \<Rightarrow> nat \<Rightarrow> nat \<Rightarrow> nat \<Rightarrow> nat \<Rightarrow> nat \<Rightarrow> nat \<times> nat \<Rightarrow> nat" where
  "src_byte mode src ss w h P = (\<lambda>(y, k). src + mirror (mirrors_y mode) h y * ss
     + (if mirrors_x mode then turned 0 (w * P) P k else k))"

definition row_of :: "nat \<Rightarrow> nat \<Rightarrow> nat \<Rightarrow> nat \<Rightarrow> nat set" where
  "row_of base stride n y = {base + y * stride..<base + y * stride + n}"

definition row_index :: "nat set \<Rightarrow> nat \<Rightarrow> (nat \<times> nat) set" where
  "row_index ys n = ys \<times> {..<n}"

lemma dst_byte_rows: "dst_byte dst ds ` row_index ys n = (\<Union>y \<in> ys. row_of dst ds n y)"
proof -
  have "dst + y * ds + k \<in> row_of dst ds n y" if "k < n" for y k using that by (simp add: row_of_def)
  moreover have "\<exists>k < n. a = dst + y * ds + k" if "a \<in> row_of dst ds n y" for a y
    using that by (intro exI [of _ "a - (dst + y * ds)"]) (auto simp: row_of_def)
  ultimately show ?thesis by (fastforce simp: dst_byte_def row_index_def)
qed

lemma turned_base: "k < n \<Longrightarrow> P dvd n \<Longrightarrow> 0 < P \<Longrightarrow> turned s n P k = s + turned 0 n P k"
proof -
  assume k: "k < n" and P: "P dvd n" "0 < P"
  then obtain q where n: "n = q * P" by (metis dvd_def mult.commute)
  have "k div P < q" using k n P by (simp add: less_mult_imp_div_less)
  then have "turned s n P k = s + (q - 1 - k div P) * P + k mod P" for s
    using turned_lane [of "k div P" q "k mod P" P s] P(2) n by simp
  then show ?thesis by simp
qed

lemma src_byte_rows:
  assumes "0 < P" and "\<And>y. y \<in> ys \<Longrightarrow> y < h"
  shows "src_byte mode src ss w h P ` row_index ys (w * P)
    \<subseteq> (\<Union>y \<in> mirror (mirrors_y mode) h ` ys. row_of src ss (w * P) y)"
proof -
  have "src_byte mode src ss w h P (y, k) \<in> row_of src ss (w * P) (mirror (mirrors_y mode) h y)"
    if "k < w * P" for y k
    using turned_bounds(2) [OF assms(1) that, of 0] that by (simp add: src_byte_def row_of_def)
  then show ?thesis by (auto simp: row_index_def)
qed

text \<open>
  The contract of \<^verbatim>\<open>kleidicv.h\<close>: rows do not overlap, they lie in the address space,
  and the images are one image or have no byte in common.
\<close>

definition flip_layout :: "nat \<Rightarrow> nat \<Rightarrow> nat \<Rightarrow> nat \<Rightarrow> nat \<Rightarrow> nat \<Rightarrow> nat \<Rightarrow> bool" where
  "flip_layout src ss w h dst ds P \<longleftrightarrow>
     (h \<le> 1 \<or> w * P \<le> ss \<and> w * P \<le> ds)
     \<and> (\<forall>y < h. src + y * ss \<le> size_max \<and> dst + y * ds \<le> size_max)
     \<and> (if src = dst then ss = ds
        else \<forall>y < h. \<forall>z < h. row_of src ss (w * P) y \<inter> row_of dst ds (w * P) z = {})"

lemma rows_apart:
  assumes "flip_layout src ss w h dst ds P" and "y < h" and "z < h" and "y \<noteq> z"
  shows "row_of dst ds (w * P) y \<inter> row_of dst ds (w * P) z = {}"
proof -
  have "w * P \<le> ds" using assms by (auto simp: flip_layout_def)
  then show ?thesis unfolding row_of_def by (rule rows_disjoint [OF _ assms(4)])
qed

lemma images_apart:
  assumes "flip_layout src ss w h dst ds P" and "src \<noteq> dst" and "y < h" and "z < h"
  shows "row_of src ss (w * P) y \<inter> row_of dst ds (w * P) z = {}"
  using assms by (simp add: flip_layout_def)

lemma row_start_eq:
  assumes "row_ptr r + i * row_stride r \<le> size_max"
  shows "row_start r i = row_ptr r + i * row_stride r"
  using size_wrap_id [OF assms] by (simp add: row_start_def rows_at_row)

definition item_rows :: "bool \<Rightarrow> flip_mode \<Rightarrow> nat \<Rightarrow> nat \<Rightarrow> nat set" where
  "item_rows in_place mode h i =
     (if in_place then {i, mirror (mirrors_y mode) h i} else {mirror (mirrors_y mode) h i})"

lemma copied_item:
  assumes lay: "flip_layout src ss w h dst ds (c * es)" and "src \<noteq> dst" and i: "i < h"
    and es: "lane_size es" and c: "c = 1 \<or> c = 3"
  shows "moved (dst_byte dst ds) (src_byte mode src ss w h (c * es))
      (row_index (item_rows False mode h i) (w * (c * es))) m
      (flip_item False es c w h \<lparr>row_ptr = src, row_stride = ss, row_sizeof = es, row_channels = c\<rparr>
        \<lparr>row_ptr = dst, row_stride = ds, row_sizeof = es, row_channels = c\<rparr> mode i m)"
proof -
  let ?P = "c * es" and ?j = "mirror (mirrors_y mode) h i"
  let ?n = "w * ?P" and ?s = "src + i * ss" and ?d = "dst + ?j * ds"
  let ?g = "\<lambda>a. if mirrors_x mode then turned ?s ?n ?P (a - ?d) else ?s + (a - ?d)"
  have j: "?j < h" using i by simp
  have start: "row_start \<lparr>row_ptr = src, row_stride = ss, row_sizeof = es, row_channels = c\<rparr> i = ?s"
    "row_start \<lparr>row_ptr = dst, row_stride = ds, row_sizeof = es, row_channels = c\<rparr> ?j = ?d"
    using lay i j by (simp_all add: row_start_eq flip_layout_def)
  have dis: "{?s..<?s + ?n} \<inter> {?d..<?d + ?n} = {}"
    using images_apart [OF lay assms(2) i j] by (simp only: row_of_def)
  have P: "0 < ?P" using es c by (auto simp: lane_size_def)
  have "flip_item False es c w h \<lparr>row_ptr = src, row_stride = ss, row_sizeof = es, row_channels = c\<rparr>
      \<lparr>row_ptr = dst, row_stride = ds, row_sizeof = es, row_channels = c\<rparr> mode i m
    = rearrange (row_of dst ds ?n ?j) ?g m"
    using copy_reversed_row_to_dst_rearrange [OF es c refl dis, of m]
      copy_row_to_dst_rearrange [OF es _ dis, of w c m]
    unfolding flip_item_def Let_def start row_of_def by (simp add: mult.assoc)
  moreover have "moved (dst_byte dst ds) (src_byte mode src ss w h ?P) (row_index {?j} ?n) m
      (rearrange (row_of dst ds ?n ?j) ?g m)"
  proof (rule moved_rearrange)
    show "row_of dst ds ?n ?j \<subseteq> dst_byte dst ds ` row_index {?j} ?n" by (simp add: dst_byte_rows)
  next
    fix x
    assume x: "x \<in> row_index {?j} ?n"
    then obtain k where k: "x = (?j, k)" "k < ?n" by (auto simp: row_index_def)
    show "?g (dst_byte dst ds x) = src_byte mode src ss w h ?P x"
      using turned_base [OF k(2) _ P, of ?s] i k by (simp add: dst_byte_def src_byte_def)
    show "src_byte mode src ss w h ?P x = dst_byte dst ds x" if "dst_byte dst ds x \<notin> row_of dst ds ?n ?j"
      using that k by (simp add: dst_byte_def row_of_def)
  qed
  ultimately show ?thesis by (simp add: item_rows_def)
qed

text \<open>The middle pixel of a row of odd length stays where it is.\<close>

lemma turned_middle:
  assumes "w div 2 * P \<le> k" and "k < (w - w div 2) * P" and "0 < P"
  shows "turned s (w * P) P k = s + k"
proof -
  have "(w - w div 2) * P \<le> (w div 2 + 1) * P" by (intro mult_le_mono1) simp
  then have k: "k < w div 2 * P + P" using assms(2) by simp
  have "w div 2 < w - w div 2" using assms(1,2) by (metis le_less_trans mult_less_cancel2)
  then have "w = w div 2 + w div 2 + 1" by arith
  then have "w * P = w div 2 * P + w div 2 * P + P" by (metis add_mult_distrib mult_1)
  then have "w * P - P = w div 2 * P + w div 2 * P" by simp
  moreover obtain j where "k = w div 2 * P + j" "j < P" using assms(1) k by (metis le_iff_add nat_add_left_cancel_less)
  ultimately show ?thesis by (simp add: turned_pixel add_mult_distrib)
qed

lemma flip_dst_rows:
  assumes "flip_layout src ss w h dst ds P" and "y < h"
  shows "row_start \<lparr>row_ptr = dst, row_stride = ds, row_sizeof = es, row_channels = c\<rparr> y = dst + y * ds"
  using assms by (simp add: row_start_eq flip_layout_def)

lemma swapped_item:
  assumes lay: "flip_layout dst ds w h dst ds (c * es)" and es: "lane_size es"
    and mode: "mode = Some KLEIDICV_FLIP_VERTICAL" and i: "i < h div 2"
  shows "moved (dst_byte dst ds) (src_byte mode dst ds w h (c * es))
      (row_index (item_rows True mode h i) (w * (c * es))) m
      (flip_item True es c w h src_rows
        \<lparr>row_ptr = dst, row_stride = ds, row_sizeof = es, row_channels = c\<rparr> mode i m)"
proof -
  let ?P = "c * es" and ?j = "h - 1 - i"
  let ?n = "w * ?P" and ?t = "dst + i * ds" and ?b = "dst + ?j * ds"
  have ij: "i < h" "?j < h" "i \<noteq> ?j" using i by auto
  have my: "mirror (mirrors_y mode) h i = ?j" "mirror (mirrors_y mode) h ?j = i" "\<not> mirrors_x mode"
    using ij by (auto simp: mode mirrors_y_def mirrors_x_def mirror_def)
  have dis: "{?t..<?t + ?n} \<inter> {?b..<?b + ?n} = {}"
    using rows_apart [OF lay ij] by (simp only: row_of_def)
  have "flip_item True es c w h src_rows
      \<lparr>row_ptr = dst, row_stride = ds, row_sizeof = es, row_channels = c\<rparr> mode i m
    = rearrange (both ?t ?b ?n) (exchanged ?t ?b ?n) m"
    using swap_row_pair_in_place_rearrange [OF es _ dis, of w c m]
    unfolding flip_item_def Let_def my flip_dst_rows [OF lay ij(1)] flip_dst_rows [OF lay ij(2)]
    by (simp add: mode mult.assoc)
  moreover have "moved (dst_byte dst ds) (src_byte mode dst ds w h ?P) (row_index {i, ?j} ?n) m
      (rearrange (both ?t ?b ?n) (exchanged ?t ?b ?n) m)"
  proof (rule moved_rearrange)
    show "both ?t ?b ?n \<subseteq> dst_byte dst ds ` row_index {i, ?j} ?n"
      by (simp add: dst_byte_rows row_of_def both_def)
  next
    fix x
    assume "x \<in> row_index {i, ?j} ?n"
    then obtain y k where x: "x = (y, k)" "y = i \<or> y = ?j" "k < ?n" by (auto simp: row_index_def)
    show "exchanged ?t ?b ?n (dst_byte dst ds x) = src_byte mode dst ds w h ?P x"
      using x(2) exchanged_first [OF x(3), of ?t ?b] exchanged_second [OF dis x(3)] my
      by (auto simp: x(1) dst_byte_def src_byte_def)
    show "src_byte mode dst ds w h ?P x = dst_byte dst ds x" if "dst_byte dst ds x \<notin> both ?t ?b ?n"
      using that x by (auto simp: dst_byte_def both_def)
  qed
  ultimately show ?thesis by (simp add: item_rows_def my)
qed

lemma swapped_reversed_item:
  assumes lay: "flip_layout dst ds w h dst ds (c * es)" and es: "lane_size es" and c: "c = 1 \<or> c = 3"
    and mode: "mirrors_x mode" and i: "i < (if mirrors_y mode then (h + 1) div 2 else h)"
  shows "moved (dst_byte dst ds) (src_byte mode dst ds w h (c * es))
      (row_index (item_rows True mode h i) (w * (c * es))) m
      (flip_item True es c w h src_rows
        \<lparr>row_ptr = dst, row_stride = ds, row_sizeof = es, row_channels = c\<rparr> mode i m)"
proof -
  let ?P = "c * es" and ?j = "mirror (mirrors_y mode) h i"
  let ?n = "w * ?P" and ?t = "dst + i * ds" and ?b = "dst + ?j * ds"
  define num where "num = (if i = ?j then w div 2 else w)"
  have ij: "i < h" "?j < h" using i by (auto split: if_splits)
  have num: "num \<le> w" by (simp add: num_def)
  have P: "0 < ?P" using es c by (auto simp: lane_size_def)
  have dis: "{?t..<?t + num * ?P} \<inter> {?b + (w - num) * ?P..<?b + w * ?P} = {}"
  proof (cases "i = ?j")
    case True
    have "num * ?P \<le> (w - num) * ?P" unfolding num_def using True by (intro mult_le_mono1) simp
    then show ?thesis using True by auto
  next
    case False
    then show ?thesis using rows_apart [OF lay ij False] by (simp only: row_of_def num_def if_False diff_self_eq_0 mult_0 add_0_right)
  qed
  have not_vertical: "(mode = Some KLEIDICV_FLIP_VERTICAL) = False" using mode by (auto simp: mirrors_x_def)
  let ?W = "outer ?t ?b w ?P num" and ?g = "exchanged_reversed ?t ?b w num ?P"
  have "flip_item True es c w h src_rows
      \<lparr>row_ptr = dst, row_stride = ds, row_sizeof = es, row_channels = c\<rparr> mode i m = rearrange ?W ?g m"
    using swap_reversed_row_pair_in_place_rearrange [OF es c refl num dis, of m]
    unfolding flip_item_def Let_def flip_dst_rows [OF lay ij(1)] flip_dst_rows [OF lay ij(2)] num_def
    by (simp only: if_True if_False not_vertical)
  moreover have "moved (dst_byte dst ds) (src_byte mode dst ds w h ?P) (row_index {i, ?j} ?n) m (rearrange ?W ?g m)"
  proof (rule moved_rearrange)
    have "num * ?P \<le> ?n" by (rule mult_le_mono1 [OF num])
    then have "{?t..<?t + num * ?P} \<subseteq> {?t..<?t + ?n}" "{?b + (w - num) * ?P..<?b + ?n} \<subseteq> {?b..<?b + ?n}"
      by auto
    then show "?W \<subseteq> dst_byte dst ds ` row_index {i, ?j} ?n"
      unfolding dst_byte_rows outer_def row_of_def by blast
  next
    fix x
    assume "x \<in> row_index {i, ?j} ?n"
    then obtain y k where x: "x = (y, k)" "y = i \<or> y = ?j" "k < ?n" by (auto simp: row_index_def)
    have base: "turned (dst + mirror (mirrors_y mode) h y * ds) ?n ?P k = src_byte mode dst ds w h ?P x"
      using turned_base [OF x(3) _ P, of "dst + mirror (mirrors_y mode) h y * ds"] mode
      by (simp add: src_byte_def x(1))
    have "?g (dst_byte dst ds x) = src_byte mode dst ds w h ?P x
        \<and> (dst_byte dst ds x \<notin> ?W \<longrightarrow> src_byte mode dst ds w h ?P x = dst_byte dst ds x)"
    proof (cases "i = ?j")
      case True
      then have y: "y = i" "mirror (mirrors_y mode) h y = i" using x(2) by auto
      have at: "dst_byte dst ds x = ?t + k" by (simp add: x(1) y dst_byte_def)
      have src: "src_byte mode dst ds w h ?P x = turned ?t ?n ?P k" using base unfolding y(2) by (rule sym)
      have "turned ?t ?n ?P k = ?t + k" if "?t + k \<notin> outer ?t ?t w ?P (w div 2)"
        using that x(3) by (intro turned_middle [OF _ _ P]) (auto simp: outer_def)
      then show ?thesis
        unfolding at src num_def True [symmetric] if_P [OF refl] by (simp add: exchanged_reversed_def)
    next
      case False
      have W: "?W = row_of dst ds ?n i \<union> row_of dst ds ?n ?j" using False by (simp add: outer_def num_def row_of_def)
      have "?g (?t + k) = turned ?b ?n ?P k" using x(3) False by (simp add: exchanged_reversed_def num_def)
      moreover have "?b + k \<notin> row_of dst ds ?n i"
        using rows_apart [OF lay ij False] x(3) unfolding row_of_def by (auto simp: disjoint_iff)
      then have "?g (?b + k) = turned ?t ?n ?P k"         unfolding exchanged_reversed_def num_def if_not_P [OF False] row_of_def
        by (simp only: if_False add_diff_cancel_left')
      moreover have "mirror (mirrors_y mode) h ?j = i" using ij(1) by simp
      moreover have "dst_byte dst ds x \<in> ?W" using x unfolding W by (auto simp: dst_byte_def row_of_def)
      ultimately show ?thesis using x(2) base by (auto simp: x(1) dst_byte_def)
    qed
    then show "?g (dst_byte dst ds x) = src_byte mode dst ds w h ?P x"
      "dst_byte dst ds x \<notin> ?W \<Longrightarrow> src_byte mode dst ds w h ?P x = dst_byte dst ds x" by simp_all
  qed
  ultimately show ?thesis by (simp add: item_rows_def)
qed

section \<open>The whole image\<close>

lemma flip_validate_OK:
  assumes "flip_validate src ss w h dst ds mode P = KLEIDICV_OK"
  shows "mode \<noteq> None" and "P \<in> {1, 2, 3, 4, 6, 8}"
proof -
  have "flip_validate_as align src ss w h dst ds None \<noteq> KLEIDICV_OK" for align
    by (simp add: flip_validate_as_def Let_def)
  with assms show "mode \<noteq> None" by (cases mode) (simp_all add: flip_validate_def split: if_splits)
  show "P \<in> {1, 2, 3, 4, 6, 8}" using assms by (auto simp: flip_validate_def split: if_splits)
qed

definition scalar_size :: "nat \<Rightarrow> nat" where
  "scalar_size P = (if P = 3 then 1 else if P = 6 then 2 else P)"

definition scalars_per_pixel :: "nat \<Rightarrow> nat" where
  "scalars_per_pixel P = (if P = 3 \<or> P = 6 then 3 else 1)"

lemma pixel_scalars:
  assumes "P \<in> {1, 2, 3, 4, 6, 8}"
  shows "scalars_per_pixel P * scalar_size P = P" and "lane_size (scalar_size P)"
    and "scalars_per_pixel P = 1 \<or> scalars_per_pixel P = 3"
  using assms by (auto simp: scalars_per_pixel_def scalar_size_def lane_size_def)

text \<open>One work item of a call, whichever kernel it uses.\<close>

definition work_item ::
    "nat \<Rightarrow> nat \<Rightarrow> nat \<Rightarrow> nat \<Rightarrow> nat \<Rightarrow> nat \<Rightarrow> flip_mode \<Rightarrow> nat \<Rightarrow> nat \<Rightarrow> mem \<Rightarrow> mem" where
  "work_item src ss w h dst ds mode P =
     (let es = scalar_size P; c = scalars_per_pixel P
      in flip_item (src = dst) es c w h
           \<lparr>row_ptr = src, row_stride = ss, row_sizeof = es, row_channels = c\<rparr>
           \<lparr>row_ptr = dst, row_stride = ds, row_sizeof = es, row_channels = c\<rparr> mode)"

lemma flip_work_items_fold:
  assumes "mode \<noteq> None" and "P \<in> {1, 2, 3, 4, 6, 8}"
  shows "flip_work_items src ss w h dst ds mode P b e m
    = (KLEIDICV_OK, fold (work_item src ss w h dst ds mode P) [b..<e] m)"
proof -
  have "flip_work_items src ss w h dst ds mode P b e m
      = flip_work_items_impl (scalar_size P) (scalars_per_pixel P) src ss w h dst ds mode b e m"
    using assms(2) by (auto simp: flip_work_items_def scalar_size_def scalars_per_pixel_def)
  also have "\<dots> = (KLEIDICV_OK, fold (work_item src ss w h dst ds mode P) [b..<e] m)"
    by (simp add: flip_work_items_impl_def work_item_def Let_def flip_in_place_items [OF assms(1)]
        flip_to_dst_items [OF assms(1)])
  finally show ?thesis .
qed

lemma work_item_moves:
  assumes lay: "flip_layout src ss w h dst ds P" and "mode \<noteq> None" and P: "P \<in> {1, 2, 3, 4, 6, 8}"
    and i: "i < flip_work_item_count h (src = dst) mode"
  shows "moved (dst_byte dst ds) (src_byte mode src ss w h P)
      (row_index (item_rows (src = dst) mode h i) (w * P)) m (work_item src ss w h dst ds mode P i m)"
proof -
  note sp = pixel_scalars [OF P]
  show ?thesis
  proof (cases "src = dst")
    case False
    then show ?thesis
      using copied_item [of src ss w h dst ds "scalars_per_pixel P" "scalar_size P" i mode m] lay i sp
      by (simp add: work_item_def flip_work_item_count_def Let_def)
  next
    case True
    then have ss: "ss = ds" using lay by (simp add: flip_layout_def)
    show ?thesis
    proof (cases "mode = Some KLEIDICV_FLIP_VERTICAL")
      case vertical: True
      then show ?thesis
        using swapped_item [of dst ds w h "scalars_per_pixel P" "scalar_size P" mode i m] lay i sp True ss
        by (simp add: work_item_def flip_work_item_count_def Let_def)
    next
      case False
      with assms(2) have mx: "mirrors_x mode" by (cases rule: mode_cases) (simp_all add: mirrors_x_def)
      have "i < (if mirrors_y mode then (h + 1) div 2 else h)"
        using i True False mx by (auto simp: flip_work_item_count_def mirrors_x_def mirrors_y_def)
      then show ?thesis
        using swapped_reversed_item [of dst ds w h "scalars_per_pixel P" "scalar_size P" mode i m] lay sp True ss mx
        by (simp add: work_item_def Let_def)
    qed
  qed
qed

lemma item_rows_image:
  assumes "i < flip_work_item_count h in_place mode"
  shows "item_rows in_place mode h i \<subseteq> {..<h}"
    and "in_place \<Longrightarrow> mirror (mirrors_y mode) h ` item_rows in_place mode h i = item_rows in_place mode h i"
proof -
  have i: "i < h" using assms by (auto simp: flip_work_item_count_def split: if_splits)
  then show "item_rows in_place mode h i \<subseteq> {..<h}" by (auto simp: item_rows_def)
  show "in_place \<Longrightarrow> mirror (mirrors_y mode) h ` item_rows in_place mode h i = item_rows in_place mode h i"
    using i by (auto simp: item_rows_def)
qed

lemma item_rows_disjoint:
  assumes "i < flip_work_item_count h in_place mode" and "j < flip_work_item_count h in_place mode"
    and "i \<noteq> j"
  shows "item_rows in_place mode h i \<inter> item_rows in_place mode h j = {}"
  using assms by (auto simp: item_rows_def flip_work_item_count_def mirror_def mirrors_y_def split: if_splits)

lemma work_items_apart:
  assumes lay: "flip_layout src ss w h dst ds P" and "0 < P"
    and i: "i < flip_work_item_count h (src = dst) mode" and j: "j < flip_work_item_count h (src = dst) mode"
    and "i \<noteq> j"
  shows "dst_byte dst ds ` row_index (item_rows (src = dst) mode h i) (w * P)
      \<inter> dst_byte dst ds ` row_index (item_rows (src = dst) mode h j) (w * P) = {}"
    and "dst_byte dst ds ` row_index (item_rows (src = dst) mode h i) (w * P)
      \<inter> src_byte mode src ss w h P ` row_index (item_rows (src = dst) mode h j) (w * P) = {}"
proof -
  let ?I = "item_rows (src = dst) mode h i" and ?J = "item_rows (src = dst) mode h j"
  have sub: "?I \<subseteq> {..<h}" "?J \<subseteq> {..<h}" using item_rows_image(1) i j by blast+
  have dis: "?I \<inter> ?J = {}" by (rule item_rows_disjoint [OF i j assms(5)])
  have rows: "row_of dst ds (w * P) y \<inter> row_of dst ds (w * P) z = {}" if "y \<in> ?I" "z \<in> ?J" for y z
  proof -
    have "y < h" "z < h" "y \<noteq> z" using sub dis that by auto
    then show ?thesis by (rule rows_apart [OF lay])
  qed
  then show "dst_byte dst ds ` row_index ?I (w * P) \<inter> dst_byte dst ds ` row_index ?J (w * P) = {}"
    unfolding dst_byte_rows by blast
  have "src_byte mode src ss w h P ` row_index ?J (w * P)
      \<subseteq> (\<Union>y \<in> mirror (mirrors_y mode) h ` ?J. row_of src ss (w * P) y)"
    using sub(2) by (intro src_byte_rows assms(2)) auto
  moreover have "row_of dst ds (w * P) y \<inter> row_of src ss (w * P) z = {}"
    if "y \<in> ?I" "z \<in> mirror (mirrors_y mode) h ` ?J" for y z
  proof (cases "src = dst")
    case True
    then have "ss = ds" using lay by (simp add: flip_layout_def)
    moreover have "z \<in> ?J" using that(2) item_rows_image(2) [OF j] True by blast
    ultimately show ?thesis using rows [OF that(1)] True by simp
  next
    case False
    have "y < h" "z < h" using that sub by auto
    then show ?thesis using images_apart [OF lay False] by blast
  qed
  ultimately show "dst_byte dst ds ` row_index ?I (w * P)
      \<inter> src_byte mode src ss w h P ` row_index ?J (w * P) = {}"
    unfolding dst_byte_rows by blast
qed

text \<open>
  Every row belongs to a work item, but the middle row of a vertical flip in place, which is its own
  source.
\<close>

definition idle_row :: "bool \<Rightarrow> flip_mode \<Rightarrow> nat \<Rightarrow> nat \<Rightarrow> bool" where
  "idle_row in_place mode h y \<longleftrightarrow> in_place \<and> mode = Some KLEIDICV_FLIP_VERTICAL \<and> h - 1 - y = y"

lemma rows_covered:
  assumes "mode \<noteq> None" and "y < h" and "\<not> idle_row in_place mode h y"
  shows "\<exists>i < flip_work_item_count h in_place mode. y \<in> item_rows in_place mode h i"
proof (cases in_place)
  case False
  then show ?thesis
    using assms(2) by (intro exI [of _ "mirror (mirrors_y mode) h y"])
      (simp add: flip_work_item_count_def item_rows_def)
next
  case True
  with assms show ?thesis
    by (cases rule: mode_cases, intro exI [of _ y]; (intro exI [of _ "min y (h - 1 - y)"])?)
      (auto simp: flip_work_item_count_def item_rows_def mirrors_y_def mirror_def idle_row_def)
qed

lemma idle_row_apart:
  assumes "idle_row in_place mode h y" and "y < h" and "i < flip_work_item_count h in_place mode"
  shows "y \<notin> item_rows in_place mode h i"
  using assms by (auto simp: idle_row_def flip_work_item_count_def item_rows_def mirrors_y_def mirror_def)

lemma moved_extend:
  assumes "moved D S J m m'" and "J \<subseteq> K"
    and "\<And>i. i \<in> K \<Longrightarrow> i \<notin> J \<Longrightarrow> S i = D i \<and> D i \<notin> D ` J"
  shows "moved D S K m m'"
  using assms unfolding moved_def by (smt (verit) image_iff subsetD)

lemma flip_moves:
  assumes lay: "flip_layout src ss w h dst ds P"
    and ok: "flip_validate src ss w h dst ds mode P = KLEIDICV_OK"
  shows "row_operation (work_item src ss w h dst ds mode P) (flip_work_item_count h (src = dst) mode)"
    and "kleidicv_flip src ss w h dst ds mode P m
      = (KLEIDICV_OK, if w = 0 \<or> h = 0 then m
         else fold (work_item src ss w h dst ds mode P) [0..<flip_work_item_count h (src = dst) mode] m)"
    and "moved (dst_byte dst ds) (src_byte mode src ss w h P) (row_index {..<h} (w * P)) m
      (snd (kleidicv_flip src ss w h dst ds mode P m))"
proof -
  note ok' = flip_validate_OK [OF ok]
  have P: "0 < P" using ok'(2) by auto
  let ?n = "flip_work_item_count h (src = dst) mode" and ?rows = "item_rows (src = dst) mode h"
  let ?D = "dst_byte dst ds" and ?S = "src_byte mode src ss w h P"
  let ?J = "\<lambda>i. row_index (?rows i) (w * P)"
  note items = moved_items [of ?n ?D ?S ?J "work_item src ss w h dst ds mode P",
      OF work_item_moves [OF lay ok'] conjI [OF work_items_apart [OF lay P]]]
  show "row_operation (work_item src ss w h dst ds mode P) ?n" by (rule items(1))
  show eq: "kleidicv_flip src ss w h dst ds mode P m
      = (KLEIDICV_OK, if w = 0 \<or> h = 0 then m else fold (work_item src ss w h dst ds mode P) [0..<?n] m)"
    by (simp add: kleidicv_flip_def flip_def ok Let_def flip_work_items_fold [OF ok'])
  show "moved ?D ?S (row_index {..<h} (w * P)) m (snd (kleidicv_flip src ss w h dst ds mode P m))"
  proof (cases "w = 0 \<or> h = 0")
    case True
    then show ?thesis by (auto simp: eq moved_def row_index_def)
  next
    case False
    have "moved ?D ?S (row_index {..<h} (w * P)) m (fold (work_item src ss w h dst ds mode P) [0..<?n] m)"
    proof (rule moved_extend [OF items(2)])
      show "(\<Union>i < ?n. ?J i) \<subseteq> row_index {..<h} (w * P)"
        using item_rows_image(1) by (fastforce simp: row_index_def)
    next
      fix x
      assume x: "x \<in> row_index {..<h} (w * P)" "x \<notin> (\<Union>i < ?n. ?J i)"
      then obtain y k where yk: "x = (y, k)" "y < h" "k < w * P" by (auto simp: row_index_def)
      have "idle_row (src = dst) mode h y"
        using rows_covered [OF ok'(1) yk(2), of "src = dst"] x yk by (auto simp: row_index_def)
      then have "src = dst" "?S x = ?D x" and off: "\<And>i. i < ?n \<Longrightarrow> y \<notin> ?rows i"
        using lay idle_row_apart [OF _ yk(2)]
        by (auto simp: idle_row_def flip_layout_def yk(1) src_byte_def dst_byte_def mirror_def
            mirrors_x_def mirrors_y_def)
      moreover have "?D x \<notin> ?D ` ?J i" if i: "i < ?n" for i
      proof -
        have "row_of dst ds (w * P) y \<inter> row_of dst ds (w * P) z = {}" if "z \<in> ?rows i" for z
        proof -
          have "z < h" using item_rows_image(1) [OF i] that by blast
          moreover have "y \<noteq> z" using off [OF i] that by blast
          ultimately show ?thesis by (intro rows_apart [OF lay yk(2)])
        qed
        moreover have "?D x \<in> row_of dst ds (w * P) y" using yk by (simp add: dst_byte_def row_of_def)
        ultimately show ?thesis unfolding dst_byte_rows by blast
      qed
      ultimately show "?S x = ?D x \<and> ?D x \<notin> ?D ` (\<Union>i < ?n. ?J i)" by blast
    qed
    with False show ?thesis by (simp add: eq)
  qed
qed

text \<open>The source of a byte in place is the destination of another one, and the other way round.\<close>

definition partner :: "flip_mode \<Rightarrow> nat \<Rightarrow> nat \<Rightarrow> nat \<Rightarrow> nat \<times> nat \<Rightarrow> nat \<times> nat" where
  "partner mode w h P = (\<lambda>(y, k). (mirror (mirrors_y mode) h y, if mirrors_x mode then turned 0 (w * P) P k else k))"

lemma src_byte_partner: "src_byte mode base stride w h P x = dst_byte base stride (partner mode w h P x)"
  by (simp add: src_byte_def dst_byte_def partner_def case_prod_beta)

lemma turned_turned:
  assumes "k < w * P" and "0 < P"
  shows "turned 0 (w * P) P (turned 0 (w * P) P k) = k"
proof -
  have q: "k div P < w" using assms by (simp add: less_mult_imp_div_less)
  have eq: "turned 0 (w * P) P (i * P + k mod P) = (w - 1 - i) * P + k mod P" if "i < w" for i
    using turned_lane [OF that, of "k mod P" P 0] assms(2) by simp
  have "turned 0 (w * P) P k = (w - 1 - k div P) * P + k mod P"
    using eq [OF q] by (simp only: div_mult_mod_eq)
  moreover have "turned 0 (w * P) P ((w - 1 - k div P) * P + k mod P) = (w - 1 - (w - 1 - k div P)) * P + k mod P"
    by (rule eq) (use q in simp)
  moreover have "w - 1 - (w - 1 - k div P) = k div P" using q by simp
  ultimately show ?thesis by (simp only: div_mult_mod_eq)
qed

lemma partner_involution:
  assumes "x \<in> row_index {..<h} (w * P)" and "0 < P"
  shows "partner mode w h P x \<in> row_index {..<h} (w * P)" and "partner mode w h P (partner mode w h P x) = x"
proof -
  obtain y k where x: "x = (y, k)" "y < h" "k < w * P" using assms(1) by (auto simp: row_index_def)
  have "turned 0 (w * P) P k < w * P" using turned_bounds(2) [OF assms(2) x(3), of 0] by simp
  then show "partner mode w h P x \<in> row_index {..<h} (w * P)"
    using x(2,3) by (simp add: x(1) partner_def row_index_def)
  show "partner mode w h P (partner mode w h P x) = x"
    using x(2,3) turned_turned [OF x(3) assms(2)] by (simp add: x(1) partner_def)
qed

section \<open>Properties\<close>

text \<open>
  C27. Flipping an image, horizontally, vertically or both, into another image or in place: when the
  arguments are accepted, every byte of every pixel is the one of the mirrored pixel of the source,
  for all widths and heights (the middle column and the middle row of odd sizes included), all pixel
  sizes and all strides; no byte outside the destination image changes, not even between its rows.
  Three- and six-byte pixels need no more alignment than their components, as the code checks it;
  \<^verbatim>\<open>kleidicv.h\<close> asks for a multiple of the pixel size.
\<close>

theorem flip_image:
  assumes ok: "flip_validate src ss w h dst ds mode P = KLEIDICV_OK" and lay: "flip_layout src ss w h dst ds P"
  shows "case kleidicv_flip src ss w h dst ds mode P m of (err, m') \<Rightarrow>
    err = KLEIDICV_OK
    \<and> (\<forall>y < h. \<forall>x < w. \<forall>j < P. m' (dst + y * ds + (x * P + j))
        = m (src + mirror (mirrors_y mode) h y * ss + (mirror (mirrors_x mode) w x * P + j)))
    \<and> (\<forall>a. (\<forall>y < h. a \<notin> row_of dst ds (w * P) y) \<longrightarrow> m' a = m a)"
proof -
  obtain m' where eq: "kleidicv_flip src ss w h dst ds mode P m = (KLEIDICV_OK, m')"
    using flip_moves(2) [OF lay ok, of m] by metis
  have moved: "moved (dst_byte dst ds) (src_byte mode src ss w h P) (row_index {..<h} (w * P)) m m'"
    using flip_moves(3) [OF lay ok, of m] by (simp add: eq)
  have "m' (dst + y * ds + (x * P + j)) = m (src + mirror (mirrors_y mode) h y * ss + (mirror (mirrors_x mode) w x * P + j))"
    if "y < h" "x < w" "j < P" for y x j
  proof -
    have "x * P + j < (x + 1) * P" using that(3) by simp
    also have "\<dots> \<le> w * P" using that(2) by (intro mult_le_mono1) simp
    finally have "(y, x * P + j) \<in> row_index {..<h} (w * P)" using that(1) by (simp add: row_index_def)
    with moved have "m' (dst_byte dst ds (y, x * P + j)) = m (src_byte mode src ss w h P (y, x * P + j))"
      by (simp add: moved_def)
    then show ?thesis
      using turned_lane [OF that(2,3), of 0] by (simp add: dst_byte_def src_byte_def mirror_def)
  qed
  moreover have "m' a = m a" if "\<forall>y < h. a \<notin> row_of dst ds (w * P) y" for a
    using moved that unfolding moved_def dst_byte_rows by blast
  ultimately show ?thesis by (simp add: eq)
qed

theorem flip_image_witness:
  "case kleidicv_flip 100 8 5 3 100 8 (Some KLEIDICV_FLIP_BOTH) 1 (\<lambda>a. word_of_nat a) of (err, m') \<Rightarrow>
    err = KLEIDICV_OK \<and> m' 100 = 120 \<and> m' 108 = 112 \<and> m' 110 = 110 \<and> m' 119 = 101 \<and> m' 106 = 106"
proof -
  let ?m = "\<lambda>a. word_of_nat a :: u8"
  have "flip_validate 100 8 5 3 100 8 (Some KLEIDICV_FLIP_BOTH) 1 = KLEIDICV_OK"
    by (simp add: flip_validate_def flip_validate_as_def make_pointer_check_alignment_def
        check_pointer_and_stride_def check_image_size_def mul_overflow_def size_wrap_def size_max_def
        nullptr_def KLEIDICV_MAX_IMAGE_PIXELS_def)
  moreover have "flip_layout 100 8 5 3 100 8 1" by (auto simp: flip_layout_def size_max_def)
  ultimately have image: "case kleidicv_flip 100 8 5 3 100 8 (Some KLEIDICV_FLIP_BOTH) 1 ?m of (err, m') \<Rightarrow>
    err = KLEIDICV_OK
    \<and> (\<forall>y < 3. \<forall>x < 5. \<forall>j < 1. m' (100 + y * 8 + (x * 1 + j))
        = ?m (100 + mirror (mirrors_y (Some KLEIDICV_FLIP_BOTH)) 3 y * 8
            + (mirror (mirrors_x (Some KLEIDICV_FLIP_BOTH)) 5 x * 1 + j)))
    \<and> (\<forall>a. (\<forall>y < 3. a \<notin> row_of 100 8 (5 * 1) y) \<longrightarrow> m' a = ?m a)"
    by (rule flip_image)
  obtain err m' where eq: "kleidicv_flip 100 8 5 3 100 8 (Some KLEIDICV_FLIP_BOTH) 1 ?m = (err, m')"
    by fastforce
  have pixel: "m' (100 + y * 8 + x) = ?m (100 + (2 - y) * 8 + (4 - x))" if "y < 3" "x < 5" for y x
    using image [unfolded eq prod.case] that by (simp add: mirror_def mirrors_x_def mirrors_y_def)
  have "\<forall>y < 3. (106 :: nat) \<notin> row_of 100 8 (5 * 1) y"
    unfolding row_of_def atLeastLessThan_iff by presburger
  then have "m' 106 = ?m 106" using image [unfolded eq prod.case] by blast
  then show ?thesis
    using image [unfolded eq prod.case] pixel [of 0 0] pixel [of 1 0] pixel [of 1 2] pixel [of 2 3]
    unfolding eq prod.case by simp
qed

text \<open>
  C37. The threaded flip gives the result of the single call, bit for bit, whatever the scheduler: the
  work items of an in-place flip own pairs of rows, so no two of them touch the same row. The same
  holds when the arguments are rejected and when there is nothing to do.
\<close>

theorem threaded_flip_one_call:
  assumes "scheduler mt max_tasks"
    and "max 1 (flip_work_item_count h (src = dst) mode) \<le> max_tasks"
    and lay: "flip_layout src ss w h dst ds P"
  shows "kleidicv_thread_flip (flip_validate src ss w h dst ds mode P)
      (flip_work_item_count h (src = dst) mode) (flip_work_items src ss w h dst ds mode P) mt w h m
    = kleidicv_flip src ss w h dst ds mode P m"
proof (cases "flip_validate src ss w h dst ds mode P = KLEIDICV_OK")
  case False
  then show ?thesis by (simp add: kleidicv_thread_flip_def kleidicv_flip_def flip_def Let_def)
next
  case True
  let ?n = "flip_work_item_count h (src = dst) mode"
  have "row_stripes (work_item src ss w h dst ds mode P) ?n (flip_work_items src ss w h dst ds mode P)"
    by (simp add: row_stripes_def flip_work_items_fold [OF flip_validate_OK [OF True]])
  then have "parallel_batches (flip_work_items src ss w h dst ds mode P) mt ?n 1 m
      = (KLEIDICV_OK, fold (work_item src ss w h dst ds mode P) [0..<?n] m)"
    using parallel_rows [OF assms(1) flip_moves(1) [OF lay True]] assms(2) by simp
  then show ?thesis by (simp add: kleidicv_thread_flip_def flip_moves(2) [OF lay True] True)
qed

theorem threaded_flip_one_call_witness:
  "kleidicv_thread_flip (flip_validate 100 8 5 3 100 8 (Some KLEIDICV_FLIP_BOTH) 1)
      (flip_work_item_count 3 (100 = (100 :: nat)) (Some KLEIDICV_FLIP_BOTH))
      (flip_work_items 100 8 5 3 100 8 (Some KLEIDICV_FLIP_BOTH) 1) (example_parallel 2) 5 3 (\<lambda>a. word_of_nat a)
    = kleidicv_flip 100 8 5 3 100 8 (Some KLEIDICV_FLIP_BOTH) 1 (\<lambda>a. word_of_nat a)"
  by (rule threaded_flip_one_call [OF two_workers])
    (auto simp: flip_work_item_count_def flip_layout_def size_max_def)

text \<open>
  Flipping in place twice in the same way gives back the memory as it was.
\<close>

lemma flip_in_place_twice:
  assumes ok: "flip_validate base stride w h base stride mode P = KLEIDICV_OK"
    and lay: "flip_layout base stride w h base stride P"
  shows "kleidicv_flip base stride w h base stride mode P
      (snd (kleidicv_flip base stride w h base stride mode P m)) = (KLEIDICV_OK, m)"
proof -
  let ?flip = "kleidicv_flip base stride w h base stride mode P"
  let ?D = "dst_byte base stride" and ?p = "partner mode w h P" and ?J = "row_index {..<h} (w * P)"
  have P: "0 < P" using flip_validate_OK [OF ok] by auto
  have step: "(\<forall>x \<in> ?J. snd (?flip s) (?D x) = s (?D (?p x))) \<and> (\<forall>a. a \<notin> ?D ` ?J \<longrightarrow> snd (?flip s) a = s a)" for s
    using flip_moves(3) [OF lay ok, of s] by (simp add: moved_def src_byte_partner)
  have "snd (?flip (snd (?flip m))) a = m a" for a
  proof (cases "a \<in> ?D ` ?J")
    case True
    then obtain x where "x \<in> ?J" "a = ?D x" by blast
    then show ?thesis using step partner_involution [OF _ P, of x h w mode] by simp
  next
    case False
    then show ?thesis using step by simp
  qed
  then have "snd (?flip (snd (?flip m))) = m" by blast
  then show ?thesis using flip_moves(2) [OF lay ok, of "snd (?flip m)"] by (simp add: prod_eq_iff)
qed

lemma flip_in_place_twice_example:
  "kleidicv_flip 100 8 5 3 100 8 (Some KLEIDICV_FLIP_HORIZONTAL) 1
      (snd (kleidicv_flip 100 8 5 3 100 8 (Some KLEIDICV_FLIP_HORIZONTAL) 1 (\<lambda>a. word_of_nat a)))
    = (KLEIDICV_OK, \<lambda>a. word_of_nat a)"
  by (rule flip_in_place_twice)
    (auto simp: flip_validate_def flip_validate_as_def make_pointer_check_alignment_def flip_layout_def
      check_pointer_and_stride_def check_image_size_def mul_overflow_def size_wrap_def size_max_def
      nullptr_def KLEIDICV_MAX_IMAGE_PIXELS_def)

end
