(* ===== verification/Spec2Isabelle.thy ===== *)
theory Spec2Isabelle
  imports Heap_Array Cpu_List Sme_Limiter Loop_Unroll Add_Padding Threaded_Elementwise Count_Nonzeros
    Threaded_Analysis Gaussian_Blur Sobel Separable_Filter_2D Median_Filter Flip
begin

text \<open>
  A model of KleidiCV, a library of image operations for AArch64 written in C++ behind a C
  interface. An operation checks its arguments, then runs a kernel over the rows of the image. The
  kernels exist in several variants (Neon, SVE2, SME); the variant is chosen when the library is
  loaded. The threaded interface (\<^verbatim>\<open>kleidicv_thread/\<close>) wraps the operations: it
  cuts the rows of an image into batches and hands them to a scheduler the caller provides. On
  machines whose cores share SME units a limiter decides batch by batch whether the SME or the CPU
  variant runs.

  \<^bold>\<open>Theories and the code they model\<close>

  \<^item> \<open>Kcv_Prelude\<close>: machine integers (\<open>u8\<close> to \<open>u64\<close> are words; \<^verbatim>\<open>size_t\<close> is a
    natural number, and \<open>size_wrap\<close> is written wherever the code's arithmetic may leave the 64-bit
    range), rewrite collections, the interface \<open>indexed_store\<close>.
  \<^item> \<open>Kcv_Types\<close>: \<^verbatim>\<open>ctypes.h\<close> (error codes, rectangles, border, flip and
    interpolation modes) and the image limits of \<^verbatim>\<open>kleidicv.h\<close>.
  \<^item> \<open>Kcv_Utils\<close>: \<^verbatim>\<open>utils.h\<close>: saturating casts, rounding shifts and the argument
    checks behind the \<^verbatim>\<open>CHECK_*\<close> macros. A check returns the error that the macro
    returns from the operation.
  \<^item> \<open>Loop_Unroll\<close>: \<^verbatim>\<open>LoopUnroll\<close> and \<^verbatim>\<open>LoopUnroll2\<close>, with the
    overlapping last vector of \<^verbatim>\<open>TryToAvoidTailLoop\<close>; a callback acts on the caller's
    state.
  \<^item> \<open>Kcv_Memory\<close>: the byte memory the kernels write.
  \<^item> \<open>Row_Operations\<close>: the locales \<open>row_operation\<close> and \<open>element_operation\<close>, what makes
    work divisible: steps that do not interfere.
  \<^item> \<open>Heap_Array\<close>: the owning array of the threaded layer, \<^verbatim>\<open>heap_array.h\<close>.
  \<^item> \<open>Thread_Batches\<close>: \<open>parallel_batches\<close> and the SME and CPU hybrid of
    \<^verbatim>\<open>kleidicv_thread.cpp\<close>. The scheduler is the function argument
    \<^verbatim>\<open>mt.parallel\<close>: the locale \<open>scheduler\<close> states its contract from
    \<^verbatim>\<open>kleidicv_thread.h\<close> and is interpreted on the scheduler of
    \<^verbatim>\<open>examples/threading/main.cpp\<close>.
  \<^item> \<open>Thread_Ops\<close>: the threaded operations; the single-threaded kernel they call is an argument,
    as it is in the templates of the code.
  \<^item> \<open>Thread_Reduce\<close>: the threaded minimum and maximum and their locations.
  \<^item> \<open>Sme_Registers\<close>, \<open>Sme_Topology\<close>, \<open>Cpu_List\<close>, \<open>Sme_Limiter\<close>:
    \<^verbatim>\<open>sme_thread_limiter.h\<close> and \<^verbatim>\<open>.cpp\<close>: decoding of the
    identification registers, grouping of the CPUs into domains that share units, the readers of
    the files under \<^verbatim>\<open>/sys\<close> (system calls as events), and the counters: the
    sequential operations, and \<open>limiter_step\<close>, the interleavings of any number of threads, where a
    relaxed load may return any value the counter has had.
  \<^item> \<open>Padding_Kernels\<close>, \<open>Add_Padding\<close>: padding by copy, from the Neon kernels
    (\<^verbatim>\<open>add_padding_by_copy_neon.cpp\<close>, vectors as lists of lanes) over the row
    fillers, index tables and stripes of \<^verbatim>\<open>add_padding_by_copy_common.h\<close> to the
    checks and the API call.

  \<^item> \<open>Kcv_Rows\<close>, \<open>Kcv_Elements\<close>, \<open>Row_Based_Operation\<close>, \<open>Operation_Adapters\<close>,
    \<open>Block_Operation\<close>, \<open>Block_Sinks\<close>: the \<^verbatim>\<open>Rows\<close> and
    \<^verbatim>\<open>Columns\<close> of \<^verbatim>\<open>types.h\<close> with their pointer arithmetic, and the
    drivers of \<^verbatim>\<open>operations.h\<close> and \<^verbatim>\<open>neon.h\<close> that run a vector and a
    scalar path over the rows of an image, or over blocks of vectors.
  \<^item> \<open>Image_Results\<close>: what such a run does to an image, proved once for all kernels.
  \<^item> \<open>Saturating_Lanes\<close>, \<open>Elementwise_Ops\<close>, \<open>Threaded_Elementwise\<close>: saturating
    arithmetic, comparisons, thresholds and masks of \<^verbatim>\<open>kleidicv/src/arithmetics/\<close>,
    alone and below the threaded interface.
  \<^item> \<open>Min_Max\<close>, \<open>Count_Nonzeros\<close>, \<open>Min_Max_Loc\<close>, \<open>Threaded_Analysis\<close>:
    the reductions of \<^verbatim>\<open>kleidicv/src/analysis/\<close>; the lane accumulators are abstracted to
    the minimum, the count or the first position of the image.
  \<^item> \<open>Border_Coordinates\<close>, \<open>Fixed_Borders\<close>: the coordinate a border type assigns, and the
    offset tables of \<^verbatim>\<open>workspace/border_NxN.h\<close>.
  \<^item> \<open>Store_Loops\<close>, \<open>Separable_Filter\<close>, \<open>Separable_Rows\<close>, \<open>Separable_Image\<close>:
    the drivers of \<^verbatim>\<open>separable_filter_NxN_neon.h\<close> and the workspace of
    \<^verbatim>\<open>workspace/separable.h\<close> for an arbitrary filter. The locale \<open>separable_filter\<close> is
    the contract of a filter: its vector paths work lane by lane.
  \<^item> \<open>Gaussian_Kernels\<close>, \<open>Gaussian_Sigma\<close>, \<open>Gaussian_Blur\<close>: the filters of
    \<^verbatim>\<open>gaussian_blur_fixed_neon.cpp\<close>, the coefficients of \<^verbatim>\<open>sigma.h\<close> over
    an arbitrary float arithmetic, and the operation with its checks. The passes of the filter with
    given coefficients add up in 16 bits and may wrap around; the operation is described as it is, with
    the exact sums where the coefficients rule that out, and an image where it happens.
  \<^item> \<open>Filter_Images\<close>: what the stripe of a filter does to an image, for any filter of the contract.
  \<^item> \<open>Sobel\<close>, \<open>Separable_Filter_2D\<close>: the gradients of \<^verbatim>\<open>sobel_neon.cpp\<close>
    and the filter with given coefficients of \<^verbatim>\<open>separable_filter_2d_neon.cpp\<close>, with
    their checks and operations.
  \<^item> \<open>Median_Networks\<close>: the sorting networks of \<^verbatim>\<open>median_blur_sorting_network_NxN.h\<close>
    as lists of comparator steps; the proofs run them on bits (the zero-one principle) and evaluate
    test vectors.
  \<^item> \<open>Image_Writes\<close>, \<open>Filter_2D\<close>, \<open>Median_Filter\<close>: operations that write elements in any
    order and more than once; the window loaders and drivers of
    \<^verbatim>\<open>filter_2d_neon.h\<close> and \<^verbatim>\<open>process_filter_2d.h\<close> for a filter that
    meets the locale \<open>window_kernel\<close> (its extension \<open>dual_window_kernel\<close> handles two rows at a time);
    the median filter of \<^verbatim>\<open>median_blur_sorting_network_neon.cpp\<close> with its checks and
    operations, alone and below the threaded interface.
  \<^item> \<open>Flip_Kernels\<close>, \<open>Flip\<close>: the row kernels of \<^verbatim>\<open>flip_neon.cpp\<close> that copy or
    exchange rows, forwards or reversed, the work items into a destination and in place, and the checks
    and the operation of \<^verbatim>\<open>flip.h\<close> and \<^verbatim>\<open>flip_api.cpp\<close>, alone and below
    the threaded interface.

  \<^bold>\<open>What the lemmas show\<close>

  A threaded call gives the result of one call over all rows, whatever schedule the scheduler picks
  and in any interleaving of the rows (\<open>Thread_Batches\<close>), and the concrete threaded operations,
  rotation, padding, flips, filters and the reductions included, are instances of it. The
  limiter never lets more threads into a domain than it has units, loses none, always admits a
  thread when one is free, and the topology it works on is the one the registers describe. The
  unrolled vector loops do the work of the element loop. The padded image is, byte by byte, the one
  its border type defines, for each of the six strategies. The separable filters store, for every
  channel of every pixel, the two-dimensional sum over the continued image, rounded or cut off as the
  theorem of each filter says, and write nothing but the destination and their workspace. The median
  filter stores the median of each window; its networks are correct for every element type because
  they are correct for bits. A flip moves every byte to its mirrored pixel and touches no other, in
  place too, and twice in place is no change.

  \<^bold>\<open>Bounds and fuel\<close>

  No definition uses fuel: loops are structural or have a measure (\<open>rewind_loop\<close>, the CPU list
  passes), and \<open>raw_read_loop\<close> recurses over the events the kernel delivers. The loop over the
  blocks of a reduction may not end, so \<open>block_loop\<close> is a partial function, and
  \<open>process_blocks_terminates\<close> says when it returns. Where the code relies
  on a size limit the limit is a hypothesis of the property and follows from its checks.

  \<^bold>\<open>Not modelled\<close>

  The scalable-vector and SME kernels (they need a model of predicated vectors of unknown length);
  kernels on floating-point pixels, the optical flow solver, remap and warp (their correctness is a
  rounding-error bound over IEEE arithmetic); the edge detector, the colour conversions, morphology,
  resizing, rotation and transposition, and the filters of larger or arbitrary kernel sizes, of which
  at most the threaded entry points are here; the OpenCV adapter (glue); build-time dispatch. The
  Neon intrinsics are modelled lane by lane; prefetching has no effect in the model.
\<close>

end
